(* ===== verification/Prelude.thy ===== *)
theory Prelude
  imports Main "HOL-Library.Word"
begin

text \<open>
  Shared vocabulary of the development: the widths the firmware uses, the
  collections of simplification rules the component theories extend, and the
  generic list lemmas that several components need.
\<close>

section \<open>Machine integers\<close>

type_synonym u8 = "8 word"
type_synonym u16 = "16 word"
type_synonym u32 = "32 word"

lemma u32_bound: "unat (x :: u32) < 2 ^ 32"
proof -
  have "unat x < 2 ^ LENGTH(32)" by (rule unsigned_less)
  then show ?thesis by simp
qed

lemma u16_bound: "unat (x :: u16) < 2 ^ 16"
proof -
  have "unat x < 2 ^ LENGTH(16)" by (rule unsigned_less)
  then show ?thesis by simp
qed

lemma u8_bound: "unat (x :: u8) < 2 ^ 8"
proof -
  have "unat x < 2 ^ LENGTH(8)" by (rule unsigned_less)
  then show ?thesis by simp
qed

section \<open>Collections\<close>

named_theorems kernel_defs \<open>definitions of the kernel operations\<close>
named_theorems step_simps \<open>evaluation rules of the suspension structure\<close>
named_theorems inv_intros \<open>preservation lemmas of the kernel invariant\<close>

section \<open>Priority-ordered insertion\<close>

text \<open>
  The insertion point used by every priority-ordered list of the kernel: before
  the first element whose priority is lower than the priority of the new one, so
  that elements of equal priority keep their arrival order.
\<close>

fun prio_ins :: "('n \<Rightarrow> nat) \<Rightarrow> 'n \<Rightarrow> 'n list \<Rightarrow> 'n list" where
  "prio_ins pr t [] = [t]"
| "prio_ins pr t (c # cs) = (if pr t \<le> pr c then c # prio_ins pr t cs else t # c # cs)"

definition prio_sorted :: "('n \<Rightarrow> nat) \<Rightarrow> 'n list \<Rightarrow> bool" where
  "prio_sorted pr xs \<longleftrightarrow> sorted_wrt (\<lambda>a b. pr b \<le> pr a) xs"

lemma prio_sorted_Nil [simp]: "prio_sorted pr []"
  by (simp add: prio_sorted_def)

lemma prio_sorted_Cons [simp]:
  "prio_sorted pr (x # xs) \<longleftrightarrow> (\<forall>y \<in> set xs. pr y \<le> pr x) \<and> prio_sorted pr xs"
  by (simp add: prio_sorted_def)

lemma prio_sorted_append:
  "prio_sorted pr (xs @ ys) \<longleftrightarrow>
     prio_sorted pr xs \<and> prio_sorted pr ys \<and> (\<forall>x \<in> set xs. \<forall>y \<in> set ys. pr y \<le> pr x)"
  by (simp add: prio_sorted_def sorted_wrt_append)

lemma prio_ins_split:
  "prio_ins pr t xs = takeWhile (\<lambda>c. pr t \<le> pr c) xs @ t # dropWhile (\<lambda>c. pr t \<le> pr c) xs"
  by (induction xs) auto

lemma set_prio_ins [simp]: "set (prio_ins pr t xs) = insert t (set xs)"
  by (induction xs) auto

lemma length_prio_ins [simp]: "length (prio_ins pr t xs) = Suc (length xs)"
  by (induction xs) auto

lemma prio_ins_not_Nil [simp]: "prio_ins pr t xs \<noteq> []"
  by (cases xs) auto

lemma distinct_prio_ins [simp]:
  "distinct (prio_ins pr t xs) \<longleftrightarrow> t \<notin> set xs \<and> distinct xs"
  by (induction xs) auto

lemma prio_sorted_prio_ins [simp]:
  "prio_sorted pr xs \<Longrightarrow> prio_sorted pr (prio_ins pr t xs)"
  by (induction xs) auto

lemma prio_ins_cong:
  assumes "\<And>x. x \<in> insert t (set xs) \<Longrightarrow> pr x = pr' x"
  shows "prio_ins pr t xs = prio_ins pr' t xs"
  using assms by (induction xs) auto

lemma prio_sorted_cong:
  assumes "\<And>x. x \<in> set xs \<Longrightarrow> pr x = pr' x"
  shows "prio_sorted pr xs = prio_sorted pr' xs"
  using assms by (induction xs) auto

lemma prio_ins_last:
  "\<forall>x \<in> set xs. pr t \<le> pr x \<Longrightarrow> prio_ins pr t xs = xs @ [t]"
  by (induction xs) auto

lemma filter_prio_ins:
  "filter (\<lambda>x. x \<noteq> t) (prio_ins pr t xs) = filter (\<lambda>x. x \<noteq> t) xs"
  by (induction xs) auto

lemma remove1_prio_ins:
  "t \<notin> set xs \<Longrightarrow> remove1 t (prio_ins pr t xs) = xs"
  by (induction xs) auto

section \<open>Removal from lists\<close>

lemma remove1_append_mid:
  "x \<notin> set xs \<Longrightarrow> remove1 x (xs @ x # ys) = xs @ ys"
  by (induction xs) auto

lemma prio_sorted_remove1:
  "prio_sorted pr xs \<Longrightarrow> prio_sorted pr (remove1 t xs)"
proof (induction xs)
  case Nil
  then show ?case by simp
next
  case (Cons x xs)
  then show ?case using notin_set_remove1 by (auto dest: notin_set_remove1)
qed

lemma set_remove1_distinct [simp]:
  "distinct xs \<Longrightarrow> set (remove1 t xs) = set xs - {t}"
  by (rule set_remove1_eq)

lemma butlast_set_distinct:
  "distinct xs \<Longrightarrow> xs \<noteq> [] \<Longrightarrow> set (butlast xs) = set xs - {last xs}"
proof -
  assume d: "distinct xs" and ne: "xs \<noteq> []"
  from ne have "xs = butlast xs @ [last xs]" by simp
  with d have "last xs \<notin> set (butlast xs)" by (metis distinct_butlast not_distinct_conv_prefix)
  moreover from ne have "set xs = insert (last xs) (set (butlast xs))"
    by (metis append_butlast_last_id list.simps(15) rotate1.simps(2) set_rotate1)
  ultimately show ?thesis by auto
qed

lemma prio_sorted_butlast: "prio_sorted pr xs \<Longrightarrow> prio_sorted pr (butlast xs)"
  by (cases xs rule: rev_cases) (auto simp: prio_sorted_append)

end
