(* ===== verification/ThreadLists.thy ===== *)
theory ThreadLists
  imports Prelude
begin

text \<open>
  The doubly linked circular thread lists of \<^verbatim>\<open>os/kernel/src/chlists.c\<close> and
  \<^verbatim>\<open>os/kernel/include/chinline.h\<close> at the level of pointers: a store of next and
  previous links, one definition per inline function with the assignments in the
  order of the code, the relation between a store and the list of nodes it holds,
  and the refinement of each routine to the list operation it stands for.
\<close>

section \<open>The store of links\<close>

text \<open>
  A \<^verbatim>\<open>ThreadsQueue\<close> header is cast to \<^verbatim>\<open>Thread *\<close> by the code, so headers and
  threads are nodes of one type.
\<close>

record 'n links =
  p_next :: "'n \<Rightarrow> 'n"
  p_prev :: "'n \<Rightarrow> 'n"

definition set_next :: "'n \<Rightarrow> 'n \<Rightarrow> 'n links \<Rightarrow> 'n links" where
  "set_next a b s = s\<lparr>p_next := (p_next s)(a := b)\<rparr>"

definition set_prev :: "'n \<Rightarrow> 'n \<Rightarrow> 'n links \<Rightarrow> 'n links" where
  "set_prev a b s = s\<lparr>p_prev := (p_prev s)(a := b)\<rparr>"

lemma set_next_sel [simp]:
  "p_next (set_next a b s) = (p_next s)(a := b)" "p_prev (set_next a b s) = p_prev s"
  by (simp_all add: set_next_def)

lemma set_prev_sel [simp]:
  "p_next (set_prev a b s) = p_next s" "p_prev (set_prev a b s) = (p_prev s)(a := b)"
  by (simp_all add: set_prev_def)

section \<open>The routines of chinline.h\<close>

text \<open>\<^verbatim>\<open>queue_init(tqp)\<close>.\<close>

definition c_queue_init :: "'n \<Rightarrow> 'n links \<Rightarrow> 'n links" where
  "c_queue_init tqp s = set_next tqp tqp (set_prev tqp tqp s)"

text \<open>\<^verbatim>\<open>isempty(p)\<close>.\<close>

definition c_isempty :: "'n \<Rightarrow> 'n links \<Rightarrow> bool" where
  "c_isempty p s \<longleftrightarrow> p_next s p = p"

text \<open>
  The insertion of \<^verbatim>\<open>tp\<close> before \<^verbatim>\<open>cp\<close> that ends every insertion routine:
  \<^verbatim>\<open>tp->p_next = cp; tp->p_prev = cp->p_prev;\<close>
  \<^verbatim>\<open>tp->p_prev->p_next = cp->p_prev = tp;\<close>
\<close>

definition c_link_before :: "'n \<Rightarrow> 'n \<Rightarrow> 'n links \<Rightarrow> 'n links" where
  "c_link_before tp cp s =
     (let s1 = set_next tp cp s;
          s2 = set_prev tp (p_prev s1 cp) s1;
          s3 = set_prev cp tp s2
      in set_next (p_prev s3 tp) tp s3)"

definition c_queue_insert :: "'n \<Rightarrow> 'n \<Rightarrow> 'n links \<Rightarrow> 'n links" where
  "c_queue_insert tp tqp s = c_link_before tp tqp s"

text \<open>
  The loop of \<^verbatim>\<open>prio_insert\<close>,
  \<^verbatim>\<open>do { cp = cp->p_next; } while ((cp != tqp) && (cp->p_prio >= tp->p_prio))\<close>;
  on a corrupted list it need not end.
\<close>

partial_function (option) c_prio_scan ::
  "('n \<Rightarrow> nat) \<Rightarrow> nat \<Rightarrow> 'n \<Rightarrow> 'n links \<Rightarrow> 'n \<Rightarrow> 'n option" where
  "c_prio_scan pr p tqp s cp =
     (let cp' = p_next s cp
      in if cp' \<noteq> tqp \<and> p \<le> pr cp' then c_prio_scan pr p tqp s cp' else Some cp')"

definition c_prio_insert ::
  "('n \<Rightarrow> nat) \<Rightarrow> 'n \<Rightarrow> 'n \<Rightarrow> 'n links \<Rightarrow> 'n links option" where
  "c_prio_insert pr tp tqp s =
     (case c_prio_scan pr (pr tp) tqp s tqp of
        None \<Rightarrow> None
      | Some cp \<Rightarrow> Some (c_link_before tp cp s))"

text \<open>
  The loop of \<^verbatim>\<open>chSchReadyI\<close> has no test for the header: the header of the ready
  list has priority \<^verbatim>\<open>NOPRIO\<close> and stops it.
\<close>

partial_function (option) c_ready_scan ::
  "('n \<Rightarrow> nat) \<Rightarrow> nat \<Rightarrow> 'n links \<Rightarrow> 'n \<Rightarrow> 'n option" where
  "c_ready_scan pr p s cp =
     (let cp' = p_next s cp
      in if p \<le> pr cp' then c_ready_scan pr p s cp' else Some cp')"

definition c_ready_insert ::
  "('n \<Rightarrow> nat) \<Rightarrow> 'n \<Rightarrow> 'n \<Rightarrow> 'n links \<Rightarrow> 'n links option" where
  "c_ready_insert pr tp rl s =
     (case c_ready_scan pr (pr tp) s rl of
        None \<Rightarrow> None
      | Some cp \<Rightarrow> Some (c_link_before tp cp s))"

definition c_fifo_remove :: "'n \<Rightarrow> 'n links \<Rightarrow> 'n \<times> 'n links" where
  "c_fifo_remove tqp s =
     (let tp = p_next s tqp;
          s1 = set_next tqp (p_next s tp) s
      in (tp, set_prev (p_next s1 tqp) tqp s1))"

definition c_lifo_remove :: "'n \<Rightarrow> 'n links \<Rightarrow> 'n \<times> 'n links" where
  "c_lifo_remove tqp s =
     (let tp = p_prev s tqp;
          s1 = set_prev tqp (p_prev s tp) s
      in (tp, set_next (p_prev s1 tqp) tqp s1))"

definition c_dequeue :: "'n \<Rightarrow> 'n links \<Rightarrow> 'n links" where
  "c_dequeue tp s =
     (let s1 = set_next (p_prev s tp) (p_next s tp) s
      in set_prev (p_next s1 tp) (p_prev s1 tp) s1)"

text \<open>The singly linked \<^verbatim>\<open>ThreadsList\<close>.\<close>

definition c_list_insert :: "'n \<Rightarrow> 'n \<Rightarrow> 'n links \<Rightarrow> 'n links" where
  "c_list_insert tp tlp s = set_next tlp tp (set_next tp (p_next s tlp) s)"

definition c_list_remove :: "'n \<Rightarrow> 'n links \<Rightarrow> 'n \<times> 'n links" where
  "c_list_remove tlp s =
     (let tp = p_next s tlp in (tp, set_next tlp (p_next s tp) s))"

section \<open>The list a store holds\<close>

fun linked :: "'n links \<Rightarrow> 'n list \<Rightarrow> bool" where
  "linked s [] = True"
| "linked s [a] = True"
| "linked s (a # b # r) = (p_next s a = b \<and> p_prev s b = a \<and> linked s (b # r))"

definition queue_at :: "'n links \<Rightarrow> 'n \<Rightarrow> 'n list \<Rightarrow> bool" where
  "queue_at s q xs \<longleftrightarrow> distinct (q # xs) \<and> linked s (q # xs @ [q])"

fun chained :: "'n links \<Rightarrow> 'n list \<Rightarrow> bool" where
  "chained s [] = True"
| "chained s [a] = True"
| "chained s (a # b # r) = (p_next s a = b \<and> chained s (b # r))"

definition list_at :: "'n links \<Rightarrow> 'n \<Rightarrow> 'n list \<Rightarrow> bool" where
  "list_at s q xs \<longleftrightarrow> distinct (q # xs) \<and> chained s (q # xs @ [q])"

lemma linked_set_next:
  "a \<notin> set (butlast xs) \<Longrightarrow> linked (set_next a b s) xs = linked s xs"
  by (induction s xs rule: linked.induct) auto

lemma linked_set_prev:
  "a \<notin> set (tl xs) \<Longrightarrow> linked (set_prev a b s) xs = linked s xs"
  by (induction s xs rule: linked.induct) auto

lemma linked_append:
  "linked s (xs @ m # ys) \<longleftrightarrow> linked s (xs @ [m]) \<and> linked s (m # ys)"
proof (induction xs)
  case Nil
  then show ?case by simp
next
  case (Cons x xs)
  then show ?case by (cases xs) auto
qed

lemma linked_pair:
  "linked s (xs @ a # b # ys) \<longleftrightarrow>
     linked s (xs @ [a]) \<and> p_next s a = b \<and> p_prev s b = a \<and> linked s (b # ys)"
  using linked_append[of s xs a "b # ys"] by simp

section \<open>Refinement of the routines\<close>

lemma link_before_linked:
  assumes lk: "linked s (xs @ a # b # ys)"
    and a: "a \<notin> set xs" "a \<notin> set (butlast (b # ys))"
    and b: "b \<notin> set (tl (xs @ [a]))" "b \<notin> set ys"
    and t: "t \<notin> set (xs @ a # b # ys)"
  shows "linked (c_link_before t b s) (xs @ a # t # b # ys)"
proof -
  have parts: "linked s (xs @ [a])" "p_next s a = b" "p_prev s b = a" "linked s (b # ys)"
    using lk by (simp_all add: linked_pair)
  have eq: "c_link_before t b s = set_next a t (set_prev b t (set_prev t a (set_next t b s)))"
    using parts t by (auto simp: c_link_before_def Let_def)
  have t1: "t \<notin> set (tl (xs @ [a]))" "t \<notin> set (butlast (b # ys))"
    using t by (cases xs; auto dest: in_set_butlastD split: if_splits)+
  have "linked (c_link_before t b s) (xs @ [a])"
    unfolding eq using parts(1) a b t t1
    by (simp add: linked_set_next linked_set_prev del: butlast.simps)
  moreover have "linked (c_link_before t b s) (b # ys)"
    unfolding eq using parts(4) a b t t1
    by (simp add: linked_set_next linked_set_prev del: butlast.simps)
  ultimately show ?thesis using t parts
    unfolding linked_pair by (auto simp: eq)
qed

lemma queue_at_init: "queue_at (c_queue_init q s) q []"
  by (simp add: queue_at_def c_queue_init_def)

lemma queue_at_isempty: "queue_at s q xs \<Longrightarrow> c_isempty q s \<longleftrightarrow> xs = []"
  by (cases xs) (auto simp: queue_at_def c_isempty_def)

text \<open>Insertion before the node \<open>cp\<close> that heads the second part of the ring.\<close>

lemma queue_at_link_before:
  assumes q: "queue_at s q (as @ bs)" and t: "t \<notin> set (q # as @ bs)"
    and cp: "cp = hd (bs @ [q])"
  shows "queue_at (c_link_before t cp s) q (as @ t # bs)"
proof -
  obtain xs a where xa: "q # as = xs @ [a]"
    by (metis append_Cons append_Nil rev_exhaust list.distinct(1))
  obtain ys where cy: "bs @ [q] = cp # ys"
    using cp by (cases bs) auto
  have d: "distinct (q # as @ bs)" and lk: "linked s (xs @ a # cp # ys)"
  proof -
    show "distinct (q # as @ bs)" using q by (simp add: queue_at_def)
    have "q # (as @ bs) @ [q] = (q # as) @ (bs @ [q])" by simp
    also have "\<dots> = xs @ a # cp # ys" by (simp only: xa cy) simp
    finally show "linked s (xs @ a # cp # ys)" using q by (simp add: queue_at_def)
  qed
  have dxa: "distinct (xs @ [a])" using d xa by (metis distinct.simps(2) distinct_append append_Cons)
  have setxa: "set (xs @ [a]) = set (q # as)" using xa by simp
  have bl: "butlast (cp # ys) = bs" using cy by (metis butlast_snoc)
  have tl1: "tl (xs @ [a]) = as" using xa by (metis list.sel(3))
  have cpb: "cp \<notin> set as" using d cp by (cases bs) auto
  have cpy: "cp \<notin> set ys"
  proof (cases bs)
    case Nil then show ?thesis using cy by simp
  next
    case (Cons b r) then show ?thesis using cy d by auto
  qed
  have "linked (c_link_before t cp s) (xs @ a # t # cp # ys)"
  proof (rule link_before_linked[OF lk])
    show "a \<notin> set xs" using dxa by simp
    show "a \<notin> set (butlast (cp # ys))"
      unfolding bl using setxa d by (metis IntI Un_iff disjoint_iff distinct_append append_Cons
          list.set_intros(1) set_append)
    show "cp \<notin> set (tl (xs @ [a]))" using tl1 cpb by simp
    show "cp \<notin> set ys" by (rule cpy)
    show "t \<notin> set (xs @ a # cp # ys)"
    proof -
      have "set (xs @ a # cp # ys) = set (xs @ [a]) \<union> set (cp # ys)" by auto
      also have "\<dots> = set (q # as) \<union> set (bs @ [q])" by (simp only: setxa cy)
      finally show ?thesis using t by auto
    qed
  qed
  moreover have "xs @ a # t # cp # ys = q # (as @ t # bs) @ [q]"
  proof -
    have "xs @ a # t # cp # ys = (xs @ [a]) @ t # (cp # ys)" by simp
    also have "\<dots> = (q # as) @ t # (bs @ [q])" by (simp only: xa cy)
    finally show ?thesis by simp
  qed
  ultimately show ?thesis using d t by (auto simp: queue_at_def)
qed

lemma c_queue_insert_refines:
  assumes "queue_at s q xs" "t \<notin> set (q # xs)"
  shows "queue_at (c_queue_insert t q s) q (xs @ [t])"
  using queue_at_link_before[of s q xs "[]" t q] assms by (simp add: c_queue_insert_def)

text \<open>The scan stops at the first node of lower priority, or at the header.\<close>

lemma c_prio_scan_stops:
  assumes "linked s (c # cs @ [q])" "q \<notin> set cs"
  shows "c_prio_scan pr p q s c = Some (hd (dropWhile (\<lambda>x. p \<le> pr x) cs @ [q]))"
  using assms
proof (induction cs arbitrary: c)
  case Nil
  then show ?case by (subst c_prio_scan.simps) simp
next
  case (Cons x cs)
  then show ?case by (subst c_prio_scan.simps) auto
qed

lemma c_ready_scan_stops:
  assumes "linked s (c # cs @ [q])" "pr q < p"
  shows "c_ready_scan pr p s c = Some (hd (dropWhile (\<lambda>x. p \<le> pr x) cs @ [q]))"
  using assms
proof (induction cs arbitrary: c)
  case Nil
  then show ?case by (subst c_ready_scan.simps) simp
next
  case (Cons x cs)
  then show ?case by (subst c_ready_scan.simps) simp
qed

lemma scan_insert:
  assumes q: "queue_at s q xs" and t: "t \<notin> set (q # xs)"
  shows "queue_at (c_link_before t (hd (dropWhile (\<lambda>x. pr t \<le> pr x) xs @ [q])) s) q
           (prio_ins pr t xs)"
  unfolding prio_ins_split
  by (rule queue_at_link_before) (use q t in \<open>auto dest: set_takeWhileD\<close>)

lemma c_prio_insert_refines:
  assumes q: "queue_at s q xs" and t: "t \<notin> set (q # xs)"
  shows "\<exists>s'. c_prio_insert pr t q s = Some s' \<and> queue_at s' q (prio_ins pr t xs)"
proof -
  have "c_prio_scan pr (pr t) q s q = Some (hd (dropWhile (\<lambda>x. pr t \<le> pr x) xs @ [q]))"
    using q by (intro c_prio_scan_stops) (auto simp: queue_at_def)
  then show ?thesis using scan_insert[OF q t, of pr] by (simp add: c_prio_insert_def)
qed

lemma c_ready_insert_refines:
  assumes q: "queue_at s q xs" and t: "t \<notin> set (q # xs)" and low: "pr q < pr t"
  shows "\<exists>s'. c_ready_insert pr t q s = Some s' \<and> queue_at s' q (prio_ins pr t xs)"
proof -
  have "c_ready_scan pr (pr t) s q = Some (hd (dropWhile (\<lambda>x. pr t \<le> pr x) xs @ [q]))"
    using q low by (intro c_ready_scan_stops) (auto simp: queue_at_def)
  then show ?thesis using scan_insert[OF q t, of pr] by (simp add: c_ready_insert_def)
qed

text \<open>Unlinking a node: the common effect of the three removal routines.\<close>

definition unlink :: "'n \<Rightarrow> 'n \<Rightarrow> 'n links \<Rightarrow> 'n links" where
  "unlink a b s = set_prev b a (set_next a b s)"

lemma unlink_linked:
  assumes lk: "linked s (xs @ a # t # b # ys)"
    and a: "a \<notin> set xs" "a \<notin> set (butlast (b # ys))"
    and b: "b \<notin> set (tl (xs @ [a]))" "b \<notin> set ys"
  shows "linked (unlink a b s) (xs @ a # b # ys)"
proof -
  have parts: "linked s (xs @ [a])" "linked s (b # ys)"
    using lk by (auto simp: linked_pair)
  have "linked (unlink a b s) (xs @ [a])"
    unfolding unlink_def using parts(1) a b
    by (simp add: linked_set_next linked_set_prev del: butlast.simps)
  moreover have "linked (unlink a b s) (b # ys)"
    unfolding unlink_def using parts(2) a b
    by (simp add: linked_set_next linked_set_prev del: butlast.simps)
  ultimately show ?thesis by (simp add: linked_pair unlink_def)
qed

text \<open>The neighbours of a node in a ring.\<close>

lemma ring_neighbours:
  assumes "queue_at s q (as @ t # bs)"
  shows "p_next s t = hd (bs @ [q])" "p_prev s t = last (q # as)"
    "p_next s (last (q # as)) = t" "p_prev s (hd (bs @ [q])) = t"
proof -
  obtain xs where xa: "q # as = xs @ [last (q # as)]"
    by (metis append_butlast_last_id list.distinct(1))
  obtain ys where cy: "bs @ [q] = hd (bs @ [q]) # ys"
    by (cases bs) auto
  have "q # (as @ t # bs) @ [q] = xs @ last (q # as) # t # hd (bs @ [q]) # ys"
  proof -
    have "q # (as @ t # bs) @ [q] = (q # as) @ t # (bs @ [q])" by simp
    also have "\<dots> = (xs @ [last (q # as)]) @ t # (hd (bs @ [q]) # ys)"
      using xa cy by metis
    finally show ?thesis by simp
  qed
  with assms have "linked s (xs @ last (q # as) # t # hd (bs @ [q]) # ys)"
    by (simp only: queue_at_def)
  then show "p_next s t = hd (bs @ [q])" "p_prev s t = last (q # as)"
    "p_next s (last (q # as)) = t" "p_prev s (hd (bs @ [q])) = t"
    unfolding linked_pair by auto
qed

lemma queue_at_unlink:
  assumes q: "queue_at s q (as @ t # bs)"
  shows "queue_at (unlink (last (q # as)) (hd (bs @ [q])) s) q (as @ bs)"
proof -
  define a where "a = last (q # as)"
  define b where "b = hd (bs @ [q])"
  obtain xs where xa: "q # as = xs @ [a]"
    unfolding a_def by (metis append_butlast_last_id list.distinct(1))
  obtain ys where cy: "bs @ [q] = b # ys"
    unfolding b_def by (cases bs) auto
  have d: "distinct (q # as @ t # bs)" using q by (simp add: queue_at_def)
  have eqn: "\<And>m. (q # as) @ m @ (bs @ [q]) = xs @ a # m @ b # ys"
    by (simp only: xa cy) simp
  have lk: "linked s (xs @ a # t # b # ys)"
    using q eqn[of "[t]"] by (simp add: queue_at_def)
  have "distinct (xs @ [a])" using d xa by (metis distinct.simps(2) distinct_append append_Cons)
  moreover have "a \<notin> set (butlast (b # ys))"
  proof -
    have "butlast (b # ys) = bs" using cy by (metis butlast_snoc)
    moreover have "a \<in> set (q # as)" unfolding a_def by (rule last_in_set) simp
    ultimately show ?thesis using d by auto
  qed
  moreover have "b \<notin> set (tl (xs @ [a]))"
  proof -
    have "tl (xs @ [a]) = as" using xa by (metis list.sel(3))
    then show ?thesis using d unfolding b_def by (cases bs) auto
  qed
  moreover have "b \<notin> set ys" using cy d by (cases bs) auto
  ultimately have "linked (unlink a b s) (xs @ a # b # ys)"
    by (intro unlink_linked[OF lk]) auto
  with eqn[of "[]"] d show ?thesis
    unfolding a_def[symmetric] b_def[symmetric] by (auto simp: queue_at_def)
qed

lemma c_dequeue_refines:
  assumes q: "queue_at s q (as @ t # bs)"
  shows "queue_at (c_dequeue t s) q (as @ bs)"
proof -
  have "t \<noteq> last (q # as)"
    using q by (auto simp: queue_at_def)
  then have "c_dequeue t s = unlink (last (q # as)) (hd (bs @ [q])) s"
    using ring_neighbours[OF q] by (simp add: c_dequeue_def unlink_def Let_def)
  with queue_at_unlink[OF q] show ?thesis by simp
qed

lemma c_fifo_remove_refines:
  assumes q: "queue_at s q (t # ts)"
  shows "\<exists>s'. c_fifo_remove q s = (t, s') \<and> queue_at s' q ts"
proof -
  have q': "queue_at s q ([] @ t # ts)" using q by simp
  from ring_neighbours[OF q'] have "p_next s q = t" "p_next s t = hd (ts @ [q])" by auto
  then have "c_fifo_remove q s = (t, unlink (last [q]) (hd (ts @ [q])) s)"
    by (simp add: c_fifo_remove_def unlink_def Let_def)
  with queue_at_unlink[OF q'] show ?thesis by simp
qed

lemma set_next_prev_commute: "set_next a b (set_prev c d s) = set_prev c d (set_next a b s)"
  by (simp add: set_next_def set_prev_def)

lemma c_lifo_remove_refines:
  assumes q: "queue_at s q (ts @ [t])"
  shows "\<exists>s'. c_lifo_remove q s = (t, s') \<and> queue_at s' q ts"
proof -
  from ring_neighbours[OF q] have "p_prev s q = t" "p_prev s t = last (q # ts)" by auto
  then have "c_lifo_remove q s = (t, unlink (last (q # ts)) (hd ([] @ [q])) s)"
    by (simp add: c_lifo_remove_def unlink_def Let_def set_next_prev_commute)
  with queue_at_unlink[OF q] show ?thesis by simp
qed

lemma c_fifo_remove_empty:
  "queue_at s q [] \<Longrightarrow> \<exists>s'. c_fifo_remove q s = (q, s') \<and> queue_at s' q []"
  by (simp add: c_fifo_remove_def queue_at_def Let_def)

section \<open>Operations on one ring leave the others alone\<close>

lemma linked_cong:
  assumes "\<And>n. n \<in> set xs \<Longrightarrow> p_next s n = p_next s' n \<and> p_prev s n = p_prev s' n"
  shows "linked s xs = linked s' xs"
  using assms
proof (induction s xs rule: linked.induct)
  case (3 s a b r)
  have "linked s (b # r) = linked s' (b # r)" by (rule "3.IH") (use "3.prems" in auto)
  then show ?case using "3.prems" by auto
qed auto

lemma queue_at_cong:
  assumes "\<And>n. n \<in> set (q # xs) \<Longrightarrow> p_next s n = p_next s' n \<and> p_prev s n = p_prev s' n"
  shows "queue_at s q xs = queue_at s' q xs"
proof -
  have "linked s (q # xs @ [q]) = linked s' (q # xs @ [q])"
    by (rule linked_cong) (use assms in auto)
  then show ?thesis by (simp add: queue_at_def)
qed

lemma ring_closed:
  assumes "queue_at s q xs" "n \<in> set (q # xs)"
  shows "p_next s n \<in> set (q # xs)" "p_prev s n \<in> set (q # xs)"
proof -
  have "p_next s n \<in> set (q # xs) \<and> p_prev s n \<in> set (q # xs)"
  proof (cases "n = q")
    case True
    show ?thesis
    proof (cases xs)
      case Nil then show ?thesis using assms True by (simp add: queue_at_def)
    next
      case (Cons t ts)
      then have "queue_at s q ([] @ t # ts)" using assms by simp
      from ring_neighbours(3)[OF this] have "p_next s q = t" by simp
      moreover obtain us u where xs: "xs = us @ [u]" using Cons by (metis neq_Nil_conv rev_exhaust)
      from assms(1) have "queue_at s q (us @ u # [])" by (simp add: xs)
      from ring_neighbours(4)[OF this] have "p_prev s q = u" by simp
      moreover have "t \<in> set xs" using Cons by simp
      moreover have "u \<in> set xs" using xs by simp
      ultimately show ?thesis using True by simp
    qed
  next
    case False
    then obtain as bs where xs: "xs = as @ n # bs" using assms(2) by (auto dest: split_list)
    from assms(1) have r: "queue_at s q (as @ n # bs)" by (simp add: xs)
    have "hd (bs @ [q]) \<in> set (q # xs)" by (cases bs) (auto simp: xs)
    moreover have "last (q # as) \<in> set (q # xs)"
      using last_in_set[of "q # as"] by (auto simp: xs split: if_splits)
    ultimately show ?thesis using ring_neighbours(1,2)[OF r] by simp
  qed
  then show "p_next s n \<in> set (q # xs)" "p_prev s n \<in> set (q # xs)" by auto
qed

lemma other_ring_link_before:
  assumes q: "queue_at s q xs" and cp: "cp \<in> set (q # xs)" and o: "queue_at s q' ys"
    and dis: "set (q' # ys) \<inter> set (t # q # xs) = {}"
  shows "queue_at (c_link_before t cp s) q' ys"
proof -
  have "p_prev s cp \<in> set (q # xs)" using ring_closed(2)[OF q cp] .
  then show ?thesis
    using o dis cp
    by (subst queue_at_cong[where s' = s]) (auto simp: c_link_before_def Let_def)
qed

lemma other_ring_c_queue_insert:
  assumes "queue_at s q xs" "queue_at s q' ys" "set (q' # ys) \<inter> set (t # q # xs) = {}"
  shows "queue_at (c_queue_insert t q s) q' ys"
  unfolding c_queue_insert_def by (rule other_ring_link_before[OF assms(1)]) (use assms in auto)

lemma other_ring_c_prio_insert:
  assumes q: "queue_at s q xs" and o: "queue_at s q' ys"
    and dis: "set (q' # ys) \<inter> set (t # q # xs) = {}"
    and r: "c_prio_insert pr t q s = Some s'"
  shows "queue_at s' q' ys"
proof -
  have "c_prio_scan pr (pr t) q s q = Some (hd (dropWhile (\<lambda>x. pr t \<le> pr x) xs @ [q]))"
    using q by (intro c_prio_scan_stops) (auto simp: queue_at_def)
  with r have s': "s' = c_link_before t (hd (dropWhile (\<lambda>x. pr t \<le> pr x) xs @ [q])) s"
    by (simp add: c_prio_insert_def)
  have "hd (dropWhile (\<lambda>x. pr t \<le> pr x) xs @ [q]) \<in> set (q # xs)"
    using hd_in_set[of "dropWhile (\<lambda>x. pr t \<le> pr x) xs @ [q]"] by (auto dest: set_dropWhileD)
  then show ?thesis unfolding s' by (rule other_ring_link_before[OF q _ o dis])
qed

lemma other_ring_unlink:
  assumes "{a, b} \<inter> set (q' # ys) = {}"
  shows "queue_at (unlink a b s) q' ys = queue_at s q' ys"
  by (rule queue_at_cong) (use assms in \<open>auto simp: unlink_def\<close>)

lemma other_ring_c_dequeue:
  assumes q: "queue_at s q (as @ t # bs)" and o: "queue_at s q' ys"
    and dis: "set (q' # ys) \<inter> set (q # as @ t # bs) = {}"
  shows "queue_at (c_dequeue t s) q' ys"
proof -
  have "p_next s t \<in> set (q # as @ t # bs)" "p_prev s t \<in> set (q # as @ t # bs)"
    using ring_closed[OF q, of t] by auto
  then have "p_next s t \<notin> set (q' # ys)" "p_prev s t \<notin> set (q' # ys)" "t \<notin> set (q' # ys)"
    using dis by (meson disjoint_iff in_set_conv_decomp list.set_intros(2))+
  then have "queue_at (c_dequeue t s) q' ys = queue_at s q' ys"
    by (intro queue_at_cong) (auto simp: c_dequeue_def Let_def)
  with o show ?thesis by simp
qed

section \<open>The singly linked list of waiting threads\<close>

lemma chained_set_next:
  "a \<notin> set (butlast xs) \<Longrightarrow> chained (set_next a b s) xs = chained s xs"
  by (induction s xs rule: chained.induct) auto

lemma c_list_insert_refines:
  assumes "list_at s q xs" "t \<notin> set (q # xs)"
  shows "list_at (c_list_insert t q s) q (t # xs)"
  using assms
  by (cases xs) (auto simp: list_at_def c_list_insert_def chained_set_next butlast_append)

lemma c_list_remove_refines:
  assumes "list_at s q (t # xs)"
  shows "\<exists>s'. c_list_remove q s = (t, s') \<and> list_at s' q xs"
  using assms
  by (cases xs) (auto simp: list_at_def c_list_remove_def chained_set_next butlast_append Let_def)

section \<open>The interface of a thread queue\<close>

text \<open>
  What the kernel objects rely on: a queue holds a list of threads, insertion
  appends, and removal takes either end. Both the pointer rings above and the list
  queues of the kernel state provide it.
\<close>

fun enq_all :: "('n \<Rightarrow> 'q \<Rightarrow> 's \<Rightarrow> 's) \<Rightarrow> 'q \<Rightarrow> 'n list \<Rightarrow> 's \<Rightarrow> 's" where
  "enq_all enq q [] s = s"
| "enq_all enq q (t # ts) s = enq_all enq q ts (enq t q s)"

fun take_times :: "('q \<Rightarrow> 's \<Rightarrow> 'n \<times> 's) \<Rightarrow> 'q \<Rightarrow> nat \<Rightarrow> 's \<Rightarrow> 'n list \<times> 's" where
  "take_times rem q 0 s = ([], s)"
| "take_times rem q (Suc n) s =
     (case rem q s of (t, s1) \<Rightarrow> case take_times rem q n s1 of (ts, s2) \<Rightarrow> (t # ts, s2))"

locale thread_queue =
  fixes holds :: "'s \<Rightarrow> 'q \<Rightarrow> 'n list \<Rightarrow> bool"
    and fits :: "'q \<Rightarrow> 'n \<Rightarrow> bool"
    and enq :: "'n \<Rightarrow> 'q \<Rightarrow> 's \<Rightarrow> 's"
    and rem_first :: "'q \<Rightarrow> 's \<Rightarrow> 'n \<times> 's"
    and rem_last :: "'q \<Rightarrow> 's \<Rightarrow> 'n \<times> 's"
  assumes holds_enq:
      "holds s q xs \<Longrightarrow> fits q t \<Longrightarrow> t \<notin> set xs \<Longrightarrow> holds (enq t q s) q (xs @ [t])"
    and rem_first_holds:
      "holds s q (x # xs) \<Longrightarrow> \<exists>s'. rem_first q s = (x, s') \<and> holds s' q xs"
    and rem_last_holds:
      "holds s q (xs @ [x]) \<Longrightarrow> \<exists>s'. rem_last q s = (x, s') \<and> holds s' q xs"
begin

lemma holds_enq_all:
  "holds s q xs \<Longrightarrow> distinct (xs @ ts) \<Longrightarrow> \<forall>t \<in> set ts. fits q t \<Longrightarrow>
     holds (enq_all enq q ts s) q (xs @ ts)"
proof (induction ts arbitrary: s xs)
  case Nil
  then show ?case by simp
next
  case (Cons t ts)
  then have "holds (enq t q s) q (xs @ [t])" by (intro holds_enq) auto
  from Cons.IH[OF this] Cons.prems show ?case by simp
qed

lemma take_times_first:
  "holds s q (xs @ ys) \<Longrightarrow> n = length xs \<Longrightarrow>
     \<exists>s'. take_times rem_first q n s = (xs, s') \<and> holds s' q ys"
proof (induction xs arbitrary: s n)
  case Nil
  then show ?case by simp
next
  case (Cons x xs)
  from Cons.prems(1) have "holds s q (x # (xs @ ys))" by simp
  from rem_first_holds[OF this] obtain s1
    where 1: "rem_first q s = (x, s1)" and "holds s1 q (xs @ ys)" by auto
  from Cons.IH[OF this(2) refl] obtain s2
    where "take_times rem_first q (length xs) s1 = (xs, s2)" "holds s2 q ys" by auto
  with 1 Cons.prems(2) show ?case by simp
qed

lemma take_times_last:
  "holds s q (ys @ xs) \<Longrightarrow> n = length xs \<Longrightarrow>
     \<exists>s'. take_times rem_last q n s = (rev xs, s') \<and> holds s' q ys"
proof (induction xs arbitrary: s n rule: rev_induct)
  case Nil
  then show ?case by simp
next
  case (snoc x xs)
  from snoc.prems(1) have "holds s q ((ys @ xs) @ [x])" by simp
  from rem_last_holds[OF this] obtain s1
    where 1: "rem_last q s = (x, s1)" and "holds s1 q (ys @ xs)" by auto
  from snoc.IH[OF this(2) refl] obtain s2
    where "take_times rem_last q (length xs) s1 = (rev xs, s2)" "holds s2 q ys" by auto
  with 1 snoc.prems(2) show ?case by simp
qed

lemma fifo_order:
  assumes "holds s q []" "distinct ts" "\<forall>t \<in> set ts. fits q t"
  shows "\<exists>s'. take_times rem_first q (length ts) (enq_all enq q ts s) = (ts, s') \<and> holds s' q []"
  using holds_enq_all[OF assms(1)] take_times_first[where ys = "[]"] assms(2,3) by simp

end

interpretation ring: thread_queue queue_at "\<lambda>q t. t \<noteq> q" c_queue_insert c_fifo_remove c_lifo_remove
  by unfold_locales
    (auto intro: c_queue_insert_refines dest: c_fifo_remove_refines c_lifo_remove_refines)

end
