(* ===== verification/Kernel.thy ===== *)
theory Kernel
  imports ThreadLists
begin

text \<open>
  The state of the ChibiOS/RT kernel (\<^verbatim>\<open>os/kernel\<close>), configured as
  \<^verbatim>\<open>Project/ARMCM4-STM32F407-DISCOVERY/chconf.h\<close> does: every subsystem on, FIFO
  semaphore and message queues, a round-robin quantum of 20 ticks, debug checks
  and assertions off.

  Every \<^verbatim>\<open>ThreadsQueue\<close> is named by the address of the object whose first field it
  is, and holds a list of threads; theory \<open>ThreadLists\<close> proves that the pointer
  routines of \<^verbatim>\<open>chlists.c\<close> implement these list operations.
\<close>

section \<open>Threads and queue headers\<close>

text \<open>
  A queue header may be read as a thread: \<^verbatim>\<open>fifo_remove\<close> of an empty queue returns
  the header itself, and \<^verbatim>\<open>firstprio\<close> of an empty ready list reads the priority
  field \<^verbatim>\<open>r_prio\<close> of the ready list.
\<close>

datatype tid = is_Thd: Thd nat | is_QHdr: QHdr qaddr
  and qaddr = RListQ | SemQ nat | MtxQ nat | CondQ nat | IoQ nat | MsgQ tid

datatype tstate =
    THD_STATE_READY | THD_STATE_CURRENT | THD_STATE_SUSPENDED | THD_STATE_WTSEM
  | THD_STATE_WTMTX | THD_STATE_WTCOND | THD_STATE_SLEEPING | THD_STATE_WTEXIT
  | THD_STATE_WTOREVT | THD_STATE_WTANDEVT | THD_STATE_SNDMSGQ | THD_STATE_SNDMSG
  | THD_STATE_WTMSG | THD_STATE_WTQUEUE | THD_STATE_FINAL

text \<open>
  The union \<^verbatim>\<open>p_u\<close>: \<^verbatim>\<open>rdymsg\<close> and \<^verbatim>\<open>exitcode\<close> are the same word, \<^verbatim>\<open>ewmask\<close> is
  another reading of it, \<^verbatim>\<open>wtobjp\<close> is a pointer whose bits the model does not fix.
\<close>

datatype p_union = U_msg int | U_wtobjp qaddr | U_ewmask u32

fun u_msg :: "p_union \<Rightarrow> int" where
  "u_msg (U_msg m) = m"
| "u_msg (U_ewmask w) = sint w"
| "u_msg (U_wtobjp q) = undefined q"

fun u_ewmask :: "p_union \<Rightarrow> u32" where
  "u_ewmask (U_ewmask w) = w"
| "u_ewmask (U_msg m) = word_of_int m"
| "u_ewmask (U_wtobjp q) = undefined q"

fun u_wtobjp :: "p_union \<Rightarrow> qaddr" where
  "u_wtobjp (U_wtobjp q) = q"
| "u_wtobjp u = undefined u"

record thread =
  p_prio :: nat
  p_state :: tstate
  p_flags :: u8
  p_refs :: u8
  p_u :: p_union
  p_waiting :: "tid list"
  p_msg :: int
  p_epending :: u32
  p_mtxlist :: "nat option"
  p_realprio :: nat
  p_time :: u32
  p_name :: "string option"
  p_mpool :: "nat option"

section \<open>Objects\<close>

text \<open>
  The timer of a timed wait lives on the stack of the waiting thread; callbacks
  are the kernel's own \<^verbatim>\<open>wakeup\<close> or a function of the application.
\<close>

datatype vtid = StackVT tid | VT nat
datatype vtfunc = VF_wakeup | VF_user nat
datatype vtpar = VP_thread tid | VP_val nat

text \<open>
  Mailboxes and I/O queues are cyclic buffers; \<^verbatim>\<open>top - buffer\<close> is the length of the
  buffer and the pointers are offsets into it.
\<close>

record mailbox =
  mb_buffer :: "int list"
  mb_wrptr :: nat
  mb_rdptr :: nat
  mb_fullsem :: nat
  mb_emptysem :: nat

record ioqueue =
  q_counter :: nat
  q_buffer :: "u8 list"
  q_wrptr :: nat
  q_rdptr :: nat
  q_notify :: "nat option"

text \<open>
  Memory (\<^verbatim>\<open>chmemcore.c\<close>, \<^verbatim>\<open>chheap.c\<close>, \<^verbatim>\<open>chmempools.c\<close>): addresses and sizes are
  natural numbers below $2^{32}$. The word \<^verbatim>\<open>h.u\<close> of a heap header is the next free
  block or the heap the block was allocated from; \<open>H_free\<close> is the header \<^verbatim>\<open>h_free\<close>
  inside a heap.
\<close>

datatype haddr = H_free nat | Blk nat
datatype hunion = H_next "nat option" | H_heap nat
datatype memgetfunc = GF_chCoreAlloc | GF_chCoreAllocI | GF_user nat

record memory =
  nextmem :: nat
  endmem :: nat
  h_u :: "haddr \<Rightarrow> hunion"
  h_size :: "haddr \<Rightarrow> nat"
  h_provider :: "nat \<Rightarrow> memgetfunc option"
  h_mtx :: "nat \<Rightarrow> nat"
  mp_next :: "nat \<Rightarrow> nat option"
  ph_next :: "nat \<Rightarrow> nat option"
  mp_object_size :: "nat \<Rightarrow> nat"
  mp_provider :: "nat \<Rightarrow> memgetfunc option"

record kernel =
  thr :: "tid \<Rightarrow> thread"
  queues :: "qaddr \<Rightarrow> tid list"
  r_preempt :: int
  currp :: tid
  registry :: "tid list"
  vt_list :: "vtid list"
  vt_time :: "vtid \<Rightarrow> u32"
  vt_func :: "vtid \<Rightarrow> vtfunc option"
  vt_par :: "vtid \<Rightarrow> vtpar"
  vt_systime :: u32
  s_cnt :: "nat \<Rightarrow> int"
  m_owner :: "nat \<Rightarrow> tid option"
  m_next :: "nat \<Rightarrow> nat option"
  es_list :: "nat \<Rightarrow> nat list"
  el_listener :: "nat \<Rightarrow> tid"
  el_mask :: "nat \<Rightarrow> u32"
  mbox :: "nat \<Rightarrow> mailbox"
  ioq :: "nat \<Rightarrow> ioqueue"
  mem :: memory

abbreviation prio :: "kernel \<Rightarrow> tid \<Rightarrow> nat" where
  "prio k t \<equiv> p_prio (thr k t)"

abbreviation state :: "kernel \<Rightarrow> tid \<Rightarrow> tstate" where
  "state k t \<equiv> p_state (thr k t)"

abbreviation ready :: "kernel \<Rightarrow> tid list" where
  "ready k \<equiv> queues k RListQ"

definition upd_thr :: "tid \<Rightarrow> (thread \<Rightarrow> thread) \<Rightarrow> kernel \<Rightarrow> kernel" where
  "upd_thr t f k = k\<lparr>thr := (thr k)(t := f (thr k t))\<rparr>"

definition set_state :: "tid \<Rightarrow> tstate \<Rightarrow> kernel \<Rightarrow> kernel" where
  "set_state t st = upd_thr t (\<lambda>r. r\<lparr>p_state := st\<rparr>)"

definition set_u :: "tid \<Rightarrow> p_union \<Rightarrow> kernel \<Rightarrow> kernel" where
  "set_u t u = upd_thr t (\<lambda>r. r\<lparr>p_u := u\<rparr>)"

definition set_queue :: "qaddr \<Rightarrow> tid list \<Rightarrow> kernel \<Rightarrow> kernel" where
  "set_queue q xs k = k\<lparr>queues := (queues k)(q := xs)\<rparr>"

abbreviation rdymsg :: "kernel \<Rightarrow> tid \<Rightarrow> int" where
  "rdymsg k t \<equiv> u_msg (p_u (thr k t))"

section \<open>Constants\<close>

definition RDY_OK :: int where "RDY_OK = 0"
definition RDY_TIMEOUT :: int where "RDY_TIMEOUT = -1"
definition RDY_RESET :: int where "RDY_RESET = -2"

definition NOPRIO :: nat where "NOPRIO = 0"
definition IDLEPRIO :: nat where "IDLEPRIO = 1"
definition LOWPRIO :: nat where "LOWPRIO = 2"
definition NORMALPRIO :: nat where "NORMALPRIO = 64"
definition HIGHPRIO :: nat where "HIGHPRIO = 127"
definition ABSPRIO :: nat where "ABSPRIO = 255"

definition TIME_IMMEDIATE :: u32 where "TIME_IMMEDIATE = 0"
definition TIME_INFINITE :: u32 where "TIME_INFINITE = - 1"
definition CH_TIME_QUANTUM :: int where "CH_TIME_QUANTUM = 20"

lemmas rdy_defs = RDY_OK_def RDY_TIMEOUT_def RDY_RESET_def

text \<open>
  The two threads \<^verbatim>\<open>chSysInit\<close> makes: the flow of \<^verbatim>\<open>main\<close>, and the idle thread, which
  only waits for interrupts and never calls the kernel.
\<close>

definition mainthread :: tid where "mainthread = Thd 0"
definition idle_thread :: tid where "idle_thread = Thd 1"

section \<open>List-level thread queues\<close>

definition queue_insert :: "tid \<Rightarrow> qaddr \<Rightarrow> kernel \<Rightarrow> kernel" where
  "queue_insert tp tqp k = set_queue tqp (queues k tqp @ [tp]) k"

definition prio_insert :: "tid \<Rightarrow> qaddr \<Rightarrow> kernel \<Rightarrow> kernel" where
  "prio_insert tp tqp k = set_queue tqp (prio_ins (prio k) tp (queues k tqp)) k"

definition fifo_remove :: "qaddr \<Rightarrow> kernel \<Rightarrow> tid \<times> kernel" where
  "fifo_remove tqp k =
     (case queues k tqp of [] \<Rightarrow> (QHdr tqp, k) | tp # ts \<Rightarrow> (tp, set_queue tqp ts k))"

definition lifo_remove :: "qaddr \<Rightarrow> kernel \<Rightarrow> tid \<times> kernel" where
  "lifo_remove tqp k =
     (if queues k tqp = [] then (QHdr tqp, k)
      else (last (queues k tqp), set_queue tqp (butlast (queues k tqp)) k))"

text \<open>A thread is in at most one queue; unlinking it takes it out of that one.\<close>

definition dequeue :: "tid \<Rightarrow> kernel \<Rightarrow> kernel" where
  "dequeue tp k = k\<lparr>queues := (\<lambda>q. remove1 tp (queues k q))\<rparr>"

definition isempty :: "qaddr \<Rightarrow> kernel \<Rightarrow> bool" where
  "isempty q k \<longleftrightarrow> queues k q = []"

definition notempty :: "qaddr \<Rightarrow> kernel \<Rightarrow> bool" where
  "notempty q k \<longleftrightarrow> queues k q \<noteq> []"

text \<open>The threads waiting for a thread to end, a singly linked stack.\<close>

definition list_insert :: "tid \<Rightarrow> tid \<Rightarrow> kernel \<Rightarrow> kernel" where
  "list_insert tp owner = upd_thr owner (\<lambda>r. r\<lparr>p_waiting := tp # p_waiting r\<rparr>)"

lemmas [kernel_defs] = upd_thr_def set_state_def set_u_def set_queue_def

interpretation klist: thread_queue "\<lambda>k q xs. queues k q = xs" "\<lambda>q t. True"
  queue_insert fifo_remove lifo_remove
  by unfold_locales
    (auto simp: queue_insert_def fifo_remove_def lifo_remove_def set_queue_def)

lemma set_queue_id [simp]: "set_queue q (queues k q) k = k"
  by (simp add: set_queue_def)

section \<open>Suspension\<close>

text \<open>
  A kernel call runs until it returns or until \<^verbatim>\<open>chSysSwitch\<close> gives the processor to
  another thread. \<open>Switch k c\<close> is the second case: \<open>k\<close> is the kernel state in which
  the next thread starts to run, and \<open>c\<close> is what the suspended thread does when it is
  switched in again, in whatever state the kernel then has. \<open>Hang\<close> is a call that
  never returns.
\<close>

datatype 'a step = Ret 'a kernel | Switch kernel "kernel \<Rightarrow> 'a step" | Hang

primrec bind :: "'a step \<Rightarrow> ('a \<Rightarrow> kernel \<Rightarrow> 'b step) \<Rightarrow> 'b step" where
  "bind (Ret a k) f = f a k"
| "bind (Switch k c) f = Switch k (\<lambda>k'. bind (c k') f)"
| "bind Hang f = Hang"

lemma bind_assoc: "bind (bind s f) g = bind s (\<lambda>a k. bind (f a k) g)"
  by (induction s) auto

lemma bind_Ret [simp]: "bind s Ret = s"
  by (induction s) auto

text \<open>The kernel state when control first leaves the call, by return or by switch.\<close>

fun after :: "'a step \<Rightarrow> kernel option" where
  "after (Ret a k) = Some k"
| "after (Switch k c) = Some k"
| "after Hang = None"

text \<open>
  \<open>always P R s\<close>: whenever control leaves the call \<open>s\<close> the state satisfies \<open>P\<close>,
  provided the state satisfies \<open>R\<close> each time the thread is switched in again.
\<close>

primrec always :: "(kernel \<Rightarrow> bool) \<Rightarrow> (kernel \<Rightarrow> bool) \<Rightarrow> 'a step \<Rightarrow> bool" where
  "always P R (Ret a k) = P k"
| "always P R (Switch k c) = (P k \<and> (\<forall>k'. R k' \<longrightarrow> always P R (c k')))"
| "always P R Hang = False"

lemma always_bind:
  assumes "always P R s" "\<And>a k. P k \<Longrightarrow> always P R (f a k)"
  shows "always P R (bind s f)"
  using assms by (induction s) auto

lemma always_mono:
  assumes "always P R s" "\<And>k. P k \<Longrightarrow> P' k" "\<And>k. R' k \<Longrightarrow> R k"
  shows "always P' R' s"
  using assms by (induction s) auto

end
