(* ===== verification/VirtualTimers.thy ===== *)
theory VirtualTimers
  imports Kernel
begin

text \<open>
  The virtual timers of \<^verbatim>\<open>os/kernel/src/chvt.c\<close>: a list of armed timers ordered by
  expiry in which each timer stores the distance to the one before it. The
  abstraction gives the remaining ticks of every armed timer; arming, disarming and
  the tick are proved against it.
\<close>

section \<open>Operations\<close>

text \<open>
  The list header stores the time \<^verbatim>\<open>(systime_t)-1\<close>, so no wait passes it and it never
  reads as expired.
\<close>

definition vt_init :: "kernel \<Rightarrow> kernel" where
  "vt_init k = k\<lparr>vt_list := [], vt_systime := 0\<rparr>"

definition chTimeNow :: "kernel \<Rightarrow> u32" where
  "chTimeNow k = vt_systime k"

definition chVTIsArmedI :: "vtid \<Rightarrow> kernel \<Rightarrow> bool" where
  "chVTIsArmedI v k \<longleftrightarrow> vt_func k v \<noteq> None"

text \<open>
  \<^verbatim>\<open>while (p->vt_time < time) { time -= p->vt_time; p = p->vt_next; }\<close>: the timers
  passed, the time that is left, and the timers from \<open>p\<close> on.
\<close>

fun vt_scan :: "(vtid \<Rightarrow> u32) \<Rightarrow> u32 \<Rightarrow> vtid list \<Rightarrow> vtid list \<times> u32 \<times> vtid list" where
  "vt_scan f time [] = ([], time, [])"
| "vt_scan f time (p # ps) =
     (if f p < time
      then (case vt_scan f (time - f p) ps of (a, t, b) \<Rightarrow> (p # a, t, b))
      else ([], time, p # ps))"

definition chVTSetI :: "vtid \<Rightarrow> u32 \<Rightarrow> vtfunc \<Rightarrow> vtpar \<Rightarrow> kernel \<Rightarrow> kernel" where
  "chVTSetI vtp time vtfunc par k =
     (let k1 = k\<lparr>vt_par := (vt_par k)(vtp := par), vt_func := (vt_func k)(vtp := Some vtfunc)\<rparr>
      in case vt_scan (vt_time k) time (vt_list k) of
           (a, t, b) \<Rightarrow>
             (let k2 = k1\<lparr>vt_list := a @ vtp # b, vt_time := (vt_time k)(vtp := t)\<rparr>
              in case b of
                   [] \<Rightarrow> k2
                 | p # _ \<Rightarrow> k2\<lparr>vt_time := (vt_time k2)(p := vt_time k2 p - t)\<rparr>))"

fun succ_in :: "'a \<Rightarrow> 'a list \<Rightarrow> 'a option" where
  "succ_in v [] = None"
| "succ_in v [x] = None"
| "succ_in v (x # y # r) = (if x = v then Some y else succ_in v (y # r))"

definition chVTResetI :: "vtid \<Rightarrow> kernel \<Rightarrow> kernel" where
  "chVTResetI vtp k =
     (let k1 = (case succ_in vtp (vt_list k) of
                  None \<Rightarrow> k
                | Some p \<Rightarrow> k\<lparr>vt_time := (vt_time k)(p := vt_time k p + vt_time k vtp)\<rparr>)
      in k1\<lparr>vt_list := remove1 vtp (vt_list k), vt_func := (vt_func k)(vtp := None)\<rparr>)"

definition chTimeIsWithin :: "u32 \<Rightarrow> u32 \<Rightarrow> kernel \<Rightarrow> bool" where
  "chTimeIsWithin start end k =
     (let time = chTimeNow k
      in if start < end then start \<le> time \<and> time < end else start \<le> time \<or> time < end)"

text \<open>
  One expired timer: it is taken off the list and disarmed before its callback
  runs. \<open>call\<close> is the meaning of the callbacks.
\<close>

type_synonym callbacks = "vtfunc \<Rightarrow> vtpar \<Rightarrow> kernel \<Rightarrow> kernel"

definition vt_fire1 :: "callbacks \<Rightarrow> vtid \<Rightarrow> kernel \<Rightarrow> kernel" where
  "vt_fire1 call vtp k =
     call (the (vt_func k vtp)) (vt_par k vtp)
       (k\<lparr>vt_func := (vt_func k)(vtp := None), vt_list := tl (vt_list k)\<rparr>)"

partial_function (option) vt_fire :: "callbacks \<Rightarrow> kernel \<Rightarrow> kernel option" where
  "vt_fire call k =
     (case vt_list k of
        [] \<Rightarrow> Some k
      | vtp # _ \<Rightarrow> if vt_time k vtp = 0 then vt_fire call (vt_fire1 call vtp k) else Some k)"

definition chVTDoTickI :: "callbacks \<Rightarrow> kernel \<Rightarrow> kernel option" where
  "chVTDoTickI call k =
     (let k1 = k\<lparr>vt_systime := vt_systime k + 1\<rparr>
      in case vt_list k1 of
           [] \<Rightarrow> Some k1
         | p # _ \<Rightarrow> vt_fire call (k1\<lparr>vt_time := (vt_time k1)(p := vt_time k1 p - 1)\<rparr>))"

section \<open>Remaining ticks\<close>

fun vt_expiry :: "(vtid \<Rightarrow> u32) \<Rightarrow> vtid list \<Rightarrow> vtid \<Rightarrow> nat option" where
  "vt_expiry f [] v = None"
| "vt_expiry f (p # ps) v =
     (if p = v then Some (unat (f p)) else map_option ((+) (unat (f p))) (vt_expiry f ps v))"

definition remaining :: "kernel \<Rightarrow> vtid \<Rightarrow> nat option" where
  "remaining k = vt_expiry (vt_time k) (vt_list k)"

definition vt_total :: "kernel \<Rightarrow> nat" where
  "vt_total k = sum_list (map (\<lambda>v. unat (vt_time k v)) (vt_list k))"

definition vt_ok :: "kernel \<Rightarrow> bool" where
  "vt_ok k \<longleftrightarrow> distinct (vt_list k) \<and> vt_total k < 2 ^ 32
     \<and> (\<forall>v. v \<in> set (vt_list k) \<longleftrightarrow> vt_func k v \<noteq> None)
     \<and> (vt_list k \<noteq> [] \<longrightarrow> 0 < vt_time k (hd (vt_list k)))"

lemma vt_expiry_None_iff: "vt_expiry f ps v = None \<longleftrightarrow> v \<notin> set ps"
  by (induction ps) auto

lemma vt_expiry_cong:
  "(\<And>p. p \<in> set ps \<Longrightarrow> f p = g p) \<Longrightarrow> vt_expiry f ps v = vt_expiry g ps v"
  by (induction ps) auto

lemma vt_expiry_upd [simp]:
  "p \<notin> set ps \<Longrightarrow> vt_expiry (f(p := x)) ps v = vt_expiry f ps v"
  by (rule vt_expiry_cong) auto

lemma vt_expiry_append:
  "vt_expiry f (a @ b) v =
     (if v \<in> set a then vt_expiry f a v
      else map_option ((+) (sum_list (map (\<lambda>p. unat (f p)) a))) (vt_expiry f b v))"
  by (induction a) (cases "vt_expiry f b v"; auto)+

lemma vt_scan_spec:
  "vt_scan f time ps = (a, t, b) \<Longrightarrow>
     ps = a @ b \<and> unat time = sum_list (map (\<lambda>p. unat (f p)) a) + unat t
     \<and> (\<forall>p r. b = p # r \<longrightarrow> t \<le> f p) \<and> (0 < time \<longrightarrow> 0 < t)"
proof (induction f time ps arbitrary: a t b rule: vt_scan.induct)
  case (1 f time)
  then show ?case by simp
next
  case (2 f time p ps)
  show ?case
  proof (cases "f p < time")
    case False
    with "2.prems" show ?thesis by auto
  next
    case True
    then obtain a' where *: "vt_scan f (time - f p) ps = (a', t, b)" and a: "a = p # a'"
      using "2.prems" by (auto split: prod.splits)
    have "unat (time - f p) = unat time - unat (f p)"
      using True by (simp add: unat_sub)
    moreover have "unat (f p) < unat time" using True by (simp add: word_less_nat_alt)
    moreover have "0 < time - f p" using True by (simp add: word_gt_0)
    ultimately show ?thesis using "2.IH"[OF True *] a by auto
  qed
qed

text \<open>Arming a timer sets its remaining ticks and changes no other timer.\<close>

lemma vt_expiry_insert:
  assumes d: "distinct (a @ b)" and v: "v \<notin> set (a @ b)"
    and t: "unat time = sum_list (map (\<lambda>p. unat (f p)) a) + unat t"
    and le: "\<And>p r. b = p # r \<Longrightarrow> t \<le> f p"
    and g: "g = (case b of [] \<Rightarrow> f(v := t) | p # _ \<Rightarrow> f(v := t, p := f p - t))"
  shows "vt_expiry g (a @ v # b) u = (if u = v then Some (unat time) else vt_expiry f (a @ b) u)"
proof -
  have ga: "\<And>p. p \<in> set a \<Longrightarrow> g p = f p" using d v by (auto simp: g split: list.splits)
  have gv: "g v = t" using v by (auto simp: g split: list.splits)
  have gb: "vt_expiry g (v # b) u =
      (if u = v then Some (unat t) else vt_expiry f b u)"
  proof (cases b)
    case Nil
    then show ?thesis using gv by simp
  next
    case (Cons p r)
    then have gp: "g p = f p - t" using v by (simp add: g)
    have pt: "unat (f p - t) = unat (f p) - unat t" "unat t \<le> unat (f p)"
      using le[OF Cons] by (auto simp: unat_sub word_le_nat_alt)
    have gr: "vt_expiry g r u = vt_expiry f r u"
      by (rule vt_expiry_cong) (use d v Cons in \<open>auto simp: g\<close>)
    show ?thesis using Cons gp gv gr pt v
      by (auto simp: option.map_comp comp_def intro!: option.map_cong)
  qed
  show ?thesis
    unfolding vt_expiry_append gb using ga v t
    by (auto simp: vt_expiry_cong[of a g f] add.commute cong: map_cong)
qed

lemma chVTSetI_list:
  assumes "vt_scan (vt_time k) time (vt_list k) = (a, t, b)"
  shows "vt_list (chVTSetI v time fn par k) = a @ v # b"
    "vt_time (chVTSetI v time fn par k) =
       (case b of [] \<Rightarrow> (vt_time k)(v := t)
        | p # _ \<Rightarrow> (vt_time k)(v := t, p := ((vt_time k)(v := t)) p - t))"
    "vt_func (chVTSetI v time fn par k) = (vt_func k)(v := Some fn)"
  using assms by (auto simp: chVTSetI_def Let_def split: list.splits)

lemma chVTSetI_time:
  assumes "vt_scan (vt_time k) time (vt_list k) = (a, t, b)" "v \<notin> set (vt_list k)"
  shows "vt_time (chVTSetI v time fn par k) =
       (case b of [] \<Rightarrow> (vt_time k)(v := t) | p # _ \<Rightarrow> (vt_time k)(v := t, p := vt_time k p - t))"
  using assms vt_scan_spec[OF assms(1)]
  by (auto simp: chVTSetI_list(2)[OF assms(1)] split: list.splits)

lemma remaining_chVTSetI:
  assumes "vt_ok k" "v \<notin> set (vt_list k)"
  shows "remaining (chVTSetI v time fn par k) = (remaining k)(v \<mapsto> unat time)"
proof
  fix u
  obtain a t b where sc: "vt_scan (vt_time k) time (vt_list k) = (a, t, b)"
    by (metis prod_cases3)
  note spec = vt_scan_spec[OF sc]
  then have ab: "vt_list k = a @ b" by simp
  show "remaining (chVTSetI v time fn par k) u = ((remaining k)(v \<mapsto> unat time)) u"
    unfolding remaining_def chVTSetI_list(1)[OF sc] chVTSetI_time[OF sc assms(2)]
    by (subst vt_expiry_insert[where f = "vt_time k" and time = time and t = t])
       (use spec assms in \<open>auto simp: ab vt_ok_def\<close>)
qed

lemma sum_list_map_cong: "(\<And>x. x \<in> set xs \<Longrightarrow> f x = g x) \<Longrightarrow> sum_list (map f xs) = sum_list (map g xs)"
  by (metis map_cong)

lemma vt_ok_chVTSetI:
  assumes ok: "vt_ok k" and v: "v \<notin> set (vt_list k)" and time: "0 < time"
  shows "vt_ok (chVTSetI v time fn par k)"
proof -
  obtain a t b where sc: "vt_scan (vt_time k) time (vt_list k) = (a, t, b)"
    by (metis prod_cases3)
  note spec = vt_scan_spec[OF sc]
  then have ab: "vt_list k = a @ b" by simp
  have d: "distinct (a @ b)" using ok ab by (simp add: vt_ok_def)
  have "v \<notin> set a" "v \<notin> set b" using v ab by auto
  note d = d this
  let ?k = "chVTSetI v time fn par k"
  note L = chVTSetI_list(1)[OF sc, of v fn par] and T = chVTSetI_time[OF sc v, of fn par]
  have at: "\<And>x. x \<in> set a \<Longrightarrow> vt_time ?k x = vt_time k x" and vt: "vt_time ?k v = t"
    using d by (auto simp: T split: list.splits)
  have tot: "vt_total ?k < 2 ^ 32"
  proof (cases b)
    case Nil
    have "vt_total ?k = sum_list (map (\<lambda>p. unat (vt_time k p)) a) + unat t"
      using at vt by (simp add: vt_total_def L Nil cong: map_cong)
    then show ?thesis using spec u32_bound[of time] by simp
  next
    case (Cons p r)
    have "\<And>x. x \<in> set r \<Longrightarrow> vt_time ?k x = vt_time k x" "vt_time ?k p = vt_time k p - t"
      using d by (auto simp: T Cons)
    moreover have "unat (vt_time k p - t) + unat t = unat (vt_time k p)"
      using spec Cons by (simp add: unat_sub word_le_nat_alt)
    ultimately have "vt_total ?k = vt_total k"
      using at vt by (simp add: vt_total_def L Cons ab cong: map_cong)
    then show ?thesis using ok by (simp add: vt_ok_def)
  qed
  have hd: "0 < vt_time ?k (hd (vt_list ?k))"
  proof (cases a)
    case Nil then show ?thesis using vt spec time by (simp add: L)
  next
    case (Cons x a') then show ?thesis using ok at[of x] by (simp add: L vt_ok_def ab)
  qed
  have "vt_func ?k = (vt_func k)(v := Some fn)" by (rule chVTSetI_list(3)[OF sc])
  then have "\<And>x. x \<in> set (vt_list ?k) \<longleftrightarrow> vt_func ?k x \<noteq> None"
    using ok by (auto simp: L vt_ok_def ab)
  then show ?thesis using tot hd d v by (auto simp: vt_ok_def L ab)
qed

text \<open>Disarming a timer removes it and changes the remaining ticks of no other.\<close>

lemma succ_in_append:
  "v \<notin> set a \<Longrightarrow> succ_in v (a @ v # b) = (case b of [] \<Rightarrow> None | p # _ \<Rightarrow> Some p)"
proof (induction a)
  case Nil
  then show ?case by (cases b) auto
next
  case (Cons x a)
  then show ?case by (cases a) auto
qed

lemma chVTResetI_split:
  assumes ok: "vt_ok k" and ab: "vt_list k = a @ v # b"
  shows "vt_list (chVTResetI v k) = a @ b"
    "vt_func (chVTResetI v k) = (vt_func k)(v := None)"
    "vt_time (chVTResetI v k) =
       (case b of [] \<Rightarrow> vt_time k | p # _ \<Rightarrow> (vt_time k)(p := vt_time k p + vt_time k v))"
    "b = p # r \<Longrightarrow> unat (vt_time k p + vt_time k v) = unat (vt_time k p) + unat (vt_time k v)"
proof -
  have d: "v \<notin> set a" "distinct (a @ v # b)" using ok ab by (auto simp: vt_ok_def)
  show "vt_list (chVTResetI v k) = a @ b"
    using d by (auto simp: chVTResetI_def ab remove1_append_mid Let_def split: option.splits)
  show "vt_func (chVTResetI v k) = (vt_func k)(v := None)"
    by (auto simp: chVTResetI_def Let_def split: option.splits)
  show "vt_time (chVTResetI v k) =
       (case b of [] \<Rightarrow> vt_time k | p # _ \<Rightarrow> (vt_time k)(p := vt_time k p + vt_time k v))"
    by (auto simp: chVTResetI_def ab succ_in_append[OF d(1)] Let_def split: list.splits)
  show "unat (vt_time k p + vt_time k v) = unat (vt_time k p) + unat (vt_time k v)" if "b = p # r"
  proof -
    have "unat (vt_time k p) + unat (vt_time k v) \<le> vt_total k"
      using that by (simp add: vt_total_def ab)
    then show ?thesis using ok by (simp add: vt_ok_def unat_word_ariths)
  qed
qed

lemma remaining_chVTResetI:
  assumes ok: "vt_ok k" and v: "v \<in> set (vt_list k)"
  shows "remaining (chVTResetI v k) = (remaining k)(v := None)"
proof
  fix u
  from v obtain a b where ab: "vt_list k = a @ v # b" by (auto dest: split_list)
  note R = chVTResetI_split[OF ok ab]
  have d: "distinct (a @ v # b)" using ok ab by (simp add: vt_ok_def)
  let ?f = "vt_time k" and ?g = "vt_time (chVTResetI v k)"
  have ga: "\<And>p. p \<in> set a \<Longrightarrow> ?g p = ?f p" using d by (auto simp: R(3) split: list.splits)
  have gb: "vt_expiry ?g b u = (if u = v then None else map_option ((+) (unat (?f v))) (vt_expiry ?f b u))"
  proof (cases b)
    case Nil then show ?thesis by simp
  next
    case (Cons p r)
    have "vt_expiry ?f r v = None" using d Cons by (simp add: vt_expiry_None_iff)
    then show ?thesis using Cons R(4)[OF Cons] d
      by (cases "vt_expiry ?f r u") (auto simp: R(3))
  qed
  show "remaining (chVTResetI v k) u = ((remaining k)(v := None)) u"
    unfolding remaining_def R(1) ab vt_expiry_append gb using ga d
    by (auto simp: vt_expiry_cong[of a ?g ?f] vt_expiry_None_iff cong: map_cong)
qed

lemma vt_ok_chVTResetI:
  assumes ok: "vt_ok k" and v: "v \<in> set (vt_list k)"
  shows "vt_ok (chVTResetI v k)"
proof -
  from v obtain a b where ab: "vt_list k = a @ v # b" by (auto dest: split_list)
  note R = chVTResetI_split[OF ok ab]
  have d: "distinct (a @ v # b)" using ok ab by (simp add: vt_ok_def)
  have at: "\<And>x. x \<in> set a \<Longrightarrow> vt_time (chVTResetI v k) x = vt_time k x"
    using d by (auto simp: R(3) split: list.splits)
  have tot: "vt_total (chVTResetI v k) \<le> vt_total k"
  proof (cases b)
    case Nil then show ?thesis using at by (simp add: vt_total_def R(1) ab cong: map_cong)
  next
    case (Cons p r)
    have "\<And>x. x \<in> set r \<Longrightarrow> vt_time (chVTResetI v k) x = vt_time k x"
      using d Cons by (auto simp: R(3))
    then show ?thesis using at Cons R(4)[OF Cons]
      by (simp add: vt_total_def R(1) R(3) ab cong: map_cong)
  qed
  have hd: "0 < vt_time (chVTResetI v k) (hd (a @ b))" if "a @ b \<noteq> []"
  proof (cases a)
    case (Cons x a') then show ?thesis using ok at[of x] by (simp add: vt_ok_def ab)
  next
    case Nil
    with that obtain p r where b: "b = p # r" by (cases b) auto
    have "0 < unat (vt_time k v)" using ok Nil by (simp add: vt_ok_def ab word_less_nat_alt)
    then show ?thesis using R(4)[OF b] Nil b by (simp add: R(3) word_less_nat_alt)
  qed
  show ?thesis using ok tot hd d by (auto simp: vt_ok_def R(1) R(2) ab)
qed

section \<open>The tick\<close>

text \<open>Callbacks that do not themselves touch the timer list, as the kernel's \<^verbatim>\<open>wakeup\<close>.\<close>

definition vt_quiet :: "callbacks \<Rightarrow> bool" where
  "vt_quiet call \<longleftrightarrow> (\<forall>f p k. vt_list (call f p k) = vt_list k \<and> vt_time (call f p k) = vt_time k
     \<and> vt_func (call f p k) = vt_func k \<and> vt_systime (call f p k) = vt_systime k)"

lemma vt_fire1_quiet:
  assumes "vt_quiet call"
  shows "vt_list (vt_fire1 call v k) = tl (vt_list k)" "vt_time (vt_fire1 call v k) = vt_time k"
    "vt_func (vt_fire1 call v k) = (vt_func k)(v := None)"
    "vt_systime (vt_fire1 call v k) = vt_systime k"
  using assms by (auto simp: vt_quiet_def vt_fire1_def)

lemma vt_fire_quiet:
  assumes q: "vt_quiet call"
  shows "vt_fire call k = Some (fold (vt_fire1 call) (takeWhile (\<lambda>v. vt_time k v = 0) (vt_list k)) k)"
proof (induction "vt_list k" arbitrary: k)
  case Nil
  then show ?case by (subst vt_fire.simps) (simp split: list.splits)
next
  case (Cons v vs)
  let ?k = "vt_fire1 call v k"
  have vs: "vt_list ?k = vs" using Cons.hyps(2)[symmetric] by (simp add: vt_fire1_quiet[OF q])
  have IH: "vt_fire call ?k = Some (fold (vt_fire1 call) (takeWhile (\<lambda>v. vt_time k v = 0) vs) ?k)"
    using Cons.hyps(1)[of ?k] vs by (simp add: vt_fire1_quiet[OF q])
  show ?case
    using IH Cons.hyps(2)[symmetric] by (subst vt_fire.simps) auto
qed

lemma fold_vt_fire1:
  assumes q: "vt_quiet call"
  shows "vt_list (fold (vt_fire1 call) zs k) = drop (length zs) (vt_list k)"
    "vt_time (fold (vt_fire1 call) zs k) = vt_time k"
    "vt_func (fold (vt_fire1 call) zs k) = (\<lambda>v. if v \<in> set zs then None else vt_func k v)"
    "vt_systime (fold (vt_fire1 call) zs k) = vt_systime k"
  by (induction zs arbitrary: k) (auto simp: vt_fire1_quiet[OF q] drop_Suc)

lemma map_option_plus_0 [simp]: "map_option ((+) (0::nat)) x = x"
  by (cases x) auto

lemma vt_expiry_dropWhile:
  "distinct ps \<Longrightarrow> vt_expiry f (dropWhile (\<lambda>v. f v = 0) ps) u =
     (if vt_expiry f ps u = Some 0 then None else vt_expiry f ps u)"
  by (induction ps) (auto simp: vt_expiry_None_iff unat_eq_0 dest: set_dropWhileD)

lemma takeWhile_due:
  "distinct ps \<Longrightarrow> takeWhile (\<lambda>v. f v = 0) ps = filter (\<lambda>v. vt_expiry f ps v = Some 0) ps"
proof (induction ps)
  case Nil
  then show ?case by simp
next
  case (Cons p ps)
  then show ?case
    by (auto simp: unat_eq_0 option.map_ident comp_def intro!: filter_cong split: if_splits)
qed

definition vt_due :: "kernel \<Rightarrow> vtid list" where
  "vt_due k = filter (\<lambda>v. remaining k v = Some 1) (vt_list k)"

lemma vt_expiry_pred:
  assumes "0 < f p" and that: "p \<notin> set ps"
  shows "vt_expiry (f(p := f p - 1)) (p # ps) v = map_option (\<lambda>n. n - 1) (vt_expiry f (p # ps) v)"
proof -
  have "unat (f p - 1) = unat (f p) - 1" "0 < unat (f p)"
    using assms by (auto simp: unat_minus_one word_gt_0 unat_gt_0)
  then show ?thesis using that
    by (cases "vt_expiry f ps v") auto
qed

lemma chVTDoTickI_quiet:
  assumes ok: "vt_ok k" and q: "vt_quiet call"
  obtains k1 where "chVTDoTickI call k = Some (fold (vt_fire1 call) (vt_due k) k1)"
    "vt_list k1 = vt_list k" "remaining k1 = (\<lambda>v. map_option (\<lambda>n. n - 1) (remaining k v))"
    "vt_due k = takeWhile (\<lambda>v. vt_time k1 v = 0) (vt_list k1)" "vt_total k1 \<le> vt_total k"
    "vt_func k1 = vt_func k" "vt_systime k1 = vt_systime k + 1" "thr k1 = thr k"
proof (cases "vt_list k")
  case Nil
  show ?thesis
    by (rule that[of "k\<lparr>vt_systime := vt_systime k + 1\<rparr>"])
       (auto simp: chVTDoTickI_def Nil vt_due_def remaining_def vt_total_def)
next
  case (Cons p ps)
  let ?k1 = "k\<lparr>vt_systime := vt_systime k + 1, vt_time := (vt_time k)(p := vt_time k p - 1)\<rparr>"
  have p: "0 < vt_time k p" "p \<notin> set ps" "distinct (p # ps)"
    using ok by (auto simp: vt_ok_def Cons)
  have rem: "remaining ?k1 = (\<lambda>v. map_option (\<lambda>n. n - 1) (remaining k v))"
    using vt_expiry_pred[where f = "vt_time k" and ps = ps, OF p(1,2)]
    by (intro ext) (simp add: remaining_def Cons del: vt_expiry.simps)
  have pos: "\<And>v. remaining k v \<noteq> Some 0"
  proof
    fix v assume "remaining k v = Some 0"
    then have "unat (vt_time k p) = 0" by (auto simp: remaining_def Cons split: if_splits)
    then show False using p(1) by (simp add: word_less_nat_alt)
  qed
  have due: "vt_due k = takeWhile (\<lambda>v. vt_time ?k1 v = 0) (vt_list ?k1)"
  proof -
    have "takeWhile (\<lambda>v. vt_time ?k1 v = 0) (vt_list ?k1)
        = filter (\<lambda>v. remaining ?k1 v = Some 0) (vt_list ?k1)"
      using takeWhile_due[OF p(3), of "vt_time ?k1"] by (simp add: remaining_def Cons)
    also have "\<dots> = vt_due k"
      unfolding rem vt_due_def
    proof (rule filter_cong)
      fix v show "(map_option (\<lambda>n. n - 1) (remaining k v) = Some 0) = (remaining k v = Some 1)"
        using pos[of v] by (cases "remaining k v") auto
    qed simp
    finally show ?thesis ..
  qed
  have tot: "vt_total ?k1 \<le> vt_total k"
  proof -
    have "unat (vt_time k p - 1) \<le> unat (vt_time k p)"
      using p(1) by (simp add: unat_minus_one word_gt_0)
    moreover have "sum_list (map (\<lambda>v. unat (((vt_time k)(p := vt_time k p - 1)) v)) ps)
        = sum_list (map (\<lambda>v. unat (vt_time k v)) ps)"
      by (rule sum_list_map_cong) (use p in auto)
    ultimately show ?thesis by (simp add: vt_total_def Cons)
  qed
  have "chVTDoTickI call k = vt_fire call ?k1"
    by (simp add: chVTDoTickI_def Cons Let_def)
  also have "\<dots> = Some (fold (vt_fire1 call) (vt_due k) ?k1)"
    using vt_fire_quiet[OF q, of ?k1] due by simp
  finally show ?thesis
    using that[of ?k1] rem due tot by (simp add: Cons)
qed

text \<open>
  One tick: every timer loses one tick; those at their last tick are taken off, disarmed
  and their callbacks run in list order.
\<close>

lemma chVTDoTickI_remaining:
  assumes ok: "vt_ok k" and q: "vt_quiet call"
  shows "\<exists>k'. chVTDoTickI call k = Some k'
     \<and> remaining k' = (\<lambda>v. if remaining k v = Some 1 then None else map_option (\<lambda>n. n - 1) (remaining k v))
     \<and> vt_systime k' = vt_systime k + 1 \<and> vt_ok k'"
proof -
  obtain k1 where t: "chVTDoTickI call k = Some (fold (vt_fire1 call) (vt_due k) k1)"
    and k1: "vt_list k1 = vt_list k" "remaining k1 = (\<lambda>v. map_option (\<lambda>n. n - 1) (remaining k v))"
      "vt_due k = takeWhile (\<lambda>v. vt_time k1 v = 0) (vt_list k1)" "vt_total k1 \<le> vt_total k"
      "vt_func k1 = vt_func k" "vt_systime k1 = vt_systime k + 1"
    by (rule chVTDoTickI_quiet[OF ok q])
  let ?k' = "fold (vt_fire1 call) (vt_due k) k1"
  note F = fold_vt_fire1[OF q]
  have d: "distinct (vt_list k)" using ok by (simp add: vt_ok_def)
  have l: "vt_list ?k' = dropWhile (\<lambda>v. vt_time k1 v = 0) (vt_list k1)"
    unfolding F(1) k1(3) by (metis dropWhile_eq_drop)
  have pos: "remaining k v \<noteq> Some 0" for v
  proof
    assume "remaining k v = Some 0"
    then obtain p ps where "vt_list k = p # ps" "unat (vt_time k p) = 0"
      by (cases "vt_list k") (auto simp: remaining_def split: if_splits)
    then show False using ok by (simp add: vt_ok_def word_less_nat_alt)
  qed
  have rem: "remaining ?k' v =
      (if remaining k v = Some 1 then None else map_option (\<lambda>n. n - 1) (remaining k v))" for v
  proof -
    have "remaining ?k' v = (if remaining k1 v = Some 0 then None else remaining k1 v)"
      using vt_expiry_dropWhile[of "vt_list k1" "vt_time k1" v] d k1(1)
      by (simp add: remaining_def l F(2))
    then show ?thesis using pos[of v] by (cases "remaining k v") (auto simp: k1(2))
  qed
  have mem: "(v \<in> set (vt_list ?k')) = (remaining ?k' v \<noteq> None)" for v
    by (metis remaining_def vt_expiry_None_iff)
  have memk: "(v \<in> set (vt_list k)) = (remaining k v \<noteq> None)" for v
    by (metis remaining_def vt_expiry_None_iff)
  have "vt_ok ?k'"
    unfolding vt_ok_def
  proof (intro conjI allI impI)
    show "distinct (vt_list ?k')" using d by (simp add: l k1(1) distinct_dropWhile)
    have "vt_total ?k' \<le> vt_total k1"
      unfolding vt_total_def F(2) l
      by (subst (2) takeWhile_dropWhile_id[symmetric, of "vt_list k1" "\<lambda>v. vt_time k1 v = 0"],
          subst map_append, subst sum_list_append) simp
    with k1(4) show "vt_total ?k' < 2 ^ 32" using ok by (simp add: vt_ok_def)
    show "(v \<in> set (vt_list ?k')) = (vt_func ?k' v \<noteq> None)" for v
      using ok memk[of v] mem[of v] rem[of v] by (auto simp: F(3) k1(5) vt_ok_def vt_due_def)
    show "0 < vt_time ?k' (hd (vt_list ?k'))" if "vt_list ?k' \<noteq> []"
      using that hd_dropWhile[of "\<lambda>v. vt_time k1 v = 0" "vt_list k1"]
      by (simp add: l F(2) word_gt_0)
  qed
  then show ?thesis using t rem by (auto simp: F(4) k1(6) fun_eq_iff)
qed

section \<open>The timer service as an interface\<close>

text \<open>
  What a client of the timers relies on: arming and disarming act on one timer, a
  tick takes one from every timer, and a timer at its last tick is no longer armed.
\<close>

locale timer_service =
  fixes inv :: "'s \<Rightarrow> bool"
    and left :: "'s \<Rightarrow> 'v \<Rightarrow> nat option"
    and arm :: "'v \<Rightarrow> u32 \<Rightarrow> 's \<Rightarrow> 's"
    and disarm :: "'v \<Rightarrow> 's \<Rightarrow> 's"
    and tick :: "'s \<Rightarrow> 's option"
  assumes arm_inv: "inv s \<Longrightarrow> left s v = None \<Longrightarrow> 0 < n \<Longrightarrow> inv (arm v n s)"
    and left_arm: "inv s \<Longrightarrow> left s v = None \<Longrightarrow> left (arm v n s) = (left s)(v \<mapsto> unat n)"
    and disarm_inv: "inv s \<Longrightarrow> left s v \<noteq> None \<Longrightarrow> inv (disarm v s)"
    and left_disarm: "inv s \<Longrightarrow> left s v \<noteq> None \<Longrightarrow> left (disarm v s) = (left s)(v := None)"
    and tick_left: "inv s \<Longrightarrow> \<exists>s'. tick s = Some s' \<and> inv s'
      \<and> left s' = (\<lambda>v. if left s v = Some 1 then None else map_option (\<lambda>n. n - 1) (left s v))"
begin

lemma ticks_left:
  assumes "inv s" "left s v = Some m" "n < m"
  shows "\<exists>s'. ((\<lambda>x. Option.bind x tick) ^^ n) (Some s) = Some s' \<and> inv s' \<and> left s' v = Some (m - n)"
  using assms
proof (induction n)
  case 0
  then show ?case by simp
next
  case (Suc n)
  then obtain s1 where s1: "((\<lambda>x. Option.bind x tick) ^^ n) (Some s) = Some s1" "inv s1"
      "left s1 v = Some (m - n)"
    by auto
  from tick_left[OF s1(2)] obtain s2 where "tick s1 = Some s2" "inv s2"
      "left s2 = (\<lambda>v. if left s1 v = Some 1 then None else map_option (\<lambda>n. n - 1) (left s1 v))"
    by blast
  with s1 Suc.prems show ?case by auto
qed

text \<open>A timer armed for \<open>m\<close> ticks is still armed after any fewer and not after \<open>m\<close>.\<close>

lemma fires_after:
  assumes "inv s" "left s v = None" "0 < n"
  shows "\<exists>s1 s2. ((\<lambda>x. Option.bind x tick) ^^ (unat n - 1)) (Some (arm v n s)) = Some s1 \<and> left s1 v = Some 1
    \<and> ((\<lambda>x. Option.bind x tick) ^^ unat n) (Some (arm v n s)) = Some s2 \<and> left s2 v = None"
proof -
  have pos: "0 < unat n" using assms(3) by (simp add: word_less_nat_alt)
  then have "\<exists>s'. ((\<lambda>x. Option.bind x tick) ^^ (unat n - 1)) (Some (arm v n s)) = Some s'
      \<and> inv s' \<and> left s' v = Some (unat n - (unat n - 1))"
    using arm_inv[OF assms] left_arm[OF assms(1,2), of n] by (intro ticks_left) auto
  then obtain s1 where s1: "((\<lambda>x. Option.bind x tick) ^^ (unat n - 1)) (Some (arm v n s)) = Some s1"
      "inv s1" "left s1 v = Some 1"
    using pos by auto
  from tick_left[OF s1(2)] obtain s2 where "tick s1 = Some s2" "left s2 v = None"
    using s1(3) by auto
  moreover have "((\<lambda>x. Option.bind x tick) ^^ unat n) (Some (arm v n s))
      = Option.bind (((\<lambda>x. Option.bind x tick) ^^ (unat n - 1)) (Some (arm v n s))) tick"
    using pos by (metis Suc_pred' comp_apply funpow.simps(2))
  ultimately show ?thesis using s1 by simp
qed

end

end
