(* ===== verification/Scheduler.thy ===== *)
theory Scheduler
  imports VirtualTimers
begin

text \<open>
  The scheduler of \<^verbatim>\<open>os/kernel/src/chschd.c\<close> and the tick handler of
  \<^verbatim>\<open>os/kernel/src/chsys.c\<close>, with the invariant of the thread lists that every
  kernel operation keeps.
\<close>

section \<open>Operations\<close>

definition firstprio :: "qaddr \<Rightarrow> kernel \<Rightarrow> nat" where
  "firstprio q k = prio k (case queues k q of [] \<Rightarrow> QHdr q | t # _ \<Rightarrow> t)"

definition scheduler_init :: "kernel \<Rightarrow> kernel" where
  "scheduler_init k =
     (let k1 = set_queue RListQ [] k;
          k2 = upd_thr (QHdr RListQ) (\<lambda>r. r\<lparr>p_prio := NOPRIO\<rparr>) k1
      in k2\<lparr>r_preempt := CH_TIME_QUANTUM, registry := []\<rparr>)"

definition chSchReadyI :: "tid \<Rightarrow> kernel \<Rightarrow> kernel" where
  "chSchReadyI tp k =
     (let k1 = set_state tp THD_STATE_READY k
      in set_queue RListQ (prio_ins (prio k1) tp (queues k1 RListQ)) k1)"

text \<open>The part of \<^verbatim>\<open>chSchGoSleepS\<close> before the context switch.\<close>

definition go_sleep :: "tstate \<Rightarrow> kernel \<Rightarrow> kernel" where
  "go_sleep newstate k =
     (let k1 = set_state (currp k) newstate k;
          k2 = k1\<lparr>r_preempt := CH_TIME_QUANTUM\<rparr>
      in case fifo_remove RListQ k2 of
           (tp, k3) \<Rightarrow> set_state tp THD_STATE_CURRENT (k3\<lparr>currp := tp\<rparr>))"

definition chSchGoSleepS :: "tstate \<Rightarrow> kernel \<Rightarrow> unit step" where
  "chSchGoSleepS newstate k = Switch (go_sleep newstate k) (Ret ())"

fun sem_of :: "qaddr \<Rightarrow> nat" where
  "sem_of (SemQ s) = s"
| "sem_of q = undefined q"

definition chSemFastSignalI :: "nat \<Rightarrow> kernel \<Rightarrow> kernel" where
  "chSemFastSignalI s k = k\<lparr>s_cnt := (s_cnt k)(s := s_cnt k s + 1)\<rparr>"

definition chSemFastWaitI :: "nat \<Rightarrow> kernel \<Rightarrow> kernel" where
  "chSemFastWaitI s k = k\<lparr>s_cnt := (s_cnt k)(s := s_cnt k s - 1)\<rparr>"

text \<open>The timeout callback.\<close>

definition wakeup_thread :: "tid \<Rightarrow> kernel \<Rightarrow> kernel" where
  "wakeup_thread tp k =
     (let finish = (\<lambda>k. chSchReadyI tp (set_u tp (U_msg RDY_TIMEOUT) k))
      in case state k tp of
           THD_STATE_READY \<Rightarrow> k
         | THD_STATE_WTSEM \<Rightarrow>
             finish (dequeue tp (chSemFastSignalI (sem_of (u_wtobjp (p_u (thr k tp)))) k))
         | THD_STATE_WTQUEUE \<Rightarrow> finish (dequeue tp k)
         | THD_STATE_WTCOND \<Rightarrow> finish (dequeue tp k)
         | _ \<Rightarrow> finish k)"

fun wakeup :: "vtpar \<Rightarrow> kernel \<Rightarrow> kernel" where
  "wakeup (VP_thread tp) k = wakeup_thread tp k"
| "wakeup (VP_val n) k = wakeup_thread (Thd n) k"

text \<open>The meaning of the callbacks: \<^verbatim>\<open>wakeup\<close>, or a function of the application.\<close>

fun vt_call :: "(nat \<Rightarrow> vtpar \<Rightarrow> kernel \<Rightarrow> kernel) \<Rightarrow> callbacks" where
  "vt_call user VF_wakeup p k = wakeup p k"
| "vt_call user (VF_user n) p k = user n p k"

definition chSchGoSleepTimeoutS :: "tstate \<Rightarrow> u32 \<Rightarrow> kernel \<Rightarrow> int step" where
  "chSchGoSleepTimeoutS newstate time k =
     (if time \<noteq> TIME_INFINITE then
        (let vt = StackVT (currp k);
             k1 = chVTSetI vt time VF_wakeup (VP_thread (currp k)) k
         in bind (chSchGoSleepS newstate k1)
              (\<lambda>_ k2. let k3 = (if chVTIsArmedI vt k2 then chVTResetI vt k2 else k2)
                      in Ret (rdymsg k3 (currp k3)) k3))
      else bind (chSchGoSleepS newstate k) (\<lambda>_ k2. Ret (rdymsg k2 (currp k2)) k2))"

definition chSchWakeupS :: "tid \<Rightarrow> int \<Rightarrow> kernel \<Rightarrow> unit step" where
  "chSchWakeupS ntp msg k =
     (let k1 = set_u ntp (U_msg msg) k
      in if prio k1 ntp \<le> prio k1 (currp k1) then Ret () (chSchReadyI ntp k1)
         else
           (let k2 = chSchReadyI (currp k1) k1;
                k3 = k2\<lparr>r_preempt := CH_TIME_QUANTUM, currp := ntp\<rparr>
            in Switch (set_state ntp THD_STATE_CURRENT k3) (Ret ())))"

definition chSchIsRescRequiredI :: "kernel \<Rightarrow> bool" where
  "chSchIsRescRequiredI k \<longleftrightarrow> prio k (currp k) < firstprio RListQ k"

definition chSchCanYieldS :: "kernel \<Rightarrow> bool" where
  "chSchCanYieldS k \<longleftrightarrow> prio k (currp k) \<le> firstprio RListQ k"

text \<open>The part of \<^verbatim>\<open>chSchDoReschedule\<close> before the context switch.\<close>

definition do_reschedule :: "kernel \<Rightarrow> kernel" where
  "do_reschedule k =
     (let k1 = k\<lparr>r_preempt := CH_TIME_QUANTUM\<rparr>; otp = currp k1
      in case fifo_remove RListQ k1 of
           (tp, k2) \<Rightarrow> chSchReadyI otp (set_state tp THD_STATE_CURRENT (k2\<lparr>currp := tp\<rparr>)))"

definition chSchDoReschedule :: "kernel \<Rightarrow> unit step" where
  "chSchDoReschedule k = Switch (do_reschedule k) (Ret ())"

definition chSchRescheduleS :: "kernel \<Rightarrow> unit step" where
  "chSchRescheduleS k = (if chSchIsRescRequiredI k then chSchDoReschedule k else Ret () k)"

definition chSchDoYieldS :: "kernel \<Rightarrow> unit step" where
  "chSchDoYieldS k = (if chSchCanYieldS k then chSchDoReschedule k else Ret () k)"

definition chSchIsPreemptionRequired :: "kernel \<Rightarrow> bool" where
  "chSchIsPreemptionRequired k =
     (let p1 = firstprio RListQ k; p2 = prio k (currp k)
      in if r_preempt k \<noteq> 0 then p2 < p1 else p2 \<le> p1)"

text \<open>\<^verbatim>\<open>chSchPreemption\<close>, run when an interrupt handler ends.\<close>

definition chSchPreemption :: "kernel \<Rightarrow> unit step" where
  "chSchPreemption k =
     (let p1 = firstprio RListQ k; p2 = prio k (currp k)
      in if r_preempt k \<noteq> 0
         then (if p2 < p1 then chSchDoReschedule k else Ret () k)
         else (if p2 \<le> p1 then chSchDoReschedule k else Ret () k))"

definition chSysTimerHandlerI :: "callbacks \<Rightarrow> kernel \<Rightarrow> kernel option" where
  "chSysTimerHandlerI call k =
     (let k1 = (if 0 < r_preempt k then k\<lparr>r_preempt := r_preempt k - 1\<rparr> else k);
          k2 = upd_thr (currp k1) (\<lambda>r. r\<lparr>p_time := p_time r + 1\<rparr>) k1
      in chVTDoTickI call k2)"

section \<open>The invariant of the thread lists\<close>

text \<open>The queue a thread's state says it is in.\<close>

fun waits_in :: "tstate \<Rightarrow> p_union \<Rightarrow> qaddr option" where
  "waits_in THD_STATE_READY u = Some RListQ"
| "waits_in THD_STATE_WTSEM (U_wtobjp (SemQ s)) = Some (SemQ s)"
| "waits_in THD_STATE_WTMTX (U_wtobjp (MtxQ m)) = Some (MtxQ m)"
| "waits_in THD_STATE_WTCOND (U_wtobjp (CondQ c)) = Some (CondQ c)"
| "waits_in THD_STATE_WTQUEUE (U_wtobjp (IoQ i)) = Some (IoQ i)"
| "waits_in THD_STATE_SNDMSGQ (U_wtobjp (MsgQ t)) = Some (MsgQ t)"
| "waits_in st u = None"

abbreviation home :: "kernel \<Rightarrow> tid \<Rightarrow> qaddr option" where
  "home k t \<equiv> waits_in (state k t) (p_u (thr k t))"

text \<open>The lists kept in priority order.\<close>

fun by_prio :: "qaddr \<Rightarrow> bool" where
  "by_prio RListQ = True"
| "by_prio (MtxQ m) = True"
| "by_prio (CondQ c) = True"
| "by_prio q = False"

text \<open>The states of waiting in a queue.\<close>

fun queue_state :: "tstate \<Rightarrow> bool" where
  "queue_state THD_STATE_WTSEM = True"
| "queue_state THD_STATE_WTMTX = True"
| "queue_state THD_STATE_WTCOND = True"
| "queue_state THD_STATE_WTQUEUE = True"
| "queue_state THD_STATE_SNDMSGQ = True"
| "queue_state st = False"

text \<open>
  \<open>core X C k\<close>: the lists are consistent with the states of all threads except those
  in \<open>X\<close>, which are in no list, and outside \<open>X\<close> exactly the threads in \<open>C\<close> are in
  state \<^verbatim>\<open>CURRENT\<close>. The idle thread is always runnable.
\<close>

definition core :: "tid set \<Rightarrow> tid set \<Rightarrow> kernel \<Rightarrow> bool" where
  "core X C k \<longleftrightarrow>
     (\<forall>q. distinct (queues k q))
     \<and> (\<forall>t q. t \<in> set (queues k q) \<longleftrightarrow> t \<notin> X \<and> home k t = Some q)
     \<and> (\<forall>t. t \<notin> X \<longrightarrow> (state k t = THD_STATE_CURRENT \<longleftrightarrow> t \<in> C))
     \<and> (\<forall>q. by_prio q \<longrightarrow> prio_sorted (prio k) (queues k q))
     \<and> (\<forall>t. t \<notin> X \<longrightarrow> queue_state (state k t) \<longrightarrow> home k t \<noteq> None)
     \<and> (idle_thread \<notin> X \<longrightarrow> state k idle_thread \<in> {THD_STATE_READY, THD_STATE_CURRENT})"

definition sem_ok :: "kernel \<Rightarrow> bool" where
  "sem_ok k \<longleftrightarrow> (\<forall>s. int (length (queues k (SemQ s))) = max 0 (- s_cnt k s))"

text \<open>Queue headers read as threads: never run, never queued, priority \<^verbatim>\<open>NOPRIO\<close>.\<close>

definition hdr_ok :: "kernel \<Rightarrow> bool" where
  "hdr_ok k \<longleftrightarrow> (\<forall>q. state k (QHdr q) = THD_STATE_SUSPENDED \<and> prio k (QHdr q) = NOPRIO)"

text \<open>
  \<open>waiters k\<close>: the threads in some thread's \<^verbatim>\<open>p_waiting\<close> list. They are in state
  \<^verbatim>\<open>WTEXIT\<close>, each in one list.
\<close>

definition waiters :: "kernel \<Rightarrow> tid set" where
  "waiters k = (\<Union>t. set (p_waiting (thr k t)))"

definition wait_ok :: "kernel \<Rightarrow> bool" where
  "wait_ok k \<longleftrightarrow>
     (\<forall>t. distinct (p_waiting (thr k t)))
     \<and> (\<forall>t u. t \<noteq> u \<longrightarrow> set (p_waiting (thr k t)) \<inter> set (p_waiting (thr k u)) = {})
     \<and> (\<forall>w \<in> waiters k. is_Thd w \<and> w \<noteq> idle_thread \<and> state k w = THD_STATE_WTEXIT)"

text \<open>
  Mutexes: \<^verbatim>\<open>p_mtxlist\<close> and \<^verbatim>\<open>m_next\<close> link exactly the mutexes a thread owns, and a
  mutex somebody waits for is owned.
\<close>

fun mtx_chain :: "(nat \<Rightarrow> nat option) \<Rightarrow> nat option \<Rightarrow> nat list \<Rightarrow> bool" where
  "mtx_chain nx p [] \<longleftrightarrow> p = None"
| "mtx_chain nx p (m # ms) \<longleftrightarrow> p = Some m \<and> mtx_chain nx (nx m) ms"

definition owns :: "kernel \<Rightarrow> tid \<Rightarrow> nat list \<Rightarrow> bool" where
  "owns k t ms \<longleftrightarrow> mtx_chain (m_next k) (p_mtxlist (thr k t)) ms \<and> distinct ms
     \<and> (\<forall>m. m \<in> set ms \<longleftrightarrow> m_owner k m = Some t)"

definition mtx_ok :: "kernel \<Rightarrow> bool" where
  "mtx_ok k \<longleftrightarrow> (\<forall>t. \<exists>ms. owns k t ms)
     \<and> (\<forall>m. queues k (MtxQ m) \<noteq> [] \<longrightarrow> m_owner k m \<noteq> None)
     \<and> (\<forall>m t. m_owner k m = Some t \<longrightarrow> is_Thd t)
     \<and> finite {t. state k t = THD_STATE_WTMTX}"

definition links_ok :: "kernel \<Rightarrow> bool" where
  "links_ok k \<longleftrightarrow> wait_ok k \<and> mtx_ok k"

definition kinv :: "kernel \<Rightarrow> bool" where
  "kinv k \<longleftrightarrow> core {} {currp k} k \<and> sem_ok k \<and> hdr_ok k \<and> links_ok k"

lemma core_other_fields [simp]:
  "core X C (k\<lparr>r_preempt := v_r_preempt\<rparr>) = core X C k"
  "core X C (k\<lparr>currp := v_currp\<rparr>) = core X C k"
  "core X C (k\<lparr>registry := v_registry\<rparr>) = core X C k"
  "core X C (k\<lparr>vt_list := v_vt_list\<rparr>) = core X C k"
  "core X C (k\<lparr>vt_time := v_vt_time\<rparr>) = core X C k"
  "core X C (k\<lparr>vt_func := v_vt_func\<rparr>) = core X C k"
  "core X C (k\<lparr>vt_par := v_vt_par\<rparr>) = core X C k"
  "core X C (k\<lparr>vt_systime := v_vt_systime\<rparr>) = core X C k"
  "core X C (k\<lparr>s_cnt := v_s_cnt\<rparr>) = core X C k"
  "core X C (k\<lparr>m_owner := v_m_owner\<rparr>) = core X C k"
  "core X C (k\<lparr>m_next := v_m_next\<rparr>) = core X C k"
  "core X C (k\<lparr>es_list := v_es_list\<rparr>) = core X C k"
  "core X C (k\<lparr>el_listener := v_el_listener\<rparr>) = core X C k"
  "core X C (k\<lparr>el_mask := v_el_mask\<rparr>) = core X C k"
  "core X C (k\<lparr>mbox := v_mbox\<rparr>) = core X C k"
  "core X C (k\<lparr>ioq := v_ioq\<rparr>) = core X C k"
  "core X C (k\<lparr>mem := v_mem\<rparr>) = core X C k"
  by (simp_all add: core_def)

text \<open>Building blocks: how one list or one thread changes.\<close>

lemma core_distinct: "core X C k \<Longrightarrow> distinct (queues k q)"
  by (simp add: core_def)

lemma core_mem: "core X C k \<Longrightarrow> t \<in> set (queues k q) \<longleftrightarrow> t \<notin> X \<and> home k t = Some q"
  by (simp add: core_def)

lemma core_sorted: "core X C k \<Longrightarrow> by_prio q \<Longrightarrow> prio_sorted (prio k) (queues k q)"
  by (simp add: core_def)

lemma core_current: "core X C k \<Longrightarrow> t \<notin> X \<Longrightarrow> state k t = THD_STATE_CURRENT \<longleftrightarrow> t \<in> C"
  by (simp add: core_def)

lemma core_queued: "core X C k \<Longrightarrow> t \<notin> X \<Longrightarrow> queue_state (state k t) \<Longrightarrow> home k t \<noteq> None"
  by (simp add: core_def)

lemma core_idle: "core X C k \<Longrightarrow> idle_thread \<notin> X \<Longrightarrow>
    state k idle_thread \<in> {THD_STATE_READY, THD_STATE_CURRENT}"
  unfolding core_def by blast

lemma core_eq: "thr k' = thr k \<Longrightarrow> queues k' = queues k \<Longrightarrow> core X C k' = core X C k"
  by (simp only: core_def)

lemma core_cong: "core X C k \<Longrightarrow> thr k' = thr k \<Longrightarrow> queues k' = queues k \<Longrightarrow> core X C k'"
  using core_eq by blast

lemma waits_in_CURRENT [simp]: "waits_in THD_STATE_CURRENT u = None"
  by (cases u) auto

lemma waits_in_READY [simp]: "waits_in st u = Some RListQ \<longleftrightarrow> st = THD_STATE_READY"
  by (cases "(st, u)" rule: waits_in.cases) auto

lemma coreI:
  assumes "\<And>q. distinct (queues k q)"
    and "\<And>t q. t \<in> set (queues k q) \<longleftrightarrow> t \<notin> X \<and> home k t = Some q"
    and "\<And>t. t \<notin> X \<Longrightarrow> state k t = THD_STATE_CURRENT \<longleftrightarrow> t \<in> C"
    and "\<And>q. by_prio q \<Longrightarrow> prio_sorted (prio k) (queues k q)"
    and "\<And>t. t \<notin> X \<Longrightarrow> queue_state (state k t) \<Longrightarrow> home k t \<noteq> None"
    and "idle_thread \<notin> X \<Longrightarrow> state k idle_thread \<in> {THD_STATE_READY, THD_STATE_CURRENT}"
  shows "core X C k"
  using assms by (auto simp: core_def)

lemma prio_sorted_upd:
  "t \<notin> set xs \<Longrightarrow> prio_sorted (\<lambda>x. p_prio (if x = t then r else f x)) xs
     = prio_sorted (\<lambda>x. p_prio (f x)) xs"
  by (rule prio_sorted_cong) auto

lemma core_upd:
  assumes "core X C k" "t \<in> X"
  shows "core X C (upd_thr t f k)"
proof (rule coreI)
  fix q
  have t: "t \<notin> set (queues k q)" using assms by (simp add: core_mem)
  show "distinct (queues (upd_thr t f k) q)" using assms by (simp add: upd_thr_def core_distinct)
  show "prio_sorted (prio (upd_thr t f k)) (queues (upd_thr t f k) q)" if "by_prio q"
    using core_sorted[OF assms(1) that] t by (simp add: upd_thr_def prio_sorted_upd)
next
  fix u q
  show "u \<in> set (queues (upd_thr t f k) q) \<longleftrightarrow> u \<notin> X \<and> home (upd_thr t f k) u = Some q"
    using assms by (auto simp: upd_thr_def core_mem)
next
  fix u assume "u \<notin> X"
  then show "state (upd_thr t f k) u = THD_STATE_CURRENT \<longleftrightarrow> u \<in> C"
    using assms by (auto simp: upd_thr_def core_current)
next
  fix u assume "u \<notin> X" "queue_state (state (upd_thr t f k) u)"
  then show "home (upd_thr t f k) u \<noteq> None"
    using assms core_queued[OF assms(1), of u] by (auto simp: upd_thr_def split: if_splits)
next
  assume "idle_thread \<notin> X"
  then show "state (upd_thr t f k) idle_thread \<in> {THD_STATE_READY, THD_STATE_CURRENT}"
    using core_idle[OF assms(1)] assms(2) by (auto simp: upd_thr_def)
qed

lemma core_out:
  assumes "core X C k" "home k t = None"
  shows "core (insert t X) (C - {t}) k"
  using assms unfolding core_def by auto

lemma core_take:
  assumes c: "core X C k" and q: "queues k q = as @ t # bs"
  shows "core (insert t X) C (set_queue q (as @ bs) k)"
proof (rule coreI)
  fix r
  show "distinct (queues (set_queue q (as @ bs) k) r)"
    using core_distinct[OF c, of r] q by (auto simp: set_queue_def)
  show "prio_sorted (prio (set_queue q (as @ bs) k)) (queues (set_queue q (as @ bs) k) r)" if "by_prio r"
    using core_sorted[OF c that] q by (auto simp: set_queue_def prio_sorted_append)
next
  fix u r
  have "distinct (as @ t # bs)" using core_distinct[OF c, of q] q by simp
  then show "u \<in> set (queues (set_queue q (as @ bs) k) r) \<longleftrightarrow>
      u \<notin> insert t X \<and> home (set_queue q (as @ bs) k) u = Some r"
    using core_mem[OF c, of u r] core_mem[OF c, of t r] core_mem[OF c, of u q] core_mem[OF c, of t q] q
    by (auto simp: set_queue_def)
next
  fix u assume "u \<notin> insert t X"
  then show "state (set_queue q (as @ bs) k) u = THD_STATE_CURRENT \<longleftrightarrow> u \<in> C"
    using core_current[OF c] by (simp add: set_queue_def)
next
  fix u assume "u \<notin> insert t X" "queue_state (state (set_queue q (as @ bs) k) u)"
  then show "home (set_queue q (as @ bs) k) u \<noteq> None"
    using core_queued[OF c, of u] by (simp add: set_queue_def)
next
  assume "idle_thread \<notin> insert t X"
  then show "state (set_queue q (as @ bs) k) idle_thread \<in> {THD_STATE_READY, THD_STATE_CURRENT}"
    using core_idle[OF c] by (simp add: set_queue_def)
qed

lemma core_dequeue:
  assumes c: "core X C k" and t: "t \<notin> C"
  shows "core (insert t X) C (dequeue t k)"
proof (rule coreI)
  fix r
  show "distinct (queues (dequeue t k) r)" using core_distinct[OF c] by (simp add: dequeue_def)
  show "prio_sorted (prio (dequeue t k)) (queues (dequeue t k) r)" if "by_prio r"
    using core_sorted[OF c that] by (simp add: dequeue_def prio_sorted_remove1)
next
  fix u r
  show "u \<in> set (queues (dequeue t k) r) \<longleftrightarrow> u \<notin> insert t X \<and> home (dequeue t k) u = Some r"
    using core_mem[OF c] core_distinct[OF c] by (auto simp: dequeue_def)
next
  fix u assume "u \<notin> insert t X"
  then show "state (dequeue t k) u = THD_STATE_CURRENT \<longleftrightarrow> u \<in> C"
    using core_current[OF c] by (simp add: dequeue_def)
next
  fix u assume "u \<notin> insert t X" "queue_state (state (dequeue t k) u)"
  then show "home (dequeue t k) u \<noteq> None"
    using core_queued[OF c, of u] by (simp add: dequeue_def)
next
  assume "idle_thread \<notin> insert t X"
  then show "state (dequeue t k) idle_thread \<in> {THD_STATE_READY, THD_STATE_CURRENT}"
    using core_idle[OF c] by (simp add: dequeue_def)
qed

lemma core_put:
  assumes c: "core X C k" and t: "t \<in> X" "t \<notin> C" "home k t = Some q"
    and xs: "set xs = insert t (set (queues k q))" "distinct xs"
      "by_prio q \<Longrightarrow> prio_sorted (prio k) xs"
    and idle: "t = idle_thread \<Longrightarrow> q = RListQ"
  shows "core (X - {t}) C (set_queue q xs k)"
proof (rule coreI)
  fix r
  show "distinct (queues (set_queue q xs k) r)" using core_distinct[OF c] xs by (simp add: set_queue_def)
  show "prio_sorted (prio (set_queue q xs k)) (queues (set_queue q xs k) r)" if "by_prio r"
    using core_sorted[OF c that] xs that by (auto simp: set_queue_def)
next
  fix u r
  show "u \<in> set (queues (set_queue q xs k) r) \<longleftrightarrow> u \<notin> X - {t} \<and> home (set_queue q xs k) u = Some r"
    using core_mem[OF c] t xs by (auto simp: set_queue_def)
next
  fix u assume "u \<notin> X - {t}"
  then show "state (set_queue q xs k) u = THD_STATE_CURRENT \<longleftrightarrow> u \<in> C"
    using core_current[OF c, of u] t by (auto simp: set_queue_def)
next
  fix u assume "u \<notin> X - {t}" "queue_state (state (set_queue q xs k) u)"
  then show "home (set_queue q xs k) u \<noteq> None"
    using core_queued[OF c, of u] t by (auto simp: set_queue_def)
next
  assume "idle_thread \<notin> X - {t}"
  then show "state (set_queue q xs k) idle_thread \<in> {THD_STATE_READY, THD_STATE_CURRENT}"
    using core_idle[OF c] t idle by (auto simp: set_queue_def)
qed

lemma core_in:
  assumes "core X C k" "home k t = None" "state k t \<noteq> THD_STATE_CURRENT" "t \<notin> C" "t \<noteq> idle_thread"
    "\<not> queue_state (state k t)"
  shows "core (X - {t}) C k"
  using assms unfolding core_def by auto

lemma core_become_current:
  assumes "core X C k" "t \<in> X"
  shows "core (X - {t}) (insert t C) (set_state t THD_STATE_CURRENT k)"
proof -
  have "core X C (set_state t THD_STATE_CURRENT k)"
    using core_upd[OF assms] by (simp add: set_state_def)
  moreover have "home (set_state t THD_STATE_CURRENT k) t = None"
    "state (set_state t THD_STATE_CURRENT k) t = THD_STATE_CURRENT"
    by (simp_all add: set_state_def upd_thr_def)
  ultimately show ?thesis unfolding core_def by auto
qed

text \<open>The other two parts of the invariant under the same building blocks.\<close>

lemma sem_ok_simps [simp]:
  "sem_ok (k\<lparr>r_preempt := v_r_preempt\<rparr>) = sem_ok k"
  "sem_ok (k\<lparr>currp := v_currp\<rparr>) = sem_ok k"
  "sem_ok (k\<lparr>registry := v_registry\<rparr>) = sem_ok k"
  "sem_ok (k\<lparr>vt_list := v_vt_list\<rparr>) = sem_ok k"
  "sem_ok (k\<lparr>vt_time := v_vt_time\<rparr>) = sem_ok k"
  "sem_ok (k\<lparr>vt_func := v_vt_func\<rparr>) = sem_ok k"
  "sem_ok (k\<lparr>vt_par := v_vt_par\<rparr>) = sem_ok k"
  "sem_ok (k\<lparr>vt_systime := v_vt_systime\<rparr>) = sem_ok k"
  "sem_ok (k\<lparr>m_owner := v_m_owner\<rparr>) = sem_ok k"
  "sem_ok (k\<lparr>m_next := v_m_next\<rparr>) = sem_ok k"
  "sem_ok (k\<lparr>es_list := v_es_list\<rparr>) = sem_ok k"
  "sem_ok (k\<lparr>el_listener := v_el_listener\<rparr>) = sem_ok k"
  "sem_ok (k\<lparr>el_mask := v_el_mask\<rparr>) = sem_ok k"
  "sem_ok (k\<lparr>mbox := v_mbox\<rparr>) = sem_ok k"
  "sem_ok (k\<lparr>ioq := v_ioq\<rparr>) = sem_ok k"
  "sem_ok (k\<lparr>mem := v_mem\<rparr>) = sem_ok k"
  "sem_ok (upd_thr t f k) = sem_ok k"
  "sem_ok (set_state t st k) = sem_ok k"
  "sem_ok (set_u t u k) = sem_ok k"
  by (simp_all add: sem_ok_def kernel_defs)

lemma sem_ok_set_queue [simp]:
  "(\<And>s. q \<noteq> SemQ s) \<Longrightarrow> sem_ok (set_queue q xs k) = sem_ok k"
  by (simp add: sem_ok_def set_queue_def eq_commute[of _ q])

lemma hdr_ok_simps [simp]:
  "hdr_ok (k\<lparr>r_preempt := v_r_preempt\<rparr>) = hdr_ok k"
  "hdr_ok (k\<lparr>currp := v_currp\<rparr>) = hdr_ok k"
  "hdr_ok (k\<lparr>registry := v_registry\<rparr>) = hdr_ok k"
  "hdr_ok (k\<lparr>vt_list := v_vt_list\<rparr>) = hdr_ok k"
  "hdr_ok (k\<lparr>vt_time := v_vt_time\<rparr>) = hdr_ok k"
  "hdr_ok (k\<lparr>vt_func := v_vt_func\<rparr>) = hdr_ok k"
  "hdr_ok (k\<lparr>vt_par := v_vt_par\<rparr>) = hdr_ok k"
  "hdr_ok (k\<lparr>vt_systime := v_vt_systime\<rparr>) = hdr_ok k"
  "hdr_ok (k\<lparr>m_owner := v_m_owner\<rparr>) = hdr_ok k"
  "hdr_ok (k\<lparr>m_next := v_m_next\<rparr>) = hdr_ok k"
  "hdr_ok (k\<lparr>es_list := v_es_list\<rparr>) = hdr_ok k"
  "hdr_ok (k\<lparr>el_listener := v_el_listener\<rparr>) = hdr_ok k"
  "hdr_ok (k\<lparr>el_mask := v_el_mask\<rparr>) = hdr_ok k"
  "hdr_ok (k\<lparr>mbox := v_mbox\<rparr>) = hdr_ok k"
  "hdr_ok (k\<lparr>ioq := v_ioq\<rparr>) = hdr_ok k"
  "hdr_ok (k\<lparr>mem := v_mem\<rparr>) = hdr_ok k"
  "hdr_ok (k\<lparr>s_cnt := v_s_cnt\<rparr>) = hdr_ok k"
  "hdr_ok (k\<lparr>queues := v_queues\<rparr>) = hdr_ok k"
  "hdr_ok (set_queue q xs k) = hdr_ok k"
  "hdr_ok (dequeue t k) = hdr_ok k"
  by (simp_all add: hdr_ok_def kernel_defs dequeue_def)

lemma hdr_ok_upd [simp]: "is_Thd t \<Longrightarrow> hdr_ok (upd_thr t f k) = hdr_ok k"
  by (cases t) (simp_all add: hdr_ok_def upd_thr_def)

lemma hdr_ok_setters [simp]:
  "is_Thd t \<Longrightarrow> hdr_ok (set_state t st k) = hdr_ok k"
  "is_Thd t \<Longrightarrow> hdr_ok (set_u t u k) = hdr_ok k"
  by (simp_all add: set_state_def set_u_def)

lemma waiters_upd [simp]: "(\<And>r. p_waiting (f r) = p_waiting r) \<Longrightarrow> waiters (upd_thr t f k) = waiters k"
  by (auto simp: waiters_def upd_thr_def split: if_splits)

lemma waiters_simps [simp]:
  "waiters (k\<lparr>r_preempt := v_r_preempt\<rparr>) = waiters k"
  "waiters (k\<lparr>currp := v_currp\<rparr>) = waiters k"
  "waiters (k\<lparr>registry := v_registry\<rparr>) = waiters k"
  "waiters (k\<lparr>vt_list := v_vt_list\<rparr>) = waiters k"
  "waiters (k\<lparr>vt_time := v_vt_time\<rparr>) = waiters k"
  "waiters (k\<lparr>vt_func := v_vt_func\<rparr>) = waiters k"
  "waiters (k\<lparr>vt_par := v_vt_par\<rparr>) = waiters k"
  "waiters (k\<lparr>vt_systime := v_vt_systime\<rparr>) = waiters k"
  "waiters (k\<lparr>s_cnt := v_s_cnt\<rparr>) = waiters k"
  "waiters (k\<lparr>es_list := v_es_list\<rparr>) = waiters k"
  "waiters (k\<lparr>el_listener := v_el_listener\<rparr>) = waiters k"
  "waiters (k\<lparr>el_mask := v_el_mask\<rparr>) = waiters k"
  "waiters (k\<lparr>mbox := v_mbox\<rparr>) = waiters k"
  "waiters (k\<lparr>ioq := v_ioq\<rparr>) = waiters k"
  "waiters (k\<lparr>mem := v_mem\<rparr>) = waiters k"
  "waiters (k\<lparr>m_owner := v_m_owner\<rparr>) = waiters k"
  "waiters (k\<lparr>m_next := v_m_next\<rparr>) = waiters k"
  "waiters (k\<lparr>queues := v_queues\<rparr>) = waiters k"
  "waiters (set_queue q xs k) = waiters k"
  "waiters (dequeue t k) = waiters k"
  by (simp_all add: waiters_def set_queue_def dequeue_def)

lemma waiters_setters [simp]:
  "waiters (set_state t st k) = waiters k" "waiters (set_u t u k) = waiters k"
  by (simp_all add: set_state_def set_u_def)

lemma links_cong:
  assumes "thr k' = thr k" "\<And>m. queues k' (MtxQ m) = queues k (MtxQ m)"
    "m_owner k' = m_owner k" "m_next k' = m_next k"
  shows "links_ok k' = links_ok k"
  using assms by (simp add: links_ok_def wait_ok_def mtx_ok_def owns_def waiters_def)

lemma links_ok_simps [simp]:
  "links_ok (k\<lparr>r_preempt := v_r_preempt\<rparr>) = links_ok k"
  "links_ok (k\<lparr>currp := v_currp\<rparr>) = links_ok k"
  "links_ok (k\<lparr>registry := v_registry\<rparr>) = links_ok k"
  "links_ok (k\<lparr>vt_list := v_vt_list\<rparr>) = links_ok k"
  "links_ok (k\<lparr>vt_time := v_vt_time\<rparr>) = links_ok k"
  "links_ok (k\<lparr>vt_func := v_vt_func\<rparr>) = links_ok k"
  "links_ok (k\<lparr>vt_par := v_vt_par\<rparr>) = links_ok k"
  "links_ok (k\<lparr>vt_systime := v_vt_systime\<rparr>) = links_ok k"
  "links_ok (k\<lparr>s_cnt := v_s_cnt\<rparr>) = links_ok k"
  "links_ok (k\<lparr>es_list := v_es_list\<rparr>) = links_ok k"
  "links_ok (k\<lparr>el_listener := v_el_listener\<rparr>) = links_ok k"
  "links_ok (k\<lparr>el_mask := v_el_mask\<rparr>) = links_ok k"
  "links_ok (k\<lparr>mbox := v_mbox\<rparr>) = links_ok k"
  "links_ok (k\<lparr>ioq := v_ioq\<rparr>) = links_ok k"
  "links_ok (k\<lparr>mem := v_mem\<rparr>) = links_ok k"
  by (simp_all add: links_ok_def wait_ok_def mtx_ok_def owns_def waiters_def)

lemma links_ok_set_queue [simp]:
  "(\<And>m. q \<noteq> MtxQ m) \<Longrightarrow> links_ok (set_queue q xs k) = links_ok k"
  by (rule links_cong) (auto simp: set_queue_def)

lemma links_ok_shrink:
  assumes "links_ok k" "\<And>q. queues k q = [] \<Longrightarrow> queues k' q = []" "thr k' = thr k"
    "m_owner k' = m_owner k" "m_next k' = m_next k"
  shows "links_ok k'"
proof -
  have "queues k (MtxQ m) \<noteq> []" if "queues k' (MtxQ m) \<noteq> []" for m using assms(2) that by blast
  then show ?thesis using assms by (simp add: links_ok_def wait_ok_def mtx_ok_def owns_def waiters_def)
qed

lemma links_ok_dequeue [simp]: "links_ok k \<Longrightarrow> links_ok (dequeue t k)"
  by (erule links_ok_shrink) (simp_all add: dequeue_def)

lemma not_waiter: "links_ok k \<Longrightarrow> state k t \<noteq> THD_STATE_WTEXIT \<Longrightarrow> t \<notin> waiters k"
  by (auto simp: links_ok_def wait_ok_def)

lemma finite_state_upd:
  assumes "finite {t. state k t = st}"
  shows "finite {t. state (upd_thr u f k) t = st}"
  by (rule finite_subset[of _ "insert u {t. state k t = st}"]) (use assms in \<open>auto simp: upd_thr_def\<close>)

lemma links_ok_upd:
  assumes k: "links_ok k" and f: "\<And>r. p_waiting (f r) = p_waiting r" "\<And>r. p_mtxlist (f r) = p_mtxlist r"
    and t: "t \<notin> waiters k \<or> p_state (f (thr k t)) = p_state (thr k t)"
  shows "links_ok (upd_thr t f k)"
proof -
  have w: "p_waiting (thr (upd_thr t f k) u) = p_waiting (thr k u)" for u
    by (simp add: upd_thr_def f)
  then have ws: "waiters (upd_thr t f k) = waiters k" by (simp add: waiters_def)
  have st: "state (upd_thr t f k) u = state k u" if "u \<in> waiters k" for u
    using t that by (auto simp: upd_thr_def)
  have "wait_ok (upd_thr t f k)"
    using k by (auto simp: links_ok_def wait_ok_def w ws st)
  moreover have "owns (upd_thr t f k) u ms = owns k u ms" for u ms
    by (simp add: owns_def upd_thr_def f)
  then have "mtx_ok (upd_thr t f k)"
    using k finite_state_upd[of k THD_STATE_WTMTX t f]
    by (simp add: links_ok_def mtx_ok_def) (simp add: upd_thr_def)
  ultimately show ?thesis by (simp add: links_ok_def)
qed

lemma links_ok_set_state:
  "links_ok k \<Longrightarrow> t \<notin> waiters k \<Longrightarrow> links_ok (set_state t st k)"
  unfolding set_state_def by (rule links_ok_upd) auto

lemma links_ok_set_u [simp]: "links_ok k \<Longrightarrow> links_ok (set_u t u k)"
  unfolding set_u_def by (rule links_ok_upd) auto

lemma queued_is_Thd:
  assumes "hdr_ok k" "core X C k" "t \<in> set (queues k q)"
  shows "is_Thd t"
proof (cases t)
  case (QHdr h)
  with assms(1) have "home k t = None" by (simp add: hdr_ok_def)
  with core_mem[OF assms(2)] assms(3) show ?thesis by simp
qed simp

lemma current_is_Thd:
  assumes "hdr_ok k" "core X C k" "t \<in> C" "t \<notin> X"
  shows "is_Thd t"
proof (cases t)
  case (QHdr h)
  with assms core_current[OF assms(2,4)] show ?thesis by (auto simp: hdr_ok_def)
qed simp

lemma kinvI: "core {} {currp k} k \<Longrightarrow> sem_ok k \<Longrightarrow> hdr_ok k \<Longrightarrow> links_ok k \<Longrightarrow> kinv k"
  by (simp add: kinv_def)

lemma kinv_core: "kinv k \<Longrightarrow> core {} {currp k} k"
  and kinv_sem: "kinv k \<Longrightarrow> sem_ok k"
  and kinv_hdr: "kinv k \<Longrightarrow> hdr_ok k"
  and kinv_links: "kinv k \<Longrightarrow> links_ok k"
  and kinv_currp: "kinv k \<Longrightarrow> is_Thd (currp k)"
  by (auto simp: kinv_def intro: current_is_Thd)

lemma kinv_current: "kinv k \<Longrightarrow> state k t = THD_STATE_CURRENT \<longleftrightarrow> t = currp k"
  using core_current[of "{}" "{currp k}" k t] by (simp add: kinv_def)

lemma kinv_currp_not_queued: "kinv k \<Longrightarrow> currp k \<notin> set (queues k q)"
  using core_mem[OF kinv_core] kinv_current[of k "currp k"] by auto

lemma kinv_queued: "kinv k \<Longrightarrow> queue_state (state k t) \<Longrightarrow> home k t \<noteq> None"
  using core_queued[OF kinv_core] by simp

lemma kinv_mem: "kinv k \<Longrightarrow> t \<in> set (queues k q) \<longleftrightarrow> home k t = Some q"
  using core_mem[OF kinv_core] by simp

lemma currp_not_waiter: "kinv k \<Longrightarrow> currp k \<notin> waiters k"
  using not_waiter[OF kinv_links, of k "currp k"] kinv_current[of k "currp k"] by simp

section \<open>The invariant across the scheduler\<close>

lemma chSchReadyI_core:
  assumes c: "core X C k" and t: "t \<in> X" "t \<notin> C"
  shows "core (X - {t}) C (chSchReadyI t k)"
proof -
  let ?k = "set_state t THD_STATE_READY k"
  have c': "core X C ?k" using core_upd[OF c t(1)] by (simp add: set_state_def)
  have "home ?k t = Some RListQ" by (simp add: kernel_defs)
  moreover have "t \<notin> set (queues ?k RListQ)" using core_mem[OF c'] t by simp
  ultimately show ?thesis
    unfolding chSchReadyI_def Let_def using core_sorted[OF c'] core_distinct[OF c'] t
    by (intro core_put[OF c']) auto
qed

lemma chSchReadyI_fields [simp]:
  "sem_ok (chSchReadyI t k) = sem_ok k"
  "is_Thd t \<Longrightarrow> hdr_ok (chSchReadyI t k) = hdr_ok k"
  "currp (chSchReadyI t k) = currp k"
  "s_cnt (chSchReadyI t k) = s_cnt k"
  "m_owner (chSchReadyI t k) = m_owner k"
  "m_next (chSchReadyI t k) = m_next k"
  "registry (chSchReadyI t k) = registry k"
  "waiters (chSchReadyI t k) = waiters k"
  "vt_list (chSchReadyI t k) = vt_list k"
  "vt_time (chSchReadyI t k) = vt_time k"
  "vt_func (chSchReadyI t k) = vt_func k"
  "vt_systime (chSchReadyI t k) = vt_systime k"
  "prio (chSchReadyI t k) u = prio k u"
  "q \<noteq> RListQ \<Longrightarrow> queues (chSchReadyI t k) q = queues k q"
  by (simp_all add: chSchReadyI_def Let_def) (simp_all add: kernel_defs)

lemma links_ok_chSchReadyI [simp]:
  "links_ok k \<Longrightarrow> t \<notin> waiters k \<Longrightarrow> links_ok (chSchReadyI t k)"
  by (simp add: chSchReadyI_def Let_def links_ok_set_state)

lemma queues_chSchReadyI:
  "queues (chSchReadyI t k) RListQ = prio_ins (prio k) t (ready k)"
  by (auto simp: chSchReadyI_def kernel_defs Let_def intro: prio_ins_cong)

lemma sem_ok_cong:
  assumes "\<And>s. queues k (SemQ s) = queues k' (SemQ s)" "s_cnt k = s_cnt k'"
  shows "sem_ok k = sem_ok k'"
  using assms by (simp add: sem_ok_def)

text \<open>The thread at the head of the ready list is switched in.\<close>

lemma go_sleep_eq:
  assumes "ready k = t # ts"
  shows "go_sleep st k =
    set_state t THD_STATE_CURRENT
      (set_queue RListQ ts ((set_state (currp k) st k)\<lparr>r_preempt := CH_TIME_QUANTUM, currp := t\<rparr>))"
  using assms by (simp add: go_sleep_def fifo_remove_def kernel_defs Let_def)

lemma go_sleep_kinv:
  assumes c: "core {} {} (set_state (currp k) st k)" and r: "ready k \<noteq> []"
    and s: "sem_ok k" and h: "hdr_ok k" and cur: "is_Thd (currp k)"
    and l: "links_ok (set_state (currp k) st k)"
  shows "kinv (go_sleep st k)" "currp (go_sleep st k) = hd (ready k)"
proof -
  obtain t ts where ts: "ready k = t # ts" using r by (cases "ready k") auto
  let ?k1 = "set_state (currp k) st k"
  have q1: "queues ?k1 RListQ = [] @ t # ts" by (simp add: kernel_defs ts)
  have "core {t} {} (set_queue RListQ ts ?k1)" using core_take[OF c q1] by simp
  then have "core {t} {} (set_queue RListQ ts (?k1\<lparr>r_preempt := CH_TIME_QUANTUM, currp := t\<rparr>))"
    by (rule core_cong) (simp_all add: set_queue_def)
  from core_become_current[OF this, of t]
  have "core {} {t} (go_sleep st k)" by (simp add: go_sleep_eq[OF ts])
  moreover have "currp (go_sleep st k) = t" by (simp add: go_sleep_eq[OF ts] kernel_defs)
  moreover have "is_Thd t"
    by (rule queued_is_Thd[of ?k1, OF _ c, of t RListQ]) (use h cur q1 in auto)
  moreover have "state ?k1 t = THD_STATE_READY" using core_mem[OF c, of t RListQ] q1 by simp
  then have "t \<notin> waiters k" using not_waiter[OF l, of t] by simp
  then have "links_ok (go_sleep st k)" by (simp add: go_sleep_eq[OF ts] links_ok_set_state l)
  ultimately show "kinv (go_sleep st k)" "currp (go_sleep st k) = hd (ready k)"
    using s h cur by (auto simp: kinv_def go_sleep_eq[OF ts] ts)
qed

text \<open>No ready thread has a higher priority than the running one.\<close>

definition top_prio :: "kernel \<Rightarrow> bool" where
  "top_prio k \<longleftrightarrow> (\<forall>t \<in> set (ready k). prio k t \<le> prio k (currp k))"

lemma top_prio_firstprio:
  assumes "prio_sorted (prio k) (ready k)" "firstprio RListQ k \<le> prio k (currp k)"
  shows "top_prio k"
  using assms by (cases "ready k") (auto simp: top_prio_def firstprio_def)

lemma prio_fields [simp]:
  "prio (set_state t st k) u = prio k u" "prio (set_u t x k) u = prio k u"
  "prio (set_queue q xs k) u = prio k u"
  by (simp_all add: kernel_defs)

lemma queues_fields [simp]:
  "queues (set_state t st k) = queues k" "queues (set_u t x k) = queues k"
  "queues (upd_thr t f k) = queues k"
  "queues (set_queue q xs k) = (queues k)(q := xs)"
  by (simp_all add: kernel_defs)

lemma currp_fields [simp]:
  "currp (set_state t st k) = currp k" "currp (set_u t x k) = currp k"
  "currp (upd_thr t f k) = currp k" "currp (set_queue q xs k) = currp k"
  by (simp_all add: kernel_defs)

lemma other_fields [simp]:
  "s_cnt (upd_thr t f k) = s_cnt k"
  "m_owner (upd_thr t f k) = m_owner k"
  "m_next (upd_thr t f k) = m_next k"
  "registry (upd_thr t f k) = registry k"
  "vt_list (upd_thr t f k) = vt_list k"
  "vt_time (upd_thr t f k) = vt_time k"
  "vt_func (upd_thr t f k) = vt_func k"
  "vt_par (upd_thr t f k) = vt_par k"
  "vt_systime (upd_thr t f k) = vt_systime k"
  "r_preempt (upd_thr t f k) = r_preempt k"
  "es_list (upd_thr t f k) = es_list k"
  "el_listener (upd_thr t f k) = el_listener k"
  "el_mask (upd_thr t f k) = el_mask k"
  "mbox (upd_thr t f k) = mbox k"
  "ioq (upd_thr t f k) = ioq k"
  "mem (upd_thr t f k) = mem k"
  "s_cnt (set_state t st k) = s_cnt k"
  "m_owner (set_state t st k) = m_owner k"
  "m_next (set_state t st k) = m_next k"
  "registry (set_state t st k) = registry k"
  "vt_list (set_state t st k) = vt_list k"
  "vt_time (set_state t st k) = vt_time k"
  "vt_func (set_state t st k) = vt_func k"
  "vt_par (set_state t st k) = vt_par k"
  "vt_systime (set_state t st k) = vt_systime k"
  "r_preempt (set_state t st k) = r_preempt k"
  "es_list (set_state t st k) = es_list k"
  "el_listener (set_state t st k) = el_listener k"
  "el_mask (set_state t st k) = el_mask k"
  "mbox (set_state t st k) = mbox k"
  "ioq (set_state t st k) = ioq k"
  "mem (set_state t st k) = mem k"
  "s_cnt (set_u t u k) = s_cnt k"
  "m_owner (set_u t u k) = m_owner k"
  "m_next (set_u t u k) = m_next k"
  "registry (set_u t u k) = registry k"
  "vt_list (set_u t u k) = vt_list k"
  "vt_time (set_u t u k) = vt_time k"
  "vt_func (set_u t u k) = vt_func k"
  "vt_par (set_u t u k) = vt_par k"
  "vt_systime (set_u t u k) = vt_systime k"
  "r_preempt (set_u t u k) = r_preempt k"
  "es_list (set_u t u k) = es_list k"
  "el_listener (set_u t u k) = el_listener k"
  "el_mask (set_u t u k) = el_mask k"
  "mbox (set_u t u k) = mbox k"
  "ioq (set_u t u k) = ioq k"
  "mem (set_u t u k) = mem k"
  "s_cnt (set_queue q xs k) = s_cnt k"
  "m_owner (set_queue q xs k) = m_owner k"
  "m_next (set_queue q xs k) = m_next k"
  "registry (set_queue q xs k) = registry k"
  "vt_list (set_queue q xs k) = vt_list k"
  "vt_time (set_queue q xs k) = vt_time k"
  "vt_func (set_queue q xs k) = vt_func k"
  "vt_par (set_queue q xs k) = vt_par k"
  "vt_systime (set_queue q xs k) = vt_systime k"
  "r_preempt (set_queue q xs k) = r_preempt k"
  "es_list (set_queue q xs k) = es_list k"
  "el_listener (set_queue q xs k) = el_listener k"
  "el_mask (set_queue q xs k) = el_mask k"
  "mbox (set_queue q xs k) = mbox k"
  "ioq (set_queue q xs k) = ioq k"
  "mem (set_queue q xs k) = mem k"
  by (simp_all add: kernel_defs)

lemma thr_fields [simp]:
  "v \<noteq> t \<Longrightarrow> thr (upd_thr t f k) v = thr k v" "thr (upd_thr t f k) t = f (thr k t)"
  "v \<noteq> t \<Longrightarrow> thr (set_state t st k) v = thr k v" "thr (set_state t st k) t = (thr k t)\<lparr>p_state := st\<rparr>"
  "v \<noteq> t \<Longrightarrow> thr (set_u t u k) v = thr k v" "thr (set_u t u k) t = (thr k t)\<lparr>p_u := u\<rparr>"
  "thr (set_queue q xs k) = thr k"
  by (simp_all add: kernel_defs)

lemma go_sleep_top:
  assumes "prio_sorted (prio k) (ready k)" "ready k \<noteq> []"
  shows "top_prio (go_sleep st k)"
proof -
  obtain t ts where ts: "ready k = t # ts" using assms by (cases "ready k") auto
  then show ?thesis using assms by (simp add: go_sleep_eq[OF ts] top_prio_def)
qed

lemma do_reschedule_eq:
  assumes "ready k = t # ts"
  shows "do_reschedule k = chSchReadyI (currp k)
    (set_state t THD_STATE_CURRENT ((set_queue RListQ ts (k\<lparr>r_preempt := CH_TIME_QUANTUM\<rparr>))\<lparr>currp := t\<rparr>))"
  using assms by (simp add: do_reschedule_def fifo_remove_def kernel_defs Let_def)

lemma do_reschedule_kinv:
  assumes k: "kinv k" and r: "ready k \<noteq> []"
  shows "kinv (do_reschedule k)" "currp (do_reschedule k) = hd (ready k)"
proof -
  obtain t ts where ts: "ready k = t # ts" using r by (cases "ready k") auto
  let ?c = "currp k"
  have tc: "t \<noteq> ?c" using kinv_currp_not_queued[OF k, of RListQ] ts by auto
  have th: "is_Thd t" by (rule queued_is_Thd[OF kinv_hdr[OF k] kinv_core[OF k], of t RListQ]) (simp add: ts)
  have "queues k RListQ = [] @ t # ts" by (simp add: ts)
  from core_take[OF kinv_core[OF k] this]
  have "core {t} {?c} (set_queue RListQ ts k)" by simp
  then have "core {t} {?c} ((set_queue RListQ ts (k\<lparr>r_preempt := CH_TIME_QUANTUM\<rparr>))\<lparr>currp := t\<rparr>)"
    by (rule core_cong) (simp_all add: set_queue_def)
  from core_become_current[OF this, of t] tc
  have "core {} {t, ?c} (set_state t THD_STATE_CURRENT
      ((set_queue RListQ ts (k\<lparr>r_preempt := CH_TIME_QUANTUM\<rparr>))\<lparr>currp := t\<rparr>))" by simp
  moreover have "{t, ?c} - {?c} = {t}" using tc by auto
  moreover have "home (set_state t THD_STATE_CURRENT
      ((set_queue RListQ ts (k\<lparr>r_preempt := CH_TIME_QUANTUM\<rparr>))\<lparr>currp := t\<rparr>)) ?c = None"
    using tc kinv_current[OF k, of ?c] by (simp add: kernel_defs)
  ultimately have "core {?c} {t} (set_state t THD_STATE_CURRENT
      ((set_queue RListQ ts (k\<lparr>r_preempt := CH_TIME_QUANTUM\<rparr>))\<lparr>currp := t\<rparr>))"
    using core_out[of "{}" "{t, ?c}" _ ?c] by force
  moreover have w: "t \<notin> waiters k" "?c \<notin> waiters k"
    using not_waiter[OF kinv_links[OF k], of t] kinv_mem[OF k, of t RListQ] currp_not_waiter[OF k] ts by auto
  ultimately have "core {} {t} (do_reschedule k)"
    using chSchReadyI_core[of "{?c}" "{t}" _ ?c] tc by (simp add: do_reschedule_eq[OF ts])
  then show "kinv (do_reschedule k)" "currp (do_reschedule k) = hd (ready k)"
    using k th kinv_currp[OF k] w by (auto simp: kinv_def do_reschedule_eq[OF ts] ts links_ok_set_state)
qed

lemma do_reschedule_top:
  assumes "prio_sorted (prio k) (ready k)" "ready k \<noteq> []" "prio k (currp k) \<le> firstprio RListQ k"
  shows "top_prio (do_reschedule k)"
proof -
  obtain t ts where ts: "ready k = t # ts" using assms by (cases "ready k") auto
  with assms(3) have "prio k (currp k) \<le> prio k t" by (simp add: firstprio_def)
  then show ?thesis using assms ts
    by (auto simp: do_reschedule_eq[OF ts] top_prio_def queues_chSchReadyI)
qed

lemma resched_ready: "hdr_ok k \<Longrightarrow> chSchIsRescRequiredI k \<Longrightarrow> ready k \<noteq> []"
  by (auto simp: chSchIsRescRequiredI_def firstprio_def hdr_ok_def NOPRIO_def)

lemma chSchRescheduleS_kinv: "kinv k \<Longrightarrow> always kinv kinv (chSchRescheduleS k)"
  by (auto simp: chSchRescheduleS_def chSchDoReschedule_def resched_ready do_reschedule_kinv kinv_hdr)

lemma chSchRescheduleS_top:
  assumes "kinv k" "after (chSchRescheduleS k) = Some k'"
  shows "top_prio k'"
proof -
  have s: "prio_sorted (prio k) (ready k)" using core_sorted[OF kinv_core[OF assms(1)], of RListQ] by simp
  show ?thesis
  proof (cases "chSchIsRescRequiredI k")
    case True
    then have "k' = do_reschedule k" using assms(2)
      by (simp add: chSchRescheduleS_def chSchDoReschedule_def)
    with do_reschedule_top[OF s resched_ready[OF kinv_hdr[OF assms(1)] True]] True
    show ?thesis by (simp add: chSchIsRescRequiredI_def)
  next
    case False
    then show ?thesis using assms(2) top_prio_firstprio[OF s]
      by (auto simp: chSchRescheduleS_def chSchIsRescRequiredI_def)
  qed
qed

text \<open>Waking a thread that is in no list.\<close>

lemma chSchWakeupS_kinv:
  assumes c: "core {t} {currp k} k" and t: "t \<noteq> currp k" "is_Thd t"
    and s: "sem_ok k" and h: "hdr_ok k" and l: "links_ok k" "t \<notin> waiters k"
  shows "always kinv kinv (chSchWakeupS t msg k)"
proof -
  let ?k1 = "set_u t (U_msg msg) k"
  let ?c = "currp k"
  have cur: "is_Thd ?c" using current_is_Thd[OF h c, of ?c] t by simp
  have c1: "core {t} {?c} ?k1" using core_upd[OF c] by (simp add: set_u_def)
  have 1: "kinv (chSchReadyI t ?k1)"
    using chSchReadyI_core[OF c1, of t] t s h l by (auto intro!: kinvI)
  have "?c \<notin> waiters k" using not_waiter[OF l(1), of ?c] core_current[OF c, of ?c] t by simp
  note l = l this
  have "home ?k1 ?c = None" using core_current[OF c1, of ?c] t by simp
  from core_out[OF c1 this] have "core {?c, t} {} ?k1" by simp
  from chSchReadyI_core[OF this, of ?c] t
  have "core {t} {} (chSchReadyI ?c ?k1)" by (simp add: insert_Diff_if)
  then have "core {t} {} ((chSchReadyI ?c ?k1)\<lparr>r_preempt := CH_TIME_QUANTUM, currp := t\<rparr>)"
    by simp
  from core_become_current[OF this, of t]
  have "core {} {t} (set_state t THD_STATE_CURRENT
      ((chSchReadyI ?c ?k1)\<lparr>r_preempt := CH_TIME_QUANTUM, currp := t\<rparr>))" by simp
  then have 2: "kinv (set_state t THD_STATE_CURRENT
      ((chSchReadyI ?c ?k1)\<lparr>r_preempt := CH_TIME_QUANTUM, currp := t\<rparr>))"
    using t s h cur l by (auto intro!: kinvI simp: links_ok_set_state)
  show ?thesis using 1 2 by (simp add: chSchWakeupS_def Let_def)
qed

lemma chSchWakeupS_top:
  assumes "after (chSchWakeupS t msg k) = Some k'" "top_prio k" "t \<notin> set (ready k)"
  shows "top_prio k'"
proof (cases "prio k t \<le> prio k (currp k)")
  case True
  then show ?thesis using assms
    by (auto simp: chSchWakeupS_def top_prio_def queues_chSchReadyI)
next
  case False
  have "\<And>u. u \<in> set (ready k) \<Longrightarrow> prio k u \<le> prio k t"
    using False assms(2) by (fastforce simp: top_prio_def)
  then show ?thesis using False assms(1)
    by (auto simp: chSchWakeupS_def Let_def top_prio_def queues_chSchReadyI)
qed

text \<open>While a thread other than the idle thread runs, the ready list is not empty.\<close>

lemma kinv_ready:
  assumes "kinv k" "currp k \<noteq> idle_thread"
  shows "ready k \<noteq> []"
proof -
  have "state k idle_thread = THD_STATE_READY"
    using core_idle[OF kinv_core[OF assms(1)]] kinv_current[OF assms(1), of idle_thread] assms(2) by auto
  then have "idle_thread \<in> set (ready k)" using kinv_mem[OF assms(1)] by simp
  then show ?thesis by auto
qed

text \<open>The assumption under which a suspended thread is switched in again.\<close>

definition resumed :: "kernel \<Rightarrow> bool" where
  "resumed k \<longleftrightarrow> kinv k \<and> currp k \<noteq> idle_thread"

lemma resumedD: "resumed k \<Longrightarrow> kinv k" "resumed k \<Longrightarrow> currp k \<noteq> idle_thread"
    "resumed k \<Longrightarrow> ready k \<noteq> []"
  by (auto simp: resumed_def kinv_ready)

abbreviation safe :: "'a step \<Rightarrow> bool" where
  "safe s \<equiv> always kinv resumed s"

text \<open>Suspending the running thread, in a waiting queue or in none.\<close>

lemma wait_core:
  assumes k: "core {} {currp k} k" and st: "waits_in st u = None" "st \<noteq> THD_STATE_CURRENT" "\<not> queue_state st"
    and i: "currp k \<noteq> idle_thread"
  shows "core {} {} (set_state (currp k) st (set_u (currp k) u k))"
proof -
  let ?c = "currp k"
  have "home k ?c = None" using core_current[OF k, of ?c] by simp
  from core_out[OF k this] have "core {?c} {} k" by simp
  then have "core {?c} {} (set_state ?c st (set_u ?c u k))"
    by (simp add: core_upd set_state_def set_u_def)
  from core_in[OF this, of ?c] st i show ?thesis by (simp add: kernel_defs)
qed

lemma wait_in_core:
  assumes k: "core {} {currp k} k" and st: "waits_in st (U_wtobjp q) = Some q"
    and xs: "set xs = insert (currp k) (set (queues k q))" "distinct xs"
      "by_prio q \<Longrightarrow> prio_sorted (prio k) xs"
    and i: "currp k \<noteq> idle_thread"
  shows "core {} {} (set_state (currp k) st (set_queue q xs (set_u (currp k) (U_wtobjp q) k)))"
proof -
  let ?c = "currp k"
  have "home k ?c = None" using core_current[OF k, of ?c] by simp
  from core_out[OF k this] have "core {?c} {} k" by simp
  then have c: "core {?c} {} (set_state ?c st (set_u ?c (U_wtobjp q) k))"
    by (simp add: core_upd set_state_def set_u_def)
  have "core ({?c} - {?c}) {} (set_queue q xs (set_state ?c st (set_u ?c (U_wtobjp q) k)))"
  proof (rule core_put[OF c])
    show "home (set_state ?c st (set_u ?c (U_wtobjp q) k)) ?c = Some q"
      using st by (simp add: kernel_defs)
  qed (use xs i in auto)
  then show ?thesis by (auto intro: core_cong simp: kernel_defs)
qed

lemma chVTSetI_fields [simp]:
  "thr (chVTSetI v time fn par k) = thr k"
  "queues (chVTSetI v time fn par k) = queues k"
  "currp (chVTSetI v time fn par k) = currp k"
  "s_cnt (chVTSetI v time fn par k) = s_cnt k"
  "m_owner (chVTSetI v time fn par k) = m_owner k"
  "m_next (chVTSetI v time fn par k) = m_next k"
  "registry (chVTSetI v time fn par k) = registry k"
  "r_preempt (chVTSetI v time fn par k) = r_preempt k"
  "es_list (chVTSetI v time fn par k) = es_list k"
  "el_listener (chVTSetI v time fn par k) = el_listener k"
  "el_mask (chVTSetI v time fn par k) = el_mask k"
  "mbox (chVTSetI v time fn par k) = mbox k"
  "ioq (chVTSetI v time fn par k) = ioq k"
  "vt_systime (chVTSetI v time fn par k) = vt_systime k"
  by (simp_all add: chVTSetI_def Let_def split: prod.split list.split)

lemma chVTResetI_fields [simp]:
  "thr (chVTResetI v k) = thr k"
  "queues (chVTResetI v k) = queues k"
  "currp (chVTResetI v k) = currp k"
  "s_cnt (chVTResetI v k) = s_cnt k"
  "m_owner (chVTResetI v k) = m_owner k"
  "m_next (chVTResetI v k) = m_next k"
  "registry (chVTResetI v k) = registry k"
  "r_preempt (chVTResetI v k) = r_preempt k"
  "es_list (chVTResetI v k) = es_list k"
  "el_listener (chVTResetI v k) = el_listener k"
  "el_mask (chVTResetI v k) = el_mask k"
  "mbox (chVTResetI v k) = mbox k"
  "ioq (chVTResetI v k) = ioq k"
  "vt_systime (chVTResetI v k) = vt_systime k"
  by (simp_all add: chVTResetI_def Let_def split: option.split)

lemma kinv_eq:
  assumes "thr k' = thr k" "queues k' = queues k" "currp k' = currp k" "s_cnt k' = s_cnt k"
    "m_owner k' = m_owner k" "m_next k' = m_next k"
  shows "kinv k' = kinv k"
  using assms core_eq[OF assms(1,2)] links_cong[OF assms(1) _ assms(5,6)] by (simp add: kinv_def sem_ok_def hdr_ok_def)

lemma kinv_timers [simp]:
  "kinv (chVTSetI v time fn par k) = kinv k" "kinv (chVTResetI v k) = kinv k"
  by (rule kinv_eq; simp)+

text \<open>\<open>can_sleep st k\<close>: the running thread may go to sleep in state \<open>st\<close>.\<close>

definition can_sleep :: "tstate \<Rightarrow> kernel \<Rightarrow> bool" where
  "can_sleep st k \<longleftrightarrow> core {} {} (set_state (currp k) st k) \<and> ready k \<noteq> []
     \<and> sem_ok k \<and> hdr_ok k \<and> is_Thd (currp k) \<and> links_ok (set_state (currp k) st k)"

lemma can_sleep_chVTSetI [simp]: "can_sleep st (chVTSetI v time fn par k) = can_sleep st k"
proof -
  have "core {} {} (set_state (currp k) st (chVTSetI v time fn par k))
      = core {} {} (set_state (currp k) st k)"
    by (rule core_eq) (simp_all add: kernel_defs)
  moreover have "links_ok (set_state (currp k) st (chVTSetI v time fn par k))
      = links_ok (set_state (currp k) st k)"
    by (rule links_cong) (simp_all add: kernel_defs)
  ultimately show ?thesis by (simp add: can_sleep_def sem_ok_def hdr_ok_def)
qed

lemma chSchGoSleepS_safe [inv_intros]: "can_sleep st k \<Longrightarrow> safe (chSchGoSleepS st k)"
  by (simp add: can_sleep_def chSchGoSleepS_def resumed_def go_sleep_kinv)

lemma chSchGoSleepTimeoutS_safe [inv_intros]:
  assumes "can_sleep st k"
  shows "safe (chSchGoSleepTimeoutS st time k)"
  unfolding chSchGoSleepTimeoutS_def Let_def
  by (auto simp: assms intro!: always_bind inv_intros)

lemma can_sleep_unqueued:
  assumes "kinv k" "currp k \<noteq> idle_thread" "waits_in st u = None" "st \<noteq> THD_STATE_CURRENT"
    "\<not> queue_state st"
  shows "can_sleep st (set_u (currp k) u k)"
  using assms kinv_currp[OF assms(1)] kinv_ready[OF assms(1,2)] kinv_sem[OF assms(1)] kinv_hdr[OF assms(1)]
    kinv_links[OF assms(1)] currp_not_waiter[OF assms(1)] wait_core[OF kinv_core[OF assms(1)] assms(3,4,5,2)]
  by (simp add: can_sleep_def links_ok_set_state)

lemma set_u_id [simp]: "set_u t (p_u (thr k t)) k = k"
  by (simp add: kernel_defs)

lemma can_sleep_plain:
  assumes "kinv k" "currp k \<noteq> idle_thread" "\<And>u. waits_in st u = None" "st \<noteq> THD_STATE_CURRENT"
    "\<not> queue_state st"
  shows "can_sleep st k"
  using can_sleep_unqueued[OF assms(1,2), of st "p_u (thr k (currp k))"] assms(3,4,5) by simp

lemma links_sleep:
  assumes "core {} {currp k} k" "links_ok (set_queue q xs k)"
  shows "links_ok (set_state (currp k) st (set_queue q xs (set_u (currp k) u k)))"
proof -
  have "currp k \<notin> waiters k"
    using not_waiter[OF assms(2), of "currp k"] core_current[OF assms(1), of "currp k"]
    by (simp add: set_queue_def)
  moreover have "set_queue q xs (set_u (currp k) u k) = set_u (currp k) u (set_queue q xs k)"
    by (simp add: kernel_defs)
  ultimately show ?thesis using assms(2) by (simp add: links_ok_set_state)
qed

lemma can_sleep_queued:
  assumes k: "core {} {currp k} k" "sem_ok (set_queue q xs k)" "hdr_ok k" "ready k \<noteq> []" "q \<noteq> RListQ"
      "links_ok (set_queue q xs k)"
    and i: "currp k \<noteq> idle_thread" and st: "waits_in st (U_wtobjp q) = Some q"
    and xs: "set xs = insert (currp k) (set (queues k q))" "distinct xs"
      "by_prio q \<Longrightarrow> prio_sorted (prio k) xs"
  shows "can_sleep st (set_queue q xs (set_u (currp k) (U_wtobjp q) k))"
    (is "can_sleep st ?k1")
proof -
  have "is_Thd (currp k)" using current_is_Thd[OF k(3,1)] by simp
  moreover have "sem_ok ?k1" using k(2) by (simp add: sem_ok_def kernel_defs)
  ultimately show ?thesis
    using wait_in_core[OF k(1) st xs i] k links_sleep[OF k(1) k(6)] by (simp add: can_sleep_def)
qed

lemma currp_not_in: "core {} {currp k} k \<Longrightarrow> currp k \<notin> set (queues k q)"
  using core_mem[of "{}" "{currp k}" k "currp k" q] core_current[of "{}" "{currp k}" k "currp k"] by simp

text \<open>Insertion at the end of a first-in first-out queue, and in priority order.\<close>

lemma can_sleep_fifo:
  assumes k: "core {} {currp k} k" "hdr_ok k" "ready k \<noteq> []" and i: "currp k \<noteq> idle_thread"
    and s: "sem_ok (set_queue q (queues k q @ [currp k]) k)" and l: "links_ok k"
    and st: "waits_in st (U_wtobjp q) = Some q" "\<not> by_prio q"
  shows "can_sleep st (queue_insert (currp k) q (set_u (currp k) (U_wtobjp q) k))"
proof -
  have "q \<noteq> RListQ" "\<And>m. q \<noteq> MtxQ m" using st(2) by auto
  then have "can_sleep st (set_queue q (queues k q @ [currp k]) (set_u (currp k) (U_wtobjp q) k))"
    using k s l st i currp_not_in[OF k(1)] core_distinct[OF k(1), of q]
    by (intro can_sleep_queued) auto
  then show ?thesis by (simp add: queue_insert_def)
qed

lemma can_sleep_prio:
  assumes k: "kinv k" and i: "currp k \<noteq> idle_thread"
    and st: "waits_in st (U_wtobjp q) = Some q" "\<And>s. q \<noteq> SemQ s" "q \<noteq> RListQ"
      "by_prio q"
    and l: "\<And>m. q = MtxQ m \<Longrightarrow> m_owner k m \<noteq> None"
  shows "can_sleep st (prio_insert (currp k) q (set_u (currp k) (U_wtobjp q) k))"
proof -
  have "links_ok (set_queue q (prio_ins (prio k) (currp k) (queues k q)) k)"
    using kinv_links[OF k] l
    by (simp add: links_ok_def wait_ok_def mtx_ok_def owns_def waiters_def set_queue_def)
  then have "can_sleep st (set_queue q (prio_ins (prio k) (currp k) (queues k q))
      (set_u (currp k) (U_wtobjp q) k))"
    using kinv_core[OF k] kinv_sem[OF k] kinv_hdr[OF k] kinv_ready[OF k i] st i
      currp_not_in[OF kinv_core[OF k]] core_distinct[OF kinv_core[OF k], of q]
      core_sorted[OF kinv_core[OF k]]
    by (intro can_sleep_queued) auto
  moreover have "prio (set_u (currp k) (U_wtobjp q) k) = prio k" by (rule ext) simp
  ultimately show ?thesis by (simp add: prio_insert_def)
qed

text \<open>What the invariant does not read.\<close>

lemma kinv_other_fields [simp]:
  "kinv (k\<lparr>r_preempt := v_r_preempt\<rparr>) = kinv k"
  "kinv (k\<lparr>registry := v_registry\<rparr>) = kinv k"
  "kinv (k\<lparr>vt_list := v_vt_list\<rparr>) = kinv k"
  "kinv (k\<lparr>vt_time := v_vt_time\<rparr>) = kinv k"
  "kinv (k\<lparr>vt_func := v_vt_func\<rparr>) = kinv k"
  "kinv (k\<lparr>vt_par := v_vt_par\<rparr>) = kinv k"
  "kinv (k\<lparr>vt_systime := v_vt_systime\<rparr>) = kinv k"
  "kinv (k\<lparr>es_list := v_es_list\<rparr>) = kinv k"
  "kinv (k\<lparr>el_listener := v_el_listener\<rparr>) = kinv k"
  "kinv (k\<lparr>el_mask := v_el_mask\<rparr>) = kinv k"
  "kinv (k\<lparr>mbox := v_mbox\<rparr>) = kinv k"
  "kinv (k\<lparr>ioq := v_ioq\<rparr>) = kinv k"
  "kinv (k\<lparr>mem := v_mem\<rparr>) = kinv k"
  by (simp_all add: kinv_def)

lemma core_upd_other:
  assumes "core X C k" and f: "\<And>r. p_prio (f r) = p_prio r" "\<And>r. p_state (f r) = p_state r"
    "\<And>r. p_u (f r) = p_u r"
  shows "core X C (upd_thr t f k)"
proof -
  have same: "state (upd_thr t f k) u = state k u" "prio (upd_thr t f k) u = prio k u"
    "p_u (thr (upd_thr t f k) u) = p_u (thr k u)" for u
    by (simp_all add: upd_thr_def f)
  then have pr: "prio (upd_thr t f k) = prio k" by blast
  show ?thesis using assms(1) unfolding core_def same pr queues_fields .
qed

lemma hdr_ok_upd_other:
  assumes "hdr_ok k" and f: "\<And>r. p_prio (f r) = p_prio r" "\<And>r. p_state (f r) = p_state r"
  shows "hdr_ok (upd_thr t f k)"
  using assms by (auto simp: hdr_ok_def upd_thr_def)

lemma kinv_upd:
  assumes "kinv k" and f: "\<And>r. p_prio (f r) = p_prio r" "\<And>r. p_state (f r) = p_state r"
    "\<And>r. p_u (f r) = p_u r" "\<And>r. p_waiting (f r) = p_waiting r" "\<And>r. p_mtxlist (f r) = p_mtxlist r"
  shows "kinv (upd_thr t f k)"
  using assms by (intro kinvI) (simp_all add: core_upd_other hdr_ok_upd_other links_ok_upd
    kinv_core kinv_sem kinv_hdr kinv_links)

lemma kinv_thread_fields [simp, intro]:
  "kinv k \<Longrightarrow> kinv (upd_thr t (\<lambda>r. r\<lparr>p_flags := v_p_flags r\<rparr>) k)"
  "kinv k \<Longrightarrow> kinv (upd_thr t (\<lambda>r. r\<lparr>p_refs := v_p_refs r\<rparr>) k)"
  "kinv k \<Longrightarrow> kinv (upd_thr t (\<lambda>r. r\<lparr>p_msg := v_p_msg r\<rparr>) k)"
  "kinv k \<Longrightarrow> kinv (upd_thr t (\<lambda>r. r\<lparr>p_epending := v_p_epending r\<rparr>) k)"
  "kinv k \<Longrightarrow> kinv (upd_thr t (\<lambda>r. r\<lparr>p_realprio := v_p_realprio r\<rparr>) k)"
  "kinv k \<Longrightarrow> kinv (upd_thr t (\<lambda>r. r\<lparr>p_time := v_p_time r\<rparr>) k)"
  "kinv k \<Longrightarrow> kinv (upd_thr t (\<lambda>r. r\<lparr>p_name := v_p_name r\<rparr>) k)"
  "kinv k \<Longrightarrow> kinv (upd_thr t (\<lambda>r. r\<lparr>p_mpool := v_p_mpool r\<rparr>) k)"
  by (simp_all add: kinv_upd)

lemma kinv_set_u_currp [simp]:
  assumes "kinv k"
  shows "kinv (set_u (currp k) u k)"
proof (rule kinvI)
  let ?c = "currp k"
  have n: "home k ?c = None" using kinv_current[OF assms, of ?c] by simp
  from core_out[OF kinv_core[OF assms] n] have "core {?c} {} k" by simp
  then have "core {?c} {} (set_state ?c THD_STATE_CURRENT (set_u ?c u k))"
    by (simp add: core_upd set_state_def set_u_def)
  from core_become_current[OF this, of ?c]
  have "core {} {?c} (set_state ?c THD_STATE_CURRENT (set_state ?c THD_STATE_CURRENT (set_u ?c u k)))"
    by simp
  moreover have "set_state ?c THD_STATE_CURRENT (set_state ?c THD_STATE_CURRENT (set_u ?c u k)) = set_u ?c u k"
    using kinv_current[OF assms, of ?c] by (cases "thr k ?c") (simp add: kernel_defs)
  ultimately show "core {} {currp (set_u ?c u k)} (set_u ?c u k)" by simp
qed (use kinv_sem[OF assms] kinv_hdr[OF assms] kinv_links[OF assms] kinv_currp[OF assms] in auto)

section \<open>Readying queued threads\<close>

text \<open>\<^verbatim>\<open>chSchReadyI(fifo_remove(q))->p_u.rdymsg = msg\<close>, as many services write it.\<close>

definition ready_fifo :: "qaddr \<Rightarrow> int \<Rightarrow> kernel \<Rightarrow> kernel" where
  "ready_fifo q msg k =
     (case fifo_remove q k of (tp, k1) \<Rightarrow> set_u tp (U_msg msg) (chSchReadyI tp k1))"

definition klists :: "kernel \<Rightarrow> bool" where
  "klists k \<longleftrightarrow> core {} {currp k} k \<and> hdr_ok k \<and> links_ok k"

lemma kinv_klists: "kinv k \<longleftrightarrow> klists k \<and> sem_ok k"
  by (auto simp: kinv_def klists_def)

lemma core_upd_home:
  assumes "core X C k" and f: "p_prio (f (thr k t)) = p_prio (thr k t)"
    "p_state (f (thr k t)) = p_state (thr k t)"
    "waits_in (p_state (thr k t)) (p_u (f (thr k t))) = waits_in (p_state (thr k t)) (p_u (thr k t))"
  shows "core X C (upd_thr t f k)"
proof -
  have same: "state (upd_thr t f k) u = state k u" "prio (upd_thr t f k) u = prio k u"
    "waits_in (state k u) (p_u (thr (upd_thr t f k) u)) = home k u" for u
    by (simp_all add: upd_thr_def f)
  then have pr: "prio (upd_thr t f k) = prio k" by blast
  show ?thesis using assms(1) unfolding core_def same pr queues_fields .
qed

lemma waits_in_READY_same [simp]: "waits_in THD_STATE_READY u = Some RListQ"
  by simp

lemma core_set_u_ready:
  "core X C k \<Longrightarrow> state k t = THD_STATE_READY \<Longrightarrow> core X C (set_u t u k)"
  unfolding set_u_def by (rule core_upd_home) auto

lemma state_chSchReadyI [simp]:
  "state (chSchReadyI t k) u = (if u = t then THD_STATE_READY else state k u)"
  "p_u (thr (chSchReadyI t k) u) = p_u (thr k u)"
  by (simp_all add: chSchReadyI_def Let_def kernel_defs)

lemma chSchReadyI_rest [simp]:
  "vt_par (chSchReadyI t k) = vt_par k"
  "r_preempt (chSchReadyI t k) = r_preempt k"
  "es_list (chSchReadyI t k) = es_list k"
  "el_listener (chSchReadyI t k) = el_listener k"
  "el_mask (chSchReadyI t k) = el_mask k"
  "mbox (chSchReadyI t k) = mbox k"
  "ioq (chSchReadyI t k) = ioq k"
  "mem (chSchReadyI t k) = mem k"
  "v \<noteq> t \<Longrightarrow> thr (chSchReadyI t k) v = thr k v"
  by (simp_all add: chSchReadyI_def Let_def)

text \<open>A thread taken out of a waiting queue and made ready.\<close>

lemma klists_ready_from:
  assumes k: "klists k" and q: "queues k q = as @ t # bs"
  shows "klists (chSchReadyI t (set_queue q (as @ bs) k))"
    and "klists (set_u t u (chSchReadyI t (set_queue q (as @ bs) k)))"
    and "klists (chSchReadyI t (set_u t u (set_queue q (as @ bs) k)))"
proof -
  have c: "core {} {currp k} k" and h: "hdr_ok k" and l: "links_ok k" using k by (auto simp: klists_def)
  have mem: "t \<in> set (queues k q)" using q by simp
  have th: "is_Thd t" by (rule queued_is_Thd[OF h c mem])
  have hm: "home k t = Some q" using core_mem[OF c] mem by simp
  have tc: "t \<noteq> currp k" using currp_not_in[OF c, of q] mem by auto
  have "state k t \<noteq> THD_STATE_WTEXIT" using hm by (cases "p_u (thr k t)") auto
  then have w: "t \<notin> waiters k" by (rule not_waiter[OF l])
  have l1: "links_ok (set_queue q (as @ bs) k)"
    by (rule links_ok_shrink[OF l]) (use q in \<open>auto simp: set_queue_def\<close>)
  have c1: "core {t} {currp k} (set_queue q (as @ bs) k)" using core_take[OF c q] by simp
  then have c2: "core {t} {currp k} (set_u t u (set_queue q (as @ bs) k))"
    by (simp add: core_upd set_u_def)
  show 1: "klists (chSchReadyI t (set_queue q (as @ bs) k))"
    using chSchReadyI_core[OF c1, of t] tc h th l1 w by (simp add: klists_def)
  show "klists (chSchReadyI t (set_u t u (set_queue q (as @ bs) k)))"
    using chSchReadyI_core[OF c2, of t] tc h th l1 w by (simp add: klists_def)
  show "klists (set_u t u (chSchReadyI t (set_queue q (as @ bs) k)))"
    using 1 th by (simp add: klists_def core_set_u_ready)
qed

lemma ready_fifo_eq:
  "queues k q = t # ts \<Longrightarrow> ready_fifo q msg k = set_u t (U_msg msg) (chSchReadyI t (set_queue q ts k))"
  by (simp add: ready_fifo_def fifo_remove_def)

lemma klists_ready_fifo:
  assumes "klists k" "queues k q \<noteq> []"
  shows "klists (ready_fifo q msg k)"
proof -
  obtain t ts where q: "queues k q = t # ts" using assms(2) by (cases "queues k q") auto
  show ?thesis using klists_ready_from(2)[OF assms(1), of q "[]" t ts] q by (simp add: ready_fifo_eq)
qed

lemma ready_fifo_fields:
  assumes "queues k q = t # ts" "q \<noteq> RListQ"
  shows "queues (ready_fifo q msg k) RListQ = prio_ins (prio k) t (ready k)"
    "queues (ready_fifo q msg k) q = ts"
    "r \<noteq> q \<Longrightarrow> r \<noteq> RListQ \<Longrightarrow> queues (ready_fifo q msg k) r = queues k r"
    "currp (ready_fifo q msg k) = currp k" "s_cnt (ready_fifo q msg k) = s_cnt k"
    "rdymsg (ready_fifo q msg k) t = msg" "state (ready_fifo q msg k) t = THD_STATE_READY"
    "prio (ready_fifo q msg k) u = prio k u"
    "u \<noteq> t \<Longrightarrow> thr (ready_fifo q msg k) u = thr k u"
    "m_owner (ready_fifo q msg k) = m_owner k"
  using assms(2) by (auto simp: ready_fifo_eq[OF assms(1)] queues_chSchReadyI intro!: prio_ins_cong)

lemma kinv_ready_fifo:
  assumes "kinv k" "queues k q \<noteq> []" "\<And>s. q \<noteq> SemQ s" "q \<noteq> RListQ"
  shows "kinv (ready_fifo q msg k)"
proof -
  obtain t ts where q: "queues k q = t # ts" using assms(2) by (cases "queues k q") auto
  have "sem_ok (ready_fifo q msg k)"
    using kinv_sem[OF assms(1)] assms(3) by (simp add: ready_fifo_eq[OF q])
  then show ?thesis using klists_ready_fifo assms by (simp add: kinv_klists)
qed

text \<open>Waking the first thread of a queue.\<close>

lemma chSchWakeupS_from:
  assumes k: "klists k" and q: "queues k q = t # ts" and s: "sem_ok (set_queue q ts k)"
  shows "safe (chSchWakeupS t msg (set_queue q ts k))"
proof -
  have c: "core {} {currp k} k" and h: "hdr_ok k" and l: "links_ok k" using k by (auto simp: klists_def)
  have mem: "t \<in> set (queues k q)" using q by simp
  have th: "is_Thd t" by (rule queued_is_Thd[OF h c mem])
  have hm: "home k t = Some q" using core_mem[OF c] mem by simp
  have tc: "t \<noteq> currp k" using currp_not_in[OF c, of q] mem by auto
  have "state k t \<noteq> THD_STATE_WTEXIT" using hm by (cases "p_u (thr k t)") auto
  then have w: "t \<notin> waiters k" by (rule not_waiter[OF l])
  have l1: "links_ok (set_queue q ts k)"
    by (rule links_ok_shrink[OF l]) (use q in \<open>auto simp: set_queue_def\<close>)
  have "core {t} {currp k} (set_queue q ts k)" using core_take[OF c, of q "[]" t ts] q by simp
  then have "always kinv kinv (chSchWakeupS t msg (set_queue q ts k))"
    using tc th s h l1 w by (intro chSchWakeupS_kinv) auto
  then show ?thesis by (rule always_mono[where P = kinv and R = kinv]) (auto simp: resumed_def)
qed

section \<open>Timeouts and the tick\<close>

text \<open>A thread whose timed wait may time out.\<close>

definition timed :: "kernel \<Rightarrow> tid \<Rightarrow> bool" where
  "timed k t \<longleftrightarrow> is_Thd t \<and> t \<noteq> idle_thread \<and>
     state k t \<in> {THD_STATE_READY, THD_STATE_SLEEPING, THD_STATE_WTOREVT, THD_STATE_WTANDEVT,
       THD_STATE_WTSEM, THD_STATE_WTCOND, THD_STATE_WTQUEUE}"

lemma home_WTSEM: "waits_in THD_STATE_WTSEM u = Some q \<Longrightarrow> \<exists>s. u = U_wtobjp (SemQ s) \<and> q = SemQ s"
  by (cases "(THD_STATE_WTSEM, u)" rule: waits_in.cases) auto

lemma home_not_SemQ: "st \<noteq> THD_STATE_WTSEM \<Longrightarrow> waits_in st u \<noteq> Some (SemQ s)"
  by (cases "(st, u)" rule: waits_in.cases) auto

lemma ready_after_detach:
  assumes c: "core {t} {currp k} k" and t: "t \<noteq> currp k" "is_Thd t" and s: "sem_ok k" and h: "hdr_ok k"
    and l: "links_ok k" "t \<notin> waiters k"
  shows "kinv (chSchReadyI t (set_u t u k))"
proof -
  have "core {t} {currp k} (set_u t u k)" using core_upd[OF c] by (simp add: set_u_def)
  from chSchReadyI_core[OF this, of t] show ?thesis
    using t s h l by (auto intro!: kinvI)
qed

lemma dequeue_fields [simp]:
  "thr (dequeue t k) = thr k" "currp (dequeue t k) = currp k" "s_cnt (dequeue t k) = s_cnt k"
  "queues (dequeue t k) q = remove1 t (queues k q)"
  "m_owner (dequeue t k) = m_owner k" "m_next (dequeue t k) = m_next k"
  "mbox (dequeue t k) = mbox k" "ioq (dequeue t k) = ioq k" "registry (dequeue t k) = registry k"
  by (simp_all add: dequeue_def)

lemma sem_ok_dequeue_other:
  assumes k: "kinv k" and t: "state k t \<noteq> THD_STATE_WTSEM"
  shows "sem_ok (dequeue t k)"
proof -
  have "t \<notin> set (queues k (SemQ s))" for s
    using t kinv_mem[OF k] home_not_SemQ by simp
  then show ?thesis using kinv_sem[OF k] by (simp add: sem_ok_def remove1_idem)
qed

lemma sem_ok_dequeue_sem:
  assumes k: "kinv k" and t: "t \<in> set (queues k (SemQ s))"
  shows "sem_ok (dequeue t (chSemFastSignalI s k))"
proof -
  have o: "t \<notin> set (queues k (SemQ r))" if "r \<noteq> s" for r
    using t that kinv_mem[OF k] by simp
  have "0 < length (queues k (SemQ s))" using t by (metis length_pos_if_in_set)
  moreover have "int (length (queues k (SemQ s))) = max 0 (- s_cnt k s)"
    using kinv_sem[OF k] by (simp add: sem_ok_def)
  moreover have "length (remove1 t (queues k (SemQ s))) = length (queues k (SemQ s)) - 1"
    using t by (simp add: length_remove1)
  ultimately have "int (length (remove1 t (queues k (SemQ s)))) = max 0 (- (s_cnt k s + 1))"
    by linarith
  then show ?thesis using kinv_sem[OF k] o
    by (auto simp: sem_ok_def chSemFastSignalI_def dequeue_def remove1_idem)
qed

lemma wakeup_thread_kinv:
  assumes k: "kinv k" and tm: "timed k t" and cur: "t \<noteq> currp k"
  shows "kinv (wakeup_thread t k)" "currp (wakeup_thread t k) = currp k"
proof -
  have th: "is_Thd t" using tm by (simp add: timed_def)
  note c = kinv_core[OF k]
  have w: "t \<notin> waiters k" using not_waiter[OF kinv_links[OF k], of t] tm by (auto simp: timed_def)
  note l = kinv_links[OF k] w
  have deq: "kinv (chSchReadyI t (set_u t u (dequeue t k)))" if "state k t \<noteq> THD_STATE_WTSEM" for u
    using core_dequeue[OF c, of t] cur th sem_ok_dequeue_other[OF k that] kinv_hdr[OF k] l
    by (intro ready_after_detach) auto
  have plain: "kinv (chSchReadyI t (set_u t u k))" if "home k t = None" for u
    using core_out[OF c that] cur th kinv_sem[OF k] kinv_hdr[OF k] l
    by (intro ready_after_detach) auto
  have semc: "kinv (chSchReadyI t (set_u t u (dequeue t (chSemFastSignalI s k))))"
    if "p_u (thr k t) = U_wtobjp (SemQ s)" "state k t = THD_STATE_WTSEM" for s u
  proof (rule ready_after_detach)
    have "core {t} {currp k} (dequeue t k)" using core_dequeue[OF c, of t] cur by simp
    then show "core {t} {currp (dequeue t (chSemFastSignalI s k))} (dequeue t (chSemFastSignalI s k))"
      by (auto intro: core_cong simp: chSemFastSignalI_def dequeue_def)
    have "t \<in> set (queues k (SemQ s))" using that kinv_mem[OF k] by simp
    then show "sem_ok (dequeue t (chSemFastSignalI s k))" by (rule sem_ok_dequeue_sem[OF k])
    show "hdr_ok (dequeue t (chSemFastSignalI s k))" using kinv_hdr[OF k] by (simp add: chSemFastSignalI_def)
  qed (use cur th l in \<open>auto simp: chSemFastSignalI_def\<close>)
  show "kinv (wakeup_thread t k)"
  proof (cases "state k t = THD_STATE_WTSEM")
    case True
    then obtain s where "p_u (thr k t) = U_wtobjp (SemQ s)"
      using kinv_queued[OF k, of t] home_WTSEM by fastforce
    then show ?thesis using semc True by (simp add: wakeup_thread_def)
  next
    case False
    then show ?thesis using tm deq plain k
      by (auto simp: wakeup_thread_def timed_def)
  qed
  show "currp (wakeup_thread t k) = currp k"
    by (simp add: wakeup_thread_def chSemFastSignalI_def split: tstate.split)
qed

lemma wakeup_thread_vt:
  "vt_list (wakeup_thread t k) = vt_list k" "vt_time (wakeup_thread t k) = vt_time k"
  "vt_func (wakeup_thread t k) = vt_func k" "vt_systime (wakeup_thread t k) = vt_systime k"
  by (simp_all add: wakeup_thread_def chSemFastSignalI_def dequeue_def split: tstate.split)

lemma vt_quiet_vt_call: "vt_quiet (vt_call (\<lambda>n p k. k))"
  unfolding vt_quiet_def
proof (intro allI)
  fix f p k
  show "vt_list (vt_call (\<lambda>n p k. k) f p k) = vt_list k \<and> vt_time (vt_call (\<lambda>n p k. k) f p k) = vt_time k
     \<and> vt_func (vt_call (\<lambda>n p k. k) f p k) = vt_func k \<and> vt_systime (vt_call (\<lambda>n p k. k) f p k) = vt_systime k"
    by (cases f; cases p; simp add: wakeup_thread_vt)
qed

text \<open>
  The virtual timers provide the timer service; the callbacks of the application are
  taken to leave the kernel alone, as the firmware's only one (\<^verbatim>\<open>timer_handler\<close>) does.
\<close>

interpretation vts: timer_service vt_ok remaining "\<lambda>v n. chVTSetI v n f p" chVTResetI
  "chVTDoTickI (vt_call (\<lambda>n p k. k))" for f p
proof unfold_locales
  fix k v n
  have mem: "remaining k v = None \<longleftrightarrow> v \<notin> set (vt_list k)" for k v
    by (simp add: remaining_def vt_expiry_None_iff)
  show "vt_ok k \<Longrightarrow> remaining k v = None \<Longrightarrow> 0 < n \<Longrightarrow> vt_ok (chVTSetI v n f p k)"
    by (simp add: mem vt_ok_chVTSetI)
  show "vt_ok k \<Longrightarrow> remaining k v = None \<Longrightarrow>
      remaining (chVTSetI v n f p k) = (remaining k)(v \<mapsto> unat n)"
    by (simp add: mem remaining_chVTSetI)
  show "vt_ok k \<Longrightarrow> remaining k v \<noteq> None \<Longrightarrow> vt_ok (chVTResetI v k)"
    by (simp add: mem vt_ok_chVTResetI)
  show "vt_ok k \<Longrightarrow> remaining k v \<noteq> None \<Longrightarrow> remaining (chVTResetI v k) = (remaining k)(v := None)"
    by (simp add: mem remaining_chVTResetI)
  show "vt_ok k \<Longrightarrow> \<exists>k'. chVTDoTickI (vt_call (\<lambda>n p k. k)) k = Some k' \<and> vt_ok k' \<and>
      remaining k' = (\<lambda>v. if remaining k v = Some 1 then None else map_option (\<lambda>n. n - 1) (remaining k v))"
    using chVTDoTickI_remaining[OF _ vt_quiet_vt_call] by blast
qed

text \<open>The kernel after \<open>n\<close> ticks.\<close>

definition ticks :: "nat \<Rightarrow> kernel \<Rightarrow> kernel option" where
  "ticks n k = ((\<lambda>x. Option.bind x (chVTDoTickI (vt_call (\<lambda>n p k. k)))) ^^ n) (Some k)"

end
