(* ===== verification/Threads.thy ===== *)
theory Threads
  imports Scheduler
begin

text \<open>
  Thread creation, priorities, sleeping and termination
  (\<^verbatim>\<open>os/kernel/src/chthreads.c\<close>), the registry of threads
  (\<^verbatim>\<open>chregistry.c\<close>) and system initialisation (\<^verbatim>\<open>chsys.c\<close>).
\<close>

section \<open>Operations\<close>

definition THD_MEM_MODE_MASK :: u8 where "THD_MEM_MODE_MASK = 3"
definition THD_MEM_MODE_STATIC :: u8 where "THD_MEM_MODE_STATIC = 0"
definition THD_MEM_MODE_HEAP :: u8 where "THD_MEM_MODE_HEAP = 1"
definition THD_MEM_MODE_MEMPOOL :: u8 where "THD_MEM_MODE_MEMPOOL = 2"
definition THD_TERMINATE :: u8 where "THD_TERMINATE = 4"

text \<open>The registry is the list from the oldest thread to the newest.\<close>

definition REG_INSERT :: "tid \<Rightarrow> kernel \<Rightarrow> kernel" where
  "REG_INSERT tp k = k\<lparr>registry := registry k @ [tp]\<rparr>"

definition REG_REMOVE :: "tid \<Rightarrow> kernel \<Rightarrow> kernel" where
  "REG_REMOVE tp k = k\<lparr>registry := remove1 tp (registry k)\<rparr>"

definition thread_init :: "tid \<Rightarrow> nat \<Rightarrow> kernel \<Rightarrow> kernel" where
  "thread_init tp pr k =
     (let k1 = upd_thr tp (\<lambda>r. r\<lparr>p_prio := pr, p_state := THD_STATE_SUSPENDED,
                 p_flags := THD_MEM_MODE_STATIC, p_realprio := pr, p_mtxlist := None,
                 p_epending := 0, p_time := 0, p_refs := 1, p_name := None\<rparr>) k;
          k2 = REG_INSERT tp k1;
          k3 = upd_thr tp (\<lambda>r. r\<lparr>p_waiting := []\<rparr>) k2
      in set_queue (MsgQ tp) [] k3)"

text \<open>The context of the new thread (\<^verbatim>\<open>SETUP_CONTEXT\<close>) is what it runs when first switched in.\<close>

definition chThdCreateI :: "tid \<Rightarrow> nat \<Rightarrow> kernel \<Rightarrow> kernel" where
  "chThdCreateI wsp pr k = thread_init wsp pr k"

definition chThdCreateStatic :: "tid \<Rightarrow> nat \<Rightarrow> kernel \<Rightarrow> tid step" where
  "chThdCreateStatic wsp pr k =
     bind (chSchWakeupS wsp RDY_OK (chThdCreateI wsp pr k)) (\<lambda>_. Ret wsp)"

definition chThdSetPriority :: "nat \<Rightarrow> kernel \<Rightarrow> nat step" where
  "chThdSetPriority newprio k =
     (let c = currp k; oldprio = p_realprio (thr k c);
          k1 = (if prio k c = p_realprio (thr k c) \<or> prio k c < newprio
                then upd_thr c (\<lambda>r. r\<lparr>p_prio := newprio\<rparr>) k else k);
          k2 = upd_thr c (\<lambda>r. r\<lparr>p_realprio := newprio\<rparr>) k1
      in bind (chSchRescheduleS k2) (\<lambda>_. Ret oldprio))"

definition chThdResume :: "tid \<Rightarrow> kernel \<Rightarrow> tid step" where
  "chThdResume tp k = bind (chSchWakeupS tp RDY_OK k) (\<lambda>_. Ret tp)"

definition chThdTerminate :: "tid \<Rightarrow> kernel \<Rightarrow> kernel" where
  "chThdTerminate tp = upd_thr tp (\<lambda>r. r\<lparr>p_flags := Bit_Operations.or (p_flags r) THD_TERMINATE\<rparr>)"

definition chThdShouldTerminate :: "kernel \<Rightarrow> bool" where
  "chThdShouldTerminate k \<longleftrightarrow> Bit_Operations.and (p_flags (thr k (currp k))) THD_TERMINATE \<noteq> 0"

definition chThdSleepS :: "u32 \<Rightarrow> kernel \<Rightarrow> int step" where
  "chThdSleepS time = chSchGoSleepTimeoutS THD_STATE_SLEEPING time"

definition chThdSleep :: "u32 \<Rightarrow> kernel \<Rightarrow> unit step" where
  "chThdSleep time k = bind (chThdSleepS time k) (\<lambda>_. Ret ())"

definition chThdSleepUntil :: "u32 \<Rightarrow> kernel \<Rightarrow> unit step" where
  "chThdSleepUntil time k =
     (let time = time - chTimeNow k
      in if 0 < time then bind (chThdSleepS time k) (\<lambda>_. Ret ()) else Ret () k)"

definition chThdYield :: "kernel \<Rightarrow> unit step" where
  "chThdYield k = chSchDoYieldS k"

text \<open>\<^verbatim>\<open>while (notempty(&tp->p_waiting)) chSchReadyI(list_remove(&tp->p_waiting));\<close>\<close>

fun ready_waiting :: "tid \<Rightarrow> tid list \<Rightarrow> kernel \<Rightarrow> kernel" where
  "ready_waiting tp [] k = k"
| "ready_waiting tp (w # ws) k =
     ready_waiting tp ws (chSchReadyI w (upd_thr tp (\<lambda>r. r\<lparr>p_waiting := ws\<rparr>) k))"

definition chThdExitS :: "int \<Rightarrow> kernel \<Rightarrow> unit step" where
  "chThdExitS msg k =
     (let tp = currp k;
          k1 = set_u tp (U_msg msg) k;
          k2 = ready_waiting tp (p_waiting (thr k1 tp)) k1;
          k3 = (if Bit_Operations.and (p_flags (thr k2 tp)) THD_MEM_MODE_MASK = THD_MEM_MODE_STATIC
                then REG_REMOVE tp k2 else k2)
      in chSchGoSleepS THD_STATE_FINAL k3)"

definition chThdExit :: "int \<Rightarrow> kernel \<Rightarrow> unit step" where
  "chThdExit msg k = chThdExitS msg k"

text \<open>
  \<^verbatim>\<open>chThdWait\<close> up to the release of the reference: the exit code of a thread, waiting
  for its end.
\<close>

definition thd_wait_exit :: "tid \<Rightarrow> kernel \<Rightarrow> int step" where
  "thd_wait_exit tp k =
     (if state k tp \<noteq> THD_STATE_FINAL
      then bind (chSchGoSleepS THD_STATE_WTEXIT (list_insert (currp k) tp k))
             (\<lambda>_ k1. Ret (rdymsg k1 tp) k1)
      else Ret (rdymsg k tp) k)"

section \<open>The registry\<close>

definition chRegFirstThread :: "kernel \<Rightarrow> tid \<times> kernel" where
  "chRegFirstThread k =
     (let tp = (case registry k of [] \<Rightarrow> QHdr RListQ | t # _ \<Rightarrow> t)
      in (tp, upd_thr tp (\<lambda>r. r\<lparr>p_refs := p_refs r + 1\<rparr>) k))"

text \<open>\<^verbatim>\<open>chRegNextThread\<close> up to the release of the reference to the thread before.\<close>

definition reg_next :: "tid \<Rightarrow> kernel \<Rightarrow> tid option \<times> kernel" where
  "reg_next tp k =
     (case succ_in tp (registry k) of
        None \<Rightarrow> (None, k)
      | Some n \<Rightarrow> (Some n, upd_thr n (\<lambda>r. r\<lparr>p_refs := p_refs r + 1\<rparr>) k))"

definition chRegSetThreadName :: "string \<Rightarrow> kernel \<Rightarrow> kernel" where
  "chRegSetThreadName p k = upd_thr (currp k) (\<lambda>r. r\<lparr>p_name := Some p\<rparr>) k"

section \<open>System initialisation\<close>

definition chSysInit :: "kernel \<Rightarrow> unit step" where
  "chSysInit k =
     (let k1 = vt_init (scheduler_init k);
          k2 = thread_init mainthread NORMALPRIO k1;
          k3 = set_state mainthread THD_STATE_CURRENT (k2\<lparr>currp := mainthread\<rparr>);
          k4 = chRegSetThreadName ''main'' k3
      in bind (chThdCreateStatic idle_thread IDLEPRIO k4) (\<lambda>_. Ret ()))"

section \<open>The invariant\<close>

text \<open>A thread working area that may be used for a new thread.\<close>

definition unused :: "kernel \<Rightarrow> tid \<Rightarrow> bool" where
  "unused k tp \<longleftrightarrow> is_Thd tp \<and> tp \<noteq> currp k \<and> home k tp = None \<and> tp \<notin> waiters k
     \<and> queues k (MsgQ tp) = [] \<and> p_waiting (thr k tp) = [] \<and> p_mtxlist (thr k tp) = None"

lemma links_ok_upd_clear:
  assumes "links_ok k" "t \<notin> waiters k" "p_waiting (thr k t) = []" "p_mtxlist (thr k t) = None"
    "p_waiting (f (thr k t)) = []" "p_mtxlist (f (thr k t)) = None"
  shows "links_ok (upd_thr t f k)"
proof -
  have "upd_thr t f k = upd_thr t (\<lambda>r. (f (thr k t))\<lparr>p_waiting := p_waiting r, p_mtxlist := p_mtxlist r\<rparr>) k"
    using assms(3-6) by (cases "f (thr k t)") (simp add: upd_thr_def)
  moreover have "links_ok (upd_thr t (\<lambda>r. (f (thr k t))\<lparr>p_waiting := p_waiting r, p_mtxlist := p_mtxlist r\<rparr>) k)"
    using assms(1,2) by (intro links_ok_upd) auto
  ultimately show ?thesis by simp
qed

lemma thread_init_eq:
  assumes "queues k (MsgQ tp) = []"
  shows "thread_init tp pr k = REG_INSERT tp (upd_thr tp (\<lambda>r. r\<lparr>p_prio := pr, p_state := THD_STATE_SUSPENDED,
                 p_flags := THD_MEM_MODE_STATIC, p_realprio := pr, p_mtxlist := None,
                 p_epending := 0, p_time := 0, p_refs := 1, p_name := None, p_waiting := []\<rparr>) k)"
proof -
  have "(queues k)(MsgQ tp := []) = queues k" using assms by (rule fun_upd_idem)
  then show ?thesis by (simp add: thread_init_def REG_INSERT_def Let_def kernel_defs)
qed

lemma thread_init_ok:
  assumes c: "core X C k" and t: "tp \<in> X" "is_Thd tp" "tp \<notin> waiters k" "queues k (MsgQ tp) = []"
      "p_waiting (thr k tp) = []" "p_mtxlist (thr k tp) = None"
    and s: "sem_ok k" "hdr_ok k" "links_ok k"
  shows "core X C (thread_init tp pr k)" "sem_ok (thread_init tp pr k)" "hdr_ok (thread_init tp pr k)"
    "links_ok (thread_init tp pr k)" "currp (thread_init tp pr k) = currp k"
    "waiters (thread_init tp pr k) = waiters k"
proof -
  note eq = thread_init_eq[OF t(4), of pr]
  show "core X C (thread_init tp pr k)" using core_upd[OF c t(1)] by (simp add: eq REG_INSERT_def)
  show "sem_ok (thread_init tp pr k)" "hdr_ok (thread_init tp pr k)" "currp (thread_init tp pr k) = currp k"
    using s t(2) by (simp_all add: eq REG_INSERT_def)
  show "links_ok (thread_init tp pr k)"
    using links_ok_upd_clear[OF s(3) t(3,5,6)] by (simp add: eq REG_INSERT_def)
  show "waiters (thread_init tp pr k) = waiters k"
  proof -
    have "p_waiting (thr (thread_init tp pr k) u) = p_waiting (thr k u)" for u
      using t(5) by (simp add: eq REG_INSERT_def upd_thr_def)
    then show ?thesis by (simp add: waiters_def)
  qed
qed

lemma unused_core:
  assumes "kinv k" "unused k tp"
  shows "core {tp} {currp k} k"
  using core_out[OF kinv_core[OF assms(1)], of tp] assms(2) by (simp add: unused_def)

lemma chThdCreateI_ok:
  assumes "kinv k" "unused k tp"
  shows "core {tp} {currp k} (chThdCreateI tp pr k)" "sem_ok (chThdCreateI tp pr k)"
    "hdr_ok (chThdCreateI tp pr k)" "links_ok (chThdCreateI tp pr k)"
    "currp (chThdCreateI tp pr k) = currp k" "waiters (chThdCreateI tp pr k) = waiters k"
  unfolding chThdCreateI_def
  by (rule thread_init_ok[OF unused_core[OF assms]];
      use assms in \<open>simp add: unused_def kinv_sem kinv_hdr kinv_links\<close>)+

lemma safe_weaken: "always kinv kinv s \<Longrightarrow> safe s"
  by (rule always_mono[where P = kinv and R = kinv]) (auto simp: resumed_def)

lemma chSchRescheduleS_safe [inv_intros]: "kinv k \<Longrightarrow> safe (chSchRescheduleS k)"
  by (intro safe_weaken chSchRescheduleS_kinv)

lemma chThdCreateStatic_safe:
  assumes "kinv k" "unused k tp"
  shows "safe (chThdCreateStatic tp pr k)"
proof -
  have "always kinv kinv (chSchWakeupS tp RDY_OK (chThdCreateI tp pr k))"
    using chThdCreateI_ok[OF assms, of pr] assms(2) by (intro chSchWakeupS_kinv) (auto simp: unused_def)
  then show ?thesis unfolding chThdCreateStatic_def by (intro always_bind safe_weaken) auto
qed

text \<open>Only the running thread's priority changes, and it is in no list.\<close>

lemma kinv_upd_currp:
  assumes k: "kinv k" and f: "\<And>r. p_state (f r) = p_state r"
      "\<And>r. p_waiting (f r) = p_waiting r" "\<And>r. p_mtxlist (f r) = p_mtxlist r"
  shows "kinv (upd_thr (currp k) f k)"
proof (rule kinvI)
  let ?c = "currp k" and ?k = "upd_thr (currp k) f k"
  have n: "home k ?c = None" using kinv_current[OF k, of ?c] by simp
  from core_out[OF kinv_core[OF k] n] have "core {?c} {} k" by simp
  then have "core {?c} {} ?k" by (simp add: core_upd)
  from core_become_current[OF this, of ?c] have "core {} {?c} (set_state ?c THD_STATE_CURRENT ?k)" by simp
  moreover have "set_state ?c THD_STATE_CURRENT ?k = ?k"
    using kinv_current[OF k, of ?c] f(1)[of "thr k ?c"] by (cases "f (thr k ?c)") (simp add: kernel_defs)
  ultimately show "core {} {currp ?k} ?k" by simp
  show "links_ok ?k" using kinv_links[OF k] by (rule links_ok_upd) (auto simp: f)
qed (use kinv_sem[OF k] kinv_hdr[OF k] kinv_currp[OF k] in auto)

lemma chThdSetPriority_safe: "kinv k \<Longrightarrow> safe (chThdSetPriority newprio k)"
proof -
  assume k: "kinv k"
  define k1 where "k1 = (if prio k (currp k) = p_realprio (thr k (currp k)) \<or> prio k (currp k) < newprio
      then upd_thr (currp k) (\<lambda>r. r\<lparr>p_prio := newprio\<rparr>) k else k)"
  have "kinv k1" using kinv_upd_currp[OF k, of "\<lambda>r. r\<lparr>p_prio := newprio\<rparr>"] k by (simp add: k1_def)
  then have "kinv (upd_thr (currp k) (\<lambda>r. r\<lparr>p_realprio := newprio\<rparr>) k1)" by simp
  then have "always kinv kinv (chSchRescheduleS (upd_thr (currp k) (\<lambda>r. r\<lparr>p_realprio := newprio\<rparr>) k1))"
    by (rule chSchRescheduleS_kinv)
  then show ?thesis unfolding chThdSetPriority_def Let_def k1_def
    by (intro always_bind safe_weaken) auto
qed

lemma chThdResume_safe:
  assumes "kinv k" "is_Thd tp" "state k tp = THD_STATE_SUSPENDED"
  shows "safe (chThdResume tp k)"
proof -
  have "core {tp} {currp k} k" "tp \<noteq> currp k" "tp \<notin> waiters k"
    using core_out[OF kinv_core[OF assms(1)], of tp] kinv_current[OF assms(1), of tp] assms
      not_waiter[OF kinv_links[OF assms(1)], of tp] by auto
  then show ?thesis unfolding chThdResume_def
    using assms by (intro always_bind safe_weaken chSchWakeupS_kinv)
      (auto simp: kinv_sem kinv_hdr kinv_links)
qed

lemma chThdTerminate_kinv: "kinv k \<Longrightarrow> kinv (chThdTerminate tp k)"
  by (simp add: chThdTerminate_def kinv_upd)

lemma chThdSleepS_safe: "resumed k \<Longrightarrow> safe (chThdSleepS time k)"
  unfolding chThdSleepS_def
  by (intro chSchGoSleepTimeoutS_safe can_sleep_plain) (auto simp: resumed_def)

lemma chThdSleep_safe: "resumed k \<Longrightarrow> safe (chThdSleep time k)"
  unfolding chThdSleep_def by (intro always_bind chThdSleepS_safe) auto

lemma chThdSleepUntil_safe: "resumed k \<Longrightarrow> safe (chThdSleepUntil time k)"
  unfolding chThdSleepUntil_def Let_def
  by (auto intro!: always_bind chThdSleepS_safe simp: resumed_def)

lemma chSchDoYieldS_safe: "resumed k \<Longrightarrow> safe (chSchDoYieldS k)"
  by (auto simp: chSchDoYieldS_def chSchDoReschedule_def do_reschedule_kinv resumed_def kinv_ready)

lemma chThdYield_safe: "resumed k \<Longrightarrow> safe (chThdYield k)"
  unfolding chThdYield_def by (rule chSchDoYieldS_safe)

lemma chSchPreemption_safe: "resumed k \<Longrightarrow> safe (chSchPreemption k)"
  by (auto simp: chSchPreemption_def chSchDoReschedule_def do_reschedule_kinv resumed_def kinv_ready Let_def)

text \<open>The threads waiting for the running one to end become ready.\<close>

lemma pop_waiting:
  assumes k: "kinv k" and w: "p_waiting (thr k t) = w # ws"
  defines "k1 \<equiv> upd_thr t (\<lambda>r. r\<lparr>p_waiting := ws\<rparr>) k"
  shows "kinv (chSchReadyI w k1)" "currp (chSchReadyI w k1) = currp k"
    "p_waiting (thr (chSchReadyI w k1) t) = ws"
proof -
  note l = kinv_links[OF k, unfolded links_ok_def wait_ok_def]
  have ww: "w \<in> waiters k" using w by (auto simp: waiters_def intro!: exI[of _ t])
  have d: "w \<notin> set ws" "distinct ws" "\<And>u. u \<noteq> t \<Longrightarrow> w \<notin> set (p_waiting (thr k u))"
    using l w by (metis distinct.simps(2)) (use l w in \<open>metis distinct.simps(2)\<close>,
      use l w in \<open>metis IntI emptyE list.set_intros(1)\<close>)
  have th: "is_Thd w" and st: "state k w = THD_STATE_WTEXIT" using l ww by auto
  have n: "home k w = None" using st by (cases "p_u (thr k w)") auto
  have cw: "w \<noteq> currp k" using st kinv_current[OF k, of w] by auto
  from core_out[OF kinv_core[OF k] n] cw have "core {w} {currp k} k" by simp
  then have c: "core {w} {currp k} k1" unfolding k1_def by (rule core_upd_other) auto
  have pw: "p_waiting (thr k1 u) = (if u = t then ws else p_waiting (thr k u))" for u
    by (simp add: k1_def upd_thr_def)
  have sub: "waiters k1 \<subseteq> waiters k" using w by (auto simp: waiters_def pw split: if_splits)
  have nw: "w \<notin> waiters k1" using d by (auto simp: waiters_def pw)
  have st1: "state k1 u = state k u" for u by (simp add: k1_def upd_thr_def)
  have wset: "set (p_waiting (thr k1 u)) \<subseteq> set (p_waiting (thr k u))" for u using w by (auto simp: pw)
  have "wait_ok k1" unfolding wait_ok_def
  proof (intro conjI allI impI ballI)
    fix u v :: tid assume "u \<noteq> v"
    then have "set (p_waiting (thr k u)) \<inter> set (p_waiting (thr k v)) = {}" using l by blast
    then show "set (p_waiting (thr k1 u)) \<inter> set (p_waiting (thr k1 v)) = {}"
      using wset[of u] wset[of v] by blast
  next
    fix u show "distinct (p_waiting (thr k1 u))" using l d by (simp add: pw)
  next
    fix v assume "v \<in> waiters k1"
    then have "v \<in> waiters k" using sub by blast
    then show "is_Thd v" "v \<noteq> idle_thread" "state k1 v = THD_STATE_WTEXIT" using l st1 by auto
  qed
  moreover have "mtx_ok k1"
    using l by (simp add: mtx_ok_def owns_def st1) (simp add: k1_def upd_thr_def)
  ultimately have "links_ok k1" by (simp add: links_ok_def)
  moreover have "hdr_ok k1" unfolding k1_def by (rule hdr_ok_upd_other) (auto simp: kinv_hdr[OF k])
  moreover have "sem_ok k1" "currp k1 = currp k" by (simp_all add: k1_def kinv_sem[OF k])
  ultimately show "kinv (chSchReadyI w k1)" "currp (chSchReadyI w k1) = currp k"
    using chSchReadyI_core[OF c, of w] cw th nw by (auto intro!: kinvI)
  have "p_waiting (thr (chSchReadyI w k1) t) = p_waiting (thr k1 t)"
    by (simp add: chSchReadyI_def kernel_defs Let_def)
  then show "p_waiting (thr (chSchReadyI w k1) t) = ws" by (simp add: pw)
qed

lemma ready_waiting_kinv:
  assumes "kinv k" "p_waiting (thr k tp) = ws"
  shows "kinv (ready_waiting tp ws k) \<and> currp (ready_waiting tp ws k) = currp k"
  using assms
proof (induction tp ws k rule: ready_waiting.induct)
  case (2 tp w ws k)
  note p = pop_waiting[OF 2(2,3)]
  show ?case using 2(1)[OF p(1,3)] p(2) by simp
qed simp

lemma can_sleep_final:
  assumes "kinv k" "currp k \<noteq> idle_thread"
  shows "can_sleep THD_STATE_FINAL k"
  using assms by (intro can_sleep_plain) auto

lemma chThdExit_safe:
  assumes "resumed k"
  shows "safe (chThdExit msg k)"
proof -
  define k1 where "k1 = set_u (currp k) (U_msg msg) k"
  define k2 where "k2 = ready_waiting (currp k) (p_waiting (thr k1 (currp k))) k1"
  have k1: "kinv k1" "currp k1 = currp k" using assms by (simp_all add: k1_def resumed_def)
  have k2: "kinv k2" "currp k2 = currp k"
    using ready_waiting_kinv[OF k1(1), of "currp k"] k1(2) by (simp_all add: k2_def)
  have "chThdExit msg k = chSchGoSleepS THD_STATE_FINAL
      (if Bit_Operations.and (p_flags (thr k2 (currp k))) THD_MEM_MODE_MASK = THD_MEM_MODE_STATIC
       then REG_REMOVE (currp k) k2 else k2)"
    by (simp add: chThdExit_def chThdExitS_def Let_def k1_def k2_def)
  then show ?thesis using k2 assms
    by (auto intro!: chSchGoSleepS_safe can_sleep_final simp: REG_REMOVE_def resumed_def)
qed

lemma thd_wait_exit_safe:
  assumes r: "resumed k"
  shows "safe (thd_wait_exit tp k)"
proof -
  let ?c = "currp k"
  let ?k = "list_insert ?c tp k"
  note k = resumedD[OF r]
  have nw: "?c \<notin> waiters k" by (rule currp_not_waiter[OF k(1)])
  note l = kinv_links[OF k(1), unfolded links_ok_def wait_ok_def]
  have core: "core {} {} (set_state ?c THD_STATE_WTEXIT ?k)"
  proof -
    have "waits_in THD_STATE_WTEXIT u = None" for u by (cases u) auto
    from wait_core[OF kinv_core[OF k(1)] this _ _ k(2), of "p_u (thr k ?c)"]
    have c: "core {} {} (set_state ?c THD_STATE_WTEXIT k)" by simp
    have "core {} {} (list_insert ?c tp (set_state ?c THD_STATE_WTEXIT k))"
      unfolding list_insert_def by (rule core_upd_other[OF c]) auto
    moreover have "list_insert ?c tp (set_state ?c THD_STATE_WTEXIT k) = set_state ?c THD_STATE_WTEXIT ?k"
      by (auto simp: list_insert_def kernel_defs intro!: arg_cong[where f = "\<lambda>x. k\<lparr>thr := x\<rparr>"])
    ultimately show ?thesis by simp
  qed
  let ?k' = "set_state ?c THD_STATE_WTEXIT ?k"
  have pw: "p_waiting (thr ?k' u) = (if u = tp then ?c # p_waiting (thr k u) else p_waiting (thr k u))" for u
    by (simp add: list_insert_def kernel_defs)
  have st: "state ?k' u = (if u = ?c then THD_STATE_WTEXIT else state k u)" for u
    by (simp add: list_insert_def kernel_defs)
  have ws: "waiters ?k' = insert ?c (waiters k)" by (auto simp: waiters_def pw split: if_splits)
  have nin: "?c \<notin> set (p_waiting (thr k u))" for u using nw by (auto simp: waiters_def)
  have "wait_ok ?k'" unfolding wait_ok_def
  proof (intro conjI allI impI ballI)
    fix u v :: tid assume "u \<noteq> v"
    then have "set (p_waiting (thr k u)) \<inter> set (p_waiting (thr k v)) = {}" using l by blast
    then show "set (p_waiting (thr ?k' u)) \<inter> set (p_waiting (thr ?k' v)) = {}"
      using nin[of u] nin[of v] \<open>u \<noteq> v\<close> by (auto simp: pw)
  next
    fix u show "distinct (p_waiting (thr ?k' u))" using l nin by (simp add: pw)
  next
    fix v assume v: "v \<in> waiters ?k'"
    show "is_Thd v" "v \<noteq> idle_thread" "state ?k' v = THD_STATE_WTEXIT"
      using v[unfolded ws] l kinv_currp[OF k(1)] k(2) by (auto simp: st)
  qed
  moreover have "mtx_ok ?k'"
  proof -
    have "owns ?k' u ms = owns k u ms" for u ms by (simp add: owns_def list_insert_def kernel_defs)
    moreover have "{t. state ?k' t = THD_STATE_WTMTX} \<subseteq> {t. state k t = THD_STATE_WTMTX}" by (auto simp: st)
    then have "finite {t. state ?k' t = THD_STATE_WTMTX}"
      by (rule finite_subset) (use l in \<open>simp add: mtx_ok_def\<close>)
    ultimately show ?thesis using l by (simp add: mtx_ok_def) (simp add: list_insert_def kernel_defs)
  qed
  ultimately have "links_ok ?k'" by (simp add: links_ok_def)
  moreover have "hdr_ok ?k" unfolding list_insert_def by (rule hdr_ok_upd_other) (auto simp: kinv_hdr[OF k(1)])
  ultimately have "can_sleep THD_STATE_WTEXIT ?k"
    using core k kinv_sem[OF k(1)] kinv_currp[OF k(1)] by (simp add: can_sleep_def list_insert_def)
  then show ?thesis using k(1) by (auto simp: thd_wait_exit_def intro!: always_bind chSchGoSleepS_safe)
qed

lemma reg_kinv:
  "kinv k \<Longrightarrow> kinv (snd (chRegFirstThread k))"
  "kinv k \<Longrightarrow> kinv (snd (reg_next tp k))"
  "kinv k \<Longrightarrow> kinv (chRegSetThreadName p k)"
  by (simp_all add: chRegFirstThread_def reg_next_def chRegSetThreadName_def Let_def split: option.split)

section \<open>Boot\<close>

text \<open>
  Memory before \<^verbatim>\<open>chSysInit\<close>: no thread exists, nothing waits, no mutex is owned,
  statically initialised semaphores are not negative.
\<close>

definition boot :: "kernel \<Rightarrow> bool" where
  "boot k \<longleftrightarrow> (\<forall>q. queues k q = []) \<and> (\<forall>s. 0 \<le> s_cnt k s) \<and> (\<forall>m. m_owner k m = None)
     \<and> (\<forall>t. state k t = THD_STATE_SUSPENDED \<and> p_waiting (thr k t) = [] \<and> p_mtxlist (thr k t) = None)
     \<and> (\<forall>q. prio k (QHdr q) = NOPRIO)"

lemma home_SUSPENDED [simp]: "waits_in THD_STATE_SUSPENDED u = None"
  by (cases u) auto

lemma boot_core:
  assumes b: "boot k"
  defines "k1 \<equiv> vt_init (scheduler_init k)"
  shows "core {idle_thread} {} k1" "sem_ok k1" "hdr_ok k1" "links_ok k1" "waiters k1 = {}"
    "ready k1 = []" "registry k1 = []" "queues k1 q = []" "p_waiting (thr k1 t) = []" "p_mtxlist (thr k1 t) = None"
    "state k1 t = THD_STATE_SUSPENDED"
proof -
  have q: "queues k1 q = []" for q using b by (simp add: k1_def vt_init_def scheduler_init_def Let_def kernel_defs boot_def)
  have t: "state k1 t = THD_STATE_SUSPENDED" "p_waiting (thr k1 t) = []" "p_mtxlist (thr k1 t) = None" for t
    using b by (auto simp: k1_def vt_init_def scheduler_init_def Let_def kernel_defs boot_def)
  have s: "s_cnt k1 = s_cnt k" "m_owner k1 = m_owner k" "registry k1 = []"
    by (simp_all add: k1_def vt_init_def scheduler_init_def Let_def kernel_defs)
  have pr: "prio k1 (QHdr r) = NOPRIO" for r
    using b by (simp add: k1_def vt_init_def scheduler_init_def Let_def kernel_defs boot_def)
  show "core {idle_thread} {} k1" by (simp add: core_def q t)
  show "sem_ok k1" using b by (simp add: sem_ok_def q s boot_def)
  show "hdr_ok k1" by (simp add: hdr_ok_def t pr)
  show w: "waiters k1 = {}" by (simp add: waiters_def t)
  have "owns k1 t []" for t using b by (simp add: owns_def t s boot_def)
  moreover have "m_owner k1 m = None" for m using b by (simp add: s boot_def)
  ultimately have "mtx_ok k1" by (auto simp: mtx_ok_def q t)
  then show "links_ok k1" by (simp add: links_ok_def wait_ok_def w t)
qed (simp_all add: k1_def vt_init_def scheduler_init_def Let_def kernel_defs, use b in \<open>auto simp: boot_def\<close>)

lemma chSysInit_ok:
  assumes b: "boot k"
  obtains k' where "chSysInit k = Ret () k'" "kinv k'" "currp k' = mainthread"
    "ready k' = [idle_thread]" "registry k' = [mainthread, idle_thread]" "top_prio k'"
proof -
  define k1 where "k1 = vt_init (scheduler_init k)"
  note b1 = boot_core[OF b, folded k1_def]
  have ne: "mainthread \<noteq> idle_thread" "is_Thd mainthread" "is_Thd idle_thread"
    by (simp_all add: mainthread_def idle_thread_def)
  define k2 where "k2 = thread_init mainthread NORMALPRIO k1"
  have "core {idle_thread, mainthread} {} k1" using core_out[OF b1(1), of mainthread] b1(11) by (simp add: insert_commute)
  from thread_init_ok[OF this, of mainthread NORMALPRIO, folded k2_def] b1 ne
  have k2: "core {idle_thread, mainthread} {} k2" "sem_ok k2" "hdr_ok k2" "links_ok k2" "waiters k2 = {}"
    by simp_all
  have k2f: "queues k2 q = []" "registry k2 = [mainthread]" "p_waiting (thr k2 t) = []"
      "p_mtxlist (thr k2 t) = None" "prio k2 mainthread = NORMALPRIO" for q t
    using b1 by (simp_all add: k2_def thread_init_eq REG_INSERT_def) (simp_all add: upd_thr_def)
  define k3 where "k3 = set_state mainthread THD_STATE_CURRENT (k2\<lparr>currp := mainthread\<rparr>)"
  have k3: "core {idle_thread} {mainthread} k3" "sem_ok k3" "hdr_ok k3" "links_ok k3"
    using core_become_current[of "{idle_thread, mainthread}" "{}" "k2\<lparr>currp := mainthread\<rparr>" mainthread] k2 ne
    by (auto simp: k3_def links_ok_set_state insert_Diff_if split: if_splits)
  define k4 where "k4 = chRegSetThreadName ''main'' k3"
  have k4: "core {idle_thread} {mainthread} k4" "sem_ok k4" "hdr_ok k4" "links_ok k4" "waiters k4 = {}"
      "currp k4 = mainthread" "registry k4 = [mainthread]" "queues k4 q = []"
      "p_waiting (thr k4 t) = []" "p_mtxlist (thr k4 t) = None" "prio k4 mainthread = NORMALPRIO" for q t
  proof -
    have f: "currp k3 = mainthread" "registry k3 = [mainthread]" "waiters k3 = {}" "queues k3 q = []"
        "p_waiting (thr k3 t) = []" "p_mtxlist (thr k3 t) = None" "prio k3 mainthread = NORMALPRIO" for q t
      using k2(5) k2f by (simp_all add: k3_def) (simp_all add: kernel_defs)
    have "core {idle_thread} {mainthread} k4"
      unfolding k4_def chRegSetThreadName_def by (rule core_upd_other[OF k3(1)]) auto
    moreover have "hdr_ok k4" "links_ok k4" "sem_ok k4" "waiters k4 = {}"
      using k3 f ne by (simp_all add: k4_def chRegSetThreadName_def links_ok_upd)
    moreover have "currp k4 = mainthread" "registry k4 = [mainthread]" "queues k4 q = []"
        "p_waiting (thr k4 t) = []" "p_mtxlist (thr k4 t) = None" "prio k4 mainthread = NORMALPRIO" for q t
      using f by (simp_all add: k4_def chRegSetThreadName_def upd_thr_def)
    ultimately show "core {idle_thread} {mainthread} k4" "sem_ok k4" "hdr_ok k4" "links_ok k4"
      "waiters k4 = {}" "currp k4 = mainthread" "registry k4 = [mainthread]" "queues k4 q = []"
      "p_waiting (thr k4 t) = []" "p_mtxlist (thr k4 t) = None" "prio k4 mainthread = NORMALPRIO" for q t
      by blast+
  qed
  define k5 where "k5 = chThdCreateI idle_thread IDLEPRIO k4"
  from thread_init_ok[OF k4(1), of idle_thread IDLEPRIO, folded chThdCreateI_def k5_def] k4 ne
  have k5: "core {idle_thread} {mainthread} k5" "sem_ok k5" "hdr_ok k5" "links_ok k5" "waiters k5 = {}"
      "currp k5 = mainthread" by simp_all
  have k5f: "registry k5 = [mainthread, idle_thread]" "ready k5 = []" "prio k5 mainthread = NORMALPRIO"
      "prio k5 idle_thread = IDLEPRIO"
    using k4 ne by (simp_all add: k5_def chThdCreateI_def thread_init_eq REG_INSERT_def)
  define k6 where "k6 = chSchReadyI idle_thread (set_u idle_thread (U_msg RDY_OK) k5)"
  have "chSchWakeupS idle_thread RDY_OK k5 = Ret () k6"
    using k5f k5 by (simp add: chSchWakeupS_def k6_def Let_def IDLEPRIO_def NORMALPRIO_def)
  then have init: "chSysInit k = Ret () k6"
    by (simp add: chSysInit_def chThdCreateStatic_def Let_def k5_def k4_def k3_def k2_def k1_def)
  have c: "core {idle_thread} {mainthread} (set_u idle_thread (U_msg RDY_OK) k5)"
    using core_upd[OF k5(1)] by (simp add: set_u_def)
  from chSchReadyI_core[OF this, of idle_thread] ne
  have k6: "kinv k6" using k5 by (auto simp: k6_def intro!: kinvI)
  have r: "ready k6 = [idle_thread]" using k5f by (simp add: k6_def queues_chSchReadyI)
  have "registry k6 = [mainthread, idle_thread]" using k5f by (simp add: k6_def)
  moreover have "top_prio k6" using r k5 k5f
    by (simp add: top_prio_def) (simp add: k6_def IDLEPRIO_def NORMALPRIO_def)
  ultimately show thesis using that init k6 r k5(6) by (simp add: k6_def)
qed

end
