(* ===== verification/Semaphores.thy ===== *)
theory Semaphores
  imports Threads
begin

text \<open>
  Counting semaphores (\<^verbatim>\<open>os/kernel/src/chsem.c\<close>) and the binary semaphores built on
  them (\<^verbatim>\<open>os/kernel/include/chbsem.h\<close>). A semaphore \<open>s\<close> is its counter \<open>s_cnt k s\<close>
  and its queue \<open>queues k (SemQ s)\<close>, first in first out as \<^verbatim>\<open>chconf.h\<close> says.
\<close>

section \<open>Operations\<close>

definition set_cnt :: "nat \<Rightarrow> int \<Rightarrow> kernel \<Rightarrow> kernel" where
  "set_cnt s n k = k\<lparr>s_cnt := (s_cnt k)(s := n)\<rparr>"

definition chSemInit :: "nat \<Rightarrow> int \<Rightarrow> kernel \<Rightarrow> kernel" where
  "chSemInit sp n k = set_cnt sp n (set_queue (SemQ sp) [] k)"

definition chSemGetCounterI :: "nat \<Rightarrow> kernel \<Rightarrow> int" where
  "chSemGetCounterI sp k = s_cnt k sp"

text \<open>\<^verbatim>\<open>while (++cnt <= 0) chSchReadyI(lifo_remove(&sp->s_queue))->p_u.rdymsg = RDY_RESET;\<close>\<close>

function sem_reset_loop :: "nat \<Rightarrow> int \<Rightarrow> kernel \<Rightarrow> kernel" where
  "sem_reset_loop sp cnt k =
     (if cnt + 1 \<le> 0 then
        (case lifo_remove (SemQ sp) k of
           (tp, k1) \<Rightarrow> sem_reset_loop sp (cnt + 1) (set_u tp (U_msg RDY_RESET) (chSchReadyI tp k1)))
      else k)"
  by pat_completeness auto
termination by (relation "measure (\<lambda>(sp, cnt, k). nat (- cnt))") auto

definition chSemResetI :: "nat \<Rightarrow> int \<Rightarrow> kernel \<Rightarrow> kernel" where
  "chSemResetI sp n k = sem_reset_loop sp (s_cnt k sp) (set_cnt sp n k)"

definition chSemReset :: "nat \<Rightarrow> int \<Rightarrow> kernel \<Rightarrow> unit step" where
  "chSemReset sp n k = chSchRescheduleS (chSemResetI sp n k)"

definition chSemWaitS :: "nat \<Rightarrow> kernel \<Rightarrow> int step" where
  "chSemWaitS sp k =
     (let k1 = set_cnt sp (s_cnt k sp - 1) k
      in if s_cnt k1 sp < 0 then
           (let k2 = set_u (currp k1) (U_wtobjp (SemQ sp)) k1;
                k3 = queue_insert (currp k2) (SemQ sp) k2
            in bind (chSchGoSleepS THD_STATE_WTSEM k3) (\<lambda>_ k4. Ret (rdymsg k4 (currp k4)) k4))
         else Ret RDY_OK k1)"

definition chSemWait :: "nat \<Rightarrow> kernel \<Rightarrow> int step" where
  "chSemWait sp k = chSemWaitS sp k"

definition chSemWaitTimeoutS :: "nat \<Rightarrow> u32 \<Rightarrow> kernel \<Rightarrow> int step" where
  "chSemWaitTimeoutS sp time k =
     (let k1 = set_cnt sp (s_cnt k sp - 1) k
      in if s_cnt k1 sp < 0 then
           (if TIME_IMMEDIATE = time then Ret RDY_TIMEOUT (set_cnt sp (s_cnt k1 sp + 1) k1)
            else
              (let k2 = set_u (currp k1) (U_wtobjp (SemQ sp)) k1;
                   k3 = queue_insert (currp k2) (SemQ sp) k2
               in chSchGoSleepTimeoutS THD_STATE_WTSEM time k3))
         else Ret RDY_OK k1)"

definition chSemWaitTimeout :: "nat \<Rightarrow> u32 \<Rightarrow> kernel \<Rightarrow> int step" where
  "chSemWaitTimeout sp time k = chSemWaitTimeoutS sp time k"

definition chSemSignal :: "nat \<Rightarrow> kernel \<Rightarrow> unit step" where
  "chSemSignal sp k =
     (let k1 = set_cnt sp (s_cnt k sp + 1) k
      in if s_cnt k1 sp \<le> 0
         then (case fifo_remove (SemQ sp) k1 of (tp, k2) \<Rightarrow> chSchWakeupS tp RDY_OK k2)
         else Ret () k1)"

definition chSemSignalI :: "nat \<Rightarrow> kernel \<Rightarrow> kernel" where
  "chSemSignalI sp k =
     (let k1 = set_cnt sp (s_cnt k sp + 1) k
      in if s_cnt k1 sp \<le> 0
         then (case fifo_remove (SemQ sp) k1 of
                 (tp, k2) \<Rightarrow> chSchReadyI tp (set_u tp (U_msg RDY_OK) k2))
         else k1)"

primrec sem_add_loop :: "nat \<Rightarrow> nat \<Rightarrow> kernel \<Rightarrow> kernel" where
  "sem_add_loop sp 0 k = k"
| "sem_add_loop sp (Suc n) k =
     (let k1 = set_cnt sp (s_cnt k sp + 1) k
      in sem_add_loop sp n (if s_cnt k1 sp \<le> 0 then ready_fifo (SemQ sp) RDY_OK k1 else k1))"

definition chSemAddCounterI :: "nat \<Rightarrow> int \<Rightarrow> kernel \<Rightarrow> kernel" where
  "chSemAddCounterI sp n k = sem_add_loop sp (nat n) k"

definition chSemSignalWait :: "nat \<Rightarrow> nat \<Rightarrow> kernel \<Rightarrow> int step" where
  "chSemSignalWait sps spw k =
     (let k1 = set_cnt sps (s_cnt k sps + 1) k;
          k2 = (if s_cnt k1 sps \<le> 0 then ready_fifo (SemQ sps) RDY_OK k1 else k1);
          k3 = set_cnt spw (s_cnt k2 spw - 1) k2
      in if s_cnt k3 spw < 0 then
           (let ctp = currp k3;
                k4 = queue_insert ctp (SemQ spw) k3;
                k5 = set_u ctp (U_wtobjp (SemQ spw)) k4
            in bind (chSchGoSleepS THD_STATE_WTSEM k5) (\<lambda>_ k6. Ret (rdymsg k6 ctp) k6))
         else bind (chSchRescheduleS k3) (\<lambda>_. Ret RDY_OK))"

section \<open>Binary semaphores\<close>

definition chBSemInit :: "nat \<Rightarrow> bool \<Rightarrow> kernel \<Rightarrow> kernel" where
  "chBSemInit bsp taken = chSemInit bsp (if taken then 0 else 1)"

definition chBSemWait :: "nat \<Rightarrow> kernel \<Rightarrow> int step" where
  "chBSemWait bsp = chSemWait bsp"

definition chBSemWaitTimeout :: "nat \<Rightarrow> u32 \<Rightarrow> kernel \<Rightarrow> int step" where
  "chBSemWaitTimeout bsp = chSemWaitTimeout bsp"

definition chBSemReset :: "nat \<Rightarrow> bool \<Rightarrow> kernel \<Rightarrow> unit step" where
  "chBSemReset bsp taken = chSemReset bsp (if taken then 0 else 1)"

definition chBSemResetI :: "nat \<Rightarrow> bool \<Rightarrow> kernel \<Rightarrow> kernel" where
  "chBSemResetI bsp taken = chSemResetI bsp (if taken then 0 else 1)"

definition chBSemSignalI :: "nat \<Rightarrow> kernel \<Rightarrow> kernel" where
  "chBSemSignalI bsp k = (if s_cnt k bsp < 1 then chSemSignalI bsp k else k)"

definition chBSemSignal :: "nat \<Rightarrow> kernel \<Rightarrow> unit step" where
  "chBSemSignal bsp k = chSchRescheduleS (chBSemSignalI bsp k)"

definition chBSemGetStateI :: "nat \<Rightarrow> kernel \<Rightarrow> bool" where
  "chBSemGetStateI bsp k \<longleftrightarrow> \<not> 0 < s_cnt k bsp"

section \<open>The semaphore law\<close>

lemma set_cnt_fields [simp]:
  "thr (set_cnt s n k) = thr k" "queues (set_cnt s n k) = queues k" "currp (set_cnt s n k) = currp k"
  "s_cnt (set_cnt s n k) = (s_cnt k)(s := n)" "m_owner (set_cnt s n k) = m_owner k"
  "m_next (set_cnt s n k) = m_next k" "mbox (set_cnt s n k) = mbox k" "ioq (set_cnt s n k) = ioq k"
  "klists (set_cnt s n k) = klists k" "core X C (set_cnt s n k) = core X C k"
  "hdr_ok (set_cnt s n k) = hdr_ok k" "links_ok (set_cnt s n k) = links_ok k"
  by (simp_all add: set_cnt_def klists_def)

lemma set_cnt_same [simp]: "set_cnt s (s_cnt k s) k = k" "set_cnt s m (set_cnt s n k) = set_cnt s m k"
  by (simp_all add: set_cnt_def)

lemma sem_ok_def2: "sem_ok k \<longleftrightarrow> (\<forall>s. int (length (queues k (SemQ s))) = max 0 (- s_cnt k s))"
  by (rule sem_ok_def)

lemma sem_len: "kinv k \<Longrightarrow> int (length (queues k (SemQ s))) = max 0 (- s_cnt k s)"
  using kinv_sem by (simp add: sem_ok_def)

lemma sem_waiting: "kinv k \<Longrightarrow> queues k (SemQ s) \<noteq> [] \<longleftrightarrow> s_cnt k s < 0"
  using sem_len[of k s] by (cases "queues k (SemQ s)") auto

lemma sem_ok_set:
  assumes "sem_ok k" "int (length xs) = max 0 (- n)"
  shows "sem_ok (set_queue (SemQ s) xs (set_cnt s n k))"
  using assms by (simp add: sem_ok_def set_queue_def)

lemma sem_ok_queue_cong: "(\<And>s. queues k' (SemQ s) = queues k (SemQ s)) \<Longrightarrow> s_cnt k' = s_cnt k \<Longrightarrow> sem_ok k' = sem_ok k"
  by (simp add: sem_ok_def)

text \<open>A signal with a waiting thread, and one without.\<close>

lemma chSemSignalI_wake:
  assumes "queues k (SemQ s) = t # ts" "s_cnt k s < 0"
  shows "chSemSignalI s k =
    chSchReadyI t (set_u t (U_msg RDY_OK) (set_queue (SemQ s) ts (set_cnt s (s_cnt k s + 1) k)))"
  using assms by (simp add: chSemSignalI_def fifo_remove_def)

lemma chSemSignalI_free: "0 \<le> s_cnt k s \<Longrightarrow> chSemSignalI s k = set_cnt s (s_cnt k s + 1) k"
  by (simp add: chSemSignalI_def)

lemma kinv_up:
  assumes "kinv k" "0 \<le> s_cnt k s"
  shows "kinv (set_cnt s (s_cnt k s + 1) k)"
  using assms sem_len[OF assms(1)] by (simp add: kinv_klists sem_ok_def max_def)

lemma sem_ok_pop:
  assumes "kinv k" "queues k (SemQ s) = t # ts"
  shows "sem_ok (set_queue (SemQ s) ts (set_cnt s (s_cnt k s + 1) k))"
  using assms(2) sem_len[OF assms(1), of s] by (intro sem_ok_set kinv_sem assms(1)) auto

lemma chSemSignalI_kinv:
  assumes k: "kinv k"
  shows "kinv (chSemSignalI s k)"
proof (cases "s_cnt k s < 0")
  case True
  then obtain t ts where q: "queues k (SemQ s) = t # ts" using sem_waiting[OF k, of s] by (auto simp: neq_Nil_conv)
  have "klists (set_cnt s (s_cnt k s + 1) k)" using k by (simp add: kinv_klists)
  from klists_ready_from(3)[OF this, of "SemQ s" "[]" t ts] q sem_ok_pop[OF k q]
  show ?thesis by (simp add: chSemSignalI_wake[OF q True] kinv_klists)
qed (use kinv_up[OF k] in \<open>simp add: chSemSignalI_free\<close>)

lemma chSemSignal_safe:
  assumes k: "kinv k"
  shows "safe (chSemSignal s k)"
proof (cases "s_cnt k s < 0")
  case True
  then obtain t ts where q: "queues k (SemQ s) = t # ts" using sem_waiting[OF k, of s] by (auto simp: neq_Nil_conv)
  have "safe (chSchWakeupS t RDY_OK (set_queue (SemQ s) ts (set_cnt s (s_cnt k s + 1) k)))"
    using k sem_ok_pop[OF k q] q by (intro chSchWakeupS_from) (auto simp: kinv_klists)
  then show ?thesis using True q by (simp add: chSemSignal_def fifo_remove_def)
qed (use kinv_up[OF k] in \<open>simp add: chSemSignal_def\<close>)

lemma kinv_ready_sem:
  assumes k: "kinv k" and c: "s_cnt k s < 0"
  shows "kinv (ready_fifo (SemQ s) msg (set_cnt s (s_cnt k s + 1) k))"
proof -
  obtain t ts where q: "queues k (SemQ s) = t # ts"
    using c sem_waiting[OF k, of s] by (auto simp: neq_Nil_conv)
  have q1: "queues (set_cnt s (s_cnt k s + 1) k) (SemQ s) = t # ts" using q by simp
  have "sem_ok (ready_fifo (SemQ s) msg (set_cnt s (s_cnt k s + 1) k))"
    using sem_ok_pop[OF k q] by (simp add: ready_fifo_eq[OF q1])
  moreover have "klists (ready_fifo (SemQ s) msg (set_cnt s (s_cnt k s + 1) k))"
    using k q by (intro klists_ready_fifo) (auto simp: kinv_klists)
  ultimately show ?thesis by (simp add: kinv_klists)
qed

lemma sem_add_loop_kinv: "kinv k \<Longrightarrow> kinv (sem_add_loop s n k)"
proof (induction n arbitrary: k)
  case (Suc n)
  then show ?case using kinv_ready_sem[of k s RDY_OK] kinv_up[of k s] by (auto simp: Let_def)
qed simp

lemma chSemAddCounterI_kinv: "kinv k \<Longrightarrow> kinv (chSemAddCounterI s n k)"
  by (simp add: chSemAddCounterI_def sem_add_loop_kinv)

text \<open>The running thread joins the queue of a semaphore.\<close>

lemma can_sleep_sem:
  assumes k: "resumed k" and c: "s_cnt k s - 1 < 0"
  shows "can_sleep THD_STATE_WTSEM (queue_insert (currp k) (SemQ s)
    (set_u (currp k) (U_wtobjp (SemQ s)) (set_cnt s (s_cnt k s - 1) k)))"
proof -
  note k' = resumedD[OF k]
  have "sem_ok (set_queue (SemQ s) (queues k (SemQ s) @ [currp k]) (set_cnt s (s_cnt k s - 1) k))"
    using sem_len[OF k'(1), of s] c by (intro sem_ok_set kinv_sem k'(1)) auto
  then show ?thesis
    using can_sleep_fifo[of "set_cnt s (s_cnt k s - 1) k" "SemQ s" THD_STATE_WTSEM]
      kinv_core[OF k'(1)] kinv_hdr[OF k'(1)] kinv_links[OF k'(1)] k' by simp
qed

lemma kinv_down:
  assumes "kinv k" "0 \<le> s_cnt k s - 1"
  shows "kinv (set_cnt s (s_cnt k s - 1) k)"
  using assms sem_len[OF assms(1)] by (simp add: kinv_klists sem_ok_def max_def)

lemma chSemWaitS_safe [inv_intros]:
  assumes "resumed k"
  shows "safe (chSemWaitS s k)"
  using kinv_down[of k s] can_sleep_sem[OF assms, of s] assms
  by (auto simp: chSemWaitS_def Let_def resumed_def intro!: always_bind chSchGoSleepS_safe)

lemma chSemWaitTimeoutS_safe [inv_intros]:
  assumes "resumed k"
  shows "safe (chSemWaitTimeoutS s time k)"
  using kinv_down[of k s] can_sleep_sem[OF assms, of s] assms
  by (auto simp: chSemWaitTimeoutS_def Let_def resumed_def intro!: chSchGoSleepTimeoutS_safe)

lemma set_u_queue_insert: "set_u t u (queue_insert v q k) = queue_insert v q (set_u t u k)"
  by (simp add: queue_insert_def kernel_defs)

lemma ready_fifo_sem_currp [simp]: "currp (ready_fifo q msg k) = currp k" "s_cnt (ready_fifo q msg k) = s_cnt k"
  by (simp_all add: ready_fifo_def fifo_remove_def split: list.split)

lemma chSemSignalWait_safe:
  assumes r: "resumed k"
  shows "safe (chSemSignalWait sps spw k)"
proof -
  note k = resumedD[OF r]
  define k2 where "k2 = (if s_cnt k sps + 1 \<le> 0 then ready_fifo (SemQ sps) RDY_OK (set_cnt sps (s_cnt k sps + 1) k)
      else set_cnt sps (s_cnt k sps + 1) k)"
  have "kinv k2" using kinv_ready_sem[OF k(1), of sps] kinv_up[OF k(1), of sps] by (simp add: k2_def)
  then have r2: "resumed k2" using k by (simp add: resumed_def k2_def)
  have eq: "chSemSignalWait sps spw k =
     (if s_cnt k2 spw - 1 < 0 then
        bind (chSchGoSleepS THD_STATE_WTSEM (queue_insert (currp k2) (SemQ spw)
               (set_u (currp k2) (U_wtobjp (SemQ spw)) (set_cnt spw (s_cnt k2 spw - 1) k2))))
             (\<lambda>_ k6. Ret (rdymsg k6 (currp k2)) k6)
      else bind (chSchRescheduleS (set_cnt spw (s_cnt k2 spw - 1) k2)) (\<lambda>_. Ret RDY_OK))"
    by (simp add: chSemSignalWait_def Let_def k2_def set_u_queue_insert)
  show ?thesis unfolding eq
    using can_sleep_sem[OF r2, of spw] kinv_down[of k2 spw] resumedD(1)[OF r2]
    by (auto intro!: always_bind chSchGoSleepS_safe chSchRescheduleS_safe)
qed

text \<open>Reset: every waiting thread becomes ready, the last one first.\<close>

declare sem_reset_loop.simps [simp del]

lemma sem_reset_loop_spec:
  assumes "klists k" "int (length (queues k (SemQ s))) = max 0 (- cnt)"
  shows "klists (sem_reset_loop s cnt k) \<and> queues (sem_reset_loop s cnt k) (SemQ s) = []
     \<and> (\<forall>r. r \<noteq> SemQ s \<longrightarrow> r \<noteq> RListQ \<longrightarrow> queues (sem_reset_loop s cnt k) r = queues k r)
     \<and> s_cnt (sem_reset_loop s cnt k) = s_cnt k \<and> currp (sem_reset_loop s cnt k) = currp k
     \<and> (\<forall>t. prio (sem_reset_loop s cnt k) t = prio k t)
     \<and> (\<forall>t. t \<notin> set (queues k (SemQ s)) \<longrightarrow> thr (sem_reset_loop s cnt k) t = thr k t)
     \<and> (\<forall>t \<in> set (queues k (SemQ s)). state (sem_reset_loop s cnt k) t = THD_STATE_READY
          \<and> rdymsg (sem_reset_loop s cnt k) t = RDY_RESET)
     \<and> queues (sem_reset_loop s cnt k) RListQ
         = fold (prio_ins (prio k)) (rev (queues k (SemQ s))) (ready k)"
  using assms
proof (induction "length (queues k (SemQ s))" arbitrary: cnt k)
  case 0
  then have q: "queues k (SemQ s) = []" "\<not> cnt + 1 \<le> 0" by auto
  have "sem_reset_loop s cnt k = k" using q by (simp add: sem_reset_loop.simps)
  then show ?case using 0 q by simp
next
  case (Suc n)
  then obtain ts t where q: "queues k (SemQ s) = ts @ [t]" by (cases "queues k (SemQ s)" rule: rev_cases) auto
  have cnt: "cnt + 1 \<le> 0" using Suc(2,4) by (cases "cnt < 0") auto
  define k1 where "k1 = set_u t (U_msg RDY_RESET) (chSchReadyI t (set_queue (SemQ s) ts k))"
  have step: "sem_reset_loop s cnt k = sem_reset_loop s (cnt + 1) k1"
    using cnt q by (subst sem_reset_loop.simps) (simp add: lifo_remove_def k1_def)
  have kl: "klists k1" using klists_ready_from(2)[OF Suc(3), of "SemQ s" ts t "[]"] q by (simp add: k1_def)
  have q1: "queues k1 (SemQ s) = ts" by (simp add: k1_def)
  have "n = length (queues k1 (SemQ s))" using Suc(2) q by (simp add: q1)
  moreover have "int (length (queues k1 (SemQ s))) = max 0 (- (cnt + 1))"
    using Suc(4) q cnt by (simp add: q1)
  ultimately have IH: "klists (sem_reset_loop s (cnt + 1) k1) \<and> queues (sem_reset_loop s (cnt + 1) k1) (SemQ s) = []
     \<and> (\<forall>r. r \<noteq> SemQ s \<longrightarrow> r \<noteq> RListQ \<longrightarrow> queues (sem_reset_loop s (cnt + 1) k1) r = queues k1 r)
     \<and> s_cnt (sem_reset_loop s (cnt + 1) k1) = s_cnt k1 \<and> currp (sem_reset_loop s (cnt + 1) k1) = currp k1
     \<and> (\<forall>t. prio (sem_reset_loop s (cnt + 1) k1) t = prio k1 t)
     \<and> (\<forall>t. t \<notin> set ts \<longrightarrow> thr (sem_reset_loop s (cnt + 1) k1) t = thr k1 t)
     \<and> (\<forall>t \<in> set ts. state (sem_reset_loop s (cnt + 1) k1) t = THD_STATE_READY
          \<and> rdymsg (sem_reset_loop s (cnt + 1) k1) t = RDY_RESET)
     \<and> queues (sem_reset_loop s (cnt + 1) k1) RListQ = fold (prio_ins (prio k1)) (rev ts) (ready k1)"
    using Suc(1)[OF _ kl] q1 by simp
  have d: "t \<notin> set ts" using Suc(3) q core_distinct[of "{}" "{currp k}" k "SemQ s"] by (simp add: klists_def)
  have pr: "prio k1 u = prio k u" for u by (simp add: k1_def)
  then have pr': "prio k1 = prio k" by blast
  have rd: "ready k1 = prio_ins (prio k) t (ready k)" by (simp add: k1_def queues_chSchReadyI)
  have tr: "thr k1 u = thr k u" if "u \<noteq> t" for u using that by (simp add: k1_def)
  have t1: "state k1 t = THD_STATE_READY" "rdymsg k1 t = RDY_RESET" by (simp_all add: k1_def)
  have oq: "r \<noteq> SemQ s \<Longrightarrow> r \<noteq> RListQ \<Longrightarrow> queues k1 r = queues k r" for r by (simp add: k1_def)
  have sc: "s_cnt k1 = s_cnt k" "currp k1 = currp k" by (simp_all add: k1_def)
  show ?case unfolding step q using IH d tr t1 oq sc pr rd by (auto simp: pr')
qed

lemma chSemResetI_kinv:
  assumes k: "kinv k" and n: "0 \<le> n"
  shows "kinv (chSemResetI s n k)"
proof -
  have l: "klists (set_cnt s n k)" "int (length (queues (set_cnt s n k) (SemQ s))) = max 0 (- s_cnt k s)"
    using k sem_len[OF k, of s] by (simp_all add: kinv_klists)
  note sp = sem_reset_loop_spec[OF l]
  have "sem_ok (chSemResetI s n k)"
    unfolding sem_ok_def
  proof
    fix r
    show "int (length (queues (chSemResetI s n k) (SemQ r))) = max 0 (- s_cnt (chSemResetI s n k) r)"
      using sp n sem_len[OF k, of r] by (cases "r = s") (simp_all add: chSemResetI_def)
  qed
  then show ?thesis using sp by (simp add: kinv_klists chSemResetI_def)
qed

lemma chSemReset_safe: "kinv k \<Longrightarrow> 0 \<le> n \<Longrightarrow> safe (chSemReset s n k)"
  unfolding chSemReset_def by (intro chSchRescheduleS_safe chSemResetI_kinv)

section \<open>Binary semaphores\<close>

definition bin :: "kernel \<Rightarrow> nat \<Rightarrow> bool" where
  "bin k s \<longleftrightarrow> s_cnt k s \<le> 1"

lemma s_cnt_chSemSignalI [simp]: "s_cnt (chSemSignalI s k) = (s_cnt k)(s := s_cnt k s + 1)"
  by (simp add: chSemSignalI_def Let_def fifo_remove_def split: list.split)

lemma chBSemSignalI_kinv: "kinv k \<Longrightarrow> kinv (chBSemSignalI s k)"
  by (simp add: chBSemSignalI_def chSemSignalI_kinv)

lemma chBSemSignalI_bin: "bin k s \<Longrightarrow> bin (chBSemSignalI s k) s"
  by (simp add: chBSemSignalI_def bin_def)

lemma chBSemSignal_safe: "kinv k \<Longrightarrow> safe (chBSemSignal s k)"
  unfolding chBSemSignal_def by (intro chSchRescheduleS_safe chBSemSignalI_kinv)

section \<open>Timeouts\<close>

text \<open>A timed wait that times out leaves the semaphore as it was.\<close>

lemma wakeup_thread_WTSEM:
  assumes k: "kinv k" and t: "t \<in> set (queues k (SemQ s))"
  shows "s_cnt (wakeup_thread t k) s = s_cnt k s + 1"
    "queues (wakeup_thread t k) (SemQ s) = remove1 t (queues k (SemQ s))"
    "rdymsg (wakeup_thread t k) t = RDY_TIMEOUT" "state (wakeup_thread t k) t = THD_STATE_READY"
proof -
  have h: "home k t = Some (SemQ s)" using t kinv_mem[OF k] by simp
  then have st: "state k t = THD_STATE_WTSEM" using home_not_SemQ by blast
  from h have u: "p_u (thr k t) = U_wtobjp (SemQ s)" unfolding st by (auto dest: home_WTSEM)
  have eq: "wakeup_thread t k = chSchReadyI t (set_u t (U_msg RDY_TIMEOUT) (dequeue t (chSemFastSignalI s k)))"
    by (simp add: wakeup_thread_def st u)
  show "s_cnt (wakeup_thread t k) s = s_cnt k s + 1"
    "queues (wakeup_thread t k) (SemQ s) = remove1 t (queues k (SemQ s))"
    "rdymsg (wakeup_thread t k) t = RDY_TIMEOUT" "state (wakeup_thread t k) t = THD_STATE_READY"
    by (simp_all add: eq) (simp_all add: chSemFastSignalI_def)
qed

end
