(* ===== verification/Mutexes.thy ===== *)
theory Mutexes
  imports Semaphores
begin

text \<open>
  Mutexes with priority inheritance (\<^verbatim>\<open>os/kernel/src/chmtx.c\<close>). A mutex \<open>m\<close> is its
  owner \<open>m_owner k m\<close>, its queue \<open>queues k (MtxQ m)\<close> in priority order, and the link
  \<open>m_next k m\<close> of its owner's list \<^verbatim>\<open>p_mtxlist\<close>. Reading through a null pointer is
  \<open>None\<close> in the functions and \<open>Hang\<close> in the calls.
\<close>

section \<open>Operations\<close>

definition chMtxInit :: "nat \<Rightarrow> kernel \<Rightarrow> kernel" where
  "chMtxInit mp k = (set_queue (MtxQ mp) [] k)\<lparr>m_owner := (m_owner k)(mp := None)\<rparr>"

definition set_mtx :: "nat \<Rightarrow> tid option \<Rightarrow> nat option \<Rightarrow> kernel \<Rightarrow> kernel" where
  "set_mtx mp ow nx k = k\<lparr>m_owner := (m_owner k)(mp := ow), m_next := (m_next k)(mp := nx)\<rparr>"

text \<open>The loop of \<^verbatim>\<open>chMtxLockS\<close> that raises the owner, the owner of what it waits for, and so on.\<close>

partial_function (option) mtx_boost :: "nat \<Rightarrow> tid \<Rightarrow> kernel \<Rightarrow> kernel option" where
  "mtx_boost p tp k =
     (if prio k tp < p then
        (let k1 = upd_thr tp (\<lambda>r. r\<lparr>p_prio := p\<rparr>) k
         in case state k1 tp of
              THD_STATE_WTMTX \<Rightarrow>
                (let q = u_wtobjp (p_u (thr k1 tp)); k2 = prio_insert tp q (dequeue tp k1)
                 in case q of
                      MtxQ m \<Rightarrow> (case m_owner k2 m of None \<Rightarrow> None | Some ow \<Rightarrow> mtx_boost p ow k2)
                    | _ \<Rightarrow> None)
            | THD_STATE_WTCOND \<Rightarrow> Some (prio_insert tp (u_wtobjp (p_u (thr k1 tp))) (dequeue tp k1))
            | THD_STATE_READY \<Rightarrow> Some (chSchReadyI tp (dequeue tp k1))
            | _ \<Rightarrow> Some k1)
      else Some k)"

text \<open>Taking a free mutex.\<close>

definition mtx_take :: "nat \<Rightarrow> kernel \<Rightarrow> kernel" where
  "mtx_take mp k =
     (let ctp = currp k
      in upd_thr ctp (\<lambda>r. r\<lparr>p_mtxlist := Some mp\<rparr>) (set_mtx mp (Some ctp) (p_mtxlist (thr k ctp)) k))"

definition chMtxLockS :: "nat \<Rightarrow> kernel \<Rightarrow> unit step" where
  "chMtxLockS mp k =
     (let ctp = currp k
      in case m_owner k mp of
           Some tp \<Rightarrow>
             (case mtx_boost (prio k ctp) tp k of
                None \<Rightarrow> Hang
              | Some k1 \<Rightarrow>
                  (let k2 = prio_insert ctp (MtxQ mp) k1;
                       k3 = set_u ctp (U_wtobjp (MtxQ mp)) k2
                   in chSchGoSleepS THD_STATE_WTMTX k3))
         | None \<Rightarrow> Ret () (mtx_take mp k))"

definition chMtxLock :: "nat \<Rightarrow> kernel \<Rightarrow> unit step" where
  "chMtxLock mp k = chMtxLockS mp k"

definition chMtxTryLockS :: "nat \<Rightarrow> kernel \<Rightarrow> bool \<times> kernel" where
  "chMtxTryLockS mp k =
     (if m_owner k mp \<noteq> None then (False, k) else (True, mtx_take mp k))"

definition chMtxTryLock :: "nat \<Rightarrow> kernel \<Rightarrow> bool \<times> kernel" where
  "chMtxTryLock mp k = chMtxTryLockS mp k"

text \<open>\<^verbatim>\<open>chMtxQueueNotEmptyS\<close> and the loop that finds the priority to go back to.\<close>

definition chMtxQueueNotEmptyS :: "nat \<Rightarrow> kernel \<Rightarrow> bool" where
  "chMtxQueueNotEmptyS mp k \<longleftrightarrow> notempty (MtxQ mp) k"

partial_function (option) mtx_newprio :: "kernel \<Rightarrow> nat option \<Rightarrow> nat \<Rightarrow> nat option" where
  "mtx_newprio k mp newprio =
     (case mp of
        None \<Rightarrow> Some newprio
      | Some m \<Rightarrow>
          mtx_newprio k (m_next k m)
            (if chMtxQueueNotEmptyS m k \<and> newprio < prio k (hd (queues k (MtxQ m)))
             then prio k (hd (queues k (MtxQ m))) else newprio))"

text \<open>The first waiting thread becomes the owner.\<close>

definition mtx_handover :: "nat \<Rightarrow> kernel \<Rightarrow> tid \<times> kernel" where
  "mtx_handover ump k =
     (case fifo_remove (MtxQ ump) k of
        (tp, k1) \<Rightarrow>
          (tp, upd_thr tp (\<lambda>r. r\<lparr>p_mtxlist := Some ump\<rparr>)
                 (set_mtx ump (Some tp) (p_mtxlist (thr k1 tp)) k1)))"

definition mtx_free :: "nat \<Rightarrow> kernel \<Rightarrow> kernel" where
  "mtx_free ump k = k\<lparr>m_owner := (m_owner k)(ump := None)\<rparr>"

definition mtx_pop :: "nat \<Rightarrow> kernel \<Rightarrow> kernel" where
  "mtx_pop ump k = upd_thr (currp k) (\<lambda>r. r\<lparr>p_mtxlist := m_next k ump\<rparr>) k"

definition chMtxUnlock :: "kernel \<Rightarrow> nat step" where
  "chMtxUnlock k =
     (let ctp = currp k
      in case p_mtxlist (thr k ctp) of
           None \<Rightarrow> Hang
         | Some ump \<Rightarrow>
             (let k1 = mtx_pop ump k
              in if chMtxQueueNotEmptyS ump k1 then
                   (case mtx_newprio k1 (p_mtxlist (thr k1 ctp)) (p_realprio (thr k1 ctp)) of
                      None \<Rightarrow> Hang
                    | Some newprio \<Rightarrow>
                        (let k2 = upd_thr ctp (\<lambda>r. r\<lparr>p_prio := newprio\<rparr>) k1
                         in case mtx_handover ump k2 of
                              (tp, k3) \<Rightarrow> bind (chSchWakeupS tp RDY_OK k3) (\<lambda>_. Ret ump)))
                 else Ret ump (mtx_free ump k1)))"

definition chMtxUnlockS :: "kernel \<Rightarrow> (nat \<times> kernel) option" where
  "chMtxUnlockS k =
     (let ctp = currp k
      in case p_mtxlist (thr k ctp) of
           None \<Rightarrow> None
         | Some ump \<Rightarrow>
             (let k1 = mtx_pop ump k
              in if chMtxQueueNotEmptyS ump k1 then
                   (case mtx_newprio k1 (p_mtxlist (thr k1 ctp)) (p_realprio (thr k1 ctp)) of
                      None \<Rightarrow> None
                    | Some newprio \<Rightarrow>
                        (let k2 = upd_thr ctp (\<lambda>r. r\<lparr>p_prio := newprio\<rparr>) k1
                         in case mtx_handover ump k2 of (tp, k3) \<Rightarrow> Some (ump, chSchReadyI tp k3)))
                 else Some (ump, mtx_free ump k1)))"

partial_function (option) unlock_all_loop :: "kernel \<Rightarrow> kernel option" where
  "unlock_all_loop k =
     (case p_mtxlist (thr k (currp k)) of
        None \<Rightarrow> Some k
      | Some ump \<Rightarrow>
          (let k1 = mtx_pop ump k
           in unlock_all_loop
                (if chMtxQueueNotEmptyS ump k1
                 then (case mtx_handover ump k1 of (tp, k2) \<Rightarrow> chSchReadyI tp k2)
                 else mtx_free ump k1)))"

definition chMtxUnlockAll :: "kernel \<Rightarrow> unit step" where
  "chMtxUnlockAll k =
     (let ctp = currp k
      in if p_mtxlist (thr k ctp) \<noteq> None then
           (case unlock_all_loop k of
              None \<Rightarrow> Hang
            | Some k1 \<Rightarrow>
                chSchRescheduleS (upd_thr ctp (\<lambda>r. r\<lparr>p_prio := p_realprio r\<rparr>) k1))
         else Ret () k)"

section \<open>Ownership\<close>

lemma mtx_chain_upd [simp]: "m \<notin> set ms \<Longrightarrow> mtx_chain (nx(m := x)) p ms = mtx_chain nx p ms"
  by (induction ms arbitrary: p) auto

lemma mtx_chain_unique: "mtx_chain nx p xs \<Longrightarrow> mtx_chain nx p ys \<Longrightarrow> xs = ys"
  by (induction xs arbitrary: p ys) (metis mtx_chain.simps option.distinct(1) neq_Nil_conv,
    metis mtx_chain.simps option.inject option.distinct(1) neq_Nil_conv)

lemma mtx_okD:
  assumes "mtx_ok k"
  shows "\<exists>ms. owns k t ms" "queues k (MtxQ m) \<noteq> [] \<Longrightarrow> m_owner k m \<noteq> None"
    "m_owner k m = Some t \<Longrightarrow> is_Thd t" "finite {t. state k t = THD_STATE_WTMTX}"
  using assms by (auto simp: mtx_ok_def)

lemma wait_ok_cong:
  assumes "wait_ok k" "\<And>t. p_waiting (thr k' t) = p_waiting (thr k t)"
    "\<And>t. t \<in> waiters k \<Longrightarrow> state k' t = state k t"
  shows "wait_ok k'"
proof -
  have "waiters k' = waiters k" by (simp add: waiters_def assms(2))
  then show ?thesis using assms by (simp add: wait_ok_def)
qed

lemma owns_head:
  assumes "owns k t ms" "p_mtxlist (thr k t) = Some m"
  obtains ns where "ms = m # ns" "mtx_chain (m_next k) (m_next k m) ns" "m \<notin> set ns" "m_owner k m = Some t"
proof -
  obtain ns where ms: "ms = m # ns" using assms by (cases ms) (auto simp: owns_def)
  have "m \<in> set ms" by (simp add: ms)
  then have "m_owner k m = Some t" using assms(1) unfolding owns_def by blast
  then show thesis using that ms assms by (auto simp: owns_def)
qed

lemma mtx_take_links:
  assumes l: "links_ok k" and o: "m_owner k m = None" and c: "is_Thd (currp k)"
  shows "links_ok (mtx_take m k)"
proof -
  let ?k = "mtx_take m k" and ?c = "currp k"
  have f: "thr ?k = (thr k)(?c := (thr k ?c)\<lparr>p_mtxlist := Some m\<rparr>)" "queues ?k = queues k"
    "m_owner ?k = (m_owner k)(m := Some ?c)" "m_next ?k = (m_next k)(m := p_mtxlist (thr k ?c))"
    by (simp_all add: mtx_take_def Let_def set_mtx_def upd_thr_def)
  have mk: "mtx_ok k" "wait_ok k" using l by (simp_all add: links_ok_def)
  have "\<exists>ms. owns ?k t ms" for t
  proof -
    obtain ms where ms: "owns k t ms" using mtx_okD(1)[OF mk(1)] by blast
    have nm: "m \<notin> set ms" using ms o by (auto simp: owns_def)
    show ?thesis
    proof (cases "t = ?c")
      case True
      have "owns ?k t (m # ms)" using ms nm True by (auto simp: owns_def f)
      then show ?thesis ..
    next
      case False
      have "owns ?k t ms" using ms nm False by (auto simp: owns_def f)
      then show ?thesis ..
    qed
  qed
  moreover have "finite {t. state ?k t = THD_STATE_WTMTX}"
  proof -
    have "state ?k t = state k t" for t by (simp add: f)
    then show ?thesis using mtx_okD(4)[OF mk(1)] by simp
  qed
  ultimately have "mtx_ok ?k" using mtx_okD(2,3)[OF mk(1)] c by (auto simp: mtx_ok_def f)
  moreover have "wait_ok ?k" by (rule wait_ok_cong[OF mk(2)]) (simp_all add: f)
  ultimately show ?thesis by (simp add: links_ok_def)
qed

lemma mtx_take_kinv:
  assumes k: "kinv k" and o: "m_owner k m = None"
  shows "kinv (mtx_take m k)" "currp (mtx_take m k) = currp k"
proof -
  have "core {} {currp k} (set_mtx m (Some (currp k)) (p_mtxlist (thr k (currp k))) k)"
    using kinv_core[OF k] by (rule core_cong) (simp_all add: set_mtx_def)
  then have "core {} {currp k} (mtx_take m k)"
    unfolding mtx_take_def Let_def by (rule core_upd_other) auto
  moreover have "hdr_ok (mtx_take m k)" unfolding mtx_take_def Let_def
    by (rule hdr_ok_upd_other) (use kinv_hdr[OF k] in \<open>auto simp: set_mtx_def\<close>)
  moreover have "sem_ok (mtx_take m k)" using kinv_sem[OF k] by (simp add: mtx_take_def Let_def set_mtx_def)
  moreover show "currp (mtx_take m k) = currp k" by (simp add: mtx_take_def Let_def set_mtx_def)
  ultimately show "kinv (mtx_take m k)" using mtx_take_links[OF kinv_links[OF k] o kinv_currp[OF k]]
    by (intro kinvI) auto
qed

section \<open>Priority inheritance\<close>

text \<open>The owner of a mutex has at least the priority of the threads waiting for it.\<close>

definition pi_ok :: "kernel \<Rightarrow> bool" where
  "pi_ok k \<longleftrightarrow> (\<forall>m t. m_owner k m = Some t \<longrightarrow> (\<forall>u \<in> set (queues k (MtxQ m)). prio k u \<le> prio k t))"

abbreviation raise :: "tid \<Rightarrow> nat \<Rightarrow> kernel \<Rightarrow> kernel" where
  "raise t p \<equiv> upd_thr t (\<lambda>r. r\<lparr>p_prio := p\<rparr>)"

lemma dequeue_upd: "dequeue t (upd_thr u f k) = upd_thr u f (dequeue t k)"
  by (simp add: dequeue_def upd_thr_def)

lemma home_queue_state: "waits_in st u = Some q \<Longrightarrow> st \<noteq> THD_STATE_WTEXIT"
  by (cases u) auto

lemma raised_out:
  assumes k: "klists k" and h: "home k t = Some q"
  shows "core {t} {currp k} (dequeue t (raise t p k))" "hdr_ok (dequeue t (raise t p k))"
    "links_ok (dequeue t (raise t p k))" "t \<noteq> currp k" "is_Thd t" "t \<notin> waiters k" "t \<in> set (queues k q)"
proof -
  have c: "core {} {currp k} k" and hd: "hdr_ok k" and l: "links_ok k" using k by (auto simp: klists_def)
  show mem: "t \<in> set (queues k q)" using core_mem[OF c] h by simp
  show th: "is_Thd t" by (rule queued_is_Thd[OF hd c mem])
  show tc: "t \<noteq> currp k" using currp_not_in[OF c, of q] mem by auto
  show "t \<notin> waiters k" using not_waiter[OF l] home_queue_state[OF h] by blast
  have "core {t} {currp k} (dequeue t k)" using core_dequeue[OF c] tc by simp
  then show "core {t} {currp k} (dequeue t (raise t p k))" by (simp add: dequeue_upd core_upd)
  show "hdr_ok (dequeue t (raise t p k))" using hd th by simp
  have "links_ok (raise t p k)" using l by (rule links_ok_upd) auto
  then show "links_ok (dequeue t (raise t p k))" by simp
qed

lemma raise_requeue:
  assumes k: "klists k" and h: "home k t = Some q" and q: "by_prio q" "q \<noteq> RListQ"
  shows "klists (prio_insert t q (dequeue t (raise t p k)))"
proof -
  let ?k1 = "dequeue t (raise t p k)"
  note r = raised_out(1-3)[OF k h, of p] raised_out(4-7)[OF k h]
  have h1: "home ?k1 t = Some q" using h by simp
  have nin: "t \<notin> set (queues ?k1 q)" using core_mem[OF r(1), of t q] by simp
  have i: "t \<noteq> idle_thread"
  proof
    assume "t = idle_thread"
    then have "state k idle_thread \<in> {THD_STATE_READY, THD_STATE_CURRENT}"
      using k core_idle[of "{}" "{currp k}" k] by (simp add: klists_def)
    then show False using h q \<open>t = idle_thread\<close> by auto
  qed
  have "core ({t} - {t}) {currp k} (set_queue q (prio_ins (prio ?k1) t (queues ?k1 q)) ?k1)"
    by (rule core_put[OF r(1)])
      (use h1 r(4) nin core_distinct[OF r(1), of q] core_sorted[OF r(1) q(1)] i in auto)
  moreover have "links_ok (prio_insert t q ?k1)"
  proof -
    have ne: "queues k q \<noteq> []" using r(7) by auto
    have "links_ok (raise t p k)" using k by (intro links_ok_upd) (auto simp: klists_def)
    then show ?thesis
      by (rule links_ok_shrink) (use ne in \<open>auto simp: prio_insert_def set_queue_def dequeue_def\<close>)
  qed
  ultimately show ?thesis using r(2) by (simp add: klists_def prio_insert_def)
qed

lemma raise_ready:
  assumes k: "klists k" and st: "state k t = THD_STATE_READY"
  shows "klists (chSchReadyI t (dequeue t (raise t p k)))"
proof -
  have "home k t = Some RListQ" using st by simp
  note r = raised_out(1-3)[OF k this, of p] raised_out(4-7)[OF k this]
  show ?thesis using chSchReadyI_core[OF r(1), of t] r by (simp add: klists_def)
qed

lemma core_reprio:
  assumes c: "core X C k" and h: "\<And>q. by_prio q \<Longrightarrow> t \<notin> set (queues k q)"
  shows "core X C (raise t p k)"
proof (rule coreI)
  fix q
  show "distinct (queues (raise t p k) q)" using core_distinct[OF c] by simp
  show "prio_sorted (prio (raise t p k)) (queues (raise t p k) q)" if "by_prio q"
    using core_sorted[OF c that] h[OF that] by (simp add: upd_thr_def prio_sorted_upd)
next
  have same: "state (raise t p k) u = state k u" "p_u (thr (raise t p k) u) = p_u (thr k u)" for u
    by (simp_all add: upd_thr_def)
  fix u q
  show "u \<in> set (queues (raise t p k) q) \<longleftrightarrow> u \<notin> X \<and> home (raise t p k) u = Some q"
    using core_mem[OF c] by (simp add: same)
  show "u \<notin> X \<Longrightarrow> state (raise t p k) u = THD_STATE_CURRENT \<longleftrightarrow> u \<in> C"
    using core_current[OF c] by (simp add: same)
  show "u \<notin> X \<Longrightarrow> queue_state (state (raise t p k) u) \<Longrightarrow> home (raise t p k) u \<noteq> None"
    using core_queued[OF c] unfolding same .
  show "idle_thread \<notin> X \<Longrightarrow> state (raise t p k) idle_thread \<in> {THD_STATE_READY, THD_STATE_CURRENT}"
    using core_idle[OF c] by (simp add: same)
qed

lemma raise_only:
  assumes k: "klists k" and th: "is_Thd t" and h: "\<And>q. home k t = Some q \<Longrightarrow> \<not> by_prio q"
  shows "klists (raise t p k)"
proof -
  have c: "core {} {currp k} k" and hd: "hdr_ok k" and l: "links_ok k" using k by (auto simp: klists_def)
  have "core {} {currp k} (raise t p k)" using core_reprio[OF c, of t p] core_mem[OF c] h by auto
  moreover have "links_ok (raise t p k)" using l by (rule links_ok_upd) auto
  ultimately show ?thesis using hd th by (simp add: klists_def)
qed

text \<open>What one step of the inheritance loop leaves unchanged.\<close>

definition same_but_prio :: "kernel \<Rightarrow> kernel \<Rightarrow> bool" where
  "same_but_prio k k' \<longleftrightarrow>
     (\<forall>t. thr k' t = (thr k t)\<lparr>p_prio := prio k' t\<rparr>) \<and> (\<forall>q. set (queues k' q) = set (queues k q))
     \<and> (\<forall>q. \<not> by_prio q \<longrightarrow> queues k' q = queues k q)
     \<and> currp k' = currp k \<and> s_cnt k' = s_cnt k \<and> m_owner k' = m_owner k \<and> m_next k' = m_next k"

lemma same_but_prio_refl [simp]: "same_but_prio k k"
  by (simp add: same_but_prio_def)

lemma same_but_prio_trans: "same_but_prio k1 k2 \<Longrightarrow> same_but_prio k2 k3 \<Longrightarrow> same_but_prio k1 k3"
  unfolding same_but_prio_def by (metis thread.update_convs(1) thread.surjective)

lemma same_sem_ok: "same_but_prio k k' \<Longrightarrow> sem_ok k \<Longrightarrow> sem_ok k'"
  by (simp add: same_but_prio_def sem_ok_def)

lemma raise_requeue_same:
  fixes p :: nat
  assumes k: "klists k" and h: "home k t = Some q" and q: "by_prio q" "q \<noteq> RListQ"
  defines "k' \<equiv> prio_insert t q (dequeue t (raise t p k))"
  shows "same_but_prio k k'" "prio k' u = (if u = t then p else prio k u)"
proof -
  have c: "core {} {currp k} k" using k by (simp add: klists_def)
  have o: "t \<notin> set (queues k r)" if "r \<noteq> q" for r using that core_mem[OF c] h by simp
  have "t \<in> set (queues k q)" using core_mem[OF c] h by simp
  then show "same_but_prio k k'"
    using o core_distinct[OF c] q
    by (auto simp: same_but_prio_def k'_def prio_insert_def set_queue_def dequeue_def upd_thr_def remove1_idem)
  show "prio k' u = (if u = t then p else prio k u)" by (simp add: k'_def prio_insert_def upd_thr_def)
qed

lemma raise_ready_same:
  fixes p :: nat
  assumes k: "klists k" and st: "state k t = THD_STATE_READY"
  defines "k' \<equiv> chSchReadyI t (dequeue t (raise t p k))"
  shows "same_but_prio k k'" "prio k' u = (if u = t then p else prio k u)"
proof -
  have c: "core {} {currp k} k" using k by (simp add: klists_def)
  have o: "t \<notin> set (queues k r)" if "r \<noteq> RListQ" for r using that core_mem[OF c] st by simp
  have m: "t \<in> set (ready k)" using core_mem[OF c] st by simp
  have q: "queues k' r = (if r = RListQ then prio_ins (prio (dequeue t (raise t p k))) t (remove1 t (ready k))
      else queues k r)" for r
    using o by (auto simp: k'_def queues_chSchReadyI remove1_idem)
  have t: "thr k' u = (thr k u)\<lparr>p_prio := if u = t then p else prio k u\<rparr>" for u
    using st by (cases "thr k t") (auto simp: k'_def chSchReadyI_def Let_def set_state_def upd_thr_def set_queue_def)
  show "prio k' u = (if u = t then p else prio k u)" by (simp add: t)
  have "set (queues k' r) = set (queues k r)" for r
    using m core_distinct[OF c, of RListQ] by (auto simp: q)
  moreover have "queues k' r = queues k r" if "\<not> by_prio r" for r using that by (cases r) (auto simp: q)
  ultimately show "same_but_prio k k'" unfolding same_but_prio_def
    by (simp add: t) (simp add: k'_def)
qed

lemma raise_same: "same_but_prio k (raise t p k)" "prio (raise t p k) u = (if u = t then p else prio k u)"
  by (simp_all add: same_but_prio_def upd_thr_def)

lemma kinv_mtx_ok: "kinv k \<Longrightarrow> mtx_ok k"
  by (simp add: kinv_def links_ok_def)

text \<open>
  The loop ends, because each owner it meets that waits itself is raised to \<open>p\<close> and
  never met again below \<open>p\<close>; at the end every owner has the priority of its waiters.
\<close>

definition pi_at :: "tid \<Rightarrow> nat \<Rightarrow> kernel \<Rightarrow> bool" where
  "pi_at tp p k \<longleftrightarrow> (\<forall>m t u. m_owner k m = Some t \<longrightarrow> u \<in> set (queues k (MtxQ m)) \<longrightarrow>
     prio k u \<le> (if t = tp then max p (prio k t) else prio k t))"

lemma pi_ok_at: "pi_ok k \<Longrightarrow> pi_at tp p k"
  by (fastforce simp: pi_ok_def pi_at_def)

lemma mtx_boost_spec:
  assumes "kinv k" "is_Thd tp"
  shows "\<exists>k'. mtx_boost p tp k = Some k' \<and> kinv k' \<and> same_but_prio k k' \<and> (pi_at tp p k \<longrightarrow> pi_ok k') \<and> p \<le> prio k' tp
     \<and> (\<forall>t. prio k t \<le> prio k' t \<and> prio k' t \<le> max p (prio k t))"
  using assms
proof (induction "card {t. state k t = THD_STATE_WTMTX \<and> prio k t < p}" arbitrary: k tp rule: less_induct)
  case less
  note k = less.prems(1) and th = less.prems(2)
  have kl: "klists k" and sem: "sem_ok k" using k by (simp_all add: kinv_klists)
  show ?case
  proof (cases "prio k tp < p")
    case False
    then have "mtx_boost p tp k = Some k" by (subst mtx_boost.simps) simp
    moreover have "pi_at tp p k \<longrightarrow> pi_ok k" using False
      by (fastforce simp: pi_ok_def pi_at_def max_def split: if_splits)
    ultimately show ?thesis using False k by auto
  next
    case True
    have stop: "\<exists>k'. Some k1 = Some k' \<and> kinv k' \<and> same_but_prio k k' \<and> (pi_at tp p k \<longrightarrow> pi_ok k') \<and> p \<le> prio k' tp
        \<and> (\<forall>t. prio k t \<le> prio k' t \<and> prio k' t \<le> max p (prio k t))"
      if 1: "klists k1" "same_but_prio k k1" "\<And>u. prio k1 u = (if u = tp then p else prio k u)"
        and 2: "state k tp \<noteq> THD_STATE_WTMTX" for k1
    proof (intro exI conjI)
      show "kinv k1" using 1 same_sem_ok[OF _ sem] by (simp add: kinv_klists)
      show "pi_at tp p k \<longrightarrow> pi_ok k1" unfolding pi_ok_def
      proof (intro allI impI ballI)
        fix m t u assume pi: "pi_at tp p k" and o: "m_owner k1 m = Some t" and u: "u \<in> set (queues k1 (MtxQ m))"
        have u': "u \<in> set (queues k (MtxQ m))" "m_owner k m = Some t" using 1 o u by (auto simp: same_but_prio_def)
        have "home k u = Some (MtxQ m)" using kinv_mem[OF k] u' by simp
        then have "state k u = THD_STATE_WTMTX" by (cases "(state k u, p_u (thr k u))" rule: waits_in.cases) auto
        then have "u \<noteq> tp" using 2 by auto
        then show "prio k1 u \<le> prio k1 t" using pi u' True by (auto simp: 1(3) pi_at_def split: if_splits)
      qed
      show "\<forall>t. prio k t \<le> prio k1 t \<and> prio k1 t \<le> max p (prio k t)" using True by (auto simp: 1(3))
    qed (use 1 in auto)
    show ?thesis
    proof (cases "state k tp = THD_STATE_WTMTX")
      case False
      have "\<exists>k1. mtx_boost p tp k = Some k1 \<and> klists k1 \<and> same_but_prio k k1
          \<and> (\<forall>u. prio k1 u = (if u = tp then p else prio k u))"
      proof (cases "state k tp = THD_STATE_READY")
        case r: True
        then have "mtx_boost p tp k = Some (chSchReadyI tp (dequeue tp (raise tp p k)))"
          using True by (subst mtx_boost.simps) (simp add: Let_def)
        then show ?thesis using raise_ready[OF kl r] raise_ready_same[OF kl r] by blast
      next
        case nr: False
        show ?thesis
        proof (cases "state k tp = THD_STATE_WTCOND")
          case c: True
          then obtain q where h: "home k tp = Some q" using kinv_queued[OF k, of tp] by auto
          then obtain i where u: "p_u (thr k tp) = U_wtobjp (CondQ i)" "q = CondQ i" unfolding c
            by (cases "(THD_STATE_WTCOND, p_u (thr k tp))" rule: waits_in.cases) auto
          have "mtx_boost p tp k = Some (prio_insert tp q (dequeue tp (raise tp p k)))"
            using True c u by (subst mtx_boost.simps) (simp add: Let_def)
          then show ?thesis using raise_requeue[OF kl h] raise_requeue_same[OF kl h] u(2) by auto
        next
          case nc: False
          have "mtx_boost p tp k = Some (raise tp p k)"
            using True False nr nc by (subst mtx_boost.simps) (simp add: Let_def split: tstate.split)
          moreover have "home k tp = Some q \<Longrightarrow> \<not> by_prio q" for q
            using False nr nc by (cases "(state k tp, p_u (thr k tp))" rule: waits_in.cases) auto
          then have "klists (raise tp p k)" by (rule raise_only[OF kl th])
          ultimately show ?thesis using raise_same by blast
        qed
      qed
      then show ?thesis using stop False by metis
    next
      case w: True
      then obtain q where h: "home k tp = Some q" using kinv_queued[OF k, of tp] by auto
      then obtain m where u: "p_u (thr k tp) = U_wtobjp (MtxQ m)" "q = MtxQ m" unfolding w
        by (cases "(THD_STATE_WTMTX, p_u (thr k tp))" rule: waits_in.cases) auto
      define k2 where "k2 = prio_insert tp q (dequeue tp (raise tp p k))"
      have k2: "klists k2" "same_but_prio k k2" "\<And>u. prio k2 u = (if u = tp then p else prio k u)"
        using raise_requeue[OF kl h, of p] raise_requeue_same[OF kl h, of p] u(2) by (simp_all add: k2_def)
      have inq: "tp \<in> set (queues k (MtxQ m))" using kinv_mem[OF k] h u by simp
      then obtain ow where ow: "m_owner k m = Some ow" "is_Thd ow"
        using mtx_okD(2,3)[OF kinv_mtx_ok[OF k]] by force
      have "m_owner k2 m = Some ow" using k2 ow by (simp add: same_but_prio_def)
      then have step: "mtx_boost p tp k = mtx_boost p ow k2"
        using True w u by (subst mtx_boost.simps) (simp add: Let_def k2_def)
      have inv2: "kinv k2" using k2 same_sem_ok[OF _ sem] by (simp add: kinv_klists)
      have st2: "state k2 t = state k t" for t using k2(2) by (simp add: same_but_prio_def) (metis thread.select_convs(2) thread.surjective thread.update_convs(1))
      have "{t. state k2 t = THD_STATE_WTMTX \<and> prio k2 t < p} \<subset> {t. state k t = THD_STATE_WTMTX \<and> prio k t < p}"
        using True w by (auto simp: st2 k2(3))
      moreover have "finite {t. state k t = THD_STATE_WTMTX \<and> prio k t < p}"
        by (rule finite_subset[OF _ mtx_okD(4)[OF kinv_mtx_ok[OF k]]]) auto
      ultimately have small: "card {t. state k2 t = THD_STATE_WTMTX \<and> prio k2 t < p}
          < card {t. state k t = THD_STATE_WTMTX \<and> prio k t < p}" by (rule psubset_card_mono[rotated])
      have pi2: "prio k2 v \<le> (if t = ow then max p (prio k2 t) else prio k2 t)"
        if pi: "pi_at tp p k" and o: "m_owner k2 n = Some t" and v: "v \<in> set (queues k2 (MtxQ n))" for n t v
      proof -
        have v': "v \<in> set (queues k (MtxQ n))" "m_owner k n = Some t" using k2(2) o v by (auto simp: same_but_prio_def)
        show ?thesis
        proof (cases "v = tp")
          case vt: True
          then have "home k tp = Some (MtxQ n)" using kinv_mem[OF k] v' by simp
          then have "n = m" using h u by simp
          then show ?thesis using v' ow vt by (simp add: k2(3))
        next
          case False
          moreover have "prio k v \<le> (if t = tp then max p (prio k t) else prio k t)"
            using pi v' unfolding pi_at_def by blast
          ultimately show ?thesis using True by (auto simp: k2(3) max_def split: if_splits)
        qed
      qed
      obtain k' where k': "mtx_boost p ow k2 = Some k'" "kinv k'" "same_but_prio k2 k'" "pi_at ow p k2 \<longrightarrow> pi_ok k'"
          "\<And>t. prio k2 t \<le> prio k' t \<and> prio k' t \<le> max p (prio k2 t)"
        using less.hyps[OF small inv2 ow(2)] by blast
      have pi3: "pi_at tp p k \<longrightarrow> pi_ok k'" using pi2 k'(4) by (simp add: pi_at_def)
      have b: "prio k t \<le> prio k' t \<and> prio k' t \<le> max p (prio k t)" for t
        using k'(5)[of t] True by (auto simp: k2(3) split: if_splits)
      have "p \<le> prio k' tp" using k'(5)[of tp] by (simp add: k2(3))
      then show ?thesis using step k' same_but_prio_trans[OF k2(2) k'(3)] b pi3 by auto
    qed
  qed
qed

section \<open>Locking\<close>

lemma same_prio_currp: "same_but_prio k k' \<Longrightarrow> currp k' = currp k"
  by (simp add: same_but_prio_def)

lemma can_sleep_mtx:
  assumes r: "resumed k" and o: "m_owner k m \<noteq> None"
  shows "can_sleep THD_STATE_WTMTX (set_u (currp k) (U_wtobjp (MtxQ m)) (prio_insert (currp k) (MtxQ m) k))"
proof -
  have "can_sleep THD_STATE_WTMTX (prio_insert (currp k) (MtxQ m) (set_u (currp k) (U_wtobjp (MtxQ m)) k))"
    using resumedD[OF r] o by (intro can_sleep_prio) auto
  moreover have "prio (set_u (currp k) u k) = prio k" for u by (rule ext) simp
  moreover have "set_u t u (set_queue q xs k) = set_queue q xs (set_u t u k)" for t u q xs
    by (simp add: kernel_defs)
  ultimately show ?thesis by (simp add: prio_insert_def)
qed

lemma mtx_boost_owner:
  assumes k: "kinv k" and o: "m_owner k m = Some tp"
  shows "\<exists>k1. mtx_boost p tp k = Some k1 \<and> kinv k1 \<and> same_but_prio k k1 \<and> (pi_ok k \<longrightarrow> pi_ok k1)
    \<and> p \<le> prio k1 tp \<and> (\<forall>t. prio k t \<le> prio k1 t \<and> prio k1 t \<le> max p (prio k t))"
  using mtx_boost_spec[OF k, of tp p] mtx_okD(3)[OF kinv_mtx_ok[OF k] o] pi_ok_at[of k tp p] by blast

lemma chMtxLockS_free: "m_owner k m = None \<Longrightarrow> chMtxLockS m k = Ret () (mtx_take m k)"
  by (simp add: chMtxLockS_def)

lemma chMtxLockS_safe [inv_intros]:
  assumes r: "resumed k"
  shows "safe (chMtxLockS m k)"
proof (cases "m_owner k m")
  case None
  then show ?thesis using mtx_take_kinv resumedD[OF r] by (simp add: chMtxLockS_free)
next
  case (Some tp)
  obtain k1 where k1: "mtx_boost (prio k (currp k)) tp k = Some k1" "kinv k1" "same_but_prio k k1"
    using mtx_boost_owner[OF resumedD(1)[OF r] Some, of "prio k (currp k)"] by blast
  then have c: "currp k1 = currp k" "m_owner k1 m \<noteq> None" using Some by (auto simp: same_but_prio_def)
  have "resumed k1" using k1 c resumedD[OF r] by (simp add: resumed_def)
  from chSchGoSleepS_safe[OF can_sleep_mtx[OF this c(2)]]
  show ?thesis using Some k1 c by (simp add: chMtxLockS_def Let_def)
qed

lemma chMtxTryLockS_kinv: "kinv k \<Longrightarrow> kinv (snd (chMtxTryLockS m k))"
  by (simp add: chMtxTryLockS_def mtx_take_kinv)

lemma pi_ok_take:
  assumes k: "kinv k" and p: "pi_ok k" and o: "m_owner k m = None"
  shows "pi_ok (mtx_take m k)"
proof -
  have e: "queues k (MtxQ m) = []" using mtx_okD(2)[OF kinv_mtx_ok[OF k]] o by force
  have f: "prio (mtx_take m k) t = prio k t" "queues (mtx_take m k) = queues k"
    "m_owner (mtx_take m k) = (m_owner k)(m := Some (currp k))" for t
    by (simp_all add: mtx_take_def Let_def set_mtx_def upd_thr_def)
  show ?thesis using p e by (auto simp: pi_ok_def f)
qed

text \<open>When the lock is taken, the running thread waits behind owners raised to its priority.\<close>

lemma go_sleep_fields:
  "prio (go_sleep st k) t = prio k t" "m_owner (go_sleep st k) = m_owner k"
  "q \<noteq> RListQ \<Longrightarrow> queues (go_sleep st k) q = queues k q"
  by (simp_all add: go_sleep_def fifo_remove_def Let_def split: list.split)

lemma chMtxLockS_contended:
  assumes r: "resumed k" and o: "m_owner k m = Some tp"
  obtains k' where "chMtxLockS m k = Switch k' (Ret ())" "kinv k'" "pi_ok k \<longrightarrow> pi_ok k'"
    "prio k (currp k) \<le> prio k' tp" "currp k \<in> set (queues k' (MtxQ m))" "m_owner k' = m_owner k"
    "\<And>t. prio k t \<le> prio k' t \<and> prio k' t \<le> max (prio k (currp k)) (prio k t)"
proof -
  let ?c = "currp k"
  obtain k1 where k1: "mtx_boost (prio k ?c) tp k = Some k1" "kinv k1" "same_but_prio k k1"
      "pi_ok k \<longrightarrow> pi_ok k1" "prio k ?c \<le> prio k1 tp"
      "\<And>t. prio k t \<le> prio k1 t \<and> prio k1 t \<le> max (prio k ?c) (prio k t)"
    using mtx_boost_owner[OF resumedD(1)[OF r] o, of "prio k ?c"] by blast
  have c: "currp k1 = ?c" "m_owner k1 = m_owner k" using k1(3) by (auto simp: same_but_prio_def)
  define k3 where "k3 = set_u ?c (U_wtobjp (MtxQ m)) (prio_insert ?c (MtxQ m) k1)"
  have "resumed k1" using k1 c resumedD[OF r] by (simp add: resumed_def)
  from can_sleep_mtx[OF this, of m] have cs: "can_sleep THD_STATE_WTMTX k3" using c o by (simp add: k3_def)
  have f3: "prio k3 t = prio k1 t" "m_owner k3 = m_owner k"
    "queues k3 q = (if q = MtxQ m then prio_ins (prio k1) ?c (queues k1 (MtxQ m)) else queues k1 q)" for t q
    using c by (simp_all add: k3_def prio_insert_def)
  have "chMtxLockS m k = Switch (go_sleep THD_STATE_WTMTX k3) (Ret ())"
    using o k1 by (simp add: chMtxLockS_def chSchGoSleepS_def Let_def k3_def)
  moreover have "kinv (go_sleep THD_STATE_WTMTX k3)"
    using cs by (intro go_sleep_kinv) (auto simp: can_sleep_def)
  moreover have "pi_ok k \<longrightarrow> pi_ok (go_sleep THD_STATE_WTMTX k3)"
  proof
    assume "pi_ok k"
    then have p1: "pi_ok k1" using k1 by blast
    have cp: "prio k1 ?c = prio k ?c" using k1(6)[of ?c] by simp
    show "pi_ok (go_sleep THD_STATE_WTMTX k3)" unfolding pi_ok_def
    proof (intro allI impI ballI)
      fix n t u
      assume "m_owner (go_sleep THD_STATE_WTMTX k3) n = Some t"
        and "u \<in> set (queues (go_sleep THD_STATE_WTMTX k3) (MtxQ n))"
      then have n: "m_owner k n = Some t" and u: "u \<in> set (queues k3 (MtxQ n))"
        by (simp_all add: go_sleep_fields f3(2))
      have "u \<in> set (queues k1 (MtxQ n)) \<or> n = m \<and> u = ?c" using u by (auto simp: f3(3) split: if_splits)
      then have "prio k1 u \<le> prio k1 t"
      proof
        assume "u \<in> set (queues k1 (MtxQ n))"
        moreover have "m_owner k1 n = Some t" using n unfolding c(2) .
        ultimately show ?thesis using p1 unfolding pi_ok_def by blast
      next
        assume e: "n = m \<and> u = ?c"
        then have "t = tp" using n o by simp
        then show ?thesis using e cp k1(5) by simp
      qed
      then show "prio (go_sleep THD_STATE_WTMTX k3) u \<le> prio (go_sleep THD_STATE_WTMTX k3) t"
        unfolding go_sleep_fields(1) f3(1) .
    qed
  qed
  moreover have "currp k \<in> set (queues (go_sleep THD_STATE_WTMTX k3) (MtxQ m))"
    by (simp add: go_sleep_fields(3) f3(3))
  moreover have pr: "prio (go_sleep THD_STATE_WTMTX k3) t = prio k1 t" for t
    unfolding go_sleep_fields(1) f3(1) ..
  moreover have "m_owner (go_sleep THD_STATE_WTMTX k3) = m_owner k" unfolding go_sleep_fields(2) f3(2) ..
  ultimately show thesis using k1(5,6) by (intro that[of "go_sleep THD_STATE_WTMTX k3"]) (simp_all only: pr)
qed

section \<open>Unlocking\<close>

text \<open>The priority an unlocking thread goes back to.\<close>

definition heir_prio :: "kernel \<Rightarrow> nat \<Rightarrow> nat" where
  "heir_prio k m = (case queues k (MtxQ m) of [] \<Rightarrow> 0 | t # _ \<Rightarrow> prio k t)"

lemma mtx_newprio_chain:
  assumes "mtx_chain (m_next k) p ms"
  shows "mtx_newprio k p np = Some (Max (insert np (heir_prio k ` set ms)))"
  using assms
proof (induction ms arbitrary: p np)
  case Nil
  then show ?case by (subst mtx_newprio.simps) simp
next
  case (Cons m ms)
  let ?np = "if chMtxQueueNotEmptyS m k \<and> np < prio k (hd (queues k (MtxQ m)))
             then prio k (hd (queues k (MtxQ m))) else np"
  have h: "?np = max np (heir_prio k m)"
    by (cases "queues k (MtxQ m)") (auto simp: chMtxQueueNotEmptyS_def notempty_def heir_prio_def)
  have "mtx_newprio k p np = mtx_newprio k (m_next k m) ?np"
    using Cons.prems by (subst mtx_newprio.simps) simp
  also have "\<dots> = Some (Max (insert (max np (heir_prio k m)) (heir_prio k ` set ms)))"
    unfolding h using Cons by simp
  also have "Max (insert (max np (heir_prio k m)) (heir_prio k ` set ms))
      = Max (insert np (heir_prio k ` set (m # ms)))"
    by (cases "set ms = {}") (auto simp: max.assoc)
  finally show ?case .
qed

lemma heir_prio_upd [simp]: "(\<And>r. p_prio (f r) = p_prio r) \<Longrightarrow> heir_prio (upd_thr t f k) m = heir_prio k m"
  by (simp add: heir_prio_def upd_thr_def split: list.split)

lemma mtx_pop_fields [simp]:
  "queues (mtx_pop m k) = queues k" "currp (mtx_pop m k) = currp k" "m_owner (mtx_pop m k) = m_owner k"
  "m_next (mtx_pop m k) = m_next k" "s_cnt (mtx_pop m k) = s_cnt k"
  "prio (mtx_pop m k) t = prio k t" "state (mtx_pop m k) t = state k t"
  "p_realprio (thr (mtx_pop m k) t) = p_realprio (thr k t)"
  "heir_prio (mtx_pop m k) n = heir_prio k n"
  by (simp_all add: mtx_pop_def upd_thr_def heir_prio_def split: list.split)

lemma mtx_pop_mtxlist:
  "p_mtxlist (thr (mtx_pop m k) t) = (if t = currp k then m_next k m else p_mtxlist (thr k t))"
  by (simp add: mtx_pop_def upd_thr_def)

text \<open>
  Everything but the ownership of \<open>m\<close>: the state between taking \<open>m\<close> off the running
  thread's list and giving it to its new owner, or to nobody.
\<close>

definition mid :: "kernel \<Rightarrow> kernel \<Rightarrow> nat \<Rightarrow> bool" where
  "mid k k1 m \<longleftrightarrow> (\<forall>t. \<exists>ms. mtx_chain (m_next k1) (p_mtxlist (thr k1 t)) ms \<and> distinct ms
        \<and> (\<forall>n. n \<in> set ms \<longleftrightarrow> m_owner k n = Some t \<and> n \<noteq> m))
     \<and> core {} {currp k} k1 \<and> hdr_ok k1 \<and> wait_ok k1 \<and> sem_ok k1 \<and> queues k1 = queues k
     \<and> currp k1 = currp k \<and> m_owner k1 = m_owner k \<and> finite {t. state k1 t = THD_STATE_WTMTX}"

lemma mid_pop:
  assumes k: "kinv k" and p: "p_mtxlist (thr k (currp k)) = Some m"
  shows "mid k (mtx_pop m k) m"
proof -
  note mk = kinv_mtx_ok[OF k]
  have "\<exists>ms. mtx_chain (m_next k) (p_mtxlist (thr (mtx_pop m k) t)) ms \<and> distinct ms
        \<and> (\<forall>n. n \<in> set ms \<longleftrightarrow> m_owner k n = Some t \<and> n \<noteq> m)" for t
  proof -
    obtain ms where ms: "owns k t ms" using mtx_okD(1)[OF mk] by blast
    show ?thesis
    proof (cases "t = currp k")
      case True
      with ms p obtain ns where "ms = m # ns" "mtx_chain (m_next k) (m_next k m) ns" "m \<notin> set ns"
        by (auto elim: owns_head)
      then show ?thesis using ms True by (auto simp: owns_def mtx_pop_mtxlist intro!: exI[of _ ns])
    next
      case False
      obtain cs where cs: "owns k (currp k) cs" using mtx_okD(1)[OF mk] by blast
      then have "m_owner k m = Some (currp k)" using p by (auto elim: owns_head)
      then show ?thesis using ms False by (auto simp: owns_def mtx_pop_mtxlist intro!: exI[of _ ms])
    qed
  qed
  moreover have "core {} {currp k} (mtx_pop m k)" unfolding mtx_pop_def
    by (rule core_upd_other) (auto simp: kinv_core[OF k])
  moreover have "hdr_ok (mtx_pop m k)" using kinv_hdr[OF k] kinv_currp[OF k] by (simp add: mtx_pop_def)
  moreover have "wait_ok (mtx_pop m k)"
    using kinv_links[OF k] by (auto simp: links_ok_def mtx_pop_def upd_thr_def intro: wait_ok_cong)
  moreover have "sem_ok (mtx_pop m k)" using kinv_sem[OF k] by (simp add: mtx_pop_def)
  moreover have "finite {t. state (mtx_pop m k) t = THD_STATE_WTMTX}" using mtx_okD(4)[OF mk] by simp
  ultimately show ?thesis by (simp add: mid_def)
qed

lemma mid_raise:
  assumes m: "mid k k1 m" and c: "is_Thd (currp k)"
  shows "mid k (raise (currp k) p k1) m"
proof -
  have core: "core {} {currp k1} k1" using m by (simp add: mid_def)
  have "core {} {currp k} (raise (currp k) p k1)"
    using core_reprio[OF core, of "currp k" p] currp_not_in[OF core] m by (simp add: mid_def)
  moreover have "wait_ok (raise (currp k) p k1)"
    by (rule wait_ok_cong[of k1]) (use m in \<open>auto simp: mid_def upd_thr_def\<close>)
  moreover have "finite {t. state (raise (currp k) p k1) t = THD_STATE_WTMTX}"
    using m finite_state_upd[of k1] by (simp add: mid_def)
  moreover have "p_mtxlist (thr (raise (currp k) p k1) t) = p_mtxlist (thr k1 t)" for t
    by (simp add: upd_thr_def)
  ultimately show ?thesis using m c unfolding mid_def by simp
qed

lemma mid_free:
  assumes k: "kinv k" and m: "mid k k1 m" and e: "queues k (MtxQ m) = []"
  shows "kinv (mtx_free m k1)"
proof (rule kinvI)
  let ?k = "mtx_free m k1"
  have f: "thr ?k = thr k1" "queues ?k = queues k1" "currp ?k = currp k1" "s_cnt ?k = s_cnt k1"
    "m_owner ?k = (m_owner k1)(m := None)" "m_next ?k = m_next k1" by (simp_all add: mtx_free_def)
  have "core {} {currp k} k1" "hdr_ok k1" "sem_ok k1" using m by (simp_all add: mid_def)
  then show "core {} {currp ?k} ?k" "sem_ok ?k" "hdr_ok ?k"
    using m by (auto simp: mid_def sem_ok_def hdr_ok_def f intro: core_cong)
  have "\<exists>ms. owns ?k t ms" for t
  proof -
    from m obtain ms where "mtx_chain (m_next k1) (p_mtxlist (thr k1 t)) ms" "distinct ms"
      "\<And>n. n \<in> set ms \<longleftrightarrow> m_owner k n = Some t \<and> n \<noteq> m" unfolding mid_def by blast
    then show ?thesis using m by (auto simp: owns_def f mid_def intro!: exI[of _ ms])
  qed
  then have "mtx_ok ?k" using m e mtx_okD(2,3)[OF kinv_mtx_ok[OF k]] by (auto simp: mtx_ok_def f mid_def)
  moreover have "wait_ok ?k" by (rule wait_ok_cong[of k1]) (use m in \<open>simp_all add: f mid_def\<close>)
  ultimately show "links_ok ?k" by (simp add: links_ok_def)
qed

lemma mtx_handover_eq:
  "queues k (MtxQ m) = t # ts \<Longrightarrow> mtx_handover m k =
    (t, upd_thr t (\<lambda>r. r\<lparr>p_mtxlist := Some m\<rparr>)
          (set_mtx m (Some t) (p_mtxlist (thr k t)) (set_queue (MtxQ m) ts k)))"
  by (simp add: mtx_handover_def fifo_remove_def)

lemma mid_handover:
  assumes k: "kinv k" and m: "mid k k1 m" and q: "queues k (MtxQ m) = t # ts"
  defines "k2 \<equiv> snd (mtx_handover m k1)"
  shows "core {t} {currp k} k2" "hdr_ok k2" "links_ok k2" "sem_ok k2" "currp k2 = currp k"
    "t \<notin> waiters k2" "t \<noteq> currp k" "is_Thd t"
proof -
  have q1: "queues k1 (MtxQ m) = t # ts" using m q by (simp add: mid_def)
  have mem: "t \<in> set (queues k (MtxQ m))" using q by simp
  show th: "is_Thd t" by (rule queued_is_Thd[OF kinv_hdr[OF k] kinv_core[OF k] mem])
  show tc: "t \<noteq> currp k" using kinv_currp_not_queued[OF k] mem by metis
  have k2: "k2 = upd_thr t (\<lambda>r. r\<lparr>p_mtxlist := Some m\<rparr>)
          (set_mtx m (Some t) (p_mtxlist (thr k1 t)) (set_queue (MtxQ m) ts k1))"
    by (simp add: k2_def mtx_handover_eq[OF q1])
  have f: "thr k2 = (thr k1)(t := (thr k1 t)\<lparr>p_mtxlist := Some m\<rparr>)" "queues k2 = (queues k1)(MtxQ m := ts)"
    "m_owner k2 = (m_owner k1)(m := Some t)" "m_next k2 = (m_next k1)(m := p_mtxlist (thr k1 t))"
    "currp k2 = currp k1" "s_cnt k2 = s_cnt k1"
    by (simp_all add: k2 set_mtx_def upd_thr_def set_queue_def)
  have core1: "core {} {currp k} k1" using m by (simp add: mid_def)
  have "core {t} {currp k} (set_queue (MtxQ m) ts k1)" using core_take[OF core1, of "MtxQ m" "[]" t ts] q1 by simp
  then have "core {t} {currp k} (set_mtx m (Some t) (p_mtxlist (thr k1 t)) (set_queue (MtxQ m) ts k1))"
    by (rule core_cong) (simp_all add: set_mtx_def)
  then show "core {t} {currp k} k2" unfolding k2 by (rule core_upd_other) auto
  show "hdr_ok k2" unfolding k2 by (rule hdr_ok_upd_other) (use m in \<open>auto simp: mid_def set_mtx_def hdr_ok_def\<close>)
  have "sem_ok k1" using m by (simp add: mid_def)
  then show "sem_ok k2" by (simp add: sem_ok_def f)
  show "currp k2 = currp k" using m by (simp add: f mid_def)
  have "\<exists>ms. owns k2 u ms" for u
  proof -
    from m obtain ms where ms: "mtx_chain (m_next k1) (p_mtxlist (thr k1 u)) ms" "distinct ms"
      "\<And>n. n \<in> set ms \<longleftrightarrow> m_owner k n = Some u \<and> n \<noteq> m" unfolding mid_def by blast
    have nm: "m \<notin> set ms" using ms(3) by blast
    have o: "m_owner k1 = m_owner k" using m by (simp add: mid_def)
    show ?thesis
    proof (cases "u = t")
      case True
      have "owns k2 u (m # ms)" using ms nm True by (auto simp: owns_def f o)
      then show ?thesis ..
    next
      case False
      have "owns k2 u ms" using ms nm False by (auto simp: owns_def f o)
      then show ?thesis ..
    qed
  qed
  moreover have "finite {u. state k2 u = THD_STATE_WTMTX}"
  proof -
    have "state k2 u = state k1 u" for u by (simp add: f)
    then show ?thesis using m by (simp add: mid_def)
  qed
  ultimately have "mtx_ok k2" using m mtx_okD(2,3)[OF kinv_mtx_ok[OF k]] th
    by (auto simp: mtx_ok_def f mid_def)
  moreover have "wait_ok k2" by (rule wait_ok_cong[of k1]) (use m in \<open>auto simp: f mid_def\<close>)
  ultimately show l: "links_ok k2" by (simp add: links_ok_def)
  have "home k1 t = Some (MtxQ m)" using core_mem[OF core1, of t "MtxQ m"] q1 by simp
  then have "state k1 t \<noteq> THD_STATE_WTEXIT" by (rule home_queue_state)
  then show "t \<notin> waiters k2" using not_waiter[OF l, of t] by (simp add: f)
qed

lemma mtx_chain_pop:
  assumes k: "kinv k" and p: "p_mtxlist (thr k (currp k)) = Some m"
  obtains ns where "owns k (currp k) (m # ns)" "mtx_chain (m_next k) (m_next k m) ns"
    "mtx_newprio (mtx_pop m k) (p_mtxlist (thr (mtx_pop m k) (currp k))) np
       = Some (Max (insert np (heir_prio k ` set ns)))"
proof -
  obtain ms where ms: "owns k (currp k) ms" using mtx_okD(1)[OF kinv_mtx_ok[OF k]] by blast
  with p obtain ns where ns: "ms = m # ns" "mtx_chain (m_next k) (m_next k m) ns" by (auto elim: owns_head)
  have "heir_prio (mtx_pop m k) = heir_prio k" by (rule ext) simp
  then have "mtx_newprio (mtx_pop m k) (p_mtxlist (thr (mtx_pop m k) (currp k))) np
       = Some (Max (insert np (heir_prio k ` set ns)))"
    using mtx_newprio_chain[of "mtx_pop m k" "m_next k m" ns np] ns(2) by (simp add: mtx_pop_mtxlist)
  then show thesis using that ms ns by blast
qed

text \<open>The state in which a contended unlock hands the mutex over.\<close>

definition unlocked :: "kernel \<Rightarrow> nat \<Rightarrow> nat list \<Rightarrow> kernel" where
  "unlocked k m ns = snd (mtx_handover m (raise (currp k)
     (Max (insert (p_realprio (thr k (currp k))) (heir_prio k ` set ns))) (mtx_pop m k)))"

lemma chMtxUnlock_eq:
  assumes k: "kinv k" and o: "owns k (currp k) (m # ns)"
  shows "chMtxUnlock k =
      (case queues k (MtxQ m) of
         [] \<Rightarrow> Ret m (mtx_free m (mtx_pop m k))
       | t # ts \<Rightarrow> bind (chSchWakeupS t RDY_OK (unlocked k m ns)) (\<lambda>_. Ret m))"
    and "chMtxUnlockS k =
      Some (m, case queues k (MtxQ m) of
         [] \<Rightarrow> mtx_free m (mtx_pop m k)
       | t # ts \<Rightarrow> chSchReadyI t (unlocked k m ns))"
proof -
  have p: "p_mtxlist (thr k (currp k)) = Some m" using o by (simp add: owns_def)
  from mtx_chain_pop[OF k p, of "p_realprio (thr k (currp k))"] obtain ms where
    ms: "owns k (currp k) (m # ms)" "mtx_newprio (mtx_pop m k) (p_mtxlist (thr (mtx_pop m k) (currp k)))
      (p_realprio (thr k (currp k))) = Some (Max (insert (p_realprio (thr k (currp k))) (heir_prio k ` set ms)))"
    by metis
  have "ms = ns" using mtx_chain_unique ms(1) o by (fastforce simp: owns_def)
  with ms show "chMtxUnlock k =
      (case queues k (MtxQ m) of
         [] \<Rightarrow> Ret m (mtx_free m (mtx_pop m k))
       | t # ts \<Rightarrow> bind (chSchWakeupS t RDY_OK (unlocked k m ns)) (\<lambda>_. Ret m))"
    "chMtxUnlockS k =
      Some (m, case queues k (MtxQ m) of
         [] \<Rightarrow> mtx_free m (mtx_pop m k)
       | t # ts \<Rightarrow> chSchReadyI t (unlocked k m ns))"
    using p by (auto simp: chMtxUnlock_def chMtxUnlockS_def Let_def chMtxQueueNotEmptyS_def notempty_def
        unlocked_def mtx_handover_eq split: list.split)
qed

lemma unlocked_ok:
  assumes k: "kinv k" and o: "owns k (currp k) (m # ns)" and q: "queues k (MtxQ m) = t # ts"
  shows "core {t} {currp k} (unlocked k m ns)" "hdr_ok (unlocked k m ns)" "links_ok (unlocked k m ns)"
    "sem_ok (unlocked k m ns)" "currp (unlocked k m ns) = currp k" "t \<notin> waiters (unlocked k m ns)"
    "t \<noteq> currp k" "is_Thd t"
proof -
  have p: "p_mtxlist (thr k (currp k)) = Some m" using o by (simp add: owns_def)
  note m = mid_raise[OF mid_pop[OF k p] kinv_currp[OF k]]
  show "core {t} {currp k} (unlocked k m ns)" "hdr_ok (unlocked k m ns)" "links_ok (unlocked k m ns)"
    "sem_ok (unlocked k m ns)" "currp (unlocked k m ns) = currp k" "t \<notin> waiters (unlocked k m ns)"
    "t \<noteq> currp k" "is_Thd t"
    unfolding unlocked_def by (rule mid_handover[OF k m q])+
qed

lemma mtx_list_cases:
  assumes k: "kinv k" and p: "p_mtxlist (thr k (currp k)) \<noteq> None"
  obtains m ns where "owns k (currp k) (m # ns)"
proof -
  from p obtain m where m: "p_mtxlist (thr k (currp k)) = Some m" by auto
  show thesis using mtx_chain_pop[OF k m] that by metis
qed

lemma mtx_free_kinv:
  assumes k: "kinv k" and o: "owns k (currp k) (m # ns)" and q: "queues k (MtxQ m) = []"
  shows "kinv (mtx_free m (mtx_pop m k))"
proof -
  have p: "p_mtxlist (thr k (currp k)) = Some m" using o by (simp add: owns_def)
  show ?thesis by (rule mid_free[OF k mid_pop[OF k p] q])
qed

lemma chMtxUnlock_safe:
  assumes k: "kinv k" and p: "p_mtxlist (thr k (currp k)) \<noteq> None"
  shows "safe (chMtxUnlock k)"
proof -
  obtain m ns where o: "owns k (currp k) (m # ns)" by (rule mtx_list_cases[OF k p])
  show ?thesis
  proof (cases "queues k (MtxQ m)")
    case Nil
    then show ?thesis using mtx_free_kinv[OF k o] by (simp add: chMtxUnlock_eq(1)[OF k o])
  next
    case (Cons t ts)
    note u = unlocked_ok[OF k o Cons]
    have "always kinv kinv (chSchWakeupS t RDY_OK (unlocked k m ns))"
      using u by (intro chSchWakeupS_kinv) auto
    then show ?thesis using Cons by (auto simp: chMtxUnlock_eq(1)[OF k o] intro!: always_bind safe_weaken)
  qed
qed

lemma chMtxUnlockS_kinv:
  assumes k: "kinv k" and p: "p_mtxlist (thr k (currp k)) \<noteq> None"
  obtains m k' where "chMtxUnlockS k = Some (m, k')" "kinv k'" "currp k' = currp k"
    "m_owner k (m) = Some (currp k)"
proof -
  obtain m ns where o: "owns k (currp k) (m # ns)" by (rule mtx_list_cases[OF k p])
  have "m \<in> set (m # ns)" by simp
  then have ow: "m_owner k m = Some (currp k)" using o unfolding owns_def by blast
  show thesis
  proof (cases "queues k (MtxQ m)")
    case Nil
    have "currp (mtx_free m (mtx_pop m k)) = currp k" by (simp add: mtx_free_def)
    then show ?thesis using mtx_free_kinv[OF k o Nil] chMtxUnlock_eq(2)[OF k o] Nil ow by (auto intro!: that)
  next
    case (Cons t ts)
    note u = unlocked_ok[OF k o Cons]
    have "kinv (chSchReadyI t (unlocked k m ns))"
      using chSchReadyI_core[OF u(1), of t] u by (intro kinvI) auto
    then show ?thesis using chMtxUnlock_eq(2)[OF k o] Cons u(5) ow by (auto intro!: that)
  qed
qed

lemma handover_kinv:
  assumes k: "kinv k" and p: "p_mtxlist (thr k (currp k)) = Some m" and q: "queues k (MtxQ m) = t # ts"
  shows "kinv (chSchReadyI t (snd (mtx_handover m (mtx_pop m k))))"
    "currp (snd (mtx_handover m (mtx_pop m k))) = currp k"
proof -
  note u = mid_handover[OF k mid_pop[OF k p] q]
  show "kinv (chSchReadyI t (snd (mtx_handover m (mtx_pop m k))))"
    using chSchReadyI_core[OF u(1), of t] u by (intro kinvI) auto
  show "currp (snd (mtx_handover m (mtx_pop m k))) = currp k" by (rule u(5))
qed

text \<open>The loop of \<^verbatim>\<open>chMtxUnlockAll\<close> ends, having gone down the whole list.\<close>

lemma unlock_all_loop_spec:
  assumes "kinv k" "owns k (currp k) ms"
  shows "\<exists>k'. unlock_all_loop k = Some k' \<and> kinv k' \<and> currp k' = currp k \<and> owns k' (currp k) []"
  using assms
proof (induction ms arbitrary: k)
  case Nil
  then have "p_mtxlist (thr k (currp k)) = None" by (simp add: owns_def)
  then show ?case using Nil by (subst unlock_all_loop.simps) simp
next
  case (Cons m ms)
  note k = Cons.prems(1) and o = Cons.prems(2)
  have p: "p_mtxlist (thr k (currp k)) = Some m" "mtx_chain (m_next k) (m_next k m) ms"
    and d: "m \<notin> set ms" "distinct ms" using o by (auto simp: owns_def)
  have mem: "\<And>n. n = m \<or> n \<in> set ms \<longleftrightarrow> m_owner k n = Some (currp k)" using o by (simp add: owns_def)
  define k1 where "k1 = (if chMtxQueueNotEmptyS m (mtx_pop m k)
      then (case mtx_handover m (mtx_pop m k) of (tp, k2) \<Rightarrow> chSchReadyI tp k2) else mtx_free m (mtx_pop m k))"
  have step: "unlock_all_loop k = unlock_all_loop k1"
    using p by (subst unlock_all_loop.simps) (simp add: k1_def Let_def)
  have "kinv k1 \<and> currp k1 = currp k \<and> owns k1 (currp k) ms"
  proof (cases "queues k (MtxQ m)")
    case Nil
    then have k1: "k1 = mtx_free m (mtx_pop m k)" by (simp add: k1_def chMtxQueueNotEmptyS_def notempty_def)
    have "owns k1 (currp k) ms" using p d mem by (auto simp: owns_def k1 mtx_free_def mtx_pop_mtxlist)
    then show ?thesis using mtx_free_kinv[OF k o Nil] by (simp add: k1) (simp add: mtx_free_def)
  next
    case (Cons t ts)
    note h = handover_kinv[OF k p(1) Cons] and u = mid_handover[OF k mid_pop[OF k p(1)] Cons]
    have k1: "k1 = chSchReadyI t (snd (mtx_handover m (mtx_pop m k)))"
      using Cons by (simp add: k1_def chMtxQueueNotEmptyS_def notempty_def mtx_handover_eq)
    have f: "m_owner k1 = (m_owner k)(m := Some t)" "m_next k1 = (m_next k)(m := p_mtxlist (thr k t))"
      "p_mtxlist (thr k1 (currp k)) = m_next k m"
      using Cons u(7) by (simp_all add: k1 mtx_handover_eq set_mtx_def mtx_pop_mtxlist)
    have "owns k1 (currp k) ms" using p d mem u(7) by (auto simp: owns_def f)
    then show ?thesis using h by (simp add: k1)
  qed
  then show ?case using Cons.IH[of k1] step by auto
qed

lemma chMtxUnlockAll_safe:
  assumes k: "kinv k"
  shows "safe (chMtxUnlockAll k)"
proof -
  obtain ms where "owns k (currp k) ms" using mtx_okD(1)[OF kinv_mtx_ok[OF k]] by blast
  from unlock_all_loop_spec[OF k this] obtain k' where k': "unlock_all_loop k = Some k'" "kinv k'" "currp k' = currp k"
    by blast
  have "kinv (upd_thr (currp k) (\<lambda>r. r\<lparr>p_prio := p_realprio r\<rparr>) k')"
    using kinv_upd_currp[OF k'(2), of "\<lambda>r. r\<lparr>p_prio := p_realprio r\<rparr>"] k'(3) by simp
  then show ?thesis using k k' by (auto simp: chMtxUnlockAll_def Let_def intro!: chSchRescheduleS_safe)
qed

text \<open>
  A contended unlock: the waiting thread of highest priority owns the mutex, the
  running thread goes back to the priority its remaining mutexes demand.
\<close>

lemma le_heir_prio:
  assumes "prio_sorted (prio k) (queues k (MtxQ n))" "u \<in> set (queues k (MtxQ n))"
  shows "prio k u \<le> heir_prio k n"
  using assms by (auto simp: heir_prio_def split: list.splits)

lemma unlocked_fields:
  assumes o: "owns k (currp k) (m # ns)" and q: "queues k (MtxQ m) = t # ts" and t: "t \<noteq> currp k"
  defines "np \<equiv> Max (insert (p_realprio (thr k (currp k))) (heir_prio k ` set ns))"
  shows "prio (unlocked k m ns) u = (if u = currp k then np else prio k u)"
    "queues (unlocked k m ns) = (queues k)(MtxQ m := ts)"
    "m_owner (unlocked k m ns) = (m_owner k)(m := Some t)"
  using q t by (auto simp: unlocked_def mtx_handover_eq set_mtx_def np_def upd_thr_def mtx_pop_def set_queue_def)

lemma unlocked_pi_ok:
  assumes k: "kinv k" and pi: "pi_ok k" and o: "owns k (currp k) (m # ns)" and q: "queues k (MtxQ m) = t # ts"
  shows "pi_ok (unlocked k m ns)"
  unfolding pi_ok_def
proof (intro allI impI ballI)
  fix n v u
  let ?c = "currp k"
  note f = unlocked_fields[OF o q unlocked_ok(7)[OF k o q]]
  assume ow: "m_owner (unlocked k m ns) n = Some v" and u: "u \<in> set (queues (unlocked k m ns) (MtxQ n))"
  have srt: "prio_sorted (prio k) (queues k (MtxQ n))" using core_sorted[OF kinv_core[OF k]] by simp
  have uq: "u \<in> set (queues k (MtxQ n))" using u q by (auto simp: f(2) split: if_splits)
  have uc: "u \<noteq> ?c" using kinv_currp_not_queued[OF k] uq by metis
  show "prio (unlocked k m ns) u \<le> prio (unlocked k m ns) v"
  proof (cases "n = m")
    case True
    then have "v = t" "u \<in> set ts" using ow u by (auto simp: f)
    then show ?thesis using srt q True uc unlocked_ok(7)[OF k o q] by (simp add: f(1))
  next
    case False
    then have ow': "m_owner k n = Some v" using ow by (simp add: f)
    show ?thesis
    proof (cases "v = ?c")
      case True
      then have "n \<in> set ns" using o ow' False by (auto simp: owns_def)
      then have "heir_prio k n \<le> Max (insert (p_realprio (thr k ?c)) (heir_prio k ` set ns))" by simp
      then show ?thesis using le_heir_prio[OF srt uq] uc True by (simp add: f(1))
    next
      case False
      then show ?thesis using pi ow' uq uc by (simp add: f(1) pi_ok_def)
    qed
  qed
qed

lemma chMtxUnlock_handover:
  assumes k: "kinv k" and o: "owns k (currp k) (m # ns)" and q: "queues k (MtxQ m) = t # ts"
  obtains k' where "after (chMtxUnlock k) = Some k'" "m_owner k' = (m_owner k)(m := Some t)"
    "queues k' (MtxQ m) = ts" "\<And>u. u \<in> set ts \<Longrightarrow> prio k u \<le> prio k t"
    "prio k' (currp k) = Max (insert (p_realprio (thr k (currp k))) (heir_prio k ` set ns))"
    "\<And>u. u \<noteq> currp k \<Longrightarrow> prio k' u = prio k u" "pi_ok k \<longrightarrow> pi_ok k'"
proof -
  let ?u = "unlocked k m ns"
  note f = unlocked_fields[OF o q unlocked_ok(7)[OF k o q]] and ok = unlocked_ok[OF k o q]
  have srt: "prio_sorted (prio k) (t # ts)" using core_sorted[OF kinv_core[OF k], of "MtxQ m"] q by simp
  obtain k' where k': "after (chMtxUnlock k) = Some k'" "m_owner k' = m_owner ?u" "prio k' = prio ?u"
    "\<And>n. queues k' (MtxQ n) = queues ?u (MtxQ n)"
  proof (cases "prio (set_u t (U_msg RDY_OK) ?u) t \<le> prio (set_u t (U_msg RDY_OK) ?u) (currp (set_u t (U_msg RDY_OK) ?u))")
    case True
    then have "after (chMtxUnlock k) = Some (chSchReadyI t (set_u t (U_msg RDY_OK) ?u))"
      using q by (simp add: chMtxUnlock_eq(1)[OF k o] chSchWakeupS_def Let_def)
    then show thesis by (rule that) (auto intro!: ext)
  next
    case False
    then show thesis
      using q by (intro that[of "set_state t THD_STATE_CURRENT ((chSchReadyI (currp ?u)
          (set_u t (U_msg RDY_OK) ?u))\<lparr>r_preempt := CH_TIME_QUANTUM, currp := t\<rparr>)"])
        (auto simp: chMtxUnlock_eq(1)[OF k o] chSchWakeupS_def Let_def intro!: ext)
  qed
  have "pi_ok k \<longrightarrow> pi_ok k'"
    using unlocked_pi_ok[OF k _ o q] by (simp add: pi_ok_def k'(2,4)) (metis k'(3))
  moreover have "prio k' u = prio ?u u" for u using k'(3) by metis
  ultimately show thesis using that k' srt f by (auto simp: f(1))
qed

text \<open>Releasing a mutex nobody waits for.\<close>

lemma pi_ok_free:
  assumes k: "kinv k" and pi: "pi_ok k" and o: "owns k (currp k) (m # ns)" and q: "queues k (MtxQ m) = []"
  shows "pi_ok (mtx_free m (mtx_pop m k))"
  using pi by (auto simp: pi_ok_def mtx_free_def)

end
