(* ===== verification/CondVars.thy ===== *)
theory CondVars
  imports Mutexes
begin

text \<open>
  Condition variables (\<^verbatim>\<open>os/kernel/src/chcond.c\<close>): a condition variable \<open>c\<close> is its
  queue \<open>queues k (CondQ c)\<close> in priority order. Waiting releases the mutex locked last
  and takes it again afterwards.
\<close>

section \<open>Operations\<close>

definition chCondInit :: "nat \<Rightarrow> kernel \<Rightarrow> kernel" where
  "chCondInit cp k = set_queue (CondQ cp) [] k"

definition chCondSignal :: "nat \<Rightarrow> kernel \<Rightarrow> unit step" where
  "chCondSignal cp k =
     (if notempty (CondQ cp) k
      then (case fifo_remove (CondQ cp) k of (tp, k1) \<Rightarrow> chSchWakeupS tp RDY_OK k1)
      else Ret () k)"

definition chCondSignalI :: "nat \<Rightarrow> kernel \<Rightarrow> kernel" where
  "chCondSignalI cp k = (if notempty (CondQ cp) k then ready_fifo (CondQ cp) RDY_OK k else k)"

lemma length_ready_fifo:
  "queues k q \<noteq> [] \<Longrightarrow> q \<noteq> RListQ \<Longrightarrow> length (queues (ready_fifo q msg k) q) < length (queues k q)"
  by (cases "queues k q") (simp_all add: ready_fifo_fields)

function chCondBroadcastI :: "nat \<Rightarrow> kernel \<Rightarrow> kernel" where
  "chCondBroadcastI cp k =
     (if notempty (CondQ cp) k then chCondBroadcastI cp (ready_fifo (CondQ cp) RDY_RESET k) else k)"
  by pat_completeness auto
termination
  by (relation "measure (\<lambda>(cp, k). length (queues k (CondQ cp)))") (auto simp: notempty_def length_ready_fifo)

declare chCondBroadcastI.simps [simp del]

definition chCondBroadcast :: "nat \<Rightarrow> kernel \<Rightarrow> unit step" where
  "chCondBroadcast cp k = chSchRescheduleS (chCondBroadcastI cp k)"

definition chCondWaitS :: "nat \<Rightarrow> kernel \<Rightarrow> int step" where
  "chCondWaitS cp k =
     (let ctp = currp k
      in case chMtxUnlockS k of
           None \<Rightarrow> Hang
         | Some (mp, k1) \<Rightarrow>
             (let k2 = set_u ctp (U_wtobjp (CondQ cp)) k1;
                  k3 = prio_insert ctp (CondQ cp) k2
              in bind (chSchGoSleepS THD_STATE_WTCOND k3)
                   (\<lambda>_ k4. let msg = rdymsg k4 ctp in bind (chMtxLockS mp k4) (\<lambda>_. Ret msg))))"

definition chCondWait :: "nat \<Rightarrow> kernel \<Rightarrow> int step" where
  "chCondWait cp k = chCondWaitS cp k"

definition chCondWaitTimeoutS :: "nat \<Rightarrow> u32 \<Rightarrow> kernel \<Rightarrow> int step" where
  "chCondWaitTimeoutS cp time k =
     (case chMtxUnlockS k of
        None \<Rightarrow> Hang
      | Some (mp, k1) \<Rightarrow>
          (let k2 = set_u (currp k1) (U_wtobjp (CondQ cp)) k1;
               k3 = prio_insert (currp k2) (CondQ cp) k2
           in bind (chSchGoSleepTimeoutS THD_STATE_WTCOND time k3)
                (\<lambda>msg k4. if msg \<noteq> RDY_TIMEOUT then bind (chMtxLockS mp k4) (\<lambda>_. Ret msg)
                          else Ret msg k4)))"

definition chCondWaitTimeout :: "nat \<Rightarrow> u32 \<Rightarrow> kernel \<Rightarrow> int step" where
  "chCondWaitTimeout cp time k = chCondWaitTimeoutS cp time k"

section \<open>The invariant\<close>

text \<open>When a thread that slept is switched in, what it does next starts from a good state.\<close>

lemma always_bind_resumed:
  assumes s: "\<And>k'. resumed k' \<Longrightarrow> always kinv resumed (f k')"
    and k: "can_sleep st k"
  shows "safe (bind (chSchGoSleepS st k) (\<lambda>_. f))"
  using chSchGoSleepS_safe[OF k] s by (simp add: chSchGoSleepS_def)

lemma safe_timeout_bind:
  assumes s: "\<And>msg k'. resumed k' \<Longrightarrow> always kinv resumed (f msg k')"
    and k: "can_sleep st k"
  shows "safe (bind (chSchGoSleepTimeoutS st time k) f)"
proof -
  have r: "resumed (chVTResetI v k') = resumed k'" for v k' by (simp add: resumed_def)
  have "can_sleep st (chVTSetI v time VF_wakeup p k)" for v p using k by simp
  from chSchGoSleepS_safe[OF this] chSchGoSleepS_safe[OF k] show ?thesis
    by (auto simp: chSchGoSleepTimeoutS_def chSchGoSleepS_def Let_def intro!: s simp: r)
qed

lemma chCondSignal_safe:
  assumes k: "kinv k"
  shows "safe (chCondSignal c k)"
proof (cases "queues k (CondQ c)")
  case (Cons t ts)
  have "safe (chSchWakeupS t RDY_OK (set_queue (CondQ c) ts k))"
    using k Cons by (intro chSchWakeupS_from) (auto simp: kinv_klists)
  then show ?thesis using Cons by (simp add: chCondSignal_def notempty_def fifo_remove_def)
qed (use k in \<open>simp add: chCondSignal_def notempty_def\<close>)

lemma chCondSignalI_kinv: "kinv k \<Longrightarrow> kinv (chCondSignalI c k)"
  by (simp add: chCondSignalI_def notempty_def kinv_ready_fifo)

text \<open>A broadcast readies every waiting thread, in queue order.\<close>

lemma chCondBroadcastI_spec:
  assumes "kinv k"
  shows "kinv (chCondBroadcastI c k) \<and> queues (chCondBroadcastI c k) (CondQ c) = []
    \<and> queues (chCondBroadcastI c k) RListQ = fold (prio_ins (prio k)) (queues k (CondQ c)) (ready k)
    \<and> currp (chCondBroadcastI c k) = currp k
    \<and> (\<forall>t. t \<notin> set (queues k (CondQ c)) \<longrightarrow> thr (chCondBroadcastI c k) t = thr k t)
    \<and> (\<forall>t \<in> set (queues k (CondQ c)). state (chCondBroadcastI c k) t = THD_STATE_READY
         \<and> rdymsg (chCondBroadcastI c k) t = RDY_RESET)"
  using assms
proof (induction c k rule: chCondBroadcastI.induct)
  case (1 c k)
  show ?case
  proof (cases "queues k (CondQ c)")
    case Nil
    then have "chCondBroadcastI c k = k" by (simp add: chCondBroadcastI.simps notempty_def)
    then show ?thesis using Nil 1(2) by simp
  next
    case (Cons t ts)
    let ?k1 = "ready_fifo (CondQ c) RDY_RESET k"
    have ne: "notempty (CondQ c) k" using Cons by (simp add: notempty_def)
    have step: "chCondBroadcastI c k = chCondBroadcastI c ?k1"
      using ne by (subst chCondBroadcastI.simps) simp
    note f = ready_fifo_fields[OF Cons, simplified]
    have k1: "kinv ?k1" using 1(2) Cons by (intro kinv_ready_fifo) auto
    have pr: "prio ?k1 = prio k" by (rule ext) (simp add: f)
    have d: "t \<notin> set ts" using core_distinct[OF kinv_core[OF 1(2)], of "CondQ c"] Cons by simp
    have o: "u \<noteq> t \<Longrightarrow> thr ?k1 u = thr k u" for u by (rule f)
    show ?thesis using 1(1)[OF ne k1] d o unfolding step f(1,2) pr Cons
      by (auto simp: f)
  qed
qed

lemma chCondBroadcast_safe: "kinv k \<Longrightarrow> safe (chCondBroadcast c k)"
  unfolding chCondBroadcast_def by (intro chSchRescheduleS_safe) (simp add: chCondBroadcastI_spec)

lemma can_sleep_cond:
  assumes "resumed k"
  shows "can_sleep THD_STATE_WTCOND (prio_insert (currp k) (CondQ c) (set_u (currp k) (U_wtobjp (CondQ c)) k))"
  using resumedD[OF assms] by (intro can_sleep_prio) auto

lemma chCondWaitS_safe:
  assumes r: "resumed k" and p: "p_mtxlist (thr k (currp k)) \<noteq> None"
  shows "safe (chCondWaitS c k)"
proof -
  obtain m k1 where u: "chMtxUnlockS k = Some (m, k1)" "kinv k1" "currp k1 = currp k"
    by (rule chMtxUnlockS_kinv[OF resumedD(1)[OF r] p])
  have r1: "resumed k1" using u resumedD[OF r] by (simp add: resumed_def)
  have "safe (bind (chSchGoSleepS THD_STATE_WTCOND (prio_insert (currp k1) (CondQ c)
      (set_u (currp k1) (U_wtobjp (CondQ c)) k1)))
      (\<lambda>_ k4. let msg = rdymsg k4 (currp k) in bind (chMtxLockS m k4) (\<lambda>_. Ret msg)))"
    by (rule always_bind_resumed[OF _ can_sleep_cond[OF r1]])
      (auto simp: Let_def intro!: always_bind chMtxLockS_safe)
  then show ?thesis using u by (simp add: chCondWaitS_def Let_def)
qed

lemma chCondWaitTimeoutS_safe:
  assumes r: "resumed k" and p: "p_mtxlist (thr k (currp k)) \<noteq> None"
  shows "safe (chCondWaitTimeoutS c time k)"
proof -
  obtain m k1 where u: "chMtxUnlockS k = Some (m, k1)" "kinv k1" "currp k1 = currp k"
    by (rule chMtxUnlockS_kinv[OF resumedD(1)[OF r] p])
  have r1: "resumed k1" using u resumedD[OF r] by (simp add: resumed_def)
  have "safe (bind (chSchGoSleepTimeoutS THD_STATE_WTCOND time (prio_insert (currp k1) (CondQ c)
      (set_u (currp k1) (U_wtobjp (CondQ c)) k1)))
      (\<lambda>msg k4. if msg \<noteq> RDY_TIMEOUT then bind (chMtxLockS m k4) (\<lambda>_. Ret msg) else Ret msg k4))"
    by (rule safe_timeout_bind[OF _ can_sleep_cond[OF r1]])
      (auto intro!: always_bind chMtxLockS_safe simp: resumed_def)
  then show ?thesis using u by (simp add: chCondWaitTimeoutS_def Let_def)
qed

end
