(* ===== verification/Messages.thy ===== *)
theory Messages
  imports CondVars
begin

text \<open>
  Synchronous messages (\<^verbatim>\<open>os/kernel/src/chmsg.c\<close>): a sender queues itself on the
  receiver and sleeps until the receiver releases it with an answer.
\<close>

section \<open>Operations\<close>

definition chMsgIsPendingI :: "tid \<Rightarrow> kernel \<Rightarrow> bool" where
  "chMsgIsPendingI tp k \<longleftrightarrow> queues k (MsgQ tp) \<noteq> []"

definition chMsgGet :: "tid \<Rightarrow> kernel \<Rightarrow> int" where
  "chMsgGet tp k = p_msg (thr k tp)"

definition chMsgSend :: "tid \<Rightarrow> int \<Rightarrow> kernel \<Rightarrow> int step" where
  "chMsgSend tp msg k =
     (let ctp = currp k;
          k1 = upd_thr ctp (\<lambda>r. r\<lparr>p_msg := msg\<rparr>) k;
          k2 = set_u ctp (U_wtobjp (MsgQ tp)) k1;
          k3 = queue_insert ctp (MsgQ tp) k2;
          k4 = (if state k3 tp = THD_STATE_WTMSG then chSchReadyI tp k3 else k3)
      in bind (chSchGoSleepS THD_STATE_SNDMSGQ k4) (\<lambda>_ k5. Ret (rdymsg k5 ctp) k5))"

definition chMsgWait :: "kernel \<Rightarrow> tid step" where
  "chMsgWait k =
     bind (if \<not> chMsgIsPendingI (currp k) k then chSchGoSleepS THD_STATE_WTMSG k else Ret () k)
       (\<lambda>_ k1. case fifo_remove (MsgQ (currp k1)) k1 of
                 (tp, k2) \<Rightarrow> Ret tp (set_state tp THD_STATE_SNDMSG k2))"

definition chMsgReleaseS :: "tid \<Rightarrow> int \<Rightarrow> kernel \<Rightarrow> unit step" where
  "chMsgReleaseS tp msg k = chSchWakeupS tp msg k"

definition chMsgRelease :: "tid \<Rightarrow> int \<Rightarrow> kernel \<Rightarrow> unit step" where
  "chMsgRelease tp msg k = chMsgReleaseS tp msg k"

section \<open>The invariant\<close>

lemma chSchReadyI_queue_insert:
  assumes "t \<noteq> c" "q \<noteq> RListQ"
  shows "chSchReadyI t (queue_insert c q (set_u c u k)) = queue_insert c q (set_u c u (chSchReadyI t k))"
proof -
  have "(thr k)(c := r, t := s) = (thr k)(t := s, c := r)" for r s using assms(1) by (rule fun_upd_twist[symmetric])
  moreover have "prio_ins (prio (set_state t THD_STATE_READY (queue_insert c q (set_u c u k)))) t (ready k)
      = prio_ins (prio (set_state t THD_STATE_READY k)) t (ready k)"
    by (rule prio_ins_cong) (simp add: queue_insert_def)
  ultimately show ?thesis using assms
    by (simp add: chSchReadyI_def Let_def queue_insert_def)
      (simp add: set_queue_def set_state_def set_u_def upd_thr_def fun_upd_twist)
qed

lemma ready_waiting_receiver:
  assumes k: "kinv k" and t: "is_Thd t" "state k t = THD_STATE_WTMSG"
  shows "kinv (chSchReadyI t k)" "t \<noteq> currp k"
proof -
  have h: "home k t = None" using t(2) by (cases "p_u (thr k t)") auto
  show tc: "t \<noteq> currp k" using t(2) kinv_current[OF k, of t] by auto
  have w: "t \<notin> waiters k" using not_waiter[OF kinv_links[OF k], of t] t(2) by simp
  have "core {t} {currp k} k" using core_out[OF kinv_core[OF k] h] tc by simp
  from chSchReadyI_core[OF this, of t] show "kinv (chSchReadyI t k)"
    using t(1) tc w kinv_sem[OF k] kinv_hdr[OF k] kinv_links[OF k] by (auto intro!: kinvI)
qed

lemma p_msg_sleep [simp]:
  "p_msg (thr (go_sleep st k) t) = p_msg (thr k t)" "p_msg (thr (chSchReadyI u k) t) = p_msg (thr k t)"
  by (simp_all add: go_sleep_def fifo_remove_def chSchReadyI_def Let_def split: list.split) (auto simp: kernel_defs)

lemma can_sleep_msg:
  assumes "resumed k"
  shows "can_sleep THD_STATE_SNDMSGQ (queue_insert (currp k) (MsgQ tp) (set_u (currp k) (U_wtobjp (MsgQ tp)) k))"
  using resumedD[OF assms] kinv_core kinv_hdr kinv_links kinv_sem by (intro can_sleep_fifo) auto

lemma chMsgSend_safe:
  assumes r: "resumed k" and t: "is_Thd tp"
  shows "safe (chMsgSend tp msg k)"
proof -
  let ?c = "currp k"
  define k1 where "k1 = upd_thr ?c (\<lambda>r. r\<lparr>p_msg := msg\<rparr>) k"
  have k1: "kinv k1" "currp k1 = ?c" using resumedD[OF r] by (simp_all add: k1_def)
  define k2 where "k2 = (if state k1 tp = THD_STATE_WTMSG then chSchReadyI tp k1 else k1)"
  have k2: "kinv k2" "currp k2 = ?c" "state k1 tp = THD_STATE_WTMSG \<Longrightarrow> tp \<noteq> ?c"
    using k1 ready_waiting_receiver[OF k1(1) t] by (auto simp: k2_def)
  have r2: "resumed k2" using k2 resumedD[OF r] by (simp add: resumed_def)
  have "state (queue_insert ?c (MsgQ tp) (set_u ?c u k1)) tp = state k1 tp" for u
    by (cases "tp = ?c") (simp_all add: queue_insert_def)
  then have "chMsgSend tp msg k = bind (chSchGoSleepS THD_STATE_SNDMSGQ (queue_insert ?c (MsgQ tp)
      (set_u ?c (U_wtobjp (MsgQ tp)) k2))) (\<lambda>_ k5. Ret (rdymsg k5 ?c) k5)"
    using k2(3) by (simp add: chMsgSend_def Let_def k1_def[symmetric] k2_def chSchReadyI_queue_insert)
  moreover have "safe (bind (chSchGoSleepS THD_STATE_SNDMSGQ (queue_insert ?c (MsgQ tp)
      (set_u ?c (U_wtobjp (MsgQ tp)) k2))) (\<lambda>_ k5. Ret (rdymsg k5 ?c) k5))"
    using can_sleep_msg[OF r2, of tp] k2(2) by (intro always_bind_resumed) (auto simp: resumed_def)
  ultimately show ?thesis by simp
qed

text \<open>The first sender leaves the queue, still asleep, in state \<^verbatim>\<open>SNDMSG\<close>.\<close>

lemma take_sender:
  assumes k: "kinv k" and q: "queues k (MsgQ t) = s # ss"
  shows "kinv (set_state s THD_STATE_SNDMSG (set_queue (MsgQ t) ss k))"
proof -
  have mem: "s \<in> set (queues k (MsgQ t))" using q by simp
  have th: "is_Thd s" by (rule queued_is_Thd[OF kinv_hdr[OF k] kinv_core[OF k] mem])
  have sc: "s \<noteq> currp k" using kinv_currp_not_queued[OF k] mem by metis
  have hm: "home k s = Some (MsgQ t)" using kinv_mem[OF k] mem by simp
  have w: "s \<notin> waiters k" using not_waiter[OF kinv_links[OF k]] home_queue_state[OF hm] by blast
  have i: "s \<noteq> idle_thread"
  proof
    assume "s = idle_thread"
    then have "state k s \<in> {THD_STATE_READY, THD_STATE_CURRENT}" using core_idle[OF kinv_core[OF k]] by simp
    then show False using hm by auto
  qed
  have "core {s} {currp k} (set_queue (MsgQ t) ss k)" using core_take[OF kinv_core[OF k], of "MsgQ t" "[]" s ss] q by simp
  then have c: "core {s} {currp k} (set_state s THD_STATE_SNDMSG (set_queue (MsgQ t) ss k))"
    by (simp add: core_upd set_state_def)
  have "waits_in THD_STATE_SNDMSG u = None" for u by (cases u) auto
  then have "core {} {currp k} (set_state s THD_STATE_SNDMSG (set_queue (MsgQ t) ss k))"
    using core_in[OF c, of s] sc i by (simp add: kernel_defs)
  then show ?thesis using kinv_sem[OF k] kinv_hdr[OF k] kinv_links[OF k] th w
    by (auto intro!: kinvI links_ok_set_state)
qed

text \<open>
  A thread woken from \<^verbatim>\<open>chMsgWait\<close> finds a sender: only a sender wakes it, and only the
  receiver takes senders off its queue.
\<close>

lemma chMsgWait_safe:
  assumes r: "resumed k"
  shows "always kinv (\<lambda>k'. resumed k' \<and> chMsgIsPendingI (currp k') k') (chMsgWait k)"
proof -
  have take: "kinv k' \<Longrightarrow> chMsgIsPendingI (currp k') k' \<Longrightarrow> always kinv R
      (case fifo_remove (MsgQ (currp k')) k' of (tp, k2) \<Rightarrow> Ret tp (set_state tp THD_STATE_SNDMSG k2))" for k' R
    using take_sender[of k' "currp k'"]
    by (cases "queues k' (MsgQ (currp k'))") (auto simp: chMsgIsPendingI_def fifo_remove_def)
  have "can_sleep THD_STATE_WTMSG k" using resumedD[OF r] by (intro can_sleep_plain) auto
  from chSchGoSleepS_safe[OF this] resumedD[OF r] show ?thesis
    by (auto simp: chMsgWait_def chSchGoSleepS_def intro!: take simp: resumed_def)
qed

lemma chMsgRelease_safe:
  assumes k: "kinv k" and t: "is_Thd t" "state k t = THD_STATE_SNDMSG"
  shows "safe (chMsgRelease t msg k)"
proof -
  have h: "home k t = None" using t(2) by (cases "p_u (thr k t)") auto
  have tc: "t \<noteq> currp k" using t(2) kinv_current[OF k, of t] by auto
  have w: "t \<notin> waiters k" using not_waiter[OF kinv_links[OF k], of t] t(2) by simp
  have "core {t} {currp k} k" using core_out[OF kinv_core[OF k] h] tc by simp
  then show ?thesis unfolding chMsgRelease_def chMsgReleaseS_def
    using t tc w kinv_sem[OF k] kinv_hdr[OF k] kinv_links[OF k]
    by (intro safe_weaken chSchWakeupS_kinv) auto
qed

end
