(* ===== verification/Events.thy ===== *)
theory Events
  imports Messages
begin

text \<open>
  Event flags (\<^verbatim>\<open>os/kernel/src/chevents.c\<close>). The listeners of an event source \<open>es\<close> are
  the list \<open>es_list k es\<close>, from \<^verbatim>\<open>es_next\<close> on; a listener is registered on one source at
  a time, as the code's single link \<^verbatim>\<open>el_next\<close> requires.
\<close>

unbundle bit_operations_syntax

section \<open>Operations\<close>

definition ALL_EVENTS :: u32 where "ALL_EVENTS = - 1"

definition EVENT_MASK :: "nat \<Rightarrow> u32" where
  "EVENT_MASK eid = push_bit eid 1"

definition chEvtInit :: "nat \<Rightarrow> kernel \<Rightarrow> kernel" where
  "chEvtInit esp k = k\<lparr>es_list := (es_list k)(esp := [])\<rparr>"

definition chEvtIsListeningI :: "nat \<Rightarrow> kernel \<Rightarrow> bool" where
  "chEvtIsListeningI esp k \<longleftrightarrow> es_list k esp \<noteq> []"

definition chEvtRegisterMask :: "nat \<Rightarrow> nat \<Rightarrow> u32 \<Rightarrow> kernel \<Rightarrow> kernel" where
  "chEvtRegisterMask esp elp emask k =
     k\<lparr>es_list := (es_list k)(esp := elp # es_list k esp),
       el_listener := (el_listener k)(elp := currp k),
       el_mask := (el_mask k)(elp := emask)\<rparr>"

definition chEvtRegister :: "nat \<Rightarrow> nat \<Rightarrow> nat \<Rightarrow> kernel \<Rightarrow> kernel" where
  "chEvtRegister esp elp eid = chEvtRegisterMask esp elp (EVENT_MASK eid)"

fun evt_unlink :: "nat \<Rightarrow> nat list \<Rightarrow> nat list" where
  "evt_unlink elp [] = []"
| "evt_unlink elp (p # ps) = (if p = elp then ps else p # evt_unlink elp ps)"

definition chEvtUnregister :: "nat \<Rightarrow> nat \<Rightarrow> kernel \<Rightarrow> kernel" where
  "chEvtUnregister esp elp k = k\<lparr>es_list := (es_list k)(esp := evt_unlink elp (es_list k esp))\<rparr>"

abbreviation epending :: "kernel \<Rightarrow> tid \<Rightarrow> u32" where
  "epending k t \<equiv> p_epending (thr k t)"

definition set_epending :: "tid \<Rightarrow> u32 \<Rightarrow> kernel \<Rightarrow> kernel" where
  "set_epending t w = upd_thr t (\<lambda>r. r\<lparr>p_epending := w\<rparr>)"

definition chEvtClearFlags :: "u32 \<Rightarrow> kernel \<Rightarrow> u32 \<times> kernel" where
  "chEvtClearFlags emask k =
     (let m = epending k (currp k) AND emask
      in (m, set_epending (currp k) (epending k (currp k) AND NOT emask) k))"

definition chEvtAddFlags :: "u32 \<Rightarrow> kernel \<Rightarrow> u32 \<times> kernel" where
  "chEvtAddFlags emask k =
     (let m = epending k (currp k) OR emask in (m, set_epending (currp k) m k))"

definition chEvtSignalFlagsI :: "tid \<Rightarrow> u32 \<Rightarrow> kernel \<Rightarrow> kernel" where
  "chEvtSignalFlagsI tp emask k =
     (let k1 = set_epending tp (epending k tp OR emask) k;
          w = u_ewmask (p_u (thr k1 tp))
      in if state k1 tp = THD_STATE_WTOREVT \<and> epending k1 tp AND w \<noteq> 0
            \<or> state k1 tp = THD_STATE_WTANDEVT \<and> epending k1 tp AND w = w
         then set_u tp (U_msg RDY_OK) (chSchReadyI tp k1) else k1)"

definition chEvtSignalFlags :: "tid \<Rightarrow> u32 \<Rightarrow> kernel \<Rightarrow> unit step" where
  "chEvtSignalFlags tp emask k = chSchRescheduleS (chEvtSignalFlagsI tp emask k)"

fun evt_broadcast :: "nat list \<Rightarrow> u32 \<Rightarrow> kernel \<Rightarrow> kernel" where
  "evt_broadcast [] emask k = k"
| "evt_broadcast (elp # els) emask k =
     evt_broadcast els emask (chEvtSignalFlagsI (el_listener k elp) (el_mask k elp OR emask) k)"

definition chEvtBroadcastFlagsI :: "nat \<Rightarrow> u32 \<Rightarrow> kernel \<Rightarrow> kernel" where
  "chEvtBroadcastFlagsI esp emask k = evt_broadcast (es_list k esp) emask k"

definition chEvtBroadcastFlags :: "nat \<Rightarrow> u32 \<Rightarrow> kernel \<Rightarrow> unit step" where
  "chEvtBroadcastFlags esp emask k = chSchRescheduleS (chEvtBroadcastFlagsI esp emask k)"

text \<open>\<^verbatim>\<open>chEvtDispatch\<close> runs the handlers of the application on the application's state.\<close>

partial_function (option) evt_dispatch :: "(nat \<Rightarrow> 'a \<Rightarrow> 'a) \<Rightarrow> nat \<Rightarrow> u32 \<Rightarrow> 'a \<Rightarrow> 'a option" where
  "evt_dispatch handlers eid emask st =
     (if emask \<noteq> 0 then
        (if emask AND EVENT_MASK eid \<noteq> 0
         then evt_dispatch handlers (eid + 1) (emask AND NOT (EVENT_MASK eid)) (handlers eid st)
         else evt_dispatch handlers (eid + 1) emask st)
      else Some st)"

definition chEvtDispatch :: "(nat \<Rightarrow> 'a \<Rightarrow> 'a) \<Rightarrow> u32 \<Rightarrow> 'a \<Rightarrow> 'a option" where
  "chEvtDispatch handlers emask st = evt_dispatch handlers 0 emask st"

text \<open>Waiting: what happens once the events are there, and the six calls.\<close>

definition evt_take :: "tid \<Rightarrow> u32 \<Rightarrow> kernel \<Rightarrow> u32 step" where
  "evt_take ctp m k = Ret m (set_epending ctp (epending k ctp AND NOT m) k)"

definition evt_take_one :: "tid \<Rightarrow> u32 \<Rightarrow> kernel \<Rightarrow> u32 step" where
  "evt_take_one ctp m k = (let m1 = m AND - m in evt_take ctp m1 k)"

definition chEvtWaitOne :: "u32 \<Rightarrow> kernel \<Rightarrow> u32 step" where
  "chEvtWaitOne emask k =
     (let ctp = currp k; m = epending k ctp AND emask
      in if m = 0 then
           bind (chSchGoSleepS THD_STATE_WTOREVT (set_u ctp (U_ewmask emask) k))
             (\<lambda>_ k1. evt_take_one ctp (epending k1 ctp AND emask) k1)
         else evt_take_one ctp m k)"

definition chEvtWaitAny :: "u32 \<Rightarrow> kernel \<Rightarrow> u32 step" where
  "chEvtWaitAny emask k =
     (let ctp = currp k; m = epending k ctp AND emask
      in if m = 0 then
           bind (chSchGoSleepS THD_STATE_WTOREVT (set_u ctp (U_ewmask emask) k))
             (\<lambda>_ k1. evt_take ctp (epending k1 ctp AND emask) k1)
         else evt_take ctp m k)"

definition chEvtWaitAll :: "u32 \<Rightarrow> kernel \<Rightarrow> u32 step" where
  "chEvtWaitAll emask k =
     (let ctp = currp k
      in if epending k ctp AND emask \<noteq> emask then
           bind (chSchGoSleepS THD_STATE_WTANDEVT (set_u ctp (U_ewmask emask) k))
             (\<lambda>_ k1. evt_take ctp emask k1)
         else evt_take ctp emask k)"

definition chEvtWaitOneTimeout :: "u32 \<Rightarrow> u32 \<Rightarrow> kernel \<Rightarrow> u32 step" where
  "chEvtWaitOneTimeout emask time k =
     (let ctp = currp k; m = epending k ctp AND emask
      in if m = 0 then
           (if TIME_IMMEDIATE = time then Ret 0 k
            else bind (chSchGoSleepTimeoutS THD_STATE_WTOREVT time (set_u ctp (U_ewmask emask) k))
                   (\<lambda>msg k1. if msg < RDY_OK then Ret 0 k1
                             else evt_take_one ctp (epending k1 ctp AND emask) k1))
         else evt_take_one ctp m k)"

definition chEvtWaitAnyTimeout :: "u32 \<Rightarrow> u32 \<Rightarrow> kernel \<Rightarrow> u32 step" where
  "chEvtWaitAnyTimeout emask time k =
     (let ctp = currp k; m = epending k ctp AND emask
      in if m = 0 then
           (if TIME_IMMEDIATE = time then Ret 0 k
            else bind (chSchGoSleepTimeoutS THD_STATE_WTOREVT time (set_u ctp (U_ewmask emask) k))
                   (\<lambda>msg k1. if msg < RDY_OK then Ret 0 k1
                             else evt_take ctp (epending k1 ctp AND emask) k1))
         else evt_take ctp m k)"

definition chEvtWaitAllTimeout :: "u32 \<Rightarrow> u32 \<Rightarrow> kernel \<Rightarrow> u32 step" where
  "chEvtWaitAllTimeout emask time k =
     (let ctp = currp k
      in if epending k ctp AND emask \<noteq> emask then
           (if TIME_IMMEDIATE = time then Ret 0 k
            else bind (chSchGoSleepTimeoutS THD_STATE_WTANDEVT time (set_u ctp (U_ewmask emask) k))
                   (\<lambda>msg k1. if msg < RDY_OK then Ret 0 k1 else evt_take ctp emask k1))
         else evt_take ctp emask k)"

section \<open>Masks\<close>

lemma odd_and_neg: "odd x \<Longrightarrow> x AND - x = (1 :: u32)"
proof -
  assume "odd x"
  then have "bit x 0" by (simp add: bit_0)
  define y where "y = x AND NOT 1"
  have "y + 1 = y OR 1" by (rule disjunctive_add_eq_or)
      (auto intro!: bit_eqI simp: y_def bit_and_iff bit_not_iff bit_1_iff)
  also have "\<dots> = x" using \<open>odd x\<close>
    by (auto intro!: bit_eqI simp: y_def bit_and_iff bit_or_iff bit_not_iff bit_1_iff bit_0)
  finally have "- x = NOT y" by (metis minus_eq_not_plus_1 add_diff_cancel_right' minus_eq_not_minus_1)
  then show ?thesis using \<open>odd x\<close>
    by (auto intro!: bit_eqI simp: y_def bit_and_iff bit_or_iff bit_not_iff bit_1_iff bit_0
        even_and_iff even_or_iff)
qed

text \<open>\<^verbatim>\<open>m & -m\<close> is the lowest bit of \<open>m\<close>.\<close>

lemma lowest_bit:
  assumes "bit (m :: u32) i" "\<And>j. j < i \<Longrightarrow> \<not> bit m j"
  shows "m AND - m = EVENT_MASK i"
proof -
  let ?x = "drop_bit i m"
  have low: "take_bit i m = 0" using assms(2) by (auto intro!: bit_eqI simp: bit_take_bit_iff)
  have m: "m = push_bit i ?x" using bits_ident[of i m] low by simp
  have o: "odd ?x" using assms(1) by (simp add: bit_iff_odd_drop_bit)
  have "- m = push_bit i (- ?x)" by (subst m) (simp add: push_bit_eq_mult)
  then have "m AND - m = push_bit i (?x AND - ?x)" using m by (metis push_bit_and)
  also have "\<dots> = push_bit i 1" using odd_and_neg[OF o] by simp
  finally show ?thesis by (simp add: EVENT_MASK_def)
qed

lemma bit_EVENT_MASK: "bit (EVENT_MASK i) n \<longleftrightarrow> i = n \<and> n < 32"
  by (auto simp: EVENT_MASK_def bit_exp_iff possible_bit_def)

lemma and_EVENT_MASK: "i < 32 \<Longrightarrow> (m AND EVENT_MASK i \<noteq> 0) = bit m i"
proof -
  assume i: "i < 32"
  have "m AND EVENT_MASK i = 0 \<longleftrightarrow> (\<forall>n. \<not> (bit m n \<and> bit (EVENT_MASK i) n))"
    by (auto simp: bit_eq_iff bit_and_iff bit_EVENT_MASK)
  then show ?thesis using i by (auto simp: bit_EVENT_MASK)
qed

text \<open>The identifiers of the events in a mask, lowest first.\<close>

definition event_ids :: "u32 \<Rightarrow> nat list" where
  "event_ids emask = filter (bit emask) [0..<32]"

lemma evt_dispatch_spec:
  assumes "\<And>j. j < eid \<Longrightarrow> \<not> bit emask j" "eid \<le> 32"
  shows "evt_dispatch handlers eid emask st = Some (fold handlers (filter (bit emask) [eid..<32]) st)"
  using assms
proof (induction "32 - eid" arbitrary: eid emask st)
  case 0
  then have "\<not> bit emask j" for j using bit_imp_le_length[of emask j] by (cases "j < 32") auto
  then have "emask = 0" by (simp add: bit_eq_iff)
  then show ?case using 0 by (subst evt_dispatch.simps) simp
next
  case (Suc n)
  then have lt: "eid < 32" by simp
  have up: "[eid..<32] = eid # [Suc eid..<32]" using lt by (simp add: upt_conv_Cons)
  show ?case
  proof (cases "emask = 0")
    case True
    then show ?thesis by (subst evt_dispatch.simps) simp
  next
    case nz: False
    show ?thesis
    proof (cases "bit emask eid")
      case True
      let ?m = "emask AND NOT (EVENT_MASK eid)"
      have b: "bit ?m j \<longleftrightarrow> bit emask j \<and> j \<noteq> eid" for j
        using bit_imp_le_length[of emask j] by (auto simp: bit_and_iff bit_not_iff bit_EVENT_MASK)
      have "evt_dispatch handlers eid emask st = evt_dispatch handlers (eid + 1) ?m (handlers eid st)"
        using nz True lt by (subst evt_dispatch.simps) (simp add: and_EVENT_MASK)
      also have "\<dots> = Some (fold handlers (filter (bit ?m) [Suc eid..<32]) (handlers eid st))"
      proof -
        have "\<not> bit ?m j" if "j < eid + 1" for j using that Suc(3)[of j] b[of j] by (cases "j = eid") auto
        moreover have "n = 32 - (eid + 1)" using Suc(2) by simp
        ultimately show ?thesis using Suc(1)[of "eid + 1" ?m "handlers eid st"] lt by simp
      qed
      also have "filter (bit ?m) [Suc eid..<32] = filter (bit emask) [Suc eid..<32]"
        by (rule filter_cong) (auto simp: b)
      finally show ?thesis using True by (simp add: up)
    next
      case False
      have "evt_dispatch handlers eid emask st = evt_dispatch handlers (eid + 1) emask st"
        using nz False lt by (subst evt_dispatch.simps) (simp add: and_EVENT_MASK)
      also have "\<dots> = Some (fold handlers (filter (bit emask) [Suc eid..<32]) st)"
      proof -
        have "\<not> bit emask j" if "j < eid + 1" for j using that Suc(3)[of j] False by (cases "j = eid") auto
        moreover have "n = 32 - (eid + 1)" using Suc(2) by simp
        ultimately show ?thesis using Suc(1)[of "eid + 1" emask st] lt by simp
      qed
      finally show ?thesis using False by (simp add: up)
    qed
  qed
qed

lemma chEvtDispatch_spec: "chEvtDispatch handlers emask st = Some (fold handlers (event_ids emask) st)"
  by (simp add: chEvtDispatch_def event_ids_def evt_dispatch_spec)

section \<open>The invariant\<close>

lemma set_epending_kinv [simp]: "kinv k \<Longrightarrow> kinv (set_epending t w k)"
  by (simp add: set_epending_def kinv_upd)

lemma set_epending_fields [simp]:
  "currp (set_epending t w k) = currp k" "state (set_epending t w k) u = state k u"
  "p_u (thr (set_epending t w k) u) = p_u (thr k u)" "queues (set_epending t w k) = queues k"
  "epending (set_epending t w k) u = (if u = t then w else epending k u)"
  "prio (set_epending t w k) u = prio k u"
  "es_list (set_epending t w k) = es_list k" "el_listener (set_epending t w k) = el_listener k"
  "el_mask (set_epending t w k) = el_mask k"
  by (simp_all add: set_epending_def upd_thr_def)

lemma kinv_set_u_ready:
  assumes "kinv k" "state k t = THD_STATE_READY"
  shows "kinv (set_u t u k)"
proof -
  have "is_Thd t" using assms by (intro queued_is_Thd[OF kinv_hdr kinv_core, of k t RListQ]) (auto simp: kinv_mem)
  then show ?thesis using assms core_set_u_ready[OF kinv_core[OF assms(1)]]
    by (auto intro!: kinvI simp: kinv_sem kinv_hdr kinv_links)
qed

lemma kinv_ready_unqueued:
  assumes k: "kinv k" and st: "state k t \<in> {THD_STATE_WTOREVT, THD_STATE_WTANDEVT}"
  shows "kinv (chSchReadyI t k)"
proof -
  have th: "is_Thd t" using kinv_hdr[OF k] st by (cases t) (auto simp: hdr_ok_def)
  have h: "home k t = None" using st by (cases "p_u (thr k t)") auto
  have tc: "t \<noteq> currp k" using st kinv_current[OF k, of t] by auto
  have w: "t \<notin> waiters k" using not_waiter[OF kinv_links[OF k], of t] st by auto
  have "core {t} {currp k} k" using core_out[OF kinv_core[OF k] h] tc by simp
  from chSchReadyI_core[OF this, of t] show "kinv (chSchReadyI t k)"
    using th tc w kinv_sem[OF k] kinv_hdr[OF k] kinv_links[OF k] by (auto intro!: kinvI)
qed

lemma chEvtSignalFlagsI_kinv:
  assumes k: "kinv k"
  shows "kinv (chEvtSignalFlagsI t m k)" "currp (chEvtSignalFlagsI t m k) = currp k"
proof -
  let ?k1 = "set_epending t (epending k t OR m) k"
  have "kinv ?k1" using k by simp
  then have "state k t \<in> {THD_STATE_WTOREVT, THD_STATE_WTANDEVT} \<Longrightarrow>
      kinv (set_u t (U_msg RDY_OK) (chSchReadyI t ?k1))"
    by (intro kinv_set_u_ready kinv_ready_unqueued) auto
  then show "kinv (chEvtSignalFlagsI t m k)" using k by (auto simp: chEvtSignalFlagsI_def Let_def)
  show "currp (chEvtSignalFlagsI t m k) = currp k" by (simp add: chEvtSignalFlagsI_def Let_def)
qed

lemma evt_broadcast_kinv: "kinv k \<Longrightarrow> kinv (evt_broadcast els m k)"
  by (induction els m k rule: evt_broadcast.induct) (simp_all add: chEvtSignalFlagsI_kinv)

lemma evt_safe:
  "kinv k \<Longrightarrow> safe (chEvtSignalFlags t m k)" "kinv k \<Longrightarrow> safe (chEvtBroadcastFlags es m k)"
  by (auto simp: chEvtSignalFlags_def chEvtBroadcastFlags_def chEvtBroadcastFlagsI_def
      intro!: chSchRescheduleS_safe chEvtSignalFlagsI_kinv evt_broadcast_kinv)

lemma evt_kinv:
  "kinv k \<Longrightarrow> kinv (chEvtRegisterMask es el m k)" "kinv k \<Longrightarrow> kinv (chEvtUnregister es el k)"
  "kinv k \<Longrightarrow> kinv (snd (chEvtClearFlags m k))" "kinv k \<Longrightarrow> kinv (snd (chEvtAddFlags m k))"
  by (simp_all add: chEvtRegisterMask_def chEvtUnregister_def chEvtClearFlags_def chEvtAddFlags_def Let_def)

lemma evt_take_safe: "kinv k \<Longrightarrow> safe (evt_take t m k)" "kinv k \<Longrightarrow> safe (evt_take_one t m k)"
  by (simp_all add: evt_take_def evt_take_one_def Let_def)

lemma can_sleep_evt:
  assumes "resumed k" "st \<in> {THD_STATE_WTOREVT, THD_STATE_WTANDEVT}"
  shows "can_sleep st (set_u (currp k) u k)"
proof -
  have "waits_in st u = None" using assms(2) by (cases u) auto
  then show ?thesis using assms by (intro can_sleep_unqueued) (auto simp: resumed_def)
qed

lemma evt_wait_safe:
  assumes "resumed k"
  shows "safe (chEvtWaitOne m k)" "safe (chEvtWaitAny m k)" "safe (chEvtWaitAll m k)"
  using can_sleep_evt[OF assms] resumedD[OF assms]
  by (auto simp: chEvtWaitOne_def chEvtWaitAny_def chEvtWaitAll_def Let_def
      intro!: always_bind chSchGoSleepS_safe evt_take_safe)

lemma evt_wait_timeout_safe:
  assumes "resumed k"
  shows "safe (chEvtWaitOneTimeout m n k)" "safe (chEvtWaitAnyTimeout m n k)" "safe (chEvtWaitAllTimeout m n k)"
  using can_sleep_evt[OF assms] resumedD[OF assms]
  by (auto simp: chEvtWaitOneTimeout_def chEvtWaitAnyTimeout_def chEvtWaitAllTimeout_def Let_def
      intro!: always_bind chSchGoSleepTimeoutS_safe evt_take_safe)

section \<open>No event is lost\<close>

text \<open>No thread sleeps on events it already has.\<close>

definition evt_ok :: "kernel \<Rightarrow> bool" where
  "evt_ok k \<longleftrightarrow>
     (\<forall>t. (state k t = THD_STATE_WTOREVT \<longrightarrow> epending k t AND u_ewmask (p_u (thr k t)) = 0)
        \<and> (state k t = THD_STATE_WTANDEVT \<longrightarrow>
             epending k t AND u_ewmask (p_u (thr k t)) \<noteq> u_ewmask (p_u (thr k t))))"

lemma p_epending_chSchReadyI [simp]: "epending (chSchReadyI t k) u = epending k u"
  by (cases "u = t") (simp_all add: chSchReadyI_def Let_def)

lemma epending_set_u [simp]: "epending (set_u t x k) u = epending k u"
  by (cases "u = t") simp_all

lemma state_set_u [simp]: "state (set_u t x k) u = state k u"
  by (cases "u = t") simp_all

lemma evt_ok_signal:
  assumes "evt_ok k"
  shows "evt_ok (chEvtSignalFlagsI t m k)"
  unfolding evt_ok_def
proof (intro allI)
  fix u
  have pu: "u \<noteq> t \<Longrightarrow> p_u (thr (set_u t x k') u) = p_u (thr k' u)" for x k' by simp
  show "(state (chEvtSignalFlagsI t m k) u = THD_STATE_WTOREVT \<longrightarrow>
          epending (chEvtSignalFlagsI t m k) u AND u_ewmask (p_u (thr (chEvtSignalFlagsI t m k) u)) = 0) \<and>
        (state (chEvtSignalFlagsI t m k) u = THD_STATE_WTANDEVT \<longrightarrow>
          epending (chEvtSignalFlagsI t m k) u AND u_ewmask (p_u (thr (chEvtSignalFlagsI t m k) u))
            \<noteq> u_ewmask (p_u (thr (chEvtSignalFlagsI t m k) u)))"
    using assms by (cases "u = t") (simp_all add: chEvtSignalFlagsI_def Let_def evt_ok_def pu)
qed

lemma evt_ok_broadcast: "evt_ok k \<Longrightarrow> evt_ok (evt_broadcast els m k)"
  by (induction els m k rule: evt_broadcast.induct) (simp_all add: evt_ok_signal)

text \<open>A broadcast delivers its flags to every listener.\<close>

lemma epending_signal:
  "epending (chEvtSignalFlagsI t m k) u = (if u = t then epending k u OR m else epending k u)"
  by (simp add: chEvtSignalFlagsI_def Let_def)

lemma el_signal [simp]:
  "el_listener (chEvtSignalFlagsI t m k) = el_listener k" "el_mask (chEvtSignalFlagsI t m k) = el_mask k"
  "es_list (chEvtSignalFlagsI t m k) = es_list k"
  by (simp_all add: chEvtSignalFlagsI_def Let_def)

lemma epending_broadcast:
  "epending (evt_broadcast els m k) u =
     fold (\<lambda>el w. if el_listener k el = u then w OR (el_mask k el OR m) else w) els (epending k u)"
proof (induction els m k rule: evt_broadcast.induct)
  case (2 elp els m k)
  then show ?case by (simp add: epending_signal eq_commute[of u] cong: if_cong)
qed simp

lemma fold_or_mono:
  assumes "bit w n"
  shows "bit (fold (\<lambda>el w. if f el then w OR g el else w) els w) (n :: nat)"
  using assms by (induction els arbitrary: w) (auto simp: bit_or_iff)

lemma broadcast_delivers:
  assumes "el \<in> set (es_list k es)" "bit (el_mask k el OR m) n"
  shows "bit (epending (chEvtBroadcastFlagsI es m k) (el_listener k el)) n"
proof -
  obtain as bs where s: "es_list k es = as @ el # bs" using assms(1) by (auto simp: in_set_conv_decomp)
  show ?thesis using assms(2)
    by (simp add: chEvtBroadcastFlagsI_def epending_broadcast s fold_or_mono bit_or_iff)
qed

end
