(* ===== verification/RingBuffer.thy ===== *)
theory RingBuffer
  imports Prelude
begin

text \<open>
  Cyclic buffers as mailboxes (\<^verbatim>\<open>chmboxes.c\<close>) and I/O queues (\<^verbatim>\<open>chqueues.c\<close>) use
  them: a buffer, a write and a read offset that wrap to the start at its end. The
  content is a list; the locale \<open>bounded_fifo\<close> is the contract the users of such a
  buffer rely on.
\<close>

section \<open>Offsets and content\<close>

text \<open>\<^verbatim>\<open>p++; if (p >= top) p = buffer\<close> and \<^verbatim>\<open>if (--p < buffer) p = top - 1\<close>.\<close>

definition ring_next :: "nat \<Rightarrow> nat \<Rightarrow> nat" where
  "ring_next n i = (if n \<le> i + 1 then 0 else i + 1)"

definition ring_prev :: "nat \<Rightarrow> nat \<Rightarrow> nat" where
  "ring_prev n i = (if i = 0 then n - 1 else i - 1)"

definition ring_content :: "'a list \<Rightarrow> nat \<Rightarrow> nat \<Rightarrow> 'a list" where
  "ring_content buf rd n = map (\<lambda>i. buf ! ((rd + i) mod length buf)) [0..<n]"

lemma ring_next_mod: "i < n \<Longrightarrow> ring_next n i = (i + 1) mod n"
  by (auto simp: ring_next_def not_le mod_if)

lemma ring_next_less: "i < n \<Longrightarrow> ring_next n i < n"
  by (auto simp: ring_next_def)

lemma ring_prev_less: "i < n \<Longrightarrow> ring_prev n i < n"
  by (auto simp: ring_prev_def)

lemma ring_next_prev: "i < n \<Longrightarrow> ring_next n (ring_prev n i) = i"
  by (auto simp: ring_next_def ring_prev_def)

lemma length_ring_content [simp]: "length (ring_content buf rd n) = n"
  by (simp add: ring_content_def)

lemma ring_content_0 [simp]: "ring_content buf rd 0 = []"
  by (simp add: ring_content_def)

lemma mod_add_inj:
  fixes m :: nat
  assumes "i < m" "j < m" "(r + i) mod m = (r + j) mod m"
  shows "i = j"
proof -
  have less: "a \<ge> b" if "a < m" "b < m" "(r + a) mod m = (r + b) mod m" for a b
  proof (rule ccontr)
    assume "\<not> b \<le> a"
    then have "m dvd (r + b) - (r + a)" using that(3) by (intro mod_eq_dvd_iff_nat[THEN iffD1]) auto
    then have "m dvd b - a" by simp
    then show False using \<open>\<not> b \<le> a\<close> that(1,2) by (auto dest!: dvd_imp_le)
  qed
  show ?thesis using less[of i j] less[of j i] assms by simp
qed

lemma ring_content_put:
  assumes "n < length buf"
  shows "ring_content (buf[(rd + n) mod length buf := x]) rd (Suc n) = ring_content buf rd n @ [x]"
proof -
  let ?w = "(rd + n) mod length buf"
  have w: "?w < length buf" using assms by (intro mod_less_divisor) linarith
  have "buf[?w := x] ! ((rd + i) mod length buf) = buf ! ((rd + i) mod length buf)" if "i < n" for i
    using mod_add_inj[of i "length buf" n rd] that assms by (intro nth_list_update_neq) auto
  then show ?thesis using w by (simp add: ring_content_def)
qed

lemma ring_content_get:
  assumes "0 < n" "rd < length buf"
  shows "ring_content buf rd n = buf ! rd # ring_content buf (ring_next (length buf) rd) (n - 1)"
proof -
  have "[0..<n] = 0 # map Suc [0..<n - 1]" using assms(1) by (cases n) (simp_all add: upt_conv_Cons map_Suc_upt del: upt_Suc)
  moreover have "(rd + Suc i) mod length buf = (ring_next (length buf) rd + i) mod length buf" for i
    using assms(2) by (simp add: ring_next_mod mod_add_left_eq)
  ultimately show ?thesis using assms(2) by (simp add: ring_content_def)
qed

lemma ring_content_ahead:
  assumes "n < length buf" "rd < length buf"
  shows "ring_content (buf[ring_prev (length buf) rd := x]) (ring_prev (length buf) rd) (Suc n)
     = x # ring_content buf rd n"
proof -
  let ?l = "length buf" and ?p = "ring_prev (length buf) rd"
  have p: "?p < ?l" "ring_next ?l ?p = rd" using assms(2) by (simp_all add: ring_prev_less ring_next_prev)
  have ne: "(rd + i) mod ?l \<noteq> ?p" if "i < n" for i
  proof
    assume e: "(rd + i) mod ?l = ?p"
    have "(?p + 1) mod ?l = rd" using p by (simp add: ring_next_mod)
    then have "(?p + Suc i) mod ?l = ?p mod ?l" using e p(1) by (metis add_Suc_right add.commute add_Suc mod_add_left_eq mod_less plus_1_eq_Suc)
    then have "(?p + Suc i) mod ?l = (?p + 0) mod ?l" by simp
    from mod_add_inj[OF _ _ this] that assms show False by (cases buf) auto
  qed
  have "buf[?p := x] ! ((rd + i) mod ?l) = buf ! ((rd + i) mod ?l)" if "i < n" for i
    using ne[OF that] by (intro nth_list_update_neq) simp
  then have "ring_content (buf[?p := x]) rd n = ring_content buf rd n"
    by (auto simp: ring_content_def)
  then show ?thesis using p ring_content_get[of "Suc n" ?p "buf[?p := x]"] by simp
qed

lemma ring_wr_step: "rd < l \<Longrightarrow> ring_next l ((rd + n) mod l) = (rd + Suc n) mod (l :: nat)"
proof -
  assume "rd < l"
  then have "(rd + n) mod l < l" by (intro mod_less_divisor) linarith
  then show ?thesis by (simp add: ring_next_mod mod_Suc_eq)
qed

lemma ring_rd_step: "rd < l \<Longrightarrow> 0 < n \<Longrightarrow> (ring_next l rd + (n - 1)) mod l = (rd + n) mod (l :: nat)"
  by (cases n) (simp_all add: ring_next_mod mod_add_left_eq)

lemma ring_distance: "r < l \<Longrightarrow> ((r + n) mod l + l - r) mod l = n mod (l :: nat)"
proof -
  assume r: "r < l"
  then have "((r + n) mod l + l - r) mod l = ((r + n) mod l + (l - r)) mod l" by simp
  also have "\<dots> = (r + n + (l - r)) mod l" by (rule mod_add_left_eq)
  also have "r + n + (l - r) = n + l" using r by simp
  finally show ?thesis by simp
qed

lemma ring_prev_step: "rd < l \<Longrightarrow> (ring_prev l rd + Suc n) mod l = (rd + n) mod (l :: nat)"
  using ring_next_mod[of "ring_prev l rd" l] ring_next_prev[of rd l] ring_prev_less[of rd l]
  by (metis add.commute add_Suc_right mod_add_left_eq plus_1_eq_Suc)

section \<open>The contract\<close>

datatype 'a fifo_op = Put 'a | Get

text \<open>What a sequence of operations accepts, what it delivers, and the state after it.\<close>

fun fifo_run :: "('a \<Rightarrow> 's \<Rightarrow> 's option) \<Rightarrow> ('s \<Rightarrow> ('a \<times> 's) option) \<Rightarrow> 'a fifo_op list \<Rightarrow> 's
    \<Rightarrow> 'a list \<times> 'a list \<times> 's" where
  "fifo_run put get [] s = ([], [], s)"
| "fifo_run put get (Put x # os) s =
     (case put x s of
        None \<Rightarrow> fifo_run put get os s
      | Some s' \<Rightarrow> (case fifo_run put get os s' of (i, d, s'') \<Rightarrow> (x # i, d, s'')))"
| "fifo_run put get (Get # os) s =
     (case get s of
        None \<Rightarrow> fifo_run put get os s
      | Some (x, s') \<Rightarrow> (case fifo_run put get os s' of (i, d, s'') \<Rightarrow> (i, x # d, s'')))"

locale bounded_fifo =
  fixes inv :: "'s \<Rightarrow> bool" and content :: "'s \<Rightarrow> 'a list" and cap :: "'s \<Rightarrow> nat"
    and put :: "'a \<Rightarrow> 's \<Rightarrow> 's option" and get :: "'s \<Rightarrow> ('a \<times> 's) option"
  assumes put_room: "inv s \<Longrightarrow> length (content s) < cap s \<Longrightarrow>
      \<exists>s'. put x s = Some s' \<and> inv s' \<and> content s' = content s @ [x] \<and> cap s' = cap s"
    and put_full: "inv s \<Longrightarrow> cap s \<le> length (content s) \<Longrightarrow> put x s = None"
    and get_some: "inv s \<Longrightarrow> content s = x # xs \<Longrightarrow>
      \<exists>s'. get s = Some (x, s') \<and> inv s' \<and> content s' = xs \<and> cap s' = cap s"
    and get_none: "inv s \<Longrightarrow> content s = [] \<Longrightarrow> get s = None"
    and bounded: "inv s \<Longrightarrow> length (content s) \<le> cap s"
begin

text \<open>
  Nothing is lost, duplicated or reordered: what was in the buffer followed by what was
  accepted is what was delivered followed by what is left.
\<close>

lemma conservation:
  assumes "inv s" "fifo_run put get os s = (i, d, s')"
  shows "content s @ i = d @ content s' \<and> inv s' \<and> cap s' = cap s"
  using assms
proof (induction os arbitrary: s i d)
  case (Cons oper os)
  show ?case
  proof (cases oper)
    case (Put x)
    show ?thesis
    proof (cases "length (content s) < cap s")
      case True
      then obtain s1 where s1: "put x s = Some s1" "inv s1" "content s1 = content s @ [x]" "cap s1 = cap s"
        using put_room[OF Cons.prems(1)] by blast
      then obtain i' where "fifo_run put get os s1 = (i', d, s')" "i = x # i'"
        using Cons.prems(2) Put by (auto split: prod.splits)
      then show ?thesis using Cons.IH[OF s1(2)] s1 by fastforce
    next
      case False
      then have "put x s = None" using put_full[OF Cons.prems(1)] by simp
      then show ?thesis using Cons.IH[OF Cons.prems(1)] Cons.prems(2) Put by simp
    qed
  next
    case Get
    show ?thesis
    proof (cases "content s")
      case Nil
      then have "get s = None" using get_none[OF Cons.prems(1)] by simp
      then show ?thesis using Cons.IH[OF Cons.prems(1)] Cons.prems(2) Get by simp
    next
      case (Cons y ys)
      then obtain s1 where s1: "get s = Some (y, s1)" "inv s1" "content s1 = ys" "cap s1 = cap s"
        using get_some[OF Cons.prems(1)] by blast
      then obtain d' where "fifo_run put get os s1 = (i, d', s')" "d = y # d'"
        using Cons.prems(2) Get by (auto split: prod.splits)
      then show ?thesis using Cons.IH[OF s1(2)] s1 Cons by fastforce
    qed
  qed
qed simp

end

end
