(* ===== verification/Mailboxes.thy ===== *)
theory Mailboxes
  imports Events RingBuffer
begin

text \<open>
  Mailboxes (\<^verbatim>\<open>os/kernel/src/chmboxes.c\<close>): a cyclic buffer of messages, a semaphore
  counting the messages and one counting the free places.
\<close>

section \<open>Operations\<close>

definition set_mb :: "nat \<Rightarrow> (mailbox \<Rightarrow> mailbox) \<Rightarrow> kernel \<Rightarrow> kernel" where
  "set_mb mbp f k = k\<lparr>mbox := (mbox k)(mbp := f (mbox k mbp))\<rparr>"

definition mb_size :: "mailbox \<Rightarrow> nat" where
  "mb_size M = length (mb_buffer M)"

definition chMBInit :: "nat \<Rightarrow> int list \<Rightarrow> kernel \<Rightarrow> kernel" where
  "chMBInit mbp buf k =
     (let k1 = set_mb mbp (\<lambda>M. M\<lparr>mb_buffer := buf, mb_wrptr := 0, mb_rdptr := 0\<rparr>) k;
          k2 = chSemInit (mb_emptysem (mbox k1 mbp)) (int (length buf)) k1
      in chSemInit (mb_fullsem (mbox k2 mbp)) 0 k2)"

definition chMBReset :: "nat \<Rightarrow> kernel \<Rightarrow> unit step" where
  "chMBReset mbp k =
     (let k1 = set_mb mbp (\<lambda>M. M\<lparr>mb_wrptr := 0, mb_rdptr := 0\<rparr>) k;
          k2 = chSemResetI (mb_emptysem (mbox k1 mbp)) (int (mb_size (mbox k1 mbp))) k1;
          k3 = chSemResetI (mb_fullsem (mbox k2 mbp)) 0 k2
      in chSchRescheduleS k3)"

text \<open>\<^verbatim>\<open>*mbp->mb_wrptr++ = msg\<close>, \<^verbatim>\<open>*--mbp->mb_rdptr = msg\<close> and \<^verbatim>\<open>*msgp = *mbp->mb_rdptr++\<close>, with the wrap.\<close>

definition mb_write :: "int \<Rightarrow> mailbox \<Rightarrow> mailbox" where
  "mb_write msg M = M\<lparr>mb_buffer := (mb_buffer M)[mb_wrptr M := msg],
                      mb_wrptr := ring_next (mb_size M) (mb_wrptr M)\<rparr>"

definition mb_write_ahead :: "int \<Rightarrow> mailbox \<Rightarrow> mailbox" where
  "mb_write_ahead msg M =
     (let rd = ring_prev (mb_size M) (mb_rdptr M)
      in M\<lparr>mb_rdptr := rd, mb_buffer := (mb_buffer M)[rd := msg]\<rparr>)"

definition mb_read :: "mailbox \<Rightarrow> int \<times> mailbox" where
  "mb_read M = (mb_buffer M ! mb_rdptr M, M\<lparr>mb_rdptr := ring_next (mb_size M) (mb_rdptr M)\<rparr>)"

definition mb_post_end :: "nat \<Rightarrow> int \<Rightarrow> kernel \<Rightarrow> kernel" where
  "mb_post_end mbp msg k =
     (let k1 = set_mb mbp (mb_write msg) k in chSemSignalI (mb_fullsem (mbox k1 mbp)) k1)"

definition mb_ahead_end :: "nat \<Rightarrow> int \<Rightarrow> kernel \<Rightarrow> kernel" where
  "mb_ahead_end mbp msg k =
     (let k1 = set_mb mbp (mb_write_ahead msg) k in chSemSignalI (mb_fullsem (mbox k1 mbp)) k1)"

definition mb_fetch_end :: "nat \<Rightarrow> kernel \<Rightarrow> int \<times> kernel" where
  "mb_fetch_end mbp k =
     (let (m, M) = mb_read (mbox k mbp); k1 = set_mb mbp (\<lambda>_. M) k
      in (m, chSemSignalI (mb_emptysem (mbox k1 mbp)) k1))"

definition chMBPostS :: "nat \<Rightarrow> int \<Rightarrow> u32 \<Rightarrow> kernel \<Rightarrow> int step" where
  "chMBPostS mbp msg time k =
     bind (chSemWaitTimeoutS (mb_emptysem (mbox k mbp)) time k)
       (\<lambda>rdymsg k1. if rdymsg = RDY_OK
          then bind (chSchRescheduleS (mb_post_end mbp msg k1)) (\<lambda>_. Ret rdymsg)
          else Ret rdymsg k1)"

definition chMBPost :: "nat \<Rightarrow> int \<Rightarrow> u32 \<Rightarrow> kernel \<Rightarrow> int step" where
  "chMBPost mbp msg time = chMBPostS mbp msg time"

definition chMBPostI :: "nat \<Rightarrow> int \<Rightarrow> kernel \<Rightarrow> int \<times> kernel" where
  "chMBPostI mbp msg k =
     (if chSemGetCounterI (mb_emptysem (mbox k mbp)) k \<le> 0 then (RDY_TIMEOUT, k)
      else (RDY_OK, mb_post_end mbp msg (chSemFastWaitI (mb_emptysem (mbox k mbp)) k)))"

definition chMBPostAheadS :: "nat \<Rightarrow> int \<Rightarrow> u32 \<Rightarrow> kernel \<Rightarrow> int step" where
  "chMBPostAheadS mbp msg time k =
     bind (chSemWaitTimeoutS (mb_emptysem (mbox k mbp)) time k)
       (\<lambda>rdymsg k1. if rdymsg = RDY_OK
          then bind (chSchRescheduleS (mb_ahead_end mbp msg k1)) (\<lambda>_. Ret rdymsg)
          else Ret rdymsg k1)"

definition chMBPostAhead :: "nat \<Rightarrow> int \<Rightarrow> u32 \<Rightarrow> kernel \<Rightarrow> int step" where
  "chMBPostAhead mbp msg time = chMBPostAheadS mbp msg time"

definition chMBPostAheadI :: "nat \<Rightarrow> int \<Rightarrow> kernel \<Rightarrow> int \<times> kernel" where
  "chMBPostAheadI mbp msg k =
     (if chSemGetCounterI (mb_emptysem (mbox k mbp)) k \<le> 0 then (RDY_TIMEOUT, k)
      else (RDY_OK, mb_ahead_end mbp msg (chSemFastWaitI (mb_emptysem (mbox k mbp)) k)))"

text \<open>Fetching returns the status and, when it is \<^verbatim>\<open>RDY_OK\<close>, the message stored in \<^verbatim>\<open>*msgp\<close>.\<close>

definition chMBFetchS :: "nat \<Rightarrow> u32 \<Rightarrow> kernel \<Rightarrow> (int \<times> int option) step" where
  "chMBFetchS mbp time k =
     bind (chSemWaitTimeoutS (mb_fullsem (mbox k mbp)) time k)
       (\<lambda>rdymsg k1. if rdymsg = RDY_OK
          then (case mb_fetch_end mbp k1 of
                  (m, k2) \<Rightarrow> bind (chSchRescheduleS k2) (\<lambda>_. Ret (rdymsg, Some m)))
          else Ret (rdymsg, None) k1)"

definition chMBFetch :: "nat \<Rightarrow> u32 \<Rightarrow> kernel \<Rightarrow> (int \<times> int option) step" where
  "chMBFetch mbp time = chMBFetchS mbp time"

definition chMBFetchI :: "nat \<Rightarrow> kernel \<Rightarrow> (int \<times> int option) \<times> kernel" where
  "chMBFetchI mbp k =
     (if chSemGetCounterI (mb_fullsem (mbox k mbp)) k \<le> 0 then ((RDY_TIMEOUT, None), k)
      else (case mb_fetch_end mbp (chSemFastWaitI (mb_fullsem (mbox k mbp)) k) of
              (m, k1) \<Rightarrow> ((RDY_OK, Some m), k1)))"

definition chMBSizeI :: "nat \<Rightarrow> kernel \<Rightarrow> nat" where
  "chMBSizeI mbp k = mb_size (mbox k mbp)"

definition chMBGetFreeCountI :: "nat \<Rightarrow> kernel \<Rightarrow> int" where
  "chMBGetFreeCountI mbp k = chSemGetCounterI (mb_emptysem (mbox k mbp)) k"

definition chMBGetUsedCountI :: "nat \<Rightarrow> kernel \<Rightarrow> int" where
  "chMBGetUsedCountI mbp k = chSemGetCounterI (mb_fullsem (mbox k mbp)) k"

definition chMBPeekI :: "nat \<Rightarrow> kernel \<Rightarrow> int" where
  "chMBPeekI mbp k = mb_buffer (mbox k mbp) ! mb_rdptr (mbox k mbp)"

section \<open>The buffer and its semaphores\<close>

text \<open>
  A semaphore that is signalled while threads wait gives its unit to the first of them,
  which uses it later, when it runs. \<open>pf\<close> and \<open>pp\<close> count the fetching and the posting
  threads that were given a message or a place and have not run yet; \<open>n\<close> messages are
  in the buffer.
\<close>

definition mb_ok :: "nat \<Rightarrow> nat \<Rightarrow> nat \<Rightarrow> kernel \<Rightarrow> nat \<Rightarrow> bool" where
  "mb_ok pf pp n k mbp \<longleftrightarrow>
     (let M = mbox k mbp; l = mb_size M
      in mb_fullsem M \<noteq> mb_emptysem M \<and> mb_rdptr M < l \<and> n \<le> l
         \<and> mb_wrptr M = (mb_rdptr M + n) mod l
         \<and> int n = max 0 (s_cnt k (mb_fullsem M)) + int pf
         \<and> int (l - n) = max 0 (s_cnt k (mb_emptysem M)) + int pp)"

definition mb_content :: "nat \<Rightarrow> kernel \<Rightarrow> nat \<Rightarrow> int list" where
  "mb_content n k mbp = ring_content (mb_buffer (mbox k mbp)) (mb_rdptr (mbox k mbp)) n"

lemma mb_size_simps [simp]:
  "mb_size (mb_write m M) = mb_size M" "mb_size (mb_write_ahead m M) = mb_size M"
  "mb_size (snd (mb_read M)) = mb_size M"
  "mb_fullsem (mb_write m M) = mb_fullsem M" "mb_emptysem (mb_write m M) = mb_emptysem M"
  "mb_fullsem (mb_write_ahead m M) = mb_fullsem M" "mb_emptysem (mb_write_ahead m M) = mb_emptysem M"
  "mb_fullsem (snd (mb_read M)) = mb_fullsem M" "mb_emptysem (snd (mb_read M)) = mb_emptysem M"
  by (simp_all add: mb_size_def mb_write_def mb_write_ahead_def mb_read_def Let_def)

lemma set_mb_fields [simp]:
  "mbox (set_mb b f k) = (mbox k)(b := f (mbox k b))" "s_cnt (set_mb b f k) = s_cnt k"
  "queues (set_mb b f k) = queues k" "thr (set_mb b f k) = thr k" "currp (set_mb b f k) = currp k"
  "kinv (set_mb b f k) = kinv k"
  by (simp_all add: set_mb_def)

lemma mbox_chSemSignalI [simp]: "mbox (chSemSignalI s k) = mbox k"
  by (simp add: chSemSignalI_def Let_def fifo_remove_def split: list.split)

lemma chSemFastWaitI_set: "chSemFastWaitI s k = set_cnt s (s_cnt k s - 1) k"
  by (simp add: chSemFastWaitI_def set_cnt_def)

text \<open>The three accesses to the buffer.\<close>

lemma mb_write_ok:
  assumes "mb_rdptr M < mb_size M" "n < mb_size M" "mb_wrptr M = (mb_rdptr M + n) mod mb_size M"
  shows "ring_content (mb_buffer (mb_write m M)) (mb_rdptr (mb_write m M)) (Suc n)
      = ring_content (mb_buffer M) (mb_rdptr M) n @ [m]"
    "mb_rdptr (mb_write m M) = mb_rdptr M"
    "mb_wrptr (mb_write m M) = (mb_rdptr M + Suc n) mod mb_size M"
  using assms ring_content_put[of n "mb_buffer M" "mb_rdptr M" m] ring_wr_step[of "mb_rdptr M" "mb_size M" n]
  by (simp_all add: mb_write_def mb_size_def)

lemma mb_write_ahead_ok:
  assumes "mb_rdptr M < mb_size M" "n < mb_size M" "mb_wrptr M = (mb_rdptr M + n) mod mb_size M"
  shows "ring_content (mb_buffer (mb_write_ahead m M)) (mb_rdptr (mb_write_ahead m M)) (Suc n)
      = m # ring_content (mb_buffer M) (mb_rdptr M) n"
    "mb_rdptr (mb_write_ahead m M) < mb_size M"
    "mb_wrptr (mb_write_ahead m M) = (mb_rdptr (mb_write_ahead m M) + Suc n) mod mb_size M"
  using assms ring_content_ahead[of n "mb_buffer M" "mb_rdptr M" m]
    ring_prev_step[of "mb_rdptr M" "mb_size M" n] ring_prev_less[of "mb_rdptr M" "mb_size M"]
  by (simp_all add: mb_write_ahead_def mb_size_def Let_def)

lemma mb_read_ok:
  assumes "mb_rdptr M < mb_size M" "0 < n" "mb_wrptr M = (mb_rdptr M + n) mod mb_size M"
  shows "ring_content (mb_buffer M) (mb_rdptr M) n
      = fst (mb_read M) # ring_content (mb_buffer (snd (mb_read M))) (mb_rdptr (snd (mb_read M))) (n - 1)"
    "mb_rdptr (snd (mb_read M)) < mb_size M"
    "mb_wrptr (snd (mb_read M)) = (mb_rdptr (snd (mb_read M)) + (n - 1)) mod mb_size M"
  using assms ring_content_get[of n "mb_rdptr M" "mb_buffer M"]
    ring_rd_step[of "mb_rdptr M" "mb_size M" n] ring_next_less[of "mb_rdptr M" "mb_size M"]
  by (simp_all add: mb_read_def mb_size_def)

lemma mb_okD:
  assumes "mb_ok pf pp n k b"
  shows "mb_fullsem (mbox k b) \<noteq> mb_emptysem (mbox k b)" "mb_rdptr (mbox k b) < mb_size (mbox k b)"
    "n \<le> mb_size (mbox k b)" "mb_wrptr (mbox k b) = (mb_rdptr (mbox k b) + n) mod mb_size (mbox k b)"
    "int n = max 0 (s_cnt k (mb_fullsem (mbox k b))) + int pf"
    "int (mb_size (mbox k b) - n) = max 0 (s_cnt k (mb_emptysem (mbox k b))) + int pp"
  using assms by (simp_all add: mb_ok_def Let_def)

text \<open>A posting thread that has a place uses it; a waiting fetcher is given the message.\<close>

lemma mb_post_end_ok:
  assumes k: "mb_ok pf (Suc pp) n k b"
  shows "mb_ok (if s_cnt k (mb_fullsem (mbox k b)) < 0 then Suc pf else pf) pp (Suc n) (mb_post_end b m k) b"
    "mb_content (Suc n) (mb_post_end b m k) b = mb_content n k b @ [m]"
proof -
  note d = mb_okD[OF k]
  have n: "n < mb_size (mbox k b)" using d(6) by linarith
  note w = mb_write_ok[OF d(2) n d(4), of m]
  have f: "mbox (mb_post_end b m k) b = mb_write m (mbox k b)"
    "s_cnt (mb_post_end b m k) = (s_cnt k)(mb_fullsem (mbox k b) := s_cnt k (mb_fullsem (mbox k b)) + 1)"
    by (simp_all add: mb_post_end_def Let_def)
  show "mb_ok (if s_cnt k (mb_fullsem (mbox k b)) < 0 then Suc pf else pf) pp (Suc n) (mb_post_end b m k) b"
    using d n w by (auto simp: mb_ok_def Let_def f max_def split: if_splits)
  show "mb_content (Suc n) (mb_post_end b m k) b = mb_content n k b @ [m]"
    using w by (simp add: mb_content_def f)
qed

lemma mb_ahead_end_ok:
  assumes k: "mb_ok pf (Suc pp) n k b"
  shows "mb_ok (if s_cnt k (mb_fullsem (mbox k b)) < 0 then Suc pf else pf) pp (Suc n) (mb_ahead_end b m k) b"
    "mb_content (Suc n) (mb_ahead_end b m k) b = m # mb_content n k b"
proof -
  note d = mb_okD[OF k]
  have n: "n < mb_size (mbox k b)" using d(6) by linarith
  note w = mb_write_ahead_ok[OF d(2) n d(4), of m]
  have f: "mbox (mb_ahead_end b m k) b = mb_write_ahead m (mbox k b)"
    "s_cnt (mb_ahead_end b m k) = (s_cnt k)(mb_fullsem (mbox k b) := s_cnt k (mb_fullsem (mbox k b)) + 1)"
    by (simp_all add: mb_ahead_end_def Let_def)
  show "mb_ok (if s_cnt k (mb_fullsem (mbox k b)) < 0 then Suc pf else pf) pp (Suc n) (mb_ahead_end b m k) b"
    using d n w by (auto simp: mb_ok_def Let_def f max_def split: if_splits)
  show "mb_content (Suc n) (mb_ahead_end b m k) b = m # mb_content n k b"
    using w by (simp add: mb_content_def f)
qed

lemma mb_fetch_end_ok:
  assumes k: "mb_ok (Suc pf) pp n k b"
  shows "mb_ok pf (if s_cnt k (mb_emptysem (mbox k b)) < 0 then Suc pp else pp) (n - 1)
      (snd (mb_fetch_end b k)) b"
    "mb_content n k b = fst (mb_fetch_end b k) # mb_content (n - 1) (snd (mb_fetch_end b k)) b"
    "0 < n"
proof -
  note d = mb_okD[OF k]
  show n: "0 < n" using d(5) by linarith
  note w = mb_read_ok[OF d(2) n d(4)]
  have f: "mbox (snd (mb_fetch_end b k)) b = snd (mb_read (mbox k b))" "fst (mb_fetch_end b k) = fst (mb_read (mbox k b))"
    "s_cnt (snd (mb_fetch_end b k)) = (s_cnt k)(mb_emptysem (mbox k b) := s_cnt k (mb_emptysem (mbox k b)) + 1)"
    by (simp_all add: mb_fetch_end_def Let_def split: prod.split) (metis mb_size_simps(9) snd_conv)
  show "mb_ok pf (if s_cnt k (mb_emptysem (mbox k b)) < 0 then Suc pp else pp) (n - 1) (snd (mb_fetch_end b k)) b"
    using d n w by (auto simp: mb_ok_def Let_def f max_def split: if_splits)
  show "mb_content n k b = fst (mb_fetch_end b k) # mb_content (n - 1) (snd (mb_fetch_end b k)) b"
    using w by (simp add: mb_content_def f)
qed

text \<open>Taking a unit of a semaphore, or queueing on it, or giving up.\<close>

lemma mb_ok_take:
  assumes "mb_ok pf pp n k b"
  shows "0 < s_cnt k (mb_emptysem (mbox k b)) \<Longrightarrow>
      mb_ok pf (Suc pp) n (chSemFastWaitI (mb_emptysem (mbox k b)) k) b"
    "0 < s_cnt k (mb_fullsem (mbox k b)) \<Longrightarrow>
      mb_ok (Suc pf) pp n (chSemFastWaitI (mb_fullsem (mbox k b)) k) b"
    "s_cnt k (mb_emptysem (mbox k b)) \<le> 0 \<Longrightarrow> mb_ok pf pp n (chSemFastWaitI (mb_emptysem (mbox k b)) k) b"
    "s_cnt k (mb_fullsem (mbox k b)) \<le> 0 \<Longrightarrow> mb_ok pf pp n (chSemFastWaitI (mb_fullsem (mbox k b)) k) b"
    "s_cnt k s < 0 \<Longrightarrow> mb_ok pf pp n (chSemFastSignalI s k) b"
  using mb_okD[OF assms] by (auto simp: mb_ok_def Let_def chSemFastWaitI_def chSemFastSignalI_def max_def split: if_splits)

lemma mb_content_take [simp]: "mb_content n (chSemFastWaitI s k) b = mb_content n k b"
  by (simp add: mb_content_def chSemFastWaitI_def)

section \<open>The mailbox as a bounded queue\<close>

text \<open>With no thread waiting, the lock-context calls are the operations of a bounded queue.\<close>

definition mb_calm :: "nat \<Rightarrow> kernel \<Rightarrow> bool" where
  "mb_calm b k \<longleftrightarrow> kinv k \<and> mb_ok 0 0 (nat (chMBGetUsedCountI b k)) k b
     \<and> 0 \<le> chMBGetUsedCountI b k \<and> 0 \<le> chMBGetFreeCountI b k"

definition mb_list :: "nat \<Rightarrow> kernel \<Rightarrow> int list" where
  "mb_list b k = mb_content (nat (chMBGetUsedCountI b k)) k b"

definition mb_put :: "nat \<Rightarrow> int \<Rightarrow> kernel \<Rightarrow> kernel option" where
  "mb_put b m k = (case chMBPostI b m k of (r, k') \<Rightarrow> if r = RDY_OK then Some k' else None)"

definition mb_get :: "nat \<Rightarrow> kernel \<Rightarrow> (int \<times> kernel) option" where
  "mb_get b k = (case chMBFetchI b k of ((r, m), k') \<Rightarrow> map_option (\<lambda>x. (x, k')) m)"

lemma mb_post_end_kinv: "kinv k \<Longrightarrow> kinv (mb_post_end b m k)"
  by (simp add: mb_post_end_def Let_def chSemSignalI_kinv)

lemma mb_ahead_end_kinv: "kinv k \<Longrightarrow> kinv (mb_ahead_end b m k)"
  by (simp add: mb_ahead_end_def Let_def chSemSignalI_kinv)

lemma mb_fetch_end_kinv: "kinv k \<Longrightarrow> kinv (snd (mb_fetch_end b k))"
  by (simp add: mb_fetch_end_def Let_def chSemSignalI_kinv split: prod.split)

lemma kinv_fast_wait: "kinv k \<Longrightarrow> 0 < s_cnt k s \<Longrightarrow> kinv (chSemFastWaitI s k)"
  using kinv_down[of k s] by (simp add: chSemFastWaitI_set)

lemma mb_fetch_end_mbox:
  "mbox (snd (mb_fetch_end b k)) b = snd (mb_read (mbox k b))"
  "s_cnt (snd (mb_fetch_end b k)) = (s_cnt k)(mb_emptysem (mbox k b) := s_cnt k (mb_emptysem (mbox k b)) + 1)"
  by (simp_all add: mb_fetch_end_def Let_def split: prod.split) (metis mb_size_simps(9) snd_conv)

lemma mb_calm_put:
  assumes k: "mb_calm b k" and e: "0 < chMBGetFreeCountI b k"
  shows "\<exists>k'. mb_put b m k = Some k' \<and> mb_calm b k' \<and> mb_list b k' = mb_list b k @ [m]
     \<and> chMBSizeI b k' = chMBSizeI b k"
proof -
  let ?E = "mb_emptysem (mbox k b)" and ?F = "mb_fullsem (mbox k b)"
  let ?k1 = "chSemFastWaitI ?E k" and ?n = "nat (chMBGetUsedCountI b k)"
  let ?k' = "mb_post_end b m ?k1"
  note k' = k[unfolded mb_calm_def]
  have ne: "?F \<noteq> ?E" using k' mb_okD(1) by blast
  have e': "0 < s_cnt k ?E" using e by (simp add: chMBGetFreeCountI_def chSemGetCounterI_def)
  have m1: "mbox ?k1 = mbox k" "s_cnt ?k1 = (s_cnt k)(?E := s_cnt k ?E - 1)"
    by (simp_all add: chSemFastWaitI_def)
  have "mb_ok 0 (Suc 0) ?n ?k1 b" using k' e' by (intro mb_ok_take(1)) auto
  from mb_post_end_ok[OF this, of m]
  have ok: "mb_ok 0 0 (Suc ?n) ?k' b" "mb_content (Suc ?n) ?k' b = mb_content ?n k b @ [m]"
    using k' ne by (auto simp: m1 chMBGetUsedCountI_def chSemGetCounterI_def)
  have cnt: "chMBGetUsedCountI b ?k' = chMBGetUsedCountI b k + 1" "chMBGetFreeCountI b ?k' = chMBGetFreeCountI b k - 1"
    using ne by (simp_all add: chMBGetUsedCountI_def chMBGetFreeCountI_def chSemGetCounterI_def mb_post_end_def Let_def m1)
  have n: "nat (chMBGetUsedCountI b ?k') = Suc ?n" using k' cnt by (simp add: nat_add_distrib)
  have "kinv ?k'" using k' e' by (intro mb_post_end_kinv kinv_fast_wait) auto
  then have "mb_calm b ?k'" using ok n cnt k' e by (simp add: mb_calm_def)
  moreover have "mb_list b ?k' = mb_list b k @ [m]" using ok n by (simp add: mb_list_def)
  moreover have "chMBSizeI b ?k' = chMBSizeI b k" by (simp add: chMBSizeI_def mb_post_end_def Let_def m1)
  moreover have "mb_put b m k = Some ?k'" using e'
    by (simp add: mb_put_def chMBPostI_def chSemGetCounterI_def)
  ultimately show ?thesis by blast
qed

lemma mb_calm_get:
  assumes k: "mb_calm b k" and e: "0 < chMBGetUsedCountI b k"
  shows "\<exists>x k'. mb_get b k = Some (x, k') \<and> mb_calm b k' \<and> mb_list b k = x # mb_list b k'
     \<and> chMBSizeI b k' = chMBSizeI b k"
proof -
  let ?E = "mb_emptysem (mbox k b)" and ?F = "mb_fullsem (mbox k b)"
  let ?k1 = "chSemFastWaitI ?F k" and ?n = "nat (chMBGetUsedCountI b k)"
  let ?k' = "snd (mb_fetch_end b ?k1)"
  note k' = k[unfolded mb_calm_def]
  have ne: "?F \<noteq> ?E" using k' mb_okD(1) by blast
  have e': "0 < s_cnt k ?F" using e by (simp add: chMBGetUsedCountI_def chSemGetCounterI_def)
  have m1: "mbox ?k1 = mbox k" "s_cnt ?k1 = (s_cnt k)(?F := s_cnt k ?F - 1)"
    by (simp_all add: chSemFastWaitI_def)
  have "mb_ok (Suc 0) 0 ?n ?k1 b" using k' e' by (intro mb_ok_take(2)) auto
  note fe = mb_fetch_end_ok[OF this]
  have ok: "mb_ok 0 0 (?n - 1) ?k' b" "mb_content ?n k b = fst (mb_fetch_end b ?k1) # mb_content (?n - 1) ?k' b"
    using fe k' ne by (auto simp: m1 chMBGetFreeCountI_def chSemGetCounterI_def)
  have cnt: "chMBGetUsedCountI b ?k' = chMBGetUsedCountI b k - 1" "chMBGetFreeCountI b ?k' = chMBGetFreeCountI b k + 1"
    using ne by (simp_all add: chMBGetUsedCountI_def chMBGetFreeCountI_def chSemGetCounterI_def mb_fetch_end_mbox m1)
  have n: "nat (chMBGetUsedCountI b ?k') = ?n - 1" using cnt by simp
  have "kinv ?k'" using k' e' by (intro mb_fetch_end_kinv kinv_fast_wait) auto
  then have "mb_calm b ?k'" using ok n cnt k' e by (simp add: mb_calm_def)
  moreover have "mb_list b k = fst (mb_fetch_end b ?k1) # mb_list b ?k'" using ok n by (simp add: mb_list_def)
  moreover have "chMBSizeI b ?k' = chMBSizeI b k" by (simp add: chMBSizeI_def mb_fetch_end_mbox m1)
  moreover have "mb_get b k = Some (fst (mb_fetch_end b ?k1), ?k')" using e'
    by (simp add: mb_get_def chMBFetchI_def chSemGetCounterI_def split: prod.split)
  ultimately show ?thesis by blast
qed

lemma mb_calm_counts:
  assumes "mb_calm b k"
  shows "length (mb_list b k) = nat (chMBGetUsedCountI b k)"
    "int (chMBSizeI b k) = chMBGetUsedCountI b k + chMBGetFreeCountI b k"
proof -
  show "length (mb_list b k) = nat (chMBGetUsedCountI b k)" by (simp add: mb_list_def mb_content_def)
  from assms have c: "mb_ok 0 0 (nat (chMBGetUsedCountI b k)) k b" "0 \<le> chMBGetUsedCountI b k"
    "0 \<le> chMBGetFreeCountI b k" by (auto simp: mb_calm_def)
  show "int (chMBSizeI b k) = chMBGetUsedCountI b k + chMBGetFreeCountI b k"
    using mb_okD(3,6)[OF c(1)] c(2,3) by (simp add: chMBSizeI_def chMBGetFreeCountI_def chSemGetCounterI_def)
qed

interpretation mb: bounded_fifo "mb_calm b" "mb_list b" "chMBSizeI b" "mb_put b" "mb_get b" for b
proof unfold_locales
  fix k m x xs
  show "mb_calm b k \<Longrightarrow> length (mb_list b k) < chMBSizeI b k \<Longrightarrow>
      \<exists>k'. mb_put b m k = Some k' \<and> mb_calm b k' \<and> mb_list b k' = mb_list b k @ [m] \<and> chMBSizeI b k' = chMBSizeI b k"
    using mb_calm_counts[of b k] by (intro mb_calm_put) auto
  show "mb_put b m k = None" if "mb_calm b k" "chMBSizeI b k \<le> length (mb_list b k)"
  proof -
    have "0 \<le> chMBGetUsedCountI b k" using that(1) by (simp add: mb_calm_def)
    then have "chMBGetFreeCountI b k \<le> 0" using mb_calm_counts[OF that(1)] that(2) by linarith
    then show ?thesis by (simp add: mb_put_def chMBPostI_def chMBGetFreeCountI_def rdy_defs)
  qed
  show "\<exists>k'. mb_get b k = Some (x, k') \<and> mb_calm b k' \<and> mb_list b k' = xs \<and> chMBSizeI b k' = chMBSizeI b k"
    if "mb_calm b k" "mb_list b k = x # xs"
  proof -
    have "0 < chMBGetUsedCountI b k" using mb_calm_counts(1)[OF that(1)] that(2) by simp
    from mb_calm_get[OF that(1) this] that(2) show ?thesis by auto
  qed
  show "mb_get b k = None" if "mb_calm b k" "mb_list b k = []"
  proof -
    have "chMBGetUsedCountI b k \<le> 0" using mb_calm_counts(1)[OF that(1)] that(2) by simp
    then show ?thesis by (simp add: mb_get_def chMBFetchI_def chMBGetUsedCountI_def)
  qed
  show "length (mb_list b k) \<le> chMBSizeI b k" if "mb_calm b k"
  proof -
    have "0 \<le> chMBGetFreeCountI b k" "0 \<le> chMBGetUsedCountI b k" using that by (simp_all add: mb_calm_def)
    then show ?thesis using mb_calm_counts[OF that] by linarith
  qed
qed

section \<open>The invariant of the kernel\<close>

lemma mb_safe:
  assumes "resumed k"
  shows "safe (chMBPostS b m time k)" "safe (chMBPostAheadS b m time k)" "safe (chMBFetchS b time k)"
proof -
  show "safe (chMBPostS b m time k)" unfolding chMBPostS_def
    by (intro always_bind[OF chSemWaitTimeoutS_safe[OF assms]])
      (auto intro!: always_bind chSchRescheduleS_safe mb_post_end_kinv)
  show "safe (chMBPostAheadS b m time k)" unfolding chMBPostAheadS_def
    by (intro always_bind[OF chSemWaitTimeoutS_safe[OF assms]])
      (auto intro!: always_bind chSchRescheduleS_safe mb_ahead_end_kinv)
  show "safe (chMBFetchS b time k)" unfolding chMBFetchS_def
    using mb_fetch_end_kinv
    by (intro always_bind[OF chSemWaitTimeoutS_safe[OF assms]])
      (auto intro!: always_bind chSchRescheduleS_safe split: prod.split, metis snd_conv)
qed

lemma chMBPostI_kinv: "kinv k \<Longrightarrow> kinv (snd (chMBPostI b m k))"
  by (simp add: chMBPostI_def chSemGetCounterI_def mb_post_end_kinv kinv_fast_wait)

lemma chMBPostAheadI_kinv: "kinv k \<Longrightarrow> kinv (snd (chMBPostAheadI b m k))"
  by (simp add: chMBPostAheadI_def chSemGetCounterI_def mb_ahead_end_kinv kinv_fast_wait)

lemma chMBFetchI_kinv: "kinv k \<Longrightarrow> kinv (snd (chMBFetchI b k))"
  using mb_fetch_end_kinv[of "chSemFastWaitI (mb_fullsem (mbox k b)) k" b]
    kinv_fast_wait[of k "mb_fullsem (mbox k b)"]
  by (cases "mb_fetch_end b (chSemFastWaitI (mb_fullsem (mbox k b)) k)")
    (auto simp: chMBFetchI_def chSemGetCounterI_def)

lemma chMBReset_safe: "kinv k \<Longrightarrow> safe (chMBReset b k)"
  unfolding chMBReset_def Let_def
  by (intro chSchRescheduleS_safe chSemResetI_kinv) simp_all

end
