(* ===== verification/IOQueues.thy ===== *)
theory IOQueues
  imports Mailboxes
begin

text \<open>
  The byte queues of the drivers (\<^verbatim>\<open>os/kernel/src/chqueues.c\<close>). The counter of an input
  queue is the number of bytes in it, the counter of an output queue the number of
  free places. The notification callback of a queue belongs to the driver and is the
  parameter \<open>nfy\<close>.

  The loops that wait again when a woken thread still finds nothing are bounded by
  \<open>fuel\<close>, the number of times the thread looks at the queue; \<open>Hang\<close> stands for a
  thread that was woken in vain that often.
\<close>

section \<open>Operations\<close>

type_synonym notifier = "nat \<Rightarrow> nat \<Rightarrow> kernel \<Rightarrow> kernel"

definition Q_OK :: int where "Q_OK = RDY_OK"
definition Q_TIMEOUT :: int where "Q_TIMEOUT = RDY_TIMEOUT"
definition Q_RESET :: int where "Q_RESET = RDY_RESET"
definition Q_EMPTY :: int where "Q_EMPTY = -3"
definition Q_FULL :: int where "Q_FULL = -4"

lemmas q_defs = Q_OK_def Q_TIMEOUT_def Q_RESET_def Q_EMPTY_def Q_FULL_def rdy_defs

definition set_ioq :: "nat \<Rightarrow> (ioqueue \<Rightarrow> ioqueue) \<Rightarrow> kernel \<Rightarrow> kernel" where
  "set_ioq qp f k = k\<lparr>ioq := (ioq k)(qp := f (ioq k qp))\<rparr>"

definition q_size :: "ioqueue \<Rightarrow> nat" where
  "q_size Q = length (q_buffer Q)"

definition chQSizeI :: "nat \<Rightarrow> kernel \<Rightarrow> nat" where
  "chQSizeI qp k = q_size (ioq k qp)"

definition chQSpaceI :: "nat \<Rightarrow> kernel \<Rightarrow> nat" where
  "chQSpaceI qp k = q_counter (ioq k qp)"

definition q_notify_call :: "notifier \<Rightarrow> nat \<Rightarrow> kernel \<Rightarrow> kernel" where
  "q_notify_call nfy qp k = (case q_notify (ioq k qp) of None \<Rightarrow> k | Some c \<Rightarrow> nfy c qp k)"

definition qwait :: "nat \<Rightarrow> u32 \<Rightarrow> kernel \<Rightarrow> int step" where
  "qwait qp time k =
     (if TIME_IMMEDIATE = time then Ret Q_TIMEOUT k
      else
        (let k1 = set_u (currp k) (U_wtobjp (IoQ qp)) k;
             k2 = queue_insert (currp k1) (IoQ qp) k1
         in chSchGoSleepTimeoutS THD_STATE_WTQUEUE time k2))"

text \<open>\<^verbatim>\<open>while (notempty(&qp->q_waiting)) chSchReadyI(fifo_remove(&qp->q_waiting))->p_u.rdymsg = Q_RESET;\<close>\<close>

function q_reset_loop :: "nat \<Rightarrow> kernel \<Rightarrow> kernel" where
  "q_reset_loop qp k =
     (if notempty (IoQ qp) k then q_reset_loop qp (ready_fifo (IoQ qp) Q_RESET k) else k)"
  by pat_completeness auto
termination
  by (relation "measure (\<lambda>(qp, k). length (queues k (IoQ qp)))") (auto simp: notempty_def length_ready_fifo)

declare q_reset_loop.simps [simp del]

text \<open>Writing and reading one byte, with the wrap of the pointer.\<close>

definition q_write :: "u8 \<Rightarrow> ioqueue \<Rightarrow> ioqueue" where
  "q_write b Q = Q\<lparr>q_buffer := (q_buffer Q)[q_wrptr Q := b], q_wrptr := ring_next (q_size Q) (q_wrptr Q)\<rparr>"

definition q_read :: "ioqueue \<Rightarrow> u8 \<times> ioqueue" where
  "q_read Q = (q_buffer Q ! q_rdptr Q, Q\<lparr>q_rdptr := ring_next (q_size Q) (q_rdptr Q)\<rparr>)"

definition q_wake :: "nat \<Rightarrow> kernel \<Rightarrow> kernel" where
  "q_wake qp k = (if notempty (IoQ qp) k then ready_fifo (IoQ qp) Q_OK k else k)"

subsection \<open>Input queues\<close>

definition chIQInit :: "nat \<Rightarrow> u8 list \<Rightarrow> nat option \<Rightarrow> kernel \<Rightarrow> kernel" where
  "chIQInit iqp bp infy k =
     set_ioq iqp (\<lambda>Q. Q\<lparr>q_counter := 0, q_buffer := bp, q_rdptr := 0, q_wrptr := 0, q_notify := infy\<rparr>)
       (set_queue (IoQ iqp) [] k)"

definition chIQResetI :: "nat \<Rightarrow> kernel \<Rightarrow> kernel" where
  "chIQResetI iqp k =
     q_reset_loop iqp (set_ioq iqp (\<lambda>Q. Q\<lparr>q_rdptr := 0, q_wrptr := 0, q_counter := 0\<rparr>) k)"

definition chIQIsEmptyI :: "nat \<Rightarrow> kernel \<Rightarrow> bool" where
  "chIQIsEmptyI iqp k \<longleftrightarrow> chQSpaceI iqp k \<le> 0"

definition chIQIsFullI :: "nat \<Rightarrow> kernel \<Rightarrow> bool" where
  "chIQIsFullI iqp k \<longleftrightarrow> q_wrptr (ioq k iqp) = q_rdptr (ioq k iqp) \<and> q_counter (ioq k iqp) \<noteq> 0"

definition chIQGetFullI :: "nat \<Rightarrow> kernel \<Rightarrow> nat" where
  "chIQGetFullI iqp k = chQSpaceI iqp k"

definition chIQGetEmptyI :: "nat \<Rightarrow> kernel \<Rightarrow> nat" where
  "chIQGetEmptyI iqp k = chQSizeI iqp k - chQSpaceI iqp k"

definition chIQPutI :: "nat \<Rightarrow> u8 \<Rightarrow> kernel \<Rightarrow> int \<times> kernel" where
  "chIQPutI iqp b k =
     (if chIQIsFullI iqp k then (Q_FULL, k)
      else (Q_OK, q_wake iqp (set_ioq iqp (\<lambda>Q. q_write b (Q\<lparr>q_counter := q_counter Q + 1\<rparr>)) k)))"

definition iq_take :: "nat \<Rightarrow> kernel \<Rightarrow> u8 \<times> kernel" where
  "iq_take iqp k =
     (let Q = (ioq k iqp)\<lparr>q_counter := q_counter (ioq k iqp) - 1\<rparr>; (b, Q1) = q_read Q
      in (b, set_ioq iqp (\<lambda>_. Q1) k))"

text \<open>The waiting loop: \<open>Some msg\<close> when the wait ends it, \<open>None\<close> when there is something to read.\<close>

primrec iq_wait :: "nat \<Rightarrow> (int \<Rightarrow> bool) \<Rightarrow> nat \<Rightarrow> u32 \<Rightarrow> kernel \<Rightarrow> int option step" where
  "iq_wait 0 quit iqp time k = Hang"
| "iq_wait (Suc fuel) quit iqp time k =
     (if chIQIsEmptyI iqp k
      then bind (qwait iqp time k)
             (\<lambda>msg k1. if quit msg then Ret (Some msg) k1 else iq_wait fuel quit iqp time k1)
      else Ret None k)"

definition chIQGetTimeout :: "notifier \<Rightarrow> nat \<Rightarrow> nat \<Rightarrow> u32 \<Rightarrow> kernel \<Rightarrow> int step" where
  "chIQGetTimeout nfy fuel iqp time k =
     bind (iq_wait fuel (\<lambda>msg. msg < Q_OK) iqp time (q_notify_call nfy iqp k))
       (\<lambda>r k1. case r of Some msg \<Rightarrow> Ret msg k1
               | None \<Rightarrow> (case iq_take iqp k1 of (b, k2) \<Rightarrow> Ret (uint b) k2))"

text \<open>
  \<^verbatim>\<open>chIQReadTimeout\<close>: \<open>left\<close> is the number of bytes to read after the next one, and the
  result is the bytes stored at \<^verbatim>\<open>bp\<close>; their number is what the function returns.
  The callback is read once, before the loop.
\<close>

definition call_nfy :: "notifier \<Rightarrow> nat option \<Rightarrow> nat \<Rightarrow> kernel \<Rightarrow> kernel" where
  "call_nfy nfy c qp k = (case c of None \<Rightarrow> k | Some c \<Rightarrow> nfy c qp k)"

primrec iq_read :: "nat \<Rightarrow> notifier \<Rightarrow> nat option \<Rightarrow> nat \<Rightarrow> nat \<Rightarrow> u32 \<Rightarrow> u8 list \<Rightarrow> kernel \<Rightarrow> u8 list step" where
  "iq_read 0 nfy c fuel iqp time r k =
     bind (iq_wait fuel (\<lambda>msg. msg \<noteq> Q_OK) iqp time (call_nfy nfy c iqp k))
       (\<lambda>w k1. case w of Some _ \<Rightarrow> Ret r k1
               | None \<Rightarrow> (case iq_take iqp k1 of (b, k2) \<Rightarrow> Ret (r @ [b]) k2))"
| "iq_read (Suc left) nfy c fuel iqp time r k =
     bind (iq_wait fuel (\<lambda>msg. msg \<noteq> Q_OK) iqp time (call_nfy nfy c iqp k))
       (\<lambda>w k1. case w of Some _ \<Rightarrow> Ret r k1
               | None \<Rightarrow> (case iq_take iqp k1 of (b, k2) \<Rightarrow>
                            iq_read left nfy c fuel iqp time (r @ [b]) k2))"

definition chIQReadTimeout :: "notifier \<Rightarrow> nat \<Rightarrow> nat \<Rightarrow> u32 \<Rightarrow> u32 \<Rightarrow> kernel \<Rightarrow> u8 list step" where
  "chIQReadTimeout nfy fuel iqp n time k =
     iq_read (unat (n - 1)) nfy (q_notify (ioq k iqp)) fuel iqp time [] k"

subsection \<open>Output queues\<close>

definition chOQInit :: "nat \<Rightarrow> u8 list \<Rightarrow> nat option \<Rightarrow> kernel \<Rightarrow> kernel" where
  "chOQInit oqp bp onfy k =
     set_ioq oqp (\<lambda>Q. Q\<lparr>q_counter := length bp, q_buffer := bp, q_rdptr := 0, q_wrptr := 0, q_notify := onfy\<rparr>)
       (set_queue (IoQ oqp) [] k)"

definition chOQResetI :: "nat \<Rightarrow> kernel \<Rightarrow> kernel" where
  "chOQResetI oqp k =
     q_reset_loop oqp (set_ioq oqp (\<lambda>Q. Q\<lparr>q_rdptr := 0, q_wrptr := 0, q_counter := q_size Q\<rparr>) k)"

definition chOQIsFullI :: "nat \<Rightarrow> kernel \<Rightarrow> bool" where
  "chOQIsFullI oqp k \<longleftrightarrow> chQSpaceI oqp k \<le> 0"

definition chOQIsEmptyI :: "nat \<Rightarrow> kernel \<Rightarrow> bool" where
  "chOQIsEmptyI oqp k \<longleftrightarrow> q_wrptr (ioq k oqp) = q_rdptr (ioq k oqp) \<and> q_counter (ioq k oqp) \<noteq> 0"

definition chOQGetFullI :: "nat \<Rightarrow> kernel \<Rightarrow> nat" where
  "chOQGetFullI oqp k = chQSizeI oqp k - chQSpaceI oqp k"

definition oq_store :: "nat \<Rightarrow> u8 \<Rightarrow> kernel \<Rightarrow> kernel" where
  "oq_store oqp b = set_ioq oqp (\<lambda>Q. q_write b (Q\<lparr>q_counter := q_counter Q - 1\<rparr>))"

primrec oq_wait :: "nat \<Rightarrow> (int \<Rightarrow> bool) \<Rightarrow> nat \<Rightarrow> u32 \<Rightarrow> kernel \<Rightarrow> int option step" where
  "oq_wait 0 quit oqp time k = Hang"
| "oq_wait (Suc fuel) quit oqp time k =
     (if chOQIsFullI oqp k
      then bind (qwait oqp time k)
             (\<lambda>msg k1. if quit msg then Ret (Some msg) k1 else oq_wait fuel quit oqp time k1)
      else Ret None k)"

definition chOQPutTimeout :: "notifier \<Rightarrow> nat \<Rightarrow> nat \<Rightarrow> u8 \<Rightarrow> u32 \<Rightarrow> kernel \<Rightarrow> int step" where
  "chOQPutTimeout nfy fuel oqp b time k =
     bind (oq_wait fuel (\<lambda>msg. msg < Q_OK) oqp time k)
       (\<lambda>r k1. case r of Some msg \<Rightarrow> Ret msg k1
               | None \<Rightarrow> Ret Q_OK (q_notify_call nfy oqp (oq_store oqp b k1)))"

definition chOQGetI :: "nat \<Rightarrow> kernel \<Rightarrow> int \<times> kernel" where
  "chOQGetI oqp k =
     (if chOQIsEmptyI oqp k then (Q_EMPTY, k)
      else
        (let Q = (ioq k oqp)\<lparr>q_counter := q_counter (ioq k oqp) + 1\<rparr>; (b, Q1) = q_read Q
         in (uint b, q_wake oqp (set_ioq oqp (\<lambda>_. Q1) k))))"

text \<open>\<^verbatim>\<open>chOQWriteTimeout\<close> of the bytes at \<^verbatim>\<open>bp\<close>; the result is how many were written.\<close>

fun oq_write :: "notifier \<Rightarrow> nat option \<Rightarrow> nat \<Rightarrow> nat \<Rightarrow> u32 \<Rightarrow> nat \<Rightarrow> u8 list \<Rightarrow> kernel \<Rightarrow> nat step" where
  "oq_write nfy c fuel oqp time w [] k = Hang"
| "oq_write nfy c fuel oqp time w (b # bs) k =
     bind (oq_wait fuel (\<lambda>msg. msg \<noteq> Q_OK) oqp time k)
       (\<lambda>r k1. case r of Some _ \<Rightarrow> Ret w k1
               | None \<Rightarrow>
                   (let k2 = call_nfy nfy c oqp (oq_store oqp b k1)
                    in if bs = [] then Ret (w + 1) k2
                       else oq_write nfy c fuel oqp time (w + 1) bs k2))"

definition chOQWriteTimeout :: "notifier \<Rightarrow> nat \<Rightarrow> nat \<Rightarrow> u8 list \<Rightarrow> u32 \<Rightarrow> kernel \<Rightarrow> nat step" where
  "chOQWriteTimeout nfy fuel oqp bp time k = oq_write nfy (q_notify (ioq k oqp)) fuel oqp time 0 bp k"

section \<open>The kernel's invariant\<close>

lemma set_ioq_fields [simp]:
  "ioq (set_ioq q f k) = (ioq k)(q := f (ioq k q))" "queues (set_ioq q f k) = queues k"
  "thr (set_ioq q f k) = thr k" "currp (set_ioq q f k) = currp k" "s_cnt (set_ioq q f k) = s_cnt k"
  "kinv (set_ioq q f k) = kinv k" "resumed (set_ioq q f k) = resumed k"
  by (simp_all add: set_ioq_def resumed_def)

lemma ready_fifo_rest [simp]:
  "ioq (ready_fifo q m k) = ioq k" "mbox (ready_fifo q m k) = mbox k" "registry (ready_fifo q m k) = registry k"
  by (simp_all add: ready_fifo_def fifo_remove_def split: list.split)

lemma q_wake_fields [simp]: "ioq (q_wake q k) = ioq k" "currp (q_wake q k) = currp k"
  by (simp_all add: q_wake_def)

lemma q_wake_kinv: "kinv k \<Longrightarrow> kinv (q_wake q k)"
  by (simp add: q_wake_def notempty_def kinv_ready_fifo)

lemma q_reset_loop_spec:
  assumes "kinv k"
  shows "kinv (q_reset_loop q k) \<and> queues (q_reset_loop q k) (IoQ q) = [] \<and> ioq (q_reset_loop q k) = ioq k
    \<and> currp (q_reset_loop q k) = currp k
    \<and> (\<forall>t. t \<notin> set (queues k (IoQ q)) \<longrightarrow> thr (q_reset_loop q k) t = thr k t)
    \<and> (\<forall>t \<in> set (queues k (IoQ q)). state (q_reset_loop q k) t = THD_STATE_READY
         \<and> rdymsg (q_reset_loop q k) t = Q_RESET)"
  using assms
proof (induction q k rule: q_reset_loop.induct)
  case (1 q k)
  show ?case
  proof (cases "queues k (IoQ q)")
    case Nil
    then have "q_reset_loop q k = k" by (simp add: q_reset_loop.simps notempty_def)
    then show ?thesis using Nil 1(2) by simp
  next
    case (Cons t ts)
    let ?k1 = "ready_fifo (IoQ q) Q_RESET k"
    have ne: "notempty (IoQ q) k" using Cons by (simp add: notempty_def)
    have step: "q_reset_loop q k = q_reset_loop q ?k1" using ne by (subst q_reset_loop.simps) simp
    note f = ready_fifo_fields[OF Cons, simplified]
    have k1: "kinv ?k1" using 1(2) Cons by (intro kinv_ready_fifo) auto
    have d: "t \<notin> set ts" using core_distinct[OF kinv_core[OF 1(2)], of "IoQ q"] Cons by simp
    have o: "u \<noteq> t \<Longrightarrow> thr ?k1 u = thr k u" for u by (rule f)
    show ?thesis using 1(1)[OF ne k1] d o unfolding step f(2) Cons by (auto simp: f)
  qed
qed

lemma chIQResetI_kinv: "kinv k \<Longrightarrow> kinv (chIQResetI q k)"
  by (simp add: chIQResetI_def q_reset_loop_spec)

lemma chOQResetI_kinv: "kinv k \<Longrightarrow> kinv (chOQResetI q k)"
  by (simp add: chOQResetI_def q_reset_loop_spec)

lemma chIQPutI_kinv: "kinv k \<Longrightarrow> kinv (snd (chIQPutI q b k))"
  by (simp add: chIQPutI_def q_wake_kinv)

lemma chOQGetI_kinv: "kinv k \<Longrightarrow> kinv (snd (chOQGetI q k))"
  by (simp add: chOQGetI_def Let_def q_wake_kinv split: prod.split)

lemma iq_take_kinv: "kinv k \<Longrightarrow> kinv (snd (iq_take q k))"
  by (simp add: iq_take_def Let_def split: prod.split)

lemma can_sleep_ioq:
  assumes "resumed k"
  shows "can_sleep THD_STATE_WTQUEUE (queue_insert (currp k) (IoQ q) (set_u (currp k) (U_wtobjp (IoQ q)) k))"
  using resumedD[OF assms] kinv_core kinv_hdr kinv_links kinv_sem by (intro can_sleep_fifo) auto

text \<open>A timed wait returns the message the thread was woken with.\<close>

definition woken :: "(int \<Rightarrow> kernel \<Rightarrow> bool) \<Rightarrow> kernel \<Rightarrow> bool" where
  "woken P k \<longleftrightarrow> resumed k \<and> P (rdymsg k (currp k)) k"

lemma sleep_timeout_woken:
  assumes cs: "can_sleep st k" and P: "\<And>m k v. P m (chVTResetI v k) = P m k"
    and f: "\<And>m k'. resumed k' \<Longrightarrow> P m k' \<Longrightarrow> always kinv (woken P) (f m k')"
  shows "always kinv (woken P) (bind (chSchGoSleepTimeoutS st time k) f)"
proof -
  have r: "resumed (chVTResetI v k') = resumed k'" for v k' by (simp add: resumed_def)
  have "can_sleep st (chVTSetI v time VF_wakeup p k)" for v p using cs by simp
  from chSchGoSleepS_safe[OF this] chSchGoSleepS_safe[OF cs] show ?thesis
    by (auto simp: chSchGoSleepTimeoutS_def chSchGoSleepS_def Let_def woken_def r P intro!: f)
qed

lemma wait_vt [simp]:
  "chIQIsEmptyI q (chVTResetI v k) = chIQIsEmptyI q k" "chOQIsFullI q (chVTResetI v k) = chOQIsFullI q k"
  by (simp_all add: chIQIsEmptyI_def chOQIsFullI_def chQSpaceI_def)

text \<open>
  A thread woken with a message that does not end the wait finds what it waits for, so
  two looks at the queue are enough.
\<close>

lemma iq_wait_safe:
  assumes r: "resumed k" and f: "2 \<le> fuel" and q: "quit Q_TIMEOUT"
  shows "always kinv (woken (\<lambda>m k. \<not> quit m \<longrightarrow> \<not> chIQIsEmptyI q k)) (iq_wait fuel quit q time k)"
proof -
  obtain n where n: "fuel = Suc (Suc n)" using f by (metis Suc_le_D numeral_2_eq_2 Suc_le_mono)
  let ?P = "\<lambda>m k. \<not> quit m \<longrightarrow> \<not> chIQIsEmptyI q k"
  have "always kinv (woken ?P) (bind (chSchGoSleepTimeoutS THD_STATE_WTQUEUE time
     (queue_insert (currp k) (IoQ q) (set_u (currp k) (U_wtobjp (IoQ q)) k)))
       (\<lambda>msg k1. if quit msg then Ret (Some msg) k1 else iq_wait (Suc n) quit q time k1))"
    by (rule sleep_timeout_woken[OF can_sleep_ioq[OF r]]) (auto simp: resumed_def)
  then show ?thesis using r q by (simp add: n qwait_def Let_def resumed_def)
qed

lemma oq_wait_safe:
  assumes r: "resumed k" and f: "2 \<le> fuel" and q: "quit Q_TIMEOUT"
  shows "always kinv (woken (\<lambda>m k. \<not> quit m \<longrightarrow> \<not> chOQIsFullI q k)) (oq_wait fuel quit q time k)"
proof -
  obtain n where n: "fuel = Suc (Suc n)" using f by (metis Suc_le_D numeral_2_eq_2 Suc_le_mono)
  let ?P = "\<lambda>m k. \<not> quit m \<longrightarrow> \<not> chOQIsFullI q k"
  have "always kinv (woken ?P) (bind (chSchGoSleepTimeoutS THD_STATE_WTQUEUE time
     (queue_insert (currp k) (IoQ q) (set_u (currp k) (U_wtobjp (IoQ q)) k)))
       (\<lambda>msg k1. if quit msg then Ret (Some msg) k1 else oq_wait (Suc n) quit q time k1))"
    by (rule sleep_timeout_woken[OF can_sleep_ioq[OF r]]) (auto simp: resumed_def)
  then show ?thesis using r q by (simp add: n qwait_def Let_def resumed_def)
qed

section \<open>The queues as bounded queues\<close>

definition ring_ok :: "ioqueue \<Rightarrow> nat \<Rightarrow> bool" where
  "ring_ok Q n \<longleftrightarrow> q_rdptr Q < q_size Q \<and> n \<le> q_size Q \<and> q_wrptr Q = (q_rdptr Q + n) mod q_size Q"

definition q_content :: "ioqueue \<Rightarrow> nat \<Rightarrow> u8 list" where
  "q_content Q n = ring_content (q_buffer Q) (q_rdptr Q) n"

definition iq_ok :: "nat \<Rightarrow> kernel \<Rightarrow> bool" where
  "iq_ok q k \<longleftrightarrow> kinv k \<and> ring_ok (ioq k q) (q_counter (ioq k q))"

definition iq_list :: "nat \<Rightarrow> kernel \<Rightarrow> u8 list" where
  "iq_list q k = q_content (ioq k q) (q_counter (ioq k q))"

definition iq_put :: "nat \<Rightarrow> u8 \<Rightarrow> kernel \<Rightarrow> kernel option" where
  "iq_put q b k = (case chIQPutI q b k of (r, k') \<Rightarrow> if r = Q_OK then Some k' else None)"

definition iq_get :: "nat \<Rightarrow> kernel \<Rightarrow> (u8 \<times> kernel) option" where
  "iq_get q k = (if chIQIsEmptyI q k then None else Some (iq_take q k))"

definition oq_ok :: "nat \<Rightarrow> kernel \<Rightarrow> bool" where
  "oq_ok q k \<longleftrightarrow> kinv k \<and> q_counter (ioq k q) \<le> q_size (ioq k q)
     \<and> ring_ok (ioq k q) (q_size (ioq k q) - q_counter (ioq k q))"

definition oq_list :: "nat \<Rightarrow> kernel \<Rightarrow> u8 list" where
  "oq_list q k = q_content (ioq k q) (q_size (ioq k q) - q_counter (ioq k q))"

definition oq_put :: "nat \<Rightarrow> u8 \<Rightarrow> kernel \<Rightarrow> kernel option" where
  "oq_put q b k = (if chOQIsFullI q k then None else Some (oq_store q b k))"

definition oq_get :: "nat \<Rightarrow> kernel \<Rightarrow> (u8 \<times> kernel) option" where
  "oq_get q k = (case chOQGetI q k of (r, k') \<Rightarrow> if r = Q_EMPTY then None else Some (word_of_int r, k'))"

lemma q_size_simps [simp]: "q_size (q_write b Q) = q_size Q" "q_size (snd (q_read Q)) = q_size Q"
  "q_size (Q\<lparr>q_counter := n\<rparr>) = q_size Q" "q_counter (q_write b Q) = q_counter Q"
  "q_counter (snd (q_read Q)) = q_counter Q"
  "ring_ok (Q\<lparr>q_counter := c\<rparr>) n = ring_ok Q n" "q_content (Q\<lparr>q_counter := c\<rparr>) n = q_content Q n"
  by (simp_all add: q_size_def q_write_def q_read_def ring_ok_def q_content_def)

lemma q_write_ok:
  assumes "ring_ok Q n" "n < q_size Q"
  shows "ring_ok (q_write b Q) (Suc n)" "q_content (q_write b Q) (Suc n) = q_content Q n @ [b]"
  using assms ring_content_put[of n "q_buffer Q" "q_rdptr Q" b] ring_wr_step[of "q_rdptr Q" "q_size Q" n]
  by (simp_all add: ring_ok_def q_content_def q_write_def q_size_def)

lemma q_read_ok:
  assumes "ring_ok Q n" "0 < n"
  shows "ring_ok (snd (q_read Q)) (n - 1)" "q_content Q n = fst (q_read Q) # q_content (snd (q_read Q)) (n - 1)"
  using assms ring_content_get[of n "q_rdptr Q" "q_buffer Q"] ring_rd_step[of "q_rdptr Q" "q_size Q" n]
    ring_next_less[of "q_rdptr Q" "q_size Q"]
  by (auto simp: ring_ok_def q_content_def q_read_def q_size_def)

text \<open>With the same two pointers a queue is empty or full; the counter tells which.\<close>

lemma ring_full_iff:
  assumes "ring_ok Q n"
  shows "q_wrptr Q = q_rdptr Q \<longleftrightarrow> n = 0 \<or> n = q_size Q"
proof -
  have r: "q_rdptr Q < q_size Q" "n \<le> q_size Q" "q_wrptr Q = (q_rdptr Q + n) mod q_size Q"
    using assms by (simp_all add: ring_ok_def)
  show ?thesis
  proof (cases "n = q_size Q")
    case False
    then have "(q_rdptr Q + n) mod q_size Q = (q_rdptr Q + 0) mod q_size Q \<longleftrightarrow> n = 0"
      using mod_add_inj[of n "q_size Q" 0 "q_rdptr Q"] r by auto
    then show ?thesis using r False by simp
  qed (use r in simp)
qed

lemma length_q_content [simp]: "length (q_content Q n) = n"
  by (simp add: q_content_def)

lemma iq_take_ok:
  assumes "iq_ok q k" "\<not> chIQIsEmptyI q k"
  shows "iq_ok q (snd (iq_take q k))" "iq_list q k = fst (iq_take q k) # iq_list q (snd (iq_take q k))"
    "chQSizeI q (snd (iq_take q k)) = chQSizeI q k"
    "chIQGetFullI q k = Suc (chIQGetFullI q (snd (iq_take q k)))"
proof -
  let ?Q = "ioq k q" and ?k' = "snd (iq_take q k)"
  let ?Q1 = "?Q\<lparr>q_counter := q_counter ?Q - 1\<rparr>"
  have n: "0 < q_counter ?Q" using assms(2) by (simp add: chIQIsEmptyI_def chQSpaceI_def)
  have ro: "ring_ok ?Q1 (q_counter ?Q)" using assms(1) by (simp add: iq_ok_def)
  note rd = q_read_ok[OF ro n]
  have f: "ioq ?k' q = snd (q_read ?Q1)" "fst (iq_take q k) = fst (q_read ?Q1)"
    by (simp_all add: iq_take_def Let_def split: prod.split)
  show "iq_ok q ?k'" using rd assms(1) iq_take_kinv[of k q] by (simp add: iq_ok_def f)
  show "iq_list q k = fst (iq_take q k) # iq_list q ?k'" using rd by (simp add: iq_list_def f)
  show "chQSizeI q ?k' = chQSizeI q k" by (simp add: chQSizeI_def f)
  show "chIQGetFullI q k = Suc (chIQGetFullI q ?k')" using n by (simp add: chIQGetFullI_def chQSpaceI_def f)
qed

lemma chIQPutI_ok:
  assumes "iq_ok q k"
  shows "chIQIsFullI q k \<longleftrightarrow> length (iq_list q k) = chQSizeI q k"
    "\<not> chIQIsFullI q k \<Longrightarrow> iq_ok q (snd (chIQPutI q b k)) \<and> iq_list q (snd (chIQPutI q b k)) = iq_list q k @ [b]
       \<and> chQSizeI q (snd (chIQPutI q b k)) = chQSizeI q k"
proof -
  let ?Q = "ioq k q"
  have ro: "ring_ok ?Q (q_counter ?Q)" using assms by (simp add: iq_ok_def)
  then have sz: "0 < q_size ?Q" by (auto simp: ring_ok_def)
  show full: "chIQIsFullI q k \<longleftrightarrow> length (iq_list q k) = chQSizeI q k"
    using ring_full_iff[OF ro] sz by (auto simp: chIQIsFullI_def iq_list_def chQSizeI_def)
  assume nf: "\<not> chIQIsFullI q k"
  then have "q_counter ?Q < q_size ?Q" using full ro by (simp add: iq_list_def chQSizeI_def ring_ok_def)
  from q_write_ok[of "?Q\<lparr>q_counter := q_counter ?Q + 1\<rparr>" "q_counter ?Q" b] this ro
  show "iq_ok q (snd (chIQPutI q b k)) \<and> iq_list q (snd (chIQPutI q b k)) = iq_list q k @ [b]
       \<and> chQSizeI q (snd (chIQPutI q b k)) = chQSizeI q k"
    using nf assms by (simp add: chIQPutI_def iq_ok_def iq_list_def q_wake_kinv chQSizeI_def)
qed

interpretation iq: bounded_fifo "iq_ok q" "iq_list q" "chQSizeI q" "iq_put q" "iq_get q" for q
proof unfold_locales
  fix k b x xs
  have le: "length (iq_list q k) \<le> chQSizeI q k" if "iq_ok q k" for k
    using that by (simp add: iq_ok_def iq_list_def chQSizeI_def ring_ok_def)
  then show "iq_ok q k \<Longrightarrow> length (iq_list q k) \<le> chQSizeI q k" .
  show "\<exists>k'. iq_put q b k = Some k' \<and> iq_ok q k' \<and> iq_list q k' = iq_list q k @ [b] \<and> chQSizeI q k' = chQSizeI q k"
    if "iq_ok q k" "length (iq_list q k) < chQSizeI q k"
  proof -
    have nf: "\<not> chIQIsFullI q k" using chIQPutI_ok(1)[OF that(1)] that(2) by simp
    then have "iq_put q b k = Some (snd (chIQPutI q b k))" by (simp add: iq_put_def chIQPutI_def)
    then show ?thesis using chIQPutI_ok(2)[OF that(1) nf] by blast
  qed
  show "iq_put q b k = None" if "iq_ok q k" "chQSizeI q k \<le> length (iq_list q k)"
    using chIQPutI_ok(1)[OF that(1)] le[OF that(1)] that(2) by (simp add: iq_put_def chIQPutI_def q_defs)
  show "\<exists>k'. iq_get q k = Some (x, k') \<and> iq_ok q k' \<and> iq_list q k' = xs \<and> chQSizeI q k' = chQSizeI q k"
    if "iq_ok q k" "iq_list q k = x # xs"
  proof -
    have "length (iq_list q k) \<noteq> 0" using that(2) by simp
    then have ne: "\<not> chIQIsEmptyI q k" by (simp add: chIQIsEmptyI_def chQSpaceI_def iq_list_def)
    show ?thesis using iq_take_ok[OF that(1) ne] that(2) ne by (cases "iq_take q k") (auto simp: iq_get_def)
  qed
  show "iq_get q k = None" if "iq_ok q k" "iq_list q k = []"
    using arg_cong[OF that(2), of length] by (simp add: iq_get_def chIQIsEmptyI_def chQSpaceI_def iq_list_def)
qed

lemma oq_store_ok:
  assumes "oq_ok q k" "\<not> chOQIsFullI q k"
  shows "oq_ok q (oq_store q b k)" "oq_list q (oq_store q b k) = oq_list q k @ [b]"
    "chQSizeI q (oq_store q b k) = chQSizeI q k" "chQSpaceI q k = Suc (chQSpaceI q (oq_store q b k))"
proof -
  let ?Q = "ioq k q"
  let ?Q1 = "?Q\<lparr>q_counter := q_counter ?Q - 1\<rparr>"
  have c: "0 < q_counter ?Q" "q_counter ?Q \<le> q_size ?Q"
    using assms by (simp_all add: chOQIsFullI_def chQSpaceI_def oq_ok_def)
  have ro: "ring_ok ?Q1 (q_size ?Q - q_counter ?Q)" using assms(1) by (simp add: oq_ok_def)
  have n: "Suc (q_size ?Q - q_counter ?Q) = q_size ?Q - (q_counter ?Q - 1)" using c by simp
  note w = q_write_ok[OF ro, of b, unfolded n]
  show "oq_ok q (oq_store q b k)" "oq_list q (oq_store q b k) = oq_list q k @ [b]"
    using w c assms(1) by (simp_all add: oq_store_def oq_ok_def oq_list_def)
  show "chQSizeI q (oq_store q b k) = chQSizeI q k" "chQSpaceI q k = Suc (chQSpaceI q (oq_store q b k))"
    using c by (simp_all add: oq_store_def chQSizeI_def chQSpaceI_def)
qed

lemma chOQGetI_ok:
  assumes "oq_ok q k"
  shows "chOQIsEmptyI q k \<longleftrightarrow> oq_list q k = []"
    "\<not> chOQIsEmptyI q k \<Longrightarrow> \<exists>b. fst (chOQGetI q k) = uint b \<and> oq_ok q (snd (chOQGetI q k))
       \<and> oq_list q k = b # oq_list q (snd (chOQGetI q k)) \<and> chQSizeI q (snd (chOQGetI q k)) = chQSizeI q k"
proof -
  let ?Q = "ioq k q" and ?n = "q_size (ioq k q) - q_counter (ioq k q)"
  have ro: "ring_ok ?Q ?n" and c: "q_counter ?Q \<le> q_size ?Q" using assms by (simp_all add: oq_ok_def)
  then have sz: "0 < q_size ?Q" by (auto simp: ring_ok_def)
  have "oq_list q k = [] \<longleftrightarrow> ?n = 0" by (simp add: oq_list_def flip: length_0_conv)
  then show e: "chOQIsEmptyI q k \<longleftrightarrow> oq_list q k = []"
    using ring_full_iff[OF ro] sz c by (auto simp: chOQIsEmptyI_def)
  assume ne: "\<not> chOQIsEmptyI q k"
  then have n: "0 < ?n" using e by (simp add: oq_list_def flip: length_greater_0_conv)
  let ?Q1 = "?Q\<lparr>q_counter := q_counter ?Q + 1\<rparr>"
  have "ring_ok ?Q1 ?n" using ro by simp
  note rd = q_read_ok[OF this n]
  have f: "ioq (snd (chOQGetI q k)) q = snd (q_read ?Q1)" "fst (chOQGetI q k) = uint (fst (q_read ?Q1))"
    using ne by (simp_all add: chOQGetI_def Let_def split: prod.split)
  have "kinv (snd (chOQGetI q k))" using assms chOQGetI_kinv by (simp add: oq_ok_def)
  then show "\<exists>b. fst (chOQGetI q k) = uint b \<and> oq_ok q (snd (chOQGetI q k))
       \<and> oq_list q k = b # oq_list q (snd (chOQGetI q k)) \<and> chQSizeI q (snd (chOQGetI q k)) = chQSizeI q k"
    using rd n by (intro exI[of _ "fst (q_read ?Q1)"]) (simp add: f oq_ok_def oq_list_def chQSizeI_def)
qed

interpretation oq: bounded_fifo "oq_ok q" "oq_list q" "chQSizeI q" "oq_put q" "oq_get q" for q
proof unfold_locales
  fix k b x xs
  have len: "length (oq_list q k) = chQSizeI q k - chQSpaceI q k" for k
    by (simp add: oq_list_def chQSizeI_def chQSpaceI_def)
  show "oq_ok q k \<Longrightarrow> length (oq_list q k) \<le> chQSizeI q k" by (simp add: len)
  show "\<exists>k'. oq_put q b k = Some k' \<and> oq_ok q k' \<and> oq_list q k' = oq_list q k @ [b] \<and> chQSizeI q k' = chQSizeI q k"
    if "oq_ok q k" "length (oq_list q k) < chQSizeI q k"
  proof -
    have nf: "\<not> chOQIsFullI q k" using that(2) by (simp add: len chOQIsFullI_def)
    then show ?thesis using oq_store_ok[OF that(1) nf, of b] by (simp add: oq_put_def)
  qed
  show "oq_put q b k = None" if "oq_ok q k" "chQSizeI q k \<le> length (oq_list q k)"
  proof -
    have "0 < chQSizeI q k" using that(1) by (auto simp: oq_ok_def ring_ok_def chQSizeI_def)
    then have "chOQIsFullI q k" using that(2) by (simp add: len chOQIsFullI_def)
    then show ?thesis by (simp add: oq_put_def)
  qed
  show "\<exists>k'. oq_get q k = Some (x, k') \<and> oq_ok q k' \<and> oq_list q k' = xs \<and> chQSizeI q k' = chQSizeI q k"
    if "oq_ok q k" "oq_list q k = x # xs"
  proof -
    have ne: "\<not> chOQIsEmptyI q k" using chOQGetI_ok(1)[OF that(1)] that(2) by simp
    obtain b where b: "fst (chOQGetI q k) = uint b" "oq_ok q (snd (chOQGetI q k))"
      "oq_list q k = b # oq_list q (snd (chOQGetI q k))" "chQSizeI q (snd (chOQGetI q k)) = chQSizeI q k"
      using chOQGetI_ok(2)[OF \<open>oq_ok q k\<close> ne] by blast
    have "uint b \<noteq> Q_EMPTY" using uint_ge_0[of b] unfolding Q_EMPTY_def by linarith
    then show ?thesis using b \<open>oq_list q k = x # xs\<close> by (cases "chOQGetI q k") (auto simp: oq_get_def)
  qed
  show "oq_get q k = None" if "oq_ok q k" "oq_list q k = []"
    using chOQGetI_ok(1)[OF that(1)] that(2) by (simp add: oq_get_def chOQGetI_def)
qed

section \<open>Transfers of several bytes\<close>

text \<open>Reads and writes that do not have to wait move exactly the bytes asked for, in order.\<close>

lemma iq_wait_ready: "\<not> chIQIsEmptyI q k \<Longrightarrow> iq_wait (Suc f) quit q time k = Ret None k"
  by simp

lemma iq_empty_iff: "chIQIsEmptyI q k \<longleftrightarrow> length (iq_list q k) = 0"
  by (simp add: chIQIsEmptyI_def chQSpaceI_def iq_list_def)

lemma chIQGetTimeout_ready:
  assumes "iq_ok q k" "iq_list q k = b # bs" "q_notify (ioq k q) = None"
  shows "\<exists>k'. chIQGetTimeout nfy (Suc f) q time k = Ret (uint b) k' \<and> iq_ok q k' \<and> iq_list q k' = bs"
proof -
  have ne: "\<not> chIQIsEmptyI q k" using assms(2) by (simp add: iq_empty_iff)
  then show ?thesis using iq_take_ok[OF assms(1) ne] assms(2,3)
    by (cases "iq_take q k") (auto simp: chIQGetTimeout_def q_notify_call_def)
qed

lemma iq_read_ready:
  assumes "iq_ok q k" "left < length (iq_list q k)"
  shows "\<exists>k'. iq_read left nfy None (Suc f) q time r k = Ret (r @ take (Suc left) (iq_list q k)) k'
     \<and> iq_ok q k' \<and> iq_list q k' = drop (Suc left) (iq_list q k)"
  using assms
proof (induction left arbitrary: k r)
  case 0
  have ne: "\<not> chIQIsEmptyI q k" using 0 by (simp add: iq_empty_iff)
  then show ?case using iq_take_ok[OF 0(1) ne]
    by (cases "iq_take q k") (auto simp: call_nfy_def)
next
  case (Suc left)
  have ne: "\<not> chIQIsEmptyI q k" using Suc.prems by (auto simp: iq_empty_iff)
  obtain b k1 where t: "iq_take q k = (b, k1)" by fastforce
  have k1: "iq_ok q k1" "iq_list q k = b # iq_list q k1" using iq_take_ok[OF Suc.prems(1) ne] t by auto
  have "left < length (iq_list q k1)" using Suc.prems(2) k1(2) by simp
  from Suc.IH[OF k1(1) this, of "r @ [b]"] show ?case using ne t k1(2) by (auto simp: call_nfy_def)
qed

lemma oq_full_iff: "oq_ok q k \<Longrightarrow> chOQIsFullI q k \<longleftrightarrow> length (oq_list q k) = chQSizeI q k"
  by (auto simp: chOQIsFullI_def chQSpaceI_def oq_list_def chQSizeI_def oq_ok_def ring_ok_def)

lemma oq_write_ready:
  assumes "oq_ok q k" "bs \<noteq> []" "length (oq_list q k) + length bs \<le> chQSizeI q k"
  shows "\<exists>k'. oq_write nfy None (Suc f) q time w bs k = Ret (w + length bs) k'
     \<and> oq_ok q k' \<and> oq_list q k' = oq_list q k @ bs"
  using assms
proof (induction bs arbitrary: k w)
  case (Cons b bs)
  have nf: "\<not> chOQIsFullI q k" using Cons.prems oq_full_iff by auto
  note st = oq_store_ok[OF Cons.prems(1) nf, of b]
  show ?case
  proof (cases "bs = []")
    case True
    then show ?thesis using nf st by (simp add: call_nfy_def Let_def)
  next
    case False
    have "length (oq_list q (oq_store q b k)) + length bs \<le> chQSizeI q (oq_store q b k)"
      using Cons.prems(3) st by simp
    from Cons.IH[OF st(1) False this, of "w + 1"] show ?thesis
      using nf st False by (auto simp: call_nfy_def Let_def)
  qed
qed simp

end
