(* ===== verification/Memory.thy ===== *)
theory Memory
  imports IOQueues
begin

text \<open>
  The memory managers: the core allocator (\<^verbatim>\<open>os/kernel/src/chmemcore.c\<close>), the heap
  (\<^verbatim>\<open>chheap.c\<close>) and the memory pools (\<^verbatim>\<open>chmempools.c\<close>). Sizes are 32-bit: where a bytes
  computation can wrap, \<open>mod 2 ^ 32\<close> is written out. Block headers are 8 bytes
  (\<^verbatim>\<open>sizeof(union heap_header)\<close> with the 8-byte \<^verbatim>\<open>stkalign_t\<close> of the port).

  The memory of pool objects and of heap blocks is disjoint, so the link word of a free
  pool object (\<open>ph_next\<close>) and the header of a heap block are separate maps.
\<close>

section \<open>The core allocator\<close>

definition MEM_ALIGN_SIZE :: nat where "MEM_ALIGN_SIZE = 8"

definition MEM_ALIGN_PREV :: "nat \<Rightarrow> nat" where
  "MEM_ALIGN_PREV p = p - p mod MEM_ALIGN_SIZE"

definition MEM_ALIGN_NEXT :: "nat \<Rightarrow> nat" where
  "MEM_ALIGN_NEXT p = MEM_ALIGN_PREV ((p + (MEM_ALIGN_SIZE - 1)) mod 2 ^ 32)"

definition MEM_IS_ALIGNED :: "nat \<Rightarrow> bool" where
  "MEM_IS_ALIGNED p \<longleftrightarrow> p mod MEM_ALIGN_SIZE = 0"

definition upd_mem :: "(memory \<Rightarrow> memory) \<Rightarrow> kernel \<Rightarrow> kernel" where
  "upd_mem f k = k\<lparr>mem := f (mem k)\<rparr>"

text \<open>\<^verbatim>\<open>__heap_base__\<close> and \<^verbatim>\<open>__heap_end__\<close> are symbols of the linker script.\<close>

definition core_init :: "nat \<Rightarrow> nat \<Rightarrow> kernel \<Rightarrow> kernel" where
  "core_init heap_base heap_end =
     upd_mem (\<lambda>m. m\<lparr>nextmem := MEM_ALIGN_NEXT heap_base, endmem := MEM_ALIGN_PREV heap_end\<rparr>)"

definition chCoreStatus :: "kernel \<Rightarrow> nat" where
  "chCoreStatus k = (endmem (mem k) + 2 ^ 32 - nextmem (mem k)) mod 2 ^ 32"

definition chCoreAllocI :: "nat \<Rightarrow> kernel \<Rightarrow> nat option \<times> kernel" where
  "chCoreAllocI bytes k =
     (let bytes = MEM_ALIGN_NEXT bytes
      in if (endmem (mem k) + 2 ^ 32 - nextmem (mem k)) mod 2 ^ 32 < bytes then (None, k)
         else (Some (nextmem (mem k)), upd_mem (\<lambda>m. m\<lparr>nextmem := nextmem m + bytes\<rparr>) k))"

definition chCoreAlloc :: "nat \<Rightarrow> kernel \<Rightarrow> nat option \<times> kernel" where
  "chCoreAlloc bytes k = chCoreAllocI bytes k"

text \<open>The memory providers of heaps and pools; \<open>uget\<close> is the application's.\<close>

type_synonym provider = "nat \<Rightarrow> nat \<Rightarrow> kernel \<Rightarrow> nat option \<times> kernel"

fun getmem :: "provider \<Rightarrow> memgetfunc \<Rightarrow> nat \<Rightarrow> kernel \<Rightarrow> nat option \<times> kernel" where
  "getmem uget GF_chCoreAlloc bytes k = chCoreAlloc bytes k"
| "getmem uget GF_chCoreAllocI bytes k = chCoreAllocI bytes k"
| "getmem uget (GF_user f) bytes k = uget f bytes k"

section \<open>The heap\<close>

definition HDR :: nat where "HDR = 8"

fun next_of :: "hunion \<Rightarrow> nat option" where
  "next_of (H_next n) = n"
| "next_of (H_heap h) = undefined h"

fun heap_of :: "hunion \<Rightarrow> nat" where
  "heap_of (H_heap h) = h"
| "heap_of (H_next n) = undefined n"

abbreviation hnext :: "memory \<Rightarrow> haddr \<Rightarrow> nat option" where
  "hnext m a \<equiv> next_of (h_u m a)"

definition set_next :: "haddr \<Rightarrow> nat option \<Rightarrow> memory \<Rightarrow> memory" where
  "set_next a n m = m\<lparr>h_u := (h_u m)(a := H_next n)\<rparr>"

definition set_heap :: "haddr \<Rightarrow> nat \<Rightarrow> memory \<Rightarrow> memory" where
  "set_heap a h m = m\<lparr>h_u := (h_u m)(a := H_heap h)\<rparr>"

definition set_size :: "haddr \<Rightarrow> nat \<Rightarrow> memory \<Rightarrow> memory" where
  "set_size a n m = m\<lparr>h_size := (h_size m)(a := n)\<rparr>"

definition default_heap :: nat where "default_heap = 0"

definition heap_init :: "kernel \<Rightarrow> kernel" where
  "heap_init k =
     (let k1 = upd_mem (\<lambda>m. set_size (H_free default_heap) 0 (set_next (H_free default_heap) None
            (m\<lparr>h_provider := (h_provider m)(default_heap := Some GF_chCoreAlloc)\<rparr>))) k
      in chMtxInit (h_mtx (mem k1) default_heap) k1)"

definition chHeapInit :: "nat \<Rightarrow> nat \<Rightarrow> nat \<Rightarrow> kernel \<Rightarrow> kernel" where
  "chHeapInit heapp buf bytes k =
     (let k1 = upd_mem (\<lambda>m.
            let m1 = m\<lparr>h_provider := (h_provider m)(heapp := None)\<rparr>;
                m2 = set_size (H_free heapp) 0 (set_next (H_free heapp) (Some buf) m1)
            in set_size (Blk buf) (bytes - HDR) (set_next (Blk buf) None m2)) k
      in chMtxInit (h_mtx (mem k1) heapp) k1)"

text \<open>Taking the block \<open>hp\<close>, the successor of \<open>qp\<close>, whole or split.\<close>

definition heap_take :: "nat \<Rightarrow> nat \<Rightarrow> haddr \<Rightarrow> nat \<Rightarrow> memory \<Rightarrow> memory" where
  "heap_take heapp bytes qp hp m =
     (let m1 =
        (if h_size m (Blk hp) < (bytes + HDR) mod 2 ^ 32
         then set_next qp (hnext m (Blk hp)) m
         else
           (let fp = hp + HDR + bytes;
                m2 = set_next (Blk fp) (hnext m (Blk hp)) m;
                m3 = set_size (Blk fp) (h_size m2 (Blk hp) - HDR - bytes) m2;
                m4 = set_next qp (Some fp) m3
            in set_size (Blk hp) bytes m4))
      in set_heap (Blk hp) heapp m1)"

text \<open>First fit: \<open>Some p\<close> and the memory with the block taken, or \<open>None\<close> at the end of the list.\<close>

partial_function (option) heap_alloc_loop ::
    "nat \<Rightarrow> nat \<Rightarrow> haddr \<Rightarrow> memory \<Rightarrow> (nat option \<times> memory) option" where
  "heap_alloc_loop heapp bytes qp m =
     (case hnext m qp of
        None \<Rightarrow> Some (None, m)
      | Some hp \<Rightarrow>
          if bytes \<le> h_size m (Blk hp) then Some (Some (hp + HDR), heap_take heapp bytes qp hp m)
          else heap_alloc_loop heapp bytes (Blk hp) m)"

definition chHeapAlloc :: "provider \<Rightarrow> nat option \<Rightarrow> nat \<Rightarrow> kernel \<Rightarrow> nat option step" where
  "chHeapAlloc uget hopt bytes k =
     (let heapp = (case hopt of None \<Rightarrow> default_heap | Some h \<Rightarrow> h);
          bytes = MEM_ALIGN_NEXT bytes
      in bind (chMtxLock (h_mtx (mem k) heapp) k)
           (\<lambda>_ k1. case heap_alloc_loop heapp bytes (H_free heapp) (mem k1) of
              None \<Rightarrow> Hang
            | Some (Some p, m) \<Rightarrow> bind (chMtxUnlock (k1\<lparr>mem := m\<rparr>)) (\<lambda>_. Ret (Some p))
            | Some (None, m) \<Rightarrow>
                bind (chMtxUnlock (k1\<lparr>mem := m\<rparr>))
                  (\<lambda>_ k2. case h_provider (mem k2) heapp of
                     None \<Rightarrow> Ret None k2
                   | Some f \<Rightarrow>
                       (case getmem uget f ((bytes + HDR) mod 2 ^ 32) k2 of
                          (None, k3) \<Rightarrow> Ret None k3
                        | (Some hp, k3) \<Rightarrow>
                            Ret (Some (hp + HDR))
                              (upd_mem (\<lambda>m. set_size (Blk hp) bytes (set_heap (Blk hp) heapp m)) k3)))))"

text \<open>\<open>LIMIT\<close>, the end of a block. The header inside a heap is followed by the mutex, no block.\<close>

fun heap_limit :: "memory \<Rightarrow> haddr \<Rightarrow> nat option" where
  "heap_limit m (Blk a) = Some (a + HDR + h_size m (Blk a))"
| "heap_limit m (H_free h) = None"

fun before :: "haddr \<Rightarrow> nat \<Rightarrow> bool" where
  "before (Blk a) hp \<longleftrightarrow> a < hp"
| "before (H_free h) hp \<longleftrightarrow> True"

definition heap_insert :: "nat \<Rightarrow> haddr \<Rightarrow> memory \<Rightarrow> memory" where
  "heap_insert hp qp m =
     (let m1 = set_next (Blk hp) (hnext m qp) m;
          m2 = set_next qp (Some hp) m1;
          m3 = (if heap_limit m2 (Blk hp) = hnext m2 (Blk hp)
                then (let n = the (hnext m2 (Blk hp));
                          ma = set_size (Blk hp) (h_size m2 (Blk hp) + (h_size m2 (Blk n) + HDR)) m2
                      in set_next (Blk hp) (hnext ma (Blk n)) ma)
                else m2)
      in if heap_limit m3 qp = Some hp
         then set_next qp (hnext m3 (Blk hp))
                (set_size qp (h_size m3 qp + (h_size m3 (Blk hp) + HDR)) m3)
         else m3)"

partial_function (option) heap_free_loop :: "nat \<Rightarrow> haddr \<Rightarrow> memory \<Rightarrow> memory option" where
  "heap_free_loop hp qp m =
     (if before qp hp \<and> (case hnext m qp of None \<Rightarrow> True | Some n \<Rightarrow> hp < n)
      then Some (heap_insert hp qp m)
      else (case hnext m qp of None \<Rightarrow> None | Some n \<Rightarrow> heap_free_loop hp (Blk n) m))"

definition chHeapFree :: "nat \<Rightarrow> kernel \<Rightarrow> unit step" where
  "chHeapFree p k =
     (let hp = p - HDR; heapp = heap_of (h_u (mem k) (Blk hp))
      in bind (chMtxLock (h_mtx (mem k) heapp) k)
           (\<lambda>_ k1. case heap_free_loop hp (H_free heapp) (mem k1) of
              None \<Rightarrow> Hang
            | Some m \<Rightarrow> bind (chMtxUnlock (k1\<lparr>mem := m\<rparr>)) (\<lambda>_. Ret ())))"

partial_function (option) heap_status_loop :: "haddr \<Rightarrow> nat \<Rightarrow> nat \<Rightarrow> memory \<Rightarrow> (nat \<times> nat) option" where
  "heap_status_loop qp n sz m =
     (case hnext m qp of
        None \<Rightarrow> Some (n, sz)
      | Some a \<Rightarrow> heap_status_loop (Blk a) (n + 1) ((sz + h_size m (Blk a)) mod 2 ^ 32) m)"

definition chHeapStatus :: "nat option \<Rightarrow> kernel \<Rightarrow> (nat \<times> nat) step" where
  "chHeapStatus hopt k =
     (let heapp = (case hopt of None \<Rightarrow> default_heap | Some h \<Rightarrow> h)
      in bind (chMtxLock (h_mtx (mem k) heapp) k)
           (\<lambda>_ k1. case heap_status_loop (H_free heapp) 0 0 (mem k1) of
              None \<Rightarrow> Hang
            | Some r \<Rightarrow> bind (chMtxUnlock k1) (\<lambda>_. Ret r)))"

section \<open>Memory pools\<close>

definition chPoolInit :: "nat \<Rightarrow> nat \<Rightarrow> memgetfunc option \<Rightarrow> kernel \<Rightarrow> kernel" where
  "chPoolInit mp bytes provider =
     upd_mem (\<lambda>m. m\<lparr>mp_next := (mp_next m)(mp := None),
                    mp_object_size := (mp_object_size m)(mp := MEM_ALIGN_NEXT bytes),
                    mp_provider := (mp_provider m)(mp := provider)\<rparr>)"

definition chPoolAllocI :: "provider \<Rightarrow> nat \<Rightarrow> kernel \<Rightarrow> nat option \<times> kernel" where
  "chPoolAllocI uget mp k =
     (case mp_next (mem k) mp of
        Some objp \<Rightarrow>
          (Some objp, upd_mem (\<lambda>m. m\<lparr>mp_next := (mp_next m)(mp := ph_next m objp)\<rparr>) k)
      | None \<Rightarrow>
          (case mp_provider (mem k) mp of
             None \<Rightarrow> (None, k)
           | Some f \<Rightarrow> getmem uget f (mp_object_size (mem k) mp) k))"

definition chPoolAlloc :: "provider \<Rightarrow> nat \<Rightarrow> kernel \<Rightarrow> nat option \<times> kernel" where
  "chPoolAlloc uget mp k = chPoolAllocI uget mp k"

definition chPoolFreeI :: "nat \<Rightarrow> nat \<Rightarrow> kernel \<Rightarrow> kernel" where
  "chPoolFreeI mp objp =
     upd_mem (\<lambda>m. let m1 = m\<lparr>ph_next := (ph_next m)(objp := mp_next m mp)\<rparr>
                  in m1\<lparr>mp_next := (mp_next m1)(mp := Some objp)\<rparr>)"

definition chPoolFree :: "nat \<Rightarrow> nat \<Rightarrow> kernel \<Rightarrow> kernel" where
  "chPoolFree mp objp = chPoolFreeI mp objp"

section \<open>The core allocator: properties\<close>

lemma align_prev_le: "MEM_ALIGN_PREV p \<le> p"
  by (simp add: MEM_ALIGN_PREV_def)

lemma align_prev_aligned: "MEM_IS_ALIGNED (MEM_ALIGN_PREV p)"
  by (simp add: MEM_IS_ALIGNED_def MEM_ALIGN_PREV_def MEM_ALIGN_SIZE_def flip: minus_mod_eq_mult_div)

lemma align_next_bounds:
  assumes "p \<le> 2 ^ 32 - 8"
  shows "p \<le> MEM_ALIGN_NEXT p" "MEM_ALIGN_NEXT p < p + 8" "MEM_IS_ALIGNED (MEM_ALIGN_NEXT p)"
proof -
  have "(p + 7) mod 2 ^ 32 = p + 7" using assms by simp
  then have e: "MEM_ALIGN_NEXT p = (p + 7) - (p + 7) mod 8"
    by (simp add: MEM_ALIGN_NEXT_def MEM_ALIGN_PREV_def MEM_ALIGN_SIZE_def)
  have "(p + 7) mod 8 < 8" by simp
  then show "p \<le> MEM_ALIGN_NEXT p" "MEM_ALIGN_NEXT p < p + 8" unfolding e by linarith+
  show "MEM_IS_ALIGNED (MEM_ALIGN_NEXT p)" unfolding MEM_ALIGN_NEXT_def by (rule align_prev_aligned)
qed

definition core_ok :: "kernel \<Rightarrow> bool" where
  "core_ok k \<longleftrightarrow> nextmem (mem k) \<le> endmem (mem k) \<and> endmem (mem k) < 2 ^ 32
     \<and> MEM_IS_ALIGNED (nextmem (mem k)) \<and> MEM_IS_ALIGNED (endmem (mem k))"

lemma core_status: "core_ok k \<Longrightarrow> chCoreStatus k = endmem (mem k) - nextmem (mem k)"
proof -
  assume c: "core_ok k"
  then have "endmem (mem k) + 2 ^ 32 - nextmem (mem k) = (endmem (mem k) - nextmem (mem k)) + 2 ^ 32"
    by (simp add: core_ok_def)
  moreover have "endmem (mem k) - nextmem (mem k) < 2 ^ 32"
    using c by (intro less_imp_diff_less) (simp add: core_ok_def)
  ultimately show ?thesis unfolding chCoreStatus_def by (simp only: mod_add_self2 mod_less)
qed

lemma mem_upd_mem [simp]: "mem (upd_mem f k) = f (mem k)"
  by (simp add: upd_mem_def)

lemma kinv_upd_mem [simp]: "kinv (upd_mem f k) = kinv k" "currp (upd_mem f k) = currp k"
  "thr (upd_mem f k) = thr k"
  by (simp_all add: upd_mem_def)

lemma chCoreAllocI_ok:
  assumes c: "core_ok k" and s: "bytes \<le> 2 ^ 32 - 8"
  shows "chCoreAllocI bytes k =
      (if MEM_ALIGN_NEXT bytes \<le> endmem (mem k) - nextmem (mem k)
       then (Some (nextmem (mem k)), upd_mem (\<lambda>m. m\<lparr>nextmem := nextmem m + MEM_ALIGN_NEXT bytes\<rparr>) k)
       else (None, k))"
    "core_ok (snd (chCoreAllocI bytes k))"
proof -
  show e: "chCoreAllocI bytes k =
      (if MEM_ALIGN_NEXT bytes \<le> endmem (mem k) - nextmem (mem k)
       then (Some (nextmem (mem k)), upd_mem (\<lambda>m. m\<lparr>nextmem := nextmem m + MEM_ALIGN_NEXT bytes\<rparr>) k)
       else (None, k))"
    using core_status[OF c] by (simp add: chCoreAllocI_def chCoreStatus_def Let_def)
  show "core_ok (snd (chCoreAllocI bytes k))"
    using c align_next_bounds[OF s] unfolding e by (auto simp: core_ok_def MEM_IS_ALIGNED_def MEM_ALIGN_SIZE_def mod_add_eq)
qed

section \<open>The free list of a heap\<close>

fun path :: "memory \<Rightarrow> haddr \<Rightarrow> nat list \<Rightarrow> bool" where
  "path m q [] \<longleftrightarrow> True"
| "path m q (a # as) \<longleftrightarrow> h_u m q = H_next (Some a) \<and> path m (Blk a) as"

fun free_at :: "memory \<Rightarrow> haddr \<Rightarrow> nat list \<Rightarrow> bool" where
  "free_at m q [] \<longleftrightarrow> h_u m q = H_next None"
| "free_at m q (a # as) \<longleftrightarrow> h_u m q = H_next (Some a) \<and> free_at m (Blk a) as"

definition endn :: "haddr \<Rightarrow> nat list \<Rightarrow> haddr" where
  "endn q as = (if as = [] then q else Blk (last as))"

lemma endn_simps [simp]: "endn q [] = q" "endn q (a # as) = endn (Blk a) as" "endn q (as @ [a]) = Blk a"
  by (simp_all add: endn_def)

lemma free_at_append: "free_at m q (as @ bs) \<longleftrightarrow> path m q as \<and> free_at m (endn q as) bs"
  by (induction as arbitrary: q) auto

lemma path_append: "path m q (as @ bs) \<longleftrightarrow> path m q as \<and> path m (endn q as) bs"
  by (induction as arbitrary: q) auto

lemma free_at_hnext: "free_at m q xs \<Longrightarrow> hnext m q = (case xs of [] \<Rightarrow> None | a # _ \<Rightarrow> Some a)"
  by (cases xs) auto

text \<open>What the list reads.\<close>

lemma endn_mem: "endn q as = q \<or> endn q as \<in> Blk ` set as"
  by (auto simp: endn_def)

lemma path_cong:
  assumes "\<And>x. x \<in> insert q (Blk ` set as) \<Longrightarrow> x \<noteq> endn q as \<Longrightarrow> h_u m' x = h_u m x"
    and "distinct as" "q \<notin> Blk ` set as"
  shows "path m' q as = path m q as"
  using assms
proof (induction as arbitrary: q)
  case (Cons a as)
  have "endn (Blk a) as \<noteq> q" using Cons.prems(3) endn_mem[of "Blk a" as] by auto
  then have "h_u m' q = h_u m q" using Cons.prems(1)[of q] by simp
  moreover have "path m' (Blk a) as = path m (Blk a) as" using Cons.prems by (intro Cons.IH) auto
  ultimately show ?case by simp
qed simp

lemma free_at_cong:
  assumes "\<And>x. x \<in> insert q (Blk ` set as) \<Longrightarrow> h_u m' x = h_u m x"
  shows "free_at m' q as = free_at m q as"
  using assms by (induction as arbitrary: q) auto

text \<open>Free blocks are in address order, and no two of them touch.\<close>

definition apart :: "memory \<Rightarrow> nat \<Rightarrow> nat \<Rightarrow> bool" where
  "apart m a b \<longleftrightarrow> a + HDR + h_size m (Blk a) < b"

definition heap_ok :: "memory \<Rightarrow> nat \<Rightarrow> nat list \<Rightarrow> bool" where
  "heap_ok m h xs \<longleftrightarrow> free_at m (H_free h) xs \<and> sorted_wrt (apart m) xs"

definition extent :: "memory \<Rightarrow> nat \<Rightarrow> nat set" where
  "extent m a = {a..<a + HDR + h_size m (Blk a)}"

definition free_bytes :: "memory \<Rightarrow> nat list \<Rightarrow> nat set" where
  "free_bytes m xs = (\<Union>a \<in> set xs. extent m a)"

lemma apart_less: "apart m a b \<Longrightarrow> a < b"
  by (simp add: apart_def)

lemma sorted_apart_distinct: "sorted_wrt (apart m) xs \<Longrightarrow> distinct xs"
  by (induction xs) (auto dest: apart_less)

lemma set_simps [simp]:
  "h_u (set_next a n m) = (h_u m)(a := H_next n)" "h_size (set_next a n m) = h_size m"
  "h_u (set_heap a h m) = (h_u m)(a := H_heap h)" "h_size (set_heap a h m) = h_size m"
  "h_u (set_size a z m) = h_u m" "h_size (set_size a z m) = (h_size m)(a := z)"
  by (simp_all add: set_next_def set_heap_def set_size_def)

text \<open>Allocation.\<close>

lemma heap_alloc_loop_none:
  assumes "free_at m q xs" "\<And>x. x \<in> set xs \<Longrightarrow> h_size m (Blk x) < n"
  shows "heap_alloc_loop h n q m = Some (None, m)"
  using assms by (induction xs arbitrary: q) (subst heap_alloc_loop.simps; force)+

lemma heap_alloc_loop_some:
  assumes "free_at m q (as @ a # bs)" "\<And>x. x \<in> set as \<Longrightarrow> h_size m (Blk x) < n" "n \<le> h_size m (Blk a)"
  shows "heap_alloc_loop h n q m = Some (Some (a + HDR), heap_take h n (endn q as) a m)"
  using assms by (induction as arbitrary: q) (subst heap_alloc_loop.simps; force)+

lemma heap_take_frame:
  assumes "x \<noteq> qp" "x \<noteq> Blk hp" "x \<noteq> Blk (hp + HDR + n)"
  shows "h_u (heap_take h n qp hp m) x = h_u m x" "h_size (heap_take h n qp hp m) x = h_size m x"
  using assms by (simp_all add: heap_take_def Let_def)

lemma apart_cong: "h_size m' (Blk a) = h_size m (Blk a) \<Longrightarrow> apart m' a b = apart m a b"
  by (simp add: apart_def)

lemma sorted_apart_cong:
  assumes "\<And>x. x \<in> set xs \<Longrightarrow> h_size m' (Blk x) = h_size m (Blk x)"
  shows "sorted_wrt (apart m') xs = sorted_wrt (apart m) xs"
  using assms by (induction xs) (auto simp: apart_def)

lemma extent_cong: "h_size m' (Blk a) = h_size m (Blk a) \<Longrightarrow> extent m' a = extent m a"
  by (simp add: extent_def)

lemma free_bytes_append: "free_bytes m (as @ bs) = free_bytes m as \<union> free_bytes m bs"
  by (simp add: free_bytes_def)

lemma free_bytes_cong:
  "(\<And>x. x \<in> set xs \<Longrightarrow> h_size m' (Blk x) = h_size m (Blk x)) \<Longrightarrow> free_bytes m' xs = free_bytes m xs"
  by (simp add: free_bytes_def extent_def)

lemma apart_disjoint: "apart m a b \<Longrightarrow> extent m a \<inter> extent m b = {}"
  by (auto simp: apart_def extent_def)

lemma heap_take_ok:
  assumes ok: "heap_ok m h (as @ a # bs)" and n: "n \<le> h_size m (Blk a)" "n + HDR < 2 ^ 32"
  defines "m' \<equiv> heap_take h n (endn (H_free h) as) a m"
  obtains xs where "heap_ok m' h xs" "free_bytes m' xs = free_bytes m (as @ a # bs) - extent m' a"
    "extent m' a \<subseteq> free_bytes m (as @ a # bs)" "h_u m' (Blk a) = H_heap h"
    "n \<le> h_size m' (Blk a)" "h_size m' (Blk a) < n + HDR + HDR"
proof -
  let ?q = "endn (H_free h) as"
  have f: "path m (H_free h) as" "h_u m ?q = H_next (Some a)" "free_at m (Blk a) bs"
    and srt: "sorted_wrt (apart m) (as @ a # bs)"
    using ok by (auto simp: heap_ok_def free_at_append)
  have d: "distinct (as @ a # bs)" by (rule sorted_apart_distinct[OF srt])
  have as: "\<And>x. x \<in> set as \<Longrightarrow> apart m x a" "\<And>x y. x \<in> set as \<Longrightarrow> y \<in> set bs \<Longrightarrow> apart m x y"
    and bs: "\<And>y. y \<in> set bs \<Longrightarrow> apart m a y" and sas: "sorted_wrt (apart m) as" and sbs: "sorted_wrt (apart m) bs"
    using srt by (auto simp: sorted_wrt_append)
  have qa: "?q \<noteq> Blk a" using d by (auto simp: endn_def)
  have qbs: "?q \<notin> Blk ` set bs"
  proof -
    have "set as \<inter> set bs = {}" using d by simp
    then show ?thesis using endn_mem[of "H_free h" as] by auto
  qed
  show thesis
  proof (cases "h_size m (Blk a) < n + HDR")
    case True
    have m': "m' = set_heap (Blk a) h (set_next ?q (hnext m (Blk a)) m)"
      using True n by (simp add: m'_def heap_take_def Let_def)
    have sz: "h_size m' = h_size m" by (simp add: m')
    have ho: "h_u m' x = h_u m x" if "x \<noteq> ?q" "x \<noteq> Blk a" for x using that by (simp add: m')
    have nq: "\<forall>x \<in> set bs. Blk x \<noteq> ?q" using qbs by force
    have "path m' (H_free h) as = path m (H_free h) as"
      by (rule path_cong) (use d in \<open>auto intro!: ho\<close>)
    moreover have "free_at m' ?q bs"
    proof (cases bs)
      case Nil
      then show ?thesis using f(3) qa by (simp add: m')
    next
      case (Cons b cs)
      have "free_at m' (Blk b) cs = free_at m (Blk b) cs"
        by (rule free_at_cong) (use d nq Cons in \<open>auto intro!: ho\<close>)
      then show ?thesis using f(3) Cons qa by (simp add: m')
    qed
    moreover have "apart m' = apart m" by (intro ext) (simp add: apart_def sz)
    ultimately have "heap_ok m' h (as @ bs)"
      using f srt by (simp add: heap_ok_def free_at_append sorted_wrt_append)
    moreover have "free_bytes m' (as @ bs) = free_bytes m (as @ a # bs) - extent m' a"
    proof -
      have "extent m x \<inter> extent m a = {}" if "x \<in> set as \<union> set bs" for x
        using that as bs apart_disjoint by blast
      moreover have e: "extent m' = extent m" by (rule ext) (simp add: extent_def sz)
      ultimately show ?thesis unfolding free_bytes_def e by auto
    qed
    moreover have "extent m' a \<subseteq> free_bytes m (as @ a # bs)" by (auto simp: free_bytes_def extent_def sz)
    ultimately show thesis using True n by (intro that[of "as @ bs"]) (simp_all add: m')
  next
    case False
    let ?f = "a + HDR + n"
    have fa: "?f \<noteq> a" by (simp add: HDR_def)
    have m': "m' = set_heap (Blk a) h (set_size (Blk a) n (set_next ?q (Some ?f)
        (set_size (Blk ?f) (h_size m (Blk a) - HDR - n) (set_next (Blk ?f) (hnext m (Blk a)) m))))"
      using False n by (simp add: m'_def heap_take_def Let_def)
    have fas: "?f \<notin> set as" using as(1)[of ?f] apart_less[of m ?f a] by auto
    have nq: "\<forall>x \<in> set bs. Blk x \<noteq> ?q" using qbs by force
    have fbs: "?f \<notin> set bs" using bs False by (fastforce simp: apart_def)
    have fq: "Blk ?f \<noteq> ?q" using fas by (auto simp: endn_def)
    have sz: "h_size m' (Blk x) = (if x = a then n else if x = ?f then h_size m (Blk a) - HDR - n else h_size m (Blk x))" for x
      using fa by (simp add: m')
    have hu: "h_u m' (Blk ?f) = H_next (hnext m (Blk a))" "h_u m' ?q = H_next (Some ?f)" "h_u m' (Blk a) = H_heap h"
      using fq qa fa by (simp_all add: m')
    have ho: "h_u m' x = h_u m x" if "x \<noteq> Blk ?f" "x \<noteq> ?q" "x \<noteq> Blk a" for x using that by (simp add: m')
    have "path m' (H_free h) as = path m (H_free h) as"
      by (rule path_cong) (use d fas in \<open>auto intro!: ho\<close>)
    moreover have "free_at m' (Blk ?f) bs"
    proof (cases bs)
      case Nil
      then show ?thesis using f(3) hu by simp
    next
      case (Cons b cs)
      have "free_at m' (Blk b) cs = free_at m (Blk b) cs"
        by (rule free_at_cong) (use d nq fbs Cons in \<open>auto intro!: ho\<close>)
      then show ?thesis using f(3) Cons hu by simp
    qed
    moreover have "sorted_wrt (apart m') (as @ ?f # bs)"
    proof -
      have 1: "apart m' x y = apart m x y" if "x \<in> set as \<union> set bs" for x y
        using that d fas fbs by (intro apart_cong) (auto simp: sz)
      have "apart m' ?f y" if "y \<in> set bs" for y
        using bs[OF that] False fa by (simp add: apart_def sz)
      moreover have "apart m' x ?f" if "x \<in> set as" for x
        using as(1)[OF that] 1[of x ?f] that by (simp add: apart_def)
      moreover have "sorted_wrt (apart m') as = sorted_wrt (apart m) as" "sorted_wrt (apart m') bs = sorted_wrt (apart m) bs"
        using d fas fbs by (auto intro!: sorted_apart_cong simp: sz)
      ultimately show ?thesis using sas sbs as(2) 1 by (simp add: sorted_wrt_append)
    qed
    ultimately have "heap_ok m' h (as @ ?f # bs)" using f hu by (simp add: heap_ok_def free_at_append)
    moreover have ea: "extent m a = extent m' a \<union> extent m' ?f" "extent m' a \<inter> extent m' ?f = {}"
      using False fa by (auto simp: extent_def sz)
    moreover have "free_bytes m' (as @ ?f # bs) = free_bytes m (as @ a # bs) - extent m' a"
    proof -
      have "extent m x \<inter> extent m a = {}" "extent m' x = extent m x" if "x \<in> set as \<union> set bs" for x
        using that as bs apart_disjoint d fas fbs by (blast, intro extent_cong) (auto simp: sz)
      then show ?thesis using ea by (auto simp: free_bytes_def)
    qed
    moreover have "extent m' a \<subseteq> free_bytes m (as @ a # bs)" using ea by (auto simp: free_bytes_def)
    ultimately show thesis using hu by (intro that[of "as @ ?f # bs"]) (simp_all add: sz HDR_def)
  qed
qed

text \<open>Freeing: insertion at the place the address order gives, and merging with the neighbours.\<close>

definition heap_link :: "nat \<Rightarrow> haddr \<Rightarrow> memory \<Rightarrow> memory" where
  "heap_link hp qp m = set_next qp (Some hp) (set_next (Blk hp) (hnext m qp) m)"

definition heap_merge :: "nat \<Rightarrow> nat \<Rightarrow> memory \<Rightarrow> memory" where
  "heap_merge x y m = set_next (Blk x) (hnext m (Blk y))
     (set_size (Blk x) (h_size m (Blk x) + (h_size m (Blk y) + HDR)) m)"

definition le_apart :: "memory \<Rightarrow> nat \<Rightarrow> nat \<Rightarrow> bool" where
  "le_apart m a b \<longleftrightarrow> a + HDR + h_size m (Blk a) \<le> b"

lemma le_apart_less: "le_apart m a b \<Longrightarrow> a < b"
  by (simp add: le_apart_def HDR_def)

lemma apart_le: "apart m a b \<Longrightarrow> le_apart m a b"
  by (simp add: apart_def le_apart_def)

lemma heap_link_ok:
  assumes f: "free_at m q (as @ bs)" and d: "distinct (as @ hp # bs)" "q \<notin> Blk ` set (as @ hp # bs)"
  shows "free_at (heap_link hp (endn q as) m) q (as @ hp # bs)" "h_size (heap_link hp (endn q as) m) = h_size m"
proof -
  let ?q = "endn q as" and ?m = "heap_link hp (endn q as) m"
  have p: "path m q as" "free_at m ?q bs" using f by (auto simp: free_at_append)
  have qh: "?q \<noteq> Blk hp" using d endn_mem[of q as] by auto
  have qbs: "?q \<notin> Blk ` set bs"
  proof -
    have "set as \<inter> set bs = {}" using d by simp
    then show ?thesis using endn_mem[of q as] d by auto
  qed
  have nq: "\<forall>x \<in> set bs. Blk x \<noteq> ?q" using qbs by force
  have hu: "h_u ?m ?q = H_next (Some hp)" "h_u ?m (Blk hp) = H_next (hnext m ?q)"
    "\<And>x. x \<noteq> ?q \<Longrightarrow> x \<noteq> Blk hp \<Longrightarrow> h_u ?m x = h_u m x" using qh by (simp_all add: heap_link_def)
  have "path ?m q as = path m q as" by (rule path_cong) (use d in \<open>auto intro!: hu(3)\<close>)
  moreover have "free_at ?m (Blk hp) bs"
  proof (cases bs)
    case Nil
    then show ?thesis using p(2) hu(2) by simp
  next
    case (Cons b cs)
    have "free_at ?m (Blk b) cs = free_at m (Blk b) cs"
      by (rule free_at_cong) (use d nq Cons in \<open>auto intro!: hu(3)\<close>)
    then show ?thesis using p(2) Cons hu(2) by simp
  qed
  ultimately show "free_at ?m q (as @ hp # bs)" using p hu(1) by (simp add: free_at_append)
  show "h_size ?m = h_size m" by (simp add: heap_link_def)
qed

lemma heap_merge_ok:
  assumes f: "free_at m q (as @ x # y # bs)" and d: "distinct (as @ x # y # bs)" "q \<notin> Blk ` set (as @ x # y # bs)"
    and adj: "x + HDR + h_size m (Blk x) = y"
  shows "free_at (heap_merge x y m) q (as @ x # bs)"
    "h_size (heap_merge x y m) (Blk z) = (if z = x then h_size m (Blk x) + (h_size m (Blk y) + HDR) else h_size m (Blk z))"
    "extent (heap_merge x y m) x = extent m x \<union> extent m y"
proof -
  let ?m = "heap_merge x y m"
  have p: "path m q as" "h_u m (endn q as) = H_next (Some x)" "free_at m (Blk y) bs" using f by (auto simp: free_at_append)
  have hu: "h_u ?m (Blk x) = H_next (hnext m (Blk y))" "\<And>z. z \<noteq> Blk x \<Longrightarrow> h_u ?m z = h_u m z"
    by (simp_all add: heap_merge_def)
  have ne: "endn q as \<noteq> Blk x" using d endn_mem[of q as] by auto
  have "path ?m q as = path m q as" by (rule path_cong) (use d in \<open>auto intro!: hu(2)\<close>)
  moreover have "free_at ?m (Blk x) bs"
  proof (cases bs)
    case Nil
    then show ?thesis using p(3) hu(1) by simp
  next
    case (Cons b cs)
    have "free_at ?m (Blk b) cs = free_at m (Blk b) cs"
      by (rule free_at_cong) (use d Cons in \<open>auto intro!: hu(2)\<close>)
    then show ?thesis using p(3) Cons hu(1) by simp
  qed
  ultimately show "free_at ?m q (as @ x # bs)" using p ne hu(2) by (simp add: free_at_append)
  show "h_size ?m (Blk z) = (if z = x then h_size m (Blk x) + (h_size m (Blk y) + HDR) else h_size m (Blk z))"
    by (simp add: heap_merge_def)
  show "extent ?m x = extent m x \<union> extent m y" using adj by (auto simp: extent_def heap_merge_def)
qed

lemma heap_insert_eq:
  "heap_insert hp qp m =
     (let m2 = heap_link hp qp m;
          m3 = (if heap_limit m2 (Blk hp) = hnext m2 (Blk hp)
                then heap_merge hp (the (hnext m2 (Blk hp))) m2 else m2)
      in case qp of
           Blk a \<Rightarrow> (if heap_limit m3 qp = Some hp then heap_merge a hp m3 else m3)
         | H_free h \<Rightarrow> m3)"
  by (simp add: heap_insert_def heap_link_def heap_merge_def Let_def split: haddr.split)

text \<open>The loop finds the place.\<close>

lemma heap_free_loop_some:
  assumes "free_at m q (as @ bs)" "before q hp" "\<And>x. x \<in> set as \<Longrightarrow> x < hp" "\<And>x. x \<in> set bs \<Longrightarrow> hp < x"
  shows "heap_free_loop hp q m = Some (heap_insert hp (endn q as) m)"
  using assms
proof (induction as arbitrary: q)
  case Nil
  then show ?case by (cases bs) (subst heap_free_loop.simps; force)+
next
  case (Cons a as)
  have "heap_free_loop hp q m = heap_free_loop hp (Blk a) m"
    using Cons.prems(1) Cons.prems(3)[of a] by (subst heap_free_loop.simps) auto
  then show ?case using Cons by simp
qed

lemma split_at_block:
  assumes "sorted_wrt (apart m) xs" "hp \<notin> set xs"
  obtains as bs where "xs = as @ bs" "\<And>x. x \<in> set as \<Longrightarrow> x < hp" "\<And>x. x \<in> set bs \<Longrightarrow> hp < x"
  using assms
proof (induction xs arbitrary: thesis)
  case (Cons a xs)
  show ?case
  proof (cases "a < hp")
    case True
    obtain as bs where ab: "xs = as @ bs" "\<And>x. x \<in> set as \<Longrightarrow> x < hp" "\<And>x. x \<in> set bs \<Longrightarrow> hp < x"
      using Cons.IH Cons.prems by auto
    show ?thesis by (rule Cons.prems(1)[of "a # as" bs]) (use ab True in auto)
  next
    case False
    then have "hp < a" using Cons.prems by auto
    have "hp < x" if "x \<in> set xs" for x
      using Cons.prems(2) that \<open>hp < a\<close> apart_less[of m a x] by simp
    then show ?thesis
      by (intro Cons.prems(1)[of "[]" "a # xs"]) (use \<open>hp < a\<close> in auto)
  qed
qed simp

definition block_free :: "memory \<Rightarrow> nat list \<Rightarrow> nat \<Rightarrow> bool" where
  "block_free m xs hp \<longleftrightarrow> (\<forall>x \<in> set xs. le_apart m hp x \<or> le_apart m x hp)"

lemma block_free_disjoint: "extent m hp \<inter> free_bytes m xs = {} \<Longrightarrow> block_free m xs hp"
  unfolding block_free_def
proof (intro ballI, rule ccontr)
  fix x assume d: "extent m hp \<inter> free_bytes m xs = {}" and x: "x \<in> set xs"
    and n: "\<not> (le_apart m hp x \<or> le_apart m x hp)"
  then have "max hp x \<in> extent m hp \<inter> extent m x" by (auto simp: le_apart_def extent_def HDR_def)
  then show False using d x by (auto simp: free_bytes_def)
qed

text \<open>After linking and merging with the next block.\<close>

lemma heap_link_merge_ok:
  assumes ok: "heap_ok m h (as @ bs)" and d: "\<And>x. x \<in> set as \<Longrightarrow> x < hp"
    and b: "\<And>x. x \<in> set bs \<Longrightarrow> le_apart m hp x"
  defines "m2 \<equiv> heap_link hp (endn (H_free h) as) m"
  defines "m3 \<equiv> (if heap_limit m2 (Blk hp) = hnext m2 (Blk hp)
                then heap_merge hp (the (hnext m2 (Blk hp))) m2 else m2)"
  obtains cs where "free_at m3 (H_free h) (as @ hp # cs)" "sorted_wrt (apart m3) (hp # cs)" "set cs \<subseteq> set bs"
    "\<And>z. z \<noteq> hp \<Longrightarrow> h_size m3 (Blk z) = h_size m (Blk z)"
    "extent m3 hp \<union> free_bytes m3 cs = extent m hp \<union> free_bytes m bs"
proof -
  have f: "free_at m (H_free h) (as @ bs)" and srt: "sorted_wrt (apart m) (as @ bs)" using ok by (auto simp: heap_ok_def)
  have dd: "distinct (as @ hp # bs)" using sorted_apart_distinct[OF srt] d le_apart_less[OF b] by force
  note l = heap_link_ok[OF f dd, folded m2_def, simplified]
  have sz: "h_size m2 = h_size m" unfolding m2_def by (simp add: heap_link_def)
  have f2: "free_at m2 (H_free h) (as @ hp # bs)" using heap_link_ok(1)[OF f dd] unfolding m2_def by auto
  have sb: "sorted_wrt (apart m) bs" using srt by (simp add: sorted_wrt_append)
  show thesis
  proof (cases "heap_limit m2 (Blk hp) = hnext m2 (Blk hp)")
    case False
    have "free_at m2 (Blk hp) bs" using f2 by (simp add: free_at_append)
    then have hn: "hnext m2 (Blk hp) = (case bs of [] \<Rightarrow> None | a # _ \<Rightarrow> Some a)" by (rule free_at_hnext)
    have "apart m hp x" if "x \<in> set bs" for x
    proof (cases bs)
      case (Cons c cs)
      have "le_apart m hp c" "hp + HDR + h_size m (Blk hp) \<noteq> c" using b Cons False hn by (auto simp: sz)
      then have "apart m hp c" by (simp add: apart_def le_apart_def)
      then show ?thesis using sb that Cons by (auto simp: apart_def)
    qed (use that in simp)
    moreover have "apart m2 = apart m" by (intro ext) (simp add: apart_def sz)
    ultimately have "sorted_wrt (apart m2) (hp # bs)" using sb by simp
    then show thesis using False f2 sz
      by (intro that[of bs]) (auto simp: m3_def free_bytes_def extent_def)
  next
    case True
    have fb: "free_at m2 (Blk hp) bs" using f2 by (simp add: free_at_append)
    obtain c cs where bs: "bs = c # cs" and c: "hp + HDR + h_size m2 (Blk hp) = c"
      using True free_at_hnext[OF fb] by (cases bs) auto
    have hn: "hnext m2 (Blk hp) = Some c" using free_at_hnext[OF fb] bs by simp
    have m3: "m3 = heap_merge hp c m2" using True hn by (simp add: m3_def)
    have ddc: "distinct (as @ hp # c # cs)" using dd bs by simp
    have f2c: "free_at m2 (H_free h) (as @ hp # c # cs)" using f2 bs by simp
    note mg = heap_merge_ok[OF f2c ddc _ c, folded m3]
    have szm: "h_size m3 (Blk z) = (if z = hp then h_size m (Blk hp) + (h_size m (Blk c) + HDR) else h_size m (Blk z))" for z
      by (simp add: m3 heap_merge_def sz)
    have "apart m3 hp x" if "x \<in> set cs" for x
    proof -
      have "apart m c x" using sb bs that by simp
      then show ?thesis using c by (simp add: apart_def szm sz)
    qed
    moreover have "sorted_wrt (apart m3) cs = sorted_wrt (apart m) cs"
      by (rule sorted_apart_cong) (use ddc in \<open>auto simp: szm\<close>)
    ultimately have s3: "sorted_wrt (apart m3) (hp # cs)" using sb bs by simp
    have "free_bytes m3 cs = free_bytes m cs"
      by (rule free_bytes_cong) (use ddc in \<open>auto simp: szm\<close>)
    moreover have "extent m3 hp = extent m hp \<union> extent m c" using c by (auto simp: extent_def szm sz)
    ultimately have "extent m3 hp \<union> free_bytes m3 cs = extent m hp \<union> free_bytes m bs"
      by (auto simp: free_bytes_def bs)
    then show thesis using s3 mg(1) szm by (intro that[of cs]) (auto simp: bs)
  qed
qed

lemma heap_free_ok:
  assumes ok: "heap_ok m h xs" and b: "block_free m xs hp"
  obtains m' ys where "heap_free_loop hp (H_free h) m = Some m'" "heap_ok m' h ys"
    "free_bytes m' ys = free_bytes m xs \<union> extent m hp"
proof -
  have srt: "sorted_wrt (apart m) xs" and f: "free_at m (H_free h) xs" using ok by (auto simp: heap_ok_def)
  have "hp \<notin> set xs" using b le_apart_less by (fastforce simp: block_free_def)
  then obtain as bs where xs: "xs = as @ bs" and as: "\<And>x. x \<in> set as \<Longrightarrow> x < hp" and bs: "\<And>x. x \<in> set bs \<Longrightarrow> hp < x"
    using split_at_block[OF srt] by blast
  have las: "le_apart m x hp" if "x \<in> set as" for x
    using b as[OF that] that le_apart_less[of m hp x] by (fastforce simp: block_free_def xs)
  have lbs: "le_apart m hp x" if "x \<in> set bs" for x
    using b bs[OF that] that le_apart_less[of m x hp] by (fastforce simp: block_free_def xs)
  let ?q = "endn (H_free h) as"
  define m2 where "m2 = heap_link hp ?q m"
  define m3 where "m3 = (if heap_limit m2 (Blk hp) = hnext m2 (Blk hp)
                then heap_merge hp (the (hnext m2 (Blk hp))) m2 else m2)"
  obtain cs where c: "free_at m3 (H_free h) (as @ hp # cs)" "sorted_wrt (apart m3) (hp # cs)" "set cs \<subseteq> set bs"
    "\<And>z. z \<noteq> hp \<Longrightarrow> h_size m3 (Blk z) = h_size m (Blk z)"
    "extent m3 hp \<union> free_bytes m3 cs = extent m hp \<union> free_bytes m bs"
    using heap_link_merge_ok[OF ok[unfolded xs] as lbs] unfolding m3_def m2_def by metis
  have sas: "sorted_wrt (apart m) as" using srt by (simp add: xs sorted_wrt_append)
  have s3: "sorted_wrt (apart m3) as" using sas as by (subst sorted_apart_cong[of as m3 m]) (auto intro!: c(4))
  have fas: "free_bytes m3 as = free_bytes m as" by (rule free_bytes_cong) (use as in \<open>auto intro!: c(4)\<close>)
  have all: "free_bytes m3 as \<union> (extent m3 hp \<union> free_bytes m3 cs) = free_bytes m xs \<union> extent m hp"
    unfolding fas c(5) by (auto simp: xs free_bytes_append)
  have loop: "heap_free_loop hp (H_free h) m = Some (heap_insert hp ?q m)"
    using f as bs by (intro heap_free_loop_some) (auto simp: xs)
  have hcs: "apart m3 hp z" if "z \<in> set cs" for z using c(2) that by simp
  show thesis
  proof (cases as rule: rev_cases)
    case Nil
    have "heap_insert hp ?q m = m3" using Nil by (simp add: heap_insert_eq Let_def m3_def m2_def)
    then show thesis using loop c Nil all
      by (intro that[of m3 "hp # cs"]) (auto simp: heap_ok_def free_bytes_def)
  next
    case (snoc as' a)
    have ins: "heap_insert hp ?q m = (if a + HDR + h_size m3 (Blk a) = hp then heap_merge a hp m3 else m3)"
      using snoc by (simp add: heap_insert_eq Let_def m3_def m2_def)
    have ah: "a < hp" using as snoc by simp
    have sza: "h_size m3 (Blk x) = h_size m (Blk x)" if "x \<in> set as" for x using as[OF that] by (intro c(4)) simp
    have xa: "apart m x a" if "x \<in> set as'" for x using sas that snoc by (simp add: sorted_wrt_append)
    have xh: "apart m3 x hp" if "x \<in> set as'" for x
      using xa[OF that] ah sza[of x] that snoc by (simp add: apart_def)
    have xc: "apart m3 x z" if "x \<in> set as'" "z \<in> set cs" for x z
      using xh[OF that(1)] hcs[OF that(2)] by (simp add: apart_def)
    show thesis
    proof (cases "a + HDR + h_size m3 (Blk a) = hp")
      case False
      have aa: "apart m3 a hp" using las[of a] False sza[of a] snoc by (simp add: apart_def le_apart_def)
      have "apart m3 a z" if "z \<in> set cs" for z using aa hcs[OF that] by (simp add: apart_def)
      then have "sorted_wrt (apart m3) (as @ hp # cs)"
        using s3 c(2) xh xc aa snoc by (auto simp: sorted_wrt_append)
      then show thesis using loop ins False c(1) all
        by (intro that[of m3 "as @ hp # cs"]) (auto simp: heap_ok_def free_bytes_def)
    next
      case True
      let ?m4 = "heap_merge a hp m3"
      have f3: "free_at m3 (H_free h) (as' @ a # hp # cs)" using c(1) snoc by simp
      have csh: "hp < z" if "z \<in> set cs" for z using hcs[OF that] by (rule apart_less)
      have dcs: "distinct cs" using c(2) sorted_apart_distinct[of m3 "hp # cs"] by simp
      have das: "distinct as" by (rule sorted_apart_distinct[OF sas])
      have dd: "distinct (as' @ a # hp # cs)" using das dcs as csh snoc by force
      note mg = heap_merge_ok[OF f3 dd _ True]
      have sz4: "h_size ?m4 (Blk z) = (if z = a then h_size m3 (Blk a) + (h_size m3 (Blk hp) + HDR) else h_size m3 (Blk z))" for z
        by (simp add: heap_merge_def)
      have ac: "apart ?m4 a z" if "z \<in> set cs" for z
        using hcs[OF that] True by (simp add: apart_def sz4)
      have "sorted_wrt (apart ?m4) as' = sorted_wrt (apart m3) as'" "sorted_wrt (apart ?m4) cs = sorted_wrt (apart m3) cs"
        using dd by (auto intro!: sorted_apart_cong simp: sz4)
      moreover have "apart ?m4 x z = apart m3 x z" if "x \<in> set as'" for x z
        using dd that by (intro apart_cong) (auto simp: sz4)
      moreover have "apart m3 x a" if "x \<in> set as'" for x using xa[OF that] sza[of x] that snoc by (simp add: apart_def)
      ultimately have "sorted_wrt (apart ?m4) (as' @ a # cs)"
        using s3 c(2) ac xc snoc by (auto simp: sorted_wrt_append)
      moreover have "free_bytes ?m4 (as' @ a # cs) = free_bytes m xs \<union> extent m hp"
      proof -
        have "free_bytes ?m4 as' = free_bytes m3 as'" "free_bytes ?m4 cs = free_bytes m3 cs"
          using dd by (auto intro!: free_bytes_cong simp: sz4)
        moreover have "extent ?m4 a = extent m3 a \<union> extent m3 hp" using True by (auto simp: extent_def sz4)
        moreover have "free_bytes ?m4 (as' @ a # cs) = free_bytes ?m4 as' \<union> extent ?m4 a \<union> free_bytes ?m4 cs"
          by (auto simp: free_bytes_def)
        moreover have "free_bytes m3 as = free_bytes m3 as' \<union> extent m3 a" using snoc by (auto simp: free_bytes_def)
        ultimately show ?thesis using all by blast
      qed
      moreover have "heap_insert hp ?q m = ?m4" using ins True by simp
      ultimately show thesis using loop mg(1)
        by (intro that[of ?m4 "as' @ a # cs"]) (auto simp: heap_ok_def)
    qed
  qed
qed

section \<open>The calls\<close>

lemma mem_mtx [simp]:
  "mem (mtx_take m k) = mem k" "mem (mtx_pop m k) = mem k" "mem (mtx_free m k) = mem k"
  by (simp_all add: mtx_take_def mtx_pop_def mtx_free_def Let_def set_mtx_def)

lemma kinv_upd_heap [simp]: "kinv (k\<lparr>mem := m\<rparr>) = kinv k"
  by (simp add: kinv_def)

text \<open>Locking a free mutex, working on the memory, and unlocking it again.\<close>

lemma locked_work:
  assumes k: "kinv k" and o: "m_owner k m = None"
  obtains k2 where "\<And>mm f. bind (chMtxUnlock ((mtx_take m k)\<lparr>mem := mm\<rparr>)) (\<lambda>_. f) = f (k2 mm)"
    "\<And>mm. kinv (k2 mm)" "\<And>mm. mem (k2 mm) = mm" "\<And>mm. currp (k2 mm) = currp k"
    "\<And>mm. m_owner (k2 mm) = m_owner k" "\<And>mm. queues (k2 mm) = queues k" "\<And>mm t. prio (k2 mm) t = prio k t"
proof -
  let ?k1 = "\<lambda>mm. (mtx_take m k)\<lparr>mem := mm\<rparr>"
  have k1: "kinv (?k1 mm)" for mm using mtx_take_kinv[OF k o] by simp
  have c: "currp (?k1 mm) = currp k" for mm using mtx_take_kinv(2)[OF k o] by simp
  have pl: "p_mtxlist (thr (?k1 mm) (currp k)) = Some m" for mm by (simp add: mtx_take_def Let_def)
  have f: "m_owner (?k1 mm) = (m_owner k)(m := Some (currp k))" "queues (?k1 mm) = queues k"
    "prio (?k1 mm) t = prio k t" for mm t
    by (simp_all add: mtx_take_def Let_def set_mtx_def upd_thr_def)
  have e: "queues (?k1 mm) (MtxQ m) = []" for mm
    using mtx_okD(2)[OF kinv_mtx_ok[OF k]] o by (force simp: f)
  have "\<exists>ns. owns (?k1 mm) (currp (?k1 mm)) (m # ns)" for mm
    by (rule mtx_chain_pop[OF k1[of mm]]) (use pl c in auto)
  then obtain ns where ns: "\<And>mm. owns (?k1 mm) (currp (?k1 mm)) (m # ns mm)" by metis
  define k2 where "k2 = (\<lambda>mm. mtx_free m (mtx_pop m (?k1 mm)))"
  have "chMtxUnlock (?k1 mm) = Ret m (k2 mm)" for mm
    using chMtxUnlock_eq(1)[OF k1 ns, of mm] e by (simp add: k2_def)
  moreover have "kinv (k2 mm)" for mm unfolding k2_def by (rule mtx_free_kinv[OF k1 ns e])
  moreover have "m_owner (k2 mm) = m_owner k" for mm using o by (auto simp: k2_def mtx_free_def f)
  moreover have "queues (k2 mm) = queues k" "prio (k2 mm) t = prio k t" "currp (k2 mm) = currp k" for mm t
    using f c by (simp_all add: k2_def mtx_free_def)
  moreover have "mem (k2 mm) = mm" for mm by (simp add: k2_def)
  ultimately show thesis by (intro that[of k2]) auto
qed

lemma heap_take_mtx: "h_mtx (heap_take h n q a m) = h_mtx m"
  by (simp add: heap_take_def set_next_def set_size_def set_heap_def Let_def)

lemma chHeapAlloc_some:
  assumes k: "kinv k" and o: "m_owner k (h_mtx (mem k) h) = None"
    and ok: "heap_ok (mem k) h xs" and s: "n \<le> 2 ^ 32 - 16"
    and fit: "\<exists>a \<in> set xs. MEM_ALIGN_NEXT n \<le> h_size (mem k) (Blk a)"
  obtains p k' ys where "chHeapAlloc uget (Some h) n k = Ret (Some p) k'" "kinv k'"
    "heap_ok (mem k') h ys" "{p..<p + n} \<subseteq> extent (mem k') (p - HDR)"
    "extent (mem k') (p - HDR) \<subseteq> free_bytes (mem k) xs"
    "free_bytes (mem k') ys = free_bytes (mem k) xs - extent (mem k') (p - HDR)"
    "h_u (mem k') (Blk (p - HDR)) = H_heap h" "HDR \<le> p" "m_owner k' = m_owner k" "h_mtx (mem k') = h_mtx (mem k)"
proof -
  let ?m = "h_mtx (mem k) h" and ?n = "MEM_ALIGN_NEXT n"
  have nb: "n \<le> ?n" "?n < n + 8" using align_next_bounds[of n] s by auto
  obtain as a bs where xs: "xs = as @ a # bs" "?n \<le> h_size (mem k) (Blk a)"
    "\<And>x. x \<in> set as \<Longrightarrow> h_size (mem k) (Blk x) < ?n"
    using fit split_list_first_prop[of xs "\<lambda>a. ?n \<le> h_size (mem k) (Blk a)"] by (auto simp: not_le)
  have loop: "heap_alloc_loop h ?n (H_free h) (mem k)
      = Some (Some (a + HDR), heap_take h ?n (endn (H_free h) as) a (mem k))"
    using ok xs by (intro heap_alloc_loop_some) (auto simp: heap_ok_def)
  have "?n + HDR < 2 ^ 32" using nb s by (simp add: HDR_def)
  then obtain ys where ys: "heap_ok (heap_take h ?n (endn (H_free h) as) a (mem k)) h ys"
    "free_bytes (heap_take h ?n (endn (H_free h) as) a (mem k)) ys
       = free_bytes (mem k) xs - extent (heap_take h ?n (endn (H_free h) as) a (mem k)) a"
    "extent (heap_take h ?n (endn (H_free h) as) a (mem k)) a \<subseteq> free_bytes (mem k) xs"
    "h_u (heap_take h ?n (endn (H_free h) as) a (mem k)) (Blk a) = H_heap h"
    "?n \<le> h_size (heap_take h ?n (endn (H_free h) as) a (mem k)) (Blk a)"
    using heap_take_ok[OF ok[unfolded xs(1)] xs(2)] unfolding xs(1) by metis
  obtain k2 where k2: "\<And>mm f. bind (chMtxUnlock ((mtx_take ?m k)\<lparr>mem := mm\<rparr>)) (\<lambda>_. f) = (f (k2 mm) :: nat option step)"
    "\<And>mm. kinv (k2 mm)" "\<And>mm. mem (k2 mm) = mm" "\<And>mm. m_owner (k2 mm) = m_owner k"
    using locked_work[OF k o, where 'a = "nat option"] by metis
  let ?k' = "k2 (heap_take h ?n (endn (H_free h) as) a (mem k))"
  have "chHeapAlloc uget (Some h) n k = Ret (Some (a + HDR)) ?k'"
    using loop o by (simp add: chHeapAlloc_def Let_def chMtxLock_def chMtxLockS_free k2(1))
  moreover have "{a + HDR..<a + HDR + n} \<subseteq> extent (mem ?k') a" using ys(5) nb by (auto simp: extent_def k2(3))
  moreover have "h_mtx (mem ?k') = h_mtx (mem k)" by (simp add: k2(3) heap_take_mtx)
  ultimately show thesis using ys k2 by (intro that[of "a + HDR" ?k' ys]) simp_all
qed

lemma chHeapFree_ok:
  assumes k: "kinv k" and o: "m_owner k (h_mtx (mem k) h) = None"
    and ok: "heap_ok (mem k) h xs" and b: "block_free (mem k) xs (p - HDR)"
    and hp: "h_u (mem k) (Blk (p - HDR)) = H_heap h"
  obtains k' ys where "chHeapFree p k = Ret () k'" "kinv k'" "heap_ok (mem k') h ys"
    "free_bytes (mem k') ys = free_bytes (mem k) xs \<union> extent (mem k) (p - HDR)"
    "m_owner k' = m_owner k"
proof -
  let ?m = "h_mtx (mem k) h"
  obtain m' ys where m': "heap_free_loop (p - HDR) (H_free h) (mem k) = Some m'" "heap_ok m' h ys"
    "free_bytes m' ys = free_bytes (mem k) xs \<union> extent (mem k) (p - HDR)"
    by (rule heap_free_ok[OF ok b])
  obtain k2 where k2: "\<And>mm f. bind (chMtxUnlock ((mtx_take ?m k)\<lparr>mem := mm\<rparr>)) (\<lambda>_. f) = (f (k2 mm) :: unit step)"
    "\<And>mm. kinv (k2 mm)" "\<And>mm. mem (k2 mm) = mm" "\<And>mm. m_owner (k2 mm) = m_owner k"
    using locked_work[OF k o, where 'a = unit] by metis
  have "chHeapFree p k = Ret () (k2 m')"
    using m'(1) o hp by (simp add: chHeapFree_def Let_def chMtxLock_def chMtxLockS_free k2(1))
  then show thesis using m' k2 by (intro that[of "k2 m'" ys]) simp_all
qed

section \<open>Pools\<close>

text \<open>The free objects of a pool, a stack linked through the objects themselves.\<close>

fun pool_at :: "memory \<Rightarrow> nat option \<Rightarrow> nat list \<Rightarrow> bool" where
  "pool_at m p [] \<longleftrightarrow> p = None"
| "pool_at m p (x # xs) \<longleftrightarrow> p = Some x \<and> pool_at m (ph_next m x) xs"

definition pool_ok :: "nat \<Rightarrow> nat list \<Rightarrow> kernel \<Rightarrow> bool" where
  "pool_ok mp xs k \<longleftrightarrow> pool_at (mem k) (mp_next (mem k) mp) xs \<and> distinct xs"

lemma pool_at_cong: "(\<And>x. x \<in> set xs \<Longrightarrow> ph_next m' x = ph_next m x) \<Longrightarrow> pool_at m' p xs = pool_at m p xs"
  by (induction xs arbitrary: p) auto

lemma chPoolAllocI_ok:
  assumes "pool_ok mp (x # xs) k"
  shows "fst (chPoolAllocI uget mp k) = Some x" "pool_ok mp xs (snd (chPoolAllocI uget mp k))"
proof -
  have p: "mp_next (mem k) mp = Some x" "pool_at (mem k) (ph_next (mem k) x) xs" "distinct xs"
    using assms by (auto simp: pool_ok_def)
  show "fst (chPoolAllocI uget mp k) = Some x" using p by (simp add: chPoolAllocI_def)
  have "pool_at ((mem k)\<lparr>mp_next := q\<rparr>) r xs = pool_at (mem k) r xs" for q r by (rule pool_at_cong) simp
  then show "pool_ok mp xs (snd (chPoolAllocI uget mp k))" using p by (simp add: chPoolAllocI_def pool_ok_def)
qed

lemma chPoolFreeI_ok:
  assumes "pool_ok mp xs k" "x \<notin> set xs"
  shows "pool_ok mp (x # xs) (chPoolFreeI mp x k)"
proof -
  have "pool_at (m\<lparr>ph_next := (ph_next m)(x := r), mp_next := q\<rparr>) p xs = pool_at m p xs" for m p q r
    by (rule pool_at_cong) (use assms(2) in auto)
  then show ?thesis using assms by (simp add: chPoolFreeI_def pool_ok_def Let_def)
qed

lemma pool_kinv:
  "kinv k \<Longrightarrow> (\<And>f n k. kinv k \<Longrightarrow> kinv (snd (uget f n k))) \<Longrightarrow> kinv (snd (chPoolAllocI uget mp k))"
  "kinv k \<Longrightarrow> kinv (chPoolFreeI mp x k)"
proof -
  assume k: "kinv k" and u: "\<And>f n k. kinv k \<Longrightarrow> kinv (snd (uget f n k))"
  have "kinv (snd (getmem uget f n k))" for f n
    using k u by (cases f) (simp_all add: chCoreAlloc_def chCoreAllocI_def Let_def)
  then show "kinv (snd (chPoolAllocI uget mp k))" using k by (simp add: chPoolAllocI_def split: option.split)
qed (simp add: chPoolFreeI_def)

end
