(* ===== verification/Dynamic.thy ===== *)
theory Dynamic
  imports Memory
begin

text \<open>
  Dynamic threads (\<^verbatim>\<open>os/kernel/src/chdynamic.c\<close>): references, and threads whose
  working area comes from a heap or a pool; with the release of the reference, the full
  \<^verbatim>\<open>chThdWait\<close> (\<^verbatim>\<open>chthreads.c\<close>) and \<^verbatim>\<open>chRegNextThread\<close> (\<^verbatim>\<open>chregistry.c\<close>). A thread is
  the address of its working area.
\<close>

section \<open>Operations\<close>

fun thd_addr :: "tid \<Rightarrow> nat" where
  "thd_addr (Thd a) = a"
| "thd_addr (QHdr q) = undefined q"

definition chThdAddRef :: "tid \<Rightarrow> kernel \<Rightarrow> tid \<times> kernel" where
  "chThdAddRef tp k = (tp, upd_thr tp (\<lambda>r. r\<lparr>p_refs := p_refs r + 1\<rparr>) k)"

definition chThdRelease :: "tid \<Rightarrow> kernel \<Rightarrow> unit step" where
  "chThdRelease tp k =
     (let k1 = upd_thr tp (\<lambda>r. r\<lparr>p_refs := p_refs r - 1\<rparr>) k;
          refs = p_refs (thr k1 tp)
      in if refs = 0 \<and> state k1 tp = THD_STATE_FINAL then
           (let mode = Bit_Operations.and (p_flags (thr k1 tp)) THD_MEM_MODE_MASK
            in if mode = THD_MEM_MODE_HEAP then chHeapFree (thd_addr tp) (REG_REMOVE tp k1)
               else if mode = THD_MEM_MODE_MEMPOOL
               then Ret () (chPoolFree (the (p_mpool (thr k1 tp))) (thd_addr tp) (REG_REMOVE tp k1))
               else Ret () k1)
         else Ret () k1)"

definition chThdWait :: "tid \<Rightarrow> kernel \<Rightarrow> int step" where
  "chThdWait tp k =
     bind (thd_wait_exit tp k) (\<lambda>msg k1. bind (chThdRelease tp k1) (\<lambda>_. Ret msg))"

definition chRegNextThread :: "tid \<Rightarrow> kernel \<Rightarrow> tid option step" where
  "chRegNextThread tp k =
     (case reg_next tp k of (ntp, k1) \<Rightarrow> bind (chThdRelease tp k1) (\<lambda>_. Ret ntp))"

definition chThdCreateFromHeap :: "provider \<Rightarrow> nat option \<Rightarrow> nat \<Rightarrow> nat \<Rightarrow> kernel \<Rightarrow> tid option step" where
  "chThdCreateFromHeap uget hopt bytes pr k =
     bind (chHeapAlloc uget hopt bytes k)
       (\<lambda>wsp k1. case wsp of
          None \<Rightarrow> Ret None k1
        | Some a \<Rightarrow>
            (let tp = Thd a;
                 k2 = chThdCreateI tp pr k1;
                 k3 = upd_thr tp (\<lambda>r. r\<lparr>p_flags := THD_MEM_MODE_HEAP\<rparr>) k2
             in bind (chSchWakeupS tp RDY_OK k3) (\<lambda>_. Ret (Some tp))))"

definition chThdCreateFromMemoryPool :: "provider \<Rightarrow> nat \<Rightarrow> nat \<Rightarrow> kernel \<Rightarrow> tid option step" where
  "chThdCreateFromMemoryPool uget mp pr k =
     (case chPoolAlloc uget mp k of
        (None, k1) \<Rightarrow> Ret None k1
      | (Some a, k1) \<Rightarrow>
          (let tp = Thd a;
               k2 = chThdCreateI tp pr k1;
               k3 = upd_thr tp (\<lambda>r. r\<lparr>p_flags := THD_MEM_MODE_MEMPOOL, p_mpool := Some mp\<rparr>) k2
           in bind (chSchWakeupS tp RDY_OK k3) (\<lambda>_. Ret (Some tp))))"

section \<open>References\<close>

lemma chThdAddRef_kinv: "kinv k \<Longrightarrow> kinv (snd (chThdAddRef tp k))"
  by (simp add: chThdAddRef_def)

lemma REG_REMOVE_kinv [simp]: "kinv (REG_REMOVE tp k) = kinv k" "mem (REG_REMOVE tp k) = mem k"
  "m_owner (REG_REMOVE tp k) = m_owner k" "registry (REG_REMOVE tp k) = remove1 tp (registry k)"
  by (simp_all add: REG_REMOVE_def)

lemma chPoolFree_kinv: "kinv k \<Longrightarrow> kinv (chPoolFree mp x k)"
  unfolding chPoolFree_def by (rule pool_kinv(2))

text \<open>A release that leaves references, or a thread that still lives, or a static one, frees nothing.\<close>

lemma chThdRelease_keep:
  assumes "p_refs (thr k tp) \<noteq> 1 \<or> state k tp \<noteq> THD_STATE_FINAL"
  shows "chThdRelease tp k = Ret () (upd_thr tp (\<lambda>r. r\<lparr>p_refs := p_refs r - 1\<rparr>) k)"
proof -
  have "p_refs (thr k tp) - 1 = 0 \<longleftrightarrow> p_refs (thr k tp) = 1" by (metis diff_eq_eq add_0)
  then show ?thesis using assms by (auto simp: chThdRelease_def Let_def)
qed

lemma chThdRelease_pool:
  assumes "p_refs (thr k tp) = 1" "state k tp = THD_STATE_FINAL" "p_flags (thr k tp) = THD_MEM_MODE_MEMPOOL"
    "p_mpool (thr k tp) = Some mp"
  shows "chThdRelease tp k = Ret () (chPoolFree mp (thd_addr tp)
      (REG_REMOVE tp (upd_thr tp (\<lambda>r. r\<lparr>p_refs := p_refs r - 1\<rparr>) k)))"
  using assms by (simp add: chThdRelease_def Let_def THD_MEM_MODE_MEMPOOL_def THD_MEM_MODE_MASK_def THD_MEM_MODE_HEAP_def)

lemma chThdRelease_heap:
  assumes "p_refs (thr k tp) = 1" "state k tp = THD_STATE_FINAL" "p_flags (thr k tp) = THD_MEM_MODE_HEAP"
  shows "chThdRelease tp k = chHeapFree (thd_addr tp)
      (REG_REMOVE tp (upd_thr tp (\<lambda>r. r\<lparr>p_refs := p_refs r - 1\<rparr>) k))"
  using assms by (simp add: chThdRelease_def Let_def THD_MEM_MODE_MASK_def THD_MEM_MODE_HEAP_def)

text \<open>Threads on memory from a pool.\<close>

lemma chThdCreateFromMemoryPool_safe:
  assumes k: "kinv k" and p: "pool_ok mp (a # xs) k" and u: "unused k (Thd a)"
  shows "safe (chThdCreateFromMemoryPool uget mp pr k)"
proof -
  obtain k1 where al: "chPoolAlloc uget mp k = (Some a, k1)"
    using chPoolAllocI_ok(1)[OF p, of uget] unfolding chPoolAlloc_def by (metis prod.collapse)
  have k1f: "k1 = upd_mem (\<lambda>m. m\<lparr>mp_next := (mp_next m)(mp := ph_next m a)\<rparr>) k"
    using al p by (auto simp: chPoolAlloc_def chPoolAllocI_def pool_ok_def)
  have k1: "kinv k1" "unused k1 (Thd a)" using k u by (simp_all add: k1f unused_def) (simp_all add: upd_mem_def)
  let ?k3 = "upd_thr (Thd a) (\<lambda>r. r\<lparr>p_flags := THD_MEM_MODE_MEMPOOL, p_mpool := Some mp\<rparr>) (chThdCreateI (Thd a) pr k1)"
  note c = chThdCreateI_ok[OF k1, of pr]
  have "core {Thd a} {currp ?k3} ?k3" using core_upd_other[OF c(1)] c(5) by simp
  moreover have "hdr_ok ?k3" "links_ok ?k3" "sem_ok ?k3" using c by (simp_all add: links_ok_upd)
  moreover have "Thd a \<notin> waiters ?k3" "Thd a \<noteq> currp ?k3" using c k1(2) by (simp_all add: unused_def)
  ultimately have "safe (chSchWakeupS (Thd a) RDY_OK ?k3)" by (intro safe_weaken chSchWakeupS_kinv) auto
  then show ?thesis by (auto simp: chThdCreateFromMemoryPool_def al Let_def intro!: always_bind)
qed

end
