(* ===== verification/System.thy ===== *)
theory System
  imports Dynamic
begin

text \<open>
  The kernel as a system: threads making calls, resuming suspended calls, interrupts
  making lock-context calls, and pre-emption. A state is a kernel state and, for every
  thread that was switched out inside a call, the rest of that call.

  The tick's timeouts are over-approximated: any timed wait may time out at any time.
\<close>

section \<open>Calls\<close>

datatype call =
    C_Create tid nat | C_Resume tid | C_SetPriority nat | C_Terminate tid
  | C_Sleep u32 | C_SleepUntil u32 | C_Yield | C_Exit int | C_WaitExit tid
  | C_SemWait nat | C_SemWaitTimeout nat u32 | C_SemSignal nat | C_SemReset nat int
  | C_SemSignalWait nat nat | C_BSemSignal nat
  | C_MtxLock nat | C_MtxTryLock nat | C_MtxUnlock | C_MtxUnlockAll
  | C_CondWait nat | C_CondWaitTimeout nat u32 | C_CondSignal nat | C_CondBroadcast nat
  | C_EvtSignal tid u32 | C_EvtBroadcast nat u32 | C_EvtWaitOne u32 | C_EvtWaitAny u32 | C_EvtWaitAll u32
  | C_EvtWaitOneTimeout u32 u32 | C_EvtWaitAnyTimeout u32 u32 | C_EvtWaitAllTimeout u32 u32
  | C_MsgSend tid int | C_MsgRelease tid int
  | C_MBPost nat int u32 | C_MBPostAhead nat int u32 | C_MBFetch nat u32 | C_MBReset nat

abbreviation finish :: "'a step \<Rightarrow> unit step" where
  "finish s \<equiv> bind s (\<lambda>_. Ret ())"

fun perform :: "call \<Rightarrow> kernel \<Rightarrow> unit step" where
  "perform (C_Create tp pr) k = finish (chThdCreateStatic tp pr k)"
| "perform (C_Resume tp) k = finish (chThdResume tp k)"
| "perform (C_SetPriority n) k = finish (chThdSetPriority n k)"
| "perform (C_Terminate tp) k = Ret () (chThdTerminate tp k)"
| "perform (C_Sleep n) k = chThdSleep n k"
| "perform (C_SleepUntil n) k = chThdSleepUntil n k"
| "perform C_Yield k = chThdYield k"
| "perform (C_Exit m) k = chThdExit m k"
| "perform (C_WaitExit tp) k = finish (thd_wait_exit tp k)"
| "perform (C_SemWait s) k = finish (chSemWait s k)"
| "perform (C_SemWaitTimeout s n) k = finish (chSemWaitTimeout s n k)"
| "perform (C_SemSignal s) k = chSemSignal s k"
| "perform (C_SemReset s n) k = chSemReset s n k"
| "perform (C_SemSignalWait s t) k = finish (chSemSignalWait s t k)"
| "perform (C_BSemSignal s) k = chBSemSignal s k"
| "perform (C_MtxLock m) k = chMtxLock m k"
| "perform (C_MtxTryLock m) k = Ret () (snd (chMtxTryLock m k))"
| "perform C_MtxUnlock k = finish (chMtxUnlock k)"
| "perform C_MtxUnlockAll k = chMtxUnlockAll k"
| "perform (C_CondWait c) k = finish (chCondWait c k)"
| "perform (C_CondWaitTimeout c n) k = finish (chCondWaitTimeout c n k)"
| "perform (C_CondSignal c) k = chCondSignal c k"
| "perform (C_CondBroadcast c) k = chCondBroadcast c k"
| "perform (C_EvtSignal t m) k = chEvtSignalFlags t m k"
| "perform (C_EvtBroadcast e m) k = chEvtBroadcastFlags e m k"
| "perform (C_EvtWaitOne m) k = finish (chEvtWaitOne m k)"
| "perform (C_EvtWaitAny m) k = finish (chEvtWaitAny m k)"
| "perform (C_EvtWaitAll m) k = finish (chEvtWaitAll m k)"
| "perform (C_EvtWaitOneTimeout m n) k = finish (chEvtWaitOneTimeout m n k)"
| "perform (C_EvtWaitAnyTimeout m n) k = finish (chEvtWaitAnyTimeout m n k)"
| "perform (C_EvtWaitAllTimeout m n) k = finish (chEvtWaitAllTimeout m n k)"
| "perform (C_MsgSend t m) k = finish (chMsgSend t m k)"
| "perform (C_MsgRelease t m) k = chMsgRelease t m k"
| "perform (C_MBPost b m n) k = finish (chMBPost b m n k)"
| "perform (C_MBPostAhead b m n) k = finish (chMBPostAhead b m n k)"
| "perform (C_MBFetch b n) k = finish (chMBFetch b n k)"
| "perform (C_MBReset b) k = chMBReset b k"

text \<open>
  What the documentation asks of the caller (the checks \<^verbatim>\<open>chDbgCheck\<close> and \<^verbatim>\<open>chDbgAssert\<close>
  of the debug build): a new thread's memory is not in use, a resumed thread is
  suspended, a released sender waits for its answer, counters are not negative, a
  thread that unlocks owns a mutex.
\<close>

fun allowed :: "call \<Rightarrow> kernel \<Rightarrow> bool" where
  "allowed (C_Create tp pr) k \<longleftrightarrow> unused k tp"
| "allowed (C_Resume tp) k \<longleftrightarrow> is_Thd tp \<and> state k tp = THD_STATE_SUSPENDED"
| "allowed (C_SemReset s n) k \<longleftrightarrow> 0 \<le> n"
| "allowed C_MtxUnlock k \<longleftrightarrow> p_mtxlist (thr k (currp k)) \<noteq> None"
| "allowed (C_CondWait c) k \<longleftrightarrow> p_mtxlist (thr k (currp k)) \<noteq> None"
| "allowed (C_CondWaitTimeout c n) k \<longleftrightarrow> p_mtxlist (thr k (currp k)) \<noteq> None"
| "allowed (C_MsgSend t m) k \<longleftrightarrow> is_Thd t"
| "allowed (C_MsgRelease t m) k \<longleftrightarrow> is_Thd t \<and> state k t = THD_STATE_SNDMSG"
| "allowed c k \<longleftrightarrow> True"

text \<open>Lock-context calls of interrupt handlers, and the timeouts of the tick.\<close>

datatype isr =
    I_Timeout tid | I_SemSignal nat | I_SemReset nat int | I_SemAddCounter nat int | I_BSemSignal nat
  | I_CondSignal nat | I_CondBroadcast nat | I_EvtSignal tid u32 | I_EvtBroadcast nat u32
  | I_MBPost nat int | I_MBPostAhead nat int | I_MBFetch nat
  | I_IQPut nat u8 | I_OQGet nat | I_IQReset nat | I_OQReset nat
  | I_SetTimer nat u32 nat nat | I_ResetTimer nat

fun serve :: "isr \<Rightarrow> kernel \<Rightarrow> kernel" where
  "serve (I_Timeout t) k = wakeup_thread t k"
| "serve (I_SemSignal s) k = chSemSignalI s k"
| "serve (I_SemReset s n) k = chSemResetI s n k"
| "serve (I_SemAddCounter s n) k = chSemAddCounterI s n k"
| "serve (I_BSemSignal s) k = chBSemSignalI s k"
| "serve (I_CondSignal c) k = chCondSignalI c k"
| "serve (I_CondBroadcast c) k = chCondBroadcastI c k"
| "serve (I_EvtSignal t m) k = chEvtSignalFlagsI t m k"
| "serve (I_EvtBroadcast e m) k = chEvtBroadcastFlagsI e m k"
| "serve (I_MBPost b m) k = snd (chMBPostI b m k)"
| "serve (I_MBPostAhead b m) k = snd (chMBPostAheadI b m k)"
| "serve (I_MBFetch b) k = snd (chMBFetchI b k)"
| "serve (I_IQPut q b) k = snd (chIQPutI q b k)"
| "serve (I_OQGet q) k = snd (chOQGetI q k)"
| "serve (I_IQReset q) k = chIQResetI q k"
| "serve (I_OQReset q) k = chOQResetI q k"
| "serve (I_SetTimer v n f p) k = chVTSetI (VT v) n (VF_user f) (VP_val p) k"
| "serve (I_ResetTimer v) k = chVTResetI (VT v) k"

fun servable :: "isr \<Rightarrow> kernel \<Rightarrow> bool" where
  "servable (I_Timeout t) k \<longleftrightarrow> timed k t \<and> t \<noteq> currp k"
| "servable (I_SemReset s n) k \<longleftrightarrow> 0 \<le> n"
| "servable i k \<longleftrightarrow> True"

section \<open>Steps\<close>

type_synonym sys = "kernel \<times> (tid \<Rightarrow> (kernel \<Rightarrow> unit step) option)"

fun settle :: "tid \<Rightarrow> unit step \<Rightarrow> (tid \<Rightarrow> (kernel \<Rightarrow> unit step) option) \<Rightarrow> sys option" where
  "settle t (Ret u k) cs = Some (k, cs(t := None))"
| "settle t (Switch k c) cs = Some (k, cs(t := Some c))"
| "settle t Hang cs = None"

inductive sys_step :: "sys \<Rightarrow> sys \<Rightarrow> bool" where
  call: "\<lbrakk>cs (currp k) = None; currp k \<noteq> idle_thread; allowed c k;
          settle (currp k) (perform c k) cs = Some s\<rbrakk> \<Longrightarrow> sys_step (k, cs) s"
| resume: "\<lbrakk>cs (currp k) = Some c; settle (currp k) (c k) cs = Some s\<rbrakk> \<Longrightarrow> sys_step (k, cs) s"
| interrupt: "\<lbrakk>cs (currp k) = None; servable i k\<rbrakk> \<Longrightarrow> sys_step (k, cs) (serve i k, cs)"
| preempt: "\<lbrakk>cs (currp k) = None; NOPRIO < prio k (currp k);
          settle (currp k) (chSchPreemption k) cs = Some s\<rbrakk> \<Longrightarrow> sys_step (k, cs) s"

inductive_simps sys_step_simps: "sys_step (k, cs) s"
inductive_cases sys_stepE: "sys_step (k, cs) s"

inductive reachable :: "sys \<Rightarrow> bool" where
  start: "\<lbrakk>boot k; chSysInit k = Ret () k'\<rbrakk> \<Longrightarrow> reachable (k', \<lambda>_. None)"
| step: "\<lbrakk>reachable s; sys_step s s'\<rbrakk> \<Longrightarrow> reachable s'"

section \<open>Every call is safe\<close>

lemma finish_safe: "safe s \<Longrightarrow> safe (finish s)"
  by (intro always_bind) auto

lemmas call_safe =
  chThdCreateStatic_safe chThdResume_safe chThdSetPriority_safe chThdSleep_safe chThdSleepUntil_safe
  chThdYield_safe chThdExit_safe thd_wait_exit_safe chSemWaitS_safe chSemWaitTimeoutS_safe chSemSignal_safe
  chSemReset_safe chSemSignalWait_safe chBSemSignal_safe chMtxLockS_safe chMtxUnlock_safe chMtxUnlockAll_safe
  chCondWaitS_safe chCondWaitTimeoutS_safe chCondSignal_safe chCondBroadcast_safe evt_safe evt_wait_safe
  evt_wait_timeout_safe chMsgSend_safe chMsgRelease_safe mb_safe chMBReset_safe

lemmas call_wrappers =
  chSemWait_def chSemWaitTimeout_def chMtxLock_def chCondWait_def chCondWaitTimeout_def
  chMBPost_def chMBPostAhead_def chMBFetch_def

lemma perform_safe:
  assumes "resumed k" "allowed c k"
  shows "safe (perform c k)"
  using assms resumedD[OF assms(1)]
  by (cases c) (simp_all add: call_wrappers finish_safe call_safe chThdTerminate_kinv chMtxTryLock_def chMtxTryLockS_kinv)

lemmas isr_kinv = wakeup_thread_kinv chSemSignalI_kinv chSemResetI_kinv chSemAddCounterI_kinv
  chBSemSignalI_kinv chCondSignalI_kinv chCondBroadcastI_spec chEvtSignalFlagsI_kinv chEvtBroadcastFlagsI_def
  evt_broadcast_kinv chMBPostI_kinv chMBPostAheadI_kinv chMBFetchI_kinv chIQPutI_kinv chOQGetI_kinv
  chIQResetI_kinv chOQResetI_kinv

lemma serve_kinv: "kinv k \<Longrightarrow> servable i k \<Longrightarrow> kinv (serve i k)"
  by (induction i) (simp_all add: isr_kinv)

lemma chSchPreemption_cases:
  assumes k: "kinv k" and p: "NOPRIO < prio k (currp k)"
  shows "chSchPreemption k = Ret () k \<or> (chSchPreemption k = Switch (do_reschedule k) (Ret ()) \<and> kinv (do_reschedule k))"
proof (cases "chSchPreemption k = Ret () k")
  case False
  then have le: "prio k (currp k) \<le> firstprio RListQ k"
    by (cases "r_preempt k = 0"; cases "prio k (currp k) \<le> firstprio RListQ k") (simp_all add: chSchPreemption_def Let_def)
  with False have c: "chSchPreemption k = Switch (do_reschedule k) (Ret ())"
    unfolding chSchPreemption_def chSchDoReschedule_def Let_def by presburger
  from le have "ready k \<noteq> []" using p kinv_hdr[OF k] by (auto simp: firstprio_def hdr_ok_def)
  then have "kinv (do_reschedule k)" by (rule do_reschedule_kinv(1)[OF k])
  then show ?thesis unfolding c by (intro disjI2 conjI refl)
qed simp

text \<open>
  The invariant of the system: every suspended call goes on safely. The idle thread is
  switched out by pre-emption only, so nothing is left to do when it is back.
\<close>

definition cont_ok :: "tid \<Rightarrow> (kernel \<Rightarrow> unit step) \<Rightarrow> bool" where
  "cont_ok t c \<longleftrightarrow> (if t = idle_thread then c = Ret () else \<forall>k. kinv k \<and> currp k = t \<longrightarrow> safe (c k))"

definition sys_inv :: "sys \<Rightarrow> bool" where
  "sys_inv s \<longleftrightarrow> kinv (fst s) \<and> (\<forall>t c. snd s t = Some c \<longrightarrow> cont_ok t c)"

lemma sys_invI:
  assumes "kinv k" "\<And>t c. cs t = Some c \<Longrightarrow> cont_ok t c"
  shows "sys_inv (k, cs)"
  using assms by (simp add: sys_inv_def)

lemma sys_invD:
  assumes "sys_inv (k, cs)"
  shows "kinv k" and "\<And>t c. cs t = Some c \<Longrightarrow> cont_ok t c"
  using assms by (auto simp: sys_inv_def)

lemma cont_ok_Ret: "cont_ok t (Ret ())"
  by (simp add: cont_ok_def)

lemma cont_ok_resumed:
  assumes "t \<noteq> idle_thread" "\<forall>k. resumed k \<longrightarrow> safe (c k)"
  shows "cont_ok t c"
  using assms by (simp add: cont_ok_def resumed_def)

lemma settle_inv:
  assumes st: "safe st" and t: "t \<noteq> idle_thread" and cs: "\<And>u c. cs u = Some c \<Longrightarrow> cont_ok u c"
  shows "\<exists>s. settle t st cs = Some s \<and> sys_inv s"
proof (cases st)
  case (Ret u k)
  then have "sys_inv (k, cs(t := None))" using st cs
    by (intro sys_invI) (auto split: if_splits)
  then show ?thesis using Ret by simp
next
  case (Switch k c)
  then have "cont_ok t c" "kinv k" using st t by (auto intro: cont_ok_resumed)
  then have "sys_inv (k, cs(t := Some c))" using cs by (intro sys_invI) (auto split: if_splits)
  then show ?thesis using Switch by simp
next
  case Hang
  then show ?thesis using st by simp
qed

lemma resume_inv:
  assumes inv: "sys_inv (k, cs)" and c: "cs (currp k) = Some c"
  shows "\<exists>s. settle (currp k) (c k) cs = Some s \<and> sys_inv s"
proof (cases "currp k = idle_thread")
  case True
  then have "c k = Ret () k" using sys_invD(2)[OF inv c] by (simp add: cont_ok_def)
  moreover have "sys_inv (k, cs(currp k := None))" using sys_invD[OF inv]
    by (intro sys_invI) (auto split: if_splits)
  ultimately show ?thesis by simp
next
  case False
  then have "safe (c k)" using sys_invD[OF inv] c by (auto simp: cont_ok_def)
  then show ?thesis by (rule settle_inv[OF _ False sys_invD(2)[OF inv]])
qed

lemma call_inv:
  assumes inv: "sys_inv (k, cs)" and t: "currp k \<noteq> idle_thread" and c: "allowed c k"
  shows "\<exists>s. settle (currp k) (perform c k) cs = Some s \<and> sys_inv s"
proof (rule settle_inv[OF _ t sys_invD(2)[OF inv]])
  have "resumed k" using sys_invD(1)[OF inv] t by (simp add: resumed_def)
  then show "safe (perform c k)" using c by (rule perform_safe)
qed

lemma preempt_inv:
  assumes inv: "sys_inv (k, cs)" and p: "NOPRIO < prio k (currp k)"
  shows "\<exists>s. settle (currp k) (chSchPreemption k) cs = Some s \<and> sys_inv s"
  using chSchPreemption_cases[OF sys_invD(1)[OF inv] p]
proof (elim disjE conjE)
  assume c: "chSchPreemption k = Ret () k"
  have "sys_inv (k, cs(currp k := None))"
    by (intro sys_invI) (use sys_invD[OF inv] in \<open>auto split: if_split_asm\<close>)
  then show ?thesis by (simp add: c)
next
  assume c: "chSchPreemption k = Switch (do_reschedule k) (Ret ())" "kinv (do_reschedule k)"
  have "sys_inv (do_reschedule k, cs(currp k := Some (Ret ())))"
    by (intro sys_invI) (use sys_invD[OF inv] c(2) cont_ok_Ret in \<open>auto split: if_split_asm\<close>)
  then show ?thesis by (simp add: c)
qed

lemma sys_inv_step:
  assumes "sys_step s s'" "sys_inv s"
  shows "sys_inv s'"
  using assms
proof (induction rule: sys_step.induct)
  case (call cs k c s)
  then show ?case using call_inv by fastforce
next
  case (resume cs k c s)
  then show ?case using resume_inv by fastforce
next
  case (interrupt cs k i)
  then show ?case using serve_kinv sys_invD by (intro sys_invI) blast+
next
  case (preempt cs k s)
  then show ?case using preempt_inv by fastforce
qed

lemma reachable_inv: "reachable s \<Longrightarrow> sys_inv s"
proof (induction rule: reachable.induct)
  case (start k k')
  then have "kinv k'" using chSysInit_ok by fastforce
  then show ?case by (intro sys_invI) auto
next
  case (step s s')
  then show ?case using sys_inv_step by blast
qed

text \<open>No call hangs: a thread that is running inside a call can always go on.\<close>

lemma resume_progress:
  assumes "reachable (k, cs)" "cs (currp k) = Some c"
  shows "\<exists>s. sys_step (k, cs) s"
  using resume_inv[OF reachable_inv[OF assms(1)] assms(2)] sys_step.resume assms(2) by blast

lemma call_progress:
  assumes "reachable (k, cs)" "currp k \<noteq> idle_thread" "cs (currp k) = None" "allowed c k"
  shows "\<exists>s. settle (currp k) (perform c k) cs = Some s \<and> sys_step (k, cs) s"
  using call_inv[OF reachable_inv[OF assms(1)] assms(2,4)] sys_step.call assms by blast

end
