(* ===== verification/Scenario.thy ===== *)
theory Scenario
  imports System
begin

text \<open>
  A concrete kernel: memory as it is at reset (\<open>cold\<close>) and the kernel \<^verbatim>\<open>chSysInit\<close>
  leaves (\<open>started\<close>). The theorems about the kernel are tried on them.
\<close>

definition blank_thread :: thread where
  "blank_thread = \<lparr>p_prio = 0, p_state = THD_STATE_SUSPENDED, p_flags = 0, p_refs = 0, p_u = U_msg 0,
     p_waiting = [], p_msg = 0, p_epending = 0, p_mtxlist = None, p_realprio = 0, p_time = 0,
     p_name = None, p_mpool = None\<rparr>"

definition blank_memory :: memory where
  "blank_memory = \<lparr>nextmem = 0, endmem = 0, h_u = (\<lambda>_. H_next None), h_size = (\<lambda>_. 0),
     h_provider = (\<lambda>_. None), h_mtx = (\<lambda>h. h), mp_next = (\<lambda>_. None), ph_next = (\<lambda>_. None),
     mp_object_size = (\<lambda>_. 0), mp_provider = (\<lambda>_. None)\<rparr>"

definition cold :: kernel where
  "cold = \<lparr>thr = (\<lambda>_. blank_thread), queues = (\<lambda>_. []), r_preempt = 0, currp = mainthread, registry = [],
     vt_list = [], vt_time = (\<lambda>_. 0), vt_func = (\<lambda>_. None), vt_par = (\<lambda>_. VP_val 0), vt_systime = 0,
     s_cnt = (\<lambda>_. 0), m_owner = (\<lambda>_. None), m_next = (\<lambda>_. None), es_list = (\<lambda>_. []),
     el_listener = (\<lambda>_. mainthread), el_mask = (\<lambda>_. 0),
     mbox = (\<lambda>b. \<lparr>mb_buffer = [0, 0, 0], mb_wrptr = 0, mb_rdptr = 0, mb_fullsem = 2 * b, mb_emptysem = 2 * b + 1\<rparr>),
     ioq = (\<lambda>_. \<lparr>q_counter = 0, q_buffer = [0, 0, 0], q_wrptr = 0, q_rdptr = 0, q_notify = None\<rparr>),
     mem = blank_memory\<rparr>"

definition started :: kernel where
  "started = (case after (chSysInit cold) of Some k \<Rightarrow> k | None \<Rightarrow> cold)"

lemma boot_cold: "boot cold"
  by (simp add: boot_def cold_def blank_thread_def NOPRIO_def)

lemma chSysInit_cold: "chSysInit cold = Ret () started"
proof -
  obtain k where "chSysInit cold = Ret () k" using chSysInit_ok[OF boot_cold] by blast
  then show ?thesis by (simp add: started_def)
qed

lemma started_ok:
  "kinv started" "currp started = mainthread" "ready started = [idle_thread]" "top_prio started"
  "registry started = [mainthread, idle_thread]" "resumed started"
proof -
  obtain k where "chSysInit cold = Ret () k" "kinv k" "currp k = mainthread" "ready k = [idle_thread]"
      "registry k = [mainthread, idle_thread]" "top_prio k"
    using chSysInit_ok[OF boot_cold] by blast
  then show "kinv started" "currp started = mainthread" "ready started = [idle_thread]" "top_prio started"
    "registry started = [mainthread, idle_thread]" "resumed started"
    by (simp_all add: chSysInit_cold resumed_def mainthread_def idle_thread_def)
qed

lemma reachable_started: "reachable (started, \<lambda>_. None)"
  using boot_cold chSysInit_cold by (rule reachable.start)

lemma started_eq:
  "started = (let k = chThdCreateI idle_thread IDLEPRIO (chRegSetThreadName ''main''
       (set_state mainthread THD_STATE_CURRENT
         ((thread_init mainthread NORMALPRIO (vt_init (scheduler_init cold)))\<lparr>currp := mainthread\<rparr>)))
     in chSchReadyI idle_thread (set_u idle_thread (U_msg RDY_OK) k))"
  by (simp add: started_def chSysInit_def chThdCreateStatic_def chSchWakeupS_def Let_def chThdCreateI_def
      thread_init_def REG_INSERT_def chRegSetThreadName_def scheduler_init_def vt_init_def kernel_defs
      IDLEPRIO_def NORMALPRIO_def mainthread_def idle_thread_def)

lemma started_fields [simp]:
  "s_cnt started s = 0" "m_owner started m = None" "vt_list started = []" "vt_systime started = 0"
  "es_list started = (\<lambda>_. [])" "mem started = blank_memory" "mbox started = mbox cold" "ioq started = ioq cold"
  by (simp_all add: started_eq Let_def chThdCreateI_def thread_init_def REG_INSERT_def chRegSetThreadName_def
      scheduler_init_def vt_init_def kernel_defs cold_def chSchReadyI_def)

lemma started_thread [simp]:
  "prio started mainthread = NORMALPRIO" "state started mainthread = THD_STATE_CURRENT"
  "prio started idle_thread = IDLEPRIO" "state started idle_thread = THD_STATE_READY"
  "2 \<le> n \<Longrightarrow> state started (Thd n) = THD_STATE_SUSPENDED"
  "p_realprio (thr started mainthread) = NORMALPRIO" "p_mtxlist (thr started t) = None" "p_waiting (thr started t) = []" "p_epending (thr started t) = 0"
  by (simp_all add: started_eq Let_def chThdCreateI_def thread_init_def REG_INSERT_def chRegSetThreadName_def
      scheduler_init_def vt_init_def kernel_defs cold_def chSchReadyI_def mainthread_def idle_thread_def blank_thread_def)

lemma started_queues: "queues started q = (if q = RListQ then [idle_thread] else [])"
  by (simp add: started_eq Let_def chThdCreateI_def thread_init_def REG_INSERT_def chRegSetThreadName_def
      scheduler_init_def vt_init_def kernel_defs cold_def chSchReadyI_def mainthread_def idle_thread_def blank_thread_def)

lemma started_vt_func [simp]: "vt_func started v = None"
  by (simp add: started_eq Let_def chThdCreateI_def thread_init_def REG_INSERT_def chRegSetThreadName_def
      scheduler_init_def vt_init_def kernel_defs cold_def chSchReadyI_def)

lemma started_state: "state started t =
  (if t = mainthread then THD_STATE_CURRENT else if t = idle_thread then THD_STATE_READY else THD_STATE_SUSPENDED)"
  by (simp add: started_eq Let_def chThdCreateI_def thread_init_def REG_INSERT_def chRegSetThreadName_def
      scheduler_init_def vt_init_def kernel_defs cold_def chSchReadyI_def mainthread_def idle_thread_def blank_thread_def)

text \<open>\<^verbatim>\<open>main\<close> waits for semaphore 0.\<close>

definition waiting :: kernel where
  "waiting = (case after (chSemWaitS 0 started) of Some k \<Rightarrow> k | None \<Rightarrow> started)"

lemma after_chSemWait_started: "after (chSemWaitS 0 started) = Some waiting"
  by (simp add: waiting_def chSemWaitS_def Let_def chSchGoSleepS_def kernel_defs set_cnt_def)

lemma waiting_ok: "kinv waiting" "queues waiting (SemQ 0) = [mainthread]" "currp waiting = idle_thread"
proof -
  have s: "safe (chSemWaitS 0 started)" by (rule chSemWaitS_safe[OF started_ok(6)])
  then show "kinv waiting" using after_chSemWait_started by (cases "chSemWaitS 0 started") auto
  show "queues waiting (SemQ 0) = [mainthread]" "currp waiting = idle_thread"
    by (simp_all add: waiting_def chSemWaitS_def Let_def chSchGoSleepS_def set_cnt_def go_sleep_def
        fifo_remove_def queue_insert_def kernel_defs started_queues started_ok)
qed

text \<open>
  \<^verbatim>\<open>main\<close> has locked mutex 0 when it starts thread 2, of higher priority (\<open>owned\<close>);
  thread 2 locks the mutex (\<open>contended\<close>).
\<close>

definition owned :: kernel where
  "owned = (case after (chThdCreateStatic (Thd 2) 100 (mtx_take 0 started)) of Some k \<Rightarrow> k | None \<Rightarrow> started)"

definition contended :: kernel where
  "contended = (case after (chMtxLockS 0 owned) of Some k \<Rightarrow> k | None \<Rightarrow> started)"

lemma owned_ok: "resumed owned" "currp owned = Thd 2" "m_owner owned = (\<lambda>_. None)(0 := Some mainthread)"
  "prio owned (Thd 2) = 100" "prio owned mainthread = 64" "\<And>m. queues owned (MtxQ m) = []"
  "p_mtxlist (thr owned mainthread) = Some 0" "p_realprio (thr owned mainthread) = 64"
  "m_next owned 0 = None" "state owned mainthread = THD_STATE_READY" "ready owned = [mainthread, idle_thread]"
  "prio owned idle_thread = 1"
proof -
  define k where "k = mtx_take 0 started"
  have k: "kinv k" "currp k = mainthread" using mtx_take_kinv[OF started_ok(1)] started_ok by (auto simp: k_def mtx_take_def set_mtx_def kernel_defs)
  have e: "state k (Thd 2) = THD_STATE_SUSPENDED" "p_mtxlist (thr k (Thd 2)) = None"
      "\<And>t. p_waiting (thr k t) = []" "\<And>q. queues k q = queues started q" "prio k mainthread = 64"
      "m_owner k = (\<lambda>_. None)(0 := Some mainthread)" "p_mtxlist (thr k mainthread) = Some 0"
      "p_realprio (thr k mainthread) = 64" "m_next k 0 = None" "prio k idle_thread = 1"
    using started_thread(1,3) started_thread(5)[of 2] started_thread(6)
    by (simp_all add: k_def mtx_take_def Let_def set_mtx_def kernel_defs started_ok mainthread_def fun_eq_iff NORMALPRIO_def IDLEPRIO_def idle_thread_def)
  have u: "unused k (Thd 2)" using k e started_queues
    by (simp add: unused_def waiters_def mainthread_def)
  have s: "safe (chThdCreateStatic (Thd 2) 100 k)" by (rule chThdCreateStatic_safe[OF k(1) u])
  have c: "chThdCreateI (Thd 2) 100 k = thread_init (Thd 2) 100 k" by (simp add: chThdCreateI_def)
  have f: "currp owned = Thd 2" "m_owner owned = (\<lambda>_. None)(0 := Some mainthread)"
      "prio owned (Thd 2) = 100" "prio owned mainthread = 64" "\<And>m. queues owned (MtxQ m) = []"
      "p_mtxlist (thr owned mainthread) = Some 0" "p_realprio (thr owned mainthread) = 64"
      "m_next owned 0 = None" "state owned mainthread = THD_STATE_READY" "ready owned = [mainthread, idle_thread]"
      "prio owned idle_thread = 1" "after (chThdCreateStatic (Thd 2) 100 k) = Some owned"
    using k e
    by (simp_all add: owned_def k_def[symmetric] chThdCreateStatic_def chSchWakeupS_def c thread_init_def REG_INSERT_def
        chSchReadyI_def Let_def kernel_defs mainthread_def started_queues del: fun_upd_apply)
      (auto simp: mainthread_def idle_thread_def)
  then have "kinv owned" using s by (cases "chThdCreateStatic (Thd 2) 100 k") auto
  then show "resumed owned" using f by (simp add: resumed_def idle_thread_def)
  show "currp owned = Thd 2" "m_owner owned = (\<lambda>_. None)(0 := Some mainthread)"
    "prio owned (Thd 2) = 100" "prio owned mainthread = 64" "\<And>m. queues owned (MtxQ m) = []"
    "p_mtxlist (thr owned mainthread) = Some 0" "p_realprio (thr owned mainthread) = 64"
    "m_next owned 0 = None" "state owned mainthread = THD_STATE_READY" "ready owned = [mainthread, idle_thread]"
    "prio owned idle_thread = 1" by (fact f)+
qed

lemma contended_ok: "kinv contended" "owns contended mainthread [0]" "queues contended (MtxQ 0) = [Thd 2]"
  "currp contended = mainthread" "prio contended mainthread = 100" "pi_ok contended"
proof -
  have o: "m_owner owned 0 = Some mainthread" using owned_ok(3) by simp
  from chMtxLockS_contended[OF owned_ok(1) o] obtain k where k: "chMtxLockS 0 owned = Switch k (Ret ())"
    "kinv k" "pi_ok owned \<longrightarrow> pi_ok k" "prio owned (currp owned) \<le> prio k mainthread"
    "currp owned \<in> set (queues k (MtxQ 0))" "m_owner k = m_owner owned"
    "\<And>t. prio owned t \<le> prio k t \<and> prio k t \<le> max (prio owned (currp owned)) (prio owned t)"
    by blast
  have c: "contended = k" by (simp add: contended_def k(1))
  have "pi_ok owned" using owned_ok(6) by (simp add: pi_ok_def)
  then have "pi_ok k" using k(3) by blast
  then show "kinv contended" "pi_ok contended" unfolding c using k(2) by blast+
  show "prio contended mainthread = 100" using k(4) k(7)[of mainthread] owned_ok(2,4,5) by (simp add: c)
  define k1 where "k1 = chSchReadyI mainthread (dequeue mainthread (upd_thr mainthread (\<lambda>r. r\<lparr>p_prio := 100\<rparr>) owned))"
  have b: "mtx_boost 100 mainthread owned = Some k1"
    by (subst mtx_boost.simps) (simp add: owned_ok k1_def Let_def)
  have k1: "ready k1 = [mainthread, idle_thread]" "\<And>m. queues k1 (MtxQ m) = []" "m_next k1 = m_next owned"
    "p_mtxlist (thr k1 mainthread) = Some 0" "m_owner k1 = m_owner owned" "currp k1 = Thd 2"
    using owned_ok by (simp_all add: k1_def dequeue_def chSchReadyI_def Let_def kernel_defs mainthread_def idle_thread_def)
  have e: "contended = go_sleep THD_STATE_WTMTX (set_u (Thd 2) (U_wtobjp (MtxQ 0)) (prio_insert (Thd 2) (MtxQ 0) k1))"
    using o owned_ok(2,4) b by (simp add: contended_def chMtxLockS_def Let_def chSchGoSleepS_def)
  have "m_next contended 0 = None" "m_owner contended = (\<lambda>_. None)(0 := Some mainthread)"
    "p_mtxlist (thr contended mainthread) = Some 0"
    using k1 owned_ok by (simp_all add: e go_sleep_def fifo_remove_def Let_def prio_insert_def kernel_defs mainthread_def)
  then show "owns contended mainthread [0]" by (simp add: owns_def)
  show "queues contended (MtxQ 0) = [Thd 2]" "currp contended = mainthread"
    using k1 by (simp_all add: e go_sleep_def fifo_remove_def Let_def prio_insert_def kernel_defs)
qed

text \<open>A mailbox, an input queue and an output queue, all empty.\<close>

definition comms :: kernel where
  "comms = chMBInit 0 [0, 0, 0] (chOQInit 2 [0, 0] None (chIQInit 0 [0, 0] None started))"

lemma comms_ok: "mb_calm 0 comms" "mb_list 0 comms = []" "iq_ok 0 comms" "iq_list 0 comms = []"
  "oq_ok 2 comms" "oq_list 2 comms = []" "chQSizeI 2 comms = 2" "chQSizeI 0 comms = 2"
  "ioq comms 2 = \<lparr>q_counter = 2, q_buffer = [0, 0], q_wrptr = 0, q_rdptr = 0, q_notify = None\<rparr>"
  "ioq comms 0 = \<lparr>q_counter = 0, q_buffer = [0, 0], q_wrptr = 0, q_rdptr = 0, q_notify = None\<rparr>"
proof -
  define k where "k = chOQInit 2 [0, 0] None (chIQInit 0 [0, 0] None started)"
  have q: "set_queue (IoQ q) [] k' = k'" if "queues k' (IoQ q) = []" for q k'
    using set_queue_id[of "IoQ q" k'] that by simp
  have k: "kinv k" using started_ok(1)
    by (simp add: k_def chOQInit_def chIQInit_def q started_queues)
  have f: "queues k = queues started" "s_cnt k = s_cnt started" "mbox k = mbox started"
    by (simp_all add: k_def chOQInit_def chIQInit_def q started_queues)
      (simp_all add: set_ioq_def)
  define M where "M = set_mb 0 (\<lambda>M. M\<lparr>mb_buffer := [0, 0, 0], mb_wrptr := 0, mb_rdptr := 0\<rparr>) k"
  have M: "kinv M" "queues M = queues started" "s_cnt M = s_cnt started"
    using k f by (simp_all add: M_def)
  have e: "comms = set_cnt 0 0 (set_cnt 1 3 M)"
    unfolding comms_def k_def[symmetric] chMBInit_def Let_def M_def[symmetric] chSemInit_def
    using M(2) set_queue_id[of "SemQ 1" M] set_queue_id[of "SemQ 0" "set_cnt 1 3 M"]
    by (simp add: M_def f(3) cold_def started_queues) 
  have "sem_ok comms" by (simp add: e sem_ok_def2 M(2,3) started_queues)
  then have c: "kinv comms" using M(1) by (simp add: kinv_klists e)
  have g: "mbox comms 0 = \<lparr>mb_buffer = [0, 0, 0], mb_wrptr = 0, mb_rdptr = 0, mb_fullsem = 0, mb_emptysem = 1\<rparr>"
    "ioq comms = ioq k" "s_cnt comms = (s_cnt started)(1 := 3, 0 := 0)"
    by (simp_all add: e M_def f cold_def) (simp_all add: set_cnt_def set_mb_def f cold_def)
  have h: "ioq k 0 = \<lparr>q_counter = 0, q_buffer = [0, 0], q_wrptr = 0, q_rdptr = 0, q_notify = None\<rparr>"
    "ioq k 2 = \<lparr>q_counter = 2, q_buffer = [0, 0], q_wrptr = 0, q_rdptr = 0, q_notify = None\<rparr>"
    by (simp_all add: k_def chOQInit_def chIQInit_def cold_def)
  show "mb_calm 0 comms" "mb_list 0 comms = []"
    using c by (simp_all add: mb_calm_def mb_list_def mb_content_def mb_ok_def Let_def g chMBGetUsedCountI_def chMBGetFreeCountI_def
        chSemGetCounterI_def mb_size_def)
  show "iq_ok 0 comms" "iq_list 0 comms = []" "oq_ok 2 comms" "oq_list 2 comms = []" "chQSizeI 2 comms = 2" "chQSizeI 0 comms = 2"
    using c by (simp_all add: iq_ok_def oq_ok_def iq_list_def oq_list_def ring_ok_def q_content_def g h q_size_def chQSizeI_def)
  show "ioq comms 2 = \<lparr>q_counter = 2, q_buffer = [0, 0], q_wrptr = 0, q_rdptr = 0, q_notify = None\<rparr>"
    "ioq comms 0 = \<lparr>q_counter = 0, q_buffer = [0, 0], q_wrptr = 0, q_rdptr = 0, q_notify = None\<rparr>"
    by (simp_all add: g h)
qed

text \<open>A heap of 4096 bytes.\<close>

definition heaped :: kernel where
  "heaped = chHeapInit 0 0x20000000 4096 started"

lemma heaped_ok: "kinv heaped" "m_owner heaped = (\<lambda>_. None)" "heap_ok (mem heaped) 0 [0x20000000]"
  "free_bytes (mem heaped) [0x20000000] = {0x20000000..<0x20001000}" "h_size (mem heaped) (Blk 0x20000000) = 4088"
proof -
  have i: "chMtxInit m k = k" if "queues k (MtxQ m) = []" "m_owner k m = None" for m k
    using that set_queue_id[of "MtxQ m" k] by (simp add: chMtxInit_def fun_upd_idem)
  define f where "f = (\<lambda>m. let m1 = m\<lparr>h_provider := (h_provider m)(0 := None)\<rparr>;
                m2 = set_size (H_free 0) 0 (Memory.set_next (H_free 0) (Some 0x20000000) m1)
            in set_size (Blk 0x20000000) (4096 - HDR) (Memory.set_next (Blk 0x20000000) None m2))"
  have e: "heaped = upd_mem f started"
    unfolding heaped_def chHeapInit_def f_def[symmetric] by (simp add: i started_queues upd_mem_def Let_def)
  show "kinv heaped" using started_ok by (simp add: e)
  show "m_owner heaped = (\<lambda>_. None)" by (simp add: e upd_mem_def fun_eq_iff)
  show "heap_ok (mem heaped) 0 [0x20000000]" "h_size (mem heaped) (Blk 0x20000000) = 4088"
    "free_bytes (mem heaped) [0x20000000] = {0x20000000..<0x20001000}"
    by (simp_all add: e f_def Let_def heap_ok_def Memory.set_next_def set_size_def free_bytes_def extent_def HDR_def)
qed

end
