(* ===== verification/Flash.thy ===== *)
theory Flash
  imports Prelude
begin

text \<open>
  The embedded flash: the part of \<^verbatim>\<open>Quad/Flash_driver/stm32f4xx_flash.cpp\<close> the firmware
  uses, over the registers and cells of the flash controller.

  The controller is the environment. How long it is busy with an operation and whether
  the operation fails are parameters (\<open>controller\<close>), for every operation in turn; what it
  does otherwise is the documented behaviour of the device: a locked control register
  ignores writes, programming clears bits of a half word, erasing sets every bit of a
  sector, an error flag stays until software clears it.
\<close>

unbundle bit_operations_syntax

section \<open>The controller\<close>

record flash =
  f_CR :: u32
  f_SR :: u32
  f_key :: bool       \<comment> \<open>the first key has been written\<close>
  f_polls :: nat      \<comment> \<open>reads of the status register until the busy flag goes\<close>
  f_ops :: nat        \<comment> \<open>operations started\<close>
  f_cells :: "nat \<Rightarrow> u16"

record controller =
  c_polls :: "nat \<Rightarrow> nat"
  c_faults :: "nat \<Rightarrow> u32"

definition FLASH_CR_PG :: u32 where "FLASH_CR_PG = 0x1"
definition FLASH_CR_SER :: u32 where "FLASH_CR_SER = 0x2"
definition FLASH_CR_STRT :: u32 where "FLASH_CR_STRT = 0x10000"
definition FLASH_CR_LOCK :: u32 where "FLASH_CR_LOCK = 0x80000000"
definition FLASH_FLAG_BSY :: u32 where "FLASH_FLAG_BSY = 0x10000"
definition FLASH_FLAG_WRPERR :: u32 where "FLASH_FLAG_WRPERR = 0x10"
definition FLASH_FLAG_OPERR :: u32 where "FLASH_FLAG_OPERR = 0x2"
definition FLASH_FLAG_PGSERR :: u32 where "FLASH_FLAG_PGSERR = 0x80"
definition FLASH_PSIZE_HALF_WORD :: u32 where "FLASH_PSIZE_HALF_WORD = 0x100"
definition FLASH_PSIZE_WORD :: u32 where "FLASH_PSIZE_WORD = 0x200"
definition CR_PSIZE_MASK :: u32 where "CR_PSIZE_MASK = 0xFFFFFCFF"
definition SECTOR_MASK :: u32 where "SECTOR_MASK = 0xFFFFFF07"
definition FLASH_KEY1 :: u32 where "FLASH_KEY1 = 0x45670123"
definition FLASH_KEY2 :: u32 where "FLASH_KEY2 = 0xCDEF89AB"
definition FLASH_Sector_10 :: u32 where "FLASH_Sector_10 = 0x50"
definition FLASH_Sector_11 :: u32 where "FLASH_Sector_11 = 0x58"

text \<open>The error flags of the status register.\<close>

definition fault_flags :: u32 where "fault_flags = 0xF2"

text \<open>The 128 KByte sectors 5 to 11 of the device, by the sector field of the control register.\<close>

definition sector_base :: "u32 \<Rightarrow> nat" where
  "sector_base cr = 0x08020000 + (unat (drop_bit 3 (cr AND 0x78)) - 5) * 0x20000"

definition flash_op :: "controller \<Rightarrow> ((nat \<Rightarrow> u16) \<Rightarrow> nat \<Rightarrow> u16) \<Rightarrow> flash \<Rightarrow> flash" where
  "flash_op c eff s =
     (let k = f_ops s; bad = c_faults c k AND fault_flags;
          s = s\<lparr>f_ops := k + 1, f_polls := c_polls c k\<rparr>
      in if bad = 0 then s\<lparr>f_cells := eff (f_cells s)\<rparr> else s\<lparr>f_SR := f_SR s OR bad\<rparr>)"

definition erased :: "nat \<Rightarrow> (nat \<Rightarrow> u16) \<Rightarrow> nat \<Rightarrow> u16" where
  "erased base m a = (if base \<le> a \<and> a < base + 0x20000 then 0xFFFF else m a)"

text \<open>A write to \<^verbatim>\<open>FLASH->CR\<close>; the start bit clears itself.\<close>

definition cr_write :: "controller \<Rightarrow> u32 \<Rightarrow> flash \<Rightarrow> flash" where
  "cr_write c v s =
     (if f_CR s AND FLASH_CR_LOCK \<noteq> 0 then s
      else if v AND FLASH_CR_STRT \<noteq> 0 \<and> v AND FLASH_CR_SER \<noteq> 0
      then flash_op c (erased (sector_base v)) (s\<lparr>f_CR := v AND NOT FLASH_CR_STRT\<rparr>)
      else s\<lparr>f_CR := v\<rparr>)"

definition keyr_write :: "u32 \<Rightarrow> flash \<Rightarrow> flash" where
  "keyr_write v s =
     (if f_key s \<and> v = FLASH_KEY2 then s\<lparr>f_key := False, f_CR := f_CR s AND NOT FLASH_CR_LOCK\<rparr>
      else s\<lparr>f_key := (v = FLASH_KEY1)\<rparr>)"

text \<open>A half word written to an address of the flash.\<close>

definition flash_store :: "controller \<Rightarrow> nat \<Rightarrow> u16 \<Rightarrow> flash \<Rightarrow> flash" where
  "flash_store c a d s =
     (if f_CR s AND FLASH_CR_PG \<noteq> 0 then flash_op c (\<lambda>m. m(a := m a AND d)) s
      else s\<lparr>f_SR := f_SR s OR FLASH_FLAG_PGSERR\<rparr>)"

definition sr_read :: "flash \<Rightarrow> u32 \<times> flash" where
  "sr_read s = (if 0 < f_polls s then f_SR s OR FLASH_FLAG_BSY else f_SR s AND NOT FLASH_FLAG_BSY,
     s\<lparr>f_polls := f_polls s - 1\<rparr>)"

section \<open>The driver\<close>

datatype FLASH_Status =
    FLASH_BUSY | FLASH_ERROR_PGS | FLASH_ERROR_PGP | FLASH_ERROR_PGA | FLASH_ERROR_WRP
  | FLASH_ERROR_PROGRAM | FLASH_ERROR_OPERATION | FLASH_COMPLETE

text \<open>Every test of \<^verbatim>\<open>FLASH_GetStatus\<close> reads the register again.\<close>

definition FLASH_GetStatus :: "flash \<Rightarrow> FLASH_Status \<times> flash" where
  "FLASH_GetStatus s =
     (case sr_read s of (v, s) \<Rightarrow>
        if v AND FLASH_FLAG_BSY = FLASH_FLAG_BSY then (FLASH_BUSY, s)
        else case sr_read s of (v, s) \<Rightarrow>
          if v AND FLASH_FLAG_WRPERR \<noteq> 0 then (FLASH_ERROR_WRP, s)
          else case sr_read s of (v, s) \<Rightarrow>
            if v AND 0xEF \<noteq> 0 then (FLASH_ERROR_PROGRAM, s)
            else case sr_read s of (v, s) \<Rightarrow>
              if v AND FLASH_FLAG_OPERR \<noteq> 0 then (FLASH_ERROR_OPERATION, s) else (FLASH_COMPLETE, s))"

text \<open>The status a register value stands for when the controller is not busy.\<close>

definition sr_status :: "u32 \<Rightarrow> FLASH_Status" where
  "sr_status v =
     (if v AND FLASH_FLAG_WRPERR \<noteq> 0 then FLASH_ERROR_WRP
      else if v AND 0xEF \<noteq> 0 then FLASH_ERROR_PROGRAM
      else if v AND FLASH_FLAG_OPERR \<noteq> 0 then FLASH_ERROR_OPERATION else FLASH_COMPLETE)"

lemma and_flag: "((x :: u32) OR b) AND b = b" "(x AND NOT b) AND b = 0"
  by (rule bit_word_eqI, auto simp: bit_simps)+

lemma BSY_not_0: "FLASH_FLAG_BSY \<noteq> 0"
  by (simp add: FLASH_FLAG_BSY_def)

lemma GetStatus_busy:
  "0 < f_polls s \<Longrightarrow> FLASH_GetStatus s = (FLASH_BUSY, s\<lparr>f_polls := f_polls s - 1\<rparr>)"
  by (simp add: FLASH_GetStatus_def sr_read_def and_flag)

lemma GetStatus_idle:
  "f_polls s = 0 \<Longrightarrow> FLASH_GetStatus s = (sr_status (f_SR s AND NOT FLASH_FLAG_BSY), s)"
  using BSY_not_0 by (simp add: FLASH_GetStatus_def sr_read_def and_flag sr_status_def)

lemma sr_status_not_busy: "sr_status v \<noteq> FLASH_BUSY"
  by (simp add: sr_status_def)

text \<open>
  \<^verbatim>\<open>while (status == FLASH_BUSY) status = FLASH_GetStatus();\<close> ends when the busy flag
  goes; the controller is never busy for ever.
\<close>

function wait_loop :: "FLASH_Status \<Rightarrow> flash \<Rightarrow> FLASH_Status \<times> flash" where
  "wait_loop status s =
     (if status = FLASH_BUSY then (case FLASH_GetStatus s of (status, s) \<Rightarrow> wait_loop status s)
      else (status, s))"
  by pat_completeness auto
termination
proof (relation "measure (\<lambda>(st, s). f_polls s + (if st = FLASH_BUSY then 1 else 0))", goal_cases)
  case (2 status s st' s')
  then show ?case
    using GetStatus_busy[of s] GetStatus_idle[of s] sr_status_not_busy
    by (cases "f_polls s = 0") auto
qed simp

declare wait_loop.simps [simp del]

definition FLASH_WaitForLastOperation :: "flash \<Rightarrow> FLASH_Status \<times> flash" where
  "FLASH_WaitForLastOperation s = (case FLASH_GetStatus s of (status, s) \<Rightarrow> wait_loop status s)"

definition FLASH_Unlock :: "flash \<Rightarrow> flash" where
  "FLASH_Unlock s =
     (if f_CR s AND FLASH_CR_LOCK \<noteq> 0 then keyr_write FLASH_KEY2 (keyr_write FLASH_KEY1 s) else s)"

definition FLASH_Lock :: "controller \<Rightarrow> flash \<Rightarrow> flash" where
  "FLASH_Lock c s = cr_write c (f_CR s OR FLASH_CR_LOCK) s"

text \<open>\<^verbatim>\<open>FLASH_EraseSector\<close> for the voltage range the firmware uses (\<^verbatim>\<open>VoltageRange_3\<close>).\<close>

definition FLASH_EraseSector :: "controller \<Rightarrow> u32 \<Rightarrow> flash \<Rightarrow> FLASH_Status \<times> flash" where
  "FLASH_EraseSector c FLASH_Sector s =
     (case FLASH_WaitForLastOperation s of (status, s) \<Rightarrow>
        if status = FLASH_COMPLETE then
          (let s = cr_write c (f_CR s AND CR_PSIZE_MASK) s;
               s = cr_write c (f_CR s OR FLASH_PSIZE_WORD) s;
               s = cr_write c (f_CR s AND SECTOR_MASK) s;
               s = cr_write c (f_CR s OR (FLASH_CR_SER OR FLASH_Sector)) s;
               s = cr_write c (f_CR s OR FLASH_CR_STRT) s
           in case FLASH_WaitForLastOperation s of (status, s) \<Rightarrow>
                (let s = cr_write c (f_CR s AND NOT FLASH_CR_SER) s
                 in (status, cr_write c (f_CR s AND SECTOR_MASK) s)))
        else (status, s))"

definition FLASH_ProgramHalfWord :: "controller \<Rightarrow> nat \<Rightarrow> u16 \<Rightarrow> flash \<Rightarrow> FLASH_Status \<times> flash" where
  "FLASH_ProgramHalfWord c Address Data s =
     (case FLASH_WaitForLastOperation s of (status, s) \<Rightarrow>
        if status = FLASH_COMPLETE then
          (let s = cr_write c (f_CR s AND CR_PSIZE_MASK) s;
               s = cr_write c (f_CR s OR FLASH_PSIZE_HALF_WORD) s;
               s = cr_write c (f_CR s OR FLASH_CR_PG) s;
               s = flash_store c Address Data s
           in case FLASH_WaitForLastOperation s of (status, s) \<Rightarrow>
                (status, cr_write c (f_CR s AND NOT FLASH_CR_PG) s))
        else (status, s))"

section \<open>What the driver promises\<close>

text \<open>
  The controller is unlocked and idle between two calls: no operation bit is set, and the
  flags say whether an operation has failed since the flags were cleared.
\<close>

definition quiet :: "flash \<Rightarrow> bool" where
  "quiet s \<longleftrightarrow> f_CR s AND (FLASH_CR_LOCK OR FLASH_CR_PG OR FLASH_CR_SER OR FLASH_CR_STRT) = 0
     \<and> f_SR s AND NOT fault_flags = 0"

lemma wait_loop_busy: "wait_loop FLASH_BUSY s = (sr_status (f_SR s AND NOT FLASH_FLAG_BSY), s\<lparr>f_polls := 0\<rparr>)"
proof (induction "f_polls s" arbitrary: s)
  case 0
  then show ?case
    by (simp add: wait_loop.simps[of FLASH_BUSY] GetStatus_idle)
       (simp add: wait_loop.simps[of "sr_status _"] sr_status_not_busy)
next
  case (Suc n)
  then have "wait_loop FLASH_BUSY s = wait_loop FLASH_BUSY (s\<lparr>f_polls := f_polls s - 1\<rparr>)"
    by (subst wait_loop.simps) (simp add: GetStatus_busy)
  then show ?case using Suc(1)[of "s\<lparr>f_polls := f_polls s - 1\<rparr>"] Suc(2) by simp
qed

lemma WaitForLastOperation_eq:
  "FLASH_WaitForLastOperation s = (sr_status (f_SR s AND NOT FLASH_FLAG_BSY), s\<lparr>f_polls := 0\<rparr>)"
proof (cases "f_polls s = 0")
  case True
  then show ?thesis
    by (simp add: FLASH_WaitForLastOperation_def GetStatus_idle)
       (simp add: wait_loop.simps[of "sr_status _"] sr_status_not_busy)
next
  case False
  then show ?thesis
    by (simp add: FLASH_WaitForLastOperation_def GetStatus_busy wait_loop_busy)
qed

lemma sr_status_never_operation: "sr_status v \<noteq> FLASH_ERROR_OPERATION"
proof -
  have "v AND FLASH_FLAG_OPERR = (v AND 0xEF) AND FLASH_FLAG_OPERR"
    by (simp add: FLASH_FLAG_OPERR_def and.assoc)
  then show ?thesis by (simp add: sr_status_def)
qed

lemma sr_status_complete: "sr_status v = FLASH_COMPLETE \<longleftrightarrow> v AND 0xFF = 0"
proof -
  have w: "v AND FLASH_FLAG_WRPERR = (v AND 0xFF) AND FLASH_FLAG_WRPERR"
    and e: "v AND 0xEF = (v AND 0xFF) AND 0xEF" and p: "v AND FLASH_FLAG_OPERR = (v AND 0xFF) AND FLASH_FLAG_OPERR"
    by (simp_all add: FLASH_FLAG_OPERR_def FLASH_FLAG_WRPERR_def and.assoc)
  have d: "v AND 0xFF = (v AND FLASH_FLAG_WRPERR) OR (v AND 0xEF)"
    by (simp add: FLASH_FLAG_WRPERR_def flip: bit.conj_disj_distrib)
  show ?thesis
  proof
    assume "sr_status v = FLASH_COMPLETE"
    then have "v AND FLASH_FLAG_WRPERR = 0" "v AND 0xEF = 0" unfolding sr_status_def
      by (simp_all split: if_splits)
    then show "v AND 0xFF = 0" unfolding d by simp
  next
    assume z: "v AND 0xFF = 0"
    have "v AND FLASH_FLAG_WRPERR = 0" "v AND 0xEF = 0" "v AND FLASH_FLAG_OPERR = 0"
      by (subst w, simp add: z) (subst e, simp add: z, subst p, simp add: z)
    then show "sr_status v = FLASH_COMPLETE" unfolding sr_status_def by simp
  qed
qed

lemmas cr_masks = FLASH_CR_PG_def FLASH_CR_SER_def FLASH_CR_STRT_def FLASH_CR_LOCK_def FLASH_PSIZE_HALF_WORD_def
  FLASH_PSIZE_WORD_def CR_PSIZE_MASK_def SECTOR_MASK_def FLASH_Sector_10_def FLASH_Sector_11_def

lemma and_exp_0_iff: "(x :: u32) AND 2 ^ n = 0 \<longleftrightarrow> \<not> bit x n" if "n < 32"
  using that by (simp add: and_exp_eq_0_iff_not_bit)

lemma flag_bits:
  "x AND FLASH_CR_LOCK = 0 \<longleftrightarrow> \<not> bit x 31" "x AND FLASH_CR_STRT = 0 \<longleftrightarrow> \<not> bit x 16"
  "x AND FLASH_CR_SER = 0 \<longleftrightarrow> \<not> bit x 1" "x AND FLASH_CR_PG = 0 \<longleftrightarrow> \<not> bit x 0"
  using and_exp_0_iff[of 31 x] and_exp_0_iff[of 16 x] and_exp_0_iff[of 1 x] and_exp_0_iff[of 0 x]
  by (simp_all add: cr_masks)

lemma quiet_bits:
  "quiet s \<longleftrightarrow> \<not> bit (f_CR s) 31 \<and> \<not> bit (f_CR s) 16 \<and> \<not> bit (f_CR s) 1 \<and> \<not> bit (f_CR s) 0
     \<and> f_SR s AND NOT fault_flags = 0"
  unfolding quiet_def bit.conj_disj_distrib or_eq_0_iff flag_bits by blast

lemma cr_write_plain:
  "\<not> bit (f_CR s) 31 \<Longrightarrow> \<not> bit v 16 \<Longrightarrow> cr_write c v s = s\<lparr>f_CR := v\<rparr>"
  by (simp add: cr_write_def flag_bits)

lemma quiet_SR:
  assumes "quiet s"
  shows "sr_status (f_SR s AND NOT FLASH_FLAG_BSY) = FLASH_COMPLETE \<longleftrightarrow> f_SR s = 0"
proof -
  have f: "f_SR s = f_SR s AND fault_flags"
  proof -
    have "f_SR s = (f_SR s AND fault_flags) OR (f_SR s AND NOT fault_flags)"
      by (simp flip: bit.conj_disj_distrib)
    then show ?thesis using assms by (simp add: quiet_def)
  qed
  have "f_SR s AND NOT FLASH_FLAG_BSY = f_SR s"
    by (subst (1 2) f) (simp add: fault_flags_def FLASH_FLAG_BSY_def and.assoc)
  moreover have "f_SR s AND 0xFF = f_SR s"
    by (subst (1 2) f) (simp add: fault_flags_def and.assoc)
  ultimately show ?thesis by (simp add: sr_status_complete)
qed

lemma flash_sel:
  "f_CR (x\<lparr>f_CR := v\<rparr>) = v" "f_CR (x\<lparr>f_polls := n\<rparr>) = f_CR x" "f_CR (x\<lparr>f_ops := n\<rparr>) = f_CR x"
  "f_CR (x\<lparr>f_cells := m\<rparr>) = f_CR x" "f_CR (x\<lparr>f_SR := v\<rparr>) = f_CR x"
  by simp_all

text \<open>Programming a half word clears bits of it, or fails and changes nothing.\<close>

lemma FLASH_ProgramHalfWord_spec:
  assumes q: "quiet s" and r: "FLASH_ProgramHalfWord c a d s = (st, s')"
  shows "quiet s'
    \<and> (st = FLASH_COMPLETE \<longleftrightarrow> f_SR s = 0 \<and> c_faults c (f_ops s) AND fault_flags = 0)
    \<and> f_cells s' = (if st = FLASH_COMPLETE then (f_cells s)(a := f_cells s a AND d) else f_cells s)
    \<and> (f_SR s' = 0 \<longleftrightarrow> st = FLASH_COMPLETE) \<and> f_ops s' = (if f_SR s = 0 then f_ops s + 1 else f_ops s)"
proof (cases "f_SR s = 0")
  case False
  then have "st \<noteq> FLASH_COMPLETE" "s' = s\<lparr>f_polls := 0\<rparr>"
    using r quiet_SR[OF q]
    by (auto simp: FLASH_ProgramHalfWord_def WaitForLastOperation_eq split: if_splits)
  then show ?thesis using q False by (simp add: quiet_bits)
next
  case True
  let ?cr = "((f_CR s AND CR_PSIZE_MASK) OR FLASH_PSIZE_HALF_WORD) OR FLASH_CR_PG"
  let ?bad = "c_faults c (f_ops s) AND fault_flags"
  let ?s1 = "s\<lparr>f_CR := ?cr, f_polls := c_polls c (f_ops s), f_ops := f_ops s + 1,
      f_cells := (if ?bad = 0 then (f_cells s)(a := f_cells s a AND d) else f_cells s), f_SR := ?bad\<rparr>"
  have b: "\<not> bit ?cr 31" "\<not> bit ?cr 16" "bit ?cr 0" "\<not> bit ?cr 1"
    using q by (simp_all add: quiet_bits cr_masks bit_simps)
  have st: "flash_store c a d (s\<lparr>f_CR := ?cr, f_polls := 0\<rparr>) = ?s1"
    using b(3) True by (simp add: flash_store_def flash_op_def flag_bits Let_def) (simp add: FLASH_CR_PG_def)
  have w1: "FLASH_WaitForLastOperation s = (FLASH_COMPLETE, s\<lparr>f_polls := 0\<rparr>)"
    using quiet_SR[OF q] True by (simp add: WaitForLastOperation_eq)
  have w2: "FLASH_WaitForLastOperation ?s1 = (sr_status (?bad AND NOT FLASH_FLAG_BSY), ?s1\<lparr>f_polls := 0\<rparr>)"
    by (simp add: WaitForLastOperation_eq)
  have c1: "cr_write c (f_CR s AND CR_PSIZE_MASK) (s\<lparr>f_polls := 0\<rparr>) = s\<lparr>f_CR := f_CR s AND CR_PSIZE_MASK, f_polls := 0\<rparr>"
    using q by (subst cr_write_plain) (simp_all add: quiet_bits bit_simps)
  have c2: "cr_write c ((f_CR s AND CR_PSIZE_MASK) OR FLASH_PSIZE_HALF_WORD) (s\<lparr>f_CR := f_CR s AND CR_PSIZE_MASK, f_polls := 0\<rparr>)
     = s\<lparr>f_CR := (f_CR s AND CR_PSIZE_MASK) OR FLASH_PSIZE_HALF_WORD, f_polls := 0\<rparr>"
    using q by (subst cr_write_plain) (simp_all add: quiet_bits bit_simps cr_masks)
  have c3: "cr_write c ?cr (s\<lparr>f_CR := (f_CR s AND CR_PSIZE_MASK) OR FLASH_PSIZE_HALF_WORD, f_polls := 0\<rparr>)
     = s\<lparr>f_CR := ?cr, f_polls := 0\<rparr>"
    using q b by (subst cr_write_plain) (simp_all add: quiet_bits bit_simps cr_masks)
  have c4: "cr_write c (?cr AND NOT FLASH_CR_PG) (?s1\<lparr>f_polls := 0\<rparr>) = ?s1\<lparr>f_CR := ?cr AND NOT FLASH_CR_PG, f_polls := 0\<rparr>"
    using b by (subst cr_write_plain) (simp_all add: bit_simps)
  have q1: "quiet (?s1\<lparr>f_CR := ?cr AND NOT FLASH_CR_PG, f_polls := 0\<rparr>)"
    using b by (simp add: quiet_bits bit_simps cr_masks and.assoc)
  have "FLASH_ProgramHalfWord c a d s
      = (sr_status (?bad AND NOT FLASH_FLAG_BSY), ?s1\<lparr>f_CR := ?cr AND NOT FLASH_CR_PG, f_polls := 0\<rparr>)"
    by (simp only: FLASH_ProgramHalfWord_def w1 prod.case if_True refl Let_def flash_sel c1 c2 c3 st w2 c4)
  then have e: "st = sr_status (?bad AND NOT FLASH_FLAG_BSY)" "s' = ?s1\<lparr>f_CR := ?cr AND NOT FLASH_CR_PG, f_polls := 0\<rparr>"
    using r by simp_all
  have "st = FLASH_COMPLETE \<longleftrightarrow> ?bad = 0" using quiet_SR[OF q1] e(1) by simp
  then show ?thesis using True q1 by (simp add: e(2))
qed

text \<open>The sectors of the EEPROM emulation.\<close>

definition eeprom_sector :: "u32 \<Rightarrow> bool" where
  "eeprom_sector sec \<longleftrightarrow> sec = FLASH_Sector_10 \<or> sec = FLASH_Sector_11"

definition sector_start :: "u32 \<Rightarrow> nat" where
  "sector_start sec = (if sec = FLASH_Sector_10 then 0x080C0000 else 0x080E0000)"

lemma sector_base_CR:
  assumes "eeprom_sector sec"
  shows "sector_base (((x AND SECTOR_MASK) OR (FLASH_CR_SER OR sec)) OR FLASH_CR_STRT) = sector_start sec"
proof -
  have "(((x AND SECTOR_MASK) OR (FLASH_CR_SER OR sec)) OR FLASH_CR_STRT) AND 0x78 = sec"
    using assms by (auto simp: eeprom_sector_def cr_masks bit.conj_disj_distrib2 and.assoc)
  then show ?thesis using assms
    by (auto simp: sector_base_def sector_start_def eeprom_sector_def cr_masks)
qed

text \<open>Erasing sets every bit of the sector, or fails and changes nothing.\<close>

lemma FLASH_EraseSector_spec:
  assumes q: "quiet s" and sec: "eeprom_sector sec" and r: "FLASH_EraseSector c sec s = (st, s')"
  shows "quiet s'
    \<and> (st = FLASH_COMPLETE \<longleftrightarrow> f_SR s = 0 \<and> c_faults c (f_ops s) AND fault_flags = 0)
    \<and> f_cells s' = (if st = FLASH_COMPLETE then erased (sector_start sec) (f_cells s) else f_cells s)
    \<and> (f_SR s' = 0 \<longleftrightarrow> st = FLASH_COMPLETE) \<and> f_ops s' = (if f_SR s = 0 then f_ops s + 1 else f_ops s)"
proof (cases "f_SR s = 0")
  case False
  then have "st \<noteq> FLASH_COMPLETE" "s' = s\<lparr>f_polls := 0\<rparr>"
    using r quiet_SR[OF q]
    by (auto simp: FLASH_EraseSector_def WaitForLastOperation_eq split: if_splits)
  then show ?thesis using q False by (simp add: quiet_bits)
next
  case True
  let ?c1 = "f_CR s AND CR_PSIZE_MASK"
  let ?c2 = "?c1 OR FLASH_PSIZE_WORD"
  let ?c3 = "?c2 AND SECTOR_MASK"
  let ?c4 = "?c3 OR (FLASH_CR_SER OR sec)"
  let ?bad = "c_faults c (f_ops s) AND fault_flags"
  let ?s1 = "s\<lparr>f_polls := c_polls c (f_ops s), f_ops := f_ops s + 1, f_SR := ?bad,
      f_cells := (if ?bad = 0 then erased (sector_start sec) (f_cells s) else f_cells s)\<rparr>"
  have secb: "\<not> bit sec 31" "\<not> bit sec 16" "\<not> bit sec 0"
    using sec by (auto simp: eeprom_sector_def cr_masks)
  have b: "\<not> bit ?c1 31" "\<not> bit ?c2 31" "\<not> bit ?c3 31" "\<not> bit ?c4 31"
      "\<not> bit ?c1 16" "\<not> bit ?c2 16" "\<not> bit ?c3 16" "\<not> bit ?c4 16"
      "\<not> bit ?c4 0" "bit ?c4 1"
    using q secb by (simp_all add: quiet_bits cr_masks bit_simps)
  have w1: "FLASH_WaitForLastOperation s = (FLASH_COMPLETE, s\<lparr>f_polls := 0\<rparr>)"
    using quiet_SR[OF q] True by (simp add: WaitForLastOperation_eq)
  have c1: "cr_write c ?c1 (s\<lparr>f_polls := 0\<rparr>) = s\<lparr>f_CR := ?c1, f_polls := 0\<rparr>"
    using q b by (subst cr_write_plain) (simp_all add: quiet_bits)
  have c2: "cr_write c ?c2 (s\<lparr>f_CR := ?c1, f_polls := 0\<rparr>) = s\<lparr>f_CR := ?c2, f_polls := 0\<rparr>"
    using b by (subst cr_write_plain) simp_all
  have c3: "cr_write c ?c3 (s\<lparr>f_CR := ?c2, f_polls := 0\<rparr>) = s\<lparr>f_CR := ?c3, f_polls := 0\<rparr>"
    using b by (subst cr_write_plain) simp_all
  have c4: "cr_write c ?c4 (s\<lparr>f_CR := ?c3, f_polls := 0\<rparr>) = s\<lparr>f_CR := ?c4, f_polls := 0\<rparr>"
    using b by (subst cr_write_plain) simp_all
  have c5: "cr_write c (?c4 OR FLASH_CR_STRT) (s\<lparr>f_CR := ?c4, f_polls := 0\<rparr>) = ?s1\<lparr>f_CR := (?c4 OR FLASH_CR_STRT) AND NOT FLASH_CR_STRT\<rparr>"
  proof -
    have "(?c4 OR FLASH_CR_STRT) AND FLASH_CR_STRT \<noteq> 0" "(?c4 OR FLASH_CR_STRT) AND FLASH_CR_SER \<noteq> 0"
      unfolding flag_bits using b by (simp_all add: bit_simps cr_masks)
    moreover have "?c4 AND FLASH_CR_LOCK = 0" unfolding flag_bits using b by simp
    ultimately show ?thesis using True
      by (simp add: cr_write_def flash_op_def Let_def sector_base_CR[OF sec])
  qed
  define c6 where "c6 = (?c4 OR FLASH_CR_STRT) AND NOT FLASH_CR_STRT"
  have b6: "\<not> bit c6 31" "\<not> bit c6 16" "\<not> bit c6 0" using b by (simp_all add: bit_simps cr_masks c6_def)
  have w2: "FLASH_WaitForLastOperation (?s1\<lparr>f_CR := c6\<rparr>) = (sr_status (?bad AND NOT FLASH_FLAG_BSY), ?s1\<lparr>f_CR := c6, f_polls := 0\<rparr>)"
    by (simp add: WaitForLastOperation_eq)
  have d6: "cr_write c (c6 AND NOT FLASH_CR_SER) (?s1\<lparr>f_CR := c6, f_polls := 0\<rparr>) = ?s1\<lparr>f_CR := c6 AND NOT FLASH_CR_SER, f_polls := 0\<rparr>"
    using b6 by (subst cr_write_plain) (simp_all add: bit_simps)
  have d7: "cr_write c ((c6 AND NOT FLASH_CR_SER) AND SECTOR_MASK) (?s1\<lparr>f_CR := c6 AND NOT FLASH_CR_SER, f_polls := 0\<rparr>)
     = ?s1\<lparr>f_CR := (c6 AND NOT FLASH_CR_SER) AND SECTOR_MASK, f_polls := 0\<rparr>"
    using b6 by (subst cr_write_plain) (simp_all add: bit_simps)
  let ?e = "?s1\<lparr>f_CR := (c6 AND NOT FLASH_CR_SER) AND SECTOR_MASK, f_polls := 0\<rparr>"
  have q1: "quiet ?e" using b6 by (simp add: quiet_bits bit_simps cr_masks and.assoc)
  have "FLASH_EraseSector c sec s = (sr_status (?bad AND NOT FLASH_FLAG_BSY), ?e)"
    by (simp only: FLASH_EraseSector_def w1 prod.case if_True refl Let_def flash_sel c1 c2 c3 c4 c5
        c6_def[symmetric] w2 d6 d7)
  then have e: "st = sr_status (?bad AND NOT FLASH_FLAG_BSY)" "s' = ?e"
    using r by simp_all
  have "st = FLASH_COMPLETE \<longleftrightarrow> ?bad = 0" using quiet_SR[OF q1] e(1) by simp
  then show ?thesis using True q1 by (simp add: e(2))
qed

text \<open>Unlocking an idle controller makes it quiet.\<close>

lemma FLASH_Unlock_quiet:
  assumes "f_CR s AND (FLASH_CR_PG OR FLASH_CR_SER OR FLASH_CR_STRT) = 0" "f_SR s AND NOT fault_flags = 0"
  shows "quiet (FLASH_Unlock s)" "f_cells (FLASH_Unlock s) = f_cells s" "f_SR (FLASH_Unlock s) = f_SR s"
proof -
  have u: "f_CR (FLASH_Unlock s) = f_CR s AND NOT FLASH_CR_LOCK"
  proof (cases "f_CR s AND FLASH_CR_LOCK = 0")
    case True
    have "f_CR s = (f_CR s AND FLASH_CR_LOCK) OR (f_CR s AND NOT FLASH_CR_LOCK)"
      by (simp flip: bit.conj_disj_distrib)
    then have "f_CR s AND NOT FLASH_CR_LOCK = f_CR s" unfolding True by simp
    then show ?thesis using True by (simp add: FLASH_Unlock_def)
  qed (simp add: FLASH_Unlock_def keyr_write_def FLASH_KEY1_def FLASH_KEY2_def)
  show "quiet (FLASH_Unlock s)"
    using assms unfolding bit.conj_disj_distrib or_eq_0_iff flag_bits quiet_bits u
    by (simp add: bit_simps cr_masks FLASH_Unlock_def keyr_write_def)
  show "f_cells (FLASH_Unlock s) = f_cells s" "f_SR (FLASH_Unlock s) = f_SR s"
    by (simp_all add: FLASH_Unlock_def keyr_write_def)
qed

lemma sr_status_idle: "sr_status (v AND NOT FLASH_FLAG_BSY) = FLASH_COMPLETE \<longleftrightarrow> v AND 0xFF = 0"
proof -
  let ?v = "v AND NOT FLASH_FLAG_BSY"
  have "?v AND 0xFF = v AND 0xFF" by (simp add: FLASH_FLAG_BSY_def and.assoc)
  moreover have "(0xFF :: u32) = FLASH_FLAG_WRPERR OR 0xEF" by (simp add: FLASH_FLAG_WRPERR_def)
  ultimately have "v AND 0xFF = (?v AND FLASH_FLAG_WRPERR) OR (?v AND 0xEF)"
    using bit.conj_disj_distrib[of ?v FLASH_FLAG_WRPERR "0xEF"] by metis
  then have "v AND 0xFF = 0 \<longleftrightarrow> ?v AND FLASH_FLAG_WRPERR = 0 \<and> ?v AND 0xEF = 0"
    by (simp only: or_eq_0_iff)
  moreover have "?v AND FLASH_FLAG_OPERR = (?v AND 0xEF) AND FLASH_FLAG_OPERR"
    by (simp add: FLASH_FLAG_OPERR_def and.assoc)
  ultimately show ?thesis by (auto simp: sr_status_def)
qed

end
