(* ===== verification/Eeprom.thy ===== *)
theory Eeprom
  imports Flash
begin

text \<open>
  The EEPROM emulation, \<^verbatim>\<open>Quad/Flash_driver/eeprom.cpp\<close> and \<^verbatim>\<open>Flash.cpp\<close>: 16-bit
  variables, each named by a virtual address, kept as a log of words in one of two
  flash pages. A write appends a word to the valid page, a read searches the page from
  its end. When a page is full the variables move to the other page.

  A function that stores through a pointer returns what it stored, \<open>None\<close> when it stores
  nothing. A page is the 32768 words from its base; the loops count words.
\<close>

section \<open>Constants\<close>

definition PAGE_WORDS :: nat where "PAGE_WORDS = 32768"
definition PAGE0_BASE_ADDRESS :: nat where "PAGE0_BASE_ADDRESS = 0x080C0000"
definition PAGE1_BASE_ADDRESS :: nat where "PAGE1_BASE_ADDRESS = 0x080E0000"
definition PAGE0 :: u16 where "PAGE0 = 0"
definition PAGE1 :: u16 where "PAGE1 = 1"
definition NO_VALID_PAGE :: u16 where "NO_VALID_PAGE = 0x00AB"
definition ERASED :: u16 where "ERASED = 0xFFFF"
definition RECEIVE_DATA :: u16 where "RECEIVE_DATA = 0xEEEE"
definition VALID_PAGE :: u16 where "VALID_PAGE = 0"
definition PAGE_FULL :: u16 where "PAGE_FULL = 0x80"
definition NB_OF_VAR :: nat where "NB_OF_VAR = 3"

definition VirtAddVarTab :: "u16 list" where
  "VirtAddVarTab = [0, 1, 2, 3, 4, 5, 6, 7, 8, 9, 10, 11, 12, 14, 16, 18, 20, 22, 24, 26, 28, 30, 32, 34,
     36, 38, 40, 42, 44, 46, 48, 50, 52, 54, 56, 58, 60, 62, 64, 66, 68, 70, 72, 74, 76, 78, 80, 82, 84, 86,
     88, 90, 92, 94, 96]"

text \<open>The numbers of the status values; the functions mix them with page statuses.\<close>

fun status_code :: "FLASH_Status \<Rightarrow> u16" where
  "status_code FLASH_BUSY = 1"
| "status_code FLASH_ERROR_PGS = 2"
| "status_code FLASH_ERROR_PGP = 3"
| "status_code FLASH_ERROR_PGA = 4"
| "status_code FLASH_ERROR_WRP = 5"
| "status_code FLASH_ERROR_PROGRAM = 6"
| "status_code FLASH_ERROR_OPERATION = 7"
| "status_code FLASH_COMPLETE = 8"

abbreviation COMPLETE :: u16 where "COMPLETE \<equiv> status_code FLASH_COMPLETE"

section \<open>Pages\<close>

definition page_base :: "u16 \<Rightarrow> nat" where
  "page_base p = PAGE0_BASE_ADDRESS + unat p * 0x20000"

definition EE_FindValidPage_write :: "flash \<Rightarrow> u16" where
  "EE_FindValidPage_write s =
     (let PageStatus0 = f_cells s PAGE0_BASE_ADDRESS; PageStatus1 = f_cells s PAGE1_BASE_ADDRESS
      in if PageStatus1 = VALID_PAGE then (if PageStatus0 = RECEIVE_DATA then PAGE0 else PAGE1)
         else if PageStatus0 = VALID_PAGE then (if PageStatus1 = RECEIVE_DATA then PAGE1 else PAGE0)
         else NO_VALID_PAGE)"

definition EE_FindValidPage_read :: "flash \<Rightarrow> u16" where
  "EE_FindValidPage_read s =
     (let PageStatus0 = f_cells s PAGE0_BASE_ADDRESS; PageStatus1 = f_cells s PAGE1_BASE_ADDRESS
      in if PageStatus0 = VALID_PAGE then PAGE0
         else if PageStatus1 = VALID_PAGE then PAGE1 else NO_VALID_PAGE)"

text \<open>The address of word \<open>j\<close> of the page at \<open>b\<close>.\<close>

definition slot :: "nat \<Rightarrow> nat \<Rightarrow> nat" where
  "slot b j = b + 4 * j"

section \<open>Reading\<close>

text \<open>The search from word \<open>j\<close> down to word 1.\<close>

fun read_loop :: "(nat \<Rightarrow> u16) \<Rightarrow> nat \<Rightarrow> u16 \<Rightarrow> nat \<Rightarrow> u16 \<times> u16 option" where
  "read_loop m b VirtAddress 0 = (1, None)"
| "read_loop m b VirtAddress (Suc j) =
     (if m (slot b (Suc j) + 2) = VirtAddress then (0, Some (m (slot b (Suc j))))
      else read_loop m b VirtAddress j)"

definition EE_ReadVariable :: "u16 \<Rightarrow> flash \<Rightarrow> u16 \<times> u16 option" where
  "EE_ReadVariable VirtAddress s =
     (let ValidPage = EE_FindValidPage_read s
      in if ValidPage = NO_VALID_PAGE then (NO_VALID_PAGE, None)
         else read_loop (f_cells s) (page_base ValidPage) VirtAddress (PAGE_WORDS - 1))"

section \<open>Writing\<close>

definition slot_free :: "(nat \<Rightarrow> u16) \<Rightarrow> nat \<Rightarrow> nat \<Rightarrow> bool" where
  "slot_free m b j \<longleftrightarrow> m (slot b j) = 0xFFFF \<and> m (slot b j + 2) = 0xFFFF"

text \<open>The first free word from word \<open>j\<close> on, among \<open>n\<close> words.\<close>

fun write_scan :: "(nat \<Rightarrow> u16) \<Rightarrow> nat \<Rightarrow> nat \<Rightarrow> nat \<Rightarrow> nat option" where
  "write_scan m b j 0 = None"
| "write_scan m b j (Suc n) = (if slot_free m b j then Some j else write_scan m b (Suc j) n)"

definition EE_VerifyPageFullWriteVariable :: "controller \<Rightarrow> u16 \<Rightarrow> u16 \<Rightarrow> flash \<Rightarrow> u16 \<times> flash" where
  "EE_VerifyPageFullWriteVariable c VirtAddress Data s =
     (let ValidPage = EE_FindValidPage_write s; b = page_base ValidPage
      in if ValidPage = NO_VALID_PAGE then (NO_VALID_PAGE, s)
         else case write_scan (f_cells s) b 0 PAGE_WORDS of
                None \<Rightarrow> (PAGE_FULL, s)
              | Some j \<Rightarrow>
                  (case FLASH_ProgramHalfWord c (slot b j) Data s of (FlashStatus, s) \<Rightarrow>
                     if FlashStatus \<noteq> FLASH_COMPLETE then (status_code FlashStatus, s)
                     else case FLASH_ProgramHalfWord c (slot b j + 2) VirtAddress s of
                            (FlashStatus, s) \<Rightarrow> (status_code FlashStatus, s)))"

text \<open>
  The loop of \<^verbatim>\<open>EE_PageTransfer\<close>: the variables of the table but the one just written.
  \<open>DataVar\<close> is the global the values pass through.
\<close>

fun transfer_loop :: "controller \<Rightarrow> u16 \<Rightarrow> u16 list \<Rightarrow> u16 \<times> flash \<Rightarrow> u16 option \<times> u16 \<times> flash" where
  "transfer_loop c VirtAddress [] (DataVar, s) = (None, DataVar, s)"
| "transfer_loop c VirtAddress (v # vs) (DataVar, s) =
     (if v \<noteq> VirtAddress then
        (case EE_ReadVariable v s of (ReadStatus, d) \<Rightarrow>
           let DataVar = (case d of None \<Rightarrow> DataVar | Some x \<Rightarrow> x) in
           if ReadStatus \<noteq> 1 then
             (case EE_VerifyPageFullWriteVariable c v DataVar s of (EepromStatus, s) \<Rightarrow>
                if EepromStatus \<noteq> COMPLETE then (Some EepromStatus, DataVar, s)
                else transfer_loop c VirtAddress vs (DataVar, s))
           else transfer_loop c VirtAddress vs (DataVar, s))
      else transfer_loop c VirtAddress vs (DataVar, s))"

definition EE_PageTransfer :: "controller \<Rightarrow> u16 \<Rightarrow> u16 \<Rightarrow> u16 \<times> flash \<Rightarrow> u16 \<times> u16 \<times> flash" where
  "EE_PageTransfer c VirtAddress Data ds = (case ds of (DataVar, s) \<Rightarrow>
     (let ValidPage = EE_FindValidPage_read s
      in if ValidPage \<noteq> PAGE1 \<and> ValidPage \<noteq> PAGE0 then (NO_VALID_PAGE, DataVar, s)
         else
           (let NewPageAddress = (if ValidPage = PAGE1 then PAGE0_BASE_ADDRESS else PAGE1_BASE_ADDRESS);
                OldPageId = (if ValidPage = PAGE1 then FLASH_Sector_11 else FLASH_Sector_10)
            in case FLASH_ProgramHalfWord c NewPageAddress RECEIVE_DATA s of (FlashStatus, s) \<Rightarrow>
               if FlashStatus \<noteq> FLASH_COMPLETE then (status_code FlashStatus, DataVar, s)
               else case EE_VerifyPageFullWriteVariable c VirtAddress Data s of (EepromStatus, s) \<Rightarrow>
               if EepromStatus \<noteq> COMPLETE then (EepromStatus, DataVar, s)
               else case transfer_loop c VirtAddress (take NB_OF_VAR VirtAddVarTab) (DataVar, s) of
                 (Some EepromStatus, DataVar, s) \<Rightarrow> (EepromStatus, DataVar, s)
               | (None, DataVar, s) \<Rightarrow>
               case FLASH_EraseSector c OldPageId s of (FlashStatus, s) \<Rightarrow>
               if FlashStatus \<noteq> FLASH_COMPLETE then (status_code FlashStatus, DataVar, s)
               else case FLASH_ProgramHalfWord c NewPageAddress VALID_PAGE s of (FlashStatus, s) \<Rightarrow>
                 (status_code FlashStatus, DataVar, s))))"

definition EE_WriteVariable :: "controller \<Rightarrow> u16 \<Rightarrow> u16 \<Rightarrow> u16 \<times> flash \<Rightarrow> u16 \<times> u16 \<times> flash" where
  "EE_WriteVariable c VirtAddress Data ds = (case ds of (DataVar, s) \<Rightarrow>
     case EE_VerifyPageFullWriteVariable c VirtAddress Data s of (Status, s) \<Rightarrow>
       if Status = PAGE_FULL then EE_PageTransfer c VirtAddress Data (DataVar, s)
       else (Status, DataVar, s))"

section \<open>Start up\<close>

definition EE_Format :: "controller \<Rightarrow> flash \<Rightarrow> FLASH_Status \<times> flash" where
  "EE_Format c s =
     (case FLASH_EraseSector c FLASH_Sector_10 s of (FlashStatus, s) \<Rightarrow>
        if FlashStatus \<noteq> FLASH_COMPLETE then (FlashStatus, s)
        else case FLASH_ProgramHalfWord c PAGE0_BASE_ADDRESS VALID_PAGE s of (FlashStatus, s) \<Rightarrow>
          if FlashStatus \<noteq> FLASH_COMPLETE then (FlashStatus, s)
          else FLASH_EraseSector c FLASH_Sector_11 s)"

text \<open>
  The copy loop of \<^verbatim>\<open>EE_Init\<close>; \<open>p\<close> is the base of the page that receives, \<open>i\<close> the
  index of the head of the list and \<open>x\<close> the index of the variable found first in that page.
\<close>

fun init_loop :: "controller \<Rightarrow> nat \<Rightarrow> nat \<Rightarrow> int \<Rightarrow> u16 list \<Rightarrow> u16 \<times> flash \<Rightarrow> u16 option \<times> u16 \<times> flash" where
  "init_loop c p i x [] (DataVar, s) = (None, DataVar, s)"
| "init_loop c p i x (v # vs) (DataVar, s) =
     (let x = (if f_cells s (p + 6) = v then int i else x)
      in if int i \<noteq> x then
           (case EE_ReadVariable v s of (ReadStatus, d) \<Rightarrow>
              let DataVar = (case d of None \<Rightarrow> DataVar | Some y \<Rightarrow> y) in
              if ReadStatus \<noteq> 1 then
                (case EE_VerifyPageFullWriteVariable c v DataVar s of (EepromStatus, s) \<Rightarrow>
                   if EepromStatus \<noteq> COMPLETE then (Some EepromStatus, DataVar, s)
                   else init_loop c p (Suc i) x vs (DataVar, s))
              else init_loop c p (Suc i) x vs (DataVar, s))
         else init_loop c p (Suc i) x vs (DataVar, s))"

text \<open>The page that received data becomes the valid one: the end of both recoveries.\<close>

definition init_recover :: "controller \<Rightarrow> nat \<Rightarrow> u32 \<Rightarrow> u16 \<times> flash \<Rightarrow> u16 \<times> u16 \<times> flash" where
  "init_recover c p old ds =
     (case init_loop c p 0 (- 1) (take NB_OF_VAR VirtAddVarTab) ds of
        (Some EepromStatus, DataVar, s) \<Rightarrow> (EepromStatus, DataVar, s)
      | (None, DataVar, s) \<Rightarrow>
          (case FLASH_ProgramHalfWord c p VALID_PAGE s of (FlashStatus, s) \<Rightarrow>
             if FlashStatus \<noteq> FLASH_COMPLETE then (status_code FlashStatus, DataVar, s)
             else case FLASH_EraseSector c old s of (FlashStatus, s) \<Rightarrow>
               (status_code FlashStatus, DataVar, s)))"

definition init_erase :: "controller \<Rightarrow> u32 \<Rightarrow> u16 \<times> flash \<Rightarrow> u16 \<times> u16 \<times> flash" where
  "init_erase c sec ds = (case ds of (DataVar, s) \<Rightarrow>
     case FLASH_EraseSector c sec s of (st, s) \<Rightarrow> (status_code st, DataVar, s))"

definition init_format :: "controller \<Rightarrow> u16 \<times> flash \<Rightarrow> u16 \<times> u16 \<times> flash" where
  "init_format c ds = (case ds of (DataVar, s) \<Rightarrow>
     case EE_Format c s of (st, s) \<Rightarrow> (status_code st, DataVar, s))"

definition init_promote :: "controller \<Rightarrow> u32 \<Rightarrow> nat \<Rightarrow> u16 \<times> flash \<Rightarrow> u16 \<times> u16 \<times> flash" where
  "init_promote c old p ds = (case ds of (DataVar, s) \<Rightarrow>
     case FLASH_EraseSector c old s of (FlashStatus, s) \<Rightarrow>
       if FlashStatus \<noteq> FLASH_COMPLETE then (status_code FlashStatus, DataVar, s)
       else case FLASH_ProgramHalfWord c p VALID_PAGE s of (FlashStatus, s) \<Rightarrow>
         (status_code FlashStatus, DataVar, s))"

definition EE_Init :: "controller \<Rightarrow> u16 \<times> flash \<Rightarrow> u16 \<times> u16 \<times> flash" where
  "EE_Init c ds =
     (let PageStatus0 = f_cells (snd ds) PAGE0_BASE_ADDRESS; PageStatus1 = f_cells (snd ds) PAGE1_BASE_ADDRESS
      in if PageStatus0 = ERASED then
           (if PageStatus1 = VALID_PAGE then init_erase c FLASH_Sector_10 ds
            else if PageStatus1 = RECEIVE_DATA then init_promote c FLASH_Sector_10 PAGE1_BASE_ADDRESS ds
            else init_format c ds)
         else if PageStatus0 = RECEIVE_DATA then
           (if PageStatus1 = VALID_PAGE then init_recover c PAGE0_BASE_ADDRESS FLASH_Sector_11 ds
            else if PageStatus1 = ERASED then init_promote c FLASH_Sector_11 PAGE0_BASE_ADDRESS ds
            else init_format c ds)
         else if PageStatus0 = VALID_PAGE then
           (if PageStatus1 = VALID_PAGE then init_format c ds
            else if PageStatus1 = ERASED then init_erase c FLASH_Sector_11 ds
            else init_recover c PAGE1_BASE_ADDRESS FLASH_Sector_10 ds)
         else init_format c ds)"

section \<open>Floats\<close>

text \<open>A float is its 32-bit pattern; the low half is kept under the first address.\<close>

definition EE_write_Float :: "controller \<Rightarrow> u16 \<Rightarrow> u16 \<Rightarrow> u32 \<Rightarrow> u16 \<times> flash \<Rightarrow> u16 \<times> u16 \<times> flash" where
  "EE_write_Float c VirtAddress1 VirtAddress2 Data ds =
     (case EE_WriteVariable c VirtAddress1 (ucast Data) ds of (res1, ds) \<Rightarrow>
        case EE_WriteVariable c VirtAddress2 (ucast (drop_bit 16 Data)) ds of (res2, ds) \<Rightarrow>
          (if res1 = COMPLETE \<and> res2 = COMPLETE then COMPLETE else status_code FLASH_ERROR_OPERATION, ds))"

text \<open>\<open>l\<close> and \<open>h\<close>: what the two uninitialised locals hold when a variable is not found.\<close>

definition EE_read_Float :: "u16 \<Rightarrow> u16 \<Rightarrow> u16 \<Rightarrow> u16 \<Rightarrow> flash \<Rightarrow> u32" where
  "EE_read_Float l h VirtAddress1 VirtAddress2 s =
     (let Data_L = (case snd (EE_ReadVariable VirtAddress1 s) of None \<Rightarrow> l | Some x \<Rightarrow> x);
          Data_H = (case snd (EE_ReadVariable VirtAddress2 s) of None \<Rightarrow> h | Some x \<Rightarrow> x)
      in push_bit 16 (ucast Data_H) OR ucast Data_L)"

definition eeprom_data_structure_version :: u16 where "eeprom_data_structure_version = 3"

text \<open>\<^verbatim>\<open>setup_FLASH\<close>; \<open>g\<close> is what the uninitialised local holds.\<close>

definition setup_FLASH :: "controller \<Rightarrow> u16 \<Rightarrow> u16 \<times> flash \<Rightarrow> u16 \<times> flash" where
  "setup_FLASH c g ds = (case ds of (DataVar, s) \<Rightarrow>
     case EE_Init c (DataVar, FLASH_Unlock s) of (_, DataVar, s) \<Rightarrow>
       let v = (case snd (EE_ReadVariable (VirtAddVarTab ! 0) s) of None \<Rightarrow> g | Some x \<Rightarrow> x)
       in if v \<noteq> eeprom_data_structure_version
          then snd (EE_WriteVariable c (VirtAddVarTab ! 0) eeprom_data_structure_version (DataVar, snd (EE_Format c s)))
          else (DataVar, s))"

section \<open>The log of a page\<close>

text \<open>Words 1 to \<open>n\<close> of the page at \<open>b\<close> are written, the rest is free.\<close>

definition page_log :: "(nat \<Rightarrow> u16) \<Rightarrow> nat \<Rightarrow> nat \<Rightarrow> bool" where
  "page_log m b n \<longleftrightarrow> n < PAGE_WORDS \<and> (\<forall>j \<le> n. \<not> slot_free m b j)
     \<and> (\<forall>j. n < j \<and> j < PAGE_WORDS \<longrightarrow> slot_free m b j)"

lemma write_scan_Some:
  "write_scan m b j k = Some i \<longleftrightarrow>
     j \<le> i \<and> i < j + k \<and> slot_free m b i \<and> (\<forall>l. j \<le> l \<and> l < i \<longrightarrow> \<not> slot_free m b l)"
proof (induction k arbitrary: j)
  case (Suc k)
  then show ?case
    by (auto simp: Suc_le_eq) (metis le_less_Suc_eq less_Suc_eq_le not_less_eq order_le_less)+
qed simp

lemma write_scan_None: "write_scan m b j k = None \<longleftrightarrow> (\<forall>l. j \<le> l \<and> l < j + k \<longrightarrow> \<not> slot_free m b l)"
proof (induction k arbitrary: j)
  case (Suc k)
  then show ?case
    by (auto simp: Suc_le_eq) (metis le_less_Suc_eq less_Suc_eq_le not_less_eq order_le_less)+
qed auto

lemma write_scan_log:
  assumes "page_log m b n"
  shows "write_scan m b 0 PAGE_WORDS = (if n + 1 < PAGE_WORDS then Some (n + 1) else None)"
proof (cases "n + 1 < PAGE_WORDS")
  case True
  then have "write_scan m b 0 PAGE_WORDS = Some (n + 1)"
    unfolding write_scan_Some using assms by (auto simp: page_log_def)
  then show ?thesis using True by simp
next
  case False
  then have "write_scan m b 0 PAGE_WORDS = None"
    unfolding write_scan_None using assms by (auto simp: page_log_def)
  then show ?thesis using False by simp
qed

lemma read_loop_cong:
  assumes "\<And>j. 0 < j \<Longrightarrow> j \<le> k \<Longrightarrow>
     m (slot b j + 2) = m' (slot b j + 2) \<and> (m (slot b j + 2) = v \<longrightarrow> m (slot b j) = m' (slot b j))"
  shows "read_loop m b v k = read_loop m' b v k"
  using assms
proof (induction k)
  case (Suc k)
  from Suc.prems[of "Suc k"] Suc show ?case by simp
qed simp

lemma read_loop_free:
  assumes "n \<le> k" "v \<noteq> 0xFFFF" "\<And>j. n < j \<Longrightarrow> j \<le> k \<Longrightarrow> slot_free m b j"
  shows "read_loop m b v k = read_loop m b v n"
  using assms
proof (induction k)
  case (Suc k)
  show ?case
  proof (cases "n = Suc k")
    case False
    then have "n \<le> k" "slot_free m b (Suc k)" using Suc.prems by auto
    then show ?thesis using Suc by (simp add: slot_free_def)
  qed simp
qed simp

lemma read_loop_log:
  "page_log m b n \<Longrightarrow> v \<noteq> 0xFFFF \<Longrightarrow> read_loop m b v (PAGE_WORDS - 1) = read_loop m b v n"
  by (rule read_loop_free) (auto simp: page_log_def)

lemma read_loop_status: "fst (read_loop m b v k) = (if snd (read_loop m b v k) = None then 1 else 0)"
  by (induction k) auto

text \<open>Appending a word.\<close>

definition append_word :: "(nat \<Rightarrow> u16) \<Rightarrow> nat \<Rightarrow> nat \<Rightarrow> u16 \<Rightarrow> u16 \<Rightarrow> nat \<Rightarrow> u16" where
  "append_word m b n v d = m(slot b n := d, slot b n + 2 := v)"

lemma append_word_other: "j \<noteq> n \<Longrightarrow> append_word m b n v d (slot b j) = m (slot b j)
    \<and> append_word m b n v d (slot b j + 2) = m (slot b j + 2)"
  by (auto simp: append_word_def slot_def; presburger)

lemma append_word_new: "append_word m b n v d (slot b n) = d \<and> append_word m b n v d (slot b n + 2) = v"
  by (simp add: append_word_def)

lemma page_log_append:
  assumes "page_log m b n" "n + 1 < PAGE_WORDS" "v \<noteq> 0xFFFF"
  shows "page_log (append_word m b (n + 1) v d) b (n + 1)"
proof -
  have o: "slot_free (append_word m b (n + 1) v d) b j \<longleftrightarrow> slot_free m b j" if "j \<noteq> n + 1" for j
    using append_word_other[OF that, of m b v d] by (simp add: slot_free_def)
  have w: "\<not> slot_free (append_word m b (n + 1) v d) b (n + 1)"
    using append_word_new[of m b "n + 1" v d] assms(3) by (simp add: slot_free_def)
  show ?thesis using assms o w unfolding page_log_def
    by (metis Suc_eq_plus1 le_Suc_eq less_Suc_eq_le not_less_eq_eq not_le)
qed

lemma read_append:
  assumes "page_log m b n" "n + 1 < PAGE_WORDS" "v \<noteq> 0xFFFF" "w \<noteq> 0xFFFF"
  shows "read_loop (append_word m b (n + 1) v d) b w (PAGE_WORDS - 1) =
     (if w = v then (0, Some d) else read_loop m b w (PAGE_WORDS - 1))"
proof -
  have c: "read_loop (append_word m b (n + 1) v d) b w n = read_loop m b w n"
    by (rule read_loop_cong) (use append_word_other in auto)
  show ?thesis
    unfolding read_loop_log[OF page_log_append[OF assms(1-3)] assms(4)] read_loop_log[OF assms(1,4)]
    using c append_word_new[of m b "n + 1" v d] by simp
qed

section \<open>The write routine\<close>

text \<open>The state the driver is in between two operations that have all succeeded.\<close>

definition ready_fl :: "flash \<Rightarrow> bool" where
  "ready_fl s \<longleftrightarrow> quiet s \<and> f_SR s = 0"

definition no_fault :: "controller \<Rightarrow> nat \<Rightarrow> bool" where
  "no_fault c k \<longleftrightarrow> c_faults c k AND fault_flags = 0"

lemma status_code_complete [simp]: "status_code st = 8 \<longleftrightarrow> st = FLASH_COMPLETE"
  "status_code st \<noteq> PAGE_FULL" "status_code st \<noteq> NO_VALID_PAGE"
  by (cases st; simp add: PAGE_FULL_def NO_VALID_PAGE_def)+

lemma page_codes [simp]: "PAGE_FULL \<noteq> 8" "NO_VALID_PAGE \<noteq> 8" "PAGE_FULL \<noteq> NO_VALID_PAGE" "NO_VALID_PAGE \<noteq> PAGE_FULL"
  by (simp_all add: PAGE_FULL_def NO_VALID_PAGE_def)

lemma ones: "(0xFFFF :: u16) AND x = x"
proof -
  have "(0xFFFF :: u16) = - 1" by simp
  then show ?thesis by (simp only: and.left_neutral)
qed

lemma EE_Verify_spec:
  assumes r: "ready_fl s" and p: "EE_FindValidPage_write s = p" "p \<noteq> NO_VALID_PAGE"
    and l: "page_log (f_cells s) (page_base p) n"
    and e: "EE_VerifyPageFullWriteVariable c v d s = (st, s')"
  shows "n + 1 = PAGE_WORDS \<Longrightarrow> st = PAGE_FULL \<and> s' = s"
    and "n + 1 < PAGE_WORDS \<Longrightarrow> st \<noteq> PAGE_FULL \<and> st \<noteq> NO_VALID_PAGE \<and> quiet s'
       \<and> (st = COMPLETE \<longrightarrow> ready_fl s' \<and> f_cells s' = append_word (f_cells s) (page_base p) (n + 1) v d
             \<and> f_ops s' = f_ops s + 2)
       \<and> (st \<noteq> COMPLETE \<longrightarrow> f_SR s' \<noteq> 0
             \<and> (f_cells s' = f_cells s \<or> f_cells s' = (f_cells s)(slot (page_base p) (n + 1) := d)))
       \<and> (no_fault c (f_ops s) \<and> no_fault c (f_ops s + 1) \<longrightarrow> st = COMPLETE)"
proof -
  assume "n + 1 = PAGE_WORDS"
  then show "st = PAGE_FULL \<and> s' = s"
    using e p write_scan_log[OF l] by (simp add: EE_VerifyPageFullWriteVariable_def Let_def)
next
  assume n: "n + 1 < PAGE_WORDS"
  let ?b = "page_base p" and ?j = "n + 1"
  have free: "f_cells s (slot ?b ?j) = 0xFFFF" "f_cells s (slot ?b ?j + 2) = 0xFFFF"
    using l n by (auto simp: page_log_def slot_free_def)
  have ws: "write_scan (f_cells s) ?b 0 PAGE_WORDS = Some ?j" using write_scan_log[OF l] n by simp
  obtain st1 s1 where p1: "FLASH_ProgramHalfWord c (slot ?b ?j) d s = (st1, s1)" by fastforce
  obtain st2 s2 where p2: "FLASH_ProgramHalfWord c (slot ?b ?j + 2) v s1 = (st2, s2)" by fastforce
  have q: "quiet s" "f_SR s = 0" using r by (simp_all add: ready_fl_def)
  note c1 = FLASH_ProgramHalfWord_spec[OF q(1) p1]
  then have q1: "quiet s1" by simp
  note c2 = FLASH_ProgramHalfWord_spec[OF q1 p2]
  show "st \<noteq> PAGE_FULL \<and> st \<noteq> NO_VALID_PAGE \<and> quiet s'
       \<and> (st = COMPLETE \<longrightarrow> ready_fl s' \<and> f_cells s' = append_word (f_cells s) (page_base p) (n + 1) v d
             \<and> f_ops s' = f_ops s + 2)
       \<and> (st \<noteq> COMPLETE \<longrightarrow> f_SR s' \<noteq> 0
             \<and> (f_cells s' = f_cells s \<or> f_cells s' = (f_cells s)(slot (page_base p) (n + 1) := d)))
       \<and> (no_fault c (f_ops s) \<and> no_fault c (f_ops s + 1) \<longrightarrow> st = COMPLETE)"
  proof (cases "st1 = FLASH_COMPLETE")
    case False
    then have "st = status_code st1" "s' = s1"
      using e p ws p1 by (simp_all add: EE_VerifyPageFullWriteVariable_def Let_def)
    then show ?thesis using False c1 q by (simp add: no_fault_def)
  next
    case True
    then have st: "st = status_code st2" "s' = s2"
      using e p ws p1 p2 by (simp_all add: EE_VerifyPageFullWriteVariable_def Let_def)
    have m1: "f_cells s1 = (f_cells s)(slot ?b ?j := d)" using c1 True free(1) by (simp add: ones)
    have m2: "f_cells s2 = (if st2 = FLASH_COMPLETE then append_word (f_cells s) ?b ?j v d else f_cells s1)"
      using c2 free(2) by (auto simp: m1 append_word_def ones)
    show ?thesis using c1 c2 True q by (simp add: st m1 m2 no_fault_def ready_fl_def)
  qed
qed

section \<open>The store\<close>

definition other_page :: "nat \<Rightarrow> nat" where
  "other_page b = (if b = PAGE0_BASE_ADDRESS then PAGE1_BASE_ADDRESS else PAGE0_BASE_ADDRESS)"

text \<open>
  Page \<open>b\<close> is the valid one, its words 1 to \<open>n\<close> are written, the other page is erased, and
  no flash operation has failed.
\<close>

definition ee_ok :: "flash \<Rightarrow> nat \<Rightarrow> nat \<Rightarrow> bool" where
  "ee_ok s b n \<longleftrightarrow> ready_fl s \<and> (b = PAGE0_BASE_ADDRESS \<or> b = PAGE1_BASE_ADDRESS)
     \<and> f_cells s b = VALID_PAGE \<and> page_log (f_cells s) b n
     \<and> (\<forall>j < PAGE_WORDS. slot_free (f_cells s) (other_page b) j)"

definition page_id :: "nat \<Rightarrow> u16" where
  "page_id b = (if b = PAGE0_BASE_ADDRESS then PAGE0 else PAGE1)"

lemma page_base_simps [simp]: "page_base PAGE0 = PAGE0_BASE_ADDRESS" "page_base PAGE1 = PAGE1_BASE_ADDRESS"
  by (simp_all add: page_base_def PAGE0_def PAGE1_def PAGE0_BASE_ADDRESS_def PAGE1_BASE_ADDRESS_def)

lemma page_id_ok:
  assumes "b = PAGE0_BASE_ADDRESS \<or> b = PAGE1_BASE_ADDRESS"
  shows "page_base (page_id b) = b" "page_id b \<noteq> NO_VALID_PAGE"
proof -
  show "page_base (page_id b) = b" using assms by (auto simp: page_id_def)
  show "page_id b \<noteq> NO_VALID_PAGE" by (simp add: page_id_def PAGE0_def PAGE1_def NO_VALID_PAGE_def)
qed

lemma pages_differ [simp]: "PAGE0_BASE_ADDRESS \<noteq> PAGE1_BASE_ADDRESS" "PAGE1_BASE_ADDRESS \<noteq> PAGE0_BASE_ADDRESS"
  by (simp_all add: PAGE0_BASE_ADDRESS_def PAGE1_BASE_ADDRESS_def)

lemma page_states [simp]: "ERASED \<noteq> VALID_PAGE" "ERASED \<noteq> RECEIVE_DATA" "VALID_PAGE \<noteq> RECEIVE_DATA"
  "VALID_PAGE \<noteq> ERASED" "RECEIVE_DATA \<noteq> ERASED" "RECEIVE_DATA \<noteq> VALID_PAGE"
  by (simp_all add: ERASED_def VALID_PAGE_def RECEIVE_DATA_def)

text \<open>The words of a page keep away from the other page and from the status word.\<close>

lemma slot_status:
  assumes "0 < j" "j < PAGE_WORDS" "b = PAGE0_BASE_ADDRESS \<or> b = PAGE1_BASE_ADDRESS"
  shows "slot b j \<noteq> PAGE0_BASE_ADDRESS" "slot b j \<noteq> PAGE1_BASE_ADDRESS"
    "slot b j + 2 \<noteq> PAGE0_BASE_ADDRESS" "slot b j + 2 \<noteq> PAGE1_BASE_ADDRESS"
  using assms by (auto simp: slot_def PAGE0_BASE_ADDRESS_def PAGE1_BASE_ADDRESS_def PAGE_WORDS_def; presburger)+

lemma slot_other:
  assumes "i < PAGE_WORDS" "j < PAGE_WORDS" "b = PAGE0_BASE_ADDRESS \<or> b = PAGE1_BASE_ADDRESS"
  shows "slot b i \<noteq> slot (other_page b) j" "slot b i \<noteq> slot (other_page b) j + 2"
    "slot b i + 2 \<noteq> slot (other_page b) j" "slot b i + 2 \<noteq> slot (other_page b) j + 2"
  using assms by (auto simp: slot_def other_page_def PAGE0_BASE_ADDRESS_def PAGE1_BASE_ADDRESS_def PAGE_WORDS_def;
    presburger)+

lemma append_status:
  assumes "0 < j" "j < PAGE_WORDS" "b = PAGE0_BASE_ADDRESS \<or> b = PAGE1_BASE_ADDRESS"
  shows "append_word m b j v d PAGE0_BASE_ADDRESS = m PAGE0_BASE_ADDRESS"
    "append_word m b j v d PAGE1_BASE_ADDRESS = m PAGE1_BASE_ADDRESS"
  using slot_status[OF assms] by (auto simp: append_word_def)

lemma slot_0_free: "slot_free m b 0 \<Longrightarrow> m b = ERASED"
  by (simp add: slot_free_def slot_def ERASED_def)

lemma ee_ok_pages:
  assumes "ee_ok s b n"
  shows "EE_FindValidPage_write s = page_id b" "EE_FindValidPage_read s = page_id b"
proof -
  have "f_cells s (other_page b) = ERASED"
    using assms slot_0_free by (auto simp: ee_ok_def PAGE_WORDS_def)
  then show "EE_FindValidPage_write s = page_id b" "EE_FindValidPage_read s = page_id b"
    using assms by (auto simp: ee_ok_def EE_FindValidPage_write_def EE_FindValidPage_read_def
        other_page_def page_id_def Let_def split: if_splits)
qed

lemma EE_Read_ok:
  assumes "ee_ok s b n"
  shows "EE_ReadVariable v s = read_loop (f_cells s) b v (PAGE_WORDS - 1)"
  using ee_ok_pages[OF assms] page_id_ok[of b] assms
  by (simp add: EE_ReadVariable_def ee_ok_def Let_def)

lemma EE_Write_ok:
  assumes ok: "ee_ok s b n" and n: "n + 1 < PAGE_WORDS" and v: "v \<noteq> 0xFFFF"
    and e: "EE_WriteVariable c v d (dv, s) = (st, dv', s')"
  shows "dv' = dv \<and> (st = COMPLETE \<longrightarrow> ee_ok s' b (n + 1))
    \<and> (\<forall>w. w \<noteq> 0xFFFF \<longrightarrow> EE_ReadVariable w s' =
         (if w = v \<and> st = COMPLETE then (0, Some d) else EE_ReadVariable w s))
    \<and> (no_fault c (f_ops s) \<and> no_fault c (f_ops s + 1) \<longrightarrow> st = COMPLETE \<and> f_ops s' = f_ops s + 2)"
proof -
  note o = ok[unfolded ee_ok_def]
  note pid = page_id_ok[of b] ee_ok_pages[OF ok]
  obtain st1 s1 where e1: "EE_VerifyPageFullWriteVariable c v d s = (st1, s1)" by fastforce
  have l: "page_log (f_cells s) (page_base (page_id b)) n" using o pid by auto
  note sp = EE_Verify_spec(2)[OF _ pid(3) _ l e1 n]
  have sp': "st1 \<noteq> PAGE_FULL" "quiet s1"
    "st1 = COMPLETE \<Longrightarrow> ready_fl s1 \<and> f_cells s1 = append_word (f_cells s) b (n + 1) v d \<and> f_ops s1 = f_ops s + 2"
    "st1 \<noteq> COMPLETE \<Longrightarrow> f_cells s1 = f_cells s \<or> f_cells s1 = (f_cells s)(slot b (n + 1) := d)"
    "no_fault c (f_ops s) \<and> no_fault c (f_ops s + 1) \<Longrightarrow> st1 = COMPLETE"
    using sp o pid by auto
  then have st: "st = st1" "s' = s1" "dv' = dv" using e e1 by (simp_all add: EE_WriteVariable_def)
  have b: "b = PAGE0_BASE_ADDRESS \<or> b = PAGE1_BASE_ADDRESS" using o by simp
  show ?thesis
  proof (cases "st1 = COMPLETE")
    case True
    note f = sp'(3)[OF True]
    have "ee_ok s1 b (n + 1)"
      unfolding ee_ok_def
    proof (intro conjI allI impI)
      show "page_log (f_cells s1) b (n + 1)" using page_log_append[OF _ n v] o f by simp
      show "f_cells s1 b = VALID_PAGE" using append_status[OF _ n b, of "f_cells s" v d] o f by auto
      fix j assume "j < PAGE_WORDS"
      then show "slot_free (f_cells s1) (other_page b) j"
        using slot_other[OF n _ b, of j] o f by (auto simp: slot_free_def append_word_def)
    qed (use f b in auto)
    then show ?thesis
      using True f read_append[OF _ n v, of "f_cells s" b _ d] o
      by (auto simp: st EE_Read_ok[OF ok] EE_Read_ok[of s1 b "n + 1"])
  next
    case False
    have same: "f_cells s1 PAGE0_BASE_ADDRESS = f_cells s PAGE0_BASE_ADDRESS" "f_cells s1 PAGE1_BASE_ADDRESS = f_cells s PAGE1_BASE_ADDRESS"
      using sp'(4)[OF False] slot_status[OF _ n b] by auto
    have free: "f_cells s (slot b (n + 1) + 2) = 0xFFFF" using o n by (simp add: page_log_def slot_free_def)
    have "EE_ReadVariable w s1 = EE_ReadVariable w s" if "w \<noteq> 0xFFFF" for w
    proof -
      have "EE_FindValidPage_read s1 = page_id b" using pid same by (simp add: EE_FindValidPage_read_def)
      then have "EE_ReadVariable w s1 = read_loop (f_cells s1) b w (PAGE_WORDS - 1)"
        using pid b by (simp add: EE_ReadVariable_def Let_def)
      also have "\<dots> = read_loop (f_cells s) b w (PAGE_WORDS - 1)"
      proof (rule read_loop_cong)
        fix j
        have "slot b j + 2 \<noteq> slot b (n + 1)" by (simp add: slot_def; presburger)
        moreover have "slot b j = slot b (n + 1) \<Longrightarrow> j = n + 1" by (simp add: slot_def)
        ultimately show "f_cells s1 (slot b j + 2) = f_cells s (slot b j + 2) \<and>
            (f_cells s1 (slot b j + 2) = w \<longrightarrow> f_cells s1 (slot b j) = f_cells s (slot b j))"
          using sp'(4)[OF False] free that by auto
      qed
      finally show ?thesis by (simp add: EE_Read_ok[OF ok])
    qed
    then show ?thesis using False sp' by (auto simp: st)
  qed
qed

section \<open>Moving to the other page\<close>

text \<open>Page \<open>b\<close> is valid with \<open>n\<close> words, the other page receives and has \<open>m\<close> words.\<close>

definition ee_moving :: "flash \<Rightarrow> nat \<Rightarrow> nat \<Rightarrow> nat \<Rightarrow> bool" where
  "ee_moving s b n m \<longleftrightarrow> ready_fl s \<and> (b = PAGE0_BASE_ADDRESS \<or> b = PAGE1_BASE_ADDRESS)
     \<and> f_cells s b = VALID_PAGE \<and> page_log (f_cells s) b n
     \<and> f_cells s (other_page b) = RECEIVE_DATA \<and> page_log (f_cells s) (other_page b) m"

lemma other_page_simps [simp]:
  "b = PAGE0_BASE_ADDRESS \<or> b = PAGE1_BASE_ADDRESS \<Longrightarrow> other_page (other_page b) = b"
  "other_page b = PAGE0_BASE_ADDRESS \<or> other_page b = PAGE1_BASE_ADDRESS"
  by (auto simp: other_page_def)

lemma moving_pages:
  assumes "ee_moving s b n m"
  shows "EE_FindValidPage_write s = page_id (other_page b)" "EE_FindValidPage_read s = page_id b"
  using assms by (auto simp: ee_moving_def EE_FindValidPage_write_def EE_FindValidPage_read_def
      other_page_def page_id_def Let_def split: if_splits)

lemma moving_read:
  assumes "ee_moving s b n m"
  shows "EE_ReadVariable v s = read_loop (f_cells s) b v (PAGE_WORDS - 1)"
  using moving_pages[OF assms] page_id_ok[of b] assms
  by (simp add: EE_ReadVariable_def ee_moving_def Let_def)

abbreviation new_read :: "nat \<Rightarrow> u16 \<Rightarrow> flash \<Rightarrow> u16 \<times> u16 option" where
  "new_read b v s \<equiv> read_loop (f_cells s) (other_page b) v (PAGE_WORDS - 1)"

lemma append_keeps_other:
  assumes b: "b = PAGE0_BASE_ADDRESS \<or> b = PAGE1_BASE_ADDRESS" and i: "0 < i" "i < PAGE_WORDS" and j: "j < PAGE_WORDS"
  shows "append_word m (other_page b) i v d (slot b j) = m (slot b j)"
    "append_word m (other_page b) i v d (slot b j + 2) = m (slot b j + 2)"
  using slot_other[OF j i(2) b] by (auto simp: append_word_def)

lemma moving_write:
  assumes mv: "ee_moving s b n m" and m: "m + 1 < PAGE_WORDS" and v: "v \<noteq> 0xFFFF" and nf: "\<And>i. no_fault c i"
  shows "\<exists>s'. EE_VerifyPageFullWriteVariable c v d s = (COMPLETE, s') \<and> ee_moving s' b n (m + 1)
    \<and> (\<forall>w. EE_ReadVariable w s' = EE_ReadVariable w s)
    \<and> (\<forall>w. w \<noteq> 0xFFFF \<longrightarrow> new_read b w s' = (if w = v then (0, Some d) else new_read b w s))"
proof -
  note o = mv[unfolded ee_moving_def]
  have b: "b = PAGE0_BASE_ADDRESS \<or> b = PAGE1_BASE_ADDRESS" using o by simp
  have b': "other_page b = PAGE0_BASE_ADDRESS \<or> other_page b = PAGE1_BASE_ADDRESS" by simp
  note pid = page_id_ok[OF b']
  obtain st s' where e: "EE_VerifyPageFullWriteVariable c v d s = (st, s')" by fastforce
  have l: "page_log (f_cells s) (page_base (page_id (other_page b))) m" using o pid by simp
  note sp = EE_Verify_spec(2)[OF _ moving_pages(1)[OF mv] pid(2) l e m]
  have st: "st = COMPLETE" using sp o nf by blast
  then have f: "ready_fl s'" "f_cells s' = append_word (f_cells s) (other_page b) (m + 1) v d"
    using sp o pid by auto
  have keep: "f_cells s' (slot b j) = f_cells s (slot b j)" "f_cells s' (slot b j + 2) = f_cells s (slot b j + 2)"
    if "j < PAGE_WORDS" for j using append_keeps_other[OF b _ m that] by (simp_all add: f(2))
  have same: "f_cells s' b = f_cells s b" "f_cells s' (other_page b) = f_cells s (other_page b)"
    using append_status[OF _ m b', of "f_cells s" v d] b by (auto simp: f(2) other_page_def)
  have mv': "ee_moving s' b n (m + 1)"
    unfolding ee_moving_def
  proof (intro conjI)
    show "page_log (f_cells s') b n" using o keep by (auto simp: page_log_def slot_free_def)
    show "page_log (f_cells s') (other_page b) (m + 1)"
      unfolding f(2) using o by (intro page_log_append) (use m v in auto)
  qed (use f o same in auto)
  moreover have "EE_ReadVariable w s' = EE_ReadVariable w s" for w
    unfolding moving_read[OF mv] moving_read[OF mv'] by (rule read_loop_cong) (use keep in \<open>auto simp: PAGE_WORDS_def\<close>)
  moreover have "new_read b w s' = (if w = v then (0, Some d) else new_read b w s)" if "w \<noteq> 0xFFFF" for w
    unfolding f(2) using o by (intro read_append) (use m v that in auto)
  ultimately show ?thesis using e st by blast
qed

text \<open>What the new page holds after the variables \<open>vs\<close> have been copied, \<open>V\<close> left out.\<close>

lemma transfer_loop_ok:
  assumes "ee_moving s b n m" "m + length vs < PAGE_WORDS" "0xFFFF \<notin> set vs" "\<And>i. no_fault c i"
  shows "\<exists>dv' s' m'. transfer_loop c V vs (dv, s) = (None, dv', s') \<and> ee_moving s' b n m'
    \<and> (\<forall>w. EE_ReadVariable w s' = EE_ReadVariable w s)
    \<and> (\<forall>w. w \<noteq> 0xFFFF \<longrightarrow> new_read b w s' =
         (if w \<in> set vs \<and> w \<noteq> V \<and> snd (EE_ReadVariable w s) \<noteq> None then EE_ReadVariable w s else new_read b w s))"
  using assms(1-3)
proof (induction vs arbitrary: s m dv)
  case (Cons v vs)
  have IH: "m + length vs < PAGE_WORDS" "0xFFFF \<notin> set vs" "v \<noteq> 0xFFFF" using Cons.prems by auto
  have st: "fst (EE_ReadVariable v s) = (if snd (EE_ReadVariable v s) = None then 1 else 0)"
    unfolding moving_read[OF Cons.prems(1)] by (rule read_loop_status)
  show ?case
  proof (cases "v \<noteq> V \<and> snd (EE_ReadVariable v s) \<noteq> None")
    case True
    then obtain d where d: "EE_ReadVariable v s = (0, Some d)" using st by (cases "EE_ReadVariable v s") auto
    obtain s1 where s1: "EE_VerifyPageFullWriteVariable c v d s = (COMPLETE, s1)" "ee_moving s1 b n (m + 1)"
      "\<And>w. EE_ReadVariable w s1 = EE_ReadVariable w s"
      "\<And>w. w \<noteq> 0xFFFF \<Longrightarrow> new_read b w s1 = (if w = v then (0, Some d) else new_read b w s)"
      using moving_write[OF Cons.prems(1) _ IH(3) assms(4), of d] Cons.prems(2) by auto
    have l: "transfer_loop c V (v # vs) (dv, s) = transfer_loop c V vs (d, s1)"
      using True by (simp add: d s1(1))
    have "m + 1 + length vs < PAGE_WORDS" using Cons.prems(2) by simp
    from Cons.IH[OF s1(2) this IH(2), of d] obtain dv' s' m' where r:
      "transfer_loop c V vs (d, s1) = (None, dv', s')" "ee_moving s' b n m'"
      "\<And>w. EE_ReadVariable w s' = EE_ReadVariable w s1"
      "\<And>w. w \<noteq> 0xFFFF \<Longrightarrow> new_read b w s' =
         (if w \<in> set vs \<and> w \<noteq> V \<and> snd (EE_ReadVariable w s1) \<noteq> None then EE_ReadVariable w s1 else new_read b w s1)"
      by blast
    have "new_read b w s' =
        (if w \<in> set (v # vs) \<and> w \<noteq> V \<and> snd (EE_ReadVariable w s) \<noteq> None then EE_ReadVariable w s else new_read b w s)"
      if "w \<noteq> 0xFFFF" for w
      unfolding r(4)[OF that] s1(3) s1(4)[OF that] using True d by (cases "w = v") auto
    moreover have "EE_ReadVariable w s' = EE_ReadVariable w s" for w unfolding r(3) s1(3) ..
    ultimately show ?thesis unfolding l using r(1,2) by blast
  next
    case False
    then have "transfer_loop c V (v # vs) (dv, s) = transfer_loop c V vs (dv, s)"
      using st by (auto split: prod.splits)
    then show ?thesis using Cons.IH[OF Cons.prems(1) IH(1,2), of dv] False by auto
  qed
qed auto

lemma erase_page:
  assumes q: "ready_fl s" and b: "b = PAGE0_BASE_ADDRESS \<or> b = PAGE1_BASE_ADDRESS" and nf: "no_fault c (f_ops s)"
  shows "\<exists>s'. FLASH_EraseSector c (if b = PAGE0_BASE_ADDRESS then FLASH_Sector_10 else FLASH_Sector_11) s = (FLASH_COMPLETE, s')
    \<and> ready_fl s' \<and> f_cells s' = erased b (f_cells s) \<and> f_ops s' = f_ops s + 1"
proof -
  let ?sec = "if b = PAGE0_BASE_ADDRESS then FLASH_Sector_10 else FLASH_Sector_11"
  have sec: "eeprom_sector ?sec" "sector_start ?sec = b"
    using b by (auto simp: eeprom_sector_def sector_start_def FLASH_Sector_10_def FLASH_Sector_11_def
        PAGE0_BASE_ADDRESS_def PAGE1_BASE_ADDRESS_def)
  obtain st s' where r: "FLASH_EraseSector c ?sec s = (st, s')" by fastforce
  from FLASH_EraseSector_spec[OF _ sec(1) r] q nf show ?thesis
    by (simp add: r sec(2) ready_fl_def no_fault_def)
qed

lemma program_word:
  assumes q: "ready_fl s" and nf: "no_fault c (f_ops s)"
  shows "\<exists>s'. FLASH_ProgramHalfWord c a d s = (FLASH_COMPLETE, s')
    \<and> ready_fl s' \<and> f_cells s' = (f_cells s)(a := f_cells s a AND d) \<and> f_ops s' = f_ops s + 1"
proof -
  obtain st s' where r: "FLASH_ProgramHalfWord c a d s = (st, s')" by fastforce
  from FLASH_ProgramHalfWord_spec[OF _ r] q nf show ?thesis
    by (simp add: r ready_fl_def no_fault_def)
qed

lemma slot_in_page: "j < PAGE_WORDS \<Longrightarrow> b \<le> slot b j \<and> slot b j + 2 < b + 0x20000"
  by (simp add: slot_def PAGE_WORDS_def)

lemma erased_slot: "j < PAGE_WORDS \<Longrightarrow> slot_free (erased b m) b j"
  using slot_in_page[of j b] by (simp add: slot_free_def erased_def)

lemma erased_base: "b = PAGE0_BASE_ADDRESS \<or> b = PAGE1_BASE_ADDRESS \<Longrightarrow> erased b m (other_page b) = m (other_page b)"
  by (auto simp: erased_def other_page_def PAGE0_BASE_ADDRESS_def PAGE1_BASE_ADDRESS_def)

lemma erased_other_slot:
  assumes "j < PAGE_WORDS" "b = PAGE0_BASE_ADDRESS \<or> b = PAGE1_BASE_ADDRESS"
  shows "erased b m (slot (other_page b) j) = m (slot (other_page b) j)
    \<and> erased b m (slot (other_page b) j + 2) = m (slot (other_page b) j + 2)"
  using slot_in_page[OF assms(1), of "other_page b"] assms(2)
  by (auto simp: erased_def other_page_def PAGE0_BASE_ADDRESS_def PAGE1_BASE_ADDRESS_def)

lemma status_write:
  assumes "b = PAGE0_BASE_ADDRESS \<or> b = PAGE1_BASE_ADDRESS" "j < PAGE_WORDS" "b' = PAGE0_BASE_ADDRESS \<or> b' = PAGE1_BASE_ADDRESS"
    and "0 < j \<or> b' \<noteq> b"
  shows "slot b' j \<noteq> b" "slot b' j + 2 \<noteq> b"
proof -
  have "slot b' j \<noteq> b \<and> slot b' j + 2 \<noteq> b"
  proof (cases "j = 0")
    case True
    then show ?thesis using assms by (auto simp: slot_def PAGE0_BASE_ADDRESS_def PAGE1_BASE_ADDRESS_def)
  next
    case False
    then show ?thesis using slot_status[of j b'] assms by auto
  qed
  then show "slot b' j \<noteq> b" "slot b' j + 2 \<noteq> b" by auto
qed

text \<open>The full page: the transfer keeps the new value and the first variables of the table only.\<close>

definition moved :: "u16 \<Rightarrow> bool" where
  "moved w \<longleftrightarrow> w \<in> set (take NB_OF_VAR VirtAddVarTab)"

lemma moved_table: "take NB_OF_VAR VirtAddVarTab = [0, 1, 2]" "moved w \<longleftrightarrow> w = 0 \<or> w = 1 \<or> w = 2"
  by (auto simp: moved_def NB_OF_VAR_def VirtAddVarTab_def)

lemma start_move:
  assumes ok: "ee_ok s b n" and nf: "no_fault c (f_ops s)"
  shows "\<exists>s'. FLASH_ProgramHalfWord c (other_page b) RECEIVE_DATA s = (FLASH_COMPLETE, s') \<and> ee_moving s' b n 0
    \<and> (\<forall>w. EE_ReadVariable w s' = EE_ReadVariable w s)
    \<and> (\<forall>w. w \<noteq> 0xFFFF \<longrightarrow> new_read b w s' = (1, None))"
proof -
  note o = ok[unfolded ee_ok_def]
  have b: "b = PAGE0_BASE_ADDRESS \<or> b = PAGE1_BASE_ADDRESS" using o by simp
  have b': "other_page b = PAGE0_BASE_ADDRESS \<or> other_page b = PAGE1_BASE_ADDRESS" "other_page b \<noteq> b"
    by (auto simp: other_page_def)
  have er: "f_cells s (other_page b) = 0xFFFF" "f_cells s (other_page b + 2) = 0xFFFF"
  proof -
    have "slot_free (f_cells s) (other_page b) 0" using o by (simp add: PAGE_WORDS_def)
    then show "f_cells s (other_page b) = 0xFFFF" "f_cells s (other_page b + 2) = 0xFFFF"
      by (simp_all add: slot_free_def slot_def)
  qed
  obtain s' where s': "FLASH_ProgramHalfWord c (other_page b) RECEIVE_DATA s = (FLASH_COMPLETE, s')" "ready_fl s'"
    "f_cells s' = (f_cells s)(other_page b := RECEIVE_DATA)"
    using program_word[OF _ nf, of "other_page b" RECEIVE_DATA] o er by (auto simp: ones)
  have keep: "f_cells s' (slot b j) = f_cells s (slot b j)" "f_cells s' (slot b j + 2) = f_cells s (slot b j + 2)"
    if "j < PAGE_WORDS" for j using status_write[OF b'(1) that b] b'(2) by (auto simp: s'(3))
  have free: "slot_free (f_cells s') (other_page b) j" if "0 < j" "j < PAGE_WORDS" for j
    using status_write[OF b'(1) that(2) b'(1)] that o by (simp add: s'(3) slot_free_def)
  have mv: "ee_moving s' b n 0"
    unfolding ee_moving_def
  proof (intro conjI)
    show "page_log (f_cells s') b n" using o keep by (auto simp: page_log_def slot_free_def)
    have "\<not> slot_free (f_cells s') (other_page b) 0" by (simp add: slot_free_def slot_def s'(3) RECEIVE_DATA_def)
    then show "page_log (f_cells s') (other_page b) 0"
      using free by (simp add: page_log_def PAGE_WORDS_def)
  qed (use o s' b'(2) in auto)
  moreover have "EE_ReadVariable w s' = EE_ReadVariable w s" for w
    unfolding EE_Read_ok[OF ok] moving_read[OF mv] by (rule read_loop_cong) (use keep in \<open>auto simp: PAGE_WORDS_def\<close>)
  moreover have "new_read b w s' = (1, None)" if "w \<noteq> 0xFFFF" for w
  proof -
    have "new_read b w s' = read_loop (f_cells s') (other_page b) w 0"
      by (rule read_loop_free) (use free that in \<open>auto simp: PAGE_WORDS_def\<close>)
    then show ?thesis by simp
  qed
  ultimately show ?thesis using s'(1) by blast
qed

lemma finish_move:
  assumes mv: "ee_moving s b n m" and nf: "\<And>i. no_fault c i"
  shows "\<exists>s1 s2. FLASH_EraseSector c (if b = PAGE0_BASE_ADDRESS then FLASH_Sector_10 else FLASH_Sector_11) s = (FLASH_COMPLETE, s1)
    \<and> FLASH_ProgramHalfWord c (other_page b) VALID_PAGE s1 = (FLASH_COMPLETE, s2) \<and> ee_ok s2 (other_page b) m
    \<and> (\<forall>w. EE_ReadVariable w s2 = new_read b w s)"
proof -
  note o = mv[unfolded ee_moving_def]
  have b: "b = PAGE0_BASE_ADDRESS \<or> b = PAGE1_BASE_ADDRESS" using o by simp
  have b': "other_page b = PAGE0_BASE_ADDRESS \<or> other_page b = PAGE1_BASE_ADDRESS" "b \<noteq> other_page b"
    by (auto simp: other_page_def)
  obtain s1 where s1: "FLASH_EraseSector c (if b = PAGE0_BASE_ADDRESS then FLASH_Sector_10 else FLASH_Sector_11) s = (FLASH_COMPLETE, s1)"
    "ready_fl s1" "f_cells s1 = erased b (f_cells s)"
    using erase_page[OF _ b nf, of s] o by blast
  obtain s2 where s2: "FLASH_ProgramHalfWord c (other_page b) VALID_PAGE s1 = (FLASH_COMPLETE, s2)" "ready_fl s2"
    "f_cells s2 = (f_cells s1)(other_page b := VALID_PAGE)"
    using program_word[OF s1(2) nf, of "other_page b" VALID_PAGE] by (auto simp: VALID_PAGE_def)
  have keep: "f_cells s2 (slot (other_page b) j) = f_cells s (slot (other_page b) j)"
      "f_cells s2 (slot (other_page b) j + 2) = f_cells s (slot (other_page b) j + 2)" if "0 < j" "j < PAGE_WORDS" for j
    using status_write[OF b'(1) that(2) b'(1)] erased_other_slot[OF that(2) b] that by (simp_all add: s2(3) s1(3))
  have free: "slot_free (f_cells s2) b j" if "j < PAGE_WORDS" for j
    using status_write[OF b'(1) that b] erased_slot[OF that] b'(2) by (simp add: s2(3) s1(3) slot_free_def)
  have v: "f_cells s2 (other_page b) = 0" by (simp add: s2(3) VALID_PAGE_def)
  have ok: "ee_ok s2 (other_page b) m"
    unfolding ee_ok_def
  proof (intro conjI allI impI)
    have "slot_free (f_cells s2) (other_page b) j \<longleftrightarrow> slot_free (f_cells s) (other_page b) j" if "0 < j" "j < PAGE_WORDS" for j
      using keep[OF that] by (simp add: slot_free_def)
    moreover have "\<not> slot_free (f_cells s2) (other_page b) 0" using v by (simp add: slot_free_def slot_def)
    ultimately show "page_log (f_cells s2) (other_page b) m"
      using o unfolding page_log_def by (metis gr0I le_less_trans less_nat_zero_code)
  qed (use s2 v b b' free in \<open>auto simp: VALID_PAGE_def\<close>)
  moreover have "EE_ReadVariable w s2 = new_read b w s" for w
    unfolding EE_Read_ok[OF ok] by (rule read_loop_cong) (use keep in \<open>auto simp: PAGE_WORDS_def\<close>)
  ultimately show ?thesis using s1(1) s2(1) by blast
qed

lemma EE_PageTransfer_ok:
  assumes ok: "ee_ok s b n" and v: "v \<noteq> 0xFFFF" and nf: "\<And>i. no_fault c i"
  shows "\<exists>dv' s' n'. EE_PageTransfer c v d (dv, s) = (COMPLETE, dv', s') \<and> ee_ok s' (other_page b) n'
    \<and> (\<forall>w. w \<noteq> 0xFFFF \<longrightarrow> EE_ReadVariable w s' =
         (if w = v then (0, Some d) else if moved w then EE_ReadVariable w s else (1, None)))"
proof -
  have b: "b = PAGE0_BASE_ADDRESS \<or> b = PAGE1_BASE_ADDRESS" using ok by (simp add: ee_ok_def)
  obtain s1 where s1: "FLASH_ProgramHalfWord c (other_page b) RECEIVE_DATA s = (FLASH_COMPLETE, s1)" "ee_moving s1 b n 0"
    "\<And>w. EE_ReadVariable w s1 = EE_ReadVariable w s" "\<And>w. w \<noteq> 0xFFFF \<Longrightarrow> new_read b w s1 = (1, None)"
    using start_move[OF ok nf] by blast
  obtain s2 where s2: "EE_VerifyPageFullWriteVariable c v d s1 = (COMPLETE, s2)" "ee_moving s2 b n 1"
    "\<And>w. EE_ReadVariable w s2 = EE_ReadVariable w s1"
    "\<And>w. w \<noteq> 0xFFFF \<Longrightarrow> new_read b w s2 = (if w = v then (0, Some d) else new_read b w s1)"
    using moving_write[OF s1(2) _ v nf, of d] by (auto simp: PAGE_WORDS_def)
  obtain dv' s3 m where s3: "transfer_loop c v (take NB_OF_VAR VirtAddVarTab) (dv, s2) = (None, dv', s3)" "ee_moving s3 b n m"
    "\<And>w. w \<noteq> 0xFFFF \<Longrightarrow> new_read b w s3 =
         (if moved w \<and> w \<noteq> v \<and> snd (EE_ReadVariable w s2) \<noteq> None then EE_ReadVariable w s2 else new_read b w s2)"
    using transfer_loop_ok[OF s2(2) _ _ nf, of "take NB_OF_VAR VirtAddVarTab" v dv]
    unfolding moved_def by (auto simp: moved_table PAGE_WORDS_def)
  obtain s4 s5 where s4: "FLASH_EraseSector c (if b = PAGE0_BASE_ADDRESS then FLASH_Sector_10 else FLASH_Sector_11) s3 = (FLASH_COMPLETE, s4)"
    "FLASH_ProgramHalfWord c (other_page b) VALID_PAGE s4 = (FLASH_COMPLETE, s5)" "ee_ok s5 (other_page b) m"
    "\<And>w. EE_ReadVariable w s5 = new_read b w s3"
    using finish_move[OF s3(2) nf] by blast
  have "EE_FindValidPage_read s = page_id b" using ee_ok_pages[OF ok] by simp
  moreover have p: "PAGE0 \<noteq> PAGE1" by (simp add: PAGE0_def PAGE1_def)
  ultimately have t: "EE_PageTransfer c v d (dv, s) = (COMPLETE, dv', s5)"
    using b s1(1) s2(1) s3(1) s4(1,2)
    by (auto simp: EE_PageTransfer_def Let_def page_id_def other_page_def)
  have "EE_ReadVariable w s5 = (if w = v then (0, Some d) else if moved w then EE_ReadVariable w s else (1, None))"
    if w: "w \<noteq> 0xFFFF" for w
  proof -
    have "snd (EE_ReadVariable w s) = None \<Longrightarrow> EE_ReadVariable w s = (1, None)"
      using read_loop_status[of "f_cells s" b w "PAGE_WORDS - 1"] unfolding EE_Read_ok[OF ok] by (simp add: prod_eq_iff)
    then show ?thesis unfolding s4(4) s3(3)[OF w] s2(3) s2(4)[OF w] s1(3) s1(4)[OF w] by auto
  qed
  with t s4(3) show ?thesis by blast
qed

lemma EE_Write_full:
  assumes ok: "ee_ok s b n" and n: "n + 1 = PAGE_WORDS"
  shows "EE_WriteVariable c v d (dv, s) = EE_PageTransfer c v d (dv, s)"
proof -
  have r: "ready_fl s" and p: "EE_FindValidPage_write s = page_id b" "page_id b \<noteq> NO_VALID_PAGE"
    and l: "page_log (f_cells s) (page_base (page_id b)) n"
    using ok ee_ok_pages[OF ok] page_id_ok[of b] by (auto simp: ee_ok_def)
  obtain st s' where e: "EE_VerifyPageFullWriteVariable c v d s = (st, s')" by fastforce
  then show ?thesis using EE_Verify_spec(1)[OF r p l e n] by (simp add: EE_WriteVariable_def)
qed

section \<open>After a failed operation\<close>

text \<open>Nothing clears the error flags, so every later operation fails.\<close>

lemma program_stuck:
  assumes "quiet s" "f_SR s \<noteq> 0" "FLASH_ProgramHalfWord c a d s = (st, s')"
  shows "st \<noteq> FLASH_COMPLETE \<and> quiet s' \<and> f_SR s' \<noteq> 0 \<and> f_cells s' = f_cells s"
  using FLASH_ProgramHalfWord_spec[OF assms(1,3)] assms(2) by auto

lemma EE_Write_stuck:
  assumes q: "quiet s" "f_SR s \<noteq> 0" and e: "EE_WriteVariable c v d (dv, s) = (st, dv', s')"
  shows "st \<noteq> COMPLETE \<and> quiet s' \<and> f_SR s' \<noteq> 0 \<and> f_cells s' = f_cells s \<and> dv' = dv"
proof -
  obtain st1 s1 where v: "EE_VerifyPageFullWriteVariable c v d s = (st1, s1)" by fastforce
  then have s1: "quiet s1 \<and> f_SR s1 \<noteq> 0 \<and> f_cells s1 = f_cells s \<and> st1 \<noteq> COMPLETE"
    using q by (auto simp: EE_VerifyPageFullWriteVariable_def Let_def dest: program_stuck split: if_splits option.splits prod.splits)
  show ?thesis
  proof (cases "st1 = PAGE_FULL")
    case False
    then show ?thesis using e v s1 by (auto simp: EE_WriteVariable_def)
  next
    case True
    then have "EE_PageTransfer c v d (dv, s1) = (st, dv', s')" using e v by (simp add: EE_WriteVariable_def)
    then show ?thesis using s1
      by (auto simp: EE_PageTransfer_def Let_def dest: program_stuck split: if_splits prod.splits)
  qed
qed

lemma EE_Write_fails:
  assumes ok: "ee_ok s b n" and n: "n + 1 < PAGE_WORDS" and v: "v \<noteq> 0xFFFF"
    and e: "EE_WriteVariable c v d (dv, s) = (st, dv', s')" and st: "st \<noteq> COMPLETE"
  shows "quiet s'" "f_SR s' \<noteq> 0"
proof -
  have o: "ready_fl s" "page_log (f_cells s) (page_base (page_id b)) n" "page_id b \<noteq> NO_VALID_PAGE"
    using ok page_id_ok[of b] by (auto simp: ee_ok_def)
  obtain st1 s1 where e1: "EE_VerifyPageFullWriteVariable c v d s = (st1, s1)" by fastforce
  note sp = EE_Verify_spec(2)[OF o(1) ee_ok_pages(1)[OF ok] o(3,2) e1 n]
  then have "st = st1" "s' = s1" using e e1 by (simp_all add: EE_WriteVariable_def)
  then show "quiet s'" "f_SR s' \<noteq> 0" using sp st by auto
qed

section \<open>Start up\<close>

lemma Verify_status:
  assumes q: "quiet s" and e: "EE_VerifyPageFullWriteVariable c v d s = (st, s')"
  shows "quiet s' \<and> f_cells s' PAGE0_BASE_ADDRESS = f_cells s PAGE0_BASE_ADDRESS
    \<and> f_cells s' PAGE1_BASE_ADDRESS = f_cells s PAGE1_BASE_ADDRESS"
proof -
  let ?p = "EE_FindValidPage_write s" let ?b = "page_base ?p"
  consider "?p = NO_VALID_PAGE" | "?p \<noteq> NO_VALID_PAGE" "write_scan (f_cells s) ?b 0 PAGE_WORDS = None"
    | j where "?p \<noteq> NO_VALID_PAGE" "write_scan (f_cells s) ?b 0 PAGE_WORDS = Some j" by blast
  then show ?thesis
  proof cases
    case 3
    have b: "?b = PAGE0_BASE_ADDRESS \<or> ?b = PAGE1_BASE_ADDRESS" "f_cells s ?b \<noteq> 0xFFFF"
      using 3(1) by (auto simp: EE_FindValidPage_write_def Let_def RECEIVE_DATA_def VALID_PAGE_def split: if_splits)
    have j: "0 < j" "j < PAGE_WORDS"
      using 3(2) b(2) unfolding write_scan_Some slot_free_def by (auto simp: slot_def intro: gr0I)
    obtain st1 s1 where p1: "FLASH_ProgramHalfWord c (slot ?b j) d s = (st1, s1)" by fastforce
    obtain st2 s2 where p2: "FLASH_ProgramHalfWord c (slot ?b j + 2) v s1 = (st2, s2)" by fastforce
    note f1 = FLASH_ProgramHalfWord_spec[OF q p1]
    then have "quiet s1" by blast
    note f2 = FLASH_ProgramHalfWord_spec[OF this p2]
    have "s' = s1 \<or> s' = s2"
      using e 3 p1 p2 by (auto simp: EE_VerifyPageFullWriteVariable_def Let_def split: if_splits)
    then show ?thesis using f1 f2 slot_status[OF j b(1)] by auto
  qed (use e q in \<open>auto simp: EE_VerifyPageFullWriteVariable_def Let_def\<close>)
qed

lemma init_loop_status:
  assumes "quiet s" "init_loop c p i x vs (dv, s) = (r, dv', s')"
  shows "quiet s' \<and> f_cells s' PAGE0_BASE_ADDRESS = f_cells s PAGE0_BASE_ADDRESS
    \<and> f_cells s' PAGE1_BASE_ADDRESS = f_cells s PAGE1_BASE_ADDRESS"
  using assms
proof (induction vs arbitrary: i x dv s)
  case (Cons v vs)
  let ?x = "if f_cells s (p + 6) = v then int i else x"
  obtain rs od where rd: "EE_ReadVariable v s = (rs, od)" by fastforce
  let ?dv = "case od of None \<Rightarrow> dv | Some y \<Rightarrow> y"
  obtain st s1 where v: "EE_VerifyPageFullWriteVariable c v ?dv s = (st, s1)" by fastforce
  note k = Verify_status[OF Cons.prems(1) v]
  show ?case
  proof (cases "int i \<noteq> ?x \<and> rs \<noteq> 1")
    case False
    then obtain dv1 where "init_loop c p (Suc i) ?x vs (dv1, s) = (r, dv', s')"
      using Cons.prems(2) rd by (auto simp: Let_def split: if_splits)
    then show ?thesis using Cons.IH[OF Cons.prems(1)] by blast
  next
    case True
    show ?thesis
    proof (cases "st = COMPLETE")
      case True
      then have "init_loop c p (Suc i) ?x vs (?dv, s1) = (r, dv', s')"
        using Cons.prems(2) rd v \<open>int i \<noteq> ?x \<and> rs \<noteq> 1\<close> by (simp add: Let_def split: if_splits)
      then show ?thesis using Cons.IH[of s1] k by fastforce
    next
      case False
      then have "s' = s1" using Cons.prems(2) rd v True by (simp add: Let_def split: if_splits)
      then show ?thesis using k by simp
    qed
  qed
qed simp

text \<open>The two status words.\<close>

definition status_words :: "flash \<Rightarrow> u16 \<times> u16" where
  "status_words s = (f_cells s PAGE0_BASE_ADDRESS, f_cells s PAGE1_BASE_ADDRESS)"

lemma program_status:
  assumes "quiet s" "FLASH_ProgramHalfWord c b VALID_PAGE s = (FLASH_COMPLETE, s')"
  shows "quiet s' \<and> f_cells s' = (f_cells s)(b := VALID_PAGE)"
  using FLASH_ProgramHalfWord_spec[OF assms] by (simp add: VALID_PAGE_def)

lemma erase_status:
  assumes "quiet s" "eeprom_sector sec" "FLASH_EraseSector c sec s = (FLASH_COMPLETE, s')"
  shows "quiet s' \<and> f_cells s' = erased (sector_start sec) (f_cells s)"
  using FLASH_EraseSector_spec[OF assms] by simp

lemma sectors [simp]: "eeprom_sector FLASH_Sector_10" "eeprom_sector FLASH_Sector_11"
  "sector_start FLASH_Sector_10 = PAGE0_BASE_ADDRESS" "sector_start FLASH_Sector_11 = PAGE1_BASE_ADDRESS"
  by (simp_all add: eeprom_sector_def sector_start_def FLASH_Sector_10_def FLASH_Sector_11_def
      PAGE0_BASE_ADDRESS_def PAGE1_BASE_ADDRESS_def)

lemma erased_status [simp]:
  "erased PAGE0_BASE_ADDRESS m PAGE0_BASE_ADDRESS = ERASED" "erased PAGE1_BASE_ADDRESS m PAGE1_BASE_ADDRESS = ERASED"
  "erased PAGE0_BASE_ADDRESS m PAGE1_BASE_ADDRESS = m PAGE1_BASE_ADDRESS"
  "erased PAGE1_BASE_ADDRESS m PAGE0_BASE_ADDRESS = m PAGE0_BASE_ADDRESS"
  by (simp_all add: erased_def ERASED_def PAGE0_BASE_ADDRESS_def PAGE1_BASE_ADDRESS_def)

lemma status_code_inj [simp]: "status_code st = status_code st' \<longleftrightarrow> st = st'"
  by (cases st; cases st'; simp)

lemma init_erase_status:
  assumes "quiet s" "init_erase c sec (dv, s) = (COMPLETE, dv', s')" "eeprom_sector sec"
  shows "quiet s' \<and> f_cells s' = erased (sector_start sec) (f_cells s)"
  using assms erase_status[OF assms(1,3)] by (auto simp: init_erase_def split: prod.splits)

lemma init_format_status:
  assumes "quiet s" "init_format c (dv, s) = (COMPLETE, dv', s')"
  shows "quiet s' \<and> f_cells s' = erased PAGE1_BASE_ADDRESS ((erased PAGE0_BASE_ADDRESS (f_cells s))(PAGE0_BASE_ADDRESS := VALID_PAGE))"
proof -
  obtain s1 s2 where f: "FLASH_EraseSector c FLASH_Sector_10 s = (FLASH_COMPLETE, s1)"
    "FLASH_ProgramHalfWord c PAGE0_BASE_ADDRESS VALID_PAGE s1 = (FLASH_COMPLETE, s2)"
    "FLASH_EraseSector c FLASH_Sector_11 s2 = (FLASH_COMPLETE, s')"
    using assms(2) by (auto simp: init_format_def EE_Format_def split: prod.splits if_splits)
  have 1: "quiet s1 \<and> f_cells s1 = erased PAGE0_BASE_ADDRESS (f_cells s)"
    using erase_status[OF assms(1) _ f(1)] by simp
  have 2: "quiet s2 \<and> f_cells s2 = (f_cells s1)(PAGE0_BASE_ADDRESS := VALID_PAGE)"
    using program_status[OF _ f(2)] 1 by simp
  show ?thesis using erase_status[OF _ _ f(3)] 1 2 by simp
qed

lemma init_promote_status:
  assumes "quiet s" "init_promote c old p (dv, s) = (COMPLETE, dv', s')" "eeprom_sector old"
  shows "quiet s' \<and> f_cells s' = (erased (sector_start old) (f_cells s))(p := VALID_PAGE)"
proof -
  obtain s1 where f: "FLASH_EraseSector c old s = (FLASH_COMPLETE, s1)"
    "FLASH_ProgramHalfWord c p VALID_PAGE s1 = (FLASH_COMPLETE, s')"
    using assms(2) by (auto simp: init_promote_def split: prod.splits if_splits)
  show ?thesis using erase_status[OF assms(1,3) f(1)] program_status[OF _ f(2)] by simp
qed

lemma init_loop_status_None:
  "init_loop c p i x vs ds = (Some r, dv', s') \<Longrightarrow> r \<noteq> COMPLETE"
proof (induction vs arbitrary: i x ds)
  case (Cons v vs)
  then show ?case by (cases ds) (auto simp: Let_def split: if_splits prod.splits)
qed (auto split: prod.splits)

lemma init_recover_status:
  assumes "quiet s" "init_recover c p old (dv, s) = (COMPLETE, dv', s')" "eeprom_sector old"
  shows "\<exists>m. status_words (s\<lparr>f_cells := m\<rparr>) = status_words s \<and> quiet s' \<and> f_cells s' = erased (sector_start old) (m(p := VALID_PAGE))"
proof -
  obtain r dv1 s1 where l: "init_loop c p 0 (- 1) (take NB_OF_VAR VirtAddVarTab) (dv, s) = (r, dv1, s1)" by (metis prod_cases3)
  have "r = None" using assms(2) l by (cases r) (auto simp: init_recover_def dest: init_loop_status_None)
  then obtain s2 where f: "FLASH_ProgramHalfWord c p VALID_PAGE s1 = (FLASH_COMPLETE, s2)"
    "FLASH_EraseSector c old s2 = (FLASH_COMPLETE, s')"
    using assms(2) l by (auto simp: init_recover_def split: prod.splits if_splits)
  note k = init_loop_status[OF assms(1) l]
  have 2: "quiet s2 \<and> f_cells s2 = (f_cells s1)(p := VALID_PAGE)" using program_status[OF _ f(1)] k by simp
  show ?thesis using erase_status[OF _ assms(3) f(2)] 2 k
    by (intro exI[of _ "f_cells s1"]) (simp add: status_words_def)
qed

lemma init_words:
  assumes q: "quiet s"
  shows "init_erase c FLASH_Sector_10 (dv, s) = (COMPLETE, dv', s') \<Longrightarrow>
      quiet s' \<and> status_words s' = (ERASED, snd (status_words s))"
    "init_erase c FLASH_Sector_11 (dv, s) = (COMPLETE, dv', s') \<Longrightarrow>
      quiet s' \<and> status_words s' = (fst (status_words s), ERASED)"
    "init_format c (dv, s) = (COMPLETE, dv', s') \<Longrightarrow> quiet s' \<and> status_words s' = (VALID_PAGE, ERASED)"
    "init_promote c FLASH_Sector_10 PAGE1_BASE_ADDRESS (dv, s) = (COMPLETE, dv', s') \<Longrightarrow>
      quiet s' \<and> status_words s' = (ERASED, VALID_PAGE)"
    "init_promote c FLASH_Sector_11 PAGE0_BASE_ADDRESS (dv, s) = (COMPLETE, dv', s') \<Longrightarrow>
      quiet s' \<and> status_words s' = (VALID_PAGE, ERASED)"
    "init_recover c PAGE1_BASE_ADDRESS FLASH_Sector_10 (dv, s) = (COMPLETE, dv', s') \<Longrightarrow>
      quiet s' \<and> status_words s' = (ERASED, VALID_PAGE)"
    "init_recover c PAGE0_BASE_ADDRESS FLASH_Sector_11 (dv, s) = (COMPLETE, dv', s') \<Longrightarrow>
      quiet s' \<and> status_words s' = (VALID_PAGE, ERASED)"
  by (auto simp: status_words_def simp del: status_code.simps dest!: init_erase_status[OF q] init_format_status[OF q] init_promote_status[OF q]
      init_recover_status[OF q])

text \<open>Which page \<^verbatim>\<open>EE_Init\<close> leaves valid.\<close>

fun survivor :: "u16 \<times> u16 \<Rightarrow> nat" where
  "survivor (p0, p1) =
     (if p0 = ERASED \<and> (p1 = VALID_PAGE \<or> p1 = RECEIVE_DATA) then PAGE1_BASE_ADDRESS
      else if p0 = VALID_PAGE \<and> p1 \<noteq> VALID_PAGE \<and> p1 \<noteq> ERASED then PAGE1_BASE_ADDRESS
      else PAGE0_BASE_ADDRESS)"

lemma EE_Init_status:
  assumes q: "quiet s" and e: "EE_Init c (dv, s) = (COMPLETE, dv', s')"
  shows "quiet s' \<and> status_words s' =
    (if survivor (status_words s) = PAGE0_BASE_ADDRESS then (VALID_PAGE, ERASED) else (ERASED, VALID_PAGE))"
proof -
  obtain p0 p1 where p: "status_words s = (p0, p1)" by fastforce
  then have d: "f_cells s PAGE0_BASE_ADDRESS = p0" "f_cells s PAGE1_BASE_ADDRESS = p1"
    by (simp_all add: status_words_def)
  show ?thesis using e unfolding EE_Init_def Let_def snd_conv d
    by (auto simp: p simp del: status_code.simps dest: init_words[OF q] split: if_splits)
qed

lemma EE_Format_ok:
  "ready_fl s \<Longrightarrow> (\<And>i. no_fault c i) \<Longrightarrow> \<exists>s'. EE_Format c s = (FLASH_COMPLETE, s') \<and> ee_ok s' PAGE0_BASE_ADDRESS 0
    \<and> (\<forall>w. w \<noteq> 0xFFFF \<longrightarrow> EE_ReadVariable w s' = (1, None))"
proof -
  assume r: "ready_fl s" and nf: "\<And>i. no_fault c i"
  obtain s1 where s1: "FLASH_EraseSector c FLASH_Sector_10 s = (FLASH_COMPLETE, s1)" "ready_fl s1"
    "f_cells s1 = erased PAGE0_BASE_ADDRESS (f_cells s)"
    using erase_page[OF r _ nf, of PAGE0_BASE_ADDRESS] by auto
  obtain s2 where s2: "FLASH_ProgramHalfWord c PAGE0_BASE_ADDRESS VALID_PAGE s1 = (FLASH_COMPLETE, s2)" "ready_fl s2"
    "f_cells s2 = (f_cells s1)(PAGE0_BASE_ADDRESS := VALID_PAGE)"
    using program_word[OF s1(2) nf, of PAGE0_BASE_ADDRESS VALID_PAGE] by (auto simp: VALID_PAGE_def)
  obtain s3 where s3: "FLASH_EraseSector c FLASH_Sector_11 s2 = (FLASH_COMPLETE, s3)" "ready_fl s3"
    "f_cells s3 = erased PAGE1_BASE_ADDRESS (f_cells s2)"
    using erase_page[OF s2(2) _ nf, of PAGE1_BASE_ADDRESS] by auto
  have v: "f_cells s3 PAGE0_BASE_ADDRESS = VALID_PAGE" by (simp add: s3 s2)
  have free: "slot_free (f_cells s3) PAGE0_BASE_ADDRESS j" if "0 < j" "j < PAGE_WORDS" for j
  proof -
    have "f_cells s3 (slot PAGE0_BASE_ADDRESS j) = f_cells s2 (slot PAGE0_BASE_ADDRESS j)"
      "f_cells s3 (slot PAGE0_BASE_ADDRESS j + 2) = f_cells s2 (slot PAGE0_BASE_ADDRESS j + 2)"
      using erased_other_slot[OF that(2), of PAGE1_BASE_ADDRESS "f_cells s2"] by (simp_all add: s3 other_page_def)
    then show ?thesis using erased_slot[OF that(2), of PAGE0_BASE_ADDRESS] slot_status[OF that, of PAGE0_BASE_ADDRESS]
      by (simp add: slot_free_def s2 s1)
  qed
  have ok: "ee_ok s3 PAGE0_BASE_ADDRESS 0"
    unfolding ee_ok_def
  proof (intro conjI allI impI)
    have "\<not> slot_free (f_cells s3) PAGE0_BASE_ADDRESS 0" by (simp add: slot_free_def slot_def v VALID_PAGE_def)
    then show "page_log (f_cells s3) PAGE0_BASE_ADDRESS 0" using free by (simp add: page_log_def PAGE_WORDS_def)
  qed (use s3 v erased_slot[of _ PAGE1_BASE_ADDRESS] in \<open>auto simp: other_page_def\<close>)
  moreover have "EE_ReadVariable w s3 = (1, None)" if "w \<noteq> 0xFFFF" for w
  proof -
    have "read_loop (f_cells s3) PAGE0_BASE_ADDRESS w (PAGE_WORDS - 1) = read_loop (f_cells s3) PAGE0_BASE_ADDRESS w 0"
      by (rule read_loop_free) (use free that in \<open>auto simp: PAGE_WORDS_def\<close>)
    then show ?thesis unfolding EE_Read_ok[OF ok] by simp
  qed
  ultimately show ?thesis using s1(1) s2(1) s3(1) by (auto simp: EE_Format_def)
qed

section \<open>Floats\<close>

lemma join_halves: "push_bit 16 (ucast (ucast (drop_bit 16 (x :: u32)) :: u16)) OR ucast (ucast x :: u16) = x"
  by (rule bit_word_eqI) (auto simp: bit_simps not_less)

lemma float_round_trip:
  assumes ok: "ee_ok s b n" and n: "n + 2 < PAGE_WORDS" and v: "v1 \<noteq> 0xFFFF" "v2 \<noteq> 0xFFFF" "v1 \<noteq> v2"
    and nf: "\<And>i. no_fault c i"
  shows "\<exists>s'. EE_write_Float c v1 v2 x (dv, s) = (COMPLETE, dv, s') \<and> ee_ok s' b (n + 2)
    \<and> EE_read_Float l h v1 v2 s' = x
    \<and> (\<forall>w. w \<noteq> 0xFFFF \<longrightarrow> w \<noteq> v1 \<longrightarrow> w \<noteq> v2 \<longrightarrow> EE_ReadVariable w s' = EE_ReadVariable w s)"
proof -
  obtain st1 dv1 s1 where w1: "EE_WriteVariable c v1 (ucast x) (dv, s) = (st1, dv1, s1)" by (metis prod_cases3)
  have n1: "n + 1 < PAGE_WORDS" using n by simp
  note k1 = EE_Write_ok[OF ok n1 v(1) w1]
  have 1: "st1 = COMPLETE" "dv1 = dv" "ee_ok s1 b (n + 1)"
    "\<And>w. w \<noteq> 0xFFFF \<Longrightarrow> EE_ReadVariable w s1 = (if w = v1 then (0, Some (ucast x)) else EE_ReadVariable w s)"
    using k1 nf by auto
  obtain st2 dv2 s2 where w2: "EE_WriteVariable c v2 (ucast (drop_bit 16 x)) (dv, s1) = (st2, dv2, s2)" by (metis prod_cases3)
  have n2: "n + 1 + 1 < PAGE_WORDS" using n by simp
  note k2 = EE_Write_ok[OF 1(3) n2 v(2) w2]
  have 2: "st2 = COMPLETE" "dv2 = dv" "ee_ok s2 b (n + 2)"
    "\<And>w. w \<noteq> 0xFFFF \<Longrightarrow> EE_ReadVariable w s2 = (if w = v2 then (0, Some (ucast (drop_bit 16 x))) else EE_ReadVariable w s1)"
    using k2 nf by auto
  have "EE_write_Float c v1 v2 x (dv, s) = (COMPLETE, dv, s2)"
    using w1 w2 1 2 by (simp add: EE_write_Float_def)
  moreover have "EE_read_Float l h v1 v2 s2 = x"
    using 1(4)[OF v(1)] 2(4)[OF v(1)] 2(4)[OF v(2)] v(3) by (simp add: EE_read_Float_def Let_def join_halves)
  ultimately show ?thesis using 2(3,4) 1(4) by (intro exI[of _ s2] conjI allI impI) simp_all
qed

text \<open>The version word after start up.\<close>

lemma EE_Read_found: "snd (EE_ReadVariable v s) = Some x \<Longrightarrow> EE_ReadVariable v s = (0, Some x)"
  using read_loop_status[of "f_cells s" _ v "PAGE_WORDS - 1"]
  by (auto simp: EE_ReadVariable_def Let_def prod_eq_iff split: if_splits)

lemma setup_FLASH_version:
  assumes r: "EE_Init c (dv, FLASH_Unlock s) = (st, dv1, s1)" "ready_fl s1" and nf: "\<And>i. no_fault c i"
    and g: "g \<noteq> eeprom_data_structure_version"
  shows "EE_ReadVariable 0 (snd (setup_FLASH c g (dv, s))) = (0, Some eeprom_data_structure_version)"
proof -
  have t: "VirtAddVarTab ! 0 = 0" by (simp add: VirtAddVarTab_def)
  let ?v = "case snd (EE_ReadVariable 0 s1) of None \<Rightarrow> g | Some x \<Rightarrow> x"
  show ?thesis
  proof (cases "?v = eeprom_data_structure_version")
    case True
    then have "snd (EE_ReadVariable 0 s1) = Some eeprom_data_structure_version" using g by (auto split: option.splits)
    then show ?thesis using r True EE_Read_found by (simp add: setup_FLASH_def t Let_def)
  next
    case False
    obtain s2 where s2: "EE_Format c s1 = (FLASH_COMPLETE, s2)" "ee_ok s2 PAGE0_BASE_ADDRESS 0"
      using EE_Format_ok[OF r(2) nf] by blast
    obtain st3 dv3 s3 where w: "EE_WriteVariable c 0 eeprom_data_structure_version (dv1, s2) = (st3, dv3, s3)" by (metis prod_cases3)
    have "EE_ReadVariable 0 s3 = (0, Some eeprom_data_structure_version)"
      using EE_Write_ok[OF s2(2) _ _ w] nf by (simp add: PAGE_WORDS_def)
    then show ?thesis using r False s2 w by (simp add: setup_FLASH_def t Let_def)
  qed
qed

section \<open>Several variables\<close>

text \<open>Writing a list of variables one after the other, as long as the page has room.\<close>

definition ee_write :: "controller \<Rightarrow> u16 \<times> u16 \<Rightarrow> u16 \<times> flash \<Rightarrow> u16 \<times> flash" where
  "ee_write c vd ds = snd (EE_WriteVariable c (fst vd) (snd vd) ds)"

lemma ee_write_list:
  assumes "ee_ok s b n" "n + length xs < PAGE_WORDS" "\<forall>vd \<in> set xs. fst vd \<noteq> 0xFFFF"
    "distinct (map fst xs)" "\<And>i. no_fault c i"
  shows "\<exists>s'. fold (ee_write c) xs (dv, s) = (dv, s') \<and> ee_ok s' b (n + length xs)
    \<and> (\<forall>w. w \<noteq> 0xFFFF \<longrightarrow> EE_ReadVariable w s' =
         (case map_of xs w of None \<Rightarrow> EE_ReadVariable w s | Some d \<Rightarrow> (0, Some d)))"
  using assms(1-4)
proof (induction xs arbitrary: s n)
  case (Cons vd xs)
  obtain v d where vd: "vd = (v, d)" by fastforce
  obtain st dv' s1 where e: "EE_WriteVariable c v d (dv, s) = (st, dv', s1)" by (metis prod_cases3)
  have "n + 1 < PAGE_WORDS" "v \<noteq> 0xFFFF" using Cons.prems by (simp_all add: vd)
  note w = EE_Write_ok[OF Cons.prems(1) this e]
  then have st: "st = COMPLETE" "dv' = dv" using assms(5) by auto
  have 1: "ee_ok s1 b (n + 1)" using w st by blast
  have r1: "EE_ReadVariable u s1 = (if u = v then (0, Some d) else EE_ReadVariable u s)" if "u \<noteq> 0xFFFF" for u
    using w st that by auto
  from Cons.IH[OF 1] Cons.prems obtain s' where s': "fold (ee_write c) xs (dv, s1) = (dv, s')"
    "ee_ok s' b (n + 1 + length xs)"
    "\<And>u. u \<noteq> 0xFFFF \<Longrightarrow> EE_ReadVariable u s' =
       (case map_of xs u of None \<Rightarrow> EE_ReadVariable u s1 | Some d \<Rightarrow> (0, Some d))" by auto
  have "v \<notin> fst ` set xs" using Cons.prems(4) by (simp add: vd)
  then have m: "map_of xs v = None" by (simp add: map_of_eq_None_iff)
  have "fold (ee_write c) (vd # xs) (dv, s) = (dv, s')" using e st s'(1) by (simp add: ee_write_def vd)
  moreover have "EE_ReadVariable u s' = (case map_of (vd # xs) u of None \<Rightarrow> EE_ReadVariable u s | Some d \<Rightarrow> (0, Some d))"
    if "u \<noteq> 0xFFFF" for u
    using s'(3)[OF that] r1[OF that] m by (cases "u = v") (auto simp: vd split: option.splits)
  ultimately show ?case using s'(2) by auto
qed simp

section \<open>A blank device\<close>

definition blank_flash :: flash where
  "blank_flash = \<lparr>f_CR = 0, f_SR = 0, f_key = False, f_polls = 0, f_ops = 0, f_cells = (\<lambda>_. 0xFFFF)\<rparr>"

definition good_controller :: controller where
  "good_controller = \<lparr>c_polls = (\<lambda>k. k + 2), c_faults = (\<lambda>_. 0)\<rparr>"

lemma blank_ready: "ready_fl blank_flash" "no_fault good_controller i"
  by (simp_all add: ready_fl_def quiet_def blank_flash_def no_fault_def good_controller_def)

definition formatted :: flash where
  "formatted = snd (EE_Format good_controller blank_flash)"

lemma formatted_ok: "ee_ok formatted PAGE0_BASE_ADDRESS 0" "w \<noteq> 0xFFFF \<Longrightarrow> EE_ReadVariable w formatted = (1, None)"
  using EE_Format_ok[OF blank_ready] by (auto simp: formatted_def)

lemma init_formatted: "EE_Init good_controller (0, blank_flash) = (COMPLETE, 0, formatted)"
  using EE_Format_ok[OF blank_ready]
  by (auto simp: EE_Init_def init_format_def formatted_def blank_flash_def ERASED_def VALID_PAGE_def RECEIVE_DATA_def)

lemma unlock_blank: "FLASH_Unlock blank_flash = blank_flash"
  by (simp add: FLASH_Unlock_def blank_flash_def)

text \<open>A controller on which every operation fails.\<close>

definition bad_controller :: controller where
  "bad_controller = \<lparr>c_polls = (\<lambda>_. 0), c_faults = (\<lambda>_. FLASH_FLAG_WRPERR)\<rparr>"

lemma bad_write: "EE_WriteVariable bad_controller v d (dv, formatted) \<noteq> (COMPLETE, dv', s')"
proof
  assume e: "EE_WriteVariable bad_controller v d (dv, formatted) = (COMPLETE, dv', s')"
  have q: "quiet formatted" using formatted_ok(1) by (simp add: ee_ok_def ready_fl_def)
  have p: "FLASH_ProgramHalfWord bad_controller a x s \<noteq> (FLASH_COMPLETE, t)" if "quiet s" for a x s t
    using FLASH_ProgramHalfWord_spec[OF that, of bad_controller a x FLASH_COMPLETE t]
    by (auto simp: bad_controller_def fault_flags_def FLASH_FLAG_WRPERR_def)
  obtain st1 s1 where v: "EE_VerifyPageFullWriteVariable bad_controller v d formatted = (st1, s1)" by fastforce
  have q1: "quiet s1" using Verify_status[OF q v] by simp
  have "st1 \<noteq> COMPLETE"
  proof
    assume "st1 = COMPLETE"
    then obtain a x s t where "FLASH_ProgramHalfWord bad_controller a x formatted = (FLASH_COMPLETE, t)"
      using v by (auto simp: EE_VerifyPageFullWriteVariable_def Let_def split: if_splits option.splits prod.splits)
    then show False using p[OF q] by blast
  qed
  moreover have "EE_PageTransfer bad_controller v d (dv, s1) \<noteq> (COMPLETE, dv', s')"
    using p[OF q1] by (auto simp: EE_PageTransfer_def Let_def split: if_splits prod.splits)
  ultimately show False using e v by (auto simp: EE_WriteVariable_def split: if_splits)
qed

end
