(* ===== verification/Floats.thy ===== *)
theory Floats
  imports Prelude Complex_Main "HOL-Library.Log_Nat"
begin

text \<open>
  The floating-point arithmetic the application is written in: \<^verbatim>\<open>float\<close> and
  \<^verbatim>\<open>double\<close> are the IEEE 754 formats binary32 and binary64, every operation the
  exact one followed by rounding to the nearest value, ties to even, with infinities and
  a NaN. Finite values are rationals, so concrete inputs evaluate.

  Two things are left out: the sign of a zero (no expression of the application divides
  by a zero that could be negative) and the flushing of denormal numbers that some
  compilers choose.
\<close>

section \<open>Rounding\<close>

text \<open>To the nearest integer, ties to the even one.\<close>

definition rne :: "rat \<Rightarrow> int" where
  "rne x = (let n = \<lfloor>x\<rfloor>; d = x - of_int n
            in if d < 1 / 2 \<or> d = 1 / 2 \<and> even n then n else n + 1)"

text \<open>The exponent of a positive number: \<open>2 powi flog2 x \<le> x < 2 powi (flog2 x + 1)\<close>.\<close>

definition flog2 :: "rat \<Rightarrow> int" where
  "flog2 x = (if 1 \<le> x then int (floorlog 2 (nat \<lfloor>x\<rfloor>)) - 1
              else - int (floorlog 2 (nat (\<lceil>1 / x\<rceil> - 1))))"

text \<open>\<open>p\<close> is the precision in bits, \<open>q\<close> the smallest exponent of a last place.\<close>

definition last_place :: "nat \<Rightarrow> int \<Rightarrow> rat \<Rightarrow> int" where
  "last_place p q x = max q (flog2 \<bar>x\<bar> - (int p - 1))"

definition round_to :: "nat \<Rightarrow> int \<Rightarrow> rat \<Rightarrow> rat" where
  "round_to p q x =
     (if x = 0 then 0
      else of_int (rne (x / 2 powi last_place p q x)) * 2 powi last_place p q x)"

lemma rne_le: "x \<le> of_int n \<Longrightarrow> rne x \<le> n"
proof -
  assume x: "x \<le> of_int n"
  show ?thesis
  proof (cases "x = of_int n")
    case True then show ?thesis by (simp add: rne_def)
  next
    case False
    then have "\<lfloor>x\<rfloor> < n" using x by (simp add: floor_less_iff)
    then show ?thesis by (simp add: rne_def Let_def)
  qed
qed

lemma rne_ge: "of_int n \<le> x \<Longrightarrow> n \<le> rne x"
  by (simp add: rne_def Let_def le_floor_iff) (simp add: le_floor_iff add_increasing2)

lemma rne_of_int [simp]: "rne (of_int n) = n"
  by (simp add: rne_def)

lemma rne_mono: assumes "x \<le> y" shows "rne x \<le> rne y"
proof (cases "\<lfloor>x\<rfloor> = \<lfloor>y\<rfloor>")
  case True
  then show ?thesis using assms by (auto simp: rne_def Let_def)
next
  case False
  then have f: "\<lfloor>x\<rfloor> + 1 \<le> \<lfloor>y\<rfloor>" using floor_mono[OF assms] by linarith
  have "rne x \<le> \<lfloor>x\<rfloor> + 1" by (simp add: rne_def Let_def)
  also have "\<dots> \<le> \<lfloor>y\<rfloor>" by (rule f)
  also have "\<dots> \<le> rne y" by (simp add: rne_def Let_def)
  finally show ?thesis .
qed

lemma rne_minus: "rne (- x) = - rne x"
proof (cases "x = of_int \<lfloor>x\<rfloor>")
  case True
  then have "rne (- x) = rne (of_int (- \<lfloor>x\<rfloor>))" by simp
  also have "\<dots> = - rne (of_int \<lfloor>x\<rfloor>)" unfolding rne_of_int by simp
  also have "\<dots> = - rne x" using True by simp
  finally show ?thesis .
next
  case False
  define n where "n = \<lfloor>x\<rfloor>"
  have x: "of_int n < x" "x < of_int n + 1"
    using False floor_correct[of x] by (auto simp: n_def le_less)
  have m: "\<lfloor>- x\<rfloor> = - n - 1" using x by (intro floor_unique) auto
  have d: "- x - of_int (- n - 1) = 1 - (x - of_int n)" by simp
  show ?thesis
    unfolding rne_def Let_def m d n_def[symmetric] by (auto simp: field_simps)
qed

lemma pow2_of_nat: "(2::rat) ^ k = rat_of_nat (2 ^ k)"
  by simp

lemma flog2_bounds:
  assumes "0 < x" shows "2 powi flog2 x \<le> x" "x < 2 powi (flog2 x + 1)"
proof -
  show "2 powi flog2 x \<le> x" "x < 2 powi (flog2 x + 1)"
  proof (atomize (full), cases "1 \<le> x")
    case True
    define n where "n = nat \<lfloor>x\<rfloor>"
    have n: "0 < n" "rat_of_nat n \<le> x" "x < rat_of_nat (n + 1)"
      using True floor_correct[of x] by (auto simp: n_def)
    have b: "2 ^ (floorlog 2 n - 1) \<le> n" "n + 1 \<le> 2 ^ floorlog 2 n"
      using floorlog_bounds[OF n(1), of 2] by simp_all
    have "0 < floorlog 2 n" using n(1) floorlog_eq_zero_iff[of 2 n] by simp
    then have e: "flog2 x = int (floorlog 2 n - 1)" "flog2 x + 1 = int (floorlog 2 n)"
      using True by (simp_all add: flog2_def n_def)
    have "(2::rat) ^ (floorlog 2 n - 1) \<le> x"
      unfolding pow2_of_nat using order_trans[OF of_nat_mono[OF b(1)] n(2)] .
    moreover have "x < 2 ^ floorlog 2 n"
      unfolding pow2_of_nat using less_le_trans[OF n(3) of_nat_mono[OF b(2)]] .
    ultimately show "2 powi flog2 x \<le> x \<and> x < 2 powi (flog2 x + 1)"
      by (simp only: e(2) power_int_of_nat) (simp only: e(1) power_int_of_nat)
  next
    case False
    define n where "n = nat (\<lceil>1 / x\<rceil> - 1)"
    have y: "1 < 1 / x" using False assms by simp
    then have "2 \<le> \<lceil>1 / x\<rceil>" by linarith
    then have i: "int n = \<lceil>1 / x\<rceil> - 1" unfolding n_def by linarith
    then have "rat_of_nat n = rat_of_int (\<lceil>1 / x\<rceil> - 1)" by (metis of_int_of_nat_eq)
    moreover have "0 < n" using i \<open>2 \<le> \<lceil>1 / x\<rceil>\<close> by linarith
    ultimately have n: "0 < n" "rat_of_nat n < 1 / x" "1 / x \<le> rat_of_nat (n + 1)"
      using ceiling_correct[of "1 / x"] by simp_all
    have b: "2 ^ (floorlog 2 n - 1) \<le> n" "n + 1 \<le> 2 ^ floorlog 2 n"
      using floorlog_bounds[OF n(1), of 2] by simp_all
    have p: "0 < floorlog 2 n" using n(1) floorlog_eq_zero_iff[of 2 n] by simp
    then have e: "flog2 x = - int (floorlog 2 n)" "flog2 x + 1 = - int (floorlog 2 n - 1)"
      using False by (simp_all add: flog2_def n_def)
    have "(2::rat) ^ (floorlog 2 n - 1) < 1 / x"
      unfolding pow2_of_nat using le_less_trans[OF of_nat_mono[OF b(1)] n(2)] .
    then have 1: "x < 1 / 2 ^ (floorlog 2 n - 1)" using assms by (simp add: field_simps)
    have "1 / x \<le> (2::rat) ^ floorlog 2 n"
      unfolding pow2_of_nat using order_trans[OF n(3) of_nat_mono[OF b(2)]] .
    then have "1 / 2 ^ floorlog 2 n \<le> x" using assms by (simp add: field_simps)
    with 1 show "2 powi flog2 x \<le> x \<and> x < 2 powi (flog2 x + 1)"
      by (simp only: e(2) power_int_minus_divide power_int_of_nat)
        (simp only: e(1) power_int_minus_divide power_int_of_nat)
  qed
qed

text \<open>A number is on the grid of \<open>e\<close> when it is a multiple of \<open>2 powi e\<close>.\<close>

lemma round_to_on_grid:
  assumes "x = of_int m * 2 powi e" "last_place p q x \<le> e" shows "round_to p q x = x"
proof (cases "x = 0")
  case False
  define u where "u = last_place p q x"
  have "2 powi e = 2 powi u * (2::rat) powi (e - u)" by (simp flip: power_int_add)
  also have "(2::rat) powi (e - u) = of_int (2 ^ nat (e - u))"
    using assms(2) by (simp add: u_def power_int_nonneg_exp)
  finally have "x / 2 powi u = of_int (m * 2 ^ nat (e - u))" using assms(1) by simp
  then have "of_int (rne (x / 2 powi u)) = x / 2 powi u" by (metis rne_of_int)
  then show ?thesis by (simp add: round_to_def flip: u_def)
qed (simp add: round_to_def)

lemma last_place_abs [simp]: "last_place p q (- x) = last_place p q x"
  by (simp add: last_place_def)

lemma round_to_0 [simp]: "round_to p q 0 = 0"
  by (simp add: round_to_def)

lemma round_to_minus: "round_to p q (- x) = - round_to p q x"
  by (simp add: round_to_def rne_minus)

lemma pow2_less_iff: "(2::rat) powi a < 2 powi b \<longleftrightarrow> a < b"
  by (meson linorder_not_less one_less_numeral_iff order_less_imp_le power_int_increasing
      power_int_strict_increasing semiring_norm(76))

lemma flog2_le:
  assumes "0 < x" "x < 2 powi (k + 1)" shows "flog2 x \<le> k"
proof -
  have "(2::rat) powi flog2 x < 2 powi (k + 1)" using flog2_bounds(1)[OF assms(1)] assms(2) by simp
  then show ?thesis by (simp add: pow2_less_iff)
qed

lemma last_place_mono:
  assumes "0 < x" "x \<le> y" shows "last_place p q x \<le> last_place p q y"
proof -
  have "flog2 x \<le> flog2 y"
    using assms flog2_bounds(2)[of y] by (intro flog2_le) auto
  then show ?thesis using assms by (simp add: last_place_def)
qed

lemma round_to_nonneg: "0 \<le> x \<Longrightarrow> 0 \<le> round_to p q x"
  using rne_ge[of 0 "x / 2 powi last_place p q x"] by (simp add: round_to_def)

text \<open>A power of two that is at least as large as the last place is a fixed bound.\<close>

lemma round_to_le_grid:
  assumes "x \<le> y" "y = of_int m * 2 powi e" "last_place p q x \<le> e"
  shows "round_to p q x \<le> y"
proof (cases "x = 0")
  case True then show ?thesis using assms(1) by simp
next
  case False
  define u where "u = last_place p q x"
  have "2 powi e = 2 powi u * (2::rat) powi (e - u)" by (simp flip: power_int_add)
  also have "(2::rat) powi (e - u) = of_int (2 ^ nat (e - u))"
    using assms(3) by (simp add: u_def power_int_nonneg_exp)
  finally have y: "y = of_int (m * 2 ^ nat (e - u)) * 2 powi u" using assms(2) by simp
  then have "x / 2 powi u \<le> of_int (m * 2 ^ nat (e - u))" using assms(1) by (simp add: divide_le_eq)
  then have "rne (x / 2 powi u) \<le> m * 2 ^ nat (e - u)" by (rule rne_le)
  then have "rat_of_int (rne (x / 2 powi u)) \<le> of_int (m * 2 ^ nat (e - u))" by (simp only: of_int_le_iff)
  then show ?thesis using False y by (simp add: round_to_def mult_right_mono flip: u_def)
qed

lemma round_to_ge_grid:
  assumes "y \<le> x" "y = of_int m * 2 powi e" "last_place p q x \<le> e"
  shows "y \<le> round_to p q x"
  using round_to_le_grid[of "- x" "- y" "- m" e p q] assms by (simp add: round_to_minus)

lemma round_to_mono_pos:
  assumes "0 < p" "0 < x" "x \<le> y" shows "round_to p q x \<le> round_to p q y"
proof (cases "last_place p q x = last_place p q y")
  case True
  have "rne (x / 2 powi last_place p q y) \<le> rne (y / 2 powi last_place p q y)"
    using assms by (intro rne_mono) (simp add: divide_right_mono)
  then show ?thesis using True assms by (simp add: round_to_def mult_right_mono)
next
  case False
  then have l: "last_place p q x < last_place p q y" using last_place_mono[OF assms(2,3), of p q] by simp
  define k where "k = flog2 y"
  have y: "last_place p q y = k - (int p - 1)" "q \<le> k - (int p - 1)" "flog2 x < k"
    using l assms by (auto simp: last_place_def k_def)
  have k: "(2::rat) powi k = of_int 1 * 2 powi k" by simp
  have "x \<le> 2 powi (flog2 x + 1)" using flog2_bounds(2)[OF assms(2)] by simp
  also have "(2::rat) powi (flog2 x + 1) \<le> 2 powi k" using y(3) by (intro power_int_increasing) auto
  finally have "round_to p q x \<le> 2 powi k"
    using l y(1) assms(1) by (intro round_to_le_grid[OF _ k]) auto
  also have "2 powi k \<le> round_to p q y"
    using y(1) assms flog2_bounds(1)[of y] by (intro round_to_ge_grid[OF _ k]) (auto simp: k_def)
  finally show ?thesis .
qed

lemma round_to_mono:
  assumes "0 < p" "x \<le> y" shows "round_to p q x \<le> round_to p q y"
proof -
  consider "0 < x" | "x \<le> 0" "0 \<le> y" | "y < 0" by linarith
  then show ?thesis
  proof cases
    case 1 then show ?thesis using assms by (intro round_to_mono_pos)
  next
    case 2
    have "0 \<le> round_to p q (- x)" using 2 by (intro round_to_nonneg) simp
    then have "round_to p q x \<le> 0" by (simp add: round_to_minus)
    also have "0 \<le> round_to p q y" using 2 by (intro round_to_nonneg)
    finally show ?thesis .
  next
    case 3
    have "round_to p q (- y) \<le> round_to p q (- x)" using 3 assms by (intro round_to_mono_pos) auto
    then show ?thesis by (simp add: round_to_minus)
  qed
qed

section \<open>Values and operations\<close>

text \<open>\<open>Infty True\<close> is the negative infinity.\<close>

datatype flt = Fin rat | Infty bool | NaN

definition round_flt :: "nat \<Rightarrow> int \<Rightarrow> nat \<Rightarrow> rat \<Rightarrow> flt" where
  "round_flt p q m x = (let r = round_to p q x in if \<bar>r\<bar> < 2 ^ m then Fin r else Infty (r < 0))"

definition round32 :: "rat \<Rightarrow> flt" where "round32 = round_flt 24 (- 149) 128"
definition round64 :: "rat \<Rightarrow> flt" where "round64 = round_flt 53 (- 1074) 1024"

fun flt_neg :: "flt \<Rightarrow> flt" where
  "flt_neg (Fin x) = Fin (- x)"
| "flt_neg (Infty s) = Infty (\<not> s)"
| "flt_neg NaN = NaN"

fun flt_add :: "(rat \<Rightarrow> flt) \<Rightarrow> flt \<Rightarrow> flt \<Rightarrow> flt" where
  "flt_add rnd (Fin x) (Fin y) = rnd (x + y)"
| "flt_add rnd (Fin x) (Infty t) = Infty t"
| "flt_add rnd (Infty s) (Fin y) = Infty s"
| "flt_add rnd (Infty s) (Infty t) = (if s = t then Infty s else NaN)"
| "flt_add rnd NaN y = NaN"
| "flt_add rnd x NaN = NaN"

fun flt_mul :: "(rat \<Rightarrow> flt) \<Rightarrow> flt \<Rightarrow> flt \<Rightarrow> flt" where
  "flt_mul rnd (Fin x) (Fin y) = rnd (x * y)"
| "flt_mul rnd (Fin x) (Infty t) = (if x = 0 then NaN else Infty ((x < 0) \<noteq> t))"
| "flt_mul rnd (Infty s) (Fin y) = (if y = 0 then NaN else Infty (s \<noteq> (y < 0)))"
| "flt_mul rnd (Infty s) (Infty t) = Infty (s \<noteq> t)"
| "flt_mul rnd NaN y = NaN"
| "flt_mul rnd x NaN = NaN"

fun flt_div :: "(rat \<Rightarrow> flt) \<Rightarrow> flt \<Rightarrow> flt \<Rightarrow> flt" where
  "flt_div rnd (Fin x) (Fin y) =
     (if y = 0 then (if x = 0 then NaN else Infty (x < 0)) else rnd (x / y))"
| "flt_div rnd (Fin x) (Infty t) = Fin 0"
| "flt_div rnd (Infty s) (Fin y) = Infty (s \<noteq> (y < 0))"
| "flt_div rnd (Infty s) (Infty t) = NaN"
| "flt_div rnd NaN y = NaN"
| "flt_div rnd x NaN = NaN"

fun flt_less :: "flt \<Rightarrow> flt \<Rightarrow> bool" where
  "flt_less (Fin x) (Fin y) \<longleftrightarrow> x < y"
| "flt_less (Fin x) (Infty t) \<longleftrightarrow> \<not> t"
| "flt_less (Infty s) (Fin y) \<longleftrightarrow> s"
| "flt_less (Infty s) (Infty t) \<longleftrightarrow> s \<and> \<not> t"
| "flt_less NaN y \<longleftrightarrow> False"
| "flt_less x NaN \<longleftrightarrow> False"

lemma flt_nan [simp]:
  "flt_less x NaN = False" "flt_add rnd x NaN = NaN" "flt_mul rnd x NaN = NaN" "flt_div rnd x NaN = NaN"
  by (cases x; simp)+

text \<open>The equality of C: a NaN is not equal to itself.\<close>

definition flt_eq :: "flt \<Rightarrow> flt \<Rightarrow> bool" where
  "flt_eq x y \<longleftrightarrow> x = y \<and> x \<noteq> NaN"

text \<open>
  Conversion to \<^verbatim>\<open>int\<close> drops the fraction. C defines it for values in range only; outside
  it is what the conversion instruction of the target does: it saturates, and gives 0 for
  a NaN.
\<close>

definition rat_trunc :: "rat \<Rightarrow> int" where
  "rat_trunc x = (if 0 \<le> x then \<lfloor>x\<rfloor> else \<lceil>x\<rceil>)"

fun flt_to_int :: "flt \<Rightarrow> int" where
  "flt_to_int (Fin x) = max (- (2 ^ 31)) (min (2 ^ 31 - 1) (rat_trunc x))"
| "flt_to_int (Infty s) = (if s then - (2 ^ 31) else 2 ^ 31 - 1)"
| "flt_to_int NaN = 0"

section \<open>The types \<open>float\<close> and \<open>double\<close>\<close>

datatype float32 = F32 (flt32: flt)
datatype float64 = F64 (flt64: flt)

instantiation float32 :: "{zero, plus, minus, uminus, times, inverse, ord}"
begin

definition zero_float32 :: float32 where "0 = F32 (Fin 0)"
definition uminus_float32 :: "float32 \<Rightarrow> float32" where "- x = F32 (flt_neg (flt32 x))"
definition plus_float32 :: "float32 \<Rightarrow> float32 \<Rightarrow> float32" where
  "x + y = F32 (flt_add round32 (flt32 x) (flt32 y))"
definition minus_float32 :: "float32 \<Rightarrow> float32 \<Rightarrow> float32" where
  "x - y = F32 (flt_add round32 (flt32 x) (flt_neg (flt32 y)))"
definition times_float32 :: "float32 \<Rightarrow> float32 \<Rightarrow> float32" where
  "x * y = F32 (flt_mul round32 (flt32 x) (flt32 y))"
definition divide_float32 :: "float32 \<Rightarrow> float32 \<Rightarrow> float32" where
  "x div y = F32 (flt_div round32 (flt32 x) (flt32 y))"
definition inverse_float32 :: "float32 \<Rightarrow> float32" where
  "inverse x = F32 (flt_div round32 (Fin 1) (flt32 x))"
definition less_float32 :: "float32 \<Rightarrow> float32 \<Rightarrow> bool" where
  "x < y \<longleftrightarrow> flt_less (flt32 x) (flt32 y)"
definition less_eq_float32 :: "float32 \<Rightarrow> float32 \<Rightarrow> bool" where
  "x \<le> y \<longleftrightarrow> flt_less (flt32 x) (flt32 y) \<or> flt_eq (flt32 x) (flt32 y)"

instance ..

end

instantiation float64 :: "{zero, plus, minus, uminus, times, inverse, ord}"
begin

definition zero_float64 :: float64 where "0 = F64 (Fin 0)"
definition uminus_float64 :: "float64 \<Rightarrow> float64" where "- x = F64 (flt_neg (flt64 x))"
definition plus_float64 :: "float64 \<Rightarrow> float64 \<Rightarrow> float64" where
  "x + y = F64 (flt_add round64 (flt64 x) (flt64 y))"
definition minus_float64 :: "float64 \<Rightarrow> float64 \<Rightarrow> float64" where
  "x - y = F64 (flt_add round64 (flt64 x) (flt_neg (flt64 y)))"
definition times_float64 :: "float64 \<Rightarrow> float64 \<Rightarrow> float64" where
  "x * y = F64 (flt_mul round64 (flt64 x) (flt64 y))"
definition divide_float64 :: "float64 \<Rightarrow> float64 \<Rightarrow> float64" where
  "x div y = F64 (flt_div round64 (flt64 x) (flt64 y))"
definition inverse_float64 :: "float64 \<Rightarrow> float64" where
  "inverse x = F64 (flt_div round64 (Fin 1) (flt64 x))"
definition less_float64 :: "float64 \<Rightarrow> float64 \<Rightarrow> bool" where
  "x < y \<longleftrightarrow> flt_less (flt64 x) (flt64 y)"
definition less_eq_float64 :: "float64 \<Rightarrow> float64 \<Rightarrow> bool" where
  "x \<le> y \<longleftrightarrow> flt_less (flt64 x) (flt64 y) \<or> flt_eq (flt64 x) (flt64 y)"

instance ..

end

text \<open>Literals, and the conversions between the types.\<close>

definition f32 :: "rat \<Rightarrow> float32" where "f32 x = F32 (round32 x)"
definition f64 :: "rat \<Rightarrow> float64" where "f64 x = F64 (round64 x)"

definition double_of :: "float32 \<Rightarrow> float64" where "double_of x = F64 (flt32 x)"

definition float_of :: "float64 \<Rightarrow> float32" where
  "float_of x = F32 (case flt64 x of Fin r \<Rightarrow> round32 r | y \<Rightarrow> y)"

definition int_of_f32 :: "float32 \<Rightarrow> int" where "int_of_f32 x = flt_to_int (flt32 x)"

definition is_nan :: "float32 \<Rightarrow> bool" where "is_nan x \<longleftrightarrow> flt32 x = NaN"

fun finite32 :: "float32 \<Rightarrow> bool" where
  "finite32 (F32 (Fin r)) = True"
| "finite32 _ = False"

section \<open>Representable numbers and ranges\<close>

definition rep32 :: "rat \<Rightarrow> bool" where "rep32 x \<longleftrightarrow> round32 x = Fin x"
definition rep64 :: "rat \<Rightarrow> bool" where "rep64 x \<longleftrightarrow> round64 x = Fin x"

lemma round_flt_fixed:
  assumes "x = of_int m * 2 powi e" "\<bar>m\<bar> < 2 ^ p" "q \<le> e" "e + int p \<le> int k"
  shows "round_flt p q k x = Fin x"
proof (cases "x = 0")
  case True then show ?thesis by (simp add: round_flt_def)
next
  case False
  have "rat_of_int \<bar>m\<bar> < of_int (2 ^ p)" using assms(2) by (simp only: of_int_less_iff)
  then have "\<bar>x\<bar> < 2 ^ p * 2 powi e"
    unfolding assms(1) abs_mult by (simp add: mult_strict_right_mono)
  also have "(2::rat) ^ p * 2 powi e = 2 powi (e + int p)"
    by (simp add: power_int_add mult.commute)
  finally have x: "\<bar>x\<bar> < 2 powi (e + int p)" .
  then have "flog2 \<bar>x\<bar> \<le> e + int p - 1" using False by (intro flog2_le) simp_all
  then have "round_to p q x = x"
    using assms(3) by (intro round_to_on_grid[OF assms(1)]) (simp add: last_place_def)
  moreover have "(2::rat) powi (e + int p) \<le> 2 powi int k" using assms(4) by (intro power_int_increasing) auto
  then have "\<bar>x\<bar> < 2 ^ k" using x unfolding power_int_of_nat by simp
  ultimately show ?thesis by (simp add: round_flt_def)
qed

lemma rep32_dyadic: "\<lbrakk>x = of_int m * 2 powi e; \<bar>m\<bar> < 2 ^ 24; - 149 \<le> e; e \<le> 104\<rbrakk> \<Longrightarrow> rep32 x"
  unfolding rep32_def round32_def by (rule round_flt_fixed) simp_all

lemma rep64_dyadic: "\<lbrakk>x = of_int m * 2 powi e; \<bar>m\<bar> < 2 ^ 53; - 1074 \<le> e; e \<le> 971\<rbrakk> \<Longrightarrow> rep64 x"
  unfolding rep64_def round64_def by (rule round_flt_fixed) simp_all

lemma rep32_of_int: "\<bar>n\<bar> < 2 ^ 24 \<Longrightarrow> rep32 (of_int n)"
  by (rule rep32_dyadic[of _ n 0]) simp_all

lemma rep64_of_int: "\<bar>n\<bar> < 2 ^ 53 \<Longrightarrow> rep64 (of_int n)"
  by (rule rep64_dyadic[of _ n 0]) simp_all

lemma rep32_consts [simp]:
  "rep32 0" "rep32 1" "(numeral k :: int) < 2 ^ 24 \<Longrightarrow> rep32 (numeral k)"
  "(numeral k :: int) < 2 ^ 24 \<Longrightarrow> rep32 (- numeral k)" "rep32 (- 1)"
  using rep32_of_int[of 0] rep32_of_int[of 1] rep32_of_int[of "numeral k"]
    rep32_of_int[of "- numeral k"] rep32_of_int[of "- 1"] by simp_all

lemma rep64_consts [simp]:
  "rep64 0" "rep64 1" "(numeral k :: int) < 2 ^ 53 \<Longrightarrow> rep64 (numeral k)"
  "(numeral k :: int) < 2 ^ 53 \<Longrightarrow> rep64 (- numeral k)" "rep64 (- 1)"
  using rep64_of_int[of 0] rep64_of_int[of 1] rep64_of_int[of "numeral k"]
    rep64_of_int[of "- numeral k"] rep64_of_int[of "- 1"] by simp_all

lemma round_rep [simp]: "rep32 x \<Longrightarrow> round32 x = Fin x" "rep64 x \<Longrightarrow> round64 x = Fin x"
  by (simp_all add: rep32_def rep64_def)

lemma flt_0 [simp]: "flt32 0 = Fin 0" "flt64 0 = Fin 0"
  by (simp_all add: zero_float32_def zero_float64_def)

lemma flt_literal [simp]: "rep32 r \<Longrightarrow> flt32 (f32 r) = Fin r" "rep64 r \<Longrightarrow> flt64 (f64 r) = Fin r"
  by (simp_all add: f32_def f64_def)

lemma round32_neg: "round32 x = Fin r \<Longrightarrow> round32 (- x) = Fin (- r)"
  by (simp add: round32_def round_flt_def round_to_minus Let_def split: if_splits)

lemma round64_neg: "round64 x = Fin r \<Longrightarrow> round64 (- x) = Fin (- r)"
  by (simp add: round64_def round_flt_def round_to_minus Let_def split: if_splits)

text \<open>The relative error of a rounding to \<^verbatim>\<open>double\<close>, away from the ends of its range.\<close>

lemma rne_error: "\<bar>of_int (rne x) - x\<bar> \<le> 1 / 2"
  using floor_correct[of x] by (auto simp: rne_def Let_def abs_le_iff)

lemma round_to_error: "\<bar>round_to p q x - x\<bar> \<le> 2 powi last_place p q x / 2"
proof (cases "x = 0")
  case False
  define u :: rat where "u = 2 powi last_place p q x"
  have u: "0 < u" by (simp add: u_def)
  have "round_to p q x - x = (of_int (rne (x / u)) - x / u) * u"
    using False u by (simp add: round_to_def u_def left_diff_distrib)
  also have "\<bar>\<dots>\<bar> = \<bar>of_int (rne (x / u)) - x / u\<bar> * u" using u by (simp add: abs_mult)
  also have "\<dots> \<le> 1 / 2 * u" using rne_error u by (intro mult_right_mono) auto
  finally show ?thesis by (simp add: u_def)
qed simp

lemma round64_error:
  assumes "1 / 2 ^ 60 \<le> x" "x \<le> 2 ^ 60"
  shows "\<exists>r. round64 x = Fin r \<and> x - x / 2 ^ 53 \<le> r \<and> r \<le> x + x / 2 ^ 53"
proof -
  have x: "0 < x" using assms(1) by (rule less_le_trans[rotated]) simp
  have "(2::rat) powi (- 60) = 1 / 2 ^ 60"
    unfolding power_int_minus_divide[of "2::rat" 60] power_int_numeral ..
  then have "(2::rat) powi (- 60) < 2 powi (flog2 x + 1)"
    using assms(1) flog2_bounds(2)[OF x] by (simp only: order_le_less_trans)
  then have "- 60 < flog2 x + 1" by (simp only: pow2_less_iff)
  then have lp: "last_place 53 (- 1074) x = flog2 x - 52" using x by (simp add: last_place_def)
  have "2 powi last_place 53 (- 1074) x = 2 powi flog2 x / (2::rat) ^ 52"
    unfolding lp using power_int_add[of "2::rat" "flog2 x - 52" 52] by simp
  then have "\<bar>round_to 53 (- 1074) x - x\<bar> \<le> 2 powi flog2 x / 2 ^ 53"
    using round_to_error[of 53 "- 1074" x] by simp
  also have "\<dots> \<le> x / 2 ^ 53" using flog2_bounds(1)[OF x] by (intro divide_right_mono) auto
  finally have e: "\<bar>round_to 53 (- 1074) x - x\<bar> \<le> x / 2 ^ 53" .
  moreover have "x / 2 ^ 53 \<le> x" using x by (simp add: divide_le_eq)
  ultimately have "\<bar>round_to 53 (- 1074) x\<bar> \<le> 2 * x" using x by linarith
  also have "\<dots> \<le> 2 ^ 61" using assms(2) by simp
  also have "\<dots> < (2::rat) ^ 1024" by simp
  finally have "round64 x = Fin (round_to 53 (- 1074) x)" by (simp add: round64_def round_flt_def)
  moreover have "x - x / 2 ^ 53 \<le> round_to 53 (- 1074) x" "round_to 53 (- 1074) x \<le> x + x / 2 ^ 53"
    using e by linarith+
  ultimately show ?thesis by blast
qed

text \<open>Rounding does not leave a range whose ends are representable.\<close>

lemma round_flt_between:
  assumes "round_flt p q k l = Fin l'" "round_flt p q k h = Fin h'" "l \<le> x" "x \<le> h" "0 < p"
  shows "\<exists>r. round_flt p q k x = Fin r \<and> l' \<le> r \<and> r \<le> h'"
proof -
  have f: "round_to p q l = l'" "\<bar>l'\<bar> < 2 ^ k" "round_to p q h = h'" "\<bar>h'\<bar> < 2 ^ k"
    using assms(1,2) by (auto simp: round_flt_def Let_def split: if_splits)
  have "l' \<le> round_to p q x" "round_to p q x \<le> h'"
    using round_to_mono[OF assms(5,3), of q] round_to_mono[OF assms(5,4), of q] f by simp_all
  then show ?thesis using f by (auto simp: round_flt_def abs_less_iff)
qed

lemma round32_between:
  "\<lbrakk>round32 l = Fin l'; round32 h = Fin h'; l \<le> x; x \<le> h\<rbrakk> \<Longrightarrow> \<exists>r. round32 x = Fin r \<and> l' \<le> r \<and> r \<le> h'"
  unfolding round32_def by (rule round_flt_between) simp_all

lemma round32_within:
  "\<lbrakk>rep32 l; rep32 h; l \<le> x; x \<le> h\<rbrakk> \<Longrightarrow> \<exists>r. round32 x = Fin r \<and> l \<le> r \<and> r \<le> h"
  unfolding rep32_def by (rule round32_between)

lemma round64_within:
  "\<lbrakk>rep64 l; rep64 h; l \<le> x; x \<le> h\<rbrakk> \<Longrightarrow> \<exists>r. round64 x = Fin r \<and> l \<le> r \<and> r \<le> h"
  unfolding rep64_def round64_def by (rule round_flt_between) simp_all

fun flt_in :: "rat \<Rightarrow> rat \<Rightarrow> flt \<Rightarrow> bool" where
  "flt_in l h (Fin r) \<longleftrightarrow> l \<le> r \<and> r \<le> h"
| "flt_in l h _ \<longleftrightarrow> False"

abbreviation in32 :: "rat \<Rightarrow> rat \<Rightarrow> float32 \<Rightarrow> bool" where "in32 l h x \<equiv> flt_in l h (flt32 x)"
abbreviation in64 :: "rat \<Rightarrow> rat \<Rightarrow> float64 \<Rightarrow> bool" where "in64 l h x \<equiv> flt_in l h (flt64 x)"

lemma flt_in_iff: "flt_in l h x \<longleftrightarrow> (\<exists>r. x = Fin r \<and> l \<le> r \<and> r \<le> h)"
  by (cases x) simp_all

lemma flt_in_mono: "\<lbrakk>flt_in l h x; l' \<le> l; h \<le> h'\<rbrakk> \<Longrightarrow> flt_in l' h' x"
  by (cases x) simp_all

lemma in_round:
  "\<lbrakk>rep32 l; rep32 h; l \<le> x; x \<le> h\<rbrakk> \<Longrightarrow> flt_in l h (round32 x)"
  "\<lbrakk>rep64 l; rep64 h; l \<le> x; x \<le> h\<rbrakk> \<Longrightarrow> flt_in l h (round64 x)"
  unfolding flt_in_iff by (rule round32_within round64_within; assumption)+

lemma in32_add:
  "\<lbrakk>in32 a b x; in32 c d y; rep32 l; rep32 h; l \<le> a + c; b + d \<le> h\<rbrakk> \<Longrightarrow> in32 l h (x + y)"
  by (auto simp: plus_float32_def flt_in_iff intro!: in_round[unfolded flt_in_iff])

lemma in32_mult_nonneg:
  "\<lbrakk>in32 0 b x; in32 0 d y; rep32 h; b * d \<le> h\<rbrakk> \<Longrightarrow> in32 0 h (x * y)"
  by (auto simp: times_float32_def flt_in_iff
      intro!: in_round[unfolded flt_in_iff] order_trans[OF mult_mono])

lemma in32_div_const:
  "\<lbrakk>in32 0 b x; y = F32 (Fin c); 0 < c; rep32 h; b \<le> h * c\<rbrakk> \<Longrightarrow> in32 0 h (x div y)"
  by (auto simp: divide_float32_def flt_in_iff divide_le_eq intro!: in_round[unfolded flt_in_iff])

end
