(* ===== verification/Motors.thy ===== *)
theory Motors
  imports Floats
begin

text \<open>
  The motor outputs, \<^verbatim>\<open>Quad/Motoren.cpp\<close>: a demand between 0 and 1 becomes the pulse
  width of a speed controller in microseconds. The PWM driver is the compare registers of
  the four channels of timer 5, which \<^verbatim>\<open>pwmEnableChannel\<close> sets.
\<close>

section \<open>State and operations\<close>

record motoren =
  width1 :: int
  width2 :: int
  width3 :: int
  width4 :: int
  pwm_width :: "nat \<Rightarrow> u32"    \<comment> \<open>compare register of each channel\<close>

definition pwmEnableChannel :: "nat \<Rightarrow> int \<Rightarrow> motoren \<Rightarrow> motoren" where
  "pwmEnableChannel ch w m = m\<lparr>pwm_width := (pwm_width m)(ch := word_of_int w)\<rparr>"

definition setup_Motoren :: "motoren \<Rightarrow> motoren" where
  "setup_Motoren m =
     (let m = m\<lparr>width1 := 700, width2 := 700, width3 := 700, width4 := 700\<rparr>;
          m = pwmEnableChannel 0 (width1 m) m;
          m = pwmEnableChannel 1 (width2 m) m;
          m = pwmEnableChannel 2 (width3 m) m
      in pwmEnableChannel 3 (width4 m) m)"

text \<open>The assignment of \<^verbatim>\<open>value*1000+1000\<close>, a float, to an int.\<close>

definition pulse_width :: "float32 \<Rightarrow> int" where
  "pulse_width v = int_of_f32 (v * f32 1000 + f32 1000)"

definition setMotor_1 :: "float32 \<Rightarrow> motoren \<Rightarrow> motoren" where
  "setMotor_1 v m = (let m = m\<lparr>width1 := pulse_width v\<rparr> in pwmEnableChannel 0 (width1 m) m)"

definition setMotor_2 :: "float32 \<Rightarrow> motoren \<Rightarrow> motoren" where
  "setMotor_2 v m = (let m = m\<lparr>width2 := pulse_width v\<rparr> in pwmEnableChannel 1 (width2 m) m)"

definition setMotor_3 :: "float32 \<Rightarrow> motoren \<Rightarrow> motoren" where
  "setMotor_3 v m = (let m = m\<lparr>width3 := pulse_width v\<rparr> in pwmEnableChannel 2 (width3 m) m)"

definition setMotor_4 :: "float32 \<Rightarrow> motoren \<Rightarrow> motoren" where
  "setMotor_4 v m = (let m = m\<lparr>width4 := pulse_width v\<rparr> in pwmEnableChannel 3 (width4 m) m)"

definition getMotor_1 :: "motoren \<Rightarrow> u16" where "getMotor_1 m = word_of_int (width1 m)"
definition getMotor_2 :: "motoren \<Rightarrow> u16" where "getMotor_2 m = word_of_int (width2 m)"
definition getMotor_3 :: "motoren \<Rightarrow> u16" where "getMotor_3 m = word_of_int (width3 m)"
definition getMotor_4 :: "motoren \<Rightarrow> u16" where "getMotor_4 m = word_of_int (width4 m)"

lemmas motor_defs =
  setMotor_1_def setMotor_2_def setMotor_3_def setMotor_4_def pwmEnableChannel_def Let_def

section \<open>Pulse widths\<close>

lemma trunc_range: "\<lbrakk>of_int a \<le> r; r \<le> of_int b; 0 \<le> a\<rbrakk> \<Longrightarrow> a \<le> rat_trunc r \<and> rat_trunc r \<le> b"
  by (simp add: rat_trunc_def le_floor_iff floor_le_iff)

text \<open>A demand between 0 and 1 gives a pulse of 1 to 2 ms; 0 and 1 are the ends.\<close>

lemma pulse_width_range:
  assumes "in32 0 1 v" shows "1000 \<le> pulse_width v \<and> pulse_width v \<le> 2000"
proof -
  have "in32 0 1000 (v * f32 1000)"
    using assms by (rule in32_mult_nonneg[where d = 1000]) simp_all
  then have "in32 1000 2000 (v * f32 1000 + f32 1000)"
    by (rule in32_add[where c = 1000 and d = 1000]) simp_all
  then obtain r where r: "flt32 (v * f32 1000 + f32 1000) = Fin r" "1000 \<le> r" "r \<le> 2000"
    by (auto simp: flt_in_iff)
  then have "1000 \<le> rat_trunc r \<and> rat_trunc r \<le> 2000" using trunc_range[of 1000 r 2000] by simp
  then show ?thesis using r(1) by (simp add: pulse_width_def int_of_f32_def)
qed

lemma pulse_width_0: "flt32 v = Fin 0 \<Longrightarrow> pulse_width v = 1000"
  by (simp add: pulse_width_def int_of_f32_def plus_float32_def times_float32_def
      rat_trunc_def)

end
