(* ===== verification/Control.thy ===== *)
theory Control
  imports Motors RingBuffer
begin

text \<open>
  The flight controller, \<^verbatim>\<open>Quad/Regelung.cpp\<close>: every 10 ms it reads the setpoints of
  the remote control and the attitude, runs a PID or a cascaded controller for each of
  the axes nick (pitch), roll and yaw, mixes the three outputs into four motor demands
  and writes a line into a ring of log entries, which two other threads write to the SD
  card.

  The globals of one axis, \<^verbatim>\<open>pa_Nick\<close>, \<^verbatim>\<open>ia_Nick\<close> and so on, are a record
  \<open>achse\<close>; the remaining globals are the record \<open>regelung\<close>. What the getters of the other
  components return during a pass is \<open>messwerte\<close>.
\<close>

section \<open>State\<close>

record achse =
  v_tp1 :: float32
  v_tp1_alt :: float32
  da :: float32
  pa :: float32
  ia :: float32
  ii :: float32
  pi_innen :: float32
  ei :: float32
  ea_alt :: float32
  ea :: float32
  Soll_v :: float32
  ausgang :: float32       \<comment> \<open>\<^verbatim>\<open>aNick\<close>, \<^verbatim>\<open>aRoll\<close>, \<^verbatim>\<open>aYaw\<close>\<close>

record regelung =
  inNickIstLage :: float32
  inNickIstV :: float32
  inNickSollLage :: float32
  inRollIstLage :: float32
  inRollIstV :: float32
  inRollSollLage :: float32
  inSchub :: float32
  inYawIstLage :: float32
  inYawIstV :: float32
  inYawSollLage :: float32
  outMotor1 :: float32
  outMotor2 :: float32
  outMotor3 :: float32
  outMotor4 :: float32
  Schub_Offset :: float32
  nick :: achse
  roll :: achse
  yaw :: achse
  motoren :: motoren
  timebuffer :: "u32 list"
  databuffer :: "int list list"
  readcounter :: u8
  writecounter :: u8

record messwerte =
  m_schub_soll :: float32
  m_nick_soll :: float32
  m_roll_soll :: float32
  m_ypr_yaw :: float32
  m_ypr_nick :: float32
  m_ypr_roll :: float32
  m_rate_roll :: float32
  m_rate_nick :: float32
  m_rate_yaw :: float32
  m_fifo_count :: u16
  m_time :: u32

definition achse_start :: achse where
  "achse_start = \<lparr>v_tp1 = 0, v_tp1_alt = 0, da = 0, pa = 0, ia = 0, ii = 0, pi_innen = 0, ei = 0,
     ea_alt = 0, ea = 0, Soll_v = 0, ausgang = 0\<rparr>"

text \<open>The globals as the C start-up leaves them, the motors as after \<^verbatim>\<open>setup_Motoren\<close>.\<close>

definition regelung_start :: regelung where
  "regelung_start = \<lparr>inNickIstLage = 0, inNickIstV = 0, inNickSollLage = 0, inRollIstLage = 0,
     inRollIstV = 0, inRollSollLage = 0, inSchub = 0, inYawIstLage = 0, inYawIstV = 0,
     inYawSollLage = 0, outMotor1 = 0, outMotor2 = 0, outMotor3 = 0, outMotor4 = 0,
     Schub_Offset = 0, nick = achse_start, roll = achse_start, yaw = achse_start,
     motoren = setup_Motoren \<lparr>width1 = 700, width2 = 700, width3 = 700, width4 = 700, pwm_width = (\<lambda>_. 0)\<rparr>,
     timebuffer = replicate 50 0, databuffer = replicate 50 (replicate 39 0),
     readcounter = 0, writecounter = 0\<rparr>"

section \<open>Limits and characteristic curves\<close>

definition SatFloat :: "float32 \<Rightarrow> float32 \<Rightarrow> float32 \<Rightarrow> float32" where
  "SatFloat v lo hi = (if hi < v then hi else if v < lo then lo else v)"

text \<open>
  \<open>Kennlinie\<close> reads past the tables when no interval matches, which is the result
  \<open>None\<close>. \<open>kennlinie_loop\<close> returns the index the loop leaves and the offset it found.
\<close>

fun kennlinie_loop :: "float32 \<Rightarrow> float32 list \<Rightarrow> nat \<Rightarrow> nat \<Rightarrow> nat \<times> float32" where
  "kennlinie_loop w KLin index 0 = (index, 0)"
| "kennlinie_loop w KLin index (Suc n) =
     (if w < KLin ! (index + 1) \<and> KLin ! index \<le> w
      then (index, (w - KLin ! index) / (KLin ! (index + 1) - KLin ! index))
      else kennlinie_loop w KLin (index + 1) n)"

definition Kennlinie :: "float32 \<Rightarrow> float32 list \<Rightarrow> float32 list \<Rightarrow> nat \<Rightarrow> float32 option" where
  "Kennlinie w KLin KLout Anzahl =
     (if w \<le> KLin ! 0 then Some (KLout ! 0)
      else if KLin ! (Anzahl - 1) \<le> w then Some (KLout ! (Anzahl - 1))
      else case kennlinie_loop w KLin 0 (Anzahl - 1) of (index, offset) \<Rightarrow>
        if index + 1 < Anzahl
        then Some (KLout ! index + offset * (KLout ! (index + 1) - KLout ! index))
        else None)"

section \<open>The controllers\<close>

text \<open>The integrators run only above a fifth of full throttle.\<close>

definition integrieren :: "regelung \<Rightarrow> bool" where
  "integrieren s \<longleftrightarrow> f64 (2 / 10) < double_of (inSchub s)"

text \<open>
  The outer controller of the cascade, the same for each axis, up to \<^verbatim>\<open>Soll_v\<close>; then the
  inner one, whose input is \<open>soll\<close> less the turn rate.
\<close>

definition kas_aussen :: "bool \<Rightarrow> float32 \<Rightarrow> float32 \<Rightarrow> float32 \<Rightarrow> float32 \<Rightarrow> float32 \<Rightarrow> achse \<Rightarrow> achse" where
  "kas_aussen int_on inp p_a d_a ia_dyn ia_gain x =
     (let x = x\<lparr>ea := inp\<rparr>;
          x = x\<lparr>pa := ea x * p_a\<rparr>;
          x = x\<lparr>da := (ea x - ea_alt x) * d_a\<rparr>;
          x = (if int_on then x\<lparr>ia := ia_dyn * ea x + ia x\<rparr> else x)
      in x\<lparr>Soll_v := pa x + ia x * ia_gain + da x\<rparr>)"

definition kas_innen :: "bool \<Rightarrow> float32 \<Rightarrow> float32 \<Rightarrow> float32 \<Rightarrow> float32 \<Rightarrow> achse \<Rightarrow> achse" where
  "kas_innen int_on soll gyro p_i ii_dyn x =
     (let x = x\<lparr>ei := soll - gyro\<rparr>;
          x = x\<lparr>pi_innen := ei x * p_i\<rparr>
      in if int_on then x\<lparr>ii := SatFloat (ii_dyn * ei x + ii x) (f32 (- 15)) (f32 15)\<rparr> else x)"

definition KaskadierterRegler ::
  "float32 \<Rightarrow> float32 \<Rightarrow> float32 \<Rightarrow> float32 \<Rightarrow> float32 \<Rightarrow> float32 \<Rightarrow> float32 \<Rightarrow> float32 \<Rightarrow> float32 \<Rightarrow> float32 \<Rightarrow> nat
     \<Rightarrow> regelung \<Rightarrow> float32 \<times> regelung" where
  "KaskadierterRegler inp gyro p_a d_a ia_dyn ia_gain p_i ii_dyn ii_gain out_gain achse s =
     (if achse = 1 then
        (let x = kas_aussen (integrieren s) inp p_a d_a ia_dyn ia_gain (nick s);
             x = kas_innen (integrieren s) (Soll_v x) gyro p_i ii_dyn x
         in ((pi_innen x + ii x * ii_gain) * out_gain, s\<lparr>nick := x\<rparr>))
      else if achse = 2 then
        (let x = kas_aussen (integrieren s) inp p_a d_a ia_dyn ia_gain (roll s);
             x = kas_innen (integrieren s) (inRollSollLage s) gyro p_i ii_dyn x
         in ((pi_innen x + ii x * ii_gain) * out_gain, s\<lparr>roll := x\<rparr>))
      else if achse = 3 then
        (let x = kas_aussen (integrieren s) inp p_a d_a ia_dyn ia_gain (yaw s);
             x = kas_innen (integrieren s) (inYawSollLage s) gyro p_i ii_dyn x
         in ((pi_innen x + ii (roll s) * ii_gain) * out_gain, s\<lparr>yaw := x\<rparr>))
      else (0, s))"

definition pid_achse :: "bool \<Rightarrow> float32 \<Rightarrow> float32 \<Rightarrow> float32 \<Rightarrow> float32 \<Rightarrow> achse \<Rightarrow> achse" where
  "pid_achse int_on inp p_a d_a ia_dyn x =
     (let x = x\<lparr>ea := inp\<rparr>;
          x = x\<lparr>pa := ea x * p_a\<rparr>;
          x = x\<lparr>da := (ea x - ea_alt x) * d_a\<rparr>
      in if int_on then x\<lparr>ia := SatFloat (ia_dyn * ea x + ia x) (f32 (- 10)) (f32 10)\<rparr> else x)"

definition PIDRegler ::
  "float32 \<Rightarrow> float32 \<Rightarrow> float32 \<Rightarrow> float32 \<Rightarrow> float32 \<Rightarrow> float32 \<Rightarrow> nat \<Rightarrow> regelung \<Rightarrow> float32 \<times> regelung" where
  "PIDRegler inp p_a d_a ia_dyn ia_gain out_gain achse s =
     (if achse = 1 then
        (let x = pid_achse (integrieren s) inp p_a d_a ia_dyn (nick s)
         in ((pa x + ia x * ia_gain + da x) * out_gain, s\<lparr>nick := x\<rparr>))
      else if achse = 2 then
        (let x = pid_achse (integrieren s) inp p_a d_a ia_dyn (roll s)
         in ((pa x + ia x * ia_gain + da x) * out_gain, s\<lparr>roll := x\<rparr>))
      else if achse = 3 then
        (let x = pid_achse (integrieren s) inp p_a d_a ia_dyn (yaw s)
         in ((pa x + ia x * ia_gain + da x) * out_gain, s\<lparr>yaw := x\<rparr>))
      else (0, s))"

section \<open>One pass\<close>

text \<open>Setpoints pass a low-pass filter computed in \<^verbatim>\<open>double\<close>.\<close>

definition filtern :: "float32 \<Rightarrow> float32 \<Rightarrow> float32" where
  "filtern neu alt = float_of (double_of neu * f64 (5 / 100) + f64 (95 / 100) * double_of alt)"

definition werte_uebernehmen :: "messwerte \<Rightarrow> regelung \<Rightarrow> regelung" where
  "werte_uebernehmen m s =
     s\<lparr>inSchub := m_schub_soll m,
       inNickSollLage := filtern (m_nick_soll m) (inNickSollLage s),
       inRollSollLage := filtern (- m_roll_soll m) (inRollSollLage s),
       inYawSollLage := 0,
       inYawIstLage := m_ypr_yaw m,
       inNickIstLage := m_ypr_nick m,
       inRollIstLage := m_ypr_roll m,
       inRollIstV := m_rate_roll m,
       inNickIstV := - m_rate_nick m,
       inYawIstV := m_rate_yaw m\<rparr>"

text \<open>A float as a condition: anything but zero, a NaN included.\<close>

definition wahr :: "float32 \<Rightarrow> bool" where
  "wahr x \<longleftrightarrow> \<not> flt_eq (flt32 x) (Fin 0)"

definition nick_regler :: "float32 list \<Rightarrow> regelung \<Rightarrow> regelung" where
  "nick_regler param s =
     (let k = 0;
          (a, s) = (if wahr (param ! (13 + k))
            then KaskadierterRegler (inNickSollLage s - inNickIstLage s) (inNickIstV s)
              (param ! (5 + k)) (param ! (6 + k)) (param ! (7 + k)) (param ! (8 + k)) (param ! (9 + k))
              (param ! (10 + k)) (param ! (11 + k)) (param ! (12 + k)) 1 s
            else PIDRegler (inNickSollLage s - inNickIstLage s)
              (param ! (0 + k)) (param ! (1 + k)) (param ! (2 + k)) (param ! (3 + k)) (param ! (4 + k)) 1 s)
      in s\<lparr>nick := (nick s)\<lparr>ausgang := a\<rparr>\<rparr>)"

definition roll_regler :: "float32 list \<Rightarrow> regelung \<Rightarrow> regelung" where
  "roll_regler param s =
     (let k = 14;
          (a, s) = (if wahr (param ! (13 + k))
            then KaskadierterRegler (inRollSollLage s - inRollIstLage s) (inRollIstV s)
              (param ! (5 + k)) (param ! (6 + k)) (param ! (7 + k)) (param ! (8 + k)) (param ! (9 + k))
              (param ! (10 + k)) (param ! (11 + k)) (param ! (12 + k)) 2 s
            else PIDRegler (inRollSollLage s - inRollIstLage s)
              (param ! (0 + k)) (param ! (1 + k)) (param ! (2 + k)) (param ! (3 + k)) (param ! (4 + k)) 2 s)
      in s\<lparr>roll := (roll s)\<lparr>ausgang := a\<rparr>\<rparr>)"

definition yaw_regler :: "float32 list \<Rightarrow> regelung \<Rightarrow> regelung" where
  "yaw_regler param s =
     (let k = 28;
          (a, s) = (if wahr (param ! (13 + k))
            then KaskadierterRegler (inYawSollLage s - inYawIstLage s) (inYawIstV s)
              (param ! (5 + k)) (param ! (6 + k)) (param ! (7 + k)) (param ! (8 + k)) (param ! (9 + k))
              (param ! (10 + k)) (param ! (11 + k)) (param ! (12 + k)) 3 s
            else PIDRegler (inYawSollLage s - inYawIstLage s)
              (param ! (0 + k)) (param ! (1 + k)) (param ! (2 + k)) (param ! (3 + k)) (param ! (4 + k)) 3 s)
      in s\<lparr>yaw := (yaw s)\<lparr>ausgang := a\<rparr>\<rparr>)"

definition motorwerte :: "regelung \<Rightarrow> regelung" where
  "motorwerte s =
     (let aNick = ausgang (nick s); aRoll = ausgang (roll s); aYaw = ausgang (yaw s)
      in if f64 (1 / 10) < double_of (inSchub s) \<and> inSchub s \<le> f32 1 then
           (let s = s\<lparr>Schub_Offset := f32 6000\<rparr>;
                s = s\<lparr>outMotor1 := (Schub_Offset s + aNick - aRoll - aYaw) * inSchub s\<rparr>;
                s = s\<lparr>outMotor4 := (Schub_Offset s - aNick + aRoll - aYaw) * inSchub s\<rparr>;
                s = s\<lparr>outMotor2 := (Schub_Offset s + aNick + aRoll + aYaw) * inSchub s\<rparr>
            in s\<lparr>outMotor3 := (Schub_Offset s - aNick - aRoll + aYaw) * inSchub s\<rparr>)
         else s\<lparr>outMotor1 := 0, outMotor2 := 0, outMotor3 := 0, outMotor4 := 0\<rparr>)"

text \<open>The demand that a motor output is turned into.\<close>

definition saettigen :: "float32 \<Rightarrow> float32" where
  "saettigen out = (if f32 6800 < out then f32 1 else if out < 0 then 0 else out / f32 6800)"

definition motoren_setzen :: "regelung \<Rightarrow> regelung" where
  "motoren_setzen s =
     s\<lparr>motoren := setMotor_4 (saettigen (outMotor4 s)) (setMotor_3 (saettigen (outMotor3 s))
        (setMotor_2 (saettigen (outMotor2 s)) (setMotor_1 (saettigen (outMotor1 s)) (motoren s))))\<rparr>"

definition alte_werte :: "regelung \<Rightarrow> regelung" where
  "alte_werte s =
     (let merken = (\<lambda>x. x\<lparr>v_tp1_alt := v_tp1 x, ea_alt := ea x\<rparr>)
      in s\<lparr>nick := merken (nick s), roll := merken (roll s), yaw := merken (yaw s)\<rparr>)"

section \<open>The log\<close>

definition hundertfach :: "float32 \<Rightarrow> int" where
  "hundertfach x = int_of_f32 (x * f32 100)"

definition log_zeile :: "u16 \<Rightarrow> regelung \<Rightarrow> int list" where
  "log_zeile fifo s =
     [hundertfach (inSchub s),
      hundertfach (inNickSollLage s), hundertfach (inRollSollLage s), hundertfach (inYawSollLage s),
      hundertfach (inNickIstLage s), hundertfach (inRollIstLage s), hundertfach (inYawIstLage s),
      hundertfach (inNickIstV s), hundertfach (inRollIstV s), hundertfach (inYawIstV s),
      hundertfach (pa (nick s)), hundertfach (pa (roll s)), hundertfach (pa (yaw s)),
      hundertfach (ia (nick s)), hundertfach (ia (roll s)), hundertfach (ia (yaw s)),
      hundertfach (Soll_v (nick s)), hundertfach (Soll_v (roll s)), hundertfach (Soll_v (yaw s)),
      hundertfach (ii (nick s)), hundertfach (ii (roll s)), hundertfach (ii (yaw s)),
      hundertfach (pi_innen (nick s)), hundertfach (pi_innen (roll s)), hundertfach (pi_innen (yaw s)),
      hundertfach (da (nick s)), hundertfach (da (roll s)), hundertfach (da (yaw s)),
      hundertfach (v_tp1 (nick s)), hundertfach (v_tp1 (roll s)), hundertfach (v_tp1 (yaw s)),
      hundertfach (ausgang (nick s)), hundertfach (ausgang (roll s)), hundertfach (ausgang (yaw s)),
      int_of_f32 (outMotor1 s), int_of_f32 (outMotor2 s), int_of_f32 (outMotor3 s),
      int_of_f32 (outMotor4 s), uint fifo]"

definition weiter :: "u8 \<Rightarrow> u8" where
  "weiter c = (let c = c + 1 in if 50 \<le> c then 0 else c)"

definition datalog_regelung :: "messwerte \<Rightarrow> regelung \<Rightarrow> regelung" where
  "datalog_regelung m s =
     s\<lparr>timebuffer := (timebuffer s)[unat (writecounter s) := m_time m],
       databuffer := (databuffer s)[unat (writecounter s) := log_zeile (m_fifo_count m) s],
       writecounter := weiter (writecounter s)\<rparr>"

text \<open>\<^verbatim>\<open>Regelung\<close>: one pass of the controller.\<close>

definition Regelung :: "float32 list \<Rightarrow> messwerte \<Rightarrow> regelung \<Rightarrow> regelung" where
  "Regelung param m s =
     datalog_regelung m (alte_werte (motoren_setzen (motorwerte
       (yaw_regler param (roll_regler param (nick_regler param (werte_uebernehmen m s)))))))"

text \<open>One pass of the printing thread; the result is the line it writes, if any.\<close>

definition print_schritt :: "bool \<Rightarrow> bool \<Rightarrow> bool \<Rightarrow> regelung \<Rightarrow> (u32 \<times> int list) option \<times> regelung" where
  "print_schritt ready opened syncing s =
     (if readcounter s \<noteq> writecounter s \<and> ready \<and> opened \<and> \<not> syncing
      then (let line = (timebuffer s ! unat (readcounter s), databuffer s ! unat (readcounter s));
                s = s\<lparr>readcounter := readcounter s + 1\<rparr>
            in (Some line, if 50 \<le> readcounter s then s\<lparr>readcounter := 0\<rparr> else s))
      else (None, s))"

section \<open>The thread\<close>

text \<open>
  One turn of \<^verbatim>\<open>Regelungsthread\<close>: the new deadline, and whether the thread sleeps until
  it; \<open>now\<close> is the time after the pass.
\<close>

definition regelungsthread_turn :: "u32 \<Rightarrow> u32 \<Rightarrow> u32 \<times> u32 option" where
  "regelungsthread_turn time now =
     (let time = time + 10 in (time, if now < time then Some time else None))"

section \<open>The file of the log\<close>

text \<open>
  \<^verbatim>\<open>RegelungSyncthread\<close> opens the log file, under the next free name, and flushes it.
  \<open>sync_schritt\<close> is one turn of its loop, or of the inner loop that waits for the
  parameters (\<open>WarteParam\<close>); a turn that flushes the file is two steps, as the printing
  thread must not write meanwhile (\<open>Sichern\<close>). The answers of the file system and of the card are in
  \<open>umgebung\<close>; the calls the thread makes are the list it returns.
\<close>

datatype sync_pc = Schleife | WarteParam | Sichern

datatype sync_call =
    Close | Open "u8 list" | WriteHeader | Sync | Report string | SleepMs nat

record umgebung =
  ready1 :: bool    \<comment> \<open>the three evaluations of \<^verbatim>\<open>Datalogger_ready()\<close>\<close>
  ready2 :: bool
  ready3 :: bool
  open_result :: nat
  sync_result :: nat
  first_param :: float32

record protokoll =
  pc :: sync_pc
  opened :: bool
  syncing :: bool
  request_new_sd_log :: bool
  fileName :: "u8 list"

definition FR_OK :: nat where "FR_OK = 0"
definition FR_EXIST :: nat where "FR_EXIST = 8"

definition next_name :: "u8 list \<Rightarrow> u8 list" where
  "next_name f = (if f ! 4 < 57 then f[4 := f ! 4 + 1] else f[3 := f ! 3 + 1, 4 := 48])"

definition sync_header :: "umgebung \<Rightarrow> protokoll \<Rightarrow> sync_call list \<times> protokoll" where
  "sync_header u l =
     (if hundertfach (first_param u) = 0 then ([SleepMs 100], l\<lparr>pc := WarteParam\<rparr>)
      else if sync_result u \<noteq> FR_OK
      then ([WriteHeader, Sync, Report ''initial f_sync() failed'', SleepMs 10, SleepMs 10], l\<lparr>pc := Schleife\<rparr>)
      else ([WriteHeader, Sync, Report ''opened successfull'', SleepMs 10, SleepMs 10],
            l\<lparr>pc := Schleife, opened := True\<rparr>))"

definition sync_schritt :: "umgebung \<Rightarrow> protokoll \<Rightarrow> sync_call list \<times> protokoll" where
  "sync_schritt u l = (case pc l of
     WarteParam \<Rightarrow> sync_header u l
   | Schleife \<Rightarrow>
      if ready1 u \<and> opened l \<and> request_new_sd_log l then ([Close], l\<lparr>opened := False\<rparr>)
      else if ready2 u \<and> \<not> opened l then
        (let l = l\<lparr>request_new_sd_log := False\<rparr>; calls = [SleepMs 100, Open (fileName l)]
         in if open_result u = FR_EXIST
            then (calls @ [SleepMs 10], l\<lparr>fileName := next_name (fileName l)\<rparr>)
            else if open_result u \<noteq> FR_OK
            then (calls @ [Report ''f_open() failed'', SleepMs 10, SleepMs 10], l)
            else (case sync_header u l of (c, l) \<Rightarrow> (calls @ c, l)))
      else if ready3 u \<and> opened l then ([], l\<lparr>syncing := True, pc := Sichern\<rparr>)
      else ([SleepMs 10], l)
   | Sichern \<Rightarrow>
      ([Sync, Report (if sync_result u \<noteq> FR_OK then ''f_sync() failed'' else ''f_sync() succeeded''),
        SleepMs 1000], l\<lparr>syncing := False, pc := Schleife\<rparr>))"

definition get_datalog_ready :: "protokoll \<Rightarrow> bool" where
  "get_datalog_ready l = opened l"

lemma literal_pos: "\<exists>r. flt64 (f64 (1 / 20)) = Fin r \<and> 0 < r" "\<exists>r. flt64 (f64 (19 / 20)) = Fin r \<and> 0 < r" "\<exists>r. flt64 (f64 (1 / 10)) = Fin r \<and> 0 < r"
proof -
  have "rep64 (1 / 32)" by (rule rep64_dyadic[of _ 1 "- 5"]) (simp_all add: power_int_minus)
  then show "\<exists>r. flt64 (f64 (1 / 20)) = Fin r \<and> 0 < r" "\<exists>r. flt64 (f64 (19 / 20)) = Fin r \<and> 0 < r" "\<exists>r. flt64 (f64 (1 / 10)) = Fin r \<and> 0 < r"
    using round64_within[of "1 / 32" 1 "1 / 20"] round64_within[of "1 / 32" 1 "19 / 20"] round64_within[of "1 / 32" 1 "1 / 10"]
    by (auto simp: f64_def intro: order_less_le_trans)
qed

section \<open>What a controller leaves alone\<close>

lemma nick_regler_frame: "\<exists>x. nick_regler param s = s\<lparr>nick := x\<rparr>"
  by (simp add: nick_regler_def KaskadierterRegler_def PIDRegler_def Let_def) blast

lemma roll_regler_frame: "\<exists>x. roll_regler param s = s\<lparr>roll := x\<rparr>"
  by (simp add: roll_regler_def KaskadierterRegler_def PIDRegler_def Let_def) blast

lemma yaw_regler_frame: "\<exists>x. yaw_regler param s = s\<lparr>yaw := x\<rparr>"
  by (simp add: yaw_regler_def KaskadierterRegler_def PIDRegler_def Let_def) blast

text \<open>The three controllers together change the three axes and nothing else.\<close>

lemma regler_frame:
  "\<exists>n r y. yaw_regler param (roll_regler param (nick_regler param s)) = s\<lparr>nick := n, roll := r, yaw := y\<rparr>"
proof -
  obtain n where n: "nick_regler param s = s\<lparr>nick := n\<rparr>" using nick_regler_frame by blast
  obtain r where r: "roll_regler param (s\<lparr>nick := n\<rparr>) = s\<lparr>nick := n, roll := r\<rparr>"
    using roll_regler_frame by blast
  obtain y where "yaw_regler param (s\<lparr>nick := n, roll := r\<rparr>) = s\<lparr>nick := n, roll := r, yaw := y\<rparr>"
    using yaw_regler_frame by blast
  with n r show ?thesis by auto
qed

lemma motorwerte_frame:
  "nick (motorwerte s) = nick s" "roll (motorwerte s) = roll s" "yaw (motorwerte s) = yaw s"
  "motoren (motorwerte s) = motoren s" "inSchub (motorwerte s) = inSchub s"
  "inNickSollLage (motorwerte s) = inNickSollLage s" "inRollSollLage (motorwerte s) = inRollSollLage s"
  "writecounter (motorwerte s) = writecounter s" "readcounter (motorwerte s) = readcounter s"
  "timebuffer (motorwerte s) = timebuffer s" "databuffer (motorwerte s) = databuffer s"
  by (simp_all add: motorwerte_def Let_def)

section \<open>Limits\<close>

lemma SatFloat_range:
  assumes "flt32 lo = Fin l" "flt32 hi = Fin h" "l \<le> h" "\<not> is_nan v"
  shows "in32 l h (SatFloat v lo hi)"
  using assms by (cases "flt32 v") (auto simp: SatFloat_def less_float32_def is_nan_def split: if_splits)

lemma SatFloat_nan: "is_nan v \<Longrightarrow> SatFloat v lo hi = v"
  by (simp add: SatFloat_def less_float32_def is_nan_def)

text \<open>The demand of a motor is between 0 and 1, or a NaN when the output is one.\<close>

lemma saettigen_range: "\<not> is_nan v \<Longrightarrow> in32 0 1 (saettigen v)"
proof (cases "flt32 v")
  case (Fin r)
  have "in32 0 1 (v / f32 6800)" if "0 \<le> r" "r \<le> 6800"
    using that Fin by (intro in32_div_const[where b = 6800 and c = 6800]) (auto intro: float32.expand)
  then show ?thesis
    using Fin by (auto simp: saettigen_def less_float32_def zero_float32_def not_less)
qed (auto simp: saettigen_def less_float32_def zero_float32_def is_nan_def)

lemma saettigen_nan: "is_nan v \<Longrightarrow> is_nan (saettigen v)"
  by (simp add: saettigen_def less_float32_def is_nan_def divide_float32_def)

lemma saettigen_0: "saettigen 0 = 0"
  by (simp add: saettigen_def less_float32_def zero_float32_def divide_float32_def)

lemma pulse_width_nan: "is_nan v \<Longrightarrow> pulse_width v = 0"
  by (simp add: is_nan_def pulse_width_def int_of_f32_def plus_float32_def times_float32_def)

lemma motor_pulse:
  "if is_nan v then pulse_width (saettigen v) = 0
   else 1000 \<le> pulse_width (saettigen v) \<and> pulse_width (saettigen v) \<le> 2000"
  using pulse_width_nan[OF saettigen_nan] pulse_width_range[OF saettigen_range] by simp

section \<open>The motors\<close>

definition motor_outs :: "regelung \<Rightarrow> float32 list" where
  "motor_outs s = [outMotor1 s, outMotor2 s, outMotor3 s, outMotor4 s]"

definition pulses :: "regelung \<Rightarrow> int list" where
  "pulses s = [width1 (motoren s), width2 (motoren s), width3 (motoren s), width4 (motoren s)]"

lemma Regelung_motoren:
  "motoren (Regelung param m s) = motoren (motoren_setzen (motorwerte
     (yaw_regler param (roll_regler param (nick_regler param (werte_uebernehmen m s))))))"
  by (simp add: Regelung_def datalog_regelung_def alte_werte_def Let_def)

lemma pulses_setzen:
  "pulses (motoren_setzen s) = map (\<lambda>v. pulse_width (saettigen v)) (motor_outs s)"
  by (simp add: pulses_def motor_outs_def motoren_setzen_def motor_defs)

lemma outs_setzen: "motor_outs (motoren_setzen s) = motor_outs s"
  by (simp add: motor_outs_def motoren_setzen_def)

text \<open>What \<^verbatim>\<open>Regelung\<close> leaves in the outputs is what it gave the motors.\<close>

lemma Regelung_pulses:
  "pulses (Regelung param m s) = map (\<lambda>v. pulse_width (saettigen v)) (motor_outs (Regelung param m s))"
proof -
  have "pulses (Regelung param m s) = pulses (motoren_setzen (motorwerte
     (yaw_regler param (roll_regler param (nick_regler param (werte_uebernehmen m s))))))"
    by (simp add: pulses_def Regelung_motoren)
  also have "\<dots> = map (\<lambda>v. pulse_width (saettigen v)) (motor_outs (motorwerte
     (yaw_regler param (roll_regler param (nick_regler param (werte_uebernehmen m s))))))"
    by (rule pulses_setzen)
  also have "motor_outs (motorwerte (yaw_regler param (roll_regler param (nick_regler param (werte_uebernehmen m s)))))
      = motor_outs (Regelung param m s)"
    by (simp add: Regelung_def datalog_regelung_def alte_werte_def Let_def motor_outs_def motoren_setzen_def)
  finally show ?thesis .
qed

lemma Regelung_pulse_range:
  assumes "i < 4"
  shows "if is_nan (motor_outs (Regelung param m s) ! i) then pulses (Regelung param m s) ! i = 0
         else 1000 \<le> pulses (Regelung param m s) ! i \<and> pulses (Regelung param m s) ! i \<le> 2000"
proof -
  have l: "i < length (motor_outs (Regelung param m s))" using assms by (simp add: motor_outs_def)
  show ?thesis unfolding Regelung_pulses nth_map[OF l] by (rule motor_pulse)
qed

lemma Regelung_pwm:
  assumes "i < 4" shows "pwm_width (motoren (Regelung param m s)) i = word_of_int (pulses (Regelung param m s) ! i)"
proof -
  have "i = 0 \<or> i = 1 \<or> i = 2 \<or> i = 3" using assms by linarith
  then show ?thesis by (auto simp: pulses_def Regelung_motoren motoren_setzen_def motor_defs)
qed

text \<open>The throttle is what the remote control returned in this pass.\<close>

definition gas :: "float32 \<Rightarrow> bool" where
  "gas x \<longleftrightarrow> f64 (1 / 10) < double_of x \<and> x \<le> f32 1"

lemma regler_schub:
  "inSchub (yaw_regler param (roll_regler param (nick_regler param (werte_uebernehmen m s)))) = m_schub_soll m"
proof -
  obtain n r y where "yaw_regler param (roll_regler param (nick_regler param (werte_uebernehmen m s)))
      = (werte_uebernehmen m s)\<lparr>nick := n, roll := r, yaw := y\<rparr>" using regler_frame by blast
  then show ?thesis by (simp add: werte_uebernehmen_def)
qed

lemma Regelung_motor_outs:
  "motor_outs (Regelung param m s) = motor_outs (motorwerte
     (yaw_regler param (roll_regler param (nick_regler param (werte_uebernehmen m s)))))"
  by (simp add: Regelung_def datalog_regelung_def alte_werte_def Let_def motor_outs_def motoren_setzen_def)

lemma Regelung_no_gas_outs:
  assumes "\<not> gas (m_schub_soll m)" shows "motor_outs (Regelung param m s) = [0, 0, 0, 0]"
proof -
  have off: "motorwerte s' = s'\<lparr>outMotor1 := 0, outMotor2 := 0, outMotor3 := 0, outMotor4 := 0\<rparr>"
    if "\<not> gas (inSchub s')" for s'
    using that by (auto simp: motorwerte_def gas_def Let_def)
  show ?thesis
    unfolding Regelung_motor_outs by (subst off) (simp_all add: regler_schub assms motor_outs_def)
qed

lemma Regelung_no_gas:
  "\<not> gas (m_schub_soll m) \<Longrightarrow> pulses (Regelung param m s) = [1000, 1000, 1000, 1000]"
  by (simp add: Regelung_pulses Regelung_no_gas_outs saettigen_0 pulse_width_0)

text \<open>All inputs zero.\<close>

definition ruhe :: messwerte where
  "ruhe = \<lparr>m_schub_soll = 0, m_nick_soll = 0, m_roll_soll = 0, m_ypr_yaw = 0, m_ypr_nick = 0, m_ypr_roll = 0,
     m_rate_roll = 0, m_rate_nick = 0, m_rate_yaw = 0, m_fifo_count = 0, m_time = 0\<rparr>"

lemma gas_ruhe: "\<not> gas (m_schub_soll ruhe)"
  using literal_pos by (auto simp: ruhe_def gas_def double_of_def less_float64_def)

lemma Regelung_ruhe: "motor_outs (Regelung param ruhe s) = [0, 0, 0, 0]"
  by (rule Regelung_no_gas_outs[OF gas_ruhe])

section \<open>The integrators\<close>

text \<open>An integrator within its limits, or spoilt by a NaN.\<close>

definition begrenzt :: "rat \<Rightarrow> float32 \<Rightarrow> bool" where
  "begrenzt g x \<longleftrightarrow> is_nan x \<or> in32 (- g) g x"

definition ii_begrenzt :: "regelung \<Rightarrow> bool" where
  "ii_begrenzt s \<longleftrightarrow> begrenzt 15 (ii (nick s)) \<and> begrenzt 15 (ii (roll s)) \<and> begrenzt 15 (ii (yaw s))"

definition ia_begrenzt :: "regelung \<Rightarrow> bool" where
  "ia_begrenzt s \<longleftrightarrow> begrenzt 10 (ia (nick s)) \<and> begrenzt 10 (ia (roll s)) \<and> begrenzt 10 (ia (yaw s))"

lemma begrenzt_SatFloat:
  "begrenzt 15 (SatFloat v (f32 (- 15)) (f32 15))" "begrenzt 10 (SatFloat v (f32 (- 10)) (f32 10))"
  by (cases "is_nan v"; simp add: begrenzt_def SatFloat_nan SatFloat_range)+

lemma kas_ii: "begrenzt 15 (ii x) \<Longrightarrow> begrenzt 15 (ii (kas_innen b soll g p i (kas_aussen b inp p_a d_a dyn gain x)))"
  by (simp add: kas_innen_def kas_aussen_def Let_def begrenzt_SatFloat)

lemma pid_ii: "ii (pid_achse b inp p_a d_a dyn x) = ii x"
  by (simp add: pid_achse_def Let_def)

lemma pid_ia: "begrenzt 10 (ia x) \<Longrightarrow> begrenzt 10 (ia (pid_achse b inp p_a d_a dyn x))"
  by (simp add: pid_achse_def Let_def begrenzt_SatFloat)

lemma regler_ii:
  "ii_begrenzt s \<Longrightarrow> ii_begrenzt (nick_regler param s)"
  "ii_begrenzt s \<Longrightarrow> ii_begrenzt (roll_regler param s)"
  "ii_begrenzt s \<Longrightarrow> ii_begrenzt (yaw_regler param s)"
  by (simp_all add: ii_begrenzt_def nick_regler_def roll_regler_def yaw_regler_def
      KaskadierterRegler_def PIDRegler_def Let_def kas_ii pid_ii)

lemma regler_ia:
  "ia_begrenzt s \<Longrightarrow> \<not> wahr (param ! 13) \<Longrightarrow> ia_begrenzt (nick_regler param s)"
  "ia_begrenzt s \<Longrightarrow> \<not> wahr (param ! 27) \<Longrightarrow> ia_begrenzt (roll_regler param s)"
  "ia_begrenzt s \<Longrightarrow> \<not> wahr (param ! 41) \<Longrightarrow> ia_begrenzt (yaw_regler param s)"
  by (simp_all add: ia_begrenzt_def nick_regler_def roll_regler_def yaw_regler_def
      PIDRegler_def Let_def pid_ia)

lemma Regelung_axes:
  "ii_begrenzt (Regelung param m s) = ii_begrenzt (yaw_regler param (roll_regler param (nick_regler param (werte_uebernehmen m s))))"
  "ia_begrenzt (Regelung param m s) = ia_begrenzt (yaw_regler param (roll_regler param (nick_regler param (werte_uebernehmen m s))))"
  by (simp_all add: Regelung_def datalog_regelung_def alte_werte_def Let_def ii_begrenzt_def ia_begrenzt_def
      motoren_setzen_def motorwerte_frame)

lemma uebernehmen_axes:
  "ii_begrenzt (werte_uebernehmen m s) = ii_begrenzt s" "ia_begrenzt (werte_uebernehmen m s) = ia_begrenzt s"
  by (simp_all add: werte_uebernehmen_def ii_begrenzt_def ia_begrenzt_def)

lemma Regelung_ii: "ii_begrenzt s \<Longrightarrow> ii_begrenzt (Regelung param m s)"
  by (simp add: Regelung_axes uebernehmen_axes regler_ii)

lemma Regelung_ia:
  "\<lbrakk>ia_begrenzt s; \<not> wahr (param ! 13); \<not> wahr (param ! 27); \<not> wahr (param ! 41)\<rbrakk>
   \<Longrightarrow> ia_begrenzt (Regelung param m s)"
  by (simp add: Regelung_axes uebernehmen_axes regler_ia)

section \<open>An infinite setpoint\<close>

text \<open>Infinite on the side \<open>b\<close>, or a NaN.\<close>

definition verdorben :: "bool \<Rightarrow> flt \<Rightarrow> bool" where
  "verdorben b x \<longleftrightarrow> x = NaN \<or> x = Infty b"

lemma verdorben_add:
  "verdorben b x \<Longrightarrow> verdorben b (flt_add rnd x y)" "verdorben b y \<Longrightarrow> verdorben b (flt_add rnd x y)"
  by (cases x; cases y; simp add: verdorben_def)+

lemma verdorben_mult: "\<lbrakk>verdorben b y; 0 < r\<rbrakk> \<Longrightarrow> verdorben b (flt_mul rnd (Fin r) y)"
  "\<lbrakk>verdorben b y; 0 < r\<rbrakk> \<Longrightarrow> verdorben b (flt_mul rnd y (Fin r))"
  by (cases y; simp add: verdorben_def)+

lemma verdorben_diff: "\<lbrakk>verdorben b x; verdorben b y\<rbrakk> \<Longrightarrow> flt_add rnd x (flt_neg y) = NaN"
  by (auto simp: verdorben_def)

lemma float_of_verdorben: "verdorben b (flt64 x) \<Longrightarrow> verdorben b (flt32 (float_of x))"
  by (auto simp: verdorben_def float_of_def)

text \<open>The filter keeps an infinity for ever.\<close>

lemma filtern_verdorben:
  assumes "verdorben b (flt32 neu) \<or> verdorben b (flt32 alt)" shows "verdorben b (flt32 (filtern neu alt))"
proof -
  obtain r q where l: "flt64 (f64 (1 / 20)) = Fin r" "0 < r" "flt64 (f64 (19 / 20)) = Fin q" "0 < q"
    using literal_pos by blast
  have "verdorben b (flt_add round64 (flt_mul round64 (flt32 neu) (Fin r)) (flt_mul round64 (Fin q) (flt32 alt)))"
    using assms l(2,4) by (auto intro: verdorben_add verdorben_mult)
  then have "verdorben b (flt64 (double_of neu * f64 (5 / 100) + f64 (95 / 100) * double_of alt))"
    using l(1,3) by (simp add: double_of_def times_float64_def plus_float64_def)
  then show ?thesis unfolding filtern_def by (rule float_of_verdorben)
qed

text \<open>
  Once the nick setpoint is spoilt, so are the error and the old error, and the
  derivative, an infinity less itself, makes the output of the nick controller a NaN.
\<close>

definition nick_verdorben :: "bool \<Rightarrow> regelung \<Rightarrow> bool" where
  "nick_verdorben b s \<longleftrightarrow>
     verdorben b (flt32 (inNickSollLage s)) \<and> verdorben b (flt32 (ea_alt (nick s)))"

lemma nick_regler_fields:
  "ea (nick (nick_regler param s)) = inNickSollLage s - inNickIstLage s"
  "inNickSollLage (nick_regler param s) = inNickSollLage s"
  by (simp_all add: nick_regler_def KaskadierterRegler_def PIDRegler_def kas_aussen_def kas_innen_def
      pid_achse_def Let_def)

lemma Regelung_nick:
  "ea_alt (nick (Regelung param m s)) = ea (nick (nick_regler param (werte_uebernehmen m s)))"
  "inNickSollLage (Regelung param m s) = filtern (m_nick_soll m) (inNickSollLage s)"
proof -
  have n: "nick (yaw_regler param (roll_regler param t)) = nick t"
    "inNickSollLage (yaw_regler param (roll_regler param t)) = inNickSollLage t" for t
    using roll_regler_frame[of param t] yaw_regler_frame[of param "roll_regler param t"] by auto
  show "ea_alt (nick (Regelung param m s)) = ea (nick (nick_regler param (werte_uebernehmen m s)))"
    "inNickSollLage (Regelung param m s) = filtern (m_nick_soll m) (inNickSollLage s)"
    by (simp_all add: Regelung_def datalog_regelung_def alte_werte_def Let_def motoren_setzen_def
        motorwerte_frame n nick_regler_fields werte_uebernehmen_def)
qed

lemma Regelung_nick_verdorben:
  assumes "verdorben b (flt32 (m_nick_soll m)) \<or> verdorben b (flt32 (inNickSollLage s))"
  shows "nick_verdorben b (Regelung param m s)"
proof -
  have "verdorben b (flt32 (filtern (m_nick_soll m) (inNickSollLage s)))"
    using assms by (rule filtern_verdorben)
  then show ?thesis
    by (simp add: nick_verdorben_def Regelung_nick nick_regler_fields werte_uebernehmen_def
        minus_float32_def verdorben_add)
qed

lemma nick_output_nan:
  assumes "nick_verdorben b s"
  shows "flt32 (ausgang (nick (nick_regler param (werte_uebernehmen m s)))) = NaN"
proof -
  have "verdorben b (flt32 (filtern (m_nick_soll m) (inNickSollLage s)))"
    using assms by (intro filtern_verdorben) (simp add: nick_verdorben_def)
  then have v: "verdorben b (flt32 (filtern (m_nick_soll m) (inNickSollLage s) - m_ypr_nick m))"
    by (simp add: minus_float32_def verdorben_add)
  have "flt32 (filtern (m_nick_soll m) (inNickSollLage s) - m_ypr_nick m - ea_alt (nick s)) = NaN"
    using v assms unfolding minus_float32_def float32.sel
    by (intro verdorben_diff[of b]) (auto simp: nick_verdorben_def)
  then show ?thesis
    by (simp add: nick_regler_def werte_uebernehmen_def KaskadierterRegler_def PIDRegler_def kas_aussen_def
        kas_innen_def pid_achse_def Let_def plus_float32_def minus_float32_def times_float32_def)
qed

lemma nan_arith:
  "flt32 x = NaN \<Longrightarrow> flt32 (x + y) = NaN" "flt32 y = NaN \<Longrightarrow> flt32 (x + y) = NaN"
  "flt32 x = NaN \<Longrightarrow> flt32 (x - y) = NaN" "flt32 y = NaN \<Longrightarrow> flt32 (x - y) = NaN"
  "flt32 x = NaN \<Longrightarrow> flt32 (x * y) = NaN"
  by (simp_all add: plus_float32_def minus_float32_def times_float32_def)

lemma Regelung_stopped:
  assumes "nick_verdorben b s" "gas (m_schub_soll m)"
  shows "pulses (Regelung param m s) = [0, 0, 0, 0]"
proof -
  define t where "t = yaw_regler param (roll_regler param (nick_regler param (werte_uebernehmen m s)))"
  have "nick t = nick (nick_regler param (werte_uebernehmen m s))"
    using roll_regler_frame[of param "nick_regler param (werte_uebernehmen m s)"]
      yaw_regler_frame[of param "roll_regler param (nick_regler param (werte_uebernehmen m s))"]
    by (auto simp: t_def)
  then have n: "flt32 (ausgang (nick t)) = NaN" using nick_output_nan[OF assms(1)] by simp
  have g: "gas (inSchub t)" using assms(2) by (simp add: t_def regler_schub)
  have "list_all is_nan (motor_outs (motorwerte t))"
    using n g by (simp add: motorwerte_def gas_def Let_def motor_outs_def is_nan_def nan_arith)
  then have "list_all is_nan (motor_outs (Regelung param m s))" by (simp add: Regelung_motor_outs t_def)
  moreover have "length (motor_outs (Regelung param m s)) = 4" by (simp add: motor_outs_def)
  ultimately show ?thesis
    by (auto simp: Regelung_pulses motor_outs_def pulse_width_nan saettigen_nan)
qed

text \<open>Any number of passes, each with its parameters and inputs.\<close>

fun passes :: "(float32 list \<times> messwerte) list \<Rightarrow> regelung \<Rightarrow> regelung" where
  "passes [] s = s"
| "passes ((param, m) # ps) s = passes ps (Regelung param m s)"

lemma passes_invariant:
  "\<lbrakk>P s; \<And>param m s. P s \<Longrightarrow> P (Regelung param m s)\<rbrakk> \<Longrightarrow> P (passes ps s)"
  by (induction ps s rule: passes.induct) simp_all

lemma passes_verdorben: "nick_verdorben b s \<Longrightarrow> nick_verdorben b (passes ps s)"
  by (erule passes_invariant, rule Regelung_nick_verdorben, simp add: nick_verdorben_def)

section \<open>The ring of log lines\<close>

definition log_ok :: "regelung \<Rightarrow> bool" where
  "log_ok s \<longleftrightarrow> length (timebuffer s) = 50 \<and> length (databuffer s) = 50
     \<and> unat (readcounter s) < 50 \<and> unat (writecounter s) < 50"

definition unread :: "regelung \<Rightarrow> nat" where
  "unread s = (unat (writecounter s) + 50 - unat (readcounter s)) mod 50"

text \<open>The lines written and not yet printed, oldest first.\<close>

definition log_content :: "regelung \<Rightarrow> (u32 \<times> int list) list" where
  "log_content s = ring_content (zip (timebuffer s) (databuffer s)) (unat (readcounter s)) (unread s)"

lemma unat_weiter: assumes "unat c < 50" shows "unat (weiter c) = ring_next 50 (unat c)"
proof -
  have "unat (c + 1) = unat c + 1" using assms by (simp add: unat_word_ariths)
  then show ?thesis by (simp add: weiter_def Let_def ring_next_def word_le_nat_alt)
qed

lemma log_content_cong:
  "\<lbrakk>timebuffer t = timebuffer s; databuffer t = databuffer s; readcounter t = readcounter s;
    writecounter t = writecounter s\<rbrakk> \<Longrightarrow> log_content t = log_content s"
  by (simp add: log_content_def unread_def)

lemma log_positions:
  assumes "log_ok s" shows "unat (writecounter s) = (unat (readcounter s) + unread s) mod 50" "unread s < 50"
  using assms by (auto simp: log_ok_def unread_def mod_add_right_eq)

lemma datalog_content:
  assumes "log_ok s"
  shows "log_ok (datalog_regelung m s)"
    "log_content (datalog_regelung m s) =
       (if length (log_content s) < 49 then log_content s @ [(m_time m, log_zeile (m_fifo_count m) s)] else [])"
proof -
  let ?t = "datalog_regelung m s" and ?r = "unat (readcounter s)" and ?n = "unread s"
  have ok: "?r < 50" "unat (writecounter s) < 50" "length (zip (timebuffer s) (databuffer s)) = 50"
    using assms by (simp_all add: log_ok_def)
  have w: "unat (writecounter ?t) = ring_next 50 (unat (writecounter s))"
    using ok by (simp add: datalog_regelung_def unat_weiter)
  show "log_ok ?t" using assms w ok ring_next_less[of "unat (writecounter s)" 50]
    by (simp add: log_ok_def datalog_regelung_def)
  have p: "unat (writecounter ?t) = (?r + Suc ?n) mod 50"
    unfolding w log_positions(1)[OF assms] using ok(1) by (rule ring_wr_step)
  have c: "readcounter ?t = readcounter s" by (simp add: datalog_regelung_def)
  have u: "unread ?t = Suc ?n mod 50"
    unfolding unread_def[of ?t] c p by (rule ring_distance[OF ok(1)])
  show "log_content ?t =
       (if length (log_content s) < 49 then log_content s @ [(m_time m, log_zeile (m_fifo_count m) s)] else [])"
  proof (cases "?n < 49")
    case True
    have z: "zip (timebuffer ?t) (databuffer ?t) = (zip (timebuffer s) (databuffer s))
        [(?r + ?n) mod 50 := (m_time m, log_zeile (m_fifo_count m) s)]"
      unfolding log_positions(1)[OF assms, symmetric] by (simp add: datalog_regelung_def zip_update)
    have "unread ?t = Suc ?n" "readcounter ?t = readcounter s"
      using True u by (simp_all add: datalog_regelung_def)
    then have "log_content ?t = ring_content ((zip (timebuffer s) (databuffer s))
        [(?r + ?n) mod 50 := (m_time m, log_zeile (m_fifo_count m) s)]) ?r (Suc ?n)"
      by (simp only: log_content_def z)
    also have "\<dots> = log_content s @ [(m_time m, log_zeile (m_fifo_count m) s)]"
      using True ring_content_put[of ?n "zip (timebuffer s) (databuffer s)", unfolded ok(3)]
      by (simp add: log_content_def)
    finally show ?thesis using True by (simp add: log_content_def)
  next
    case False
    then have "unread ?t = 0" using u log_positions(2)[OF assms] by (simp add: mod_if)
    then show ?thesis using False by (simp add: log_content_def)
  qed
qed

lemma print_content:
  assumes "log_ok s" "rdy" "opn" "\<not> syn"
  shows "case log_content s of
      [] \<Rightarrow> print_schritt rdy opn syn s = (None, s)
    | l # ls \<Rightarrow> \<exists>t. print_schritt rdy opn syn s = (Some l, t) \<and> log_ok t \<and> log_content t = ls"
proof (cases "unread s")
  case 0
  have "unat (writecounter s) = unat (readcounter s)"
    using log_positions(1)[OF assms(1)] 0 assms(1) by (simp add: log_ok_def)
  then have "writecounter s = readcounter s" by (simp only: unsigned_word_eqI)
  then show ?thesis using 0 by (simp add: log_content_def print_schritt_def)
next
  case (Suc k)
  let ?r = "unat (readcounter s)" and ?z = "zip (timebuffer s) (databuffer s)"
  have ok: "?r < 50" "length ?z = 50" using assms(1) by (simp_all add: log_ok_def)
  have c: "log_content s = ?z ! ?r # ring_content ?z (ring_next 50 ?r) k"
    using ring_content_get[of "Suc k" ?r ?z] ok unfolding log_content_def Suc by (simp only: ok) simp
  have ne: "readcounter s \<noteq> writecounter s"
    using Suc ok(1) by (auto simp: unread_def)
  define t where "t = s\<lparr>readcounter := weiter (readcounter s)\<rparr>"
  have p: "print_schritt rdy opn syn s = (Some (?z ! ?r), t)"
    using ne assms ok by (simp add: print_schritt_def t_def weiter_def Let_def log_ok_def)
  have r: "unat (readcounter t) = ring_next 50 ?r" using ok(1) by (simp add: t_def unat_weiter)
  have "unat (writecounter t) = (ring_next 50 ?r + k) mod 50"
    using log_positions(1)[OF assms(1)] ring_rd_step[OF ok(1), of "Suc k"] Suc by (simp add: t_def)
  then have "unread t = k mod 50"
    unfolding unread_def[of t] r by (simp add: ring_distance ring_next_less ok(1))
  then have "unread t = k" using log_positions(2)[OF assms(1)] Suc by simp
  then have "log_content t = ring_content ?z (ring_next 50 ?r) k" by (simp add: log_content_def r) (simp add: t_def)
  moreover have "log_ok t" using assms(1) r ring_next_less[OF ok(1)] by (simp add: log_ok_def t_def)
  ultimately show ?thesis using c p by auto
qed

lemma Regelung_log:
  assumes "log_ok s"
  shows "log_ok (Regelung param m s)"
    "log_content (Regelung param m s) =
       (if length (log_content s) < 49
        then log_content s @ [(m_time m, log_zeile (m_fifo_count m) (Regelung param m s))] else [])"
proof -
  define t where "t = alte_werte (motoren_setzen (motorwerte (yaw_regler param
    (roll_regler param (nick_regler param (werte_uebernehmen m s))))))"
  obtain n r y where "yaw_regler param (roll_regler param (nick_regler param (werte_uebernehmen m s)))
      = (werte_uebernehmen m s)\<lparr>nick := n, roll := r, yaw := y\<rparr>" using regler_frame by blast
  then have f: "timebuffer t = timebuffer s" "databuffer t = databuffer s" "readcounter t = readcounter s"
    "writecounter t = writecounter s"
    by (simp_all add: t_def alte_werte_def Let_def motoren_setzen_def motorwerte_frame werte_uebernehmen_def)
  then have l: "log_ok t" "log_content t = log_content s"
    using assms f log_content_cong[OF f] by (simp_all add: log_ok_def)
  have R: "Regelung param m s = datalog_regelung m t" by (simp add: Regelung_def t_def)
  have z: "log_zeile f (datalog_regelung m t) = log_zeile f t" for f
    by (simp add: log_zeile_def datalog_regelung_def)
  show "log_ok (Regelung param m s)" unfolding R using l(1) by (rule datalog_content)
  show "log_content (Regelung param m s) =
       (if length (log_content s) < 49
        then log_content s @ [(m_time m, log_zeile (m_fifo_count m) (Regelung param m s))] else [])"
    unfolding R z using datalog_content(2)[OF l(1)] l(2) by simp
qed

lemma log_start: "log_ok regelung_start" "log_content regelung_start = []"
  by (simp_all add: log_ok_def regelung_start_def log_content_def unread_def)

section \<open>File names\<close>

text \<open>\<^verbatim>\<open>Reg00.TXT\<close>, \<^verbatim>\<open>Reg01.TXT\<close>, \dots\<close>

definition reg_name :: "nat \<Rightarrow> u8 list" where
  "reg_name k = [82, 101, 103, 48 + of_nat (k div 10), 48 + of_nat (k mod 10), 46, 84, 88, 84]"

lemma next_reg_name: "next_name (reg_name k) = reg_name (Suc k)"
proof -
  have u: "unat (48 + of_nat (k mod 10) :: u8) = 48 + k mod 10"
  proof -
    have "k mod 10 < 10" by simp
    then have "unat (of_nat (k mod 10) :: u8) = k mod 10" by (subst unat_of_nat) simp
    then show ?thesis using \<open>k mod 10 < 10\<close> by (simp add: unat_word_ariths)
  qed
  show ?thesis
  proof (cases "k mod 10 = 9")
    case True
    then have "Suc k div 10 = Suc (k div 10)" "Suc k mod 10 = 0" by (auto simp: div_Suc mod_Suc)
    moreover have "\<not> (48 + of_nat (k mod 10) :: u8) < 57" using u True by (simp add: word_less_nat_alt)
    ultimately show ?thesis by (simp add: next_name_def reg_name_def add.assoc)
  next
    case False
    then have s: "Suc k div 10 = k div 10" "Suc k mod 10 = Suc (k mod 10)" by (auto simp: div_Suc mod_Suc)
    have "k mod 10 < 9" using False by presburger
    then have "(48 + of_nat (k mod 10) :: u8) < 57" using u by (simp add: word_less_nat_alt)
    then show ?thesis using s by (simp add: next_name_def reg_name_def add.assoc add.commute)
  qed
qed

lemma reg_name_inj: "\<lbrakk>reg_name i = reg_name j; i < 100; j < 100\<rbrakk> \<Longrightarrow> i = j"
proof -
  assume a: "reg_name i = reg_name j" "i < 100" "j < 100"
  have of_nat_eq: "x = y" if "(of_nat x :: u8) = of_nat y" "x < 100" "y < 100" for x y :: nat
    using that by (simp add: word_of_nat_eq_iff take_bit_nat_eq_self)
  have "i div 10 = j div 10" "i mod 10 = j mod 10"
    using a of_nat_eq[of "i div 10" "j div 10"] of_nat_eq[of "i mod 10" "j mod 10"] by (auto simp: reg_name_def)
  then show "i = j" by (metis div_mult_mod_eq)
qed

section \<open>Sequences of passes\<close>

lemma passes_ia:
  "\<lbrakk>ia_begrenzt s; \<forall>(param, m) \<in> set ps. \<not> wahr (param ! 13) \<and> \<not> wahr (param ! 27) \<and> \<not> wahr (param ! 41)\<rbrakk>
   \<Longrightarrow> ia_begrenzt (passes ps s)"
  by (induction ps s rule: passes.induct) (auto intro: Regelung_ia)

lemma begrenzt_start: "ii_begrenzt regelung_start" "ia_begrenzt regelung_start"
  by (simp_all add: ii_begrenzt_def ia_begrenzt_def begrenzt_def regelung_start_def achse_start_def)

lemma gas_half: "gas (f32 (1 / 2))"
proof -
  have p: "(2::rat) powi (- 1) = 1 / 2" using power_int_minus_divide[of "2::rat" 1] by simp
  have h: "rep32 (1 / 2)" "rep64 (1 / 2)"
    by (rule rep32_dyadic[of _ 1 "- 1"] rep64_dyadic[of _ 1 "- 1"]; simp add: p)+
  have p3: "(2::rat) powi (- 3) = 1 / 8" using power_int_minus_divide[of "2::rat" 3] by simp
  have "rep64 (1 / 8)" by (rule rep64_dyadic[of _ 1 "- 3"]) (simp_all add: p3)
  then obtain q where "flt64 (f64 (1 / 10)) = Fin q" "q \<le> 1 / 8"
    using round64_within[of 0 "1 / 8" "1 / 10"] by (auto simp: f64_def)
  then show ?thesis using h by (simp add: gas_def double_of_def less_float64_def less_eq_float32_def less_float32_def)
qed

end
