(* ===== verification/Remote.thy ===== *)
theory Remote
  imports Floats Eeprom
begin

text \<open>
  The remote control, \<^verbatim>\<open>Quad/Fernsteuerung.cpp\<close>: the pulse widths of four channels,
  measured in interrupt handlers, the calibration of the sticks, kept in the flash store,
  and the setpoints computed from both.
\<close>

section \<open>State\<close>

text \<open>Channels: 0 roll, 1 nick, 2 throttle (\<^verbatim>\<open>schub\<close>), 3 yaw.\<close>

record fernsteuerung =
  RC_INPUT_CHANNELS :: "u16 list"
  RC_INPUT_LAST_TCNT :: u16
  Fernsteuerung_ready_flag :: bool
  cal_val :: "u16 list"
  first_visit_roll :: u16
  first_visit_nick :: u16
  first_visit_yaw :: u16
  first_visit_schub :: u16
  calibration_active :: u16
  timer_finish :: u16
  on_off :: u16            \<comment> \<open>the static local of \<^verbatim>\<open>calib_interrupt\<close>\<close>
  leds :: bool             \<comment> \<open>the three LEDs that show a running calibration\<close>

text \<open>The indices of \<^verbatim>\<open>Flash.h\<close>, as they are used: less \<^verbatim>\<open>offset_flash_cal\<close>.\<close>

definition offset_flash_cal :: nat where "offset_flash_cal = 1"
definition number_flash_cal :: nat where "number_flash_cal = 12"

definition index_rc_roll_max :: nat where "index_rc_roll_max = offset_flash_cal + 0"
definition index_rc_roll_min :: nat where "index_rc_roll_min = offset_flash_cal + 1"
definition index_rc_roll_null :: nat where "index_rc_roll_null = offset_flash_cal + 2"
definition index_rc_nick_max :: nat where "index_rc_nick_max = offset_flash_cal + 3"
definition index_rc_nick_min :: nat where "index_rc_nick_min = offset_flash_cal + 4"
definition index_rc_nick_null :: nat where "index_rc_nick_null = offset_flash_cal + 5"
definition index_rc_yaw_max :: nat where "index_rc_yaw_max = offset_flash_cal + 6"
definition index_rc_yaw_min :: nat where "index_rc_yaw_min = offset_flash_cal + 7"
definition index_rc_yaw_null :: nat where "index_rc_yaw_null = offset_flash_cal + 8"
definition index_rc_schub_max :: nat where "index_rc_schub_max = offset_flash_cal + 9"
definition index_rc_schub_null :: nat where "index_rc_schub_null = offset_flash_cal + 10"
definition index_calibration_ready_flag :: nat where "index_calibration_ready_flag = offset_flash_cal + 11"

lemmas cal_index =
  offset_flash_cal_def number_flash_cal_def
  index_rc_roll_max_def index_rc_roll_min_def index_rc_roll_null_def
  index_rc_nick_max_def index_rc_nick_min_def index_rc_nick_null_def
  index_rc_yaw_max_def index_rc_yaw_min_def index_rc_yaw_null_def
  index_rc_schub_max_def index_rc_schub_null_def index_calibration_ready_flag_def

definition cal :: "fernsteuerung \<Rightarrow> nat \<Rightarrow> u16" where
  "cal s i = cal_val s ! (i - offset_flash_cal)"

definition set_cal :: "nat \<Rightarrow> u16 \<Rightarrow> fernsteuerung \<Rightarrow> fernsteuerung" where
  "set_cal i v s = s\<lparr>cal_val := (cal_val s)[i - offset_flash_cal := v]\<rparr>"

text \<open>The globals before \<^verbatim>\<open>setup_Fernsteuerung\<close>.\<close>

definition fern_start :: fernsteuerung where
  "fern_start = \<lparr>RC_INPUT_CHANNELS = replicate 4 0, RC_INPUT_LAST_TCNT = 0, Fernsteuerung_ready_flag = False,
     cal_val = replicate 12 0, first_visit_roll = 1, first_visit_nick = 1, first_visit_yaw = 1,
     first_visit_schub = 1, calibration_active = 0, timer_finish = 1, on_off = 0, leds = False\<rparr>"

section \<open>Pulse measurement\<close>

definition RC_IN_RANGE :: "u16 \<Rightarrow> bool" where
  "RC_IN_RANGE x \<longleftrightarrow> 900 < x \<and> x < 2300"

text \<open>
  The interrupt of a channel: \<open>low\<close> is the level of its pin, \<open>cnt\<close> and \<open>cnt'\<close> the two
  readings of the counter of timer 4. \<open>aufnehmen\<close> is what a handler does with a pulse in
  range while a calibration runs.
\<close>

definition rx_interrupt :: "nat \<Rightarrow> (fernsteuerung \<Rightarrow> fernsteuerung) \<Rightarrow> bool \<Rightarrow> u16 \<Rightarrow> u16
    \<Rightarrow> fernsteuerung \<Rightarrow> fernsteuerung" where
  "rx_interrupt ch aufnehmen low cnt cnt' s =
     (let s = (if low then
                 (let tmp = cnt - RC_INPUT_LAST_TCNT s in
                  if RC_IN_RANGE tmp
                  then (let s = s\<lparr>RC_INPUT_CHANNELS := (RC_INPUT_CHANNELS s)[ch := tmp]\<rparr>
                        in if calibration_active s \<noteq> 0 then aufnehmen s else s)
                  else s)
               else s)
      in s\<lparr>RC_INPUT_LAST_TCNT := cnt'\<rparr>)"

definition cal_roll :: "fernsteuerung \<Rightarrow> fernsteuerung" where
  "cal_roll s = (let v = RC_INPUT_CHANNELS s ! 0 in
     if first_visit_roll s \<noteq> 0
     then (set_cal index_rc_roll_max v (set_cal index_rc_roll_min v (set_cal index_rc_roll_null v s)))\<lparr>first_visit_roll := 0\<rparr>
     else (let s = set_cal index_rc_roll_min (if v < cal s index_rc_roll_min then v else cal s index_rc_roll_min) s
           in set_cal index_rc_roll_max (if cal s index_rc_roll_max < v then v else cal s index_rc_roll_max) s))"

definition cal_nick :: "fernsteuerung \<Rightarrow> fernsteuerung" where
  "cal_nick s = (let v = RC_INPUT_CHANNELS s ! 1 in
     if first_visit_nick s \<noteq> 0
     then (set_cal index_rc_nick_max v (set_cal index_rc_nick_min v (set_cal index_rc_nick_null v s)))\<lparr>first_visit_nick := 0\<rparr>
     else (let s = set_cal index_rc_nick_min (if v < cal s index_rc_nick_min then v else cal s index_rc_nick_min) s
           in set_cal index_rc_nick_max (if cal s index_rc_nick_max < v then v else cal s index_rc_nick_max) s))"

definition cal_schub :: "fernsteuerung \<Rightarrow> fernsteuerung" where
  "cal_schub s = (let v = RC_INPUT_CHANNELS s ! 2 in
     if first_visit_schub s \<noteq> 0
     then (set_cal index_rc_schub_max v (set_cal index_rc_schub_null v s))\<lparr>first_visit_schub := 0\<rparr>
     else (let s = set_cal index_rc_schub_null (if v < cal s index_rc_schub_null then v else cal s index_rc_schub_null) s
           in set_cal index_rc_schub_max (if cal s index_rc_schub_max < v then v else cal s index_rc_schub_max) s))"

definition cal_yaw :: "fernsteuerung \<Rightarrow> fernsteuerung" where
  "cal_yaw s = (let v = RC_INPUT_CHANNELS s ! 3 in
     if first_visit_yaw s \<noteq> 0
     then (set_cal index_rc_yaw_max v (set_cal index_rc_yaw_min v (set_cal index_rc_yaw_null v s)))\<lparr>first_visit_yaw := 0\<rparr>
     else (let s = set_cal index_rc_yaw_min (if v < cal s index_rc_yaw_min then v else cal s index_rc_yaw_min) s
           in set_cal index_rc_yaw_max (if cal s index_rc_yaw_max < v then v else cal s index_rc_yaw_max) s))"

definition rx_channel1_interrupt :: "bool \<Rightarrow> u16 \<Rightarrow> u16 \<Rightarrow> fernsteuerung \<Rightarrow> fernsteuerung" where
  "rx_channel1_interrupt = rx_interrupt 0 cal_roll"
definition rx_channel2_interrupt :: "bool \<Rightarrow> u16 \<Rightarrow> u16 \<Rightarrow> fernsteuerung \<Rightarrow> fernsteuerung" where
  "rx_channel2_interrupt = rx_interrupt 1 cal_nick"
definition rx_channel3_interrupt :: "bool \<Rightarrow> u16 \<Rightarrow> u16 \<Rightarrow> fernsteuerung \<Rightarrow> fernsteuerung" where
  "rx_channel3_interrupt = rx_interrupt 2 cal_schub"
definition rx_channel4_interrupt :: "bool \<Rightarrow> u16 \<Rightarrow> u16 \<Rightarrow> fernsteuerung \<Rightarrow> fernsteuerung" where
  "rx_channel4_interrupt = rx_interrupt 3 cal_yaw"

section \<open>Set-up\<close>

text \<open>
  \<^verbatim>\<open>setup_Fernsteuerung\<close>, without the registers of timer 4; \<open>ext_active\<close>: the external
  interrupts are configured. A variable the store does not have leaves its value alone.
\<close>

definition RC_INPUT_CHANNELS_Offset :: "int list" where
  "RC_INPUT_CHANNELS_Offset = [- 1500, - 1500, - 1100, - 1500]"

definition read_cal :: "flash \<Rightarrow> u16 list \<Rightarrow> u16 list" where
  "read_cal f cs = fold (\<lambda>i cs. case snd (EE_ReadVariable (VirtAddVarTab ! (i + offset_flash_cal)) f) of
       None \<Rightarrow> cs | Some v \<Rightarrow> cs[i := v]) [0..<number_flash_cal] cs"

definition setup_Fernsteuerung :: "bool \<Rightarrow> flash \<Rightarrow> fernsteuerung \<Rightarrow> fernsteuerung" where
  "setup_Fernsteuerung ext_active f s =
     (let s = s\<lparr>RC_INPUT_CHANNELS := map (\<lambda>k. word_of_int (- k)) RC_INPUT_CHANNELS_Offset\<rparr>;
          s = (if ext_active then s\<lparr>Fernsteuerung_ready_flag := True\<rparr> else s)
      in if EE_ReadVariable (VirtAddVarTab ! index_calibration_ready_flag) f = (0, Some 1)
         then s\<lparr>cal_val := read_cal f (cal_val s)\<rparr>
         else s)"

section \<open>Setpoints\<close>

text \<open>A \<^verbatim>\<open>uint16_t\<close> is an \<^verbatim>\<open>int\<close> in arithmetic, and a \<^verbatim>\<open>double\<close> next to one.\<close>

definition double_diff :: "u16 \<Rightarrow> u16 \<Rightarrow> float64" where
  "double_diff a b = f64 (of_int (uint a - uint b))"

definition kalibriert :: "fernsteuerung \<Rightarrow> bool" where
  "kalibriert s \<longleftrightarrow> Fernsteuerung_ready_flag s \<and> cal s index_calibration_ready_flag \<noteq> 0
     \<and> calibration_active s = 0"

definition max_roll :: float64 where "max_roll = f64 (5 / 10)"
definition max_nick :: float64 where "max_nick = f64 (5 / 10)"
definition max_yaw :: float64 where "max_yaw = f64 (5 / 10)"
definition max_schub :: float64 where "max_schub = f64 1"

definition get_euler_nick_soll :: "fernsteuerung \<Rightarrow> float32" where
  "get_euler_nick_soll s =
     (if kalibriert s then
        float_of (if cal s index_rc_nick_null < RC_INPUT_CHANNELS s ! 1
          then max_nick / double_diff (cal s index_rc_nick_max) (cal s index_rc_nick_null)
                 * double_diff (RC_INPUT_CHANNELS s ! 1) (cal s index_rc_nick_null)
          else max_nick / double_diff (cal s index_rc_nick_null) (cal s index_rc_nick_min)
                 * double_diff (RC_INPUT_CHANNELS s ! 1) (cal s index_rc_nick_null))
      else 0)"

definition get_euler_roll_soll :: "fernsteuerung \<Rightarrow> float32" where
  "get_euler_roll_soll s =
     (if kalibriert s then
        float_of (if cal s index_rc_roll_null < RC_INPUT_CHANNELS s ! 0
          then max_roll / double_diff (cal s index_rc_roll_max) (cal s index_rc_roll_null)
                 * double_diff (RC_INPUT_CHANNELS s ! 0) (cal s index_rc_roll_null)
          else max_roll / double_diff (cal s index_rc_roll_null) (cal s index_rc_roll_min)
                 * double_diff (RC_INPUT_CHANNELS s ! 0) (cal s index_rc_roll_null))
      else 0)"

definition get_schub_soll :: "fernsteuerung \<Rightarrow> float32" where
  "get_schub_soll s =
     (if kalibriert s then
        float_of (max_schub / double_diff (cal s index_rc_schub_max) (cal s index_rc_schub_null)
                 * double_diff (RC_INPUT_CHANNELS s ! 2) (cal s index_rc_schub_null))
      else 0)"

definition get_euler_yaw_soll :: "fernsteuerung \<Rightarrow> float32" where
  "get_euler_yaw_soll s =
     (if kalibriert s then
        float_of (if cal s index_rc_yaw_null < RC_INPUT_CHANNELS s ! 3
          then max_yaw / double_diff (cal s index_rc_yaw_max) (cal s index_rc_yaw_null)
                 * double_diff (RC_INPUT_CHANNELS s ! 3) (cal s index_rc_yaw_null)
          else max_yaw / double_diff (cal s index_rc_yaw_null) (cal s index_rc_yaw_min)
                 * double_diff (RC_INPUT_CHANNELS s ! 3) (cal s index_rc_yaw_null))
      else 0)"

definition get_chan1_scaled :: "fernsteuerung \<Rightarrow> 16 word" where
  "get_chan1_scaled s = word_of_int ((uint (RC_INPUT_CHANNELS s ! 0) + RC_INPUT_CHANNELS_Offset ! 0) * 20)"
definition get_chan2_scaled :: "fernsteuerung \<Rightarrow> 16 word" where
  "get_chan2_scaled s = word_of_int ((uint (RC_INPUT_CHANNELS s ! 1) + RC_INPUT_CHANNELS_Offset ! 1) * 20)"
definition get_chan3_scaled :: "fernsteuerung \<Rightarrow> 16 word" where
  "get_chan3_scaled s = word_of_int ((uint (RC_INPUT_CHANNELS s ! 2) + RC_INPUT_CHANNELS_Offset ! 2) * 10)"
definition get_chan4_scaled :: "fernsteuerung \<Rightarrow> 16 word" where
  "get_chan4_scaled s = word_of_int ((uint (RC_INPUT_CHANNELS s ! 3) + RC_INPUT_CHANNELS_Offset ! 3) * 20)"

section \<open>Calibration\<close>

definition start_calib :: "fernsteuerung \<Rightarrow> fernsteuerung" where
  "start_calib s = s\<lparr>leds := True, calibration_active := 1, first_visit_roll := 1, first_visit_nick := 1,
     first_visit_yaw := 1, first_visit_schub := 1\<rparr>"

definition write_cal :: "controller \<Rightarrow> u16 list \<Rightarrow> u16 \<times> flash \<Rightarrow> u16 \<times> flash" where
  "write_cal c cs ds = fold (\<lambda>i ds. snd (EE_WriteVariable c (VirtAddVarTab ! (i + offset_flash_cal)) (cs ! i) ds))
     [0..<number_flash_cal] ds"

text \<open>End of a calibration: mark the values as ready and store them.\<close>

definition store_calib :: "controller \<Rightarrow> fernsteuerung \<times> u16 \<times> flash \<Rightarrow> fernsteuerung \<times> u16 \<times> flash" where
  "store_calib c sf = (case sf of (s, ds) \<Rightarrow>
     let s = s\<lparr>leds := False, calibration_active := 0\<rparr>;
         s = set_cal index_calibration_ready_flag 1 s
     in (s, write_cal c (cal_val s) ds))"

definition stop_calib :: "controller \<Rightarrow> fernsteuerung \<times> u16 \<times> flash \<Rightarrow> fernsteuerung \<times> u16 \<times> flash" where
  "stop_calib c sf = (if calibration_active (fst sf) = 1 then store_calib c sf else sf)"

text \<open>
  The interrupt of the calibration button. The first member of the result is the delay
  for which the timer is armed that makes \<open>timer_handler\<close> run. To start a calibration the
  handler writes element 12 of the twelve of \<open>cal_val\<close>, which is outside the array: C gives
  what follows no meaning, and the result is \<open>None\<close>.
\<close>

definition calib_interrupt :: "controller \<Rightarrow> fernsteuerung \<times> u16 \<times> flash
    \<Rightarrow> (nat option \<times> fernsteuerung \<times> u16 \<times> flash) option" where
  "calib_interrupt c sf =
     (if timer_finish (fst sf) \<noteq> 0 then
        (case (if on_off (fst sf) \<noteq> 0 then Some (store_calib c sf)
               else (let s = (fst sf)\<lparr>leds := True, calibration_active := 1\<rparr> in
                     if index_calibration_ready_flag < length (cal_val s)
                     then Some (s\<lparr>cal_val := (cal_val s)[index_calibration_ready_flag := 0],
                        first_visit_roll := 1, first_visit_nick := 1, first_visit_yaw := 1,
                        first_visit_schub := 1\<rparr>, snd sf)
                     else None)) of
           None \<Rightarrow> None
         | Some (s, ds) \<Rightarrow>
             Some (Some 700, s\<lparr>on_off := if on_off s = 1 then 0 else 1, timer_finish := 0\<rparr>, ds))
      else Some (None, sf))"

definition timer_handler :: "fernsteuerung \<Rightarrow> fernsteuerung" where
  "timer_handler s = s\<lparr>timer_finish := 1\<rparr>"

definition get_rc_calibration_ready :: "fernsteuerung \<Rightarrow> bool" where
  "get_rc_calibration_ready s \<longleftrightarrow> cal s index_calibration_ready_flag = 1"

section \<open>Scaling a stick\<close>

lemma just_above: "rep64 (4503599627370497 / 4503599627370496)" "rep64 (4503599627370497 / 9007199254740992)"
  "round32 (4503599627370497 / 4503599627370496) = Fin 1"
  "round32 (4503599627370497 / 9007199254740992) = Fin (1 / 2)"
  "rep64 (131073 / 131072)" "rep32 (131073 / 131072)" "rep64 (1 / 2)" "rep32 (1 / 2)"
proof -
  have p: "(2::rat) powi (- 52) = 1 / 4503599627370496" "(2::rat) powi (- 53) = 1 / 9007199254740992"
    "(2::rat) powi (- 17) = 1 / 131072" "(2::rat) powi (- 1) = 1 / 2"
    using power_int_minus_divide[of "2::rat" 52] power_int_minus_divide[of "2::rat" 53]
      power_int_minus_divide[of "2::rat" 17] power_int_minus_divide[of "2::rat" 1] by simp_all
  show "rep64 (4503599627370497 / 4503599627370496)"
    by (rule rep64_dyadic[of _ 4503599627370497 "- 52"]) (simp_all only: p, simp_all)
  show "rep64 (4503599627370497 / 9007199254740992)"
    by (rule rep64_dyadic[of _ 4503599627370497 "- 53"]) (simp_all only: p, simp_all)
  show "rep64 (131073 / 131072)"
    by (rule rep64_dyadic[of _ 131073 "- 17"]) (simp_all only: p, simp_all)
  show "rep32 (131073 / 131072)"
    by (rule rep32_dyadic[of _ 131073 "- 17"]) (simp_all only: p, simp_all)
  show "rep64 (1 / 2)"
    by (rule rep64_dyadic[of _ 1 "- 1"]) (simp_all only: p, simp_all)
  show "rep32 (1 / 2)"
    by (rule rep32_dyadic[of _ 1 "- 1"]) (simp_all only: p, simp_all)
  show "round32 (4503599627370497 / 4503599627370496) = Fin 1"
    "round32 (4503599627370497 / 9007199254740992) = Fin (1 / 2)" by code_simp+
qed

lemma literals: "max_nick = f64 (1 / 2)" "max_roll = f64 (1 / 2)" "max_yaw = f64 (1 / 2)" "max_schub = f64 1"
  by (simp_all add: max_nick_def max_roll_def max_yaw_def max_schub_def)

lemma flt_double_diff: "flt64 (double_diff a b) = Fin (of_int (uint a - uint b))"
proof -
  have "0 \<le> uint a" "uint a < 65536" "0 \<le> uint b" "uint b < 65536"
    using uint_lt2p[of a] uint_lt2p[of b] by simp_all
  then have "\<bar>uint a - uint b\<bar> < 65536" by linarith
  then have "\<bar>uint a - uint b\<bar> < 2 ^ 53" by simp
  then show ?thesis unfolding double_diff_def by (intro flt_literal rep64_of_int)
qed

text \<open>The quotient of a limit and a travel between 1 and 65535.\<close>

lemma travel_quotient:
  assumes "m = 1 \<or> m = 1 / 2" "1 \<le> d" "d < 65536"
  shows "\<exists>q. flt64 (f64 m / f64 (of_int d)) = Fin q
    \<and> m / of_int d - m / of_int d / 2 ^ 53 \<le> q \<and> q \<le> m / of_int d + m / of_int d / 2 ^ 53"
proof -
  have d: "(1::rat) \<le> of_int d" "(of_int d :: rat) \<le> 65536" using assms(2,3) by simp_all
  have m: "flt64 (f64 m) = Fin m" "1 / 2 \<le> m" "m \<le> 1"
    using assms(1) by (elim disjE; hypsubst; simp add: just_above)+
  have "flt64 (f64 (of_int d)) = Fin (of_int d)" using assms(2,3) by (intro flt_literal rep64_of_int) simp
  then have q: "flt64 (f64 m / f64 (of_int d)) = round64 (m / of_int d)"
    using d m by (simp add: divide_float64_def)
  have "(1::rat) / 2 ^ 60 * of_int d \<le> 1 / 2 ^ 60 * 65536" using d(2) by (intro mult_left_mono) auto
  also have "\<dots> \<le> m" using m(2) by simp
  finally have "1 / 2 ^ 60 \<le> m / of_int d" using d by (simp add: pos_le_divide_eq)
  moreover have "m / of_int d \<le> 2 ^ 60" using d m by (simp add: pos_divide_le_eq)
  ultimately show ?thesis unfolding q by (rule round64_error)
qed

text \<open>A deflection within the travel is scaled into the limits.\<close>

lemma scale_range:
  assumes m: "m = 1 \<or> m = 1 / 2" and d: "1 \<le> d" "d < 65536" and n: "0 \<le> n" "n \<le> d"
  shows "in32 0 m (float_of (f64 m / f64 (of_int d) * f64 (of_int n)))"
    "in32 (- m) 0 (float_of (f64 m / f64 (of_int d) * f64 (of_int (- n))))"
proof -
  define h where "h = m + m / 2 ^ 52"
  have h: "rep64 h" "round32 h = Fin m" 
    using m by (elim disjE; hypsubst; simp add: just_above h_def)+
  obtain q where q: "flt64 (f64 m / f64 (of_int d)) = Fin q"
    "m / of_int d - m / of_int d / 2 ^ 53 \<le> q" "q \<le> m / of_int d + m / of_int d / 2 ^ 53"
    using travel_quotient[OF m d] by blast
  have m0: "0 < m" and dp: "(0::rat) < of_int d" using m d by auto
  have k: "0 \<le> m / of_int d" "m / of_int d / 2 ^ 53 \<le> m / of_int d" using m0 dp by (simp_all add: divide_le_eq)
  then have q0: "0 \<le> q" using q(2) by linarith
  have "q * of_int n \<le> q * of_int d" using q0 n(2) by (intro mult_left_mono) simp_all
  also have "\<dots> \<le> (m / of_int d + m / of_int d / 2 ^ 53) * of_int d" using q(3) dp by (intro mult_right_mono) simp_all
  also have "\<dots> = m + m / 2 ^ 53" using dp by (simp add: field_simps)
  also have "\<dots> \<le> h" using m0 by (simp add: h_def field_simps)
  finally have b: "q * of_int n \<le> h" "0 \<le> q * of_int n" using q0 n(1) by simp_all
  obtain r where r: "round64 (q * of_int n) = Fin r" "0 \<le> r" "r \<le> h"
    using round64_within[OF _ h(1) b(2,1)] by auto
  obtain t where t: "round32 r = Fin t" "0 \<le> t" "t \<le> m"
    using round32_between[of 0 0, OF _ h(2) r(2,3)] by auto
  have e: "flt64 (f64 (of_int n)) = Fin (of_int n)" "flt64 (f64 (of_int (- n))) = Fin (- of_int n)"
    using n d rep64_of_int[of n] rep64_of_int[of "- n"] by simp_all
  show "in32 0 m (float_of (f64 m / f64 (of_int d) * f64 (of_int n)))"
    using r t by (simp add: float_of_def times_float64_def q(1) e)
  show "in32 (- m) 0 (float_of (f64 m / f64 (of_int d) * f64 (of_int (- n))))"
    unfolding float_of_def times_float64_def q(1) e using r t
    by (simp add: round64_neg[OF r(1)] round32_neg[OF t(1)])
qed

text \<open>A deflection past the travel is scaled past the limit, here that of the throttle.\<close>

lemma scale_above:
  assumes d: "1 \<le> d" "d < n" "n < 65536"
  shows "f32 1 < float_of (f64 1 / f64 (of_int d) * f64 (of_int n))"
proof -
  obtain q where q: "flt64 (f64 1 / f64 (of_int d)) = Fin q"
    "1 / of_int d - 1 / of_int d / 2 ^ 53 \<le> q" "q \<le> 1 / of_int d + 1 / of_int d / 2 ^ 53"
    using travel_quotient[of 1 d] d by auto
  have dp: "(1::rat) \<le> of_int d" "of_int d \<le> (65535::rat)" "(of_int d :: rat) + 1 \<le> of_int n" "of_int n \<le> (65535 :: rat)"
    using d by simp_all
  have "1 / of_int d / 2 ^ 53 \<le> 1 / (of_int d :: rat)" using dp by (simp add: divide_le_eq)
  then have q0: "0 \<le> q" using q(2) by linarith
  have "(1::rat) / 65535 \<le> 1 / of_int d" "1 / of_int d \<le> (1::rat)"
    using dp by (simp_all add: frac_le)
  then have "131073 / 131072 \<le> (1 + 1 / of_int d) * (1 - (1::rat) / 2 ^ 53)" by (simp add: field_simps)
  also have "\<dots> = (1 / of_int d - 1 / of_int d / 2 ^ 53) * (of_int d + 1)" using dp by (simp add: field_simps)
  also have "\<dots> \<le> q * of_int n" using q(2) dp q0 by (intro mult_mono) auto
  finally have lo: "131073 / 131072 \<le> q * of_int n" .
  have "1 / of_int d / 2 ^ 53 \<le> (1::rat)" "1 / of_int d \<le> (1::rat)" using dp by (simp_all add: divide_le_eq)
  then have "q \<le> 2" using q(3) by linarith
  then have hi: "q * of_int n \<le> 131072" using q0 dp mult_mono[of q 2 "of_int n" 65535] by simp
  obtain r where r: "round64 (q * of_int n) = Fin r" "131073 / 131072 \<le> r" "r \<le> 131072"
    using round64_within[OF just_above(5) _ lo hi] by auto
  obtain t where t: "round32 r = Fin t" "131073 / 131072 \<le> t"
    using round32_within[OF just_above(6) _ r(2,3)] by auto
  have "flt64 (f64 (of_int n)) = Fin (of_int n)" using d by (intro flt_literal rep64_of_int) simp
  then show ?thesis using r t by (simp add: less_float32_def float_of_def times_float64_def q(1))
qed

lemma scale_low:
  assumes d: "1 \<le> d" "d < 65536" and n: "- 65536 < n" "16 * n \<le> d"
  shows "in32 (- 131072) (3 / 32) (float_of (f64 1 / f64 (of_int d) * f64 (of_int n)))"
proof -
  obtain q where q: "flt64 (f64 1 / f64 (of_int d)) = Fin q"
    "1 / of_int d - 1 / of_int d / 2 ^ 53 \<le> q" "q \<le> 1 / of_int d + 1 / of_int d / 2 ^ 53"
    using travel_quotient[of 1 d] d by auto
  have dp: "(1::rat) \<le> of_int d" "- 65536 \<le> (of_int n :: rat)" using d n by simp_all
  have k: "1 / of_int d / 2 ^ 53 \<le> 1 / (of_int d :: rat)" "1 / of_int d \<le> (1::rat)"
    using dp by (simp_all add: divide_le_eq)
  then have q0: "0 \<le> q" "q \<le> 2" using q(2,3) by linarith+
  have hi: "q * of_int n \<le> 3 / 32"
  proof (cases "n \<le> 0")
    case True
    then have "q * of_int n \<le> 0" using q0 by (simp add: mult_nonneg_nonpos)
    then show ?thesis by (rule order_trans) simp
  next
    case False
    have "(16 * of_int n :: rat) \<le> of_int d" using n(2) by (metis of_int_le_iff of_int_mult of_int_numeral)
    then have "q * (16 * of_int n) \<le> q * of_int d" using q0 by (intro mult_left_mono)
    also have "\<dots> \<le> (1 / of_int d + 1 / of_int d / 2 ^ 53) * of_int d" using q(3) dp by (intro mult_right_mono) simp_all
    also have "\<dots> \<le> 3 / 2" using dp by (simp add: field_simps)
    finally show ?thesis by simp
  qed
  have "q * of_int (- n) \<le> 2 * 65536" if "n \<le> 0" using q0 dp that by (intro mult_mono) auto
  then have lo: "- 131072 \<le> q * of_int n"
    using q0 by (cases "n \<le> 0") (auto intro: order_trans[of _ 0])
  have p: "(2::rat) powi (- 5) = 1 / 32" using power_int_minus_divide[of "2::rat" 5] by simp
  have r3: "rep64 (3 / 32)" "rep32 (3 / 32)"
    by (rule rep64_dyadic[of _ 3 "- 5"] rep32_dyadic[of _ 3 "- 5"]; simp add: p)+
  obtain r where r: "round64 (q * of_int n) = Fin r" "- 131072 \<le> r" "r \<le> 3 / 32"
    using round64_within[OF _ r3(1) lo hi] by auto
  obtain t where t: "round32 r = Fin t" "- 131072 \<le> t" "t \<le> 3 / 32"
    using round32_within[OF _ r3(2) r(2,3)] by auto
  have "flt64 (f64 (of_int n)) = Fin (of_int n)" using d n by (intro flt_literal rep64_of_int) (simp add: abs_less_iff)
  then show ?thesis using r t by (simp add: float_of_def times_float64_def q(1))
qed

section \<open>Setpoints\<close>

lemma get_schub_low:
  assumes "kalibriert s" "cal s index_rc_schub_null < cal s index_rc_schub_max"
    "16 * (uint (RC_INPUT_CHANNELS s ! 2) - uint (cal s index_rc_schub_null))
       \<le> uint (cal s index_rc_schub_max) - uint (cal s index_rc_schub_null)"
  shows "in32 (- 131072) (3 / 32) (get_schub_soll s)"
proof -
  define d n where "d = uint (cal s index_rc_schub_max) - uint (cal s index_rc_schub_null)"
    "n = uint (RC_INPUT_CHANNELS s ! 2) - uint (cal s index_rc_schub_null)"
  have b: "0 \<le> uint x" "uint x < 65536" for x :: u16 using uint_lt2p[of x] by simp_all
  have "1 \<le> d" using assms(2) by (simp add: d_n_def word_less_def)
  moreover have "d < 65536" "- 65536 < n"
    using b[of "cal s index_rc_schub_max"] b[of "cal s index_rc_schub_null"] b[of "RC_INPUT_CHANNELS s ! 2"]
    unfolding d_n_def by linarith+
  ultimately have "in32 (- 131072) (3 / 32) (float_of (f64 1 / f64 (of_int d) * f64 (of_int n)))"
    using assms(3) by (intro scale_low) (simp_all add: d_n_def)
  then show ?thesis using assms(1) by (simp add: get_schub_soll_def literals double_diff_def d_n_def)
qed

lemma get_schub_range:
  assumes "cal s index_rc_schub_null < cal s index_rc_schub_max" "cal s index_rc_schub_null \<le> RC_INPUT_CHANNELS s ! 2"
    "RC_INPUT_CHANNELS s ! 2 \<le> cal s index_rc_schub_max"
  shows "in32 0 1 (get_schub_soll s)"
proof -
  define d n where "d = uint (cal s index_rc_schub_max) - uint (cal s index_rc_schub_null)"
    "n = uint (RC_INPUT_CHANNELS s ! 2) - uint (cal s index_rc_schub_null)"
  have "1 \<le> d" "d < 65536" "0 \<le> n" "n \<le> d"
    using assms uint_lt2p[of "cal s index_rc_schub_max"]
    by (auto simp: d_n_def word_less_def word_le_def) (smt (verit) uint_nonnegative)
  then have "in32 0 1 (float_of (f64 1 / f64 (of_int d) * f64 (of_int n)))" by (intro scale_range) auto
  then show ?thesis by (simp add: get_schub_soll_def literals double_diff_def d_n_def)
qed

lemma get_schub_above:
  assumes "kalibriert s" "cal s index_rc_schub_null < cal s index_rc_schub_max"
    "cal s index_rc_schub_max < RC_INPUT_CHANNELS s ! 2"
  shows "f32 1 < get_schub_soll s"
proof -
  define d n where "d = uint (cal s index_rc_schub_max) - uint (cal s index_rc_schub_null)"
    "n = uint (RC_INPUT_CHANNELS s ! 2) - uint (cal s index_rc_schub_null)"
  have "1 \<le> d" "d < n" "n < 65536"
    using assms(2,3) uint_lt2p[of "RC_INPUT_CHANNELS s ! 2"]
    by (auto simp: d_n_def word_less_def) (smt (verit) uint_nonnegative)
  then have "f32 1 < float_of (f64 1 / f64 (of_int d) * f64 (of_int n))" by (rule scale_above)
  then show ?thesis using assms(1) by (simp add: get_schub_soll_def literals double_diff_def d_n_def)
qed

lemma stick_range:
  assumes "mn < nl" "nl < mx" "mn \<le> x" "x \<le> mx"
  shows "in32 (- (1 / 2)) (1 / 2) (float_of (if nl < x
      then f64 (1 / 2) / double_diff mx nl * double_diff x nl
      else f64 (1 / 2) / double_diff nl mn * double_diff x nl))"
proof (cases "nl < x")
  case True
  have "1 \<le> uint mx - uint nl" "uint mx - uint nl < 65536" "0 \<le> uint x - uint nl" "uint x - uint nl \<le> uint mx - uint nl"
    using assms True uint_lt2p[of mx] by (auto simp: word_less_def word_le_def) (smt (verit) uint_nonnegative)
  from scale_range(1)[OF _ this, of "1 / 2"] show ?thesis
    using True by (auto simp: double_diff_def elim!: flt_in_mono)
next
  case False
  have "1 \<le> uint nl - uint mn" "uint nl - uint mn < 65536" "0 \<le> uint nl - uint x" "uint nl - uint x \<le> uint nl - uint mn"
    using assms False uint_lt2p[of nl] by (auto simp: word_less_def word_le_def) (smt (verit) uint_nonnegative)
  from scale_range(2)[OF _ this, of "1 / 2"] show ?thesis
    using False by (auto simp: double_diff_def elim!: flt_in_mono)
qed

text \<open>Without travel between the ends and the centre there is no finite setpoint.\<close>

lemma stick_degenerate:
  "flt32 (float_of (if nl < x then f64 (1 / 2) / double_diff nl nl * double_diff x nl
      else f64 (1 / 2) / double_diff nl nl * double_diff x nl))
   = (if nl < x then Infty False else if x < nl then Infty True else NaN)"
proof -
  have "flt64 (f64 (1 / 2) / double_diff nl nl) = Infty False"
    using just_above by (simp add: divide_float64_def flt_double_diff)
  moreover have "flt_mul round64 (Infty False) (Fin (of_int k)) =
      (if 0 < k then Infty False else if k < 0 then Infty True else NaN)" for k :: int
    by simp
  ultimately have "flt64 (f64 (1 / 2) / double_diff nl nl * double_diff x nl)
      = (if 0 < uint x - uint nl then Infty False else if uint x - uint nl < 0 then Infty True else NaN)"
    unfolding times_float64_def flt_double_diff by (simp only: float64.sel)
  then have "flt32 (float_of (f64 (1 / 2) / double_diff nl nl * double_diff x nl))
      = (if uint nl < uint x then Infty False else if uint x < uint nl then Infty True else NaN)"
    by (simp add: float_of_def del: flt_mul.simps)
  then show ?thesis by (simp only: word_less_def if_cancel)
qed

lemma get_nick_degenerate:
  assumes "kalibriert s" "cal s index_rc_nick_max = cal s index_rc_nick_null" "cal s index_rc_nick_min = cal s index_rc_nick_null"
  shows "\<not> finite32 (get_euler_nick_soll s)"
proof -
  have "flt32 (get_euler_nick_soll s) =
    (if cal s index_rc_nick_null < RC_INPUT_CHANNELS s ! 1 then Infty False
     else if RC_INPUT_CHANNELS s ! 1 < cal s index_rc_nick_null then Infty True else NaN)"
    using stick_degenerate[of "cal s index_rc_nick_null" "RC_INPUT_CHANNELS s ! 1"] assms
    by (simp add: get_euler_nick_soll_def literals)
  then show ?thesis by (cases "get_euler_nick_soll s") (auto split: if_splits)
qed

lemma in32_if_0: "in32 (- (1 / 2)) (1 / 2) x \<Longrightarrow> in32 (- (1 / 2)) (1 / 2) (if b then x else 0)"
  by simp

lemma get_nick_range:
  assumes "cal s index_rc_nick_min < cal s index_rc_nick_null" "cal s index_rc_nick_null < cal s index_rc_nick_max"
    "cal s index_rc_nick_min \<le> RC_INPUT_CHANNELS s ! 1" "RC_INPUT_CHANNELS s ! 1 \<le> cal s index_rc_nick_max"
  shows "in32 (- (1 / 2)) (1 / 2) (get_euler_nick_soll s)"
  unfolding get_euler_nick_soll_def literals by (rule in32_if_0, rule stick_range[OF assms])

lemma get_roll_range:
  assumes "cal s index_rc_roll_min < cal s index_rc_roll_null" "cal s index_rc_roll_null < cal s index_rc_roll_max"
    "cal s index_rc_roll_min \<le> RC_INPUT_CHANNELS s ! 0" "RC_INPUT_CHANNELS s ! 0 \<le> cal s index_rc_roll_max"
  shows "in32 (- (1 / 2)) (1 / 2) (get_euler_roll_soll s)"
  unfolding get_euler_roll_soll_def literals by (rule in32_if_0, rule stick_range[OF assms])

lemma get_yaw_range:
  assumes "cal s index_rc_yaw_min < cal s index_rc_yaw_null" "cal s index_rc_yaw_null < cal s index_rc_yaw_max"
    "cal s index_rc_yaw_min \<le> RC_INPUT_CHANNELS s ! 3" "RC_INPUT_CHANNELS s ! 3 \<le> cal s index_rc_yaw_max"
  shows "in32 (- (1 / 2)) (1 / 2) (get_euler_yaw_soll s)"
  unfolding get_euler_yaw_soll_def literals by (rule in32_if_0, rule stick_range[OF assms])

section \<open>Calibration as observation\<close>

text \<open>
  What a calibration knows of a stick: largest, smallest and first pulse (\<open>None\<close>: no pulse
  yet); of the throttle, whose rest position is its lowest one, largest and smallest.
\<close>

type_synonym stick = "(u16 \<times> u16 \<times> u16) option"

fun observe :: "u16 \<Rightarrow> stick \<Rightarrow> stick" where
  "observe v None = Some (v, v, v)"
| "observe v (Some (mx, mn, nl)) = Some (max mx v, min mn v, nl)"

definition view_roll :: "fernsteuerung \<Rightarrow> stick" where
  "view_roll s = (if first_visit_roll s \<noteq> 0 then None
     else Some (cal s index_rc_roll_max, cal s index_rc_roll_min, cal s index_rc_roll_null))"
definition view_nick :: "fernsteuerung \<Rightarrow> stick" where
  "view_nick s = (if first_visit_nick s \<noteq> 0 then None
     else Some (cal s index_rc_nick_max, cal s index_rc_nick_min, cal s index_rc_nick_null))"
definition view_schub :: "fernsteuerung \<Rightarrow> (u16 \<times> u16) option" where
  "view_schub s = (if first_visit_schub s \<noteq> 0 then None
     else Some (cal s index_rc_schub_max, cal s index_rc_schub_null))"
definition view_yaw :: "fernsteuerung \<Rightarrow> stick" where
  "view_yaw s = (if first_visit_yaw s \<noteq> 0 then None
     else Some (cal s index_rc_yaw_max, cal s index_rc_yaw_min, cal s index_rc_yaw_null))"

fun observe_schub :: "u16 \<Rightarrow> (u16 \<times> u16) option \<Rightarrow> (u16 \<times> u16) option" where
  "observe_schub v None = Some (v, v)"
| "observe_schub v (Some (mx, mn)) = Some (max mx v, min mn v)"

lemmas views = view_roll_def view_nick_def view_schub_def view_yaw_def

text \<open>The lists have their lengths, every measured pulse is in range.\<close>

definition rc_ok :: "fernsteuerung \<Rightarrow> bool" where
  "rc_ok s \<longleftrightarrow> length (RC_INPUT_CHANNELS s) = 4 \<and> length (cal_val s) = 12
     \<and> list_all RC_IN_RANGE (RC_INPUT_CHANNELS s)"

lemma max_if: "max a b = (if a < b then b else (a :: u16))"
  by auto

lemma min_if: "min a b = (if b < a then b else (a :: u16))"
  by auto

lemma cal_nick_view:
  assumes "length (cal_val s) = 12"
  shows "view_nick (cal_nick s) = observe (RC_INPUT_CHANNELS s ! 1) (view_nick s)"
    "view_roll (cal_nick s) = view_roll s" "view_schub (cal_nick s) = view_schub s" "view_yaw (cal_nick s) = view_yaw s"
  using assms by (simp_all add: views cal_nick_def Let_def set_cal_def cal_def cal_index max_if min_if)

lemma cal_roll_view:
  assumes "length (cal_val s) = 12"
  shows "view_roll (cal_roll s) = observe (RC_INPUT_CHANNELS s ! 0) (view_roll s)"
    "view_nick (cal_roll s) = view_nick s" "view_schub (cal_roll s) = view_schub s" "view_yaw (cal_roll s) = view_yaw s"
  using assms by (simp_all add: views cal_roll_def Let_def set_cal_def cal_def cal_index max_if min_if)

lemma cal_yaw_view:
  assumes "length (cal_val s) = 12"
  shows "view_yaw (cal_yaw s) = observe (RC_INPUT_CHANNELS s ! 3) (view_yaw s)"
    "view_nick (cal_yaw s) = view_nick s" "view_schub (cal_yaw s) = view_schub s" "view_roll (cal_yaw s) = view_roll s"
  using assms by (simp_all add: views cal_yaw_def Let_def set_cal_def cal_def cal_index max_if min_if)

lemma cal_schub_view:
  assumes "length (cal_val s) = 12"
  shows "view_schub (cal_schub s) = observe_schub (RC_INPUT_CHANNELS s ! 2) (view_schub s)"
    "view_nick (cal_schub s) = view_nick s" "view_roll (cal_schub s) = view_roll s" "view_yaw (cal_schub s) = view_yaw s"
  using assms by (simp_all add: views cal_schub_def Let_def set_cal_def cal_def cal_index max_if min_if)

text \<open>An interrupt: channel, level of the pin, the two counter readings.\<close>

type_synonym rc_int = "nat \<times> bool \<times> u16 \<times> u16"

definition rc_event :: "rc_int \<Rightarrow> fernsteuerung \<Rightarrow> fernsteuerung" where
  "rc_event e s = (case e of (ch, low, cnt, cnt') \<Rightarrow>
     if ch = 0 then rx_channel1_interrupt low cnt cnt' s
     else if ch = 1 then rx_channel2_interrupt low cnt cnt' s
     else if ch = 2 then rx_channel3_interrupt low cnt cnt' s
     else rx_channel4_interrupt low cnt cnt' s)"

fun rc_run :: "rc_int list \<Rightarrow> fernsteuerung \<Rightarrow> fernsteuerung" where
  "rc_run [] s = s"
| "rc_run (e # es) s = rc_run es (rc_event e s)"

text \<open>The pulses in range that a channel receives.\<close>

definition accepted :: "rc_int \<Rightarrow> fernsteuerung \<Rightarrow> u16 list" where
  "accepted e s = (case e of (ch, low, cnt, cnt') \<Rightarrow>
     if low \<and> RC_IN_RANGE (cnt - RC_INPUT_LAST_TCNT s) then [cnt - RC_INPUT_LAST_TCNT s] else [])"

fun pulses_on :: "nat \<Rightarrow> rc_int list \<Rightarrow> fernsteuerung \<Rightarrow> u16 list" where
  "pulses_on ch [] s = []"
| "pulses_on ch (e # es) s = (if fst e = ch then accepted e s else []) @ pulses_on ch es (rc_event e s)"

lemmas rx_defs = rx_channel1_interrupt_def rx_channel2_interrupt_def rx_channel3_interrupt_def rx_channel4_interrupt_def

lemma view_fields [simp]:
  "view_roll (s\<lparr>RC_INPUT_CHANNELS := x\<rparr>) = view_roll s" "view_roll (s\<lparr>RC_INPUT_LAST_TCNT := c\<rparr>) = view_roll s"
  "view_nick (s\<lparr>RC_INPUT_CHANNELS := x\<rparr>) = view_nick s" "view_nick (s\<lparr>RC_INPUT_LAST_TCNT := c\<rparr>) = view_nick s"
  "view_schub (s\<lparr>RC_INPUT_CHANNELS := x\<rparr>) = view_schub s" "view_schub (s\<lparr>RC_INPUT_LAST_TCNT := c\<rparr>) = view_schub s"
  "view_yaw (s\<lparr>RC_INPUT_CHANNELS := x\<rparr>) = view_yaw s" "view_yaw (s\<lparr>RC_INPUT_LAST_TCNT := c\<rparr>) = view_yaw s"
  by (simp_all add: views cal_def)

lemma cal_frames [simp]:
  "RC_INPUT_CHANNELS (cal_roll s) = RC_INPUT_CHANNELS s" "RC_INPUT_CHANNELS (cal_nick s) = RC_INPUT_CHANNELS s"
  "RC_INPUT_CHANNELS (cal_schub s) = RC_INPUT_CHANNELS s" "RC_INPUT_CHANNELS (cal_yaw s) = RC_INPUT_CHANNELS s"
  "length (cal_val (cal_roll s)) = length (cal_val s)" "length (cal_val (cal_nick s)) = length (cal_val s)"
  "length (cal_val (cal_schub s)) = length (cal_val s)" "length (cal_val (cal_yaw s)) = length (cal_val s)"
  "calibration_active (cal_roll s) = calibration_active s" "calibration_active (cal_nick s) = calibration_active s"
  "calibration_active (cal_schub s) = calibration_active s" "calibration_active (cal_yaw s) = calibration_active s"
  by (simp_all add: cal_roll_def cal_nick_def cal_schub_def cal_yaw_def Let_def set_cal_def)

lemma list_all_update: "\<lbrakk>list_all P xs; P x\<rbrakk> \<Longrightarrow> list_all P (xs[i := x])"
  by (auto simp: list_all_iff dest!: set_update_subset_insert[THEN subsetD])

lemma rc_event_ok:
  assumes "rc_ok s" shows "rc_ok (rc_event e s)" "calibration_active (rc_event e s) = calibration_active s"
proof -
  obtain ch low cnt cnt' where e: "e = (ch, low, cnt, cnt')" by (metis prod_cases4)
  have ok: "rc_ok (rx_interrupt k f low cnt cnt' s) \<and> calibration_active (rx_interrupt k f low cnt cnt' s) = calibration_active s"
    if "\<And>s. RC_INPUT_CHANNELS (f s) = RC_INPUT_CHANNELS s" "\<And>s. length (cal_val (f s)) = length (cal_val s)"
      "\<And>s. calibration_active (f s) = calibration_active s" for k f
    using assms by (simp add: rx_interrupt_def Let_def rc_ok_def that list_all_update)
  show "rc_ok (rc_event e s)" "calibration_active (rc_event e s) = calibration_active s"
    by (simp_all add: e rc_event_def rx_defs ok)
qed

lemma rc_event_views:
  assumes "rc_ok s" "calibration_active s \<noteq> 0" "fst e < 4"
  shows "view_roll (rc_event e s) = fold observe (if fst e = 0 then accepted e s else []) (view_roll s)"
    "view_nick (rc_event e s) = fold observe (if fst e = 1 then accepted e s else []) (view_nick s)"
    "view_schub (rc_event e s) = fold observe_schub (if fst e = 2 then accepted e s else []) (view_schub s)"
    "view_yaw (rc_event e s) = fold observe (if fst e = 3 then accepted e s else []) (view_yaw s)"
proof -
  obtain ch low cnt cnt' where e: "e = (ch, low, cnt, cnt')" by (metis prod_cases4)
  have l: "length (RC_INPUT_CHANNELS s) = 4" "length (cal_val s) = 12" using assms(1) by (simp_all add: rc_ok_def)
  consider "ch = 0" | "ch = 1" | "ch = 2" | "ch = 3" using assms(3) e by fastforce
  then show "view_roll (rc_event e s) = fold observe (if fst e = 0 then accepted e s else []) (view_roll s)"
    "view_nick (rc_event e s) = fold observe (if fst e = 1 then accepted e s else []) (view_nick s)"
    "view_schub (rc_event e s) = fold observe_schub (if fst e = 2 then accepted e s else []) (view_schub s)"
    "view_yaw (rc_event e s) = fold observe (if fst e = 3 then accepted e s else []) (view_yaw s)"
    by (cases; simp add: e rc_event_def rx_defs rx_interrupt_def accepted_def Let_def assms(2) l
        cal_roll_view cal_nick_view cal_schub_view cal_yaw_view)+
qed

lemma rc_run_ok:
  "rc_ok s \<Longrightarrow> rc_ok (rc_run es s)" "rc_ok s \<Longrightarrow> calibration_active (rc_run es s) = calibration_active s"
  by (induction es arbitrary: s) (simp_all add: rc_event_ok)

lemma rc_run_views:
  assumes "rc_ok s" "calibration_active s \<noteq> 0" "\<forall>e \<in> set es. fst e < 4"
  shows "view_roll (rc_run es s) = fold observe (pulses_on 0 es s) (view_roll s)
    \<and> view_nick (rc_run es s) = fold observe (pulses_on 1 es s) (view_nick s)
    \<and> view_schub (rc_run es s) = fold observe_schub (pulses_on 2 es s) (view_schub s)
    \<and> view_yaw (rc_run es s) = fold observe (pulses_on 3 es s) (view_yaw s)"
  using assms
proof (induction es arbitrary: s)
  case (Cons e es)
  have "rc_ok (rc_event e s)" "calibration_active (rc_event e s) \<noteq> 0"
    using rc_event_ok[OF Cons.prems(1)] Cons.prems(2) by simp_all
  note IH = Cons.IH[OF this]
  note v = rc_event_views[OF Cons.prems(1,2), of e]
  show ?case using IH v Cons.prems(3) by simp
qed simp

lemma fold_observe: "fold observe ps (Some (mx, mn, nl)) = Some (fold max ps mx, fold min ps mn, nl)"
  by (induction ps arbitrary: mx mn) (simp_all add: max.commute min.commute)

lemma fold_observe_schub: "fold observe_schub ps (Some (mx, mn)) = Some (fold max ps mx, fold min ps mn)"
  by (induction ps arbitrary: mx mn) (simp_all add: max.commute min.commute)

lemma observed:
  "ps \<noteq> [] \<Longrightarrow> fold observe ps None = Some (Max (set ps), Min (set ps), hd ps)"
  "ps \<noteq> [] \<Longrightarrow> fold observe_schub ps None = Some (Max (set ps), Min (set ps))"
  by (cases ps; simp add: fold_observe fold_observe_schub Max.set_eq_fold Min.set_eq_fold del: list.set)+

lemma start_calib_ok: "rc_ok s \<Longrightarrow> rc_ok (start_calib s)" "calibration_active (start_calib s) = 1"
  by (simp_all add: rc_ok_def start_calib_def)

lemma start_calib_views:
  "view_roll (start_calib s) = None" "view_nick (start_calib s) = None"
  "view_schub (start_calib s) = None" "view_yaw (start_calib s) = None"
  by (simp_all add: views start_calib_def)

lemma store_calib_views:
  "view_roll (fst (store_calib c (s, ds))) = view_roll s" "view_nick (fst (store_calib c (s, ds))) = view_nick s"
  "view_schub (fst (store_calib c (s, ds))) = view_schub s" "view_yaw (fst (store_calib c (s, ds))) = view_yaw s"
  by (simp_all add: store_calib_def Let_def views set_cal_def cal_def cal_index)

lemma store_calib_ok:
  assumes "rc_ok s" shows "rc_ok (fst (store_calib c (s, ds)))" "calibration_active (fst (store_calib c (s, ds))) = 0"
    "cal (fst (store_calib c (s, ds))) index_calibration_ready_flag = 1"
    "Fernsteuerung_ready_flag (fst (store_calib c (s, ds))) = Fernsteuerung_ready_flag s"
  using assms by (simp_all add: store_calib_def Let_def set_cal_def rc_ok_def cal_def cal_index)

text \<open>A calibration from start to stop.\<close>

lemma calibration_views:
  assumes "rc_ok s" "\<forall>e \<in> set es. fst e < 4" "stop_calib c (rc_run es (start_calib s), ds) = (t, ds')"
  shows "rc_ok t" "cal t index_calibration_ready_flag = 1" "calibration_active t = 0"
    "view_roll t = fold observe (pulses_on 0 es (start_calib s)) None"
    "view_nick t = fold observe (pulses_on 1 es (start_calib s)) None"
    "view_schub t = fold observe_schub (pulses_on 2 es (start_calib s)) None"
    "view_yaw t = fold observe (pulses_on 3 es (start_calib s)) None"
proof -
  have r: "rc_ok (rc_run es (start_calib s))" "calibration_active (rc_run es (start_calib s)) = 1"
    using assms(1) start_calib_ok rc_run_ok by auto
  then have t: "t = fst (store_calib c (rc_run es (start_calib s), ds))"
    using assms(3) by (simp add: stop_calib_def)
  show "rc_ok t" "cal t index_calibration_ready_flag = 1" "calibration_active t = 0"
    unfolding t using store_calib_ok[OF r(1)] by simp_all
  show "view_roll t = fold observe (pulses_on 0 es (start_calib s)) None"
    "view_nick t = fold observe (pulses_on 1 es (start_calib s)) None"
    "view_schub t = fold observe_schub (pulses_on 2 es (start_calib s)) None"
    "view_yaw t = fold observe (pulses_on 3 es (start_calib s)) None"
    using rc_run_views[OF start_calib_ok(1)[OF assms(1)] _ assms(2)] start_calib_ok(2)[of s]
    by (simp_all add: t store_calib_views start_calib_views)
qed

text \<open>The button handler always leaves the array when it starts a calibration.\<close>

lemma calib_start_overrun:
  "\<lbrakk>length (cal_val s) = 12; timer_finish s \<noteq> 0; on_off s = 0\<rbrakk> \<Longrightarrow> calib_interrupt c (s, ds) = None"
  by (simp add: calib_interrupt_def cal_index Let_def)

lemma calib_debounced: "timer_finish s = 0 \<Longrightarrow> calib_interrupt c (s, ds) = Some (None, s, ds)"
  by (simp add: calib_interrupt_def)

lemma calib_stop:
  "\<lbrakk>timer_finish s \<noteq> 0; on_off s = 1; store_calib c (s, ds) = (t, ds')\<rbrakk>
   \<Longrightarrow> calib_interrupt c (s, ds) = Some (Some 700, t\<lparr>on_off := 0, timer_finish := 0\<rparr>, ds')"
  by (auto simp: calib_interrupt_def store_calib_def Let_def set_cal_def)

section \<open>The stored calibration\<close>

lemma table_words: "i < 55 \<Longrightarrow> VirtAddVarTab ! i \<noteq> 0xFFFF"
proof -
  have "list_all (\<lambda>v. v \<noteq> 0xFFFF) VirtAddVarTab" "length VirtAddVarTab = 55" by (simp_all add: VirtAddVarTab_def)
  then show "i < 55 \<Longrightarrow> VirtAddVarTab ! i \<noteq> 0xFFFF" by (simp add: list_all_length)
qed

lemma table_distinct: "distinct VirtAddVarTab" "length VirtAddVarTab = 55"
  by (simp_all add: VirtAddVarTab_def)

definition cal_vars :: "u16 list \<Rightarrow> (u16 \<times> u16) list" where
  "cal_vars cs = map (\<lambda>i. (VirtAddVarTab ! (i + 1), cs ! i)) [0..<12]"

lemma write_cal_vars: "write_cal c cs = fold (ee_write c) (cal_vars cs)"
  by (simp add: write_cal_def cal_vars_def ee_write_def[abs_def] fold_map comp_def cal_index fun_eq_iff)

lemma cal_vars_distinct: "distinct (map fst (cal_vars cs))"
proof -
  have "inj_on (\<lambda>i. VirtAddVarTab ! (i + 1)) {0..<12}"
    using table_distinct by (auto simp: inj_on_def nth_eq_iff_index_eq)
  then show ?thesis by (simp add: cal_vars_def distinct_map comp_def)
qed

lemma cal_vars_lookup: "i < 12 \<Longrightarrow> map_of (cal_vars cs) (VirtAddVarTab ! (i + 1)) = Some (cs ! i)"
  using cal_vars_distinct[of cs] by (intro map_of_is_SomeI) (auto simp: cal_vars_def)

lemma read_cal_all:
  assumes "\<And>i. i < 12 \<Longrightarrow> EE_ReadVariable (VirtAddVarTab ! (i + 1)) f = (0, Some (vs ! i))"
    "length vs = 12" "length cs = 12"
  shows "read_cal f cs = vs"
proof -
  have "fold (\<lambda>i cs. case snd (EE_ReadVariable (VirtAddVarTab ! (i + offset_flash_cal)) f) of
       None \<Rightarrow> cs | Some v \<Rightarrow> cs[i := v]) [0..<n] cs = take n vs @ drop n cs" if "n \<le> 12" for n
    using that
  proof (induction n)
    case (Suc n)
    then have "(take n vs @ drop n cs)[n := vs ! n] = take (Suc n) vs @ drop (Suc n) cs"
      using assms(2,3) by (simp add: list_update_append take_Suc_conv_app_nth Cons_nth_drop_Suc[symmetric])
    then show ?case using Suc assms(1)[of n] by (simp add: cal_index)
  qed simp
  from this[of 12] show ?thesis using assms(2,3) by (simp add: read_cal_def cal_index)
qed

text \<open>What \<open>stop_calib\<close> stores, \<open>setup_Fernsteuerung\<close> reads after the next start.\<close>

lemma calibration_stored:
  assumes "rc_ok s" "calibration_active s = 1" "ee_ok f b n" "n + 12 < PAGE_WORDS" "\<And>i. no_fault c i"
    "stop_calib c (s, dv, f) = (t, dv', f')"
  shows "dv' = dv \<and> ee_ok f' b (n + 12) \<and> cal_val (setup_Fernsteuerung ext f' fern_start) = cal_val t
    \<and> get_rc_calibration_ready (setup_Fernsteuerung ext f' fern_start)"
proof -
  have t: "t = fst (store_calib c (s, dv, f))" "(dv', f') = write_cal c (cal_val t) (dv, f)"
    using assms(2,6) by (auto simp: stop_calib_def store_calib_def Let_def)
  have len: "length (cal_val t) = 12" "cal t index_calibration_ready_flag = 1"
    using store_calib_ok[OF assms(1), of c "(dv, f)"] by (simp_all add: t(1) rc_ok_def)
  have "length (cal_vars (cal_val t)) = 12" by (simp add: cal_vars_def)
  moreover have "\<forall>vd \<in> set (cal_vars (cal_val t)). fst vd \<noteq> 0xFFFF" using table_words by (auto simp: cal_vars_def)
  ultimately obtain g where g: "fold (ee_write c) (cal_vars (cal_val t)) (dv, f) = (dv, g)" "ee_ok g b (n + 12)"
    "\<And>w. w \<noteq> 0xFFFF \<Longrightarrow> EE_ReadVariable w g =
       (case map_of (cal_vars (cal_val t)) w of None \<Rightarrow> EE_ReadVariable w f | Some d \<Rightarrow> (0, Some d))"
    using ee_write_list[OF assms(3), of "cal_vars (cal_val t)" c dv] assms(4,5) cal_vars_distinct by auto
  then have f': "dv' = dv" "f' = g" using t(2) by (simp_all add: write_cal_vars)
  have r: "EE_ReadVariable (VirtAddVarTab ! (i + 1)) g = (0, Some (cal_val t ! i))" if "i < 12" for i
    using g(3)[OF table_words, of "i + 1"] cal_vars_lookup[OF that] that by simp
  then have "EE_ReadVariable (VirtAddVarTab ! index_calibration_ready_flag) g = (0, Some 1)"
    using r[of 11] len(2) by (simp add: cal_def cal_index)
  then have c: "cal_val (setup_Fernsteuerung ext g fern_start) = cal_val t"
    using read_cal_all[OF r len(1), of "cal_val fern_start"]
    by (simp add: setup_Fernsteuerung_def Let_def fern_start_def)
  then have "get_rc_calibration_ready (setup_Fernsteuerung ext g fern_start)"
    using len(2) by (simp add: get_rc_calibration_ready_def cal_def)
  then show ?thesis using c f' g(2) by simp
qed

section \<open>Every operation\<close>

text \<open>The operations of the component in any order; an undefined one gives \<open>None\<close>.\<close>

datatype rc_op = Interrupt rc_int | StartCalib | StopCalib | Button | TimerExpired

fun rc_do :: "controller \<Rightarrow> rc_op \<Rightarrow> fernsteuerung \<times> u16 \<times> flash \<Rightarrow> (fernsteuerung \<times> u16 \<times> flash) option" where
  "rc_do c (Interrupt e) sf = Some (rc_event e (fst sf), snd sf)"
| "rc_do c StartCalib sf = Some (start_calib (fst sf), snd sf)"
| "rc_do c StopCalib sf = Some (stop_calib c sf)"
| "rc_do c Button sf = map_option snd (calib_interrupt c sf)"
| "rc_do c TimerExpired sf = Some (timer_handler (fst sf), snd sf)"

fun rc_do_all :: "controller \<Rightarrow> rc_op list \<Rightarrow> fernsteuerung \<times> u16 \<times> flash \<Rightarrow> (fernsteuerung \<times> u16 \<times> flash) option" where
  "rc_do_all c [] sf = Some sf"
| "rc_do_all c (x # xs) sf = Option.bind (rc_do c x sf) (rc_do_all c xs)"

lemma rc_do_ok: "\<lbrakk>rc_ok (fst sf); rc_do c x sf = Some sf'\<rbrakk> \<Longrightarrow> rc_ok (fst sf')"
proof (cases x)
  case Button
  assume a: "rc_ok (fst sf)" "rc_do c x sf = Some sf'"
  obtain s ds where sf: "sf = (s, ds)" by (metis prod.exhaust)
  have "rc_ok (fst (store_calib c (s, ds)))" using store_calib_ok(1) a(1) sf by simp
  then show "rc_ok (fst sf')"
    using a sf Button
    by (auto simp: calib_interrupt_def Let_def rc_ok_def split: if_splits option.splits prod.splits)
qed (auto simp: rc_event_ok start_calib_ok stop_calib_def store_calib_ok timer_handler_def rc_ok_def
    store_calib_def set_cal_def Let_def rc_event_ok[unfolded rc_ok_def] start_calib_ok[unfolded rc_ok_def]
    split: prod.splits if_splits)

lemma rc_do_all_ok: "\<lbrakk>rc_ok (fst sf); rc_do_all c xs sf = Some sf'\<rbrakk> \<Longrightarrow> rc_ok (fst sf')"
proof (induction xs arbitrary: sf)
  case (Cons x xs)
  then obtain sf1 where "rc_do c x sf = Some sf1" "rc_do_all c xs sf1 = Some sf'"
    by (auto simp: bind_eq_Some_conv)
  then show ?case using Cons.IH rc_do_ok Cons.prems(1) by blast
qed simp

lemma setup_ok: assumes "length (cal_val s) = 12" shows "rc_ok (setup_Fernsteuerung ext f s)"
proof -
  have r: "length (read_cal f cs) = length cs" for cs
  proof -
    have "length (fold (\<lambda>i cs. case g i of None \<Rightarrow> cs | Some v \<Rightarrow> cs[i := v]) js cs) = length cs"
      for g :: "nat \<Rightarrow> u16 option" and js
      by (induction js arbitrary: cs) (simp_all split: option.split)
    then show ?thesis by (simp add: read_cal_def)
  qed
  show ?thesis
    using assms by (simp add: setup_Fernsteuerung_def Let_def rc_ok_def r RC_INPUT_CHANNELS_Offset_def RC_IN_RANGE_def)
qed

lemma rc_scaled:
  assumes "rc_ok s"
  shows "sint (get_chan1_scaled s) = (uint (RC_INPUT_CHANNELS s ! 0) - 1500) * 20"
    "sint (get_chan2_scaled s) = (uint (RC_INPUT_CHANNELS s ! 1) - 1500) * 20"
    "sint (get_chan3_scaled s) = (uint (RC_INPUT_CHANNELS s ! 2) - 1100) * 10"
    "sint (get_chan4_scaled s) = (uint (RC_INPUT_CHANNELS s ! 3) - 1500) * 20"
proof -
  have r: "900 < uint (RC_INPUT_CHANNELS s ! i) \<and> uint (RC_INPUT_CHANNELS s ! i) < 2300" if "i < 4" for i
    using assms that by (simp add: rc_ok_def list_all_length RC_IN_RANGE_def word_less_def)
  have sint: "sint (word_of_int k :: 16 word) = k" if "- 32768 \<le> k" "k < 32768" for k
    using that by (simp add: sint_sbintrunc' signed_take_bit_int_eq_self)
  note d = get_chan1_scaled_def get_chan2_scaled_def get_chan3_scaled_def get_chan4_scaled_def RC_INPUT_CHANNELS_Offset_def
  show "sint (get_chan1_scaled s) = (uint (RC_INPUT_CHANNELS s ! 0) - 1500) * 20"
    "sint (get_chan2_scaled s) = (uint (RC_INPUT_CHANNELS s ! 1) - 1500) * 20"
    "sint (get_chan3_scaled s) = (uint (RC_INPUT_CHANNELS s ! 2) - 1100) * 10"
    "sint (get_chan4_scaled s) = (uint (RC_INPUT_CHANNELS s ! 3) - 1500) * 20"
    using r[of 0] sint[of "(uint (RC_INPUT_CHANNELS s ! 0) - 1500) * 20"]
      r[of 1] sint[of "(uint (RC_INPUT_CHANNELS s ! 1) - 1500) * 20"]
      r[of 2] sint[of "(uint (RC_INPUT_CHANNELS s ! 2) - 1100) * 10"]
      r[of 3] sint[of "(uint (RC_INPUT_CHANNELS s ! 3) - 1500) * 20"]
    by (simp_all add: d)
qed

text \<open>A calibrated remote control with the throttle stick at \<open>x\<close>.\<close>

definition demo_rc :: "u16 \<Rightarrow> fernsteuerung" where
  "demo_rc x = fern_start\<lparr>Fernsteuerung_ready_flag := True, RC_INPUT_CHANNELS := [1500, 1500, x, 1500],
     cal_val := [1900, 1100, 1500, 1900, 1100, 1500, 1900, 1100, 1500, 1900, 1100, 1]\<rparr>"

lemma demo_rc: "kalibriert (demo_rc x)" "cal (demo_rc x) index_rc_schub_null = 1100"
  "cal (demo_rc x) index_rc_schub_max = 1900" "RC_INPUT_CHANNELS (demo_rc x) ! 2 = x" "length (cal_val (demo_rc x)) = 12"
  by (simp_all add: demo_rc_def kalibriert_def cal_def cal_index fern_start_def)

end
