(* ===== verification/Flight.thy ===== *)
theory Flight
  imports Control Remote
begin

text \<open>
  The flight controller on the setpoints of the remote control: what a pass of
  \<^verbatim>\<open>Regelung\<close> does when its getters are those of \<^verbatim>\<open>Fernsteuerung.cpp\<close>.
\<close>

section \<open>The inputs of a pass\<close>

text \<open>\<open>m\<close> supplies the attitude and the time.\<close>

definition rc_inputs :: "fernsteuerung \<Rightarrow> messwerte \<Rightarrow> messwerte" where
  "rc_inputs r m = m\<lparr>m_schub_soll := get_schub_soll r, m_nick_soll := get_euler_nick_soll r,
     m_roll_soll := get_euler_roll_soll r\<rparr>"

definition flight_pass :: "float32 list \<Rightarrow> fernsteuerung \<Rightarrow> messwerte \<Rightarrow> regelung \<Rightarrow> regelung" where
  "flight_pass param r m s = Regelung param (rc_inputs r m) s"

section \<open>Throttle past its calibrated end\<close>

lemma overshoot_idle:
  assumes "kalibriert r" "cal r index_rc_schub_null < cal r index_rc_schub_max"
    "cal r index_rc_schub_max < RC_INPUT_CHANNELS r ! 2"
  shows "pulses (flight_pass param r m s) = [1000, 1000, 1000, 1000]"
proof -
  have "f32 1 < get_schub_soll r" by (rule get_schub_above[OF assms])
  then have "\<not> get_schub_soll r \<le> f32 1"
    by (cases "flt32 (get_schub_soll r)") (auto simp: less_float32_def less_eq_float32_def flt_eq_def)
  then have "\<not> gas (m_schub_soll (rc_inputs r m))" by (simp add: gas_def rc_inputs_def)
  then show ?thesis unfolding flight_pass_def by (rule Regelung_no_gas)
qed

lemma low_idle:
  assumes "kalibriert r" "cal r index_rc_schub_null < cal r index_rc_schub_max"
    "16 * (uint (RC_INPUT_CHANNELS r ! 2) - uint (cal r index_rc_schub_null))
       \<le> uint (cal r index_rc_schub_max) - uint (cal r index_rc_schub_null)"
  shows "pulses (flight_pass param r m s) = [1000, 1000, 1000, 1000]"
proof -
  have p: "(2::rat) powi (- 5) = 1 / 32" using power_int_minus_divide[of "2::rat" 5] by simp
  have "rep64 (3 / 32)" by (rule rep64_dyadic[of _ 3 "- 5"]) (simp_all add: p)
  then obtain q where q: "flt64 (f64 (1 / 10)) = Fin q" "3 / 32 \<le> q"
    using round64_within[of "3 / 32" 1 "1 / 10"] by (auto simp: f64_def)
  obtain x where "flt32 (get_schub_soll r) = Fin x" "x \<le> 3 / 32"
    using get_schub_low[OF assms] by (auto simp: flt_in_iff)
  then have "\<not> gas (m_schub_soll (rc_inputs r m))"
    using q by (simp add: gas_def rc_inputs_def less_float64_def double_of_def)
  then show ?thesis unfolding flight_pass_def by (rule Regelung_no_gas)
qed

section \<open>A stick that was not moved during the calibration\<close>

text \<open>Outside a calibration the pulses do not change the calibrated values.\<close>

lemma rc_event_idle:
  assumes "calibration_active s = 0"
  shows "cal_val (rc_event e s) = cal_val s" "Fernsteuerung_ready_flag (rc_event e s) = Fernsteuerung_ready_flag s"
    "calibration_active (rc_event e s) = 0"
  using assms
  by (simp_all add: rc_event_def rx_defs rx_interrupt_def Let_def split: prod.split)

lemma rc_run_idle:
  assumes "calibration_active s = 0"
  shows "cal_val (rc_run es s) = cal_val s \<and> Fernsteuerung_ready_flag (rc_run es s) = Fernsteuerung_ready_flag s
    \<and> calibration_active (rc_run es s) = 0"
  using assms by (induction es arbitrary: s) (simp_all add: rc_event_idle)

lemma cal_ready_flag [simp]:
  "Fernsteuerung_ready_flag (cal_roll s) = Fernsteuerung_ready_flag s"
  "Fernsteuerung_ready_flag (cal_nick s) = Fernsteuerung_ready_flag s"
  "Fernsteuerung_ready_flag (cal_schub s) = Fernsteuerung_ready_flag s"
  "Fernsteuerung_ready_flag (cal_yaw s) = Fernsteuerung_ready_flag s"
  by (simp_all add: cal_roll_def cal_nick_def cal_schub_def cal_yaw_def Let_def set_cal_def)

lemma rc_run_ready: "Fernsteuerung_ready_flag (rc_run es s) = Fernsteuerung_ready_flag s"
  by (induction es arbitrary: s) (simp_all add: rc_event_def rx_defs rx_interrupt_def Let_def split: prod.split)

text \<open>After such a calibration the nick setpoint is never finite.\<close>

lemma unmoved_setpoint:
  assumes "rc_ok r" "Fernsteuerung_ready_flag r" "\<forall>e \<in> set es. fst e < 4"
    "set (pulses_on 1 es (start_calib r)) = {v}"
    "stop_calib c (rc_run es (start_calib r), ds) = (t, ds')"
  shows "\<not> finite32 (get_euler_nick_soll (rc_run later t))"
proof -
  note cv = calibration_views[OF assms(1,3,5)]
  have "pulses_on 1 es (start_calib r) \<noteq> []" using assms(4) by auto
  then have "view_nick t = Some (v, v, hd (pulses_on 1 es (start_calib r)))"
    using cv(5) observed(1) assms(4) by simp
  moreover have "hd (pulses_on 1 es (start_calib r)) = v"
    using assms(4) \<open>pulses_on 1 es (start_calib r) \<noteq> []\<close> by (metis list.set_sel(1) singletonD)
  ultimately have "cal t index_rc_nick_max = v" "cal t index_rc_nick_min = v" "cal t index_rc_nick_null = v"
    by (simp_all add: view_nick_def split: if_splits)
  moreover have "Fernsteuerung_ready_flag t"
  proof -
    have "Fernsteuerung_ready_flag (fst (stop_calib c (x, ds))) = Fernsteuerung_ready_flag x" for x
      by (simp add: stop_calib_def store_calib_def Let_def set_cal_def)
    from this[of "rc_run es (start_calib r)"] show ?thesis
      using assms(2,5) by (simp add: rc_run_ready) (simp add: start_calib_def)
  qed
  moreover note rc_run_idle[OF cv(3), of later]
  ultimately show ?thesis
    by (intro get_nick_degenerate) (simp_all add: kalibriert_def cal_def cv(2)[unfolded cal_def])
qed

lemma unmoved_stops:
  assumes "\<not> finite32 (get_euler_nick_soll r)" "gas (m_schub_soll m')"
  shows "pulses (Regelung param' m' (passes ps (flight_pass param r m s))) = [0, 0, 0, 0]"
proof -
  obtain b where b: "verdorben b (flt32 (get_euler_nick_soll r))"
  proof (cases "flt32 (get_euler_nick_soll r)")
    case (Fin q)
    then have "get_euler_nick_soll r = F32 (Fin q)" by (metis float32.collapse)
    then show ?thesis using assms(1) by simp
  qed (auto simp: verdorben_def intro: that)
  have "nick_verdorben b (flight_pass param r m s)"
    using b unfolding flight_pass_def by (intro Regelung_nick_verdorben) (simp add: rc_inputs_def)
  then show ?thesis using assms(2) by (intro Regelung_stopped[of b] passes_verdorben)
qed

end
