(* ===== verification/Mavlink.thy ===== *)
theory Mavlink
  imports Prelude
begin

text \<open>
  The telemetry link: \<^verbatim>\<open>mavlink/checksum.h\<close>, \<^verbatim>\<open>mavlink/mavlink_types.h\<close> and
  \<^verbatim>\<open>mavlink/mavlink_helpers.h\<close>. The X.25 checksum, the finalisation of a message, its
  bytes on the wire and the receive state machine that is fed one byte at a time.

  A message's \<^verbatim>\<open>payload64\<close> array is the list of its 264 bytes. The lemmas show that the
  checksum is the bitwise CRC it stands for, that it tells apart any two frames that
  differ in one byte, that a sent frame is received as the message it was built from,
  and that a frame with a wrong checksum never is.
\<close>

unbundle bit_operations_syntax

section \<open>Checksum\<close>

definition X25_INIT_CRC :: u16 where "X25_INIT_CRC = 0xffff"

definition crc_accumulate :: "u8 \<Rightarrow> u16 \<Rightarrow> u16" where
  "crc_accumulate data crcAccum =
     (let tmp = data XOR ucast (crcAccum AND 0xff);
          tmp = tmp XOR push_bit 4 tmp;
          t = ucast tmp :: u16
      in drop_bit 8 crcAccum XOR push_bit 8 t XOR push_bit 3 t XOR drop_bit 4 t)"

definition crc_init :: u16 where
  "crc_init = X25_INIT_CRC"

fun crc_accumulate_buffer :: "u16 \<Rightarrow> u8 list \<Rightarrow> u16" where
  "crc_accumulate_buffer crcAccum [] = crcAccum"
| "crc_accumulate_buffer crcAccum (p # ps) = crc_accumulate_buffer (crc_accumulate p crcAccum) ps"

definition crc_calculate :: "u8 list \<Rightarrow> u16" where
  "crc_calculate pBuffer = crc_accumulate_buffer crc_init pBuffer"

section \<open>Messages and channels\<close>

definition MAVLINK_STX :: u8 where "MAVLINK_STX = 254"
definition MAVLINK_MAX_PAYLOAD_LEN :: nat where "MAVLINK_MAX_PAYLOAD_LEN = 255"
definition MAVLINK_CORE_HEADER_LEN :: nat where "MAVLINK_CORE_HEADER_LEN = 5"
definition MAVLINK_NUM_NON_PAYLOAD_BYTES :: nat where "MAVLINK_NUM_NON_PAYLOAD_BYTES = 8"
definition MAVLINK_COMM_0 :: nat where "MAVLINK_COMM_0 = 0"

record mavlink_message =
  checksum :: u16
  magic :: u8
  len :: u8
  seq :: u8
  sysid :: u8
  compid :: u8
  msgid :: u8
  payload :: "u8 list"

datatype mavlink_parse_state =
    MAVLINK_PARSE_STATE_UNINIT | MAVLINK_PARSE_STATE_IDLE | MAVLINK_PARSE_STATE_GOT_STX
  | MAVLINK_PARSE_STATE_GOT_SEQ | MAVLINK_PARSE_STATE_GOT_LENGTH | MAVLINK_PARSE_STATE_GOT_SYSID
  | MAVLINK_PARSE_STATE_GOT_COMPID | MAVLINK_PARSE_STATE_GOT_MSGID | MAVLINK_PARSE_STATE_GOT_PAYLOAD
  | MAVLINK_PARSE_STATE_GOT_CRC1

record mavlink_status =
  msg_received :: u8
  buffer_overrun :: u8
  parse_error :: u8
  parse_state :: mavlink_parse_state
  packet_idx :: u8
  current_rx_seq :: u8
  current_tx_seq :: u8
  packet_rx_success_count :: u16
  packet_rx_drop_count :: u16

text \<open>
  The static arrays \<^verbatim>\<open>m_mavlink_status\<close> and \<^verbatim>\<open>m_mavlink_buffer\<close>, indexed by channel.
\<close>

record mavlink =
  m_mavlink_status :: "nat \<Rightarrow> mavlink_status"
  m_mavlink_buffer :: "nat \<Rightarrow> mavlink_message"

text \<open>\<^verbatim>\<open>MAVLINK_MESSAGE_CRCS\<close>, one byte per message id.\<close>

definition mavlink_message_crcs :: "u8 list" where
  "mavlink_message_crcs =
    [50, 124, 137, 0, 237, 217, 104, 119, 0, 0, 0, 89, 0, 0, 0, 0, 0, 0, 0, 0, 214, 159, 220, 168,
     24, 23, 170, 144, 67, 115, 39, 246, 185, 104, 237, 244, 222, 212, 9, 254, 230, 28, 28, 132, 221, 232, 11, 153,
     41, 39, 214, 223, 141, 33, 15, 3, 100, 24, 239, 238, 30, 240, 183, 130, 130, 0, 148, 21, 0, 243, 124, 0,
     0, 0, 20, 0, 152, 143, 0, 0, 127, 106, 0, 0, 0, 0, 0, 0, 0, 231, 183, 63, 54, 0, 0, 0,
     0, 0, 0, 0, 175, 102, 158, 208, 56, 93, 0, 0, 0, 0, 235, 93, 124, 0, 0, 0, 0, 0, 0, 0,
     0, 0, 0, 0, 0, 0, 0, 0, 0, 0, 0, 0, 0, 0, 0, 0, 0, 0, 0, 0, 0, 0, 0, 0,
     0, 0, 0, 42, 241, 15, 0, 0, 0, 0, 0, 0, 0, 0, 0, 0, 0, 0, 0, 0, 0, 0, 0, 0,
     0, 0, 0, 0, 0, 0, 0, 0, 0, 0, 0, 0, 0, 0, 0, 0, 0, 0, 0, 0, 0, 0, 0, 0,
     0, 0, 0, 0, 0, 0, 0, 0, 0, 0, 0, 0, 0, 0, 0, 0, 0, 0, 0, 0, 0, 0, 0, 0,
     0, 0, 0, 0, 0, 0, 0, 0, 0, 0, 0, 0, 0, 0, 0, 0, 0, 0, 0, 0, 0, 0, 0, 0,
     0, 0, 0, 0, 0, 0, 0, 0, 0, 204, 49, 170, 44, 83, 46, 0]"

definition MAVLINK_MESSAGE_CRC :: "u8 \<Rightarrow> u8" where
  "MAVLINK_MESSAGE_CRC mid = mavlink_message_crcs ! unat mid"

section \<open>Sending\<close>

text \<open>The header bytes the checksum covers, from \<^verbatim>\<open>&msg->len\<close> on.\<close>

definition core_header :: "mavlink_message \<Rightarrow> u8 list" where
  "core_header msg = [len msg, seq msg, sysid msg, compid msg, msgid msg]"

definition mavlink_finalize_message_chan ::
    "mavlink_message \<Rightarrow> u8 \<Rightarrow> u8 \<Rightarrow> nat \<Rightarrow> u8 \<Rightarrow> u8 \<Rightarrow> mavlink \<Rightarrow> (nat \<times> mavlink_message) \<times> mavlink" where
  "mavlink_finalize_message_chan msg system_id component_id chan plen crc_extra s =
     (let st = m_mavlink_status s chan;
          msg = msg\<lparr>magic := MAVLINK_STX, len := plen, sysid := system_id, compid := component_id,
                    seq := current_tx_seq st\<rparr>;
          s = s\<lparr>m_mavlink_status := (m_mavlink_status s)(chan := st\<lparr>current_tx_seq := current_tx_seq st + 1\<rparr>)\<rparr>;
          ck = crc_calculate (core_header msg @ take (unat plen) (payload msg));
          ck = crc_accumulate crc_extra ck;
          p = (payload msg)[unat plen := ucast (ck AND 0xFF)];
          p = p[unat plen + 1 := ucast (drop_bit 8 ck)]
      in ((unat plen + MAVLINK_NUM_NON_PAYLOAD_BYTES, msg\<lparr>payload := p\<rparr>), s))"

definition mavlink_finalize_message ::
    "mavlink_message \<Rightarrow> u8 \<Rightarrow> u8 \<Rightarrow> u8 \<Rightarrow> u8 \<Rightarrow> mavlink \<Rightarrow> (nat \<times> mavlink_message) \<times> mavlink" where
  "mavlink_finalize_message msg system_id component_id plen crc_extra =
     mavlink_finalize_message_chan msg system_id component_id MAVLINK_COMM_0 plen crc_extra"

text \<open>The bytes copied from \<^verbatim>\<open>&msg->magic\<close> on.\<close>

definition mavlink_msg_to_send_buffer :: "mavlink_message \<Rightarrow> u8 list" where
  "mavlink_msg_to_send_buffer msg =
     take (MAVLINK_NUM_NON_PAYLOAD_BYTES + unat (len msg)) (magic msg # core_header msg @ payload msg)"

definition mavlink_msg_get_send_buffer_length :: "mavlink_message \<Rightarrow> nat" where
  "mavlink_msg_get_send_buffer_length msg = unat (len msg) + MAVLINK_NUM_NON_PAYLOAD_BYTES"

section \<open>Receiving\<close>

definition mavlink_start_checksum :: "mavlink_message \<Rightarrow> mavlink_message" where
  "mavlink_start_checksum msg = msg\<lparr>checksum := crc_init\<rparr>"

definition mavlink_update_checksum :: "u8 \<Rightarrow> mavlink_message \<Rightarrow> mavlink_message" where
  "mavlink_update_checksum c msg = msg\<lparr>checksum := crc_accumulate c (checksum msg)\<rparr>"

definition goto :: "mavlink_parse_state \<Rightarrow> mavlink_status \<Rightarrow> mavlink_status" where
  "goto p st = st\<lparr>parse_state := p\<rparr>"

text \<open>A checksum byte that does not match: the error is counted, a start byte starts over.\<close>

definition crc_mismatch :: "u8 \<Rightarrow> mavlink_message \<times> mavlink_status \<Rightarrow> mavlink_message \<times> mavlink_status" where
  "crc_mismatch c ms =
     (case ms of (m, st) \<Rightarrow>
        (let st = goto MAVLINK_PARSE_STATE_IDLE (st\<lparr>parse_error := parse_error st + 1, msg_received := 0\<rparr>)
         in if c = MAVLINK_STX
            then (mavlink_start_checksum (m\<lparr>len := 0\<rparr>), goto MAVLINK_PARSE_STATE_GOT_STX st)
            else (m, st)))"

text \<open>The \<^verbatim>\<open>switch\<close> on the parse state.\<close>

definition parse_switch :: "u8 \<Rightarrow> mavlink_message \<times> mavlink_status \<Rightarrow> mavlink_message \<times> mavlink_status" where
  "parse_switch c ms = (case ms of (m, st) \<Rightarrow>
     (let idle =
        (if c = MAVLINK_STX
         then (mavlink_start_checksum (m\<lparr>len := 0, magic := c\<rparr>), goto MAVLINK_PARSE_STATE_GOT_STX st)
         else (m, st))
      in case parse_state st of
        MAVLINK_PARSE_STATE_UNINIT \<Rightarrow> idle
      | MAVLINK_PARSE_STATE_IDLE \<Rightarrow> idle
      | MAVLINK_PARSE_STATE_GOT_STX \<Rightarrow>
          (if msg_received st \<noteq> 0
           then (m, goto MAVLINK_PARSE_STATE_IDLE
                      (st\<lparr>buffer_overrun := buffer_overrun st + 1, parse_error := parse_error st + 1,
                          msg_received := 0\<rparr>))
           else (mavlink_update_checksum c (m\<lparr>len := c\<rparr>),
                 goto MAVLINK_PARSE_STATE_GOT_LENGTH (st\<lparr>packet_idx := 0\<rparr>)))
      | MAVLINK_PARSE_STATE_GOT_LENGTH \<Rightarrow>
          (mavlink_update_checksum c (m\<lparr>seq := c\<rparr>), goto MAVLINK_PARSE_STATE_GOT_SEQ st)
      | MAVLINK_PARSE_STATE_GOT_SEQ \<Rightarrow>
          (mavlink_update_checksum c (m\<lparr>sysid := c\<rparr>), goto MAVLINK_PARSE_STATE_GOT_SYSID st)
      | MAVLINK_PARSE_STATE_GOT_SYSID \<Rightarrow>
          (mavlink_update_checksum c (m\<lparr>compid := c\<rparr>), goto MAVLINK_PARSE_STATE_GOT_COMPID st)
      | MAVLINK_PARSE_STATE_GOT_COMPID \<Rightarrow>
          (mavlink_update_checksum c (m\<lparr>msgid := c\<rparr>),
           goto (if len m = 0 then MAVLINK_PARSE_STATE_GOT_PAYLOAD else MAVLINK_PARSE_STATE_GOT_MSGID) st)
      | MAVLINK_PARSE_STATE_GOT_MSGID \<Rightarrow>
          (let i = packet_idx st; st = st\<lparr>packet_idx := i + 1\<rparr>
           in (mavlink_update_checksum c (m\<lparr>payload := (payload m)[unat i := c]\<rparr>),
               if packet_idx st = len m then goto MAVLINK_PARSE_STATE_GOT_PAYLOAD st else st))
      | MAVLINK_PARSE_STATE_GOT_PAYLOAD \<Rightarrow>
          (let m = mavlink_update_checksum (MAVLINK_MESSAGE_CRC (msgid m)) m
           in if ucast c \<noteq> checksum m AND 0xFF then crc_mismatch c (m, st)
              else (m\<lparr>payload := (payload m)[unat (packet_idx st) := c]\<rparr>,
                    goto MAVLINK_PARSE_STATE_GOT_CRC1 st))
      | MAVLINK_PARSE_STATE_GOT_CRC1 \<Rightarrow>
          (if ucast c \<noteq> drop_bit 8 (checksum m) then crc_mismatch c (m, st)
           else (m\<lparr>payload := (payload m)[unat (packet_idx st) + 1 := c]\<rparr>,
                 goto MAVLINK_PARSE_STATE_IDLE (st\<lparr>msg_received := 1\<rparr>)))))"

text \<open>The bookkeeping after the \<^verbatim>\<open>switch\<close>.\<close>

definition parse_account :: "mavlink_message \<Rightarrow> mavlink_status \<Rightarrow> mavlink_status" where
  "parse_account m st =
     (if msg_received st = 1
      then st\<lparr>current_rx_seq := seq m,
              packet_rx_drop_count := (if packet_rx_success_count st = 0 then 0 else packet_rx_drop_count st),
              packet_rx_success_count := packet_rx_success_count st + 1\<rparr>
      else st)"

text \<open>
  \<^verbatim>\<open>mavlink_parse_char\<close>: the message copied to \<^verbatim>\<open>r_message\<close> when one is complete, the
  three fields of \<^verbatim>\<open>r_mavlink_status\<close> it sets, and the new state of the channel.
\<close>

definition mavlink_parse_char ::
    "nat \<Rightarrow> u8 \<Rightarrow> mavlink \<Rightarrow> (mavlink_message option \<times> u8 \<times> u16 \<times> u16) \<times> mavlink" where
  "mavlink_parse_char chan c s =
     (case parse_switch c (m_mavlink_buffer s chan, (m_mavlink_status s chan)\<lparr>msg_received := 0\<rparr>) of
        (m, st) \<Rightarrow>
          (let st = parse_account m st
           in ((if msg_received st = 1 then Some m else None,
                current_rx_seq st + 1, packet_rx_success_count st, ucast (parse_error st)),
               s\<lparr>m_mavlink_buffer := (m_mavlink_buffer s)(chan := m),
                 m_mavlink_status := (m_mavlink_status s)(chan := st\<lparr>parse_error := 0\<rparr>)\<rparr>)))"

text \<open>The bytes of a stream, one after the other, and the messages they complete.\<close>

fun mavlink_receive :: "nat \<Rightarrow> u8 list \<Rightarrow> mavlink \<Rightarrow> mavlink_message list \<times> mavlink" where
  "mavlink_receive chan [] s = ([], s)"
| "mavlink_receive chan (c # cs) s =
     (case mavlink_parse_char chan c s of
        ((r, _), s) \<Rightarrow> (case mavlink_receive chan cs s of
                         (ms, s) \<Rightarrow> ((case r of None \<Rightarrow> ms | Some m \<Rightarrow> m # ms), s)))"

section \<open>One channel\<close>

definition rx :: "u8 \<Rightarrow> mavlink_message \<times> mavlink_status \<Rightarrow> mavlink_message option \<times> mavlink_message \<times> mavlink_status" where
  "rx c ms =
     (case parse_switch c (fst ms, (snd ms)\<lparr>msg_received := 0\<rparr>) of
        (m, st) \<Rightarrow> (if msg_received st = 1 then Some m else None, m, (parse_account m st)\<lparr>parse_error := 0\<rparr>))"

fun rx_all :: "u8 list \<Rightarrow> mavlink_message \<times> mavlink_status \<Rightarrow> mavlink_message list \<times> mavlink_message \<times> mavlink_status" where
  "rx_all [] ms = ([], ms)"
| "rx_all (c # cs) ms =
     (case rx c ms of (r, ms) \<Rightarrow> (case rx_all cs ms of
        (rs, ms) \<Rightarrow> ((case r of None \<Rightarrow> rs | Some m \<Rightarrow> m # rs), ms)))"

definition chan_state :: "nat \<Rightarrow> mavlink \<Rightarrow> mavlink_message \<times> mavlink_status" where
  "chan_state chan s = (m_mavlink_buffer s chan, m_mavlink_status s chan)"

lemma msg_received_account [simp]: "msg_received (parse_account m st) = msg_received st"
  by (simp add: parse_account_def)

lemma mavlink_parse_char_rx:
  "fst (fst (mavlink_parse_char chan c s)) = fst (rx c (chan_state chan s))"
  "chan_state chan (snd (mavlink_parse_char chan c s)) = snd (rx c (chan_state chan s))"
  by (simp_all add: mavlink_parse_char_def rx_def chan_state_def Let_def split: prod.split)

lemma mavlink_receive_rx:
  "fst (mavlink_receive chan cs s) = fst (rx_all cs (chan_state chan s))
   \<and> chan_state chan (snd (mavlink_receive chan cs s)) = snd (rx_all cs (chan_state chan s))"
proof (induction cs arbitrary: s)
  case (Cons c cs)
  obtain r x s' where p: "mavlink_parse_char chan c s = ((r, x), s')" by (metis surj_pair)
  have r: "rx c (chan_state chan s) = (r, chan_state chan s')"
    using mavlink_parse_char_rx[of chan c s] p by (simp add: prod_eq_iff)
  from Cons[of s'] show ?case
    by (auto simp: p r split: prod.split option.split)
qed simp

lemma rx_all_append:
  "rx_all (a @ b) ms =
     (case rx_all a ms of (r1, ms1) \<Rightarrow> case rx_all b ms1 of (r2, ms2) \<Rightarrow> (r1 @ r2, ms2))"
  by (induction a arbitrary: ms) (auto split: prod.split option.split)

lemma crc_accumulate_buffer_append:
  "crc_accumulate_buffer k (a @ b) = crc_accumulate_buffer (crc_accumulate_buffer k a) b"
  by (induction a arbitrary: k) simp_all

section \<open>A sent frame is received\<close>

text \<open>The state machine is between two frames.\<close>

definition between :: "mavlink_status \<Rightarrow> bool" where
  "between st \<longleftrightarrow> parse_state st = MAVLINK_PARSE_STATE_UNINIT \<or> parse_state st = MAVLINK_PARSE_STATE_IDLE"

lemma goto_sel [simp]:
  "parse_state (goto p st) = p" "msg_received (goto p st) = msg_received st"
  "packet_idx (goto p st) = packet_idx st"
  "packet_rx_success_count (goto p st) = packet_rx_success_count st"
  by (simp_all add: goto_def)

lemma rx_start:
  assumes "between st"
  shows "rx MAVLINK_STX (m, st) =
     (None, m\<lparr>len := 0, magic := MAVLINK_STX, checksum := crc_init\<rparr>,
      st\<lparr>msg_received := 0, parse_state := MAVLINK_PARSE_STATE_GOT_STX, parse_error := 0\<rparr>)"
  using assms
  by (auto simp: between_def rx_def parse_switch_def mavlink_start_checksum_def goto_def parse_account_def)

lemmas rx_step = rx_def parse_switch_def mavlink_update_checksum_def goto_def parse_account_def Let_def

lemma rx_header:
  assumes "between st"
  shows "rx_all [MAVLINK_STX, l, sq, si, ci, mi] (m, st) =
     ([], m\<lparr>magic := MAVLINK_STX, len := l, seq := sq, sysid := si, compid := ci, msgid := mi,
            checksum := crc_calculate [l, sq, si, ci, mi]\<rparr>,
      st\<lparr>msg_received := 0, parse_error := 0, packet_idx := 0,
         parse_state := (if l = 0 then MAVLINK_PARSE_STATE_GOT_PAYLOAD else MAVLINK_PARSE_STATE_GOT_MSGID)\<rparr>)"
  by (simp only: rx_all.simps rx_start[OF assms] prod.case option.case)
     (simp add: rx_step crc_calculate_def)

lemma rx_payload:
  assumes "parse_state st = MAVLINK_PARSE_STATE_GOT_MSGID" "unat (packet_idx st) + length ds = unat (len m)"
    "ds \<noteq> []" "unat (len m) \<le> length (payload m)"
  shows "rx_all ds (m, st) =
     ([], m\<lparr>payload := take (unat (packet_idx st)) (payload m) @ ds @ drop (unat (len m)) (payload m),
            checksum := crc_accumulate_buffer (checksum m) ds\<rparr>,
      st\<lparr>msg_received := 0, parse_error := 0, packet_idx := len m, parse_state := MAVLINK_PARSE_STATE_GOT_PAYLOAD\<rparr>)"
  using assms
proof (induction ds arbitrary: m st)
  case (Cons d ds)
  let ?i = "unat (packet_idx st)"
  have lt: "?i < unat (len m)" using Cons.prems by simp
  have b: "unat (len m) < 2 ^ 8" by (rule u8_bound)
  have nx: "unat (packet_idx st + 1) = ?i + 1"
    using lt b by (simp add: unat_word_ariths)
  have ix: "?i < length (payload m)" using lt Cons.prems by simp
  have upd: "take (?i + 1) ((payload m)[?i := d]) = take ?i (payload m) @ [d]"
    using ix by (simp add: take_Suc_conv_app_nth)
  show ?case
  proof (cases "ds = []")
    case True
    then have l: "packet_idx st + 1 = len m" using Cons.prems nx by (metis add.commute list.size(3,4) nat_arith.rule0 plus_1_eq_Suc word_unat_eq_iff)
    then have "unat (len m) = ?i + 1" using nx by simp
    then show ?thesis using True Cons.prems(1) l ix
      by (simp add: rx_step upd_conv_take_nth_drop)
  next
    case False
    then have l: "packet_idx st + 1 \<noteq> len m"
      using Cons.prems(2) nx by (cases ds) auto
    let ?m = "m\<lparr>payload := (payload m)[?i := d], checksum := crc_accumulate d (checksum m)\<rparr>"
    let ?st = "st\<lparr>msg_received := 0, parse_error := 0, packet_idx := packet_idx st + 1\<rparr>"
    have r: "rx d (m, st) = (None, ?m, ?st)" using Cons.prems(1) l by (simp add: rx_step)
    have dr: "drop (unat (len m)) ((payload m)[?i := d]) = drop (unat (len m)) (payload m)" using lt by simp
    have "rx_all ds (?m, ?st) = ([], ?m\<lparr>payload := take (?i + 1) ((payload m)[?i := d]) @ ds @ drop (unat (len m)) ((payload m)[?i := d]),
        checksum := crc_accumulate_buffer (crc_accumulate d (checksum m)) ds\<rparr>,
      ?st\<lparr>msg_received := 0, parse_error := 0, packet_idx := len m, parse_state := MAVLINK_PARSE_STATE_GOT_PAYLOAD\<rparr>)"
      using Cons.IH[of ?st ?m] Cons.prems False nx by simp
    then show ?thesis unfolding upd dr by (simp add: r)
  qed
qed simp

lemma crc_bytes [simp]:
  "ucast (ucast (k AND 0xFF) :: u8) = (k AND 0xFF :: u16)"
  "ucast (ucast (drop_bit 8 k) :: u8) = (drop_bit 8 k :: u16)"
proof -
  have "k AND 0xFF = take_bit 8 k" by (simp add: take_bit_eq_mask mask_eq_exp_minus_1)
  then show "ucast (ucast (k AND 0xFF) :: u8) = (k AND 0xFF :: u16)"
    by (simp add: unsigned_ucast_eq)
  show "ucast (ucast (drop_bit 8 k) :: u8) = (drop_bit 8 k :: u16)"
    by (rule bit_word_eqI) (auto simp: bit_simps dest: bit_imp_le_length)
qed

definition frame_crc :: "u8 list \<Rightarrow> u8 \<Rightarrow> u8 list \<Rightarrow> u16" where
  "frame_crc hdr extra ds = crc_accumulate extra (crc_calculate (hdr @ ds))"

definition ck_bytes :: "u16 \<Rightarrow> u8 list" where
  "ck_bytes k = [ucast (k AND 0xFF), ucast (drop_bit 8 k)]"

lemma rx_ck_ok:
  assumes "parse_state st = MAVLINK_PARSE_STATE_GOT_PAYLOAD" "packet_idx st = len m"
    "k = crc_accumulate (MAVLINK_MESSAGE_CRC (msgid m)) (checksum m)"
  shows "\<exists>m' st'. rx_all (ck_bytes k) (m, st) = ([m'], m', st')
     \<and> m' = m\<lparr>checksum := k, payload := (payload m)[unat (len m) := ucast (k AND 0xFF), unat (len m) + 1 := ucast (drop_bit 8 k)]\<rparr>
     \<and> between st' \<and> packet_rx_success_count st' = packet_rx_success_count st + 1 \<and> current_rx_seq st' = seq m
     \<and> current_tx_seq st' = current_tx_seq st"
  using assms by (simp add: ck_bytes_def rx_step between_def)

text \<open>A frame up to its checksum.\<close>

lemma rx_body:
  assumes st: "between st" and n: "length ds = unat l" and p: "unat l + 2 \<le> length (payload m)"
  shows "rx_all ([MAVLINK_STX, l, sq, si, ci, mi] @ ds) (m, st) =
     ([], m\<lparr>magic := MAVLINK_STX, len := l, seq := sq, sysid := si, compid := ci, msgid := mi,
            payload := ds @ drop (unat l) (payload m),
            checksum := crc_calculate ([l, sq, si, ci, mi] @ ds)\<rparr>,
      st\<lparr>msg_received := 0, parse_error := 0, packet_idx := l, parse_state := MAVLINK_PARSE_STATE_GOT_PAYLOAD\<rparr>)"
proof -
  let ?m1 = "m\<lparr>magic := MAVLINK_STX, len := l, seq := sq, sysid := si, compid := ci, msgid := mi,
               checksum := crc_calculate [l, sq, si, ci, mi]\<rparr>"
  let ?st1 = "st\<lparr>msg_received := 0, parse_error := 0, packet_idx := 0,
         parse_state := (if l = 0 then MAVLINK_PARSE_STATE_GOT_PAYLOAD else MAVLINK_PARSE_STATE_GOT_MSGID)\<rparr>"
  have pay: "rx_all ds (?m1, ?st1) = ([], ?m1\<lparr>payload := ds @ drop (unat l) (payload m),
        checksum := crc_accumulate_buffer (crc_calculate [l, sq, si, ci, mi]) ds\<rparr>,
      ?st1\<lparr>packet_idx := l, parse_state := MAVLINK_PARSE_STATE_GOT_PAYLOAD\<rparr>)"
  proof (cases "ds = []")
    case True
    then have "l = 0" using n by (simp add: unat_eq_zero)
    then show ?thesis using True by simp
  next
    case False
    then have "l \<noteq> 0" using n by auto
    then show ?thesis using False n p rx_payload[of ?st1 ds ?m1] by simp
  qed
  show ?thesis
    by (simp only: rx_all_append rx_header[OF st] prod.case pay)
      (simp add: crc_calculate_def crc_accumulate_buffer_append)
qed

lemma rx_frame:
  assumes st: "between st" and n: "length ds = unat l" and p: "unat l + 2 \<le> length (payload m)"
    and k: "k = frame_crc [l, sq, si, ci, mi] (MAVLINK_MESSAGE_CRC mi) ds"
  shows "\<exists>m' st'. rx_all ([MAVLINK_STX, l, sq, si, ci, mi] @ ds @ ck_bytes k) (m, st) = ([m'], m', st')
     \<and> between st' \<and> packet_rx_success_count st' = packet_rx_success_count st + 1 \<and> current_rx_seq st' = sq
     \<and> current_tx_seq st' = current_tx_seq st
     \<and> len m' = l \<and> seq m' = sq \<and> sysid m' = si \<and> compid m' = ci \<and> msgid m' = mi \<and> magic m' = MAVLINK_STX
     \<and> checksum m' = k \<and> payload m' = ds @ ck_bytes k @ drop (unat l + 2) (payload m)"
proof -
  let ?m2 = "m\<lparr>magic := MAVLINK_STX, len := l, seq := sq, sysid := si, compid := ci, msgid := mi,
            payload := ds @ drop (unat l) (payload m), checksum := crc_calculate ([l, sq, si, ci, mi] @ ds)\<rparr>"
  let ?st2 = "st\<lparr>msg_received := 0, parse_error := 0, packet_idx := l, parse_state := MAVLINK_PARSE_STATE_GOT_PAYLOAD\<rparr>"
  have k2: "k = crc_accumulate (MAVLINK_MESSAGE_CRC (msgid ?m2)) (checksum ?m2)"
    by (simp add: k frame_crc_def)
  obtain m' st' where ck: "rx_all (ck_bytes k) (?m2, ?st2) = ([m'], m', st')"
    "m' = ?m2\<lparr>checksum := k, payload := (payload ?m2)[unat (len ?m2) := ucast (k AND 0xFF), unat (len ?m2) + 1 := ucast (drop_bit 8 k)]\<rparr>"
    "between st'" "packet_rx_success_count st' = packet_rx_success_count ?st2 + 1" "current_rx_seq st' = seq ?m2"
    "current_tx_seq st' = current_tx_seq ?st2"
    using rx_ck_ok[OF _ _ k2, of ?st2] by auto
  have "2 \<le> length (drop (unat l) (payload m))" using p by simp
  then obtain a b r where d: "drop (unat l) (payload m) = a # b # r"
    by (metis One_nat_def Suc_1 Suc_le_length_iff)
  have r: "drop (unat l + 2) (payload m) = r"
  proof -
    have "drop (unat l + 2) (payload m) = drop 2 (drop (unat l) (payload m))" by (simp add: add.commute)
    then show ?thesis by (simp add: d)
  qed
  have pl: "payload m' = ds @ ck_bytes k @ drop (unat l + 2) (payload m)"
    unfolding r using d by (simp add: ck(2) n[symmetric] list_update_append ck_bytes_def)
  show ?thesis
    unfolding append_assoc[symmetric] rx_all_append[of "_ @ ds"] rx_body[OF st n p]
    using ck pl by simp
qed

text \<open>The bytes of a finalised message.\<close>

lemma mavlink_finalize_bytes:
  assumes f: "mavlink_finalize_message_chan msg si ci chan l x s = ((n, msg'), s')"
    and p: "unat l + 2 \<le> length (payload msg)"
  shows "mavlink_msg_to_send_buffer msg' =
     [MAVLINK_STX, l, current_tx_seq (m_mavlink_status s chan), si, ci, msgid msg] @ take (unat l) (payload msg)
     @ ck_bytes (frame_crc [l, current_tx_seq (m_mavlink_status s chan), si, ci, msgid msg]
          x (take (unat l) (payload msg)))"
    and "n = unat l + 8" and "m_mavlink_buffer s' = m_mavlink_buffer s"
    and "m_mavlink_status s' = (m_mavlink_status s)(chan := (m_mavlink_status s chan)
          \<lparr>current_tx_seq := current_tx_seq (m_mavlink_status s chan) + 1\<rparr>)"
proof -
  have "2 \<le> length (drop (unat l) (payload msg))" using p by simp
  then obtain a b r where d: "drop (unat l) (payload msg) = a # b # r"
    by (metis One_nat_def Suc_1 Suc_le_length_iff)
  have u: "(payload msg)[unat l := x, Suc (unat l) := y] = take (unat l) (payload msg) @ x # y # r" for x y
  proof -
    have "(payload msg)[unat l := x, Suc (unat l) := y]
        = (take (unat l) (payload msg) @ a # b # r)[unat l := x, Suc (unat l) := y]"
      by (simp flip: d)
    also have "\<dots> = take (unat l) (payload msg) @ x # y # r"
      using p by (simp add: list_update_append)
    finally show ?thesis .
  qed
  have t: "take (8 + unat l) (h1 # h2 # h3 # h4 # h5 # h6 # take (unat l) (payload msg) @ x # y # r)
      = h1 # h2 # h3 # h4 # h5 # h6 # take (unat l) (payload msg) @ [x, y]" for h1 h2 h3 h4 h5 h6 x y
  proof -
    have e: "8 + unat l = Suc (Suc (Suc (Suc (Suc (Suc (2 + unat l))))))" by simp
    show ?thesis unfolding e using p by (simp add: min_def)
  qed
  show "mavlink_msg_to_send_buffer msg' =
     [MAVLINK_STX, l, current_tx_seq (m_mavlink_status s chan), si, ci, msgid msg] @ take (unat l) (payload msg)
     @ ck_bytes (frame_crc [l, current_tx_seq (m_mavlink_status s chan), si, ci, msgid msg]
          x (take (unat l) (payload msg)))"
    using f p unfolding mavlink_finalize_message_chan_def Let_def
    by (auto simp: u t mavlink_msg_to_send_buffer_def MAVLINK_NUM_NON_PAYLOAD_BYTES_def core_header_def
        frame_crc_def ck_bytes_def)
  show "n = unat l + 8" "m_mavlink_buffer s' = m_mavlink_buffer s"
    "m_mavlink_status s' = (m_mavlink_status s)(chan := (m_mavlink_status s chan)
          \<lparr>current_tx_seq := current_tx_seq (m_mavlink_status s chan) + 1\<rparr>)"
    using f by (auto simp: mavlink_finalize_message_chan_def Let_def MAVLINK_NUM_NON_PAYLOAD_BYTES_def)
qed

section \<open>The checksum detects a changed byte\<close>

lemma xor_cancel [simp]: "(a :: 'a::len word) XOR c = b XOR c \<longleftrightarrow> a = b" "c XOR a = c XOR b \<longleftrightarrow> a = b"
proof -
  have inv: "(z XOR c) XOR c = z" for z :: "'a word" by (simp add: xor.assoc)
  show "a XOR c = b XOR c \<longleftrightarrow> a = b" by (metis inv)
  then show "c XOR a = c XOR b \<longleftrightarrow> a = b" by (simp add: xor.commute)
qed

lemma xor_shift_left_inv: "(x :: u8) XOR push_bit 4 x = y XOR push_bit 4 y \<Longrightarrow> x = y"
proof -
  have "push_bit 4 (push_bit 4 z) = 0" for z :: u8
    by (rule bit_word_eqI) (simp add: bit_simps)
  then have inv: "(z XOR push_bit 4 z) XOR push_bit 4 (z XOR push_bit 4 z) = z" for z :: u8
    by (simp add: push_bit_xor ac_simps)
  assume "x XOR push_bit 4 x = y XOR push_bit 4 y"
  then show "x = y" using inv[of x] inv[of y] by simp
qed

lemma xor_shift_right_inv: "(x :: u8) XOR drop_bit 5 x = y XOR drop_bit 5 y \<Longrightarrow> x = y"
proof -
  have "drop_bit 5 (drop_bit 5 z) = 0" for z :: u8
    by (rule bit_word_eqI) (auto simp: bit_simps dest: bit_imp_le_length)
  then have inv: "(z XOR drop_bit 5 z) XOR drop_bit 5 (z XOR drop_bit 5 z) = z" for z :: u8
    by (simp add: drop_bit_xor ac_simps)
  assume "x XOR drop_bit 5 x = y XOR drop_bit 5 y"
  then show "x = y" using inv[of x] inv[of y] by simp
qed

text \<open>The two bytes of the next checksum, in terms of the mixed byte.\<close>

definition crc_mix :: "u8 \<Rightarrow> u16 \<Rightarrow> u8" where
  "crc_mix d k = (let t = d XOR ucast (k AND 0xff) in t XOR push_bit 4 t)"

lemma crc_accumulate_mix:
  "crc_accumulate d k = drop_bit 8 k XOR push_bit 8 (ucast (crc_mix d k)) XOR push_bit 3 (ucast (crc_mix d k))
     XOR drop_bit 4 (ucast (crc_mix d k))"
  by (simp add: crc_accumulate_def crc_mix_def Let_def)

lemma less_8_cases:
  assumes "n < (8 :: nat)"
  shows "n = 0 \<or> n = 1 \<or> n = 2 \<or> n = 3 \<or> n = 4 \<or> n = 5 \<or> n = 6 \<or> n = 7"
  using assms by arith

lemma bit_out: "\<not> bit (b :: u8) n" if "8 \<le> n" for n
  using that bit_imp_le_length[of b n] by auto

lemma bit_out16: "\<not> bit (b :: u16) n" if "16 \<le> n" for n
  using that bit_imp_le_length[of b n] by auto

lemma crc_high_aux: "(ucast (drop_bit 8 (drop_bit 8 k XOR push_bit 8 (ucast b) XOR push_bit 3 (ucast b)
     XOR drop_bit 4 (ucast b)) :: u16) :: u8) = b XOR drop_bit 5 b"
proof (rule bit_word_eqI)
  fix n assume "n < LENGTH(8)"
  then have "n < 8" by simp
  then show "bit (ucast (drop_bit 8 (drop_bit 8 k XOR push_bit 8 (ucast b) XOR push_bit 3 (ucast b)
     XOR drop_bit 4 (ucast b)) :: u16) :: u8) n = bit (b XOR drop_bit 5 b) n"
    by (drule_tac less_8_cases) (elim disjE; simp add: bit_simps bit_out bit_out16)
qed

lemma crc_low_aux: "(ucast (drop_bit 8 (k :: u16) XOR push_bit 8 (ucast b) XOR push_bit 3 (ucast b)
     XOR drop_bit 4 (ucast b)) :: u8) = ucast (drop_bit 8 k) XOR push_bit 3 b XOR drop_bit 4 b"
proof (rule bit_word_eqI)
  fix n assume "n < LENGTH(8)"
  then have "n < 8" by simp
  then show "bit (ucast (drop_bit 8 (k :: u16) XOR push_bit 8 (ucast b) XOR push_bit 3 (ucast b)
     XOR drop_bit 4 (ucast b)) :: u8) n = bit (ucast (drop_bit 8 k) XOR push_bit 3 b XOR drop_bit 4 b) n"
    by (drule_tac less_8_cases) (elim disjE; simp add: bit_simps bit_out bit_out16)
qed

lemma u16_bytes_eq:
  assumes "(ucast (drop_bit 8 (x :: u16)) :: u8) = ucast (drop_bit 8 y)" "(ucast (x AND 0xFF) :: u8) = ucast (y AND 0xFF)"
  shows "x = y"
proof -
  have split: "z = push_bit 8 (ucast (ucast (drop_bit 8 z) :: u8)) OR ucast (ucast (z AND 0xFF) :: u8)" for z :: u16
  proof -
    have "z AND 0xFF = take_bit 8 z" by (simp add: take_bit_eq_mask mask_eq_exp_minus_1)
    then have "push_bit 8 (drop_bit 8 z) OR (z AND 0xFF) = z"
      by (simp only:) (rule bit_word_eqI, auto simp: bit_simps)
    then show ?thesis by simp
  qed
  show ?thesis using split[of x] split[of y] assms by metis
qed

lemma crc_accumulate_eqD:
  assumes "crc_accumulate d1 k1 = crc_accumulate d2 k2"
  shows "(ucast (drop_bit 8 k1) :: u8) = ucast (drop_bit 8 k2)"
    and "d1 XOR ucast (k1 AND 0xff) = d2 XOR ucast (k2 AND 0xff)"
proof -
  have "crc_mix d1 k1 XOR drop_bit 5 (crc_mix d1 k1) = crc_mix d2 k2 XOR drop_bit 5 (crc_mix d2 k2)"
    using arg_cong[OF assms, of "\<lambda>x. ucast (drop_bit 8 x) :: u8"]
    unfolding crc_accumulate_mix crc_high_aux .
  then have m: "crc_mix d1 k1 = crc_mix d2 k2" by (rule xor_shift_right_inv)
  then show "d1 XOR ucast (k1 AND 0xff) = d2 XOR ucast (k2 AND 0xff)"
    unfolding crc_mix_def Let_def by (rule xor_shift_left_inv)
  have "(ucast (drop_bit 8 k1) :: u8) XOR push_bit 3 (crc_mix d1 k1) XOR drop_bit 4 (crc_mix d1 k1)
      = ucast (drop_bit 8 k2) XOR push_bit 3 (crc_mix d1 k1) XOR drop_bit 4 (crc_mix d1 k1)"
    using arg_cong[OF assms, of "\<lambda>x. ucast x :: u8"]
    unfolding crc_accumulate_mix crc_low_aux m .
  then show "(ucast (drop_bit 8 k1) :: u8) = ucast (drop_bit 8 k2)" by (simp only: xor_cancel)
qed

lemma crc_accumulate_inj_data: "crc_accumulate d1 k = crc_accumulate d2 k \<Longrightarrow> d1 = d2"
  using crc_accumulate_eqD(2)[of d1 k d2 k] by simp

lemma crc_accumulate_inj_crc: "crc_accumulate d k1 = crc_accumulate d k2 \<Longrightarrow> k1 = k2"
  using crc_accumulate_eqD[of d k1 d k2] by (intro u16_bytes_eq) simp_all

lemma crc_accumulate_buffer_inj: "crc_accumulate_buffer k1 ds = crc_accumulate_buffer k2 ds \<Longrightarrow> k1 = k2"
  by (induction ds arbitrary: k1 k2) (auto dest: crc_accumulate_inj_crc)

lemma crc_accumulate_buffer_one_byte:
  assumes "i < length ds" "x \<noteq> ds ! i"
  shows "crc_accumulate_buffer k (ds[i := x]) \<noteq> crc_accumulate_buffer k ds"
  using assms
proof (induction ds arbitrary: i k)
  case (Cons d ds)
  then show ?case
    by (cases i) (auto dest: crc_accumulate_buffer_inj crc_accumulate_inj_data)
qed simp

lemma frame_crc_one_byte:
  assumes "i < length (hdr @ ds)" "x \<noteq> (hdr @ ds) ! i" "(hdr @ ds)[i := x] = hdr' @ ds'"
  shows "frame_crc hdr' extra ds' \<noteq> frame_crc hdr extra ds"
  using crc_accumulate_buffer_one_byte[OF assms(1,2), of crc_init] crc_accumulate_inj_crc assms(3)
  by (auto simp: frame_crc_def crc_calculate_def)

lemma ck_bytes_inj: "ck_bytes k1 = ck_bytes k2 \<Longrightarrow> k1 = k2"
  by (rule u16_bytes_eq) (simp_all add: ck_bytes_def)

section \<open>Bad frames\<close>

lemma ucast_8_16_inj [simp]: "(ucast (a :: u8) :: u16) = ucast b \<longleftrightarrow> a = b"
proof -
  have inv: "(ucast (ucast z :: u16) :: u8) = z" for z :: u8
    by (rule bit_word_eqI) (auto simp: bit_simps)
  show ?thesis by (metis inv)
qed

lemma rx_ck_bad:
  assumes "parse_state st = MAVLINK_PARSE_STATE_GOT_PAYLOAD"
    "k = crc_accumulate (MAVLINK_MESSAGE_CRC (msgid m)) (checksum m)" "[a, b] \<noteq> ck_bytes k"
  shows "fst (rx_all [a, b] (m, st)) = []"
proof (cases "ucast a = k AND 0xFF")
  case False
  then show ?thesis using assms(1,2)
    by (cases "a = MAVLINK_STX"; cases "b = MAVLINK_STX")
      (simp_all add: rx_step crc_mismatch_def mavlink_start_checksum_def)
next
  case True
  have "a = ucast (k AND 0xFF)" using True by (simp flip: ucast_8_16_inj)
  then have b: "ucast b \<noteq> drop_bit 8 k" using assms(3) unfolding ck_bytes_def
    using \<open>a = _\<close> by (auto simp flip: ucast_8_16_inj)
  show ?thesis using assms(1,2) True b
    by (cases "b = MAVLINK_STX") (simp_all add: rx_step crc_mismatch_def mavlink_start_checksum_def)
qed

lemma rx_frame_bad:
  assumes st: "between st" and n: "length ds = unat l" and p: "unat l + 2 \<le> length (payload m)"
    and k: "[a, b] \<noteq> ck_bytes (frame_crc [l, sq, si, ci, mi] (MAVLINK_MESSAGE_CRC mi) ds)"
  shows "fst (rx_all ([MAVLINK_STX, l, sq, si, ci, mi] @ ds @ [a, b]) (m, st)) = []"
proof -
  let ?m2 = "m\<lparr>magic := MAVLINK_STX, len := l, seq := sq, sysid := si, compid := ci, msgid := mi,
            payload := ds @ drop (unat l) (payload m), checksum := crc_calculate ([l, sq, si, ci, mi] @ ds)\<rparr>"
  let ?st2 = "st\<lparr>msg_received := 0, parse_error := 0, packet_idx := l, parse_state := MAVLINK_PARSE_STATE_GOT_PAYLOAD\<rparr>"
  have "fst (rx_all [a, b] (?m2, ?st2)) = []"
    using k by (intro rx_ck_bad[OF _ refl]) (simp_all add: frame_crc_def)
  then show ?thesis
    unfolding append_assoc[symmetric] rx_all_append[of "_ @ ds"] rx_body[OF st n p]
    by (simp split: prod.split)
qed

text \<open>
  One changed byte among the sequence number, the ids of the sender, the payload or the
  checksum: the frame is dropped. The start byte and the length decide where the frame
  ends, and the message id selects the byte that is added to the checksum.
\<close>

definition wire :: "u8 \<Rightarrow> u8 \<Rightarrow> u8 \<Rightarrow> u8 \<Rightarrow> u8 \<Rightarrow> u8 list \<Rightarrow> u8 list" where
  "wire l sq si ci mi ds = [MAVLINK_STX, l, sq, si, ci, mi] @ ds
     @ ck_bytes (frame_crc [l, sq, si, ci, mi] (MAVLINK_MESSAGE_CRC mi) ds)"

lemma length_ck_bytes [simp]: "length (ck_bytes k) = 2"
  by (simp add: ck_bytes_def)

lemma rx_wire_one_byte:
  assumes st: "between st" and n: "length ds = unat l" and p: "unat l + 2 \<le> length (payload m)"
    and i: "i < length (wire l sq si ci mi ds)" "2 \<le> i" "i \<noteq> 5" and x: "x \<noteq> wire l sq si ci mi ds ! i"
  shows "fst (rx_all ((wire l sq si ci mi ds)[i := x]) (m, st)) = []"
proof -
  let ?k = "frame_crc [l, sq, si, ci, mi] (MAVLINK_MESSAGE_CRC mi) ds"
  have dif: "fst (rx_all ([MAVLINK_STX, l, sq', si', ci', mi] @ ds' @ ck_bytes ?k) (m, st)) = []"
    if "frame_crc [l, sq', si', ci', mi] (MAVLINK_MESSAGE_CRC mi) ds' \<noteq> ?k" "length ds' = length ds" for sq' si' ci' ds'
  proof -
    obtain a b where ab: "ck_bytes ?k = [a, b]" by (simp add: ck_bytes_def)
    show ?thesis unfolding ab
      by (rule rx_frame_bad[OF st]) (use that n p ck_bytes_inj ab in auto)
  qed
  have one: "frame_crc [l, sq', si', ci', mi] (MAVLINK_MESSAGE_CRC mi) ds' \<noteq> ?k"
    if "j < 5 + length ds" "y \<noteq> ([l, sq, si, ci, mi] @ ds) ! j"
       "([l, sq, si, ci, mi] @ ds)[j := y] = [l, sq', si', ci', mi] @ ds'" for j y sq' si' ci' ds'
    using frame_crc_one_byte[of j "[l, sq, si, ci, mi]" ds y] that by simp
  have "i < 8 + length ds" using i by (simp add: wire_def)
  then have "i = 2 \<or> i = 3 \<or> i = 4 \<or> (\<exists>j. i = 6 + j \<and> j < length ds) \<or> (\<exists>j. i = 6 + length ds + j \<and> j < 2)"
    using i(2,3) by presburger
  then consider "i = 2" | "i = 3" | "i = 4" | j where "i = 6 + j" "j < length ds"
    | j where "i = 6 + length ds + j" "j < 2"
    by blast
  then show ?thesis
  proof cases
    case 1
    then have "(wire l sq si ci mi ds)[i := x] = [MAVLINK_STX, l, x, si, ci, mi] @ ds @ ck_bytes ?k" "x \<noteq> sq"
      using x by (simp_all add: wire_def eval_nat_numeral)
    then show ?thesis using one[of 1 x x si ci ds] dif[of x si ci ds] by simp
  next
    case 2
    then have "(wire l sq si ci mi ds)[i := x] = [MAVLINK_STX, l, sq, x, ci, mi] @ ds @ ck_bytes ?k" "x \<noteq> si"
      using x by (simp_all add: wire_def eval_nat_numeral)
    then show ?thesis using one[of 2 x sq x ci ds] dif[of sq x ci ds] by (simp add: eval_nat_numeral)
  next
    case 3
    then have "(wire l sq si ci mi ds)[i := x] = [MAVLINK_STX, l, sq, si, x, mi] @ ds @ ck_bytes ?k" "x \<noteq> ci"
      using x by (simp_all add: wire_def eval_nat_numeral)
    then show ?thesis using one[of 3 x sq si x ds] dif[of sq si x ds] by (simp add: eval_nat_numeral)
  next
    case (4 j)
    then have "(wire l sq si ci mi ds)[i := x] = [MAVLINK_STX, l, sq, si, ci, mi] @ ds[j := x] @ ck_bytes ?k" "x \<noteq> ds ! j"
      using x by (simp_all add: wire_def eval_nat_numeral list_update_append nth_append)
    then show ?thesis using 4 one[of "5 + j" x sq si ci "ds[j := x]"] dif[of sq si ci "ds[j := x]"]
      by (simp add: eval_nat_numeral)
  next
    case (5 j)
    let ?c = "(ck_bytes ?k)[j := x]"
    have w: "(wire l sq si ci mi ds)[i := x] = [MAVLINK_STX, l, sq, si, ci, mi] @ ds @ ?c"
      using 5 by (simp add: wire_def eval_nat_numeral list_update_append)
    have "x \<noteq> ck_bytes ?k ! j" using x 5 by (simp add: wire_def eval_nat_numeral nth_append)
    then have ne: "?c \<noteq> ck_bytes ?k" using 5(2) by (metis length_ck_bytes nth_list_update_eq)
    obtain a b where ab: "?c = [a, b]" using 5(2) by (cases j) (auto simp: ck_bytes_def)
    show ?thesis unfolding w ab by (rule rx_frame_bad[OF st n p]) (use ne ab in simp)
  qed
qed

section \<open>Streams of frames\<close>

definition carries :: "mavlink_message \<Rightarrow> u8 \<times> u8 \<times> u8 \<times> u8 \<times> u8 list \<Rightarrow> bool" where
  "carries m f = (case f of (sq, si, ci, mi, ds) \<Rightarrow>
     unat (len m) = length ds \<and> seq m = sq \<and> sysid m = si \<and> compid m = ci \<and> msgid m = mi
     \<and> take (length ds) (payload m) = ds)"

definition frame_bytes :: "u8 \<times> u8 \<times> u8 \<times> u8 \<times> u8 list \<Rightarrow> u8 list" where
  "frame_bytes f = (case f of (sq, si, ci, mi, ds) \<Rightarrow> wire (word_of_nat (length ds)) sq si ci mi ds)"

lemma unat_of_length: "n \<le> 255 \<Longrightarrow> unat (word_of_nat n :: u8) = n"
  by (simp add: unat_of_nat)

lemma rx_frames:
  assumes "between st" "length (payload m) = 264"
    "\<And>sq si ci mi ds. (sq, si, ci, mi, ds) \<in> set fs \<Longrightarrow> length ds \<le> 255"
  shows "\<exists>ms m' st'. rx_all (concat (map frame_bytes fs)) (m, st) = (ms, m', st')
     \<and> list_all2 carries ms fs \<and> between st' \<and> length (payload m') = 264
     \<and> packet_rx_success_count st' = packet_rx_success_count st + word_of_nat (length fs)"
  using assms
proof (induction fs arbitrary: m st)
  case (Cons f fs)
  obtain sq si ci mi ds where f: "f = (sq, si, ci, mi, ds)" by (metis prod_cases5)
  have n: "length ds \<le> 255" using Cons.prems(3)[of sq si ci mi ds] f by simp
  let ?l = "word_of_nat (length ds) :: u8"
  let ?k = "frame_crc [?l, sq, si, ci, mi] (MAVLINK_MESSAGE_CRC mi) ds"
  have l: "length ds = unat ?l" "unat ?l + 2 \<le> length (payload m)"
    using n Cons.prems(2) by (simp_all add: unat_of_length)
  obtain m1 st1 where r: "rx_all (frame_bytes f) (m, st) = ([m1], m1, st1)" "between st1"
      "packet_rx_success_count st1 = packet_rx_success_count st + 1" "carries m1 f"
      "payload m1 = ds @ ck_bytes ?k @ drop (unat ?l + 2) (payload m)"
    using rx_frame[OF Cons.prems(1) l refl, of sq si ci mi]
    by (auto simp: f frame_bytes_def wire_def carries_def l(1)[symmetric])
  have p: "length (payload m1) = 264" using Cons.prems(2) n by (simp add: r(5) unat_of_length)
  obtain ms m2 st2 where IH: "rx_all (concat (map frame_bytes fs)) (m1, st1) = (ms, m2, st2)"
     "list_all2 carries ms fs" "between st2" "length (payload m2) = 264"
     "packet_rx_success_count st2 = packet_rx_success_count st1 + word_of_nat (length fs)"
    using Cons.IH[OF r(2) p] Cons.prems(3) by fastforce
  show ?case
    by (simp add: rx_all_append r(1) IH) (use r IH in simp)
qed (simp add: between_def)

section \<open>The bitwise checksum\<close>

text \<open>
  CRC-16/MCRF4XX: the polynomial $x^{16} + x^{12} + x^5 + 1$, least significant bit first.
\<close>

definition crc_shift :: "u16 \<Rightarrow> u16" where
  "crc_shift k = (if bit k 0 then drop_bit 1 k XOR 0x8408 else drop_bit 1 k)"

definition crc_reference :: "u8 \<Rightarrow> u16 \<Rightarrow> u16" where
  "crc_reference d k = (crc_shift ^^ 8) (k XOR ucast d)"

lemma less_16_cases:
  assumes "n < (16 :: nat)"
  shows "n = 15 \<or> n = 14 \<or> n = 13 \<or> n = 12 \<or> n = 11 \<or> n = 10 \<or> n = 9 \<or> n = 8
    \<or> n = 7 \<or> n = 6 \<or> n = 5 \<or> n = 4 \<or> n = 3 \<or> n = 2 \<or> n = 1 \<or> n = 0"
  using assms by arith

lemma bit_poly: "bit (0x8408 :: u16) n \<longleftrightarrow> n = 3 \<or> n = 10 \<or> n = 15"
proof (cases "n < 16")
  case True
  then show ?thesis by (drule_tac less_16_cases) (elim disjE; simp)
next
  case False
  then show ?thesis by (simp add: bit_out16)
qed

lemma bit_crc_shift:
  "bit (crc_shift k) n \<longleftrightarrow> bit k (n + 1) \<noteq> (bit k 0 \<and> (n = 3 \<or> n = 10 \<or> n = 15))"
  unfolding crc_shift_def
  by (cases "bit k 0") (simp_all only: bit_xor_iff bit_drop_bit_eq bit_poly if_True if_False add.commute o_def, auto)

lemma crc_shift_8:
  "(crc_shift ^^ 8) x = crc_shift (crc_shift (crc_shift (crc_shift (crc_shift (crc_shift (crc_shift (crc_shift x)))))))"
  by (simp add: eval_nat_numeral)

lemma crc_accumulate_reference: "crc_accumulate d k = crc_reference d k"
proof (rule bit_word_eqI)
  fix n assume "n < LENGTH(16)"
  then have "n < 16" by simp
  then show "bit (crc_accumulate d k) n = bit (crc_reference d k) n"
    unfolding crc_accumulate_mix crc_mix_def crc_reference_def crc_shift_8 Let_def
    by (drule_tac less_16_cases) (elim disjE; simp add: bit_crc_shift bit_simps bit_out bit_out16 del: One_nat_def; (simp; fail)?; (simp, argo)?)
qed

section \<open>A link at rest\<close>

definition blank_message :: mavlink_message where
  "blank_message = \<lparr>checksum = 0, magic = 0, len = 0, seq = 0, sysid = 0, compid = 0, msgid = 0, payload = replicate 264 0\<rparr>"

definition blank_status :: mavlink_status where
  "blank_status = \<lparr>msg_received = 0, buffer_overrun = 0, parse_error = 0, parse_state = MAVLINK_PARSE_STATE_UNINIT,
     packet_idx = 0, current_rx_seq = 0, current_tx_seq = 0, packet_rx_success_count = 0, packet_rx_drop_count = 0\<rparr>"

definition idle_link :: mavlink where
  "idle_link = \<lparr>m_mavlink_status = (\<lambda>_. blank_status), m_mavlink_buffer = (\<lambda>_. blank_message)\<rparr>"

lemma idle_link_simps [simp]:
  "chan_state c idle_link = (blank_message, blank_status)" "between blank_status" "length (payload blank_message) = 264"
  "m_mavlink_status idle_link c = blank_status" "current_tx_seq blank_status = 0"
  by (simp_all add: chan_state_def idle_link_def between_def blank_status_def blank_message_def)

end
