(* ===== verification/Wire.thy ===== *)
theory Wire
  imports Mavlink
begin

text \<open>
  The messages of the ground station link, \<^verbatim>\<open>Quad/mavlink/common/mavlink_msg_*.h\<close>: the fields of a
  message at their places in the payload. Fields are little endian; a \<^verbatim>\<open>float\<close> is its
  32-bit pattern. A \<open>_pack\<close> function takes the message it fills, whose old contents are
  arbitrary, and the state of the channels, and returns the length with the message.

  The lemmas show that what is sent depends on the fields only (\<open>pack_frame\<close>), and that
  the receiver of a frame gets the fields back.
\<close>

unbundle bit_operations_syntax

section \<open>Fields\<close>

definition le16 :: "u16 \<Rightarrow> u8 list" where
  "le16 w = [ucast w, ucast (drop_bit 8 w)]"

definition le32 :: "u32 \<Rightarrow> u8 list" where
  "le32 w = [ucast w, ucast (drop_bit 8 w), ucast (drop_bit 16 w), ucast (drop_bit 24 w)]"

definition get16 :: "mavlink_message \<Rightarrow> nat \<Rightarrow> u16" where
  "get16 msg i = ucast (payload msg ! i) OR push_bit 8 (ucast (payload msg ! (i + 1)))"

definition get32 :: "mavlink_message \<Rightarrow> nat \<Rightarrow> u32" where
  "get32 msg i = ucast (payload msg ! i) OR push_bit 8 (ucast (payload msg ! (i + 1)))
     OR push_bit 16 (ucast (payload msg ! (i + 2))) OR push_bit 24 (ucast (payload msg ! (i + 3)))"

text \<open>The \<^verbatim>\<open>memcpy\<close> into the payload, and the message id.\<close>

definition put_packet :: "u8 list \<Rightarrow> u8 \<Rightarrow> mavlink_message \<Rightarrow> mavlink_message" where
  "put_packet packet mid msg = msg\<lparr>payload := packet @ drop (length packet) (payload msg), msgid := mid\<rparr>"

section \<open>Packing\<close>

definition MAVLINK_MSG_ID_HEARTBEAT :: u8 where "MAVLINK_MSG_ID_HEARTBEAT = 0"
definition MAVLINK_MSG_ID_PARAM_REQUEST_LIST :: u8 where "MAVLINK_MSG_ID_PARAM_REQUEST_LIST = 21"
definition MAVLINK_MSG_ID_PARAM_VALUE :: u8 where "MAVLINK_MSG_ID_PARAM_VALUE = 22"
definition MAVLINK_MSG_ID_PARAM_SET :: u8 where "MAVLINK_MSG_ID_PARAM_SET = 23"
definition MAVLINK_MSG_ID_ATTITUDE :: u8 where "MAVLINK_MSG_ID_ATTITUDE = 30"
definition MAVLINK_MSG_ID_RC_CHANNELS_SCALED :: u8 where "MAVLINK_MSG_ID_RC_CHANNELS_SCALED = 34"
definition MAVLINK_MSG_ID_SERVO_OUTPUT_RAW :: u8 where "MAVLINK_MSG_ID_SERVO_OUTPUT_RAW = 36"
definition MAVLINK_MSG_ID_COMMAND_LONG :: u8 where "MAVLINK_MSG_ID_COMMAND_LONG = 76"
definition MAVLINK_MSG_ID_STATUSTEXT :: u8 where "MAVLINK_MSG_ID_STATUSTEXT = 253"

type_synonym packed = "(nat \<times> mavlink_message) \<times> mavlink"

definition mavlink_msg_heartbeat_pack ::
    "u8 \<Rightarrow> u8 \<Rightarrow> mavlink_message \<Rightarrow> u8 \<Rightarrow> u8 \<Rightarrow> u8 \<Rightarrow> u32 \<Rightarrow> u8 \<Rightarrow> mavlink \<Rightarrow> packed" where
  "mavlink_msg_heartbeat_pack system_id component_id msg typ autopilot base_mode custom_mode system_status s =
     (let packet = le32 custom_mode @ [typ, autopilot, base_mode, system_status, 3]
      in mavlink_finalize_message (put_packet packet MAVLINK_MSG_ID_HEARTBEAT msg) system_id component_id 9 50 s)"

definition mavlink_msg_param_value_pack ::
    "u8 \<Rightarrow> u8 \<Rightarrow> mavlink_message \<Rightarrow> u8 list \<Rightarrow> u32 \<Rightarrow> u8 \<Rightarrow> u16 \<Rightarrow> u16 \<Rightarrow> mavlink \<Rightarrow> packed" where
  "mavlink_msg_param_value_pack system_id component_id msg param_id param_value param_type param_count param_index s =
     (let packet = le32 param_value @ le16 param_count @ le16 param_index @ take 16 param_id @ [param_type]
      in mavlink_finalize_message (put_packet packet MAVLINK_MSG_ID_PARAM_VALUE msg) system_id component_id 25 220 s)"

definition mavlink_msg_attitude_pack ::
    "u8 \<Rightarrow> u8 \<Rightarrow> mavlink_message \<Rightarrow> u32 \<Rightarrow> u32 \<Rightarrow> u32 \<Rightarrow> u32 \<Rightarrow> u32 \<Rightarrow> u32 \<Rightarrow> u32 \<Rightarrow> mavlink \<Rightarrow> packed" where
  "mavlink_msg_attitude_pack system_id component_id msg time_boot_ms roll pitch yaw rollspeed pitchspeed yawspeed s =
     (let packet = le32 time_boot_ms @ le32 roll @ le32 pitch @ le32 yaw
            @ le32 rollspeed @ le32 pitchspeed @ le32 yawspeed
      in mavlink_finalize_message (put_packet packet MAVLINK_MSG_ID_ATTITUDE msg) system_id component_id 28 39 s)"

text \<open>The eight channels are a list.\<close>

definition mavlink_msg_rc_channels_scaled_pack ::
    "u8 \<Rightarrow> u8 \<Rightarrow> mavlink_message \<Rightarrow> u32 \<Rightarrow> u8 \<Rightarrow> u16 list \<Rightarrow> u8 \<Rightarrow> mavlink \<Rightarrow> packed" where
  "mavlink_msg_rc_channels_scaled_pack system_id component_id msg time_boot_ms port chans rssi s =
     (let packet = le32 time_boot_ms @ concat (map le16 chans) @ [port, rssi]
      in mavlink_finalize_message (put_packet packet MAVLINK_MSG_ID_RC_CHANNELS_SCALED msg) system_id component_id 22 237 s)"

definition mavlink_msg_servo_output_raw_pack ::
    "u8 \<Rightarrow> u8 \<Rightarrow> mavlink_message \<Rightarrow> u32 \<Rightarrow> u8 \<Rightarrow> u16 list \<Rightarrow> mavlink \<Rightarrow> packed" where
  "mavlink_msg_servo_output_raw_pack system_id component_id msg time_usec port servos s =
     (let packet = le32 time_usec @ concat (map le16 servos) @ [port]
      in mavlink_finalize_message (put_packet packet MAVLINK_MSG_ID_SERVO_OUTPUT_RAW msg) system_id component_id 21 242 s)"

text \<open>\<open>txt\<close> is the memory at the text; fifty bytes of it are copied, whatever its length.\<close>

definition mavlink_msg_statustext_pack ::
    "u8 \<Rightarrow> u8 \<Rightarrow> mavlink_message \<Rightarrow> u8 \<Rightarrow> u8 list \<Rightarrow> mavlink \<Rightarrow> packed" where
  "mavlink_msg_statustext_pack system_id component_id msg severity txt s =
     (let packet = severity # take 50 txt
      in mavlink_finalize_message (put_packet packet MAVLINK_MSG_ID_STATUSTEXT msg) system_id component_id 51 83 s)"

section \<open>Unpacking\<close>

definition mavlink_msg_command_long_get_command :: "mavlink_message \<Rightarrow> u16" where
  "mavlink_msg_command_long_get_command msg = get16 msg 28"
definition mavlink_msg_command_long_get_param1 :: "mavlink_message \<Rightarrow> u32" where
  "mavlink_msg_command_long_get_param1 msg = get32 msg 0"
definition mavlink_msg_command_long_get_param4 :: "mavlink_message \<Rightarrow> u32" where
  "mavlink_msg_command_long_get_param4 msg = get32 msg 12"

record mavlink_param_set =
  param_value :: u32
  target_system :: u8
  target_component :: u8
  param_id :: "u8 list"
  param_type :: u8

definition mavlink_msg_param_set_decode :: "mavlink_message \<Rightarrow> mavlink_param_set" where
  "mavlink_msg_param_set_decode msg =
     \<lparr>param_value = get32 msg 0, target_system = payload msg ! 4, target_component = payload msg ! 5,
      param_id = take 16 (drop 6 (payload msg)), param_type = payload msg ! 22\<rparr>"

lemmas msg_ids =
  MAVLINK_MSG_ID_HEARTBEAT_def MAVLINK_MSG_ID_PARAM_REQUEST_LIST_def MAVLINK_MSG_ID_PARAM_VALUE_def
  MAVLINK_MSG_ID_PARAM_SET_def MAVLINK_MSG_ID_ATTITUDE_def MAVLINK_MSG_ID_RC_CHANNELS_SCALED_def
  MAVLINK_MSG_ID_SERVO_OUTPUT_RAW_def MAVLINK_MSG_ID_COMMAND_LONG_def MAVLINK_MSG_ID_STATUSTEXT_def

lemmas pack_defs =
  mavlink_msg_heartbeat_pack_def mavlink_msg_param_value_pack_def mavlink_msg_attitude_pack_def
  mavlink_msg_rc_channels_scaled_pack_def mavlink_msg_servo_output_raw_pack_def mavlink_msg_statustext_pack_def

section \<open>Fields come back\<close>

lemma length_le [simp]: "length (le16 h) = 2" "length (le32 w) = 4"
  by (simp_all add: le16_def le32_def)

lemma join16: "ucast (ucast w :: u8) OR push_bit 8 (ucast (ucast (drop_bit 8 w) :: u8)) = (w :: u16)" (is "?l = w")
proof (rule bit_word_eqI)
  fix n assume "n < LENGTH(16)"
  then show "bit ?l n = bit w n" by (cases "n < 8") (auto simp: bit_simps)
qed

lemma join32:
  "ucast (ucast w :: u8) OR push_bit 8 (ucast (ucast (drop_bit 8 w) :: u8))
     OR push_bit 16 (ucast (ucast (drop_bit 16 w) :: u8)) OR push_bit 24 (ucast (ucast (drop_bit 24 w) :: u8)) = (w :: u32)"
  (is "?l = w")
proof (rule bit_word_eqI)
  fix n assume "n < LENGTH(32)"
  then have "n < 8 \<or> 8 \<le> n \<and> n < 16 \<or> 16 \<le> n \<and> n < 24 \<or> 24 \<le> n \<and> n < 32" by auto
  then show "bit ?l n = bit w n" by (elim disjE) (auto simp: bit_simps)
qed

lemma nth_from: "drop i xs = ys @ zs \<Longrightarrow> j < length ys \<Longrightarrow> xs ! (i + j) = ys ! j"
  by (metis drop_all length_greater_0_conv append_is_Nil_conv linorder_le_cases list.size(3) not_less_zero nth_append nth_drop)

lemma get16_le: assumes "drop i (payload msg) = le16 w @ r" shows "get16 msg i = w"
  using nth_from[OF assms, of 0] nth_from[OF assms, of 1] join16[of w]
  by (simp only: get16_def le16_def list.size nth_Cons_0 nth_Cons_Suc One_nat_def add_0_right)

lemma get32_le: assumes "drop i (payload msg) = le32 w @ r" shows "get32 msg i = w"
proof -
  have "payload msg ! i = ucast w" "payload msg ! (i + 1) = ucast (drop_bit 8 w)"
    "payload msg ! (i + 2) = ucast (drop_bit 16 w)" "payload msg ! (i + 3) = ucast (drop_bit 24 w)"
    using nth_from[OF assms, of 0] nth_from[OF assms, of 1] nth_from[OF assms, of 2] nth_from[OF assms, of 3]
    by (simp_all add: le32_def)
  then show ?thesis unfolding get32_def by (simp only: join32)
qed

section \<open>Frames\<close>

text \<open>
  A packed message, sent, is the frame of its fields: what the message held before, and
  the stack garbage in its payload, does not reach the wire.
\<close>

definition tx_seq :: "mavlink \<Rightarrow> u8" where
  "tx_seq s = current_tx_seq (m_mavlink_status s MAVLINK_COMM_0)"

definition bump_tx :: "mavlink \<Rightarrow> mavlink" where
  "bump_tx s = s\<lparr>m_mavlink_status := (m_mavlink_status s)(MAVLINK_COMM_0 :=
     (m_mavlink_status s MAVLINK_COMM_0)\<lparr>current_tx_seq := tx_seq s + 1\<rparr>)\<rparr>"

definition frame_with :: "u8 \<Rightarrow> u8 \<Rightarrow> u8 \<Rightarrow> u8 \<Rightarrow> u8 \<Rightarrow> u8 \<Rightarrow> u8 list \<Rightarrow> u8 list" where
  "frame_with x l sq si ci mi ds = [MAVLINK_STX, l, sq, si, ci, mi] @ ds @ ck_bytes (frame_crc [l, sq, si, ci, mi] x ds)"

lemma frame_with_wire: "frame_with (MAVLINK_MESSAGE_CRC mi) l sq si ci mi ds = wire l sq si ci mi ds"
  by (simp add: frame_with_def wire_def)

lemma pack_frame:
  assumes "mavlink_finalize_message (put_packet packet mid msg) si ci l x s = ((n, msg'), s')"
    and "length packet = unat l" "length (payload msg) = 264"
  shows "mavlink_msg_to_send_buffer msg' = frame_with x l (tx_seq s) si ci mid packet"
    "n = length (mavlink_msg_to_send_buffer msg')" "s' = bump_tx s"
proof -
  let ?m = "put_packet packet mid msg"
  have l: "unat l < 256" using u8_bound[of l] by simp
  have f: "mavlink_finalize_message_chan ?m si ci MAVLINK_COMM_0 l x s = ((n, msg'), s')"
    using assms(1) by (simp add: mavlink_finalize_message_def)
  have p: "unat l + 2 \<le> length (payload ?m)" "take (unat l) (payload ?m) = packet"
    using assms(2,3) l by (simp_all add: put_packet_def)
  note b = mavlink_finalize_bytes[OF f p(1)]
  show w: "mavlink_msg_to_send_buffer msg' = frame_with x l (tx_seq s) si ci mid packet"
    using b(1) p(2) by (simp add: frame_with_def tx_seq_def put_packet_def)
  show "n = length (mavlink_msg_to_send_buffer msg')"
    unfolding b(2) w using assms(2) by (simp add: frame_with_def)
  show "s' = bump_tx s" using b(3,4) by (simp add: bump_tx_def tx_seq_def)
qed

lemma bump_tx_simps [simp]:
  "tx_seq (bump_tx s) = tx_seq s + 1" "m_mavlink_buffer (bump_tx s) = m_mavlink_buffer s"
  "between (m_mavlink_status (bump_tx s) c) = between (m_mavlink_status s c)"
  by (simp_all add: bump_tx_def tx_seq_def between_def)

text \<open>
  The extra checksum bytes in the packers are those of the table the receiver uses, with
  one exception: \<^verbatim>\<open>SERVO_OUTPUT_RAW\<close> is packed with 242 and expected with 222.
\<close>

lemma crc_extras:
  "MAVLINK_MESSAGE_CRC MAVLINK_MSG_ID_HEARTBEAT = 50" "MAVLINK_MESSAGE_CRC MAVLINK_MSG_ID_PARAM_VALUE = 220"
  "MAVLINK_MESSAGE_CRC MAVLINK_MSG_ID_ATTITUDE = 39" "MAVLINK_MESSAGE_CRC MAVLINK_MSG_ID_RC_CHANNELS_SCALED = 237"
  "MAVLINK_MESSAGE_CRC MAVLINK_MSG_ID_STATUSTEXT = 83" "MAVLINK_MESSAGE_CRC MAVLINK_MSG_ID_SERVO_OUTPUT_RAW = 222"
  by (simp_all add: msg_ids MAVLINK_MESSAGE_CRC_def mavlink_message_crcs_def)

text \<open>A receiver between two frames takes a frame with the right extra byte, and only that.\<close>

lemma wire_received:
  assumes "between (m_mavlink_status r ch)" "length ds = unat l" "length (payload (m_mavlink_buffer r ch)) = 264"
  shows "\<exists>m. fst (mavlink_receive ch (wire l sq si ci mi ds) r) = [m] \<and> carries m (sq, si, ci, mi, ds)
    \<and> length (payload m) = 264"
proof -
  have l: "unat l < 256" using u8_bound[of l] by simp
  have p: "unat l + 2 \<le> length (payload (m_mavlink_buffer r ch))" using assms(3) l by simp
  obtain m st where m: "rx_all (wire l sq si ci mi ds) (m_mavlink_buffer r ch, m_mavlink_status r ch) = ([m], m, st)"
    "len m = l" "seq m = sq" "sysid m = si" "compid m = ci" "msgid m = mi"
    "payload m = ds @ ck_bytes (frame_crc [l, sq, si, ci, mi] (MAVLINK_MESSAGE_CRC mi) ds)
      @ drop (unat l + 2) (payload (m_mavlink_buffer r ch))"
    using rx_frame[OF assms(1,2) p refl, of sq si ci mi] unfolding wire_def by blast
  then show ?thesis
    using mavlink_receive_rx[of ch "wire l sq si ci mi ds" r] assms(2,3) l
    by (simp add: chan_state_def carries_def)
qed

lemma frame_with_dropped:
  assumes "between (m_mavlink_status r ch)" "length ds = unat l" "length (payload (m_mavlink_buffer r ch)) = 264"
    and "x \<noteq> MAVLINK_MESSAGE_CRC mi"
  shows "fst (mavlink_receive ch (frame_with x l sq si ci mi ds) r) = []"
proof -
  have "unat l < 256" using u8_bound[of l] by simp
  then have p: "unat l + 2 \<le> length (payload (m_mavlink_buffer r ch))" using assms(3) by simp
  have "frame_crc [l, sq, si, ci, mi] x ds \<noteq> frame_crc [l, sq, si, ci, mi] (MAVLINK_MESSAGE_CRC mi) ds"
    using assms(4) crc_accumulate_inj_data by (auto simp: frame_crc_def)
  then have "ck_bytes (frame_crc [l, sq, si, ci, mi] x ds) \<noteq> ck_bytes (frame_crc [l, sq, si, ci, mi] (MAVLINK_MESSAGE_CRC mi) ds)"
    using ck_bytes_inj by blast
  then have "fst (rx_all (frame_with x l sq si ci mi ds) (m_mavlink_buffer r ch, m_mavlink_status r ch)) = []"
    using rx_frame_bad[OF assms(1,2) p] unfolding frame_with_def ck_bytes_def by blast
  then show ?thesis using mavlink_receive_rx[of ch _ r] by (simp add: chan_state_def)
qed

end
