(* ===== verification/FloatBits.thy ===== *)
theory FloatBits
  imports Floats
begin

text \<open>
  The 32-bit pattern of a \<^verbatim>\<open>float\<close>: sign, eight bits of exponent, 23 bits of fraction.
  The messages and the parameter store carry floats as patterns; the controllers compute
  with their values.
\<close>

unbundle bit_operations_syntax

definition fraction :: "u32 \<Rightarrow> int" where "fraction w = uint w mod 2 ^ 23"
definition exponent :: "u32 \<Rightarrow> int" where "exponent w = uint w div 2 ^ 23 mod 2 ^ 8"
definition negative :: "u32 \<Rightarrow> bool" where "negative w \<longleftrightarrow> 2 ^ 31 \<le> uint w"

definition float_value :: "u32 \<Rightarrow> float32" where
  "float_value w = F32
     (if exponent w = 255 then (if fraction w = 0 then Infty (negative w) else NaN)
      else (let x = (if exponent w = 0 then of_int (fraction w) * 2 powi (- 149)
                     else of_int (2 ^ 23 + fraction w) * 2 powi (exponent w - 150))
            in Fin (if negative w then - x else x)))"

text \<open>
  The pattern of a value. The exponent of a small number is that of the smallest normal
  one, and the leading bit of the significand carries into the exponent field otherwise.
\<close>

definition pattern_exp :: "rat \<Rightarrow> int" where
  "pattern_exp r = max (flog2 \<bar>r\<bar>) (- 126)"

fun flt_pattern :: "flt \<Rightarrow> int" where
  "flt_pattern (Fin r) =
     (if r = 0 then 0
      else (if r < 0 then 2 ^ 31 else 0) + (pattern_exp r + 126) * 2 ^ 23
        + \<lfloor>\<bar>r\<bar> / 2 powi (pattern_exp r - 23)\<rfloor>)"
| "flt_pattern (Infty s) = (if s then 0xFF800000 else 0x7F800000)"
| "flt_pattern NaN = 0x7FC00000"

definition float_pattern :: "float32 \<Rightarrow> u32" where
  "float_pattern x = word_of_int (flt_pattern (flt32 x))"

section \<open>A representable value survives\<close>

lemma pattern_fields:
  assumes "uint w = (if s then 2 ^ 31 else 0) + e * 2 ^ 23 + m" "0 \<le> e" "e < 256" "0 \<le> m" "m < 2 ^ 23"
  shows "fraction w = m" "exponent w = e" "negative w = s"
proof -
  have u: "uint w = m + 2 ^ 23 * ((if s then 256 else 0) + e)" using assms(1) by simp
  show "fraction w = m" unfolding fraction_def u mod_mult_self2 using assms(4,5) by simp
  have "(e * 2 ^ 23 + m) div 2 ^ 23 = e" "(2 ^ 31 + (e * 2 ^ 23 + m)) div 2 ^ 23 = 256 + e" using assms(4,5) by auto
  then show "exponent w = e" unfolding exponent_def assms(1) using assms(2,3) by (cases s) (simp_all add: add.assoc)
  show "negative w = s" unfolding negative_def assms(1) using assms(2-5) by (cases s) simp_all
qed

lemma pattern_value:
  assumes "uint w = (if s then 2 ^ 31 else 0) + (k + 126) * 2 ^ 23 + M" "- 126 \<le> k" "k \<le> 127"
    "0 \<le> M" "M < 2 ^ 24" "k = - 126 \<or> 2 ^ 23 \<le> M"
  shows "flt32 (float_value w) = Fin ((if s then - 1 else 1) * (of_int M * 2 powi (k - 23)))"
proof (cases "M < 2 ^ 23")
  case True
  then have k: "k = - 126" using assms(6) by simp
  have "uint w = (if s then 2 ^ 31 else 0) + 0 * 2 ^ 23 + M" using assms(1) k by simp
  note f = pattern_fields[OF this _ _ assms(4) True]
  show ?thesis using f by (simp add: float_value_def k)
next
  case False
  have "uint w = (if s then 2 ^ 31 else 0) + (k + 127) * 2 ^ 23 + (M - 2 ^ 23)"
    using assms(1) by (simp add: algebra_simps)
  note f = pattern_fields[OF this]
  have "fraction w = M - 2 ^ 23" "exponent w = k + 127" "negative w = s"
    using f assms(2-5) False by simp_all
  then show ?thesis using assms(2,3) by (simp add: float_value_def)
qed

lemma rep32_grid:
  assumes "rep32 r" "r \<noteq> 0"
  shows "\<exists>M. \<bar>r\<bar> = of_int M * 2 powi (pattern_exp r - 23) \<and> 0 \<le> M \<and> M < 2 ^ 24
    \<and> (pattern_exp r = - 126 \<or> 2 ^ 23 \<le> M) \<and> pattern_exp r \<le> 127"
proof -
  let ?k = "pattern_exp r"
  let ?M = "rne (\<bar>r\<bar> / 2 powi (?k - 23))"
  have lp: "last_place 24 (- 149) r = ?k - 23" by (simp add: last_place_def pattern_exp_def)
  have "round32 \<bar>r\<bar> = Fin \<bar>r\<bar>"
    using assms(1) round32_neg[of r r] by (cases "0 \<le> r") (simp_all add: rep32_def abs_if)
  then have e: "\<bar>r\<bar> = of_int ?M * 2 powi (?k - 23)" and b: "\<bar>r\<bar> < 2 ^ 128"
    using assms(2) lp by (auto simp: round32_def round_flt_def round_to_def Let_def last_place_def split: if_splits)
  have "0 < \<bar>r\<bar>" using assms(2) by simp
  note fb = flog2_bounds[OF this]
  have "\<bar>r\<bar> < 2 powi (?k + 1)"
  proof -
    have "(2::rat) powi (flog2 \<bar>r\<bar> + 1) \<le> 2 powi (?k + 1)"
      by (rule power_int_increasing) (simp_all add: pattern_exp_def)
    then show ?thesis using fb(2) by simp
  qed
  also have "(2::rat) powi (?k + 1) = of_int (2 ^ 24) * 2 powi (?k - 23)"
    using power_int_add[of "2::rat" 24 "?k - 23"] by (simp add: algebra_simps)
  finally have "rat_of_int ?M * 2 powi (?k - 23) < of_int (2 ^ 24) * 2 powi (?k - 23)" using e by simp
  then have M24: "?M < 2 ^ 24" by (simp only: mult_less_cancel_right_pos zero_less_power_int zero_less_numeral of_int_less_iff)
  have "0 \<le> ?M" using rne_ge[of 0 "\<bar>r\<bar> / 2 powi (?k - 23)"] by simp
  moreover have "2 ^ 23 \<le> ?M" if "?k \<noteq> - 126"
  proof -
    have "?k = flog2 \<bar>r\<bar>" using that by (simp add: pattern_exp_def max_def split: if_splits)
    then have "2 powi ?k \<le> \<bar>r\<bar>" using fb(1) by simp
    also have "(2::rat) powi ?k = of_int (2 ^ 23) * 2 powi (?k - 23)"
      using power_int_add[of "2::rat" 23 "?k - 23"] by simp
    finally have "rat_of_int (2 ^ 23) * 2 powi (?k - 23) \<le> of_int ?M * 2 powi (?k - 23)" using e by simp
    then show ?thesis by (simp only: mult_le_cancel_right_pos zero_less_power_int zero_less_numeral of_int_le_iff)
  qed
  moreover have "?k \<le> 127"
  proof -
    have "(2::rat) ^ 128 = 2 powi (127 + 1)" by simp
    then have "flog2 \<bar>r\<bar> \<le> 127" using b assms(2) by (intro flog2_le) simp_all
    then show ?thesis by (simp add: pattern_exp_def)
  qed
  ultimately show ?thesis using e M24 by blast
qed

lemma uint_u32: "\<lbrakk>0 \<le> n; n < 2 ^ 32\<rbrakk> \<Longrightarrow> uint (word_of_int n :: u32) = n"
  by (simp add: unsigned_of_int take_bit_int_eq_self)

lemma float_pattern_value:
  assumes "rep32 r" shows "float_value (float_pattern (F32 (Fin r))) = F32 (Fin r)"
proof (cases "r = 0")
  case True
  then show ?thesis by (simp add: float_pattern_def float_value_def fraction_def exponent_def negative_def)
next
  case False
  let ?k = "pattern_exp r"
  obtain M where M: "\<bar>r\<bar> = of_int M * 2 powi (?k - 23)" "0 \<le> M" "M < 2 ^ 24" "?k = - 126 \<or> 2 ^ 23 \<le> M" "?k \<le> 127"
    using rep32_grid[OF assms False] by blast
  have k: "- 126 \<le> ?k" by (simp add: pattern_exp_def)
  have "\<lfloor>\<bar>r\<bar> / 2 powi (?k - 23)\<rfloor> = M" by (simp add: M(1))
  then have p: "flt_pattern (Fin r) = (if r < 0 then 2 ^ 31 else 0) + (?k + 126) * 2 ^ 23 + M" (is "_ = ?p")
    using False by simp
  have "0 \<le> ?p" "?p < 2 ^ 32" using M k by simp_all
  then have "uint (float_pattern (F32 (Fin r))) = ?p"
    unfolding float_pattern_def float32.sel p by (rule uint_u32)
  from pattern_value[OF this k M(5,2,3,4)]
  have "flt32 (float_value (float_pattern (F32 (Fin r)))) = Fin ((if r < 0 then - 1 else 1) * \<bar>r\<bar>)" using M(1) by simp
  then show ?thesis by (cases "r < 0") (simp_all add: float32.expand)
qed

text \<open>The two patterns a command parameter is compared with.\<close>

lemma float_value_1: "float_value 0x3F800000 = F32 (Fin 1)"
  and float_value_0: "float_value 0 = F32 (Fin 0)"
  by (simp_all add: float_value_def fraction_def exponent_def negative_def)

end
