(* ===== verification/Gcs.thy ===== *)
theory Gcs
  imports Wire Remote Motors FloatBits
begin

text \<open>
  The ground station link, \<^verbatim>\<open>Quad/GCS.cpp\<close>: the table of parameters, its transmission and
  its storage, the telemetry messages and the thread that handles what arrives. A
  parameter is the 32-bit pattern of its \<^verbatim>\<open>float\<close>; \<open>float_value\<close> is the value the
  controllers compute with.

  A function that sends returns the bytes it hands to \<^verbatim>\<open>sdWrite\<close>. \<open>junk\<close> is what the
  uninitialised \<^verbatim>\<open>mavlink_message_t\<close> on the stack holds. The variables \<^verbatim>\<open>debug_cmd\<close> and
  \<^verbatim>\<open>debug_param\<close>, which nothing reads, are left out.
\<close>

unbundle bit_operations_syntax

section \<open>State\<close>

definition ONBOARD_PARAM_COUNT :: nat where "ONBOARD_PARAM_COUNT = 42"
definition ONBOARD_PARAM_NAME_LENGTH :: nat where "ONBOARD_PARAM_NAME_LENGTH = 15"

record gcs =
  params :: "u32 list"          \<comment> \<open>\<^verbatim>\<open>global_data.param\<close>\<close>
  param_name :: "u8 list list"
  m_parameter_i :: u16
  new_sd_log :: bool              \<comment> \<open>\<^verbatim>\<open>request_new_sd_log\<close>\<close>
  system_sysid :: u8
  system_compid :: u8
  link :: mavlink                 \<comment> \<open>the channels of the MAVLink library\<close>

section \<open>Defaults\<close>

definition param_defaults :: "(string \<times> rat) list" where
  "param_defaults =
     [(''N_pid_pa'', 1800), (''N_pid_da'', 20000), (''N_pid_ia_dyn'', 1 / 100),
      (''N_pid_ia_gain'', 50), (''N_pid_gain'', 11 / 10), (''N_kas_pa'', 1),
      (''N_kas_da'', 20), (''N_kas_ia_dyn'', 2 / 10), (''N_kas_ia_gain'', 1 / 10),
      (''N_kas_pi'', 300), (''N_kas_ii_dyn'', 1), (''N_kas_ii_gain'', 2 / 10),
      (''N_kas_gain'', 0), (''N_sw_kas'', 0),
      (''R_pid_pa'', 1800), (''R_pid_da'', 20000), (''R_pid_ia_dyn'', 1 / 100),
      (''R_pid_ia_gain'', 50), (''R_pid_gain'', 11 / 10), (''R_kas_pa'', 1),
      (''R_kas_da'', 20), (''R_kas_ia_dyn'', 2 / 10), (''R_kas_ia_gain'', 1 / 10),
      (''R_kas_pi'', 300), (''R_kas_ii_dyn'', 1), (''R_kas_ii_gain'', 2 / 10),
      (''R_kas_gain'', 0), (''R_sw_kas'', 0),
      (''Y_pid_pa'', 800), (''Y_pid_da'', 2200), (''Y_pid_ia_dyn'', 0),
      (''Y_pid_ia_gain'', 0), (''Y_pid_gain'', 1), (''Y_kas_pa'', 1),
      (''Y_kas_da'', 20), (''Y_kas_ia_dyn'', 2 / 10), (''Y_kas_ia_gain'', 1 / 10),
      (''Y_kas_pi'', 300), (''Y_kas_ii_dyn'', 1), (''Y_kas_ii_gain'', 2 / 10),
      (''Y_kas_gain'', 0), (''Y_sw_kas'', 0)]"

text \<open>A literal, a \<^verbatim>\<open>double\<close> or an \<^verbatim>\<open>int\<close>, assigned to a \<^verbatim>\<open>float\<close>.\<close>

definition float_literal :: "rat \<Rightarrow> float32" where
  "float_literal x = float_of (f64 x)"

definition strcpy :: "u8 list \<Rightarrow> string \<Rightarrow> u8 list" where
  "strcpy dst src = map of_char src @ [0] @ drop (length src + 1) dst"

definition global_data_reset_param_defaults :: "gcs \<Rightarrow> gcs" where
  "global_data_reset_param_defaults g =
     g\<lparr>params := map (\<lambda>(name, v). float_pattern (float_literal v)) param_defaults,
       param_name := map2 (\<lambda>(name, v) dst. strcpy dst name) param_defaults (param_name g)\<rparr>"

definition MAV_COMP_ID_ALL :: u8 where "MAV_COMP_ID_ALL = 0"

text \<open>\<^verbatim>\<open>setup_Mavlink\<close>, without the serial driver and the threads it starts.\<close>

definition setup_Mavlink :: "gcs \<Rightarrow> gcs" where
  "setup_Mavlink g = (global_data_reset_param_defaults g)\<lparr>system_sysid := 1, system_compid := MAV_COMP_ID_ALL\<rparr>"

text \<open>The globals as the C start-up leaves them.\<close>

definition gcs_start :: gcs where
  "gcs_start = \<lparr>params = replicate 42 0, param_name = replicate 42 (replicate 16 0), m_parameter_i = 0,
     new_sd_log = False, system_sysid = 0, system_compid = 0, link = idle_link\<rparr>"

section \<open>Storage\<close>

definition offset_flash_parameter :: nat where "offset_flash_parameter = 13"
definition number_flash_parameter :: nat where "number_flash_parameter = 42"

text \<open>
  \<open>l i\<close> and \<open>h i\<close> are what the two uninitialised locals of the \<open>i\<close>-th \<^verbatim>\<open>EE_read_Float\<close> hold.
\<close>

definition read_param_from_eeprom :: "(nat \<Rightarrow> u16) \<Rightarrow> (nat \<Rightarrow> u16) \<Rightarrow> flash \<Rightarrow> gcs \<Rightarrow> gcs" where
  "read_param_from_eeprom l h f g =
     fold (\<lambda>i g. g\<lparr>params := (params g)[i := EE_read_Float (l i) (h i)
         (VirtAddVarTab ! (i + offset_flash_parameter)) (VirtAddVarTab ! (i + offset_flash_parameter) + 1) f]\<rparr>)
       [0..<number_flash_parameter] g"

definition write_param_to_eeprom :: "controller \<Rightarrow> gcs \<Rightarrow> u16 \<times> flash \<Rightarrow> u16 \<times> flash" where
  "write_param_to_eeprom c g ds =
     fold (\<lambda>i ds. snd (EE_write_Float c
         (VirtAddVarTab ! (i + offset_flash_parameter)) (VirtAddVarTab ! (i + offset_flash_parameter) + 1) (params g ! i) ds))
       [0..<number_flash_parameter] ds"

section \<open>Telemetry\<close>

definition transmit :: "packed \<Rightarrow> gcs \<Rightarrow> u8 list \<times> gcs" where
  "transmit p g = (case p of ((n, msg), l) \<Rightarrow> (mavlink_msg_to_send_buffer msg, g\<lparr>link := l\<rparr>))"

definition MAVLINK_TYPE_FLOAT :: u8 where "MAVLINK_TYPE_FLOAT = 9"

definition communication_queued_send :: "mavlink_message \<Rightarrow> gcs \<Rightarrow> u8 list \<times> gcs" where
  "communication_queued_send junk g =
     (if unat (m_parameter_i g) < ONBOARD_PARAM_COUNT then
        (let i = m_parameter_i g;
             (out, g) = transmit (mavlink_msg_param_value_pack (system_sysid g) (system_compid g) junk
               (param_name g ! unat i) (params g ! unat i) MAVLINK_TYPE_FLOAT
               (word_of_nat ONBOARD_PARAM_COUNT) i (link g)) g
         in (out, g\<lparr>m_parameter_i := i + 1\<rparr>))
      else ([], g))"

definition MAV_TYPE_QUADROTOR :: u8 where "MAV_TYPE_QUADROTOR = 2"
definition MAV_AUTOPILOT_GENERIC :: u8 where "MAV_AUTOPILOT_GENERIC = 0"
definition MAV_MODE_PREFLIGHT :: u8 where "MAV_MODE_PREFLIGHT = 0"
definition MAV_STATE_ACTIVE :: u8 where "MAV_STATE_ACTIVE = 4"

definition send_heartbeat :: "mavlink_message \<Rightarrow> gcs \<Rightarrow> u8 list \<times> gcs" where
  "send_heartbeat junk g =
     transmit (mavlink_msg_heartbeat_pack (system_sysid g) (system_compid g) junk MAV_TYPE_QUADROTOR
       MAV_AUTOPILOT_GENERIC MAV_MODE_PREFLIGHT 0 MAV_STATE_ACTIVE (link g)) g"

text \<open>The attitude, as the patterns the getters of \<^verbatim>\<open>Lage.cpp\<close> return.\<close>

definition send_attitude ::
    "mavlink_message \<Rightarrow> u32 \<Rightarrow> u32 \<Rightarrow> u32 \<Rightarrow> u32 \<Rightarrow> u32 \<Rightarrow> u32 \<Rightarrow> u32 \<Rightarrow> gcs \<Rightarrow> u8 list \<times> gcs" where
  "send_attitude junk time_boot_ms roll pitch yaw rollspeed pitchspeed yawspeed g =
     transmit (mavlink_msg_attitude_pack (system_sysid g) (system_compid g) junk time_boot_ms
       roll pitch yaw rollspeed pitchspeed yawspeed (link g)) g"

definition send_rc_channels_scaled :: "mavlink_message \<Rightarrow> u32 \<Rightarrow> fernsteuerung \<Rightarrow> gcs \<Rightarrow> u8 list \<times> gcs" where
  "send_rc_channels_scaled junk time_boot_ms r g =
     transmit (mavlink_msg_rc_channels_scaled_pack (system_sysid g) (system_compid g) junk time_boot_ms 0
       [get_chan1_scaled r, get_chan2_scaled r, get_chan3_scaled r, get_chan4_scaled r, 32767, 32767, 32767, 32767]
       255 (link g)) g"

definition send_servo_output_raw :: "mavlink_message \<Rightarrow> u32 \<Rightarrow> motoren \<Rightarrow> gcs \<Rightarrow> u8 list \<times> gcs" where
  "send_servo_output_raw junk time_boot_ms m g =
     transmit (mavlink_msg_servo_output_raw_pack (system_sysid g) (system_compid g) junk time_boot_ms 0
       [getMotor_1 m, getMotor_2 m, getMotor_3 m, getMotor_4 m, 0, 0, 0, 0] (link g)) g"

definition send_statustext :: "mavlink_message \<Rightarrow> u8 \<Rightarrow> u8 list \<Rightarrow> gcs \<Rightarrow> u8 list \<times> gcs" where
  "send_statustext junk severity txt g =
     transmit (mavlink_msg_statustext_pack (system_sysid g) (system_compid g) junk severity txt (link g)) g"

section \<open>What arrives\<close>

definition MAV_CMD_PREFLIGHT_CALIBRATION :: u16 where "MAV_CMD_PREFLIGHT_CALIBRATION = 241"
definition MAV_CMD_PREFLIGHT_STORAGE :: u16 where "MAV_CMD_PREFLIGHT_STORAGE = 245"

type_synonym board = "gcs \<times> fernsteuerung \<times> u16 \<times> flash"

text \<open>A float parameter compared with an integer.\<close>

definition param_is :: "u32 \<Rightarrow> rat \<Rightarrow> bool" where
  "param_is w x \<longleftrightarrow> flt_eq (flt32 (float_value w)) (flt32 (f32 x))"

text \<open>What the code relies on outside itself: the flash controller and the stack.\<close>

record surroundings =
  flash_controller :: controller
  stack_message :: "nat \<Rightarrow> mavlink_message"
  stack_low :: "nat \<Rightarrow> u16"
  stack_high :: "nat \<Rightarrow> u16"

definition handle_command_long :: "surroundings \<Rightarrow> mavlink_message \<Rightarrow> board \<Rightarrow> board" where
  "handle_command_long e msg b = (case b of (g, r, ds) \<Rightarrow>
     let (r, ds) =
       (if mavlink_msg_command_long_get_command msg = MAV_CMD_PREFLIGHT_CALIBRATION then
          (if param_is (mavlink_msg_command_long_get_param4 msg) 1 then (start_calib r, ds)
           else if param_is (mavlink_msg_command_long_get_param4 msg) 0 then stop_calib (flash_controller e) (r, ds)
           else (r, ds))
        else (r, ds));
       (g, ds) =
       (if mavlink_msg_command_long_get_command msg = MAV_CMD_PREFLIGHT_STORAGE then
          (if param_is (mavlink_msg_command_long_get_param1 msg) 0
           then (read_param_from_eeprom (stack_low e) (stack_high e) (snd ds) g, ds)
           else if param_is (mavlink_msg_command_long_get_param1 msg) 1
           then (g, write_param_to_eeprom (flash_controller e) g ds)
           else (g, ds))
        else (g, ds))
     in (g, r, ds))"

definition name_match :: "u8 list \<Rightarrow> u8 list \<Rightarrow> bool" where
  "name_match key name = fold (\<lambda>j match. if name ! j \<noteq> key ! j then False else match)
     [0..<ONBOARD_PARAM_NAME_LENGTH] True"

definition param_set_step :: "surroundings \<Rightarrow> mavlink_param_set \<Rightarrow> nat \<Rightarrow> u8 list \<times> gcs \<Rightarrow> u8 list \<times> gcs" where
  "param_set_step e s i og = (case og of (out, g) \<Rightarrow>
     if name_match (param_id s) (param_name g ! i) then
       (let g = g\<lparr>params := (params g)[i := param_value s]\<rparr>;
            (bytes, g) = transmit (mavlink_msg_param_value_pack (system_sysid g) (system_compid g) (stack_message e i)
              (param_name g ! i) (params g ! i) MAVLINK_TYPE_FLOAT (word_of_nat ONBOARD_PARAM_COUNT)
              (m_parameter_i g) (link g)) g
        in (out @ bytes, g\<lparr>new_sd_log := True\<rparr>))
     else (out, g))"

definition handle_param_set :: "surroundings \<Rightarrow> mavlink_message \<Rightarrow> gcs \<Rightarrow> u8 list \<times> gcs" where
  "handle_param_set e msg g =
     fold (param_set_step e (mavlink_msg_param_set_decode msg)) [0..<ONBOARD_PARAM_COUNT] ([], g)"

definition handle_message :: "surroundings \<Rightarrow> mavlink_message \<Rightarrow> board \<Rightarrow> u8 list \<times> board" where
  "handle_message e msg b =
     (if msgid msg = MAVLINK_MSG_ID_HEARTBEAT then ([], b)
      else if msgid msg = MAVLINK_MSG_ID_COMMAND_LONG then ([], handle_command_long e msg b)
      else if msgid msg = MAVLINK_MSG_ID_PARAM_REQUEST_LIST then ([], (fst b)\<lparr>m_parameter_i := 0\<rparr>, snd b)
      else if msgid msg = MAVLINK_MSG_ID_PARAM_SET then
        (case handle_param_set e msg (fst b) of (out, g) \<Rightarrow> (out, g, snd b))
      else ([], b))"

text \<open>\<^verbatim>\<open>ThreadRadio\<close>, from a byte read on.\<close>

definition radio_byte :: "surroundings \<Rightarrow> u8 \<Rightarrow> board \<Rightarrow> u8 list \<times> board" where
  "radio_byte e c b = (case b of (g, r, ds) \<Rightarrow>
     case mavlink_parse_char MAVLINK_COMM_0 c (link g) of ((received, _), l) \<Rightarrow>
       (let b = (g\<lparr>link := l\<rparr>, r, ds)
        in case received of None \<Rightarrow> ([], b) | Some msg \<Rightarrow> handle_message e msg b))"

fun radio_bytes :: "surroundings \<Rightarrow> u8 list \<Rightarrow> board \<Rightarrow> u8 list \<times> board" where
  "radio_bytes e [] b = ([], b)"
| "radio_bytes e (c # cs) b = (case radio_byte e c b of (out, b) \<Rightarrow>
     case radio_bytes e cs b of (out', b) \<Rightarrow> (out @ out', b))"

section \<open>The table\<close>

definition param_names :: "u8 list list" where
  "param_names = map (\<lambda>(name, v). strcpy (replicate 16 0) name) param_defaults"

lemma param_names_table:
  "length param_names = 42" "\<forall>n \<in> set param_names. length n = 16" "distinct (map (take 15) param_names)"
  by code_simp+

lemma name_match_take:
  assumes "15 \<le> length key" "15 \<le> length name"
  shows "name_match key name \<longleftrightarrow> take 15 key = take 15 name"
proof -
  have f: "fold (\<lambda>j match. if name ! j \<noteq> key ! j then False else match) js b
      \<longleftrightarrow> b \<and> (\<forall>j \<in> set js. name ! j = key ! j)" for js b
    by (induction js arbitrary: b) auto
  have "(\<forall>j < 15. name ! j = key ! j) \<longleftrightarrow> take 15 key = take 15 name"
    using assms by (auto simp: list_eq_iff_nth_eq)
  then show ?thesis unfolding name_match_def f by (auto simp: ONBOARD_PARAM_NAME_LENGTH_def)
qed

definition link_ok :: "mavlink \<Rightarrow> bool" where
  "link_ok l \<longleftrightarrow> between (m_mavlink_status l MAVLINK_COMM_0)
     \<and> length (payload (m_mavlink_buffer l MAVLINK_COMM_0)) = 264"

definition gcs_ok :: "gcs \<Rightarrow> bool" where
  "gcs_ok g \<longleftrightarrow> length (params g) = 42 \<and> param_name g = param_names \<and> link_ok (link g)"

definition surroundings_ok :: "surroundings \<Rightarrow> bool" where
  "surroundings_ok e \<longleftrightarrow> (\<forall>i. length (payload (stack_message e i)) = 264)"

lemma length_defaults: "length param_defaults = 42"
  by (simp add: param_defaults_def)

text \<open>A stack of zeros.\<close>

definition calm_surroundings :: "controller \<Rightarrow> surroundings" where
  "calm_surroundings c = \<lparr>flash_controller = c, stack_message = (\<lambda>_. blank_message),
     stack_low = (\<lambda>_. 0), stack_high = (\<lambda>_. 0)\<rparr>"

lemma calm_surroundings_ok: "surroundings_ok (calm_surroundings c)"
  by (simp add: surroundings_ok_def calm_surroundings_def)

lemma setup_Mavlink_ok: "gcs_ok (setup_Mavlink gcs_start)"
proof -
  have "map2 (\<lambda>(name, v) dst. strcpy dst name) param_defaults (replicate 42 (replicate 16 0)) = param_names"
    by (rule nth_equalityI) (simp_all add: param_names_def length_defaults split: prod.split)
  then show ?thesis
    by (simp add: gcs_ok_def length_defaults setup_Mavlink_def global_data_reset_param_defaults_def gcs_start_def link_ok_def
        MAVLINK_COMM_0_def idle_link_def)
qed

lemma link_bump [simp]: "link_ok (bump_tx l) = link_ok l"
  by (simp add: link_ok_def)

section \<open>A frame reaches its handler\<close>

lemma radio_bytes_silent:
  assumes "fst (mavlink_receive MAVLINK_COMM_0 cs (link g)) = []"
  shows "radio_bytes e cs (g, rd) = ([], g\<lparr>link := snd (mavlink_receive MAVLINK_COMM_0 cs (link g))\<rparr>, rd)"
  using assms
proof (induction cs arbitrary: g)
  case (Cons c cs)
  obtain r x l where p: "mavlink_parse_char MAVLINK_COMM_0 c (link g) = ((r, x), l)" by (metis surj_pair)
  have r: "r = None" "fst (mavlink_receive MAVLINK_COMM_0 cs l) = []"
    using Cons.prems p by (auto split: prod.splits option.splits)
  have "radio_bytes e cs (g\<lparr>link := l\<rparr>, rd)
      = ([], g\<lparr>link := snd (mavlink_receive MAVLINK_COMM_0 cs l)\<rparr>, rd)"
    using Cons.IH[of "g\<lparr>link := l\<rparr>"] r(2) by simp
  then show ?case using p r by (cases rd) (simp add: radio_byte_def split: prod.split)
qed simp

lemma radio_bytes_append:
  "radio_bytes e (a @ b) s =
     (case radio_bytes e a s of (o1, s1) \<Rightarrow> case radio_bytes e b s1 of (o2, s2) \<Rightarrow> (o1 @ o2, s2))"
  by (induction a arbitrary: s) (auto split: prod.split)

lemma rx_frame_butlast:
  assumes "between st" "length ds = unat l" "unat l + 2 \<le> length (payload m)"
  shows "fst (rx_all (butlast (wire l sq si ci mi ds)) (m, st)) = []"
proof -
  let ?k = "frame_crc [l, sq, si, ci, mi] (MAVLINK_MESSAGE_CRC mi) ds"
  let ?hd = "[MAVLINK_STX, l, sq, si, ci, mi] @ ds"
  have b: "butlast (wire l sq si ci mi ds) = ?hd @ [ucast (?k AND 0xFF)]"
    by (simp add: wire_def ck_bytes_def butlast_append)
  have "fst (rx_all [a] (m', st')) = []"
    if "parse_state st' = MAVLINK_PARSE_STATE_GOT_PAYLOAD" for m' st' a
    using that by (simp add: rx_step crc_mismatch_def split: prod.split)
  then show ?thesis
    unfolding b rx_all_append[of ?hd "[ucast (?k AND 0xFF)]"] rx_body[OF assms] by (simp split: prod.split)
qed

lemma radio_frame:
  assumes "link_ok (link g)" "length ds = unat l"
  shows "\<exists>m lk. radio_bytes e (wire l sq si ci mi ds) (g, rd) = handle_message e m (g\<lparr>link := lk\<rparr>, rd)
    \<and> carries m (sq, si, ci, mi, ds) \<and> length (payload m) = 264 \<and> link_ok lk \<and> tx_seq lk = tx_seq (link g)"
proof -
  let ?w = "wire l sq si ci mi ds" and ?c = MAVLINK_COMM_0
  have l: "unat l < 256" using u8_bound[of l] by simp
  have b: "between (m_mavlink_status (link g) ?c)" and p: "unat l + 2 \<le> length (payload (m_mavlink_buffer (link g) ?c))"
    and p4: "length (payload (m_mavlink_buffer (link g) ?c)) = 264"
    using assms(1) l by (simp_all add: link_ok_def)
  have "?w \<noteq> []" by (simp add: wire_def)
  then have w: "?w = butlast ?w @ [last ?w]" by simp
  define l1 where "l1 = snd (mavlink_receive ?c (butlast ?w) (link g))"
  have quiet: "fst (mavlink_receive ?c (butlast ?w) (link g)) = []"
    using rx_frame_butlast[OF b assms(2) p] mavlink_receive_rx by (simp add: chan_state_def)
  have c1: "rx_all (butlast ?w) (chan_state ?c (link g)) = ([], chan_state ?c l1)"
    using quiet mavlink_receive_rx[of ?c "butlast ?w" "link g"] by (simp add: l1_def prod_eq_iff)
  obtain m st where f: "rx_all ?w (chan_state ?c (link g)) = ([m], m, st)" "between st"
    "current_tx_seq st = current_tx_seq (m_mavlink_status (link g) ?c)" "carries m (sq, si, ci, mi, ds)"
    "length (payload m) = 264"
    using rx_frame[OF b assms(2) p refl, of sq si ci mi] p4 assms(2) l
    unfolding wire_def chan_state_def carries_def by auto
  have "rx_all [last ?w] (chan_state ?c l1) = ([m], m, st)"
    using f(1) unfolding rx_all_append[of "butlast ?w" "[last ?w]", folded w] c1 by (simp split: prod.splits)
  then have r: "rx (last ?w) (chan_state ?c l1) = (Some m, m, st)" by (auto split: prod.splits option.splits)
  obtain x y lk where pc: "mavlink_parse_char ?c (last ?w) l1 = ((x, y), lk)" by (metis surj_pair)
  have lk: "x = Some m" "chan_state ?c lk = (m, st)"
    using mavlink_parse_char_rx[of ?c "last ?w" l1] r pc by simp_all
  have "radio_bytes e ?w (g, rd) = handle_message e m (g\<lparr>link := lk\<rparr>, rd)"
    unfolding radio_bytes_append[of e "butlast ?w" "[last ?w]", folded w] radio_bytes_silent[OF quiet]
    using pc lk(1) by (cases rd) (simp add: radio_byte_def l1_def[symmetric] split: prod.split)
  moreover have "link_ok lk" "tx_seq lk = tx_seq (link g)"
    using lk(2) f by (simp_all add: link_ok_def tx_seq_def chan_state_def)
  ultimately show ?thesis using f by blast
qed
section \<open>Sending\<close>

lemma transmit_frame:
  assumes "length packet = unat n" "length (payload junk) = 264"
  shows "transmit (mavlink_finalize_message (put_packet packet mid junk) si ci n x (link g)) g
    = (frame_with x n (tx_seq (link g)) si ci mid packet, g\<lparr>link := bump_tx (link g)\<rparr>)"
proof -
  obtain k msg' l where f: "mavlink_finalize_message (put_packet packet mid junk) si ci n x (link g) = ((k, msg'), l)"
    by (metis surj_pair)
  show ?thesis using pack_frame[OF f assms] by (simp add: transmit_def f)
qed

text \<open>The frame that carries parameter \<open>i\<close> with the given index field.\<close>

definition param_frame :: "nat \<Rightarrow> u16 \<Rightarrow> gcs \<Rightarrow> u8 list" where
  "param_frame i ix g = wire 25 (tx_seq (link g)) (system_sysid g) (system_compid g) MAVLINK_MSG_ID_PARAM_VALUE
     (le32 (params g ! i) @ le16 42 @ le16 ix @ param_name g ! i @ [9])"

lemma param_value_sent:
  assumes "length (param_name g ! i) = 16" "length (payload junk) = 264"
  shows "transmit (mavlink_msg_param_value_pack (system_sysid g) (system_compid g) junk (param_name g ! i)
       (params g ! i) MAVLINK_TYPE_FLOAT (word_of_nat ONBOARD_PARAM_COUNT) ix (link g)) g
     = (param_frame i ix g, g\<lparr>link := bump_tx (link g)\<rparr>)"
  using assms crc_extras(2)
  by (simp add: mavlink_msg_param_value_pack_def transmit_frame param_frame_def MAVLINK_TYPE_FLOAT_def
      ONBOARD_PARAM_COUNT_def flip: frame_with_wire)

lemma name_length: "gcs_ok g \<Longrightarrow> i < 42 \<Longrightarrow> length (param_name g ! i) = 16"
  using param_names_table(1,2) by (simp add: gcs_ok_def)

text \<open>A parameter that is set: the one of that name, and no other.\<close>

lemma param_set_other:
  assumes "gcs_ok g" "length (param_id s) = 16" "set is \<subseteq> {..<42}" 
    "\<forall>i \<in> set is. take 15 (param_id s) \<noteq> take 15 (param_names ! i)"
  shows "fold (param_set_step e s) is (out, g) = (out, g)"
  using assms(3,4)
proof (induction "is")
  case (Cons i "is")
  then have "length (param_names ! i) = 16" using param_names_table(1,2) by simp
  then have "param_set_step e s i (out, g) = (out, g)"
    using Cons.prems assms(1,2) by (simp add: param_set_step_def name_match_take gcs_ok_def)
  then show ?case using Cons by simp
qed simp

lemma param_set_one:
  assumes "gcs_ok g" "surroundings_ok e" "length (param_id s) = 16" "i < 42"
    "take 15 (param_id s) = take 15 (param_names ! i)"
  shows "fold (param_set_step e s) [0..<42] ([], g) =
    (let g' = g\<lparr>params := (params g)[i := param_value s]\<rparr>
     in (param_frame i (m_parameter_i g) g', g'\<lparr>link := bump_tx (link g), new_sd_log := True\<rparr>))"
proof -
  define g' where "g' = g\<lparr>params := (params g)[i := param_value s]\<rparr>"
  have ok: "gcs_ok g'" using assms(1) by (simp add: g'_def gcs_ok_def)
  have n: "length (param_names ! i) = 16" using param_names_table(1,2) assms(4) by simp
  have d: "take 15 (param_id s) \<noteq> take 15 (param_names ! j)" if "j < 42" "j \<noteq> i" for j
    using param_names_table(1,3) that assms(4,5) nth_eq_iff_index_eq[of "map (take 15) param_names" j i] by simp
  have r: "[0..<42] = [0..<i] @ i # [i + 1..<42]"
    using assms(4) by (metis Suc_eq_plus1 le_add1 le_add_same_cancel1 less_imp_le_nat upt_add_eq_append upt_conv_Cons plus_nat.add_0 le_add_diff_inverse)
  have before: "fold (param_set_step e s) [0..<i] ([], g) = ([], g)"
    using d assms(4) by (intro param_set_other[OF assms(1,3)]) (simp_all add: subset_iff)
  have at: "param_set_step e s i ([], g) = (param_frame i (m_parameter_i g) g', g'\<lparr>link := bump_tx (link g), new_sd_log := True\<rparr>)"
    using param_value_sent[of g' i "stack_message e i" "m_parameter_i g"] name_length[OF ok assms(4)] assms n
    by (simp add: param_set_step_def name_match_take gcs_ok_def surroundings_ok_def g'_def Let_def)
  have ok2: "gcs_ok (g'\<lparr>link := bump_tx (link g), new_sd_log := True\<rparr>)"
    using ok by (simp add: gcs_ok_def g'_def)
  have "fold (param_set_step e s) [i + 1..<42] (out, g'\<lparr>link := bump_tx (link g), new_sd_log := True\<rparr>)
      = (out, g'\<lparr>link := bump_tx (link g), new_sd_log := True\<rparr>)" for out
    using d by (intro param_set_other[OF ok2 assms(3)]) (simp_all add: subset_iff)
  then show ?thesis unfolding r by (simp add: before at g'_def[symmetric] Let_def)
qed
lemma filter_single: "\<lbrakk>distinct xs; i \<in> set xs; \<forall>j \<in> set xs. P j \<longleftrightarrow> j = i\<rbrakk> \<Longrightarrow> filter P xs = [i]"
  by (induction xs) (auto simp: filter_empty_conv)

lemma same_name: "i < 42 \<Longrightarrow> j < 42 \<Longrightarrow> take 15 (param_names ! i) = take 15 (param_names ! j) \<longleftrightarrow> i = j"
  using param_names_table(1,3) nth_eq_iff_index_eq[of "map (take 15) param_names" i j] by simp

text \<open>The names that agree with a key: none or one.\<close>

lemma matches:
  assumes "i < 42" "take 15 name = take 15 (param_names ! i)"
  shows "filter (\<lambda>i. take 15 name = take 15 (param_names ! i)) [0..<42] = [i]"
  using assms same_name by (intro filter_single) auto

lemma param_set_result:
  assumes "gcs_ok g" "surroundings_ok e" "length (param_id s) = 16"
  shows "fold (param_set_step e s) [0..<42] ([], g) =
    (case filter (\<lambda>i. take 15 (param_id s) = take 15 (param_names ! i)) [0..<42] of
       [] \<Rightarrow> ([], g)
     | i # _ \<Rightarrow> (let g' = g\<lparr>params := (params g)[i := param_value s]\<rparr>
                in (param_frame i (m_parameter_i g) g', g'\<lparr>link := bump_tx (link g), new_sd_log := True\<rparr>)))"
proof (cases "\<exists>i < 42. take 15 (param_id s) = take 15 (param_names ! i)")
  case True
  then obtain i where i: "i < 42" "take 15 (param_id s) = take 15 (param_names ! i)" by blast
  show ?thesis unfolding matches[OF i] param_set_one[OF assms i] by simp
next
  case False
  then have n: "\<forall>i \<in> set [0..<42]. take 15 (param_id s) \<noteq> take 15 (param_names ! i)" by simp
  have "filter (\<lambda>i. take 15 (param_id s) = take 15 (param_names ! i)) [0..<42] = []"
    unfolding filter_empty_conv using n by blast
  moreover have "fold (param_set_step e s) [0..<42] ([], g) = ([], g)"
    by (rule param_set_other[OF assms(1,3) _ n]) (simp add: subset_iff)
  ultimately show ?thesis by simp
qed

text \<open>The message that sets a parameter, as a ground station sends it.\<close>

definition param_set_packet :: "u32 \<Rightarrow> u8 \<Rightarrow> u8 \<Rightarrow> u8 list \<Rightarrow> u8 \<Rightarrow> u8 list" where
  "param_set_packet v t c name typ = le32 v @ [t, c] @ name @ [typ]"

lemma carries_param_set:
  assumes "carries m (sq, si, ci, mi, param_set_packet v t c name ty)" "length name = 16"
  shows "param_id (mavlink_msg_param_set_decode m) = name" "param_value (mavlink_msg_param_set_decode m) = v"
proof -
  have "take 23 (payload m) = le32 v @ [t, c] @ name @ [ty]"
    using assms by (simp add: carries_def param_set_packet_def)
  then have p: "payload m = le32 v @ [t, c] @ name @ [ty] @ drop 23 (payload m)"
    by (metis append.assoc append_take_drop_id)
  show "param_value (mavlink_msg_param_set_decode m) = v"
    using get32_le[of 0 m v] p by (simp add: mavlink_msg_param_set_decode_def)
  have "take 16 (drop 6 (payload m)) = name" by (subst p) (simp add: assms(2))
  then show "param_id (mavlink_msg_param_set_decode m) = name" by (simp add: mavlink_msg_param_set_decode_def)
qed

lemma param_set_received:
  assumes "gcs_ok g" "surroundings_ok e" "length name = 16" "n = 23"
  shows "\<exists>lk. link_ok lk \<and> tx_seq lk = tx_seq (link g) \<and>
    radio_bytes e (wire n sq si ci MAVLINK_MSG_ID_PARAM_SET (param_set_packet v t c name ty)) (g, rd) =
      (let s = \<lparr>param_value = v, target_system = t, target_component = c, param_id = name, param_type = ty\<rparr>
       in (case fold (param_set_step e s) [0..<42] ([], g\<lparr>link := lk\<rparr>) of (out, g') \<Rightarrow> (out, g', rd)))"
proof -
  let ?p = "param_set_packet v t c name ty"
  have l: "length ?p = unat n" by (simp add: param_set_packet_def assms(3,4))
  have ok: "link_ok (link g)" using assms(1) by (simp add: gcs_ok_def)
  obtain m lk where m: "radio_bytes e (wire n sq si ci MAVLINK_MSG_ID_PARAM_SET ?p) (g, rd)
      = handle_message e m (g\<lparr>link := lk\<rparr>, rd)" "carries m (sq, si, ci, MAVLINK_MSG_ID_PARAM_SET, ?p)"
      "length (payload m) = 264" "link_ok lk" "tx_seq lk = tx_seq (link g)"
    using radio_frame[OF ok l, of e sq si ci MAVLINK_MSG_ID_PARAM_SET rd] by blast
  have "payload m ! 4 = t" "payload m ! 5 = c" "payload m ! 22 = ty"
  proof -
    have "take 23 (payload m) = le32 v @ [t, c] @ name @ [ty]"
      using m(2) assms(3) by (simp add: carries_def param_set_packet_def)
    then have "payload m ! k = (le32 v @ [t, c] @ name @ [ty]) ! k" if "k < 23" for k using that by (metis nth_take)
    from this[of 4] this[of 5] this[of 22] show "payload m ! 4 = t" "payload m ! 5 = c" "payload m ! 22 = ty"
      by (simp_all add: nth_append assms(3))
  qed
  then have d: "mavlink_msg_param_set_decode m
      = \<lparr>param_value = v, target_system = t, target_component = c, param_id = name, param_type = ty\<rparr>"
    using carries_param_set[OF m(2) assms(3)] by (simp add: mavlink_msg_param_set_decode_def)
  have "msgid m = MAVLINK_MSG_ID_PARAM_SET" using m(2) by (simp add: carries_def)
  then have "handle_message e m (g\<lparr>link := lk\<rparr>, rd) =
      (case handle_param_set e m (g\<lparr>link := lk\<rparr>) of (out, g) \<Rightarrow> (out, g, rd))"
    by (simp add: handle_message_def msg_ids)
  then show ?thesis using m by (auto simp: handle_param_set_def d ONBOARD_PARAM_COUNT_def)
qed

section \<open>The list of parameters\<close>

text \<open>The thread that sends the list, \<open>n\<close> times.\<close>

fun queued_sends :: "mavlink_message list \<Rightarrow> gcs \<Rightarrow> u8 list list \<times> gcs" where
  "queued_sends [] g = ([], g)"
| "queued_sends (junk # js) g = (case communication_queued_send junk g of (out, g) \<Rightarrow>
     case queued_sends js g of (outs, g) \<Rightarrow> (out # outs, g))"

lemma queued_send_one:
  assumes "gcs_ok g" "unat (m_parameter_i g) < 42" "length (payload junk) = 264"
  shows "communication_queued_send junk g = (param_frame (unat (m_parameter_i g)) (m_parameter_i g) g,
    g\<lparr>m_parameter_i := m_parameter_i g + 1, link := bump_tx (link g)\<rparr>)"
  using param_value_sent[OF name_length[OF assms(1,2)] assms(3)] assms(2)
  by (simp add: communication_queued_send_def Let_def ONBOARD_PARAM_COUNT_def)

lemma queued_send_done:
  assumes "42 \<le> unat (m_parameter_i g)" shows "communication_queued_send junk g = ([], g)"
  using assms by (simp add: communication_queued_send_def ONBOARD_PARAM_COUNT_def)

text \<open>The frame of parameter \<open>i\<close> when the sequence number of the list's first frame is \<open>sq\<close>.\<close>

definition list_frame :: "gcs \<Rightarrow> u8 \<Rightarrow> nat \<Rightarrow> u8 list" where
  "list_frame g sq i = wire 25 (sq + of_nat i) (system_sysid g) (system_compid g) MAVLINK_MSG_ID_PARAM_VALUE
     (le32 (params g ! i) @ le16 42 @ le16 (of_nat i) @ param_name g ! i @ [9])"

lemma queued_sends_list:
  assumes "gcs_ok g" "\<forall>junk \<in> set js. length (payload junk) = 264"
    "unat (m_parameter_i g) + length js \<le> 42" "tx_seq (link g) = sq + of_nat (unat (m_parameter_i g))"
  shows "\<exists>lk. link_ok lk \<and> queued_sends js g =
     (map (list_frame g sq) [unat (m_parameter_i g)..<unat (m_parameter_i g) + length js],
      g\<lparr>m_parameter_i := m_parameter_i g + of_nat (length js), link := lk\<rparr>)"
  using assms
proof (induction js arbitrary: g)
  case Nil
  then show ?case by (intro exI[of _ "link g"]) (simp add: gcs_ok_def)
next
  case (Cons j js)
  let ?i = "unat (m_parameter_i g)"
  let ?g = "g\<lparr>m_parameter_i := m_parameter_i g + 1, link := bump_tx (link g)\<rparr>"
  have i: "?i < 42" "?i + 1 < 2 ^ 16" using Cons.prems(3) by simp_all
  then have n: "unat (m_parameter_i ?g) = ?i + 1" by (simp add: unat_word_ariths)
  have one: "communication_queued_send j g = (list_frame g sq ?i, ?g)"
    using Cons.prems i by (subst queued_send_one) (simp_all add: param_frame_def list_frame_def)
  have g: "gcs_ok ?g" "\<forall>junk \<in> set js. length (payload junk) = 264"
    "unat (m_parameter_i ?g) + length js \<le> 42"
    using Cons.prems(1-3) n by (simp_all add: gcs_ok_def)
  have "tx_seq (link ?g) = sq + of_nat (unat (m_parameter_i ?g))"
    unfolding n using Cons.prems(4) by simp
  then obtain lk where lk: "link_ok lk" "queued_sends js ?g =
     (map (list_frame ?g sq) [?i + 1..<?i + 1 + length js],
      ?g\<lparr>m_parameter_i := m_parameter_i ?g + of_nat (length js), link := lk\<rparr>)"
    using Cons.IH[OF g] unfolding n by blast
  have lf: "list_frame ?g = list_frame g" by (simp add: list_frame_def fun_eq_iff)
  have up: "[?i..<?i + length (j # js)] = ?i # [?i + 1..<?i + 1 + length js]"
    by (simp add: upt_conv_Cons del: upt_Suc)
  have m: "queued_sends (j # js) g = (list_frame g sq ?i # map (list_frame g sq) [?i + 1..<?i + 1 + length js],
      ?g\<lparr>m_parameter_i := m_parameter_i ?g + of_nat (length js), link := lk\<rparr>)"
    by (simp only: queued_sends.simps one prod.case lk(2) lf)
  show ?case unfolding up m using lk(1) by (intro exI[of _ lk]) (simp add: ac_simps)
qed

section \<open>Stored parameters\<close>

definition low_var :: "nat \<Rightarrow> u16" where "low_var i = VirtAddVarTab ! (i + offset_flash_parameter)"

text \<open>The two variables of each parameter, and what is written to them.\<close>

definition param_vars :: "u32 list \<Rightarrow> (u16 \<times> u16) list" where
  "param_vars ps = concat (map (\<lambda>i. [(low_var i, ucast (ps ! i)), (low_var i + 1, ucast (drop_bit 16 (ps ! i)))]) [0..<42])"

lemma param_vars_table:
  "distinct (concat (map (\<lambda>i. [low_var i, low_var i + 1]) [0..<42]))"
  "\<forall>v \<in> set (concat (map (\<lambda>i. [low_var i, low_var i + 1]) [0..<42])). v \<noteq> 0xFFFF"
  by code_simp+

lemma param_vars_fst: "map fst (param_vars ps) = concat (map (\<lambda>i. [low_var i, low_var i + 1]) [0..<42])"
  by (simp add: param_vars_def map_concat comp_def)

lemma EE_write_Float_writes:
  "snd (EE_write_Float c v1 v2 x ds) = ee_write c (v2, ucast (drop_bit 16 x)) (ee_write c (v1, ucast x) ds)"
  by (simp add: EE_write_Float_def ee_write_def split: prod.split)

lemma write_param_vars: "write_param_to_eeprom c g ds = fold (ee_write c) (param_vars (params g)) ds"
proof -
  have "fold (\<lambda>i ds. snd (EE_write_Float c (VirtAddVarTab ! (i + offset_flash_parameter))
         (VirtAddVarTab ! (i + offset_flash_parameter) + 1) (params g ! i) ds)) xs ds =
    fold (ee_write c) (concat (map (\<lambda>i. [(low_var i, ucast (params g ! i)), (low_var i + 1, ucast (drop_bit 16 (params g ! i)))]) xs)) ds"
    for xs by (induction xs arbitrary: ds) (simp_all add: EE_write_Float_writes low_var_def)
  then show ?thesis by (simp add: write_param_to_eeprom_def param_vars_def number_flash_parameter_def)
qed

lemma param_vars_lookup:
  assumes "i < 42"
  shows "map_of (param_vars ps) (low_var i) = Some (ucast (ps ! i))"
    "map_of (param_vars ps) (low_var i + 1) = Some (ucast (drop_bit 16 (ps ! i)))"
  using assms param_vars_table(1) by (auto intro!: map_of_is_SomeI simp: param_vars_fst) (auto simp: param_vars_def)

text \<open>Reading replaces every parameter by what is stored.\<close>

lemma read_params:
  assumes "length (params g) = 42"
  shows "read_param_from_eeprom l h f g = g\<lparr>params := map (\<lambda>i. EE_read_Float (l i) (h i) (low_var i) (low_var i + 1) f) [0..<42]\<rparr>"
proof -
  let ?v = "\<lambda>i. EE_read_Float (l i) (h i) (low_var i) (low_var i + 1) f"
  have "fold (\<lambda>i g. g\<lparr>params := (params g)[i := ?v i]\<rparr>) [0..<n] g = g\<lparr>params := map ?v [0..<n] @ drop n (params g)\<rparr>"
    if "n \<le> 42" for n
    using that
  proof (induction n)
    case (Suc n)
    then show ?case using assms by (simp add: list_update_append Cons_nth_drop_Suc[symmetric])
  qed simp
  from this[of 42] show ?thesis
    using assms by (simp add: read_param_from_eeprom_def number_flash_parameter_def low_var_def)
qed

lemma params_stored:
  assumes "ee_ok f b n" "n + 84 < PAGE_WORDS" "\<And>i. no_fault c i" "length (params g) = 42"
  shows "\<exists>f'. write_param_to_eeprom c g (dv, f) = (dv, f') \<and> ee_ok f' b (n + 84)
    \<and> (\<forall>l h g'. length (params g') = 42 \<longrightarrow> read_param_from_eeprom l h f' g' = g'\<lparr>params := params g\<rparr>)
    \<and> (\<forall>w. w \<noteq> 0xFFFF \<and> w \<notin> fst ` set (param_vars (params g)) \<longrightarrow> EE_ReadVariable w f' = EE_ReadVariable w f)"
proof -
  let ?vs = "param_vars (params g)"
  have "length ?vs = 84" using arg_cong[OF param_vars_fst, of length] by (simp add: length_concat comp_def sum_list_triv)
  moreover have "\<forall>vd \<in> set ?vs. fst vd \<noteq> 0xFFFF" "distinct (map fst ?vs)"
    using param_vars_table unfolding param_vars_fst[of "params g", symmetric] by auto
  ultimately obtain f' where f': "fold (ee_write c) ?vs (dv, f) = (dv, f')" "ee_ok f' b (n + 84)"
    "\<And>w. w \<noteq> 0xFFFF \<Longrightarrow> EE_ReadVariable w f' =
         (case map_of ?vs w of None \<Rightarrow> EE_ReadVariable w f | Some d \<Rightarrow> (0, Some d))"
    using ee_write_list[OF assms(1), of ?vs c dv] assms(2,3) by auto
  have r: "EE_read_Float l h (low_var i) (low_var i + 1) f' = params g ! i" if i: "i < 42" for l h i
  proof -
    have "low_var i \<noteq> 0xFFFF" "low_var i + 1 \<noteq> 0xFFFF" using param_vars_table(2) i by auto
    then show ?thesis
      using f'(3) param_vars_lookup[OF i, of "params g"] join_halves[of "params g ! i"] by (simp add: EE_read_Float_def)
  qed
  have "map (\<lambda>i. EE_read_Float (l i) (h i) (low_var i) (low_var i + 1) f') [0..<42] = params g" for l h
    by (rule nth_equalityI) (simp_all add: assms(4) r)
  then have "read_param_from_eeprom l h f' g' = g'\<lparr>params := params g\<rparr>" if "length (params g') = 42" for l h g'
    unfolding read_params[OF that] by simp
  moreover have "EE_ReadVariable w f' = EE_ReadVariable w f" if "w \<noteq> 0xFFFF" "w \<notin> fst ` set ?vs" for w
    using f'(3)[OF that(1)] that(2) by (simp add: map_of_eq_None_iff[symmetric])
  ultimately show ?thesis using f'(1,2) by (auto simp: write_param_vars)
qed

lemma calibration_untouched:
  assumes "\<And>w. w \<noteq> 0xFFFF \<Longrightarrow> w \<notin> fst ` set (param_vars ps) \<Longrightarrow> EE_ReadVariable w f' = EE_ReadVariable w f"
  shows "setup_Fernsteuerung ext f' s = setup_Fernsteuerung ext f s"
proof -
  have other: "\<forall>i \<in> set [0..<13]. VirtAddVarTab ! i \<notin> set (concat (map (\<lambda>i. [low_var i, low_var i + 1]) [0..<42]))"
    by code_simp
  have "VirtAddVarTab ! i \<notin> fst ` set (param_vars ps)" if "i < 13" for i
  proof -
    have "i \<in> set [0..<13]" using that by simp
    then show ?thesis using other unfolding set_map[symmetric] param_vars_fst by blast
  qed
  then have r: "EE_ReadVariable (VirtAddVarTab ! i) f' = EE_ReadVariable (VirtAddVarTab ! i) f" if "i < 13" for i
    using assms table_words that by simp
  have "read_cal f' cs = read_cal f cs" for cs
    unfolding read_cal_def by (rule fold_cong) (simp_all add: cal_index r)
  then show ?thesis by (simp add: setup_Fernsteuerung_def cal_index r Let_def)
qed

text \<open>A parameter that is not stored is read as what the stack holds.\<close>

lemma params_unstored:
  assumes "\<And>w. w \<noteq> 0xFFFF \<Longrightarrow> snd (EE_ReadVariable w f) = None" "length (params g) = 42"
  shows "read_param_from_eeprom l h f g = g\<lparr>params := map (\<lambda>i. push_bit 16 (ucast (h i)) OR ucast (l i)) [0..<42]\<rparr>"
proof -
  have "EE_read_Float (l i) (h i) (low_var i) (low_var i + 1) f = push_bit 16 (ucast (h i)) OR ucast (l i)" if "i < 42" for i
  proof -
    have "low_var i \<noteq> 0xFFFF" "low_var i + 1 \<noteq> 0xFFFF" using param_vars_table(2) that by auto
    then show ?thesis using assms(1) by (simp add: EE_read_Float_def)
  qed
  then show ?thesis unfolding read_params[OF assms(2)] by simp
qed
end
