(* ===== verification/Serial.thy ===== *)
theory Serial
  imports IOQueues Events
begin

text \<open>
  The serial driver, \<^verbatim>\<open>os/hal/src/serial.c\<close>, on the queues and the event source of the
  kernel, with the flags of \<^verbatim>\<open>chioch.h\<close>; the registers of the USART are not part of the
  state. A driver and the kernel are a pair \<open>port\<close>.

  The lemmas show when the reader of \<^verbatim>\<open>ThreadRadio\<close>, which takes one byte for each event,
  gets what was received: always when it runs between any two bytes, and never again
  after two bytes have come in without it running.
\<close>

unbundle bit_operations_syntax

section \<open>Driver\<close>

datatype sdstate = SD_UNINIT | SD_STOP | SD_READY

record serial =
  sd_state :: sdstate
  sd_iqueue :: nat
  sd_oqueue :: nat
  sd_event :: nat
  sd_flags :: u32

type_synonym port = "serial \<times> kernel"

definition IO_NO_ERROR :: u32 where "IO_NO_ERROR = 0"
definition IO_INPUT_AVAILABLE :: u32 where "IO_INPUT_AVAILABLE = 4"
definition IO_OUTPUT_EMPTY :: u32 where "IO_OUTPUT_EMPTY = 8"
definition SD_OVERRUN_ERROR :: u32 where "SD_OVERRUN_ERROR = 128"

definition chIOAddFlagsI :: "u32 \<Rightarrow> port \<Rightarrow> port" where
  "chIOAddFlagsI m p = (case p of (sd, k) \<Rightarrow>
     (sd\<lparr>sd_flags := sd_flags sd OR m\<rparr>, chEvtBroadcastFlagsI (sd_event sd) 0 k))"

definition chIOGetAndClearFlags :: "port \<Rightarrow> u32 \<times> port" where
  "chIOGetAndClearFlags p = (case p of (sd, k) \<Rightarrow> (sd_flags sd, sd\<lparr>sd_flags := IO_NO_ERROR\<rparr>, k))"

definition sdObjectInit :: "u8 list \<Rightarrow> u8 list \<Rightarrow> nat option \<Rightarrow> nat option \<Rightarrow> port \<Rightarrow> port" where
  "sdObjectInit ib ob inotify onotify p = (case p of (sd, k) \<Rightarrow>
     (sd\<lparr>sd_flags := IO_NO_ERROR, sd_state := SD_STOP\<rparr>,
      chOQInit (sd_oqueue sd) ob onotify (chIQInit (sd_iqueue sd) ib inotify (chEvtInit (sd_event sd) k))))"

definition sdStart :: "port \<Rightarrow> port" where
  "sdStart p = (case p of (sd, k) \<Rightarrow> (sd\<lparr>sd_state := SD_READY\<rparr>, k))"

text \<open>The queues are emptied, their waiters readied, and the processor may be lost.\<close>

definition sdStop :: "port \<Rightarrow> serial \<times> unit step" where
  "sdStop p = (case p of (sd, k) \<Rightarrow>
     (sd\<lparr>sd_state := SD_STOP\<rparr>, chSchRescheduleS (chIQResetI (sd_iqueue sd) (chOQResetI (sd_oqueue sd) k))))"

definition sdIncomingDataI :: "u8 \<Rightarrow> port \<Rightarrow> port" where
  "sdIncomingDataI b p =
     (let p = (if chIQIsEmptyI (sd_iqueue (fst p)) (snd p) then chIOAddFlagsI IO_INPUT_AVAILABLE p else p)
      in case p of (sd, k) \<Rightarrow> case chIQPutI (sd_iqueue sd) b k of (r, k) \<Rightarrow>
           if r < Q_OK then chIOAddFlagsI SD_OVERRUN_ERROR (sd, k) else (sd, k))"

definition sdRequestDataI :: "port \<Rightarrow> int \<times> port" where
  "sdRequestDataI p = (case p of (sd, k) \<Rightarrow> case chOQGetI (sd_oqueue sd) k of (b, k) \<Rightarrow>
     (b, if b < Q_OK then chIOAddFlagsI IO_OUTPUT_EMPTY (sd, k) else (sd, k)))"

text \<open>The methods of the driver are those of its queues; its table of methods is \<^verbatim>\<open>vmt\<close>.\<close>

definition writes :: "notifier \<Rightarrow> nat \<Rightarrow> serial \<Rightarrow> u8 list \<Rightarrow> kernel \<Rightarrow> nat step" where
  "writes nfy fuel sd bp = chOQWriteTimeout nfy fuel (sd_oqueue sd) bp TIME_INFINITE"

definition reads :: "notifier \<Rightarrow> nat \<Rightarrow> serial \<Rightarrow> u32 \<Rightarrow> kernel \<Rightarrow> u8 list step" where
  "reads nfy fuel sd n = chIQReadTimeout nfy fuel (sd_iqueue sd) n TIME_INFINITE"

definition putwouldblock :: "serial \<Rightarrow> kernel \<Rightarrow> bool" where
  "putwouldblock sd = chOQIsFullI (sd_oqueue sd)"

definition getwouldblock :: "serial \<Rightarrow> kernel \<Rightarrow> bool" where
  "getwouldblock sd = chIQIsEmptyI (sd_iqueue sd)"

definition putt :: "notifier \<Rightarrow> nat \<Rightarrow> serial \<Rightarrow> u8 \<Rightarrow> u32 \<Rightarrow> kernel \<Rightarrow> int step" where
  "putt nfy fuel sd b timeout = chOQPutTimeout nfy fuel (sd_oqueue sd) b timeout"

definition gett :: "notifier \<Rightarrow> nat \<Rightarrow> serial \<Rightarrow> u32 \<Rightarrow> kernel \<Rightarrow> int step" where
  "gett nfy fuel sd timeout = chIQGetTimeout nfy fuel (sd_iqueue sd) timeout"

definition writet :: "notifier \<Rightarrow> nat \<Rightarrow> serial \<Rightarrow> u8 list \<Rightarrow> u32 \<Rightarrow> kernel \<Rightarrow> nat step" where
  "writet nfy fuel sd bp time = chOQWriteTimeout nfy fuel (sd_oqueue sd) bp time"

definition readt :: "notifier \<Rightarrow> nat \<Rightarrow> serial \<Rightarrow> u32 \<Rightarrow> u32 \<Rightarrow> kernel \<Rightarrow> u8 list step" where
  "readt nfy fuel sd n time = chIQReadTimeout nfy fuel (sd_iqueue sd) n time"

definition sdWrite :: "notifier \<Rightarrow> nat \<Rightarrow> serial \<Rightarrow> u8 list \<Rightarrow> kernel \<Rightarrow> nat step" where
  "sdWrite nfy fuel sd bp = chOQWriteTimeout nfy fuel (sd_oqueue sd) bp TIME_INFINITE"

definition chIOGetTimeout :: "notifier \<Rightarrow> nat \<Rightarrow> serial \<Rightarrow> u32 \<Rightarrow> kernel \<Rightarrow> int step" where
  "chIOGetTimeout nfy fuel sd time = gett nfy fuel sd time"

section \<open>The reader\<close>

text \<open>
  A turn of \<^verbatim>\<open>ThreadRadio\<close> once it has been woken: the flags are taken, and one byte is
  read if they say so, without waiting. The byte is a \<^verbatim>\<open>char\<close>, so that a timeout
  would be read as a byte too.
\<close>

definition radio_turn :: "notifier \<Rightarrow> port \<Rightarrow> u8 list \<times> port" where
  "radio_turn nfy p = (case chIOGetAndClearFlags p of (flags, sd, k) \<Rightarrow>
     if flags AND IO_INPUT_AVAILABLE \<noteq> 0 then
       (case chIOGetTimeout nfy 1 sd TIME_IMMEDIATE k of
          Ret c k \<Rightarrow> ([word_of_int c], sd, k) | _ \<Rightarrow> ([], sd, k))
     else ([], sd, k))"

text \<open>Interrupts and turns in any order; the result is what the parser gets.\<close>

datatype port_event = Incoming u8 | Outgoing | RadioTurn

fun port_step :: "notifier \<Rightarrow> port_event \<Rightarrow> port \<Rightarrow> u8 list \<times> port" where
  "port_step nfy (Incoming b) p = ([], sdIncomingDataI b p)"
| "port_step nfy Outgoing p = ([], snd (sdRequestDataI p))"
| "port_step nfy RadioTurn p = radio_turn nfy p"

fun port_run :: "notifier \<Rightarrow> port_event list \<Rightarrow> port \<Rightarrow> u8 list \<times> port" where
  "port_run nfy [] p = ([], p)"
| "port_run nfy (e # es) p =
     (case port_step nfy e p of (out, p) \<Rightarrow> case port_run nfy es p of (out', p) \<Rightarrow> (out @ out', p))"

section \<open>What the events leave alone\<close>

lemma ioq_signal [simp]: "ioq (chEvtSignalFlagsI t m k) = ioq k"
  by (simp add: chEvtSignalFlagsI_def Let_def set_epending_def chSchReadyI_def)

lemma ioq_broadcast [simp]: "ioq (chEvtBroadcastFlagsI s m k) = ioq k"
proof -
  have "ioq (evt_broadcast els m k) = ioq k" for els by (induction els arbitrary: k) simp_all
  then show ?thesis by (simp add: chEvtBroadcastFlagsI_def)
qed

lemma kinv_broadcast: "kinv k \<Longrightarrow> kinv (chEvtBroadcastFlagsI s m k)"
proof -
  have "kinv k \<Longrightarrow> kinv (evt_broadcast els m k)" for els
    by (induction els arbitrary: k) (simp_all add: chEvtSignalFlagsI_kinv)
  then show "kinv k \<Longrightarrow> kinv (chEvtBroadcastFlagsI s m k)" by (simp add: chEvtBroadcastFlagsI_def)
qed

lemma iq_broadcast [simp]:
  "iq_list q (chEvtBroadcastFlagsI s m k) = iq_list q k" "chQSizeI q (chEvtBroadcastFlagsI s m k) = chQSizeI q k"
  "chIQIsEmptyI q (chEvtBroadcastFlagsI s m k) = chIQIsEmptyI q k"
  "iq_ok q k \<Longrightarrow> iq_ok q (chEvtBroadcastFlagsI s m k)"
  by (simp_all add: iq_list_def chQSizeI_def chIQIsEmptyI_def chQSpaceI_def iq_ok_def kinv_broadcast)

lemma empty_iff: "chIQIsEmptyI q k \<longleftrightarrow> iq_list q k = []"
  using length_q_content[of "ioq k q" "q_counter (ioq k q)"]
  by (auto simp: chIQIsEmptyI_def chQSpaceI_def iq_list_def simp flip: length_0_conv)

section \<open>The queue\<close>

lemma incoming_empty:
  assumes "iq_ok (sd_iqueue sd) k" "iq_list (sd_iqueue sd) k = []" "0 < chQSizeI (sd_iqueue sd) k"
    "sdIncomingDataI b (sd, k) = (sd', k')"
  shows "sd' = sd\<lparr>sd_flags := sd_flags sd OR IO_INPUT_AVAILABLE\<rparr>" "iq_ok (sd_iqueue sd) k'"
    "iq_list (sd_iqueue sd) k' = [b]" "chQSizeI (sd_iqueue sd) k' = chQSizeI (sd_iqueue sd) k"
proof -
  let ?q = "sd_iqueue sd" and ?k = "chEvtBroadcastFlagsI (sd_event sd) 0 k"
  have ok: "iq_ok ?q ?k" using assms(1) by simp
  have nf: "\<not> chIQIsFullI ?q ?k" using chIQPutI_ok(1)[OF ok] assms(2,3) by simp
  then obtain k2 where r: "chIQPutI ?q b ?k = (Q_OK, k2)" by (simp add: chIQPutI_def)
  have e: "chIQIsEmptyI ?q k" using assms(2) by (simp add: empty_iff)
  have "sdIncomingDataI b (sd, k) = (sd\<lparr>sd_flags := sd_flags sd OR IO_INPUT_AVAILABLE\<rparr>, k2)"
    by (simp add: sdIncomingDataI_def e chIOAddFlagsI_def r)
  then show "sd' = sd\<lparr>sd_flags := sd_flags sd OR IO_INPUT_AVAILABLE\<rparr>" "iq_ok ?q k'" "iq_list ?q k' = [b]"
    "chQSizeI ?q k' = chQSizeI ?q k"
    using assms(4) chIQPutI_ok(2)[OF ok nf, of b] assms(2) r by simp_all
qed

text \<open>A byte that comes in while others wait adds no \<open>IO_INPUT_AVAILABLE\<close>.\<close>

lemma incoming_nonempty:
  assumes "iq_ok (sd_iqueue sd) k" "iq_list (sd_iqueue sd) k \<noteq> []" "sdIncomingDataI b (sd, k) = (sd', k')"
  shows "(if length (iq_list (sd_iqueue sd) k) = chQSizeI (sd_iqueue sd) k
      then sd' = sd\<lparr>sd_flags := sd_flags sd OR SD_OVERRUN_ERROR\<rparr> \<and> iq_list (sd_iqueue sd) k' = iq_list (sd_iqueue sd) k
      else sd' = sd \<and> iq_list (sd_iqueue sd) k' = iq_list (sd_iqueue sd) k @ [b])
    \<and> iq_ok (sd_iqueue sd) k' \<and> chQSizeI (sd_iqueue sd) k' = chQSizeI (sd_iqueue sd) k"
proof -
  let ?q = "sd_iqueue sd"
  have e: "\<not> chIQIsEmptyI ?q k" using assms(2) by (simp add: empty_iff)
  note full = chIQPutI_ok(1)[OF assms(1)]
  show ?thesis
  proof (cases "chIQIsFullI ?q k")
    case True
    then have "sdIncomingDataI b (sd, k)
        = (sd\<lparr>sd_flags := sd_flags sd OR SD_OVERRUN_ERROR\<rparr>, chEvtBroadcastFlagsI (sd_event sd) 0 k)"
      by (simp add: sdIncomingDataI_def e chIQPutI_def chIOAddFlagsI_def q_defs)
    then show ?thesis using assms True full by simp
  next
    case False
    then obtain k2 where r: "chIQPutI ?q b k = (Q_OK, k2)" by (simp add: chIQPutI_def)
    then have "sdIncomingDataI b (sd, k) = (sd, k2)" by (simp add: sdIncomingDataI_def e)
    then show ?thesis using assms(3) chIQPutI_ok(2)[OF assms(1) False, of b] full False r by simp
  qed
qed

lemma turn_reads:
  assumes "iq_ok (sd_iqueue sd) k" "iq_list (sd_iqueue sd) k = b # bs" "sd_flags sd AND IO_INPUT_AVAILABLE \<noteq> 0"
    "q_notify (ioq k (sd_iqueue sd)) = None"
  shows "\<exists>k'. radio_turn nfy (sd, k) = ([b], sd\<lparr>sd_flags := 0\<rparr>, k') \<and> iq_ok (sd_iqueue sd) k'
    \<and> iq_list (sd_iqueue sd) k' = bs \<and> chQSizeI (sd_iqueue sd) k' = chQSizeI (sd_iqueue sd) k
    \<and> q_notify (ioq k' (sd_iqueue sd)) = None"
proof -
  let ?q = "sd_iqueue sd"
  have e: "\<not> chIQIsEmptyI ?q k" using assms(2) by (simp add: empty_iff)
  obtain b' k' where t: "iq_take ?q k = (b', k')" by fastforce
  note ok = iq_take_ok[OF assms(1) e, unfolded t fst_conv snd_conv]
  have g: "chIQGetTimeout nfy 1 ?q TIME_IMMEDIATE k = Ret (uint b') k'"
    using e t by (simp add: chIQGetTimeout_def q_notify_call_def assms(4))
  have "q_notify (ioq k' ?q) = None" using t assms(4)
    by (auto simp: iq_take_def Let_def q_read_def)
  then show ?thesis using ok assms(2,3) g
    by (auto simp: radio_turn_def chIOGetAndClearFlags_def chIOGetTimeout_def gett_def IO_NO_ERROR_def)
qed

lemma turn_skips:
  "sd_flags sd AND IO_INPUT_AVAILABLE = 0 \<Longrightarrow> radio_turn nfy (sd, k) = ([], sd\<lparr>sd_flags := 0\<rparr>, k)"
  by (simp add: radio_turn_def chIOGetAndClearFlags_def IO_NO_ERROR_def)

section \<open>One byte for each event\<close>

lemma notify_put: "chIQPutI i b k = (r, k') \<Longrightarrow> q_notify (ioq k' q) = q_notify (ioq k q)"
  by (auto simp: chIQPutI_def q_write_def split: if_splits)

lemma notify_incoming:
  assumes "sdIncomingDataI b (sd, k) = (sd', k')" shows "q_notify (ioq k' q) = q_notify (ioq k q)"
  using assms by (auto simp: sdIncomingDataI_def chIOAddFlagsI_def Let_def dest!: notify_put[where q = q]
      split: prod.splits if_splits)

text \<open>Nothing is waiting and no flag is set; and the opposite, bytes that no flag announces.\<close>

definition port_idle :: "port \<Rightarrow> bool" where
  "port_idle p \<longleftrightarrow> iq_ok (sd_iqueue (fst p)) (snd p) \<and> iq_list (sd_iqueue (fst p)) (snd p) = []
     \<and> 2 \<le> chQSizeI (sd_iqueue (fst p)) (snd p) \<and> q_notify (ioq (snd p) (sd_iqueue (fst p))) = None
     \<and> sd_flags (fst p) = 0 \<and> sd_iqueue (fst p) \<noteq> sd_oqueue (fst p)"

definition port_stalled :: "port \<Rightarrow> bool" where
  "port_stalled p \<longleftrightarrow> iq_ok (sd_iqueue (fst p)) (snd p) \<and> iq_list (sd_iqueue (fst p)) (snd p) \<noteq> []
     \<and> sd_flags (fst p) AND IO_INPUT_AVAILABLE = 0 \<and> sd_iqueue (fst p) \<noteq> sd_oqueue (fst p)"

lemma flag_masks: "IO_INPUT_AVAILABLE \<noteq> 0" "IO_INPUT_AVAILABLE AND IO_INPUT_AVAILABLE = IO_INPUT_AVAILABLE"
  "(w OR SD_OVERRUN_ERROR) AND IO_INPUT_AVAILABLE = w AND IO_INPUT_AVAILABLE"
  "(w OR IO_OUTPUT_EMPTY) AND IO_INPUT_AVAILABLE = w AND IO_INPUT_AVAILABLE"
  by (simp_all add: IO_INPUT_AVAILABLE_def SD_OVERRUN_ERROR_def IO_OUTPUT_EMPTY_def bit.conj_disj_distrib2)

lemma idle_byte:
  assumes "port_idle (sd, k)"
  shows "\<exists>k1. sdIncomingDataI a (sd, k) = (sd\<lparr>sd_flags := IO_INPUT_AVAILABLE\<rparr>, k1) \<and> iq_ok (sd_iqueue sd) k1
    \<and> iq_list (sd_iqueue sd) k1 = [a] \<and> chQSizeI (sd_iqueue sd) k1 = chQSizeI (sd_iqueue sd) k
    \<and> q_notify (ioq k1 (sd_iqueue sd)) = None"
proof -
  obtain sd1 k1 where s: "sdIncomingDataI a (sd, k) = (sd1, k1)" by fastforce
  have "iq_ok (sd_iqueue sd) k" "iq_list (sd_iqueue sd) k = []" "0 < chQSizeI (sd_iqueue sd) k"
    using assms by (simp_all add: port_idle_def)
  note i = incoming_empty[OF this s]
  have "q_notify (ioq k1 (sd_iqueue sd)) = None"
    using assms notify_incoming[OF s, of "sd_iqueue sd"] by (simp add: port_idle_def)
  then show ?thesis using i assms s by (simp add: port_idle_def)
qed

lemma idle_byte_turn:
  assumes "port_idle p"
  shows "\<exists>p'. port_run nfy [Incoming a, RadioTurn] p = ([a], p') \<and> port_idle p'"
proof -
  obtain sd k where p: "p = (sd, k)" by fastforce
  let ?q = "sd_iqueue sd" and ?sd = "sd\<lparr>sd_flags := IO_INPUT_AVAILABLE\<rparr>"
  obtain k1 where k1: "sdIncomingDataI a (sd, k) = (?sd, k1)" "iq_ok ?q k1" "iq_list ?q k1 = [a]"
    "chQSizeI ?q k1 = chQSizeI ?q k" "q_notify (ioq k1 ?q) = None"
    using idle_byte[of sd k a] assms by (auto simp: p)
  obtain k2 where k2: "radio_turn nfy (?sd, k1) = ([a], ?sd\<lparr>sd_flags := 0\<rparr>, k2)"
    "iq_ok ?q k2" "iq_list ?q k2 = []" "chQSizeI ?q k2 = chQSizeI ?q k1" "q_notify (ioq k2 ?q) = None"
    using turn_reads[of ?sd k1 a "[]" nfy] k1 by (auto simp: flag_masks)
  have "port_run nfy [Incoming a, RadioTurn] p = ([a], ?sd\<lparr>sd_flags := 0\<rparr>, k2)"
    by (simp add: p k1(1) k2(1))
  moreover have "port_idle (?sd\<lparr>sd_flags := 0\<rparr>, k2)" using assms k1(4) k2 by (simp add: p port_idle_def)
  ultimately show ?thesis by blast
qed

lemma port_run_append:
  "port_run nfy (es @ fs) p = (case port_run nfy es p of (o1, p1) \<Rightarrow> case port_run nfy fs p1 of (o2, p2) \<Rightarrow> (o1 @ o2, p2))"
  by (induction es arbitrary: p) (auto split: prod.split)

lemma turn_for_each:
  assumes "port_idle p"
  shows "\<exists>p'. port_run nfy (concat (map (\<lambda>b. [Incoming b, RadioTurn]) bs)) p = (bs, p') \<and> port_idle p'"
  using assms
proof (induction bs arbitrary: p)
  case (Cons b bs)
  obtain p1 where p1: "port_run nfy [Incoming b, RadioTurn] p = ([b], p1)" "port_idle p1"
    using idle_byte_turn[OF Cons.prems] by blast
  obtain p2 where p2: "port_run nfy (concat (map (\<lambda>b. [Incoming b, RadioTurn]) bs)) p1 = (bs, p2)" "port_idle p2"
    using Cons.IH[OF p1(2)] by blast
  have c: "concat (map (\<lambda>b. [Incoming b, RadioTurn]) (b # bs))
      = [Incoming b, RadioTurn] @ concat (map (\<lambda>b. [Incoming b, RadioTurn]) bs)" by simp
  show ?case unfolding c port_run_append p1(1) prod.case p2(1) using p2(2) by simp
qed simp

lemma other_queue:
  assumes "iq_ok q k" "q \<noteq> q'"
  shows "iq_ok q (snd (chOQGetI q' k))" "iq_list q (snd (chOQGetI q' k)) = iq_list q k"
  using assms by (auto simp: chOQGetI_def Let_def iq_ok_def iq_list_def q_wake_kinv split: prod.split)

lemma stalled_step:
  assumes "port_stalled p" shows "\<exists>p'. port_step nfy e p = ([], p') \<and> port_stalled p'"
proof -
  obtain sd k where p: "p = (sd, k)" by fastforce
  note st = assms[unfolded port_stalled_def p fst_conv snd_conv]
  show ?thesis
  proof (cases e)
    case (Incoming b)
    obtain sd1 k1 where s: "sdIncomingDataI b (sd, k) = (sd1, k1)" by fastforce
    have "iq_ok (sd_iqueue sd) k" "iq_list (sd_iqueue sd) k \<noteq> []" using st by simp_all
    from incoming_nonempty[OF this s] show ?thesis
      using st by (auto simp: Incoming p s port_stalled_def flag_masks split: if_splits)
  next
    case Outgoing
    have "iq_ok (sd_iqueue sd) (snd (chOQGetI (sd_oqueue sd) k))"
      "iq_list (sd_iqueue sd) (snd (chOQGetI (sd_oqueue sd) k)) = iq_list (sd_iqueue sd) k"
      using other_queue st by simp_all
    then show ?thesis using st
      by (auto simp: Outgoing p port_stalled_def sdRequestDataI_def chIOAddFlagsI_def flag_masks split: prod.split)
  next
    case RadioTurn
    then show ?thesis using st by (auto simp: p turn_skips port_stalled_def)
  qed
qed

lemma stalled_run: "port_stalled p \<Longrightarrow> fst (port_run nfy es p) = []"
proof (induction es arbitrary: p)
  case (Cons e es)
  obtain p' where "port_step nfy e p = ([], p')" "port_stalled p'" using stalled_step[OF Cons.prems] by blast
  then show ?case using Cons.IH[of p'] by (simp split: prod.split)
qed simp

lemma two_bytes_stall:
  assumes "port_idle p"
  shows "\<exists>p'. port_run nfy [Incoming a, Incoming b, RadioTurn] p = ([a], p') \<and> port_stalled p'"
proof -
  obtain sd k where p: "p = (sd, k)" by fastforce
  let ?q = "sd_iqueue sd" and ?sd = "sd\<lparr>sd_flags := IO_INPUT_AVAILABLE\<rparr>"
  obtain k1 where k1: "sdIncomingDataI a (sd, k) = (?sd, k1)" "iq_ok ?q k1" "iq_list ?q k1 = [a]"
    "chQSizeI ?q k1 = chQSizeI ?q k" "q_notify (ioq k1 ?q) = None"
    using idle_byte[of sd k a] assms by (auto simp: p)
  have size: "2 \<le> chQSizeI ?q k" using assms by (simp add: port_idle_def p)
  obtain sd2 k2 where s2: "sdIncomingDataI b (?sd, k1) = (sd2, k2)" by fastforce
  have "iq_ok (sd_iqueue ?sd) k1" "iq_list (sd_iqueue ?sd) k1 \<noteq> []" using k1 by simp_all
  from incoming_nonempty[OF this s2] have 2: "sd2 = ?sd" "iq_list ?q k2 = [a, b]" "iq_ok ?q k2"
    using k1(3,4) size by (simp_all split: if_splits)
  have n2: "q_notify (ioq k2 ?q) = None" using notify_incoming[OF s2] k1(5) by simp
  obtain k3 where k3: "radio_turn nfy (?sd, k2) = ([a], ?sd\<lparr>sd_flags := 0\<rparr>, k3)" "iq_ok ?q k3" "iq_list ?q k3 = [b]"
    using turn_reads[of ?sd k2 a "[b]" nfy] 2 n2 by (auto simp: flag_masks)
  have "port_run nfy [Incoming a, Incoming b, RadioTurn] p = ([a], ?sd\<lparr>sd_flags := 0\<rparr>, k3)"
    by (simp add: p k1(1) s2[unfolded 2(1)] k3(1))
  moreover have "port_stalled (?sd\<lparr>sd_flags := 0\<rparr>, k3)" using assms k3 by (simp add: p port_stalled_def port_idle_def)
  ultimately show ?thesis by blast
qed

end
