(* ===== verification/Link.thy ===== *)
theory Link
  imports Gcs Serial
begin

text \<open>
  The ground station link end to end: frames of commands as they arrive at the radio
  thread, what follows them, and the frames a ground station receives.
\<close>

unbundle bit_operations_syntax

section \<open>Commands\<close>

text \<open>
  A \<^verbatim>\<open>COMMAND_LONG\<close> as a ground station sends it, its seven parameters as patterns.
\<close>

definition command_packet :: "u32 list \<Rightarrow> u16 \<Rightarrow> u8 \<Rightarrow> u8 \<Rightarrow> u8 \<Rightarrow> u8 list" where
  "command_packet ps cmd t c confirmation = concat (map le32 ps) @ le16 cmd @ [t, c, confirmation]"

lemma carries_command:
  assumes "carries m (sq, si, ci, mi, command_packet ps cmd t c k)" "length ps = 7"
  shows "mavlink_msg_command_long_get_command m = cmd" "mavlink_msg_command_long_get_param1 m = ps ! 0"
    "mavlink_msg_command_long_get_param4 m = ps ! 3"
proof -
  obtain p0 p1 p2 p3 p4 p5 p6 where ps: "ps = [p0, p1, p2, p3, p4, p5, p6]"
    using assms(2) by (auto simp: length_Suc_conv numeral_eq_Suc)
  have "take 33 (payload m) = command_packet ps cmd t c k"
    using assms by (simp add: carries_def command_packet_def ps)
  then have p: "payload m = le32 p0 @ le32 p1 @ le32 p2 @ le32 p3 @ le32 p4 @ le32 p5 @ le32 p6
      @ le16 cmd @ [t, c, k] @ drop 33 (payload m)"
    by (simp add: command_packet_def ps) (metis append.assoc append_Cons append_Nil append_take_drop_id)
  have d: "drop 0 (payload m) = le32 p0 @ (le32 p1 @ le32 p2 @ le32 p3 @ le32 p4 @ le32 p5 @ le32 p6
      @ le16 cmd @ [t, c, k] @ drop 33 (payload m))"
    "drop 12 (payload m) = le32 p3 @ (le32 p4 @ le32 p5 @ le32 p6 @ le16 cmd @ [t, c, k] @ drop 33 (payload m))"
    "drop 28 (payload m) = le16 cmd @ ([t, c, k] @ drop 33 (payload m))"
    by (subst p; simp)+
  show "mavlink_msg_command_long_get_command m = cmd" "mavlink_msg_command_long_get_param1 m = ps ! 0"
    "mavlink_msg_command_long_get_param4 m = ps ! 3"
    using d by (simp_all only: mavlink_msg_command_long_get_command_def mavlink_msg_command_long_get_param1_def
        mavlink_msg_command_long_get_param4_def get32_le[OF d(1)] get32_le[OF d(2)] get16_le[OF d(3)])
      (simp_all add: ps)
qed

lemma param_is_iff: "param_is 0x3F800000 1" "\<not> param_is 0x3F800000 0" "param_is 0 0" "\<not> param_is 0 1"
  using rep32_consts by (simp_all add: param_is_def float_value_1 float_value_0 flt_eq_def)

lemma command_received:
  assumes "gcs_ok g" "length ps = 7" "n = 33"
  shows "\<exists>m lk. link_ok lk \<and> tx_seq lk = tx_seq (link g)
    \<and> radio_bytes e (wire n sq si ci MAVLINK_MSG_ID_COMMAND_LONG (command_packet ps cmd t c k)) (g, rd)
       = ([], handle_command_long e m (g\<lparr>link := lk\<rparr>, rd))
    \<and> mavlink_msg_command_long_get_command m = cmd \<and> mavlink_msg_command_long_get_param1 m = ps ! 0
    \<and> mavlink_msg_command_long_get_param4 m = ps ! 3"
proof -
  let ?p = "command_packet ps cmd t c k"
  have "length (concat (map le32 ps)) = 4 * length ps" by (induction ps) simp_all
  then have l: "length ?p = unat n" using assms(2,3) by (simp add: command_packet_def)
  have ok: "link_ok (link g)" using assms(1) by (simp add: gcs_ok_def)
  obtain m lk where m: "radio_bytes e (wire n sq si ci MAVLINK_MSG_ID_COMMAND_LONG ?p) (g, rd)
      = handle_message e m (g\<lparr>link := lk\<rparr>, rd)" "carries m (sq, si, ci, MAVLINK_MSG_ID_COMMAND_LONG, ?p)"
      "link_ok lk" "tx_seq lk = tx_seq (link g)"
    using radio_frame[OF ok l, of e sq si ci MAVLINK_MSG_ID_COMMAND_LONG rd] by blast
  have "msgid m = MAVLINK_MSG_ID_COMMAND_LONG" using m(2) by (simp add: carries_def)
  then have "handle_message e m (g\<lparr>link := lk\<rparr>, rd) = ([], handle_command_long e m (g\<lparr>link := lk\<rparr>, rd))"
    by (simp add: handle_message_def msg_ids)
  then show ?thesis using m carries_command[OF m(2) assms(2)] by auto
qed

text \<open>The two storage commands, and the two of a calibration.\<close>

definition storage_packet :: "u32 \<Rightarrow> u8 \<Rightarrow> u8 \<Rightarrow> u8 list" where
  "storage_packet p1 t c = command_packet [p1, 0, 0, 0, 0, 0, 0] MAV_CMD_PREFLIGHT_STORAGE t c 0"

definition calibration_packet :: "u32 \<Rightarrow> u8 \<Rightarrow> u8 \<Rightarrow> u8 list" where
  "calibration_packet p4 t c = command_packet [0, 0, 0, p4, 0, 0, 0] MAV_CMD_PREFLIGHT_CALIBRATION t c 0"

lemma storage_received:
  assumes "gcs_ok g" "n = 33"
  shows "\<exists>lk. link_ok lk \<and> radio_bytes e (wire n sq si ci MAVLINK_MSG_ID_COMMAND_LONG (storage_packet 0x3F800000 t c)) (g, r, ds)
      = ([], g\<lparr>link := lk\<rparr>, r, write_param_to_eeprom (flash_controller e) (g\<lparr>link := lk\<rparr>) ds)"
    "\<exists>lk. link_ok lk \<and> radio_bytes e (wire n sq si ci MAVLINK_MSG_ID_COMMAND_LONG (storage_packet 0 t c)) (g, r, ds)
      = ([], read_param_from_eeprom (stack_low e) (stack_high e) (snd ds) (g\<lparr>link := lk\<rparr>), r, ds)"
  using command_received[OF assms(1) _ assms(2), of "[0x3F800000, 0, 0, 0, 0, 0, 0]" e sq si ci MAV_CMD_PREFLIGHT_STORAGE t c 0 "(r, ds)"]
    command_received[OF assms(1) _ assms(2), of "[0, 0, 0, 0, 0, 0, 0]" e sq si ci MAV_CMD_PREFLIGHT_STORAGE t c 0 "(r, ds)"]
  by (auto simp: storage_packet_def handle_command_long_def param_is_iff
      MAV_CMD_PREFLIGHT_STORAGE_def MAV_CMD_PREFLIGHT_CALIBRATION_def)

lemma calibration_received:
  assumes "gcs_ok g" "n = 33"
  shows "\<exists>lk. link_ok lk \<and> radio_bytes e (wire n sq si ci MAVLINK_MSG_ID_COMMAND_LONG (calibration_packet 0x3F800000 t c)) (g, r, ds)
      = ([], g\<lparr>link := lk\<rparr>, start_calib r, ds)"
    "\<exists>lk. link_ok lk \<and> radio_bytes e (wire n sq si ci MAVLINK_MSG_ID_COMMAND_LONG (calibration_packet 0 t c)) (g, r, ds)
      = ([], g\<lparr>link := lk\<rparr>, stop_calib (flash_controller e) (r, ds))"
  using command_received[OF assms(1) _ assms(2), of "[0, 0, 0, 0x3F800000, 0, 0, 0]" e sq si ci MAV_CMD_PREFLIGHT_CALIBRATION t c 0 "(r, ds)"]
    command_received[OF assms(1) _ assms(2), of "[0, 0, 0, 0, 0, 0, 0]" e sq si ci MAV_CMD_PREFLIGHT_CALIBRATION t c 0 "(r, ds)"]
  by (auto simp: calibration_packet_def handle_command_long_def param_is_iff
      MAV_CMD_PREFLIGHT_STORAGE_def MAV_CMD_PREFLIGHT_CALIBRATION_def split: prod.split)

lemma request_received:
  assumes "gcs_ok g" "n = 2"
  shows "\<exists>lk. link_ok lk \<and> tx_seq lk = tx_seq (link g)
    \<and> radio_bytes e (wire n sq si ci MAVLINK_MSG_ID_PARAM_REQUEST_LIST [t, c]) (g, rd)
      = ([], g\<lparr>link := lk, m_parameter_i := 0\<rparr>, rd)"
proof -
  have ok: "link_ok (link g)" "length [t, c] = unat n" using assms by (simp_all add: gcs_ok_def)
  obtain m lk where m: "radio_bytes e (wire n sq si ci MAVLINK_MSG_ID_PARAM_REQUEST_LIST [t, c]) (g, rd)
      = handle_message e m (g\<lparr>link := lk\<rparr>, rd)" "carries m (sq, si, ci, MAVLINK_MSG_ID_PARAM_REQUEST_LIST, [t, c])"
      "link_ok lk" "tx_seq lk = tx_seq (link g)"
    using radio_frame[OF ok, of e sq si ci MAVLINK_MSG_ID_PARAM_REQUEST_LIST rd] by blast
  have "msgid m = MAVLINK_MSG_ID_PARAM_REQUEST_LIST" using m(2) by (simp add: carries_def)
  then show ?thesis using m by (auto simp: handle_message_def msg_ids)
qed

lemma queued_sends_done:
  "42 \<le> unat (m_parameter_i g) \<Longrightarrow> queued_sends js g = (replicate (length js) [], g)"
  by (induction js) (simp_all add: queued_send_done)

lemma queued_sends_append:
  "queued_sends (a @ b) g = (case queued_sends a g of (o1, g) \<Rightarrow> case queued_sends b g of (o2, g) \<Rightarrow> (o1 @ o2, g))"
  by (induction a arbitrary: g) (auto split: prod.split)

lemma list_after_request:
  assumes "gcs_ok g" "\<forall>junk \<in> set js. length (payload junk) = 264" "length js = 42" "m_parameter_i g = 0"
  shows "fst (queued_sends (js @ rest) g) = map (list_frame g (tx_seq (link g))) [0..<42] @ replicate (length rest) []"
proof -
  obtain lk where lk: "queued_sends js g = (map (list_frame g (tx_seq (link g))) [0..<42],
      g\<lparr>m_parameter_i := 42, link := lk\<rparr>)"
    using queued_sends_list[OF assms(1,2), of "tx_seq (link g)"] assms(3,4) by auto
  show ?thesis unfolding queued_sends_append lk by (simp add: queued_sends_done del: upt_Suc)
qed

section \<open>Telemetry\<close>

lemma le16s_length [simp]: "length (concat (map le16 ws)) = 2 * length ws"
  by (induction ws) simp_all

lemma telemetry_frames:
  assumes "length (payload junk) = 264"
  shows "fst (send_heartbeat junk g) = wire 9 (tx_seq (link g)) (system_sysid g) (system_compid g)
      MAVLINK_MSG_ID_HEARTBEAT (le32 0 @ [2, 0, 0, 4, 3])"
    "fst (send_attitude junk tm ro ni ya rs ps ys g) = wire 28 (tx_seq (link g)) (system_sysid g) (system_compid g)
      MAVLINK_MSG_ID_ATTITUDE (le32 tm @ le32 ro @ le32 ni @ le32 ya @ le32 rs @ le32 ps @ le32 ys)"
    "fst (send_rc_channels_scaled junk tm r g) = wire 22 (tx_seq (link g)) (system_sysid g) (system_compid g)
      MAVLINK_MSG_ID_RC_CHANNELS_SCALED (le32 tm @ concat (map le16 [get_chan1_scaled r, get_chan2_scaled r,
        get_chan3_scaled r, get_chan4_scaled r, 32767, 32767, 32767, 32767]) @ [0, 255])"
    "fst (send_servo_output_raw junk tm m g) = frame_with 242 21 (tx_seq (link g)) (system_sysid g) (system_compid g)
      MAVLINK_MSG_ID_SERVO_OUTPUT_RAW (le32 tm @ concat (map le16 [getMotor_1 m, getMotor_2 m,
        getMotor_3 m, getMotor_4 m, 0, 0, 0, 0]) @ [0])"
    "50 \<le> length txt \<Longrightarrow> fst (send_statustext junk sev txt g) = wire 51 (tx_seq (link g)) (system_sysid g) (system_compid g)
      MAVLINK_MSG_ID_STATUSTEXT (sev # take 50 txt)"
  using assms crc_extras
  by (simp_all add: send_heartbeat_def send_attitude_def send_rc_channels_scaled_def send_servo_output_raw_def
      send_statustext_def pack_defs transmit_frame MAV_TYPE_QUADROTOR_def MAV_AUTOPILOT_GENERIC_def
      MAV_MODE_PREFLIGHT_def MAV_STATE_ACTIVE_def flip: frame_with_wire)

text \<open>Each of them at a ground station.\<close>

lemma telemetry_heartbeat:
  assumes "length (payload junk) = 264" "link_ok ground"
  shows "\<exists>m. fst (mavlink_receive MAVLINK_COMM_0 (fst (send_heartbeat junk g)) ground) = [m]
    \<and> msgid m = MAVLINK_MSG_ID_HEARTBEAT \<and> sysid m = system_sysid g"
proof -
  have "length (le32 0 @ [2, 0, 0, 4, 3]) = unat (9 :: u8)" by simp
  from wire_received[OF _ this] show ?thesis
    using assms(2) by (force simp: telemetry_frames[OF assms(1)] link_ok_def carries_def)
qed

lemma field32: "take n (payload m) = a @ le32 w @ b \<Longrightarrow> get32 m (length a) = w"
  using get32_le[of "length a" m w "b @ drop n (payload m)"] append_take_drop_id[of n "payload m"]
  by (metis append.assoc append_eq_conv_conj)

lemma field16: "take n (payload m) = a @ le16 w @ b \<Longrightarrow> get16 m (length a) = w"
  using get16_le[of "length a" m w "b @ drop n (payload m)"] append_take_drop_id[of n "payload m"]
  by (metis append.assoc append_eq_conv_conj)

lemma fields32:
  "take n (payload m) = a @ concat (map le32 ws) @ b \<Longrightarrow> i < length ws \<Longrightarrow> get32 m (length a + 4 * i) = ws ! i"
proof (induction ws arbitrary: a i)
  case (Cons w ws)
  have p: "take n (payload m) = (a @ le32 w) @ concat (map le32 ws) @ b" using Cons.prems(1) by simp
  show ?case
  proof (cases i)
    case 0
    then show ?thesis using field32[of n m a w "concat (map le32 ws) @ b"] Cons.prems(1) by simp
  next
    case (Suc j)
    then show ?thesis using Cons.IH[OF p, of j] Cons.prems(2) by (simp add: add.commute add.left_commute)
  qed
qed simp

lemma fields16:
  "take n (payload m) = a @ concat (map le16 ws) @ b \<Longrightarrow> i < length ws \<Longrightarrow> get16 m (length a + 2 * i) = ws ! i"
proof (induction ws arbitrary: a i)
  case (Cons w ws)
  have p: "take n (payload m) = (a @ le16 w) @ concat (map le16 ws) @ b" using Cons.prems(1) by simp
  show ?case
  proof (cases i)
    case 0
    then show ?thesis using field16[of n m a w "concat (map le16 ws) @ b"] Cons.prems(1) by simp
  next
    case (Suc j)
    then show ?thesis using Cons.IH[OF p, of j] Cons.prems(2) by (simp add: add.commute add.left_commute)
  qed
qed simp

lemma telemetry_attitude:
  assumes "length (payload junk) = 264" "link_ok ground"
  shows "\<exists>m. fst (mavlink_receive MAVLINK_COMM_0 (fst (send_attitude junk tm ro ni ya rs ns ys g)) ground) = [m]
    \<and> msgid m = MAVLINK_MSG_ID_ATTITUDE \<and> (\<forall>i < 7. get32 m (4 * i) = [tm, ro, ni, ya, rs, ns, ys] ! i)"
proof -
  let ?ds = "le32 tm @ le32 ro @ le32 ni @ le32 ya @ le32 rs @ le32 ns @ le32 ys"
  have l: "length ?ds = unat (28 :: u8)" by simp
  obtain m where m: "fst (mavlink_receive MAVLINK_COMM_0 (wire 28 (tx_seq (link g)) (system_sysid g) (system_compid g)
      MAVLINK_MSG_ID_ATTITUDE ?ds) ground) = [m]"
    "carries m (tx_seq (link g), system_sysid g, system_compid g, MAVLINK_MSG_ID_ATTITUDE, ?ds)"
    using wire_received[OF _ l] assms(2) unfolding link_ok_def by blast
  have "take 28 (payload m) = [] @ concat (map le32 [tm, ro, ni, ya, rs, ns, ys]) @ []"
    using m(2) by (simp add: carries_def)
  then have "\<forall>i < 7. get32 m (4 * i) = [tm, ro, ni, ya, rs, ns, ys] ! i" using fields32[of 28 m "[]"] by auto
  moreover have "msgid m = MAVLINK_MSG_ID_ATTITUDE" using m(2) by (simp add: carries_def)
  ultimately show ?thesis using m(1) unfolding telemetry_frames(2)[OF assms(1)] by blast
qed

lemma telemetry_channels:
  assumes "length (payload junk) = 264" "link_ok ground"
  shows "\<exists>m. fst (mavlink_receive MAVLINK_COMM_0 (fst (send_rc_channels_scaled junk tm r g)) ground) = [m]
    \<and> msgid m = MAVLINK_MSG_ID_RC_CHANNELS_SCALED
    \<and> (\<forall>i < 4. get16 m (4 + 2 * i) = [get_chan1_scaled r, get_chan2_scaled r, get_chan3_scaled r, get_chan4_scaled r] ! i)"
proof -
  let ?ws = "[get_chan1_scaled r, get_chan2_scaled r, get_chan3_scaled r, get_chan4_scaled r, 32767, 32767, 32767, 32767]"
  let ?ds = "le32 tm @ concat (map le16 ?ws) @ [0, 255]"
  have l: "length ?ds = unat (22 :: u8)" by simp
  obtain m where m: "fst (mavlink_receive MAVLINK_COMM_0 (wire 22 (tx_seq (link g)) (system_sysid g) (system_compid g)
      MAVLINK_MSG_ID_RC_CHANNELS_SCALED ?ds) ground) = [m]"
    "carries m (tx_seq (link g), system_sysid g, system_compid g, MAVLINK_MSG_ID_RC_CHANNELS_SCALED, ?ds)"
    using wire_received[OF _ l] assms(2) unfolding link_ok_def by blast
  have p: "take 22 (payload m) = ?ds" using m(2) by (simp add: carries_def)
  have "get16 m (4 + 2 * i) = ?ws ! i" if "i < 8" for i using fields16[OF p] that by simp
  from this[of 0] this[of 1] this[of 2] this[of 3]
  have "\<forall>i < 4. get16 m (4 + 2 * i) = [get_chan1_scaled r, get_chan2_scaled r, get_chan3_scaled r, get_chan4_scaled r] ! i"
    by (auto simp: less_Suc_eq numeral_eq_Suc)
  moreover have "msgid m = MAVLINK_MSG_ID_RC_CHANNELS_SCALED" using m(2) by (simp add: carries_def)
  ultimately show ?thesis using m(1) unfolding telemetry_frames(3)[OF assms(1)] by blast
qed

lemma telemetry_servo:
  assumes "length (payload junk) = 264" "link_ok ground"
  shows "fst (mavlink_receive MAVLINK_COMM_0 (fst (send_servo_output_raw junk tm mo g)) ground) = []"
  unfolding telemetry_frames(4)[OF assms(1)] using assms(2) crc_extras(6)
  by (intro frame_with_dropped) (simp_all add: link_ok_def)

end
