(* ===== verification/I2Cdev.thy ===== *)
theory I2Cdev
  imports Prelude
begin

text \<open>
  \<^verbatim>\<open>src/Quad/I2Cdev/I2Cdev.cpp\<close>: registers of a device on the I2C bus, whole, by bits and
  in blocks. The bus and the device on it are not code of the repository: \<^verbatim>\<open>i2cMasterTransmit\<close> is
  the parameter \<open>bus\<close>, which gets the address, the bytes to send, the number of bytes to
  receive and the state of the device, and returns whether it succeeded, the bytes that
  came in before it ended, and the new state.

  Bit positions and lengths are literals at every call and are numbers here.
\<close>

unbundle bit_operations_syntax

type_synonym 'd bus = "u8 \<Rightarrow> u8 list \<Rightarrow> nat \<Rightarrow> 'd \<Rightarrow> (bool \<times> u8 list) \<times> 'd"

record 'd i2c =
  chip :: 'd
  rxbuf_global :: "u8 list"

definition i2cMasterTransmit ::
    "'d bus \<Rightarrow> u8 \<Rightarrow> u8 list \<Rightarrow> u8 list \<Rightarrow> nat \<Rightarrow> ('d, 'z) i2c_scheme \<Rightarrow> (bool \<times> u8 list) \<times> ('d, 'z) i2c_scheme" where
  "i2cMasterTransmit bus devAddr txbuf rxbuf n s =
     (case bus devAddr txbuf n (chip s) of ((ok, rx), c) \<Rightarrow>
        ((ok, take n rx @ drop (length (take n rx)) rxbuf), s\<lparr>chip := c\<rparr>))"

section \<open>Reading\<close>

text \<open>
  Two bytes are received where one is wanted. Whether the transfer succeeded is not looked at: after a failure
  the result is what the buffer held before.
\<close>

definition readByte :: "'d bus \<Rightarrow> u8 \<Rightarrow> u8 \<Rightarrow> ('d, 'z) i2c_scheme \<Rightarrow> u8 \<times> ('d, 'z) i2c_scheme" where
  "readByte bus devAddr regAddr s =
     (case i2cMasterTransmit bus devAddr [regAddr] (rxbuf_global s) 2 s of ((ok, rx), s) \<Rightarrow>
        (rx ! 0, s\<lparr>rxbuf_global := rx\<rparr>))"

text \<open>The bits \<open>bitStart\<close> down to \<open>bitStart - len + 1\<close>.\<close>

definition bit_mask :: "nat \<Rightarrow> nat \<Rightarrow> u8" where
  "bit_mask bitStart len = push_bit (bitStart + 1 - len) (mask len)"

text \<open>\<open>rxbuf\<close> is what the uninitialised local array holds.\<close>

definition readBit :: "'d bus \<Rightarrow> u8 list \<Rightarrow> u8 \<Rightarrow> u8 \<Rightarrow> nat \<Rightarrow> ('d, 'z) i2c_scheme \<Rightarrow> u8 \<times> ('d, 'z) i2c_scheme" where
  "readBit bus rxbuf devAddr regAddr bitNum s =
     (case i2cMasterTransmit bus devAddr [regAddr] rxbuf 2 s of ((ok, rx), s) \<Rightarrow>
        (rx ! 0 AND push_bit bitNum 1, s))"

definition readBits :: "'d bus \<Rightarrow> u8 list \<Rightarrow> u8 \<Rightarrow> u8 \<Rightarrow> nat \<Rightarrow> nat \<Rightarrow> ('d, 'z) i2c_scheme \<Rightarrow> u8 \<times> ('d, 'z) i2c_scheme" where
  "readBits bus rxbuf devAddr regAddr bitStart len s =
     (case i2cMasterTransmit bus devAddr [regAddr] rxbuf 2 s of ((ok, rx), s) \<Rightarrow>
        (drop_bit (bitStart + 1 - len) (rx ! 0 AND bit_mask bitStart len), s))"

text \<open>The status, the buffer after the call and the state.\<close>

definition readBytes :: "'d bus \<Rightarrow> u8 \<Rightarrow> u8 \<Rightarrow> u8 \<Rightarrow> u8 list \<Rightarrow> ('d, 'z) i2c_scheme \<Rightarrow> (u8 \<times> u8 list) \<times> ('d, 'z) i2c_scheme" where
  "readBytes bus devAddr regAddr len data s =
     (if len = 1 then (case readByte bus devAddr regAddr s of (b, s) \<Rightarrow> ((1, data[0 := b]), s))
      else (case i2cMasterTransmit bus devAddr [regAddr] data (unat len) s of ((ok, rx), s) \<Rightarrow>
        ((if ok then 1 else 0, rx), s)))"

section \<open>Writing\<close>

text \<open>The register address goes out with its highest bit set.\<close>

definition writeBytes :: "'d bus \<Rightarrow> u8 \<Rightarrow> u8 \<Rightarrow> u8 \<Rightarrow> u8 list \<Rightarrow> ('d, 'z) i2c_scheme \<Rightarrow> bool \<times> ('d, 'z) i2c_scheme" where
  "writeBytes bus devAddr regAddr len data s =
     (case i2cMasterTransmit bus devAddr ((regAddr OR push_bit 7 1) # map (\<lambda>i. data ! i) [0..<unat len]) [] 0 s of
        ((ok, rx), s) \<Rightarrow> (ok, s))"

definition writeByte :: "'d bus \<Rightarrow> u8 \<Rightarrow> u8 \<Rightarrow> u8 \<Rightarrow> ('d, 'z) i2c_scheme \<Rightarrow> bool \<times> ('d, 'z) i2c_scheme" where
  "writeByte bus devAddr regAddr data s = writeBytes bus devAddr regAddr 1 [data] s"

text \<open>Words are sent as they lie in memory, the low byte first.\<close>

definition writeWords :: "'d bus \<Rightarrow> u8 \<Rightarrow> u8 \<Rightarrow> u8 \<Rightarrow> u16 list \<Rightarrow> ('d, 'z) i2c_scheme \<Rightarrow> bool \<times> ('d, 'z) i2c_scheme" where
  "writeWords bus devAddr regAddr len data s =
     writeBytes bus devAddr regAddr (len * 2) (concat (map (\<lambda>w. [ucast w, ucast (drop_bit 8 w)]) data)) s"

definition writeWord :: "'d bus \<Rightarrow> u8 \<Rightarrow> u8 \<Rightarrow> u16 \<Rightarrow> ('d, 'z) i2c_scheme \<Rightarrow> bool \<times> ('d, 'z) i2c_scheme" where
  "writeWord bus devAddr regAddr data s = writeWords bus devAddr regAddr 1 [data] s"

definition writeBit :: "'d bus \<Rightarrow> u8 \<Rightarrow> u8 \<Rightarrow> nat \<Rightarrow> u8 \<Rightarrow> ('d, 'z) i2c_scheme \<Rightarrow> bool \<times> ('d, 'z) i2c_scheme" where
  "writeBit bus devAddr regAddr bitNum data s =
     (case readByte bus devAddr regAddr s of (b, s) \<Rightarrow>
        writeByte bus devAddr regAddr
          (if data \<noteq> 0 then b OR push_bit bitNum 1 else b AND NOT (push_bit bitNum 1)) s)"

text \<open>\<open>readByte\<close> always returns 1.\<close>

definition writeBits :: "'d bus \<Rightarrow> u8 \<Rightarrow> u8 \<Rightarrow> nat \<Rightarrow> nat \<Rightarrow> u8 \<Rightarrow> ('d, 'z) i2c_scheme \<Rightarrow> bool \<times> ('d, 'z) i2c_scheme" where
  "writeBits bus devAddr regAddr bitStart len data s =
     (case readByte bus devAddr regAddr s of (b, s) \<Rightarrow>
        let m = bit_mask bitStart len;
            data = push_bit (bitStart + 1 - len) data;
            data = data AND m;
            b = b AND NOT m;
            b = b OR data
        in writeByte bus devAddr regAddr b s)"

section \<open>A device that keeps its registers\<close>

text \<open>
  What the documentation of a device says of plain registers \<open>R\<close>: a read gives the value,
  a write replaces it, neither changes another register of \<open>R\<close>, and the highest bit of
  the address of a write is not looked at. \<open>reg\<close> is the value of a register in a state of the device.
\<close>

definition keeps_registers :: "'d bus \<Rightarrow> u8 \<Rightarrow> ('d \<Rightarrow> u8 \<Rightarrow> u8) \<Rightarrow> u8 set \<Rightarrow> bool" where
  "keeps_registers bus a reg R \<longleftrightarrow> (\<forall>c. \<forall>r \<in> R.
     (\<exists>x c'. bus a [r] 2 c = ((True, [reg c r, x]), c') \<and> (\<forall>q \<in> R. reg c' q = reg c q)) \<and>
     (\<forall>v. \<exists>c'. bus a [r OR 128, v] 0 c = ((True, []), c') \<and> (\<forall>q \<in> R. reg c' q = ((reg c)(r := v)) q)))"

lemma regD:
  assumes "keeps_registers bus a reg R" "r \<in> R"
  obtains x c' where "bus a [r] 2 c = ((True, [reg c r, x]), c')" "\<And>q. q \<in> R \<Longrightarrow> reg c' q = reg c q"
  using assms unfolding keeps_registers_def by blast

lemma regE:
  assumes "keeps_registers bus a reg R" "r \<in> R"
  obtains c' where "bus a [r OR 128, v] 0 c = ((True, []), c')"
    "\<And>q. q \<in> R \<Longrightarrow> reg c' q = ((reg c)(r := v)) q"
  using assms unfolding keeps_registers_def by blast

lemma readByte_reg:
  assumes "keeps_registers bus a reg R" "r \<in> R"
  obtains s' where "readByte bus a r s = (reg (chip s) r, s')" "\<And>q. q \<in> R \<Longrightarrow> reg (chip s') q = reg (chip s) q"
proof -
  obtain x c' where "bus a [r] 2 (chip s) = ((True, [reg (chip s) r, x]), c')"
    "\<And>q. q \<in> R \<Longrightarrow> reg c' q = reg (chip s) q" using regD[OF assms] by blast
  then show ?thesis by (intro that[of "s\<lparr>chip := c', rxbuf_global := [reg (chip s) r, x] @ drop 2 (rxbuf_global s)\<rparr>"])
      (simp_all add: readByte_def i2cMasterTransmit_def numeral_2_eq_2)
qed

lemma readBits_reg:
  assumes "keeps_registers bus a reg R" "r \<in> R"
  obtains s' where "readBits bus j a r b l s = (drop_bit (b + 1 - l) (reg (chip s) r AND bit_mask b l), s')"
    "\<And>q. q \<in> R \<Longrightarrow> reg (chip s') q = reg (chip s) q"
proof -
  obtain x c' where "bus a [r] 2 (chip s) = ((True, [reg (chip s) r, x]), c')"
    "\<And>q. q \<in> R \<Longrightarrow> reg c' q = reg (chip s) q" using regD[OF assms] by blast
  then show ?thesis by (intro that[of "s\<lparr>chip := c'\<rparr>"]) (simp_all add: readBits_def i2cMasterTransmit_def)
qed

lemma writeByte_reg:
  assumes "keeps_registers bus a reg R" "r \<in> R"
  obtains s' where "writeByte bus a r v s = (True, s')"
    "\<And>q. q \<in> R \<Longrightarrow> reg (chip s') q = ((reg (chip s))(r := v)) q"
proof -
  obtain c' where "bus a [r OR 128, v] 0 (chip s) = ((True, []), c')"
    "\<And>q. q \<in> R \<Longrightarrow> reg c' q = ((reg (chip s))(r := v)) q" using regE[OF assms] by blast
  then show ?thesis by (intro that[of "s\<lparr>chip := c'\<rparr>"])
      (simp_all add: writeByte_def writeBytes_def i2cMasterTransmit_def)
qed

text \<open>The bits of a field and the others.\<close>

definition put_field :: "nat \<Rightarrow> nat \<Rightarrow> u8 \<Rightarrow> u8 \<Rightarrow> u8" where
  "put_field b l data old = (old AND NOT (bit_mask b l)) OR (push_bit (b + 1 - l) data AND bit_mask b l)"

lemma field_read_back:
  assumes "l \<le> b + 1" "b < 8"
  shows "drop_bit (b + 1 - l) (put_field b l data old AND bit_mask b l) = take_bit l data"
  using assms by (auto simp: put_field_def bit_mask_def bit_eq_iff bit_simps)

lemma field_others:
  assumes "l \<le> b + 1" "i < b + 1 - l \<or> b < i" "i < 8"
  shows "bit (put_field b l data old) i = bit old i"
  using assms by (auto simp: put_field_def bit_mask_def bit_simps)

lemma writeBits_reg:
  assumes "keeps_registers bus a reg R" "r \<in> R"
  obtains s' where "writeBits bus a r b l data s = (True, s')"
    "\<And>q. q \<in> R \<Longrightarrow> reg (chip s') q = ((reg (chip s))(r := put_field b l data (reg (chip s) r))) q"
proof -
  obtain s1 where s1: "readByte bus a r s = (reg (chip s) r, s1)"
    "\<And>q. q \<in> R \<Longrightarrow> reg (chip s1) q = reg (chip s) q" using readByte_reg[OF assms] by blast
  obtain s2 where "writeByte bus a r (put_field b l data (reg (chip s) r)) s1 = (True, s2)"
    "\<And>q. q \<in> R \<Longrightarrow> reg (chip s2) q = ((reg (chip s1))(r := put_field b l data (reg (chip s) r))) q"
    using writeByte_reg[OF assms] by blast
  then show ?thesis using s1 by (intro that[of s2]) (simp_all add: writeBits_def put_field_def Let_def)
qed

lemma writeBit_field:
  "(if data \<noteq> 0 then old OR push_bit b 1 else old AND NOT (push_bit b 1))
     = put_field b 1 (if data \<noteq> 0 then 1 else 0) old"
proof (intro bit_word_eqI)
  fix n assume n: "n < LENGTH(8)"
  show "bit (if data \<noteq> 0 then old OR push_bit b 1 else old AND NOT (push_bit b 1)) n
      = bit (put_field b 1 (if data \<noteq> 0 then 1 else 0) old) n"
    using n by (cases "n = b") (auto simp: put_field_def bit_mask_def bit_simps)
qed

end
