(* ===== verification/Mpu.thy ===== *)
theory Mpu
  imports I2Cdev
begin

text \<open>
  The part of \<^verbatim>\<open>src/Quad/MPU6050/MPU6050.cpp\<close> and \<^verbatim>\<open>MPU6050_6Axis_MotionApps20.h\<close> the
  firmware uses: settings, the memory of the motion processor in the sensor, loading its
  program and its configuration, and reading its results from the FIFO. The state is that of the bus with
  the sensor and the object's \<^verbatim>\<open>buffer\<close>. Pauses and debug output are left out.
\<close>

unbundle bit_operations_syntax

record 'd mpu = "'d i2c" +
  buffer :: "u8 list"

section \<open>Registers\<close>

definition MPU6050_DEFAULT_ADDRESS :: u8 where "MPU6050_DEFAULT_ADDRESS = 0x68"

definition MPU6050_RA_XG_OFFS_TC :: u8 where "MPU6050_RA_XG_OFFS_TC = 0x00"
definition MPU6050_RA_YG_OFFS_TC :: u8 where "MPU6050_RA_YG_OFFS_TC = 0x01"
definition MPU6050_RA_ZG_OFFS_TC :: u8 where "MPU6050_RA_ZG_OFFS_TC = 0x02"
definition MPU6050_RA_XG_OFFS_USRH :: u8 where "MPU6050_RA_XG_OFFS_USRH = 0x13"
definition MPU6050_RA_YG_OFFS_USRH :: u8 where "MPU6050_RA_YG_OFFS_USRH = 0x15"
definition MPU6050_RA_ZG_OFFS_USRH :: u8 where "MPU6050_RA_ZG_OFFS_USRH = 0x17"
definition MPU6050_RA_SMPLRT_DIV :: u8 where "MPU6050_RA_SMPLRT_DIV = 0x19"
definition MPU6050_RA_CONFIG :: u8 where "MPU6050_RA_CONFIG = 0x1A"
definition MPU6050_RA_GYRO_CONFIG :: u8 where "MPU6050_RA_GYRO_CONFIG = 0x1B"
definition MPU6050_RA_ACCEL_CONFIG :: u8 where "MPU6050_RA_ACCEL_CONFIG = 0x1C"
definition MPU6050_RA_MOT_THR :: u8 where "MPU6050_RA_MOT_THR = 0x1F"
definition MPU6050_RA_MOT_DUR :: u8 where "MPU6050_RA_MOT_DUR = 0x20"
definition MPU6050_RA_ZRMOT_THR :: u8 where "MPU6050_RA_ZRMOT_THR = 0x21"
definition MPU6050_RA_ZRMOT_DUR :: u8 where "MPU6050_RA_ZRMOT_DUR = 0x22"
definition MPU6050_RA_I2C_SLV0_ADDR :: u8 where "MPU6050_RA_I2C_SLV0_ADDR = 0x25"
definition MPU6050_RA_INT_ENABLE :: u8 where "MPU6050_RA_INT_ENABLE = 0x38"
definition MPU6050_RA_INT_STATUS :: u8 where "MPU6050_RA_INT_STATUS = 0x3A"
definition MPU6050_RA_USER_CTRL :: u8 where "MPU6050_RA_USER_CTRL = 0x6A"
definition MPU6050_RA_PWR_MGMT_1 :: u8 where "MPU6050_RA_PWR_MGMT_1 = 0x6B"
definition MPU6050_RA_BANK_SEL :: u8 where "MPU6050_RA_BANK_SEL = 0x6D"
definition MPU6050_RA_MEM_START_ADDR :: u8 where "MPU6050_RA_MEM_START_ADDR = 0x6E"
definition MPU6050_RA_MEM_R_W :: u8 where "MPU6050_RA_MEM_R_W = 0x6F"
definition MPU6050_RA_DMP_CFG_1 :: u8 where "MPU6050_RA_DMP_CFG_1 = 0x70"
definition MPU6050_RA_DMP_CFG_2 :: u8 where "MPU6050_RA_DMP_CFG_2 = 0x71"
definition MPU6050_RA_FIFO_COUNTH :: u8 where "MPU6050_RA_FIFO_COUNTH = 0x72"
definition MPU6050_RA_FIFO_R_W :: u8 where "MPU6050_RA_FIFO_R_W = 0x74"

definition MPU6050_TC_OTP_BNK_VLD_BIT :: nat where "MPU6050_TC_OTP_BNK_VLD_BIT = 0"
definition MPU6050_TC_OFFSET_BIT :: nat where "MPU6050_TC_OFFSET_BIT = 6"
definition MPU6050_TC_OFFSET_LENGTH :: nat where "MPU6050_TC_OFFSET_LENGTH = 6"
definition MPU6050_CFG_EXT_SYNC_SET_BIT :: nat where "MPU6050_CFG_EXT_SYNC_SET_BIT = 5"
definition MPU6050_CFG_EXT_SYNC_SET_LENGTH :: nat where "MPU6050_CFG_EXT_SYNC_SET_LENGTH = 3"
definition MPU6050_CFG_DLPF_CFG_BIT :: nat where "MPU6050_CFG_DLPF_CFG_BIT = 2"
definition MPU6050_CFG_DLPF_CFG_LENGTH :: nat where "MPU6050_CFG_DLPF_CFG_LENGTH = 3"
definition MPU6050_GCONFIG_FS_SEL_BIT :: nat where "MPU6050_GCONFIG_FS_SEL_BIT = 4"
definition MPU6050_GCONFIG_FS_SEL_LENGTH :: nat where "MPU6050_GCONFIG_FS_SEL_LENGTH = 2"
definition MPU6050_ACONFIG_AFS_SEL_BIT :: nat where "MPU6050_ACONFIG_AFS_SEL_BIT = 4"
definition MPU6050_ACONFIG_AFS_SEL_LENGTH :: nat where "MPU6050_ACONFIG_AFS_SEL_LENGTH = 2"
definition MPU6050_USERCTRL_DMP_EN_BIT :: nat where "MPU6050_USERCTRL_DMP_EN_BIT = 7"
definition MPU6050_USERCTRL_FIFO_EN_BIT :: nat where "MPU6050_USERCTRL_FIFO_EN_BIT = 6"
definition MPU6050_USERCTRL_I2C_MST_EN_BIT :: nat where "MPU6050_USERCTRL_I2C_MST_EN_BIT = 5"
definition MPU6050_USERCTRL_DMP_RESET_BIT :: nat where "MPU6050_USERCTRL_DMP_RESET_BIT = 3"
definition MPU6050_USERCTRL_FIFO_RESET_BIT :: nat where "MPU6050_USERCTRL_FIFO_RESET_BIT = 2"
definition MPU6050_USERCTRL_I2C_MST_RESET_BIT :: nat where "MPU6050_USERCTRL_I2C_MST_RESET_BIT = 1"
definition MPU6050_PWR1_DEVICE_RESET_BIT :: nat where "MPU6050_PWR1_DEVICE_RESET_BIT = 7"
definition MPU6050_PWR1_SLEEP_BIT :: nat where "MPU6050_PWR1_SLEEP_BIT = 6"
definition MPU6050_PWR1_CLKSEL_BIT :: nat where "MPU6050_PWR1_CLKSEL_BIT = 2"
definition MPU6050_PWR1_CLKSEL_LENGTH :: nat where "MPU6050_PWR1_CLKSEL_LENGTH = 3"
definition MPU6050_EXT_SYNC_TEMP_OUT_L :: u8 where "MPU6050_EXT_SYNC_TEMP_OUT_L = 0x1"
definition MPU6050_DLPF_BW_42 :: u8 where "MPU6050_DLPF_BW_42 = 0x03"
definition MPU6050_GYRO_FS_250 :: u8 where "MPU6050_GYRO_FS_250 = 0x00"
definition MPU6050_GYRO_FS_2000 :: u8 where "MPU6050_GYRO_FS_2000 = 0x03"
definition MPU6050_ACCEL_FS_2 :: u8 where "MPU6050_ACCEL_FS_2 = 0x00"
definition MPU6050_CLOCK_PLL_XGYRO :: u8 where "MPU6050_CLOCK_PLL_XGYRO = 0x01"
definition MPU6050_CLOCK_PLL_ZGYRO :: u8 where "MPU6050_CLOCK_PLL_ZGYRO = 0x03"

definition MPU6050_DMP_MEMORY_CHUNK_SIZE :: nat where "MPU6050_DMP_MEMORY_CHUNK_SIZE = 16"
definition MPU6050_DMP_CODE_SIZE :: nat where "MPU6050_DMP_CODE_SIZE = 1929"
definition MPU6050_DMP_CONFIG_SIZE :: nat where "MPU6050_DMP_CONFIG_SIZE = 192"
definition dmpPacketSize :: u16 where "dmpPacketSize = 42"

section \<open>Settings\<close>

text \<open>Every call goes to the sensor's address; the results of writes are not looked at.\<close>

definition put_byte :: "'d bus \<Rightarrow> u8 \<Rightarrow> u8 \<Rightarrow> ('d, 'z) mpu_scheme \<Rightarrow> ('d, 'z) mpu_scheme" where
  "put_byte bus r v s = snd (writeByte bus MPU6050_DEFAULT_ADDRESS r v s)"

definition put_bit :: "'d bus \<Rightarrow> u8 \<Rightarrow> nat \<Rightarrow> bool \<Rightarrow> ('d, 'z) mpu_scheme \<Rightarrow> ('d, 'z) mpu_scheme" where
  "put_bit bus r b v s = snd (writeBit bus MPU6050_DEFAULT_ADDRESS r b (if v then 1 else 0) s)"

definition put_bits :: "'d bus \<Rightarrow> u8 \<Rightarrow> nat \<Rightarrow> nat \<Rightarrow> u8 \<Rightarrow> ('d, 'z) mpu_scheme \<Rightarrow> ('d, 'z) mpu_scheme" where
  "put_bits bus r b l v s = snd (writeBits bus MPU6050_DEFAULT_ADDRESS r b l v s)"

definition put_word :: "'d bus \<Rightarrow> u8 \<Rightarrow> u16 \<Rightarrow> ('d, 'z) mpu_scheme \<Rightarrow> ('d, 'z) mpu_scheme" where
  "put_word bus r v s = snd (writeWord bus MPU6050_DEFAULT_ADDRESS r v s)"

text \<open>What is read goes into \<^verbatim>\<open>buffer[0]\<close>, which is returned.\<close>

definition to_buffer :: "u8 \<times> ('d, 'z) mpu_scheme \<Rightarrow> u8 \<times> ('d, 'z) mpu_scheme" where
  "to_buffer r = (case r of (b, s) \<Rightarrow> (b, s\<lparr>buffer := (buffer s)[0 := b]\<rparr>))"

definition setClockSource :: "'d bus \<Rightarrow> u8 \<Rightarrow> ('d, 'z) mpu_scheme \<Rightarrow> ('d, 'z) mpu_scheme" where
  "setClockSource bus v = put_bits bus MPU6050_RA_PWR_MGMT_1 MPU6050_PWR1_CLKSEL_BIT MPU6050_PWR1_CLKSEL_LENGTH v"

definition setFullScaleGyroRange :: "'d bus \<Rightarrow> u8 \<Rightarrow> ('d, 'z) mpu_scheme \<Rightarrow> ('d, 'z) mpu_scheme" where
  "setFullScaleGyroRange bus v = put_bits bus MPU6050_RA_GYRO_CONFIG MPU6050_GCONFIG_FS_SEL_BIT MPU6050_GCONFIG_FS_SEL_LENGTH v"

definition setFullScaleAccelRange :: "'d bus \<Rightarrow> u8 \<Rightarrow> ('d, 'z) mpu_scheme \<Rightarrow> ('d, 'z) mpu_scheme" where
  "setFullScaleAccelRange bus v = put_bits bus MPU6050_RA_ACCEL_CONFIG MPU6050_ACONFIG_AFS_SEL_BIT MPU6050_ACONFIG_AFS_SEL_LENGTH v"

definition setSleepEnabled :: "'d bus \<Rightarrow> bool \<Rightarrow> ('d, 'z) mpu_scheme \<Rightarrow> ('d, 'z) mpu_scheme" where
  "setSleepEnabled bus enabled = put_bit bus MPU6050_RA_PWR_MGMT_1 MPU6050_PWR1_SLEEP_BIT enabled"

definition initialize :: "'d bus \<Rightarrow> ('d, 'z) mpu_scheme \<Rightarrow> ('d, 'z) mpu_scheme" where
  "initialize bus s =
     (let s = setClockSource bus MPU6050_CLOCK_PLL_XGYRO s;
          s = setFullScaleGyroRange bus MPU6050_GYRO_FS_250 s;
          s = setFullScaleAccelRange bus MPU6050_ACCEL_FS_2 s
      in setSleepEnabled bus False s)"

definition setRate :: "'d bus \<Rightarrow> u8 \<Rightarrow> ('d, 'z) mpu_scheme \<Rightarrow> ('d, 'z) mpu_scheme" where
  "setRate bus v = put_byte bus MPU6050_RA_SMPLRT_DIV v"

definition setExternalFrameSync :: "'d bus \<Rightarrow> u8 \<Rightarrow> ('d, 'z) mpu_scheme \<Rightarrow> ('d, 'z) mpu_scheme" where
  "setExternalFrameSync bus v = put_bits bus MPU6050_RA_CONFIG MPU6050_CFG_EXT_SYNC_SET_BIT MPU6050_CFG_EXT_SYNC_SET_LENGTH v"

definition setDLPFMode :: "'d bus \<Rightarrow> u8 \<Rightarrow> ('d, 'z) mpu_scheme \<Rightarrow> ('d, 'z) mpu_scheme" where
  "setDLPFMode bus v = put_bits bus MPU6050_RA_CONFIG MPU6050_CFG_DLPF_CFG_BIT MPU6050_CFG_DLPF_CFG_LENGTH v"

definition setMotionDetectionThreshold :: "'d bus \<Rightarrow> u8 \<Rightarrow> ('d, 'z) mpu_scheme \<Rightarrow> ('d, 'z) mpu_scheme" where
  "setMotionDetectionThreshold bus v = put_byte bus MPU6050_RA_MOT_THR v"

definition setMotionDetectionDuration :: "'d bus \<Rightarrow> u8 \<Rightarrow> ('d, 'z) mpu_scheme \<Rightarrow> ('d, 'z) mpu_scheme" where
  "setMotionDetectionDuration bus v = put_byte bus MPU6050_RA_MOT_DUR v"

definition setZeroMotionDetectionThreshold :: "'d bus \<Rightarrow> u8 \<Rightarrow> ('d, 'z) mpu_scheme \<Rightarrow> ('d, 'z) mpu_scheme" where
  "setZeroMotionDetectionThreshold bus v = put_byte bus MPU6050_RA_ZRMOT_THR v"

definition setZeroMotionDetectionDuration :: "'d bus \<Rightarrow> u8 \<Rightarrow> ('d, 'z) mpu_scheme \<Rightarrow> ('d, 'z) mpu_scheme" where
  "setZeroMotionDetectionDuration bus v = put_byte bus MPU6050_RA_ZRMOT_DUR v"

definition setSlaveAddress :: "'d bus \<Rightarrow> u8 \<Rightarrow> u8 \<Rightarrow> ('d, 'z) mpu_scheme \<Rightarrow> ('d, 'z) mpu_scheme" where
  "setSlaveAddress bus num address = (if 3 < num then id else put_byte bus (MPU6050_RA_I2C_SLV0_ADDR + num * 3) address)"

definition setIntEnabled :: "'d bus \<Rightarrow> u8 \<Rightarrow> ('d, 'z) mpu_scheme \<Rightarrow> ('d, 'z) mpu_scheme" where
  "setIntEnabled bus v = put_byte bus MPU6050_RA_INT_ENABLE v"

definition setFIFOEnabled :: "'d bus \<Rightarrow> bool \<Rightarrow> ('d, 'z) mpu_scheme \<Rightarrow> ('d, 'z) mpu_scheme" where
  "setFIFOEnabled bus enabled = put_bit bus MPU6050_RA_USER_CTRL MPU6050_USERCTRL_FIFO_EN_BIT enabled"

definition setI2CMasterModeEnabled :: "'d bus \<Rightarrow> bool \<Rightarrow> ('d, 'z) mpu_scheme \<Rightarrow> ('d, 'z) mpu_scheme" where
  "setI2CMasterModeEnabled bus enabled = put_bit bus MPU6050_RA_USER_CTRL MPU6050_USERCTRL_I2C_MST_EN_BIT enabled"

definition resetFIFO :: "'d bus \<Rightarrow> ('d, 'z) mpu_scheme \<Rightarrow> ('d, 'z) mpu_scheme" where
  "resetFIFO bus = put_bit bus MPU6050_RA_USER_CTRL MPU6050_USERCTRL_FIFO_RESET_BIT True"

definition resetI2CMaster :: "'d bus \<Rightarrow> ('d, 'z) mpu_scheme \<Rightarrow> ('d, 'z) mpu_scheme" where
  "resetI2CMaster bus = put_bit bus MPU6050_RA_USER_CTRL MPU6050_USERCTRL_I2C_MST_RESET_BIT True"

text \<open>\<open>reset\<close> of the source.\<close>

definition reset_mpu :: "'d bus \<Rightarrow> ('d, 'z) mpu_scheme \<Rightarrow> ('d, 'z) mpu_scheme" where
  "reset_mpu bus = put_bit bus MPU6050_RA_PWR_MGMT_1 MPU6050_PWR1_DEVICE_RESET_BIT True"

definition setDMPEnabled :: "'d bus \<Rightarrow> bool \<Rightarrow> ('d, 'z) mpu_scheme \<Rightarrow> ('d, 'z) mpu_scheme" where
  "setDMPEnabled bus enabled = put_bit bus MPU6050_RA_USER_CTRL MPU6050_USERCTRL_DMP_EN_BIT enabled"

definition resetDMP :: "'d bus \<Rightarrow> ('d, 'z) mpu_scheme \<Rightarrow> ('d, 'z) mpu_scheme" where
  "resetDMP bus = put_bit bus MPU6050_RA_USER_CTRL MPU6050_USERCTRL_DMP_RESET_BIT True"

definition setDMPConfig1 :: "'d bus \<Rightarrow> u8 \<Rightarrow> ('d, 'z) mpu_scheme \<Rightarrow> ('d, 'z) mpu_scheme" where
  "setDMPConfig1 bus v = put_byte bus MPU6050_RA_DMP_CFG_1 v"

definition setDMPConfig2 :: "'d bus \<Rightarrow> u8 \<Rightarrow> ('d, 'z) mpu_scheme \<Rightarrow> ('d, 'z) mpu_scheme" where
  "setDMPConfig2 bus v = put_byte bus MPU6050_RA_DMP_CFG_2 v"

definition setOTPBankValid :: "'d bus \<Rightarrow> bool \<Rightarrow> ('d, 'z) mpu_scheme \<Rightarrow> ('d, 'z) mpu_scheme" where
  "setOTPBankValid bus enabled = put_bit bus MPU6050_RA_XG_OFFS_TC MPU6050_TC_OTP_BNK_VLD_BIT enabled"

definition getXGyroOffset :: "'d bus \<Rightarrow> u8 list \<Rightarrow> ('d, 'z) mpu_scheme \<Rightarrow> u8 \<times> ('d, 'z) mpu_scheme" where
  "getXGyroOffset bus rxbuf s = to_buffer (readBits bus rxbuf MPU6050_DEFAULT_ADDRESS MPU6050_RA_XG_OFFS_TC
     MPU6050_TC_OFFSET_BIT MPU6050_TC_OFFSET_LENGTH s)"

definition setXGyroOffset :: "'d bus \<Rightarrow> u8 \<Rightarrow> ('d, 'z) mpu_scheme \<Rightarrow> ('d, 'z) mpu_scheme" where
  "setXGyroOffset bus v = put_bits bus MPU6050_RA_XG_OFFS_TC MPU6050_TC_OFFSET_BIT MPU6050_TC_OFFSET_LENGTH v"

definition setXGyroOffsetUser :: "'d bus \<Rightarrow> u16 \<Rightarrow> ('d, 'z) mpu_scheme \<Rightarrow> ('d, 'z) mpu_scheme" where
  "setXGyroOffsetUser bus v = put_word bus MPU6050_RA_XG_OFFS_USRH v"

definition getYGyroOffset :: "'d bus \<Rightarrow> u8 list \<Rightarrow> ('d, 'z) mpu_scheme \<Rightarrow> u8 \<times> ('d, 'z) mpu_scheme" where
  "getYGyroOffset bus rxbuf s = to_buffer (readBits bus rxbuf MPU6050_DEFAULT_ADDRESS MPU6050_RA_YG_OFFS_TC
     MPU6050_TC_OFFSET_BIT MPU6050_TC_OFFSET_LENGTH s)"

definition setYGyroOffset :: "'d bus \<Rightarrow> u8 \<Rightarrow> ('d, 'z) mpu_scheme \<Rightarrow> ('d, 'z) mpu_scheme" where
  "setYGyroOffset bus v = put_bits bus MPU6050_RA_YG_OFFS_TC MPU6050_TC_OFFSET_BIT MPU6050_TC_OFFSET_LENGTH v"

definition setYGyroOffsetUser :: "'d bus \<Rightarrow> u16 \<Rightarrow> ('d, 'z) mpu_scheme \<Rightarrow> ('d, 'z) mpu_scheme" where
  "setYGyroOffsetUser bus v = put_word bus MPU6050_RA_YG_OFFS_USRH v"

definition getZGyroOffset :: "'d bus \<Rightarrow> u8 list \<Rightarrow> ('d, 'z) mpu_scheme \<Rightarrow> u8 \<times> ('d, 'z) mpu_scheme" where
  "getZGyroOffset bus rxbuf s = to_buffer (readBits bus rxbuf MPU6050_DEFAULT_ADDRESS MPU6050_RA_ZG_OFFS_TC
     MPU6050_TC_OFFSET_BIT MPU6050_TC_OFFSET_LENGTH s)"

definition setZGyroOffset :: "'d bus \<Rightarrow> u8 \<Rightarrow> ('d, 'z) mpu_scheme \<Rightarrow> ('d, 'z) mpu_scheme" where
  "setZGyroOffset bus v = put_bits bus MPU6050_RA_ZG_OFFS_TC MPU6050_TC_OFFSET_BIT MPU6050_TC_OFFSET_LENGTH v"

definition setZGyroOffsetUser :: "'d bus \<Rightarrow> u16 \<Rightarrow> ('d, 'z) mpu_scheme \<Rightarrow> ('d, 'z) mpu_scheme" where
  "setZGyroOffsetUser bus v = put_word bus MPU6050_RA_ZG_OFFS_USRH v"

definition getOTPBankValid :: "'d bus \<Rightarrow> u8 list \<Rightarrow> ('d, 'z) mpu_scheme \<Rightarrow> u8 \<times> ('d, 'z) mpu_scheme" where
  "getOTPBankValid bus rxbuf s = to_buffer (readBit bus rxbuf MPU6050_DEFAULT_ADDRESS MPU6050_RA_XG_OFFS_TC
     MPU6050_TC_OTP_BNK_VLD_BIT s)"

definition getIntStatus :: "'d bus \<Rightarrow> ('d, 'z) mpu_scheme \<Rightarrow> u8 \<times> ('d, 'z) mpu_scheme" where
  "getIntStatus bus s = to_buffer (readByte bus MPU6050_DEFAULT_ADDRESS MPU6050_RA_INT_STATUS s)"

definition getFIFOCount :: "'d bus \<Rightarrow> ('d, 'z) mpu_scheme \<Rightarrow> u16 \<times> ('d, 'z) mpu_scheme" where
  "getFIFOCount bus s =
     (case readBytes bus MPU6050_DEFAULT_ADDRESS MPU6050_RA_FIFO_COUNTH 2 (buffer s) s of ((_, b), s) \<Rightarrow>
        (push_bit 8 (ucast (b ! 0)) OR ucast (b ! 1), s\<lparr>buffer := b\<rparr>))"

definition getFIFOBytes :: "'d bus \<Rightarrow> u8 list \<Rightarrow> u8 \<Rightarrow> ('d, 'z) mpu_scheme \<Rightarrow> u8 list \<times> ('d, 'z) mpu_scheme" where
  "getFIFOBytes bus data len s =
     (case readBytes bus MPU6050_DEFAULT_ADDRESS MPU6050_RA_FIFO_R_W len data s of ((_, d), s) \<Rightarrow> (d, s))"

section \<open>The memory of the motion processor\<close>

definition setMemoryBank :: "'d bus \<Rightarrow> u8 \<Rightarrow> bool \<Rightarrow> bool \<Rightarrow> ('d, 'z) mpu_scheme \<Rightarrow> ('d, 'z) mpu_scheme" where
  "setMemoryBank bus bank prefetchEnabled userBank =
     (let bank = bank AND 0x1F;
          bank = (if userBank then bank OR 0x20 else bank);
          bank = (if prefetchEnabled then bank OR 0x40 else bank)
      in put_byte bus MPU6050_RA_BANK_SEL bank)"

definition setMemoryStartAddress :: "'d bus \<Rightarrow> u8 \<Rightarrow> ('d, 'z) mpu_scheme \<Rightarrow> ('d, 'z) mpu_scheme" where
  "setMemoryStartAddress bus address = put_byte bus MPU6050_RA_MEM_START_ADDR address"

definition readMemoryByte :: "'d bus \<Rightarrow> ('d, 'z) mpu_scheme \<Rightarrow> u8 \<times> ('d, 'z) mpu_scheme" where
  "readMemoryByte bus s = to_buffer (readByte bus MPU6050_DEFAULT_ADDRESS MPU6050_RA_MEM_R_W s)"

text \<open>Blocks go in chunks that end at a bank's end at the latest.\<close>

definition chunk :: "nat \<Rightarrow> nat \<Rightarrow> u8 \<Rightarrow> nat" where
  "chunk dataSize i address =
     (let c = MPU6050_DMP_MEMORY_CHUNK_SIZE;
          c = (if dataSize < i + c then dataSize - i else c)
      in if 256 - unat address < c then 256 - unat address else c)"

lemma chunk_pos: "i < n \<Longrightarrow> 0 < chunk n i a" "chunk n i a \<le> 16" "chunk n i a \<le> n - i" "unat a + chunk n i a \<le> 256"
  using u8_bound[of a] by (auto simp: chunk_def MPU6050_DMP_MEMORY_CHUNK_SIZE_def Let_def)

text \<open>
  The loop of \<^verbatim>\<open>writeMemoryBlock\<close> from the byte \<open>i\<close> on; \<open>vb\<close> is what \<^verbatim>\<open>verifyBuffer\<close> holds. \<^verbatim>\<open>useProgMem\<close> is
  false at every call.
\<close>

definition next_bank :: "u8 \<Rightarrow> u8 \<Rightarrow> u8" where
  "next_bank bank address = (if address = 0 then bank + 1 else bank)"

definition select :: "'d bus \<Rightarrow> u8 \<Rightarrow> u8 \<Rightarrow> ('d, 'z) mpu_scheme \<Rightarrow> ('d, 'z) mpu_scheme" where
  "select bus bank address s = setMemoryStartAddress bus address (setMemoryBank bus bank False False s)"

function write_loop ::
    "'d bus \<Rightarrow> u8 list \<Rightarrow> nat \<Rightarrow> bool \<Rightarrow> nat \<Rightarrow> u8 \<Rightarrow> u8 \<Rightarrow> u8 list \<Rightarrow> ('d, 'z) mpu_scheme
       \<Rightarrow> bool \<times> ('d, 'z) mpu_scheme" where
  "write_loop bus data dataSize verify i bank address vb s =
     (if dataSize \<le> i then (True, s)
      else
        (let n = chunk dataSize i address;
             progBuffer = map (\<lambda>j. data ! (i + j)) [0..<n];
             s = snd (writeBytes bus MPU6050_DEFAULT_ADDRESS MPU6050_RA_MEM_R_W (word_of_nat n) progBuffer s);
             (ok, vb, s) =
               (if verify then
                  (case readBytes bus MPU6050_DEFAULT_ADDRESS MPU6050_RA_MEM_R_W (word_of_nat n) vb
                     (select bus bank address s) of ((_, vb), s) \<Rightarrow> (take n vb = progBuffer, vb, s))
                else (True, vb, s))
         in if \<not> ok then (False, s)
            else
              (let i = i + n;
                   address = address + word_of_nat n;
                   bank = (if i < dataSize then next_bank bank address else bank);
                   s = (if i < dataSize then select bus bank address s else s)
               in write_loop bus data dataSize verify i bank address vb s)))"
  by auto
termination
  by (relation "measure (\<lambda>(bus, data, n, verify, i, bank, address, vb, s). n - i)")
    (use chunk_pos(1) in \<open>auto simp: Let_def diff_less_mono2\<close>)

declare write_loop.simps [simp del]

definition writeMemoryBlock ::
    "'d bus \<Rightarrow> u8 list \<Rightarrow> u8 list \<Rightarrow> nat \<Rightarrow> u8 \<Rightarrow> u8 \<Rightarrow> bool \<Rightarrow> ('d, 'z) mpu_scheme \<Rightarrow> bool \<times> ('d, 'z) mpu_scheme" where
  "writeMemoryBlock bus vb data dataSize bank address verify s =
     write_loop bus data dataSize verify 0 bank address vb (select bus bank address s)"

definition writeProgMemoryBlock ::
    "'d bus \<Rightarrow> u8 list \<Rightarrow> u8 list \<Rightarrow> nat \<Rightarrow> u8 \<Rightarrow> u8 \<Rightarrow> bool \<Rightarrow> ('d, 'z) mpu_scheme \<Rightarrow> bool \<times> ('d, 'z) mpu_scheme" where
  "writeProgMemoryBlock bus vb data dataSize bank address verify = writeMemoryBlock bus vb data dataSize bank address verify"

text \<open>\<open>data\<close> is the buffer read into, its bytes from \<open>i\<close> on still to come.\<close>

function read_loop ::
    "'d bus \<Rightarrow> u8 list \<Rightarrow> nat \<Rightarrow> nat \<Rightarrow> u8 \<Rightarrow> u8 \<Rightarrow> ('d, 'z) mpu_scheme \<Rightarrow> u8 list \<times> ('d, 'z) mpu_scheme" where
  "read_loop bus data dataSize i bank address s =
     (if dataSize \<le> i then (data, s)
      else
        (let n = chunk dataSize i address
         in case readBytes bus MPU6050_DEFAULT_ADDRESS MPU6050_RA_MEM_R_W (word_of_nat n) (drop i data) s of
              ((_, d), s) \<Rightarrow>
                (let data = take i data @ d;
                     i = i + n;
                     address = address + word_of_nat n;
                     bank = (if i < dataSize then next_bank bank address else bank);
                     s = (if i < dataSize then select bus bank address s else s)
                 in read_loop bus data dataSize i bank address s)))"
  by auto
termination
  by (relation "measure (\<lambda>(bus, data, n, i, bank, address, s). n - i)")
    (use chunk_pos(1) in \<open>auto simp: Let_def diff_less_mono2\<close>)

declare read_loop.simps [simp del]

definition readMemoryBlock ::
    "'d bus \<Rightarrow> u8 list \<Rightarrow> nat \<Rightarrow> u8 \<Rightarrow> u8 \<Rightarrow> ('d, 'z) mpu_scheme \<Rightarrow> u8 list \<times> ('d, 'z) mpu_scheme" where
  "readMemoryBlock bus data dataSize bank address s =
     read_loop bus data dataSize 0 bank address (select bus bank address s)"

section \<open>The configuration\<close>

text \<open>
  Blocks of bank, offset, length and data, or, when the length is 0, of a special
  instruction. \<open>vb k\<close> is what \<^verbatim>\<open>verifyBuffer\<close> holds at the call for the block that begins at \<open>k\<close>.
\<close>

function config_loop ::
    "'d bus \<Rightarrow> (nat \<Rightarrow> u8 list) \<Rightarrow> u8 list \<Rightarrow> nat \<Rightarrow> nat \<Rightarrow> ('d, 'z) mpu_scheme \<Rightarrow> bool \<times> ('d, 'z) mpu_scheme" where
  "config_loop bus vb data dataSize i s =
     (if dataSize \<le> i then (True, s)
      else
        (let bank = data ! i; offset = data ! (i + 1); len = data ! (i + 2);
             (success, j, s) =
               (if 0 < len then
                  (let progBuffer = map (\<lambda>j. data ! (i + 3 + j)) [0..<unat len];
                       (r, s) = writeMemoryBlock bus (vb i) progBuffer (unat len) bank offset True s
                   in (r, i + 3 + unat len, s))
                else if data ! (i + 3) = 0x01 then (True, i + 4, put_byte bus MPU6050_RA_INT_ENABLE 0x32 s)
                else (False, i + 4, s))
         in if \<not> success then (False, s) else config_loop bus vb data dataSize j s))"
  by auto
termination
  by (relation "measure (\<lambda>(bus, vb, data, n, i, s). n - i)")
    (auto simp: Let_def split: if_splits prod.splits)

declare config_loop.simps [simp del]

definition writeDMPConfigurationSet ::
    "'d bus \<Rightarrow> (nat \<Rightarrow> u8 list) \<Rightarrow> u8 list \<Rightarrow> nat \<Rightarrow> ('d, 'z) mpu_scheme \<Rightarrow> bool \<times> ('d, 'z) mpu_scheme" where
  "writeDMPConfigurationSet bus vb data dataSize s = config_loop bus vb data dataSize 0 s"

definition writeProgDMPConfigurationSet ::
    "'d bus \<Rightarrow> (nat \<Rightarrow> u8 list) \<Rightarrow> u8 list \<Rightarrow> nat \<Rightarrow> ('d, 'z) mpu_scheme \<Rightarrow> bool \<times> ('d, 'z) mpu_scheme" where
  "writeProgDMPConfigurationSet bus vb data dataSize s = writeDMPConfigurationSet bus vb data dataSize s"

end
