(* ===== verification/Dmp.thy ===== *)
theory Dmp
  imports Mpu
begin

text \<open>
  \<^verbatim>\<open>src/Quad/MPU6050/MPU6050_6Axis_MotionApps20.h\<close>: the program of the motion processor, its
  configuration and the updates sent to it, and \<^verbatim>\<open>dmpInitialize\<close>.
\<close>

unbundle bit_operations_syntax

section \<open>Tables\<close>

text \<open>The program, bank by bank as the source has it.\<close>

definition dmp_bank0 :: "u8 list" where
  "dmp_bank0 =
    [0xFB, 0x00, 0x00, 0x3E, 0x00, 0x0B, 0x00, 0x36, 0x00, 0x01, 0x00, 0x02, 0x00, 0x03, 0x00, 0x00,
     0x00, 0x65, 0x00, 0x54, 0xFF, 0xEF, 0x00, 0x00, 0xFA, 0x80, 0x00, 0x0B, 0x12, 0x82, 0x00, 0x01,
     0x00, 0x02, 0x00, 0x00, 0x00, 0x00, 0x00, 0x00, 0x00, 0x00, 0x00, 0x00, 0x00, 0x00, 0x00, 0x00,
     0x00, 0x28, 0x00, 0x00, 0xFF, 0xFF, 0x45, 0x81, 0xFF, 0xFF, 0xFA, 0x72, 0x00, 0x00, 0x00, 0x00,
     0x00, 0x00, 0x03, 0xE8, 0x00, 0x00, 0x00, 0x01, 0x00, 0x01, 0x7F, 0xFF, 0xFF, 0xFE, 0x80, 0x01,
     0x00, 0x1B, 0x00, 0x00, 0x00, 0x00, 0x00, 0x00, 0x00, 0x00, 0x00, 0x00, 0x00, 0x00, 0x00, 0x00,
     0x00, 0x3E, 0x03, 0x30, 0x40, 0x00, 0x00, 0x00, 0x02, 0xCA, 0xE3, 0x09, 0x3E, 0x80, 0x00, 0x00,
     0x20, 0x00, 0x00, 0x00, 0x00, 0x00, 0x00, 0x00, 0x40, 0x00, 0x00, 0x00, 0x60, 0x00, 0x00, 0x00,
     0x41, 0xFF, 0x00, 0x00, 0x00, 0x00, 0x0B, 0x2A, 0x00, 0x00, 0x16, 0x55, 0x00, 0x00, 0x21, 0x82,
     0xFD, 0x87, 0x26, 0x50, 0xFD, 0x80, 0x00, 0x00, 0x00, 0x1F, 0x00, 0x00, 0x00, 0x05, 0x80, 0x00,
     0x00, 0x00, 0x00, 0x00, 0x00, 0x01, 0x00, 0x00, 0x00, 0x02, 0x00, 0x00, 0x00, 0x03, 0x00, 0x00,
     0x40, 0x00, 0x00, 0x00, 0x00, 0x00, 0x04, 0x6F, 0x00, 0x02, 0x65, 0x32, 0x00, 0x00, 0x5E, 0xC0,
     0x40, 0x00, 0x00, 0x00, 0x00, 0x00, 0x00, 0x00, 0x00, 0x00, 0x00, 0x00, 0x00, 0x00, 0x00, 0x00,
     0xFB, 0x8C, 0x6F, 0x5D, 0xFD, 0x5D, 0x08, 0xD9, 0x00, 0x7C, 0x73, 0x3B, 0x00, 0x6C, 0x12, 0xCC,
     0x32, 0x00, 0x13, 0x9D, 0x32, 0x00, 0xD0, 0xD6, 0x32, 0x00, 0x08, 0x00, 0x40, 0x00, 0x01, 0xF4,
     0xFF, 0xE6, 0x80, 0x79, 0x02, 0x00, 0x00, 0x00, 0x00, 0x00, 0xD0, 0xD6, 0x00, 0x00, 0x27, 0x10]"

definition dmp_bank1 :: "u8 list" where
  "dmp_bank1 =
    [0xFB, 0x00, 0x00, 0x00, 0x40, 0x00, 0x00, 0x00, 0x00, 0x00, 0x00, 0x00, 0x00, 0x00, 0x00, 0x00,
     0x00, 0x00, 0x00, 0x01, 0x00, 0x00, 0x00, 0x00, 0x00, 0x00, 0x01, 0x00, 0x01, 0x00, 0x00, 0x00,
     0x00, 0x00, 0xFA, 0x36, 0xFF, 0xBC, 0x30, 0x8E, 0x00, 0x05, 0xFB, 0xF0, 0xFF, 0xD9, 0x5B, 0xC8,
     0xFF, 0xD0, 0x9A, 0xBE, 0x00, 0x00, 0x10, 0xA9, 0xFF, 0xF4, 0x1E, 0xB2, 0x00, 0xCE, 0xBB, 0xF7,
     0x00, 0x00, 0x00, 0x01, 0x00, 0x00, 0x00, 0x04, 0x00, 0x02, 0x00, 0x02, 0x02, 0x00, 0x00, 0x0C,
     0xFF, 0xC2, 0x80, 0x00, 0x00, 0x01, 0x80, 0x00, 0x00, 0xCF, 0x80, 0x00, 0x40, 0x00, 0x00, 0x00,
     0x00, 0x00, 0x00, 0x01, 0x00, 0x00, 0x00, 0x00, 0x00, 0x00, 0x06, 0x00, 0x00, 0x00, 0x00, 0x14,
     0x00, 0x00, 0x00, 0x00, 0x00, 0x00, 0x00, 0x00, 0x00, 0x00, 0x00, 0x00, 0x00, 0x00, 0x00, 0x00,
     0x00, 0x00, 0x00, 0x00, 0x00, 0x00, 0x00, 0x00, 0x00, 0x00, 0x00, 0x00, 0x00, 0x00, 0x00, 0x00,
     0x00, 0x00, 0x00, 0x00, 0x00, 0x00, 0x00, 0x00, 0x00, 0x00, 0x00, 0x00, 0x00, 0x00, 0x00, 0x00,
     0x00, 0x00, 0x00, 0x00, 0x03, 0x3F, 0x68, 0xB6, 0x79, 0x35, 0x28, 0xBC, 0xC6, 0x7E, 0xD1, 0x6C,
     0x80, 0x00, 0x00, 0x00, 0x40, 0x00, 0x00, 0x00, 0x00, 0x00, 0xB2, 0x6A, 0x00, 0x00, 0x00, 0x00,
     0x00, 0x00, 0x00, 0x00, 0x00, 0x00, 0x00, 0x00, 0x00, 0x00, 0x3F, 0xF0, 0x00, 0x00, 0x00, 0x30,
     0x00, 0x00, 0x00, 0x00, 0x00, 0x00, 0x00, 0x00, 0x00, 0x00, 0x00, 0x00, 0x00, 0x00, 0x00, 0x00,
     0x00, 0x00, 0x00, 0x00, 0x00, 0x00, 0x00, 0x00, 0x00, 0x00, 0x00, 0x00, 0x00, 0x00, 0x00, 0x00,
     0x00, 0x00, 0x25, 0x4D, 0x00, 0x2F, 0x70, 0x6D, 0x00, 0x00, 0x05, 0xAE, 0x00, 0x0C, 0x02, 0xD0]"

definition dmp_bank2 :: "u8 list" where
  "dmp_bank2 =
    [0x00, 0x00, 0x00, 0x00, 0x00, 0x65, 0x00, 0x54, 0xFF, 0xEF, 0x00, 0x00, 0x00, 0x00, 0x00, 0x00,
     0x00, 0x00, 0x01, 0x00, 0x00, 0x44, 0x00, 0x00, 0x00, 0x00, 0x0C, 0x00, 0x00, 0x00, 0x01, 0x00,
     0x00, 0x00, 0x00, 0x00, 0x00, 0x65, 0x00, 0x00, 0x00, 0x54, 0x00, 0x00, 0xFF, 0xEF, 0x00, 0x00,
     0x00, 0x00, 0x00, 0x00, 0x00, 0x00, 0x00, 0x00, 0x00, 0x00, 0x00, 0x00, 0x00, 0x00, 0x00, 0x00,
     0x40, 0x00, 0x00, 0x00, 0x00, 0x00, 0x00, 0x00, 0x00, 0x00, 0x00, 0x00, 0x00, 0x00, 0x00, 0x00,
     0x40, 0x00, 0x00, 0x00, 0x00, 0x00, 0x00, 0x00, 0x00, 0x00, 0x00, 0x00, 0x00, 0x00, 0x00, 0x00,
     0x00, 0x00, 0x00, 0x01, 0x00, 0x00, 0x00, 0x02, 0x00, 0x00, 0x00, 0x00, 0x00, 0x00, 0x00, 0x00,
     0x00, 0x00, 0x00, 0x00, 0x00, 0x00, 0x00, 0x00, 0x00, 0x00, 0x00, 0x00, 0x00, 0x00, 0x00, 0x00,
     0x00, 0x00, 0x00, 0x00, 0x00, 0x00, 0x00, 0x00, 0x00, 0x00, 0x00, 0x00, 0x00, 0x00, 0x00, 0x00,
     0x00, 0x1B, 0x00, 0x00, 0x00, 0x00, 0x00, 0x00, 0x00, 0x00, 0x00, 0x00, 0x00, 0x00, 0x00, 0x00,
     0x00, 0x00, 0x00, 0x00, 0x00, 0x00, 0x00, 0x00, 0x00, 0x00, 0x00, 0x00, 0x00, 0x00, 0x00, 0x00,
     0x00, 0x00, 0x00, 0x00, 0x00, 0x00, 0x00, 0x00, 0x00, 0x00, 0x00, 0x00, 0x40, 0x00, 0x00, 0x00,
     0x00, 0x1B, 0x00, 0x00, 0x00, 0x00, 0x00, 0x00, 0x00, 0x00, 0x00, 0x00, 0x00, 0x00, 0x00, 0x00,
     0x00, 0x00, 0x00, 0x00, 0x00, 0x00, 0x00, 0x00, 0x00, 0x00, 0x00, 0x00, 0x00, 0x00, 0x00, 0x00,
     0x00, 0x00, 0x00, 0x00, 0x00, 0x00, 0x00, 0x00, 0x00, 0x00, 0x00, 0x00, 0x00, 0x00, 0x00, 0x00,
     0x00, 0x00, 0x00, 0x00, 0x00, 0x00, 0x00, 0x00, 0x00, 0x00, 0x00, 0x00, 0x00, 0x00, 0x00, 0x00]"

definition dmp_bank3 :: "u8 list" where
  "dmp_bank3 =
    [0xD8, 0xDC, 0xBA, 0xA2, 0xF1, 0xDE, 0xB2, 0xB8, 0xB4, 0xA8, 0x81, 0x91, 0xF7, 0x4A, 0x90, 0x7F,
     0x91, 0x6A, 0xF3, 0xF9, 0xDB, 0xA8, 0xF9, 0xB0, 0xBA, 0xA0, 0x80, 0xF2, 0xCE, 0x81, 0xF3, 0xC2,
     0xF1, 0xC1, 0xF2, 0xC3, 0xF3, 0xCC, 0xA2, 0xB2, 0x80, 0xF1, 0xC6, 0xD8, 0x80, 0xBA, 0xA7, 0xDF,
     0xDF, 0xDF, 0xF2, 0xA7, 0xC3, 0xCB, 0xC5, 0xB6, 0xF0, 0x87, 0xA2, 0x94, 0x24, 0x48, 0x70, 0x3C,
     0x95, 0x40, 0x68, 0x34, 0x58, 0x9B, 0x78, 0xA2, 0xF1, 0x83, 0x92, 0x2D, 0x55, 0x7D, 0xD8, 0xB1,
     0xB4, 0xB8, 0xA1, 0xD0, 0x91, 0x80, 0xF2, 0x70, 0xF3, 0x70, 0xF2, 0x7C, 0x80, 0xA8, 0xF1, 0x01,
     0xB0, 0x98, 0x87, 0xD9, 0x43, 0xD8, 0x86, 0xC9, 0x88, 0xBA, 0xA1, 0xF2, 0x0E, 0xB8, 0x97, 0x80,
     0xF1, 0xA9, 0xDF, 0xDF, 0xDF, 0xAA, 0xDF, 0xDF, 0xDF, 0xF2, 0xAA, 0xC5, 0xCD, 0xC7, 0xA9, 0x0C,
     0xC9, 0x2C, 0x97, 0x97, 0x97, 0x97, 0xF1, 0xA9, 0x89, 0x26, 0x46, 0x66, 0xB0, 0xB4, 0xBA, 0x80,
     0xAC, 0xDE, 0xF2, 0xCA, 0xF1, 0xB2, 0x8C, 0x02, 0xA9, 0xB6, 0x98, 0x00, 0x89, 0x0E, 0x16, 0x1E,
     0xB8, 0xA9, 0xB4, 0x99, 0x2C, 0x54, 0x7C, 0xB0, 0x8A, 0xA8, 0x96, 0x36, 0x56, 0x76, 0xF1, 0xB9,
     0xAF, 0xB4, 0xB0, 0x83, 0xC0, 0xB8, 0xA8, 0x97, 0x11, 0xB1, 0x8F, 0x98, 0xB9, 0xAF, 0xF0, 0x24,
     0x08, 0x44, 0x10, 0x64, 0x18, 0xF1, 0xA3, 0x29, 0x55, 0x7D, 0xAF, 0x83, 0xB5, 0x93, 0xAF, 0xF0,
     0x00, 0x28, 0x50, 0xF1, 0xA3, 0x86, 0x9F, 0x61, 0xA6, 0xDA, 0xDE, 0xDF, 0xD9, 0xFA, 0xA3, 0x86,
     0x96, 0xDB, 0x31, 0xA6, 0xD9, 0xF8, 0xDF, 0xBA, 0xA6, 0x8F, 0xC2, 0xC5, 0xC7, 0xB2, 0x8C, 0xC1,
     0xB8, 0xA2, 0xDF, 0xDF, 0xDF, 0xA3, 0xDF, 0xDF, 0xDF, 0xD8, 0xD8, 0xF1, 0xB8, 0xA8, 0xB2, 0x86]"

definition dmp_bank4 :: "u8 list" where
  "dmp_bank4 =
    [0xB4, 0x98, 0x0D, 0x35, 0x5D, 0xB8, 0xAA, 0x98, 0xB0, 0x87, 0x2D, 0x35, 0x3D, 0xB2, 0xB6, 0xBA,
     0xAF, 0x8C, 0x96, 0x19, 0x8F, 0x9F, 0xA7, 0x0E, 0x16, 0x1E, 0xB4, 0x9A, 0xB8, 0xAA, 0x87, 0x2C,
     0x54, 0x7C, 0xB9, 0xA3, 0xDE, 0xDF, 0xDF, 0xA3, 0xB1, 0x80, 0xF2, 0xC4, 0xCD, 0xC9, 0xF1, 0xB8,
     0xA9, 0xB4, 0x99, 0x83, 0x0D, 0x35, 0x5D, 0x89, 0xB9, 0xA3, 0x2D, 0x55, 0x7D, 0xB5, 0x93, 0xA3,
     0x0E, 0x16, 0x1E, 0xA9, 0x2C, 0x54, 0x7C, 0xB8, 0xB4, 0xB0, 0xF1, 0x97, 0x83, 0xA8, 0x11, 0x84,
     0xA5, 0x09, 0x98, 0xA3, 0x83, 0xF0, 0xDA, 0x24, 0x08, 0x44, 0x10, 0x64, 0x18, 0xD8, 0xF1, 0xA5,
     0x29, 0x55, 0x7D, 0xA5, 0x85, 0x95, 0x02, 0x1A, 0x2E, 0x3A, 0x56, 0x5A, 0x40, 0x48, 0xF9, 0xF3,
     0xA3, 0xD9, 0xF8, 0xF0, 0x98, 0x83, 0x24, 0x08, 0x44, 0x10, 0x64, 0x18, 0x97, 0x82, 0xA8, 0xF1,
     0x11, 0xF0, 0x98, 0xA2, 0x24, 0x08, 0x44, 0x10, 0x64, 0x18, 0xDA, 0xF3, 0xDE, 0xD8, 0x83, 0xA5,
     0x94, 0x01, 0xD9, 0xA3, 0x02, 0xF1, 0xA2, 0xC3, 0xC5, 0xC7, 0xD8, 0xF1, 0x84, 0x92, 0xA2, 0x4D,
     0xDA, 0x2A, 0xD8, 0x48, 0x69, 0xD9, 0x2A, 0xD8, 0x68, 0x55, 0xDA, 0x32, 0xD8, 0x50, 0x71, 0xD9,
     0x32, 0xD8, 0x70, 0x5D, 0xDA, 0x3A, 0xD8, 0x58, 0x79, 0xD9, 0x3A, 0xD8, 0x78, 0x93, 0xA3, 0x4D,
     0xDA, 0x2A, 0xD8, 0x48, 0x69, 0xD9, 0x2A, 0xD8, 0x68, 0x55, 0xDA, 0x32, 0xD8, 0x50, 0x71, 0xD9,
     0x32, 0xD8, 0x70, 0x5D, 0xDA, 0x3A, 0xD8, 0x58, 0x79, 0xD9, 0x3A, 0xD8, 0x78, 0xA8, 0x8A, 0x9A,
     0xF0, 0x28, 0x50, 0x78, 0x9E, 0xF3, 0x88, 0x18, 0xF1, 0x9F, 0x1D, 0x98, 0xA8, 0xD9, 0x08, 0xD8,
     0xC8, 0x9F, 0x12, 0x9E, 0xF3, 0x15, 0xA8, 0xDA, 0x12, 0x10, 0xD8, 0xF1, 0xAF, 0xC8, 0x97, 0x87]"

definition dmp_bank5 :: "u8 list" where
  "dmp_bank5 =
    [0x34, 0xB5, 0xB9, 0x94, 0xA4, 0x21, 0xF3, 0xD9, 0x22, 0xD8, 0xF2, 0x2D, 0xF3, 0xD9, 0x2A, 0xD8,
     0xF2, 0x35, 0xF3, 0xD9, 0x32, 0xD8, 0x81, 0xA4, 0x60, 0x60, 0x61, 0xD9, 0x61, 0xD8, 0x6C, 0x68,
     0x69, 0xD9, 0x69, 0xD8, 0x74, 0x70, 0x71, 0xD9, 0x71, 0xD8, 0xB1, 0xA3, 0x84, 0x19, 0x3D, 0x5D,
     0xA3, 0x83, 0x1A, 0x3E, 0x5E, 0x93, 0x10, 0x30, 0x81, 0x10, 0x11, 0xB8, 0xB0, 0xAF, 0x8F, 0x94,
     0xF2, 0xDA, 0x3E, 0xD8, 0xB4, 0x9A, 0xA8, 0x87, 0x29, 0xDA, 0xF8, 0xD8, 0x87, 0x9A, 0x35, 0xDA,
     0xF8, 0xD8, 0x87, 0x9A, 0x3D, 0xDA, 0xF8, 0xD8, 0xB1, 0xB9, 0xA4, 0x98, 0x85, 0x02, 0x2E, 0x56,
     0xA5, 0x81, 0x00, 0x0C, 0x14, 0xA3, 0x97, 0xB0, 0x8A, 0xF1, 0x2D, 0xD9, 0x28, 0xD8, 0x4D, 0xD9,
     0x48, 0xD8, 0x6D, 0xD9, 0x68, 0xD8, 0xB1, 0x84, 0x0D, 0xDA, 0x0E, 0xD8, 0xA3, 0x29, 0x83, 0xDA,
     0x2C, 0x0E, 0xD8, 0xA3, 0x84, 0x49, 0x83, 0xDA, 0x2C, 0x4C, 0x0E, 0xD8, 0xB8, 0xB0, 0xA8, 0x8A,
     0x9A, 0xF5, 0x20, 0xAA, 0xDA, 0xDF, 0xD8, 0xA8, 0x40, 0xAA, 0xD0, 0xDA, 0xDE, 0xD8, 0xA8, 0x60,
     0xAA, 0xDA, 0xD0, 0xDF, 0xD8, 0xF1, 0x97, 0x86, 0xA8, 0x31, 0x9B, 0x06, 0x99, 0x07, 0xAB, 0x97,
     0x28, 0x88, 0x9B, 0xF0, 0x0C, 0x20, 0x14, 0x40, 0xB8, 0xB0, 0xB4, 0xA8, 0x8C, 0x9C, 0xF0, 0x04,
     0x28, 0x51, 0x79, 0x1D, 0x30, 0x14, 0x38, 0xB2, 0x82, 0xAB, 0xD0, 0x98, 0x2C, 0x50, 0x50, 0x78,
     0x78, 0x9B, 0xF1, 0x1A, 0xB0, 0xF0, 0x8A, 0x9C, 0xA8, 0x29, 0x51, 0x79, 0x8B, 0x29, 0x51, 0x79,
     0x8A, 0x24, 0x70, 0x59, 0x8B, 0x20, 0x58, 0x71, 0x8A, 0x44, 0x69, 0x38, 0x8B, 0x39, 0x40, 0x68,
     0x8A, 0x64, 0x48, 0x31, 0x8B, 0x30, 0x49, 0x60, 0xA5, 0x88, 0x20, 0x09, 0x71, 0x58, 0x44, 0x68]"

definition dmp_bank6 :: "u8 list" where
  "dmp_bank6 =
    [0x11, 0x39, 0x64, 0x49, 0x30, 0x19, 0xF1, 0xAC, 0x00, 0x2C, 0x54, 0x7C, 0xF0, 0x8C, 0xA8, 0x04,
     0x28, 0x50, 0x78, 0xF1, 0x88, 0x97, 0x26, 0xA8, 0x59, 0x98, 0xAC, 0x8C, 0x02, 0x26, 0x46, 0x66,
     0xF0, 0x89, 0x9C, 0xA8, 0x29, 0x51, 0x79, 0x24, 0x70, 0x59, 0x44, 0x69, 0x38, 0x64, 0x48, 0x31,
     0xA9, 0x88, 0x09, 0x20, 0x59, 0x70, 0xAB, 0x11, 0x38, 0x40, 0x69, 0xA8, 0x19, 0x31, 0x48, 0x60,
     0x8C, 0xA8, 0x3C, 0x41, 0x5C, 0x20, 0x7C, 0x00, 0xF1, 0x87, 0x98, 0x19, 0x86, 0xA8, 0x6E, 0x76,
     0x7E, 0xA9, 0x99, 0x88, 0x2D, 0x55, 0x7D, 0x9E, 0xB9, 0xA3, 0x8A, 0x22, 0x8A, 0x6E, 0x8A, 0x56,
     0x8A, 0x5E, 0x9F, 0xB1, 0x83, 0x06, 0x26, 0x46, 0x66, 0x0E, 0x2E, 0x4E, 0x6E, 0x9D, 0xB8, 0xAD,
     0x00, 0x2C, 0x54, 0x7C, 0xF2, 0xB1, 0x8C, 0xB4, 0x99, 0xB9, 0xA3, 0x2D, 0x55, 0x7D, 0x81, 0x91,
     0xAC, 0x38, 0xAD, 0x3A, 0xB5, 0x83, 0x91, 0xAC, 0x2D, 0xD9, 0x28, 0xD8, 0x4D, 0xD9, 0x48, 0xD8,
     0x6D, 0xD9, 0x68, 0xD8, 0x8C, 0x9D, 0xAE, 0x29, 0xD9, 0x04, 0xAE, 0xD8, 0x51, 0xD9, 0x04, 0xAE,
     0xD8, 0x79, 0xD9, 0x04, 0xD8, 0x81, 0xF3, 0x9D, 0xAD, 0x00, 0x8D, 0xAE, 0x19, 0x81, 0xAD, 0xD9,
     0x01, 0xD8, 0xF2, 0xAE, 0xDA, 0x26, 0xD8, 0x8E, 0x91, 0x29, 0x83, 0xA7, 0xD9, 0xAD, 0xAD, 0xAD,
     0xAD, 0xF3, 0x2A, 0xD8, 0xD8, 0xF1, 0xB0, 0xAC, 0x89, 0x91, 0x3E, 0x5E, 0x76, 0xF3, 0xAC, 0x2E,
     0x2E, 0xF1, 0xB1, 0x8C, 0x5A, 0x9C, 0xAC, 0x2C, 0x28, 0x28, 0x28, 0x9C, 0xAC, 0x30, 0x18, 0xA8,
     0x98, 0x81, 0x28, 0x34, 0x3C, 0x97, 0x24, 0xA7, 0x28, 0x34, 0x3C, 0x9C, 0x24, 0xF2, 0xB0, 0x89,
     0xAC, 0x91, 0x2C, 0x4C, 0x6C, 0x8A, 0x9B, 0x2D, 0xD9, 0xD8, 0xD8, 0x51, 0xD9, 0xD8, 0xD8, 0x79]"

definition dmp_bank7 :: "u8 list" where
  "dmp_bank7 =
    [0xD9, 0xD8, 0xD8, 0xF1, 0x9E, 0x88, 0xA3, 0x31, 0xDA, 0xD8, 0xD8, 0x91, 0x2D, 0xD9, 0x28, 0xD8,
     0x4D, 0xD9, 0x48, 0xD8, 0x6D, 0xD9, 0x68, 0xD8, 0xB1, 0x83, 0x93, 0x35, 0x3D, 0x80, 0x25, 0xDA,
     0xD8, 0xD8, 0x85, 0x69, 0xDA, 0xD8, 0xD8, 0xB4, 0x93, 0x81, 0xA3, 0x28, 0x34, 0x3C, 0xF3, 0xAB,
     0x8B, 0xF8, 0xA3, 0x91, 0xB6, 0x09, 0xB4, 0xD9, 0xAB, 0xDE, 0xFA, 0xB0, 0x87, 0x9C, 0xB9, 0xA3,
     0xDD, 0xF1, 0xA3, 0xA3, 0xA3, 0xA3, 0x95, 0xF1, 0xA3, 0xA3, 0xA3, 0x9D, 0xF1, 0xA3, 0xA3, 0xA3,
     0xA3, 0xF2, 0xA3, 0xB4, 0x90, 0x80, 0xF2, 0xA3, 0xA3, 0xA3, 0xA3, 0xA3, 0xA3, 0xA3, 0xA3, 0xA3,
     0xA3, 0xB2, 0xA3, 0xA3, 0xA3, 0xA3, 0xA3, 0xA3, 0xB0, 0x87, 0xB5, 0x99, 0xF1, 0xA3, 0xA3, 0xA3,
     0x98, 0xF1, 0xA3, 0xA3, 0xA3, 0xA3, 0x97, 0xA3, 0xA3, 0xA3, 0xA3, 0xF3, 0x9B, 0xA3, 0xA3, 0xDC,
     0xB9, 0xA7, 0xF1, 0x26, 0x26, 0x26, 0xD8, 0xD8, 0xFF]"


definition dmpMemory :: "u8 list" where
  "dmpMemory = concat [dmp_bank0, dmp_bank1, dmp_bank2, dmp_bank3, dmp_bank4, dmp_bank5, dmp_bank6, dmp_bank7]"

definition dmpConfig :: "u8 list" where
  "dmpConfig =
    [0x03, 0x7B, 0x03, 0x4C, 0xCD, 0x6C, 0x03, 0xAB, 0x03, 0x36, 0x56, 0x76, 0x00, 0x68, 0x04, 0x02,
     0xCB, 0x47, 0xA2, 0x02, 0x18, 0x04, 0x00, 0x05, 0x8B, 0xC1, 0x01, 0x0C, 0x04, 0x00, 0x00, 0x00,
     0x00, 0x03, 0x7F, 0x06, 0x0C, 0xC9, 0x2C, 0x97, 0x97, 0x97, 0x03, 0x89, 0x03, 0x26, 0x46, 0x66,
     0x00, 0x6C, 0x02, 0x20, 0x00, 0x02, 0x40, 0x04, 0x00, 0x00, 0x00, 0x00, 0x02, 0x44, 0x04, 0x00,
     0x00, 0x00, 0x00, 0x02, 0x48, 0x04, 0x00, 0x00, 0x00, 0x00, 0x02, 0x4C, 0x04, 0x00, 0x00, 0x00,
     0x00, 0x02, 0x50, 0x04, 0x00, 0x00, 0x00, 0x00, 0x02, 0x54, 0x04, 0x00, 0x00, 0x00, 0x00, 0x02,
     0x58, 0x04, 0x00, 0x00, 0x00, 0x00, 0x02, 0x5C, 0x04, 0x00, 0x00, 0x00, 0x00, 0x02, 0xBC, 0x04,
     0x00, 0x00, 0x00, 0x00, 0x01, 0xEC, 0x04, 0x00, 0x00, 0x40, 0x00, 0x03, 0x7F, 0x06, 0x0C, 0xC9,
     0x2C, 0x97, 0x97, 0x97, 0x04, 0x02, 0x03, 0x0D, 0x35, 0x5D, 0x04, 0x09, 0x04, 0x87, 0x2D, 0x35,
     0x3D, 0x00, 0xA3, 0x01, 0x00, 0x00, 0x00, 0x00, 0x01, 0x07, 0x86, 0x01, 0xFE, 0x07, 0x41, 0x05,
     0xF1, 0x20, 0x28, 0x30, 0x38, 0x07, 0x7E, 0x01, 0x30, 0x07, 0x46, 0x01, 0x9A, 0x07, 0x47, 0x04,
     0xF1, 0x28, 0x30, 0x38, 0x07, 0x6C, 0x04, 0xF1, 0x28, 0x30, 0x38, 0x02, 0x16, 0x02, 0x00, 0x01]"

definition dmpUpdates :: "u8 list" where
  "dmpUpdates =
    [0x01, 0xB2, 0x02, 0xFF, 0xFF, 0x01, 0x90, 0x04, 0x09, 0x23, 0xA1, 0x35, 0x01, 0x6A, 0x02, 0x06,
     0x00, 0x01, 0x60, 0x08, 0x00, 0x00, 0x00, 0x00, 0x00, 0x00, 0x00, 0x00, 0x00, 0x60, 0x04, 0x40,
     0x00, 0x00, 0x00, 0x01, 0x62, 0x02, 0x00, 0x00, 0x00, 0x60, 0x04, 0x00, 0x40, 0x00, 0x00]"

section \<open>Updates\<close>

text \<open>The loop that copies the next update out of the table; \<open>u\<close> is \<^verbatim>\<open>dmpUpdate\<close>.\<close>

function copy_update :: "nat \<Rightarrow> u8 list \<Rightarrow> nat \<Rightarrow> u8 list \<times> nat" where
  "copy_update j u p =
     (if j < 4 \<or> j < unat (u ! 2) + 3 then copy_update (j + 1) (u[j := dmpUpdates ! p]) (p + 1) else (u, p))"
  by auto
termination
proof (relation "measure (\<lambda>(j, u, p). 259 - j)")
  fix j u p assume "j < 4 \<or> j < unat (u ! 2 :: u8) + 3"
  then show "((j + 1, u[j := dmpUpdates ! p], p + 1), j, u, p) \<in> measure (\<lambda>(j, u, p). 259 - j)"
    using u8_bound[of "u ! 2"] by auto
qed simp

declare copy_update.simps [simp del]

text \<open>An update is written, or the place it names is read, and the result is not looked at.\<close>

definition write_update ::
    "'d bus \<Rightarrow> u8 list \<Rightarrow> u8 list \<times> nat \<Rightarrow> ('d, 'z) mpu_scheme \<Rightarrow> (u8 list \<times> nat) \<times> ('d, 'z) mpu_scheme" where
  "write_update bus vb up s =
     (case copy_update 0 (fst up) (snd up) of (u, p) \<Rightarrow>
        ((u, p), snd (writeMemoryBlock bus vb (drop 3 u) (unat (u ! 2)) (u ! 0) (u ! 1) True s)))"

definition read_update ::
    "'d bus \<Rightarrow> u8 list \<times> nat \<Rightarrow> ('d, 'z) mpu_scheme \<Rightarrow> (u8 list \<times> nat) \<times> ('d, 'z) mpu_scheme" where
  "read_update bus up s =
     (case copy_update 0 (fst up) (snd up) of (u, p) \<Rightarrow>
        case readMemoryBlock bus (drop 3 u) (unat (u ! 2)) (u ! 0) (u ! 1) s of (d, s) \<Rightarrow> ((take 3 u @ d, p), s))"

section \<open>Initialisation\<close>

text \<open>
  The outcome: the status that is returned, a wait for the FIFO that is not over within the fuel, or
  a read past the 128 bytes of \<^verbatim>\<open>fifoBuffer\<close>, whose count is not checked.
\<close>

datatype 's start = Init_returns u8 's | Init_waits | Init_overrun

text \<open>\<open>while ((fifoCount = getFIFOCount()) < 3);\<close>, where \<^verbatim>\<open>fifoCount\<close> is a \<^verbatim>\<open>uint8_t\<close>.\<close>

fun wait_fifo :: "nat \<Rightarrow> 'd bus \<Rightarrow> ('d, 'z) mpu_scheme \<Rightarrow> (u8 \<times> ('d, 'z) mpu_scheme) option" where
  "wait_fifo 0 bus s = None"
| "wait_fifo (Suc fuel) bus s = (case getFIFOCount bus s of (n, s) \<Rightarrow>
     if ucast n < (3 :: u8) then wait_fifo fuel bus s else Some (ucast n, s))"

text \<open>What is read from the FIFO here is not used.\<close>

definition empty_fifo :: "'d bus \<Rightarrow> u8 \<Rightarrow> ('d, 'z) mpu_scheme \<Rightarrow> ('d, 'z) mpu_scheme option" where
  "empty_fifo bus n s = (if 128 < n then None else Some (snd (getFIFOBytes bus (replicate 128 0) n s)))"

text \<open>
  Up to the loading of the program: a reset, a look at the hardware revision, the gyro
  offsets the chip was made with. \<open>junk k\<close> is what the \<open>k\<close>-th uninitialised array holds.
\<close>

definition dmp_prepare ::
    "'d bus \<Rightarrow> (nat \<Rightarrow> u8 list) \<Rightarrow> ('d, 'z) mpu_scheme \<Rightarrow> (u8 \<times> u8 \<times> u8) \<times> ('d, 'z) mpu_scheme" where
  "dmp_prepare bus junk s =
     (let s = reset_mpu bus s;
          s = setSleepEnabled bus False s;
          s = setMemoryBank bus 0x10 True True s;
          s = setMemoryStartAddress bus 0x06 s;
          s = snd (readMemoryByte bus s);
          s = setMemoryBank bus 0 False False s;
          s = snd (getOTPBankValid bus (junk 0) s);
          (xg, s) = getXGyroOffset bus (junk 1) s;
          (yg, s) = getYGyroOffset bus (junk 2) s;
          (zg, s) = getZGyroOffset bus (junk 3) s;
          s = setSlaveAddress bus 0 0x7F s;
          s = setI2CMasterModeEnabled bus False s;
          s = setSlaveAddress bus 0 0x68 s;
          s = resetI2CMaster bus s
      in ((xg, yg, zg), s))"

text \<open>The settings that follow the configuration, up to the first two updates.\<close>

definition dmp_settings :: "'d bus \<Rightarrow> u8 \<times> u8 \<times> u8 \<Rightarrow> ('d, 'z) mpu_scheme \<Rightarrow> ('d, 'z) mpu_scheme" where
  "dmp_settings bus offsets s =
     (case offsets of (xg, yg, zg) \<Rightarrow>
      let s = setClockSource bus MPU6050_CLOCK_PLL_ZGYRO s;
          s = setIntEnabled bus 0x12 s;
          s = setRate bus 4 s;
          s = setExternalFrameSync bus MPU6050_EXT_SYNC_TEMP_OUT_L s;
          s = setDLPFMode bus MPU6050_DLPF_BW_42 s;
          s = setFullScaleGyroRange bus MPU6050_GYRO_FS_2000 s;
          s = setDMPConfig1 bus 0x03 s;
          s = setDMPConfig2 bus 0x00 s;
          s = setOTPBankValid bus False s;
          s = setXGyroOffset bus xg s;
          s = setYGyroOffset bus yg s;
          s = setZGyroOffset bus zg s;
          s = setXGyroOffsetUser bus 0 s;
          s = setYGyroOffsetUser bus 0 s
      in setZGyroOffsetUser bus 0 s)"

text \<open>Between the first read of the FIFO and the wait for its first bytes.\<close>

definition dmp_enable ::
    "'d bus \<Rightarrow> (nat \<Rightarrow> u8 list) \<Rightarrow> u8 list \<times> nat \<Rightarrow> ('d, 'z) mpu_scheme \<Rightarrow> (u8 list \<times> nat) \<times> ('d, 'z) mpu_scheme" where
  "dmp_enable bus junk up s =
     (let s = setMotionDetectionThreshold bus 2 s;
          s = setZeroMotionDetectionThreshold bus 156 s;
          s = setMotionDetectionDuration bus 80 s;
          s = setZeroMotionDetectionDuration bus 0 s;
          s = resetFIFO bus s;
          s = setFIFOEnabled bus True s;
          s = setDMPEnabled bus True s;
          s = resetDMP bus s;
          (up, s) = write_update bus (junk 7) up s;
          (up, s) = write_update bus (junk 8) up s
      in write_update bus (junk 9) up s)"

text \<open>A wait, the bytes that came in, and the interrupt status.\<close>

definition dmp_await :: "nat \<Rightarrow> 'd bus \<Rightarrow> ('d, 'z) mpu_scheme \<Rightarrow> ('d, 'z) mpu_scheme start" where
  "dmp_await fuel bus s =
     (case wait_fifo fuel bus s of None \<Rightarrow> Init_waits
      | Some (n, s) \<Rightarrow>
        (case empty_fifo bus n s of None \<Rightarrow> Init_overrun
         | Some s \<Rightarrow> Init_returns 0 (snd (getIntStatus bus s))))"

fun and_then :: "'s start \<Rightarrow> ('s \<Rightarrow> 's start) \<Rightarrow> 's start" where
  "and_then (Init_returns r s) f = f s"
| "and_then Init_waits f = Init_waits"
| "and_then Init_overrun f = Init_overrun"

definition dmp_finish :: "'d bus \<Rightarrow> ('d, 'z) mpu_scheme \<Rightarrow> ('d, 'z) mpu_scheme" where
  "dmp_finish bus s = (let s = setDMPEnabled bus False s; s = resetFIFO bus s in snd (getIntStatus bus s))"

definition dmp_go ::
    "nat \<Rightarrow> 'd bus \<Rightarrow> (nat \<Rightarrow> u8 list) \<Rightarrow> u8 \<times> u8 \<times> u8 \<Rightarrow> ('d, 'z) mpu_scheme \<Rightarrow> ('d, 'z) mpu_scheme start" where
  "dmp_go fuel bus junk offsets s =
     (let s = dmp_settings bus offsets s;
          (up, s) = write_update bus (junk 5) (junk 4, 0) s;
          (up, s) = write_update bus (junk 6) up s;
          s = resetFIFO bus s;
          (n, s) = getFIFOCount bus s
      in case empty_fifo bus (ucast n) s of None \<Rightarrow> Init_overrun
         | Some s \<Rightarrow>
           (case dmp_enable bus junk up s of (up, s) \<Rightarrow>
              and_then (dmp_await fuel bus s) (\<lambda>s.
                case read_update bus up s of (up, s) \<Rightarrow>
                  and_then (dmp_await fuel bus s) (\<lambda>s.
                    case write_update bus (junk 10) up s of (up, s) \<Rightarrow> Init_returns 0 (dmp_finish bus s)))))"

definition dmpInitialize ::
    "nat \<Rightarrow> 'd bus \<Rightarrow> (nat \<Rightarrow> u8 list) \<Rightarrow> ('d, 'z) mpu_scheme \<Rightarrow> ('d, 'z) mpu_scheme start" where
  "dmpInitialize fuel bus junk s =
     (case dmp_prepare bus junk s of (offsets, s) \<Rightarrow>
      case writeProgMemoryBlock bus (junk 11) dmpMemory MPU6050_DMP_CODE_SIZE 0 0 True s of (loaded, s) \<Rightarrow>
        if loaded then
          (case writeProgDMPConfigurationSet bus (\<lambda>i. junk (12 + i)) dmpConfig MPU6050_DMP_CONFIG_SIZE s of (configured, s) \<Rightarrow>
             if configured then dmp_go fuel bus junk offsets s else Init_returns 2 s)
        else Init_returns 1 s)"

definition dmpGetFIFOPacketSize :: u16 where "dmpGetFIFOPacketSize = dmpPacketSize"

lemma length_banks:
  "length dmp_bank0 = 256" "length dmp_bank1 = 256" "length dmp_bank2 = 256" "length dmp_bank3 = 256"
  "length dmp_bank4 = 256" "length dmp_bank5 = 256" "length dmp_bank6 = 256" "length dmp_bank7 = 137"
  by code_simp+

lemma dmp_tables: "length dmpMemory = 1929" "length dmpConfig = 192" "length dmpUpdates = 47"
  by (simp_all add: dmpMemory_def length_banks del: upt_Suc) code_simp+

end
