(* ===== verification/Sensor.thy ===== *)
theory Sensor
  imports Dmp
begin

text \<open>
  What the documentation of the sensor promises to its driver, the effect of the driver's operations on a
  sensor that keeps the promise, and a sensor that does.
\<close>

unbundle bit_operations_syntax

section \<open>The memory\<close>

text \<open>
  \<open>bk\<close> and \<open>ad\<close> are the selected bank and address, \<open>mm\<close> the memory. A transfer that starts
  at the selected address and stays within the bank reads or writes consecutive bytes; where the
  address stands afterwards is not promised. The register of enabled interrupts is elsewhere.
\<close>

definition stored :: "u8 list \<Rightarrow> u8 \<Rightarrow> u8 \<Rightarrow> (u8 \<Rightarrow> u8 \<Rightarrow> u8) \<Rightarrow> u8 \<Rightarrow> u8 \<Rightarrow> u8" where
  "stored ds b a m = (\<lambda>b' a'. if b' = b \<and> unat a \<le> unat a' \<and> unat a' < unat a + length ds
     then ds ! (unat a' - unat a) else m b' a')"

definition keeps_memory :: "'d bus \<Rightarrow> ('d \<Rightarrow> u8) \<Rightarrow> ('d \<Rightarrow> u8) \<Rightarrow> ('d \<Rightarrow> u8 \<Rightarrow> u8 \<Rightarrow> u8) \<Rightarrow> bool" where
  "keeps_memory bus bk ad mm \<longleftrightarrow> (\<forall>c.
     (\<forall>b. \<exists>c'. bus 0x68 [0x6D OR 128, b] 0 c = ((True, []), c') \<and> bk c' = b AND 0x1F \<and> ad c' = ad c \<and> mm c' = mm c) \<and>
     (\<forall>a. \<exists>c'. bus 0x68 [0x6E OR 128, a] 0 c = ((True, []), c') \<and> bk c' = bk c \<and> ad c' = a \<and> mm c' = mm c) \<and>
     (\<forall>ds. ds \<noteq> [] \<and> unat (ad c) + length ds \<le> 256 \<longrightarrow>
       (\<exists>c'. bus 0x68 ((0x6F OR 128) # ds) 0 c = ((True, []), c') \<and> bk c' = bk c
          \<and> mm c' = stored ds (bk c) (ad c) (mm c))) \<and>
     (\<forall>n. 0 < n \<longrightarrow> (\<exists>rx c'. bus 0x68 [0x6F] n c = ((True, rx), c') \<and> length rx = n
          \<and> (\<forall>i < n. unat (ad c) + i < 256 \<longrightarrow> rx ! i = mm c (bk c) (ad c + word_of_nat i))
          \<and> bk c' = bk c \<and> mm c' = mm c)) \<and>
     (\<forall>v. \<exists>c'. bus 0x68 [0x38 OR 128, v] 0 c = ((True, []), c') \<and> mm c' = mm c))"

text \<open>The memory as one sequence of bytes.\<close>

definition pos :: "u8 \<Rightarrow> u8 \<Rightarrow> nat" where "pos b a = 256 * unat b + unat a"

lemma small_bank: fixes b :: u8 assumes "unat b < 32" shows "b AND 0x1F = b"
proof -
  have "b AND 0x1F = take_bit 5 b" by (simp add: take_bit_eq_mask mask_eq_exp_minus_1)
  also have "\<dots> = b" using assms by (simp add: word_unat_eq_iff unsigned_take_bit_eq take_bit_nat_eq_self)
  finally show ?thesis .
qed

lemma next_pos:
  assumes "0 < k" "unat a + k \<le> 256" "unat b < 32"
  shows "pos (next_bank b (a + word_of_nat k)) (a + word_of_nat k) = pos b a + k"
proof (cases "unat a + k = 256")
  case True
  then have "a + word_of_nat k = 0" by (simp add: word_unat_eq_iff unat_word_ariths unat_of_nat mod_add_right_eq)
  moreover have "unat (b + 1) = unat b + 1" using assms(3) by (simp add: unat_word_ariths)
  ultimately show ?thesis using True by (simp add: pos_def next_bank_def)
next
  case False
  then have u: "unat (a + word_of_nat k) = unat a + k"
    using assms(2) by (simp add: unat_word_ariths unat_of_nat mod_add_right_eq)
  then have "a + word_of_nat k \<noteq> 0" using assms(1) by (auto simp: word_unat_eq_iff)
  then show ?thesis using u by (simp add: pos_def next_bank_def)
qed

lemma select_ok:
  assumes "keeps_memory bus bk ad mm" "unat b < 32"
  shows "bk (chip (select bus b a s)) = b" "ad (chip (select bus b a s)) = a"
    "mm (chip (select bus b a s)) = mm (chip s)"
proof -
  obtain c1 where c1: "bus 0x68 [0x6D OR 128, b] 0 (chip s) = ((True, []), c1)" "bk c1 = b AND 0x1F" "mm c1 = mm (chip s)"
    using assms(1) unfolding keeps_memory_def by blast
  obtain c2 where c2: "bus 0x68 [0x6E OR 128, a] 0 c1 = ((True, []), c2)" "bk c2 = bk c1" "ad c2 = a" "mm c2 = mm c1"
    using assms(1) unfolding keeps_memory_def by blast
  have "chip (select bus b a s) = c2"
    using c1(1) c2(1) small_bank[OF assms(2)]
    by (simp add: select_def setMemoryBank_def setMemoryStartAddress_def put_byte_def writeByte_def writeBytes_def
        i2cMasterTransmit_def MPU6050_DEFAULT_ADDRESS_def MPU6050_RA_BANK_SEL_def MPU6050_RA_MEM_START_ADDR_def)
  then show "bk (chip (select bus b a s)) = b" "ad (chip (select bus b a s)) = a"
    "mm (chip (select bus b a s)) = mm (chip s)"
    using c1 c2 small_bank[OF assms(2)] by simp_all
qed


lemma mem_readD:
  assumes "keeps_memory bus bk ad mm" "0 < n"
  obtains rx c' where "bus 0x68 [0x6F] n c = ((True, rx), c')" "length rx = n"
    "\<And>i. \<lbrakk>i < n; unat (ad c) + i < 256\<rbrakk> \<Longrightarrow> rx ! i = mm c (bk c) (ad c + word_of_nat i)"
    "bk c' = bk c" "mm c' = mm c"
  using assms unfolding keeps_memory_def by meson

lemma write_ok:
  assumes "keeps_memory bus bk ad mm" "0 < n" "unat (ad (chip s)) + n \<le> 256" "n \<le> 16" "length ds = n"
  obtains s' where "writeBytes bus MPU6050_DEFAULT_ADDRESS MPU6050_RA_MEM_R_W (word_of_nat n) ds s = (True, s')"
    "bk (chip s') = bk (chip s)" "mm (chip s') = stored ds (bk (chip s)) (ad (chip s)) (mm (chip s))"
proof -
  have d: "map (\<lambda>i. ds ! i) [0..<unat (word_of_nat n :: u8)] = ds"
    using assms(4,5) map_nth[of ds] by (simp add: unat_of_nat)
  have "ds \<noteq> []" "unat (ad (chip s)) + length ds \<le> 256" using assms(2,3,5) by auto
  then obtain c where "bus 0x68 ((0x6F OR 128) # ds) 0 (chip s) = ((True, []), c)" "bk c = bk (chip s)"
    "mm c = stored ds (bk (chip s)) (ad (chip s)) (mm (chip s))"
    using assms(1) unfolding keeps_memory_def by blast
  then show ?thesis
    by (intro that[of "s\<lparr>chip := c\<rparr>"])
      (simp_all add: writeBytes_def i2cMasterTransmit_def d MPU6050_DEFAULT_ADDRESS_def MPU6050_RA_MEM_R_W_def)
qed

lemma read_ok:
  assumes "keeps_memory bus bk ad mm" "0 < n" "unat (ad (chip s)) + n \<le> 256" "n \<le> 16" "n \<le> length buf"
  obtains st d s' where
    "readBytes bus MPU6050_DEFAULT_ADDRESS MPU6050_RA_MEM_R_W (word_of_nat n) buf s = ((st, d), s')"
    "d = map (\<lambda>i. mm (chip s) (bk (chip s)) (ad (chip s) + word_of_nat i)) [0..<n] @ drop n buf"
    "bk (chip s') = bk (chip s)" "mm (chip s') = mm (chip s)"
proof (cases "n = 1")
  case True
  obtain rx c where c: "bus 0x68 [0x6F] 2 (chip s) = ((True, rx), c)" "length rx = 2"
    "\<And>i. \<lbrakk>i < 2; unat (ad (chip s)) + i < 256\<rbrakk> \<Longrightarrow> rx ! i = mm (chip s) (bk (chip s)) (ad (chip s) + word_of_nat i)"
    "bk c = bk (chip s)" "mm c = mm (chip s)"
    using mem_readD[OF assms(1) zero_less_numeral[of "num.Bit0 num.One"], of "chip s"] by blast
  have "rx ! 0 = mm (chip s) (bk (chip s)) (ad (chip s))"
    using c(3)[of 0] u8_bound[of "ad (chip s)"] by simp
  moreover have "buf[0 := x] = x # drop 1 buf" for x using True assms(5) by (cases buf) auto
  ultimately show ?thesis using c True
    by (intro that[of 1 _ "s\<lparr>chip := c, rxbuf_global := rx @ drop 2 (rxbuf_global s)\<rparr>"])
      (simp_all add: readBytes_def readByte_def i2cMasterTransmit_def nth_append MPU6050_DEFAULT_ADDRESS_def
        MPU6050_RA_MEM_R_W_def)
next
  case False
  obtain rx c where c: "bus 0x68 [0x6F] n (chip s) = ((True, rx), c)" "length rx = n"
    "\<And>i. \<lbrakk>i < n; unat (ad (chip s)) + i < 256\<rbrakk> \<Longrightarrow> rx ! i = mm (chip s) (bk (chip s)) (ad (chip s) + word_of_nat i)"
    "bk c = bk (chip s)" "mm c = mm (chip s)"
    using mem_readD[OF assms(1,2), of "chip s"] by blast
  have "rx = map (\<lambda>i. mm (chip s) (bk (chip s)) (ad (chip s) + word_of_nat i)) [0..<n]"
    using c(2,3) assms(3) by (intro nth_equalityI) simp_all
  moreover have "word_of_nat n \<noteq> (1 :: u8)" "unat (word_of_nat n :: u8) = n"
    using False assms(4) by (simp_all add: word_unat_eq_iff unat_of_nat)
  ultimately show ?thesis using c
    by (intro that[of 1 _ "s\<lparr>chip := c\<rparr>"])
      (simp_all add: readBytes_def i2cMasterTransmit_def MPU6050_DEFAULT_ADDRESS_def MPU6050_RA_MEM_R_W_def)
qed

lemma stored_back:
  assumes "unat a + length ds \<le> 256"
  shows "map (\<lambda>i. stored ds b a m b (a + word_of_nat i)) [0..<length ds] = ds"
proof (intro nth_equalityI)
  fix i assume "i < length (map (\<lambda>i. stored ds b a m b (a + word_of_nat i)) [0..<length ds])"
  then have i: "i < length ds" by simp
  then have "unat (a + word_of_nat i) = unat a + i"
    using assms by (simp add: unat_word_ariths unat_of_nat mod_add_right_eq)
  then show "map (\<lambda>i. stored ds b a m b (a + word_of_nat i)) [0..<length ds] ! i = ds ! i"
    using i by (simp add: stored_def)
qed simp

text \<open>The memory after a block is written at a place.\<close>

definition written :: "u8 list \<Rightarrow> nat \<Rightarrow> (u8 \<Rightarrow> u8 \<Rightarrow> u8) \<Rightarrow> u8 \<Rightarrow> u8 \<Rightarrow> u8" where
  "written ds p m = (\<lambda>b a. if p \<le> pos b a \<and> pos b a < p + length ds then ds ! (pos b a - p) else m b a)"

lemma stored_written:
  assumes "unat a + length ds \<le> 256" shows "stored ds b a m = written ds (pos b a) m"
proof (intro ext)
  fix b' a' :: u8
  have u: "unat a < 256" "unat a' < 256" using u8_bound[of a] u8_bound[of a'] by simp_all
  show "stored ds b a m b' a' = written ds (pos b a) m b' a'"
  proof (cases "b' = b")
    case True then show ?thesis by (auto simp: stored_def written_def pos_def)
  next
    case False
    then have "unat b' < unat b \<or> unat b < unat b'" by (metis linorder_neqE_nat word_unat_eq_iff)
    then show ?thesis using False assms u by (auto simp: stored_def written_def pos_def)
  qed
qed

lemma written_written:
  "written e (p + length d) (written d p m) = written (d @ e) p m"
  by (auto simp: written_def nth_append fun_eq_iff)

lemma written_Nil [simp]: "written [] p m = m"
  by (auto simp: written_def fun_eq_iff)


text \<open>Selected is where the next byte goes, as long as there is one.\<close>

definition at_place :: "('d \<Rightarrow> u8) \<Rightarrow> ('d \<Rightarrow> u8) \<Rightarrow> nat \<Rightarrow> nat \<Rightarrow> u8 \<Rightarrow> u8 \<Rightarrow> 'd \<Rightarrow> bool" where
  "at_place bk ad i n bank address c \<longleftrightarrow>
     (i < n \<longrightarrow> bk c = bank \<and> ad c = address \<and> pos bank address + (n - i) \<le> 8192)"

lemma bank_small: "\<lbrakk>pos b a + m \<le> 8192; 0 < m\<rbrakk> \<Longrightarrow> unat b < 32"
  by (simp add: pos_def)

lemma select_next:
  assumes "keeps_memory bus bk ad mm" "0 < k" "unat a + k \<le> 256" "pos b a + (n - i) \<le> 8192" "i < n"
    "s' = (if i + k < n then select bus (next_bank b (a + word_of_nat k)) (a + word_of_nat k) s else s)"
    "b' = (if i + k < n then next_bank b (a + word_of_nat k) else b)"
  shows "at_place bk ad (i + k) n b' (a + word_of_nat k) (chip s')" "mm (chip s') = mm (chip s)"
    "i + k < n \<Longrightarrow> pos b' (a + word_of_nat k) = pos b a + k"
proof -
  have b: "unat b < 32" using bank_small[OF assms(4)] assms(5) by simp
  have p: "pos (next_bank b (a + word_of_nat k)) (a + word_of_nat k) = pos b a + k"
    using assms(2,3) b by (rule next_pos)
  then show "i + k < n \<Longrightarrow> pos b' (a + word_of_nat k) = pos b a + k" using assms(7) by simp
  show "at_place bk ad (i + k) n b' (a + word_of_nat k) (chip s')" "mm (chip s') = mm (chip s)"
  proof (atomize (full), cases "i + k < n")
    case True
    have q: "pos (next_bank b (a + word_of_nat k)) (a + word_of_nat k) + (n - (i + k)) \<le> 8192"
      using True assms(4) p by simp
    then have "unat (next_bank b (a + word_of_nat k)) < 32" using True by (intro bank_small[OF q]) simp
    from select_ok[OF assms(1) this, of "a + word_of_nat k" s] q True show
      "at_place bk ad (i + k) n b' (a + word_of_nat k) (chip s') \<and> mm (chip s') = mm (chip s)"
      using assms(6,7) by (simp add: at_place_def)
  next
    case False
    then show "at_place bk ad (i + k) n b' (a + word_of_nat k) (chip s') \<and> mm (chip s') = mm (chip s)"
      using assms(6) by (simp add: at_place_def)
  qed
qed

lemma write_loop_ok:
  assumes K: "keeps_memory bus bk ad mm"
  shows "\<lbrakk>at_place bk ad i n bank address (chip s); 16 \<le> length vb; n \<le> length data\<rbrakk> \<Longrightarrow>
    \<exists>s'. write_loop bus data n verify i bank address vb s = (True, s') \<and>
      mm (chip s') = written (take (n - i) (drop i data)) (pos bank address) (mm (chip s))"
proof (induction "n - i" arbitrary: i bank address vb s rule: less_induct)
  case less
  show ?case
  proof (cases "n \<le> i")
    case True then show ?thesis by (subst write_loop.simps) simp
  next
    case False
    define k where "k = chunk n i address"
    define ds where "ds = take k (drop i data)"
    have k: "0 < k" "k \<le> 16" "k \<le> n - i" "unat address + k \<le> 256"
      using False by (simp_all add: k_def chunk_pos)
    have at: "bk (chip s) = bank" "ad (chip s) = address" "pos bank address + (n - i) \<le> 8192"
      using less.prems(1) False by (simp_all add: at_place_def)
    then have b: "unat bank < 32" using False by (intro bank_small[of _ _ "n - i"]) simp_all
    have l: "length ds = k" using k(3) less.prems(3) by (simp add: ds_def)
    have d: "map (\<lambda>j. data ! (i + j)) [0..<k] = ds"
      using k(3) less.prems(3) by (intro nth_equalityI) (simp_all add: ds_def)
    obtain s1 where s1: "writeBytes bus MPU6050_DEFAULT_ADDRESS MPU6050_RA_MEM_R_W (word_of_nat k) ds s = (True, s1)"
      "mm (chip s1) = stored ds bank address (mm (chip s))"
      using write_ok[OF K k(1) _ k(2) l, of s] at k(4) by metis
    obtain st vb' s2 where s2:
      "(if verify then (case readBytes bus MPU6050_DEFAULT_ADDRESS MPU6050_RA_MEM_R_W (word_of_nat k) vb
          (select bus bank address s1) of ((_, vb), s) \<Rightarrow> (take k vb = ds, vb, s)) else (True, vb, s1)) = (True, vb', s2)"
      "16 \<le> length vb'" "mm (chip s2) = mm (chip s1)"
    proof (cases verify)
      case True
      note sel = select_ok[OF K b, of address s1]
      have "unat (ad (chip (select bus bank address s1))) + k \<le> 256" "k \<le> length vb"
        using sel(2) k(2,4) less.prems(2) by simp_all
      from read_ok[OF K k(1) this(1) k(2) this(2)] obtain st d s2 where
        r: "readBytes bus MPU6050_DEFAULT_ADDRESS MPU6050_RA_MEM_R_W (word_of_nat k) vb
          (select bus bank address s1) = ((st, d), s2)"
        "d = map (\<lambda>i. mm (chip s1) bank (address + word_of_nat i)) [0..<k] @ drop k vb" "mm (chip s2) = mm (chip s1)"
        unfolding sel by blast
      have "map (\<lambda>i. mm (chip s1) bank (address + word_of_nat i)) [0..<k] = ds"
        using stored_back[of address ds bank "mm (chip s)"] l k(4) s1(2) by simp
      then show ?thesis using r l less.prems(2) True by (intro that[of d s2]) simp_all
    qed (use less.prems(2) in auto)
    define b' where "b' = (if i + k < n then next_bank bank (address + word_of_nat k) else bank)"
    define s3 where "s3 = (if i + k < n then select bus (next_bank bank (address + word_of_nat k)) (address + word_of_nat k) s2 else s2)"
    have i: "i < n" using False by simp
    note next_place = select_next[OF K k(1,4) at(3) i s3_def b'_def]
    have "n - (i + k) < n - i" using i k(1) by simp
    from less.hyps[OF this next_place(1) s2(2) less.prems(3)] obtain s' where
      s': "write_loop bus data n verify (i + k) b' (address + word_of_nat k) vb' s3 = (True, s')"
      "mm (chip s') = written (take (n - (i + k)) (drop (i + k) data)) (pos b' (address + word_of_nat k)) (mm (chip s3))"
      by blast
    have "mm (chip s') = written (take (n - (i + k)) (drop (i + k) data)) (pos bank address + k)
        (written ds (pos bank address) (mm (chip s)))"
      using s'(2) next_place(2,3) s2(3) s1(2) stored_written[of address ds bank] l k(4)
      by (cases "i + k < n") simp_all
    also have "\<dots> = written (take (n - i) (drop i data)) (pos bank address) (mm (chip s))"
    proof -
      have "take (n - i) (drop i data) = ds @ take (n - (i + k)) (drop (i + k) data)"
      proof -
        have "n - i = k + (n - (i + k))" using k(3) by simp
        then show ?thesis using take_add[of k "n - (i + k)" "drop i data"] by (simp add: ds_def add.commute)
      qed
      then show ?thesis using l written_written by metis
    qed
    finally have m: "mm (chip s') = written (take (n - i) (drop i data)) (pos bank address) (mm (chip s))" .
    have "write_loop bus data n verify i bank address vb s = (True, s')"
      unfolding write_loop.simps[of bus data n verify i] Let_def k_def[symmetric] d s1(1) snd_conv s2(1) prod.case
      using False s'(1)[unfolded b'_def s3_def] by (cases "i + k < n") simp_all
    with m show ?thesis by blast
  qed
qed

lemma write_block_ok:
  assumes "keeps_memory bus bk ad mm" "pos bank address + n \<le> 8192" "0 < n" "16 \<le> length vb" "n \<le> length data"
  obtains s' where "writeMemoryBlock bus vb data n bank address verify s = (True, s')"
    "mm (chip s') = written (take n data) (pos bank address) (mm (chip s))"
proof -
  have b: "unat bank < 32" using assms(2,3) by (rule bank_small)
  have "at_place bk ad 0 n bank address (chip (select bus bank address s))"
    using select_ok[OF assms(1) b, of address s] assms(2) by (simp add: at_place_def)
  from write_loop_ok[OF assms(1) this assms(4,5), of verify] obtain s' where
    "write_loop bus data n verify 0 bank address vb (select bus bank address s) = (True, s')"
    "mm (chip s') = written (take n data) (pos bank address) (mm (chip s))"
    using select_ok(3)[OF assms(1) b, of address s] by auto
  then show ?thesis by (intro that[of s']) (simp_all add: writeMemoryBlock_def)
qed

section \<open>The configuration\<close>

text \<open>What the table says, read as a list: the blocks, or \<open>None\<close> when it is not well-formed.\<close>

fun config_blocks :: "nat \<Rightarrow> u8 list \<Rightarrow> (u8 \<times> u8 \<times> u8 list) list option" where
  "config_blocks (Suc fuel) (bank # offset # len # rest) =
     (if 0 < len then
        (if unat len \<le> length rest
         then map_option ((#) (bank, offset, take (unat len) rest)) (config_blocks fuel (drop (unat len) rest))
         else None)
      else (case rest of special # rest \<Rightarrow> if special = 1 then config_blocks fuel rest else None | [] \<Rightarrow> None))"
| "config_blocks fuel [] = Some []"
| "config_blocks fuel xs = None"

definition block_fits :: "u8 \<times> u8 \<times> u8 list \<Rightarrow> bool" where
  "block_fits b = (case b of (bank, offset, ds) \<Rightarrow> pos bank offset + length ds \<le> 8192)"

definition put_block :: "u8 \<times> u8 \<times> u8 list \<Rightarrow> (u8 \<Rightarrow> u8 \<Rightarrow> u8) \<Rightarrow> u8 \<Rightarrow> u8 \<Rightarrow> u8" where
  "put_block b = (case b of (bank, offset, ds) \<Rightarrow> written ds (pos bank offset))"

lemma config_blocks_header:
  assumes "config_blocks fuel xs = Some bs" "xs \<noteq> []"
  obtains bank offset len rest where "xs = bank # offset # len # rest"
proof -
  obtain a ys where a: "xs = a # ys" using assms(2) by (cases xs) auto
  obtain b zs where b: "ys = b # zs" using assms(1) a by (cases ys; cases fuel) auto
  obtain c rest where "zs = c # rest" using assms(1) a b by (cases zs; cases fuel) auto
  then show thesis using that a b by blast
qed

lemma config_loop_ok:
  assumes K: "keeps_memory bus bk ad mm" and V: "\<And>i. 16 \<le> length (vb i)"
  shows "\<lbrakk>config_blocks fuel (drop i data) = Some bs; list_all block_fits bs\<rbrakk> \<Longrightarrow>
    \<exists>s'. config_loop bus vb data (length data) i s = (True, s')
      \<and> mm (chip s') = fold put_block bs (mm (chip s))"
proof (induction fuel arbitrary: i bs s)
  case 0
  then have "length data \<le> i" "bs = []" by (cases "drop i data"; simp)+
  then show ?case by (subst config_loop.simps) simp
next
  case (Suc fuel)
  show ?case
  proof (cases "length data \<le> i")
    case True
    then have "bs = []" using Suc.prems(1) by simp
    then show ?thesis using True by (subst config_loop.simps) simp
  next
    case False
    then obtain bank offset len rest where d: "drop i data = bank # offset # len # rest"
      using config_blocks_header[OF Suc.prems(1)] by (metis drop_eq_Nil2)
    have n: "data ! (i + k) = (bank # offset # len # rest) ! k" for k
      using d nth_drop[of i data k] False by auto
    have r: "drop (i + 3 + k) data = drop k rest" for k
      using arg_cong[OF d, of "drop (3 + k)"] by (simp add: add.commute add.left_commute numeral_3_eq_3)
    show ?thesis
    proof (cases "0 < len")
      case True
      then obtain bs' where l: "unat len \<le> length rest" and
        bs: "bs = (bank, offset, take (unat len) rest) # bs'" "config_blocks fuel (drop (unat len) rest) = Some bs'"
        using Suc.prems(1) by (auto simp: d split: if_splits)
      define pb where "pb = map (\<lambda>j. data ! (i + 3 + j)) [0..<unat len]"
      have pb: "pb = take (unat len) rest"
        using l n[of "3 + _"] by (intro nth_equalityI) (simp_all add: pb_def add.assoc)
      have f: "pos bank offset + unat len \<le> 8192" "0 < unat len"
        using Suc.prems(2) bs l True by (simp_all add: block_fits_def word_less_nat_alt)
      obtain s1 where s1: "writeMemoryBlock bus (vb i) pb (unat len) bank offset True s = (True, s1)"
        "mm (chip s1) = written pb (pos bank offset) (mm (chip s))"
        using write_block_ok[OF K f V, of pb i True s] pb l by (auto simp: min_absorb2)
      obtain s' where "config_loop bus vb data (length data) (i + 3 + unat len) s1 = (True, s')"
        "mm (chip s') = fold put_block bs' (mm (chip s1))"
        using Suc.IH[of "i + 3 + unat len" bs' s1] bs Suc.prems(2) r[of "unat len"] by (auto simp: add.assoc)
      then show ?thesis
        using False True n[of 0] n[of 1] n[of 2] s1 bs pb
        by (subst config_loop.simps) (simp add: Let_def pb_def put_block_def)
    next
      case z: False
      then obtain rest' where rest: "rest = 1 # rest'" and bs: "config_blocks fuel rest' = Some bs"
        using Suc.prems(1) by (auto simp: d split: if_splits list.splits)
      obtain c' where "bus 0x68 [0x38 OR 128, 0x32] 0 (chip s) = ((True, []), c')" "mm c' = mm (chip s)"
        using K unfolding keeps_memory_def by blast
      then have m: "mm (chip (put_byte bus MPU6050_RA_INT_ENABLE 0x32 s)) = mm (chip s)"
        by (simp add: put_byte_def writeByte_def writeBytes_def i2cMasterTransmit_def MPU6050_DEFAULT_ADDRESS_def
            MPU6050_RA_INT_ENABLE_def)
      obtain s' where "config_loop bus vb data (length data) (i + 4) (put_byte bus MPU6050_RA_INT_ENABLE 0x32 s) = (True, s')"
        "mm (chip s') = fold put_block bs (mm (chip s))"
        using Suc.IH[of "i + 4" bs "put_byte bus MPU6050_RA_INT_ENABLE 0x32 s"] bs Suc.prems(2) r[of 1] m rest
        by (auto simp: add.commute)
      then show ?thesis
        using False z n[of 0] n[of 1] n[of 2] n[of 3] rest
        by (subst config_loop.simps) (simp add: Let_def)
    qed
  qed
qed

text \<open>The table of the firmware.\<close>

definition dmp_blocks :: "(u8 \<times> u8 \<times> u8 list) list" where
  "dmp_blocks = the (config_blocks 30 dmpConfig)"

lemma small_block: "\<lbrakk>b < 30; length ds < 256\<rbrakk> \<Longrightarrow> block_fits (b, a, ds)"
  using u8_bound[of a] by (simp add: block_fits_def pos_def word_less_nat_alt)

lemma dmp_blocks: "config_blocks 30 dmpConfig = Some dmp_blocks" "list_all block_fits dmp_blocks" "length dmp_blocks = 29"
proof -
  have "case config_blocks 30 dmpConfig of None \<Rightarrow> False
      | Some bs \<Rightarrow> list_all (\<lambda>(b, a, ds). b < 30 \<and> length ds < 20) bs \<and> length bs = 29"
    by code_simp
  then obtain bs where bs: "config_blocks 30 dmpConfig = Some bs" "list_all (\<lambda>(b, a, ds). b < 30 \<and> length ds < 20) bs"
    "length bs = 29" by (auto split: option.splits)
  have "list_all block_fits bs"
    using bs(2) by (rule list.pred_mono_strong) (auto intro!: small_block)
  then show "config_blocks 30 dmpConfig = Some dmp_blocks" "list_all block_fits dmp_blocks" "length dmp_blocks = 29"
    using bs by (simp_all add: dmp_blocks_def)
qed

section \<open>A sensor that keeps the promises\<close>

text \<open>128 plain registers.\<close>

definition register_bus :: "(u8 \<Rightarrow> u8) bus" where
  "register_bus a tx n c = (case tx of
     [r] \<Rightarrow> ((True, c r # replicate (n - 1) 0), c)
   | [r, v] \<Rightarrow> ((True, []), c(r AND 127 := v))
   | _ \<Rightarrow> ((False, []), c))"

lemma low_address:
  fixes r :: u8 assumes "r < 128" shows "(r OR 128) AND 127 = r"
proof (rule bit_word_eqI)
  fix n assume "n < LENGTH(8)"
  then have n: "n < 8" by simp
  have "take_bit 7 r = r" using assms by (simp add: word_unat_eq_iff unsigned_take_bit_eq take_bit_nat_eq_self word_less_nat_alt)
  then have b: "bit r n \<Longrightarrow> n < 7" by (metis bit_take_bit_iff)
  have m: "(127 :: u8) = mask 7" "(128 :: u8) = push_bit 7 1" by (simp_all add: mask_eq_exp_minus_1)
  have "bit (128 :: u8) n \<longleftrightarrow> n = 7" unfolding m(2) bit_push_bit_iff bit_1_iff using n by auto
  then show "bit ((r OR 128) AND 127) n = bit r n" unfolding m(1) using b n by (auto simp: bit_simps)
qed

lemma register_bus_ok: "keeps_registers register_bus a (\<lambda>c. c) {r. r < 128}"
  using low_address by (simp add: keeps_registers_def register_bus_def numeral_2_eq_2)

text \<open>The selected bank, the selected address and the memory.\<close>

definition memory_bus :: "(u8 \<times> u8 \<times> (u8 \<Rightarrow> u8 \<Rightarrow> u8)) bus" where
  "memory_bus a tx n c = (case c of (b, ad, m) \<Rightarrow>
     (case tx of
        [] \<Rightarrow> ((False, []), c)
      | r # ds \<Rightarrow>
        if r = 0x6D OR 128 then ((True, []), (hd ds AND 0x1F, ad, m))
        else if r = 0x6E OR 128 then ((True, []), (b, hd ds, m))
        else if r = 0x6F OR 128 then ((True, []), (b, ad, stored ds b ad m))
        else if r = 0x6F then ((True, map (\<lambda>i. m b (ad + word_of_nat i)) [0..<n]), c)
        else ((True, []), c)))"

lemma memory_bus_ok: "keeps_memory memory_bus fst (fst \<circ> snd) (snd \<circ> snd)"
  by (auto simp: keeps_memory_def memory_bus_def)

end
