(* ===== verification/Lage.thy ===== *)
theory Lage
  imports Dmp Floats
begin

text \<open>
  \<^verbatim>\<open>src/Quad/Lage.cpp\<close>, with the decoding of packets of
  \<^verbatim>\<open>MPU6050_6Axis_MotionApps20.h\<close> and the types of \<^verbatim>\<open>helper_3dmath.h\<close> it uses: the thread that
  follows the sensor's FIFO and the attitude the other parts ask for. The functions of
  \<^verbatim>\<open><math.h>\<close> are a parameter. The pins and the set-up of the I2C unit are left out.
\<close>

unbundle bit_operations_syntax

section \<open>Packets\<close>

record Quaternion =
  q_w :: float32
  q_x :: float32
  q_y :: float32
  q_z :: float32

record VectorFloat =
  v_x :: float32
  v_y :: float32
  v_z :: float32

text \<open>The \<open>double\<close> functions of the mathematics library.\<close>

record libm =
  c_sqrt :: "float64 \<Rightarrow> float64"
  c_atan :: "float64 \<Rightarrow> float64"
  c_asin :: "float64 \<Rightarrow> float64"
  c_atan2 :: "float64 \<Rightarrow> float64 \<Rightarrow> float64"

definition be16 :: "u8 list \<Rightarrow> nat \<Rightarrow> u16" where
  "be16 packet i = push_bit 8 (ucast (packet ! i)) + ucast (packet ! (i + 1))"

definition be32 :: "u8 list \<Rightarrow> nat \<Rightarrow> u32" where
  "be32 packet i = push_bit 24 (ucast (packet ! i)) + push_bit 16 (ucast (packet ! (i + 1)))
     + push_bit 8 (ucast (packet ! (i + 2))) + ucast (packet ! (i + 3))"

text \<open>\<^verbatim>\<open>dmpGetQuaternion\<close> of 16-bit integers and, from them, of floats.\<close>

definition dmpGetQuaternion_int16 :: "u8 list \<Rightarrow> u16 list" where
  "dmpGetQuaternion_int16 packet = [be16 packet 0, be16 packet 4, be16 packet 8, be16 packet 12]"

definition quarter :: "u16 \<Rightarrow> float32" where
  "quarter w = f32 (of_int (sint w)) / f32 16384"

definition dmpGetQuaternion :: "u8 list \<Rightarrow> Quaternion" where
  "dmpGetQuaternion packet =
     (let qI = dmpGetQuaternion_int16 packet
      in \<lparr>q_w = quarter (qI ! 0), q_x = quarter (qI ! 1), q_y = quarter (qI ! 2), q_z = quarter (qI ! 3)\<rparr>)"

definition dmpGetGyro :: "u8 list \<Rightarrow> u32 list" where
  "dmpGetGyro packet = [be32 packet 16, be32 packet 20, be32 packet 24]"

definition dmpGetGravity :: "Quaternion \<Rightarrow> VectorFloat" where
  "dmpGetGravity q =
     \<lparr>v_x = f32 2 * (q_x q * q_z q - q_w q * q_y q),
      v_y = f32 2 * (q_w q * q_x q + q_y q * q_z q),
      v_z = q_w q * q_w q - q_x q * q_x q - q_y q * q_y q + q_z q * q_z q\<rparr>"

definition dmpGetEuler :: "libm \<Rightarrow> Quaternion \<Rightarrow> float32 list" where
  "dmpGetEuler M q =
     [float_of (c_atan2 M (double_of (f32 2 * q_x q * q_y q - f32 2 * q_w q * q_z q))
        (double_of (f32 2 * q_w q * q_w q + f32 2 * q_x q * q_x q - f32 1))),
      float_of (- c_asin M (double_of (f32 2 * q_x q * q_z q + f32 2 * q_w q * q_y q))),
      float_of (c_atan2 M (double_of (f32 2 * q_y q * q_z q - f32 2 * q_w q * q_x q))
        (double_of (f32 2 * q_w q * q_w q + f32 2 * q_z q * q_z q - f32 1)))]"

definition dmpGetYawPitchRoll :: "libm \<Rightarrow> Quaternion \<Rightarrow> VectorFloat \<Rightarrow> float32 list" where
  "dmpGetYawPitchRoll M q g =
     [float_of (c_atan2 M (double_of (f32 2 * q_x q * q_y q - f32 2 * q_w q * q_z q))
        (double_of (f32 2 * q_w q * q_w q + f32 2 * q_x q * q_x q - f32 1))),
      float_of (c_atan M (double_of (v_x g) / c_sqrt M (double_of (v_y g * v_y g + v_z g * v_z g)))),
      float_of (c_atan M (double_of (v_y g) / c_sqrt M (double_of (v_x g * v_x g + v_z g * v_z g))))]"

section \<open>State\<close>

record 'd imu = "'d mpu" +
  mpuInterrupt :: bool
  dmpReady :: bool
  mpuIntStatus :: u8
  packetSize :: u16
  fifoCount :: u16
  fifoBuffer :: "u8 list"
  quat :: Quaternion          \<comment> \<open>\<^verbatim>\<open>q\<close>\<close>
  gravity :: VectorFloat
  ypr :: "float32 list"
  euler :: "float32 list"
  gyroRate :: "u32 list"
  gyro_rate_float :: "float32 list"
  zaehler :: int

section \<open>One turn\<close>

text \<open>The scale of the turn rates, computed in \<open>double\<close> from the fourth factor on.\<close>

definition rate_float :: "u32 \<Rightarrow> float32" where
  "rate_float r = float_of (double_of (f32 (of_int (sint r)) / f32 2147483648 * f32 2000) * f64 (41 / 100))"

definition use_packet :: "libm \<Rightarrow> ('d, 'z) imu_scheme \<Rightarrow> ('d, 'z) imu_scheme" where
  "use_packet M s =
     (let s = s\<lparr>quat := dmpGetQuaternion (fifoBuffer s)\<rparr>;
          s = s\<lparr>gravity := dmpGetGravity (quat s)\<rparr>;
          s = s\<lparr>ypr := dmpGetYawPitchRoll M (quat s) (gravity s)\<rparr>;
          s = s\<lparr>euler := dmpGetEuler M (quat s)\<rparr>;
          s = s\<lparr>gyroRate := dmpGetGyro (fifoBuffer s)\<rparr>
      in s\<lparr>gyro_rate_float := map rate_float (take 3 (gyroRate s))\<rparr>)"

text \<open>The wait for a whole packet may not end: \<open>None\<close> when the fuel is used up.\<close>

fun wait_packet :: "nat \<Rightarrow> 'd bus \<Rightarrow> ('d, 'z) imu_scheme \<Rightarrow> ('d, 'z) imu_scheme option" where
  "wait_packet 0 bus s = None"
| "wait_packet (Suc fuel) bus s =
     (if fifoCount s < packetSize s
      then (case getFIFOCount bus s of (n, s) \<Rightarrow> wait_packet fuel bus (s\<lparr>fifoCount := n\<rparr>))
      else Some s)"

primrec read_packets :: "nat \<Rightarrow> 'd bus \<Rightarrow> ('d, 'z) imu_scheme \<Rightarrow> ('d, 'z) imu_scheme" where
  "read_packets 0 bus s = s"
| "read_packets (Suc n) bus s =
     (case getFIFOBytes bus (fifoBuffer s) (ucast (packetSize s)) s of (d, s) \<Rightarrow>
        read_packets n bus (s\<lparr>fifoBuffer := d\<rparr>))"

definition update_IMU :: "libm \<Rightarrow> nat \<Rightarrow> 'd bus \<Rightarrow> ('d, 'z) imu_scheme \<Rightarrow> ('d, 'z) imu_scheme option" where
  "update_IMU M fuel bus s =
     (if \<not> mpuInterrupt s then Some s
      else
        (let s = s\<lparr>mpuInterrupt := False\<rparr>;
             (st, s) = getIntStatus bus s;
             s = s\<lparr>mpuIntStatus := st\<rparr>;
             (n, s) = getFIFOCount bus s;
             s = s\<lparr>fifoCount := n\<rparr>
         in if mpuIntStatus s AND 0x10 \<noteq> 0 \<or> fifoCount s = 1024 then Some (resetFIFO bus s)
            else if mpuIntStatus s AND 0x02 \<noteq> 0 then
              (case wait_packet fuel bus s of None \<Rightarrow> None
               | Some s \<Rightarrow>
                   (let s = read_packets (unat (fifoCount s div packetSize s)) bus s;
                        s = use_packet M s;
                        (n, s) = getFIFOCount bus s
                    in Some (s\<lparr>fifoCount := n\<rparr>)))
            else Some (s\<lparr>zaehler := zaehler s + 1\<rparr>)))"

section \<open>Set-up, interrupt and results\<close>

text \<open>\<^verbatim>\<open>setup_IMU\<close>; the result tells whether the thread that turns was created.\<close>

definition setup_IMU ::
    "nat \<Rightarrow> 'd bus \<Rightarrow> (nat \<Rightarrow> u8 list) \<Rightarrow> ('d, 'z) imu_scheme \<Rightarrow> (bool \<times> ('d, 'z) imu_scheme) option" where
  "setup_IMU fuel bus junk s =
     (case dmpInitialize fuel bus junk (initialize bus s) of
        Init_returns devStatus s \<Rightarrow>
          (if devStatus = 0 then
             (let s = setDMPEnabled bus True s;
                  (st, s) = getIntStatus bus s;
                  s = s\<lparr>mpuIntStatus := st\<rparr>;
                  s = s\<lparr>dmpReady := True\<rparr>
              in Some (True, s\<lparr>packetSize := dmpGetFIFOPacketSize\<rparr>))
           else Some (False, s))
      | _ \<Rightarrow> None)"

definition mpu_6050_interrupt :: "bool \<Rightarrow> ('d, 'z) imu_scheme \<Rightarrow> ('d, 'z) imu_scheme" where
  "mpu_6050_interrupt high s = (if high then s\<lparr>mpuInterrupt := True\<rparr> else s)"

definition get_euler_nick_ist :: "('d, 'z) imu_scheme \<Rightarrow> float32" where
  "get_euler_nick_ist s = (if dmpReady s then euler s ! 1 else 0)"
definition get_euler_roll_ist :: "('d, 'z) imu_scheme \<Rightarrow> float32" where
  "get_euler_roll_ist s = (if dmpReady s then euler s ! 2 else 0)"
definition get_euler_yaw_ist :: "('d, 'z) imu_scheme \<Rightarrow> float32" where
  "get_euler_yaw_ist s = (if dmpReady s then euler s ! 0 else 0)"
definition get_rate_nick_ist :: "('d, 'z) imu_scheme \<Rightarrow> float32" where
  "get_rate_nick_ist s = (if dmpReady s then gyro_rate_float s ! 1 else 0)"
definition get_rate_roll_ist :: "('d, 'z) imu_scheme \<Rightarrow> float32" where
  "get_rate_roll_ist s = (if dmpReady s then gyro_rate_float s ! 0 else 0)"
definition get_rate_yaw_ist :: "('d, 'z) imu_scheme \<Rightarrow> float32" where
  "get_rate_yaw_ist s = (if dmpReady s then gyro_rate_float s ! 2 else 0)"
definition get_ypr_nick_ist :: "('d, 'z) imu_scheme \<Rightarrow> float32" where
  "get_ypr_nick_ist s = (if dmpReady s then ypr s ! 1 else 0)"
definition get_ypr_roll_ist :: "('d, 'z) imu_scheme \<Rightarrow> float32" where
  "get_ypr_roll_ist s = (if dmpReady s then ypr s ! 2 else 0)"
definition get_ypr_yaw_ist :: "('d, 'z) imu_scheme \<Rightarrow> float32" where
  "get_ypr_yaw_ist s = (if dmpReady s then ypr s ! 0 else 0)"

definition get_fifo_count :: "('d, 'z) imu_scheme \<Rightarrow> u16" where "get_fifo_count s = fifoCount s"
definition get_mpu_ready :: "('d, 'z) imu_scheme \<Rightarrow> bool" where "get_mpu_ready s = dmpReady s"

end
