(* ===== verification/Attitude.thy ===== *)
theory Attitude
  imports Lage Control Remote
begin

text \<open>
  What the documentation of the sensor says of its FIFO, and a turn of the attitude thread on a
  sensor of which it is true, and on a bus that has failed.
\<close>

unbundle bit_operations_syntax

section \<open>The FIFO\<close>

text \<open>
  \<open>ist\<close> is the interrupt status, \<open>ff\<close> the content of the FIFO, oldest byte first. The count
  is read as two bytes, the higher first; a read takes bytes off the front; at any transfer
  bytes may be added at the end, and there are never more than 1024.
\<close>

definition feeds :: "'d bus \<Rightarrow> ('d \<Rightarrow> u8) \<Rightarrow> ('d \<Rightarrow> u8 list) \<Rightarrow> bool" where
  "feeds bus ist ff \<longleftrightarrow> (\<forall>c. length (ff c) \<le> 1024 \<and>
     (\<exists>x c' new. bus 0x68 [0x3A] 2 c = ((True, [ist c, x]), c') \<and> ff c' = ff c @ new) \<and>
     (\<exists>c' new. bus 0x68 [0x72] 2 c = ((True, [word_of_nat (length (ff c) div 256), word_of_nat (length (ff c))]), c')
        \<and> ff c' = ff c @ new) \<and>
     (\<forall>n. 1 < n \<and> n \<le> length (ff c) \<longrightarrow>
        (\<exists>c' new. bus 0x68 [0x74] n c = ((True, take n (ff c)), c') \<and> ff c' = drop n (ff c) @ new)))"

lemma feedsD:
  assumes "feeds bus ist ff"
  shows "length (ff c) \<le> 1024"
    "\<exists>x c' new. bus 0x68 [0x3A] 2 c = ((True, [ist c, x]), c') \<and> ff c' = ff c @ new"
    "\<exists>c' new. bus 0x68 [0x72] 2 c = ((True, [word_of_nat (length (ff c) div 256), word_of_nat (length (ff c))]), c')
        \<and> ff c' = ff c @ new"
    "\<lbrakk>1 < n; n \<le> length (ff c)\<rbrakk> \<Longrightarrow> \<exists>c' new. bus 0x68 [0x74] n c = ((True, take n (ff c)), c') \<and> ff c' = drop n (ff c) @ new"
  using assms unfolding feeds_def by blast+

lemma count_bytes:
  "push_bit 8 (ucast (word_of_nat (n div 256) :: u8)) OR ucast (word_of_nat n :: u8) = (word_of_nat n :: u16)" (is "?l = ?r")
proof (rule bit_word_eqI)
  fix i assume "i < LENGTH(16)"
  moreover have "n div 256 = drop_bit 8 n" by (simp add: drop_bit_eq_div)
  ultimately show "bit ?l i = bit ?r i" by (cases "i < 8") (auto simp: bit_simps bit_of_nat_iff_bit)
qed

lemma status_ok:
  assumes "feeds bus ist ff"
  obtains c' x new where "getIntStatus bus s = (ist (chip s), s\<lparr>chip := c',
       rxbuf_global := [ist (chip s), x] @ drop 2 (rxbuf_global s), buffer := (buffer s)[0 := ist (chip s)]\<rparr>)"
    "ff c' = ff (chip s) @ new"
proof -
  obtain x c' new where "bus 0x68 [0x3A] 2 (chip s) = ((True, [ist (chip s), x]), c')" "ff c' = ff (chip s) @ new"
    using feedsD(2)[OF assms, of "chip s"] by blast
  then show ?thesis by (intro that[of x c' new])
      (simp_all add: getIntStatus_def to_buffer_def readByte_def i2cMasterTransmit_def MPU6050_DEFAULT_ADDRESS_def
        MPU6050_RA_INT_STATUS_def numeral_2_eq_2)
qed

lemma count_ok:
  assumes "feeds bus ist ff"
  obtains c' new where "getFIFOCount bus s = (word_of_nat (length (ff (chip s))), s\<lparr>chip := c',
       buffer := [word_of_nat (length (ff (chip s)) div 256), word_of_nat (length (ff (chip s)))] @ drop 2 (buffer s)\<rparr>)"
    "ff c' = ff (chip s) @ new"
proof -
  obtain c' new where "bus 0x68 [0x72] 2 (chip s) = ((True, [word_of_nat (length (ff (chip s)) div 256),
      word_of_nat (length (ff (chip s)))]), c')" "ff c' = ff (chip s) @ new"
    using feedsD(3)[OF assms, of "chip s"] by blast
  then show ?thesis by (intro that[of c' new])
      (simp_all add: getFIFOCount_def readBytes_def i2cMasterTransmit_def MPU6050_DEFAULT_ADDRESS_def
        MPU6050_RA_FIFO_COUNTH_def count_bytes flip: numeral_2_eq_2)
qed

lemma fifo_ok:
  assumes "feeds bus ist ff" "1 < unat n" "unat n \<le> length (ff (chip s))"
  obtains c' new where "getFIFOBytes bus d n s = (take (unat n) (ff (chip s)) @ drop (unat n) d, s\<lparr>chip := c'\<rparr>)"
    "ff c' = drop (unat n) (ff (chip s)) @ new"
proof -
  obtain c' new where "bus 0x68 [0x74] (unat n) (chip s) = ((True, take (unat n) (ff (chip s))), c')"
    "ff c' = drop (unat n) (ff (chip s)) @ new"
    using feedsD(4)[OF assms] by blast
  moreover have "n \<noteq> 1" using assms(2) by auto
  ultimately show ?thesis using assms(3) by (intro that[of c' new])
      (simp_all add: getFIFOBytes_def readBytes_def i2cMasterTransmit_def MPU6050_DEFAULT_ADDRESS_def
        MPU6050_RA_FIFO_R_W_def min_absorb2)
qed

text \<open>The packets are taken off the front, and the last one is in the buffer.\<close>

lemma read_packets_ok:
  assumes "feeds bus ist ff"
  shows "\<lbrakk>packetSize s = 42; 42 * n \<le> length (ff (chip s))\<rbrakk> \<Longrightarrow>
    \<exists>c' new. read_packets n bus s = s\<lparr>chip := c', fifoBuffer :=
        (if n = 0 then fifoBuffer s else take 42 (drop (42 * (n - 1)) (ff (chip s))) @ drop 42 (fifoBuffer s))\<rparr>
      \<and> ff c' = drop (42 * n) (ff (chip s)) @ new"
proof (induction n arbitrary: s)
  case 0
  then show ?case by (intro exI[of _ "chip s"] exI[of _ "[]"]) simp
next
  case (Suc n)
  have u: "unat (ucast (packetSize s) :: u8) = 42" using Suc.prems(1) by simp
  obtain c1 new1 where 1: "getFIFOBytes bus (fifoBuffer s) (ucast (packetSize s)) s
      = (take 42 (ff (chip s)) @ drop 42 (fifoBuffer s), s\<lparr>chip := c1\<rparr>)" "ff c1 = drop 42 (ff (chip s)) @ new1"
    using fifo_ok[OF assms, of "ucast (packetSize s)" s "fifoBuffer s"] Suc.prems(2) unfolding u by auto
  define s1 where "s1 = s\<lparr>chip := c1, fifoBuffer := take 42 (ff (chip s)) @ drop 42 (fifoBuffer s)\<rparr>"
  have l: "42 * n \<le> length (ff (chip s)) - 42" using Suc.prems(2) by simp
  have ps: "packetSize s1 = 42" "42 * n \<le> length (ff (chip s1))" using Suc.prems(1) l 1(2) by (simp_all add: s1_def)
  obtain c' new where r: "read_packets n bus s1 = s1\<lparr>chip := c', fifoBuffer :=
        (if n = 0 then fifoBuffer s1 else take 42 (drop (42 * (n - 1)) (ff (chip s1))) @ drop 42 (fifoBuffer s1))\<rparr>"
    "ff c' = drop (42 * n) (ff (chip s1)) @ new"
    using Suc.IH[OF ps] by blast
  have d: "drop (42 * n) (ff c1) = drop (42 * Suc n) (ff (chip s)) @ new1"
    using l by (simp add: 1(2) add.commute)
  have b: "drop 42 (fifoBuffer s1) = drop 42 (fifoBuffer s)" using Suc.prems(2) by (simp add: s1_def)
  have p: "take 42 (drop (42 * (n - 1)) (ff c1)) = take 42 (drop (42 * n) (ff (chip s)))" if "0 < n"
  proof -
    from that obtain m where n: "n = Suc m" by (cases n) auto
    have "42 * m + 42 \<le> length (ff (chip s)) - 42" using l n by simp
    then have "take 42 (drop (42 * m) (drop 42 (ff (chip s)) @ new1)) = take 42 (drop (42 * m) (drop 42 (ff (chip s))))"
      by simp
    then show ?thesis by (simp add: 1(2) n add.commute)
  qed
  have "read_packets (Suc n) bus s = read_packets n bus s1" by (simp add: 1(1) s1_def)
  also have "\<dots> = s\<lparr>chip := c', fifoBuffer := take 42 (drop (42 * n) (ff (chip s))) @ drop 42 (fifoBuffer s)\<rparr>"
    using p b unfolding r(1) by (cases n) (simp_all add: s1_def)
  finally show ?case using r(2) d by (intro exI[of _ c'] exI[of _ "new1 @ new"]) (simp add: s1_def)
qed

section \<open>A turn\<close>

lemma decode_append:
  assumes "length p = 42"
  shows "dmpGetQuaternion (p @ r) = dmpGetQuaternion p" "dmpGetGyro (p @ r) = dmpGetGyro p"
  using assms by (simp_all add: dmpGetQuaternion_def dmpGetQuaternion_int16_def dmpGetGyro_def be16_def be32_def nth_append Let_def)

text \<open>The attitude a packet stands for.\<close>

definition shows_packet :: "libm \<Rightarrow> u8 list \<Rightarrow> ('d, 'z) imu_scheme \<Rightarrow> bool" where
  "shows_packet M p s \<longleftrightarrow> quat s = dmpGetQuaternion p
     \<and> ypr s = dmpGetYawPitchRoll M (dmpGetQuaternion p) (dmpGetGravity (dmpGetQuaternion p))
     \<and> euler s = dmpGetEuler M (dmpGetQuaternion p)
     \<and> gyro_rate_float s = map rate_float (dmpGetGyro p)"

lemma use_packet_shows:
  assumes "length p = 42" "fifoBuffer s = p @ r" shows "shows_packet M p (use_packet M s)"
  using assms decode_append[OF assms(1)] by (simp add: shows_packet_def use_packet_def Let_def dmpGetGyro_def)

lemma use_packet_frame [simp]:
  "chip (use_packet M s) = chip s" "buffer (use_packet M s) = buffer s" "rxbuf_global (use_packet M s) = rxbuf_global s"
  "packetSize (use_packet M s) = packetSize s" "mpuInterrupt (use_packet M s) = mpuInterrupt s"
  "fifoBuffer (use_packet M s) = fifoBuffer s" "dmpReady (use_packet M s) = dmpReady s"
  by (simp_all add: use_packet_def Let_def)

text \<open>The packets in a FIFO, and the last whole one.\<close>

definition whole :: "u8 list \<Rightarrow> nat" where "whole F = length F div 42"

definition last_packet :: "u8 list \<Rightarrow> u8 list" where
  "last_packet F = take 42 (drop (42 * (whole F - 1)) F)"

lemma last_packet_length: assumes "42 \<le> length F" shows "0 < whole F" "length (last_packet F) = 42" "42 * whole F \<le> length F"
proof -
  show w: "0 < whole F" "42 * whole F \<le> length F" using assms by (simp_all add: whole_def div_greater_zero_iff)
  then have "42 * (whole F - 1) + 42 \<le> length F" by (cases "whole F") simp_all
  then show "length (last_packet F) = 42" by (simp add: last_packet_def)
qed

text \<open>The state after a turn that has used the packet \<open>p\<close>.\<close>

definition tracks :: "libm \<Rightarrow> u8 list \<Rightarrow> ('d, 'z) imu_scheme \<Rightarrow> bool" where
  "tracks M p s \<longleftrightarrow> shows_packet M p s \<and> length p = 42 \<and> (\<exists>r. fifoBuffer s = p @ r)
     \<and> packetSize s = 42 \<and> 2 \<le> length (buffer s) \<and> rxbuf_global s \<noteq> []"

lemma update_ok:
  assumes F: "feeds bus ist ff" and s: "mpuInterrupt s" "packetSize s = 42" "2 \<le> length (buffer s)"
    and st: "ist (chip s) AND 0x10 = 0" "ist (chip s) AND 0x02 \<noteq> 0" and n: "42 \<le> length (ff (chip s))"
  shows "\<exists>new1. let FF = ff (chip s) @ new1 in length FF = 1024 \<or>
    (\<exists>s' new2. update_IMU M (Suc fuel) bus s = Some s' \<and> tracks M (last_packet FF) s'
      \<and> ff (chip s') = drop (42 * whole FF) FF @ new2 \<and> \<not> mpuInterrupt s' \<and> dmpReady s' = dmpReady s)"
proof -
  define s0 where "s0 = s\<lparr>mpuInterrupt := False\<rparr>"
  have c0: "chip s0 = chip s" by (simp add: s0_def)
  obtain c1 x new1 where 1: "getIntStatus bus s0 = (ist (chip s), s0\<lparr>chip := c1,
       rxbuf_global := [ist (chip s), x] @ drop 2 (rxbuf_global s0), buffer := (buffer s0)[0 := ist (chip s)]\<rparr>)"
    "ff c1 = ff (chip s) @ new1" using status_ok[OF F, of s0] unfolding c0 by blast
  define s1 where "s1 = s0\<lparr>chip := c1, rxbuf_global := [ist (chip s), x] @ drop 2 (rxbuf_global s0),
       buffer := (buffer s0)[0 := ist (chip s)], mpuIntStatus := ist (chip s)\<rparr>"
  have e1: "chip s1 = c1" by (simp add: s1_def)
  obtain c2 new2 where 2: "getFIFOCount bus s1 = (word_of_nat (length (ff c1)), s1\<lparr>chip := c2,
       buffer := [word_of_nat (length (ff c1) div 256), word_of_nat (length (ff c1))] @ drop 2 (buffer s1)\<rparr>)"
    "ff c2 = ff c1 @ new2" using count_ok[OF F, of s1] unfolding e1 by blast
  define FF where "FF = ff (chip s) @ new1"
  define s2 where "s2 = s1\<lparr>chip := c2, buffer := [word_of_nat (length FF div 256), word_of_nat (length FF)] @ drop 2 (buffer s1),
       fifoCount := word_of_nat (length FF)\<rparr>"
  have l: "length FF \<le> 1024" "42 \<le> length FF" "ff c2 = FF @ new2"
    using feedsD(1)[OF F, of c1] 1(2) 2(2) n by (simp_all add: FF_def)
  have u: "unat (word_of_nat (length FF) :: u16) = length FF" using l(1) by (simp add: unat_of_nat)
  note lp = last_packet_length[OF l(2)]
  have k: "unat (word_of_nat (length FF) div packetSize s2) = whole FF"
    using s(2) by (simp add: s2_def s1_def s0_def unat_div u whole_def)
  obtain c3 new3 where 3: "read_packets (whole FF) bus s2 = s2\<lparr>chip := c3, fifoBuffer :=
        take 42 (drop (42 * (whole FF - 1)) (ff c2)) @ drop 42 (fifoBuffer s2)\<rparr>" "ff c3 = drop (42 * whole FF) (ff c2) @ new3"
  proof -
    have "packetSize s2 = 42" "chip s2 = c2" "42 * whole FF \<le> length (ff c2)"
      using s(2) lp(3) l(3) by (simp_all add: s2_def s1_def s0_def)
    then show thesis using read_packets_ok[OF F, of s2 "whole FF"] lp(1) that by auto
  qed
  have b: "take 42 (drop (42 * (whole FF - 1)) (ff c2)) = last_packet FF"
  proof -
    have "42 * (whole FF - 1) + 42 \<le> length FF" using lp(1,3) by (cases "whole FF") simp_all
    then show ?thesis by (simp add: l(3) last_packet_def)
  qed
  define s3 where "s3 = use_packet M (s2\<lparr>chip := c3, fifoBuffer := last_packet FF @ drop 42 (fifoBuffer s2)\<rparr>)"
  have sp: "shows_packet M (last_packet FF) s3" unfolding s3_def by (rule use_packet_shows[OF lp(2)]) simp
  have e3: "chip s3 = c3" by (simp add: s3_def)
  obtain c4 new4 where 4: "getFIFOCount bus s3 = (word_of_nat (length (ff c3)), s3\<lparr>chip := c4,
       buffer := [word_of_nat (length (ff c3) div 256), word_of_nat (length (ff c3))] @ drop 2 (buffer s3)\<rparr>)"
    "ff c4 = ff c3 @ new4" using count_ok[OF F, of s3] unfolding e3 by blast
  define s4 where "s4 = s3\<lparr>chip := c4, buffer := [word_of_nat (length (ff c3) div 256), word_of_nat (length (ff c3))] @ drop 2 (buffer s3),
      fifoCount := word_of_nat (length (ff c3))\<rparr>"
  have u3: "unat (word_of_nat (length (ff c3)) :: u16) = length (ff c3)"
    using feedsD(1)[OF F, of c3] by (simp add: unat_of_nat)
  have r: "ff c3 = drop (42 * whole FF) FF @ (new2 @ new3)" using 3(2) lp(3) by (simp add: l(3))
  have "update_IMU M (Suc fuel) bus s = Some s4" if "length FF \<noteq> 1024"
  proof -
    have "\<not> fifoCount s2 < packetSize s2" "(word_of_nat (length FF) :: u16) \<noteq> 1024" "fifoCount s2 = word_of_nat (length FF)"
      using l(2) u s(2) that by (auto simp: s2_def s1_def s0_def word_less_nat_alt word_unat_eq_iff)
    then have w: "wait_packet (Suc fuel) bus s2 = Some s2" by simp
    have f: "ff c1 = FF" using 1(2) by (simp add: FF_def)
    have i: "mpuIntStatus s2 = ist (chip s)" "fifoCount s2 = word_of_nat (length FF)" by (simp_all add: s2_def s1_def)
    have r: "read_packets (unat (fifoCount s2 div packetSize s2)) bus s2
        = s2\<lparr>chip := c3, fifoBuffer := last_packet FF @ drop 42 (fifoBuffer s2)\<rparr>"
      using 3(1) unfolding b i(2) k .
    show ?thesis
      unfolding update_IMU_def Let_def s0_def[symmetric] 1(1) prod.case s1_def[symmetric] 2(1)[unfolded f] s2_def[symmetric] w
        option.case r s3_def[symmetric] 4(1) s4_def[symmetric]
      using s(1) st i \<open>(word_of_nat (length FF) :: u16) \<noteq> 1024\<close> by simp
  qed
  moreover have "tracks M (last_packet FF) s4"
  proof -
    have "shows_packet M (last_packet FF) s4" using sp by (simp add: s4_def shows_packet_def)
    then show ?thesis using s(2) lp(2) by (simp add: tracks_def) (simp add: s4_def s3_def s2_def s1_def s0_def)
  qed
  moreover have "\<not> mpuInterrupt s4" "ff (chip s4) = drop (42 * whole FF) FF @ (new2 @ new3 @ new4)" "dmpReady s4 = dmpReady s"
    using 4(2) r by (simp_all add: s4_def s3_def s2_def s1_def s0_def)
  ultimately show ?thesis unfolding Let_def by (intro exI[of _ new1], fold FF_def) metis
qed

section \<open>A bus that fails\<close>

definition dead :: "'d bus" where "dead a tx n c = ((False, []), c)"

lemma dead_transfer [simp]: "i2cMasterTransmit dead a tx rx n s = ((False, rx), s)"
  by (simp add: i2cMasterTransmit_def dead_def)

lemma dead_status: "rxbuf_global s \<noteq> [] \<Longrightarrow>
    getIntStatus dead s = (rxbuf_global s ! 0, s\<lparr>buffer := (buffer s)[0 := rxbuf_global s ! 0]\<rparr>)"
  by (simp add: getIntStatus_def to_buffer_def readByte_def)

lemma dead_count: "getFIFOCount dead s = (push_bit 8 (ucast (buffer s ! 0)) OR ucast (buffer s ! 1), s)"
  by (simp add: getFIFOCount_def readBytes_def)

lemma dead_fifo: "n \<noteq> 1 \<Longrightarrow> getFIFOBytes dead d n s = (d, s)"
  by (simp add: getFIFOBytes_def readBytes_def)

lemma dead_packets: "packetSize s = 42 \<Longrightarrow> read_packets n dead s = s"
  by (induction n arbitrary: s) (simp_all add: dead_fifo)

lemma dead_resetFIFO: "resetFIFO dead s = s"
  by (simp add: resetFIFO_def put_bit_def writeBit_def writeByte_def writeBytes_def readByte_def)

text \<open>The status of the last good turn makes up the higher byte of a count that is never too small.\<close>

lemma stale_count:
  fixes st lo :: u8
  assumes "st AND 2 \<noteq> 0"
  shows "\<not> push_bit 8 (ucast st) OR ucast lo < (42 :: u16)"
proof
  let ?w = "push_bit 8 (ucast st) OR ucast lo :: u16"
  assume "?w < 42"
  then have "drop_bit 8 ?w = 0" by (simp add: drop_bit_eq_div word_unat_eq_iff unat_div word_less_nat_alt)
  then have "\<not> bit (drop_bit 8 ?w) 1" by simp
  moreover have "bit st 1"
  proof (rule ccontr)
    assume "\<not> bit st 1"
    have "st AND 2 = 0"
    proof (rule bit_word_eqI)
      fix n show "bit (st AND 2) n = bit (0 :: u8) n"
        using \<open>\<not> bit st 1\<close> by (cases "n = 1") (auto simp: bit_and_iff bit_2_iff)
    qed
    then show False using assms by simp
  qed
  ultimately show False by (simp add: bit_simps)
qed

lemma tracks_fields [simp]:
  "tracks M p (s\<lparr>mpuInterrupt := i\<rparr>) = tracks M p s" "tracks M p (s\<lparr>mpuIntStatus := st\<rparr>) = tracks M p s"
  "tracks M p (s\<lparr>fifoCount := n\<rparr>) = tracks M p s" "tracks M p (s\<lparr>zaehler := z\<rparr>) = tracks M p s"
  "tracks M p (s\<lparr>buffer := (buffer s)[0 := b]\<rparr>) = tracks M p s"
  by (simp_all add: tracks_def shows_packet_def)

lemma tracks_use: "tracks M p s \<Longrightarrow> tracks M p (use_packet M s)"
  using use_packet_shows[of p s] by (auto simp: tracks_def)

lemma dead_update:
  assumes "tracks M p s"
  obtains s' where "update_IMU M (Suc fuel) dead s = Some s'" "tracks M p s'" "dmpReady s' = dmpReady s"
proof (cases "mpuInterrupt s")
  case False then show ?thesis using assms that[of s] by (simp add: update_IMU_def)
next
  case True
  define st where "st = rxbuf_global s ! 0"
  define t where "t = s\<lparr>mpuInterrupt := False, buffer := (buffer s)[0 := st], mpuIntStatus := st\<rparr>"
  define u where "u = t\<lparr>fifoCount := push_bit 8 (ucast (buffer t ! 0)) OR ucast (buffer t ! 1)\<rparr>"
  have g: "getIntStatus dead (s\<lparr>mpuInterrupt := False\<rparr>) = (st, s\<lparr>mpuInterrupt := False, buffer := (buffer s)[0 := st]\<rparr>)"
    using assms by (simp add: dead_status tracks_def st_def)
  have b: "buffer t ! 0 = st" using assms by (cases "buffer s") (auto simp: t_def tracks_def)
  have tr: "tracks M p t" "tracks M p u" "dmpReady u = dmpReady s"
    using assms tracks_fields(5)[of M p "s\<lparr>mpuInterrupt := False\<rparr>" st] by (simp_all add: u_def t_def)
  then have ps: "packetSize u = 42" by (simp add: tracks_def)
  have e: "update_IMU M (Suc fuel) dead s =
      (if mpuIntStatus u AND 0x10 \<noteq> 0 \<or> fifoCount u = 1024 then Some (resetFIFO dead u)
       else if mpuIntStatus u AND 0x02 \<noteq> 0 then
         (case wait_packet (Suc fuel) dead u of None \<Rightarrow> None
          | Some s \<Rightarrow> (let s = use_packet M (read_packets (unat (fifoCount s div packetSize s)) dead s); (n, s) = getFIFOCount dead s
                       in Some (s\<lparr>fifoCount := n\<rparr>)))
       else Some (u\<lparr>zaehler := zaehler u + 1\<rparr>))"
    unfolding update_IMU_def Let_def g prod.case t_def[symmetric] dead_count u_def[symmetric] using True by simp
  have w: "wait_packet (Suc fuel) dead u = Some u" if "mpuIntStatus u AND 0x02 \<noteq> 0"
    using stale_count[of st] that b ps by (simp add: u_def t_def)
  consider "mpuIntStatus u AND 0x10 \<noteq> 0 \<or> fifoCount u = 1024" | "\<not> (mpuIntStatus u AND 0x10 \<noteq> 0 \<or> fifoCount u = 1024)" "mpuIntStatus u AND 0x02 \<noteq> 0"
    | "\<not> (mpuIntStatus u AND 0x10 \<noteq> 0 \<or> fifoCount u = 1024)" "\<not> mpuIntStatus u AND 0x02 \<noteq> 0" by argo
  then show ?thesis
  proof cases
    case 1 then show ?thesis using e tr by (intro that[of u]) (simp_all add: dead_resetFIFO)
  next
    case 2
    then have "update_IMU M (Suc fuel) dead s = Some ((use_packet M u)\<lparr>fifoCount := fst (getFIFOCount dead (use_packet M u))\<rparr>)"
      unfolding e using w by (simp only: if_False if_True not_False_eq_True option.case dead_packets[OF ps] Let_def dead_count prod.case fst_conv)
    then show ?thesis using that tr(3) tracks_use[OF tr(2)] by simp
  next
    case 3 then show ?thesis using e tr by (intro that[of "u\<lparr>zaehler := zaehler u + 1\<rparr>"]) simp_all
  qed
qed

text \<open>Turns of the thread, each after an interrupt or none.\<close>

primrec turns :: "libm \<Rightarrow> nat \<Rightarrow> 'd bus \<Rightarrow> bool list \<Rightarrow> ('d, 'z) imu_scheme \<Rightarrow> ('d, 'z) imu_scheme option" where
  "turns M fuel bus [] s = Some s"
| "turns M fuel bus (high # hs) s =
     (case update_IMU M fuel bus (mpu_6050_interrupt high s) of None \<Rightarrow> None | Some s \<Rightarrow> turns M fuel bus hs s)"

lemma dead_turns:
  "tracks M p s \<Longrightarrow> \<exists>s'. turns M (Suc fuel) dead hs s = Some s' \<and> tracks M p s' \<and> dmpReady s' = dmpReady s"
proof (induction hs arbitrary: s)
  case Nil then show ?case by simp
next
  case (Cons h hs)
  have "tracks M p (mpu_6050_interrupt h s)" "dmpReady (mpu_6050_interrupt h s) = dmpReady s"
    using Cons.prems by (simp_all add: mpu_6050_interrupt_def)
  then obtain s1 where "update_IMU M (Suc fuel) dead (mpu_6050_interrupt h s) = Some s1" "tracks M p s1" "dmpReady s1 = dmpReady s"
    using dead_update[of M p "mpu_6050_interrupt h s" fuel] by metis
  then show ?case using Cons.IH[of s1] by simp
qed

section \<open>What the controller gets\<close>

text \<open>The calls at the beginning of \<^verbatim>\<open>Regelung\<close>, and of the log.\<close>

definition messen :: "('d, 'z) imu_scheme \<Rightarrow> fernsteuerung \<Rightarrow> u32 \<Rightarrow> messwerte" where
  "messen s r now = \<lparr>m_schub_soll = get_schub_soll r, m_nick_soll = get_euler_nick_soll r,
     m_roll_soll = get_euler_roll_soll r, m_ypr_yaw = get_ypr_yaw_ist s, m_ypr_nick = get_ypr_nick_ist s,
     m_ypr_roll = get_ypr_roll_ist s, m_rate_roll = get_rate_roll_ist s, m_rate_nick = get_rate_nick_ist s,
     m_rate_yaw = get_rate_yaw_ist s, m_fifo_count = get_fifo_count s, m_time = now\<rparr>"

lemma messen_tracks:
  assumes "tracks M p s" "tracks M p s'" "dmpReady s' = dmpReady s"
  shows "messen s' r t = (messen s r t)\<lparr>m_fifo_count := fifoCount s'\<rparr>"
  using assms by (simp add: messen_def tracks_def shows_packet_def get_ypr_yaw_ist_def get_ypr_nick_ist_def
      get_ypr_roll_ist_def get_rate_roll_ist_def get_rate_nick_ist_def get_rate_yaw_ist_def get_fifo_count_def)

text \<open>Nothing written to a bus that fails changes a thing; what is read is what was there.\<close>

lemma dead_put [simp]:
  "put_byte dead r v s = s" "put_bit dead r b x s = s" "put_bits dead r b l v s = s" "put_word dead r w s = s"
  by (simp_all add: put_byte_def put_bit_def put_bits_def put_word_def writeByte_def writeBit_def writeBits_def
      writeWord_def writeWords_def writeBytes_def readByte_def Let_def)

lemma dead_select [simp]: "select dead b a s = s"
  by (simp add: select_def setMemoryBank_def setMemoryStartAddress_def)

lemma dead_write:
  assumes "take 16 vb \<noteq> take 16 data" "16 \<le> length data" "16 \<le> n"
  shows "writeMemoryBlock dead vb data n b 0 True s = (False, s)"
proof -
  have c: "chunk n 0 0 = 16" using assms(3) by (simp add: chunk_def MPU6050_DMP_MEMORY_CHUNK_SIZE_def)
  have d: "map (\<lambda>j. data ! (0 + j)) [0..<16] = take 16 data" using assms(2) by (intro nth_equalityI) simp_all
  have w: "writeBytes dead a r k ds s = (False, s)" "readBytes dead a r 16 vb s = ((0, vb), s)" for a r k ds
    by (simp_all add: writeBytes_def readBytes_def)
  show ?thesis using assms unfolding writeMemoryBlock_def write_loop.simps[of dead data n True 0] Let_def c d w
    by (simp add: w)
qed

lemma dmpReady_frame [simp]:
  "dmpReady (snd (to_buffer (b, s))) = dmpReady s"
  by (simp add: to_buffer_def)

lemma dead_setup:
  assumes "take 16 (junk 11) \<noteq> take 16 dmpMemory"
  obtains s' where "setup_IMU fuel dead junk s = Some (False, s')" "dmpReady s' = dmpReady s"
proof -
  have i: "initialize dead s = s"
    by (simp add: initialize_def setClockSource_def setFullScaleGyroRange_def setFullScaleAccelRange_def setSleepEnabled_def)
  obtain x s1 where p: "dmp_prepare dead junk s = (x, s1)" "dmpReady s1 = dmpReady s"
    by (simp add: dmp_prepare_def reset_mpu_def setSleepEnabled_def setMemoryBank_def setMemoryStartAddress_def
        readMemoryByte_def getOTPBankValid_def getXGyroOffset_def getYGyroOffset_def getZGyroOffset_def setSlaveAddress_def
        setI2CMasterModeEnabled_def resetI2CMaster_def to_buffer_def readByte_def readBit_def readBits_def Let_def)
  have "writeMemoryBlock dead (junk 11) dmpMemory MPU6050_DMP_CODE_SIZE 0 0 True s1 = (False, s1)"
    using assms by (intro dead_write) (simp_all add: dmp_tables MPU6050_DMP_CODE_SIZE_def)
  then have "dmpInitialize fuel dead junk s = Init_returns 1 s1"
    by (simp add: dmpInitialize_def p(1) writeProgMemoryBlock_def)
  then show ?thesis using p(2) by (intro that[of s1]) (simp_all add: setup_IMU_def i)
qed

section \<open>A sensor that keeps the promises\<close>

text \<open>The state is the content of the FIFO.\<close>

definition fifo_bus :: "u8 list bus" where
  "fifo_bus a tx n c =
     (if tx = [0x3A] then ((True, [2, 0]), c)
      else if tx = [0x72] then ((True, [word_of_nat (length (take 1024 c) div 256), word_of_nat (length (take 1024 c))]), c)
      else if tx = [0x74] then ((True, take n c), drop n (take 1024 c))
      else ((True, []), c))"

lemma fifo_bus_ok: "feeds fifo_bus (\<lambda>_. 2) (take 1024)"
  unfolding feeds_def
proof (intro allI conjI impI)
  fix c :: "u8 list" and n assume n: "1 < n \<and> n \<le> length (take 1024 c)"
  have t: "take 1024 (drop n (take 1024 c)) = drop n (take 1024 c)" by simp
  show "\<exists>c' new. fifo_bus 0x68 [0x74] n c = ((True, take n (take 1024 c)), c') \<and> take 1024 c' = drop n (take 1024 c) @ new"
    using n t by (intro exI[of _ "drop n (take 1024 c)"] exI[of _ "[]"]) (simp add: fifo_bus_def min_absorb1)
qed (auto simp: fifo_bus_def)

text \<open>The state of the driver after \<^verbatim>\<open>setup_IMU\<close> on it, an interrupt pending.\<close>

definition ready_imu :: "u8 list \<Rightarrow> u8 list imu" where
  "ready_imu fifo = \<lparr>chip = fifo, rxbuf_global = [0, 0], buffer = replicate 14 0, mpuInterrupt = True, dmpReady = True,
     mpuIntStatus = 0, packetSize = 42, fifoCount = 0, fifoBuffer = replicate 64 0,
     quat = \<lparr>q_w = 0, q_x = 0, q_y = 0, q_z = 0\<rparr>, gravity = \<lparr>v_x = 0, v_y = 0, v_z = 0\<rparr>,
     ypr = [0, 0, 0], euler = [0, 0, 0], gyroRate = [0, 0, 0], gyro_rate_float = [0, 0, 0], zaehler = 0\<rparr>"

text \<open>Functions of no meaning, for concrete inputs.\<close>

definition plain_libm :: libm where
  "plain_libm = \<lparr>c_sqrt = id, c_atan = id, c_asin = id, c_atan2 = (\<lambda>y x. y)\<rparr>"

lemma ready_imu_fields:
  "mpuInterrupt (ready_imu f)" "packetSize (ready_imu f) = 42" "2 \<le> length (buffer (ready_imu f))" "chip (ready_imu f) = f"
  by (simp_all add: ready_imu_def)

end
