(* ===== verification/Ext.thy ===== *)
theory Ext
  imports Prelude
begin

text \<open>
  The driver for external interrupts: \<^verbatim>\<open>os/hal/src/ext.c\<close> and its STM32 part, \<^verbatim>\<open>STM32/ext_lld.c\<close>, as configured for
  the STM32F4. The registers of the interrupt controller are part of the state; writing a one to a bit of \<^verbatim>\<open>PR\<close>
  clears it. \<open>'h\<close> names the callbacks and \<open>run\<close> says what they do; calling \<^verbatim>\<open>NULL\<close> gives \<open>None\<close>.
\<close>

unbundle bit_operations_syntax

section \<open>State\<close>

definition EXT_CH_MODE_DISABLED :: u32 where "EXT_CH_MODE_DISABLED = 0"
definition EXT_CH_MODE_RISING_EDGE :: u32 where "EXT_CH_MODE_RISING_EDGE = 1"
definition EXT_CH_MODE_FALLING_EDGE :: u32 where "EXT_CH_MODE_FALLING_EDGE = 2"
definition EXT_CH_MODE_BOTH_EDGES :: u32 where "EXT_CH_MODE_BOTH_EDGES = 3"
definition EXT_CH_MODE_AUTOSTART :: u32 where "EXT_CH_MODE_AUTOSTART = 4"

definition EXT_MAX_CHANNELS :: nat where "EXT_MAX_CHANNELS = 23"
definition EXT_CHANNELS_MASK :: u32 where "EXT_CHANNELS_MASK = push_bit EXT_MAX_CHANNELS 1 - 1"

record 'h ext_channel =
  ch_mode :: u32
  ch_cb :: "'h option"

record 'h ext_config =
  channels :: "'h ext_channel list"
  exti :: "u16 list"

datatype extstate = EXT_UNINIT | EXT_STOP | EXT_ACTIVE

record exti_regs =
  EXTI_IMR :: u32
  EXTI_EMR :: u32
  EXTI_RTSR :: u32
  EXTI_FTSR :: u32
  EXTI_SWIER :: u32
  EXTI_PR :: u32
  EXTICR :: "u16 list"
  vectors_on :: bool

record 'h ext = exti_regs +
  ext_state :: extstate
  ext_config :: "'h ext_config option"

definition channel :: "'h ext \<Rightarrow> nat \<Rightarrow> 'h ext_channel" where
  "channel e i = channels (the (ext_config e)) ! i"

section \<open>Low level driver\<close>

definition line_bit :: "nat \<Rightarrow> u32" where "line_bit i = push_bit i 1"

definition write_PR :: "u32 \<Rightarrow> 'h ext \<Rightarrow> 'h ext" where
  "write_PR v e = e\<lparr>EXTI_PR := EXTI_PR e AND NOT v\<rparr>"

text \<open>A step of the loop that collects \<open>imr\<close>, \<open>emr\<close>, \<open>rtsr\<close> and \<open>ftsr\<close>.\<close>

definition ext_collect :: "'h ext_config \<Rightarrow> nat \<Rightarrow> u32 \<times> u32 \<times> u32 \<times> u32 \<Rightarrow> u32 \<times> u32 \<times> u32 \<times> u32" where
  "ext_collect c i r =
     (case r of (imr, emr, rtsr, ftsr) \<Rightarrow>
        let ch = channels c ! i
        in if ch_mode ch AND EXT_CH_MODE_AUTOSTART \<noteq> 0 then
             (if ch_cb ch \<noteq> None then imr OR line_bit i else imr,
              if ch_cb ch = None then emr OR line_bit i else emr,
              if ch_mode ch AND EXT_CH_MODE_RISING_EDGE \<noteq> 0 then rtsr OR line_bit i else rtsr,
              if ch_mode ch AND EXT_CH_MODE_FALLING_EDGE \<noteq> 0 then ftsr OR line_bit i else ftsr)
           else r)"

definition ext_lld_start :: "'h ext \<Rightarrow> 'h ext" where
  "ext_lld_start e =
     (let e1 = (if ext_state e = EXT_STOP then e\<lparr>vectors_on := True\<rparr> else e);
          c = the (ext_config e1)
      in case fold (ext_collect c) [0..<EXT_MAX_CHANNELS] (0, 0, 0, 0) of (imr, emr, rtsr, ftsr) \<Rightarrow>
           (write_PR EXT_CHANNELS_MASK
             (e1\<lparr>EXTICR := [exti c ! 0, exti c ! 1, exti c ! 2, exti c ! 3], EXTI_SWIER := 0, EXTI_RTSR := rtsr,
                EXTI_FTSR := ftsr\<rparr>))\<lparr>EXTI_EMR := emr, EXTI_IMR := imr\<rparr>)"

definition ext_lld_stop :: "'h ext \<Rightarrow> 'h ext" where
  "ext_lld_stop e =
     (let e1 = (if ext_state e = EXT_ACTIVE then e\<lparr>vectors_on := False\<rparr> else e)
      in write_PR EXT_CHANNELS_MASK (e1\<lparr>EXTI_EMR := 0, EXTI_IMR := 0\<rparr>))"

definition ext_lld_channel_enable :: "nat \<Rightarrow> 'h ext \<Rightarrow> 'h ext" where
  "ext_lld_channel_enable i e =
     (let ch = channel e i;
          e1 = (if ch_cb ch \<noteq> None then e\<lparr>EXTI_IMR := EXTI_IMR e OR line_bit i\<rparr>
                else e\<lparr>EXTI_EMR := EXTI_EMR e OR line_bit i\<rparr>);
          e2 = (if ch_mode ch AND EXT_CH_MODE_RISING_EDGE \<noteq> 0 then e1\<lparr>EXTI_RTSR := EXTI_RTSR e1 OR line_bit i\<rparr> else e1)
      in if ch_mode ch AND EXT_CH_MODE_FALLING_EDGE \<noteq> 0 then e2\<lparr>EXTI_FTSR := EXTI_FTSR e2 OR line_bit i\<rparr> else e2)"

definition ext_lld_channel_disable :: "nat \<Rightarrow> 'h ext \<Rightarrow> 'h ext" where
  "ext_lld_channel_disable i e =
     write_PR (line_bit i)
       (e\<lparr>EXTI_IMR := EXTI_IMR e AND NOT (line_bit i), EXTI_EMR := EXTI_EMR e AND NOT (line_bit i),
          EXTI_RTSR := EXTI_RTSR e AND NOT (line_bit i), EXTI_FTSR := EXTI_FTSR e AND NOT (line_bit i)\<rparr>)"

section \<open>Driver\<close>

definition extObjectInit :: "'h ext \<Rightarrow> 'h ext" where
  "extObjectInit e = e\<lparr>ext_state := EXT_STOP, ext_config := None\<rparr>"

definition extInit :: "'h ext \<Rightarrow> 'h ext" where
  "extInit e = extObjectInit e"

definition extStart :: "'h ext_config \<Rightarrow> 'h ext \<Rightarrow> 'h ext" where
  "extStart config e = (ext_lld_start (e\<lparr>ext_config := Some config\<rparr>))\<lparr>ext_state := EXT_ACTIVE\<rparr>"

definition extStop :: "'h ext \<Rightarrow> 'h ext" where
  "extStop e = (ext_lld_stop e)\<lparr>ext_state := EXT_STOP\<rparr>"

definition extChannelEnable :: "nat \<Rightarrow> 'h ext \<Rightarrow> 'h ext" where
  "extChannelEnable i e = ext_lld_channel_enable i e"

definition extChannelDisable :: "nat \<Rightarrow> 'h ext \<Rightarrow> 'h ext" where
  "extChannelDisable i e = ext_lld_channel_disable i e"

section \<open>Interrupt handlers\<close>

text \<open>
  \<open>irq_line\<close>: the handlers of the lines with a vector of their own, 0 to 4 and 16 to 22. Lines 5 to 9 and 10
  to 15 share one each; their handlers look at the pending bits once and go through them in order.
\<close>

definition ext_call :: "('h \<Rightarrow> nat \<Rightarrow> 's \<Rightarrow> 's option) \<Rightarrow> 'h ext \<Rightarrow> nat \<Rightarrow> 's \<Rightarrow> 's option" where
  "ext_call run e i s = (case ch_cb (channel e i) of None \<Rightarrow> None | Some h \<Rightarrow> run h i s)"

definition irq_line :: "('h \<Rightarrow> nat \<Rightarrow> 's \<Rightarrow> 's option) \<Rightarrow> nat \<Rightarrow> 'h ext \<times> 's \<Rightarrow> ('h ext \<times> 's) option" where
  "irq_line run i es =
     (case es of (e, s) \<Rightarrow> let e1 = write_PR (line_bit i) e in map_option (Pair e1) (ext_call run e1 i s))"

fun call_lines :: "('h \<Rightarrow> nat \<Rightarrow> 's \<Rightarrow> 's option) \<Rightarrow> 'h ext \<Rightarrow> u32 \<Rightarrow> nat list \<Rightarrow> 's \<Rightarrow> 's option" where
  "call_lines run e pr [] s = Some s"
| "call_lines run e pr (i # is) s =
     (if pr AND line_bit i \<noteq> 0
      then (case ext_call run e i s of None \<Rightarrow> None | Some s1 \<Rightarrow> call_lines run e pr is s1)
      else call_lines run e pr is s)"

definition irq_shared :: "('h \<Rightarrow> nat \<Rightarrow> 's \<Rightarrow> 's option) \<Rightarrow> nat list \<Rightarrow> 'h ext \<times> 's \<Rightarrow> ('h ext \<times> 's) option" where
  "irq_shared run lines es =
     (case es of (e, s) \<Rightarrow>
        let pr = EXTI_PR e AND fold (\<lambda>i m. m OR line_bit i) lines 0;
            e1 = write_PR pr e
        in map_option (Pair e1) (call_lines run e1 pr lines s))"

definition EXTI9_5_IRQHandler :: "('h \<Rightarrow> nat \<Rightarrow> 's \<Rightarrow> 's option) \<Rightarrow> 'h ext \<times> 's \<Rightarrow> ('h ext \<times> 's) option" where
  "EXTI9_5_IRQHandler run = irq_shared run [5, 6, 7, 8, 9]"

definition EXTI15_10_IRQHandler :: "('h \<Rightarrow> nat \<Rightarrow> 's \<Rightarrow> 's option) \<Rightarrow> 'h ext \<times> 's \<Rightarrow> ('h ext \<times> 's) option" where
  "EXTI15_10_IRQHandler run = irq_shared run [10, 11, 12, 13, 14, 15]"

text \<open>The lines that share the vector of a line, and its handler.\<close>

definition vector_lines :: "nat \<Rightarrow> nat list" where
  "vector_lines i = (if i \<in> {5..9} then [5, 6, 7, 8, 9] else if i \<in> {10..15} then [10, 11, 12, 13, 14, 15] else [i])"

definition ext_irq :: "('h \<Rightarrow> nat \<Rightarrow> 's \<Rightarrow> 's option) \<Rightarrow> nat \<Rightarrow> 'h ext \<times> 's \<Rightarrow> ('h ext \<times> 's) option" where
  "ext_irq run i =
     (if i \<in> {5..9} then EXTI9_5_IRQHandler run
      else if i \<in> {10..15} then EXTI15_10_IRQHandler run
      else irq_line run i)"

text \<open>The hardware: an edge on a line becomes pending if the line is sensitive to it.\<close>

definition edge :: "nat \<Rightarrow> bool \<Rightarrow> 'h ext \<Rightarrow> 'h ext" where
  "edge i rising e =
     (if bit (if rising then EXTI_RTSR e else EXTI_FTSR e) i then e\<lparr>EXTI_PR := EXTI_PR e OR line_bit i\<rparr> else e)"

section \<open>Bits\<close>

lemma bit_line: "bit (line_bit i) n \<longleftrightarrow> n = i \<and> i < 32"
  by (auto simp: line_bit_def bit_simps)

lemma test_line: "v AND line_bit i \<noteq> 0 \<longleftrightarrow> bit v i"
  by (simp add: line_bit_def push_bit_of_1 and_exp_eq_0_iff_not_bit)

lemma bit_small: "bit (v :: u32) n \<Longrightarrow> n < 32"
  using bit_imp_le_length[of v n] by simp

lemma bit_fold_lines:
  "bit (fold (\<lambda>i m. m OR line_bit i) lines m) n \<longleftrightarrow> bit m n \<or> n \<in> set lines \<and> n < 32"
  by (induction lines arbitrary: m) (auto simp: bit_simps bit_line)

lemma bit_channels_mask: "bit EXT_CHANNELS_MASK n \<longleftrightarrow> n < 23"
proof -
  have m: "EXT_CHANNELS_MASK = mask 23" by (simp add: EXT_CHANNELS_MASK_def EXT_MAX_CHANNELS_def mask_eq_exp_minus_1 push_bit_of_1)
  show ?thesis by (subst m, subst bit_mask_iff) (auto simp: possible_bit_def)
qed

lemma PR_write: "EXTI_PR (write_PR v e) = EXTI_PR e AND NOT v"
  by (simp add: write_PR_def)

lemma write_PR_fields [simp]:
  "EXTI_IMR (write_PR v e) = EXTI_IMR e" "EXTI_RTSR (write_PR v e) = EXTI_RTSR e" "EXTI_FTSR (write_PR v e) = EXTI_FTSR e"
  "ext_config (write_PR v e) = ext_config e" "ext_state (write_PR v e) = ext_state e" "vectors_on (write_PR v e) = vectors_on e"
  "channel (write_PR v e) = channel e"
  by (simp_all add: write_PR_def channel_def fun_eq_iff)

section \<open>After a start\<close>

definition starts :: "'h ext_config \<Rightarrow> nat \<Rightarrow> bool" where
  "starts c i \<longleftrightarrow> i < EXT_MAX_CHANNELS \<and> ch_mode (channels c ! i) AND EXT_CH_MODE_AUTOSTART \<noteq> 0"

lemma collect_bits:
  assumes "n < 32" "ext_collect c n (i0, e0, r0, f0) = (imr, emr, rtsr, ftsr)"
  defines "auto \<equiv> ch_mode (channels c ! n) AND EXT_CH_MODE_AUTOSTART \<noteq> 0"
  shows "bit imr i \<longleftrightarrow> bit i0 i \<or> i = n \<and> auto \<and> ch_cb (channels c ! n) \<noteq> None"
    "bit emr i \<longleftrightarrow> bit e0 i \<or> i = n \<and> auto \<and> ch_cb (channels c ! n) = None"
    "bit rtsr i \<longleftrightarrow> bit r0 i \<or> i = n \<and> auto \<and> ch_mode (channels c ! n) AND EXT_CH_MODE_RISING_EDGE \<noteq> 0"
    "bit ftsr i \<longleftrightarrow> bit f0 i \<or> i = n \<and> auto \<and> ch_mode (channels c ! n) AND EXT_CH_MODE_FALLING_EDGE \<noteq> 0"
proof -
  define r where "r \<longleftrightarrow> ch_mode (channels c ! n) AND EXT_CH_MODE_RISING_EDGE \<noteq> 0"
  define f where "f \<longleftrightarrow> ch_mode (channels c ! n) AND EXT_CH_MODE_FALLING_EDGE \<noteq> 0"
  define h where "h \<longleftrightarrow> ch_cb (channels c ! n) \<noteq> None"
  have "(if auto then (if h then i0 OR line_bit n else i0, if \<not> h then e0 OR line_bit n else e0,
      if r then r0 OR line_bit n else r0, if f then f0 OR line_bit n else f0) else (i0, e0, r0, f0)) = (imr, emr, rtsr, ftsr)"
    using assms(2) unfolding ext_collect_def Let_def auto_def r_def f_def h_def prod.case not_not .
  then have eq: "imr = (if auto \<and> h then i0 OR line_bit n else i0)" "emr = (if auto \<and> \<not> h then e0 OR line_bit n else e0)"
      "rtsr = (if auto \<and> r then r0 OR line_bit n else r0)" "ftsr = (if auto \<and> f then f0 OR line_bit n else f0)"
    by (simp_all split: if_splits)
  have b: "bit (if P then v OR line_bit n else v) i \<longleftrightarrow> bit v i \<or> i = n \<and> P" for P v
    using assms(1) by (cases P) (auto simp: bit_or_iff bit_line)
  have "bit imr i \<longleftrightarrow> bit i0 i \<or> i = n \<and> auto \<and> h" "bit emr i \<longleftrightarrow> bit e0 i \<or> i = n \<and> auto \<and> \<not> h"
      "bit rtsr i \<longleftrightarrow> bit r0 i \<or> i = n \<and> auto \<and> r" "bit ftsr i \<longleftrightarrow> bit f0 i \<or> i = n \<and> auto \<and> f"
    unfolding eq b by (rule refl)+
  then show "bit imr i \<longleftrightarrow> bit i0 i \<or> i = n \<and> auto \<and> ch_cb (channels c ! n) \<noteq> None"
    "bit emr i \<longleftrightarrow> bit e0 i \<or> i = n \<and> auto \<and> ch_cb (channels c ! n) = None"
    "bit rtsr i \<longleftrightarrow> bit r0 i \<or> i = n \<and> auto \<and> ch_mode (channels c ! n) AND EXT_CH_MODE_RISING_EDGE \<noteq> 0"
    "bit ftsr i \<longleftrightarrow> bit f0 i \<or> i = n \<and> auto \<and> ch_mode (channels c ! n) AND EXT_CH_MODE_FALLING_EDGE \<noteq> 0"
    unfolding h_def r_def f_def by simp_all
qed

lemma collected:
  assumes "n \<le> 32" "fold (ext_collect c) [0..<n] (0, 0, 0, 0) = (imr, emr, rtsr, ftsr)"
  defines "on \<equiv> \<lambda>n i. i < n \<and> ch_mode (channels c ! i) AND EXT_CH_MODE_AUTOSTART \<noteq> 0"
  shows "(bit imr i \<longleftrightarrow> on n i \<and> ch_cb (channels c ! i) \<noteq> None) \<and> (bit emr i \<longleftrightarrow> on n i \<and> ch_cb (channels c ! i) = None)
    \<and> (bit rtsr i \<longleftrightarrow> on n i \<and> ch_mode (channels c ! i) AND EXT_CH_MODE_RISING_EDGE \<noteq> 0)
    \<and> (bit ftsr i \<longleftrightarrow> on n i \<and> ch_mode (channels c ! i) AND EXT_CH_MODE_FALLING_EDGE \<noteq> 0)"
  using assms(1,2)
proof (induction n arbitrary: imr emr rtsr ftsr)
  case 0
  then show ?case by (simp add: on_def)
next
  case (Suc n)
  obtain i0 e0 r0 f0 where f: "fold (ext_collect c) [0..<n] (0, 0, 0, 0) = (i0, e0, r0, f0)" by (metis prod.exhaust)
  have n: "n < 32" "n \<le> 32" using Suc.prems(1) by simp_all
  have "ext_collect c n (i0, e0, r0, f0) = (imr, emr, rtsr, ftsr)" using Suc.prems(2) f by simp
  note c = collect_bits[OF n(1) this, of i] and IH = Suc.IH[OF n(2) f]
  show ?case
  proof (cases "i = n")
    case True
    then have "\<not> on n i" "on (Suc n) i \<longleftrightarrow> ch_mode (channels c ! n) AND EXT_CH_MODE_AUTOSTART \<noteq> 0" by (simp_all add: on_def)
    then show ?thesis unfolding c using IH True by simp
  next
    case False
    then have "on (Suc n) i = on n i" by (auto simp: on_def)
    then show ?thesis unfolding c using IH False by simp
  qed
qed

lemma started_masks:
  fixes e :: "'h ext" and c :: "'h ext_config"
  defines "e1 \<equiv> extStart c e"
  shows "bit (EXTI_IMR e1) i \<longleftrightarrow> starts c i \<and> ch_cb (channels c ! i) \<noteq> None"
    "bit (EXTI_EMR e1) i \<longleftrightarrow> starts c i \<and> ch_cb (channels c ! i) = None"
    "bit (EXTI_RTSR e1) i \<longleftrightarrow> starts c i \<and> ch_mode (channels c ! i) AND EXT_CH_MODE_RISING_EDGE \<noteq> 0"
    "bit (EXTI_FTSR e1) i \<longleftrightarrow> starts c i \<and> ch_mode (channels c ! i) AND EXT_CH_MODE_FALLING_EDGE \<noteq> 0"
    "EXTI_PR e1 = EXTI_PR e AND NOT EXT_CHANNELS_MASK" "ext_config e1 = Some c" "ext_state e1 = EXT_ACTIVE"
    "vectors_on e1 \<longleftrightarrow> ext_state e = EXT_STOP \<or> vectors_on e"
proof -
  obtain imr emr rtsr ftsr where f: "fold (ext_collect c) [0..<EXT_MAX_CHANNELS] (0, 0, 0, 0) = (imr, emr, rtsr, ftsr)"
    by (metis prod.exhaust)
  have "EXT_MAX_CHANNELS \<le> 32" by (simp add: EXT_MAX_CHANNELS_def)
  note m = collected[OF this f, of i]
  have d: "EXTI_IMR e1 = imr" "EXTI_EMR e1 = emr" "EXTI_RTSR e1 = rtsr" "EXTI_FTSR e1 = ftsr"
    by (simp_all add: e1_def extStart_def ext_lld_start_def Let_def f write_PR_def)
  show "bit (EXTI_IMR e1) i \<longleftrightarrow> starts c i \<and> ch_cb (channels c ! i) \<noteq> None"
    "bit (EXTI_EMR e1) i \<longleftrightarrow> starts c i \<and> ch_cb (channels c ! i) = None"
    "bit (EXTI_RTSR e1) i \<longleftrightarrow> starts c i \<and> ch_mode (channels c ! i) AND EXT_CH_MODE_RISING_EDGE \<noteq> 0"
    "bit (EXTI_FTSR e1) i \<longleftrightarrow> starts c i \<and> ch_mode (channels c ! i) AND EXT_CH_MODE_FALLING_EDGE \<noteq> 0"
    unfolding d starts_def using m by blast+
  show "EXTI_PR e1 = EXTI_PR e AND NOT EXT_CHANNELS_MASK" "ext_config e1 = Some c" "ext_state e1 = EXT_ACTIVE"
    "vectors_on e1 \<longleftrightarrow> ext_state e = EXT_STOP \<or> vectors_on e"
    by (simp_all add: e1_def extStart_def ext_lld_start_def Let_def f write_PR_def)
qed

section \<open>The interrupt a pending line raises\<close>

text \<open>The calls of callbacks, in order; the specification of the handlers.\<close>

fun call_all :: "('h \<Rightarrow> nat \<Rightarrow> 's \<Rightarrow> 's option) \<Rightarrow> ('h \<times> nat) list \<Rightarrow> 's \<Rightarrow> 's option" where
  "call_all run [] s = Some s"
| "call_all run ((h, i) # cs) s = (case run h i s of None \<Rightarrow> None | Some s1 \<Rightarrow> call_all run cs s1)"

definition pending_calls :: "'h ext \<Rightarrow> nat list \<Rightarrow> ('h \<times> nat) list" where
  "pending_calls e lines = map (\<lambda>j. (the (ch_cb (channel e j)), j)) (filter (bit (EXTI_PR e)) lines)"

definition acknowledge :: "nat list \<Rightarrow> 'h ext \<Rightarrow> 'h ext" where
  "acknowledge lines e = write_PR (EXTI_PR e AND fold (\<lambda>i m. m OR line_bit i) lines 0) e"

lemma acknowledge_PR: "bit (EXTI_PR (acknowledge lines e)) n \<longleftrightarrow> bit (EXTI_PR e) n \<and> n \<notin> set lines"
  using bit_small[of "EXTI_PR e" n] by (auto simp: acknowledge_def PR_write bit_and_iff bit_or_iff bit_not_iff bit_fold_lines)

lemma acknowledge_fields [simp]:
  "EXTI_IMR (acknowledge l e) = EXTI_IMR e" "EXTI_RTSR (acknowledge l e) = EXTI_RTSR e" "EXTI_FTSR (acknowledge l e) = EXTI_FTSR e"
  "ext_config (acknowledge l e) = ext_config e" "ext_state (acknowledge l e) = ext_state e" "vectors_on (acknowledge l e) = vectors_on e"
  "channel (acknowledge l e) = channel e"
  by (simp_all add: acknowledge_def)

lemma call_lines_all:
  assumes "\<forall>j \<in> set lines. bit pr j \<longrightarrow> ch_cb (channel e j) \<noteq> None"
  shows "call_lines run e pr lines s = call_all run (map (\<lambda>j. (the (ch_cb (channel e j)), j)) (filter (bit pr) lines)) s"
  using assms
  by (induction lines arbitrary: s) (auto simp: test_line ext_call_def split: option.splits)

lemma irq_shared_calls:
  assumes "\<forall>j \<in> set lines. bit (EXTI_PR e) j \<longrightarrow> ch_cb (channel e j) \<noteq> None"
  shows "irq_shared run lines (e, s) = map_option (Pair (acknowledge lines e)) (call_all run (pending_calls e lines) s)"
proof -
  let ?pr = "EXTI_PR e AND fold (\<lambda>i m. m OR line_bit i) lines 0"
  have b: "bit ?pr j \<longleftrightarrow> bit (EXTI_PR e) j" if "j \<in> set lines" for j
    using that bit_small[of "EXTI_PR e" j] by (auto simp: bit_and_iff bit_fold_lines)
  have "filter (bit ?pr) lines = filter (bit (EXTI_PR e)) lines" by (rule filter_cong) (simp_all add: b)
  moreover have "\<forall>j \<in> set lines. bit ?pr j \<longrightarrow> ch_cb (channel (write_PR ?pr e) j) \<noteq> None" using assms b by simp
  note call_lines_all[OF this, of run s]
  ultimately show ?thesis by (simp add: irq_shared_def pending_calls_def acknowledge_def Let_def)
qed

lemma irq_line_calls:
  assumes "bit (EXTI_PR e) i" "ch_cb (channel e i) \<noteq> None"
  shows "irq_line run i (e, s) = map_option (Pair (acknowledge [i] e)) (call_all run (pending_calls e [i]) s)"
proof -
  have "EXTI_PR e AND NOT (line_bit i) = EXTI_PR e AND NOT (EXTI_PR e AND line_bit i)"
    by (rule bit_word_eqI) (auto simp: bit_and_iff bit_or_iff bit_not_iff)
  then have "write_PR (line_bit i) e = acknowledge [i] e" by (simp add: acknowledge_def write_PR_def)
  then show ?thesis using assms
    by (auto simp: irq_line_def ext_call_def pending_calls_def Let_def split: option.splits)
qed

section \<open>Tables without a hole\<close>

text \<open>
  What a table promises: every channel that starts has a callback. Then the handlers, which call without a look, never
  call \<^verbatim>\<open>NULL\<close>, whatever edges come.
\<close>

inductive ext_step :: "('h \<Rightarrow> nat \<Rightarrow> 's \<Rightarrow> 's option) \<Rightarrow> 'h ext \<times> 's \<Rightarrow> 'h ext \<times> 's \<Rightarrow> bool" for run where
  ext_edge: "ext_step run (e, s) (edge i rising e, s)"
| ext_interrupt: "bit (EXTI_PR e AND EXTI_IMR e) i \<Longrightarrow> vectors_on e \<Longrightarrow> ext_irq run i (e, s) = Some es \<Longrightarrow>
    ext_step run (e, s) es"

inductive_cases ext_stepE: "ext_step run (e, s) es"

definition ext_ok :: "'h ext_config \<Rightarrow> 'h ext \<Rightarrow> bool" where
  "ext_ok c e \<longleftrightarrow> ext_config e = Some c \<and> vectors_on e
     \<and> (\<forall>i. bit (EXTI_PR e) i \<longrightarrow> bit (EXTI_RTSR e) i \<or> bit (EXTI_FTSR e) i)
     \<and> (\<forall>i. bit (EXTI_IMR e) i \<longleftrightarrow> starts c i)
     \<and> (\<forall>i. bit (EXTI_RTSR e) i \<longleftrightarrow> starts c i \<and> ch_mode (channels c ! i) AND EXT_CH_MODE_RISING_EDGE \<noteq> 0)
     \<and> (\<forall>i. bit (EXTI_FTSR e) i \<longleftrightarrow> starts c i \<and> ch_mode (channels c ! i) AND EXT_CH_MODE_FALLING_EDGE \<noteq> 0)"

locale ext_table =
  fixes c :: "'h ext_config"
  assumes callback: "starts c i \<Longrightarrow> ch_cb (channels c ! i) \<noteq> None"
begin

lemma start_ok:
  assumes "EXTI_PR e AND NOT EXT_CHANNELS_MASK = 0" "ext_state e = EXT_STOP"
  shows "ext_ok c (extStart c e)"
  using started_masks[of c e] assms callback by (auto simp: ext_ok_def)

lemma pending_callback:
  assumes "ext_ok c e" "bit (EXTI_PR e) j"
  shows "ch_cb (channel e j) \<noteq> None" "starts c j" "bit (EXTI_IMR e) j"
  using assms callback by (auto simp: ext_ok_def channel_def)

lemma irq_calls:
  assumes "ext_ok c e" "bit (EXTI_PR e) i"
  shows "ext_irq run i (e, s) =
    map_option (Pair (acknowledge (vector_lines i) e)) (call_all run (pending_calls e (vector_lines i)) s)"
proof -
  have "\<forall>j \<in> set lines. bit (EXTI_PR e) j \<longrightarrow> ch_cb (channel e j) \<noteq> None" for lines
    using pending_callback(1)[OF assms(1)] by blast
  note shared = irq_shared_calls[OF this] and single = irq_line_calls[OF assms(2) pending_callback(1)[OF assms]]
  show ?thesis
    unfolding ext_irq_def EXTI9_5_IRQHandler_def EXTI15_10_IRQHandler_def vector_lines_def
    by (simp only: shared single split: if_split) auto
qed

lemma edge_ok:
  assumes "ext_ok c e"
  shows "ext_ok c (edge i rising e)"
  using assms by (auto simp: ext_ok_def edge_def bit_or_iff bit_line)

lemma step_ok:
  assumes "ext_step run (e, s) (e1, s1)" "ext_ok c e"
  shows "ext_ok c e1"
  using assms(1)
proof (cases rule: ext_step.cases)
  case ext_edge
  then show ?thesis using edge_ok[OF assms(2)] by simp
next
  case (ext_interrupt i)
  have "bit (EXTI_PR e) i" using ext_interrupt by (simp add: bit_and_iff)
  from irq_calls[OF assms(2) this, of run s] ext_interrupt
  have "map_option (Pair (acknowledge (vector_lines i) e)) (call_all run (pending_calls e (vector_lines i)) s) = Some (e1, s1)"
    by simp
  then have e1: "e1 = acknowledge (vector_lines i) e" by auto
  show ?thesis using assms(2) unfolding e1 ext_ok_def acknowledge_PR acknowledge_fields by blast
qed

lemma reachable_ok:
  assumes "(ext_step run)\<^sup>*\<^sup>* es es1" "ext_ok c (fst es)"
  shows "ext_ok c (fst es1)"
  using assms
proof (induction rule: rtranclp_induct)
  case (step y z)
  show ?case
    by (rule step_ok[of run "fst y" "snd y" "fst z" "snd z"]) (simp_all add: step)
qed

end

end
