(* ===== verification/Interrupts.thy ===== *)
theory Interrupts
  imports Ext Remote Attitude
begin

text \<open>
  \<^verbatim>\<open>src/Quad/ExternalInterrupt.cpp\<close>: the table that connects pins and handlers, over the driver of \<^theory_text>\<open>Ext\<close>, and the handlers
  of \<^verbatim>\<open>Fernsteuerung.cpp\<close> and \<^verbatim>\<open>Lage.cpp\<close> as its callbacks.

  What a callback reads from its pin and from timer 4 is an input: \<open>ins i\<close> is, for the callback of line \<open>i\<close>, whether the pin is low and the two
  readings of the counter.
\<close>

unbundle bit_operations_syntax

section \<open>The table\<close>

datatype irq_callback =
    CB_calib_interrupt | CB_mpu_6050_interrupt
  | CB_rx_channel1_interrupt | CB_rx_channel2_interrupt | CB_rx_channel3_interrupt | CB_rx_channel4_interrupt

definition EXT_MODE_GPIOD :: u16 where "EXT_MODE_GPIOD = 3"
definition EXT_MODE_GPIOE :: u16 where "EXT_MODE_GPIOE = 4"

fun EXT_MODE_EXTI :: "u16 list \<Rightarrow> u16 list" where
  "EXT_MODE_EXTI (m0 # m1 # m2 # m3 # ms) = (m0 OR push_bit 4 m1 OR push_bit 8 m2 OR push_bit 12 m3) # EXT_MODE_EXTI ms"
| "EXT_MODE_EXTI _ = []"

definition unused :: "irq_callback ext_channel" where
  "unused = \<lparr>ch_mode = EXT_CH_MODE_DISABLED, ch_cb = None\<rparr>"

text \<open>C fills the array up with zeros.\<close>

definition extcfg :: "irq_callback ext_config" where
  "extcfg =
     \<lparr>channels =
        [\<lparr>ch_mode = EXT_CH_MODE_FALLING_EDGE OR EXT_CH_MODE_AUTOSTART, ch_cb = Some CB_calib_interrupt\<rparr>,
         unused, unused, unused, unused, unused, unused,
         \<lparr>ch_mode = EXT_CH_MODE_RISING_EDGE OR EXT_CH_MODE_AUTOSTART, ch_cb = Some CB_mpu_6050_interrupt\<rparr>,
         unused, unused,
         \<lparr>ch_mode = EXT_CH_MODE_BOTH_EDGES OR EXT_CH_MODE_AUTOSTART, ch_cb = Some CB_rx_channel1_interrupt\<rparr>,
         \<lparr>ch_mode = EXT_CH_MODE_BOTH_EDGES OR EXT_CH_MODE_AUTOSTART, ch_cb = Some CB_rx_channel2_interrupt\<rparr>,
         \<lparr>ch_mode = EXT_CH_MODE_BOTH_EDGES OR EXT_CH_MODE_AUTOSTART, ch_cb = Some CB_rx_channel3_interrupt\<rparr>,
         \<lparr>ch_mode = EXT_CH_MODE_BOTH_EDGES OR EXT_CH_MODE_AUTOSTART, ch_cb = Some CB_rx_channel4_interrupt\<rparr>,
         unused, unused] @ replicate 7 \<lparr>ch_mode = 0, ch_cb = None\<rparr>,
      exti = EXT_MODE_EXTI [EXT_MODE_GPIOD, 0, 0, 0, 0, 0, 0, EXT_MODE_GPIOD,
        0, 0, EXT_MODE_GPIOE, EXT_MODE_GPIOE, EXT_MODE_GPIOE, EXT_MODE_GPIOE, 0, 0]\<rparr>"

definition setup_ExternalInterrupt :: "irq_callback ext \<Rightarrow> irq_callback ext" where
  "setup_ExternalInterrupt e = extStart extcfg e"

section \<open>The callbacks\<close>

text \<open>What they work on: the remote control, the flash store, the attitude, and the delay of the timer that ends the dead time of the button.\<close>

record 'd cockpit =
  ck_rc :: fernsteuerung
  ck_store :: "u16 \<times> flash"
  ck_imu :: "'d imu"
  ck_timer :: "nat option"

definition on_rc :: "(fernsteuerung \<Rightarrow> fernsteuerung) \<Rightarrow> 'd cockpit \<Rightarrow> 'd cockpit" where
  "on_rc f k = k\<lparr>ck_rc := f (ck_rc k)\<rparr>"

definition run_callback ::
    "controller \<Rightarrow> (nat \<Rightarrow> bool \<times> u16 \<times> u16) \<Rightarrow> irq_callback \<Rightarrow> nat \<Rightarrow> 'd cockpit \<Rightarrow> 'd cockpit option" where
  "run_callback c ins h i k =
     (case ins i of (low, cnt, cnt') \<Rightarrow>
        case h of
          CB_calib_interrupt \<Rightarrow>
            (case calib_interrupt c (ck_rc k, ck_store k) of
               None \<Rightarrow> None
             | Some (t, rc, ds) \<Rightarrow>
                 Some (k\<lparr>ck_rc := rc, ck_store := ds, ck_timer := (if t = None then ck_timer k else t)\<rparr>))
        | CB_mpu_6050_interrupt \<Rightarrow> Some (k\<lparr>ck_imu := mpu_6050_interrupt (\<not> low) (ck_imu k)\<rparr>)
        | CB_rx_channel1_interrupt \<Rightarrow> Some (on_rc (rx_channel1_interrupt low cnt cnt') k)
        | CB_rx_channel2_interrupt \<Rightarrow> Some (on_rc (rx_channel2_interrupt low cnt cnt') k)
        | CB_rx_channel3_interrupt \<Rightarrow> Some (on_rc (rx_channel3_interrupt low cnt cnt') k)
        | CB_rx_channel4_interrupt \<Rightarrow> Some (on_rc (rx_channel4_interrupt low cnt cnt') k))"

section \<open>The table keeps the promise of the driver\<close>

lemma lines_23: "i < 23 \<Longrightarrow> i \<in> {0, 1, 2, 3, 4, 5, 6, 7, 8, 9, 10, 11, 12, 13, 14, 15, 16, 17, 18, 19, 20, 21, 22 :: nat}"
  by (simp only: insert_iff empty_iff) presburger

lemmas ext_modes = EXT_CH_MODE_DISABLED_def EXT_CH_MODE_RISING_EDGE_def EXT_CH_MODE_FALLING_EDGE_def
  EXT_CH_MODE_BOTH_EDGES_def EXT_CH_MODE_AUTOSTART_def unused_def

lemma extcfg_starts:
  "starts extcfg i \<longleftrightarrow> i \<in> {0, 7, 10, 11, 12, 13}"
proof (cases "i < 23")
  case True
  from lines_23[OF this] show ?thesis
    by (elim insertE emptyE) (simp_all add: starts_def extcfg_def ext_modes EXT_MAX_CHANNELS_def)
qed (auto simp: starts_def EXT_MAX_CHANNELS_def)

lemma extcfg_channels:
  "channels extcfg ! 0 = \<lparr>ch_mode = 6, ch_cb = Some CB_calib_interrupt\<rparr>"
  "channels extcfg ! 7 = \<lparr>ch_mode = 5, ch_cb = Some CB_mpu_6050_interrupt\<rparr>"
  "channels extcfg ! 10 = \<lparr>ch_mode = 7, ch_cb = Some CB_rx_channel1_interrupt\<rparr>"
  "channels extcfg ! 11 = \<lparr>ch_mode = 7, ch_cb = Some CB_rx_channel2_interrupt\<rparr>"
  "channels extcfg ! 12 = \<lparr>ch_mode = 7, ch_cb = Some CB_rx_channel3_interrupt\<rparr>"
  "channels extcfg ! 13 = \<lparr>ch_mode = 7, ch_cb = Some CB_rx_channel4_interrupt\<rparr>"
  by (simp_all add: extcfg_def ext_modes)

interpretation table: ext_table extcfg
  by unfold_locales (auto simp: extcfg_starts extcfg_channels)

lemma extcfg_edges:
  assumes "ext_ok extcfg e"
  shows "bit (EXTI_RTSR e) i \<longleftrightarrow> i \<in> {7, 10, 11, 12, 13}" "bit (EXTI_FTSR e) i \<longleftrightarrow> i \<in> {0, 10, 11, 12, 13}"
  using assms
  by (auto simp: ext_ok_def extcfg_starts extcfg_channels EXT_CH_MODE_RISING_EDGE_def EXT_CH_MODE_FALLING_EDGE_def)

section \<open>The receiver\<close>

text \<open>Channel \<open>ch\<close> of the receiver is on line \<open>10 + ch\<close>.\<close>

definition recorder :: "nat \<Rightarrow> fernsteuerung \<Rightarrow> fernsteuerung" where
  "recorder ch = [cal_roll, cal_nick, cal_schub, cal_yaw] ! ch"

definition rx_callback :: "nat \<Rightarrow> irq_callback" where
  "rx_callback ch =
     [CB_rx_channel1_interrupt, CB_rx_channel2_interrupt, CB_rx_channel3_interrupt, CB_rx_channel4_interrupt] ! ch"

lemma channel_4: "(ch :: nat) < 4 \<Longrightarrow> ch = 0 \<or> ch = 1 \<or> ch = 2 \<or> ch = 3"
  by auto

lemma run_rx:
  assumes "ch < 4" "ins i = (low, cnt, cnt')"
  shows "run_callback c ins (rx_callback ch) i k = Some (on_rc (rx_interrupt ch (recorder ch) low cnt cnt') k)"
  using channel_4[OF assms(1)] assms(2)
  by (elim disjE) (simp_all add: run_callback_def rx_callback_def recorder_def rx_channel1_interrupt_def
      rx_channel2_interrupt_def rx_channel3_interrupt_def rx_channel4_interrupt_def)

lemma rx_channel: "ch < 4 \<Longrightarrow> channels extcfg ! (10 + ch) = \<lparr>ch_mode = 7, ch_cb = Some (rx_callback ch)\<rparr>"
  by (drule channel_4, elim disjE) (simp_all add: extcfg_channels rx_callback_def)

lemma recorder_fields:
  "ch < 4 \<Longrightarrow> RC_INPUT_CHANNELS (recorder ch s) = RC_INPUT_CHANNELS s"
  by (drule channel_4, elim disjE) (simp_all add: recorder_def)

lemma rx_rising: "rx_interrupt ch f False cnt cnt' s = s\<lparr>RC_INPUT_LAST_TCNT := cnt'\<rparr>"
  by (simp add: rx_interrupt_def)

lemma rx_falling:
  assumes "ch < 4"
  shows "RC_INPUT_CHANNELS (rx_interrupt ch (recorder ch) True cnt cnt' s) =
    (if RC_IN_RANGE (cnt - RC_INPUT_LAST_TCNT s)
     then (RC_INPUT_CHANNELS s)[ch := cnt - RC_INPUT_LAST_TCNT s] else RC_INPUT_CHANNELS s)"
  using assms by (simp add: rx_interrupt_def recorder_fields Let_def)

text \<open>Which callbacks the interrupt of the receiver calls.\<close>

definition with_pending :: "u32 \<Rightarrow> 'h ext \<Rightarrow> 'h ext" where
  "with_pending pr e = e\<lparr>EXTI_PR := pr\<rparr>"

lemma edge_rx:
  assumes "ext_ok extcfg e" "ch < 4"
  shows "edge (10 + ch) rising e = with_pending (EXTI_PR e OR line_bit (10 + ch)) e"
proof -
  have "10 + ch \<in> {10, 11, 12, 13}" using channel_4[OF assms(2)] by auto
  then have "bit (EXTI_RTSR e) (10 + ch)" "bit (EXTI_FTSR e) (10 + ch)" using extcfg_edges[OF assms(1)] by auto
  then show ?thesis by (simp add: edge_def with_pending_def)
qed

lemma acknowledge_pending:
  assumes "EXTI_PR e = 0" "\<forall>i. bit pr i \<longrightarrow> i \<in> set lines"
  shows "acknowledge lines (with_pending pr e) = e"
proof -
  let ?e = "with_pending pr e"
  have "EXTI_PR (acknowledge lines ?e) = 0"
    by (rule bit_word_eqI) (use assms(2) in \<open>auto simp: acknowledge_PR with_pending_def\<close>)
  moreover have "acknowledge lines ?e = e\<lparr>EXTI_PR := EXTI_PR (acknowledge lines ?e)\<rparr>"
    by (simp add: acknowledge_def write_PR_def with_pending_def)
  ultimately show ?thesis using assms(1) by simp
qed

lemma irq_rx:
  assumes "ext_ok extcfg (with_pending pr e)" "EXTI_PR e = 0" "ch < 4" "bit pr (10 + ch)"
    and pr: "\<forall>i. bit pr i \<longrightarrow> i \<in> {10, 11, 12, 13}"
  shows "ext_irq run (10 + ch) (with_pending pr e, k) = map_option (Pair e)
    (call_all run (map (\<lambda>i. (rx_callback (i - 10), i)) (filter (bit pr) [10, 11, 12, 13])) k)"
proof -
  let ?e = "with_pending pr e" and ?lines = "[10, 11, 12, 13, 14, 15]"
  have "10 + ch \<in> {10..15}" using assms(3) by simp
  then have v: "vector_lines (10 + ch) = ?lines" by (auto simp: vector_lines_def)
  have np: "\<not> bit pr 14" "\<not> bit pr 15" using pr by auto
  have "channel ?e i = channels extcfg ! i" for i using assms(1) by (simp add: ext_ok_def channel_def)
  then have "pending_calls ?e ?lines = map (\<lambda>i. (rx_callback (i - 10), i)) (filter (bit pr) [10, 11, 12, 13])"
    unfolding pending_calls_def by (simp add: with_pending_def np rx_callback_def extcfg_channels)
  moreover have "acknowledge ?lines ?e = e" by (rule acknowledge_pending[OF assms(2)]) (use pr in auto)
  moreover have "bit (EXTI_PR ?e) (10 + ch)" using assms(4) by (simp add: with_pending_def)
  ultimately show ?thesis using table.irq_calls[OF assms(1), of "10 + ch" run k] v by simp
qed

lemma line_bits: "line_bit 10 = 0x400" "line_bit 11 = 0x800" "line_bit 12 = 0x1000" "line_bit 13 = 0x2000"
  by (simp_all add: line_bit_def)

text \<open>One line, and two lines at once: the one with the lower number comes first.\<close>

lemma filter_line: "ch < 4 \<Longrightarrow> filter (bit (line_bit (10 + ch))) [10, 11, 12, 13] = [10 + ch]"
  by (drule channel_4, elim disjE) (simp_all add: bit_line)

lemma filter_lines:
  assumes "ch < 4" "j < 4" "j \<noteq> ch"
  shows "filter (bit (line_bit (10 + ch) OR line_bit (10 + j))) [10, 11, 12, 13] = (if ch < j then [10 + ch, 10 + j] else [10 + j, 10 + ch])"
  using channel_4[OF assms(1)] channel_4[OF assms(2)] assms(3)
  by (elim disjE; simp add: bit_line bit_or_iff)

lemma with_pending_ok:
  assumes "ext_ok extcfg e" "EXTI_PR e = 0" "\<forall>i. bit pr i \<longrightarrow> i \<in> {10, 11, 12, 13}"
  shows "ext_ok extcfg (with_pending pr e)"
  using assms extcfg_edges[OF assms(1)] by (auto simp: ext_ok_def with_pending_def)

lemma one_line:
  assumes "ext_ok extcfg e" "EXTI_PR e = 0" "ch < 4"
  shows "ext_irq run (10 + ch) (edge (10 + ch) rising e, k) = map_option (Pair e) (run (rx_callback ch) (10 + ch) k)"
proof -
  have b: "\<forall>i. bit (line_bit (10 + ch)) i \<longrightarrow> i \<in> {10, 11, 12, 13}" using channel_4[OF assms(3)] by (auto simp: bit_line)
  have "bit (line_bit (10 + ch)) (10 + ch)" using assms(3) by (simp add: bit_line)
  note r = irq_rx[OF with_pending_ok[OF assms(1,2) b] assms(2,3) this b, of run k]
  have e: "edge (10 + ch) rising e = with_pending (line_bit (10 + ch)) e" using edge_rx[OF assms(1,3)] assms(2) by simp
  show ?thesis unfolding e r filter_line[OF assms(3)] by (simp split: option.split)
qed

lemma two_lines:
  assumes "ext_ok extcfg e" "EXTI_PR e = 0" "ch < 4" "j < 4" "j \<noteq> ch"
  shows "ext_irq run (10 + ch) (edge (10 + j) r2 (edge (10 + ch) r1 e), k) =
    map_option (Pair e) (if ch < j then call_all run [(rx_callback ch, 10 + ch), (rx_callback j, 10 + j)] k
      else call_all run [(rx_callback j, 10 + j), (rx_callback ch, 10 + ch)] k)"
proof -
  let ?pr = "line_bit (10 + ch) OR line_bit (10 + j)"
  have b1: "\<forall>i. bit (line_bit (10 + ch)) i \<longrightarrow> i \<in> {10, 11, 12, 13}" using channel_4[OF assms(3)] by (auto simp: bit_line)
  have b: "\<forall>i. bit ?pr i \<longrightarrow> i \<in> {10, 11, 12, 13}"
    using channel_4[OF assms(3)] channel_4[OF assms(4)] by (auto simp: bit_line bit_or_iff)
  have e: "edge (10 + j) r2 (edge (10 + ch) r1 e) = with_pending ?pr e"
    using edge_rx[OF with_pending_ok[OF assms(1,2) b1] assms(4), of r2] edge_rx[OF assms(1,3), of r1] assms(2)
    by (simp add: with_pending_def)
  have "bit ?pr (10 + ch)" using assms(3) by (simp add: bit_line bit_or_iff)
  note r = irq_rx[OF with_pending_ok[OF assms(1,2) b] assms(2,3) this b, of run k]
  show ?thesis unfolding e r filter_lines[OF assms(3-5)] by (cases "ch < j") (simp_all del: call_all.simps)
qed

text \<open>The width that channel \<open>ch\<close> has after its handler has run.\<close>

definition width :: "nat \<Rightarrow> 'd cockpit \<Rightarrow> u16" where
  "width ch k = RC_INPUT_CHANNELS (ck_rc k) ! ch"

lemma falling_width:
  assumes "ch < 4" "length (RC_INPUT_CHANNELS (ck_rc k)) = 4"
  shows "width ch (on_rc (rx_interrupt ch (recorder ch) True cnt cnt') k) =
    (let w = cnt - RC_INPUT_LAST_TCNT (ck_rc k) in if RC_IN_RANGE w then w else width ch k)"
  using assms by (simp add: width_def on_rc_def rx_falling Let_def)

lemma rising_rc [simp]:
  "ck_rc (on_rc (rx_interrupt ch f False cnt cnt') k) = (ck_rc k)\<lparr>RC_INPUT_LAST_TCNT := cnt'\<rparr>"
  "width i (on_rc (rx_interrupt ch f False cnt cnt') k) = width i k"
  by (simp_all add: on_rc_def rx_rising width_def)

section \<open>A reset, and a cockpit\<close>

definition ext_reset :: "irq_callback ext" where
  "ext_reset = \<lparr>EXTI_IMR = 0, EXTI_EMR = 0, EXTI_RTSR = 0, EXTI_FTSR = 0, EXTI_SWIER = 0, EXTI_PR = 0,
     EXTICR = [0, 0, 0, 0], vectors_on = False, ext_state = EXT_STOP, ext_config = None\<rparr>"

definition demo_cockpit :: "u8 list cockpit" where
  "demo_cockpit = \<lparr>ck_rc = demo_rc 1500, ck_store = (0, formatted), ck_imu = ready_imu [], ck_timer = None\<rparr>"

lemma reset_started:
  "ext_state ext_reset = EXT_STOP" "EXTI_PR ext_reset AND NOT EXT_CHANNELS_MASK = 0"
  "ext_ok extcfg (setup_ExternalInterrupt ext_reset)" "EXTI_PR (setup_ExternalInterrupt ext_reset) = 0"
proof -
  show r: "ext_state ext_reset = EXT_STOP" "EXTI_PR ext_reset AND NOT EXT_CHANNELS_MASK = 0" by (simp_all add: ext_reset_def)
  show "ext_ok extcfg (setup_ExternalInterrupt ext_reset)"
    unfolding setup_ExternalInterrupt_def by (rule table.start_ok[OF r(2,1)])
  show "EXTI_PR (setup_ExternalInterrupt ext_reset) = 0"
    unfolding setup_ExternalInterrupt_def started_masks(5) by (simp add: r(2))
qed

end
