(* ===== verification/Spi.thy ===== *)
theory Spi
  imports Kernel
begin

text \<open>
  The SPI driver of the kernel's HAL (\<^verbatim>\<open>os/hal/src/spi.c\<close>, \<^verbatim>\<open>os/hal/include/spi.h\<close>) and the
  part of its STM32 driver that decides what goes over the wires
  (\<^verbatim>\<open>os/hal/platforms/STM32/spi_lld.c\<close>).

  What is connected to the bus is not code of the repository. It is the type \<open>'c\<close>, and a
  \<open>board\<close> says how it takes part in the exchange of a frame, how it sees the pins and
  the control register, and what goes on elsewhere while the calling thread sleeps: \<open>asleep\<close>
  acts on the whole state, since interrupt handlers may change what the drivers keep. The DMA streams
  that move the bytes are hardware; which memory they move is the code's choice and is modelled. The synchronous
  calls give the state after the caller has been woken up. The bus lock (\<^verbatim>\<open>spiAcquireBus\<close>) is not used by
  the firmware. Debug checks are off in its configuration.
\<close>

unbundle bit_operations_syntax

record spicfg =
  sc_end_cb :: "nat option"
  sc_ssport :: nat
  sc_sspad :: nat
  sc_cr1 :: u16

datatype spistate = SPI_UNINIT | SPI_STOP | SPI_READY | SPI_ACTIVE | SPI_COMPLETE

record spi =
  sp_state :: spistate
  sp_config :: "spicfg option"
  sp_thread :: "tid option"

record 'c spi_world =
  spip :: spi
  slave :: 'c

record ('c, 's) board =
  shift_frame :: "u8 \<Rightarrow> 'c \<Rightarrow> u8 \<times> 'c"
  write_pad :: "nat \<Rightarrow> nat \<Rightarrow> bool \<Rightarrow> 'c \<Rightarrow> 'c"
  write_cr1 :: "u16 \<Rightarrow> 'c \<Rightarrow> 'c"
  asleep :: "'s \<Rightarrow> 's"
  end_callback :: "nat \<Rightarrow> 's \<Rightarrow> 's"
  this_thread :: tid

section \<open>The low level driver\<close>

fun shifts :: "('c, 's) board \<Rightarrow> u8 list \<Rightarrow> 'c \<Rightarrow> u8 list \<times> 'c" where
  "shifts B [] c = ([], c)"
| "shifts B (x # xs) c =
     (case shift_frame B x c of (r, c1) \<Rightarrow> case shifts B xs c1 of (rs, c2) \<Rightarrow> (r # rs, c2))"

definition SPI_CR1_MSTR :: u16 where "SPI_CR1_MSTR = 0x0004"
definition SPI_CR1_SPE :: u16 where "SPI_CR1_SPE = 0x0040"
definition SPI_CR1_SSI :: u16 where "SPI_CR1_SSI = 0x0100"
definition SPI_CR1_SSM :: u16 where "SPI_CR1_SSM = 0x0200"

definition dummytx :: u8 where "dummytx = 0xFF"

definition spi_lld_start :: "('c, 's) board \<Rightarrow> ('c, 'z) spi_world_scheme \<Rightarrow> ('c, 'z) spi_world_scheme" where
  "spi_lld_start B s =
     (let v = sc_cr1 (the (sp_config (spip s))) OR SPI_CR1_MSTR OR SPI_CR1_SSM OR SPI_CR1_SSI
      in s\<lparr>slave := write_cr1 B (v OR SPI_CR1_SPE) (write_cr1 B v (write_cr1 B 0 (slave s)))\<rparr>)"

definition spi_lld_stop :: "('c, 's) board \<Rightarrow> ('c, 'z) spi_world_scheme \<Rightarrow> ('c, 'z) spi_world_scheme" where
  "spi_lld_stop B s =
     (if sp_state (spip s) = SPI_READY then s\<lparr>slave := write_cr1 B 0 (slave s)\<rparr> else s)"

definition spi_lld_select :: "('c, 's) board \<Rightarrow> ('c, 'z) spi_world_scheme \<Rightarrow> ('c, 'z) spi_world_scheme" where
  "spi_lld_select B s =
     (let cfg = the (sp_config (spip s)) in s\<lparr>slave := write_pad B (sc_ssport cfg) (sc_sspad cfg) False (slave s)\<rparr>)"

definition spi_lld_unselect :: "('c, 's) board \<Rightarrow> ('c, 'z) spi_world_scheme \<Rightarrow> ('c, 'z) spi_world_scheme" where
  "spi_lld_unselect B s =
     (let cfg = the (sp_config (spip s)) in s\<lparr>slave := write_pad B (sc_ssport cfg) (sc_sspad cfg) True (slave s)\<rparr>)"

definition spi_lld_ignore :: "('c, 's) board \<Rightarrow> nat \<Rightarrow> ('c, 'z) spi_world_scheme \<Rightarrow> ('c, 'z) spi_world_scheme" where
  "spi_lld_ignore B n s = s\<lparr>slave := snd (shifts B (replicate n dummytx) (slave s))\<rparr>"

definition spi_lld_exchange ::
    "('c, 's) board \<Rightarrow> u8 list \<Rightarrow> ('c, 'z) spi_world_scheme \<Rightarrow> u8 list \<times> ('c, 'z) spi_world_scheme" where
  "spi_lld_exchange B txbuf s = (case shifts B txbuf (slave s) of (rx, c) \<Rightarrow> (rx, s\<lparr>slave := c\<rparr>))"

definition spi_lld_send :: "('c, 's) board \<Rightarrow> u8 list \<Rightarrow> ('c, 'z) spi_world_scheme \<Rightarrow> ('c, 'z) spi_world_scheme" where
  "spi_lld_send B txbuf s = s\<lparr>slave := snd (shifts B txbuf (slave s))\<rparr>"

definition spi_lld_receive ::
    "('c, 's) board \<Rightarrow> nat \<Rightarrow> ('c, 'z) spi_world_scheme \<Rightarrow> u8 list \<times> ('c, 'z) spi_world_scheme" where
  "spi_lld_receive B n s = (case shifts B (replicate n dummytx) (slave s) of (rx, c) \<Rightarrow> (rx, s\<lparr>slave := c\<rparr>))"

section \<open>The driver\<close>

definition set_sp_state :: "spistate \<Rightarrow> ('c, 'z) spi_world_scheme \<Rightarrow> ('c, 'z) spi_world_scheme" where
  "set_sp_state st s = s\<lparr>spip := (spip s)\<lparr>sp_state := st\<rparr>\<rparr>"

definition spiObjectInit :: "('c, 'z) spi_world_scheme \<Rightarrow> ('c, 'z) spi_world_scheme" where
  "spiObjectInit s = s\<lparr>spip := \<lparr>sp_state = SPI_STOP, sp_config = None, sp_thread = None\<rparr>\<rparr>"

definition spiStart :: "('c, 's) board \<Rightarrow> spicfg \<Rightarrow> ('c, 'z) spi_world_scheme \<Rightarrow> ('c, 'z) spi_world_scheme" where
  "spiStart B config s =
     set_sp_state SPI_READY (spi_lld_start B (s\<lparr>spip := (spip s)\<lparr>sp_config := Some config\<rparr>\<rparr>))"

definition spiStop :: "('c, 's) board \<Rightarrow> ('c, 'z) spi_world_scheme \<Rightarrow> ('c, 'z) spi_world_scheme" where
  "spiStop B s = set_sp_state SPI_STOP (spi_lld_stop B (spi_lld_unselect B s))"

definition spiSelect :: "('c, 's) board \<Rightarrow> ('c, 'z) spi_world_scheme \<Rightarrow> ('c, 'z) spi_world_scheme" where
  "spiSelect B s = spi_lld_select B s"

definition spiUnselect :: "('c, 's) board \<Rightarrow> ('c, 'z) spi_world_scheme \<Rightarrow> ('c, 'z) spi_world_scheme" where
  "spiUnselect B s = spi_lld_unselect B s"

definition spiStartIgnoreI :: "('c, 's) board \<Rightarrow> nat \<Rightarrow> ('c, 'z) spi_world_scheme \<Rightarrow> ('c, 'z) spi_world_scheme" where
  "spiStartIgnoreI B n s = spi_lld_ignore B n (set_sp_state SPI_ACTIVE s)"

definition spiStartExchangeI ::
    "('c, 's) board \<Rightarrow> u8 list \<Rightarrow> ('c, 'z) spi_world_scheme \<Rightarrow> u8 list \<times> ('c, 'z) spi_world_scheme" where
  "spiStartExchangeI B txbuf s = spi_lld_exchange B txbuf (set_sp_state SPI_ACTIVE s)"

definition spiStartSendI :: "('c, 's) board \<Rightarrow> u8 list \<Rightarrow> ('c, 'z) spi_world_scheme \<Rightarrow> ('c, 'z) spi_world_scheme" where
  "spiStartSendI B txbuf s = spi_lld_send B txbuf (set_sp_state SPI_ACTIVE s)"

definition spiStartReceiveI ::
    "('c, 's) board \<Rightarrow> nat \<Rightarrow> ('c, 'z) spi_world_scheme \<Rightarrow> u8 list \<times> ('c, 'z) spi_world_scheme" where
  "spiStartReceiveI B n s = spi_lld_receive B n (set_sp_state SPI_ACTIVE s)"

text \<open>
  \<^verbatim>\<open>_spi_wakeup_isr\<close> hands the thread to \<^verbatim>\<open>chSchReadyI\<close>; that the thread then runs again is the
  return of the call that waits.
\<close>

definition spi_wakeup_isr :: "('c, 'z) spi_world_scheme \<Rightarrow> ('c, 'z) spi_world_scheme" where
  "spi_wakeup_isr s =
     (if sp_thread (spip s) \<noteq> None then s\<lparr>spip := (spip s)\<lparr>sp_thread := None\<rparr>\<rparr> else s)"

definition spi_isr_code ::
    "('c, ('c, 'z) spi_world_scheme) board \<Rightarrow> ('c, 'z) spi_world_scheme \<Rightarrow> ('c, 'z) spi_world_scheme" where
  "spi_isr_code B s =
     spi_wakeup_isr
       (case sc_end_cb (the (sp_config (spip s))) of
          Some f \<Rightarrow>
            (let s1 = end_callback B f (set_sp_state SPI_COMPLETE s)
             in if sp_state (spip s1) = SPI_COMPLETE then set_sp_state SPI_READY s1 else s1)
        | None \<Rightarrow> set_sp_state SPI_READY s)"

text \<open>
  \<^verbatim>\<open>_spi_wait_s\<close>: the caller sleeps until the transfer is over, and the interrupt at its end wakes it.
\<close>

definition spi_wait_s ::
    "('c, ('c, 'z) spi_world_scheme) board \<Rightarrow> ('c, 'z) spi_world_scheme \<Rightarrow> ('c, 'z) spi_world_scheme" where
  "spi_wait_s B s =
     spi_isr_code B (asleep B (s\<lparr>spip := (spip s)\<lparr>sp_thread := Some (this_thread B)\<rparr>\<rparr>))"

definition spiIgnore ::
    "('c, ('c, 'z) spi_world_scheme) board \<Rightarrow> nat \<Rightarrow> ('c, 'z) spi_world_scheme \<Rightarrow> ('c, 'z) spi_world_scheme" where
  "spiIgnore B n s = spi_wait_s B (spiStartIgnoreI B n s)"

definition spiExchange ::
    "('c, ('c, 'z) spi_world_scheme) board \<Rightarrow> u8 list \<Rightarrow> ('c, 'z) spi_world_scheme
      \<Rightarrow> u8 list \<times> ('c, 'z) spi_world_scheme" where
  "spiExchange B txbuf s = (case spiStartExchangeI B txbuf s of (rx, s1) \<Rightarrow> (rx, spi_wait_s B s1))"

definition spiSend ::
    "('c, ('c, 'z) spi_world_scheme) board \<Rightarrow> u8 list \<Rightarrow> ('c, 'z) spi_world_scheme \<Rightarrow> ('c, 'z) spi_world_scheme" where
  "spiSend B txbuf s = spi_wait_s B (spiStartSendI B txbuf s)"

definition spiReceive ::
    "('c, ('c, 'z) spi_world_scheme) board \<Rightarrow> nat \<Rightarrow> ('c, 'z) spi_world_scheme
      \<Rightarrow> u8 list \<times> ('c, 'z) spi_world_scheme" where
  "spiReceive B n s = (case spiStartReceiveI B n s of (rx, s1) \<Rightarrow> (rx, spi_wait_s B s1))"

section \<open>What a call leaves\<close>

text \<open>
  Between calls the driver is ready, its configuration has no callback and nobody waits. Every
  synchronous call keeps this, if sleeping leaves the driver alone.
\<close>

definition spi_at_rest :: "spicfg \<Rightarrow> ('c, 'z) spi_world_scheme \<Rightarrow> bool" where
  "spi_at_rest cfg s \<longleftrightarrow>
     spip s = \<lparr>sp_state = SPI_READY, sp_config = Some cfg, sp_thread = None\<rparr> \<and> sc_end_cb cfg = None"

lemma length_shifts: "length (fst (shifts B xs c)) = length xs"
  by (induction xs arbitrary: c) (auto split: prod.splits, metis fst_conv)

lemma shifts_append:
  "shifts B (xs @ ys) c =
     (case shifts B xs c of (rs, c1) \<Rightarrow> case shifts B ys c1 of (qs, c2) \<Rightarrow> (rs @ qs, c2))"
  by (induction xs arbitrary: c) (simp_all split: prod.split)

lemma snd_shifts_Cons: "snd (shifts B (x # xs) c) = snd (shifts B xs (snd (shift_frame B x c)))"
  by (simp split: prod.split)

locale sleeper =
  fixes B :: "('c, ('c, 'z) spi_world_scheme) board"
  assumes keeps_spi: "spip (asleep B s) = spip s"
begin

lemma spi_isr_code_rest:
  assumes "sp_config (spip s) = Some cfg" "sc_end_cb cfg = None"
  shows "spi_isr_code B s = s\<lparr>spip := \<lparr>sp_state = SPI_READY, sp_config = Some cfg, sp_thread = None\<rparr>\<rparr>"
  using assms by (cases s, cases "spip s")
    (auto simp: spi_isr_code_def spi_wakeup_isr_def set_sp_state_def)

lemma spi_wait_rest:
  assumes "sp_config (spip s) = Some cfg" "sc_end_cb cfg = None"
  obtains q where "spi_wait_s B s = (asleep B (s\<lparr>spip := q\<rparr>))\<lparr>spip := \<lparr>sp_state = SPI_READY,
      sp_config = Some cfg, sp_thread = None\<rparr>\<rparr>" "sp_config q = Some cfg"
proof -
  let ?q = "(spip s)\<lparr>sp_thread := Some (this_thread B)\<rparr>"
  have "sp_config (spip (asleep B (s\<lparr>spip := ?q\<rparr>))) = Some cfg" using assms by (simp add: keeps_spi)
  from that[of ?q] spi_isr_code_rest[OF this assms(2)] show thesis using assms(1) by (simp add: spi_wait_s_def)
qed

lemma send_rest:
  assumes "spi_at_rest cfg s"
  shows "spi_at_rest cfg (spiSend B tx s)"
proof -
  let ?s = "spiStartSendI B tx s"
  have cfg: "sp_config (spip ?s) = Some cfg" "sc_end_cb cfg = None"
    using assms by (simp_all add: spi_at_rest_def spiStartSendI_def spi_lld_send_def set_sp_state_def)
  show ?thesis by (rule spi_wait_rest[OF cfg]) (simp add: spiSend_def spi_at_rest_def cfg)
qed

lemma ignore_rest:
  assumes "spi_at_rest cfg s"
  shows "spi_at_rest cfg (spiIgnore B n s)"
proof -
  let ?s = "spiStartIgnoreI B n s"
  have cfg: "sp_config (spip ?s) = Some cfg" "sc_end_cb cfg = None"
    using assms by (simp_all add: spi_at_rest_def spiStartIgnoreI_def spi_lld_ignore_def set_sp_state_def)
  show ?thesis by (rule spi_wait_rest[OF cfg]) (simp add: spiIgnore_def spi_at_rest_def cfg)
qed

lemma receive_rest:
  assumes "spi_at_rest cfg s"
  shows "spi_at_rest cfg (snd (spiReceive B n s))"
proof -
  obtain rx s1 where r: "spiStartReceiveI B n s = (rx, s1)" by (metis prod.exhaust)
  have cfg: "sp_config (spip s1) = Some cfg" "sc_end_cb cfg = None"
    using assms r by (auto simp: spi_at_rest_def spiStartReceiveI_def spi_lld_receive_def set_sp_state_def
        split: prod.splits)
  show ?thesis by (rule spi_wait_rest[OF cfg]) (simp add: spiReceive_def spi_at_rest_def cfg r)
qed

end

lemma start_rest: "sc_end_cb cfg = None \<Longrightarrow> sp_thread (spip s) = None \<Longrightarrow> spi_at_rest cfg (spiStart B cfg s)"
  by (cases "spip s") (simp add: spi_at_rest_def spiStart_def spi_lld_start_def set_sp_state_def Let_def)

lemma select_rest: "spi_at_rest cfg (spiSelect B s) = spi_at_rest cfg s"
  by (simp add: spi_at_rest_def spiSelect_def spi_lld_select_def Let_def)

lemma unselect_rest: "spi_at_rest cfg (spiUnselect B s) = spi_at_rest cfg s"
  by (simp add: spi_at_rest_def spiUnselect_def spi_lld_unselect_def Let_def)

end
