(* ===== verification/Crc7.thy ===== *)
theory Crc7
  imports Prelude
begin

text \<open>
  The CRC-7 of the commands to memory cards (\<^verbatim>\<open>os/hal/src/mmc_spi.c\<close>): the table-driven routine of
  the driver, its equality with the division bit by bit by $x^7 + x^3 + 1$, and the changes it detects.
\<close>

unbundle bit_operations_syntax

section \<open>The table\<close>

definition crc7_lookup_table :: "u8 list" where
  "crc7_lookup_table = [
    0x00, 0x09, 0x12, 0x1B, 0x24, 0x2D, 0x36, 0x3F, 0x48, 0x41, 0x5A, 0x53,
    0x6C, 0x65, 0x7E, 0x77, 0x19, 0x10, 0x0B, 0x02, 0x3D, 0x34, 0x2F, 0x26,
    0x51, 0x58, 0x43, 0x4A, 0x75, 0x7C, 0x67, 0x6E, 0x32, 0x3B, 0x20, 0x29,
    0x16, 0x1F, 0x04, 0x0D, 0x7A, 0x73, 0x68, 0x61, 0x5E, 0x57, 0x4C, 0x45,
    0x2B, 0x22, 0x39, 0x30, 0x0F, 0x06, 0x1D, 0x14, 0x63, 0x6A, 0x71, 0x78,
    0x47, 0x4E, 0x55, 0x5C, 0x64, 0x6D, 0x76, 0x7F, 0x40, 0x49, 0x52, 0x5B,
    0x2C, 0x25, 0x3E, 0x37, 0x08, 0x01, 0x1A, 0x13, 0x7D, 0x74, 0x6F, 0x66,
    0x59, 0x50, 0x4B, 0x42, 0x35, 0x3C, 0x27, 0x2E, 0x11, 0x18, 0x03, 0x0A,
    0x56, 0x5F, 0x44, 0x4D, 0x72, 0x7B, 0x60, 0x69, 0x1E, 0x17, 0x0C, 0x05,
    0x3A, 0x33, 0x28, 0x21, 0x4F, 0x46, 0x5D, 0x54, 0x6B, 0x62, 0x79, 0x70,
    0x07, 0x0E, 0x15, 0x1C, 0x23, 0x2A, 0x31, 0x38, 0x41, 0x48, 0x53, 0x5A,
    0x65, 0x6C, 0x77, 0x7E, 0x09, 0x00, 0x1B, 0x12, 0x2D, 0x24, 0x3F, 0x36,
    0x58, 0x51, 0x4A, 0x43, 0x7C, 0x75, 0x6E, 0x67, 0x10, 0x19, 0x02, 0x0B,
    0x34, 0x3D, 0x26, 0x2F, 0x73, 0x7A, 0x61, 0x68, 0x57, 0x5E, 0x45, 0x4C,
    0x3B, 0x32, 0x29, 0x20, 0x1F, 0x16, 0x0D, 0x04, 0x6A, 0x63, 0x78, 0x71,
    0x4E, 0x47, 0x5C, 0x55, 0x22, 0x2B, 0x30, 0x39, 0x06, 0x0F, 0x14, 0x1D,
    0x25, 0x2C, 0x37, 0x3E, 0x01, 0x08, 0x13, 0x1A, 0x6D, 0x64, 0x7F, 0x76,
    0x49, 0x40, 0x5B, 0x52, 0x3C, 0x35, 0x2E, 0x27, 0x18, 0x11, 0x0A, 0x03,
    0x74, 0x7D, 0x66, 0x6F, 0x50, 0x59, 0x42, 0x4B, 0x17, 0x1E, 0x05, 0x0C,
    0x33, 0x3A, 0x21, 0x28, 0x5F, 0x56, 0x4D, 0x44, 0x7B, 0x72, 0x69, 0x60,
    0x0E, 0x07, 0x1C, 0x15, 0x2A, 0x23, 0x38, 0x31, 0x46, 0x4F, 0x54, 0x5D,
    0x62, 0x6B, 0x70, 0x79]"

text \<open>
  \<^verbatim>\<open>(crc << 1) ^ (*buffer++)\<close> is computed as an int.
\<close>

definition crc7_index :: "u8 \<Rightarrow> u8 \<Rightarrow> nat" where
  "crc7_index crc b = (push_bit 1 (unat crc)) XOR (unat b)"

fun crc7 :: "u8 \<Rightarrow> u8 list \<Rightarrow> u8" where
  "crc7 crc [] = crc"
| "crc7 crc (b # buffer) = crc7 (crc7_lookup_table ! crc7_index crc b) buffer"

section \<open>The reference: one bit at a time\<close>

definition crc7_bit :: "u8 \<Rightarrow> bool \<Rightarrow> u8" where
  "crc7_bit crc x = (if bit crc 6 \<noteq> x then push_bit 1 crc XOR 0x09 else push_bit 1 crc) AND 0x7F"

fun crc7_bits :: "u8 \<Rightarrow> bool list \<Rightarrow> u8" where
  "crc7_bits crc [] = crc"
| "crc7_bits crc (x # xs) = crc7_bits (crc7_bit crc x) xs"

definition msb_first :: "u8 \<Rightarrow> bool list" where
  "msb_first b = map (bit b) [7, 6, 5, 4, 3, 2, 1, 0]"

definition crc7_byte :: "u8 \<Rightarrow> u8 \<Rightarrow> u8" where
  "crc7_byte crc b = crc7_bits crc (msb_first b)"

lemma crc7_bit_linear: "crc7_bit (c XOR d) (x \<noteq> y) = crc7_bit c x XOR crc7_bit d y"
  by (rule bit_word_eqI) (auto simp: crc7_bit_def bit_simps)

lemma crc7_bits_linear:
  "length xs = length ys \<Longrightarrow>
     crc7_bits (c XOR d) (map2 (\<lambda>x y. x \<noteq> y) xs ys) = crc7_bits c xs XOR crc7_bits d ys"
proof (induction xs ys arbitrary: c d rule: list_induct2)
  case (Cons x xs y ys)
  then show ?case using crc7_bit_linear[of c d x y] by simp
qed simp

lemma msb_first_xor: "msb_first (a XOR b) = map2 (\<lambda>x y. x \<noteq> y) (msb_first a) (msb_first b)"
  by (simp add: msb_first_def bit_simps)

lemma crc7_byte_linear: "crc7_byte (c XOR d) (a XOR b) = crc7_byte c a XOR crc7_byte d b"
  unfolding crc7_byte_def msb_first_xor by (rule crc7_bits_linear) (simp add: msb_first_def)

section \<open>The table holds the remainders\<close>

text \<open>
  The remainder is linear over exclusive or, so a table of remainders is spanned by those of
  the powers of two.
\<close>

fun span :: "'a::len word list \<Rightarrow> 'a word list" where
  "span [] = [0]"
| "span (b # bs) = (let r = span bs in r @ map (\<lambda>x. b XOR x) r)"

lemma crc7_table_span: "crc7_lookup_table = span [0x41, 0x64, 0x32, 0x19, 0x48, 0x24, 0x12, 0x09]"
  unfolding crc7_lookup_table_def by (simp add: Let_def)
lemma length_span [simp]: "length (span bs) = 2 ^ length bs"
  by (induction bs) (simp_all add: Let_def)

definition powers :: "nat \<Rightarrow> 'a::len word list" where
  "powers k = map (\<lambda>i. 2 ^ i) (rev [0..<k])"

lemma of_nat_add_power:
  assumes "n < 2 ^ k"
  shows "(of_nat (2 ^ k + n) :: 'a::len word) = 2 ^ k XOR of_nat n"
proof -
  have "(2 ^ k :: nat) AND n = 0"
  proof (rule bit_eqI)
    fix i
    have "\<not> bit n k" using assms by (simp add: bit_iff_odd)
    then show "bit ((2 ^ k :: nat) AND n) i = bit (0 :: nat) i"
      by (auto simp: bit_simps)
  qed
  then have "(2 ^ k :: nat) + n = 2 ^ k XOR n" by (rule disjunctive_add_eq_xor)
  then have "(of_nat (2 ^ k + n) :: 'a word) = of_nat (2 ^ k XOR n)" by simp
  then show ?thesis by (simp add: of_nat_xor_eq)
qed

lemma span_powers:
  assumes lin: "\<And>a b. f (a XOR b) = f a XOR f b"
  shows "n < 2 ^ k \<Longrightarrow> span (map f (powers k)) ! n = f (of_nat n)"
proof (induction k arbitrary: n)
  case 0
  have "f 0 = 0" using lin[of 0 0] by simp
  with 0 show ?case by (simp add: powers_def)
next
  case (Suc k)
  let ?r = "span (map f (powers k))"
  have len: "length ?r = 2 ^ k" by (simp add: powers_def)
  have span: "span (map f (powers (Suc k))) = ?r @ map (\<lambda>x. f (2 ^ k) XOR x) ?r"
    by (simp add: powers_def Let_def)
  show ?case
  proof (cases "n < 2 ^ k")
    case True
    then show ?thesis using Suc.IH[OF True] len by (simp add: span nth_append)
  next
    case False
    then obtain m where n: "n = 2 ^ k + m" using le_Suc_ex not_less by blast
    with Suc.prems have m: "m < 2 ^ k" by simp
    then show ?thesis
      using Suc.IH[OF m] len lin unfolding n of_nat_add_power[OF m] by (simp add: span nth_append)
  qed
qed

lemma powers_8: "(powers 8 :: u8 list) = [128, 64, 32, 16, 8, 4, 2, 1]"
  by (simp add: powers_def upt_rec)

lemma crc7_basis:
  "map (crc7_byte 0) [128, 64, 32, 16, 8, 4, 2, 1] = [0x41, 0x64, 0x32, 0x19, 0x48, 0x24, 0x12, 0x09]"
  by (simp add: crc7_byte_def msb_first_def crc7_bit_def)

lemma crc7_table:
  assumes "n < 256"
  shows "crc7_lookup_table ! n = crc7_byte 0 (of_nat n)"
proof -
  have "span (map (crc7_byte 0) (powers 8)) ! n = crc7_byte 0 (of_nat n)"
    by (rule span_powers) (use assms crc7_byte_linear[of 0 0] in simp_all)
  then show ?thesis unfolding powers_8 crc7_basis crc7_table_span .
qed

lemma powers_7: "(powers 7 :: u8 list) = [64, 32, 16, 8, 4, 2, 1]"
  by (simp add: powers_def upt_rec)

lemma crc7_shifted:
  assumes "unat c < 128"
  shows "crc7_byte c 0 = crc7_byte 0 (push_bit 1 c)"
proof -
  let ?f = "\<lambda>c. crc7_byte c 0" and ?g = "\<lambda>c. crc7_byte 0 (push_bit 1 c)"
  have e: "map ?f (powers 7) = map ?g (powers 7)"
    by (simp add: powers_7 crc7_byte_def msb_first_def crc7_bit_def)
  have "span (map ?f (powers 7)) ! unat c = ?f (of_nat (unat c))"
    by (rule span_powers) (use assms crc7_byte_linear[of _ _ 0 0] in simp_all)
  then have "span (map ?g (powers 7)) ! unat c = ?f (of_nat (unat c))" unfolding e .
  moreover have "span (map ?g (powers 7)) ! unat c = ?g (of_nat (unat c))"
    by (rule span_powers) (use assms crc7_byte_linear[of 0 0] in \<open>simp_all add: push_bit_xor\<close>)
  ultimately have "?f (of_nat (unat c)) = ?g (of_nat (unat c))" by (rule trans[OF sym])
  then show ?thesis by simp
qed

lemma unat_push_bit_1: "unat c < 128 \<Longrightarrow> unat (push_bit 1 (c :: u8)) = push_bit 1 (unat c)"
  by (simp add: push_bit_eq_mult unat_word_ariths)

lemma crc7_index_word: "unat c < 128 \<Longrightarrow> crc7_index c b = unat (push_bit 1 c XOR b)"
  unfolding crc7_index_def unsigned_xor_eq by (simp only: unat_push_bit_1)

lemma crc7_index_bound: "unat c < 128 \<Longrightarrow> crc7_index c b < 256"
  using u8_bound[of "push_bit 1 c XOR b"] by (simp add: crc7_index_word)

lemma crc7_step:
  assumes "unat c < 128"
  shows "crc7_lookup_table ! crc7_index c b = crc7_byte c b"
proof -
  have "crc7_lookup_table ! crc7_index c b = crc7_byte 0 (push_bit 1 c XOR b)"
    using crc7_table[OF crc7_index_bound[OF assms]] by (simp add: crc7_index_word[OF assms])
  also have "\<dots> = crc7_byte 0 (push_bit 1 c) XOR crc7_byte 0 b"
    using crc7_byte_linear[of 0 0] by simp
  also have "\<dots> = crc7_byte c 0 XOR crc7_byte 0 b" using crc7_shifted[OF assms] by simp
  also have "\<dots> = crc7_byte c b" using crc7_byte_linear[of c 0 0 b] by simp
  finally show ?thesis .
qed

lemma and_7F: "unat (x AND 0x7F :: u8) < 128"
proof -
  have "x AND 0x7F \<le> 0x7F" by (rule word_and_le1)
  then show ?thesis by (simp add: word_le_nat_alt)
qed

lemma crc7_byte_bound: "unat (crc7_byte c b) < 128"
  by (simp add: crc7_byte_def msb_first_def crc7_bit_def and_7F)

section \<open>Whole buffers\<close>

definition crc7_reference :: "u8 \<Rightarrow> u8 list \<Rightarrow> u8" where
  "crc7_reference crc buf = crc7_bits crc (concat (map msb_first buf))"

lemma crc7_bits_append: "crc7_bits c (xs @ ys) = crc7_bits (crc7_bits c xs) ys"
  by (induction xs arbitrary: c) simp_all

lemma crc7_is_reference: "unat c < 128 \<Longrightarrow> crc7 c buf = crc7_reference c buf"
  by (induction buf arbitrary: c)
    (simp_all add: crc7_reference_def crc7_step crc7_byte_bound crc7_bits_append flip: crc7_byte_def)

lemma crc7_bound: "unat c < 128 \<Longrightarrow> unat (crc7 c buf) < 128"
  by (induction buf arbitrary: c) (simp_all add: crc7_step crc7_byte_bound)

section \<open>Detected changes\<close>

fun zeros :: "nat \<Rightarrow> u8 list \<Rightarrow> nat list" where
  "zeros n [] = []"
| "zeros n (x # xs) = (if x = 0 then n # zeros (n + 1) xs else zeros (n + 1) xs)"

lemma in_zeros: "i < length xs \<Longrightarrow> xs ! i = 0 \<Longrightarrow> n + i \<in> set (zeros n xs)"
proof (induction n xs arbitrary: i rule: zeros.induct)
  case (2 n x xs)
  then show ?case by (cases i) fastforce+
qed simp

lemma crc7_table_zeros: "zeros 0 crc7_lookup_table = [0, 137]"
  by (simp add: crc7_lookup_table_def)

lemma crc7_byte_zero: "crc7_byte 0 b = 0 \<longleftrightarrow> b = 0 \<or> b = 0x89"
proof
  assume "crc7_byte 0 b = 0"
  then have "crc7_lookup_table ! unat b = 0" using crc7_table[of "unat b"] u8_bound[of b] by simp
  moreover have "unat b < length crc7_lookup_table" using u8_bound[of b] by (simp add: crc7_table_span)
  ultimately have "unat b \<in> {0, 137}" using in_zeros[of "unat b" crc7_lookup_table 0] by (simp add: crc7_table_zeros)
  then have "unat b = unat (0 :: u8) \<or> unat b = unat (0x89 :: u8)" by simp
  then show "b = 0 \<or> b = 0x89" by (simp only: unsigned_word_eqI word_unat_eq_iff)
next
  assume "b = 0 \<or> b = 0x89"
  then show "crc7_byte 0 b = 0" by (auto simp: crc7_byte_def msb_first_def crc7_bit_def)
qed

lemma xor_eq_0: "a XOR b = 0 \<longleftrightarrow> a = (b :: 'a::len word)"
proof
  assume "a XOR b = 0"
  then have "(a XOR b) XOR b = b" by simp
  then show "a = b" unfolding xor.assoc by simp
qed simp

lemma crc7_byte_collision: "crc7_byte c a = crc7_byte c b \<longleftrightarrow> a = b \<or> a XOR b = 0x89"
proof -
  have "crc7_byte c a = crc7_byte c b \<longleftrightarrow> crc7_byte c a XOR crc7_byte c b = 0" by (simp add: xor_eq_0)
  also have "\<dots> \<longleftrightarrow> crc7_byte 0 (a XOR b) = 0" using crc7_byte_linear[of c c a b] by simp
  finally show ?thesis by (simp add: crc7_byte_zero xor_eq_0)
qed

lemma xor_less_128:
  assumes "unat (c :: u8) < 128" "unat d < 128"
  shows "unat (c XOR d) < 128"
proof -
  have "take_bit 7 (unat c XOR unat d) = unat c XOR unat d"
    using assms by (simp add: take_bit_xor take_bit_nat_eq_self)
  then show ?thesis using take_bit_nat_less_exp[of 7 "unat c XOR unat d"] by (simp add: unsigned_xor_eq)
qed

lemma crc7_byte_inj:
  assumes "crc7_byte c b = crc7_byte d b" "unat c < 128" "unat d < 128"
  shows "c = d"
proof -
  let ?x = "c XOR d"
  have x: "unat ?x < 128" using assms(2,3) by (rule xor_less_128)
  have "crc7_byte ?x 0 = 0" using crc7_byte_linear[of c d b b] assms(1) by simp
  then have "push_bit 1 ?x = 0 \<or> push_bit 1 ?x = 0x89" using crc7_shifted[OF x] crc7_byte_zero by simp
  then have "push_bit 1 (unat ?x) = 0 \<or> push_bit 1 (unat ?x) = 137" using unat_push_bit_1[OF x] by auto
  then have "unat ?x = 0" by (auto simp: push_bit_eq_mult) presburger
  then show ?thesis by (simp add: xor_eq_0 unat_eq_zero)
qed

lemma crc7_inj: "unat c < 128 \<Longrightarrow> unat d < 128 \<Longrightarrow> crc7 c buf = crc7 d buf \<Longrightarrow> c = d"
proof (induction buf arbitrary: c d)
  case (Cons b buf)
  then have "crc7_byte c b = crc7_byte d b" by (simp add: crc7_step crc7_byte_bound)
  with Cons.prems show ?case by (blast intro: crc7_byte_inj)
qed simp

lemma crc7_append: "crc7 c (xs @ ys) = crc7 (crc7 c xs) ys"
  by (induction xs arbitrary: c) simp_all

text \<open>A change of one byte goes undetected only if it is the pattern of the polynomial itself.\<close>

lemma crc7_detects:
  assumes "unat c < 128"
  shows "crc7 c (xs @ a # ys) = crc7 c (xs @ b # ys) \<longleftrightarrow> a = b \<or> a XOR b = 0x89"
proof -
  have k: "unat (crc7 c xs) < 128" using assms by (rule crc7_bound)
  have "crc7 c (xs @ a # ys) = crc7 c (xs @ b # ys)
      \<longleftrightarrow> crc7 (crc7_byte (crc7 c xs) a) ys = crc7 (crc7_byte (crc7 c xs) b) ys"
    by (simp add: crc7_append crc7_step[OF k])
  also have "\<dots> \<longleftrightarrow> crc7_byte (crc7 c xs) a = crc7_byte (crc7 c xs) b"
    using crc7_inj[OF crc7_byte_bound crc7_byte_bound] by auto
  finally show ?thesis by (simp add: crc7_byte_collision)
qed

end
