(* ===== verification/Mmc.thy ===== *)
theory Mmc
  imports Spi Crc7 VirtualTimers Events
begin

text \<open>
  The driver for memory cards on the SPI bus (\<^verbatim>\<open>os/hal/src/mmc_spi.c\<close>): the monitor that polls
  the insertion switch from a virtual timer, the commands with their CRC-7, connecting,
  disconnecting, and reading and writing sequences of blocks.

  The state is the SPI driver and the card (\<^theory_text>\<open>spi_world\<close>), extended by the driver object and the kernel. Interrupts
  act on it while the thread sleeps in a transfer or in \<^verbatim>\<open>chThdSleep\<close>; the driver reads the fields that the
  monitor writes only in critical sections or right after a transfer. A call that waits for the
  card without a limit gives \<open>None\<close> if the card never answers. \<open>True\<close> is the result of a
  call that failed, as in the code.
\<close>

unbundle bit_operations_syntax

section \<open>The driver object\<close>

datatype mmcstate = MMC_UNINIT | MMC_STOP | MMC_WAIT | MMC_INSERTED | MMC_READY | MMC_READING | MMC_WRITING

record 'c mmc =
  mmc_state :: mmcstate
  lscfg :: spicfg
  hscfg :: spicfg
  is_protected :: "'c \<Rightarrow> bool"
  is_inserted :: "'c \<Rightarrow> bool"
  inserted_event :: nat
  removed_event :: nat
  mmc_vt :: vtid
  mmc_cnt :: u32
  block_addresses :: bool

record 'c sd = "'c spi_world" +
  mmcp :: "'c mmc"
  kern :: kernel

definition MMC_CMD0_RETRY :: nat where "MMC_CMD0_RETRY = 10"
definition MMC_CMD1_RETRY :: nat where "MMC_CMD1_RETRY = 100"
definition MMC_ACMD41_RETRY :: nat where "MMC_ACMD41_RETRY = 100"
definition MMC_WAIT_DATA :: nat where "MMC_WAIT_DATA = 10000"
definition MMC_SECTOR_SIZE :: nat where "MMC_SECTOR_SIZE = 512"
definition MMC_POLLING_INTERVAL :: u32 where "MMC_POLLING_INTERVAL = 10"
definition MMC_POLLING_DELAY :: u32 where "MMC_POLLING_DELAY = 10"

definition MMC_CMDGOIDLE :: u8 where "MMC_CMDGOIDLE = 0"
definition MMC_CMDINIT :: u8 where "MMC_CMDINIT = 1"
definition MMC_CMDINTERFACE_CONDITION :: u8 where "MMC_CMDINTERFACE_CONDITION = 8"
definition MMC_CMDSTOP :: u8 where "MMC_CMDSTOP = 12"
definition MMC_CMDSETBLOCKLEN :: u8 where "MMC_CMDSETBLOCKLEN = 16"
definition MMC_CMDREADMULTIPLE :: u8 where "MMC_CMDREADMULTIPLE = 18"
definition MMC_CMDWRITEMULTIPLE :: u8 where "MMC_CMDWRITEMULTIPLE = 25"
definition MMC_CMDAPP :: u8 where "MMC_CMDAPP = 55"
definition MMC_CMDREADOCR :: u8 where "MMC_CMDREADOCR = 58"
definition MMC_ACMDOPCONDITION :: u8 where "MMC_ACMDOPCONDITION = 41"

definition MS2ST :: "u32 \<Rightarrow> u32" where "MS2ST msec = (msec - 1) * 1000 div 1000 + 1"

definition set_mmc :: "('c mmc \<Rightarrow> 'c mmc) \<Rightarrow> 'c sd \<Rightarrow> 'c sd" where
  "set_mmc f s = s\<lparr>mmcp := f (mmcp s)\<rparr>"

definition set_mmc_state :: "mmcstate \<Rightarrow> 'c sd \<Rightarrow> 'c sd" where
  "set_mmc_state st s = s\<lparr>mmcp := (mmcp s)\<lparr>mmc_state := st\<rparr>\<rparr>"

section \<open>The monitor\<close>

definition tmrfunc_id :: vtfunc where "tmrfunc_id = VF_user 1"

definition monitor_arm :: "'c sd \<Rightarrow> 'c sd" where
  "monitor_arm s =
     s\<lparr>kern := chVTSetI (mmc_vt (mmcp s)) (MS2ST MMC_POLLING_DELAY) tmrfunc_id (VP_val 0) (kern s)\<rparr>"

definition tmrfunc :: "'c sd \<Rightarrow> 'c sd" where
  "tmrfunc s =
     (let d = mmcp s;
          s1 = (if 0 < mmc_cnt d then
                  (if is_inserted d (slave s) then
                     (let d1 = d\<lparr>mmc_cnt := mmc_cnt d - 1\<rparr>
                      in if mmc_cnt d1 = 0
                         then s\<lparr>mmcp := d1\<lparr>mmc_state := MMC_INSERTED\<rparr>,
                                kern := chEvtBroadcastFlagsI (inserted_event d) 0 (kern s)\<rparr>
                         else s\<lparr>mmcp := d1\<rparr>)
                   else s\<lparr>mmcp := d\<lparr>mmc_cnt := MMC_POLLING_INTERVAL\<rparr>\<rparr>)
                else
                  (if \<not> is_inserted d (slave s)
                   then s\<lparr>mmcp := d\<lparr>mmc_state := MMC_WAIT, mmc_cnt := MMC_POLLING_INTERVAL\<rparr>,
                          kern := chEvtBroadcastFlagsI (removed_event d) 0 (kern s)\<rparr>
                   else s))
      in monitor_arm s1)"

text \<open>
  The expiry of the timer: the kernel takes it off the list and disarms it before it calls
  \<^verbatim>\<open>tmrfunc\<close> (see \<^const>\<open>vt_fire1\<close>).
\<close>

definition monitor_expire :: "'c sd \<Rightarrow> 'c sd" where
  "monitor_expire s =
     (let v = mmc_vt (mmcp s); k = kern s
      in tmrfunc (s\<lparr>kern := k\<lparr>vt_func := (vt_func k)(v := None), vt_list := remove1 v (vt_list k)\<rparr>\<rparr>))"

section \<open>Commands\<close>

text \<open>\<^verbatim>\<open>chThdSleep\<close>: time passes, and with it interrupts come.\<close>

definition nap :: "('c, 's) board \<Rightarrow> 's \<Rightarrow> 's" where
  "nap B s = asleep B s"

fun wait_short :: "nat \<Rightarrow> ('c, 'c sd) board \<Rightarrow> 'c sd \<Rightarrow> bool \<times> 'c sd" where
  "wait_short 0 B s = (False, s)"
| "wait_short (Suc i) B s =
     (case spiReceive B 1 s of (buf, s1) \<Rightarrow> if buf ! 0 = 0xFF then (True, s1) else wait_short i B s1)"

partial_function (option) wait_long :: "('c, 'c sd) board \<Rightarrow> 'c sd \<Rightarrow> 'c sd option" where
  "wait_long B s =
     (case spiReceive B 1 s of (buf, s1) \<Rightarrow> if buf ! 0 = 0xFF then Some s1 else wait_long B (nap B s1))"

definition wait :: "('c, 'c sd) board \<Rightarrow> 'c sd \<Rightarrow> 'c sd option" where
  "wait B s = (case wait_short 16 B s of (idle, s1) \<Rightarrow> if idle then Some s1 else wait_long B s1)"

definition hdr :: "u8 \<Rightarrow> u32 \<Rightarrow> u8 list" where
  "hdr cmd arg =
     (let buf = [0x40 OR cmd, ucast (drop_bit 24 arg), ucast (drop_bit 16 arg), ucast (drop_bit 8 arg), ucast arg]
      in buf @ [push_bit 1 (crc7 0 buf AND 0x7F) OR 0x01])"

definition send_hdr :: "('c, 'c sd) board \<Rightarrow> u8 \<Rightarrow> u32 \<Rightarrow> 'c sd \<Rightarrow> 'c sd option" where
  "send_hdr B cmd arg s =
     (case wait B s of None \<Rightarrow> None | Some s1 \<Rightarrow> Some (spiSend B (hdr cmd arg) s1))"

fun recvr1_loop :: "nat \<Rightarrow> ('c, 'c sd) board \<Rightarrow> 'c sd \<Rightarrow> u8 \<times> 'c sd" where
  "recvr1_loop 0 B s = (0xFF, s)"
| "recvr1_loop (Suc i) B s =
     (case spiReceive B 1 s of (r1, s1) \<Rightarrow> if r1 ! 0 \<noteq> 0xFF then (r1 ! 0, s1) else recvr1_loop i B s1)"

definition recvr1 :: "('c, 'c sd) board \<Rightarrow> 'c sd \<Rightarrow> u8 \<times> 'c sd" where
  "recvr1 B s = recvr1_loop 9 B s"

definition recvr3 :: "('c, 'c sd) board \<Rightarrow> 'c sd \<Rightarrow> (u8 \<times> u8 list) \<times> 'c sd" where
  "recvr3 B s = (case recvr1 B s of (r1, s1) \<Rightarrow> case spiReceive B 4 s1 of (buffer, s2) \<Rightarrow> ((r1, buffer), s2))"

definition send_command_R1 :: "('c, 'c sd) board \<Rightarrow> u8 \<Rightarrow> u32 \<Rightarrow> 'c sd \<Rightarrow> (u8 \<times> 'c sd) option" where
  "send_command_R1 B cmd arg s =
     (case send_hdr B cmd arg (spiSelect B s) of
        None \<Rightarrow> None
      | Some s1 \<Rightarrow> (case recvr1 B s1 of (r1, s2) \<Rightarrow> Some (r1, spiUnselect B s2)))"

definition send_command_R3 :: "('c, 'c sd) board \<Rightarrow> u8 \<Rightarrow> u32 \<Rightarrow> 'c sd \<Rightarrow> ((u8 \<times> u8 list) \<times> 'c sd) option" where
  "send_command_R3 B cmd arg s =
     (case send_hdr B cmd arg (spiSelect B s) of
        None \<Rightarrow> None
      | Some s1 \<Rightarrow> (case recvr3 B s1 of (r, s2) \<Rightarrow> Some (r, spiUnselect B s2)))"

definition sync :: "('c, 'c sd) board \<Rightarrow> 'c sd \<Rightarrow> 'c sd option" where
  "sync B s = map_option (spiUnselect B) (wait_long B (spiSelect B s))"

section \<open>Starting and stopping\<close>

definition mmcObjectInit :: "spicfg \<Rightarrow> spicfg \<Rightarrow> ('c \<Rightarrow> bool) \<Rightarrow> ('c \<Rightarrow> bool) \<Rightarrow> 'c sd \<Rightarrow> 'c sd" where
  "mmcObjectInit ls hs prot ins s =
     s\<lparr>mmcp := (mmcp s)\<lparr>mmc_state := MMC_STOP, lscfg := ls, hscfg := hs, is_protected := prot,
                 is_inserted := ins, block_addresses := False\<rparr>,
       kern := chEvtInit (removed_event (mmcp s)) (chEvtInit (inserted_event (mmcp s)) (kern s))\<rparr>"

definition mmcStart :: "'c sd \<Rightarrow> 'c sd" where
  "mmcStart s =
     monitor_arm (set_mmc (\<lambda>d. d\<lparr>mmc_state := MMC_WAIT, mmc_cnt := MMC_POLLING_INTERVAL\<rparr>) s)"

definition mmcStop :: "('c, 'c sd) board \<Rightarrow> 'c sd \<Rightarrow> 'c sd" where
  "mmcStop B s =
     spiStop B
       (if mmc_state (mmcp s) \<noteq> MMC_STOP
        then (set_mmc_state MMC_STOP s)\<lparr>kern := chVTResetI (mmc_vt (mmcp s)) (kern s)\<rparr> else s)"

section \<open>Connecting\<close>

text \<open>\<open>i\<close> is the number of tries that are left.\<close>

fun go_idle :: "nat \<Rightarrow> ('c, 'c sd) board \<Rightarrow> 'c sd \<Rightarrow> (bool \<times> 'c sd) option" where
  "go_idle i B s =
     (case send_command_R1 B MMC_CMDGOIDLE 0 s of
        None \<Rightarrow> None
      | Some (r, s1) \<Rightarrow>
          if r = 0x01 then Some (False, s1)
          else if i \<le> 1 then Some (True, s1)
          else go_idle (i - 1) B (nap B s1))"

fun switch_sdhc :: "nat \<Rightarrow> ('c, 'c sd) board \<Rightarrow> 'c sd \<Rightarrow> (bool \<times> 'c sd) option" where
  "switch_sdhc i B s =
     (case send_command_R1 B MMC_CMDAPP 0 s of
        None \<Rightarrow> None
      | Some (r, s1) \<Rightarrow>
         (case (if r = 0x01
                then map_option (\<lambda>((q, b), s2). (q = 0x00, s2))
                       (send_command_R3 B MMC_ACMDOPCONDITION 0x400001aa s1)
                else Some (False, s1)) of
            None \<Rightarrow> None
          | Some (done1, s2) \<Rightarrow>
              if done1 then Some (False, s2)
              else if i \<le> 1 then Some (True, s2)
              else switch_sdhc (i - 1) B (nap B s2)))"

fun init_card :: "nat \<Rightarrow> ('c, 'c sd) board \<Rightarrow> 'c sd \<Rightarrow> (bool \<times> 'c sd) option" where
  "init_card i B s =
     (case send_command_R1 B MMC_CMDINIT 0 s of
        None \<Rightarrow> None
      | Some (b, s1) \<Rightarrow>
          if b = 0x00 then Some (False, s1)
          else if b \<noteq> 0x01 then Some (True, s1)
          else if i \<le> 1 then Some (True, s1)
          else init_card (i - 1) B (nap B s1))"

declare go_idle.simps [simp del] switch_sdhc.simps [simp del] init_card.simps [simp del]

definition detect_sdhc :: "('c, 'c sd) board \<Rightarrow> 'c sd \<Rightarrow> (bool \<times> 'c sd) option" where
  "detect_sdhc B s =
     (case send_command_R3 B MMC_CMDINTERFACE_CONDITION 0x01AA s of
        None \<Rightarrow> None
      | Some ((r, r3), s1) \<Rightarrow>
          if r \<noteq> 0x05 then
            (case switch_sdhc MMC_ACMD41_RETRY B s1 of
               None \<Rightarrow> None
             | Some (True, s2) \<Rightarrow> Some (True, s2)
             | Some (False, s2) \<Rightarrow>
                 map_option (\<lambda>((q, ocr), s3).
                     (False, if ocr ! 0 AND 0x40 \<noteq> 0 then set_mmc (\<lambda>d. d\<lparr>block_addresses := True\<rparr>) s3 else s3))
                   (send_command_R3 B MMC_CMDREADOCR 0 s2))
          else Some (False, s1))"

definition set_ready :: "'c sd \<Rightarrow> bool \<times> 'c sd" where
  "set_ready s =
     (if mmc_state (mmcp s) = MMC_INSERTED then (False, set_mmc_state MMC_READY s) else (True, s))"

definition finish_connect :: "('c, 'c sd) board \<Rightarrow> 'c sd \<Rightarrow> (bool \<times> 'c sd) option" where
  "finish_connect B s =
     map_option (\<lambda>(r, s1). if r \<noteq> 0x00 then (True, s1) else set_ready s1)
       (send_command_R1 B MMC_CMDSETBLOCKLEN (of_nat MMC_SECTOR_SIZE) (spiStart B (hscfg (mmcp s)) s))"

definition mmcConnect :: "('c, 'c sd) board \<Rightarrow> 'c sd \<Rightarrow> (bool \<times> 'c sd) option" where
  "mmcConnect B s =
     (if mmc_state (mmcp s) = MMC_INSERTED then
        (case go_idle MMC_CMD0_RETRY B (spiIgnore B 16 (spiStart B (lscfg (mmcp s)) s)) of
           None \<Rightarrow> None
         | Some (True, s1) \<Rightarrow> Some (True, s1)
         | Some (False, s1) \<Rightarrow>
             (case detect_sdhc B s1 of
                None \<Rightarrow> None
              | Some (True, s2) \<Rightarrow> Some (True, s2)
              | Some (False, s2) \<Rightarrow>
                  (case init_card MMC_CMD1_RETRY B s2 of
                     None \<Rightarrow> None
                   | Some (True, s3) \<Rightarrow> Some (True, s3)
                   | Some (False, s3) \<Rightarrow> finish_connect B s3)))
      else Some (mmc_state (mmcp s) \<noteq> MMC_READY, s))"

text \<open>
  The \<^verbatim>\<open>switch\<close> of \<^verbatim>\<open>mmcDisconnect\<close> has no \<^verbatim>\<open>break\<close>: every case ends in \<^verbatim>\<open>status = TRUE\<close>.
\<close>

definition back_to :: "mmcstate \<Rightarrow> mmcstate \<Rightarrow> 'c sd \<Rightarrow> 'c sd" where
  "back_to old new s = (if mmc_state (mmcp s) = old then set_mmc_state new s else s)"

definition mmcDisconnect :: "('c, 'c sd) board \<Rightarrow> 'c sd \<Rightarrow> (bool \<times> 'c sd) option" where
  "mmcDisconnect B s =
     map_option (\<lambda>s1. (True, spiStop B s1))
       (if mmc_state (mmcp s) = MMC_READY
        then map_option (back_to MMC_READY MMC_INSERTED) (sync B s) else Some s)"

section \<open>Sequences of blocks\<close>

definition block_arg :: "'c sd \<Rightarrow> u32 \<Rightarrow> u32" where
  "block_arg s startblk =
     (if block_addresses (mmcp s) then startblk else startblk * of_nat MMC_SECTOR_SIZE)"

definition start_sequence ::
    "mmcstate \<Rightarrow> u8 \<Rightarrow> ('c, 'c sd) board \<Rightarrow> u32 \<Rightarrow> 'c sd \<Rightarrow> (bool \<times> 'c sd) option" where
  "start_sequence st cmd B startblk s =
     (if mmc_state (mmcp s) \<noteq> MMC_READY then Some (True, s)
      else
        (let s1 = set_mmc_state st s;
             s2 = spiSelect B (spiStart B (hscfg (mmcp s1)) s1)
         in case send_hdr B cmd (block_arg s2 startblk) s2 of
              None \<Rightarrow> None
            | Some s3 \<Rightarrow>
                (case recvr1 B s3 of (r, s4) \<Rightarrow>
                   Some (if r \<noteq> 0x00 then (True, back_to st MMC_READY (spiUnselect B s4)) else (False, s4)))))"

definition mmcStartSequentialRead :: "('c, 'c sd) board \<Rightarrow> u32 \<Rightarrow> 'c sd \<Rightarrow> (bool \<times> 'c sd) option" where
  "mmcStartSequentialRead = start_sequence MMC_READING MMC_CMDREADMULTIPLE"

definition mmcStartSequentialWrite :: "('c, 'c sd) board \<Rightarrow> u32 \<Rightarrow> 'c sd \<Rightarrow> (bool \<times> 'c sd) option" where
  "mmcStartSequentialWrite = start_sequence MMC_WRITING MMC_CMDWRITEMULTIPLE"

text \<open>The bytes received replace the front of the buffer.\<close>

fun read_block :: "nat \<Rightarrow> ('c, 'c sd) board \<Rightarrow> u8 list \<Rightarrow> 'c sd \<Rightarrow> (bool \<times> u8 list) \<times> 'c sd" where
  "read_block i B buffer s =
     (if i = 0 then ((True, buffer), back_to MMC_READING MMC_READY (spiUnselect B s))
      else
        (case spiReceive B 1 s of (b, s1) \<Rightarrow>
           if b ! 0 = 0xFE then
             (case spiReceive B MMC_SECTOR_SIZE s1 of (dat, s2) \<Rightarrow>
                ((False, dat @ drop MMC_SECTOR_SIZE buffer), spiIgnore B 2 s2))
           else read_block (i - 1) B (buffer[0 := b ! 0]) s1))"

declare read_block.simps [simp del]

definition mmcSequentialRead :: "('c, 'c sd) board \<Rightarrow> u8 list \<Rightarrow> 'c sd \<Rightarrow> (bool \<times> u8 list) \<times> 'c sd" where
  "mmcSequentialRead B buffer s =
     (if mmc_state (mmcp s) \<noteq> MMC_READING then ((True, buffer), s) else read_block MMC_WAIT_DATA B buffer s)"

definition stopcmd :: "u8 list" where "stopcmd = [0x40 OR MMC_CMDSTOP, 0, 0, 0, 0, 1, 0xFF]"

definition mmcStopSequentialRead :: "('c, 'c sd) board \<Rightarrow> 'c sd \<Rightarrow> bool \<times> 'c sd" where
  "mmcStopSequentialRead B s =
     (if mmc_state (mmcp s) \<noteq> MMC_READING then (True, s)
      else (False, back_to MMC_READING MMC_READY (spiUnselect B (snd (recvr1 B (spiSend B stopcmd s))))))"

definition start_token :: "u8 list" where "start_token = [0xFF, 0xFC]"

definition mmcSequentialWrite :: "('c, 'c sd) board \<Rightarrow> u8 list \<Rightarrow> 'c sd \<Rightarrow> (bool \<times> 'c sd) option" where
  "mmcSequentialWrite B buffer s =
     (if mmc_state (mmcp s) \<noteq> MMC_WRITING then Some (True, s)
      else
        (case spiReceive B 1 (spiIgnore B 2 (spiSend B (take MMC_SECTOR_SIZE buffer) (spiSend B start_token s))) of
           (b, s1) \<Rightarrow>
             if b ! 0 AND 0x1F = 0x05 then map_option (Pair False) (wait B s1)
             else Some (True, back_to MMC_WRITING MMC_READY (spiUnselect B s1))))"

definition stop_token :: "u8 list" where "stop_token = [0xFD, 0xFF]"

definition mmcStopSequentialWrite :: "('c, 'c sd) board \<Rightarrow> 'c sd \<Rightarrow> bool \<times> 'c sd" where
  "mmcStopSequentialWrite B s =
     (if mmc_state (mmcp s) \<noteq> MMC_WRITING then (True, s)
      else
        (let s1 = spiUnselect B (spiSend B stop_token s)
         in if mmc_state (mmcp s1) = MMC_WRITING then (False, set_mmc_state MMC_READY s1) else (True, s1)))"

end
