(* ===== verification/CardMonitor.thy ===== *)
theory CardMonitor
  imports Mmc
begin

text \<open>
  The monitor of \<^theory_text>\<open>Mmc\<close> and the calls of the card driver while it runs: the timer callback is a debouncer,
  which takes a card for present exactly after ten positive readings in a row; whatever card is pulled or put in while a
  call sleeps, the driver object stays consistent (\<open>mmc_ok\<close>), a connection is reported exactly when
  the driver is ready, and no call that fails leaves the driver reading or writing. The locale \<open>monitor\<close> says what
  sleeping may do to the driver object.
\<close>

unbundle bit_operations_syntax

section \<open>What the monitor does to the driver\<close>

definition debounce :: "bool \<Rightarrow> 'c mmc \<Rightarrow> 'c mmc" where
  "debounce r d =
     (if 0 < mmc_cnt d then
        (if r then
           (if mmc_cnt d = 1 then d\<lparr>mmc_cnt := 0, mmc_state := MMC_INSERTED\<rparr> else d\<lparr>mmc_cnt := mmc_cnt d - 1\<rparr>)
         else d\<lparr>mmc_cnt := MMC_POLLING_INTERVAL\<rparr>)
      else if r then d else d\<lparr>mmc_state := MMC_WAIT, mmc_cnt := MMC_POLLING_INTERVAL\<rparr>)"

lemma mmcp_monitor_arm [simp]: "mmcp (monitor_arm s) = mmcp s" "spip (monitor_arm s) = spip s"
    "slave (monitor_arm s) = slave s"
  by (simp_all add: monitor_arm_def)

lemma mmcp_tmrfunc: "mmcp (tmrfunc s) = debounce (is_inserted (mmcp s) (slave s)) (mmcp s)"
  by (simp add: tmrfunc_def debounce_def Let_def)

lemma spip_tmrfunc [simp]: "spip (tmrfunc s) = spip s" "slave (tmrfunc s) = slave s"
  by (simp_all add: tmrfunc_def Let_def)

lemma monitor_expire_fields [simp]:
  "mmcp (monitor_expire s) = debounce (is_inserted (mmcp s) (slave s)) (mmcp s)"
  "spip (monitor_expire s) = spip s" "slave (monitor_expire s) = slave s"
  by (simp_all add: monitor_expire_def mmcp_tmrfunc Let_def)

lemma debounce_fields [simp]:
  "lscfg (debounce r d) = lscfg d" "hscfg (debounce r d) = hscfg d" "is_protected (debounce r d) = is_protected d"
  "is_inserted (debounce r d) = is_inserted d" "inserted_event (debounce r d) = inserted_event d"
  "removed_event (debounce r d) = removed_event d" "mmc_vt (debounce r d) = mmc_vt d"
  "block_addresses (debounce r d) = block_addresses d"
  by (simp_all add: debounce_def)

text \<open>
  Debouncing, abstractly: the state is inserted exactly if the last ten readings were
  positive, whatever came before.
\<close>

definition present :: "bool list \<Rightarrow> bool" where
  "present rs \<longleftrightarrow> take 10 (rev rs) = replicate 10 True"

definition trailing :: "bool list \<Rightarrow> nat" where
  "trailing rs = length (takeWhile id (rev rs))"

lemma trailing_snoc [simp]: "trailing (rs @ [r]) = (if r then Suc (trailing rs) else 0)" "trailing [] = 0"
  by (simp_all add: trailing_def)

lemma take_replicate_True: "take n xs = replicate n True \<longleftrightarrow> n \<le> length (takeWhile id xs)"
proof (induction xs arbitrary: n)
  case Nil
  then show ?case by simp
next
  case (Cons x xs)
  then show ?case by (cases n) auto
qed

lemma present_trailing: "present rs \<longleftrightarrow> 10 \<le> trailing rs"
  unfolding present_def trailing_def by (rule take_replicate_True)

lemma debounce_readings:
  assumes "mmc_state d = MMC_WAIT" "mmc_cnt d = MMC_POLLING_INTERVAL"
  shows "fold debounce rs d = d\<lparr>mmc_state := if present rs then MMC_INSERTED else MMC_WAIT,
      mmc_cnt := of_nat (10 - trailing rs)\<rparr>"
proof (induction rs rule: rev_induct)
  case Nil
  then show ?case using assms by (simp add: present_trailing MMC_POLLING_INTERVAL_def)
next
  case (snoc r rs)
  let ?n = "trailing rs"
  have fold: "fold debounce (rs @ [r]) d = debounce r (d\<lparr>mmc_state := if present rs then MMC_INSERTED else MMC_WAIT,
      mmc_cnt := of_nat (10 - ?n)\<rparr>)"
    by (simp add: snoc.IH)
  have "10 \<le> ?n \<or> ?n \<in> {0, 1, 2, 3, 4, 5, 6, 7, 8, 9}" by auto
  then show ?case unfolding fold
    by (cases r) (elim disjE insertE emptyE; simp add: present_trailing debounce_def MMC_POLLING_INTERVAL_def)+
qed

text \<open>
  What happens to the driver object while a thread sleeps: readings of the insertion switch. The thread itself, while it connects,
  changes the addressing.
\<close>

inductive drifts :: "'c mmc \<Rightarrow> 'c mmc \<Rightarrow> bool" for d where
  drifts_refl: "drifts d d"
| drifts_reading: "drifts d e \<Longrightarrow> drifts d (debounce r e)"
| drifts_address: "drifts d e \<Longrightarrow> drifts d (e\<lparr>block_addresses := True\<rparr>)"

declare drifts_refl [simp] drifts_reading [intro] drifts_address [intro]

lemma drifts_trans: "drifts e f \<Longrightarrow> drifts d e \<Longrightarrow> drifts d f"
  by (induction rule: drifts.induct) auto

lemma drifts_fold: "drifts d (fold debounce rs d)"
  by (induction rs rule: rev_induct) auto

text \<open>
  The counter is at zero exactly while a card counts as present. A state in which
  the driver does something with the card is not entered by the monitor.
\<close>

definition mmc_ok :: "'c mmc \<Rightarrow> bool" where
  "mmc_ok d \<longleftrightarrow> mmc_cnt d \<le> MMC_POLLING_INTERVAL
     \<and> (mmc_state d \<in> {MMC_INSERTED, MMC_READY, MMC_READING, MMC_WRITING} \<longleftrightarrow> mmc_cnt d = 0)
     \<and> (mmc_state d = MMC_WAIT \<longleftrightarrow> mmc_cnt d \<noteq> 0)"

lemma mmc_ok_debounce:
  assumes "mmc_ok d"
  shows "mmc_ok (debounce r d)"
proof (cases "mmc_cnt d = 0")
  case True
  then show ?thesis using assms by (simp add: mmc_ok_def debounce_def MMC_POLLING_INTERVAL_def)
next
  case False
  then have "mmc_cnt d - 1 \<le> mmc_cnt d"
    by (simp add: word_le_nat_alt unat_minus_one)
  moreover have "mmc_cnt d \<le> 10" using assms by (simp add: mmc_ok_def MMC_POLLING_INTERVAL_def)
  ultimately have "mmc_cnt d - 1 \<le> 10" by (rule order_trans)
  moreover have "mmc_cnt d - 1 = 0 \<longleftrightarrow> mmc_cnt d = 1" by simp
  ultimately show ?thesis using assms False
    by (simp add: mmc_ok_def debounce_def MMC_POLLING_INTERVAL_def word_gt_0)
qed

lemma mmc_ok_address [simp]: "mmc_ok (d\<lparr>block_addresses := b\<rparr>) = mmc_ok d"
  by (simp add: mmc_ok_def)

lemma mmc_ok_drifts: "drifts d d' \<Longrightarrow> mmc_ok d \<Longrightarrow> mmc_ok d'"
  by (induction rule: drifts.induct) (simp_all add: mmc_ok_debounce)

lemma drifts_keeps_addressing: "drifts d d' \<Longrightarrow> block_addresses d \<Longrightarrow> block_addresses d'"
  by (induction rule: drifts.induct) simp_all

lemma debounce_state:
  assumes "mmc_ok d"
  shows "debounce r d = d \<or> mmc_state (debounce r d) \<in> {MMC_WAIT, MMC_INSERTED}"
proof (cases "mmc_cnt d = 0")
  case False
  then have "mmc_state d = MMC_WAIT" using assms by (simp add: mmc_ok_def)
  then show ?thesis by (simp add: debounce_def)
qed (simp add: debounce_def)

lemma drifts_state:
  assumes "drifts d d'" "mmc_ok d"
  shows "mmc_state d' = mmc_state d \<or> mmc_state d' \<in> {MMC_WAIT, MMC_INSERTED}"
proof -
  have "mmc_ok d' \<and> (mmc_state d' = mmc_state d \<or> mmc_state d' \<in> {MMC_WAIT, MMC_INSERTED})" using assms(1)
  proof (induction rule: drifts.induct)
    case (drifts_reading e r)
    then show ?case using debounce_state[of e r] by (metis mmc_ok_debounce)
  qed (simp_all add: assms(2))
  then show ?thesis ..
qed

lemma mmc_ok_state:
  "mmc_ok d \<Longrightarrow> mmc_state d \<in> {MMC_INSERTED, MMC_READY, MMC_READING, MMC_WRITING} \<Longrightarrow>
     st \<in> {MMC_INSERTED, MMC_READY, MMC_READING, MMC_WRITING} \<Longrightarrow> mmc_ok (d\<lparr>mmc_state := st\<rparr>)"
  by (auto simp: mmc_ok_def)

section \<open>What the monitor does to the kernel\<close>

definition disarmed :: "'c sd \<Rightarrow> kernel" where
  "disarmed s = (let v = mmc_vt (mmcp s); k = kern s
     in k\<lparr>vt_func := (vt_func k)(v := None), vt_list := remove1 v (vt_list k)\<rparr>)"

lemma monitor_expire_disarmed: "monitor_expire s = tmrfunc (s\<lparr>kern := disarmed s\<rparr>)"
  by (simp add: monitor_expire_def disarmed_def Let_def)

definition timers :: "kernel \<Rightarrow> vtid list \<times> (vtid \<Rightarrow> u32) \<times> (vtid \<Rightarrow> vtfunc option)" where
  "timers k = (vt_list k, vt_time k, vt_func k)"

lemma timers_signal: "timers (chEvtSignalFlagsI t m k) = timers k"
  by (simp add: timers_def chEvtSignalFlagsI_def set_epending_def set_u_def upd_thr_def Let_def)

lemma timers_broadcast: "timers (chEvtBroadcastFlagsI es m k) = timers k"
proof -
  have "timers (evt_broadcast els m k) = timers k" for els
    by (induction els m k rule: evt_broadcast.induct) (simp_all add: timers_signal)
  then show ?thesis by (simp add: chEvtBroadcastFlagsI_def)
qed

lemma timers_vt_ok: "timers k = timers k' \<Longrightarrow> vt_ok k = vt_ok k'"
  by (simp add: timers_def vt_ok_def vt_total_def)

text \<open>The callback arms the timer again, and its events reach everyone who listens.\<close>

definition tmr_effect :: "'c sd \<Rightarrow> kernel" where
  "tmr_effect s =
     (let d = mmcp s; r = is_inserted d (slave s)
      in if 0 < mmc_cnt d \<and> r \<and> mmc_cnt d = 1 then chEvtBroadcastFlagsI (inserted_event d) 0 (kern s)
         else if mmc_cnt d = 0 \<and> \<not> r then chEvtBroadcastFlagsI (removed_event d) 0 (kern s)
         else kern s)"

lemma kern_tmrfunc:
  "kern (tmrfunc s) = chVTSetI (mmc_vt (mmcp s)) (MS2ST MMC_POLLING_DELAY) tmrfunc_id (VP_val 0) (tmr_effect s)"
  by (simp add: tmrfunc_def tmr_effect_def monitor_arm_def Let_def word_gt_0)

lemma timers_tmr_effect: "timers (tmr_effect s) = timers (kern s)"
  by (simp add: tmr_effect_def timers_broadcast Let_def)

lemma monitor_rearmed:
  assumes "vt_ok (disarmed s)"
  shows "remaining (kern (monitor_expire s)) (mmc_vt (mmcp s)) = Some 10" "vt_ok (kern (monitor_expire s))"
proof -
  let ?t = "s\<lparr>kern := disarmed s\<rparr>" and ?v = "mmc_vt (mmcp s)"
  have ok: "vt_ok (tmr_effect ?t)" using assms timers_vt_ok[OF timers_tmr_effect[of ?t]] by simp
  have "vt_func (disarmed s) ?v = None" by (simp add: disarmed_def Let_def)
  then have "vt_func (tmr_effect ?t) ?v = None" using timers_tmr_effect[of ?t] by (simp add: timers_def)
  then have v: "?v \<notin> set (vt_list (tmr_effect ?t))" using ok by (simp add: vt_ok_def)
  have t: "unat (MS2ST MMC_POLLING_DELAY) = 10" "0 < MS2ST MMC_POLLING_DELAY"
    by (simp_all add: MS2ST_def MMC_POLLING_DELAY_def)
  show "remaining (kern (monitor_expire s)) ?v = Some 10"
    using remaining_chVTSetI[OF ok v] t(1) by (simp add: monitor_expire_disarmed kern_tmrfunc)
  show "vt_ok (kern (monitor_expire s))"
    using vt_ok_chVTSetI[OF ok v t(2)] by (simp add: monitor_expire_disarmed kern_tmrfunc)
qed

text \<open>When no other timer is armed the list stays in order from expiry to expiry.\<close>

definition lone_timer :: "'c sd \<Rightarrow> bool" where
  "lone_timer s \<longleftrightarrow> vt_list (kern s) = [mmc_vt (mmcp s)] \<and> vt_func (kern s) = [mmc_vt (mmcp s) \<mapsto> tmrfunc_id]"

lemma lone_timer_disarmed:
  "lone_timer s \<Longrightarrow> vt_list (disarmed s) = [] \<and> vt_func (disarmed s) = Map.empty \<and> vt_ok (disarmed s)"
  by (auto simp: lone_timer_def disarmed_def Let_def vt_ok_def vt_total_def)

lemma lone_timer_expire:
  assumes "lone_timer s"
  shows "lone_timer (monitor_expire s)"
proof -
  let ?t = "s\<lparr>kern := disarmed s\<rparr>"
  have "vt_list (tmr_effect ?t) = []" "vt_func (tmr_effect ?t) = Map.empty"
    using timers_tmr_effect[of ?t] lone_timer_disarmed[OF assms] by (simp_all add: timers_def)
  then show ?thesis
    by (simp add: lone_timer_def monitor_expire_disarmed kern_tmrfunc mmcp_tmrfunc chVTSetI_def Let_def)
qed

text \<open>A start, and then expiries that find the card in the states \<open>cs\<close>.\<close>

definition polled :: "'c list \<Rightarrow> 'c sd \<Rightarrow> 'c sd" where
  "polled cs s = fold (\<lambda>c t. monitor_expire (t\<lparr>slave := c\<rparr>)) cs (mmcStart s)"

lemma fold_debounce_inserted: "is_inserted (fold debounce rs d) = is_inserted d"
  by (induction rs arbitrary: d) simp_all

lemma mmcStart_driver: "mmcp (mmcStart s) = (mmcp s)\<lparr>mmc_state := MMC_WAIT, mmc_cnt := MMC_POLLING_INTERVAL\<rparr>"
  by (simp add: mmcStart_def set_mmc_def)

lemma mmcp_polled: "mmcp (polled cs s) = fold debounce (map (is_inserted (mmcp s)) cs) (mmcp (mmcStart s))"
  unfolding polled_def by (induction cs rule: rev_induct) (simp_all add: fold_debounce_inserted mmcStart_driver)

lemma polled_state:
  "mmc_state (mmcp (polled cs s)) = (if present (map (is_inserted (mmcp s)) cs) then MMC_INSERTED else MMC_WAIT)"
  by (simp add: mmcp_polled debounce_readings mmcStart_driver)

lemma lone_timer_polled:
  assumes "vt_list (kern s) = []" "vt_func (kern s) = Map.empty"
  shows "lone_timer (polled cs s)"
  unfolding polled_def
proof (induction cs rule: rev_induct)
  case Nil
  then show ?case using assms
    by (simp add: lone_timer_def mmcStart_def set_mmc_def monitor_arm_def chVTSetI_def Let_def)
next
  case (snoc c cs)
  let ?t = "fold (\<lambda>c t. monitor_expire (t\<lparr>slave := c\<rparr>)) cs (mmcStart s)"
  have "lone_timer (?t\<lparr>slave := c\<rparr>)" using snoc by (simp add: lone_timer_def)
  then show ?case by (simp add: lone_timer_expire)
qed

section \<open>The calls while the monitor runs\<close>

definition transferring :: "'c sd \<Rightarrow> bool" where
  "transferring s \<longleftrightarrow> mmc_state (mmcp s) \<in> {MMC_READING, MMC_WRITING}"

locale monitor =
  fixes B :: "('c, 'c sd) board"
  assumes monitor_spi: "spip (asleep B s) = spip s"
    and monitor_readings: "\<exists>cs. mmcp (asleep B s) = fold debounce (map (is_inserted (mmcp s)) cs) (mmcp s)"
    and monitor_callback: "mmcp (end_callback B f s) = mmcp s"
begin

lemma nap_drifts: "drifts (mmcp s) (mmcp (asleep B s))"
  using monitor_readings[of s] drifts_fold by metis

lemma wait_s_drifts: "drifts (mmcp s) (mmcp (spi_wait_s B s))"
proof -
  let ?t = "s\<lparr>spip := (spip s)\<lparr>sp_thread := Some (this_thread B)\<rparr>\<rparr>"
  have "mmcp (spi_wait_s B s) = mmcp (asleep B ?t)"
    by (simp add: spi_wait_s_def spi_isr_code_def spi_wakeup_isr_def set_sp_state_def monitor_callback Let_def
        split: option.split)
  then show ?thesis using nap_drifts[of ?t] by simp
qed

lemma mmcp_lld [simp]:
  "mmcp (spiStart B cfg s) = mmcp s" "mmcp (spiStop B s) = mmcp s"
  "mmcp (spiSelect B s) = mmcp s" "mmcp (spiUnselect B s) = mmcp s"
  by (simp_all add: spiStart_def spiStop_def spiSelect_def spiUnselect_def spi_lld_start_def spi_lld_stop_def
      spi_lld_select_def spi_lld_unselect_def set_sp_state_def Let_def)

lemma transfer_drifts:
  "drifts (mmcp s) (mmcp (spiSend B tx s))" "drifts (mmcp s) (mmcp (spiIgnore B n s))"
  "spiReceive B n s = (rx, s1) \<Longrightarrow> drifts (mmcp s) (mmcp s1)"
  using wait_s_drifts[of "spiStartSendI B tx s"] wait_s_drifts[of "spiStartIgnoreI B n s"]
    wait_s_drifts[of "snd (spiStartReceiveI B n s)"]
  by (auto simp: spiSend_def spiStartSendI_def spi_lld_send_def spiIgnore_def spiStartIgnoreI_def spi_lld_ignore_def
      spiReceive_def spiStartReceiveI_def spi_lld_receive_def set_sp_state_def split: prod.splits)

lemma wait_short_drifts: "wait_short i B s = (b, s1) \<Longrightarrow> drifts (mmcp s) (mmcp s1)"
proof (induction i arbitrary: s)
  case (Suc i)
  then show ?case using transfer_drifts(3)[of 1 s] by (auto split: prod.splits if_splits intro: drifts_trans)
qed simp

lemma wait_long_drifts:
  assumes "wait_long B s = Some s1"
  shows "drifts (mmcp s) (mmcp s1)"
proof -
  have "B = B \<longrightarrow> drifts (mmcp s) (mmcp s1)"
  proof (rule wait_long.raw_induct[where P = "\<lambda>B' s s1. B' = B \<longrightarrow> drifts (mmcp s) (mmcp s1)", OF _ assms])
    fix wl B' s s1
    assume IH: "\<And>B' s s1. wl B' s = Some s1 \<Longrightarrow> B' = B \<longrightarrow> drifts (mmcp s) (mmcp s1)"
      and body: "(case spiReceive B' 1 s of (buf, s1) \<Rightarrow> if buf ! 0 = 0xFF then Some s1 else wl B' (nap B' s1)) = Some s1"
    show "B' = B \<longrightarrow> drifts (mmcp s) (mmcp s1)"
    proof
      assume B: "B' = B"
      obtain buf s2 where r: "spiReceive B 1 s = (buf, s2)" by (metis prod.exhaust)
      show "drifts (mmcp s) (mmcp s1)"
      proof (cases "buf ! 0 = 0xFF")
        case True
        then show ?thesis using body r B transfer_drifts(3)[OF r] by simp
      next
        case False
        then have "drifts (mmcp (nap B s2)) (mmcp s1)" using IH body r B by simp
        then show ?thesis using transfer_drifts(3)[OF r] nap_drifts[of s2] drifts_trans unfolding nap_def by blast
      qed
    qed
  qed
  then show ?thesis by simp
qed

lemma wait_drifts: "wait B s = Some s1 \<Longrightarrow> drifts (mmcp s) (mmcp s1)"
  unfolding wait_def
  by (auto split: prod.splits if_splits dest: wait_short_drifts wait_long_drifts intro: drifts_trans)

lemma send_hdr_drifts: "send_hdr B cmd arg s = Some s1 \<Longrightarrow> drifts (mmcp s) (mmcp s1)"
  unfolding send_hdr_def
  using transfer_drifts(1) by (auto split: option.splits dest!: wait_drifts intro: drifts_trans)

lemma recvr1_loop_drifts: "recvr1_loop i B s = (r, s1) \<Longrightarrow> drifts (mmcp s) (mmcp s1)"
proof (induction i arbitrary: s)
  case (Suc i)
  then show ?case using transfer_drifts(3)[of 1 s] by (auto split: prod.splits if_splits intro: drifts_trans)
qed simp

lemma recvr1_drifts: "recvr1 B s = (r, s1) \<Longrightarrow> drifts (mmcp s) (mmcp s1)"
  unfolding recvr1_def by (rule recvr1_loop_drifts)

lemma recvr3_drifts: "recvr3 B s = (r, s1) \<Longrightarrow> drifts (mmcp s) (mmcp s1)"
  unfolding recvr3_def
  by (auto split: prod.splits dest!: recvr1_drifts transfer_drifts(3) intro: drifts_trans)

lemma command_drifts:
  "send_command_R1 B cmd arg s = Some (r, s1) \<Longrightarrow> drifts (mmcp s) (mmcp s1)"
  "send_command_R3 B cmd arg s = Some (q, s1) \<Longrightarrow> drifts (mmcp s) (mmcp s1)"
  unfolding send_command_R1_def send_command_R3_def
  by (auto split: option.splits prod.splits dest!: recvr1_drifts recvr3_drifts send_hdr_drifts intro: drifts_trans)

lemma sync_drifts: "sync B s = Some s1 \<Longrightarrow> drifts (mmcp s) (mmcp s1)"
  unfolding sync_def by (auto dest!: wait_long_drifts)

lemma go_idle_drifts: "go_idle i B s = Some (b, s1) \<Longrightarrow> drifts (mmcp s) (mmcp s1)"
proof (induction i arbitrary: s rule: less_induct)
  case (less i)
  obtain r s2 where r: "send_command_R1 B MMC_CMDGOIDLE 0 s = Some (r, s2)"
    using less.prems by (auto simp: go_idle.simps[of i] split: option.splits)
  note d = command_drifts(1)[OF r]
  show ?case
  proof (cases "r = 0x01 \<or> i \<le> 1")
    case True
    then show ?thesis using less.prems r d by (auto simp: go_idle.simps[of i] split: if_splits)
  next
    case False
    then have "drifts (mmcp (nap B s2)) (mmcp s1)"
      using less.prems r by (intro less.IH[of "i - 1"]) (simp_all add: go_idle.simps[of i])
    then show ?thesis using d nap_drifts[of s2] drifts_trans unfolding nap_def by blast
  qed
qed

lemma init_card_drifts: "init_card i B s = Some (b, s1) \<Longrightarrow> drifts (mmcp s) (mmcp s1)"
proof (induction i arbitrary: s rule: less_induct)
  case (less i)
  obtain r s2 where r: "send_command_R1 B MMC_CMDINIT 0 s = Some (r, s2)"
    using less.prems by (auto simp: init_card.simps[of i] split: option.splits)
  note d = command_drifts(1)[OF r]
  show ?case
  proof (cases "r \<noteq> 0x01 \<or> i \<le> 1")
    case True
    then show ?thesis using less.prems r d by (auto simp: init_card.simps[of i] split: if_splits)
  next
    case False
    then have "drifts (mmcp (nap B s2)) (mmcp s1)"
      using less.prems r by (intro less.IH[of "i - 1"]) (simp_all add: init_card.simps[of i])
    then show ?thesis using d nap_drifts[of s2] drifts_trans unfolding nap_def by blast
  qed
qed

lemma switch_sdhc_drifts: "switch_sdhc i B s = Some (b, s1) \<Longrightarrow> drifts (mmcp s) (mmcp s1)"
proof (induction i arbitrary: s rule: less_induct)
  case (less i)
  obtain r s2 where r: "send_command_R1 B MMC_CMDAPP 0 s = Some (r, s2)"
    using less.prems by (auto simp: switch_sdhc.simps[of i] split: option.splits)
  let ?acmd = "if r = 0x01 then map_option (\<lambda>((q, b), s2). (q = 0x00, s2))
      (send_command_R3 B MMC_ACMDOPCONDITION 0x400001aa s2) else Some (False, s2)"
  obtain fin s3 where a: "?acmd = Some (fin, s3)"
    using less.prems r by (auto simp: switch_sdhc.simps[of i] split: option.splits)
  have "drifts (mmcp s2) (mmcp s3)" using a command_drifts(2) by (auto split: if_splits)
  with command_drifts(1)[OF r] have d: "drifts (mmcp s) (mmcp s3)" by (blast intro: drifts_trans)
  show ?case
  proof (cases "fin \<or> i \<le> 1")
    case True
    then show ?thesis using less.prems r a d by (auto simp: switch_sdhc.simps[of i] split: if_splits)
  next
    case False
    then have "drifts (mmcp (nap B s3)) (mmcp s1)"
      using less.prems r a by (intro less.IH[of "i - 1"]) (simp_all add: switch_sdhc.simps[of i])
    then show ?thesis using d nap_drifts[of s3] drifts_trans unfolding nap_def by blast
  qed
qed

lemma detect_sdhc_drifts:
  assumes "detect_sdhc B s = Some (b, s1)"
  shows "drifts (mmcp s) (mmcp s1)"
proof -
  obtain r r3 s2 where r: "send_command_R3 B MMC_CMDINTERFACE_CONDITION 0x01AA s = Some ((r, r3), s2)"
    using assms by (auto simp: detect_sdhc_def split: option.splits)
  note d1 = command_drifts(2)[OF r]
  show ?thesis
  proof (cases "r = 0x05")
    case True
    then show ?thesis using assms r d1 by (simp add: detect_sdhc_def)
  next
    case False
    obtain b3 s3 where sw: "switch_sdhc MMC_ACMD41_RETRY B s2 = Some (b3, s3)"
      using assms r False by (auto simp: detect_sdhc_def split: option.splits)
    have d2: "drifts (mmcp s) (mmcp s3)" using switch_sdhc_drifts[OF sw] d1 by (rule drifts_trans)
    show ?thesis
    proof (cases b3)
      case True
      then show ?thesis using assms r False sw d2 by (simp add: detect_sdhc_def)
    next
      case b3: False
      obtain q ocr s4 where o: "send_command_R3 B MMC_CMDREADOCR 0 s3 = Some ((q, ocr), s4)"
        using assms r False sw b3 by (auto simp: detect_sdhc_def)
      have d3: "drifts (mmcp s) (mmcp s4)" using command_drifts(2)[OF o] d2 by (rule drifts_trans)
      have "s1 = (if ocr ! 0 AND 0x40 \<noteq> 0 then set_mmc (\<lambda>d. d\<lparr>block_addresses := True\<rparr>) s4 else s4)"
        using assms r False sw b3 o by (simp add: detect_sdhc_def)
      then show ?thesis using d3 by (auto simp: set_mmc_def)
    qed
  qed
qed

text \<open>What connecting gives.\<close>

lemma connect_stages:
  assumes "mmcConnect B s = Some (b, s1)" "mmc_state (mmcp s) = MMC_INSERTED"
  obtains t where "drifts (mmcp s) (mmcp t)" "(b, s1) = (True, t) \<or> (b, s1) = set_ready t"
proof -
  let ?s = "spiIgnore B 16 (spiStart B (lscfg (mmcp s)) s)"
  have d0: "drifts (mmcp s) (mmcp ?s)"
    using transfer_drifts(2)[of "spiStart B (lscfg (mmcp s)) s" 16] by simp
  obtain b2 s2 where 2: "go_idle MMC_CMD0_RETRY B ?s = Some (b2, s2)"
    using assms by (auto simp: mmcConnect_def split: option.splits)
  have d2: "drifts (mmcp s) (mmcp s2)" using go_idle_drifts[OF 2] d0 by (rule drifts_trans)
  show thesis
  proof (cases b2)
    case True
    then show thesis using that[OF d2] assms 2 by (simp add: mmcConnect_def)
  next
    case b2: False
    obtain b3 s3 where 3: "detect_sdhc B s2 = Some (b3, s3)"
      using assms 2 b2 by (auto simp: mmcConnect_def split: option.splits)
    have d3: "drifts (mmcp s) (mmcp s3)" using detect_sdhc_drifts[OF 3] d2 by (rule drifts_trans)
    show thesis
    proof (cases b3)
      case True
      then show thesis using that[OF d3] assms 2 3 b2 by (simp add: mmcConnect_def)
    next
      case b3: False
      obtain b4 s4 where 4: "init_card MMC_CMD1_RETRY B s3 = Some (b4, s4)"
        using assms 2 b2 3 b3 by (auto simp: mmcConnect_def split: option.splits)
      have d4: "drifts (mmcp s) (mmcp s4)" using init_card_drifts[OF 4] d3 by (rule drifts_trans)
      show thesis
      proof (cases b4)
        case True
        then show thesis using that[OF d4] assms 2 3 4 b2 b3 by (simp add: mmcConnect_def)
      next
        case b4: False
        then have "finish_connect B s4 = Some (b, s1)" using assms 2 b2 3 b3 4 by (simp add: mmcConnect_def)
        then obtain r s5 where
          5: "send_command_R1 B MMC_CMDSETBLOCKLEN (of_nat MMC_SECTOR_SIZE) (spiStart B (hscfg (mmcp s4)) s4) = Some (r, s5)"
            "(b, s1) = (if r \<noteq> 0x00 then (True, s5) else set_ready s5)"
          unfolding finish_connect_def by auto
        have "drifts (mmcp s4) (mmcp s5)" using command_drifts(1)[OF 5(1)] by simp
        then have "drifts (mmcp s) (mmcp s5)" using d4 by (rule drifts_trans)
        then show thesis using that 5(2) by (auto split: if_splits)
      qed
    qed
  qed
qed

lemma connect_result:
  assumes "mmc_ok (mmcp s)" "mmcConnect B s = Some (b, s1)"
  shows "mmc_ok (mmcp s1)" "\<not> b \<longleftrightarrow> mmc_state (mmcp s1) = MMC_READY"
proof -
  have "mmc_ok (mmcp s1) \<and> (\<not> b \<longleftrightarrow> mmc_state (mmcp s1) = MMC_READY)"
  proof (cases "mmc_state (mmcp s) = MMC_INSERTED")
    case True
    obtain t where d: "drifts (mmcp s) (mmcp t)" and r: "(b, s1) = (True, t) \<or> (b, s1) = set_ready t"
      by (rule connect_stages[OF assms(2) True])
    have "mmc_ok (mmcp t)" using d assms(1) by (rule mmc_ok_drifts)
    moreover have "mmc_state (mmcp t) \<in> {MMC_WAIT, MMC_INSERTED}"
      using drifts_state[OF d assms(1)] True by auto
    ultimately show ?thesis using r mmc_ok_state[of "mmcp t" MMC_READY]
      by (auto simp: set_ready_def set_mmc_state_def split: if_splits)
  next
    case False
    then show ?thesis using assms by (auto simp: mmcConnect_def)
  qed
  then show "mmc_ok (mmcp s1)" "\<not> b \<longleftrightarrow> mmc_state (mmcp s1) = MMC_READY" by simp_all
qed

text \<open>No connection ever takes the block addressing back.\<close>

lemma connect_keeps_addressing:
  assumes "mmcConnect B s = Some (b, s1)" "block_addresses (mmcp s)"
  shows "block_addresses (mmcp s1)"
proof (cases "mmc_state (mmcp s) = MMC_INSERTED")
  case True
  obtain t where "drifts (mmcp s) (mmcp t)" "(b, s1) = (True, t) \<or> (b, s1) = set_ready t"
    by (rule connect_stages[OF assms(1) True])
  then show ?thesis using drifts_keeps_addressing[OF _ assms(2)]
    by (auto simp: set_ready_def set_mmc_state_def split: if_splits)
qed (use assms in \<open>simp add: mmcConnect_def\<close>)

lemma back_to_ok:
  "mmc_ok (mmcp s) \<Longrightarrow> old \<in> {MMC_READY, MMC_READING, MMC_WRITING} \<Longrightarrow> new \<in> {MMC_INSERTED, MMC_READY} \<Longrightarrow>
     mmc_ok (mmcp (back_to old new s))"
  using mmc_ok_state[of "mmcp s" new] by (auto simp: back_to_def set_mmc_state_def)

lemma disconnect_result:
  assumes "mmc_ok (mmcp s)" "mmcDisconnect B s = Some (b, s1)"
  shows "mmc_ok (mmcp s1)" "b" "mmc_state (mmcp s1) \<noteq> MMC_READY"
proof -
  obtain s2 where 2: "(if mmc_state (mmcp s) = MMC_READY
        then map_option (back_to MMC_READY MMC_INSERTED) (sync B s) else Some s) = Some s2"
      "b" "s1 = spiStop B s2"
    using assms(2) by (auto simp: mmcDisconnect_def)
  have "mmc_ok (mmcp s2) \<and> mmc_state (mmcp s2) \<noteq> MMC_READY"
  proof (cases "mmc_state (mmcp s) = MMC_READY")
    case True
    then obtain s3 where 3: "sync B s = Some s3" "s2 = back_to MMC_READY MMC_INSERTED s3" using 2 by auto
    have "mmc_ok (mmcp s3)" using sync_drifts[OF 3(1)] assms(1) by (rule mmc_ok_drifts)
    then show ?thesis using back_to_ok[of s3 MMC_READY MMC_INSERTED]
      by (auto simp: 3(2) back_to_def set_mmc_state_def)
  qed (use 2 assms(1) in auto)
  then show "mmc_ok (mmcp s1)" "b" "mmc_state (mmcp s1) \<noteq> MMC_READY" using 2 by simp_all
qed

lemma start_sequence_result:
  assumes "mmc_ok (mmcp s)" "start_sequence st cmd B blk s = Some (b, s1)" "st \<in> {MMC_READING, MMC_WRITING}"
  shows "mmc_ok (mmcp s1)" "b \<Longrightarrow> \<not> transferring s \<Longrightarrow> \<not> transferring s1"
    "\<not> b \<Longrightarrow> mmc_state (mmcp s1) \<in> {st, MMC_WAIT, MMC_INSERTED}"
proof -
  have "mmc_ok (mmcp s1) \<and> (b \<longrightarrow> \<not> transferring s \<longrightarrow> \<not> transferring s1)
      \<and> (\<not> b \<longrightarrow> mmc_state (mmcp s1) \<in> {st, MMC_WAIT, MMC_INSERTED})"
  proof (cases "mmc_state (mmcp s) = MMC_READY")
    case False
    then show ?thesis using assms by (simp add: start_sequence_def)
  next
    case True
    let ?s1 = "set_mmc_state st s"
    let ?s2 = "spiSelect B (spiStart B (hscfg (mmcp ?s1)) ?s1)"
    obtain s3 where 3: "send_hdr B cmd (block_arg ?s2 blk) ?s2 = Some s3"
      using assms(2) True by (auto simp: start_sequence_def Let_def split: option.splits)
    obtain r s4 where 4: "recvr1 B s3 = (r, s4)" by (metis prod.exhaust)
    have res: "(b, s1) = (if r \<noteq> 0x00 then (True, back_to st MMC_READY (spiUnselect B s4)) else (False, s4))"
      using assms(2) True 3 4 by (simp add: start_sequence_def Let_def)
    have ok1: "mmc_ok (mmcp ?s1)" using mmc_ok_state[OF assms(1)] True assms(3) by (auto simp: set_mmc_state_def)
    have "drifts (mmcp ?s1) (mmcp s3)" using send_hdr_drifts[OF 3] by simp
    with recvr1_drifts[OF 4] have d: "drifts (mmcp ?s1) (mmcp s4)" by (rule drifts_trans)
    have ok4: "mmc_ok (mmcp s4)" using d ok1 by (rule mmc_ok_drifts)
    have st4: "mmc_state (mmcp s4) \<in> {st, MMC_WAIT, MMC_INSERTED}"
      using drifts_state[OF d ok1] by (simp add: set_mmc_state_def)
    show ?thesis
    proof (cases "r = 0x00")
      case True
      then show ?thesis using res ok4 st4 by simp
    next
      case False
      have "mmc_ok (mmcp (back_to st MMC_READY (spiUnselect B s4)))"
        by (rule back_to_ok) (use ok4 assms(3) in auto)
      moreover have "\<not> transferring (back_to st MMC_READY (spiUnselect B s4))"
        using st4 assms(3) by (auto simp: back_to_def set_mmc_state_def transferring_def)
      ultimately show ?thesis using res False by simp
    qed
  qed
  then show "mmc_ok (mmcp s1)" "b \<Longrightarrow> \<not> transferring s \<Longrightarrow> \<not> transferring s1"
    "\<not> b \<Longrightarrow> mmc_state (mmcp s1) \<in> {st, MMC_WAIT, MMC_INSERTED}" by simp_all
qed

lemma stops_transfer:
  assumes "mmc_ok (mmcp s)" "mmc_state (mmcp s) = st" "drifts (mmcp s) (mmcp t)" "st \<in> {MMC_READING, MMC_WRITING}"
  shows "mmc_ok (mmcp (back_to st MMC_READY t))" "\<not> transferring (back_to st MMC_READY t)"
proof -
  have ok: "mmc_ok (mmcp t)" using assms(3,1) by (rule mmc_ok_drifts)
  show "mmc_ok (mmcp (back_to st MMC_READY t))" by (rule back_to_ok) (use ok assms(4) in auto)
  show "\<not> transferring (back_to st MMC_READY t)"
    using drifts_state[OF assms(3,1)] assms(2,4) by (auto simp: back_to_def set_mmc_state_def transferring_def)
qed

lemma goes_on:
  assumes "mmc_ok (mmcp s)" "mmc_state (mmcp s) = st" "drifts (mmcp s) (mmcp t)"
  shows "mmc_ok (mmcp t)" "mmc_state (mmcp t) \<in> {st, MMC_WAIT, MMC_INSERTED}"
  using mmc_ok_drifts[OF assms(3,1)] drifts_state[OF assms(3,1)] assms(2) by auto

lemma read_block_result:
  assumes "mmc_ok (mmcp s)" "mmc_state (mmcp s) = MMC_READING"
  shows "drifts (mmcp s) (mmcp t) \<Longrightarrow> read_block i B buf t = ((b, buf1), s1) \<Longrightarrow>
    mmc_ok (mmcp s1) \<and> (if b then \<not> transferring s1 else mmc_state (mmcp s1) \<in> {MMC_READING, MMC_WAIT, MMC_INSERTED})"
proof (induction i arbitrary: t buf)
  case 0
  then show ?case using stops_transfer[OF assms, of "spiUnselect B t"] by (auto simp: read_block.simps[of 0])
next
  case (Suc i)
  obtain bt t1 where r: "spiReceive B 1 t = (bt, t1)" by (metis prod.exhaust)
  have d1: "drifts (mmcp s) (mmcp t1)" using transfer_drifts(3)[OF r] Suc.prems(1) by (rule drifts_trans)
  show ?case
  proof (cases "bt ! 0 = 0xFE")
    case False
    then have "read_block i B (buf[0 := bt ! 0]) t1 = ((b, buf1), s1)"
      using Suc.prems(2) r by (simp add: read_block.simps[of "Suc i"])
    then show ?thesis by (rule Suc.IH[OF d1])
  next
    case True
    obtain dat t2 where r2: "spiReceive B MMC_SECTOR_SIZE t1 = (dat, t2)" by (metis prod.exhaust)
    have "drifts (mmcp s) (mmcp t2)" using transfer_drifts(3)[OF r2] d1 by (rule drifts_trans)
    then have "drifts (mmcp s) (mmcp (spiIgnore B 2 t2))" using transfer_drifts(2) drifts_trans by blast
    from goes_on[OF assms this] show ?thesis using Suc.prems(2) r True r2
      by (auto simp: read_block.simps[of "Suc i"])
  qed
qed

lemma sequential_read_result:
  assumes "mmc_ok (mmcp s)" "mmcSequentialRead B buf s = ((b, buf1), s1)"
    "mmc_state (mmcp s) \<in> {MMC_READING, MMC_WAIT, MMC_INSERTED}"
  shows "mmc_ok (mmcp s1)" "b \<Longrightarrow> \<not> transferring s1"
    "\<not> b \<Longrightarrow> mmc_state (mmcp s1) \<in> {MMC_READING, MMC_WAIT, MMC_INSERTED}"
  using read_block_result[OF assms(1), of s MMC_WAIT_DATA buf b buf1 s1] assms
  by (auto simp: mmcSequentialRead_def transferring_def split: if_splits)

lemma sequential_read_other:
  "mmc_state (mmcp s) \<noteq> MMC_READING \<Longrightarrow> mmcSequentialRead B buf s = ((True, buf), s)"
  by (simp add: mmcSequentialRead_def)

lemma stop_read_result:
  assumes "mmc_ok (mmcp s)" "mmcStopSequentialRead B s = (b, s1)"
  shows "mmc_ok (mmcp s1)" "mmc_state (mmcp s) \<noteq> MMC_WRITING \<Longrightarrow> \<not> transferring s1"
proof -
  have "mmc_ok (mmcp s1) \<and> (mmc_state (mmcp s) \<noteq> MMC_WRITING \<longrightarrow> \<not> transferring s1)"
  proof (cases "mmc_state (mmcp s) = MMC_READING")
    case True
    obtain r t where r: "recvr1 B (spiSend B stopcmd s) = (r, t)" by (metis prod.exhaust)
    have "drifts (mmcp s) (mmcp (spiUnselect B t))"
      using recvr1_drifts[OF r] transfer_drifts(1)[of s stopcmd] by (simp add: drifts_trans)
    from stops_transfer[OF assms(1) True this] show ?thesis
      using assms(2) True r by (auto simp: mmcStopSequentialRead_def)
  qed (use assms in \<open>auto simp: mmcStopSequentialRead_def transferring_def\<close>)
  then show "mmc_ok (mmcp s1)" "mmc_state (mmcp s) \<noteq> MMC_WRITING \<Longrightarrow> \<not> transferring s1" by simp_all
qed

lemma sequential_write_result:
  assumes "mmc_ok (mmcp s)" "mmcSequentialWrite B buf s = Some (b, s1)"
  shows "mmc_ok (mmcp s1)" "b \<Longrightarrow> mmc_state (mmcp s) \<noteq> MMC_READING \<Longrightarrow> \<not> transferring s1"
    "\<not> b \<Longrightarrow> mmc_state (mmcp s1) \<in> {MMC_WRITING, MMC_WAIT, MMC_INSERTED}"
proof -
  have "mmc_ok (mmcp s1) \<and> (b \<longrightarrow> mmc_state (mmcp s) \<noteq> MMC_READING \<longrightarrow> \<not> transferring s1)
      \<and> (\<not> b \<longrightarrow> mmc_state (mmcp s1) \<in> {MMC_WRITING, MMC_WAIT, MMC_INSERTED})"
  proof (cases "mmc_state (mmcp s) = MMC_WRITING")
    case True
    let ?s = "spiIgnore B 2 (spiSend B (take MMC_SECTOR_SIZE buf) (spiSend B start_token s))"
    obtain bt t where r: "spiReceive B 1 ?s = (bt, t)" by (metis prod.exhaust)
    have "drifts (mmcp s) (mmcp ?s)" by (meson transfer_drifts drifts_trans)
    with transfer_drifts(3)[OF r] have d: "drifts (mmcp s) (mmcp t)" by (rule drifts_trans)
    show ?thesis
    proof (cases "bt ! 0 AND 0x1F = 0x05")
      case accepted: True
      then obtain t1 where "wait B t = Some t1" "b = False" "s1 = t1"
        using assms(2) True r by (auto simp: mmcSequentialWrite_def)
      moreover from this have "drifts (mmcp s) (mmcp t1)" using wait_drifts d drifts_trans by blast
      ultimately show ?thesis using goes_on[OF assms(1) True, of s1] by simp
    next
      case False
      then have "b" "s1 = back_to MMC_WRITING MMC_READY (spiUnselect B t)"
        using assms(2) True r by (simp_all add: mmcSequentialWrite_def)
      then show ?thesis using stops_transfer[OF assms(1) True, of "spiUnselect B t"] d by simp
    qed
  qed (use assms in \<open>auto simp: mmcSequentialWrite_def transferring_def\<close>)
  then show "mmc_ok (mmcp s1)" "b \<Longrightarrow> mmc_state (mmcp s) \<noteq> MMC_READING \<Longrightarrow> \<not> transferring s1"
    "\<not> b \<Longrightarrow> mmc_state (mmcp s1) \<in> {MMC_WRITING, MMC_WAIT, MMC_INSERTED}" by simp_all
qed

lemma stop_write_result:
  assumes "mmc_ok (mmcp s)" "mmcStopSequentialWrite B s = (b, s1)"
  shows "mmc_ok (mmcp s1)" "mmc_state (mmcp s) \<noteq> MMC_READING \<Longrightarrow> \<not> transferring s1"
proof -
  have "mmc_ok (mmcp s1) \<and> (mmc_state (mmcp s) \<noteq> MMC_READING \<longrightarrow> \<not> transferring s1)"
  proof (cases "mmc_state (mmcp s) = MMC_WRITING")
    case True
    let ?t = "spiUnselect B (spiSend B stop_token s)"
    have s1: "s1 = back_to MMC_WRITING MMC_READY ?t"
      using assms(2) True by (auto simp: mmcStopSequentialWrite_def back_to_def Let_def split: if_splits)
    have "drifts (mmcp s) (mmcp ?t)" using transfer_drifts(1) by simp
    from stops_transfer[OF assms(1) True this] show ?thesis unfolding s1 by simp
  qed (use assms in \<open>auto simp: mmcStopSequentialWrite_def transferring_def\<close>)
  then show "mmc_ok (mmcp s1)" "mmc_state (mmcp s) \<noteq> MMC_READING \<Longrightarrow> \<not> transferring s1" by simp_all
qed

end

end
