(* ===== verification/Disk.thy ===== *)
theory Disk
  imports CardMonitor
begin

text \<open>
  The disk interface of the file system (\<^verbatim>\<open>ext/fatfs-0.8b-patched/fatfs/src/diskio.c\<close>) as it is configured
  for memory cards on SPI: status, reading and writing of runs of sectors, control.
  \<open>buff\<close> is the memory the pointer of that name points to.
\<close>

unbundle bit_operations_syntax

datatype dresult = RES_OK | RES_ERROR | RES_WRPRT | RES_NOTRDY | RES_PARERR

definition STA_NOINIT :: u8 where "STA_NOINIT = 0x01"
definition STA_NODISK :: u8 where "STA_NODISK = 0x02"
definition STA_PROTECT :: u8 where "STA_PROTECT = 0x04"

definition MMC_drive :: u8 where "MMC_drive = 0"

definition mmcIsWriteProtected :: "'c sd \<Rightarrow> bool" where
  "mmcIsWriteProtected s = is_protected (mmcp s) (slave s)"

definition disk_status :: "u8 \<Rightarrow> 'c sd \<Rightarrow> u8" where
  "disk_status drv s =
     (if drv = MMC_drive then
        (let stat = 0;
             stat = (if mmc_state (mmcp s) \<noteq> MMC_READY then stat OR STA_NOINIT else stat)
         in if mmcIsWriteProtected s then stat OR STA_PROTECT else stat)
      else STA_NODISK)"

definition disk_initialize :: "u8 \<Rightarrow> 'c sd \<Rightarrow> u8" where
  "disk_initialize drv s =
     (if drv = MMC_drive then
        (let stat = 0;
             stat = (if mmc_state (mmcp s) \<noteq> MMC_READY then stat OR STA_NOINIT else stat)
         in if mmcIsWriteProtected s then stat OR STA_PROTECT else stat)
      else STA_NODISK)"

fun read_sectors :: "nat \<Rightarrow> ('c, 'c sd) board \<Rightarrow> u8 list \<Rightarrow> 'c sd \<Rightarrow> (bool \<times> u8 list) \<times> 'c sd" where
  "read_sectors 0 B buff s = ((False, buff), s)"
| "read_sectors (Suc count) B buff s =
     (case mmcSequentialRead B buff s of ((failed, buff1), s1) \<Rightarrow>
        if failed then ((True, buff1), s1)
        else (case read_sectors count B (drop MMC_SECTOR_SIZE buff1) s1 of ((failed2, rest), s2) \<Rightarrow>
                ((failed2, take MMC_SECTOR_SIZE buff1 @ rest), s2)))"

definition disk_read ::
    "('c, 'c sd) board \<Rightarrow> u8 \<Rightarrow> u8 list \<Rightarrow> u32 \<Rightarrow> u8 \<Rightarrow> 'c sd \<Rightarrow> ((dresult \<times> u8 list) \<times> 'c sd) option" where
  "disk_read B drv buff sector count s =
     (if drv = MMC_drive then
        (if mmc_state (mmcp s) \<noteq> MMC_READY then Some ((RES_NOTRDY, buff), s)
         else
           (case mmcStartSequentialRead B sector s of
              None \<Rightarrow> None
            | Some (True, s1) \<Rightarrow> Some ((RES_ERROR, buff), s1)
            | Some (False, s1) \<Rightarrow>
                (case read_sectors (unat count) B buff s1 of ((failed, buff1), s2) \<Rightarrow>
                   Some (if failed then ((RES_ERROR, buff1), s2)
                         else (case mmcStopSequentialRead B s2 of (failed2, s3) \<Rightarrow>
                                 ((if failed2 then RES_ERROR else RES_OK, buff1), s3))))))
      else Some ((RES_PARERR, buff), s))"

fun write_sectors :: "nat \<Rightarrow> ('c, 'c sd) board \<Rightarrow> u8 list \<Rightarrow> 'c sd \<Rightarrow> (bool \<times> 'c sd) option" where
  "write_sectors 0 B buff s = Some (False, s)"
| "write_sectors (Suc count) B buff s =
     (case mmcSequentialWrite B buff s of
        None \<Rightarrow> None
      | Some (failed, s1) \<Rightarrow>
          if failed then Some (True, s1) else write_sectors count B (drop MMC_SECTOR_SIZE buff) s1)"

definition disk_write ::
    "('c, 'c sd) board \<Rightarrow> u8 \<Rightarrow> u8 list \<Rightarrow> u32 \<Rightarrow> u8 \<Rightarrow> 'c sd \<Rightarrow> (dresult \<times> 'c sd) option" where
  "disk_write B drv buff sector count s =
     (if drv = MMC_drive then
        (if mmc_state (mmcp s) \<noteq> MMC_READY then Some (RES_NOTRDY, s)
         else if mmcIsWriteProtected s then Some (RES_WRPRT, s)
         else
           (case mmcStartSequentialWrite B sector s of
              None \<Rightarrow> None
            | Some (True, s1) \<Rightarrow> Some (RES_ERROR, s1)
            | Some (False, s1) \<Rightarrow>
                (case write_sectors (unat count) B buff s1 of
                   None \<Rightarrow> None
                 | Some (True, s2) \<Rightarrow> Some (RES_ERROR, s2)
                 | Some (False, s2) \<Rightarrow>
                     (case mmcStopSequentialWrite B s2 of (failed, s3) \<Rightarrow>
                        Some (if failed then RES_ERROR else RES_OK, s3)))))
      else Some (RES_PARERR, s))"

definition CTRL_SYNC :: u8 where "CTRL_SYNC = 0"
definition GET_SECTOR_SIZE :: u8 where "GET_SECTOR_SIZE = 2"

text \<open>The result and the half word that \<open>buff\<close> points to.\<close>

definition disk_ioctl :: "u8 \<Rightarrow> u8 \<Rightarrow> u16 \<Rightarrow> dresult \<times> u16" where
  "disk_ioctl drv ctrl buff =
     (if drv = MMC_drive then
        (if ctrl = CTRL_SYNC then (RES_OK, buff)
         else if ctrl = GET_SECTOR_SIZE then (RES_OK, of_nat MMC_SECTOR_SIZE)
         else (RES_PARERR, buff))
      else (RES_PARERR, buff))"

definition get_fattime :: u32 where "get_fattime = 0"

section \<open>No call leaves a transfer open\<close>

text \<open>The calls the other threads make of the card, and sequences of them.\<close>

datatype sd_call =
    SD_Connect
  | SD_Disconnect
  | SD_Read "u8 list" u32 u8
  | SD_Write "u8 list" u32 u8

fun sd_perform :: "('c, 'c sd) board \<Rightarrow> sd_call \<Rightarrow> 'c sd \<Rightarrow> 'c sd option" where
  "sd_perform B SD_Connect s = map_option snd (mmcConnect B s)"
| "sd_perform B SD_Disconnect s = map_option snd (mmcDisconnect B s)"
| "sd_perform B (SD_Read buff sector count) s = map_option snd (disk_read B MMC_drive buff sector count s)"
| "sd_perform B (SD_Write buff sector count) s = map_option snd (disk_write B MMC_drive buff sector count s)"

fun sd_run :: "('c, 'c sd) board \<Rightarrow> sd_call list \<Rightarrow> 'c sd \<Rightarrow> 'c sd option" where
  "sd_run B [] s = Some s"
| "sd_run B (c # cs) s = (case sd_perform B c s of None \<Rightarrow> None | Some s1 \<Rightarrow> sd_run B cs s1)"

context monitor
begin

lemma read_sectors_result:
  "mmc_ok (mmcp s) \<Longrightarrow> mmc_state (mmcp s) \<in> {MMC_READING, MMC_WAIT, MMC_INSERTED} \<Longrightarrow>
   read_sectors n B buff s = ((b, buff1), s1) \<Longrightarrow>
     mmc_ok (mmcp s1) \<and> (if b then \<not> transferring s1 else mmc_state (mmcp s1) \<in> {MMC_READING, MMC_WAIT, MMC_INSERTED})"
proof (induction n arbitrary: s buff buff1)
  case (Suc n)
  obtain b2 buf2 s2 where 2: "mmcSequentialRead B buff s = ((b2, buf2), s2)" by (metis prod.exhaust)
  note r = sequential_read_result[OF Suc.prems(1) 2 Suc.prems(2)]
  show ?case
  proof (cases b2)
    case True
    then show ?thesis using Suc.prems(3) 2 r by simp
  next
    case False
    obtain buf3 where 3: "read_sectors n B (drop MMC_SECTOR_SIZE buf2) s2 = ((b, buf3), s1)"
      using Suc.prems(3) 2 False by (auto split: prod.splits)
    show ?thesis by (rule Suc.IH[OF r(1) r(3)[OF False] 3])
  qed
qed auto

lemma disk_read_result:
  assumes "mmc_ok (mmcp s)" "\<not> transferring s" "disk_read B drv buff sector count s = Some ((r, buff1), s1)"
  shows "mmc_ok (mmcp s1)" "\<not> transferring s1"
proof -
  have "mmc_ok (mmcp s1) \<and> \<not> transferring s1"
  proof (cases "drv = MMC_drive \<and> mmc_state (mmcp s) = MMC_READY")
    case False
    then show ?thesis using assms by (auto simp: disk_read_def split: if_splits)
  next
    case True
    obtain b2 s2 where 2: "mmcStartSequentialRead B sector s = Some (b2, s2)"
      using assms(3) True by (auto simp: disk_read_def split: option.splits)
    note start = start_sequence_result[OF assms(1) 2[unfolded mmcStartSequentialRead_def], simplified]
    show ?thesis
    proof (cases b2)
      case b2: True
      then show ?thesis using assms(2,3) True 2 start by (simp add: disk_read_def)
    next
      case b2: False
      obtain b3 buf3 s3 where 3: "read_sectors (unat count) B buff s2 = ((b3, buf3), s3)" by (metis prod.exhaust)
      have "mmc_state (mmcp s2) \<in> {MMC_READING, MMC_WAIT, MMC_INSERTED}" using start b2 by simp
      note rd = read_sectors_result[OF start(1) this 3]
      show ?thesis
      proof (cases b3)
        case b3: True
        then show ?thesis using assms(3) True 2 b2 3 rd by (simp add: disk_read_def)
      next
        case b3: False
        obtain b4 s4 where 4: "mmcStopSequentialRead B s3 = (b4, s4)" by (metis prod.exhaust)
        have "s1 = s4" using assms(3) True 2 b2 3 b3 4 by (simp add: disk_read_def)
        moreover have "mmc_state (mmcp s3) \<noteq> MMC_WRITING" using rd b3 by auto
        ultimately show ?thesis using stop_read_result[of s3] rd 4 by simp
      qed
    qed
  qed
  then show "mmc_ok (mmcp s1)" "\<not> transferring s1" by simp_all
qed

lemma write_sectors_result:
  "mmc_ok (mmcp s) \<Longrightarrow> mmc_state (mmcp s) \<in> {MMC_WRITING, MMC_WAIT, MMC_INSERTED} \<Longrightarrow>
   write_sectors n B buff s = Some (b, s1) \<Longrightarrow>
     mmc_ok (mmcp s1) \<and> (if b then \<not> transferring s1 else mmc_state (mmcp s1) \<in> {MMC_WRITING, MMC_WAIT, MMC_INSERTED})"
proof (induction n arbitrary: s buff)
  case (Suc n)
  obtain b2 s2 where 2: "mmcSequentialWrite B buff s = Some (b2, s2)"
    using Suc.prems(3) by (auto split: option.splits)
  note r = sequential_write_result[OF Suc.prems(1) 2]
  show ?case
  proof (cases b2)
    case True
    then show ?thesis using Suc.prems(2,3) 2 r by auto
  next
    case False
    then have 3: "write_sectors n B (drop MMC_SECTOR_SIZE buff) s2 = Some (b, s1)" using Suc.prems(3) 2 by simp
    show ?thesis by (rule Suc.IH[OF r(1) r(3)[OF False] 3])
  qed
qed auto

lemma disk_write_result:
  assumes "mmc_ok (mmcp s)" "\<not> transferring s" "disk_write B drv buff sector count s = Some (r, s1)"
  shows "mmc_ok (mmcp s1)" "\<not> transferring s1"
proof -
  have "mmc_ok (mmcp s1) \<and> \<not> transferring s1"
  proof (cases "drv = MMC_drive \<and> mmc_state (mmcp s) = MMC_READY \<and> \<not> mmcIsWriteProtected s")
    case False
    then show ?thesis using assms by (auto simp: disk_write_def split: if_splits)
  next
    case True
    obtain b2 s2 where 2: "mmcStartSequentialWrite B sector s = Some (b2, s2)"
      using assms(3) True by (auto simp: disk_write_def split: option.splits)
    note start = start_sequence_result[OF assms(1) 2[unfolded mmcStartSequentialWrite_def], simplified]
    show ?thesis
    proof (cases b2)
      case b2: True
      then show ?thesis using assms(2,3) True 2 start by (simp add: disk_write_def)
    next
      case b2: False
      obtain b3 s3 where 3: "write_sectors (unat count) B buff s2 = Some (b3, s3)"
        using assms(3) True 2 b2 by (auto simp: disk_write_def split: option.splits)
      have "mmc_state (mmcp s2) \<in> {MMC_WRITING, MMC_WAIT, MMC_INSERTED}" using start b2 by simp
      note wr = write_sectors_result[OF start(1) this 3]
      show ?thesis
      proof (cases b3)
        case b3: True
        then show ?thesis using assms(3) True 2 b2 3 wr by (simp add: disk_write_def)
      next
        case b3: False
        obtain b4 s4 where 4: "mmcStopSequentialWrite B s3 = (b4, s4)" by (metis prod.exhaust)
        have "s1 = s4" using assms(3) True 2 b2 3 b3 4 by (simp add: disk_write_def)
        moreover have "mmc_state (mmcp s3) \<noteq> MMC_READING" using wr b3 by auto
        ultimately show ?thesis using stop_write_result[of s3] wr 4 by simp
      qed
    qed
  qed
  then show "mmc_ok (mmcp s1)" "\<not> transferring s1" by simp_all
qed

end

context monitor
begin

lemma connect_not_transferring:
  assumes "mmc_ok (mmcp s)" "\<not> transferring s" "mmcConnect B s = Some (b, s1)"
  shows "\<not> transferring s1"
proof (cases "mmc_state (mmcp s) = MMC_INSERTED")
  case True
  obtain t where d: "drifts (mmcp s) (mmcp t)" "(b, s1) = (True, t) \<or> (b, s1) = set_ready t"
    by (rule connect_stages[OF assms(3) True])
  then show ?thesis using drifts_state[OF d(1) assms(1)] True
    by (auto simp: set_ready_def set_mmc_state_def transferring_def split: if_splits)
qed (use assms in \<open>simp add: mmcConnect_def\<close>)

lemma disconnect_not_transferring:
  assumes "mmc_ok (mmcp s)" "\<not> transferring s" "mmcDisconnect B s = Some (b, s1)"
  shows "\<not> transferring s1"
proof (cases "mmc_state (mmcp s) = MMC_READY")
  case True
  then obtain s2 where 2: "sync B s = Some s2" "s1 = spiStop B (back_to MMC_READY MMC_INSERTED s2)"
    using assms(3) by (auto simp: mmcDisconnect_def)
  show ?thesis using drifts_state[OF sync_drifts[OF 2(1)] assms(1)] True
    by (auto simp: 2(2) back_to_def set_mmc_state_def transferring_def)
qed (use assms in \<open>auto simp: mmcDisconnect_def transferring_def\<close>)

lemma sd_perform_ok:
  assumes "mmc_ok (mmcp s)" "\<not> transferring s" "sd_perform B call s = Some s1"
  shows "mmc_ok (mmcp s1) \<and> \<not> transferring s1"
proof (cases call)
  case SD_Connect
  then obtain b where "mmcConnect B s = Some (b, s1)" using assms(3) by auto
  then show ?thesis using connect_result(1)[OF assms(1)] connect_not_transferring[OF assms(1,2)] by blast
next
  case SD_Disconnect
  then obtain b where "mmcDisconnect B s = Some (b, s1)" using assms(3) by auto
  then show ?thesis using disconnect_result(1)[OF assms(1)] disconnect_not_transferring[OF assms(1,2)] by blast
next
  case (SD_Read buff sector count)
  then obtain r buff1 where "disk_read B MMC_drive buff sector count s = Some ((r, buff1), s1)" using assms(3) by auto
  then show ?thesis using disk_read_result[OF assms(1,2)] by blast
next
  case (SD_Write buff sector count)
  then obtain r where "disk_write B MMC_drive buff sector count s = Some (r, s1)" using assms(3) by auto
  then show ?thesis using disk_write_result[OF assms(1,2)] by blast
qed

lemma sd_run_ok:
  "mmc_ok (mmcp s) \<Longrightarrow> \<not> transferring s \<Longrightarrow> sd_run B calls s = Some s1 \<Longrightarrow>
     mmc_ok (mmcp s1) \<and> \<not> transferring s1"
proof (induction calls arbitrary: s)
  case (Cons c cs)
  then show ?case using sd_perform_ok[of s c] by (auto split: option.splits)
qed simp

end

section \<open>A line that does not move\<close>

lemma receive_one:
  assumes "spiReceive B 1 s = (buf, s1)"
  obtains c where "buf = [fst (shift_frame B 0xFF c)]"
  using assms that by (auto simp: spiReceive_def spiStartReceiveI_def spi_lld_receive_def dummytx_def split: prod.splits)
    (metis fst_conv)

text \<open>
  Held low, the line looks like a card that is busy for ever. Nobody drives it in an empty slot: it reads as ones.
\<close>

definition held_low :: "('c, 's) board \<Rightarrow> bool" where
  "held_low B \<longleftrightarrow> (\<forall>b c. fst (shift_frame B b c) \<noteq> 0xFF)"

definition empty_slot :: "('c, 's) board \<Rightarrow> bool" where
  "empty_slot B \<longleftrightarrow> (\<forall>b c. fst (shift_frame B b c) = 0xFF)"

lemma wait_short_low: "held_low B \<Longrightarrow> \<exists>s1. wait_short i B s = (False, s1)"
proof (induction i arbitrary: s)
  case (Suc i)
  obtain buf s1 where r: "spiReceive B 1 s = (buf, s1)" by (metis prod.exhaust)
  obtain c where "buf = [fst (shift_frame B 0xFF c)]" by (rule receive_one[OF r])
  then have "buf ! 0 \<noteq> 0xFF" using Suc.prems by (simp add: held_low_def)
  then show ?case using r Suc.IH[OF Suc.prems, of s1] by simp
qed simp

lemma wait_long_low:
  assumes "held_low B"
  shows "wait_long B s = None"
proof (rule ccontr)
  assume "wait_long B s \<noteq> None"
  then obtain s1 where "wait_long B s = Some s1" by blast
  then have "\<not> held_low B"
  proof (rule wait_long.raw_induct[where P = "\<lambda>B s s1. \<not> held_low B", rotated])
    fix wl and B :: "('a, 'a sd) board" and s s1
    assume IH: "\<And>B s s1. wl B s = Some s1 \<Longrightarrow> \<not> held_low B"
      and body: "(case spiReceive B 1 s of (buf, s1) \<Rightarrow> if buf ! 0 = 0xFF then Some s1 else wl B (nap B s1)) = Some s1"
    obtain buf s2 where r: "spiReceive B 1 s = (buf, s2)" by (metis prod.exhaust)
    obtain c where c: "buf = [fst (shift_frame B 0xFF c)]" by (rule receive_one[OF r])
    show "\<not> held_low B"
    proof (cases "buf ! 0 = 0xFF")
      case True
      then show ?thesis using c by (auto simp: held_low_def)
    next
      case False
      then show ?thesis using IH body r by simp
    qed
  qed
  then show False using assms by blast
qed

lemma send_hdr_low: "held_low B \<Longrightarrow> send_hdr B cmd arg s = None"
  using wait_short_low[of B 16 s] by (auto simp: send_hdr_def wait_def wait_long_low)

lemma command_low: "held_low B \<Longrightarrow> send_command_R1 B cmd arg s = None"
  by (simp add: send_command_R1_def send_hdr_low)

lemma connect_low: "held_low B \<Longrightarrow> mmc_state (mmcp s) = MMC_INSERTED \<Longrightarrow> mmcConnect B s = None"
  by (simp add: mmcConnect_def go_idle.simps[of MMC_CMD0_RETRY] command_low)

lemma disk_low:
  assumes "held_low B" "mmc_state (mmcp s) = MMC_READY"
  shows "disk_read B 0 buff sector count s = None"
    "\<not> mmcIsWriteProtected s \<Longrightarrow> disk_write B 0 buff sector count s = None"
  using assms
  by (simp_all add: disk_read_def disk_write_def MMC_drive_def mmcStartSequentialRead_def mmcStartSequentialWrite_def
      start_sequence_def send_hdr_low Let_def)

lemma wait_empty: "empty_slot B \<Longrightarrow> \<exists>s1. wait B s = Some s1"
proof -
  assume e: "empty_slot B"
  obtain buf s1 where r: "spiReceive B 1 s = (buf, s1)" by (metis prod.exhaust)
  obtain c where "buf = [fst (shift_frame B 0xFF c)]" by (rule receive_one[OF r])
  then have "wait_short 16 B s = (True, s1)"
    using e r wait_short.simps(2)[of 15 B s] by (simp add: empty_slot_def)
  then show ?thesis by (simp add: wait_def)
qed

lemma recvr1_empty: "empty_slot B \<Longrightarrow> \<exists>s1. recvr1_loop i B s = (0xFF, s1)"
proof (induction i arbitrary: s)
  case (Suc i)
  obtain buf s1 where r: "spiReceive B 1 s = (buf, s1)" by (metis prod.exhaust)
  obtain c where "buf = [fst (shift_frame B 0xFF c)]" by (rule receive_one[OF r])
  then show ?case using Suc.prems r Suc.IH[OF Suc.prems, of s1] by (simp add: empty_slot_def)
qed simp

lemma command_empty:
  assumes "empty_slot B"
  shows "\<exists>s1. send_command_R1 B cmd arg s = Some (0xFF, s1)"
proof -
  obtain s1 where 1: "wait B (spiSelect B s) = Some s1" using wait_empty[OF assms] by blast
  obtain s2 where "recvr1 B (spiSend B (hdr cmd arg) s1) = (0xFF, s2)"
    using recvr1_empty[OF assms] unfolding recvr1_def by blast
  then show ?thesis using 1 by (simp add: send_command_R1_def send_hdr_def)
qed

lemma go_idle_empty: "empty_slot B \<Longrightarrow> \<exists>s1. go_idle i B s = Some (True, s1)"
proof (induction i arbitrary: s rule: less_induct)
  case (less i)
  obtain s1 where "send_command_R1 B MMC_CMDGOIDLE 0 s = Some (0xFF, s1)" using command_empty[OF less.prems] by blast
  then show ?case using less.IH[of "i - 1" "nap B s1"] less.prems by (simp add: go_idle.simps[of i])
qed

lemma connect_empty:
  assumes "empty_slot B" "mmc_state (mmcp s) = MMC_INSERTED"
  shows "\<exists>s1. mmcConnect B s = Some (True, s1)"
proof -
  obtain s1 where "go_idle MMC_CMD0_RETRY B (spiIgnore B 16 (spiStart B (lscfg (mmcp s)) s)) = Some (True, s1)"
    using go_idle_empty[OF assms(1)] by blast
  then show ?thesis using assms(2) by (simp add: mmcConnect_def)
qed

end
