(* ===== verification/SdCard.thy ===== *)
theory SdCard
  imports Disk
begin

text \<open>
  The disk interface over the card driver, on a card that keeps to the SPI protocol of the SD specification. The contract
  (\<open>sd_card\<close>) lists what the card answers in the phases of the protocol; what it says of time is that a card
  in its slot stays in its phase while the driver sleeps, and that the monitor then sees it. On such a card every
  sector read is the sector last written.
\<close>

unbundle bit_operations_syntax

section \<open>Phases and frames\<close>

datatype job = Read_job nat | Write_job nat

text \<open>
  \<open>Idle sel n\<close>: selected or not, busy for the next \<open>n\<close> polls. \<open>Answering j k\<close>: a command has been
  accepted, and its response comes after \<open>k\<close> bytes. \<open>Reading a d\<close>: block \<open>a\<close> begins after \<open>d\<close>
  bytes. \<open>Writing a n\<close>: waiting for block \<open>a\<close>, busy for \<open>n\<close> polls.
\<close>

datatype phase =
    Idle bool nat
  | Answering job nat
  | Reading nat nat
  | Sending nat
  | Checksum nat
  | Stopping
  | Writing nat nat
  | Receiving nat
  | Received nat "u8 list"
  | Accepting nat "u8 list"
  | Closing

type_synonym store = "nat \<Rightarrow> u8 list"

fun job_cmd :: "job \<Rightarrow> u8" where
  "job_cmd (Read_job a) = 18"
| "job_cmd (Write_job a) = 25"

fun job_block :: "job \<Rightarrow> nat" where
  "job_block (Read_job a) = a"
| "job_block (Write_job a) = a"

fun begun :: "job \<Rightarrow> nat \<Rightarrow> phase" where
  "begun (Read_job a) d = Reading a d"
| "begun (Write_job a) d = Writing a 0"

text \<open>A command on the wire: the checksum is the remainder of the division.\<close>

definition command_frame :: "u8 \<Rightarrow> u32 \<Rightarrow> u8 list" where
  "command_frame cmd arg =
     (let body = [0x40 OR cmd, ucast (drop_bit 24 arg), ucast (drop_bit 16 arg), ucast (drop_bit 8 arg), ucast arg]
      in body @ [push_bit 1 (crc7_reference 0 body) OR 1])"

lemma hdr_is_frame: "hdr cmd arg = command_frame cmd arg"
proof -
  have "crc7 0 buf AND 0x7F = crc7 0 buf" for buf
  proof -
    have "unat (crc7 0 buf) < 128" by (rule crc7_bound) simp
    then have "take_bit 7 (crc7 0 buf) = crc7 0 buf"
      by (simp add: take_bit_eq_mod word_arith_nat_mod)
    then show ?thesis by (simp add: take_bit_eq_mask mask_eq_exp_minus_1)
  qed
  then show ?thesis by (simp add: hdr_def command_frame_def crc7_is_reference Let_def)
qed

section \<open>Hardware that stays as it is while the driver sleeps\<close>

text \<open>
  The driver at rest, its object being \<open>d\<close> and its card counted as present, with the hardware where the
  predicate \<open>holds\<close> says.
\<close>

definition linked ::
    "('c \<Rightarrow> bool) \<Rightarrow> spicfg \<Rightarrow> ('p \<Rightarrow> store \<Rightarrow> 'c \<Rightarrow> bool) \<Rightarrow> 'c mmc \<Rightarrow> 'p \<Rightarrow> store \<Rightarrow> 'c sd \<Rightarrow> bool" where
  "linked switch cfg holds d p m s \<longleftrightarrow>
     mmcp s = d \<and> mmc_cnt d = 0 \<and> is_inserted d = switch \<and> spi_at_rest cfg s \<and> holds p m (slave s)"

locale wired =
  fixes B :: "('c, 'c sd) board" and cfg :: spicfg and switch :: "'c \<Rightarrow> bool" and holds :: "'p \<Rightarrow> store \<Rightarrow> 'c \<Rightarrow> bool"
  assumes no_callback: "sc_end_cb cfg = None"
    and sleep_spi: "spip (asleep B s) = spip s"
    and sleep_card: "holds p m (slave s) \<Longrightarrow> holds p m (slave (asleep B s))"
    and sleep_mmc: "holds p m (slave s) \<Longrightarrow> mmc_cnt (mmcp s) = 0 \<Longrightarrow>
      is_inserted (mmcp s) = switch \<Longrightarrow> mmcp (asleep B s) = mmcp s"

sublocale wired \<subseteq> sleeper B
  by unfold_locales (rule sleep_spi)

context wired
begin

abbreviation on_line :: "'c mmc \<Rightarrow> 'p \<Rightarrow> store \<Rightarrow> 'c sd \<Rightarrow> bool" where
  "on_line \<equiv> linked switch cfg holds"

lemma wait_s_linked:
  assumes "sp_config (spip s) = Some cfg" "mmcp s = d" "mmc_cnt d = 0" "is_inserted d = switch" "holds p m (slave s)"
  shows "on_line d p m (spi_wait_s B s)"
proof (rule spi_wait_rest[OF assms(1) no_callback])
  fix q
  assume w: "spi_wait_s B s = (asleep B (s\<lparr>spip := q\<rparr>))\<lparr>spip := \<lparr>sp_state = SPI_READY,
      sp_config = Some cfg, sp_thread = None\<rparr>\<rparr>"
  let ?t = "asleep B (s\<lparr>spip := q\<rparr>)"
  have "holds p m (slave ?t)" by (rule sleep_card) (simp add: assms)
  moreover have "mmcp ?t = mmcp s" using sleep_mmc[of p m "s\<lparr>spip := q\<rparr>"] assms by simp
  ultimately show ?thesis unfolding w using assms by (simp add: linked_def spi_at_rest_def no_callback)
qed

lemma nap_linked: "on_line d p m s \<Longrightarrow> on_line d p m (nap B s)"
  using sleep_card[of p m s] sleep_mmc[of p m s] by (simp add: linked_def nap_def spi_at_rest_def sleep_spi)

lemma rest_config: "on_line d p m s \<Longrightarrow> sp_config (spip s) = Some cfg"
  by (simp add: linked_def spi_at_rest_def)

lemma send_linked:
  assumes "on_line d p m s" "holds q m1 (snd (shifts B tx (slave s)))"
  shows "on_line d q m1 (spiSend B tx s)"
  unfolding spiSend_def
  by (rule wait_s_linked) (use assms rest_config[OF assms(1)] in
    \<open>simp_all add: spiStartSendI_def spi_lld_send_def set_sp_state_def linked_def\<close>)

lemma ignore_linked:
  assumes "on_line d p m s" "holds q m1 (snd (shifts B (replicate n 0xFF) (slave s)))"
  shows "on_line d q m1 (spiIgnore B n s)"
  unfolding spiIgnore_def
  by (rule wait_s_linked) (use assms rest_config[OF assms(1)] in
    \<open>simp_all add: spiStartIgnoreI_def spi_lld_ignore_def set_sp_state_def linked_def dummytx_def\<close>)

lemma receive_linked:
  assumes "on_line d p m s" "shifts B (replicate n 0xFF) (slave s) = (rx, c)" "holds q m1 c"
  obtains s1 where "spiReceive B n s = (rx, s1)" "on_line d q m1 s1"
proof -
  let ?t = "set_sp_state SPI_ACTIVE s\<lparr>slave := c\<rparr>"
  have "on_line d q m1 (spi_wait_s B ?t)"
    by (rule wait_s_linked) (use assms rest_config[OF assms(1)] in \<open>simp_all add: set_sp_state_def linked_def\<close>)
  moreover have "spiReceive B n s = (rx, spi_wait_s B ?t)"
    using assms(2) by (simp add: spiReceive_def spiStartReceiveI_def spi_lld_receive_def set_sp_state_def dummytx_def)
  ultimately show thesis by (rule that[rotated])
qed

lemma poll_linked:
  assumes "on_line d p m s" "shift_frame B 0xFF (slave s) = (r, c)" "holds q m1 c"
  obtains s1 where "spiReceive B 1 s = ([r], s1)" "on_line d q m1 s1"
proof -
  have "shifts B (replicate 1 0xFF) (slave s) = ([r], c)" using assms(2) by simp
  from receive_linked[OF assms(1) this assms(3)] show thesis using that by blast
qed

end

section \<open>The contract\<close>

text \<open>The driver, between calls or within one, with the card in a phase.\<close>

definition card_state ::
    "spicfg \<Rightarrow> ('c \<Rightarrow> bool) \<Rightarrow> bool \<Rightarrow> (phase \<Rightarrow> store \<Rightarrow> 'c \<Rightarrow> bool) \<Rightarrow> mmcstate \<Rightarrow> phase \<Rightarrow> store \<Rightarrow> 'c sd \<Rightarrow> bool" where
  "card_state cfg switch hc in_phase st p m s \<longleftrightarrow>
     mmc_state (mmcp s) = st \<and> mmc_cnt (mmcp s) = 0 \<and> block_addresses (mmcp s) = hc
     \<and> hscfg (mmcp s) = cfg \<and> is_inserted (mmcp s) = switch \<and> spi_at_rest cfg s \<and> in_phase p m (slave s)"

text \<open>The sectors after a write.\<close>

definition put_sectors :: "nat \<Rightarrow> nat \<Rightarrow> u8 list \<Rightarrow> store \<Rightarrow> store" where
  "put_sectors a n buff m =
     (\<lambda>i. if a \<le> i \<and> i < a + n then take 512 (drop (512 * (i - a)) buff) else m i)"

lemma concat_put_sectors:
  "length buff = 512 * n \<Longrightarrow> concat (map (put_sectors a n buff m) [a..<a + n]) = buff"
proof (induction n arbitrary: a buff m)
  case (Suc n)
  have rest: "concat (map (put_sectors (Suc a) n (drop 512 buff) m) [Suc a..<Suc a + n]) = drop 512 buff"
    by (rule Suc.IH) (use Suc.prems in simp)
  have eq: "map (put_sectors a (Suc n) buff m) [Suc a..<Suc a + n] =
      map (put_sectors (Suc a) n (drop 512 buff) m) [Suc a..<Suc a + n]"
  proof (rule map_cong[OF refl])
    fix i assume "i \<in> set [Suc a..<Suc a + n]"
    then obtain j where "i = Suc a + j" "j < n" by (auto simp: le_iff_add)
    then show "put_sectors a (Suc n) buff m i = put_sectors (Suc a) n (drop 512 buff) m i"
      by (simp add: put_sectors_def add.commute)
  qed
  have "[a..<a + Suc n] = a # [Suc a..<Suc a + n]" by (simp add: upt_rec)
  then have "concat (map (put_sectors a (Suc n) buff m) [a..<a + Suc n]) =
      put_sectors a (Suc n) buff m a @ drop 512 buff"
    by (simp only: list.map concat.simps eq rest)
  then show ?case by (simp add: put_sectors_def)
qed simp

locale sd_card = wired B cfg switch in_phase
  for B :: "('c, 'c sd) board" and cfg :: spicfg and switch :: "'c \<Rightarrow> bool"
    and in_phase :: "phase \<Rightarrow> store \<Rightarrow> 'c \<Rightarrow> bool" +
  fixes hc :: bool and cap :: nat
  assumes addressable: "cap \<le> 2 ^ 32" "hc \<or> 512 * cap \<le> 2 ^ 32"
    and clocked: "in_phase (Idle sel n) m c \<Longrightarrow> in_phase (Idle sel n) m (write_cr1 B v c)"
    and selected: "in_phase (Idle sel n) m c \<Longrightarrow>
      in_phase (Idle (\<not> lev) n) m (write_pad B (sc_ssport cfg) (sc_sspad cfg) lev c)"
    and released: "p \<in> {Stopping, Closing} \<Longrightarrow> in_phase p m c \<Longrightarrow>
      \<exists>n. in_phase (Idle False n) m (write_pad B (sc_ssport cfg) (sc_sspad cfg) True c)"
    and busy: "f \<in> {Idle True, Writing a} \<Longrightarrow> in_phase (f n) m c \<Longrightarrow> shift_frame B 0xFF c = (r, c1) \<Longrightarrow>
      (r = 0xFF \<longleftrightarrow> n = 0) \<and> in_phase (f (n - 1)) m c1"
    and command: "in_phase (Idle True 0) m c \<Longrightarrow> job_block j < cap \<Longrightarrow>
      arg = of_nat (if hc then job_block j else 512 * job_block j) \<Longrightarrow>
      \<exists>k < 9. in_phase (Answering j k) m (snd (shifts B (command_frame (job_cmd j) arg) c))"
    and answer: "in_phase (Answering j k) m c \<Longrightarrow> shift_frame B 0xFF c = (r, c1) \<Longrightarrow>
      (if k = 0 then r = 0 \<and> (\<exists>d < 10000. in_phase (begun j d) m c1)
       else r = 0xFF \<and> in_phase (Answering j (k - 1)) m c1)"
    and token: "in_phase (Reading a d) m c \<Longrightarrow> a < cap \<Longrightarrow> shift_frame B 0xFF c = (r, c1) \<Longrightarrow>
      (if d = 0 then r = 0xFE \<and> in_phase (Sending a) m c1
       else r \<noteq> 0xFE \<and> in_phase (Reading a (d - 1)) m c1)"
    and sending: "in_phase (Sending a) m c \<Longrightarrow> shifts B (replicate 512 0xFF) c = (rs, c1) \<Longrightarrow>
      rs = m a \<and> in_phase (Checksum a) m c1"
    and checksum: "in_phase (Checksum a) m c \<Longrightarrow>
      \<exists>d < 10000. in_phase (Reading (Suc a) d) m (snd (shifts B (replicate 2 0xFF) c))"
    and stop_reading: "in_phase (Reading a d) m c \<Longrightarrow>
      in_phase Stopping m (snd (shifts B [0x4C, 0, 0, 0, 0, 1, 0xFF] c))"
    and stopping: "in_phase Stopping m c \<Longrightarrow> in_phase Stopping m (snd (shift_frame B 0xFF c))"
    and data_token: "in_phase (Writing a 0) m c \<Longrightarrow> in_phase (Receiving a) m (snd (shifts B [0xFF, 0xFC] c))"
    and receiving: "in_phase (Receiving a) m c \<Longrightarrow> length dat = 512 \<Longrightarrow>
      in_phase (Received a dat) m (snd (shifts B dat c))"
    and received: "in_phase (Received a dat) m c \<Longrightarrow>
      in_phase (Accepting a dat) m (snd (shifts B (replicate 2 0xFF) c))"
    and accepting: "in_phase (Accepting a dat) m c \<Longrightarrow> a < cap \<Longrightarrow> shift_frame B 0xFF c = (r, c1) \<Longrightarrow>
      r AND 0x1F = 5 \<and> (\<exists>n. in_phase (Writing (Suc a) n) (m(a := dat)) c1)"
    and stop_writing: "in_phase (Writing a 0) m c \<Longrightarrow> in_phase Closing m (snd (shifts B [0xFD, 0xFF] c))"
begin

abbreviation good :: "mmcstate \<Rightarrow> phase \<Rightarrow> store \<Rightarrow> 'c sd \<Rightarrow> bool" where
  "good \<equiv> card_state cfg switch hc in_phase"

lemmas good_def = card_state_def

section \<open>One transfer\<close>

lemma good_linked:
  "good st p m s \<longleftrightarrow> mmc_state (mmcp s) = st \<and> block_addresses (mmcp s) = hc \<and> hscfg (mmcp s) = cfg
     \<and> linked switch cfg in_phase (mmcp s) p m s"
  by (auto simp: good_def linked_def)

lemma linked_good:
  "good st p m s \<Longrightarrow> linked switch cfg in_phase (mmcp s) q m1 s1 \<Longrightarrow> good st q m1 s1"
  by (simp add: good_def linked_def)

lemma nap_good: "good st p m s \<Longrightarrow> good st p m (nap B s)"
  using nap_linked[of "mmcp s" p m s] linked_good good_linked by blast

lemma send_good:
  "good st p m s \<Longrightarrow> in_phase q m1 (snd (shifts B tx (slave s))) \<Longrightarrow> good st q m1 (spiSend B tx s)"
  using send_linked[of "mmcp s" p m s q m1 tx] linked_good good_linked by blast

lemma ignore_good:
  "good st p m s \<Longrightarrow> in_phase q m1 (snd (shifts B (replicate n 0xFF) (slave s))) \<Longrightarrow> good st q m1 (spiIgnore B n s)"
  using ignore_linked[of "mmcp s" p m s q m1 n] linked_good good_linked by blast

lemma receive_good:
  assumes "good st p m s" "shifts B (replicate n 0xFF) (slave s) = (rx, c)" "in_phase q m1 c"
  obtains s1 where "spiReceive B n s = (rx, s1)" "good st q m1 s1"
  using receive_linked[OF _ assms(2,3), of "mmcp s" p m] assms(1) that linked_good good_linked by metis

lemma poll_good:
  assumes "good st p m s" "shift_frame B 0xFF (slave s) = (r, c)" "in_phase q m1 c"
  obtains s1 where "spiReceive B 1 s = ([r], s1)" "good st q m1 s1"
  using poll_linked[OF _ assms(2,3), of "mmcp s" p m] assms(1) that linked_good good_linked by metis

lemma select_good:
  assumes "good st (Idle sel n) m s"
  shows "good st (Idle True n) m (spiSelect B s)"
  using assms selected[of sel n m "slave s" False]
  by (simp add: good_def spiSelect_def spi_lld_select_def spi_at_rest_def Let_def)

lemma unselect_good:
  assumes "good st p m s" "p \<in> {Stopping, Closing}"
  obtains n where "good st (Idle False n) m (spiUnselect B s)"
proof -
  have "in_phase p m (slave s)" using assms(1) by (simp add: good_def)
  from released[OF assms(2) this] obtain n where
    "in_phase (Idle False n) m (write_pad B (sc_ssport cfg) (sc_sspad cfg) True (slave s))" by blast
  then show thesis using assms(1) that[of n]
    by (simp add: good_def spiUnselect_def spi_lld_unselect_def spi_at_rest_def Let_def)
qed

lemma start_good:
  assumes "good st (Idle sel n) m s"
  shows "good st (Idle sel n) m (spiStart B cfg s)"
  using assms clocked
  by (simp add: good_def spiStart_def spi_lld_start_def spi_at_rest_def set_sp_state_def Let_def)

section \<open>Waiting\<close>

lemma wait_short_good:
  assumes "p \<in> {Idle True, Writing a}"
  shows "good st (p n) m s \<Longrightarrow> \<exists>b s1 n1. wait_short i B s = (b, s1) \<and> good st (p n1) m s1 \<and> (b \<longrightarrow> n1 = 0)"
proof (induction i arbitrary: s n)
  case 0
  then show ?case by auto
next
  case (Suc i)
  obtain r c where r: "shift_frame B 0xFF (slave s) = (r, c)" by (metis prod.exhaust)
  have b: "(r = 0xFF \<longleftrightarrow> n = 0) \<and> in_phase (p (n - 1)) m c"
    using busy[OF assms _ r, of n m] Suc.prems by (simp add: good_def)
  from poll_good[OF Suc.prems r conjunct2[OF b]] obtain s1 where
    s1: "spiReceive B 1 s = ([r], s1)" "good st (p (n - 1)) m s1" by blast
  show ?case
  proof (cases "n = 0")
    case True
    then have "wait_short (Suc i) B s = (True, s1)" "good st (p 0) m s1" using s1 b by simp_all
    then show ?thesis by blast
  next
    case False
    then have "wait_short (Suc i) B s = wait_short i B s1" using s1(1) b by simp
    then show ?thesis using Suc.IH[OF s1(2)] by simp
  qed
qed

lemma wait_long_good:
  assumes "p \<in> {Idle True, Writing a}"
  shows "good st (p n) m s \<Longrightarrow> \<exists>s1. wait_long B s = Some s1 \<and> good st (p 0) m s1"
proof (induction n arbitrary: s)
  case 0
  obtain r c where r: "shift_frame B 0xFF (slave s) = (r, c)" by (metis prod.exhaust)
  have b: "r = 0xFF" "in_phase (p 0) m c" using busy[OF assms _ r, of 0 m] 0 by (simp_all add: good_def)
  from poll_good[OF 0 r b(2)] obtain s1 where "spiReceive B 1 s = ([r], s1)" "good st (p 0) m s1" by blast
  then show ?case using b(1) by (simp add: wait_long.simps[of B s])
next
  case (Suc n)
  obtain r c where r: "shift_frame B 0xFF (slave s) = (r, c)" by (metis prod.exhaust)
  have b: "r \<noteq> 0xFF" "in_phase (p n) m c" using busy[OF assms _ r, of "Suc n" m] Suc.prems by (simp_all add: good_def)
  from poll_good[OF Suc.prems r b(2)] obtain s1 where
    s1: "spiReceive B 1 s = ([r], s1)" "good st (p n) m s1" by blast
  then have "wait_long B s = wait_long B (nap B s1)" using b(1) by (simp add: wait_long.simps[of B s])
  then show ?case using Suc.IH[OF nap_good[OF s1(2)]] by simp
qed

lemma wait_good:
  assumes "p \<in> {Idle True, Writing a}" "good st (p n) m s"
  obtains s1 where "wait B s = Some s1" "good st (p 0) m s1"
proof -
  from wait_short_good[OF assms, of 16] obtain b s1 n1 where
    s1: "wait_short 16 B s = (b, s1)" "good st (p n1) m s1" "b \<longrightarrow> n1 = 0" by blast
  show thesis
  proof (cases b)
    case True
    then show thesis using that[of s1] s1 by (simp add: wait_def)
  next
    case False
    then show thesis using that wait_long_good[OF assms(1) s1(2)] s1(1) by (auto simp: wait_def)
  qed
qed

section \<open>Commands\<close>

lemma recvr1_good:
  "good st (Answering j k) m s \<Longrightarrow> k < i \<Longrightarrow>
     \<exists>s1 d. recvr1_loop i B s = (0, s1) \<and> d < 10000 \<and> good st (begun j d) m s1"
proof (induction i arbitrary: s k)
  case (Suc i)
  obtain r c where r: "shift_frame B 0xFF (slave s) = (r, c)" by (metis prod.exhaust)
  have ph: "in_phase (Answering j k) m (slave s)" using Suc.prems by (simp add: good_def)
  note a = answer[OF ph r]
  show ?case
  proof (cases k)
    case 0
    then obtain d where d: "r = 0" "d < 10000" "in_phase (begun j d) m c" using a by auto
    from poll_good[OF Suc.prems(1) r d(3)] obtain s1 where "spiReceive B 1 s = ([r], s1)" "good st (begun j d) m s1"
      by blast
    then show ?thesis using d by auto
  next
    case (Suc k')
    then have d: "r = 0xFF" "in_phase (Answering j k') m c" using a by simp_all
    from poll_good[OF Suc.prems(1) r d(2)] obtain s1 where
      s1: "spiReceive B 1 s = ([r], s1)" "good st (Answering j k') m s1" by blast
    then have "recvr1_loop (Suc i) B s = recvr1_loop i B s1" using d(1) by simp
    then show ?thesis using Suc.IH[OF s1(2)] Suc.prems(2) Suc by simp
  qed
qed simp

lemma recvr1_stopping:
  "good st Stopping m s \<Longrightarrow> good st Stopping m (snd (recvr1_loop i B s))"
proof (induction i arbitrary: s)
  case (Suc i)
  obtain r c where r: "shift_frame B 0xFF (slave s) = (r, c)" by (metis prod.exhaust)
  have "in_phase Stopping m c" using stopping[of m "slave s"] Suc.prems r by (simp add: good_def)
  from poll_good[OF Suc.prems r this] obtain s1 where "spiReceive B 1 s = ([r], s1)" "good st Stopping m s1" by blast
  then show ?case using Suc.IH by simp
qed simp

lemma block_arg_good:
  assumes "block_addresses (mmcp s) = hc"
  shows "block_arg s w = of_nat (if hc then unat w else 512 * unat w)"
  using assms by (simp add: block_arg_def MMC_SECTOR_SIZE_def mult.commute)

lemma start_sequence_good:
  assumes "good MMC_READY (Idle sel n) m s" "unat w < cap" "j \<in> {Read_job (unat w), Write_job (unat w)}"
  obtains s1 d where "start_sequence st (job_cmd j) B w s = Some (False, s1)" "d < 10000" "good st (begun j d) m s1"
proof -
  let ?s1 = "set_mmc_state st s"
  let ?s2 = "spiSelect B (spiStart B (hscfg (mmcp ?s1)) ?s1)"
  have "good st (Idle sel n) m ?s1" using assms(1) by (simp add: good_def set_mmc_state_def spi_at_rest_def)
  moreover from this have "hscfg (mmcp ?s1) = cfg" by (simp add: good_def)
  ultimately have g2: "good st (Idle True n) m ?s2" using select_good[OF start_good] by simp
  obtain s3 where s3: "wait B ?s2 = Some s3" "good st (Idle True 0) m s3"
    by (rule wait_good[of "Idle True", OF _ g2]) auto
  let ?arg = "block_arg ?s2 w"
  have "?arg = of_nat (if hc then job_block j else 512 * job_block j)"
    using block_arg_good[of ?s2 w] g2 assms(3) by (auto simp: good_def)
  moreover have "in_phase (Idle True 0) m (slave s3)" "job_block j < cap" using s3 assms by (auto simp: good_def)
  ultimately obtain k where k: "k < 9" "in_phase (Answering j k) m (snd (shifts B (command_frame (job_cmd j) ?arg) (slave s3)))"
    using command by blast
  let ?s4 = "spiSend B (hdr (job_cmd j) ?arg) s3"
  have "good st (Answering j k) m ?s4" using s3(2) k(2) by (simp add: send_good hdr_is_frame)
  from recvr1_good[OF this k(1)] obtain s5 d where
    s5: "recvr1_loop 9 B ?s4 = (0, s5)" "d < 10000" "good st (begun j d) m s5" by blast
  have "mmc_state (mmcp s) = MMC_READY" using assms(1) by (simp add: good_def)
  then have "start_sequence st (job_cmd j) B w s = Some (False, s5)"
    using s3(1) s5(1) by (simp add: start_sequence_def send_hdr_def recvr1_def Let_def)
  then show thesis using that s5 by blast
qed

section \<open>Blocks\<close>

lemma sequential_read_good:
  assumes "good MMC_READING (Reading a d) m s" "a < cap" "d < 10000"
  obtains s1 d1 where "mmcSequentialRead B buffer s = ((False, m a @ drop 512 buffer), s1)" "d1 < 10000"
    "good MMC_READING (Reading (Suc a) d1) m s1" "length (m a) = 512"
proof -
  have "\<exists>s1 d1. read_block i B buffer s = ((False, m a @ drop 512 buffer), s1) \<and> d1 < 10000
      \<and> good MMC_READING (Reading (Suc a) d1) m s1 \<and> length (m a) = 512"
    if "good MMC_READING (Reading a d) m s" "d < i" for i s buffer using that
  proof (induction i arbitrary: d s buffer)
    case (Suc i)
    obtain r c where r: "shift_frame B 0xFF (slave s) = (r, c)" by (metis prod.exhaust)
    have "in_phase (Reading a d) m (slave s)" using Suc.prems by (simp add: good_def)
    note t = token[OF this assms(2) r]
    show ?case
    proof (cases d)
      case 0
      then have t0: "r = 0xFE" "in_phase (Sending a) m c" using t by simp_all
      from poll_good[OF Suc.prems(1) r t0(2)] obtain s1 where
        s1: "spiReceive B 1 s = ([r], s1)" "good MMC_READING (Sending a) m s1" by blast
      obtain rs c1 where x: "shifts B (replicate 512 0xFF) (slave s1) = (rs, c1)" by (metis prod.exhaust)
      have y: "rs = m a" "in_phase (Checksum a) m c1" using sending[OF _ x] s1(2) by (simp_all add: good_def)
      from receive_good[OF s1(2) x y(2)] obtain s2 where
        s2: "spiReceive B 512 s1 = (rs, s2)" "good MMC_READING (Checksum a) m s2" by blast
      have "in_phase (Checksum a) m (slave s2)" using s2(2) by (simp add: good_def)
      from checksum[OF this] obtain d1 where
        d1: "d1 < 10000" "in_phase (Reading (Suc a) d1) m (snd (shifts B (replicate 2 0xFF) (slave s2)))" by blast
      have "good MMC_READING (Reading (Suc a) d1) m (spiIgnore B 2 s2)" by (rule ignore_good[OF s2(2) d1(2)])
      moreover have "length (m a) = 512" using length_shifts[of B "replicate 512 0xFF" "slave s1"] x y(1) by simp
      moreover have "read_block (Suc i) B buffer s = ((False, m a @ drop 512 buffer), spiIgnore B 2 s2)"
        using s1(1) s2(1) t0(1) y(1) by (simp add: read_block.simps[of "Suc i"] MMC_SECTOR_SIZE_def)
      ultimately show ?thesis using d1(1) by blast
    next
      case (Suc d')
      then have t1: "r \<noteq> 0xFE" "in_phase (Reading a d') m c" using t by simp_all
      from poll_good[OF Suc.prems(1) r t1(2)] obtain s1 where
        s1: "spiReceive B 1 s = ([r], s1)" "good MMC_READING (Reading a d') m s1" by blast
      have "read_block (Suc i) B buffer s = read_block i B (buffer[0 := r]) s1"
        using s1(1) t1(1) by (simp add: read_block.simps[of "Suc i"])
      moreover have "drop 512 (buffer[0 := r]) = drop 512 buffer" by (simp add: drop_update_cancel)
      ultimately show ?thesis using Suc.IH[OF s1(2), of "buffer[0 := r]"] Suc.prems(2) Suc by simp
    qed
  qed simp
  from this[OF assms(1), of MMC_WAIT_DATA buffer] assms(3) obtain s1 d1 where
    "read_block MMC_WAIT_DATA B buffer s = ((False, m a @ drop 512 buffer), s1)" "d1 < 10000"
    "good MMC_READING (Reading (Suc a) d1) m s1" "length (m a) = 512"
    by (auto simp: MMC_WAIT_DATA_def)
  moreover have "mmc_state (mmcp s) = MMC_READING" using assms(1) by (simp add: good_def)
  ultimately show thesis using that by (simp add: mmcSequentialRead_def)
qed

lemma read_sectors_good:
  "good MMC_READING (Reading a d) m s \<Longrightarrow> a + n \<le> cap \<Longrightarrow> d < 10000 \<Longrightarrow>
     \<exists>s1 d1. read_sectors n B buff s = ((False, concat (map m [a..<a + n]) @ drop (512 * n) buff), s1)
       \<and> good MMC_READING (Reading (a + n) d1) m s1"
proof (induction n arbitrary: a d s buff)
  case 0
  then show ?case by auto
next
  case (Suc n)
  have "a < cap" using Suc.prems(2) by simp
  from sequential_read_good[OF Suc.prems(1) this Suc.prems(3)] obtain s1 d1 where
    s1: "mmcSequentialRead B buff s = ((False, m a @ drop 512 buff), s1)" "d1 < 10000"
      "good MMC_READING (Reading (Suc a) d1) m s1" "length (m a) = 512" by blast
  have "Suc a + n \<le> cap" using Suc.prems(2) by simp
  from Suc.IH[OF s1(3) this s1(2), of "drop 512 buff"] obtain s2 d2 where
    s2: "read_sectors n B (drop 512 buff) s1 =
      ((False, concat (map m [Suc a..<Suc a + n]) @ drop (512 * n) (drop 512 buff)), s2)"
      "good MMC_READING (Reading (Suc a + n) d2) m s2" by blast
  have "[a..<a + Suc n] = a # [Suc a..<Suc a + n]" by (simp add: upt_rec)
  then have "read_sectors (Suc n) B buff s =
      ((False, concat (map m [a..<a + Suc n]) @ drop (512 * Suc n) buff), s2)"
    using s1 s2(1) by (simp add: MMC_SECTOR_SIZE_def add.commute)
  then show ?case using s2(2) by auto
qed

lemma stop_read_good:
  assumes "good MMC_READING (Reading a d) m s"
  obtains s1 n where "mmcStopSequentialRead B s = (False, s1)" "good MMC_READY (Idle False n) m s1"
proof -
  have "in_phase (Reading a d) m (slave s)" using assms by (simp add: good_def)
  moreover have "stopcmd = [0x4C, 0, 0, 0, 0, 1, 0xFF]" by (simp add: stopcmd_def MMC_CMDSTOP_def)
  ultimately have "good MMC_READING Stopping m (spiSend B stopcmd s)" using send_good[OF assms] stop_reading by simp
  then have "good MMC_READING Stopping m (snd (recvr1 B (spiSend B stopcmd s)))"
    unfolding recvr1_def by (rule recvr1_stopping)
  from unselect_good[OF this] obtain n where
    n: "good MMC_READING (Idle False n) m (spiUnselect B (snd (recvr1 B (spiSend B stopcmd s))))" by blast
  show thesis
  proof (rule that)
    show "mmcStopSequentialRead B s =
        (False, set_mmc_state MMC_READY (spiUnselect B (snd (recvr1 B (spiSend B stopcmd s)))))"
      using assms n by (simp add: mmcStopSequentialRead_def back_to_def good_def)
    show "good MMC_READY (Idle False n) m (set_mmc_state MMC_READY (spiUnselect B (snd (recvr1 B (spiSend B stopcmd s)))))"
      using n by (simp add: good_def set_mmc_state_def spi_at_rest_def)
  qed
qed

lemma sequential_write_good:
  assumes "good MMC_WRITING (Writing a 0) m s" "a < cap" "512 \<le> length buffer"
  obtains s1 where "mmcSequentialWrite B buffer s = Some (False, s1)"
    "good MMC_WRITING (Writing (Suc a) 0) (m(a := take 512 buffer)) s1"
proof -
  let ?dat = "take 512 buffer"
  let ?s1 = "spiSend B start_token s"
  let ?s2 = "spiSend B ?dat ?s1"
  let ?s3 = "spiIgnore B 2 ?s2"
  have 1: "good MMC_WRITING (Receiving a) m ?s1"
    by (rule send_good[OF assms(1)], unfold start_token_def, rule data_token) (use assms(1) in \<open>simp add: good_def\<close>)
  have 2: "good MMC_WRITING (Received a ?dat) m ?s2"
    by (rule send_good[OF 1], rule receiving) (use 1 assms(3) in \<open>simp_all add: good_def\<close>)
  have 3: "good MMC_WRITING (Accepting a ?dat) m ?s3"
    by (rule ignore_good[OF 2], rule received) (use 2 in \<open>simp add: good_def\<close>)
  obtain r c where r: "shift_frame B 0xFF (slave ?s3) = (r, c)" by (metis prod.exhaust)
  have "in_phase (Accepting a ?dat) m (slave ?s3)" using 3 by (simp add: good_def)
  from accepting[OF this assms(2) r] obtain n where
    n: "r AND 0x1F = 5" "in_phase (Writing (Suc a) n) (m(a := ?dat)) c" by blast
  from poll_good[OF 3 r n(2)] obtain s4 where
    s4: "spiReceive B 1 ?s3 = ([r], s4)" "good MMC_WRITING (Writing (Suc a) n) (m(a := ?dat)) s4" by blast
  obtain s5 where s5: "wait B s4 = Some s5" "good MMC_WRITING (Writing (Suc a) 0) (m(a := ?dat)) s5"
    by (rule wait_good[of "Writing (Suc a)", OF _ s4(2)]) auto
  have "mmc_state (mmcp s) = MMC_WRITING" using assms(1) by (simp add: good_def)
  then have "mmcSequentialWrite B buffer s = Some (False, s5)"
    using s4(1) n(1) s5(1) by (simp add: mmcSequentialWrite_def MMC_SECTOR_SIZE_def)
  then show thesis using s5(2) by (rule that)
qed

lemma put_sectors_Suc:
  "put_sectors (Suc a) n (drop 512 buff) (m(a := take 512 buff)) = put_sectors a (Suc n) buff m"
proof
  fix i
  show "put_sectors (Suc a) n (drop 512 buff) (m(a := take 512 buff)) i = put_sectors a (Suc n) buff m i"
  proof (cases "Suc a \<le> i")
    case True
    then obtain j where "i = Suc a + j" using le_Suc_ex by blast
    then show ?thesis by (simp add: put_sectors_def Suc_diff_le add.commute)
  qed (auto simp: put_sectors_def)
qed

lemma write_sectors_good:
  "good MMC_WRITING (Writing a 0) m s \<Longrightarrow> a + n \<le> cap \<Longrightarrow> 512 * n \<le> length buff \<Longrightarrow>
     \<exists>s1. write_sectors n B buff s = Some (False, s1)
       \<and> good MMC_WRITING (Writing (a + n) 0) (put_sectors a n buff m) s1"
proof (induction n arbitrary: a m s buff)
  case 0
  moreover have "put_sectors a 0 buff m = m" by (rule ext) (auto simp: put_sectors_def)
  ultimately show ?case by simp
next
  case (Suc n)
  have "a < cap" "512 \<le> length buff" using Suc.prems(2,3) by simp_all
  from sequential_write_good[OF Suc.prems(1) this] obtain s1 where
    s1: "mmcSequentialWrite B buff s = Some (False, s1)"
      "good MMC_WRITING (Writing (Suc a) 0) (m(a := take 512 buff)) s1" by blast
  have "Suc a + n \<le> cap" "512 * n \<le> length (drop 512 buff)" using Suc.prems(2,3) by simp_all
  from Suc.IH[OF s1(2) this] obtain s2 where
    "write_sectors n B (drop 512 buff) s1 = Some (False, s2)"
    "good MMC_WRITING (Writing (a + Suc n) 0) (put_sectors a (Suc n) buff m) s2"
    unfolding put_sectors_Suc by auto
  then show ?case using s1(1) by (auto simp: MMC_SECTOR_SIZE_def)
qed

lemma stop_write_good:
  assumes "good MMC_WRITING (Writing a 0) m s"
  obtains s1 n where "mmcStopSequentialWrite B s = (False, s1)" "good MMC_READY (Idle False n) m s1"
proof -
  let ?s1 = "spiSend B stop_token s"
  have "good MMC_WRITING Closing m ?s1"
    by (rule send_good[OF assms], unfold stop_token_def, rule stop_writing[of a]) (use assms in \<open>simp add: good_def\<close>)
  from unselect_good[OF this] obtain n where n: "good MMC_WRITING (Idle False n) m (spiUnselect B ?s1)" by blast
  show thesis
  proof (rule that)
    show "mmcStopSequentialWrite B s = (False, set_mmc_state MMC_READY (spiUnselect B ?s1))"
      using assms n by (simp add: mmcStopSequentialWrite_def good_def Let_def)
    show "good MMC_READY (Idle False n) m (set_mmc_state MMC_READY (spiUnselect B ?s1))"
      using n by (simp add: good_def set_mmc_state_def spi_at_rest_def)
  qed
qed

section \<open>The disk\<close>

theorem disk_read_good:
  assumes "good MMC_READY (Idle sel n) m s" "unat sector + unat count \<le> cap" "0 < count"
  obtains s1 n1 where "disk_read B 0 buff sector count s =
      Some ((RES_OK, concat (map m [unat sector..<unat sector + unat count]) @ drop (512 * unat count) buff), s1)"
    "good MMC_READY (Idle False n1) m s1"
proof -
  let ?a = "unat sector" and ?n = "unat count"
  have "?a < cap" using assms(2,3) by (simp add: word_less_nat_alt)
  from start_sequence_good[OF assms(1) this, of "Read_job ?a" MMC_READING] obtain s1 d where
    s1: "mmcStartSequentialRead B sector s = Some (False, s1)" "d < 10000" "good MMC_READING (Reading ?a d) m s1"
    by (auto simp: mmcStartSequentialRead_def MMC_CMDREADMULTIPLE_def)
  from read_sectors_good[OF s1(3) assms(2) s1(2), of buff] obtain s2 d2 where
    s2: "read_sectors ?n B buff s1 = ((False, concat (map m [?a..<?a + ?n]) @ drop (512 * ?n) buff), s2)"
      "good MMC_READING (Reading (?a + ?n) d2) m s2" by blast
  obtain s3 n1 where s3: "mmcStopSequentialRead B s2 = (False, s3)" "good MMC_READY (Idle False n1) m s3"
    by (rule stop_read_good[OF s2(2)])
  have "mmc_state (mmcp s) = MMC_READY" using assms(1) by (simp add: good_def)
  then show thesis using that[OF _ s3(2)] s1(1) s2(1) s3(1) by (simp add: disk_read_def MMC_drive_def)
qed

theorem disk_write_good:
  assumes "good MMC_READY (Idle sel n) m s" "unat sector + unat count \<le> cap" "0 < count"
    "512 * unat count \<le> length buff" "\<not> mmcIsWriteProtected s"
  obtains s1 n1 where "disk_write B 0 buff sector count s = Some (RES_OK, s1)"
    "good MMC_READY (Idle False n1) (put_sectors (unat sector) (unat count) buff m) s1"
proof -
  let ?a = "unat sector" and ?n = "unat count"
  have "?a < cap" using assms(2,3) by (simp add: word_less_nat_alt)
  from start_sequence_good[OF assms(1) this, of "Write_job ?a" MMC_WRITING] obtain s1 where
    s1: "mmcStartSequentialWrite B sector s = Some (False, s1)" "good MMC_WRITING (Writing ?a 0) m s1"
    by (auto simp: mmcStartSequentialWrite_def MMC_CMDWRITEMULTIPLE_def)
  from write_sectors_good[OF s1(2) assms(2,4)] obtain s2 where
    s2: "write_sectors ?n B buff s1 = Some (False, s2)"
      "good MMC_WRITING (Writing (?a + ?n) 0) (put_sectors ?a ?n buff m) s2" by blast
  obtain s3 n1 where s3: "mmcStopSequentialWrite B s2 = (False, s3)"
      "good MMC_READY (Idle False n1) (put_sectors ?a ?n buff m) s3"
    by (rule stop_write_good[OF s2(2)])
  have "mmc_state (mmcp s) = MMC_READY" using assms(1) by (simp add: good_def)
  then show thesis using that[OF _ s3(2)] s1(1) s2(1) s3(1) assms(5) by (simp add: disk_write_def MMC_drive_def)
qed

end

end
