(* ===== verification/CardModel.thy ===== *)
theory CardModel
  imports SdCard
begin

text \<open>
  A card that keeps the contract of \<^theory_text>\<open>SdCard\<close>, byte by byte, and a board with it: the instance on which the
  theorems about cards are applied. While the driver sleeps, the monitor finds the card in its slot.
\<close>

unbundle bit_operations_syntax

datatype stage =
    S_idle bool nat "u8 list"
  | S_answer job nat
  | S_read nat nat
  | S_send nat nat
  | S_crc nat nat
  | S_stop
  | S_write nat nat
  | S_receive nat "u8 list"
  | S_received nat "u8 list" nat
  | S_close

record sdcard =
  stage :: stage
  cells :: store

definition frame_arg :: "u8 list \<Rightarrow> u32" where
  "frame_arg f = push_bit 24 (ucast (f ! 1)) OR push_bit 16 (ucast (f ! 2)) OR push_bit 8 (ucast (f ! 3)) OR ucast (f ! 4)"

definition accept :: "bool \<Rightarrow> nat \<Rightarrow> u8 list \<Rightarrow> stage" where
  "accept hc cap f =
     (let arg = frame_arg f; a = (if hc then unat arg else unat arg div 512)
      in if a < cap \<and> f = command_frame 18 arg then S_answer (Read_job a) 1
         else if a < cap \<and> f = command_frame 25 arg then S_answer (Write_job a) 1
         else S_idle True 0 [])"

fun card_step :: "bool \<Rightarrow> nat \<Rightarrow> u8 \<Rightarrow> stage \<Rightarrow> store \<Rightarrow> u8 \<times> stage \<times> store" where
  "card_step hc cap b (S_idle sel n f) m =
     (if \<not> sel then (0xFF, S_idle sel n f, m)
      else if 0 < n then (0, S_idle sel (n - 1) f, m)
      else if f = [] \<and> b = 0xFF then (0xFF, S_idle sel 0 [], m)
      else if length f < 5 then (0xFF, S_idle sel 0 (f @ [b]), m)
      else (0xFF, accept hc cap (f @ [b]), m))"
| "card_step hc cap b (S_answer j k) m =
     (if 0 < k then (0xFF, S_answer j (k - 1), m)
      else (0, case j of Read_job a \<Rightarrow> S_read a 2 | Write_job a \<Rightarrow> S_write a 0, m))"
| "card_step hc cap b (S_read a d) m =
     (if b \<noteq> 0xFF then (0xFF, S_stop, m)
      else if 0 < d then (0xFF, S_read a (d - 1), m)
      else if a < cap then (0xFE, S_send a 0, m) else (0x08, S_read a 0, m))"
| "card_step hc cap b (S_send a i) m = (m a ! i, if 511 \<le> i then S_crc a 1 else S_send a (Suc i), m)"
| "card_step hc cap b (S_crc a n) m = (0xFF, if 0 < n then S_crc a (n - 1) else S_read (Suc a) 2, m)"
| "card_step hc cap b S_stop m = (0xFF, S_stop, m)"
| "card_step hc cap b (S_write a n) m =
     (if 0 < n then (0, S_write a (n - 1), m)
      else if b = 0xFC then (0xFF, S_receive a [], m)
      else if b = 0xFD then (0xFF, S_close, m) else (0xFF, S_write a 0, m))"
| "card_step hc cap b (S_receive a f) m =
     (0xFF, if 511 \<le> length f then S_received a (f @ [b]) 2 else S_receive a (f @ [b]), m)"
| "card_step hc cap b (S_received a f n) m =
     (if 0 < n then (0xFF, S_received a f (n - 1), m)
      else if a < cap then (0xE5, S_write (Suc a) 3, m(a := f)) else (0xED, S_write a 0, m))"
| "card_step hc cap b S_close m = (0xFF, S_close, m)"

definition card_shift :: "bool \<Rightarrow> nat \<Rightarrow> u8 \<Rightarrow> sdcard \<Rightarrow> u8 \<times> sdcard" where
  "card_shift hc cap b c =
     (case card_step hc cap b (stage c) (cells c) of (r, st, m) \<Rightarrow> (r, \<lparr>stage = st, cells = m\<rparr>))"

definition card_pad :: "nat \<Rightarrow> nat \<Rightarrow> bool \<Rightarrow> sdcard \<Rightarrow> sdcard" where
  "card_pad port pad lev c =
     c\<lparr>stage := (case stage c of S_idle sel n f \<Rightarrow> S_idle (\<not> lev) n [] | _ \<Rightarrow> S_idle (\<not> lev) 1 [])\<rparr>"

definition card_board :: "bool \<Rightarrow> nat \<Rightarrow> (sdcard, sdcard sd) board" where
  "card_board hc cap =
     \<lparr>shift_frame = card_shift hc cap, write_pad = card_pad, write_cr1 = \<lambda>v c. c, asleep = monitor_expire,
      end_callback = \<lambda>f s. s, this_thread = mainthread\<rparr>"

fun at_stage :: "nat \<Rightarrow> phase \<Rightarrow> stage \<Rightarrow> bool" where
  "at_stage cap (Idle sel n) st = (st = S_idle sel n [])"
| "at_stage cap (Answering j k) st = (st = S_answer j k \<and> k < 9)"
| "at_stage cap (Reading a d) st = (st = S_read a d)"
| "at_stage cap (Sending a) st = (st = S_send a 0 \<and> a < cap)"
| "at_stage cap (Checksum a) st = (st = S_crc a 1)"
| "at_stage cap Stopping st = (st = S_stop)"
| "at_stage cap (Writing a n) st = (st = S_write a n)"
| "at_stage cap (Receiving a) st = (st = S_receive a [])"
| "at_stage cap (Received a dat) st = (st = S_received a dat 2 \<and> length dat = 512)"
| "at_stage cap (Accepting a dat) st = (st = S_received a dat 0 \<and> length dat = 512)"
| "at_stage cap Closing st = (st = S_close)"

definition card_phase :: "nat \<Rightarrow> phase \<Rightarrow> store \<Rightarrow> sdcard \<Rightarrow> bool" where
  "card_phase cap p m c \<longleftrightarrow> at_stage cap p (stage c) \<and> cells c = m \<and> (\<forall>i < cap. length (m i) = 512)"

lemma frame_arg_frame: "frame_arg (command_frame cmd arg) = arg"
proof (rule bit_word_eqI)
  fix n assume "n < LENGTH(32)"
  then have "n < 8 \<or> 8 \<le> n \<and> n < 16 \<or> 16 \<le> n \<and> n < 24 \<or> 24 \<le> n \<and> n < 32" by auto
  then show "bit (frame_arg (command_frame cmd arg)) n = bit arg n"
    by (elim disjE) (auto simp: frame_arg_def command_frame_def Let_def bit_simps)
qed

lemma shift_card_board [simp]: "shift_frame (card_board hc cap) = card_shift hc cap"
  "write_pad (card_board hc cap) = card_pad" "write_cr1 (card_board hc cap) v c = c"
  "asleep (card_board hc cap) = monitor_expire" "end_callback (card_board hc cap) f s = s"
  by (simp_all add: card_board_def)

lemma card_command:
  assumes "stage c = S_idle True 0 []" "cmd = 18 \<or> cmd = 25"
  shows "snd (shifts (card_board hc cap) (command_frame cmd arg) c) =
    \<lparr>stage = accept hc cap (command_frame cmd arg), cells = cells c\<rparr>"
proof -
  have "0x40 OR cmd \<noteq> 0xFF" using assms(2) by auto
  then show ?thesis using assms(1) by (simp add: command_frame_def card_shift_def Let_def)
qed

lemma command_frame_neq: "command_frame 25 arg \<noteq> command_frame 18 arg"
  by (simp add: command_frame_def Let_def)

lemma accept_frame:
  assumes "job_block j < cap" "cap \<le> 2 ^ 32" "hc \<or> 512 * cap \<le> 2 ^ 32"
    "arg = of_nat (if hc then job_block j else 512 * job_block j)"
  shows "accept hc cap (command_frame (job_cmd j) arg) = S_answer j 1"
proof -
  have u: "n < 2 ^ 32 \<Longrightarrow> unat (of_nat n :: u32) = n" for n by (simp add: unat_of_nat)
  have "(if hc then unat arg else unat arg div 512) = job_block j"
    using assms(1,2,3) u[of "job_block j"] u[of "512 * job_block j"] unfolding assms(4) by (cases hc) auto
  then show ?thesis using assms(1) command_frame_neq
    by (cases j) (auto simp: accept_def frame_arg_frame Let_def)
qed

lemma card_sending:
  assumes "stage c = S_send a i" "i < 512"
  shows "shifts (card_board hc cap) (replicate (512 - i) 0xFF) c =
    (map ((!) (cells c a)) [i..<512], \<lparr>stage = S_crc a 1, cells = cells c\<rparr>)"
  using assms
proof (induction "511 - i" arbitrary: i c)
  case 0
  then have "i = 511" by simp
  with 0 show ?case by (simp add: card_shift_def upt_rec)
next
  case (Suc n)
  then have i: "512 - i = Suc (512 - Suc i)" "Suc i < 512" "n = 511 - Suc i" "\<not> 511 \<le> i" by simp_all
  have "[i..<512] = i # [Suc i..<512]" using Suc.prems(2) by (simp add: upt_rec)
  then show ?case using Suc.hyps(1)[OF i(3) _ i(2)] Suc.prems i by (simp add: card_shift_def)
qed

lemma card_receiving:
  assumes "stage c = S_receive a f" "length f + length xs = 512" "xs \<noteq> []"
  shows "snd (shifts (card_board hc cap) xs c) = \<lparr>stage = S_received a (f @ xs) 2, cells = cells c\<rparr>"
  using assms
proof (induction xs arbitrary: f c)
  case (Cons x xs)
  show ?case
  proof (cases "xs = []")
    case True
    then show ?thesis using Cons.prems by (simp add: card_shift_def)
  next
    case False
    then have "length f < 511" using Cons.prems(2) by (cases xs) simp_all
    then show ?thesis using Cons.IH[of "\<lparr>stage = S_receive a (f @ [x]), cells = cells c\<rparr>" "f @ [x]"] Cons.prems False
      by (simp add: card_shift_def snd_shifts_Cons del: shifts.simps)
  qed
qed simp

section \<open>It keeps the contract\<close>

lemma accept_card_phase:
  assumes "card_phase cap (Idle True 0) m c" "job_block j < cap" "cap \<le> 2 ^ 32" "hc \<or> 512 * cap \<le> 2 ^ 32"
    "arg = of_nat (if hc then job_block j else 512 * job_block j)"
  shows "card_phase cap (Answering j 1) m (snd (shifts (card_board hc cap) (command_frame (job_cmd j) arg) c))"
proof -
  have "stage c = S_idle True 0 []" "job_cmd j = 18 \<or> job_cmd j = 25"
    using assms(1) by (cases j; simp add: card_phase_def)+
  then show ?thesis using card_command[of c "job_cmd j" hc cap arg] accept_frame[OF assms(2-5)] assms(1)
    by (simp add: card_phase_def)
qed

lemma sending_card_phase:
  assumes "card_phase cap (Sending a) m c" "shifts (card_board hc cap) (replicate 512 0xFF) c = (rs, c1)"
  shows "rs = m a \<and> card_phase cap (Checksum a) m c1"
proof -
  have "length (m a) = 512" "stage c = S_send a 0" "cells c = m" using assms(1) by (simp_all add: card_phase_def)
  moreover from this have "map ((!) (cells c a)) [0..<512] = m a" using map_nth[of "m a"] by simp
  ultimately show ?thesis using card_sending[of c a 0 hc cap] assms by (simp add: card_phase_def)
qed

lemma card_step_shift:
  "card_step hc cap b (stage c) (cells c) = (r, st, m) \<Longrightarrow> card_shift hc cap b c = (r, \<lparr>stage = st, cells = m\<rparr>)"
  by (simp add: card_shift_def)

lemma busy_card_phase:
  assumes "f \<in> {Idle True, Writing a}" "card_phase cap (f n) m c" "card_shift hc cap 0xFF c = (r, c1)"
  shows "(r = 0xFF \<longleftrightarrow> n = 0) \<and> card_phase cap (f (n - 1)) m c1"
proof -
  have "f = Idle True \<or> f = Writing a" using assms(1) by simp
  then show ?thesis using assms(2,3)
    by (elim disjE) (cases "n = 0"; auto simp: card_phase_def card_shift_def)+
qed

lemma answer_card_phase:
  assumes "card_phase cap (Answering j k) m c" "card_shift hc cap 0xFF c = (r, c1)"
  shows "if k = 0 then r = 0 \<and> (\<exists>d < 10000. card_phase cap (begun j d) m c1)
         else r = 0xFF \<and> card_phase cap (Answering j (k - 1)) m c1"
proof (cases "k = 0")
  case True
  then have "r = 0" "card_phase cap (begun j 2) m c1"
    using assms by (cases j; auto simp: card_phase_def card_shift_def)+
  moreover have "(2 :: nat) < 10000" by simp
  ultimately have "r = 0 \<and> (\<exists>d < 10000. card_phase cap (begun j d) m c1)" by blast
  then show ?thesis using True by simp
next
  case False
  then show ?thesis using assms by (auto simp: card_phase_def card_shift_def)
qed

lemma token_card_phase:
  assumes "card_phase cap (Reading a d) m c" "a < cap" "card_shift hc cap 0xFF c = (r, c1)"
  shows "if d = 0 then r = 0xFE \<and> card_phase cap (Sending a) m c1
         else r \<noteq> 0xFE \<and> card_phase cap (Reading a (d - 1)) m c1"
  using assms by (cases "d = 0") (auto simp: card_phase_def card_shift_def)

lemma checksum_card_phase:
  assumes "card_phase cap (Checksum a) m c"
  shows "\<exists>d < 10000. card_phase cap (Reading (Suc a) d) m (snd (shifts (card_board hc cap) (replicate 2 0xFF) c))"
proof (intro exI conjI)
  show "card_phase cap (Reading (Suc a) 2) m (snd (shifts (card_board hc cap) (replicate 2 0xFF) c))"
    using assms by (simp add: card_phase_def card_shift_def numeral_2_eq_2)
qed simp

lemma stop_card_phase:
  assumes "card_phase cap (Reading a d) m c"
  shows "card_phase cap Stopping m (snd (shifts (card_board hc cap) [0x4C, 0, 0, 0, 0, 1, 0xFF] c))"
  using assms by (simp add: card_phase_def card_shift_def)

lemma token_in_card_phase:
  assumes "card_phase cap (Writing a 0) m c"
  shows "card_phase cap (Receiving a) m (snd (shifts (card_board hc cap) [0xFF, 0xFC] c))"
    "card_phase cap Closing m (snd (shifts (card_board hc cap) [0xFD, 0xFF] c))"
  using assms by (simp_all add: card_phase_def card_shift_def)

lemma receiving_card_phase:
  assumes "card_phase cap (Receiving a) m c" "length dat = 512"
  shows "card_phase cap (Received a dat) m (snd (shifts (card_board hc cap) dat c))"
proof -
  have "dat \<noteq> []" using assms(2) by auto
  then show ?thesis using assms card_receiving[of c a "[]" dat hc cap] by (simp add: card_phase_def)
qed

lemma received_card_phase:
  assumes "card_phase cap (Received a dat) m c"
  shows "card_phase cap (Accepting a dat) m (snd (shifts (card_board hc cap) (replicate 2 0xFF) c))"
  using assms by (simp add: card_phase_def card_shift_def numeral_2_eq_2)

lemma accepting_card_phase:
  assumes "card_phase cap (Accepting a dat) m c" "a < cap" "card_shift hc cap 0xFF c = (r, c1)"
  shows "r AND 0x1F = 5 \<and> (\<exists>n. card_phase cap (Writing (Suc a) n) (m(a := dat)) c1)"
proof
  show "r AND 0x1F = 5" using assms by (auto simp: card_phase_def card_shift_def)
  have "card_phase cap (Writing (Suc a) 3) (m(a := dat)) c1" using assms by (auto simp: card_phase_def card_shift_def)
  then show "\<exists>n. card_phase cap (Writing (Suc a) n) (m(a := dat)) c1" ..
qed

lemma pad_card_phase:
  "card_phase cap (Idle sel n) m c \<Longrightarrow> card_phase cap (Idle (\<not> lev) n) m (card_pad port pad lev c)"
  "p \<in> {Stopping, Closing} \<Longrightarrow> card_phase cap p m c \<Longrightarrow> card_phase cap (Idle False 1) m (card_pad port pad True c)"
  by (auto simp: card_phase_def card_pad_def)

lemma card_model:
  assumes "cap \<le> 2 ^ 32" "hc \<or> 512 * cap \<le> 2 ^ 32" "sc_end_cb cfg = None"
  shows "sd_card (card_board hc cap) cfg (\<lambda>c. True) (card_phase cap) hc cap"
proof (unfold_locales, unfold shift_card_board, goal_cases)
  case 1 show ?case by fact
next
  case 2 show ?case by simp
next
  case 3 then show ?case by simp
next
  case 4 then show ?case by (simp add: debounce_def)
next
  case 5 show ?case by fact
next
  case 6 show ?case by fact
next
  case 7 then show ?case .
next
  case 8 then show ?case by (rule pad_card_phase(1))
next
  case (9 p m c) then show ?case by (intro exI) (rule pad_card_phase(2))
next
  case 10 then show ?case by (rule busy_card_phase)
next
  case (11 m c j arg)
  have "(1 :: nat) < 9" by simp
  then show ?case using accept_card_phase[OF 11(1,2) assms(1,2) 11(3)] by blast
next
  case 12 then show ?case by (rule answer_card_phase)
next
  case 13 then show ?case by (rule token_card_phase)
next
  case 14 then show ?case by (rule sending_card_phase)
next
  case 15 then show ?case by (rule checksum_card_phase)
next
  case 16 then show ?case by (rule stop_card_phase)
next
  case 17 then show ?case by (simp add: card_phase_def card_shift_def)
next
  case 18 then show ?case by (rule token_in_card_phase(1))
next
  case 19 then show ?case by (rule receiving_card_phase)
next
  case 20 then show ?case by (rule received_card_phase)
next
  case 21 then show ?case by (rule accepting_card_phase)
next
  case 22 then show ?case by (rule token_in_card_phase(2))
qed

end
