(* ===== verification/CardStart.thy ===== *)
theory CardStart
  imports CardModel
begin

text \<open>
  Connecting to a card that starts up as the SD specification documents it: a reset command, a question that only
  cards of version 2 know, polling until the card is up, and the register that tells byte from block
  addressing. \<open>boot_reply\<close> is the card's side; \<open>sd_boot\<close> is the contract, and \<open>mmcConnect\<close> brings such a
  card up.
\<close>

unbundle bit_operations_syntax

section \<open>The card's side\<close>

text \<open>\<open>Idling n\<close>: still busy with its own start for \<open>n\<close> polls; \<open>Expecting n\<close>: an application command comes next.\<close>

datatype boot = Powered | Idling nat | Expecting nat | Up

datatype bphase = Listening bool boot | Reply nat "u8 list" boot

fun polled_up :: "nat \<Rightarrow> u8 list \<times> boot" where
  "polled_up n = (if n = 0 then ([0x00], Up) else ([0x01], Idling (n - 1)))"

definition boot_reply :: "bool \<Rightarrow> nat \<Rightarrow> u8 list \<Rightarrow> boot \<Rightarrow> u8 \<Rightarrow> u32 \<Rightarrow> (u8 list \<times> boot) option" where
  "boot_reply v2 n0 ocr st cmd arg =
     (if cmd = 0 then Some ([0x01], Idling n0)
      else case st of
        Powered \<Rightarrow> None
      | Idling n \<Rightarrow>
          if cmd = 8 then Some (if v2 then [0x01, 0, 0, 0x01, 0xAA] else [0x05], Idling n)
          else if cmd = 55 then Some ([0x01], Expecting n)
          else if cmd = 1 then Some (polled_up n)
          else None
      | Expecting n \<Rightarrow> if cmd = 41 then Some (polled_up n) else None
      | Up \<Rightarrow>
          if cmd = 58 then Some (0x00 # ocr, Up)
          else if cmd = 1 \<or> cmd = 16 then Some ([0x00], Up)
          else None)"

locale boot_card = wired B cfg switch booting
  for B :: "('c, 'c sd) board" and cfg :: spicfg and switch :: "'c \<Rightarrow> bool"
    and booting :: "bphase \<Rightarrow> store \<Rightarrow> 'c \<Rightarrow> bool" +
  fixes v2 :: bool and n0 :: nat and ocr :: "u8 list"
  assumes boot_clocked: "booting (Listening sel st) m c \<Longrightarrow> booting (Listening sel st) m (write_cr1 B v c)"
    and boot_selected: "booting (Listening sel st) m c \<Longrightarrow>
      booting (Listening True st) m (write_pad B (sc_ssport cfg) (sc_sspad cfg) False c)"
    and boot_released: "booting (Reply k rs st) m c \<Longrightarrow>
      booting (Listening False st) m (write_pad B (sc_ssport cfg) (sc_sspad cfg) True c)"
    and boot_idle: "booting (Listening sel st) m c \<Longrightarrow> shift_frame B 0xFF c = (r, c1) \<Longrightarrow>
      (sel \<longrightarrow> r = 0xFF) \<and> booting (Listening sel st) m c1"
    and boot_command: "booting (Listening True st) m c \<Longrightarrow> boot_reply v2 n0 ocr st cmd arg = Some (rs, st1) \<Longrightarrow>
      \<exists>k < 9. booting (Reply k rs st1) m (snd (shifts B (command_frame cmd arg) c))"
    and boot_answer: "booting (Reply k (x # rs) st) m c \<Longrightarrow> shift_frame B 0xFF c = (r, c1) \<Longrightarrow>
      (if k = 0 then r = x \<and> booting (Reply 0 rs st) m c1 else r = 0xFF \<and> booting (Reply (k - 1) (x # rs) st) m c1)"
    and boot_rest: "booting (Reply 0 rs st) m c \<Longrightarrow> length rs \<le> 4 \<Longrightarrow> shifts B (replicate 4 0xFF) c = (bs, c1) \<Longrightarrow>
      (length rs = 4 \<longrightarrow> bs = rs) \<and> booting (Reply 0 [] st) m c1"
    and ocr_length: "length ocr = 4"
begin

lemma boot_start:
  assumes "sp_thread (spip s) = None" "mmcp s = d" "mmc_cnt d = 0" "is_inserted d = switch"
    "booting (Listening sel st) m (slave s)"
  shows "on_line d (Listening sel st) m (spiStart B cfg s)"
  using assms boot_clocked start_rest[OF no_callback assms(1), of B]
  by (simp add: linked_def) (simp add: spiStart_def spi_lld_start_def set_sp_state_def Let_def)

lemma boot_ignore:
  assumes "on_line d (Listening sel st) m s"
  shows "on_line d (Listening sel st) m (spiIgnore B n s)"
proof (rule ignore_linked[OF assms])
  have "booting (Listening sel st) m c \<Longrightarrow> booting (Listening sel st) m (snd (shifts B (replicate n 0xFF) c))" for c
  proof (induction n arbitrary: c)
    case (Suc n)
    obtain r c1 where r: "shift_frame B 0xFF c = (r, c1)" by (metis prod.exhaust)
    then show ?case using boot_idle[OF Suc.prems r] Suc.IH[of c1] by (simp add: snd_shifts_Cons del: shifts.simps)
  qed simp
  then show "booting (Listening sel st) m (snd (shifts B (replicate n 0xFF) (slave s)))"
    using assms by (simp add: linked_def)
qed

lemma boot_hdr:
  assumes "on_line d (Listening sel st) m s" "boot_reply v2 n0 ocr st cmd arg = Some (rs, st1)"
  obtains s1 k where "send_hdr B cmd arg (spiSelect B s) = Some s1" "k < 9" "on_line d (Reply k rs st1) m s1"
proof -
  have s: "on_line d (Listening True st) m (spiSelect B s)"
    using assms(1) boot_selected[of sel st m "slave s"]
    by (simp add: linked_def spiSelect_def spi_lld_select_def spi_at_rest_def Let_def)
  obtain r c where r: "shift_frame B 0xFF (slave (spiSelect B s)) = (r, c)" by (metis prod.exhaust)
  have "r = 0xFF" "booting (Listening True st) m c" using boot_idle[OF _ r, of True st m] s by (simp_all add: linked_def)
  from poll_linked[OF s r this(2)] \<open>r = 0xFF\<close> obtain s2 where
    s2: "spiReceive B 1 (spiSelect B s) = ([0xFF], s2)" "on_line d (Listening True st) m s2" by blast
  have w: "wait B (spiSelect B s) = Some s2"
    using s2(1) wait_short.simps(2)[of 15 B "spiSelect B s"] by (simp add: wait_def)
  have "booting (Listening True st) m (slave s2)" using s2(2) by (simp add: linked_def)
  from boot_command[OF this assms(2)] obtain k where
    k: "k < 9" "booting (Reply k rs st1) m (snd (shifts B (command_frame cmd arg) (slave s2)))" by blast
  have "on_line d (Reply k rs st1) m (spiSend B (hdr cmd arg) s2)"
    by (rule send_linked[OF s2(2)]) (use k(2) in \<open>simp add: hdr_is_frame\<close>)
  then show thesis using that w k(1) by (simp add: send_hdr_def)
qed

lemma boot_recvr1:
  assumes "x \<noteq> 0xFF"
  shows "on_line d (Reply k (x # rs) st) m s \<Longrightarrow> k < i \<Longrightarrow>
    \<exists>s1. recvr1_loop i B s = (x, s1) \<and> on_line d (Reply 0 rs st) m s1"
proof (induction i arbitrary: s k)
  case (Suc i)
  obtain r c where r: "shift_frame B 0xFF (slave s) = (r, c)" by (metis prod.exhaust)
  have a: "if k = 0 then r = x \<and> booting (Reply 0 rs st) m c
      else r = 0xFF \<and> booting (Reply (k - 1) (x # rs) st) m c"
    using boot_answer[OF _ r, of k x rs st m] Suc.prems(1) by (simp add: linked_def)
  show ?case
  proof (cases k)
    case 0
    then have "booting (Reply 0 rs st) m c" using a by simp
    from poll_linked[OF Suc.prems(1) r this] obtain s1 where
      "spiReceive B 1 s = ([r], s1)" "on_line d (Reply 0 rs st) m s1" by blast
    then show ?thesis using a 0 assms by simp
  next
    case (Suc k')
    then have "booting (Reply k' (x # rs) st) m c" using a by simp
    from poll_linked[OF Suc.prems(1) r this] obtain s1 where
      s1: "spiReceive B 1 s = ([r], s1)" "on_line d (Reply k' (x # rs) st) m s1" by blast
    then have "recvr1_loop (Suc i) B s = recvr1_loop i B s1" using a Suc by simp
    then show ?thesis using Suc.IH[OF s1(2)] Suc.prems(2) Suc by simp
  qed
qed simp

lemma boot_unselect:
  assumes "on_line d (Reply k rs st) m s"
  shows "on_line d (Listening False st) m (spiUnselect B s)"
  using assms boot_released[of k rs st m "slave s"]
  by (simp add: linked_def spiUnselect_def spi_lld_unselect_def spi_at_rest_def Let_def)

lemma boot_R1:
  assumes "on_line d (Listening sel st) m s" "boot_reply v2 n0 ocr st cmd arg = Some (x # rs, st1)" "x \<noteq> 0xFF"
  obtains s1 where "send_command_R1 B cmd arg s = Some (x, s1)" "on_line d (Listening False st1) m s1"
proof -
  obtain s1 k where s1: "send_hdr B cmd arg (spiSelect B s) = Some s1" "k < 9" "on_line d (Reply k (x # rs) st1) m s1"
    by (rule boot_hdr[OF assms(1,2)])
  obtain s2 where s2: "recvr1_loop 9 B s1 = (x, s2)" "on_line d (Reply 0 rs st1) m s2"
    using boot_recvr1[OF assms(3) s1(3,2)] by blast
  show thesis using that[OF _ boot_unselect[OF s2(2)]] s1(1) s2(1) by (simp add: send_command_R1_def recvr1_def)
qed

lemma boot_R3:
  assumes "on_line d (Listening sel st) m s" "boot_reply v2 n0 ocr st cmd arg = Some (x # rs, st1)" "x \<noteq> 0xFF" "length rs \<le> 4"
  obtains s1 bs where "send_command_R3 B cmd arg s = Some ((x, bs), s1)" "length rs = 4 \<longrightarrow> bs = rs"
    "on_line d (Listening False st1) m s1"
proof -
  obtain s1 k where s1: "send_hdr B cmd arg (spiSelect B s) = Some s1" "k < 9" "on_line d (Reply k (x # rs) st1) m s1"
    by (rule boot_hdr[OF assms(1,2)])
  obtain s2 where s2: "recvr1_loop 9 B s1 = (x, s2)" "on_line d (Reply 0 rs st1) m s2"
    using boot_recvr1[OF assms(3) s1(3,2)] by blast
  obtain bs c where r: "shifts B (replicate 4 0xFF) (slave s2) = (bs, c)" by (metis prod.exhaust)
  have b: "length rs = 4 \<longrightarrow> bs = rs" "booting (Reply 0 [] st1) m c"
    using boot_rest[OF _ assms(4) r, of st1 m] s2(2) by (simp_all add: linked_def)
  from receive_linked[OF s2(2) r b(2)] obtain s3 where
    s3: "spiReceive B 4 s2 = (bs, s3)" "on_line d (Reply 0 [] st1) m s3" by blast
  show thesis using that[OF _ b(1) boot_unselect[OF s3(2)]] s1(1) s2(1) s3(1)
    by (simp add: send_command_R3_def recvr3_def recvr1_def)
qed

section \<open>The stages of a connection\<close>

lemma go_idle_boots:
  assumes "on_line d (Listening sel st) m s"
  obtains s1 where "go_idle i B s = Some (False, s1)" "on_line d (Listening False (Idling n0)) m s1"
proof -
  have r: "boot_reply v2 n0 ocr st MMC_CMDGOIDLE 0 = Some ([0x01], Idling n0)"
    by (simp add: boot_reply_def MMC_CMDGOIDLE_def)
  obtain s1 where "send_command_R1 B MMC_CMDGOIDLE 0 s = Some (0x01, s1)" "on_line d (Listening False (Idling n0)) m s1"
    by (rule boot_R1[OF assms r]) auto
  then show thesis using that by (simp add: go_idle.simps[of i])
qed

lemma switch_sdhc_boots:
  "on_line d (Listening sel (Idling n)) m s \<Longrightarrow> n < i \<Longrightarrow>
     \<exists>s1. switch_sdhc i B s = Some (False, s1) \<and> on_line d (Listening False Up) m s1"
proof (induction n arbitrary: i s sel)
  case 0
  have r: "boot_reply v2 n0 ocr (Idling 0) MMC_CMDAPP 0 = Some ([0x01], Expecting 0)"
      "boot_reply v2 n0 ocr (Expecting 0) MMC_ACMDOPCONDITION 0x400001aa = Some ([0x00], Up)"
    by (simp_all add: boot_reply_def MMC_CMDAPP_def MMC_ACMDOPCONDITION_def)
  obtain s1 where 1: "send_command_R1 B MMC_CMDAPP 0 s = Some (0x01, s1)" "on_line d (Listening False (Expecting 0)) m s1"
    by (rule boot_R1[OF 0(1) r(1)]) auto
  obtain s2 bs where "send_command_R3 B MMC_ACMDOPCONDITION 0x400001aa s1 = Some ((0x00, bs), s2)"
      "on_line d (Listening False Up) m s2"
    by (rule boot_R3[OF 1(2) r(2)]) auto
  then show ?case using 1(1) by (simp add: switch_sdhc.simps[of i])
next
  case (Suc n)
  have r: "boot_reply v2 n0 ocr (Idling (Suc n)) MMC_CMDAPP 0 = Some ([0x01], Expecting (Suc n))"
      "boot_reply v2 n0 ocr (Expecting (Suc n)) MMC_ACMDOPCONDITION 0x400001aa = Some ([0x01], Idling n)"
    by (simp_all add: boot_reply_def MMC_CMDAPP_def MMC_ACMDOPCONDITION_def)
  obtain s1 where 1: "send_command_R1 B MMC_CMDAPP 0 s = Some (0x01, s1)"
      "on_line d (Listening False (Expecting (Suc n))) m s1"
    by (rule boot_R1[OF Suc.prems(1) r(1)]) auto
  obtain s2 bs where 2: "send_command_R3 B MMC_ACMDOPCONDITION 0x400001aa s1 = Some ((0x01, bs), s2)"
      "on_line d (Listening False (Idling n)) m s2"
    by (rule boot_R3[OF 1(2) r(2)]) auto
  have "switch_sdhc i B s = switch_sdhc (i - 1) B (nap B s2)"
    using 1(1) 2(1) Suc.prems(2) by (simp add: switch_sdhc.simps[of i])
  moreover have "n < i - 1" using Suc.prems(2) by simp
  ultimately show ?case using Suc.IH[OF nap_linked[OF 2(2)]] by simp
qed

lemma init_card_boots:
  "on_line d (Listening sel st) m s \<Longrightarrow> st \<in> {Up, Idling n} \<Longrightarrow> n < i \<Longrightarrow>
     \<exists>s1. init_card i B s = Some (False, s1) \<and> on_line d (Listening False Up) m s1"
proof (induction n arbitrary: i s sel st)
  case 0
  have r: "boot_reply v2 n0 ocr st MMC_CMDINIT 0 = Some ([0x00], Up)"
    using "0.prems"(2) by (auto simp: boot_reply_def MMC_CMDINIT_def)
  obtain s1 where "send_command_R1 B MMC_CMDINIT 0 s = Some (0x00, s1)" "on_line d (Listening False Up) m s1"
    by (rule boot_R1[OF "0.prems"(1) r]) auto
  then show ?case by (simp add: init_card.simps[of i])
next
  case (Suc n)
  show ?case
  proof (cases "st = Up")
    case True
    have r: "boot_reply v2 n0 ocr st MMC_CMDINIT 0 = Some ([0x00], Up)"
      by (simp add: True boot_reply_def MMC_CMDINIT_def)
    obtain s1 where "send_command_R1 B MMC_CMDINIT 0 s = Some (0x00, s1)" "on_line d (Listening False Up) m s1"
      by (rule boot_R1[OF Suc.prems(1) r]) auto
    then show ?thesis by (simp add: init_card.simps[of i])
  next
    case False
    then have r: "boot_reply v2 n0 ocr st MMC_CMDINIT 0 = Some ([0x01], Idling n)"
      using Suc.prems(2) by (simp add: boot_reply_def MMC_CMDINIT_def)
    obtain s1 where 1: "send_command_R1 B MMC_CMDINIT 0 s = Some (0x01, s1)" "on_line d (Listening False (Idling n)) m s1"
      by (rule boot_R1[OF Suc.prems(1) r]) auto
    have "init_card i B s = init_card (i - 1) B (nap B s1)"
      using 1(1) Suc.prems(3) by (simp add: init_card.simps[of i])
    moreover have "n < i - 1" using Suc.prems(3) by simp
    ultimately show ?thesis using Suc.IH[OF nap_linked[OF 1(2)]] by simp
  qed
qed

text \<open>After the detection the driver knows how the card is addressed, if it has never met a card with blocks before.\<close>

lemma detect_boots:
  assumes "on_line d (Listening sel (Idling n0)) m s" "n0 < 100"
  obtains s1 d1 st1 where "detect_sdhc B s = Some (False, s1)"
    "d1 = (if v2 \<and> ocr ! 0 AND 0x40 \<noteq> 0 then d\<lparr>block_addresses := True\<rparr> else d)"
    "on_line d1 (Listening False st1) m s1" "st1 \<in> {Up, Idling n0}"
proof (cases v2)
  case False
  have r: "boot_reply v2 n0 ocr (Idling n0) MMC_CMDINTERFACE_CONDITION 0x01AA = Some ([0x05], Idling n0)"
    using False by (simp add: boot_reply_def MMC_CMDINTERFACE_CONDITION_def)
  obtain s1 bs where "send_command_R3 B MMC_CMDINTERFACE_CONDITION 0x01AA s = Some ((0x05, bs), s1)"
      "on_line d (Listening False (Idling n0)) m s1"
    by (rule boot_R3[OF assms(1) r]) auto
  then show thesis using that[of s1 d "Idling n0"] False by (simp add: detect_sdhc_def)
next
  case True
  have r: "boot_reply v2 n0 ocr (Idling n0) MMC_CMDINTERFACE_CONDITION 0x01AA
        = Some (0x01 # [0, 0, 0x01, 0xAA], Idling n0)"
      "boot_reply v2 n0 ocr Up MMC_CMDREADOCR 0 = Some (0x00 # ocr, Up)"
    using True by (simp_all add: boot_reply_def MMC_CMDINTERFACE_CONDITION_def MMC_CMDREADOCR_def)
  obtain s1 bs where 1: "send_command_R3 B MMC_CMDINTERFACE_CONDITION 0x01AA s = Some ((0x01, bs), s1)"
      "on_line d (Listening False (Idling n0)) m s1"
    by (rule boot_R3[OF assms(1) r(1)]) auto
  have "n0 < MMC_ACMD41_RETRY" using assms(2) by (simp add: MMC_ACMD41_RETRY_def)
  from switch_sdhc_boots[OF 1(2) this] obtain s2 where
    2: "switch_sdhc MMC_ACMD41_RETRY B s1 = Some (False, s2)" "on_line d (Listening False Up) m s2" by blast
  obtain s3 bs3 where 3: "send_command_R3 B MMC_CMDREADOCR 0 s2 = Some ((0x00, bs3), s3)" "bs3 = ocr"
      "on_line d (Listening False Up) m s3"
    by (rule boot_R3[OF 2(2) r(2)]) (use ocr_length in auto)
  show thesis
  proof (cases "ocr ! 0 AND 0x40 = 0")
    case True
    then show thesis using that[of s3 d Up] 1(1) 2(1) 3 by (simp add: detect_sdhc_def)
  next
    case False
    have "on_line (d\<lparr>block_addresses := True\<rparr>) (Listening False Up) m (set_mmc (\<lambda>d. d\<lparr>block_addresses := True\<rparr>) s3)"
      using 3(3) by (simp add: linked_def set_mmc_def spi_at_rest_def)
    then show thesis
      using that[of "set_mmc (\<lambda>d. d\<lparr>block_addresses := True\<rparr>) s3" "d\<lparr>block_addresses := True\<rparr>" Up] \<open>v2\<close> False 1(1) 2(1) 3
      by (simp add: detect_sdhc_def)
  qed
qed

end

section \<open>A connection\<close>

text \<open>The start-up runs at the slow clock, the last command at the fast one, on the same pins.\<close>

locale sd_boot =
  sd_card B cfg switch in_phase hc cap + low: boot_card B lcfg switch booting v2 n0 ocr
    + high: boot_card B cfg switch booting v2 n0 ocr
  for B :: "('c, 'c sd) board" and cfg :: spicfg and switch :: "'c \<Rightarrow> bool"
    and in_phase :: "phase \<Rightarrow> store \<Rightarrow> 'c \<Rightarrow> bool" and hc :: bool and cap :: nat and lcfg :: spicfg
    and booting :: "bphase \<Rightarrow> store \<Rightarrow> 'c \<Rightarrow> bool" and v2 :: bool and n0 :: nat and ocr :: "u8 list" +
  assumes up: "booting (Listening sel Up) m c \<Longrightarrow> in_phase (Idle sel 0) m c"
    and capacity_bit: "hc \<longleftrightarrow> v2 \<and> ocr ! 0 AND 0x40 \<noteq> 0"
    and start_time: "n0 < 100"
begin

theorem connect_boots:
  assumes "mmc_state (mmcp s) = MMC_INSERTED" "mmc_cnt (mmcp s) = 0" "is_inserted (mmcp s) = switch"
    "lscfg (mmcp s) = lcfg" "hscfg (mmcp s) = cfg" "sp_thread (spip s) = None" "booting (Listening False Powered) m (slave s)"
  obtains s1 where "mmcConnect B s = Some (False, s1)"
    "mmcp s1 = (mmcp s)\<lparr>mmc_state := MMC_READY, block_addresses := block_addresses (mmcp s) \<or> hc\<rparr>"
    "spi_at_rest cfg s1" "in_phase (Idle False 0) m (slave s1)"
proof -
  let ?d = "mmcp s"
  have "low.on_line ?d (Listening False Powered) m (spiIgnore B 16 (spiStart B lcfg s))"
    by (rule low.boot_ignore[OF low.boot_start]) (use assms in simp_all)
  then obtain s1 where 1: "go_idle MMC_CMD0_RETRY B (spiIgnore B 16 (spiStart B lcfg s)) = Some (False, s1)"
      "low.on_line ?d (Listening False (Idling n0)) m s1"
    by (rule low.go_idle_boots)
  define d1 where "d1 = (if v2 \<and> ocr ! 0 AND 0x40 \<noteq> 0 then ?d\<lparr>block_addresses := True\<rparr> else ?d)"
  obtain s2 st2 where 2: "detect_sdhc B s1 = Some (False, s2)" "low.on_line d1 (Listening False st2) m s2"
      "st2 \<in> {Up, Idling n0}"
    by (rule low.detect_boots[OF 1(2) start_time]) (simp add: d1_def)
  have "n0 < MMC_CMD1_RETRY" using start_time by (simp add: MMC_CMD1_RETRY_def)
  from low.init_card_boots[OF 2(2,3) this] obtain s3 where
    3: "init_card MMC_CMD1_RETRY B s2 = Some (False, s3)" "low.on_line d1 (Listening False Up) m s3" by blast
  have d1: "mmc_state d1 = MMC_INSERTED" "hscfg d1 = cfg" "mmc_cnt d1 = 0" "is_inserted d1 = switch"
    using assms by (simp_all add: d1_def)
  have "mmcp s3 = d1" "sp_thread (spip s3) = None" "booting (Listening False Up) m (slave s3)"
    using 3(2) by (simp_all add: linked_def spi_at_rest_def)
  then have "high.on_line d1 (Listening False Up) m (spiStart B cfg s3)" using d1 by (intro high.boot_start) simp_all
  moreover have "boot_reply v2 n0 ocr Up MMC_CMDSETBLOCKLEN (of_nat MMC_SECTOR_SIZE) = Some ([0x00], Up)"
    by (simp add: boot_reply_def MMC_CMDSETBLOCKLEN_def)
  ultimately obtain s4 where 4: "send_command_R1 B MMC_CMDSETBLOCKLEN (of_nat MMC_SECTOR_SIZE) (spiStart B cfg s3) = Some (0x00, s4)"
      "high.on_line d1 (Listening False Up) m s4"
    by (rule high.boot_R1) auto
  have s4: "mmcp s4 = d1" "spi_at_rest cfg s4" "in_phase (Idle False 0) m (slave s4)"
    using 4(2) up by (simp_all add: linked_def)
  have "finish_connect B s3 = Some (False, set_mmc_state MMC_READY s4)"
    using 4(1) \<open>mmcp s3 = d1\<close> d1 s4(1) by (simp add: finish_connect_def set_ready_def)
  then have "mmcConnect B s = Some (False, set_mmc_state MMC_READY s4)"
    using assms(1,4) 1(1) 2(1) 3(1) by (simp add: mmcConnect_def)
  then show thesis
    by (rule that) (use s4 capacity_bit in \<open>auto simp: set_mmc_state_def d1_def spi_at_rest_def\<close>)
qed

end

end
