(* ===== verification/Datalogger.thy ===== *)
theory Datalogger
  imports CardModel Scenario
begin

text \<open>
  \<^verbatim>\<open>src/Quad/Datalogger.cpp\<close>: the thread that waits for the events of the card driver, the thread that
  connects the card and mounts the file system, and the flag the flight log looks at; of
  the file system, \<^verbatim>\<open>f_mount\<close> (\<^verbatim>\<open>ff.c\<close>), which only registers the work area. The pins set up in
  \<^verbatim>\<open>setup_Datalogger\<close> are hardware.

  \<open>lg_threads\<close> counts the calls of \<^verbatim>\<open>chThdCreateStatic\<close> for the mount thread, each of which uses
  the same working area, and \<open>lg_mounts\<close> the mount threads that have ended. The body of the thread is \<open>SDMountThread\<close>; the steps of
  \<open>logger_step\<close> interleave it with the monitor, the dispatcher, and what anybody does with the card.
\<close>

unbundle bit_operations_syntax

section \<open>Configuration\<close>

definition GPIOC :: nat where "GPIOC = 2"
definition SPI_CR1_BR_1 :: u16 where "SPI_CR1_BR_1 = 0x0010"
definition SPI_CR1_BR_2 :: u16 where "SPI_CR1_BR_2 = 0x0020"

definition hs_spicfg :: spicfg where
  "hs_spicfg = \<lparr>sc_end_cb = None, sc_ssport = GPIOC, sc_sspad = 4, sc_cr1 = 0\<rparr>"

definition ls_spicfg :: spicfg where
  "ls_spicfg = \<lparr>sc_end_cb = None, sc_ssport = GPIOC, sc_sspad = 4, sc_cr1 = SPI_CR1_BR_2 OR SPI_CR1_BR_1\<rparr>"

definition mmc_is_inserted :: "'c \<Rightarrow> bool" where "mmc_is_inserted c = True"
definition mmc_is_protected :: "'c \<Rightarrow> bool" where "mmc_is_protected c = False"

section \<open>The volume table\<close>

datatype fresult =
    FR_OK | FR_DISK_ERR | FR_INT_ERR | FR_NOT_READY | FR_NO_FILE | FR_NO_PATH | FR_INVALID_NAME | FR_DENIED | FR_EXIST
  | FR_INVALID_OBJECT | FR_WRITE_PROTECTED | FR_INVALID_DRIVE | FR_NOT_ENABLED | FR_NO_FILESYSTEM | FR_MKFS_ABORTED
  | FR_TIMEOUT | FR_LOCKED | FR_NOT_ENOUGH_CORE | FR_TOO_MANY_OPEN_FILES

text \<open>Work areas are numbered; \<^verbatim>\<open>MMC_FS\<close> is number 0. There is one volume.\<close>

record fatfs =
  FatFs :: "nat option"
  fs_type :: "nat \<Rightarrow> u8"

definition f_mount :: "u8 \<Rightarrow> nat option \<Rightarrow> fatfs \<Rightarrow> fresult \<times> fatfs" where
  "f_mount vol fs t =
     (if 1 \<le> vol then (FR_INVALID_DRIVE, t)
      else
        (let t1 = (case FatFs t of Some rfs \<Rightarrow> t\<lparr>fs_type := (fs_type t)(rfs := 0)\<rparr> | None \<Rightarrow> t);
             t2 = (case fs of Some p \<Rightarrow> t1\<lparr>fs_type := (fs_type t1)(p := 0)\<rparr> | None \<Rightarrow> t1)
         in (FR_OK, t2\<lparr>FatFs := fs\<rparr>)))"

section \<open>The threads\<close>

record 'c logger =
  lg_sd :: "'c sd"
  lg_fat :: fatfs
  Datalogger_ready_flag :: bool
  lg_threads :: nat
  lg_mounts :: nat

definition SDMountThread :: "('c, 'c sd) board \<Rightarrow> 'c logger \<Rightarrow> 'c logger option" where
  "SDMountThread B l =
     (case mmcConnect B (lg_sd l) of
        None \<Rightarrow> None
      | Some (True, s1) \<Rightarrow> Some (l\<lparr>lg_sd := s1\<rparr>)
      | Some (False, s1) \<Rightarrow>
          (case f_mount 0 (Some 0) (lg_fat l) of (err, t1) \<Rightarrow>
             if err \<noteq> FR_OK
             then map_option (\<lambda>(r, s2). l\<lparr>lg_sd := s2, lg_fat := t1\<rparr>) (mmcDisconnect B s1)
             else Some (l\<lparr>lg_sd := s1, lg_fat := t1, Datalogger_ready_flag := True\<rparr>)))"

definition InsertHandler :: "'c logger \<Rightarrow> 'c logger" where
  "InsertHandler l = l\<lparr>lg_threads := Suc (lg_threads l)\<rparr>"

definition RemoveHandler :: "'c logger \<Rightarrow> 'c logger" where
  "RemoveHandler l = l\<lparr>Datalogger_ready_flag := False\<rparr>"

definition evhndl :: "nat \<Rightarrow> 'c logger \<Rightarrow> 'c logger" where
  "evhndl eid = [InsertHandler, RemoveHandler] ! eid"

text \<open>What \<^verbatim>\<open>chEvtDispatchThread\<close> does before its loop; \<open>el0\<close> and \<open>el1\<close> are its listeners.\<close>

definition dispatch_start :: "nat \<Rightarrow> nat \<Rightarrow> 'c sd \<Rightarrow> 'c sd" where
  "dispatch_start el0 el1 s =
     (let s1 = mmcStart (mmcObjectInit ls_spicfg hs_spicfg mmc_is_protected mmc_is_inserted s);
          s2 = s1\<lparr>kern := chEvtRegister (inserted_event (mmcp s1)) el0 0 (kern s1)\<rparr>
      in s2\<lparr>kern := chEvtRegister (removed_event (mmcp s2)) el1 1 (kern s2)\<rparr>)"

text \<open>
  A turn of its loop, in the thread \<open>t\<close>, when an event is pending: \<^verbatim>\<open>chEvtWaitOne(ALL_EVENTS)\<close> takes the lowest, and
  its handler runs.
\<close>

definition dispatch_turn :: "tid \<Rightarrow> 'c logger \<Rightarrow> 'c logger option" where
  "dispatch_turn t l =
     (let k = kern (lg_sd l); w = epending k t AND ALL_EVENTS
      in if w = 0 then None
         else (case evt_take_one t w k of
                 Ret m k1 \<Rightarrow> chEvtDispatch evhndl m (l\<lparr>lg_sd := (lg_sd l)\<lparr>kern := k1\<rparr>\<rparr>)
               | _ \<Rightarrow> None))"

definition Datalogger_ready :: "'c logger \<Rightarrow> bool" where
  "Datalogger_ready l = Datalogger_ready_flag l"

text \<open>
  Anything may happen to the card at any time. Other threads use the driver, and the kernel for their own ends; they
  leave the monitor and the events of the dispatcher alone.
\<close>

definition keeps_monitor :: "tid \<Rightarrow> 'c sd \<Rightarrow> 'c sd \<Rightarrow> bool" where
  "keeps_monitor t s s' \<longleftrightarrow>
     mmc_cnt (mmcp s') = mmc_cnt (mmcp s) \<and> is_inserted (mmcp s') = is_inserted (mmcp s)
     \<and> inserted_event (mmcp s') = inserted_event (mmcp s) \<and> removed_event (mmcp s') = removed_event (mmcp s)
     \<and> (\<forall>e \<in> {inserted_event (mmcp s), removed_event (mmcp s)}.
          es_list (kern s') e = es_list (kern s) e
          \<and> (\<forall>el \<in> set (es_list (kern s) e).
               el_listener (kern s') el = el_listener (kern s) el \<and> el_mask (kern s') el = el_mask (kern s) el))
     \<and> epending (kern s') t = epending (kern s) t"

inductive logger_step :: "tid \<Rightarrow> ('c, 'c sd) board \<Rightarrow> 'c logger \<Rightarrow> 'c logger \<Rightarrow> bool" for t B where
  poll: "logger_step t B l (l\<lparr>lg_sd := monitor_expire (lg_sd l)\<rparr>)"
| dispatch: "dispatch_turn t l = Some l' \<Longrightarrow> logger_step t B l l'"
| mount: "lg_mounts l < lg_threads l \<Longrightarrow> SDMountThread B l = Some l' \<Longrightarrow> keeps_monitor t (lg_sd l) (lg_sd l') \<Longrightarrow>
    logger_step t B l (l'\<lparr>lg_mounts := Suc (lg_mounts l')\<rparr>)"
| others: "keeps_monitor t (lg_sd l) s' \<Longrightarrow> logger_step t B l (l\<lparr>lg_sd := s'\<rparr>)"

inductive_cases logger_stepE: "logger_step t B l l'"

section \<open>One attempt\<close>

text \<open>
  With an insertion switch that always reads as closed the card counts as inserted after ten
  readings, once, and is never removed.
\<close>

definition one_chance :: "tid \<Rightarrow> nat \<Rightarrow> 'c logger \<Rightarrow> bool" where
  "one_chance t el0 l \<longleftrightarrow>
     (let d = mmcp (lg_sd l); k = kern (lg_sd l)
      in is_inserted d = mmc_is_inserted
         \<and> es_list k (inserted_event d) = [el0] \<and> el_listener k el0 = t \<and> el_mask k el0 = 1
         \<and> epending k t \<in> {0, 1} \<and> lg_mounts l \<le> lg_threads l
         \<and> lg_threads l + (if epending k t = 1 then 1 else 0) = (if mmc_cnt d = 0 then 1 else 0))"

lemma chVTSetI_events [simp]:
  "es_list (chVTSetI v n f p k) = es_list k" "el_listener (chVTSetI v n f p k) = el_listener k"
  "el_mask (chVTSetI v n f p k) = el_mask k" "thr (chVTSetI v n f p k) = thr k" "currp (chVTSetI v n f p k) = currp k"
  by (simp_all add: chVTSetI_def Let_def split: prod.split list.split)

lemma disarmed_events [simp]:
  "es_list (disarmed s) = es_list (kern s)" "el_listener (disarmed s) = el_listener (kern s)"
  "el_mask (disarmed s) = el_mask (kern s)" "thr (disarmed s) = thr (kern s)"
  by (simp_all add: disarmed_def Let_def)

lemma poll_one_chance:
  assumes "one_chance t el0 l"
  shows "one_chance t el0 (l\<lparr>lg_sd := monitor_expire (lg_sd l)\<rparr>)"
proof -
  let ?s = "lg_sd l" and ?k = "kern (lg_sd l)" and ?d = "mmcp (lg_sd l)"
  note a = assms[unfolded one_chance_def Let_def]
  have d: "mmcp (monitor_expire ?s) = debounce True ?d" using a by (simp add: mmc_is_inserted_def)
  have k: "kern (monitor_expire ?s) = chVTSetI (mmc_vt ?d) (MS2ST MMC_POLLING_DELAY) tmrfunc_id (VP_val 0)
      (if mmc_cnt ?d = 1 then chEvtBroadcastFlagsI (inserted_event ?d) 0 (disarmed ?s) else disarmed ?s)"
    using a by (simp add: monitor_expire_disarmed kern_tmrfunc tmr_effect_def Let_def mmc_is_inserted_def)
  show ?thesis
  proof (cases "mmc_cnt ?d = 1")
    case True
    have p0: "epending ?k t = 0" "lg_threads l = 0" using a True by (auto split: if_splits)
    have "epending (chEvtBroadcastFlagsI (inserted_event ?d) 0 (disarmed ?s)) t = 1"
      using a p0(1) by (simp add: chEvtBroadcastFlagsI_def epending_signal)
    then show ?thesis using a True p0
      by (simp add: one_chance_def Let_def d k debounce_def chEvtBroadcastFlagsI_def mmc_is_inserted_def)
  next
    case False
    then have "mmc_cnt (debounce True ?d) = 0 \<longleftrightarrow> mmc_cnt ?d = 0" by (auto simp: debounce_def)
    then show ?thesis using a False by (simp add: one_chance_def Let_def d k mmc_is_inserted_def)
  qed
qed

lemma dispatch_one:
  "chEvtDispatch evhndl 1 l = Some (InsertHandler l)"
proof -
  have "EVENT_MASK 0 = 1" by (simp add: EVENT_MASK_def)
  then show ?thesis
    by (simp add: chEvtDispatch_def evt_dispatch.simps[of evhndl 0 1] evt_dispatch.simps[of evhndl "Suc 0" 0] evhndl_def)
qed

lemma dispatch_turn_pending:
  assumes "epending (kern (lg_sd l)) t = 1"
  shows "dispatch_turn t l = Some (InsertHandler (l\<lparr>lg_sd := (lg_sd l)\<lparr>kern := set_epending t 0 (kern (lg_sd l))\<rparr>\<rparr>))"
proof -
  have "evt_take_one t 1 (kern (lg_sd l)) = Ret 1 (set_epending t 0 (kern (lg_sd l)))"
    by (simp add: evt_take_one_def evt_take_def assms Let_def)
  then show ?thesis using assms by (simp add: dispatch_turn_def ALL_EVENTS_def dispatch_one Let_def)
qed

lemma dispatch_one_chance:
  assumes "one_chance t el0 l" "dispatch_turn t l = Some l'"
  shows "one_chance t el0 l'" "Datalogger_ready_flag l' = Datalogger_ready_flag l" "lg_mounts l' = lg_mounts l"
    "lg_threads l \<le> lg_threads l'"
proof -
  let ?k = "kern (lg_sd l)"
  note a = assms(1)[unfolded one_chance_def Let_def]
  have w: "epending ?k t = 1"
    using a assms(2) by (auto simp: dispatch_turn_def ALL_EVENTS_def Let_def split: if_splits)
  have l': "l' = InsertHandler (l\<lparr>lg_sd := (lg_sd l)\<lparr>kern := set_epending t 0 ?k\<rparr>\<rparr>)"
    using assms(2) dispatch_turn_pending[OF w] by simp
  show "one_chance t el0 l'" using a w
    by (auto simp: one_chance_def l' InsertHandler_def set_epending_def upd_thr_def Let_def split: if_splits)
  show "Datalogger_ready_flag l' = Datalogger_ready_flag l" "lg_mounts l' = lg_mounts l" "lg_threads l \<le> lg_threads l'"
    by (simp_all add: l' InsertHandler_def)
qed

lemma SDMountThread_fields:
  assumes "SDMountThread B l = Some l'"
  shows "lg_threads l' = lg_threads l" "lg_mounts l' = lg_mounts l"
    "Datalogger_ready_flag l' \<longleftrightarrow> Datalogger_ready_flag l \<or> (\<exists>s1. mmcConnect B (lg_sd l) = Some (False, s1))"
  using assms by (auto simp: SDMountThread_def f_mount_def Let_def split: option.splits bool.splits)

lemma keeps_one_chance:
  assumes "one_chance t el0 l" "keeps_monitor t (lg_sd l) s'" "lg_sd l' = s'" "lg_threads l' = lg_threads l"
    "lg_mounts l' \<le> lg_threads l'"
  shows "one_chance t el0 l'"
  using assms by (simp add: one_chance_def keeps_monitor_def Let_def)

lemma logger_step_one_chance:
  assumes "logger_step t B l l'" "one_chance t el0 l"
  shows "one_chance t el0 l'"
  using assms
proof (cases rule: logger_step.cases)
  case poll
  then show ?thesis using poll_one_chance[OF assms(2)] by simp
next
  case dispatch
  then show ?thesis using dispatch_one_chance(1)[OF assms(2)] by simp
next
  case (mount l1)
  show ?thesis
    by (rule keeps_one_chance[OF assms(2) mount(4)])
      (use mount(2) SDMountThread_fields[OF mount(3)] in \<open>simp_all add: mount(1)\<close>)
next
  case (others s1)
  show ?thesis
    by (rule keeps_one_chance[OF assms(2) others(2)]) (use assms(2) in \<open>simp_all add: others(1) one_chance_def Let_def\<close>)
qed

text \<open>After the one mount thread has ended the flag does not change any more.\<close>

lemma logger_step_flag:
  assumes "logger_step t B l l'" "one_chance t el0 l" "lg_mounts l = 1"
  shows "Datalogger_ready_flag l' = Datalogger_ready_flag l" "lg_mounts l' = 1"
proof -
  have th: "lg_threads l \<le> 1" using assms(2) by (auto simp: one_chance_def Let_def split: if_splits)
  have "Datalogger_ready_flag l' = Datalogger_ready_flag l \<and> lg_mounts l' = 1"
    using assms(1)
  proof (cases rule: logger_step.cases)
    case dispatch
    then show ?thesis using dispatch_one_chance[OF assms(2)] assms(3) by simp
  next
    case (mount l1)
    then show ?thesis using th assms(3) by simp
  qed (use assms(3) in simp_all)
  then show "Datalogger_ready_flag l' = Datalogger_ready_flag l" "lg_mounts l' = 1" by simp_all
qed

lemma start_one_chance:
  assumes "currp (kern s) = t" "epending (kern s) t = 0" "inserted_event (mmcp s) \<noteq> removed_event (mmcp s)" "el0 \<noteq> el1"
    "lg_sd l = dispatch_start el0 el1 s" "lg_threads l = 0" "lg_mounts l = 0"
  shows "one_chance t el0 l"
  using assms
  by (simp add: one_chance_def dispatch_start_def Let_def mmcStart_def monitor_arm_def set_mmc_def mmcObjectInit_def
      chEvtRegister_def chEvtRegisterMask_def chEvtInit_def EVENT_MASK_def MMC_POLLING_INTERVAL_def)

section \<open>The card in the slot\<close>

lemma hs_spicfg_no_callback: "sc_end_cb hs_spicfg = None"
  by (simp add: hs_spicfg_def)

lemma mmc_is_inserted_True: "mmc_is_inserted = (\<lambda>c. True)"
  by (rule ext) (simp add: mmc_is_inserted_def)

interpretation card_monitor: monitor "card_board hc cap" for hc cap
proof unfold_locales
  fix s
  show "\<exists>cs. mmcp (asleep (card_board hc cap) s) = fold debounce (map (is_inserted (mmcp s)) cs) (mmcp s)"
    by (rule exI[of _ "[slave s]"]) simp
qed simp_all

lemma card_1000: "sd_card (card_board hc 1000) hs_spicfg mmc_is_inserted (card_phase 1000) hc 1000"
  unfolding mmc_is_inserted_True by (rule card_model) (simp_all add: hs_spicfg_no_callback)

interpretation card_1000: sd_card "card_board hc 1000" hs_spicfg mmc_is_inserted "card_phase 1000" hc 1000 for hc
  by (rule card_1000)

text \<open>A driver that has connected to a new card.\<close>

definition ready_sd :: "bool \<Rightarrow> sdcard sd" where
  "ready_sd hc =
     \<lparr>spip = \<lparr>sp_state = SPI_READY, sp_config = Some hs_spicfg, sp_thread = None\<rparr>,
      slave = \<lparr>stage = S_idle False 0 [], cells = \<lambda>i. replicate 512 0xFF\<rparr>,
      mmcp = \<lparr>mmc_state = MMC_READY, lscfg = ls_spicfg, hscfg = hs_spicfg, is_protected = mmc_is_protected,
        is_inserted = mmc_is_inserted, inserted_event = 0, removed_event = 1, mmc_vt = VT 0, mmc_cnt = 0,
        block_addresses = hc\<rparr>,
      kern = cold\<rparr>"

lemma ready_sd_ok: "card_state hs_spicfg mmc_is_inserted hc (card_phase 1000) MMC_READY (Idle False 0)
    (\<lambda>i. replicate 512 0xFF) (ready_sd hc)"
  by (simp add: card_state_def ready_sd_def spi_at_rest_def hs_spicfg_no_callback card_phase_def)

lemma ready_sd_consistent: "mmc_ok (mmcp (ready_sd hc))" "\<not> transferring (ready_sd hc)"
    "\<not> mmcIsWriteProtected (ready_sd hc)"
  by (simp_all add: ready_sd_def mmc_ok_def transferring_def mmcIsWriteProtected_def mmc_is_protected_def)

section \<open>A start without a card\<close>

text \<open>An empty slot, seen from a thread that is not interrupted.\<close>

definition open_board :: "(sdcard, sdcard sd) board" where
  "open_board = \<lparr>shift_frame = \<lambda>b c. (0xFF, c), write_pad = \<lambda>_ _ _ c. c, write_cr1 = \<lambda>_ c. c, asleep = \<lambda>s. s,
     end_callback = \<lambda>_ s. s, this_thread = mainthread\<rparr>"

lemma shifts_open: "shifts open_board xs c = (replicate (length xs) 0xFF, c)"
  by (induction xs) (simp_all add: open_board_def)

lemma wait_s_open:
  assumes "sp_config (spip s) = Some cfg" "sc_end_cb cfg = None"
  shows "spi_wait_s open_board s = s\<lparr>spip := \<lparr>sp_state = SPI_READY, sp_config = Some cfg, sp_thread = None\<rparr>\<rparr>"
  using assms by (cases "spip s") (simp add: spi_wait_s_def spi_isr_code_def spi_wakeup_isr_def set_sp_state_def open_board_def)

lemma open_transfers:
  assumes "spi_at_rest cfg s"
  shows "spiSend open_board tx s = s" "spiIgnore open_board n s = s"
    "spiReceive open_board n s = (replicate n 0xFF, s)" "spiSelect open_board s = s" "spiUnselect open_board s = s"
proof -
  have s: "sp_config (spip s) = Some cfg" "sc_end_cb cfg = None"
      "s\<lparr>spip := \<lparr>sp_state = SPI_READY, sp_config = Some cfg, sp_thread = None\<rparr>\<rparr> = s"
    using assms by (simp_all add: spi_at_rest_def)
  have w: "spi_wait_s open_board (set_sp_state SPI_ACTIVE s) = s"
    using s wait_s_open[of "set_sp_state SPI_ACTIVE s" cfg] by (simp add: set_sp_state_def)
  have c: "(set_sp_state SPI_ACTIVE s)\<lparr>slave := slave (set_sp_state SPI_ACTIVE s)\<rparr> = set_sp_state SPI_ACTIVE s" by simp
  show "spiSend open_board tx s = s" "spiIgnore open_board n s = s" "spiReceive open_board n s = (replicate n 0xFF, s)"
    by (simp_all add: spiSend_def spiStartSendI_def spi_lld_send_def spiIgnore_def spiStartIgnoreI_def
        spi_lld_ignore_def spiReceive_def spiStartReceiveI_def spi_lld_receive_def shifts_open w c)
  show "spiSelect open_board s = s" "spiUnselect open_board s = s"
    by (simp_all add: spiSelect_def spiUnselect_def spi_lld_select_def spi_lld_unselect_def open_board_def Let_def)
qed

lemma open_command:
  assumes "spi_at_rest cfg s"
  shows "send_command_R1 open_board cmd arg s = Some (0xFF, s)"
proof -
  note t = open_transfers[OF assms]
  have "wait_short 16 open_board s = (True, s)" using wait_short.simps(2)[of 15 open_board s] t(3)[of 1] by simp
  moreover have "recvr1_loop i open_board s = (0xFF, s)" for i using t(3)[of 1] by (induction i) simp_all
  ultimately show ?thesis by (simp add: send_command_R1_def send_hdr_def wait_def recvr1_def t)
qed

lemma open_go_idle: "spi_at_rest cfg s \<Longrightarrow> go_idle i open_board s = Some (True, s)"
proof (induction i rule: less_induct)
  case (less i)
  have "nap open_board s = s" by (simp add: nap_def open_board_def)
  with less show ?case using less.IH[of "i - 1"] by (simp add: go_idle.simps[of i] open_command)
qed

lemma open_connect:
  assumes "mmc_state (mmcp s) = MMC_INSERTED" "sc_end_cb (lscfg (mmcp s)) = None" "sp_thread (spip s) = None"
  shows "mmcConnect open_board s = Some (True, spiStart open_board (lscfg (mmcp s)) s)"
proof -
  have "spi_at_rest (lscfg (mmcp s)) (spiStart open_board (lscfg (mmcp s)) s)" by (rule start_rest[OF assms(2,3)])
  then show ?thesis using assms(1) by (simp add: mmcConnect_def open_transfers open_go_idle)
qed

definition before_start :: "sdcard sd" where
  "before_start = (ready_sd True)\<lparr>mmcp := (mmcp (ready_sd True))\<lparr>mmc_state := MMC_UNINIT\<rparr>\<rparr>"

definition logger_start :: "sdcard logger" where
  "logger_start = \<lparr>lg_sd = dispatch_start 0 1 before_start, lg_fat = \<lparr>FatFs = None, fs_type = \<lambda>_. 0\<rparr>,
     Datalogger_ready_flag = False, lg_threads = 0, lg_mounts = 0\<rparr>"

fun polls :: "nat \<Rightarrow> 'c logger \<Rightarrow> 'c logger" where
  "polls 0 l = l"
| "polls (Suc n) l = (let l1 = polls n l in l1\<lparr>lg_sd := monitor_expire (lg_sd l1)\<rparr>)"

lemma polls_steps: "(logger_step t B)\<^sup>*\<^sup>* l (polls n l)"
proof (induction n)
  case (Suc n)
  have "logger_step t B (polls n l) (polls (Suc n) l)" using logger_step.poll[of t B "polls n l"] by (simp add: Let_def)
  with Suc show ?case by (rule rtranclp.rtrancl_into_rtrancl)
qed simp

lemma is_inserted_debounced: "is_inserted ((debounce r ^^ n) d) = is_inserted d"
  by (induction n) simp_all

lemma polls_fields:
  "lg_threads (polls n l) = lg_threads l" "lg_mounts (polls n l) = lg_mounts l"
  "Datalogger_ready_flag (polls n l) = Datalogger_ready_flag l" "spip (lg_sd (polls n l)) = spip (lg_sd l)"
  "is_inserted (mmcp (lg_sd l)) = mmc_is_inserted \<Longrightarrow>
     mmcp (lg_sd (polls n l)) = (debounce True ^^ n) (mmcp (lg_sd l))"
  by (induction n) (simp_all add: Let_def is_inserted_debounced mmc_is_inserted_def)

lemma before_start_ok: "currp (kern before_start) = mainthread" "epending (kern before_start) mainthread = 0"
    "inserted_event (mmcp before_start) \<noteq> removed_event (mmcp before_start)"
  by (simp_all add: before_start_def ready_sd_def cold_def blank_thread_def)

text \<open>Ten polls, the event, and a connection that fails.\<close>

lemma logger_fails:
  "\<exists>l. (logger_step mainthread open_board)\<^sup>*\<^sup>* logger_start l \<and> lg_mounts l = 1 \<and> \<not> Datalogger_ready l"
proof -
  let ?t = mainthread and ?l = "polls 10 logger_start" and ?d = "mmcp (lg_sd logger_start)"
  have d: "mmc_state ?d = MMC_WAIT" "mmc_cnt ?d = MMC_POLLING_INTERVAL" "is_inserted ?d = mmc_is_inserted"
      "lscfg ?d = ls_spicfg" "spip (lg_sd logger_start) = \<lparr>sp_state = SPI_READY, sp_config = Some hs_spicfg, sp_thread = None\<rparr>"
    by (simp_all add: logger_start_def dispatch_start_def mmcStart_def set_mmc_def mmcObjectInit_def Let_def
        before_start_def ready_sd_def monitor_arm_def)
  have "mmcp (lg_sd ?l) = fold debounce (replicate 10 True) ?d" using polls_fields(5)[OF d(3), of 10] by simp
  then have m: "mmc_state (mmcp (lg_sd ?l)) = MMC_INSERTED" "mmc_cnt (mmcp (lg_sd ?l)) = 0" "lscfg (mmcp (lg_sd ?l)) = ls_spicfg"
    using debounce_readings[OF d(1,2), of "replicate 10 True"] d(4) by (simp_all add: present_trailing trailing_def)
  have zero: "lg_threads ?l = 0" "lg_mounts ?l = 0" "\<not> Datalogger_ready_flag ?l"
    by (simp_all add: polls_fields logger_start_def)
  have start: "one_chance ?t 0 logger_start"
    by (rule start_one_chance[OF before_start_ok, of 0 1]) (simp_all add: logger_start_def)
  have "one_chance ?t 0 ?l" using polls_steps[of ?t open_board logger_start 10]
    by (induction rule: rtranclp_induct) (rule start, rule logger_step_one_chance)
  then have pending: "epending (kern (lg_sd ?l)) ?t = 1" using zero m(2) by (auto simp: one_chance_def Let_def split: if_splits)
  define l1 where "l1 = InsertHandler (?l\<lparr>lg_sd := (lg_sd ?l)\<lparr>kern := set_epending ?t 0 (kern (lg_sd ?l))\<rparr>\<rparr>)"
  have 1: "logger_step ?t open_board ?l l1" unfolding l1_def by (rule logger_step.dispatch[OF dispatch_turn_pending[OF pending]])
  have f1: "mmcp (lg_sd l1) = mmcp (lg_sd ?l)" "spip (lg_sd l1) = spip (lg_sd ?l)" "lg_threads l1 = 1" "lg_mounts l1 = 0"
      "\<not> Datalogger_ready_flag l1"
    using zero by (simp_all add: l1_def InsertHandler_def)
  define l2 where "l2 = l1\<lparr>lg_sd := spiStart open_board ls_spicfg (lg_sd l1)\<rparr>"
  have "mmcConnect open_board (lg_sd l1) = Some (True, spiStart open_board ls_spicfg (lg_sd l1))"
    using open_connect[of "lg_sd l1"] m(1,3) d(5) by (simp add: f1 polls_fields ls_spicfg_def)
  then have 2: "SDMountThread open_board l1 = Some l2" by (simp add: SDMountThread_def l2_def)
  have k: "keeps_monitor ?t (lg_sd l1) (lg_sd l2)"
    by (simp add: keeps_monitor_def l2_def spiStart_def spi_lld_start_def set_sp_state_def Let_def)
  have "logger_step ?t open_board l1 (l2\<lparr>lg_mounts := Suc (lg_mounts l2)\<rparr>)"
    by (rule logger_step.mount[OF _ 2 k]) (simp add: f1)
  with 1 polls_steps[of ?t open_board logger_start 10]
  have "(logger_step ?t open_board)\<^sup>*\<^sup>* logger_start (l2\<lparr>lg_mounts := Suc (lg_mounts l2)\<rparr>)" by auto
  then show ?thesis using f1 by (intro exI) (auto simp: l2_def Datalogger_ready_def)
qed

end
