(* ===== verification/BootModel.thy ===== *)
theory BootModel
  imports CardStart Datalogger
begin

text \<open>
  The card of \<^theory_text>\<open>CardModel\<close> with its start-up in front, byte by byte: it keeps both contracts, so a connection
  brings it to where the transfers begin.
\<close>

unbundle bit_operations_syntax

record bootcard =
  booted :: boot
  replying :: "(nat \<times> u8 list) option"
  sdpart :: sdcard

text \<open>The command that a byte completes, when the card takes it for one of the start-up.\<close>

definition completes :: "bool \<Rightarrow> nat \<Rightarrow> u8 list \<Rightarrow> u8 \<Rightarrow> bootcard \<Rightarrow> (u8 list \<times> boot) option" where
  "completes v2 n0 ocr b c =
     (case stage (sdpart c) of
        S_idle True 0 f \<Rightarrow>
          (let g = f @ [b]; cmd = hd g AND 0x3F
           in if length g = 6 \<and> g = command_frame cmd (frame_arg g)
              then boot_reply v2 n0 ocr (booted c) cmd (frame_arg g) else None)
      | _ \<Rightarrow> None)"

definition boot_shift :: "bool \<Rightarrow> nat \<Rightarrow> bool \<Rightarrow> nat \<Rightarrow> u8 list \<Rightarrow> u8 \<Rightarrow> bootcard \<Rightarrow> u8 \<times> bootcard" where
  "boot_shift hc cap v2 n0 ocr b c =
     (case replying c of
        Some (Suc k, rs) \<Rightarrow> (0xFF, c\<lparr>replying := Some (k, rs)\<rparr>)
      | Some (0, []) \<Rightarrow> (0xFF, c)
      | Some (0, x # rs) \<Rightarrow> (x, c\<lparr>replying := Some (0, rs)\<rparr>)
      | None \<Rightarrow>
          (case completes v2 n0 ocr b c of
             Some (rs, st) \<Rightarrow>
               (0xFF, c\<lparr>booted := st, replying := Some (1, rs), sdpart := (sdpart c)\<lparr>stage := S_idle True 0 []\<rparr>\<rparr>)
           | None \<Rightarrow> (case card_shift hc cap b (sdpart c) of (r, d) \<Rightarrow> (r, c\<lparr>sdpart := d\<rparr>))))"

definition boot_pad :: "nat \<Rightarrow> nat \<Rightarrow> bool \<Rightarrow> bootcard \<Rightarrow> bootcard" where
  "boot_pad port pad lev c =
     (case replying c of
        Some _ \<Rightarrow> c\<lparr>replying := None, sdpart := (sdpart c)\<lparr>stage := S_idle (\<not> lev) 0 []\<rparr>\<rparr>
      | None \<Rightarrow> c\<lparr>sdpart := card_pad port pad lev (sdpart c)\<rparr>)"

definition boot_board :: "bool \<Rightarrow> nat \<Rightarrow> bool \<Rightarrow> nat \<Rightarrow> u8 list \<Rightarrow> (bootcard, bootcard sd) board" where
  "boot_board hc cap v2 n0 ocr =
     \<lparr>shift_frame = boot_shift hc cap v2 n0 ocr, write_pad = boot_pad, write_cr1 = \<lambda>v c. c, asleep = monitor_expire,
      end_callback = \<lambda>f s. s, this_thread = mainthread\<rparr>"

fun boot_phase :: "nat \<Rightarrow> bphase \<Rightarrow> store \<Rightarrow> bootcard \<Rightarrow> bool" where
  "boot_phase cap (Listening sel st) m c \<longleftrightarrow>
     booted c = st \<and> replying c = None \<and> card_phase cap (Idle sel 0) m (sdpart c)"
| "boot_phase cap (Reply k rs st) m c \<longleftrightarrow>
     booted c = st \<and> replying c = Some (k, rs) \<and> card_phase cap (Idle True 0) m (sdpart c)"

definition boot_card_phase :: "nat \<Rightarrow> phase \<Rightarrow> store \<Rightarrow> bootcard \<Rightarrow> bool" where
  "boot_card_phase cap p m c \<longleftrightarrow> booted c = Up \<and> replying c = None \<and> card_phase cap p m (sdpart c)"

lemma shift_boot_board [simp]: "shift_frame (boot_board hc cap v2 n0 ocr) = boot_shift hc cap v2 n0 ocr"
  "write_pad (boot_board hc cap v2 n0 ocr) = boot_pad" "write_cr1 (boot_board hc cap v2 n0 ocr) v c = c"
  "asleep (boot_board hc cap v2 n0 ocr) = monitor_expire" "end_callback (boot_board hc cap v2 n0 ocr) f s = s"
  by (simp_all add: boot_board_def)

section \<open>The start-up\<close>

lemma boot_step:
  assumes "replying c = None" "completes v2 n0 ocr b c = None"
  shows "boot_shift hc cap v2 n0 ocr b c =
    (case card_shift hc cap b (sdpart c) of (r, d) \<Rightarrow> (r, c\<lparr>sdpart := d\<rparr>))"
  using assms by (simp add: boot_shift_def)

lemma boot_listens:
  assumes "replying c = None" "stage (sdpart c) = S_idle True 0 f" "length f < 5" "f = [] \<longrightarrow> b \<noteq> 0xFF"
  shows "boot_shift hc cap v2 n0 ocr b c = (0xFF, c\<lparr>sdpart := \<lparr>stage = S_idle True 0 (f @ [b]), cells = cells (sdpart c)\<rparr>\<rparr>)"
proof -
  have "completes v2 n0 ocr b c = None" using assms(2,3) by (simp add: completes_def Let_def)
  moreover have "\<not> (f = [] \<and> b = 0xFF)" using assms(4) by simp
  ultimately show ?thesis using assms(1-3) by (simp only: boot_step card_shift_def card_step.simps) simp
qed

lemma boot_reply_cmd:
  "boot_reply v2 n0 ocr st cmd arg = Some r \<Longrightarrow> cmd \<in> {0, 1, 8, 16, 41, 55, 58}"
  by (auto simp: boot_reply_def split: boot.splits if_splits)

lemma boot_completes:
  assumes "boot_reply v2 n0 ocr (booted c) cmd arg = Some (rs, st)" "replying c = None"
    "stage (sdpart c) = S_idle True 0 f" "f @ [b] = command_frame cmd arg"
  shows "boot_shift hc cap v2 n0 ocr b c =
    (0xFF, c\<lparr>booted := st, replying := Some (1, rs), sdpart := (sdpart c)\<lparr>stage := S_idle True 0 []\<rparr>\<rparr>)"
proof -
  have "length (f @ [b]) = 6" unfolding assms(4) by (simp add: command_frame_def Let_def)
  then have l: "length f = 5" by simp
  have h: "(0x40 OR cmd) AND 0x3F = cmd" using boot_reply_cmd[OF assms(1)] by auto
  have "hd (f @ [b]) AND 0x3F = cmd" unfolding assms(4) using h by (simp add: command_frame_def Let_def)
  then have "completes v2 n0 ocr b c = Some (rs, st)"
    using assms(1,3,4) l frame_arg_frame[of cmd arg] by (simp add: completes_def Let_def)
  then show ?thesis using assms(2) by (simp add: boot_shift_def)
qed

lemma completes_other:
  assumes "stage (sdpart c) = S_idle True 0 f" "f @ [b] = command_frame cmd arg" "cmd = 18 \<or> cmd = 25"
  shows "completes v2 n0 ocr b c = None"
proof -
  have h: "(0x40 OR cmd) AND 0x3F = cmd" using assms(3) by auto
  have "hd (f @ [b]) AND 0x3F = cmd" unfolding assms(2) using h by (simp add: command_frame_def Let_def)
  moreover have "boot_reply v2 n0 ocr (booted c) cmd a = None" for a
    using boot_reply_cmd[of v2 n0 ocr "booted c" cmd a] assms(3) by (cases "boot_reply v2 n0 ocr (booted c) cmd a") auto
  ultimately show ?thesis using assms(1) by (simp add: completes_def Let_def)
qed

text \<open>The five bytes of a frame are taken in; what the sixth does is up to the card.\<close>

lemma frame_heard:
  assumes "replying c = None" "stage (sdpart c) = S_idle True 0 []" "0x40 OR cmd \<noteq> 0xFF"
  obtains f b where "f @ [b] = command_frame cmd arg" "length f = 5"
    "snd (shifts (boot_board hc cap v2 n0 ocr) (command_frame cmd arg) c) =
     snd (boot_shift hc cap v2 n0 ocr b (c\<lparr>sdpart := \<lparr>stage = S_idle True 0 f, cells = cells (sdpart c)\<rparr>\<rparr>))"
proof -
  obtain x y1 y2 y3 y4 b where F: "command_frame cmd arg = [x, y1, y2, y3, y4, b]" "x = 0x40 OR cmd"
    by (simp add: command_frame_def Let_def)
  let ?c = "\<lambda>f. c\<lparr>sdpart := \<lparr>stage = S_idle True 0 f, cells = cells (sdpart c)\<rparr>\<rparr>"
  let ?s = "\<lambda>b c. snd (boot_shift hc cap v2 n0 ocr b c)"
  have "?s x c = ?c [x]" using boot_listens[OF assms(1,2)] assms(3) F(2) by simp
  moreover have "?s y (?c f) = ?c (f @ [y])" if "f \<noteq> []" "length f < 5" for y f
    using boot_listens[of "?c f" f y] assms(1) that by simp
  ultimately have "snd (shifts (boot_board hc cap v2 n0 ocr) (command_frame cmd arg) c) = ?s b (?c [x, y1, y2, y3, y4])"
    unfolding F(1) by (simp add: snd_shifts_Cons del: shifts.simps) (simp add: snd_shifts_Cons)
  then show thesis using that[of "[x, y1, y2, y3, y4]" b] F(1) by simp
qed

text \<open>The card goes to what \<open>boot_reply\<close> says.\<close>

lemma boot_command_phase:
  assumes "boot_phase cap (Listening True st) m c" "boot_reply v2 n0 ocr st cmd arg = Some (rs, st1)"
  shows "boot_phase cap (Reply 1 rs st1) m (snd (shifts (boot_board hc cap v2 n0 ocr) (command_frame cmd arg) c))"
proof -
  have c: "booted c = st" "replying c = None" "stage (sdpart c) = S_idle True 0 []"
    "cells (sdpart c) = m" "\<forall>i < cap. length (m i) = 512"
    using assms(1) by (auto simp: card_phase_def)
  have "0x40 OR cmd \<noteq> 0xFF" using boot_reply_cmd[OF assms(2)] by auto
  then obtain f b where f: "f @ [b] = command_frame cmd arg" and
    s: "snd (shifts (boot_board hc cap v2 n0 ocr) (command_frame cmd arg) c) =
      snd (boot_shift hc cap v2 n0 ocr b (c\<lparr>sdpart := \<lparr>stage = S_idle True 0 f, cells = cells (sdpart c)\<rparr>\<rparr>))"
    by (rule frame_heard[OF c(2,3)])
  show ?thesis
    using boot_completes[OF _ _ _ f, of v2 n0 ocr "c\<lparr>sdpart := \<lparr>stage = S_idle True 0 f, cells = cells (sdpart c)\<rparr>\<rparr>" rs st1 hc cap]
      assms(2) c unfolding s by (simp add: card_phase_def)
qed

lemma boot_pad_phase:
  "boot_phase cap (Listening sel st) m c \<Longrightarrow> boot_phase cap (Listening True st) m (boot_pad port pad False c)"
  "boot_phase cap (Reply k rs st) m c \<Longrightarrow> boot_phase cap (Listening False st) m (boot_pad port pad True c)"
  by (simp_all add: boot_pad_def card_phase_def card_pad_def)

lemma boot_idle_phase:
  assumes "boot_phase cap (Listening sel st) m c" "boot_shift hc cap v2 n0 ocr 0xFF c = (r, c1)"
  shows "(sel \<longrightarrow> r = 0xFF) \<and> boot_phase cap (Listening sel st) m c1"
proof -
  have c: "replying c = None" "stage (sdpart c) = S_idle sel 0 []" using assms(1) by (auto simp: card_phase_def)
  then have "completes v2 n0 ocr 0xFF c = None" by (auto simp: completes_def split: bool.splits)
  then show ?thesis using assms c by (cases sel) (auto simp: boot_step card_shift_def card_phase_def)
qed

lemma boot_answer_phase:
  assumes "boot_phase cap (Reply k (x # rs) st) m c" "boot_shift hc cap v2 n0 ocr 0xFF c = (r, c1)"
  shows "if k = 0 then r = x \<and> boot_phase cap (Reply 0 rs st) m c1
    else r = 0xFF \<and> boot_phase cap (Reply (k - 1) (x # rs) st) m c1"
  using assms by (cases k) (auto simp: boot_shift_def)

lemma boot_rest_phase:
  assumes "boot_phase cap (Reply 0 rs st) m c" "length rs \<le> 4"
    "shifts (boot_board hc cap v2 n0 ocr) (replicate 4 0xFF) c = (bs, c1)"
  shows "(length rs = 4 \<longrightarrow> bs = rs) \<and> boot_phase cap (Reply 0 [] st) m c1"
proof -
  have "\<exists>bs. shifts (boot_board hc cap v2 n0 ocr) (replicate n 0xFF) c = (take n rs @ bs, c\<lparr>replying := Some (0, drop n rs)\<rparr>)
      \<and> length (take n rs @ bs) = n" if "replying c = Some (0, rs)" for n rs c
    using that
  proof (induction n arbitrary: rs c)
    case (Suc n)
    show ?case
    proof (cases rs)
      case Nil
      then show ?thesis using Suc.IH[OF Suc.prems] Suc.prems by (auto simp: boot_shift_def)
    next
      case (Cons x xs)
      then show ?thesis using Suc.IH[of "c\<lparr>replying := Some (0, xs)\<rparr>" xs] Suc.prems by (auto simp: boot_shift_def)
    qed
  qed simp
  from this[of c rs 4] show ?thesis using assms by auto
qed

lemma boot_card_model:
  assumes "length ocr = 4" "sc_end_cb cfg = None"
  shows "boot_card (boot_board hc cap v2 n0 ocr) cfg (\<lambda>c. True) (boot_phase cap) v2 n0 ocr"
proof (unfold_locales, unfold shift_boot_board, goal_cases)
  case 1 show ?case by fact
next
  case 2 show ?case by simp
next
  case 3 then show ?case by simp
next
  case 4 then show ?case by (simp add: debounce_def)
next
  case 5 then show ?case .
next
  case 6 then show ?case by (rule boot_pad_phase(1))
next
  case 7 then show ?case by (rule boot_pad_phase(2))
next
  case 8 then show ?case by (rule boot_idle_phase)
next
  case (9 st m c cmd arg rs st1)
  have "(1 :: nat) < 9" by simp
  then show ?case using boot_command_phase[OF 9] by blast
next
  case 10 then show ?case by (rule boot_answer_phase)
next
  case 11 then show ?case by (rule boot_rest_phase)
next
  case 12 show ?case by fact
qed

section \<open>The transfers\<close>

text \<open>Outside its idle state, and while it answers no command of the start-up, the card is that of \<^theory_text>\<open>CardModel\<close>.\<close>

lemma card_step_idle:
  "card_step hc cap b st m = (r, S_idle sel n f, m1) \<Longrightarrow> \<exists>n f. st = S_idle sel n f"
  by (cases st) (auto simp: accept_def Let_def split: if_splits job.splits)

lemma run_shift:
  assumes "replying c = None" "completes v2 n0 ocr b c = None" "boot_shift hc cap v2 n0 ocr b c = (r, c1)"
  shows "card_shift hc cap b (sdpart c) = (r, sdpart c1) \<and> booted c1 = booted c \<and> replying c1 = None"
  using assms by (auto simp: boot_step split: prod.splits)

lemma completes_busy:
  "\<nexists>f. stage (sdpart c) = S_idle True 0 f \<Longrightarrow> completes v2 n0 ocr b c = None"
  by (auto simp: completes_def split: stage.splits bool.splits nat.splits)

lemma run_shifts:
  assumes "replying c = None" "\<nexists>sel n f. stage (sdpart c) = S_idle sel n f"
  shows "shifts (boot_board hc cap v2 n0 ocr) xs c =
    (case shifts (card_board hc cap) xs (sdpart c) of (rs, d) \<Rightarrow> (rs, c\<lparr>sdpart := d\<rparr>))"
  using assms
proof (induction xs arbitrary: c)
  case (Cons x xs)
  have "completes v2 n0 ocr x c = None" using Cons.prems(2) by (intro completes_busy) blast
  then have b: "boot_shift hc cap v2 n0 ocr x c =
      (case card_shift hc cap x (sdpart c) of (r, d) \<Rightarrow> (r, c\<lparr>sdpart := d\<rparr>))"
    by (rule boot_step[OF Cons.prems(1)])
  obtain r st m where k: "card_step hc cap x (stage (sdpart c)) (cells (sdpart c)) = (r, st, m)" by (metis prod.exhaust)
  let ?c = "c\<lparr>sdpart := \<lparr>stage = st, cells = m\<rparr>\<rparr>"
  have "\<nexists>sel n f. stage (sdpart ?c) = S_idle sel n f" using card_step_idle[of hc cap x "stage (sdpart c)" "cells (sdpart c)" r] k Cons.prems(2) by fastforce
  then have "shifts (boot_board hc cap v2 n0 ocr) xs ?c =
      (case shifts (card_board hc cap) xs \<lparr>stage = st, cells = m\<rparr> of (rs, d) \<Rightarrow> (rs, ?c\<lparr>sdpart := d\<rparr>))"
    using Cons.IH[of ?c] Cons.prems(1) by simp
  then show ?case using b card_step_shift[OF k] by (simp split: prod.splits)
qed simp

definition transfers :: "phase \<Rightarrow> bool" where
  "transfers p = (case p of Idle _ _ \<Rightarrow> False | _ \<Rightarrow> True)"

lemma transfers_stage:
  "transfers p \<Longrightarrow> boot_card_phase cap p m c \<Longrightarrow> replying c = None \<and> (\<nexists>sel n f. stage (sdpart c) = S_idle sel n f)"
  by (cases p) (auto simp: transfers_def boot_card_phase_def card_phase_def)

lemma transfers_shifts:
  assumes "transfers p" "boot_card_phase cap p m c" "shifts (boot_board hc cap v2 n0 ocr) xs c = (rs, c1)"
  shows "\<exists>d. shifts (card_board hc cap) xs (sdpart c) = (rs, d) \<and> (boot_card_phase cap q m1 c1 \<longleftrightarrow> card_phase cap q m1 d)"
  using run_shifts transfers_stage[OF assms(1,2)] assms(2,3) by (auto simp: boot_card_phase_def split: prod.splits)

lemma transfers_snd:
  assumes "transfers p" "boot_card_phase cap p m c"
  shows "boot_card_phase cap q m1 (snd (shifts (boot_board hc cap v2 n0 ocr) xs c)) \<longleftrightarrow>
    card_phase cap q m1 (snd (shifts (card_board hc cap) xs (sdpart c)))"
  using run_shifts transfers_stage[OF assms] assms(2) by (auto simp: boot_card_phase_def split: prod.splits)

lemma run_snd:
  assumes "boot_card_phase cap p m c" "transfers p"
    and "card_phase cap p m (sdpart c) \<Longrightarrow> card_phase cap q m1 (snd (shifts (card_board hc cap) xs (sdpart c)))"
  shows "boot_card_phase cap q m1 (snd (shifts (boot_board hc cap v2 n0 ocr) xs c))"
  unfolding transfers_snd[OF assms(2,1)] using assms(1,3) by (simp add: boot_card_phase_def)

lemma transfers_shift:
  assumes "transfers p \<or> p = Idle sel n" "boot_card_phase cap p m c" "boot_shift hc cap v2 n0 ocr 0xFF c = (r, c1)"
  shows "\<exists>d. card_shift hc cap 0xFF (sdpart c) = (r, d) \<and> (\<forall>q m1. boot_card_phase cap q m1 c1 \<longleftrightarrow> card_phase cap q m1 d)"
proof -
  have "completes v2 n0 ocr 0xFF c = None"
    using assms(1,2) transfers_stage[of p cap m c] by (auto simp: completes_def boot_card_phase_def card_phase_def
      split: stage.splits bool.splits nat.splits)
  from run_shift[OF _ this assms(3)] show ?thesis using assms(2) by (auto simp: boot_card_phase_def)
qed

section \<open>It keeps the contracts\<close>

lemma boot_accept_phase:
  assumes "boot_card_phase cap (Idle True 0) m c" "job_block j < cap" "cap \<le> 2 ^ 32" "hc \<or> 512 * cap \<le> 2 ^ 32"
    "arg = of_nat (if hc then job_block j else 512 * job_block j)"
  shows "boot_card_phase cap (Answering j 1) m (snd (shifts (boot_board hc cap v2 n0 ocr) (command_frame (job_cmd j) arg) c))"
proof -
  have c: "booted c = Up" "replying c = None" "stage (sdpart c) = S_idle True 0 []" "cells (sdpart c) = m"
    "\<forall>i < cap. length (m i) = 512"
    using assms(1) by (auto simp: boot_card_phase_def card_phase_def)
  have cmd: "job_cmd j = 18 \<or> job_cmd j = 25" by (cases j) simp_all
  then have "0x40 OR job_cmd j \<noteq> 0xFF" by auto
  then obtain f b where f: "f @ [b] = command_frame (job_cmd j) arg" "length f = 5" and
    s: "snd (shifts (boot_board hc cap v2 n0 ocr) (command_frame (job_cmd j) arg) c) =
      snd (boot_shift hc cap v2 n0 ocr b (c\<lparr>sdpart := \<lparr>stage = S_idle True 0 f, cells = cells (sdpart c)\<rparr>\<rparr>))"
    by (rule frame_heard[OF c(2,3)])
  let ?c = "c\<lparr>sdpart := \<lparr>stage = S_idle True 0 f, cells = cells (sdpart c)\<rparr>\<rparr>"
  have "f \<noteq> []" using f(2) by auto
  then have "card_shift hc cap b (sdpart ?c) = (0xFF, \<lparr>stage = S_answer j 1, cells = cells (sdpart c)\<rparr>)"
    using f accept_frame[OF assms(2-5)] by (simp add: card_shift_def)
  moreover have "completes v2 n0 ocr b ?c = None" by (rule completes_other[OF _ f(1) cmd]) simp
  ultimately show ?thesis unfolding s using c by (simp add: boot_step boot_card_phase_def card_phase_def)
qed

lemma boot_model:
  assumes "cap \<le> 2 ^ 32" "hc \<or> 512 * cap \<le> 2 ^ 32" "sc_end_cb cfg = None"
  shows "sd_card (boot_board hc cap v2 n0 ocr) cfg (\<lambda>c. True) (boot_card_phase cap) hc cap"
proof (unfold_locales, unfold shift_boot_board, goal_cases)
  case 1 show ?case by fact
next
  case 2 show ?case by simp
next
  case 3 then show ?case by simp
next
  case 4 then show ?case by (simp add: debounce_def)
next
  case 5 show ?case by fact
next
  case 6 show ?case by fact
next
  case 7 then show ?case .
next
  case (8 sel n m c) then show ?case
    using pad_card_phase(1)[of cap sel n m "sdpart c"] by (simp add: boot_card_phase_def boot_pad_def)
next
  case (9 p m c)
  have "card_phase cap p m (sdpart c)" using 9(2) by (simp add: boot_card_phase_def)
  then show ?case
    using pad_card_phase(2)[OF 9(1)] 9(2) by (intro exI[of _ 1]) (simp add: boot_card_phase_def boot_pad_def)
next
  case (10 f a n m c r c1)
  have "transfers (f n) \<or> f n = Idle True n" using 10(1) by (auto simp: transfers_def)
  from transfers_shift[OF this 10(2,3)] obtain d where
    d: "card_shift hc cap 0xFF (sdpart c) = (r, d)" "boot_card_phase cap q m1 c1 \<longleftrightarrow> card_phase cap q m1 d" for q m1 by blast
  have "card_phase cap (f n) m (sdpart c)" using 10(2) by (simp add: boot_card_phase_def)
  from busy_card_phase[OF 10(1) this d(1)] show ?case unfolding d(2) .
next
  case (11 m c j arg)
  have "(1 :: nat) < 9" by simp
  then show ?case using boot_accept_phase[OF 11(1,2) assms(1,2) 11(3)] by blast
next
  case (12 j k m c r c1)
  have "transfers (Answering j k) \<or> Answering j k = Idle True 0" by (simp add: transfers_def)
  from transfers_shift[OF this 12] obtain d where
    d: "card_shift hc cap 0xFF (sdpart c) = (r, d)" "boot_card_phase cap q m1 c1 \<longleftrightarrow> card_phase cap q m1 d" for q m1 by blast
  have "card_phase cap (Answering j k) m (sdpart c)" using 12(1) by (simp add: boot_card_phase_def)
  from answer_card_phase[OF this d(1)] show ?case unfolding d(2) .
next
  case (13 a d m c r c1)
  have "transfers (Reading a d) \<or> Reading a d = Idle True 0" by (simp add: transfers_def)
  from transfers_shift[OF this 13(1,3)] obtain e where
    e: "card_shift hc cap 0xFF (sdpart c) = (r, e)" "boot_card_phase cap q m1 c1 \<longleftrightarrow> card_phase cap q m1 e" for q m1 by blast
  have "card_phase cap (Reading a d) m (sdpart c)" using 13(1) by (simp add: boot_card_phase_def)
  from token_card_phase[OF this 13(2) e(1)] show ?case unfolding e(2) .
next
  case (14 a m c rs c1)
  have "transfers (Sending a)" by (simp add: transfers_def)
  from transfers_shifts[OF this 14, of "Checksum a" m] sending_card_phase[of cap a m "sdpart c" hc] 14(1)
  show ?case by (auto simp: boot_card_phase_def)
next
  case (15 a m c)
  have "card_phase cap (Checksum a) m (sdpart c)" using 15 by (simp add: boot_card_phase_def)
  then show ?case using checksum_card_phase[of cap a m "sdpart c" hc] transfers_snd[OF _ 15] by (simp only: transfers_def phase.case)
next
  case (16 a d m c)
  then show ?case by (intro run_snd[OF 16]) (simp add: transfers_def, rule stop_card_phase)
next
  case (17 m c)
  obtain r c1 where r: "boot_shift hc cap v2 n0 ocr 0xFF c = (r, c1)" by (metis prod.exhaust)
  have "transfers Stopping \<or> Stopping = Idle True 0" by (simp add: transfers_def)
  from transfers_shift[OF this 17 r] obtain d where
    d: "card_shift hc cap 0xFF (sdpart c) = (r, d)" "boot_card_phase cap q m1 c1 \<longleftrightarrow> card_phase cap q m1 d" for q m1 by blast
  have "card_phase cap Stopping m d" using 17 d(1) by (auto simp: boot_card_phase_def card_phase_def card_shift_def)
  then show ?case using r d(2) by simp
next
  case (18 a m c)
  then show ?case by (intro run_snd[OF 18]) (simp add: transfers_def, rule token_in_card_phase(1))
next
  case (19 a m c dat)
  then show ?case by (intro run_snd[OF 19(1)]) (simp add: transfers_def, rule receiving_card_phase, assumption+)
next
  case (20 a dat m c)
  then show ?case by (intro run_snd[OF 20]) (simp add: transfers_def, rule received_card_phase)
next
  case (21 a dat m c r c1)
  have "transfers (Accepting a dat) \<or> Accepting a dat = Idle True 0" by (simp add: transfers_def)
  from transfers_shift[OF this 21(1,3)] obtain d where
    d: "card_shift hc cap 0xFF (sdpart c) = (r, d)" "boot_card_phase cap q m1 c1 \<longleftrightarrow> card_phase cap q m1 d" for q m1 by blast
  have "card_phase cap (Accepting a dat) m (sdpart c)" using 21(1) by (simp add: boot_card_phase_def)
  from accepting_card_phase[OF this 21(2) d(1)] show ?case unfolding d(2) .
next
  case (22 a m c)
  then show ?case by (intro run_snd[OF 22]) (simp add: transfers_def, rule token_in_card_phase(2))
qed

lemma boot_connects:
  assumes "cap \<le> 2 ^ 32" "hc \<or> 512 * cap \<le> 2 ^ 32" "sc_end_cb cfg = None" "sc_end_cb lcfg = None" "length ocr = 4"
    "hc \<longleftrightarrow> v2 \<and> ocr ! 0 AND 0x40 \<noteq> 0" "n0 < 100"
  shows "sd_boot (boot_board hc cap v2 n0 ocr) cfg (\<lambda>c. True) (boot_card_phase cap) hc cap lcfg (boot_phase cap) v2 n0 ocr"
proof (intro sd_boot.intro sd_boot_axioms.intro)
  show "sd_card (boot_board hc cap v2 n0 ocr) cfg (\<lambda>c. True) (boot_card_phase cap) hc cap" by (rule boot_model[OF assms(1-3)])
  show "boot_card (boot_board hc cap v2 n0 ocr) lcfg (\<lambda>c. True) (boot_phase cap) v2 n0 ocr"
    "boot_card (boot_board hc cap v2 n0 ocr) cfg (\<lambda>c. True) (boot_phase cap) v2 n0 ocr"
    by (rule boot_card_model[OF assms(5)]; fact)+
qed (use assms(6,7) in \<open>simp_all add: boot_card_phase_def\<close>)

section \<open>A card in the slot\<close>

text \<open>A card of 1000 sectors, busy with itself for three polls, with sectors that nobody has written.\<close>

definition fresh_ocr :: "bool \<Rightarrow> u8 list" where
  "fresh_ocr hc = [if hc then 0xC0 else 0x80, 0xFF, 0x80, 0]"

definition fresh_board :: "bool \<Rightarrow> (bootcard, bootcard sd) board" where
  "fresh_board hc = boot_board hc 1000 True 3 (fresh_ocr hc)"

definition fresh_card :: bootcard where
  "fresh_card = \<lparr>booted = Powered, replying = None,
     sdpart = \<lparr>stage = S_idle False 0 [], cells = \<lambda>i. replicate 512 0xFF\<rparr>\<rparr>"

text \<open>A driver that has found a card inserted; it has, or has not, met a card with blocks before.\<close>

definition found_sd :: "bool \<Rightarrow> bootcard sd" where
  "found_sd met =
     \<lparr>spip = \<lparr>sp_state = SPI_STOP, sp_config = None, sp_thread = None\<rparr>, slave = fresh_card,
      mmcp = \<lparr>mmc_state = MMC_INSERTED, lscfg = ls_spicfg, hscfg = hs_spicfg, is_protected = mmc_is_protected,
        is_inserted = mmc_is_inserted, inserted_event = 0, removed_event = 1, mmc_vt = VT 0, mmc_cnt = 0,
        block_addresses = met\<rparr>,
      kern = cold\<rparr>"

lemma fresh_boots: "sd_boot (fresh_board hc) hs_spicfg mmc_is_inserted (boot_card_phase 1000) hc 1000 ls_spicfg
    (boot_phase 1000) True 3 (fresh_ocr hc)"
  unfolding fresh_board_def mmc_is_inserted_True
  by (rule boot_connects) (simp_all add: hs_spicfg_def ls_spicfg_def fresh_ocr_def)

interpretation fresh_boot: boot_card "fresh_board hc" ls_spicfg mmc_is_inserted "boot_phase 1000" True 3 "fresh_ocr hc" for hc
  unfolding fresh_board_def mmc_is_inserted_True
  by (rule boot_card_model) (simp_all add: ls_spicfg_def fresh_ocr_def)

interpretation fresh: sd_boot "fresh_board hc" hs_spicfg mmc_is_inserted "boot_card_phase 1000" hc 1000 ls_spicfg
    "boot_phase 1000" True 3 "fresh_ocr hc" for hc
  by (rule fresh_boots)

lemma found_ok: "mmc_state (mmcp (found_sd a)) = MMC_INSERTED" "mmc_cnt (mmcp (found_sd a)) = 0"
    "is_inserted (mmcp (found_sd a)) = mmc_is_inserted" "lscfg (mmcp (found_sd a)) = ls_spicfg"
    "hscfg (mmcp (found_sd a)) = hs_spicfg" "sp_thread (spip (found_sd a)) = None"
    "boot_phase 1000 (Listening False Powered) (\<lambda>i. replicate 512 0xFF) (slave (found_sd a))"
    "block_addresses (mmcp (found_sd a)) = a" "is_protected (mmcp (found_sd a)) = mmc_is_protected"
  by (simp_all add: found_sd_def fresh_card_def card_phase_def)

lemma mount_ready:
  assumes "mmcConnect B (lg_sd l) = Some (False, s1)"
  shows "\<exists>l1. SDMountThread B l = Some l1 \<and> Datalogger_ready l1"
  using assms by (simp add: SDMountThread_def f_mount_def Datalogger_ready_def Let_def)

end
