(* ===== verification/Spec2Isabelle.thy ===== *)
theory Spec2Isabelle
  imports Scenario Eeprom Flight Link Sensor Attitude Interrupts BootModel
begin

text \<open>
  A quadrocopter firmware for the STM32F407: the ChibiOS/RT 2.4.2 kernel (\<^verbatim>\<open>os/kernel\<close>)
  and the application in \<^verbatim>\<open>Quad\<close>. Its threads read the remote control, estimate the
  attitude, run the flight controllers, talk MAVLink to a ground station and keep their
  parameters in flash. This development models the kernel whole and the application
  components listed below, and proves what they promise.

  \<^bold>\<open>The kernel.\<close> A kernel state is one record (\<open>kernel\<close>, theory \<open>Kernel\<close>): every thread
  (\<open>thread\<close>, \<^verbatim>\<open>struct Thread\<close> of \<^verbatim>\<open>chthreads.h\<close>), every queue, the ready list, the running
  thread, the timers and every semaphore, mutex, event source, mailbox, I/O queue and
  memory manager by its address. An operation that does not block is a function on states.
  An operation that may lose the processor is a \<open>step\<close>: it returns, or it switches, with
  the rest of the call as a function of the state the thread is resumed in, or it hangs.
  The configuration is that of \<^verbatim>\<open>chconf.h\<close>: FIFO semaphore and message queues, a quantum
  of 20 ticks, no debug checks.

  \<^item> \<open>ThreadLists\<close>: the routines of \<^verbatim>\<open>chinline.h\<close> and \<^verbatim>\<open>chlists.c\<close> on pointers; they refine
    list operations and satisfy the contract \<open>thread_queue\<close>.
  \<^item> \<open>VirtualTimers\<close> (\<^verbatim>\<open>chvt.c\<close>): the delta list refines a map from armed timers to the ticks
    they have left; the contract is \<open>timer_service\<close>.
  \<^item> \<open>Scheduler\<close> (\<^verbatim>\<open>chschd.c\<close>, \<^verbatim>\<open>chsys.c\<close>) and its invariant \<open>kinv\<close>; \<open>Threads\<close> (\<^verbatim>\<open>chthreads.c\<close>,
    \<^verbatim>\<open>chregistry.c\<close>), \<open>Semaphores\<close>, \<open>Mutexes\<close> with priority inheritance, \<open>CondVars\<close>,
    \<open>Events\<close>, \<open>Messages\<close>: every call of the file of that name, each with the lemma that it
    keeps \<open>kinv\<close> and does not hang.
  \<^item> \<open>RingBuffer\<close>: cyclic buffers and the contract \<open>bounded_fifo\<close>; \<open>Mailboxes\<close> (\<^verbatim>\<open>chmboxes.c\<close>)
    and \<open>IOQueues\<close> (\<^verbatim>\<open>chqueues.c\<close>) satisfy it.
  \<^item> \<open>Memory\<close>: the core allocator, the heap and the pools. Sizes are 32-bit with their
    wrap-around written out. \<open>Dynamic\<close>: threads on heap and pool (\<^verbatim>\<open>chdynamic.c\<close>).
  \<^item> \<open>System\<close>: kernel calls, resumption, interrupts and pre-emption as one step relation with
    its reachable states. \<open>Scenario\<close>: concrete kernels the theorems are tried on.

  \<^bold>\<open>The application.\<close>

  \<^item> \<open>Mavlink\<close> (\<^verbatim>\<open>Quad/mavlink\<close>): messages, the checksum, the sender and the receive state
    machine of a channel, a byte at a time.
  \<^item> \<open>Flash\<close> (\<^verbatim>\<open>stm32f4xx_flash.cpp\<close>): the driver on the registers of the flash controller. How
    long an operation takes and whether it fails is a parameter (\<open>controller\<close>).
  \<^item> \<open>Eeprom\<close> (\<^verbatim>\<open>eeprom.cpp\<close>, \<^verbatim>\<open>Flash.cpp\<close>): variables as a log of words in two flash pages. The
    abstraction is \<open>ee_ok s b n\<close>: page \<open>b\<close> is valid and \<open>n\<close> words of it are written.
  \<^item> \<open>Floats\<close>: IEEE 754 arithmetic of \<^verbatim>\<open>float\<close> and \<^verbatim>\<open>double\<close> as rounding of rational results, with
    infinities and NaN. A literal without suffix is a \<^verbatim>\<open>double\<close>, as in C++ and in the Keil
    project; the option \<^verbatim>\<open>-fsingle-precision-constant\<close> of the \<^verbatim>\<open>Makefile\<close> is not modelled, nor
    is the fusing of a multiplication with an addition. \<open>FloatBits\<close>: the patterns of floats.
  \<^item> \<open>Remote\<close> (\<^verbatim>\<open>Fernsteuerung.cpp\<close>): the interrupts that measure the pulses of the receiver,
    calibration, its storage, and the setpoints. A calibration refines a fold of \<open>observe\<close>.
  \<^item> \<open>Motors\<close> (\<^verbatim>\<open>Motoren.cpp\<close>) and \<open>Control\<close> (\<^verbatim>\<open>Regelung.cpp\<close>): one pass of the controller
    as a function of its inputs and its globals, the ring of log lines, and the steps of
    the threads that print and flush the log. \<open>Flight\<close>: the controller on the setpoints of
    the remote control.
  \<^item> \<open>Wire\<close> (\<^verbatim>\<open>mavlink/common\<close>): packers and decoders of the messages the firmware sends and handles.
    \<open>Gcs\<close> (\<^verbatim>\<open>GCS.cpp\<close>): the table of parameters, its storage, telemetry, and what a
    byte from the radio does; what uninitialised locals hold is in \<open>surroundings\<close>. \<open>Serial\<close>
    (\<^verbatim>\<open>os/hal/src/serial.c\<close>): the driver over the kernel's queues and events, and the thread that reads it.
    \<open>Link\<close>: frames of the ground station through the receive state machine into the handlers, and
    telemetry back.
  \<^item> \<open>I2Cdev\<close>, \<open>Mpu\<close> (\<^verbatim>\<open>MPU6050.cpp\<close>) and \<open>Dmp\<close> (\<^verbatim>\<open>MPU6050_6Axis_MotionApps20.h\<close>): registers of
    the sensor, the memory of its motion processor, its program and its start-up. The transfer on
    the bus and the sensor are the parameter \<open>bus\<close>. \<open>Sensor\<close>: what the documentation promises of registers and
    memory (\<open>keeps_registers\<close>, \<open>keeps_memory\<close>) and what the driver does with a sensor that keeps it.
    \<open>Lage\<close> (\<^verbatim>\<open>Lage.cpp\<close>): the turn of the attitude thread, decoding of packets, the getters.
    \<open>Attitude\<close>: a turn on a FIFO as documented (\<open>feeds\<close>), turns on a bus that has failed, and
    the inputs of the controller.

  \<^item> \<open>Ext\<close> (\<^verbatim>\<open>os/hal/src/ext.c\<close>, \<^verbatim>\<open>STM32/ext_lld.c\<close>): external interrupts, on the registers of their controller;
    the contract \<open>ext_table\<close> of a configuration, and the calls an interrupt makes. \<open>Interrupts\<close> (\<^verbatim>\<open>ExternalInterrupt.cpp\<close>):
    the firmware's table, which keeps it, and pulses of the receiver from the edges to the widths.

  \<^bold>\<open>The memory card.\<close> The calls that the data logger and the file system make, down to the bytes on
  the wires. What is on the bus is a parameter: a \<open>board\<close> says what a byte that is shifted out brings
  back, and what happens elsewhere while the caller sleeps.

  \<^item> \<open>Spi\<close> (\<^verbatim>\<open>os/hal/src/spi.c\<close>, \<^verbatim>\<open>STM32/spi_lld.c\<close>): the driver as a record in \<open>spi_world\<close>; a
    synchronous call is its transfer, sleep and the interrupt at its end. The contract \<open>sleeper\<close>: sleeping
    leaves the driver alone.
  \<^item> \<open>Crc7\<close>: the table-driven checksum of commands and its reference, bit by bit. \<open>Mmc\<close>
    (\<^verbatim>\<open>os/hal/src/mmc_spi.c\<close>): the monitor of the insertion switch, commands, connecting, and sequences
    of blocks. A call that waits for the card without a limit gives \<open>None\<close> when the card never answers.
  \<^item> \<open>CardMonitor\<close>: debouncing, and the invariant \<open>mmc_ok\<close> of the driver object when the monitor may
    run during any sleep (contract \<open>monitor\<close>). \<open>Disk\<close> (\<^verbatim>\<open>fatfs/src/diskio.c\<close>): the interface to the file
    system, and what an empty slot or a line held low does to it.
  \<^item> \<open>SdCard\<close>: a card by its phases and its sectors, as the SD specification documents the SPI
    protocol (contracts \<open>wired\<close> and \<open>sd_card\<close>), and reads and writes on it. \<open>CardStart\<close>: its start-up
    (\<open>boot_card\<close>, \<open>sd_boot\<close>) and \<^verbatim>\<open>mmcConnect\<close>. \<open>CardModel\<close> and \<open>BootModel\<close>: cards, byte by byte, that keep these contracts.
  \<^item> \<open>Datalogger\<close> (\<^verbatim>\<open>Datalogger.cpp\<close>, \<^verbatim>\<open>f_mount\<close> of \<^verbatim>\<open>ff.c\<close>): the threads of the data logger, interleaved
    with the monitor and other users of the card by \<open>logger_step\<close>.

  \<^bold>\<open>Bounds and fuel.\<close> The loops of the kernel are structural, have a measure, or are partial
  functions whose results are proved to exist (the boost loop of \<^verbatim>\<open>chMtxLockS\<close> and the unlock
  loop). The waits of the I/O queues repeat while the queue stays empty or full and carry fuel; the
  theorems that use one pass need one unit. The page loops count the 32768 words of a
  flash page. The waits for the FIFO of the sensor carry fuel; one unit is enough when a packet is there.
  The waits for the memory card are partial functions; on a card that keeps its contract they are proved to
  return.

  \<^bold>\<open>Not modelled.\<close> The context switch itself and interrupt masking (assembler of the port);
  the HAL drivers other than \<^verbatim>\<open>serial.c\<close>, \<^verbatim>\<open>spi.c\<close>, \<^verbatim>\<open>mmc_spi.c\<close> and \<^verbatim>\<open>ext.c\<close>, and device registers other than
  those of the flash controller, the motors and the external interrupts; the lock of the SPI bus, which nothing takes; FatFs other than \<^verbatim>\<open>f_mount\<close> and
  its disk interface, a third-party library; \<^verbatim>\<open>main.cpp\<close>, which calls the set-up functions and blinks; the accessors of the sensor and the
  generated MAVLink messages that nothing uses. The debug support is switched off by the configuration.
\<close>

section \<open>The kernel as a system\<close>





text \<open>
  C3: \<open>chSysInit\<close> on memory as it is at reset returns; \<open>main\<close> runs at normal priority, the
  idle thread is ready, both are registered, and the thread lists are consistent.
\<close>

theorem system_start:
  assumes "boot k"
  shows "\<exists>k'. chSysInit k = Ret () k' \<and> kinv k' \<and> currp k' = mainthread \<and> ready k' = [idle_thread]
    \<and> registry k' = [mainthread, idle_thread] \<and> top_prio k'"
  using chSysInit_ok[OF assms] by blast

theorem system_start_witness: "\<exists>k'. chSysInit cold = Ret () k' \<and> currp k' = mainthread \<and> ready k' = [idle_thread]"
  using system_start[OF boot_cold] by blast

section \<open>Scheduling\<close>

text \<open>
  C4: After \<open>chSchRescheduleS\<close> and after \<open>chSchPreemption\<close> no ready thread has a higher
  priority than the running one.
\<close>

theorem highest_priority_runs:
  assumes "kinv k" "NOPRIO < prio k (currp k)"
    and "after (chSchRescheduleS k) = Some k' \<or> after (chSchPreemption k) = Some k'"
  shows "top_prio k'"
proof -
  have s: "prio_sorted (prio k) (ready k)" using core_sorted[OF kinv_core[OF assms(1)]] by simp
  have top: "top_prio k" if "firstprio RListQ k \<le> prio k (currp k)" using top_prio_firstprio[OF s that] .
  have ne: "ready k \<noteq> []" if "prio k (currp k) \<le> firstprio RListQ k"
    using that assms(2) kinv_hdr[OF assms(1)] by (auto simp: firstprio_def hdr_ok_def)
  from assms(3) show ?thesis
  proof
    assume "after (chSchRescheduleS k) = Some k'"
    then show ?thesis by (rule chSchRescheduleS_top[OF assms(1)])
  next
    assume a: "after (chSchPreemption k) = Some k'"
    show ?thesis
    proof (cases "k' = do_reschedule k \<and> prio k (currp k) \<le> firstprio RListQ k")
      case True
      then show ?thesis using do_reschedule_top[OF s ne] by simp
    next
      case False
      then have "k' = k \<and> firstprio RListQ k \<le> prio k (currp k)" using a
        by (auto simp: chSchPreemption_def Let_def chSchDoReschedule_def split: if_splits)
      then show ?thesis using top by simp
    qed
  qed
qed

theorem highest_priority_runs_witness: "top_prio started"
  using highest_priority_runs[of started started] started_ok
  by (simp add: chSchRescheduleS_def chSchIsRescRequiredI_def firstprio_def NOPRIO_def NORMALPRIO_def IDLEPRIO_def)

section \<open>Thread lists\<close>



text \<open>
  Threads queued one after the other with \<open>queue_insert\<close> come out of \<open>fifo_remove\<close> in
  the order they went in, and leave the ring empty: at the level of pointers.
\<close>

theorem queue_is_fifo:
  assumes "queue_at s q []" "distinct ts" "q \<notin> set ts"
  shows "\<exists>s'. take_times c_fifo_remove q (length ts) (enq_all c_queue_insert q ts s) = (ts, s') \<and> queue_at s' q []"
  by (rule ring.fifo_order) (use assms in auto)

theorem queue_is_fifo_witness:
  "\<exists>s'. take_times c_fifo_remove 0 (length [2, 1 :: nat]) (enq_all c_queue_insert 0 [2, 1 :: nat] (c_queue_init 0 \<lparr>p_next = id, p_prev = id\<rparr>))
     = ([2, 1 :: nat], s')"
  using queue_is_fifo[OF queue_at_init, of "[2, 1 :: nat]" 0 "\<lparr>p_next = id, p_prev = id\<rparr>"] by fastforce

section \<open>Time\<close>

text \<open>
  C6: A timer armed with \<open>chVTSetI\<close> for \<open>n\<close> ticks is at its last tick after \<open>n - 1\<close>
  ticks and off after \<open>n\<close>, whatever other timers are armed, for every \<open>n\<close> from 1 to
  $2^{32} - 1$; the timeouts of waiting threads go off among them.
\<close>

theorem timer_fires_on_time:
  assumes "vt_ok k" "v \<notin> set (vt_list k)" "0 < n"
  shows "\<exists>k1 k2. ticks (unat n - 1) (chVTSetI v n fn par k) = Some k1 \<and> remaining k1 v = Some 1
    \<and> ticks (unat n) (chVTSetI v n fn par k) = Some k2 \<and> remaining k2 v = None"
  unfolding ticks_def
  by (rule vts.fires_after) (use assms in \<open>auto simp: remaining_def vt_expiry_None_iff\<close>)

theorem timer_fires_on_time_witness:
  "\<exists>k2. ticks 5 (chVTSetI (VT 7) 5 VF_wakeup (VP_thread mainthread) started) = Some k2 \<and> remaining k2 (VT 7) = None"
proof -
  have "vt_ok started" by (simp add: vt_ok_def vt_total_def)
  from timer_fires_on_time[OF this, of "VT 7" 5 VF_wakeup "VP_thread mainthread"] show ?thesis by auto
qed

text \<open>
  One tick takes one tick off every armed timer, disarms exactly those at their last
  one, adds one to the system time and keeps the timer list well formed.
\<close>

theorem tick_counts_down:
  assumes "vt_ok k" "vt_quiet call"
  shows "\<exists>k'. chVTDoTickI call k = Some k' \<and> vt_ok k' \<and> vt_systime k' = vt_systime k + 1
     \<and> remaining k' = (\<lambda>v. if remaining k v = Some 1 then None else map_option (\<lambda>n. n - 1) (remaining k v))"
  using chVTDoTickI_remaining[OF assms] by blast

theorem tick_counts_down_witness:
  "\<exists>k'. chVTDoTickI (vt_call (\<lambda>n p k. k)) started = Some k' \<and> vt_systime k' = 1"
  using tick_counts_down[of started, OF _ vt_quiet_vt_call]
  by (auto simp: vt_ok_def vt_total_def started_vt_func)

section \<open>Semaphores\<close>

text \<open>
  \<open>chSemSignalI\<close> on a semaphore with waiting threads readies the one that has waited
  longest, with the message \<open>RDY_OK\<close>; the others keep waiting in their order. With no
  waiting thread it only counts.
\<close>

theorem signal_wakes_longest_waiter:
  assumes k: "kinv k"
  shows "case queues k (SemQ s) of
       [] \<Rightarrow> chSemSignalI s k = k\<lparr>s_cnt := (s_cnt k)(s := s_cnt k s + 1)\<rparr> \<and> 0 \<le> s_cnt k s
     | t # ts \<Rightarrow> (let k' = chSemSignalI s k in queues k' (SemQ s) = ts \<and> state k' t = THD_STATE_READY
         \<and> rdymsg k' t = RDY_OK \<and> t \<in> set (ready k') \<and> s_cnt k' s = s_cnt k s + 1 \<and> kinv k')"
proof (cases "queues k (SemQ s)")
  case Nil
  then have "0 \<le> s_cnt k s" using sem_waiting[OF k, of s] by simp
  then show ?thesis using Nil chSemSignalI_free by (simp add: set_cnt_def)
next
  case (Cons t ts)
  then have c: "s_cnt k s < 0" using sem_waiting[OF k, of s] by simp
  note e = chSemSignalI_wake[OF Cons c]
  have "kinv (chSemSignalI s k)" using k by (rule chSemSignalI_kinv)
  moreover have "state (chSemSignalI s k) t = THD_STATE_READY" by (simp add: e)
  ultimately show ?thesis using Cons kinv_mem[of "chSemSignalI s k" t RListQ]
    by (simp add: Let_def) (simp add: e chSchReadyI_def Let_def kernel_defs)
qed

theorem signal_wakes_longest_waiter_witness:
  "queues (chSemSignalI 0 waiting) (SemQ 0) = [] \<and> rdymsg (chSemSignalI 0 waiting) mainthread = RDY_OK"
  using signal_wakes_longest_waiter[OF waiting_ok(1), of 0] by (simp add: waiting_ok Let_def)

text \<open>
  When a wait on a semaphore times out the thread leaves the queue, becomes ready with
  \<open>RDY_TIMEOUT\<close>, gives its count back, and the other threads wait on in their order.
\<close>

theorem timeout_restores_semaphore:
  assumes k: "kinv k" and t: "t \<in> set (queues k (SemQ s))" "t \<noteq> idle_thread" "is_Thd t"
  defines "k' \<equiv> wakeup_thread t k"
  shows "s_cnt k' s = s_cnt k s + 1 \<and> queues k' (SemQ s) = remove1 t (queues k (SemQ s))
    \<and> rdymsg k' t = RDY_TIMEOUT \<and> state k' t = THD_STATE_READY \<and> kinv k'"
proof -
  have h: "state k t = THD_STATE_WTSEM" "t \<noteq> currp k"
    using kinv_mem[OF k, of t "SemQ s"] t(1) kinv_currp_not_queued[OF k, of "SemQ s"] home_not_SemQ by fastforce+
  then have "kinv k'" using wakeup_thread_kinv(1)[OF k] t by (simp add: k'_def timed_def)
  then show ?thesis using wakeup_thread_WTSEM[OF k t(1)] by (simp add: k'_def)
qed

theorem timeout_restores_semaphore_witness:
  "\<exists>k. s_cnt (wakeup_thread mainthread k) 0 = s_cnt k 0 + 1 \<and> rdymsg (wakeup_thread mainthread k) mainthread = RDY_TIMEOUT"
proof -
  have "mainthread \<in> set (queues waiting (SemQ 0))" using waiting_ok by simp
  from timeout_restores_semaphore[OF waiting_ok(1) this] show ?thesis by (auto simp: mainthread_def idle_thread_def)
qed

text \<open>
  \<open>chSemResetI\<close> readies every waiting thread with \<open>RDY_RESET\<close>, leaves the queue empty
  and the counter at its new value, and does not touch the other threads.
\<close>

theorem reset_releases_all:
  fixes s :: nat
  assumes k: "kinv k" and n: "0 \<le> n"
  defines "k' \<equiv> chSemResetI s n k"
  shows "queues k' (SemQ s) = [] \<and> s_cnt k' s = n \<and> kinv k'
    \<and> (\<forall>t \<in> set (queues k (SemQ s)). state k' t = THD_STATE_READY \<and> rdymsg k' t = RDY_RESET \<and> t \<in> set (ready k'))
    \<and> (\<forall>t. t \<notin> set (queues k (SemQ s)) \<longrightarrow> thr k' t = thr k t)"
proof -
  have l: "klists (set_cnt s n k)" "int (length (queues (set_cnt s n k) (SemQ s))) = max 0 (- s_cnt k s)"
    using k sem_len[OF k, of s] by (simp_all add: kinv_klists)
  have "kinv k'" unfolding k'_def using assms(1,2) by (rule chSemResetI_kinv)
  then show ?thesis using sem_reset_loop_spec[OF l] kinv_mem[of k' _ RListQ]
    by (simp add: k'_def chSemResetI_def)
qed

theorem reset_releases_all_witness:
  "rdymsg (chSemResetI 0 5 waiting) mainthread = RDY_RESET \<and> s_cnt (chSemResetI 0 5 waiting) 0 = 5"
  using reset_releases_all[OF waiting_ok(1), of 5 0] by (simp add: waiting_ok)

section \<open>Mutexes\<close>

text \<open>
  C7: Priority inheritance. \<open>chMtxLockS\<close> on an owned mutex ends its search, suspends the
  caller in the queue of the mutex and leaves the owner with at least the caller's
  priority; no thread is lowered or raised above it, and if every owner had the priority
  of the threads it keeps waiting before, every owner has after.
\<close>

theorem lock_inherits_priority:
  assumes "resumed k" "m_owner k m = Some tp"
  shows "\<exists>k'. chMtxLockS m k = Switch k' (Ret ()) \<and> kinv k' \<and> (pi_ok k \<longrightarrow> pi_ok k')
    \<and> prio k (currp k) \<le> prio k' tp \<and> currp k \<in> set (queues k' (MtxQ m)) \<and> m_owner k' = m_owner k
    \<and> (\<forall>t. prio k t \<le> prio k' t \<and> prio k' t \<le> max (prio k (currp k)) (prio k t))"
  by (rule chMtxLockS_contended[OF assms]) blast

theorem lock_inherits_priority_witness:
  "\<exists>k. chMtxLockS 0 owned = Switch k (Ret ()) \<and> prio owned mainthread = 64 \<and> 100 \<le> prio k mainthread"
proof -
  have "m_owner owned 0 = Some mainthread" by (simp add: owned_ok(3))
  from lock_inherits_priority[OF owned_ok(1) this] obtain k where
    "chMtxLockS 0 owned = Switch k (Ret ())" "prio owned (currp owned) \<le> prio k mainthread" by blast
  then show ?thesis unfolding owned_ok(2,4,5) by blast
qed

text \<open>
  \<open>chMtxUnlock\<close> hands the mutex to the waiting thread of the highest priority and takes
  the caller back to the highest of its own priority and those of the threads that still
  wait for a mutex it owns.
\<close>

theorem unlock_hands_over:
  assumes "kinv k" "owns k (currp k) (m # ns)" "queues k (MtxQ m) = t # ts"
  shows "\<exists>k'. after (chMtxUnlock k) = Some k' \<and> m_owner k' = (m_owner k)(m := Some t) \<and> queues k' (MtxQ m) = ts
    \<and> (\<forall>u \<in> set ts. prio k u \<le> prio k t)
    \<and> prio k' (currp k) = Max (insert (p_realprio (thr k (currp k))) (heir_prio k ` set ns))
    \<and> (\<forall>u. u \<noteq> currp k \<longrightarrow> prio k' u = prio k u) \<and> (pi_ok k \<longrightarrow> pi_ok k')"
  by (rule chMtxUnlock_handover[OF assms]) blast

theorem unlock_hands_over_witness:
  "\<exists>k. after (chMtxUnlock contended) = Some k \<and> m_owner k 0 = Some (Thd 2)
     \<and> prio k mainthread = p_realprio (thr contended mainthread)"
  using unlock_hands_over[of contended 0 "[]" "Thd 2" "[]"] contended_ok by auto

text \<open>
  \<open>chMtxUnlockAll\<close> gives up every mutex the caller owns and leaves the thread lists and
  the ownership of all mutexes consistent.
\<close>

theorem unlock_all_releases:
  assumes "kinv k" "owns k (currp k) ms"
  shows "\<exists>k'. unlock_all_loop k = Some k' \<and> kinv k' \<and> (\<forall>m. m_owner k' m \<noteq> Some (currp k))
    \<and> safe (chMtxUnlockAll k)"
  using unlock_all_loop_spec[OF assms] chMtxUnlockAll_safe[OF assms(1)] by (auto simp: owns_def)

theorem unlock_all_releases_witness:
  "\<exists>k. unlock_all_loop contended = Some k \<and> (\<forall>m. m_owner k m \<noteq> Some mainthread)"
  using unlock_all_releases[of contended "[0]"] contended_ok by auto

section \<open>Condition variables, events, messages\<close>

text \<open>
  \<open>chCondBroadcastI\<close> readies every thread that waits for the condition variable, in the
  order of their priorities, with \<open>RDY_RESET\<close>, and leaves all others as they are.
\<close>

theorem broadcast_wakes_all:
  assumes "kinv k"
  shows "queues (chCondBroadcastI c k) (CondQ c) = [] \<and> kinv (chCondBroadcastI c k)
    \<and> ready (chCondBroadcastI c k) = fold (prio_ins (prio k)) (queues k (CondQ c)) (ready k)
    \<and> (\<forall>t \<in> set (queues k (CondQ c)). state (chCondBroadcastI c k) t = THD_STATE_READY
         \<and> rdymsg (chCondBroadcastI c k) t = RDY_RESET)
    \<and> (\<forall>t. t \<notin> set (queues k (CondQ c)) \<longrightarrow> thr (chCondBroadcastI c k) t = thr k t)"
  using chCondBroadcastI_spec[OF assms] by simp

theorem broadcast_wakes_all_witness: "queues (chCondBroadcastI 0 contended) (CondQ 0) = []"
  using broadcast_wakes_all[OF contended_ok(1)] by simp

text \<open>
  C8: \<open>chEvtDispatch\<close> ends for every mask and calls the handlers of exactly the events in
  the mask, each once, from event 0 up.
\<close>

theorem dispatch_calls_handlers:
  "chEvtDispatch handlers emask st = Some (fold handlers (filter (bit emask) [0..<32]) st)"
  by (simp add: chEvtDispatch_spec event_ids_def)

text \<open>
  C9: No wake-up is lost: when no thread sleeps on an event it has pending, none does after
  a signal or a broadcast, and a broadcast makes its flags and the listener's own pending
  for every registered listener.
\<close>

theorem no_lost_event:
  assumes "evt_ok k" "el \<in> set (es_list k es)" "bit (el_mask k el OR m) n"
  shows "evt_ok (chEvtBroadcastFlagsI es m k) \<and> evt_ok (chEvtSignalFlagsI t w k)
    \<and> bit (epending (chEvtBroadcastFlagsI es m k) (el_listener k el)) n"
  using evt_ok_broadcast[OF assms(1)] evt_ok_signal[OF assms(1)] broadcast_delivers[OF assms(2,3)]
  by (simp add: chEvtBroadcastFlagsI_def)

theorem no_lost_event_witness:
  "bit (epending (chEvtBroadcastFlagsI 0 4 (chEvtRegisterMask 0 7 1 started)) mainthread) 2"
proof -
  define k where "k = chEvtRegisterMask 0 7 1 started"
  have e: "evt_ok k" "7 \<in> set (es_list k 0)" "el_listener k 7 = mainthread" "el_mask k 7 = 1"
    by (simp_all add: k_def chEvtRegisterMask_def evt_ok_def started_state started_ok)
  then have "bit (el_mask k 7 OR 4) 2" by (simp add: bit_simps)
  from no_lost_event[OF e(1,2) this] e(3) show ?thesis by (simp add: k_def)
qed

text \<open>
  A sender joins the end of the receiver's queue with its message and sleeps; a
  receiver that waited is readied. The receiver takes the senders in the order they came,
  and finds a sender whenever it is woken.
\<close>

theorem messages_in_order:
  assumes "resumed k" "is_Thd tp"
  shows "(\<exists>k'. after (chMsgSend tp msg k) = Some k' \<and> kinv k' \<and> p_msg (thr k' (currp k)) = msg
        \<and> queues k' (MsgQ tp) = queues k (MsgQ tp) @ [currp k])
    \<and> always kinv (\<lambda>k'. resumed k' \<and> chMsgIsPendingI (currp k') k') (chMsgWait k)
    \<and> (case queues k (MsgQ (currp k)) of [] \<Rightarrow> True
       | s # ss \<Rightarrow> chMsgWait k = Ret s (set_state s THD_STATE_SNDMSG (set_queue (MsgQ (currp k)) ss k)))"
proof (intro conjI)
  have s: "safe (chMsgSend tp msg k)" using assms by (rule chMsgSend_safe)
  then obtain k' where k': "after (chMsgSend tp msg k) = Some k'" "kinv k'" by (cases "chMsgSend tp msg k") auto
  define k3 where "k3 = queue_insert (currp k) (MsgQ tp) (set_u (currp k) (U_wtobjp (MsgQ tp))
       (upd_thr (currp k) (\<lambda>r. r\<lparr>p_msg := msg\<rparr>) k))"
  have "k' = go_sleep THD_STATE_SNDMSGQ (if state k3 tp = THD_STATE_WTMSG then chSchReadyI tp k3 else k3)"
    using k'(1) by (simp only: chMsgSend_def Let_def chSchGoSleepS_def bind.simps after.simps k3_def option.inject)
  moreover have "p_msg (thr k3 (currp k)) = msg" "queues k3 (MsgQ tp) = queues k (MsgQ tp) @ [currp k]"
    by (simp_all add: k3_def queue_insert_def kernel_defs)
  ultimately have "p_msg (thr k' (currp k)) = msg \<and> queues k' (MsgQ tp) = queues k (MsgQ tp) @ [currp k]"
    by (simp add: go_sleep_fields(3) queues_chSchReadyI)
  with k' show "\<exists>k'. after (chMsgSend tp msg k) = Some k' \<and> kinv k' \<and> p_msg (thr k' (currp k)) = msg
        \<and> queues k' (MsgQ tp) = queues k (MsgQ tp) @ [currp k]" by blast
  show "always kinv (\<lambda>k'. resumed k' \<and> chMsgIsPendingI (currp k') k') (chMsgWait k)"
    using assms(1) by (rule chMsgWait_safe)
  show "case queues k (MsgQ (currp k)) of [] \<Rightarrow> True
       | s # ss \<Rightarrow> chMsgWait k = Ret s (set_state s THD_STATE_SNDMSG (set_queue (MsgQ (currp k)) ss k))"
    by (simp add: chMsgWait_def chMsgIsPendingI_def fifo_remove_def split: list.split)
qed

theorem messages_in_order_witness:
  "\<exists>k. after (chMsgSend mainthread 7 owned) = Some k \<and> queues k (MsgQ mainthread) = queues owned (MsgQ mainthread) @ [Thd 2]
     \<and> p_msg (thr k (Thd 2)) = 7"
  using messages_in_order[OF owned_ok(1), of mainthread 7] by (auto simp: owned_ok(2) mainthread_def)

section \<open>Mailboxes and I/O queues\<close>



text \<open>
  C11: An input queue hands the bytes the interrupt handler puts into it to the reader, and
  an output queue the bytes of the writer to the interrupt handler, without loss,
  duplication or reordering, for any interleaving.
\<close>

theorem io_queues_conserve:
  assumes "iq_ok p k" "fifo_run (iq_put p) (iq_get p) os k = (i, d, k1)"
    and "oq_ok q k" "fifo_run (oq_put q) (oq_get q) us k = (j, e, k2)"
  shows "iq_list p k @ i = d @ iq_list p k1 \<and> length (iq_list p k1) \<le> chQSizeI p k
    \<and> oq_list q k @ j = e @ oq_list q k2 \<and> length (oq_list q k2) \<le> chQSizeI q k"
  using iq.conservation[OF assms(1,2)] iq.bounded[of p k1] oq.conservation[OF assms(3,4)] oq.bounded[of q k2]
  by auto

theorem io_queues_conserve_witness:
  "\<exists>i d k. fifo_run (iq_put 0) (iq_get 0) [Put 5, Put 6, Get] comms = (i, d, k) \<and> i = d @ iq_list 0 k"
proof -
  obtain i d k1 where i: "fifo_run (iq_put 0) (iq_get 0) [Put 5, Put 6, Get] comms = (i, d, k1)" by (metis prod_cases3)
  obtain j e k2 where j: "fifo_run (oq_put 2) (oq_get 2) [] comms = (j, e, k2)" by (metis prod_cases3)
  from io_queues_conserve[OF comms_ok(3) i comms_ok(5) j] show ?thesis using comms_ok(4) i by auto
qed

text \<open>
  \<open>chOQWriteTimeout\<close> with room for all bytes appends them and returns their number;
  \<open>chIQReadTimeout\<close> returns the first \<open>n\<close> bytes of a queue that holds them. Neither waits.
\<close>

theorem bulk_transfer:
  assumes "oq_ok q k" "bs \<noteq> []" "length (oq_list q k) + length bs \<le> chQSizeI q k" "q_notify (ioq k q) = None"
    and "iq_ok p k" "0 < n" "unat n \<le> length (iq_list p k)" "q_notify (ioq k p) = None"
  shows "(\<exists>k'. chOQWriteTimeout nfy (Suc f) q bs time k = Ret (length bs) k' \<and> oq_list q k' = oq_list q k @ bs)
    \<and> (\<exists>k'. chIQReadTimeout nfy (Suc f) p n time k = Ret (take (unat n) (iq_list p k)) k'
         \<and> iq_list p k' = drop (unat n) (iq_list p k))"
proof -
  have "0 < unat n" using assms(6) by (simp add: word_less_nat_alt)
  then have "unat (n - 1) < length (iq_list p k)" "Suc (unat (n - 1)) = unat n"
    using assms(7) by (auto simp: unat_sub_if')
  then show ?thesis
    using oq_write_ready[OF assms(1-3), of nfy f time 0] iq_read_ready[OF assms(5), of "unat (n - 1)" nfy f time "[]"] assms(4,8)
    by (auto simp: chOQWriteTimeout_def chIQReadTimeout_def)
qed

theorem bulk_transfer_witness:
  "\<exists>k. chOQWriteTimeout (\<lambda>_ _ k. k) 1 2 [3, 4] TIME_INFINITE (snd (chIQPutI 0 9 comms)) = Ret 2 k \<and> oq_list 2 k = [3, 4]"
proof -
  define k where "k = snd (chIQPutI 0 9 comms)"
  have nf: "\<not> chIQIsFullI 0 comms" using chIQPutI_ok(1)[OF comms_ok(3)] comms_ok by simp
  note i = chIQPutI_ok(2)[OF comms_ok(3) nf, of 9, folded k_def]
  have e: "ioq k 2 = ioq comms 2" "q_notify (ioq k 0) = None"
    using nf by (simp_all add: k_def chIQPutI_def Let_def comms_ok q_write_def)
  have "kinv k" using i by (simp add: iq_ok_def)
  then have o: "oq_ok 2 k" "oq_list 2 k = []" "chQSizeI 2 k = 2"
    using comms_ok(5-7) by (simp_all add: oq_ok_def oq_list_def e chQSizeI_def)
  show ?thesis
    using bulk_transfer[OF o(1), of "[3, 4]" 0 1 "\<lambda>_ _ k. k" 0 TIME_INFINITE] i e comms_ok o
    by (auto simp: k_def[symmetric])
qed

section \<open>Memory\<close>

text \<open>
  \<open>chCoreAllocI\<close> hands out aligned memory below the end of the region, never the same
  byte twice, and fails, with nothing changed, exactly when the rounded size does not fit.
\<close>

theorem core_alloc_correct:
  assumes "core_ok k" "n \<le> 2 ^ 32 - 8"
  shows "case chCoreAllocI n k of
      (None, k') \<Rightarrow> k' = k \<and> endmem (mem k) - nextmem (mem k) < MEM_ALIGN_NEXT n
    | (Some p, k') \<Rightarrow> p = nextmem (mem k) \<and> MEM_IS_ALIGNED p \<and> p + n \<le> nextmem (mem k')
        \<and> nextmem (mem k') \<le> endmem (mem k) \<and> core_ok k'"
proof -
  note a = chCoreAllocI_ok[OF assms] align_next_bounds[OF assms(2)]
  show ?thesis using a assms(1) by (auto simp: core_ok_def)
qed

theorem core_alloc_correct_witness:
  "fst (chCoreAllocI 13 (core_init 0x20000004 0x2001FFFF started)) = Some 0x20000008"
proof -
  have "core_ok (core_init 0x20000004 0x2001FFFF started)"
    by (simp add: core_ok_def core_init_def MEM_ALIGN_NEXT_def MEM_ALIGN_PREV_def MEM_ALIGN_SIZE_def MEM_IS_ALIGNED_def)
  from core_alloc_correct[OF this, of 13] show ?thesis
    by (auto simp: core_init_def MEM_ALIGN_NEXT_def MEM_ALIGN_PREV_def MEM_ALIGN_SIZE_def split: prod.splits option.splits)
qed

text \<open>
  C12: A block from \<open>chHeapAlloc\<close> has room for the bytes asked for, lies in memory that was
  free and is not free afterwards; freeing it gives back exactly its bytes, so the free
  memory is what it was, and the free list stays sorted with no two adjacent blocks.
\<close>

theorem heap_alloc_free:
  assumes "kinv k" "m_owner k (h_mtx (mem k) h) = None" "heap_ok (mem k) h xs" "n \<le> 2 ^ 32 - 16"
    and "\<exists>a \<in> set xs. MEM_ALIGN_NEXT n \<le> h_size (mem k) (Blk a)"
  shows "\<exists>p k1 ys k2 zs. chHeapAlloc uget (Some h) n k = Ret (Some p) k1 \<and> heap_ok (mem k1) h ys
    \<and> {p..<p + n} \<subseteq> free_bytes (mem k) xs \<and> {p..<p + n} \<inter> free_bytes (mem k1) ys = {}
    \<and> free_bytes (mem k1) ys \<subseteq> free_bytes (mem k) xs
    \<and> chHeapFree p k1 = Ret () k2 \<and> heap_ok (mem k2) h zs \<and> free_bytes (mem k2) zs = free_bytes (mem k) xs \<and> kinv k2"
proof -
  obtain p k1 ys where a: "chHeapAlloc uget (Some h) n k = Ret (Some p) k1" "kinv k1"
    "heap_ok (mem k1) h ys" "{p..<p + n} \<subseteq> extent (mem k1) (p - HDR)"
    "extent (mem k1) (p - HDR) \<subseteq> free_bytes (mem k) xs"
    "free_bytes (mem k1) ys = free_bytes (mem k) xs - extent (mem k1) (p - HDR)"
    "h_u (mem k1) (Blk (p - HDR)) = H_heap h" "HDR \<le> p" "m_owner k1 = m_owner k" "h_mtx (mem k1) = h_mtx (mem k)"
    by (rule chHeapAlloc_some[OF assms]) blast
  have "m_owner k1 (h_mtx (mem k1) h) = None" using a(9,10) assms(2) by simp
  moreover have "block_free (mem k1) ys (p - HDR)" using a(6) by (intro block_free_disjoint) auto
  ultimately obtain k2 zs where f: "chHeapFree p k1 = Ret () k2" "kinv k2" "heap_ok (mem k2) h zs"
    "free_bytes (mem k2) zs = free_bytes (mem k1) ys \<union> extent (mem k1) (p - HDR)"
    using chHeapFree_ok[OF a(2) _ a(3) _ a(7)] by metis
  then have "free_bytes (mem k2) zs = free_bytes (mem k) xs" using a(5,6) by auto
  then show ?thesis using a f by blast
qed

theorem heap_alloc_free_witness:
  "\<exists>p k1 k2 zs. chHeapAlloc (\<lambda>_ _ k. (None, k)) (Some 0) 100 heaped = Ret (Some p) k1
     \<and> chHeapFree p k1 = Ret () k2 \<and> free_bytes (mem k2) zs = {0x20000000..<0x20001000}"
proof -
  have "m_owner heaped (h_mtx (mem heaped) 0) = None" by (simp add: heaped_ok(2))
  moreover have "\<exists>a \<in> set [0x20000000]. MEM_ALIGN_NEXT 100 \<le> h_size (mem heaped) (Blk a)"
    by (simp add: heaped_ok(5) MEM_ALIGN_NEXT_def MEM_ALIGN_PREV_def MEM_ALIGN_SIZE_def)
  ultimately show ?thesis
    using heap_alloc_free[OF heaped_ok(1) _ heaped_ok(3), of 100 "\<lambda>_ _ k. (None, k)"] unfolding heaped_ok(4) by auto
qed

section \<open>The telemetry protocol\<close>



text \<open>
  C14: A frame in which any one byte after the length byte, other than the message id, has
  been changed in transit delivers no message.
\<close>

theorem mavlink_rejects_corruption:
  assumes "between (m_mavlink_status r chan)" "length ds = unat l" "unat l + 2 \<le> length (payload (m_mavlink_buffer r chan))"
    and "i < length (wire l sq si ci mi ds)" "2 \<le> i" "i \<noteq> 5" "x \<noteq> wire l sq si ci mi ds ! i"
  shows "fst (mavlink_receive chan ((wire l sq si ci mi ds)[i := x]) r) = []"
  using rx_wire_one_byte[OF assms] mavlink_receive_rx[of chan _ r] by (simp add: chan_state_def)

theorem mavlink_rejects_corruption_witness:
  "fst (mavlink_receive 0 ((wire 2 7 1 2 30 [5, 6])[6 := 9]) idle_link) = []"
  by (rule mavlink_rejects_corruption) (simp_all add: idle_link_def wire_def)

text \<open>
  Any sequence of frames sent back to back is received completely and in order, and
  the parser is between two frames again at the end.
\<close>

theorem mavlink_stream:
  assumes "between (m_mavlink_status r chan)" "length (payload (m_mavlink_buffer r chan)) = 264"
    "\<forall>(sq, si, ci, mi, ds) \<in> set fs. length ds \<le> 255"
  shows "list_all2 carries (fst (mavlink_receive chan (concat (map frame_bytes fs)) r)) fs
    \<and> between (m_mavlink_status (snd (mavlink_receive chan (concat (map frame_bytes fs)) r)) chan)"
proof -
  have "\<And>sq si ci mi ds. (sq, si, ci, mi, ds) \<in> set fs \<Longrightarrow> length ds \<le> 255" using assms(3) by auto
  then obtain ms m' st' where "rx_all (concat (map frame_bytes fs)) (m_mavlink_buffer r chan, m_mavlink_status r chan) = (ms, m', st')"
    "list_all2 carries ms fs" "between st'"
    using rx_frames[OF assms(1,2)] by blast
  then show ?thesis
    using mavlink_receive_rx[of chan "concat (map frame_bytes fs)" r] by (simp add: chan_state_def)
qed

theorem mavlink_stream_witness:
  "list_all2 carries (fst (mavlink_receive 0 (concat (map frame_bytes [(0, 1, 2, 30, [5]), (1, 1, 2, 0, [6, 7])])) idle_link))
     [(0, 1, 2, 30, [5]), (1, 1, 2, 0, [6, 7])]"
  using mavlink_stream[of idle_link 0 "[(0, 1, 2, 30, [5]), (1, 1, 2, 0, [6, 7])]"] by (simp add: idle_link_def)


section \<open>Flash and parameter store\<close>

text \<open>
  \<open>FLASH_WaitForLastOperation\<close> ends for every state of the controller and however long
  the operation takes; it never reports busy, and it never reports
  \<open>FLASH_ERROR_OPERATION\<close>, the mask of the test before it covering that flag.
\<close>

theorem flash_wait_ends:
  "\<exists>st. FLASH_WaitForLastOperation s = (st, s\<lparr>f_polls := 0\<rparr>) \<and> st \<noteq> FLASH_BUSY \<and> st \<noteq> FLASH_ERROR_OPERATION
     \<and> (st = FLASH_COMPLETE \<longleftrightarrow> f_SR s AND 0xFF = 0)"
  unfolding WaitForLastOperation_eq
  using sr_status_not_busy sr_status_never_operation sr_status_idle by blast

text \<open>
  Programming a half word and erasing a sector complete exactly when no error flag is
  set and the operation does not fail; then the half word has lost the bits that are 0 in
  the data, the sector is blank, and nothing else has changed. When they do not complete no cell has
  changed and every later operation fails too, nothing in the firmware clearing the flags.
\<close>

theorem flash_operations:
  assumes "quiet s" "FLASH_ProgramHalfWord c a d s = (st1, s1)"
    and "eeprom_sector sec" "FLASH_EraseSector c sec s = (st2, s2)"
  shows "(st1 = FLASH_COMPLETE \<longleftrightarrow> f_SR s = 0 \<and> no_fault c (f_ops s))
    \<and> f_cells s1 = (if st1 = FLASH_COMPLETE then (f_cells s)(a := f_cells s a AND d) else f_cells s)
    \<and> (st2 = FLASH_COMPLETE \<longleftrightarrow> f_SR s = 0 \<and> no_fault c (f_ops s))
    \<and> f_cells s2 = (\<lambda>x. if st2 = FLASH_COMPLETE \<and> sector_start sec \<le> x \<and> x < sector_start sec + 0x20000
         then 0xFFFF else f_cells s x)
    \<and> quiet s1 \<and> quiet s2 \<and> (st1 \<noteq> FLASH_COMPLETE \<longrightarrow> f_SR s1 \<noteq> 0) \<and> (st2 \<noteq> FLASH_COMPLETE \<longrightarrow> f_SR s2 \<noteq> 0)"
  using FLASH_ProgramHalfWord_spec[OF assms(1,2)] FLASH_EraseSector_spec[OF assms(1,3,4)]
  by (auto simp: no_fault_def erased_def fun_eq_iff)

theorem flash_operations_witness:
  "fst (FLASH_ProgramHalfWord good_controller 0x080C0010 7 blank_flash) = FLASH_COMPLETE
   \<and> f_cells (snd (FLASH_ProgramHalfWord good_controller 0x080C0010 7 blank_flash)) 0x080C0010 = 7"
proof -
  have q: "quiet blank_flash" "f_SR blank_flash = 0" using blank_ready by (auto simp: ready_fl_def)
  obtain st1 s1 where 1: "FLASH_ProgramHalfWord good_controller 0x080C0010 7 blank_flash = (st1, s1)" by fastforce
  obtain st2 s2 where 2: "FLASH_EraseSector good_controller FLASH_Sector_10 blank_flash = (st2, s2)" by fastforce
  have "f_cells blank_flash 0x080C0010 = 0xFFFF" by (simp add: blank_flash_def)
  then show ?thesis using flash_operations[OF q(1) 1 _ 2] q(2) blank_ready(2)[of "f_ops blank_flash"]
    by (simp add: 1)
qed

text \<open>
  C16: A write to the parameter store with no failing flash operation succeeds, the variable
  reads back as written, and while the page has room every other variable keeps its value.
  When the page is full, the transfer keeps only the first three variables of the table:
  every other one is lost.
\<close>

theorem eeprom_write_read:
  assumes "ee_ok s b n" "v \<noteq> 0xFFFF" "\<forall>i. no_fault c i"
  shows "\<exists>dv' s' b' n'. EE_WriteVariable c v d (dv, s) = (COMPLETE, dv', s') \<and> ee_ok s' b' n'
    \<and> EE_ReadVariable v s' = (0, Some d)
    \<and> (\<forall>w. w \<noteq> v \<and> w \<noteq> 0xFFFF \<longrightarrow> EE_ReadVariable w s' =
         (if n + 1 < PAGE_WORDS \<or> w \<in> {0, 1, 2} then EE_ReadVariable w s else (1, None)))"
proof (cases "n + 1 < PAGE_WORDS")
  case True
  obtain st dv' s' where e: "EE_WriteVariable c v d (dv, s) = (st, dv', s')" by (metis prod_cases3)
  from EE_Write_ok[OF assms(1) True assms(2) e] show ?thesis using e assms(2,3) True by auto
next
  case False
  then have n: "n + 1 = PAGE_WORDS" using assms(1) by (simp add: ee_ok_def page_log_def)
  have "\<And>i. no_fault c i" using assms(3) by blast
  from EE_PageTransfer_ok[OF assms(1,2) this] obtain dv' s' n' where
    t: "EE_PageTransfer c v d (dv, s) = (COMPLETE, dv', s')" "ee_ok s' (other_page b) n'"
    and r: "\<And>w. w \<noteq> 0xFFFF \<Longrightarrow> EE_ReadVariable w s' =
         (if w = v then (0, Some d) else if moved w then EE_ReadVariable w s else (1, None))" by blast
  have "EE_ReadVariable w s' = (if n + 1 < PAGE_WORDS \<or> w \<in> {0, 1, 2} then EE_ReadVariable w s else (1, None))"
    if "w \<noteq> v" "w \<noteq> 0xFFFF" for w using r[OF that(2)] that n by (simp add: moved_table)
  then show ?thesis using t r[OF assms(2)] unfolding EE_Write_full[OF assms(1) n] by auto
qed

theorem eeprom_write_read_witness:
  "\<exists>dv s. EE_WriteVariable good_controller 5 1234 (0, formatted) = (COMPLETE, dv, s) \<and> EE_ReadVariable 5 s = (0, Some 1234)"
  using eeprom_write_read[OF formatted_ok(1), of 5 good_controller 1234 0] blank_ready(2) by auto





text \<open>
  A float written with \<open>EE_write_Float\<close> reads back bit for bit with \<open>EE_read_Float\<close>, and
  no other variable changes.
\<close>

theorem eeprom_float_round_trip:
  assumes "ee_ok s b n" "n + 2 < PAGE_WORDS" "v1 \<noteq> 0xFFFF" "v2 \<noteq> 0xFFFF" "v1 \<noteq> v2" "\<forall>i. no_fault c i"
  shows "\<exists>s'. EE_write_Float c v1 v2 x (dv, s) = (COMPLETE, dv, s') \<and> EE_read_Float l h v1 v2 s' = x
    \<and> (\<forall>w. w \<noteq> 0xFFFF \<longrightarrow> w \<noteq> v1 \<longrightarrow> w \<noteq> v2 \<longrightarrow> EE_ReadVariable w s' = EE_ReadVariable w s)"
proof -
  have "\<And>i. no_fault c i" using assms(6) by blast
  from float_round_trip[OF assms(1-5) this] show ?thesis by blast
qed

theorem eeprom_float_round_trip_witness:
  "\<exists>s. EE_write_Float good_controller 12 13 0x40490FDB (0, formatted) = (COMPLETE, 0, s)
     \<and> EE_read_Float 0 0 12 13 s = 0x40490FDB"
  using eeprom_float_round_trip[where x = "0x40490FDB" and dv = 0 and l = 0 and h = 0, OF formatted_ok(1), of 12 13 good_controller] blank_ready(2)
  by (auto simp: PAGE_WORDS_def)

text \<open>
  After \<open>setup_FLASH\<close> the version word of the store reads as the version of the
  firmware, the store having been formatted when it was another or missing.
\<close>

theorem eeprom_setup_version:
  assumes "EE_Init c (dv, FLASH_Unlock s) = (st, dv1, s1)" "ready_fl s1" "\<forall>i. no_fault c i"
    and "g \<noteq> eeprom_data_structure_version"
  shows "EE_ReadVariable 0 (snd (setup_FLASH c g (dv, s))) = (0, Some eeprom_data_structure_version)"
  using setup_FLASH_version[OF assms(1,2) _ assms(4)] assms(3) by blast

theorem eeprom_setup_version_witness:
  "EE_ReadVariable 0 (snd (setup_FLASH good_controller 0 (0, blank_flash))) = (0, Some 3)"
proof -
  have "ready_fl formatted" using formatted_ok(1) by (simp add: ee_ok_def)
  moreover have "EE_Init good_controller (0, FLASH_Unlock blank_flash) = (COMPLETE, 0, formatted)"
    by (simp only: unlock_blank init_formatted)
  ultimately have "EE_ReadVariable 0 (snd (setup_FLASH good_controller 0 (0, blank_flash))) = (0, Some eeprom_data_structure_version)"
    by (intro eeprom_setup_version) (use blank_ready(2) in \<open>auto simp: eeprom_data_structure_version_def\<close>)
  then show ?thesis by (simp add: eeprom_data_structure_version_def)
qed

section \<open>The remote control\<close>

text \<open>
  C19: Whatever the store holds at start-up and whatever pulses, calibrations, button
  presses and timer interrupts follow, as long as nothing undefined happens the arrays
  keep their lengths, every channel holds a width between 900 and 2300 us, and the scaled
  values that are reported to the ground station do not wrap in their 16 bits.
\<close>

theorem remote_well_formed:
  assumes "length (cal_val s) = 12" "rc_do_all c ops (setup_Fernsteuerung ext f s, ds) = Some (t, ds')"
  shows "rc_ok t \<and> sint (get_chan1_scaled t) = (uint (RC_INPUT_CHANNELS t ! 0) - 1500) * 20
    \<and> sint (get_chan2_scaled t) = (uint (RC_INPUT_CHANNELS t ! 1) - 1500) * 20
    \<and> sint (get_chan3_scaled t) = (uint (RC_INPUT_CHANNELS t ! 2) - 1100) * 10
    \<and> sint (get_chan4_scaled t) = (uint (RC_INPUT_CHANNELS t ! 3) - 1500) * 20"
proof -
  have "rc_ok t" using rc_do_all_ok[OF _ assms(2)] setup_ok[OF assms(1)] by simp
  then show ?thesis using rc_scaled by blast
qed

theorem remote_well_formed_witness:
  "rc_ok (start_calib (rc_event (2, True, 1200, 1200) (setup_Fernsteuerung True formatted fern_start)))"
  using remote_well_formed[of fern_start good_controller "[Interrupt (2, True, 1200, 1200), StartCalib]" True formatted "(0, formatted)"]
  by (simp add: fern_start_def)

text \<open>
  C20: A calibration records of each stick the largest, the smallest and the first of the
  pulses that arrive between its start and its end, of the throttle the largest and the
  smallest; a channel does not disturb another.
\<close>

theorem calibration_records:
  assumes "rc_ok s" "\<forall>e \<in> set es. fst e < 4" "stop_calib c (rc_run es (start_calib s), ds) = (t, ds')"
    and "\<forall>ch < 4. pulses_on ch es (start_calib s) \<noteq> []"
  shows "let ps = (\<lambda>ch. pulses_on ch es (start_calib s)) in
    view_roll t = Some (Max (set (ps 0)), Min (set (ps 0)), hd (ps 0))
    \<and> view_nick t = Some (Max (set (ps 1)), Min (set (ps 1)), hd (ps 1))
    \<and> view_schub t = Some (Max (set (ps 2)), Min (set (ps 2)))
    \<and> view_yaw t = Some (Max (set (ps 3)), Min (set (ps 3)), hd (ps 3))
    \<and> get_rc_calibration_ready t"
proof -
  have "pulses_on ch es (start_calib s) \<noteq> []" if "ch < 4" for ch using assms(4) that by blast
  then show ?thesis
    using calibration_views[OF assms(1-3)] by (simp add: observed get_rc_calibration_ready_def)
qed

theorem calibration_records_witness:
  "view_nick (fst (stop_calib good_controller
      (rc_run [(0, True, 1500, 0), (1, True, 1400, 0), (2, True, 1100, 0), (3, True, 1500, 0), (1, True, 1600, 0)]
        (start_calib (demo_rc 1100)), 0, formatted)))
   = Some (1600, 1400, 1400)"
proof -
  define es where "es = [(0, True, 1500, 0), (1, True, 1400, 0), (2, True, 1100, 0), (3, True, 1500, 0), (1, True, 1600, 0) :: rc_int]"
  obtain t ds' where t: "stop_calib good_controller (rc_run es (start_calib (demo_rc 1100)), 0, formatted) = (t, ds')"
    by (metis prod.exhaust)
  have s: "rc_ok (demo_rc 1100)" "RC_INPUT_LAST_TCNT (start_calib (demo_rc 1100)) = 0"
    by (simp_all add: rc_ok_def demo_rc_def fern_start_def RC_IN_RANGE_def start_calib_def)
  have p: "pulses_on 0 es (start_calib (demo_rc 1100)) = [1500]" "pulses_on 1 es (start_calib (demo_rc 1100)) = [1400, 1600]"
    "pulses_on 2 es (start_calib (demo_rc 1100)) = [1100]" "pulses_on 3 es (start_calib (demo_rc 1100)) = [1500]"
    by (simp_all add: es_def accepted_def RC_IN_RANGE_def s rc_event_def rx_defs rx_interrupt_def Let_def)
  have "\<forall>ch < 4. pulses_on ch es (start_calib (demo_rc 1100)) \<noteq> []"
    using p by (auto simp: less_Suc_eq numeral_eq_Suc)
  moreover have "\<forall>e \<in> set es. fst e < 4" by (simp add: es_def)
  ultimately have "view_nick t = Some (Max {1400, 1600}, Min {1400, 1600}, 1400)"
    using calibration_records[OF s(1) _ t] p by (simp add: Let_def)
  then show ?thesis using t by (simp add: es_def)
qed

text \<open>
  C21: While the throttle stick is within its calibrated travel the throttle is between 0
  and 1, and while a calibrated stick with some travel on both sides is within its own the
  setpoints of nick, roll and yaw are between -0.5 and 0.5, for all widths and with all roundings.
\<close>

theorem setpoints_in_range:
  assumes "cal r index_rc_schub_null < cal r index_rc_schub_max"
    and "cal r index_rc_schub_null \<le> RC_INPUT_CHANNELS r ! 2" "RC_INPUT_CHANNELS r ! 2 \<le> cal r index_rc_schub_max"
    and "cal r index_rc_nick_min < cal r index_rc_nick_null" "cal r index_rc_nick_null < cal r index_rc_nick_max"
    and "cal r index_rc_nick_min \<le> RC_INPUT_CHANNELS r ! 1" "RC_INPUT_CHANNELS r ! 1 \<le> cal r index_rc_nick_max"
    and "cal r index_rc_roll_min < cal r index_rc_roll_null" "cal r index_rc_roll_null < cal r index_rc_roll_max"
    and "cal r index_rc_roll_min \<le> RC_INPUT_CHANNELS r ! 0" "RC_INPUT_CHANNELS r ! 0 \<le> cal r index_rc_roll_max"
    and "cal r index_rc_yaw_min < cal r index_rc_yaw_null" "cal r index_rc_yaw_null < cal r index_rc_yaw_max"
    and "cal r index_rc_yaw_min \<le> RC_INPUT_CHANNELS r ! 3" "RC_INPUT_CHANNELS r ! 3 \<le> cal r index_rc_yaw_max"
  shows "in32 0 1 (get_schub_soll r) \<and> in32 (- (1 / 2)) (1 / 2) (get_euler_nick_soll r)
    \<and> in32 (- (1 / 2)) (1 / 2) (get_euler_roll_soll r) \<and> in32 (- (1 / 2)) (1 / 2) (get_euler_yaw_soll r)"
  using get_schub_range[OF assms(1-3)] get_nick_range[OF assms(4-7)] get_roll_range[OF assms(8-11)]
    get_yaw_range[OF assms(12-15)] by blast

theorem setpoints_in_range_witness: "in32 0 1 (get_schub_soll (demo_rc 1333))"
  using setpoints_in_range[of "demo_rc 1333"] by (simp add: demo_rc_def cal_def cal_index)

text \<open>
  The values of a calibration are still there after the next start: what \<open>stop_calib\<close> writes to the
  store, \<open>setup_Fernsteuerung\<close> reads back, with the mark that a calibration has been done.
\<close>

theorem calibration_survives_restart:
  assumes "rc_ok s" "calibration_active s = 1" "ee_ok f b n" "n + 12 < PAGE_WORDS" "\<forall>i. no_fault c i"
    and "stop_calib c (s, dv, f) = (t, dv', f')"
  shows "cal_val (setup_Fernsteuerung ext f' fern_start) = cal_val t
    \<and> get_rc_calibration_ready (setup_Fernsteuerung ext f' fern_start) \<and> ee_ok f' b (n + 12)"
  using calibration_stored[OF assms(1-4) _ assms(6)] assms(5) by blast

theorem calibration_survives_restart_witness:
  "get_rc_calibration_ready (setup_Fernsteuerung True
     (snd (snd (stop_calib good_controller (start_calib (demo_rc 1100), 0, formatted)))) fern_start)"
proof -
  obtain t dv' f' where t: "stop_calib good_controller (start_calib (demo_rc 1100), 0, formatted) = (t, dv', f')"
    by (metis prod_cases3)
  have "rc_ok (start_calib (demo_rc 1100))"
    by (intro start_calib_ok) (simp add: rc_ok_def demo_rc_def fern_start_def RC_IN_RANGE_def)
  then show ?thesis
    using calibration_survives_restart[OF _ start_calib_ok(2) formatted_ok(1) _ _ t, of True] blank_ready(2) t
    by (simp add: PAGE_WORDS_def)
qed

section \<open>The flight control\<close>

text \<open>
  C22: After a pass of the controller, whatever the parameters, the inputs and the state
  before, the pulse of each motor is between 1 and 2 ms, and the compare register of its
  channel holds it; only when the output of the motor is a NaN, which the saturation lets
  through, the width is 0.
\<close>

theorem motor_pulse_range:
  assumes "i < 4"
  shows "(if is_nan (motor_outs (Regelung param m s) ! i) then pulses (Regelung param m s) ! i = 0
      else 1000 \<le> pulses (Regelung param m s) ! i \<and> pulses (Regelung param m s) ! i \<le> 2000)
    \<and> pwm_width (motoren (Regelung param m s)) i = word_of_int (pulses (Regelung param m s) ! i)"
  using Regelung_pulse_range[OF assms] Regelung_pwm[OF assms] by blast

theorem motor_pulse_range_witness:
  "1000 \<le> pulses (Regelung (replicate 42 0) ruhe regelung_start) ! 2"
  using motor_pulse_range[of 2 "replicate 42 0" ruhe regelung_start] Regelung_ruhe by (simp add: is_nan_def)

text \<open>
  With the throttle stick in the lowest sixteenth of its travel all motors get the
  pulse of standstill, and likewise when the stick is only one microsecond above the end
  found in the calibration.
\<close>

theorem throttle_cut:
  assumes "kalibriert r" "cal r index_rc_schub_null < cal r index_rc_schub_max"
    and "cal r index_rc_schub_max < RC_INPUT_CHANNELS r ! 2
      \<or> 16 * (uint (RC_INPUT_CHANNELS r ! 2) - uint (cal r index_rc_schub_null))
          \<le> uint (cal r index_rc_schub_max) - uint (cal r index_rc_schub_null)"
  shows "pulses (flight_pass param r m s) = [1000, 1000, 1000, 1000]"
  using assms(3) overshoot_idle[OF assms(1,2)] low_idle[OF assms(1,2)] by blast

theorem throttle_cut_witness:
  "pulses (flight_pass (replicate 42 0) (demo_rc 1901) ruhe regelung_start) = [1000, 1000, 1000, 1000]"
  by (rule throttle_cut) (simp_all add: demo_rc)

text \<open>
  C23: When the nick stick is not moved during a calibration, so that all its pulses are
  \<open>v\<close>, the first pass of the controller after it stops all motors until the next reset:
  in every later pass with the throttle open, whatever the parameters and the inputs are
  by then, all pulses have the width 0.
\<close>

theorem unmoved_stick_stops_motors:
  assumes "rc_ok r" "Fernsteuerung_ready_flag r" "\<forall>e \<in> set es. fst e < 4"
    and "set (pulses_on 1 es (start_calib r)) = {v}"
    and "stop_calib c (rc_run es (start_calib r), ds) = (t, ds')"
    and "gas (m_schub_soll m')"
  shows "pulses (Regelung param' m' (passes ps (flight_pass param (rc_run later t) m s))) = [0, 0, 0, 0]"
  using unmoved_stops[OF unmoved_setpoint[OF assms(1-5)] assms(6)] .

theorem unmoved_stick_stops_motors_witness:
  "pulses (Regelung (replicate 42 0) (ruhe\<lparr>m_schub_soll := f32 (1 / 2)\<rparr>) (flight_pass (replicate 42 0)
     (fst (stop_calib good_controller (rc_run [(1, True, 1500, 0)] (start_calib (demo_rc 1100)), 0, formatted)))
     ruhe regelung_start)) = [0, 0, 0, 0]"
proof -
  obtain t ds' where t: "stop_calib good_controller (rc_run [(1, True, 1500, 0)] (start_calib (demo_rc 1100)), 0, formatted) = (t, ds')"
    by (metis prod.exhaust)
  have g: "gas (m_schub_soll (ruhe\<lparr>m_schub_soll := f32 (1 / 2)\<rparr>))" by (simp add: gas_half)
  have r: "rc_ok (demo_rc 1100)" "Fernsteuerung_ready_flag (demo_rc 1100)"
    "set (pulses_on 1 [(1, True, 1500, 0)] (start_calib (demo_rc 1100))) = {1500}"
    by (simp_all add: rc_ok_def demo_rc_def fern_start_def RC_IN_RANGE_def start_calib_def accepted_def)
  show ?thesis
    using unmoved_stick_stops_motors[OF r(1,2) _ r(3) t g, where ps = "[]" and later = "[]"] t by simp
qed

text \<open>
  C24: The integrators do not wind up: in any sequence of passes the inner ones stay within
  -15 and 15, and while no axis runs the cascaded controller the outer ones stay
  within -10 and 10, unless a NaN has reached them.
\<close>

theorem integrators_bounded:
  assumes "ii_begrenzt s"
  shows "ii_begrenzt (passes ps s)
    \<and> (ia_begrenzt s \<and> (\<forall>(param, m) \<in> set ps. \<not> wahr (param ! 13) \<and> \<not> wahr (param ! 27) \<and> \<not> wahr (param ! 41))
        \<longrightarrow> ia_begrenzt (passes ps s))"
  using passes_invariant[of ii_begrenzt, OF assms Regelung_ii] passes_ia by blast

theorem integrators_bounded_witness:
  "ii_begrenzt (passes [(replicate 42 0, ruhe)] regelung_start) \<and> ia_begrenzt (passes [(replicate 42 0, ruhe)] regelung_start)"
  using integrators_bounded[of regelung_start "[(replicate 42 0, ruhe)]"] begrenzt_start by (simp add: wahr_def flt_eq_def)

text \<open>
  C25: A pass appends its line to the log ring, with the values the pass has computed; but
  when 49 lines are waiting, the pass that adds the fiftieth makes the ring look empty and
  all of them are lost. The printing thread takes the oldest line, and each line once.
\<close>

theorem log_ring:
  assumes "log_ok s"
  shows "log_ok (Regelung param m s)
    \<and> log_content (Regelung param m s) =
       (if length (log_content s) < 49
        then log_content s @ [(m_time m, log_zeile (m_fifo_count m) (Regelung param m s))] else [])
    \<and> (case log_content s of
        [] \<Rightarrow> print_schritt True True False s = (None, s)
      | l # ls \<Rightarrow> \<exists>t. print_schritt True True False s = (Some l, t) \<and> log_ok t \<and> log_content t = ls)"
  using Regelung_log[OF assms] print_content[OF assms, of True True False] by simp

theorem log_ring_witness:
  "length (log_content (Regelung (replicate 42 0) ruhe regelung_start)) = 1"
  using log_ring[OF log_start(1), of "replicate 42 0" ruhe] log_start(2) by simp

section \<open>The ground station link\<close>

text \<open>
  C26: A \<open>PARAM_SET\<close> frame that arrives byte by byte sets the parameter whose name agrees with the
  frame's in 15 characters, and no other, to the value of the frame, is answered by one
  frame with the name and the new value, and starts a new log; a frame with any other name
  changes nothing and is not answered. The index in the answer is not that of the parameter but that of the list
  that is being sent.
\<close>

theorem parameter_set:
  assumes "gcs_ok g" "surroundings_ok e" "length name = 16"
  shows "\<exists>lk. link_ok lk \<and> radio_bytes e (wire 23 sq si ci MAVLINK_MSG_ID_PARAM_SET (param_set_packet v t c name ty)) (g, rd) =
      (case filter (\<lambda>i. take 15 name = take 15 (param_name g ! i)) [0..<42] of
         [] \<Rightarrow> ([], g\<lparr>link := lk\<rparr>, rd)
       | i # _ \<Rightarrow> (param_frame i (m_parameter_i g) (g\<lparr>params := (params g)[i := v]\<rparr>),
                  g\<lparr>params := (params g)[i := v], new_sd_log := True, link := lk\<rparr>, rd))"
proof -
  define s where "s = \<lparr>param_value = v, target_system = t, target_component = c, param_id = name, param_type = ty\<rparr>"
  obtain lk where lk: "link_ok lk" "tx_seq lk = tx_seq (link g)"
    "radio_bytes e (wire 23 sq si ci MAVLINK_MSG_ID_PARAM_SET (param_set_packet v t c name ty)) (g, rd) =
      (case fold (param_set_step e s) [0..<42] ([], g\<lparr>link := lk\<rparr>) of (out, g') \<Rightarrow> (out, g', rd))"
    using param_set_received[OF assms refl, of sq si ci v t c ty rd] by (auto simp: s_def Let_def)
  have ok: "gcs_ok (g\<lparr>link := lk\<rparr>)" and n: "param_name g = param_names" and i: "param_id s = name"
    using assms(1) lk(1) by (simp_all add: gcs_ok_def s_def)
  note r = param_set_result[OF ok assms(2), of s, unfolded i, OF assms(3)]
  show ?thesis
  proof (cases "filter (\<lambda>i. take 15 name = take 15 (param_names ! i)) [0..<42]")
    case Nil
    then show ?thesis using lk r by (intro exI[of _ lk]) (simp add: n)
  next
    case (Cons i js)
    then show ?thesis using lk r
      by (intro exI[of _ "bump_tx lk"]) (simp add: n Let_def s_def param_frame_def)
  qed
qed

theorem parameter_set_witness:
  "params (fst (snd (radio_bytes (calm_surroundings good_controller) (wire 23 0 255 0 MAVLINK_MSG_ID_PARAM_SET
     (param_set_packet 0x3F800000 1 0 (param_names ! 13) 9)) (setup_Mavlink gcs_start, fern_start, 0, formatted)))) ! 13 = 0x3F800000"
  using parameter_set[OF setup_Mavlink_ok calm_surroundings_ok[of good_controller], of "param_names ! 13" 0 255 0 "0x3F800000" 1 0 9 "(fern_start, 0, formatted)"]
    param_names_table(1,2) setup_Mavlink_ok matches[of 13 "param_names ! 13"] by (auto simp: gcs_ok_def)

text \<open>
  After a \<open>PARAM_REQUEST_LIST\<close> frame the next 42 turns of the sending thread send every parameter
  once, in the order of the table, with its own index, and consecutive sequence numbers;
  later turns send nothing.
\<close>

theorem parameter_list:
  assumes "gcs_ok g" "\<forall>junk \<in> set js. length (payload junk) = 264" "length js = 42"
  shows "\<exists>g'. radio_bytes e (wire 2 sq si ci MAVLINK_MSG_ID_PARAM_REQUEST_LIST [t, c]) (g, rd) = ([], g', rd)
    \<and> fst (queued_sends (js @ rest) g') = map (list_frame g (tx_seq (link g))) [0..<42] @ replicate (length rest) []"
proof -
  obtain lk where lk: "link_ok lk" "tx_seq lk = tx_seq (link g)"
    "radio_bytes e (wire 2 sq si ci MAVLINK_MSG_ID_PARAM_REQUEST_LIST [t, c]) (g, rd) = ([], g\<lparr>link := lk, m_parameter_i := 0\<rparr>, rd)"
    using request_received[OF assms(1) refl] by blast
  have "gcs_ok (g\<lparr>link := lk, m_parameter_i := 0\<rparr>)" using assms(1) lk(1) by (simp add: gcs_ok_def)
  from list_after_request[OF this assms(2,3), of rest] show ?thesis
    using lk by (simp add: list_frame_def del: upt_Suc)
qed

theorem parameter_list_witness:
  "\<exists>g'. fst (queued_sends (replicate 43 blank_message) g') =
     map (list_frame (setup_Mavlink gcs_start) (tx_seq (link (setup_Mavlink gcs_start)))) [0..<42] @ [[]]"
proof -
  have j: "replicate 43 x = replicate 42 x @ [x]" for x :: mavlink_message using replicate_add[of 42 1 x] by simp
  show ?thesis unfolding j
    using parameter_list[OF setup_Mavlink_ok, of "replicate 42 blank_message" "calm_surroundings good_controller" 0 255 0 1 0 "(fern_start, 0, formatted)" "[blank_message]"]
    by (auto simp del: upt_Suc)
qed

text \<open>
  The command that stores the parameters and, at any later time and in any later state,
  the command that loads them, give back the parameters as they were when they were
  stored, while the stored calibration is left alone.
\<close>

theorem parameters_survive:
  assumes "gcs_ok g" "gcs_ok g2" "ee_ok f b n" "n + 84 < PAGE_WORDS" "\<forall>i. no_fault (flash_controller e) i"
  shows "\<exists>lk f'. radio_bytes e (wire 33 sq si ci MAVLINK_MSG_ID_COMMAND_LONG (storage_packet 0x3F800000 t c)) (g, r, dv, f)
        = ([], g\<lparr>link := lk\<rparr>, r, dv, f')
    \<and> (\<exists>lk2. radio_bytes e2 (wire 33 sq2 si ci MAVLINK_MSG_ID_COMMAND_LONG (storage_packet 0 t c)) (g2, r2, dv2, f')
        = ([], g2\<lparr>params := params g, link := lk2\<rparr>, r2, dv2, f'))
    \<and> cal_val (setup_Fernsteuerung ext f' fern_start) = cal_val (setup_Fernsteuerung ext f fern_start)"
proof -
  obtain lk where lk: "radio_bytes e (wire 33 sq si ci MAVLINK_MSG_ID_COMMAND_LONG (storage_packet 0x3F800000 t c)) (g, r, dv, f)
      = ([], g\<lparr>link := lk\<rparr>, r, write_param_to_eeprom (flash_controller e) (g\<lparr>link := lk\<rparr>) (dv, f))"
    using storage_received(1)[OF assms(1) refl] by blast
  obtain lk2 where lk2: "\<And>f'. radio_bytes e2 (wire 33 sq2 si ci MAVLINK_MSG_ID_COMMAND_LONG (storage_packet 0 t c)) (g2, r2, dv2, f')
      = ([], read_param_from_eeprom (stack_low e2) (stack_high e2) f' (g2\<lparr>link := lk2 f'\<rparr>), r2, dv2, f')"
    using storage_received(2)[OF assms(2) refl, of e2 sq2 si ci t c r2 "(dv2, _)"] by (simp; metis)
  have l: "length (params (g\<lparr>link := lk\<rparr>)) = 42" "\<And>x. length (params (g2\<lparr>link := x\<rparr>)) = 42" "\<And>i. no_fault (flash_controller e) i"
    using assms(1,2,5) by (simp_all add: gcs_ok_def)
  obtain f' where f': "write_param_to_eeprom (flash_controller e) (g\<lparr>link := lk\<rparr>) (dv, f) = (dv, f')"
    "\<And>l h x. read_param_from_eeprom l h f' (g2\<lparr>link := x\<rparr>) = g2\<lparr>link := x, params := params g\<rparr>"
    "\<And>w. w \<noteq> 0xFFFF \<Longrightarrow> w \<notin> fst ` set (param_vars (params g)) \<Longrightarrow> EE_ReadVariable w f' = EE_ReadVariable w f"
    using params_stored[OF assms(3,4) l(3,1), of dv] l(2) by auto
  have "cal_val (setup_Fernsteuerung ext f' fern_start) = cal_val (setup_Fernsteuerung ext f fern_start)"
    using f'(3) by (intro arg_cong[where f = cal_val] calibration_untouched)
  then show ?thesis using lk lk2[of f'] f'(1,2)
    by (intro exI[of _ lk] exI[of _ f'] conjI exI[of _ "lk2 f'"]) simp_all
qed

theorem parameters_survive_witness:
  "\<exists>f' lk. radio_bytes (calm_surroundings good_controller) (wire 33 1 255 0 MAVLINK_MSG_ID_COMMAND_LONG (storage_packet 0 1 0))
      (setup_Mavlink gcs_start, fern_start, 0, f')
     = ([], (setup_Mavlink gcs_start)\<lparr>params := replicate 42 1, link := lk\<rparr>, fern_start, 0, f')"
proof -
  let ?e = "calm_surroundings good_controller" and ?g = "(setup_Mavlink gcs_start)\<lparr>params := replicate 42 1\<rparr>"
  have "gcs_ok ?g" "\<forall>i. no_fault (flash_controller ?e) i"
    using setup_Mavlink_ok blank_ready(2) by (simp_all add: gcs_ok_def calm_surroundings_def)
  from parameters_survive[OF this(1) setup_Mavlink_ok formatted_ok(1) _ this(2),
      of 0 255 0 1 0 fern_start 0 ?e 1 fern_start 0] show ?thesis
    by (simp add: PAGE_WORDS_def) blast
qed



text \<open>
  C28: As long as the radio thread runs after every byte, the parser gets every byte, in order. But when
  two bytes come in before it runs, it takes one of them and then none for ever: the
  driver signals input only when its queue was empty, and the thread reads one byte
  for each signal.
\<close>

theorem radio_stalls:
  assumes "port_idle p"
  shows "fst (port_run nfy (concat (map (\<lambda>b. [Incoming b, RadioTurn]) bs)) p) = bs
    \<and> fst (port_run nfy ([Incoming a, Incoming b, RadioTurn] @ es) p) = [a]"
proof -
  obtain p1 where p1: "port_run nfy [Incoming a, Incoming b, RadioTurn] p = ([a], p1)" "port_stalled p1"
    using two_bytes_stall[OF assms] by blast
  have "fst (port_run nfy ([Incoming a, Incoming b, RadioTurn] @ es) p) = [a]"
    unfolding port_run_append p1(1) using stalled_run[OF p1(2), of nfy es] by (cases "port_run nfy es p1") simp
  moreover obtain p2 where "port_run nfy (concat (map (\<lambda>b. [Incoming b, RadioTurn]) bs)) p = (bs, p2)"
    using turn_for_each[OF assms] by blast
  ultimately show ?thesis by simp
qed

theorem radio_stalls_witness:
  "fst (port_run (\<lambda>_ _ k. k) [Incoming 254, Incoming 1, RadioTurn, RadioTurn, Incoming 2, RadioTurn]
     (\<lparr>sd_state = SD_READY, sd_iqueue = 0, sd_oqueue = 2, sd_event = 0, sd_flags = 0\<rparr>, comms)) = [254]"
proof -
  have "port_idle (\<lparr>sd_state = SD_READY, sd_iqueue = 0, sd_oqueue = 2, sd_event = 0, sd_flags = 0\<rparr>, comms)"
    using comms_ok by (simp add: port_idle_def)
  from radio_stalls[OF this, of "\<lambda>_ _ k. k" "[]" 254 1 "[RadioTurn, Incoming 2, RadioTurn]"] show ?thesis by simp
qed

section \<open>The attitude sensor\<close>

text \<open>
  On a device that keeps its registers, \<open>writeBits\<close> puts the data into the field and
  \<open>readBits\<close> reads it back, cut to the length of the field; the other bits of the register and all other registers are as they
  were.
\<close>

theorem register_field:
  assumes "keeps_registers bus a reg R" "r \<in> R" "n \<le> bitStart + 1" "bitStart < 8"
  shows "\<exists>s1 s2. writeBits bus a r bitStart n data s = (True, s1)
    \<and> readBits bus rxbuf a r bitStart n s1 = (take_bit n data, s2)
    \<and> (\<forall>i < 8. i < bitStart + 1 - n \<or> bitStart < i \<longrightarrow> bit (reg (chip s1) r) i = bit (reg (chip s) r) i)
    \<and> (\<forall>q \<in> R - {r}. reg (chip s1) q = reg (chip s) q)"
proof -
  obtain s1 where s1: "writeBits bus a r bitStart n data s = (True, s1)"
    "\<And>q. q \<in> R \<Longrightarrow> reg (chip s1) q = ((reg (chip s))(r := put_field bitStart n data (reg (chip s) r))) q"
    using writeBits_reg[OF assms(1,2)] by blast
  obtain s2 where "readBits bus rxbuf a r bitStart n s1
      = (drop_bit (bitStart + 1 - n) (reg (chip s1) r AND bit_mask bitStart n), s2)"
    using readBits_reg[OF assms(1,2)] by blast
  then show ?thesis using s1 assms(2) field_read_back[OF assms(3,4)] field_others[OF assms(3)] by auto
qed

theorem register_field_witness:
  "\<exists>s1 s2 :: (u8 \<Rightarrow> u8) i2c. writeBits register_bus 0x68 0x1B 4 2 3 \<lparr>chip = (\<lambda>_. 0xFF), rxbuf_global = [0, 0]\<rparr> = (True, s1)
     \<and> readBits register_bus [0, 0] 0x68 0x1B 4 2 s1 = (3, s2) \<and> chip s1 0x1A = 0xFF"
proof -
  have r: "(0x1B :: u8) \<in> {r. r < 128}" "(0x1A :: u8) \<in> {r. r < 128} - {0x1B}" "take_bit 2 (3 :: u8) = 3" by simp_all
  define s where "s = \<lparr>chip = (\<lambda>_ :: u8. 0xFF :: u8), rxbuf_global = [0, 0 :: u8]\<rparr>"
  obtain s1 s2 where "writeBits register_bus 0x68 0x1B 4 2 3 s = (True, s1)"
    "readBits register_bus [0, 0] 0x68 0x1B 4 2 s1 = (take_bit 2 3, s2)" "chip s1 0x1A = chip s 0x1A"
    using register_field[OF register_bus_ok[of "0x68"] r(1), of 2 4 3 s "[0, 0]"] r(2) by auto
  then show ?thesis using r(3) by (auto simp: s_def)
qed

text \<open>
  C29: On a sensor that keeps its memory, loading the program of the motion processor succeeds and the memory
  then holds it from its beginning, across all banks; loading the configuration
  succeeds and writes exactly the 29 blocks of the table, over the program, in order.
\<close>

theorem dmp_loaded:
  assumes "keeps_memory bus bk ad mm" "16 \<le> length vb" "\<forall>i. 16 \<le> length (vb' i)"
  shows "\<exists>s1 s2. writeProgMemoryBlock bus vb dmpMemory MPU6050_DMP_CODE_SIZE 0 0 True s = (True, s1)
    \<and> mm (chip s1) = written dmpMemory 0 (mm (chip s))
    \<and> writeProgDMPConfigurationSet bus vb' dmpConfig MPU6050_DMP_CONFIG_SIZE s1 = (True, s2)
    \<and> mm (chip s2) = fold put_block dmp_blocks (mm (chip s1))"
proof -
  have n: "pos 0 0 + MPU6050_DMP_CODE_SIZE \<le> 8192" "0 < MPU6050_DMP_CODE_SIZE" "MPU6050_DMP_CODE_SIZE \<le> length dmpMemory"
    "pos 0 0 = 0" "take MPU6050_DMP_CODE_SIZE dmpMemory = dmpMemory"
    by (simp_all add: pos_def MPU6050_DMP_CODE_SIZE_def dmp_tables)
  obtain s1 where "writeMemoryBlock bus vb dmpMemory MPU6050_DMP_CODE_SIZE 0 0 True s = (True, s1)"
    "mm (chip s1) = written dmpMemory 0 (mm (chip s))"
    using write_block_ok[OF assms(1) n(1,2) assms(2) n(3), of True s] unfolding n(4,5) by blast
  moreover have "config_blocks 30 (drop 0 dmpConfig) = Some dmp_blocks" "\<And>i. 16 \<le> length (vb' i)"
    using dmp_blocks(1) assms(3) by simp_all
  then obtain s2 where "config_loop bus vb' dmpConfig (length dmpConfig) 0 s1 = (True, s2)"
    "mm (chip s2) = fold put_block dmp_blocks (mm (chip s1))"
    using config_loop_ok[OF assms(1) _ _ dmp_blocks(2)] by blast
  ultimately show ?thesis
    by (simp add: writeProgMemoryBlock_def writeProgDMPConfigurationSet_def writeDMPConfigurationSet_def
        MPU6050_DMP_CONFIG_SIZE_def dmp_tables)
qed

theorem dmp_loaded_witness:
  "\<exists>s1 :: (u8 \<times> u8 \<times> (u8 \<Rightarrow> u8 \<Rightarrow> u8)) mpu. writeProgMemoryBlock memory_bus (replicate 256 0) dmpMemory MPU6050_DMP_CODE_SIZE 0 0 True
     \<lparr>chip = (0, 0, \<lambda>_ _. 0), rxbuf_global = [0, 0], buffer = replicate 14 0\<rparr> = (True, s1)
   \<and> snd (snd (chip s1)) 0 0 = 0xFB"
proof -
  have "written dmpMemory 0 m 0 0 = 0xFB" for m by (simp add: written_def pos_def dmpMemory_def dmp_bank0_def)
  moreover have "16 \<le> length (replicate 256 (0 :: u8))" "\<forall>i :: nat. 16 \<le> length (replicate 256 (0 :: u8))" by simp_all
  ultimately show ?thesis
    using dmp_loaded[OF memory_bus_ok, of "replicate 256 0" "\<lambda>_. replicate 256 0"
        "\<lparr>chip = (0, 0, \<lambda>_ _. 0), rxbuf_global = [0, 0], buffer = replicate 14 0\<rparr>"] by auto
qed





section \<open>Interrupts\<close>

text \<open>
  C32: After the start exactly the lines of the table interrupt, each on its edges. Whatever edges come, and whenever the
  interrupts are served, a handler calls exactly the callbacks of the lines that are pending on its vector, each
  once and the lowest line first, and acknowledges exactly those; it never calls \<^verbatim>\<open>NULL\<close>, although the handlers do not look.
\<close>

theorem interrupt_table:
  assumes "ext_state e = EXT_STOP" "EXTI_PR e AND NOT EXT_CHANNELS_MASK = 0"
    and "(ext_step run)\<^sup>*\<^sup>* (setup_ExternalInterrupt e, s) (e1, s1)"
  shows "(\<forall>i. (bit (EXTI_RTSR e1) i \<longleftrightarrow> i \<in> {7, 10, 11, 12, 13}) \<and> (bit (EXTI_FTSR e1) i \<longleftrightarrow> i \<in> {0, 10, 11, 12, 13})
      \<and> (bit (EXTI_IMR e1) i \<longleftrightarrow> i \<in> {0, 7, 10, 11, 12, 13}))
    \<and> (\<forall>i. bit (EXTI_PR e1) i \<longrightarrow> i \<in> {0, 7, 10, 11, 12, 13} \<and> ch_cb (channel e1 i) \<noteq> None
      \<and> ext_irq run i (e1, s1) =
          map_option (Pair (acknowledge (vector_lines i) e1)) (call_all run (pending_calls e1 (vector_lines i)) s1)
      \<and> (\<forall>n. bit (EXTI_PR (acknowledge (vector_lines i) e1)) n \<longleftrightarrow> bit (EXTI_PR e1) n \<and> n \<notin> set (vector_lines i)))"
proof -
  have "ext_ok extcfg (setup_ExternalInterrupt e)"
    unfolding setup_ExternalInterrupt_def by (rule table.start_ok[OF assms(2,1)])
  then have ok: "ext_ok extcfg e1" using table.reachable_ok[OF assms(3)] by simp
  have m: "bit (EXTI_IMR e1) i \<longleftrightarrow> i \<in> {0, 7, 10, 11, 12, 13}" for i using ok extcfg_starts by (simp add: ext_ok_def)
  have p: "i \<in> {0, 7, 10, 11, 12, 13}" if "bit (EXTI_PR e1) i" for i
    using table.pending_callback(2)[OF ok that] extcfg_starts by blast
  show ?thesis
    by (intro conjI allI impI) (rule extcfg_edges[OF ok] m p table.pending_callback(1)[OF ok] table.irq_calls[OF ok]
      acknowledge_PR; assumption?)+
qed

theorem interrupt_table_witness:
  "\<exists>e1. (ext_step (\<lambda>h i s. Some (s @ [(h, i)])))\<^sup>*\<^sup>* (setup_ExternalInterrupt ext_reset, []) (e1, [])
     \<and> ext_irq (\<lambda>h i s. Some (s @ [(h, i)])) 7 (e1, []) = Some (acknowledge (vector_lines 7) e1, [(CB_mpu_6050_interrupt, 7)])"
proof -
  let ?run = "\<lambda>h i s. Some (s @ [(h, i)])" and ?e0 = "setup_ExternalInterrupt ext_reset"
  let ?e1 = "edge 7 True ?e0"
  have s: "(ext_step ?run)\<^sup>*\<^sup>* (?e0, []) (?e1, [])" by (rule r_into_rtranclp) (rule ext_edge)
  have pr: "EXTI_PR ?e1 = line_bit 7" using extcfg_edges(1)[OF reset_started(3), of 7] by (simp add: edge_def reset_started)
  have p: "bit (EXTI_PR ?e1) i \<longleftrightarrow> i = 7" for i unfolding pr by (auto simp: bit_line)
  have "ext_config ?e0 = Some extcfg" using reset_started(3) by (simp add: ext_ok_def)
  then have "channel ?e1 7 = \<lparr>ch_mode = 5, ch_cb = Some CB_mpu_6050_interrupt\<rparr>"
    by (simp add: channel_def edge_def extcfg_channels)
  then have "call_all ?run (pending_calls ?e1 (vector_lines 7)) [] = Some [(CB_mpu_6050_interrupt, 7)]"
    by (simp add: pending_calls_def vector_lines_def p)
  moreover have "ext_irq ?run 7 (?e1, []) =
      map_option (Pair (acknowledge (vector_lines 7) ?e1)) (call_all ?run (pending_calls ?e1 (vector_lines 7)) [])"
    by (rule conjunct2[OF interrupt_table[OF reset_started(1,2) s], THEN spec, THEN mp, THEN conjunct2, THEN conjunct2, THEN conjunct1])
      (simp add: p)
  ultimately have "ext_irq ?run 7 (?e1, []) = Some (acknowledge (vector_lines 7) ?e1, [(CB_mpu_6050_interrupt, 7)])" by simp
  then show ?thesis using s by blast
qed

text \<open>
  C33: A pulse of the receiver is measured right, to the tick, when no other channel interrupts while it lasts, and also when the next
  channel of a higher number begins at the moment at which it ends. But all channels share one time stamp: when
  another channel rises during the pulse, or at its end and has a lower number, the width is
  counted from there and is wrong, or is dropped when that is too short.
\<close>

theorem receiver_pulses:
  fixes c :: controller and ch j :: nat
  assumes "ext_ok extcfg e" "EXTI_PR e = 0" "ch < 4" "j < 4" "j \<noteq> ch" "length (RC_INPUT_CHANNELS (ck_rc k)) = 4"
    and "up (10 + ch) = (False, a1, t0)" "down (10 + ch) = (True, t1, a2)" "both (10 + ch) = (True, t1, a2)"
    and "both (10 + j) = (False, a3, t2)" "RC_IN_RANGE (t1 - t0)"
  defines "irq \<equiv> \<lambda>ins i x. ext_irq (run_callback c ins) i (x :: irq_callback ext \<times> 'd cockpit)"
    and "late \<equiv> (if RC_IN_RANGE (t1 - t2) then t1 - t2 else width ch k)"
  shows "\<exists>k1. irq up (10 + ch) (edge (10 + ch) True e, k) = Some (e, k1)
    \<and> (\<exists>k2. irq down (10 + ch) (edge (10 + ch) False e, k1) = Some (e, k2) \<and> width ch k2 = t1 - t0)
    \<and> (\<exists>k2. irq both (10 + ch) (edge (10 + j) True (edge (10 + ch) False e), k1) = Some (e, k2)
        \<and> width ch k2 = (if ch < j then t1 - t0 else late))
    \<and> (\<exists>k2 k3. irq both (10 + j) (edge (10 + j) True e, k1) = Some (e, k2)
        \<and> irq down (10 + ch) (edge (10 + ch) False e, k2) = Some (e, k3) \<and> width ch k3 = late)"
proof -
  let ?up = "\<lambda>ch t. on_rc (rx_interrupt ch (recorder ch) False t t)"
  define k1 where "k1 = on_rc (rx_interrupt ch (recorder ch) False a1 t0) k"
  define k2 where "k2 = on_rc (rx_interrupt j (recorder j) False a3 t2) k1"
  note one = one_line[OF assms(1,2)] and two = two_lines[OF assms(1-5)]
  have l: "length (RC_INPUT_CHANNELS (ck_rc k1)) = 4" "length (RC_INPUT_CHANNELS (ck_rc k2)) = 4"
    "RC_INPUT_LAST_TCNT (ck_rc k1) = t0" "RC_INPUT_LAST_TCNT (ck_rc k2) = t2" "width ch k1 = width ch k" "width ch k2 = width ch k"
    using assms(6) by (simp_all add: k1_def k2_def)
  have u: "irq up (10 + ch) (edge (10 + ch) True e, k) = Some (e, k1)"
    using run_rx[where ins = up and i = "10 + ch", OF assms(3,7)] by (simp add: irq_def one[OF assms(3)] k1_def)
  have r: "run_callback c both (rx_callback j) (10 + j) x = Some (on_rc (rx_interrupt j (recorder j) False a3 t2) x)" for x
    by (rule run_rx[where ins = both and i = "10 + j", OF assms(4,10)])
  have d: "run_callback c down (rx_callback ch) (10 + ch) x = Some (on_rc (rx_interrupt ch (recorder ch) True t1 a2) x)"
    "run_callback c both (rx_callback ch) (10 + ch) x = Some (on_rc (rx_interrupt ch (recorder ch) True t1 a2) x)" for x
    by (rule run_rx[where ins = down and i = "10 + ch", OF assms(3,8)], rule run_rx[where ins = both and i = "10 + ch", OF assms(3,9)])
  note w1 = falling_width[OF assms(3) l(1)] and w2 = falling_width[OF assms(3) l(2)]
  have "\<exists>k2. irq down (10 + ch) (edge (10 + ch) False e, k1) = Some (e, k2) \<and> width ch k2 = t1 - t0"
    using assms(11) by (simp add: irq_def one[OF assms(3)] d w1 l Let_def)
  moreover have "\<exists>k2. irq both (10 + ch) (edge (10 + j) True (edge (10 + ch) False e), k1) = Some (e, k2)
        \<and> width ch k2 = (if ch < j then t1 - t0 else late)"
  proof (cases "ch < j")
    case True
    then show ?thesis using assms(11) by (simp add: irq_def two d r w1 l Let_def)
  next
    case False
    then show ?thesis using w2 by (simp add: irq_def two d r k2_def[symmetric] l Let_def late_def)
  qed
  moreover have "irq both (10 + j) (edge (10 + j) True e, k1) = Some (e, k2)"
    using r by (simp add: irq_def one[OF assms(4)] k2_def)
  moreover have "\<exists>k3. irq down (10 + ch) (edge (10 + ch) False e, k2) = Some (e, k3) \<and> width ch k3 = late"
    using w2 by (simp add: irq_def one[OF assms(3)] d l Let_def late_def)
  ultimately show ?thesis using u by blast
qed

theorem receiver_pulses_witness:
  "\<exists>k1 k2 k3 k4. let e = setup_ExternalInterrupt ext_reset; irq = (\<lambda>ins. ext_irq (run_callback good_controller ins));
       down = (\<lambda>_. (True, 1600, 0))
     in irq (\<lambda>_. (False, 0, 100)) 10 (edge 10 True e, demo_cockpit) = Some (e, k1)
      \<and> irq down 10 (edge 10 False e, k1) = Some (e, k2) \<and> width 0 k2 = 1500
      \<and> irq (\<lambda>i. if i = 10 then (True, 1600, 0) else (False, 0, 600)) 11 (edge 11 True e, k1) = Some (e, k3)
      \<and> irq down 10 (edge 10 False e, k3) = Some (e, k4) \<and> width 0 k4 = 1000"
proof -
  let ?both = "\<lambda>i :: nat. if i = 10 then (True, 1600, 0) else (False, 0, 600 :: u16)"
  have h: "(0 :: nat) < 4" "(1 :: nat) < 4" "(1 :: nat) \<noteq> 0" "length (RC_INPUT_CHANNELS (ck_rc demo_cockpit)) = 4"
    "?both (10 + 0) = (True, 1600, 0)" "?both (10 + 1) = (False, 0, 600)" "RC_IN_RANGE (1600 - 100)"
    by (simp_all add: demo_cockpit_def demo_rc_def RC_IN_RANGE_def)
  have late: "(if RC_IN_RANGE (1600 - 600) then 1600 - 600 else width 0 demo_cockpit) = 1000" by (simp add: RC_IN_RANGE_def)
  from receiver_pulses[where up = "\<lambda>_. (False, 0, 100)" and down = "\<lambda>_. (True, 1600, 0)" and c = good_controller,
      OF reset_started(3,4) h(1-4) refl refl h(5-7)]
  obtain k1 k2 k3 k4 where "ext_irq (run_callback good_controller (\<lambda>_. (False, 0, 100))) 10
      (edge 10 True (setup_ExternalInterrupt ext_reset), demo_cockpit) = Some (setup_ExternalInterrupt ext_reset, k1)"
    "ext_irq (run_callback good_controller (\<lambda>_. (True, 1600, 0))) 10 (edge 10 False (setup_ExternalInterrupt ext_reset), k1)
      = Some (setup_ExternalInterrupt ext_reset, k2)" "width 0 k2 = 1500"
    "ext_irq (run_callback good_controller ?both) 11 (edge 11 True (setup_ExternalInterrupt ext_reset), k1)
      = Some (setup_ExternalInterrupt ext_reset, k3)"
    "ext_irq (run_callback good_controller (\<lambda>_. (True, 1600, 0))) 10 (edge 10 False (setup_ExternalInterrupt ext_reset), k3)
      = Some (setup_ExternalInterrupt ext_reset, k4)" "width 0 k4 = 1000"
    unfolding late by (auto simp del: if_image_distrib)
  then show ?thesis unfolding Let_def by blast
qed

section \<open>The memory card\<close>

text \<open>
  C34: The table-driven checksum of the commands to the memory card is the remainder of the division, bit by bit, by
  $x^7 + x^3 + 1$; its index never leaves the table; and a change of one byte anywhere in a
  buffer goes unnoticed only if it is the bit pattern of that polynomial.
\<close>

theorem card_checksum:
  "crc7 0 buf = crc7_reference 0 buf \<and> unat (crc7 0 buf) < 128
   \<and> crc7_index (crc7 0 buf) x < length crc7_lookup_table
   \<and> (crc7 0 (xs @ a # ys) = crc7 0 (xs @ b # ys) \<longleftrightarrow> a = b \<or> a XOR b = 0x89)"
proof -
  have z: "unat (0 :: u8) < 128" and l: "length crc7_lookup_table = 256" by (simp_all add: crc7_table_span)
  show ?thesis
    using crc7_is_reference[OF z] crc7_bound[OF z, of buf] crc7_index_bound[OF crc7_bound[OF z, of buf], of x]
      crc7_detects[OF z] l by simp
qed

text \<open>
  C35: The monitor debounces the insertion switch. However often its timer has expired and whatever the switch
  read, after a start the driver takes a card for inserted exactly if the last ten readings were all
  positive, and otherwise waits; and each expiry arms the timer again for ten ticks.
\<close>

theorem card_debounced:
  assumes "vt_ok (disarmed (polled cs s))"
  shows "mmc_state (mmcp (polled cs s)) =
      (if present (map (is_inserted (mmcp s)) cs) then MMC_INSERTED else MMC_WAIT)
    \<and> remaining (kern (monitor_expire (polled cs s))) (mmc_vt (mmcp (polled cs s))) = Some 10"
  using polled_state monitor_rearmed(1)[OF assms] by blast

theorem card_debounced_witness:
  "mmc_state (mmcp (polled (replicate 10 (slave before_start)) before_start)) = MMC_INSERTED
   \<and> mmc_state (mmcp (polled (replicate 9 (slave before_start)) before_start)) = MMC_WAIT"
proof -
  have k: "vt_list (kern before_start) = []" "vt_func (kern before_start) = Map.empty"
    "is_inserted (mmcp before_start) = (\<lambda>c. True)"
    by (simp_all add: before_start_def ready_sd_def cold_def mmc_is_inserted_True)
  have "vt_ok (disarmed (polled cs before_start))" for cs
    using lone_timer_disarmed[OF lone_timer_polled[OF k(1,2)]] by blast
  from card_debounced[OF this] show ?thesis using k(3) by (simp add: present_def)
qed

text \<open>
  C36: Whatever cards are pulled or put in while the calls sleep, and however the calls end, a sequence of
  calls that connect, disconnect, read and write leaves the driver object consistent and never in
  the middle of a transfer; and a connection is reported exactly if the driver is ready afterwards.
\<close>

theorem card_driver_consistent:
  assumes "monitor B" "mmc_ok (mmcp s)" "\<not> transferring s" "sd_run B calls s = Some s1"
  shows "mmc_ok (mmcp s1) \<and> \<not> transferring s1
    \<and> (\<forall>b s2. mmcConnect B s1 = Some (b, s2) \<longrightarrow> (\<not> b \<longleftrightarrow> mmc_state (mmcp s2) = MMC_READY))"
  using monitor.sd_run_ok[OF assms] monitor.connect_result(2)[OF assms(1)] by blast

theorem card_driver_consistent_witness:
  "\<exists>s1. sd_run (card_board True 1000) [SD_Write (replicate 512 7) 3 1] (ready_sd True) = Some s1
     \<and> mmc_ok (mmcp s1) \<and> \<not> transferring s1"
proof -
  have h: "unat (3 :: u32) + unat (1 :: u8) \<le> 1000" "0 < (1 :: u8)" "512 * unat (1 :: u8) \<le> length (replicate 512 (7 :: u8))"
    by simp_all
  obtain s1 where "disk_write (card_board True 1000) 0 (replicate 512 7) 3 1 (ready_sd True) = Some (RES_OK, s1)"
    by (rule card_1000.disk_write_good[OF ready_sd_ok h ready_sd_consistent(3)])
  then have run: "sd_run (card_board True 1000) [SD_Write (replicate 512 7) 3 1] (ready_sd True) = Some s1"
    by (simp add: MMC_drive_def)
  show ?thesis
    using card_driver_consistent[OF card_monitor.monitor_axioms ready_sd_consistent(1,2) run] run by blast
qed

text \<open>
  C37: On a card that keeps to the SPI protocol, as the SD specification documents it, sectors written through
  the disk interface succeed and read back as written, whatever was on the card: a read of any run of sectors gives
  the written ones where the runs meet and the old ones elsewhere, and the driver is ready again after both.
\<close>

theorem disk_round_trip:
  assumes "sd_card B cfg switch in_phase hc cap" "card_state cfg switch hc in_phase MMC_READY (Idle sel n) m s"
    and "unat sector + unat count \<le> cap" "0 < count" "length buff = 512 * unat count" "\<not> mmcIsWriteProtected s"
    and "unat sector2 + unat count2 \<le> cap" "0 < count2" "length buff2 = 512 * unat count2"
  shows "\<exists>s1 s2 n2. disk_write B 0 buff sector count s = Some (RES_OK, s1)
    \<and> disk_read B 0 buff2 sector2 count2 s1 = Some ((RES_OK,
        concat (map (put_sectors (unat sector) (unat count) buff m) [unat sector2..<unat sector2 + unat count2])), s2)
    \<and> (sector2 = sector \<longrightarrow> count2 = count \<longrightarrow>
        disk_read B 0 buff2 sector2 count2 s1 = Some ((RES_OK, buff), s2))
    \<and> card_state cfg switch hc in_phase MMC_READY (Idle False n2) (put_sectors (unat sector) (unat count) buff m) s2"
proof -
  let ?m = "put_sectors (unat sector) (unat count) buff m"
  have l: "512 * unat count \<le> length buff" using assms(5) by simp
  obtain s1 n1 where 1: "disk_write B 0 buff sector count s = Some (RES_OK, s1)"
    "card_state cfg switch hc in_phase MMC_READY (Idle False n1) ?m s1"
    by (rule sd_card.disk_write_good[OF assms(1-4) l assms(6)])
  obtain s2 n2 where 2: "disk_read B 0 buff2 sector2 count2 s1 = Some ((RES_OK,
      concat (map ?m [unat sector2..<unat sector2 + unat count2]) @ drop (512 * unat count2) buff2), s2)"
    "card_state cfg switch hc in_phase MMC_READY (Idle False n2) ?m s2"
    by (rule sd_card.disk_read_good[OF assms(1) 1(2) assms(7,8)])
  have "concat (map ?m [unat sector..<unat sector + unat count]) = buff" by (rule concat_put_sectors[OF assms(5)])
  then show ?thesis using 1 2 assms(9) by auto
qed

theorem disk_round_trip_witness:
  "\<exists>s1 s2. disk_write (card_board False 1000) 0 (replicate 1024 7) 3 2 (ready_sd False) = Some (RES_OK, s1)
     \<and> disk_read (card_board False 1000) 0 (replicate 1024 0) 3 2 s1 = Some ((RES_OK, replicate 1024 7), s2)"
proof -
  have h: "unat (3 :: u32) + unat (2 :: u8) \<le> 1000" "0 < (2 :: u8)" "length (replicate 1024 (7 :: u8)) = 512 * unat (2 :: u8)"
    "length (replicate 1024 (0 :: u8)) = 512 * unat (2 :: u8)" by simp_all
  show ?thesis
    using disk_round_trip[OF card_1000 ready_sd_ok h(1,2,3) ready_sd_consistent(3) h(1,2,4)] by blast
qed

text \<open>
  C38: Connecting works. With a card that starts up as the SD specification documents it, in fewer than 100 polls, \<open>mmcConnect\<close>
  succeeds, the mount thread sets the flag of the flight log, and a sector that is then written
  succeeds and reads back. For the last part the driver must not have met a card with block addresses before, unless
  this is one too: it never goes back to byte addresses.
\<close>

theorem card_starts:
  assumes "sd_boot B cfg switch in_phase hc cap lcfg booting v2 n0 ocr" "booting (Listening False Powered) m (slave s)"
    and "mmc_state (mmcp s) = MMC_INSERTED" "mmc_cnt (mmcp s) = 0" "is_inserted (mmcp s) = switch"
    and "lscfg (mmcp s) = lcfg" "hscfg (mmcp s) = cfg" "sp_thread (spip s) = None"
  shows "\<exists>s1. mmcConnect B s = Some (False, s1)
    \<and> mmcp s1 = (mmcp s)\<lparr>mmc_state := MMC_READY, block_addresses := block_addresses (mmcp s) \<or> hc\<rparr>
    \<and> (\<forall>l. lg_sd l = s \<longrightarrow> (\<exists>l1. SDMountThread B l = Some l1 \<and> Datalogger_ready l1))
    \<and> ((block_addresses (mmcp s) \<longrightarrow> hc) \<longrightarrow> \<not> mmcIsWriteProtected s1 \<longrightarrow>
        (\<forall>w buff buff2. unat w < cap \<longrightarrow> length buff = 512 \<longrightarrow> length buff2 = 512 \<longrightarrow>
          (\<exists>s2 s3. disk_write B 0 buff w 1 s1 = Some (RES_OK, s2)
            \<and> disk_read B 0 buff2 w 1 s2 = Some ((RES_OK, buff), s3))))"
proof -
  have card: "sd_card B cfg switch in_phase hc cap" by (rule sd_boot.axioms(1)[OF assms(1)])
  obtain s1 where c: "mmcConnect B s = Some (False, s1)"
    "mmcp s1 = (mmcp s)\<lparr>mmc_state := MMC_READY, block_addresses := block_addresses (mmcp s) \<or> hc\<rparr>"
    "spi_at_rest cfg s1" "in_phase (Idle False 0) m (slave s1)"
    by (rule sd_boot.connect_boots[OF assms(1,3-8,2)])
  have "\<exists>s2 s3. disk_write B 0 buff w 1 s1 = Some (RES_OK, s2) \<and> disk_read B 0 buff2 w 1 s2 = Some ((RES_OK, buff), s3)"
    if "block_addresses (mmcp s) \<longrightarrow> hc" "\<not> mmcIsWriteProtected s1" "unat w < cap" "length buff = 512" "length buff2 = 512"
    for w buff buff2
  proof -
    have s1: "card_state cfg switch hc in_phase MMC_READY (Idle False 0) m s1"
      using c that(1) assms(4,5,7) by (auto simp: card_state_def)
    note p = that(2)
    have w: "unat w + unat (1 :: u8) \<le> cap" "0 < (1 :: u8)" "512 * unat (1 :: u8) \<le> length buff" using that(3,4) by simp_all
    obtain s2 n where 2: "disk_write B 0 buff w 1 s1 = Some (RES_OK, s2)"
      "card_state cfg switch hc in_phase MMC_READY (Idle False n) (put_sectors (unat w) (unat (1 :: u8)) buff m) s2"
      by (rule sd_card.disk_write_good[OF card s1 w p])
    from sd_card.disk_read_good[OF card 2(2) w(1,2), of buff2] obtain s3 where
      "disk_read B 0 buff2 w 1 s2 = Some ((RES_OK, concat (map (put_sectors (unat w) (unat (1 :: u8)) buff m)
        [unat w..<unat w + unat (1 :: u8)]) @ drop (512 * unat (1 :: u8)) buff2), s3)" by blast
    then show ?thesis using 2(1) concat_put_sectors[of buff "unat (1 :: u8)" "unat w" m] that(4,5) by auto
  qed
  then show ?thesis using c mount_ready by (intro exI[of _ s1]) auto
qed

theorem card_starts_witness:
  "\<exists>s1 s2 s3. mmcConnect (fresh_board True) (found_sd False) = Some (False, s1)
     \<and> disk_write (fresh_board True) 0 (replicate 512 7) 999 1 s1 = Some (RES_OK, s2)
     \<and> disk_read (fresh_board True) 0 (replicate 512 0) 999 1 s2 = Some ((RES_OK, replicate 512 7), s3)"
proof -
  have w: "unat (999 :: u32) < 1000" by simp
  obtain s1 where 1: "mmcConnect (fresh_board True) (found_sd False) = Some (False, s1)"
    "mmcp s1 = (mmcp (found_sd False))\<lparr>mmc_state := MMC_READY, block_addresses := block_addresses (mmcp (found_sd False)) \<or> True\<rparr>"
    "\<not> mmcIsWriteProtected s1 \<longrightarrow> (\<exists>s2 s3. disk_write (fresh_board True) 0 (replicate 512 7) 999 1 s1 = Some (RES_OK, s2)
     \<and> disk_read (fresh_board True) 0 (replicate 512 0) 999 1 s2 = Some ((RES_OK, replicate 512 7), s3))"
    using card_starts[OF fresh_boots found_ok(7,1-6), of True False] w length_replicate[of 512] by metis
  then have "\<not> mmcIsWriteProtected s1" by (simp add: mmcIsWriteProtected_def found_ok mmc_is_protected_def)
  then show ?thesis using 1 by blast
qed

text \<open>
  C39: An empty slot and a card that hangs. When the line reads as ones, connecting ends, and fails. When it
  is held low, which is how a card says that it is busy, connecting, reading and writing never return: none of the waits for the card has a limit.
\<close>

theorem card_line_dead:
  assumes "mmc_state (mmcp s) = MMC_INSERTED" "mmc_state (mmcp t) = MMC_READY" "\<not> mmcIsWriteProtected t"
  shows "(empty_slot B \<longrightarrow> (\<exists>s1. mmcConnect B s = Some (True, s1)))
    \<and> (held_low B \<longrightarrow> mmcConnect B s = None \<and> disk_read B 0 buff sector count t = None
        \<and> disk_write B 0 buff sector count t = None)"
  using connect_empty[OF _ assms(1)] connect_low[OF _ assms(1)] disk_low[OF _ assms(2)] assms(3) by blast

definition line_board :: "u8 \<Rightarrow> (sdcard, sdcard sd) board" where
  "line_board v = (card_board True 1000)\<lparr>shift_frame := \<lambda>b c. (v, c)\<rparr>"

theorem card_line_dead_witness:
  "(\<exists>s1. mmcConnect (line_board 0xFF) (set_mmc_state MMC_INSERTED (ready_sd True)) = Some (True, s1))
   \<and> mmcConnect (line_board 0) (set_mmc_state MMC_INSERTED (ready_sd True)) = None
   \<and> disk_write (line_board 0) 0 [] 0 1 (ready_sd True) = None"
proof -
  have b: "empty_slot (line_board 0xFF)" "held_low (line_board 0)"
    by (simp_all add: empty_slot_def held_low_def line_board_def)
  have s: "mmc_state (mmcp (set_mmc_state MMC_INSERTED (ready_sd True))) = MMC_INSERTED"
    "mmc_state (mmcp (ready_sd True)) = MMC_READY" by (simp_all add: set_mmc_state_def ready_sd_def)
  show ?thesis using b card_line_dead[OF s ready_sd_consistent(3), of "line_board 0xFF"]
      card_line_dead[OF s ready_sd_consistent(3), of "line_board 0"] by blast
qed

text \<open>
  C40: The data logger gets one chance. Its insertion switch always reads as closed, so whatever happens to the
  card, and in whatever order its threads and the monitor run, the mount thread is created at most
  once after the start; and once that thread has ended the flag that enables the flight log never
  changes again: a failed connection is not retried, and a card that has been pulled still counts as ready.
\<close>

theorem logger_one_chance:
  assumes "currp (kern s) = t" "epending (kern s) t = 0" "inserted_event (mmcp s) \<noteq> removed_event (mmcp s)" "el0 \<noteq> el1"
    and "lg_sd l0 = dispatch_start el0 el1 s" "lg_threads l0 = 0" "lg_mounts l0 = 0"
    and "(logger_step t B)\<^sup>*\<^sup>* l0 l"
  shows "lg_threads l \<le> 1 \<and> (lg_mounts l = 1 \<longrightarrow>
    (\<forall>l'. (logger_step t B)\<^sup>*\<^sup>* l l' \<longrightarrow> Datalogger_ready l' = Datalogger_ready l))"
proof -
  have inv: "one_chance t el0 l"
    using assms(8)
  proof (induction rule: rtranclp_induct)
    case base
    show ?case by (rule start_one_chance[OF assms(1-7)])
  next
    case (step l1 l2)
    then show ?case by (rule_tac logger_step_one_chance)
  qed
  then have "lg_threads l \<le> 1" by (auto simp: one_chance_def Let_def split: if_splits)
  moreover have "Datalogger_ready l' = Datalogger_ready l" if "lg_mounts l = 1" "(logger_step t B)\<^sup>*\<^sup>* l l'" for l'
  proof -
    have "one_chance t el0 l' \<and> lg_mounts l' = 1 \<and> Datalogger_ready_flag l' = Datalogger_ready_flag l" using that(2)
    proof (induction rule: rtranclp_induct)
      case (step l1 l2)
      then show ?case using logger_step_one_chance[OF step(2)] logger_step_flag[OF step(2)] by metis
    qed (simp add: inv that(1))
    then show ?thesis by (simp add: Datalogger_ready_def)
  qed
  ultimately show ?thesis by blast
qed

theorem logger_one_chance_witness:
  "\<exists>l. (logger_step mainthread open_board)\<^sup>*\<^sup>* logger_start l \<and> lg_mounts l = 1 \<and> lg_threads l \<le> 1
     \<and> \<not> Datalogger_ready (polls 100 l)"
proof -
  obtain l where l: "(logger_step mainthread open_board)\<^sup>*\<^sup>* logger_start l" "lg_mounts l = 1" "\<not> Datalogger_ready l"
    using logger_fails by blast
  have s: "lg_sd logger_start = dispatch_start 0 1 before_start" "lg_threads logger_start = 0" "lg_mounts logger_start = 0"
    "(0 :: nat) \<noteq> 1"
    by (simp_all add: logger_start_def)
  have "Datalogger_ready (polls 100 l) = Datalogger_ready l" "lg_threads l \<le> 1"
    using logger_one_chance[OF before_start_ok s(4,1,2,3) l(1)] l(2) polls_steps by blast+
  then show ?thesis using l by blast
qed

end
